(* ===== verification/Prelude.thy ===== *)
theory Prelude
  imports Main "HOL-Library.Word" "HOL-Library.Monad_Syntax"
begin

text \<open>
  Shared vocabulary of the development: the fixed-width integers of inc/types.h, the error
  codes of inc/error.h as a datatype, the collections of simplification rules the component
  theories fill, and generic lemmas on words, lists and the option monad.

  Conventions used everywhere:
  \<^item> a C function that can panic (or dereference a null or invalid pointer, which is a
    page fault in kernel mode and a panic in page_fault_handler of kern/trap.c) returns an
    \<open>option\<close>, with \<open>None\<close> for the panic; sequencing is the \<open>do\<close> notation of the option
    monad over an explicitly passed state;
  \<^item> a C function that returns \<open>0\<close> or \<open>-E_xxx\<close> returns \<open>errno + 'a\<close>, with \<open>Inl\<close> for the
    error.
\<close>

unbundle bit_operations_syntax

section \<open>Integers and error codes\<close>

type_synonym u8 = "8 word"
type_synonym u16 = "16 word"
type_synonym u32 = "32 word"
type_synonym u64 = "64 word"

datatype errno =
    E_UNSPECIFIED | E_BAD_ENV | E_INVAL | E_NO_MEM | E_NO_FREE_ENV | E_FAULT
  | E_IPC_NOT_RECV | E_EOF | E_NO_DISK | E_MAX_OPEN | E_NOT_FOUND | E_BAD_PATH
  | E_FILE_EXISTS | E_NOT_EXEC | E_NOT_SUPP

fun errcode :: "errno \<Rightarrow> int" where
  "errcode E_UNSPECIFIED = 1"
| "errcode E_BAD_ENV = 2"
| "errcode E_INVAL = 3"
| "errcode E_NO_MEM = 4"
| "errcode E_NO_FREE_ENV = 5"
| "errcode E_FAULT = 6"
| "errcode E_IPC_NOT_RECV = 7"
| "errcode E_EOF = 8"
| "errcode E_NO_DISK = 9"
| "errcode E_MAX_OPEN = 10"
| "errcode E_NOT_FOUND = 11"
| "errcode E_BAD_PATH = 12"
| "errcode E_FILE_EXISTS = 13"
| "errcode E_NOT_EXEC = 14"
| "errcode E_NOT_SUPP = 15"

definition MAXERROR :: int where
  "MAXERROR = 15"

lemma errcode_range: "1 \<le> errcode e \<and> errcode e \<le> MAXERROR"
  by (cases e) (simp_all add: MAXERROR_def)

lemma errcode_inj: "errcode e = errcode e' \<longleftrightarrow> e = e'"
  by (cases e; cases e') simp_all

section \<open>Rule collections\<close>

named_theorems layout "values of the memory-layout constants"
named_theorems addr_simps "decomposition of addresses and page-table entries"
named_theorems frame_simps "fields an operation leaves unchanged"

section \<open>The option monad\<close>

lemma bind_Some_iff:
  "(Option.bind m f = Some y) \<longleftrightarrow> (\<exists>x. m = Some x \<and> f x = Some y)"
  by (cases m) auto

lemma bind_None_iff:
  "(Option.bind m f = None) \<longleftrightarrow> (m = None \<or> (\<exists>x. m = Some x \<and> f x = None))"
  by (cases m) auto

section \<open>Words\<close>

lemma unat_drop_bit: "unat (drop_bit n (w :: 'a::len word)) = unat w div 2 ^ n"
  by (simp add: unat_drop_bit_eq drop_bit_nat_def)

lemma and_mask_lt: "n < 32 \<Longrightarrow> unat ((w :: u32) AND mask n) < 2 ^ n"
  by (simp add: take_bit_eq_mask [symmetric] unsigned_take_bit_eq take_bit_nat_less_exp)

lemma unat_inc16: "unat (r :: u16) < 65535 \<Longrightarrow> unat (r + 1) = Suc (unat r)"
  by (simp add: unat_word_ariths)

lemma unat_dec16: "0 < unat (r :: u16) \<Longrightarrow> unat (r - 1) = unat r - 1"
  by (metis less_irrefl unat_0 unat_minus_one)

lemma dec16_zero: "0 < unat (r :: u16) \<Longrightarrow> r - 1 = 0 \<longleftrightarrow> unat r = 1"
  by (metis diff_add_cancel add_0 cancel_comm_monoid_add_class.diff_cancel unat_1 word_unat_eq_iff)

section \<open>Iteration with panics\<close>

text \<open>A \<open>for\<close> loop over a list of indices whose body can panic.\<close>

fun iter_opt :: "('a \<Rightarrow> 's \<Rightarrow> 's option) \<Rightarrow> 'a list \<Rightarrow> 's \<Rightarrow> 's option" where
  "iter_opt f [] s = Some s"
| "iter_opt f (x # xs) s = (case f x s of None \<Rightarrow> None | Some s' \<Rightarrow> iter_opt f xs s')"

lemma iter_opt_append:
  "iter_opt f (xs @ ys) s = (case iter_opt f xs s of None \<Rightarrow> None | Some s' \<Rightarrow> iter_opt f ys s')"
  by (induction xs arbitrary: s) (auto split: option.splits)

text \<open>The invariant rule: \<open>P done s\<close> holds after the elements \<open>done\<close>.\<close>

lemma iter_opt_invariant:
  assumes "P [] s"
    and "\<And>done x rest s. xs = done @ x # rest \<Longrightarrow> P done s \<Longrightarrow> \<exists>s'. f x s = Some s' \<and> P (done @ [x]) s'"
  shows "\<exists>s'. iter_opt f xs s = Some s' \<and> P xs s'"
proof -
  have "P pre s \<Longrightarrow> xs = pre @ ys \<Longrightarrow> \<exists>s'. iter_opt f ys s = Some s' \<and> P xs s'" for pre ys s
  proof (induction ys arbitrary: pre s)
    case Nil
    then show ?case by simp
  next
    case (Cons y ys)
    then obtain s' where "f y s = Some s'" "P (pre @ [y]) s'" using assms(2) by blast
    with Cons.IH [of "pre @ [y]" s'] Cons.prems show ?case by simp
  qed
  from this [of "[]" s xs] assms(1) show ?thesis by simp
qed

section \<open>Sums that do not wrap around\<close>

lemma unat_sub_ge: "unat b \<le> unat a \<Longrightarrow> unat ((a :: u32) - b) = unat a - unat b"
  by (simp add: unat_sub word_le_nat_alt)

lemma unat_sub_lt: "unat a < unat b \<Longrightarrow> unat ((a :: u32) - b) = 2 ^ 32 + unat a - unat b"
  using unat_sub_if' [of a b] by simp

lemma unat_add_small: "unat a + unat b < 2 ^ 32 \<Longrightarrow> unat ((a :: u32) + b) = unat a + unat b"
  by (simp add: unat_word_ariths)

section \<open>Bytes of words\<close>

definition get_byte :: "nat \<Rightarrow> u32 \<Rightarrow> u8" where
  "get_byte k w = ucast (drop_bit (8 * k) w)"

definition put_byte :: "nat \<Rightarrow> u8 \<Rightarrow> u32 \<Rightarrow> u32" where
  "put_byte k b w = (w AND NOT (push_bit (8 * k) 0xFF)) OR push_bit (8 * k) (ucast b)"

text \<open>Little-endian fields of a byte image.\<close>

definition le16 :: "(u32 \<Rightarrow> u8) \<Rightarrow> u32 \<Rightarrow> u16" where
  "le16 f a = ucast (f a) OR push_bit 8 (ucast (f (a + 1)))"

definition le32 :: "(u32 \<Rightarrow> u8) \<Rightarrow> u32 \<Rightarrow> u32" where
  "le32 f a = ucast (f a) OR push_bit 8 (ucast (f (a + 1))) OR push_bit 16 (ucast (f (a + 2)))
     OR push_bit 24 (ucast (f (a + 3)))"

lemma mask8_num: "(0xFF :: u32) = mask 8"
  by (simp add: mask_eq_exp_minus_1)

lemma get_put_byte:
  assumes "k < 4" "j < 4"
  shows "get_byte k (put_byte j b w) = (if k = j then b else get_byte k w)"
proof (rule bit_word_eqI)
  fix n assume n: "n < LENGTH(8)"
  have "8 * k + n < 32" using n assms by simp
  moreover have "8 * j \<le> 8 * k + n \<and> 8 * k + n - 8 * j < 8 \<longleftrightarrow> k = j"
    using n by auto
  ultimately show "bit (get_byte k (put_byte j b w)) n = bit (if k = j then b else get_byte k w) n"
    using n unfolding mask8_num get_byte_def put_byte_def
    by (auto simp: bit_simps mask8_num dest: bit_imp_le_length)
qed

lemma join_bytes:
  "(ucast (get_byte 0 w) :: u32) OR push_bit 8 (ucast (get_byte 1 w)) OR push_bit 16 (ucast (get_byte 2 w))
     OR push_bit 24 (ucast (get_byte 3 w)) = w"
proof (rule bit_word_eqI)
  fix n assume n: "n < LENGTH(32)"
  consider "n < 8" | "8 \<le> n \<and> n < 16" | "16 \<le> n \<and> n < 24" | "24 \<le> n" by linarith
  then show "bit ((ucast (get_byte 0 w) :: u32) OR push_bit 8 (ucast (get_byte 1 w))
      OR push_bit 16 (ucast (get_byte 2 w)) OR push_bit 24 (ucast (get_byte 3 w))) n = bit w n"
    using n by cases (auto simp: get_byte_def bit_simps)
qed

lemma case_sum_Some:
  "(case r of Inl e \<Rightarrow> g e | Inr v \<Rightarrow> h v) = Some y
    \<longleftrightarrow> (\<exists>e. r = Inl e \<and> g e = Some y) \<or> (\<exists>v. r = Inr v \<and> h v = Some y)"
  by (cases r) auto

lemma get_byte_le32: "k < 4 \<Longrightarrow> get_byte k (le32 m a) = m (a + of_nat k)"
proof -
  assume k: "k < 4"
  show ?thesis
  proof (rule bit_word_eqI)
    fix n assume n: "n < LENGTH(8)"
    from k consider "k = 0" | "k = 1" | "k = 2" | "k = 3" by linarith
    then show "bit (get_byte k (le32 m a)) n = bit (m (a + of_nat k)) n"
      using n by cases (auto simp: get_byte_def le32_def bit_simps dest: bit_imp_le_length)
  qed
qed

lemma le32_bytes:
  assumes "\<And>j. j < 4 \<Longrightarrow> f (a + of_nat j) = get_byte j w"
  shows "le32 f a = w"
proof (rule bit_word_eqI)
  fix n assume "n < LENGTH(32)"
  then have "n div 8 < 4" and n: "n = 8 * (n div 8) + n mod 8" by (simp_all add: less_mult_imp_div_less)
  moreover have "get_byte (n div 8) (le32 f a) = get_byte (n div 8) w"
    using get_byte_le32 [of "n div 8" f a] assms \<open>n div 8 < 4\<close> by simp
  ultimately have "bit (get_byte (n div 8) (le32 f a)) (n mod 8) = bit (get_byte (n div 8) w) (n mod 8)" by simp
  then show "bit (le32 f a) n = bit w n" by (simp add: get_byte_def bit_simps)
qed

text \<open>The image whose words are \<open>w\<close>.\<close>

definition word_image :: "(nat \<Rightarrow> u32) \<Rightarrow> u32 \<Rightarrow> u8" where
  "word_image w a = get_byte (unat a mod 4) (w (unat a div 4))"

lemma le32_word_image:
  assumes "4 * k + 4 < 2 ^ 32"
  shows "le32 (word_image w) (of_nat (4 * k)) = w k"
proof (rule le32_bytes)
  fix j :: nat assume j: "j < 4"
  have "unat (of_nat (4 * k + j) :: u32) = (4 * k + j) mod 2 ^ LENGTH(32)" by (rule unat_of_nat)
  then have "unat (of_nat (4 * k + j) :: u32) = 4 * k + j" using assms j by (simp del: of_nat_add)
  moreover have "(4 * k + j) div 4 = k" "(4 * k + j) mod 4 = j" using j by simp_all
  ultimately show "word_image w (of_nat (4 * k) + of_nat j) = get_byte j (w k)"
    unfolding word_image_def of_nat_add [symmetric] by simp
qed

end
