(* ===== verification/Console.thy ===== *)
theory Console
  imports Prelude
begin

text \<open>
  kern/console.c: the keyboard scan-code automaton, the circular input buffer that the
  interrupt handlers fill and cons_getc empties, and the text-mode display with its cursor,
  tabs and scrolling. The devices themselves are inputs and outputs: the bytes pending in the
  serial port and the keyboard controller are arguments, the bytes written to the serial and
  parallel ports are lists. Delays, the wait for a ready transmitter and the cursor registers
  of the display are in Console_Ports, which refines these functions.
\<close>

unbundle bit_operations_syntax

section \<open>The keyboard\<close>

text \<open>Initialised tables: a prefix in order and designated entries; all others are 0.\<close>

definition lookup8 :: "u8 list \<Rightarrow> (u8 \<times> u8) list \<Rightarrow> u8 \<Rightarrow> u8" where
  "lookup8 pre des d =
     (if unat d < length pre then pre ! unat d
      else case map_of des d of Some c \<Rightarrow> c | None \<Rightarrow> 0)"

definition normalmap :: "u8 \<Rightarrow> u8" where
  "normalmap d = lookup8
    [0, 27, 49, 50, 51, 52, 53, 54, 55, 56, 57, 48, 45, 61, 8, 9, 113, 119, 101, 114, 116, 121,
     117, 105, 111, 112, 91, 93, 10, 0, 97, 115, 100, 102, 103, 104, 106, 107, 108, 59, 39, 96,
     0, 92, 122, 120, 99, 118, 98, 110, 109, 44, 46, 47, 0, 42, 0, 32, 0, 0, 0, 0, 0, 0, 0, 0,
     0, 0, 0, 0, 0, 55, 56, 57, 45, 52, 53, 54, 43, 49, 50, 51, 48, 46, 0, 0, 0, 0]
    [(199, 224), (156, 10), (181, 47), (200, 226), (201, 230), (203, 228), (205, 229),
     (207, 225), (208, 227), (209, 231), (210, 232), (211, 233)] d"

definition shiftmap :: "u8 \<Rightarrow> u8" where
  "shiftmap d = lookup8
    [0, 27, 33, 64, 35, 36, 37, 94, 38, 42, 40, 41, 95, 43, 8, 9, 81, 87, 69, 82, 84, 89, 85,
     73, 79, 80, 123, 125, 10, 0, 65, 83, 68, 70, 71, 72, 74, 75, 76, 58, 34, 126, 0, 124, 90,
     88, 67, 86, 66, 78, 77, 60, 62, 63, 0, 42, 0, 32, 0, 0, 0, 0, 0, 0, 0, 0, 0, 0, 0, 0, 0,
     55, 56, 57, 45, 52, 53, 54, 43, 49, 50, 51, 48, 46, 0, 0, 0, 0]
    [(199, 224), (156, 10), (181, 47), (200, 226), (201, 230), (203, 228), (205, 229),
     (207, 225), (208, 227), (209, 231), (210, 232), (211, 233)] d"

definition ctlmap :: "u8 \<Rightarrow> u8" where
  "ctlmap d = lookup8
    [0, 0, 0, 0, 0, 0, 0, 0, 0, 0, 0, 0, 0, 0, 0, 0, 17, 23, 5, 18, 20, 25, 21, 9, 15, 16, 0,
     0, 13, 0, 1, 19, 4, 6, 7, 8, 10, 11, 12, 0, 0, 0, 0, 28, 26, 24, 3, 22, 2, 14, 13, 0, 0,
     239, 0, 0]
    [(151, 224), (181, 239), (200, 226), (201, 230), (203, 228), (205, 229), (207, 225),
     (208, 227), (209, 231), (210, 232), (211, 233)] d"

definition SHIFT :: u32 where "SHIFT = 1"
definition CTL :: u32 where "CTL = 2"
definition ALT :: u32 where "ALT = 4"
definition CAPSLOCK :: u32 where "CAPSLOCK = 8"
definition NUMLOCK :: u32 where "NUMLOCK = 16"
definition SCROLLLOCK :: u32 where "SCROLLLOCK = 32"
definition E0ESC :: u32 where "E0ESC = 64"
definition KEY_DEL :: int where "KEY_DEL = 0xE9"

lemmas kbd_flags = SHIFT_def CTL_def ALT_def CAPSLOCK_def NUMLOCK_def SCROLLLOCK_def E0ESC_def

definition shiftcode :: "u8 \<Rightarrow> u32" where
  "shiftcode d =
     (if d = 0x1D \<or> d = 0x9D then CTL
      else if d = 0x2A \<or> d = 0x36 then SHIFT
      else if d = 0x38 \<or> d = 0xB8 then ALT
      else 0)"

definition togglecode :: "u8 \<Rightarrow> u32" where
  "togglecode d =
     (if d = 0x3A then CAPSLOCK
      else if d = 0x45 then NUMLOCK
      else if d = 0x46 then SCROLLLOCK
      else 0)"

definition charcode :: "u32 \<Rightarrow> u8 \<Rightarrow> u8" where
  "charcode i = (if i = 0 then normalmap else if i = 1 then shiftmap else ctlmap)"

text \<open>
  The static variable \<open>shift\<close>, and whether Ctrl-Alt-Del asked the board to reboot.
\<close>

record kbd =
  kbd_shift :: u32
  kbd_reboot :: bool

text \<open>\<open>kbd_proc_data\<close> when the controller holds the byte \<open>data\<close>.\<close>

definition kbd_proc_data :: "u8 \<Rightarrow> kbd \<Rightarrow> int \<times> kbd" where
  "kbd_proc_data data k =
     (let shift = kbd_shift k in
      if data = 0xE0 then (0, k\<lparr>kbd_shift := shift OR E0ESC\<rparr>)
      else if data AND 0x80 \<noteq> 0 then
        let d = (if shift AND E0ESC \<noteq> 0 then data else data AND 0x7F)
        in (0, k\<lparr>kbd_shift := shift AND NOT (shiftcode d OR E0ESC)\<rparr>)
      else
        let esc = (shift AND E0ESC \<noteq> 0);
            d = (if esc then data OR 0x80 else data);
            sh1 = (if esc then shift AND NOT E0ESC else shift);
            sh2 = sh1 OR shiftcode d;
            sh3 = sh2 XOR togglecode d;
            c = uint (charcode (sh3 AND (CTL OR SHIFT)) d);
            c' = (if sh3 AND CAPSLOCK \<noteq> 0 then
                    if 97 \<le> c \<and> c \<le> 122 then c - 32
                    else if 65 \<le> c \<and> c \<le> 90 then c + 32 else c
                  else c);
            reboot = (NOT sh3 AND (CTL OR ALT) = 0 \<and> c' = KEY_DEL)
        in (c', k\<lparr>kbd_shift := sh3, kbd_reboot := kbd_reboot k \<or> reboot\<rparr>))"

section \<open>The input buffer\<close>

definition CONSBUFSIZE :: nat where "CONSBUFSIZE = 512"

record consbuf =
  cons_buf :: "nat \<Rightarrow> u8"
  cons_rpos :: nat
  cons_wpos :: nat

definition cons_put :: "u8 \<Rightarrow> consbuf \<Rightarrow> consbuf" where
  "cons_put c b =
     (let b1 = b\<lparr>cons_buf := (cons_buf b)(cons_wpos b := c), cons_wpos := cons_wpos b + 1\<rparr>
      in if cons_wpos b1 = CONSBUFSIZE then b1\<lparr>cons_wpos := 0\<rparr> else b1)"

text \<open>
  \<open>cons_intr(proc)\<close>: \<open>proc\<close> is called until it returns -1, which it does when the device has
  no byte left. \<open>'k\<close> is the state of the device's driver.
\<close>

fun cons_intr :: "(u8 \<Rightarrow> 'k \<Rightarrow> int \<times> 'k) \<Rightarrow> u8 list \<Rightarrow> 'k \<Rightarrow> consbuf \<Rightarrow> 'k \<times> consbuf" where
  "cons_intr proc [] k b = (k, b)"
| "cons_intr proc (d # ds) k b =
     (case proc d k of (c, k') \<Rightarrow>
        if c = -1 then (k', b)
        else if c = 0 then cons_intr proc ds k' b
        else cons_intr proc ds k' (cons_put (word_of_int c) b))"

definition serial_proc_data :: "u8 \<Rightarrow> unit \<Rightarrow> int \<times> unit" where
  "serial_proc_data d k = (uint d, k)"

definition serial_intr :: "bool \<Rightarrow> u8 list \<Rightarrow> consbuf \<Rightarrow> consbuf" where
  "serial_intr serial_exists ds b =
     (if serial_exists then snd (cons_intr serial_proc_data ds () b) else b)"

definition kbd_intr :: "u8 list \<Rightarrow> kbd \<Rightarrow> consbuf \<Rightarrow> kbd \<times> consbuf" where
  "kbd_intr ds k b = cons_intr kbd_proc_data ds k b"

definition cons_get :: "consbuf \<Rightarrow> u8 \<times> consbuf" where
  "cons_get b =
     (if cons_rpos b \<noteq> cons_wpos b then
        let c = cons_buf b (cons_rpos b);
            b1 = b\<lparr>cons_rpos := cons_rpos b + 1\<rparr>
        in (c, if cons_rpos b1 = CONSBUFSIZE then b1\<lparr>cons_rpos := 0\<rparr> else b1)
      else (0, b))"

definition cons_getc ::
  "bool \<Rightarrow> u8 list \<Rightarrow> u8 list \<Rightarrow> kbd \<times> consbuf \<Rightarrow> u8 \<times> kbd \<times> consbuf" where
  "cons_getc serial_exists ser scancodes st =
     (case st of (k, b) \<Rightarrow>
        let b1 = serial_intr serial_exists ser b;
            (k2, b2) = kbd_intr scancodes k b1;
            (c, b3) = cons_get b2
        in (c, k2, b3))"

section \<open>The display\<close>

definition CRT_ROWS :: nat where "CRT_ROWS = 25"
definition CRT_COLS :: nat where "CRT_COLS = 80"
definition CRT_SIZE :: nat where "CRT_SIZE = CRT_ROWS * CRT_COLS"

lemmas crt_consts = CRT_ROWS_def CRT_COLS_def CRT_SIZE_def

record crt =
  crt_buf :: "nat \<Rightarrow> u16"
  crt_pos :: u16
  serial_out :: "u8 list"
  lpt_out :: "u8 list"

text \<open>The character with the attribute, from the two colour variables of lib/printfmt.c.\<close>

definition cga_attr :: "u32 \<Rightarrow> u32 \<Rightarrow> u32 \<Rightarrow> u32" where
  "cga_attr color background c =
     (let c1 = c + push_bit 8 color + push_bit 12 background
      in if c1 AND NOT 0xFF = 0 then c1 OR 0x0700 else c1)"

definition crt_store :: "u16 \<Rightarrow> u16 \<Rightarrow> crt \<Rightarrow> crt" where
  "crt_store pos v t = t\<lparr>crt_buf := (crt_buf t)(unat pos := v)\<rparr>"

definition crt_scroll :: "crt \<Rightarrow> crt" where
  "crt_scroll t =
     (if unat (crt_pos t) \<ge> CRT_SIZE then
        let b1 = (\<lambda>i. if i < CRT_SIZE - CRT_COLS then crt_buf t (i + CRT_COLS) else crt_buf t i);
            b2 = (\<lambda>i. if CRT_SIZE - CRT_COLS \<le> i \<and> i < CRT_SIZE then 0x0720 else b1 i)
        in t\<lparr>crt_buf := b2, crt_pos := crt_pos t - of_nat CRT_COLS\<rparr>
      else t)"

text \<open>\<open>cga_putc\<close>, with the function it calls for the blanks of a tab as \<open>putc\<close>.\<close>

definition cga_putc :: "(u32 \<Rightarrow> crt \<Rightarrow> crt) \<Rightarrow> u32 \<Rightarrow> u32 \<Rightarrow> u32 \<Rightarrow> crt \<Rightarrow> crt" where
  "cga_putc putc color background ch t =
     (let c = cga_attr color background ch;
          low = c AND 0xFF;
          t1 =
            (if low = 8 then
               if crt_pos t > 0 then
                 let t' = t\<lparr>crt_pos := crt_pos t - 1\<rparr>
                 in crt_store (crt_pos t') (ucast ((c AND NOT 0xFF) OR 32)) t'
               else t
             else if low = 10 then
               let p = crt_pos t + of_nat CRT_COLS
               in t\<lparr>crt_pos := p - p mod of_nat CRT_COLS\<rparr>
             else if low = 13 then
               t\<lparr>crt_pos := crt_pos t - crt_pos t mod of_nat CRT_COLS\<rparr>
             else if low = 9 then (putc 32 ^^ 5) t
             else (crt_store (crt_pos t) (ucast c) t)\<lparr>crt_pos := crt_pos t + 1\<rparr>)
      in crt_scroll t1)"

text \<open>
  \<open>cons_putc\<close> and \<open>cga_putc\<close> call each other for the blanks of a tab. A blank is no tab, so
  two levels are enough (\<open>cons_putc_unfold\<close>).
\<close>

definition port_out :: "u32 \<Rightarrow> crt \<Rightarrow> crt" where
  "port_out c t = t\<lparr>serial_out := serial_out t @ [ucast c], lpt_out := lpt_out t @ [ucast c]\<rparr>"

fun cons_putc_fuel :: "nat \<Rightarrow> u32 \<Rightarrow> u32 \<Rightarrow> u32 \<Rightarrow> crt \<Rightarrow> crt" where
  "cons_putc_fuel 0 color background c t = t"
| "cons_putc_fuel (Suc n) color background c t =
     cga_putc (cons_putc_fuel n color background) color background c (port_out c t)"

definition cons_putc :: "u32 \<Rightarrow> u32 \<Rightarrow> u32 \<Rightarrow> crt \<Rightarrow> crt" where
  "cons_putc = cons_putc_fuel 2"

end
