(* ===== verification/Interfaces.thy ===== *)
theory Interfaces
  imports Prelude
begin

text \<open>
  The contracts between components: the bounded first-in first-out buffer that the readers of the
  console's circular buffer rely on, and the allocator that the kernel's pages and the file
  server's blocks share: a finite set of available resources, an allocation that hands one of
  them out or fails with an error code when there is none, and a release that makes a resource
  available again. Allocation and release can panic; the contract says when they do not.
\<close>

locale fifo =
  fixes put :: "'a \<Rightarrow> 'b \<Rightarrow> 'b"
    and get :: "'b \<Rightarrow> 'a \<times> 'b"
    and contents :: "'b \<Rightarrow> 'a list"
    and inv :: "'b \<Rightarrow> bool"
    and capacity :: nat
    and none :: 'a
  assumes put_inv: "inv b \<Longrightarrow> inv (put x b)"
    and put_contents: "inv b \<Longrightarrow> length (contents b) < capacity \<Longrightarrow>
          contents (put x b) = contents b @ [x]"
    and get_inv: "inv b \<Longrightarrow> inv (snd (get b))"
    and get_empty: "inv b \<Longrightarrow> contents b = [] \<Longrightarrow> get b = (none, b)"
    and get_Cons: "inv b \<Longrightarrow> contents b = x # xs \<Longrightarrow>
          fst (get b) = x \<and> contents (snd (get b)) = xs"
begin

lemma puts_inv: "inv b \<Longrightarrow> inv (fold put xs b)"
  by (induction xs arbitrary: b) (simp_all add: put_inv)

lemma puts_contents:
  "inv b \<Longrightarrow> length (contents b) + length xs \<le> capacity \<Longrightarrow>
     contents (fold put xs b) = contents b @ xs"
  by (induction xs arbitrary: b) (simp_all add: put_inv put_contents)

text \<open>Read \<open>n\<close> elements.\<close>

primrec gets :: "nat \<Rightarrow> 'b \<Rightarrow> 'a list \<times> 'b" where
  "gets 0 b = ([], b)"
| "gets (Suc n) b = (case get b of (x, b1) \<Rightarrow> case gets n b1 of (xs, b2) \<Rightarrow> (x # xs, b2))"

lemma gets_contents:
  "inv b \<Longrightarrow> n \<le> length (contents b) \<Longrightarrow>
     fst (gets n b) = take n (contents b) \<and> contents (snd (gets n b)) = drop n (contents b)"
proof (induction n arbitrary: b)
  case 0
  then show ?case by simp
next
  case (Suc n)
  then obtain x xs where c: "contents b = x # xs" by (cases "contents b") auto
  obtain y b1 where g: "get b = (y, b1)" by (cases "get b")
  then have "y = x" "contents b1 = xs" "inv b1"
    using get_Cons [OF Suc.prems(1) c] get_inv [OF Suc.prems(1)] by simp_all
  with Suc.IH [of b1] Suc.prems c g show ?case by (auto split: prod.splits)
qed

text \<open>What goes in comes out, in order, after what was there before.\<close>

lemma fifo_order:
  assumes "inv b" and "length (contents b) + length xs \<le> capacity"
  shows "fst (gets (length (contents b) + length xs) (fold put xs b)) = contents b @ xs"
  using gets_contents [OF puts_inv [OF assms(1)], of "length (contents b) + length xs" xs]
    puts_contents [OF assms] by simp

end

text \<open>Allocate \<open>n\<close> resources one after the other; \<open>None\<close> when one of the calls fails.\<close>

fun alloc_many :: "('s \<Rightarrow> (('e + 'a) \<times> 's) option) \<Rightarrow> nat \<Rightarrow> 's \<Rightarrow> ('a list \<times> 's) option" where
  "alloc_many alloc 0 s = Some ([], s)"
| "alloc_many alloc (Suc n) s =
     (case alloc s of
        Some (Inr x, s1) \<Rightarrow>
          (case alloc_many alloc n s1 of None \<Rightarrow> None | Some (xs, s2) \<Rightarrow> Some (x # xs, s2))
      | _ \<Rightarrow> None)"

locale allocator =
  fixes alloc :: "'s \<Rightarrow> (('e + 'a) \<times> 's) option"
    and release :: "'a \<Rightarrow> 's \<Rightarrow> 's option"
    and avail :: "'s \<Rightarrow> 'a set"
    and inv :: "'s \<Rightarrow> bool"
    and releasable :: "'a \<Rightarrow> 's \<Rightarrow> bool"
  assumes avail_finite: "inv s \<Longrightarrow> finite (avail s)"
    and alloc_some: "inv s \<Longrightarrow> avail s \<noteq> {} \<Longrightarrow>
          \<exists>x s'. alloc s = Some (Inr x, s') \<and> x \<in> avail s \<and> avail s' = avail s - {x} \<and> inv s'"
    and alloc_none: "inv s \<Longrightarrow> avail s = {} \<Longrightarrow>
          \<exists>e s'. alloc s = Some (Inl e, s') \<and> avail s' = {} \<and> inv s'"
    and release_ok: "inv s \<Longrightarrow> releasable x s \<Longrightarrow>
          \<exists>s'. release x s = Some s' \<and> avail s' = insert x (avail s) \<and> inv s'"
begin

lemma alloc_total: "inv s \<Longrightarrow> alloc s \<noteq> None"
  using alloc_some [of s] alloc_none [of s] by fastforce

lemma alloc_result:
  assumes "inv s" and "alloc s = Some (Inr x, s')"
  shows "x \<in> avail s \<and> avail s' = avail s - {x} \<and> inv s'"
proof (cases "avail s = {}")
  case True
  with assms alloc_none [of s] show ?thesis by auto
next
  case False
  with assms alloc_some [of s] show ?thesis by auto
qed

lemma alloc_error:
  assumes "inv s" and "alloc s = Some (Inl e, s')"
  shows "avail s = {} \<and> avail s' = {} \<and> inv s'"
proof (cases "avail s = {}")
  case True
  with assms alloc_none [of s] show ?thesis by auto
next
  case False
  with assms alloc_some [of s] show ?thesis by auto
qed

lemma alloc_many_ok:
  assumes "inv s" and "n \<le> card (avail s)"
  shows "\<exists>xs s'. alloc_many alloc n s = Some (xs, s') \<and> length xs = n \<and> distinct xs
    \<and> set xs \<subseteq> avail s \<and> avail s' = avail s - set xs \<and> inv s'"
  using assms
proof (induction n arbitrary: s)
  case 0
  then show ?case by simp
next
  case (Suc n)
  then have "avail s \<noteq> {}" by auto
  with Suc.prems(1) obtain x s1 where x: "alloc s = Some (Inr x, s1)" "x \<in> avail s"
    and s1: "avail s1 = avail s - {x}" "inv s1"
    using alloc_some by blast
  have "n \<le> card (avail s1)"
    using Suc.prems x s1 avail_finite by (simp add: card_Diff_singleton)
  with Suc.IH s1 obtain xs s' where "alloc_many alloc n s1 = Some (xs, s')" "length xs = n"
    "distinct xs" "set xs \<subseteq> avail s1" "avail s' = avail s1 - set xs" "inv s'"
    by blast
  with x s1 show ?case by auto
qed

lemma alloc_many_exhausts:
  assumes "inv s" and "card (avail s) < n"
  shows "alloc_many alloc n s = None"
  using assms
proof (induction n arbitrary: s)
  case 0
  then show ?case by simp
next
  case (Suc n)
  show ?case
  proof (cases "avail s = {}")
    case True
    with Suc.prems alloc_none [of s] show ?thesis by auto
  next
    case False
    with Suc.prems(1) obtain x s1 where x: "alloc s = Some (Inr x, s1)" "x \<in> avail s"
      and s1: "avail s1 = avail s - {x}" "inv s1"
      using alloc_some by blast
    have "card (avail s1) < n"
      using Suc.prems x s1 avail_finite [of s] card_gt_0_iff [of "avail s"] False
      by (simp add: card_Diff_singleton)
    with Suc.IH s1 x show ?thesis by simp
  qed
qed

lemma release_alloc:
  assumes "inv s" and "releasable x s"
  shows "\<exists>s1 y s2. release x s = Some s1 \<and> alloc s1 = Some (Inr y, s2) \<and> inv s2
    \<and> insert y (avail s2) = insert x (avail s)"
proof -
  from release_ok [OF assms] obtain s1 where s1: "release x s = Some s1"
    "avail s1 = insert x (avail s)" "inv s1" by blast
  with alloc_some [of s1] obtain y s2 where "alloc s1 = Some (Inr y, s2)" "y \<in> avail s1"
    "avail s2 = avail s1 - {y}" "inv s2" by blast
  with s1 show ?thesis by (metis insert_Diff)
qed

end

end
