(* ===== verification/Console_Spec.thy ===== *)
theory Console_Spec
  imports Console Interfaces
begin

text \<open>
  The properties of kern/console.c: the circular input buffer is a queue of 511 characters,
  the display never writes outside its buffer, and the keyboard automaton always yields a
  byte.
\<close>

unbundle bit_operations_syntax

section \<open>The input buffer is a queue\<close>

definition cons_inv :: "consbuf \<Rightarrow> bool" where
  "cons_inv b \<longleftrightarrow> cons_rpos b < CONSBUFSIZE \<and> cons_wpos b < CONSBUFSIZE"

definition cons_len :: "consbuf \<Rightarrow> nat" where
  "cons_len b = (cons_wpos b + CONSBUFSIZE - cons_rpos b) mod CONSBUFSIZE"

definition cons_contents :: "consbuf \<Rightarrow> u8 list" where
  "cons_contents b =
     map (\<lambda>i. cons_buf b ((cons_rpos b + i) mod CONSBUFSIZE)) [0..<cons_len b]"

lemma cons_len_cases:
  assumes "cons_inv b"
  shows "cons_len b = (if cons_rpos b \<le> cons_wpos b then cons_wpos b - cons_rpos b
                       else cons_wpos b + 512 - cons_rpos b)"
  using assms by (auto simp: cons_inv_def cons_len_def CONSBUFSIZE_def mod_if)

lemma ring_mod: "(x :: nat) < 1024 \<Longrightarrow> x mod CONSBUFSIZE = (if x < 512 then x else x - 512)"
  by (simp add: CONSBUFSIZE_def mod_if)

lemma cons_invD: "cons_inv b \<Longrightarrow> cons_rpos b < 512 \<and> cons_wpos b < 512"
  by (simp add: cons_inv_def CONSBUFSIZE_def)

lemma cons_put_inv: "cons_inv b \<Longrightarrow> cons_inv (cons_put c b)"
  by (auto simp: cons_inv_def cons_put_def Let_def CONSBUFSIZE_def)

lemma cons_put_pos:
  "cons_wpos (cons_put c b) = (if cons_wpos b + 1 = 512 then 0 else cons_wpos b + 1)"
  "cons_rpos (cons_put c b) = cons_rpos b"
  by (simp_all add: cons_put_def Let_def CONSBUFSIZE_def)

lemma cons_len_put:
  assumes inv: "cons_inv b" and lt: "cons_len b < 511"
  shows "cons_len (cons_put c b) = Suc (cons_len b)"
  using cons_invD [OF inv] lt
  unfolding cons_len_cases [OF inv] cons_len_cases [OF cons_put_inv [OF inv]] cons_put_pos
  by (auto split: if_splits)

lemma ring_index:
  assumes inv: "cons_inv b" and i: "i < cons_len b"
  shows "(cons_rpos b + i) mod CONSBUFSIZE \<noteq> cons_wpos b"
proof -
  note d = cons_invD [OF inv]
  have "i < 512" using i d by (auto simp: cons_len_cases [OF inv] split: if_splits)
  then have "cons_rpos b + i < 1024" using d by simp
  with i d show ?thesis by (auto simp: ring_mod cons_len_cases [OF inv] split: if_splits)
qed

lemma ring_last:
  assumes inv: "cons_inv b"
  shows "(cons_rpos b + cons_len b) mod CONSBUFSIZE = cons_wpos b"
  using cons_invD [OF inv] by (auto simp: ring_mod cons_len_cases [OF inv])

lemma cons_put_fields:
  "cons_buf (cons_put c b) = (cons_buf b)(cons_wpos b := c)" "cons_rpos (cons_put c b) = cons_rpos b"
  by (simp_all add: cons_put_def Let_def)

lemma cons_put_contents:
  assumes inv: "cons_inv b" and room: "length (cons_contents b) < 511"
  shows "cons_contents (cons_put c b) = cons_contents b @ [c]"
proof -
  from room have len: "cons_len b < 511" by (simp add: cons_contents_def)
  have "map (\<lambda>i. cons_buf (cons_put c b) ((cons_rpos b + i) mod CONSBUFSIZE)) [0..<cons_len b]
      = cons_contents b"
    unfolding cons_contents_def by (rule map_cong) (auto simp: cons_put_fields ring_index [OF inv])
  then show ?thesis
    using ring_last [OF inv] unfolding cons_contents_def cons_len_put [OF inv len] cons_put_fields(2)
    by (simp add: cons_put_fields)
qed

lemma cons_contents_Nil: "cons_inv b \<Longrightarrow> cons_contents b = [] \<longleftrightarrow> cons_rpos b = cons_wpos b"
  using cons_invD [of b] by (auto simp: cons_contents_def cons_len_cases)

lemma cons_get_fields:
  "cons_rpos b \<noteq> cons_wpos b \<Longrightarrow> cons_inv b \<Longrightarrow>
     cons_get b = (cons_buf b (cons_rpos b), b\<lparr>cons_rpos := (cons_rpos b + 1) mod CONSBUFSIZE\<rparr>)"
  by (auto simp: cons_get_def Let_def cons_inv_def CONSBUFSIZE_def)

lemma cons_get_contents:
  assumes inv: "cons_inv b" and c: "cons_contents b = x # xs"
  shows "fst (cons_get b) = x \<and> cons_contents (snd (cons_get b)) = xs"
proof -
  have ne: "cons_rpos b \<noteq> cons_wpos b" using cons_contents_Nil [OF inv] c by auto
  let ?b = "b\<lparr>cons_rpos := (cons_rpos b + 1) mod CONSBUFSIZE\<rparr>"
  have len: "cons_len b = Suc (cons_len ?b)"
  proof -
    have i2: "cons_inv ?b" using inv by (simp add: cons_inv_def CONSBUFSIZE_def)
    show ?thesis
      using cons_invD [OF inv] ne unfolding cons_len_cases [OF inv] cons_len_cases [OF i2]
      by (auto simp: ring_mod split: if_splits)
  qed
  have "cons_contents b = cons_buf b (cons_rpos b mod CONSBUFSIZE)
      # map (\<lambda>i. cons_buf b ((cons_rpos b + Suc i) mod CONSBUFSIZE)) [0..<cons_len ?b]"
    unfolding cons_contents_def len by (simp add: upt_conv_Cons map_Suc_upt [symmetric] del: upt_Suc)
  moreover have "map (\<lambda>i. cons_buf b ((cons_rpos b + Suc i) mod CONSBUFSIZE)) [0..<cons_len ?b]
      = cons_contents ?b"
    unfolding cons_contents_def by (rule map_cong) (simp_all add: mod_add_left_eq)
  ultimately show ?thesis
    using c inv ne by (simp add: cons_get_fields cons_inv_def)
qed

interpretation ring: fifo cons_put cons_get cons_contents cons_inv 511 0
proof unfold_locales
  fix b :: consbuf and x :: u8
  assume inv: "cons_inv b"
  show "cons_inv (cons_put x b)" by (rule cons_put_inv [OF inv])
  show "cons_inv (snd (cons_get b))"
    using inv by (auto simp: cons_inv_def cons_get_def Let_def CONSBUFSIZE_def)
  show "cons_contents b = [] \<Longrightarrow> cons_get b = (0, b)"
    using cons_contents_Nil [OF inv] by (simp add: cons_get_def)
qed (use cons_put_contents cons_get_contents in auto)

lemma cons_intr_fold:
  "(\<And>d k. d \<in> set ds \<Longrightarrow> fst (proc d k) \<noteq> - 1) \<Longrightarrow>
     \<exists>k' cs. cons_intr proc ds k b = (k', fold cons_put cs b) \<and> length cs \<le> length ds"
proof (induction ds arbitrary: k b)
  case Nil
  then show ?case by auto
next
  case (Cons d ds)
  obtain c k1 where p: "proc d k = (c, k1)" by (cases "proc d k")
  with Cons.prems have c: "c \<noteq> - 1" by (metis fst_conv list.set_intros(1))
  show ?case
  proof (cases "c = 0")
    case True
    from Cons.IH [of k1 b] Cons.prems obtain k' cs where
      "cons_intr proc ds k1 b = (k', fold cons_put cs b)" "length cs \<le> length ds" by auto
    with p c True show ?thesis by auto
  next
    case False
    from Cons.IH [of k1 "cons_put (word_of_int c) b"] Cons.prems obtain k' cs where
      "cons_intr proc ds k1 (cons_put (word_of_int c) b) = (k', fold cons_put cs (cons_put (word_of_int c) b))"
      "length cs \<le> length ds" by auto
    with p c False show ?thesis by (intro exI [of _ k'] exI [of _ "word_of_int c # cs"]) simp
  qed
qed

section \<open>The keyboard\<close>

lemma kbd_byte: "0 \<le> fst (kbd_proc_data d k) \<and> fst (kbd_proc_data d k) < 256"
proof -
  have "0 \<le> uint (charcode i e) \<and> uint (charcode i e) < 256" for i e
    using unsigned_less [of "charcode i e", where 'a = int] by simp
  then show ?thesis by (auto simp: kbd_proc_data_def Let_def)
qed

section \<open>The display\<close>

lemma low_byte_add: "(c + push_bit 8 x) AND 0xFF = (c :: u32) AND 0xFF"
proof -
  have "unat (take_bit 8 (c + push_bit 8 x)) = (unat c + 256 * unat x mod 2 ^ 32) mod 2 ^ 32 mod 2 ^ 8"
    by (simp add: unsigned_take_bit_eq take_bit_nat_def unat_word_ariths push_bit_eq_mult mult.commute)
  also have "\<dots> = (unat c + 256 * unat x mod 2 ^ 32) mod 2 ^ 8" by (rule mod_mod_cancel) simp
  also have "\<dots> = (unat c + 256 * unat x mod 2 ^ 32 mod 2 ^ 8) mod 2 ^ 8" by (simp add: mod_add_right_eq)
  also have "256 * unat x mod 2 ^ 32 mod 2 ^ 8 = 256 * unat x mod 2 ^ 8" by (rule mod_mod_cancel) simp
  also have "(unat c + 256 * unat x mod 2 ^ 8) mod 2 ^ 8 = unat (take_bit 8 c)"
    by (simp add: unsigned_take_bit_eq take_bit_nat_def)
  finally show ?thesis by (simp add: mask8_num take_bit_eq_mask word_unat_eq_iff)
qed

lemma cga_attr_low: "cga_attr color background c AND 0xFF = c AND 0xFF"
proof -
  have "(w OR 0x0700) AND 0xFF = w AND 0xFF" for w :: u32
  proof -
    have "(w OR push_bit 8 x) AND mask 8 = w AND mask 8" for x
      by (rule bit_word_eqI) (auto simp: bit_simps)
    from this [of 7] have "(w OR push_bit 8 7) AND mask 8 = w AND mask 8" .
    moreover have "(push_bit 8 7 :: u32) = 0x0700" by simp
    ultimately show ?thesis by (simp only: mask8_num)
  qed
  then show ?thesis
    using low_byte_add [of "c + push_bit 8 color" "push_bit 4 background"] low_byte_add [of c color]
    by (simp add: cga_attr_def Let_def)
qed

lemma cga_putc_no_tab:
  "c AND 0xFF \<noteq> 9 \<Longrightarrow> cga_putc f color background c t = cga_putc g color background c t"
  by (simp add: cga_putc_def cga_attr_low Let_def)

lemma fuel_no_tab:
  "c AND 0xFF \<noteq> 9 \<Longrightarrow> cons_putc_fuel (Suc n) color background c t = cons_putc_fuel (Suc m) color background c t"
  using cga_putc_no_tab by simp

lemma cga_putc_cong:
  assumes "f 32 = g 32"
  shows "cga_putc f color background c t = cga_putc g color background c t"
  unfolding cga_putc_def assms ..

lemma cons_putc_Suc: "cons_putc = cons_putc_fuel (Suc (Suc 0))"
  by (simp add: cons_putc_def numeral_2_eq_2)

lemma cons_putc_unfold:
  "cons_putc color background c t
     = cga_putc (cons_putc color background) color background c (port_out c t)"
proof -
  have "(32 :: u32) AND 0xFF \<noteq> 9" by simp
  then have "cons_putc_fuel (Suc 0) color background 32 = cons_putc color background 32"
    unfolding cons_putc_Suc by (intro ext fuel_no_tab)
  from cga_putc_cong [where f = "cons_putc_fuel (Suc 0) color background"
      and g = "cons_putc color background", OF this] show ?thesis
    by (subst cons_putc_Suc) (simp only: cons_putc_fuel.simps(2))
qed

definition crt_inv :: "crt \<Rightarrow> bool" where
  "crt_inv t \<longleftrightarrow> unat (crt_pos t) < CRT_SIZE"

text \<open>Nothing at or beyond the end of the buffer changes.\<close>

definition crt_inside :: "crt \<Rightarrow> crt \<Rightarrow> bool" where
  "crt_inside t t' \<longleftrightarrow> (\<forall>i \<ge> CRT_SIZE. crt_buf t' i = crt_buf t i)"

lemma crt_scroll_ok:
  assumes "unat (crt_pos t) < CRT_SIZE + CRT_COLS"
  shows "crt_inv (crt_scroll t) \<and> crt_inside t (crt_scroll t)"
proof -
  have "unat (crt_pos t - of_nat CRT_COLS) = unat (crt_pos t) - 80"
    if "unat (crt_pos t) \<ge> 2000"
  proof -
    have "(80 :: u16) \<le> crt_pos t" using that by (simp add: word_le_nat_alt)
    then show ?thesis by (simp add: unat_sub crt_consts)
  qed
  with assms show ?thesis
    by (auto simp: crt_scroll_def crt_inv_def crt_inside_def crt_consts)
qed

lemma cga_putc_ok:
  assumes inv: "crt_inv t"
    and f: "\<And>u. crt_inv u \<Longrightarrow> crt_inv (f 32 u) \<and> crt_inside u (f 32 u)"
  shows "crt_inv (cga_putc f color background c t) \<and> crt_inside t (cga_putc f color background c t)"
proof -
  let ?p = "crt_pos t"
  have p: "unat ?p < 2000" using inv by (simp add: crt_inv_def crt_consts)
  have scroll: "crt_inv (crt_scroll u) \<and> crt_inside t (crt_scroll u)"
    if "unat (crt_pos u) < 2080" "crt_inside t u" for u
    using crt_scroll_ok [of u] that by (simp add: crt_consts crt_inside_def)
  have tab: "crt_inv ((f 32 ^^ n) t) \<and> crt_inside t ((f 32 ^^ n) t)" for n
  proof (induction n)
    case 0
    then show ?case using inv by (simp add: crt_inside_def)
  next
    case (Suc n)
    then show ?case using f [of "(f 32 ^^ n) t"] by (auto simp: crt_inside_def)
  qed
  have bsp: "unat (?p - 1) < 2000" if "?p > 0"
    using p that by (simp add: unat_minus_one word_gt_0)
  have nl: "unat (?p + 80 - (?p + 80) mod 80) < 2080"
  proof -
    have "unat (?p + 80) = unat ?p + 80" using p by (simp add: unat_word_ariths)
    moreover have "(?p + 80) mod 80 \<le> ?p + 80" by (simp add: word_le_nat_alt unat_mod_distrib)
    ultimately show ?thesis using p by (simp add: unat_sub)
  qed
  have cr: "unat (?p - ?p mod 80) < 2080"
  proof -
    have "?p mod 80 \<le> ?p" by (simp add: word_le_nat_alt unat_mod_distrib)
    then show ?thesis using p by (simp add: unat_sub)
  qed
  have one: "unat (?p + 1) < 2080" using p by (simp add: unat_word_ariths)
  show ?thesis
    unfolding cga_putc_def Let_def
    using p bsp nl cr one tab [of 5]
    by (intro scroll) (auto simp: crt_store_def crt_inside_def crt_inv_def crt_consts)
qed

lemma cons_putc_fuel_ok:
  "crt_inv t \<Longrightarrow> crt_inv (cons_putc_fuel n color background c t)
     \<and> crt_inside t (cons_putc_fuel n color background c t)"
proof (induction n arbitrary: c t)
  case 0
  then show ?case by (simp add: crt_inside_def)
next
  case (Suc n)
  have "crt_inv (port_out c t)" using Suc.prems by (simp add: crt_inv_def port_out_def)
  from cga_putc_ok [OF this, of "cons_putc_fuel n color background" color background c] Suc.IH
  show ?case by (simp add: crt_inside_def port_out_def)
qed

section \<open>Properties\<close>

text \<open>
  the circular buffer of the console is a first-in first-out queue: characters put into a
  buffer with room for them are read back in order, after the ones that were waiting.
\<close>

theorem console_fifo:
  assumes "cons_inv b" and "length (cons_contents b) + length cs \<le> 511"
  shows "fst (ring.gets (length (cons_contents b) + length cs) (fold cons_put cs b))
    = cons_contents b @ cs"
  using assms by (rule ring.fifo_order)

definition cons_empty :: consbuf where
  "cons_empty = \<lparr>cons_buf = (\<lambda>_. 0), cons_rpos = 511, cons_wpos = 511\<rparr>"

theorem console_fifo_witness:
  "fst (ring.gets 3 (fold cons_put [104, 105, 10] cons_empty)) = [104, 105, 10]"
proof -
  have i: "cons_inv cons_empty" by (simp add: cons_inv_def cons_empty_def CONSBUFSIZE_def)
  have c: "cons_contents cons_empty = []"
    using cons_contents_Nil [OF i] by (simp add: cons_empty_def)
  from console_fifo [OF i, of "[104, 105, 10]"] show ?thesis by (simp add: c eval_nat_numeral)
qed

text \<open>
  there is no check for a full buffer: a character that arrives when 511 are waiting makes
  the buffer look empty, and all of them are lost.
\<close>

theorem console_overflow_loses_all:
  assumes "cons_inv b" and "length (cons_contents b) = 511"
  shows "cons_contents (cons_put c b) = []"
proof -
  have "cons_len b = 511" using assms(2) by (simp add: cons_contents_def)
  with cons_invD [OF assms(1)] have "cons_rpos (cons_put c b) = cons_wpos (cons_put c b)"
    by (auto simp: cons_len_cases [OF assms(1)] cons_put_pos split: if_splits)
  then show ?thesis using cons_contents_Nil [OF cons_put_inv [OF assms(1)]] by blast
qed

theorem console_overflow_loses_all_witness:
  "cons_contents (cons_put 65 \<lparr>cons_buf = (\<lambda>_. 66), cons_rpos = 0, cons_wpos = 511\<rparr>) = []"
  by (rule console_overflow_loses_all)
    (simp_all add: cons_inv_def cons_contents_def cons_len_def CONSBUFSIZE_def)

text \<open>
  cons_getc polls the devices until they have nothing left: whatever scan codes are
  pending, the keyboard automaton yields a byte for each (never the -1 that ends the loop),
  so all of them are consumed in one call, each putting at most one character in the buffer.
\<close>

theorem kbd_intr_consumes_all:
  "\<exists>k' cs. kbd_intr ds k b = (k', fold cons_put cs b) \<and> length cs \<le> length ds"
proof -
  have "fst (kbd_proc_data d k) \<noteq> - 1" for d k using kbd_byte [of d k] by linarith
  then show ?thesis unfolding kbd_intr_def by (intro cons_intr_fold)
qed

text \<open>
  cons_putc keeps the cursor inside the 25 lines of 80 columns and never writes outside
  the display memory, whatever character (a tab, a newline, a backspace) it prints.
\<close>

theorem cons_putc_in_bounds:
  assumes "crt_inv t"
  shows "crt_inv (cons_putc color background c t)
    \<and> (\<forall>i \<ge> CRT_SIZE. crt_buf (cons_putc color background c t) i = crt_buf t i)"
  using cons_putc_fuel_ok [OF assms] by (simp add: cons_putc_def crt_inside_def)

theorem cons_putc_in_bounds_witness:
  "crt_inv (cons_putc 0 0 9
     \<lparr>crt_buf = (\<lambda>_. 0), crt_pos = 1999, serial_out = [], lpt_out = []\<rparr>)"
  by (rule cons_putc_in_bounds [THEN conjunct1]) (simp add: crt_inv_def crt_consts)

end
