(* ===== verification/Cstring.thy ===== *)
theory Cstring
  imports Prelude
begin

text \<open>
  lib/string.c, shared by the kernel and the user programs. Memory is a map from addresses to
  bytes and pointers are 32-bit words. A loop that looks for the end of a string does not end
  when memory holds none: those functions are \<open>partial_function (option)\<close>, with \<open>None\<close> for
  the run that does not return; loops that count a size down recurse on the count.
\<close>

unbundle bit_operations_syntax

type_synonym smem = "u32 \<Rightarrow> u8"

section \<open>Strings\<close>

partial_function (option) strlen_loop :: "smem \<Rightarrow> u32 \<Rightarrow> u32 \<Rightarrow> u32 option" where
  "strlen_loop m s n = (if m s \<noteq> 0 then strlen_loop m (s + 1) (n + 1) else Some n)"

definition strlen :: "smem \<Rightarrow> u32 \<Rightarrow> u32 option" where
  "strlen m s = strlen_loop m s 0"

fun strnlen_loop :: "smem \<Rightarrow> u32 \<Rightarrow> nat \<Rightarrow> u32 \<Rightarrow> u32" where
  "strnlen_loop m s 0 n = n"
| "strnlen_loop m s (Suc k) n = (if m s \<noteq> 0 then strnlen_loop m (s + 1) k (n + 1) else n)"

definition strnlen :: "smem \<Rightarrow> u32 \<Rightarrow> u32 \<Rightarrow> u32" where
  "strnlen m s sz = strnlen_loop m s (unat sz) 0"

partial_function (option) strcpy_loop :: "u32 \<Rightarrow> u32 \<Rightarrow> smem \<Rightarrow> smem option" where
  "strcpy_loop dst src m =
     (let c = m src; m1 = m(dst := c) in
      if c \<noteq> 0 then strcpy_loop (dst + 1) (src + 1) m1 else Some m1)"

definition strcpy :: "u32 \<Rightarrow> u32 \<Rightarrow> smem \<Rightarrow> (u32 \<times> smem) option" where
  "strcpy dst src m = map_option (\<lambda>m1. (dst, m1)) (strcpy_loop dst src m)"

fun strncpy_loop :: "nat \<Rightarrow> u32 \<Rightarrow> u32 \<Rightarrow> smem \<Rightarrow> smem" where
  "strncpy_loop 0 dst src m = m"
| "strncpy_loop (Suc k) dst src m =
     (let m1 = m(dst := m src)
      in strncpy_loop k (dst + 1) (if m1 src \<noteq> 0 then src + 1 else src) m1)"

definition strncpy :: "u32 \<Rightarrow> u32 \<Rightarrow> u32 \<Rightarrow> smem \<Rightarrow> u32 \<times> smem" where
  "strncpy dst src sz m = (dst, strncpy_loop (unat sz) dst src m)"

text \<open>The loop of \<open>strlcpy\<close>: \<open>k\<close> is \<open>size\<close> before the decrement.\<close>

fun strlcpy_loop :: "nat \<Rightarrow> u32 \<Rightarrow> u32 \<Rightarrow> smem \<Rightarrow> u32 \<times> smem" where
  "strlcpy_loop (Suc (Suc k)) dst src m =
     (if m src \<noteq> 0 then strlcpy_loop (Suc k) (dst + 1) (src + 1) (m(dst := m src)) else (dst, m))"
| "strlcpy_loop k dst src m = (dst, m)"

definition strlcpy :: "u32 \<Rightarrow> u32 \<Rightarrow> u32 \<Rightarrow> smem \<Rightarrow> u32 \<times> smem" where
  "strlcpy dst src sz m =
     (if sz > 0 then
        case strlcpy_loop (unat sz) dst src m of (d, m1) \<Rightarrow> (d - dst, m1(d := 0))
      else (0, m))"

partial_function (option) strcmp :: "smem \<Rightarrow> u32 \<Rightarrow> u32 \<Rightarrow> int option" where
  "strcmp m p q =
     (if m p \<noteq> 0 \<and> m p = m q then strcmp m (p + 1) (q + 1) else Some (uint (m p) - uint (m q)))"

fun strncmp_loop :: "smem \<Rightarrow> u32 \<Rightarrow> u32 \<Rightarrow> nat \<Rightarrow> int" where
  "strncmp_loop m p q 0 = 0"
| "strncmp_loop m p q (Suc n) =
     (if m p \<noteq> 0 \<and> m p = m q then strncmp_loop m (p + 1) (q + 1) n else uint (m p) - uint (m q))"

definition strncmp :: "smem \<Rightarrow> u32 \<Rightarrow> u32 \<Rightarrow> u32 \<Rightarrow> int" where
  "strncmp m p q n = strncmp_loop m p q (unat n)"

partial_function (option) strchr :: "smem \<Rightarrow> u32 \<Rightarrow> u8 \<Rightarrow> u32 option" where
  "strchr m s c = (if m s = 0 then Some 0 else if m s = c then Some s else strchr m (s + 1) c)"

partial_function (option) strfind :: "smem \<Rightarrow> u32 \<Rightarrow> u8 \<Rightarrow> u32 option" where
  "strfind m s c = (if m s = 0 then Some s else if m s = c then Some s else strfind m (s + 1) c)"

section \<open>Memory blocks\<close>

definition ld32 :: "smem \<Rightarrow> u32 \<Rightarrow> u32" where
  "ld32 m a = le32 m a"

definition st32 :: "u32 \<Rightarrow> u32 \<Rightarrow> smem \<Rightarrow> smem" where
  "st32 a w m = m(a := get_byte 0 w, a + 1 := get_byte 1 w, a + 2 := get_byte 2 w,
     a + 3 := get_byte 3 w)"

text \<open>The repeated string instructions, with the direction flag clear (up) or set (down).\<close>

fun rep_stosl :: "nat \<Rightarrow> u32 \<Rightarrow> u32 \<Rightarrow> smem \<Rightarrow> smem" where
  "rep_stosl 0 d a m = m"
| "rep_stosl (Suc n) d a m = rep_stosl n (d + 4) a (st32 d a m)"

fun rep_stosb :: "nat \<Rightarrow> u32 \<Rightarrow> u8 \<Rightarrow> smem \<Rightarrow> smem" where
  "rep_stosb 0 d a m = m"
| "rep_stosb (Suc n) d a m = rep_stosb n (d + 1) a (m(d := a))"

fun rep_movs_up :: "u32 \<Rightarrow> (u32 \<Rightarrow> u32 \<Rightarrow> smem \<Rightarrow> smem) \<Rightarrow> nat \<Rightarrow> u32 \<Rightarrow> u32 \<Rightarrow> smem \<Rightarrow> smem" where
  "rep_movs_up k mov 0 d s m = m"
| "rep_movs_up k mov (Suc n) d s m = rep_movs_up k mov n (d + k) (s + k) (mov d s m)"

fun rep_movs_down :: "u32 \<Rightarrow> (u32 \<Rightarrow> u32 \<Rightarrow> smem \<Rightarrow> smem) \<Rightarrow> nat \<Rightarrow> u32 \<Rightarrow> u32 \<Rightarrow> smem \<Rightarrow> smem" where
  "rep_movs_down k mov 0 d s m = m"
| "rep_movs_down k mov (Suc n) d s m = rep_movs_down k mov n (d - k) (s - k) (mov d s m)"

definition movb :: "u32 \<Rightarrow> u32 \<Rightarrow> smem \<Rightarrow> smem" where
  "movb d s m = m(d := m s)"

definition movl :: "u32 \<Rightarrow> u32 \<Rightarrow> smem \<Rightarrow> smem" where
  "movl d s m = st32 d (ld32 m s) m"

definition memset :: "u32 \<Rightarrow> u32 \<Rightarrow> u32 \<Rightarrow> smem \<Rightarrow> u32 \<times> smem" where
  "memset v c n m =
     (if n = 0 then (v, m)
      else if v mod 4 = 0 \<and> n mod 4 = 0 then
        let c1 = c AND 0xFF;
            c2 = push_bit 24 c1 OR push_bit 16 c1 OR push_bit 8 c1 OR c1
        in (v, rep_stosl (unat (n div 4)) v c2 m)
      else (v, rep_stosb (unat n) v (ucast c) m))"

definition memmove :: "u32 \<Rightarrow> u32 \<Rightarrow> u32 \<Rightarrow> smem \<Rightarrow> u32 \<times> smem" where
  "memmove dst src n m =
     (if src < dst \<and> src + n > dst then
        let s = src + n; d = dst + n
        in if s mod 4 = 0 \<and> d mod 4 = 0 \<and> n mod 4 = 0
           then (dst, rep_movs_down 4 movl (unat (n div 4)) (d - 4) (s - 4) m)
           else (dst, rep_movs_down 1 movb (unat n) (d - 1) (s - 1) m)
      else if src mod 4 = 0 \<and> dst mod 4 = 0 \<and> n mod 4 = 0
      then (dst, rep_movs_up 4 movl (unat (n div 4)) dst src m)
      else (dst, rep_movs_up 1 movb (unat n) dst src m))"

definition memcpy :: "u32 \<Rightarrow> u32 \<Rightarrow> u32 \<Rightarrow> smem \<Rightarrow> u32 \<times> smem" where
  "memcpy dst src n m = memmove dst src n m"

fun memcmp_loop :: "smem \<Rightarrow> u32 \<Rightarrow> u32 \<Rightarrow> nat \<Rightarrow> int" where
  "memcmp_loop m s1 s2 0 = 0"
| "memcmp_loop m s1 s2 (Suc n) =
     (if m s1 \<noteq> m s2 then uint (m s1) - uint (m s2) else memcmp_loop m (s1 + 1) (s2 + 1) n)"

definition memcmp :: "smem \<Rightarrow> u32 \<Rightarrow> u32 \<Rightarrow> u32 \<Rightarrow> int" where
  "memcmp m v1 v2 n = memcmp_loop m v1 v2 (unat n)"

partial_function (option) memfind_loop :: "smem \<Rightarrow> u32 \<Rightarrow> u8 \<Rightarrow> u32 \<Rightarrow> u32 option" where
  "memfind_loop m ends c s =
     (if s < ends then if m s = c then Some s else memfind_loop m ends c (s + 1) else Some s)"

definition memfind :: "smem \<Rightarrow> u32 \<Rightarrow> u32 \<Rightarrow> u32 \<Rightarrow> u32 option" where
  "memfind m s c n = memfind_loop m (s + n) (ucast c) s"

section \<open>strtol\<close>

partial_function (option) skip_blanks :: "smem \<Rightarrow> u32 \<Rightarrow> u32 option" where
  "skip_blanks m s = (if m s = 32 \<or> m s = 9 then skip_blanks m (s + 1) else Some s)"

definition strtol_digit :: "u8 \<Rightarrow> int option" where
  "strtol_digit c =
     (if c \<ge> 48 \<and> c \<le> 57 then Some (uint c - 48)
      else if c \<ge> 97 \<and> c \<le> 122 then Some (uint c - 97 + 10)
      else if c \<ge> 65 \<and> c \<le> 90 then Some (uint c - 65 + 10)
      else None)"

partial_function (option) strtol_digits :: "smem \<Rightarrow> int \<Rightarrow> u32 \<Rightarrow> u32 \<Rightarrow> (u32 \<times> u32) option" where
  "strtol_digits m base s val =
     (case strtol_digit (m s) of
        None \<Rightarrow> Some (val, s)
      | Some dig \<Rightarrow>
          if dig \<ge> base then Some (val, s)
          else strtol_digits m base (s + 1) (val * word_of_int base + word_of_int dig))"

text \<open>The value and the pointer stored through \<open>endptr\<close>.\<close>

definition strtol :: "smem \<Rightarrow> u32 \<Rightarrow> int \<Rightarrow> (u32 \<times> u32) option" where
  "strtol m s base =
     do {
       s1 \<leftarrow> skip_blanks m s;
       let (neg, s2) = (if m s1 = 43 then (False, s1 + 1) else if m s1 = 45 then (True, s1 + 1)
                        else (False, s1));
       let (s3, b) =
         (if (base = 0 \<or> base = 16) \<and> m s2 = 48 \<and> m (s2 + 1) = 120 then (s2 + 2, 16)
          else if base = 0 \<and> m s2 = 48 then (s2 + 1, 8)
          else if base = 0 then (s2, 10)
          else (s2, base));
       (val, s4) \<leftarrow> strtol_digits m b s3 0;
       Some (if neg then - val else val, s4)
     }"

end
