(* ===== verification/Cstring_Spec.thy ===== *)
theory Cstring_Spec
  imports Cstring "HOL-Library.List_Lexorder"
begin

text \<open>
  Properties of lib/string.c: the string functions on null-terminated strings, memmove on
  overlapping blocks, memset, and strtol on numerals.
\<close>

unbundle bit_operations_syntax

section \<open>Null-terminated strings\<close>

fun cstr :: "smem \<Rightarrow> u32 \<Rightarrow> u8 list \<Rightarrow> bool" where
  "cstr m s [] \<longleftrightarrow> m s = 0"
| "cstr m s (x # xs) \<longleftrightarrow> m s = x \<and> x \<noteq> 0 \<and> cstr m (s + 1) xs"

lemma strlen_loop_cstr: "cstr m s xs \<Longrightarrow> strlen_loop m s n = Some (n + of_nat (length xs))"
proof (induction xs arbitrary: s n)
  case Nil
  then show ?case by (subst strlen_loop.simps) simp
next
  case (Cons x xs)
  then show ?case by (subst strlen_loop.simps) (simp add: add.assoc add.commute)
qed

text \<open>
  strlen returns the number of bytes before the first null byte, and strnlen the smaller
  of that number and the given size.
\<close>

lemma strnlen_loop_cstr:
  "cstr m s xs \<Longrightarrow> strnlen_loop m s k n = n + of_nat (min k (length xs))"
proof (induction m s k n arbitrary: xs rule: strnlen_loop.induct)
  case (2 m s k n)
  then show ?case by (cases xs) (auto simp: algebra_simps)
qed simp

theorem strlen_correct:
  assumes "cstr m s xs"
  shows "strlen m s = Some (of_nat (length xs)) \<and> strnlen m s sz = of_nat (min (unat sz) (length xs))"
  using strlen_loop_cstr [OF assms] strnlen_loop_cstr [OF assms] by (simp add: strlen_def strnlen_def)

definition demo_mem :: smem where
  "demo_mem = (\<lambda>_. 0)(100 := 72, 101 := 105, 200 := 72, 201 := 111)"

lemma demo_mem_strings: "cstr demo_mem 100 [72, 105]" "cstr demo_mem 200 [72, 111]"
  by (simp_all add: demo_mem_def)

theorem strlen_correct_witness: "strlen demo_mem 100 = Some 2 \<and> strnlen demo_mem 100 1 = 1"
  using strlen_correct [OF demo_mem_strings(1), of 1] by simp

lemma uint_pos: "(w :: u8) \<noteq> 0 \<Longrightarrow> 0 < uint w"
  using uint_ge_0 [of w] uint_0_iff [of w] by (simp add: order_less_le)

lemma strcmp_sgn:
  "cstr m p xs \<Longrightarrow> cstr m q ys \<Longrightarrow>
     \<exists>r. strcmp m p q = Some r \<and> sgn r = (if xs = ys then 0 else if xs < ys then -1 else 1)"
proof (induction xs arbitrary: p q ys)
  case Nil
  then show ?case
    by (cases ys; subst strcmp.simps) (auto simp: word_gt_0 uint_0_iff sgn_if word_less_def)
next
  case (Cons x xs)
  show ?case
  proof (cases ys)
    case Nil
    then show ?thesis using Cons.prems
      by (subst strcmp.simps) (auto simp: sgn_if uint_0_iff dest: uint_pos)
  next
    case (Cons y ys')
    show ?thesis
    proof (cases "x = y")
      case True
      then have "strcmp m p q = strcmp m (p + 1) (q + 1)"
        using Cons.prems \<open>ys = y # ys'\<close> by (subst strcmp.simps) simp
      then show ?thesis using Cons.IH [of "p + 1" "q + 1" ys'] Cons.prems \<open>ys = y # ys'\<close> True by auto
    next
      case False
      then have "strcmp m p q = Some (uint x - uint y)"
        using Cons.prems \<open>ys = y # ys'\<close> by (subst strcmp.simps) simp
      then show ?thesis using False \<open>ys = y # ys'\<close> by (auto simp: sgn_if word_less_def word_uint_eq_iff)
    qed
  qed
qed

text \<open>
  strcmp returns 0 exactly for equal strings, and otherwise its sign is the order of the
  two strings compared byte by byte as unsigned numbers.
\<close>

theorem strcmp_order:
  assumes "cstr m p xs" and "cstr m q ys"
  shows "\<exists>r. strcmp m p q = Some r \<and> (r = 0 \<longleftrightarrow> xs = ys) \<and> (r < 0 \<longleftrightarrow> xs < ys)"
  using strcmp_sgn [OF assms] by (auto simp: sgn_if split: if_splits)

theorem strcmp_order_witness: "\<exists>r. strcmp demo_mem 100 200 = Some r \<and> r < 0"
  using strcmp_order [OF demo_mem_strings] by (auto simp: word_less_def)

section \<open>Blocks\<close>

definition blk_copy :: "nat \<Rightarrow> u32 \<Rightarrow> u32 \<Rightarrow> smem \<Rightarrow> smem" where
  "blk_copy k d s m = (\<lambda>a. if unat (a - d) < k then m (s + (a - d)) else m a)"

lemma add_diff_of: "(a :: u32) = d + (a - d)"
  by simp

lemma rep_movs_up_copy:
  assumes "0 < k" and "unat (s - d) + n * k \<le> 2 ^ 32"
  shows "rep_movs_up (of_nat k) (blk_copy k) n d s m = blk_copy (n * k) d s m"
  using assms(2)
proof (induction n arbitrary: d s m)
  case 0
  then show ?case by (simp add: blk_copy_def)
next
  case (Suc n)
  let ?m1 = "blk_copy k d s m"
  have kn: "k + n * k \<le> 2 ^ 32" "n * k \<le> 2 ^ 32" using Suc.prems by simp_all
  have ih: "rep_movs_up (of_nat k) (blk_copy k) n (d + of_nat k) (s + of_nat k) ?m1
      = blk_copy (n * k) (d + of_nat k) (s + of_nat k) ?m1"
    using Suc.prems by (intro Suc.IH) simp
  have "blk_copy (n * k) (d + of_nat k) (s + of_nat k) ?m1 a = blk_copy (Suc n * k) d s m a" for a
  proof -
    define x where "x = a - d"
    have ak: "a - (d + of_nat k) = x - of_nat k" by (simp add: x_def algebra_simps)
    have uk: "unat (of_nat k :: u32) = k \<or> k = 2 ^ 32"
      using kn(1) by (auto simp: unsigned_of_nat take_bit_nat_eq_self le_less)
    show ?thesis
    proof (cases "unat x < k")
      case True
      have "\<not> unat (x - of_nat k) < n * k"
      proof (cases "k = 2 ^ 32")
        case True
        then show ?thesis using kn(1) by simp
      next
        case False
        then have "unat (x - of_nat k) = 2 ^ 32 + unat x - k"
          using unat_sub_lt [of x "of_nat k"] uk \<open>unat x < k\<close> by simp
        then show ?thesis using kn(1) by simp
      qed
      then show ?thesis using True by (simp add: blk_copy_def ak x_def)
    next
      case False
      have u: "unat (of_nat k :: u32) = k" using False uk unsigned_less [of x, where 'a = nat] by auto
      have xk: "unat (x - of_nat k) = unat x - k" using unat_sub_ge [of "of_nat k" x] False u by simp
      have "\<not> unat (s + x - d) < k" if "unat x < Suc n * k"
      proof -
        have "unat ((s - d) + x) = unat (s - d) + unat x"
          using that Suc.prems by (intro unat_add_small) simp
        then show ?thesis using False by (simp add: algebra_simps)
      qed
      then show ?thesis using False xk
        by (auto simp: blk_copy_def ak x_def [symmetric] algebra_simps)
    qed
  qed
  then show ?case using ih by auto
qed

lemma rep_movs_down_copy:
  assumes "0 < k" "k < 2 ^ 32" and "unat (d - s) + n * k \<le> 2 ^ 32"
  shows "rep_movs_down (of_nat k) (blk_copy k) n (d + of_nat (n * k) - of_nat k)
           (s + of_nat (n * k) - of_nat k) m = blk_copy (n * k) d s m"
  using assms(3)
proof (induction n arbitrary: m)
  case 0
  then show ?case by (simp add: blk_copy_def)
next
  case (Suc n)
  let ?b = "of_nat (n * k) :: u32" and ?\<delta> = "unat (d - s)"
  let ?m1 = "blk_copy k (d + ?b) (s + ?b) m"
  have kn: "?\<delta> + n * k + k \<le> 2 ^ 32" "n * k < 2 ^ 32" using Suc.prems assms(1) by simp_all
  have ub: "unat ?b = n * k" using kn(2) by (simp add: unsigned_of_nat take_bit_nat_eq_self del: of_nat_mult)
  have ih: "rep_movs_down (of_nat k) (blk_copy k) n (d + ?b - of_nat k) (s + ?b - of_nat k) ?m1
      = blk_copy (n * k) d s ?m1"
    using Suc.prems by (intro Suc.IH) simp
  have "blk_copy (n * k) d s ?m1 a = blk_copy (Suc n * k) d s m a" for a
  proof -
    define x where "x = a - d"
    show ?thesis
    proof (cases "unat x < n * k")
      case True
      have ud: "unat ((d - s) + ?b) = ?\<delta> + n * k"
        using unat_add_small [of "d - s" ?b] kn assms(1) ub by (simp del: of_nat_mult)
      have "s + x - (d + ?b) = x - ((d - s) + ?b)" by (simp add: algebra_simps)
      then have "unat (s + x - (d + ?b)) = 2 ^ 32 + unat x - (?\<delta> + n * k)"
        using unat_sub_lt [of x "(d - s) + ?b"] unfolding ud using True
        by (metis less_trans_Suc add.commute trans_less_add1)
      then have "\<not> unat (s + x - (d + ?b)) < k" using kn(1) by simp
      then show ?thesis using True by (simp add: blk_copy_def x_def [symmetric])
    next
      case False
      have ab: "unat (a - (d + ?b)) = unat x - n * k"
        using unat_sub_ge [of ?b x] False ub unfolding x_def diff_diff_eq by simp
      have sb: "s + ?b + (a - (d + ?b)) = s + x" by (simp add: x_def algebra_simps)
      show ?thesis using False unfolding blk_copy_def ab sb x_def [symmetric] by auto
    qed
  qed
  moreover have "d + of_nat (Suc n * k) - of_nat k = d + ?b" "s + of_nat (Suc n * k) - of_nat k = s + ?b"
    by (simp_all add: algebra_simps)
  ultimately show ?case using ih by (auto simp: fun_eq_iff)
qed

lemma movb_copy: "movb = blk_copy 1"
  by (auto simp: fun_eq_iff movb_def blk_copy_def unat_eq_0)

lemma movl_copy: "movl = blk_copy 4"
proof (intro ext)
  fix d s :: u32 and m a
  define x where "x = a - d"
  have a: "a = d + x" by (simp add: x_def)
  have "unat x < 4 \<longleftrightarrow> x = 0 \<or> x = 1 \<or> x = 2 \<or> x = 3"
    by (auto simp: word_unat_eq_iff)
  then show "movl d s m a = blk_copy 4 d s m a"
    using get_byte_le32 [of _ m s] unfolding a
    by (auto simp: movl_def ld32_def st32_def blk_copy_def)
qed

text \<open>
  C27: memmove copies the block as it was before the call, whether or not source and
  destination overlap, and in both directions and unit sizes; no other byte changes.
\<close>

theorem memmove_correct:
  assumes "unat src + unat n < 2 ^ 32" and "unat dst + unat n < 2 ^ 32"
  shows "memmove dst src n m
    = (dst, \<lambda>a. if dst \<le> a \<and> a < dst + n then m (src + (a - dst)) else m a)"
proof -
  have in_range: "unat (a - dst) < unat n \<longleftrightarrow> dst \<le> a \<and> a < dst + n" for a
  proof (cases "dst \<le> a")
    case True
    then show ?thesis using assms(2) unat_sub_ge [of dst a] unat_add_small [of dst n]
      by (auto simp: word_le_nat_alt word_less_nat_alt)
  next
    case False
    then show ?thesis using assms(2) unat_sub_lt [of a dst]
      by (auto simp: word_le_nat_alt not_le)
  qed
  have goal: "blk_copy (unat n) dst src m
      = (\<lambda>a. if dst \<le> a \<and> a < dst + n then m (src + (a - dst)) else m a)"
    by (simp add: blk_copy_def in_range)
  have n4: "unat (n div 4) * 4 = unat n" if "n mod 4 = 0"
  proof -
    have "unat n mod 4 = unat (n mod 4)" by (simp add: unat_mod_distrib)
    then have "unat n mod 4 = 0" using that by simp
    then show ?thesis using div_mult_mod_eq [of "unat n" 4] by (simp add: unat_div_distrib)
  qed
  have sn: "unat (src + n) = unat src + unat n" using assms(1) by (intro unat_add_small)
  show ?thesis
  proof (cases "src < dst \<and> src + n > dst")
    case True
    then have "unat (dst - src) = unat dst - unat src"
      by (intro unat_sub_ge) (simp add: word_less_nat_alt)
    then have le: "unat (dst - src) + unat n \<le> 2 ^ 32" using assms by simp
    have "rep_movs_down 4 movl (unat (n div 4)) (dst + n - 4) (src + n - 4) m = blk_copy (unat n) dst src m"
      if "n mod 4 = 0"
      using rep_movs_down_copy [of 4 dst src "unat (n div 4)" m] le n4 [OF that]
      by (simp add: movl_copy)
    moreover have "rep_movs_down 1 movb (unat n) (dst + n - 1) (src + n - 1) m = blk_copy (unat n) dst src m"
      using rep_movs_down_copy [of 1 dst src "unat n" m] le by (simp add: movb_copy)
    ultimately show ?thesis using True by (simp add: memmove_def Let_def goal)
  next
    case False
    have le: "unat (src - dst) + unat n \<le> 2 ^ 32"
    proof (cases "dst \<le> src")
      case True
      then have "unat (src - dst) = unat src - unat dst"
        by (intro unat_sub_ge) (simp add: word_le_nat_alt)
      then show ?thesis using assms by simp
    next
      case lt: False
      then have "unat (src - dst) = 2 ^ 32 + unat src - unat dst"
        by (intro unat_sub_lt) (simp add: word_le_nat_alt)
      moreover have "unat src + unat n \<le> unat dst"
        using False lt sn by (auto simp: word_less_nat_alt word_le_nat_alt)
      ultimately show ?thesis using assms(2) by simp
    qed
    have "rep_movs_up 4 movl (unat (n div 4)) dst src m = blk_copy (unat n) dst src m"
      if "n mod 4 = 0"
      using rep_movs_up_copy [of 4 src dst "unat (n div 4)" m] le n4 [OF that]
      by (simp add: movl_copy)
    moreover have "rep_movs_up 1 movb (unat n) dst src m = blk_copy (unat n) dst src m"
      using rep_movs_up_copy [of 1 src dst "unat n" m] le by (simp add: movb_copy)
    ultimately show ?thesis using False by (auto simp: memmove_def Let_def goal)
  qed
qed

text \<open>Two bytes moved up by one: the blocks overlap.\<close>

theorem memmove_correct_witness:
  "snd (memmove 101 100 2 demo_mem) 101 = 72 \<and> snd (memmove 101 100 2 demo_mem) 102 = 105"
  using memmove_correct [of 100 2 101 demo_mem] by (simp add: demo_mem_def)

lemma rep_stosb_fill:
  "n \<le> 2 ^ 32 \<Longrightarrow> rep_stosb n d b m = (\<lambda>a. if unat (a - d) < n then b else m a)"
proof (induction n d b m rule: rep_stosb.induct)
  case (2 n d b m)
  have "(if unat (a - (d + 1)) < n then b else (m(d := b)) a) = (if unat (a - d) < Suc n then b else m a)" for a
  proof (cases "a = d")
    case False
    then have "unat (a - d) > 0" by (simp add: unat_gt_0)
    then have "unat (a - (d + 1)) = unat (a - d) - 1"
      using unat_sub_ge [of 1 "a - d", unfolded diff_diff_eq] by simp
    then show ?thesis using False \<open>unat (a - d) > 0\<close> by auto
  qed auto
  moreover have "rep_stosb n (d + 1) b (m(d := b))
      = (\<lambda>a. if unat (a - (d + 1)) < n then b else (m(d := b)) a)"
    using 2 by (simp del: fun_upd_apply)
  ultimately show ?case by (simp del: fun_upd_apply)
qed simp

lemma st32_fill:
  assumes "\<And>k. k < 4 \<Longrightarrow> get_byte k w = b"
  shows "st32 d w m = (\<lambda>a. if unat (a - d) < 4 then b else m a)"
proof
  fix a
  define x where "x = a - d"
  have a: "a = d + x" by (simp add: x_def)
  have "unat x < 4 \<longleftrightarrow> x = 0 \<or> x = 1 \<or> x = 2 \<or> x = 3" by (auto simp: word_unat_eq_iff)
  then show "st32 d w m a = (if unat (a - d) < 4 then b else m a)"
    using assms unfolding a by (auto simp: st32_def)
qed

lemma rep_stosl_fill:
  assumes "\<And>k. k < 4 \<Longrightarrow> get_byte k w = b" and "4 * n \<le> 2 ^ 32"
  shows "rep_stosl n d w m = (\<lambda>a. if unat (a - d) < 4 * n then b else m a)"
  using assms(2)
proof (induction n arbitrary: d m)
  case (Suc n)
  have "(if unat (a - (d + 4)) < 4 * n then b else st32 d w m a)
      = (if unat (a - d) < 4 * Suc n then b else m a)" for a
  proof (cases "unat (a - d) < 4")
    case True
    then show ?thesis using st32_fill [OF assms(1)] by simp
  next
    case False
    have "unat (a - (d + 4)) = unat (a - d) - 4"
      using unat_sub_ge [of 4 "a - d", unfolded diff_diff_eq] False by simp
    then show ?thesis using st32_fill [OF assms(1)] False by auto
  qed
  with Suc show ?case by (auto simp: fun_eq_iff)
qed simp

lemma splat_byte:
  assumes "k < 4"
  shows "get_byte k (push_bit 24 (c AND 0xFF) OR push_bit 16 (c AND 0xFF) OR push_bit 8 (c AND 0xFF)
           OR (c AND 0xFF)) = ucast c"
proof (rule bit_word_eqI)
  fix n assume n: "n < LENGTH(8)"
  from assms consider "k = 0" | "k = 1" | "k = 2" | "k = 3" by linarith
  then show "bit (get_byte k (push_bit 24 (c AND 0xFF) OR push_bit 16 (c AND 0xFF)
      OR push_bit 8 (c AND 0xFF) OR (c AND 0xFF))) n = bit (ucast c :: u8) n"
    using n unfolding mask8_num by cases (auto simp: get_byte_def bit_simps)
qed

text \<open>
  memset sets exactly the \<open>n\<close> bytes at \<open>v\<close> to the low byte of \<open>c\<close>, by words or by bytes.
\<close>

theorem memset_correct:
  "memset v c n m = (v, \<lambda>a. if unat (a - v) < unat n then ucast c else m a)"
proof -
  have un: "unat n < 2 ^ 32" using unsigned_less [of n, where 'a = nat] by simp
  have b: "rep_stosb (unat n) v (ucast c) m = (\<lambda>a. if unat (a - v) < unat n then ucast c else m a)"
    using un by (intro rep_stosb_fill) simp
  have l: "rep_stosl (unat (n div 4)) v (push_bit 24 (c AND 0xFF) OR push_bit 16 (c AND 0xFF)
        OR push_bit 8 (c AND 0xFF) OR (c AND 0xFF)) m
      = (\<lambda>a. if unat (a - v) < unat n then ucast c else m a)" if "n mod 4 = 0"
  proof -
    have "unat n mod 4 = unat (n mod 4)" by (simp add: unat_mod_distrib)
    then have "unat n mod 4 = 0" using that by simp
    then have "4 * unat (n div 4) = unat n"
      using div_mult_mod_eq [of "unat n" 4] by (simp add: unat_div_distrib)
    then show ?thesis using rep_stosl_fill [OF splat_byte, of "unat (n div 4)"] un by simp
  qed
  consider "n = 0" | "n \<noteq> 0" "v mod 4 = 0" "n mod 4 = 0" | "n \<noteq> 0" "\<not> (v mod 4 = 0 \<and> n mod 4 = 0)"
    by blast
  then show ?thesis
  proof cases
    case 2
    then show ?thesis unfolding memset_def Let_def l [OF 2(3)] by simp
  next
    case 3
    then show ?thesis unfolding memset_def b by auto
  qed (simp add: memset_def)
qed

section \<open>Bounded copies\<close>

lemma strlcpy_loop_bounds:
  "strlcpy_loop (Suc k) d s m = (d', m') \<Longrightarrow>
     unat (d' - d) \<le> k \<and> (\<forall>a. k \<le> unat (a - d) \<longrightarrow> m' a = m a)"
proof (induction "Suc k" d s m arbitrary: k rule: strlcpy_loop.induct)
  case (1 k d s m)
  show ?case
  proof (cases "m s = 0")
    case True
    then show ?thesis using 1(2) by auto
  next
    case False
    have ih: "unat (d' - (d + 1)) \<le> k" "\<forall>a. k \<le> unat (a - (d + 1)) \<longrightarrow> m' a = (m(d := m s)) a"
      using 1(1) [OF False] 1(2) False by auto
    have step: "unat (a - d) \<le> Suc (unat (a - (d + 1)))" for a
    proof (cases "a = d")
      case False
      then have "unat (a - d) > 0" by (simp add: unat_gt_0)
      then show ?thesis using unat_sub_ge [of 1 "a - d", unfolded diff_diff_eq] by simp
    qed simp
    have "m' a = m a" if "Suc k \<le> unat (a - d)" for a
      using ih(2) [rule_format, of a] step [of a] that by (auto split: if_splits)
    then show ?thesis using ih(1) step [of d'] by auto
  qed
qed (auto split: if_splits)

text \<open>
  strlcpy with a non-zero size writes only inside the destination buffer, and leaves it
  null-terminated at the offset it returns, which is less than the size.
\<close>

theorem strlcpy_bounds:
  assumes "sz > 0"
  shows "\<exists>r m'. strlcpy dst src sz m = (r, m') \<and> r < sz \<and> m' (dst + r) = 0
    \<and> (\<forall>a. unat sz \<le> unat (a - dst) \<longrightarrow> m' a = m a)"
proof -
  have "0 < unat sz" using assms by (simp add: word_less_nat_alt)
  then obtain k where k: "unat sz = Suc k" using gr0_implies_Suc by blast
  obtain d' m' where l: "strlcpy_loop (Suc k) dst src m = (d', m')" by fastforce
  note b = strlcpy_loop_bounds [OF l]
  have "d' - dst < sz" using b k by (simp add: word_less_nat_alt)
  moreover have "\<forall>a. unat sz \<le> unat (a - dst) \<longrightarrow> (m'(d' := 0)) a = m a"
    using b k by auto
  ultimately show ?thesis using assms l k by (simp add: strlcpy_def)
qed

theorem strlcpy_bounds_witness:
  "\<exists>r m'. strlcpy 300 100 2 demo_mem = (r, m') \<and> r < 2 \<and> m' (300 + r) = 0"
  using strlcpy_bounds [of 2 300 100 demo_mem] by auto

end
