(* ===== verification/Mmu.thy ===== *)
theory Mmu
  imports Prelude
begin

text \<open>
  Addresses and page-table entries: the rounding macros of inc/types.h, the address
  decomposition and the PTE flags of inc/mmu.h, the virtual memory layout of
  inc/memlayout.h, and the conversions between page numbers, physical and kernel virtual
  addresses of kern/pmap.h. Addresses are 32-bit words, as in the code.
\<close>

unbundle bit_operations_syntax

section \<open>inc/types.h: rounding\<close>

definition ROUNDDOWN :: "u32 \<Rightarrow> u32 \<Rightarrow> u32" where
  "ROUNDDOWN a n = a - a mod n"

definition ROUNDUP :: "u32 \<Rightarrow> u32 \<Rightarrow> u32" where
  "ROUNDUP a n = ROUNDDOWN (a + n - 1) n"

section \<open>inc/mmu.h: linear addresses\<close>

definition PGSIZE :: u32 where "PGSIZE = 4096"
definition NPDENTRIES :: nat where "NPDENTRIES = 1024"
definition NPTENTRIES :: nat where "NPTENTRIES = 1024"
definition PTSIZE :: u32 where "PTSIZE = PGSIZE * of_nat NPTENTRIES"
definition PTXSHIFT :: nat where "PTXSHIFT = 12"
definition PDXSHIFT :: nat where "PDXSHIFT = 22"

definition PPN :: "u32 \<Rightarrow> u32" where
  "PPN pa = drop_bit PTXSHIFT pa"

definition VPN :: "u32 \<Rightarrow> u32" where
  "VPN la = PPN la"

definition PDX :: "u32 \<Rightarrow> u32" where
  "PDX la = drop_bit PDXSHIFT la AND 0x3FF"

definition PTX :: "u32 \<Rightarrow> u32" where
  "PTX la = drop_bit PTXSHIFT la AND 0x3FF"

definition PGOFF :: "u32 \<Rightarrow> u32" where
  "PGOFF la = la AND 0xFFF"

definition PGADDR :: "u32 \<Rightarrow> u32 \<Rightarrow> u32 \<Rightarrow> u32" where
  "PGADDR d t ofs = push_bit PDXSHIFT d OR push_bit PTXSHIFT t OR ofs"

section \<open>inc/mmu.h: page-table entries\<close>

definition PTE_P :: u32 where "PTE_P = 0x001"
definition PTE_W :: u32 where "PTE_W = 0x002"
definition PTE_U :: u32 where "PTE_U = 0x004"
definition PTE_D :: u32 where "PTE_D = 0x040"
definition PTE_AVAIL :: u32 where "PTE_AVAIL = 0xE00"

definition PTE_USER :: u32 where
  "PTE_USER = (PTE_AVAIL OR PTE_P OR PTE_W OR PTE_U)"

definition PTE_ADDR :: "u32 \<Rightarrow> u32" where
  "PTE_ADDR pte = pte AND NOT 0xFFF"

section \<open>inc/memlayout.h: the virtual memory map\<close>

definition KERNBASE :: u32 where "KERNBASE = 0xF0000000"
definition IOPHYSMEM :: u32 where "IOPHYSMEM = 0x0A0000"
definition EXTPHYSMEM :: u32 where "EXTPHYSMEM = 0x100000"
definition VPT :: u32 where "VPT = KERNBASE - PTSIZE"
definition KSTACKTOP :: u32 where "KSTACKTOP = VPT"
definition KSTKSIZE :: u32 where "KSTKSIZE = 8 * PGSIZE"
definition ULIM :: u32 where "ULIM = KSTACKTOP - PTSIZE"
definition UVPT :: u32 where "UVPT = ULIM - PTSIZE"
definition UPAGES :: u32 where "UPAGES = UVPT - PTSIZE"
definition UENVS :: u32 where "UENVS = UPAGES - PTSIZE"
definition UTOP :: u32 where "UTOP = UENVS"
definition UXSTACKTOP :: u32 where "UXSTACKTOP = UTOP"
definition USTACKTOP :: u32 where "USTACKTOP = UTOP - 2 * PGSIZE"
definition UTEXT :: u32 where "UTEXT = 2 * PTSIZE"
definition UTEMP :: u32 where "UTEMP = PTSIZE"
definition PFTEMP :: u32 where "PFTEMP = UTEMP + PTSIZE - PGSIZE"
definition USTABDATA :: u32 where "USTABDATA = PTSIZE div 2"

section \<open>kern/pmap.h: page numbers and physical addresses\<close>

text \<open>
  A \<open>struct Page *\<close> is the index of the structure in the \<open>pages\<close> array, which is the
  physical page number. The macros and inline functions that panic take \<open>npage\<close> and
  return \<open>None\<close> for the panic.
\<close>

definition PADDR :: "u32 \<Rightarrow> u32 option" where
  "PADDR kva = (if kva < KERNBASE then None else Some (kva - KERNBASE))"

definition KADDR :: "nat \<Rightarrow> u32 \<Rightarrow> u32 option" where
  "KADDR np pa = (if unat (PPN pa) \<ge> np then None else Some (pa + KERNBASE))"

definition page2ppn :: "nat \<Rightarrow> u32" where
  "page2ppn pp = of_nat pp"

definition page2pa :: "nat \<Rightarrow> u32" where
  "page2pa pp = push_bit 12 (page2ppn pp)"

definition pa2page :: "nat \<Rightarrow> u32 \<Rightarrow> nat option" where
  "pa2page np pa = (if unat (PPN pa) \<ge> np then None else Some (unat (PPN pa)))"

definition page2kva :: "nat \<Rightarrow> nat \<Rightarrow> u32 option" where
  "page2kva np pp = KADDR np (page2pa pp)"

section \<open>Values of the layout constants\<close>

lemma PGSIZE_val [layout]: "PGSIZE = 4096" by (simp add: PGSIZE_def)
lemma PTSIZE_val [layout]: "PTSIZE = 0x400000"
  by (simp add: PTSIZE_def PGSIZE_def NPTENTRIES_def)
lemma KERNBASE_val [layout]: "KERNBASE = 0xF0000000" by (simp add: KERNBASE_def)
lemma VPT_val [layout]: "VPT = 0xEFC00000" by (simp add: VPT_def layout)
lemma KSTACKTOP_val [layout]: "KSTACKTOP = 0xEFC00000" by (simp add: KSTACKTOP_def layout)
lemma KSTKSIZE_val [layout]: "KSTKSIZE = 0x8000" by (simp add: KSTKSIZE_def layout)
lemma ULIM_val [layout]: "ULIM = 0xEF800000" by (simp add: ULIM_def layout)
lemma UVPT_val [layout]: "UVPT = 0xEF400000" by (simp add: UVPT_def layout)
lemma UPAGES_val [layout]: "UPAGES = 0xEF000000" by (simp add: UPAGES_def layout)
lemma UENVS_val [layout]: "UENVS = 0xEEC00000" by (simp add: UENVS_def layout)
lemma UTOP_val [layout]: "UTOP = 0xEEC00000" by (simp add: UTOP_def layout)
lemma UXSTACKTOP_val [layout]: "UXSTACKTOP = 0xEEC00000" by (simp add: UXSTACKTOP_def layout)
lemma USTACKTOP_val [layout]: "USTACKTOP = 0xEEBFE000" by (simp add: USTACKTOP_def layout)
lemma UTEXT_val [layout]: "UTEXT = 0x800000" by (simp add: UTEXT_def layout)
lemma PFTEMP_val [layout]: "PFTEMP = 0x7FF000" by (simp add: PFTEMP_def UTEMP_def layout)
lemma IOPHYSMEM_val [layout]: "IOPHYSMEM = 0xA0000" by (simp add: IOPHYSMEM_def)
lemma EXTPHYSMEM_val [layout]: "EXTPHYSMEM = 0x100000" by (simp add: EXTPHYSMEM_def)
lemma PTE_USER_val [layout]: "PTE_USER = 0xE07"
  by (simp add: PTE_USER_def PTE_AVAIL_def PTE_P_def PTE_W_def PTE_U_def)

lemmas pte_flags = PTE_P_def PTE_W_def PTE_U_def PTE_D_def PTE_AVAIL_def PTE_USER_val

lemmas shifts = PTXSHIFT_def PDXSHIFT_def

section \<open>Decomposition of addresses\<close>

lemma mask10: "(0x3FF :: u32) = mask 10" by (simp add: mask_eq_exp_minus_1)
lemma mask12: "(0xFFF :: u32) = mask 12" by (simp add: mask_eq_exp_minus_1)

lemmas addr_defs = PPN_def VPN_def PDX_def PTX_def PGOFF_def PGADDR_def PTE_ADDR_def
  page2pa_def page2ppn_def shifts mask10 mask12

lemma bit_of_small: "unat (w :: u32) < 2 ^ n \<Longrightarrow> n \<le> k \<Longrightarrow> \<not> bit w k"
  by (metis bit_take_bit_iff leD take_bit_nat_eq_self_iff unsigned_take_bit_eq word_unat_eq_iff)

lemma and_not_mask: "(x :: u32) AND NOT (mask n) = x - (x AND mask n)"
proof -
  have "(x AND mask n) AND (x AND NOT (mask n)) = 0"
    by (rule bit_word_eqI) (auto simp: bit_simps)
  then have "(x AND mask n) + (x AND NOT (mask n)) = (x AND mask n) OR (x AND NOT (mask n))"
    by (rule disjunctive_add_eq_or)
  also have "\<dots> = x" by (rule bit_word_eqI) (auto simp: bit_simps)
  finally show ?thesis by (simp add: algebra_simps)
qed

lemma PGADDR_parts [addr_simps]: "PGADDR (PDX la) (PTX la) (PGOFF la) = la"
proof (rule bit_word_eqI)
  fix n assume n: "n < LENGTH(32)"
  consider "n < 12" | "12 \<le> n \<and> n < 22" | "22 \<le> n" by linarith
  then show "bit (PGADDR (PDX la) (PTX la) (PGOFF la)) n \<longleftrightarrow> bit la n"
    using n by cases (auto simp: addr_defs bit_simps)
qed

lemma PDX_lt: "unat (PDX la) < 1024"
  using and_mask_lt [of 10] by (simp add: PDX_def mask10)

lemma PTX_lt: "unat (PTX la) < 1024"
  using and_mask_lt [of 10] by (simp add: PTX_def mask10)

lemma PGOFF_lt: "unat (PGOFF la) < 4096"
  using and_mask_lt [of 12] by (simp add: PGOFF_def mask12)

lemma PPN_lt: "unat (PPN pa) < 2 ^ 20"
  using unsigned_less [of pa] by (simp add: PPN_def shifts unat_drop_bit div_less_iff_less_mult)

lemma PDX_PGADDR [addr_simps]:
  assumes "unat d < 1024" "unat t < 1024" "unat k < 4096"
  shows "PDX (PGADDR d t k) = d"
proof (rule bit_word_eqI)
  fix n assume "n < LENGTH(32)"
  moreover have "\<And>n. 10 \<le> n \<Longrightarrow> \<not> bit d n" "\<And>n. 10 \<le> n \<Longrightarrow> \<not> bit t n"
      "\<And>n. 12 \<le> n \<Longrightarrow> \<not> bit k n"
    using assms bit_of_small [of _ 10] bit_of_small [of _ 12] by auto
  ultimately show "bit (PDX (PGADDR d t k)) n \<longleftrightarrow> bit d n"
    by (cases "n < 10") (auto simp: addr_defs bit_simps)
qed

lemma PTX_PGADDR [addr_simps]:
  assumes "unat d < 1024" "unat t < 1024" "unat k < 4096"
  shows "PTX (PGADDR d t k) = t"
proof (rule bit_word_eqI)
  fix n assume "n < LENGTH(32)"
  moreover have "\<And>n. 10 \<le> n \<Longrightarrow> \<not> bit t n" "\<And>n. 12 \<le> n \<Longrightarrow> \<not> bit k n"
    using assms bit_of_small [of _ 10] bit_of_small [of _ 12] by auto
  ultimately show "bit (PTX (PGADDR d t k)) n \<longleftrightarrow> bit t n"
    by (cases "n < 10") (auto simp: addr_defs bit_simps)
qed

lemma PGOFF_PGADDR [addr_simps]:
  assumes "unat d < 1024" "unat t < 1024" "unat k < 4096"
  shows "PGOFF (PGADDR d t k) = k"
proof (rule bit_word_eqI)
  fix n assume "n < LENGTH(32)"
  moreover have "\<And>n. 12 \<le> n \<Longrightarrow> \<not> bit k n"
    using assms bit_of_small [of _ 12] by auto
  ultimately show "bit (PGOFF (PGADDR d t k)) n \<longleftrightarrow> bit k n"
    by (cases "n < 12") (auto simp: addr_defs bit_simps)
qed

section \<open>Page numbers\<close>

lemma unat_of_nat_ppn: "pp < 2 ^ 20 \<Longrightarrow> unat (of_nat pp :: u32) = pp"
  by (simp add: unsigned_of_nat take_bit_nat_eq_self)

lemma bit_ppn_small: "pp < 2 ^ 20 \<Longrightarrow> 20 \<le> k \<Longrightarrow> \<not> bit (of_nat pp :: u32) k"
  using bit_of_small [of "of_nat pp" 20 k] by (simp add: unat_of_nat_ppn)

lemma PPN_page2pa [addr_simps]:
  assumes "pp < 2 ^ 20"
  shows "PPN (page2pa pp) = of_nat pp"
proof (rule bit_word_eqI)
  fix n assume "n < LENGTH(32)"
  then show "bit (PPN (page2pa pp)) n \<longleftrightarrow> bit (of_nat pp :: u32) n"
    using bit_ppn_small [OF assms, of n]
    by (cases "n < 20") (auto simp: PPN_def page2pa_def page2ppn_def shifts bit_simps
        simp del: bit_of_nat_iff_bit)
qed

lemma unat_PPN_page2pa [addr_simps]: "pp < 2 ^ 20 \<Longrightarrow> unat (PPN (page2pa pp)) = pp"
  by (simp add: PPN_page2pa unat_of_nat_ppn)

lemma page2pa_inj:
  assumes "p < 2 ^ 20" "q < 2 ^ 20" "page2pa p = page2pa q"
  shows "p = q"
  using assms unat_PPN_page2pa by metis

lemma pa2page_page2pa [addr_simps]:
  "pp < np \<Longrightarrow> np \<le> 2 ^ 20 \<Longrightarrow> pa2page np (page2pa pp) = Some pp"
  by (simp add: pa2page_def unat_PPN_page2pa)

lemma pa2page_Some_iff:
  "pa2page np pa = Some pp \<longleftrightarrow> pp < np \<and> pp = unat (PPN pa)"
  by (auto simp: pa2page_def)

lemma PPN_PTE_ADDR [addr_simps]: "PPN (PTE_ADDR pte) = PPN pte"
  by (rule bit_word_eqI) (auto simp: addr_defs bit_simps dest: bit_imp_le_length)

lemma page2pa_PPN [addr_simps]: "page2pa (unat (PPN pte)) = PTE_ADDR pte"
  by (rule bit_word_eqI) (auto simp: addr_defs bit_simps simp del: bit_of_nat_iff_bit)

lemma PTE_ADDR_eq_iff: "pp < 2 ^ 20 \<Longrightarrow> PTE_ADDR pte = page2pa pp \<longleftrightarrow> unat (PPN pte) = pp"
  using page2pa_PPN unat_PPN_page2pa PPN_PTE_ADDR by metis

lemma perm_no_high: "unat (perm :: u32) < 4096 \<Longrightarrow> 12 \<le> k \<Longrightarrow> \<not> bit perm k"
  using bit_of_small [of perm 12 k] by simp

text \<open>An entry built as \<open>page2pa(pp) | perm | PTE_P\<close>.\<close>

definition mkpte :: "nat \<Rightarrow> u32 \<Rightarrow> u32" where
  "mkpte pp perm = (page2pa pp OR perm OR PTE_P)"

lemma PPN_mkpte [addr_simps]:
  assumes "pp < 2 ^ 20" "unat perm < 4096"
  shows "unat (PPN (mkpte pp perm)) = pp"
proof -
  have "PPN (mkpte pp perm) = PPN (page2pa pp)"
  proof (rule bit_word_eqI)
    fix n assume "n < LENGTH(32)"
    then show "bit (PPN (mkpte pp perm)) n \<longleftrightarrow> bit (PPN (page2pa pp)) n"
      using perm_no_high [OF assms(2), of "12 + n"] perm_no_high [of PTE_P "12 + n"]
      by (auto simp: mkpte_def PPN_def shifts bit_simps PTE_P_def)
  qed
  then show ?thesis using assms by (simp add: unat_PPN_page2pa)
qed

lemma PTE_ADDR_mkpte [addr_simps]:
  "pp < 2 ^ 20 \<Longrightarrow> unat perm < 4096 \<Longrightarrow> PTE_ADDR (mkpte pp perm) = page2pa pp"
  by (metis PPN_mkpte page2pa_PPN)

lemma mkpte_present [addr_simps, simp]: "mkpte pp perm AND PTE_P \<noteq> 0"
proof -
  have "bit (mkpte pp perm AND PTE_P) 0"
    by (simp add: mkpte_def PTE_P_def bit_simps)
  then show ?thesis by auto
qed

lemma low_bits_page2pa: "k < 12 \<Longrightarrow> \<not> bit (page2pa pp) k"
  by (simp add: page2pa_def bit_simps)

lemma mkpte_AND_low:
  assumes "unat m < 4096"
  shows "mkpte pp perm AND m = (perm OR PTE_P) AND m"
proof (rule bit_word_eqI)
  fix n assume "n < LENGTH(32)"
  then show "bit (mkpte pp perm AND m) n \<longleftrightarrow> bit ((perm OR PTE_P) AND m) n"
    using perm_no_high [OF assms, of n] low_bits_page2pa [of n pp]
    by (cases "n < 12") (auto simp: mkpte_def bit_simps)
qed

section \<open>Kernel virtual addresses\<close>

lemma PADDR_KADDR:
  assumes "KADDR np pa = Some kva" and "np \<le> 0x10000"
  shows "PADDR kva = Some pa"
proof -
  have pa: "unat pa < 0x10000000"
    using assms by (auto simp: KADDR_def PPN_def shifts unat_drop_bit split: if_splits)
  then have "unat (pa + KERNBASE) = unat pa + 0xF0000000"
    by (simp add: unat_word_ariths layout)
  then have "KERNBASE \<le> pa + KERNBASE"
    by (simp add: word_le_nat_alt layout)
  then show ?thesis using assms by (auto simp: KADDR_def PADDR_def split: if_splits)
qed

section \<open>Rounding\<close>

lemma unat_ROUNDDOWN: "unat (ROUNDDOWN a n) = unat a - unat a mod unat n"
proof -
  have "a mod n \<le> a"
    by (simp add: word_le_nat_alt unat_mod_distrib)
  then show ?thesis
    by (simp add: ROUNDDOWN_def unat_sub unat_mod_distrib)
qed

lemma ROUNDDOWN_le: "ROUNDDOWN a n \<le> a"
  by (simp add: word_le_nat_alt unat_ROUNDDOWN)

lemma ROUNDDOWN_aligned: "ROUNDDOWN a n mod n = 0"
proof -
  have "unat (ROUNDDOWN a n) mod unat n = 0"
    by (simp add: unat_ROUNDDOWN minus_mod_eq_mult_div)
  then show ?thesis by (simp add: word_unat_eq_iff unat_mod_distrib)
qed

lemma lt_ROUNDDOWN_add: "0 < unat n \<Longrightarrow> unat a < unat (ROUNDDOWN a n) + unat n"
  using mod_less_divisor [of "unat n" "unat a"] mod_less_eq_dividend [of "unat a" "unat n"]
  unfolding unat_ROUNDDOWN by linarith

lemma PGOFF_eq_mod: "PGOFF a = a mod PGSIZE"
  by (simp add: PGOFF_def PGSIZE_def mask12 take_bit_eq_mask [symmetric] take_bit_eq_mod)

lemma ROUNDDOWN_PGSIZE: "ROUNDDOWN a PGSIZE = PGADDR (PDX a) (PTX a) 0"
proof -
  have "a - PGOFF a = PGADDR (PDX a) (PTX a) 0"
  proof -
    have "PGADDR (PDX a) (PTX a) 0 + PGOFF a = PGADDR (PDX a) (PTX a) 0 OR PGOFF a"
      by (rule disjunctive_add_eq_or) (auto simp: addr_defs bit_simps bit_eq_iff)
    also have "\<dots> = PGADDR (PDX a) (PTX a) (PGOFF a)"
      by (simp add: PGADDR_def or.assoc)
    also have "\<dots> = a" by (rule PGADDR_parts)
    finally show ?thesis by (metis add_diff_cancel_right')
  qed
  then show ?thesis by (simp add: ROUNDDOWN_def PGOFF_eq_mod)
qed

section \<open>Addresses as numbers\<close>

lemma low10: "(w :: u32) AND mask 10 = w mod 1024"
  by (simp add: take_bit_eq_mod flip: take_bit_eq_mask)

lemma unat_PDX: "unat (PDX a) = unat a div 4194304"
proof -
  have "unat a < 4294967296" using unsigned_less [of a, where 'a = nat] by simp
  then have "unat a div 4194304 < 1024" by (simp add: less_mult_imp_div_less)
  then show ?thesis by (simp add: PDX_def shifts mask10 low10 unat_mod_distrib unat_drop_bit)
qed

lemma unat_PTX: "unat (PTX a) = unat a div 4096 mod 1024"
  by (simp add: PTX_def shifts mask10 low10 unat_mod_distrib unat_drop_bit)

lemma unat_VPN: "unat (VPN a) = unat a div 4096"
  by (simp add: VPN_def PPN_def shifts unat_drop_bit)

end
