(* ===== verification/Queue.thy ===== *)
theory Queue
  imports Prelude
begin

text \<open>
  The intrusive doubly linked lists of inc/queue.h, at pointer level. An element is named by
  its index in the array that holds it; its \<open>LIST_ENTRY\<close> (the \<open>pp_link\<close> of a
  \<open>struct Page\<close>, the \<open>env_link\<close> of a \<open>struct Env\<close>) is the pair of fields \<open>le_next\<close> and
  \<open>le_prev\<close> at that index. \<open>le_prev\<close> holds the address of the cell that points at the
  element: the list head, or the \<open>le_next\<close> field of another element.

  The macros are translated store by store. \<open>is_list\<close> relates the pointer structure to the
  list of its elements; the lemmas show that on a well-formed list the macros are the
  list operations, and the locale \<open>intrusive_list\<close> is the interface their users rely on.
\<close>

section \<open>Pointers, heads and entries\<close>

datatype 'a lptr = LNull | LHead | LNext 'a

record 'a llist =
  lh_first :: "'a option"
  le_next :: "'a \<Rightarrow> 'a option"
  le_prev :: "'a \<Rightarrow> 'a lptr"

definition LIST_EMPTY :: "'a llist \<Rightarrow> bool" where
  "LIST_EMPTY h \<longleftrightarrow> lh_first h = None"

definition LIST_FIRST :: "'a llist \<Rightarrow> 'a option" where
  "LIST_FIRST h = lh_first h"

definition LIST_NEXT :: "'a llist \<Rightarrow> 'a \<Rightarrow> 'a option" where
  "LIST_NEXT h elm = le_next h elm"

definition LIST_INIT :: "'a llist \<Rightarrow> 'a llist" where
  "LIST_INIT h = h\<lparr>lh_first := None\<rparr>"

text \<open>The store \<open>*p = v\<close> for a \<open>le_prev\<close> pointer \<open>p\<close>; a null pointer faults.\<close>

definition store_lptr :: "'a lptr \<Rightarrow> 'a option \<Rightarrow> 'a llist \<Rightarrow> 'a llist option" where
  "store_lptr p v h = (case p of
     LNull \<Rightarrow> None
   | LHead \<Rightarrow> Some (h\<lparr>lh_first := v\<rparr>)
   | LNext e \<Rightarrow> Some (h\<lparr>le_next := (le_next h)(e := v)\<rparr>))"

definition set_next :: "'a \<Rightarrow> 'a option \<Rightarrow> 'a llist \<Rightarrow> 'a llist" where
  "set_next e v h = h\<lparr>le_next := (le_next h)(e := v)\<rparr>"

definition set_prev :: "'a \<Rightarrow> 'a lptr \<Rightarrow> 'a llist \<Rightarrow> 'a llist" where
  "set_prev e p h = h\<lparr>le_prev := (le_prev h)(e := p)\<rparr>"

definition LIST_INSERT_AFTER :: "'a \<Rightarrow> 'a \<Rightarrow> 'a llist \<Rightarrow> 'a llist" where
  "LIST_INSERT_AFTER listelm elm h =
     (let h1 = set_next elm (le_next h listelm) h;
          h2 = (case le_next h1 elm of
                  None \<Rightarrow> h1
                | Some _ \<Rightarrow> (case le_next h1 listelm of
                              None \<Rightarrow> h1
                            | Some n \<Rightarrow> set_prev n (LNext elm) h1));
          h3 = set_next listelm (Some elm) h2
      in set_prev elm (LNext listelm) h3)"

definition LIST_INSERT_BEFORE :: "'a \<Rightarrow> 'a \<Rightarrow> 'a llist \<Rightarrow> 'a llist option" where
  "LIST_INSERT_BEFORE listelm elm h =
     (let h1 = set_prev elm (le_prev h listelm) h;
          h2 = set_next elm (Some listelm) h1
      in do {
        h3 \<leftarrow> store_lptr (le_prev h2 listelm) (Some elm) h2;
        Some (set_prev listelm (LNext elm) h3)
      })"

definition LIST_INSERT_HEAD :: "'a \<Rightarrow> 'a llist \<Rightarrow> 'a llist" where
  "LIST_INSERT_HEAD elm h =
     (let h1 = set_next elm (lh_first h) h;
          h2 = (case lh_first h1 of None \<Rightarrow> h1 | Some f \<Rightarrow> set_prev f (LNext elm) h1);
          h3 = h2\<lparr>lh_first := Some elm\<rparr>
      in set_prev elm LHead h3)"

definition LIST_REMOVE :: "'a \<Rightarrow> 'a llist \<Rightarrow> 'a llist option" where
  "LIST_REMOVE elm h =
     (let h1 = (case le_next h elm of None \<Rightarrow> h | Some n \<Rightarrow> set_prev n (le_prev h elm) h)
      in store_lptr (le_prev h1 elm) (le_next h1 elm) h1)"

section \<open>Well-formed lists\<close>

text \<open>\<open>load_lptr h p\<close> is \<open>*p\<close>.\<close>

definition load_lptr :: "'a llist \<Rightarrow> 'a lptr \<Rightarrow> 'a option" where
  "load_lptr h p = (case p of LNull \<Rightarrow> None | LHead \<Rightarrow> lh_first h | LNext e \<Rightarrow> le_next h e)"

fun chain :: "'a llist \<Rightarrow> 'a lptr \<Rightarrow> 'a list \<Rightarrow> bool" where
  "chain h p [] \<longleftrightarrow> load_lptr h p = None"
| "chain h p (x # xs) \<longleftrightarrow>
     load_lptr h p = Some x \<and> le_prev h x = p \<and> chain h (LNext x) xs"

definition is_list :: "'a llist \<Rightarrow> 'a list \<Rightarrow> bool" where
  "is_list h xs \<longleftrightarrow> distinct xs \<and> chain h LHead xs"

lemmas list_macro_defs = LIST_INSERT_HEAD_def LIST_REMOVE_def LIST_INSERT_AFTER_def
  LIST_INSERT_BEFORE_def set_next_def set_prev_def store_lptr_def load_lptr_def Let_def

lemma chain_unique: "chain h p xs \<Longrightarrow> chain h p ys \<Longrightarrow> xs = ys"
proof (induction xs arbitrary: p ys)
  case Nil
  then show ?case by (cases ys) auto
next
  case (Cons x xs)
  then show ?case by (cases ys) auto
qed

lemma is_list_unique: "is_list h xs \<Longrightarrow> is_list h ys \<Longrightarrow> xs = ys"
  by (auto simp: is_list_def dest: chain_unique)

lemma is_list_distinct: "is_list h xs \<Longrightarrow> distinct xs"
  by (simp add: is_list_def)

lemma chain_cong:
  assumes "load_lptr h' p = load_lptr h p"
    and "\<And>x. x \<in> set xs \<Longrightarrow> le_next h' x = le_next h x \<and> le_prev h' x = le_prev h x"
  shows "chain h' p xs = chain h p xs"
  using assms
proof (induction xs arbitrary: p)
  case Nil
  then show ?case by simp
next
  case (Cons x xs)
  have "chain h' (LNext x) xs = chain h (LNext x) xs"
    by (rule Cons.IH) (use Cons.prems(2) in \<open>auto simp: load_lptr_def\<close>)
  with Cons.prems show ?case by simp
qed

lemma chain_mid: "chain h p (xs @ y # ys) \<Longrightarrow> chain h (LNext y) ys"
  by (induction xs arbitrary: p) auto

lemma is_list_init: "is_list (LIST_INIT h) []"
  by (simp add: is_list_def LIST_INIT_def load_lptr_def)

lemma is_list_first:
  "is_list h xs \<Longrightarrow> LIST_FIRST h = (case xs of [] \<Rightarrow> None | x # _ \<Rightarrow> Some x)"
  by (cases xs) (auto simp: is_list_def LIST_FIRST_def load_lptr_def)

lemma is_list_empty: "is_list h xs \<Longrightarrow> LIST_EMPTY h \<longleftrightarrow> xs = []"
  using is_list_first [of h xs] by (cases xs) (auto simp: LIST_EMPTY_def LIST_FIRST_def)

lemma is_list_insert_head:
  assumes "is_list h xs" and "x \<notin> set xs"
  shows "is_list (LIST_INSERT_HEAD x h) (x # xs)"
proof (cases xs)
  case Nil
  then show ?thesis using assms
    by (auto simp: is_list_def list_macro_defs split: option.splits)
next
  case (Cons y ys)
  let ?h = "LIST_INSERT_HEAD x h"
  have "chain ?h (LNext y) ys = chain h (LNext y) ys"
    by (rule chain_cong) (use assms Cons in \<open>auto simp: is_list_def list_macro_defs split: option.splits\<close>)
  with assms Cons show ?thesis
    by (auto simp: is_list_def list_macro_defs split: option.splits)
qed

text \<open>Removal, with what it leaves alone, from any cell \<open>p\<close> of the list on.\<close>

lemma chain_remove:
  assumes "chain h p xs" and "x \<in> set xs" and "distinct xs" and "p \<noteq> LNull"
    and "\<And>e. p = LNext e \<Longrightarrow> e \<notin> set xs"
  shows "\<exists>h'. LIST_REMOVE x h = Some h' \<and> chain h' p (remove1 x xs)
    \<and> (\<forall>q. (\<forall>e. q = LNext e \<longrightarrow> e \<notin> set xs) \<and> q \<noteq> p \<longrightarrow> load_lptr h' q = load_lptr h q)
    \<and> (\<forall>e. e \<notin> set xs \<longrightarrow> le_prev h' e = le_prev h e)"
  using assms
proof (induction xs arbitrary: p)
  case Nil
  then show ?case by simp
next
  case (Cons y ys)
  show ?case
  proof (cases "x = y")
    case True
    show ?thesis
    proof (cases ys)
      case Nil
      with True Cons.prems show ?thesis
        by (cases p) (auto simp: list_macro_defs split: lptr.splits)
    next
      case (Cons z zs)
      let ?h1 = "set_prev z p h"
      obtain h' where h': "store_lptr p (Some z) ?h1 = Some h'"
        using \<open>p \<noteq> LNull\<close> by (cases p) (auto simp: store_lptr_def)
      have nx: "le_next h y = Some z" and pv: "le_prev h y = p" and "z \<noteq> y"
        using Cons.prems Cons by (auto simp: load_lptr_def)
      have rem: "LIST_REMOVE x h = Some h'"
        using h' nx pv True \<open>z \<noteq> y\<close> by (simp add: LIST_REMOVE_def set_prev_def)
      have same: "\<And>e. p \<noteq> LNext e \<Longrightarrow> le_next h' e = le_next h e"
        "\<And>e. e \<noteq> z \<Longrightarrow> le_prev h' e = le_prev h e" "le_prev h' z = p"
        "load_lptr h' p = Some z" "p \<noteq> LHead \<Longrightarrow> lh_first h' = lh_first h"
        using h' by (cases p; auto simp: store_lptr_def set_prev_def load_lptr_def)+
      have "chain h' (LNext z) zs = chain h (LNext z) zs"
      proof (rule chain_cong)
        show "load_lptr h' (LNext z) = load_lptr h (LNext z)"
          using same(1) [of z] Cons.prems(5) [of z] Cons by (auto simp: load_lptr_def)
      next
        fix e assume e: "e \<in> set zs"
        then have "e \<noteq> z" "p \<noteq> LNext e" using Cons.prems Cons by auto
        then show "le_next h' e = le_next h e \<and> le_prev h' e = le_prev h e"
          using same by blast
      qed
      then have ch: "chain h' p (z # zs)" using same(3,4) Cons.prems(1) Cons by simp
      have "\<forall>q. (\<forall>e. q = LNext e \<longrightarrow> e \<notin> set (y # ys)) \<and> q \<noteq> p \<longrightarrow> load_lptr h' q = load_lptr h q"
      proof (intro allI impI)
        fix q assume "(\<forall>e. q = LNext e \<longrightarrow> e \<notin> set (y # ys)) \<and> q \<noteq> p"
        then show "load_lptr h' q = load_lptr h q"
          using same(1,5) by (cases q) (auto simp: load_lptr_def)
      qed
      moreover have "\<forall>e. e \<notin> set (y # ys) \<longrightarrow> le_prev h' e = le_prev h e"
        using same(2) Cons by auto
      ultimately show ?thesis using rem ch True Cons by simp
    qed
  next
    case False
    have "\<exists>h'. LIST_REMOVE x h = Some h' \<and> chain h' (LNext y) (remove1 x ys)
      \<and> (\<forall>q. (\<forall>e. q = LNext e \<longrightarrow> e \<notin> set ys) \<and> q \<noteq> LNext y \<longrightarrow> load_lptr h' q = load_lptr h q)
      \<and> (\<forall>e. e \<notin> set ys \<longrightarrow> le_prev h' e = le_prev h e)"
      by (rule Cons.IH) (use Cons.prems False in auto)
    then obtain h' where h': "LIST_REMOVE x h = Some h'" "chain h' (LNext y) (remove1 x ys)"
      and ld: "\<And>q. (\<forall>e. q = LNext e \<longrightarrow> e \<notin> set ys) \<Longrightarrow> q \<noteq> LNext y \<Longrightarrow> load_lptr h' q = load_lptr h q"
      and pv: "\<And>e. e \<notin> set ys \<Longrightarrow> le_prev h' e = le_prev h e"
      by metis
    have "load_lptr h' p = load_lptr h p"
      by (rule ld) (use Cons.prems in auto)
    then have "chain h' p (remove1 x (y # ys))"
      using h' pv [of y] Cons.prems(1,3) False by simp
    moreover have "\<forall>q. (\<forall>e. q = LNext e \<longrightarrow> e \<notin> set (y # ys)) \<and> q \<noteq> p \<longrightarrow> load_lptr h' q = load_lptr h q"
    proof (intro allI impI)
      fix q assume q: "(\<forall>e. q = LNext e \<longrightarrow> e \<notin> set (y # ys)) \<and> q \<noteq> p"
      show "load_lptr h' q = load_lptr h q" by (rule ld) (use q in auto)
    qed
    moreover have "\<forall>e. e \<notin> set (y # ys) \<longrightarrow> le_prev h' e = le_prev h e"
      using pv by simp
    ultimately show ?thesis using h'(1) by blast
  qed
qed

lemma is_list_remove:
  assumes "is_list h xs" and "x \<in> set xs"
  shows "\<exists>h'. LIST_REMOVE x h = Some h' \<and> is_list h' (remove1 x xs)"
  using chain_remove [of h LHead xs x] assms by (auto simp: is_list_def)

lemma is_list_insert_after:
  assumes "is_list h (xs @ y # ys)" and "x \<notin> set (xs @ y # ys)"
  shows "is_list (LIST_INSERT_AFTER y x h) (xs @ y # x # ys)"
proof -
  have "chain h p (zs @ y # ys) \<Longrightarrow> x \<notin> set (zs @ y # ys) \<Longrightarrow> distinct (zs @ y # ys) \<Longrightarrow>
      p \<noteq> LNext x \<Longrightarrow> p \<noteq> LNext y \<Longrightarrow>
      chain (LIST_INSERT_AFTER y x h) p (zs @ y # x # ys)" for zs p
  proof (induction zs arbitrary: p)
    case Nil
    have "ys = [] \<or> (\<exists>z zs. ys = z # zs)" by (cases ys) auto
    then show ?case
    proof
      assume "ys = []"
      with Nil show ?thesis
        by (cases p) (auto simp: list_macro_defs split: lptr.splits option.splits)
    next
      assume "\<exists>z zs. ys = z # zs"
      then obtain z zs where ys: "ys = z # zs" by blast
      have "chain (LIST_INSERT_AFTER y x h) (LNext z) zs = chain h (LNext z) zs"
        by (rule chain_cong) (use Nil ys in \<open>auto simp: list_macro_defs split: option.splits\<close>)
      with Nil ys show ?thesis
        by (cases p) (auto simp: list_macro_defs split: lptr.splits option.splits)
    qed
  next
    case (Cons z zs)
    have "chain (LIST_INSERT_AFTER y x h) (LNext z) (zs @ y # x # ys)"
      by (rule Cons.IH) (use Cons.prems in auto)
    moreover have "le_prev (LIST_INSERT_AFTER y x h) z = le_prev h z"
      using Cons.prems(2,3) chain_mid [OF Cons.prems(1)]
      by (cases ys) (auto simp: list_macro_defs split: option.splits)
    moreover have "load_lptr (LIST_INSERT_AFTER y x h) p = load_lptr h p"
      using Cons.prems by (cases p) (auto simp: list_macro_defs split: option.splits)
    ultimately show ?case using Cons.prems by simp
  qed
  from this [of LHead xs] assms show ?thesis by (auto simp: is_list_def)
qed

section \<open>The interface\<close>

text \<open>
  What a user of an intrusive list relies on: a representation relation that determines the
  list, reading the first element, insertion of an element that is not in the list at its
  head, and removal of one that is. \<open>remove\<close> may fault; the laws say when it does not.
\<close>

locale intrusive_list =
  fixes repr :: "'l \<Rightarrow> 'a list \<Rightarrow> bool"
    and first :: "'l \<Rightarrow> 'a option"
    and init :: "'l \<Rightarrow> 'l"
    and insert_head :: "'a \<Rightarrow> 'l \<Rightarrow> 'l"
    and remove :: "'a \<Rightarrow> 'l \<Rightarrow> 'l option"
  assumes repr_unique: "repr l xs \<Longrightarrow> repr l ys \<Longrightarrow> xs = ys"
    and repr_distinct: "repr l xs \<Longrightarrow> distinct xs"
    and repr_init: "repr (init l) []"
    and repr_first: "repr l xs \<Longrightarrow> first l = (case xs of [] \<Rightarrow> None | x # _ \<Rightarrow> Some x)"
    and repr_insert: "repr l xs \<Longrightarrow> x \<notin> set xs \<Longrightarrow> repr (insert_head x l) (x # xs)"
    and repr_remove: "repr l xs \<Longrightarrow> x \<in> set xs \<Longrightarrow>
          \<exists>l'. remove x l = Some l' \<and> repr l' (remove1 x xs)"
begin

lemma pop:
  assumes "repr l xs" and "first l = Some x"
  shows "\<exists>l' ys. remove x l = Some l' \<and> repr l' ys \<and> xs = x # ys"
proof -
  from assms repr_first obtain ys where "xs = x # ys"
    by (fastforce split: list.splits)
  with assms repr_remove [of l xs x] show ?thesis by auto
qed

lemma first_None: "repr l xs \<Longrightarrow> first l = None \<longleftrightarrow> xs = []"
  by (auto simp: repr_first split: list.splits)

lemma insert_pop:
  assumes "repr l xs" and "x \<notin> set xs"
  shows "first (insert_head x l) = Some x
    \<and> (\<exists>l'. remove x (insert_head x l) = Some l' \<and> repr l' xs)"
  using repr_first [OF repr_insert [OF assms]] repr_remove [OF repr_insert [OF assms], of x]
  by simp

lemma insert_all:
  assumes "repr l xs" and "distinct ys" and "set ys \<inter> set xs = {}"
  shows "repr (fold insert_head ys l) (rev ys @ xs)"
  using assms
proof (induction ys arbitrary: l xs)
  case Nil
  then show ?case by simp
next
  case (Cons y ys)
  have "repr (fold insert_head ys (insert_head y l)) (rev ys @ (y # xs))"
    by (rule Cons.IH) (use Cons.prems in \<open>auto intro: repr_insert\<close>)
  then show ?case by simp
qed

end

interpretation tailq: intrusive_list is_list LIST_FIRST LIST_INIT LIST_INSERT_HEAD LIST_REMOVE
  by unfold_locales
    (auto simp: is_list_first is_list_init is_list_remove
      intro: is_list_insert_head is_list_unique is_list_distinct)

end
