(* ===== verification/Kstate.thy ===== *)
theory Kstate
  imports Mmu Queue Console
begin

text \<open>
  The state of the kernel: the structures of inc/trap.h and inc/env.h, the globals of
  kern/pmap.c, kern/env.c, kern/syscall.c and kern/console.c, and the parts of the machine they drive
  (physical memory, CR3, the TLB).

  Arrays are functions of the index: \<open>pages[i].pp_ref\<close> is \<open>pp_ref s i\<close>, \<open>envs[i]\<close> is
  \<open>envs s i\<close>. A \<open>struct Page *\<close> or \<open>struct Env *\<close> is the index. The link fields of all
  elements of an array live with the list head in one \<open>llist\<close>. Physical memory is a
  function from page number and word index to 32-bit words; a kernel pointer into a
  physical page (above KERNBASE) is the pair of page number and word index, and a page
  directory pointer is the number of its page.
\<close>

section \<open>inc/trap.h\<close>

record PushRegs =
  reg_edi :: u32
  reg_esi :: u32
  reg_ebp :: u32
  reg_oesp :: u32
  reg_ebx :: u32
  reg_edx :: u32
  reg_ecx :: u32
  reg_eax :: u32

record Trapframe =
  tf_regs :: PushRegs
  tf_es :: u16
  tf_padding1 :: u16
  tf_ds :: u16
  tf_padding2 :: u16
  tf_trapno :: u32
  tf_err :: u32
  tf_eip :: u32
  tf_cs :: u16
  tf_padding3 :: u16
  tf_eflags :: u32
  tf_esp :: u32
  tf_ss :: u16
  tf_padding4 :: u16

definition PushRegs_zero :: PushRegs where
  "PushRegs_zero = \<lparr>reg_edi = 0, reg_esi = 0, reg_ebp = 0, reg_oesp = 0,
     reg_ebx = 0, reg_edx = 0, reg_ecx = 0, reg_eax = 0\<rparr>"

definition Trapframe_zero :: Trapframe where
  "Trapframe_zero = \<lparr>tf_regs = PushRegs_zero, tf_es = 0, tf_padding1 = 0, tf_ds = 0,
     tf_padding2 = 0, tf_trapno = 0, tf_err = 0, tf_eip = 0, tf_cs = 0, tf_padding3 = 0,
     tf_eflags = 0, tf_esp = 0, tf_ss = 0, tf_padding4 = 0\<rparr>"

section \<open>inc/env.h\<close>

definition LOG2NENV :: nat where "LOG2NENV = 10"
definition NENV :: nat where "NENV = 2 ^ LOG2NENV"

definition ENVX :: "u32 \<Rightarrow> nat" where
  "ENVX envid = unat (envid AND (of_nat NENV - 1))"

definition ENV_FREE :: u32 where "ENV_FREE = 0"
definition ENV_RUNNABLE :: u32 where "ENV_RUNNABLE = 1"
definition ENV_NOT_RUNNABLE :: u32 where "ENV_NOT_RUNNABLE = 2"
definition ENV_NOT_SET :: u32 where "ENV_NOT_SET = 3"

definition PRIORITY_HIGH :: u32 where "PRIORITY_HIGH = 0x10000"
definition PRIORITY_DEFAULT :: u32 where "PRIORITY_DEFAULT = 0x1000"
definition PRIORITY_MIDDLE :: u32 where "PRIORITY_MIDDLE = 0x100"
definition PRIORITY_LOW :: u32 where "PRIORITY_LOW = 0x10"

lemmas env_status_defs = ENV_FREE_def ENV_RUNNABLE_def ENV_NOT_RUNNABLE_def ENV_NOT_SET_def

lemma NENV_val [layout]: "NENV = 1024" by (simp add: NENV_def LOG2NENV_def)

record Env =
  env_tf :: Trapframe
  env_id :: u32
  env_parent_id :: u32
  env_status :: u32
  env_runs :: u32
  env_pgdir :: "nat option"
  env_cr3 :: u32
  env_pgfault_upcall :: u32
  env_priority :: u32
  env_divide_upcall :: u32
  env_gpfault_upcall :: u32
  env_illop_upcall :: u32
  env_ipc_sended :: u32
  env_ipc_recving :: bool
  env_ipc_dstva :: u32
  env_ipc_value :: u32
  env_ipc_from :: u32
  env_ipc_perm :: u32

lemma ENVX_lt: "ENVX envid < NENV"
proof -
  have "(of_nat NENV - 1 :: u32) = mask 10" by (simp add: layout mask_eq_exp_minus_1)
  then show ?thesis using and_mask_lt [of 10 envid] by (simp add: ENVX_def layout)
qed

section \<open>Selectors and flags (inc/memlayout.h, inc/mmu.h)\<close>

definition GD_KT :: u16 where "GD_KT = 0x08"
definition GD_KD :: u16 where "GD_KD = 0x10"
definition GD_UT :: u16 where "GD_UT = 0x18"
definition GD_UD :: u16 where "GD_UD = 0x20"
definition GD_TSS :: u16 where "GD_TSS = 0x28"
definition FL_IF :: u32 where "FL_IF = 0x200"
definition FL_IOPL_MASK :: u32 where "FL_IOPL_MASK = 0x3000"
definition FL_IOPL_3 :: u32 where "FL_IOPL_3 = 0x3000"

section \<open>The kernel and the machine\<close>

record kstate =
  npage :: nat
  page_free_list :: "nat llist"
  pp_ref :: "nat \<Rightarrow> u16"
  mem :: "nat \<Rightarrow> nat \<Rightarrow> u32"
  boot_pgdir :: nat
  boot_cr3 :: u32
  cr3 :: u32
  tlb :: "u32 \<Rightarrow> u32 option"
  user_mem_check_addr :: u32
  envs :: "nat \<Rightarrow> Env"
  env_free_list :: "nat llist"
  curenv :: "nat option"
  waiting_srcenv_ids :: "nat \<Rightarrow> u32"
  waiting_dstenv_ids :: "nat \<Rightarrow> u32"
  waiting_env_num :: nat
  kbd_state :: kbd
  cons :: consbuf
  cons_out :: "u8 list"

text \<open>Zero-initialised structures: the kernel's BSS at boot, with nothing in memory.\<close>

definition Env_zero :: Env where
  "Env_zero = \<lparr>env_tf = Trapframe_zero, env_id = 0, env_parent_id = 0, env_status = 0,
     env_runs = 0, env_pgdir = None, env_cr3 = 0, env_pgfault_upcall = 0, env_priority = 0,
     env_divide_upcall = 0, env_gpfault_upcall = 0, env_illop_upcall = 0,
     env_ipc_sended = 0, env_ipc_recving = False, env_ipc_dstva = 0, env_ipc_value = 0,
     env_ipc_from = 0, env_ipc_perm = 0\<rparr>"

definition llist_zero :: "'a llist" where
  "llist_zero = \<lparr>lh_first = None, le_next = (\<lambda>_. None), le_prev = (\<lambda>_. LNull)\<rparr>"

definition kstate_zero :: kstate where
  "kstate_zero = \<lparr>npage = 0, page_free_list = llist_zero, pp_ref = (\<lambda>_. 0), mem = (\<lambda>_ _. 0),
     boot_pgdir = 0, boot_cr3 = 0, cr3 = 0, tlb = Map.empty, user_mem_check_addr = 0,
     envs = (\<lambda>_. Env_zero), env_free_list = llist_zero, curenv = None,
     waiting_srcenv_ids = (\<lambda>_. 0), waiting_dstenv_ids = (\<lambda>_. 0), waiting_env_num = 0,
     kbd_state = \<lparr>kbd_shift = 0, kbd_reboot = False\<rparr>,
     cons = \<lparr>cons_buf = (\<lambda>_. 0), cons_rpos = 0, cons_wpos = 0\<rparr>, cons_out = []\<rparr>"

section \<open>Memory and machine instructions\<close>

type_synonym kptr = "nat \<times> nat"

text \<open>The address of the \<open>i\<close>th word of the page whose kernel virtual address is \<open>kva\<close>.\<close>

definition kptr :: "u32 \<Rightarrow> u32 \<Rightarrow> kptr" where
  "kptr kva i = (unat (PPN (kva - KERNBASE)), unat i)"

definition rd :: "kstate \<Rightarrow> kptr \<Rightarrow> u32" where
  "rd s p = mem s (fst p) (snd p)"

definition wr :: "kptr \<Rightarrow> u32 \<Rightarrow> kstate \<Rightarrow> kstate" where
  "wr p v s = s\<lparr>mem := (mem s)(fst p := (mem s (fst p))(snd p := v))\<rparr>"

text \<open>\<open>memset(page, 0, PGSIZE)\<close> on a whole page.\<close>

definition zero_page :: "nat \<Rightarrow> kstate \<Rightarrow> kstate" where
  "zero_page f s = s\<lparr>mem := (mem s)(f := (\<lambda>_. 0))\<rparr>"

definition set_ref :: "nat \<Rightarrow> u16 \<Rightarrow> kstate \<Rightarrow> kstate" where
  "set_ref pp v s = s\<lparr>pp_ref := (pp_ref s)(pp := v)\<rparr>"

definition set_env :: "nat \<Rightarrow> Env \<Rightarrow> kstate \<Rightarrow> kstate" where
  "set_env e v s = s\<lparr>envs := (envs s)(e := v)\<rparr>"

text \<open>\<open>lcr3\<close> loads CR3 and flushes the TLB, \<open>invlpg\<close> drops the entry of one page.\<close>

definition lcr3 :: "u32 \<Rightarrow> kstate \<Rightarrow> kstate" where
  "lcr3 v s = s\<lparr>cr3 := v, tlb := Map.empty\<rparr>"

definition invlpg :: "u32 \<Rightarrow> kstate \<Rightarrow> kstate" where
  "invlpg va s = s\<lparr>tlb := (tlb s)(VPN va := None)\<rparr>"

lemma rd_wr: "rd (wr p v s) q = (if p = q then v else rd s q)"
  by (cases p; cases q) (auto simp: rd_def wr_def)

lemma rd_wr_same [simp]: "rd (wr p v s) p = v"
  by (simp add: rd_wr)

lemma kptr_KADDR: "KADDR np pa = Some kva \<Longrightarrow> kptr kva i = (unat (PPN pa), unat i)"
  by (auto simp: KADDR_def kptr_def split: if_splits)

end
