(* ===== verification/Pmap.thy ===== *)
theory Pmap
  imports Kstate Interfaces
begin

text \<open>
  kern/pmap.c: detection of physical memory, the boot-time allocator, the physical page
  allocator with its reference counts, the two-level page tables, and the checks on user
  memory. \<open>None\<close> is a kernel panic, which includes the dereference of a null pointer:
  virtual address 0 is taken to be unmapped while the kernel runs.
\<close>

unbundle bit_operations_syntax

section \<open>Physical memory and the boot allocator\<close>

text \<open>\<open>mc146818_read\<close>, the read of a CMOS register, is the parameter \<open>cmos\<close>.\<close>

definition nvram_read :: "(u32 \<Rightarrow> u32) \<Rightarrow> u32 \<Rightarrow> u32" where
  "nvram_read cmos r = (cmos r OR push_bit 8 (cmos (r + 1)))"

text \<open>The values of \<open>basemem\<close>, \<open>extmem\<close>, \<open>maxpa\<close> and \<open>npage\<close>, from the two readings.\<close>

definition i386_detect_memory :: "u32 \<Rightarrow> u32 \<Rightarrow> u32 \<times> u32 \<times> u32 \<times> nat" where
  "i386_detect_memory baselo extlo =
     (let basemem = ROUNDDOWN (baselo * 1024) PGSIZE;
          extmem = ROUNDDOWN (extlo * 1024) PGSIZE;
          maxpa = (if extmem \<noteq> 0 then EXTPHYSMEM + extmem else basemem)
      in (basemem, extmem, maxpa, unat (maxpa div PGSIZE)))"

text \<open>\<open>boot_freemem\<close> goes in and comes out; \<open>kend\<close> is the linker's symbol \<open>end\<close>.\<close>

definition boot_alloc :: "u32 \<Rightarrow> u32 \<Rightarrow> u32 \<Rightarrow> u32 \<Rightarrow> u32 \<times> u32" where
  "boot_alloc kend boot_freemem n align =
     (let fm = (if boot_freemem = 0 then kend else boot_freemem);
          v = ROUNDUP fm align
      in (v, v + n))"

section \<open>The page allocator\<close>

fun page_init_step :: "nat \<Rightarrow> nat \<Rightarrow> nat \<Rightarrow> kstate \<Rightarrow> kstate" where
  "page_init_step lowerlimit upperlimit i s =
     (let s1 = set_ref i 1 s in
      if i = 0 \<or> (lowerlimit \<le> i \<and> i < upperlimit) then s1
      else let s2 = set_ref i 0 s1
           in s2\<lparr>page_free_list := LIST_INSERT_HEAD i (page_free_list s2)\<rparr>)"

definition page_init :: "u32 \<Rightarrow> kstate \<Rightarrow> kstate option" where
  "page_init boot_freemem s =
     do {
       pa \<leftarrow> PADDR boot_freemem;
       let s0 = s\<lparr>page_free_list := LIST_INIT (page_free_list s)\<rparr>;
       let lowerlimit = unat (PPN IOPHYSMEM);
       let upperlimit = unat (PPN (ROUNDUP pa PGSIZE));
       Some (fold (page_init_step lowerlimit upperlimit) [0..<npage s] s0)
     }"

definition page_alloc :: "kstate \<Rightarrow> ((errno + nat) \<times> kstate) option" where
  "page_alloc s =
     (case LIST_FIRST (page_free_list s) of
        Some pp \<Rightarrow> do {
          l \<leftarrow> LIST_REMOVE pp (page_free_list s);
          Some (Inr pp, s\<lparr>page_free_list := l\<rparr>)
        }
      | None \<Rightarrow> Some (Inl E_NO_MEM, s))"

definition page_free :: "nat \<Rightarrow> kstate \<Rightarrow> kstate" where
  "page_free pp s = s\<lparr>page_free_list := LIST_INSERT_HEAD pp (page_free_list s)\<rparr>"

text \<open>The argument is a pointer; \<open>None\<close> is NULL and its dereference faults.\<close>

definition page_decref :: "nat option \<Rightarrow> kstate \<Rightarrow> kstate option" where
  "page_decref p s =
     do {
       pp \<leftarrow> p;
       let s1 = set_ref pp (pp_ref s pp - 1) s;
       Some (if pp_ref s1 pp = 0 then page_free pp s1 else s1)
     }"

section \<open>Page tables\<close>

definition pgdir_walk ::
  "nat \<Rightarrow> u32 \<Rightarrow> int \<Rightarrow> kstate \<Rightarrow> (kptr option \<times> kstate) option" where
  "pgdir_walk pgdir va create s =
     (let pt = (pgdir, unat (PDX va)) in
      if rd s pt AND PTE_P \<noteq> 0 then do {
        kva \<leftarrow> KADDR (npage s) (PTE_ADDR (rd s pt));
        Some (Some (kptr kva (PTX va)), s)
      }
      else if create = 1 then do {
        (r, s1) \<leftarrow> page_alloc s;
        case r of
          Inl e \<Rightarrow> Some (None, s1)
        | Inr pp \<Rightarrow> do {
            let s2 = set_ref pp 1 s1;
            kva \<leftarrow> page2kva (npage s2) pp;
            let s3 = zero_page (fst (kptr kva 0)) s2;
            let s4 = wr pt (page2pa pp OR PTE_U OR PTE_W OR PTE_P) s3;
            kva' \<leftarrow> KADDR (npage s4) (PTE_ADDR (rd s4 pt));
            Some (Some (kptr kva' (PTX va)), s4)
          }
      }
      else Some (None, s))"

definition tlb_invalidate :: "nat \<Rightarrow> u32 \<Rightarrow> kstate \<Rightarrow> kstate" where
  "tlb_invalidate pgdir va s =
     (case curenv s of
        None \<Rightarrow> invlpg va s
      | Some e \<Rightarrow> if env_pgdir (envs s e) = Some pgdir then invlpg va s else s)"

definition page_lookup ::
  "nat \<Rightarrow> u32 \<Rightarrow> kstate \<Rightarrow> (nat option \<times> kptr option \<times> kstate) option" where
  "page_lookup pgdir va s =
     do {
       (pte, s1) \<leftarrow> pgdir_walk pgdir va 0 s;
       case pte of
         Some p \<Rightarrow>
           if rd s1 p AND PTE_P \<noteq> 0 then do {
             pp \<leftarrow> pa2page (npage s1) (PTE_ADDR (rd s1 p));
             Some (Some pp, pte, s1)
           }
           else Some (None, pte, s1)
       | None \<Rightarrow> Some (None, pte, s1)
     }"

definition page_remove :: "nat \<Rightarrow> u32 \<Rightarrow> kstate \<Rightarrow> kstate option" where
  "page_remove pgdir va s =
     do {
       (pp, pte, s1) \<leftarrow> page_lookup pgdir va s;
       case pte of
         None \<Rightarrow> Some s1
       | Some p \<Rightarrow> do {
           s2 \<leftarrow> page_decref pp s1;
           Some (tlb_invalidate pgdir va (wr p 0 s2))
         }
     }"

definition page_insert ::
  "nat \<Rightarrow> nat \<Rightarrow> u32 \<Rightarrow> u32 \<Rightarrow> kstate \<Rightarrow> ((errno + unit) \<times> kstate) option" where
  "page_insert pgdir pp va perm s =
     do {
       (pte, s1) \<leftarrow> pgdir_walk pgdir va 1 s;
       case pte of
         None \<Rightarrow> Some (Inl E_NO_MEM, s1)
       | Some p \<Rightarrow> do {
           s2 \<leftarrow> (if rd s1 p AND PTE_P \<noteq> 0 then
                    if PTE_ADDR (rd s1 p) \<noteq> page2pa pp then page_remove pgdir va s1
                    else Some (tlb_invalidate pgdir va (set_ref pp (pp_ref s1 pp - 1) s1))
                  else Some s1);
           let s3 = wr p (page2pa pp OR perm OR PTE_P) s2;
           Some (Inr (), set_ref pp (pp_ref s3 pp + 1) s3)
         }
     }"

text \<open>
  \<open>boot_map_segment\<close> is the loop over \<open>i\<close>; it faults when \<open>pgdir_walk\<close> returns NULL.
  Whether the loop ends depends on \<open>size\<close>: near \<open>2^32\<close> the counter wraps.
\<close>

partial_function (option) boot_map_loop ::
  "nat \<Rightarrow> u32 \<Rightarrow> u32 \<Rightarrow> u32 \<Rightarrow> u32 \<Rightarrow> u32 \<Rightarrow> kstate \<Rightarrow> kstate option" where
  "boot_map_loop pgdir la sz pa perm i s =
     (if i < sz then
        Option.bind (pgdir_walk pgdir la 1 s) (\<lambda>(pte, s1).
          case pte of
            None \<Rightarrow> None
          | Some p \<Rightarrow>
              boot_map_loop pgdir (la + PGSIZE) sz (pa + PGSIZE) perm (i + PGSIZE)
                (wr p (pa OR perm OR PTE_P) s1))
      else Some s)"

definition boot_map_segment ::
  "nat \<Rightarrow> u32 \<Rightarrow> u32 \<Rightarrow> u32 \<Rightarrow> u32 \<Rightarrow> kstate \<Rightarrow> kstate option" where
  "boot_map_segment pgdir la sz pa perm s = boot_map_loop pgdir la sz pa perm 0 s"

text \<open>
  The physical address of the page that contains \<open>va\<close>, as the MMU computes it; all ones
  when it is not mapped.
\<close>

definition check_va2pa :: "nat \<Rightarrow> u32 \<Rightarrow> kstate \<Rightarrow> u32 option" where
  "check_va2pa pgdir va s =
     (let pde = rd s (pgdir, unat (PDX va)) in
      if pde AND PTE_P = 0 then Some (NOT 0)
      else do {
        p \<leftarrow> KADDR (npage s) (PTE_ADDR pde);
        let pte = rd s (kptr p (PTX va));
        Some (if pte AND PTE_P = 0 then NOT 0 else PTE_ADDR pte)
      })"

section \<open>User memory\<close>

function user_mem_check_loop ::
  "nat \<Rightarrow> u32 \<Rightarrow> u32 \<Rightarrow> u32 \<Rightarrow> kstate \<Rightarrow> ((errno + unit) \<times> kstate) option" where
  "user_mem_check_loop e i fin perm s =
     (if i < fin then do {
        pgdir \<leftarrow> env_pgdir (envs s e);
        (pte, s1) \<leftarrow> pgdir_walk pgdir i 0 s;
        if i \<ge> ULIM \<or> (case pte of None \<Rightarrow> True | Some p \<Rightarrow> rd s1 p AND perm \<noteq> perm)
        then Some (Inl E_FAULT, s1\<lparr>user_mem_check_addr := i\<rparr>)
        else user_mem_check_loop e (ROUNDDOWN i PGSIZE + PGSIZE) fin perm s1
      }
      else Some (Inr (), s))"
  by pat_completeness auto

lemma next_page_gt:
  assumes "i < ULIM"
  shows "unat (ROUNDDOWN i PGSIZE + PGSIZE) = unat i - unat i mod 4096 + 4096"
proof -
  have "unat i < 0xEF800000" using assms by (simp add: word_less_nat_alt layout)
  then show ?thesis
    by (simp add: unat_word_ariths unat_ROUNDDOWN layout)
qed

termination user_mem_check_loop
proof (relation "measure (\<lambda>(e, i, fin, perm, s). 2 ^ 32 - unat i)", goal_cases)
  case 1
  show ?case by simp
next
  case (2 e i fin perm s pgdir x pte s1)
  then have "i < ULIM" by (auto simp: not_le)
  moreover have "unat i mod 4096 < 4096" "unat i < 2 ^ 32"
    using unsigned_less [of i, where 'a = nat] by simp_all
  ultimately have "2 ^ 32 - unat (ROUNDDOWN i PGSIZE + PGSIZE) < 2 ^ 32 - unat i"
    using next_page_gt [of i] by linarith
  then show ?case by simp
qed

definition user_mem_check ::
  "nat \<Rightarrow> u32 \<Rightarrow> u32 \<Rightarrow> u32 \<Rightarrow> kstate \<Rightarrow> ((errno + unit) \<times> kstate) option" where
  "user_mem_check e va len perm s =
     user_mem_check_loop e va (va + len) (perm OR PTE_P OR PTE_U) s"

end
