(* ===== verification/Pmap_Refs.thy ===== *)
theory Pmap_Refs
  imports Pmap
begin

text \<open>
  Reference counting of physical pages (kern/pmap.c): the page tables as maps, the number
  of references to a page from them, and the invariant that \<open>pp_ref\<close> counts exactly those
  references while the free list holds only pages without any.

  The invariant \<open>mm_inv s D K fl\<close> is about the page directories in \<open>D\<close> (of the live
  environments), restricted to the part below UTOP that is private to an environment. \<open>K p\<close>
  is the number of references to page \<open>p\<close> held outside the page tables: by the kernel
  image and its boot-time structures, or by the operation in progress. \<open>fl\<close> is the free
  list.
\<close>

unbundle bit_operations_syntax

section \<open>Counting references\<close>

definition nrefs :: "('x \<Rightarrow> 'y option) \<Rightarrow> 'x set \<Rightarrow> 'y \<Rightarrow> nat" where
  "nrefs f X p = card {x \<in> X. f x = Some p}"

lemma nrefs_upd:
  assumes "finite X" and "x \<in> X"
  shows "nrefs (f(x := v)) X p + (if f x = Some p then 1 else 0)
       = nrefs f X p + (if v = Some p then 1 else 0)"
proof -
  have split: "nrefs g X p = card {z \<in> X - {x}. g z = Some p} + (if g x = Some p then 1 else 0)"
    for g :: "'a \<Rightarrow> 'b option"
  proof (cases "g x = Some p")
    case True
    then have eq: "{z \<in> X. g z = Some p} = insert x {z \<in> X - {x}. g z = Some p}"
      using assms by auto
    have "card (insert x {z \<in> X - {x}. g z = Some p}) = Suc (card {z \<in> X - {x}. g z = Some p})"
      using assms by (intro card_insert_disjoint) auto
    with eq True show ?thesis by (simp add: nrefs_def)
  next
    case False
    then have "{z \<in> X. g z = Some p} = {z \<in> X - {x}. g z = Some p}" by auto
    with False show ?thesis by (simp add: nrefs_def)
  qed
  have "{z \<in> X - {x}. (f(x := v)) z = Some p} = {z \<in> X - {x}. f z = Some p}" by auto
  then show ?thesis using split [of f] split [of "f(x := v)"] by simp
qed

lemma nrefs_cong: "(\<And>x. x \<in> X \<Longrightarrow> f x = g x) \<Longrightarrow> nrefs f X p = nrefs g X p"
  unfolding nrefs_def by (rule arg_cong [of _ _ card]) auto

lemma nrefs_pos: "finite X \<Longrightarrow> x \<in> X \<Longrightarrow> f x = Some p \<Longrightarrow> 0 < nrefs f X p"
  by (auto simp: nrefs_def card_gt_0_iff)

lemma nrefs_zero: "finite X \<Longrightarrow> nrefs f X p = 0 \<longleftrightarrow> (\<forall>x \<in> X. f x \<noteq> Some p)"
  by (auto simp: nrefs_def)

lemma nrefs_one:
  "nrefs f X p = 1 \<Longrightarrow> x \<in> X \<Longrightarrow> y \<in> X \<Longrightarrow> f x = Some p \<Longrightarrow> f y = Some p \<Longrightarrow> x = y"
  unfolding nrefs_def by (metis (mono_tags, lifting) card_1_singletonE mem_Collect_eq singletonD)

lemma nrefs_None: "(\<And>x. x \<in> X \<Longrightarrow> f x = None) \<Longrightarrow> nrefs f X p = 0"
  using nrefs_cong [of X f "\<lambda>_. None"] by (simp add: nrefs_def)

section \<open>The page tables as maps\<close>

definition present :: "u32 \<Rightarrow> bool" where
  "present pte \<longleftrightarrow> pte AND PTE_P \<noteq> 0"

definition frame_of :: "u32 \<Rightarrow> nat" where
  "frame_of pte = unat (PPN pte)"

definition ent :: "u32 \<Rightarrow> nat option" where
  "ent pte = (if present pte then Some (frame_of pte) else None)"

text \<open>The number of directory entries below UTOP.\<close>

definition UPDX :: nat where
  "UPDX = unat (PDX UTOP)"

definition ptmap :: "kstate \<Rightarrow> nat \<times> nat \<Rightarrow> nat option" where
  "ptmap s = (\<lambda>(d, i). ent (mem s d i))"

text \<open>The entry of a slot in the second level (0 when there is no table), and its page.\<close>

definition leafpte :: "kstate \<Rightarrow> nat \<times> nat \<times> nat \<Rightarrow> u32" where
  "leafpte s = (\<lambda>(d, i, j).
     case ptmap s (d, i) of None \<Rightarrow> 0 | Some t \<Rightarrow> mem s t j)"

definition leafmap :: "kstate \<Rightarrow> nat \<times> nat \<times> nat \<Rightarrow> nat option" where
  "leafmap s x = ent (leafpte s x)"

definition ptslots :: "nat set \<Rightarrow> (nat \<times> nat) set" where
  "ptslots D = D \<times> {..<UPDX}"

definition leafslots :: "nat set \<Rightarrow> (nat \<times> nat \<times> nat) set" where
  "leafslots D = D \<times> {..<UPDX} \<times> {..<NPTENTRIES}"

lemma UPDX_val: "UPDX = 955"
  by (simp add: UPDX_def PDX_def shifts layout)

lemma ent_zero [simp]: "ent 0 = None"
  by (simp add: ent_def present_def)

lemma ent_mkpte [simp]:
  "pp < 2 ^ 20 \<Longrightarrow> unat perm < 4096 \<Longrightarrow> ent (mkpte pp perm) = Some pp"
  by (simp add: ent_def present_def frame_of_def PPN_mkpte)

lemma PDX_user: "va < UTOP \<Longrightarrow> unat (PDX va) < UPDX"
proof -
  assume "va < UTOP"
  then have va: "unat va < 0xEEC00000" by (simp add: word_less_nat_alt layout)
  have "PDX va = drop_bit 22 va"
    unfolding PDX_def shifts mask10
  proof (rule bit_word_eqI)
    fix n assume "n < LENGTH(32)"
    show "bit (drop_bit 22 va AND mask 10) n \<longleftrightarrow> bit (drop_bit 22 va) n"
      by (auto simp: bit_simps dest: bit_imp_le_length)
  qed
  then have "unat (PDX va) = unat va div 2 ^ 22" by (simp add: unat_drop_bit)
  with va show ?thesis by (simp add: UPDX_val less_mult_imp_div_less)
qed

section \<open>The invariant\<close>

definition pages_wf :: "kstate \<Rightarrow> nat list \<Rightarrow> bool" where
  "pages_wf s fl \<longleftrightarrow> is_list (page_free_list s) fl
     \<and> (\<forall>p \<in> set fl. p < npage s \<and> pp_ref s p = 0) \<and> npage s \<le> 2 ^ 20"

definition total_refs :: "kstate \<Rightarrow> nat set \<Rightarrow> (nat \<Rightarrow> nat) \<Rightarrow> nat \<Rightarrow> nat" where
  "total_refs s D K p = K p + (if p \<in> D then 1 else 0)
     + nrefs (ptmap s) (ptslots D) p + nrefs (leafmap s) (leafslots D) p"

definition mm_inv :: "kstate \<Rightarrow> nat set \<Rightarrow> (nat \<Rightarrow> nat) \<Rightarrow> nat list \<Rightarrow> bool" where
  "mm_inv s D K fl \<longleftrightarrow>
     pages_wf s fl \<and> finite D \<and> D \<subseteq> {..<npage s}
   \<and> (\<forall>p < npage s. unat (pp_ref s p) = total_refs s D K p)
   \<and> (\<forall>d \<in> D. K d = 0 \<and> nrefs (ptmap s) (ptslots D) d = 0
               \<and> nrefs (leafmap s) (leafslots D) d = 0)
   \<and> (\<forall>x \<in> ptslots D. \<forall>t. ptmap s x = Some t \<longrightarrow>
        t < npage s \<and> t \<notin> D \<and> K t = 0 \<and> nrefs (ptmap s) (ptslots D) t = 1
        \<and> nrefs (leafmap s) (leafslots D) t = 0)
   \<and> (\<forall>x \<in> leafslots D. \<forall>p. leafmap s x = Some p \<longrightarrow> p < npage s)"

text \<open>A page that holds data, not page tables, and is not on the free list.\<close>

definition data_page :: "kstate \<Rightarrow> nat set \<Rightarrow> nat list \<Rightarrow> nat \<Rightarrow> bool" where
  "data_page s D fl p \<longleftrightarrow>
     p < npage s \<and> p \<notin> D \<and> p \<notin> set fl \<and> nrefs (ptmap s) (ptslots D) p = 0"

lemma finite_slots [simp]:
  "finite D \<Longrightarrow> finite (ptslots D)" "finite D \<Longrightarrow> finite (leafslots D)"
  by (simp_all add: ptslots_def leafslots_def)

text \<open>The invariant depends on four fields of the state.\<close>

lemma maps_cong:
  "mem s' = mem s \<Longrightarrow> ptmap s' = ptmap s" "mem s' = mem s \<Longrightarrow> leafpte s' = leafpte s"
  "mem s' = mem s \<Longrightarrow> leafmap s' = leafmap s"
  by (simp_all add: ptmap_def leafmap_def leafpte_def fun_eq_iff split: option.splits)

lemma maps_upd [simp]:
  "leafpte (s\<lparr>page_free_list := l\<rparr>) = leafpte s" "leafpte (s\<lparr>pp_ref := r\<rparr>) = leafpte s"
  "leafpte (set_ref p v s) = leafpte s" "leafpte (page_free p s) = leafpte s"
  "leafpte (tlb_invalidate d va s) = leafpte s"
  "ptmap (s\<lparr>page_free_list := l\<rparr>) = ptmap s" "leafmap (s\<lparr>page_free_list := l\<rparr>) = leafmap s"
  "ptmap (s\<lparr>pp_ref := r\<rparr>) = ptmap s" "leafmap (s\<lparr>pp_ref := r\<rparr>) = leafmap s"
  "ptmap (set_ref p v s) = ptmap s" "leafmap (set_ref p v s) = leafmap s"
  "ptmap (page_free p s) = ptmap s" "leafmap (page_free p s) = leafmap s"
  "ptmap (tlb_invalidate d va s) = ptmap s" "leafmap (tlb_invalidate d va s) = leafmap s"
  by (rule maps_cong; simp add: set_ref_def page_free_def tlb_invalidate_def invlpg_def
      split: option.split)+

lemma mm_inv_cong:
  assumes "mem s' = mem s" "pp_ref s' = pp_ref s" "npage s' = npage s"
    "page_free_list s' = page_free_list s"
  shows "mm_inv s' D K fl = mm_inv s D K fl"
  using assms maps_cong [of s' s] by (simp add: mm_inv_def pages_wf_def total_refs_def)

lemma mm_invD:
  assumes "mm_inv s D K fl"
  shows "pages_wf s fl" "finite D" "D \<subseteq> {..<npage s}" "npage s \<le> 2 ^ 20"
    "\<And>p. p < npage s \<Longrightarrow> unat (pp_ref s p) = total_refs s D K p"
    "\<And>d. d \<in> D \<Longrightarrow> K d = 0"
    "\<And>d. d \<in> D \<Longrightarrow> nrefs (ptmap s) (ptslots D) d = 0"
    "\<And>d. d \<in> D \<Longrightarrow> nrefs (leafmap s) (leafslots D) d = 0"
    "\<And>x p. x \<in> leafslots D \<Longrightarrow> leafmap s x = Some p \<Longrightarrow> p < npage s"
  using assms by (auto simp: mm_inv_def pages_wf_def)

lemma mm_inv_table:
  assumes "mm_inv s D K fl" "x \<in> ptslots D" "ptmap s x = Some t"
  shows "t < npage s" "t \<notin> D" "K t = 0" "nrefs (ptmap s) (ptslots D) t = 1"
    "nrefs (leafmap s) (leafslots D) t = 0"
  using assms unfolding mm_inv_def by blast+

text \<open>A free page is referenced from nowhere.\<close>

lemma mm_inv_free:
  assumes "mm_inv s D K fl" and "p \<in> set fl"
  shows "p < npage s" "pp_ref s p = 0" "K p = 0" "p \<notin> D"
    "\<And>x. x \<in> ptslots D \<Longrightarrow> ptmap s x \<noteq> Some p"
    "\<And>x. x \<in> leafslots D \<Longrightarrow> leafmap s x \<noteq> Some p"
proof -
  from assms show p: "p < npage s" "pp_ref s p = 0"
    by (auto simp: mm_inv_def pages_wf_def)
  with assms have "total_refs s D K p = 0" by (metis mm_invD(5) unat_0)
  then have z: "K p = 0" "(if p \<in> D then 1 else 0 :: nat) = 0"
      "nrefs (ptmap s) (ptslots D) p = 0" "nrefs (leafmap s) (leafslots D) p = 0"
    by (simp_all add: total_refs_def split: if_splits)
  then show "K p = 0" "p \<notin> D" by (auto split: if_splits)
  show "\<And>x. x \<in> ptslots D \<Longrightarrow> ptmap s x \<noteq> Some p"
       "\<And>x. x \<in> leafslots D \<Longrightarrow> leafmap s x \<noteq> Some p"
    using z mm_invD(2) [OF assms(1)] by (simp_all add: nrefs_zero)
qed

end
