(* ===== verification/Pmap_Inv.thy ===== *)
theory Pmap_Inv
  imports Pmap_Refs
begin

text \<open>
  The operations of kern/pmap.c keep the reference-count invariant. The proofs move single
  references: taking one (\<open>pp_ref++\<close>) adds it to \<open>K\<close>, writing a page-table entry moves it
  from \<open>K\<close> into the tables or back, and \<open>page_decref\<close> drops one from \<open>K\<close>.
\<close>

unbundle bit_operations_syntax

section \<open>The page allocator\<close>

definition free_pages :: "kstate \<Rightarrow> nat set" where
  "free_pages s = {p. \<exists>fl. is_list (page_free_list s) fl \<and> p \<in> set fl}"

definition pages_inv :: "kstate \<Rightarrow> bool" where
  "pages_inv s \<longleftrightarrow> (\<exists>fl. pages_wf s fl)"

lemma free_pages_eq: "is_list (page_free_list s) fl \<Longrightarrow> free_pages s = set fl"
  by (auto simp: free_pages_def dest: tailq.repr_unique)

lemma page_alloc_empty:
  "is_list (page_free_list s) [] \<Longrightarrow> page_alloc s = Some (Inl E_NO_MEM, s)"
  by (simp add: page_alloc_def tailq.repr_first)

lemma page_alloc_Cons:
  assumes "is_list (page_free_list s) (pp # fl)"
  shows "\<exists>l. page_alloc s = Some (Inr pp, s\<lparr>page_free_list := l\<rparr>) \<and> is_list l fl"
proof -
  have "LIST_FIRST (page_free_list s) = Some pp"
    using assms by (simp add: tailq.repr_first)
  with assms tailq.pop [of "page_free_list s" "pp # fl" pp] show ?thesis
    by (auto simp: page_alloc_def)
qed

interpretation pages: allocator page_alloc "\<lambda>p s. Some (page_free p s)" free_pages pages_inv
  "\<lambda>p s. p < npage s \<and> pp_ref s p = 0 \<and> p \<notin> free_pages s"
proof unfold_locales
  fix s assume "pages_inv s"
  then obtain fl where fl: "pages_wf s fl" by (auto simp: pages_inv_def)
  then have ls: "is_list (page_free_list s) fl" by (simp add: pages_wf_def)
  show "finite (free_pages s)" using ls by (simp add: free_pages_eq)
  show "\<exists>x s'. page_alloc s = Some (Inr x, s') \<and> x \<in> free_pages s
      \<and> free_pages s' = free_pages s - {x} \<and> pages_inv s'" if "free_pages s \<noteq> {}"
  proof -
    from that ls obtain p ps where fl': "fl = p # ps" by (cases fl) (auto simp: free_pages_eq)
    with ls page_alloc_Cons obtain l where
      l: "page_alloc s = Some (Inr p, s\<lparr>page_free_list := l\<rparr>)" "is_list l ps" by blast
    have "pages_wf (s\<lparr>page_free_list := l\<rparr>) ps" using fl fl' l by (simp add: pages_wf_def)
    moreover have "distinct (p # ps)" using ls fl' tailq.repr_distinct by blast
    moreover have "free_pages (s\<lparr>page_free_list := l\<rparr>) = set ps"
      using l by (simp add: free_pages_eq)
    ultimately show ?thesis
      using l ls fl' by (auto simp: pages_inv_def free_pages_eq)
  qed
  show "\<exists>e s'. page_alloc s = Some (Inl e, s') \<and> free_pages s' = {} \<and> pages_inv s'"
    if "free_pages s = {}"
    using that ls page_alloc_empty \<open>pages_inv s\<close> by (cases fl) (auto simp: free_pages_eq)
  fix x assume x: "x < npage s \<and> pp_ref s x = 0 \<and> x \<notin> free_pages s"
  then have ls': "is_list (LIST_INSERT_HEAD x (page_free_list s)) (x # fl)"
    using ls by (auto simp: free_pages_eq intro: tailq.repr_insert)
  then have "pages_wf (page_free x s) (x # fl)"
    using fl x by (simp add: pages_wf_def page_free_def)
  moreover have "free_pages (page_free x s) = insert x (free_pages s)"
    using ls ls' by (simp add: free_pages_eq [of _ fl] free_pages_eq [of _ "x # fl"] page_free_def)
  ultimately show "\<exists>s'. Some (page_free x s) = Some s' \<and> free_pages s' = insert x (free_pages s)
      \<and> pages_inv s'"
    by (auto simp: pages_inv_def)
qed

section \<open>Moving references\<close>

lemma mm_alloc:
  assumes "mm_inv s D K (pp # fl)"
  shows "\<exists>l. page_alloc s = Some (Inr pp, s\<lparr>page_free_list := l\<rparr>)
    \<and> mm_inv (s\<lparr>page_free_list := l\<rparr>) D K fl"
proof -
  have "is_list (page_free_list s) (pp # fl)"
    using assms by (simp add: mm_inv_def pages_wf_def)
  then obtain l where l: "page_alloc s = Some (Inr pp, s\<lparr>page_free_list := l\<rparr>)" "is_list l fl"
    using page_alloc_Cons by blast
  have "mm_inv (s\<lparr>page_free_list := l\<rparr>) D K fl"
    using assms l(2) by (simp add: mm_inv_def pages_wf_def total_refs_def)
  with l show ?thesis by blast
qed

lemma total_refs_K: "total_refs s D (K(p := k)) q = (if q = p then total_refs s D K p - K p + k
  else total_refs s D K q)"
  by (simp add: total_refs_def)

lemma mm_incref:
  assumes inv: "mm_inv s D K fl" and p: "data_page s D fl p" and lt: "unat (pp_ref s p) < 65535"
  shows "mm_inv (set_ref p (pp_ref s p + 1) s) D (K(p := K p + 1)) fl"
proof -
  have np: "\<And>x t. x \<in> ptslots D \<Longrightarrow> ptmap s x = Some t \<Longrightarrow> t \<noteq> p"
    using p mm_invD(2) [OF inv] by (auto simp: data_page_def nrefs_zero)
  have "p \<notin> D" "p \<notin> set fl" using p by (auto simp: data_page_def)
  then show ?thesis
    using inv np unat_inc16 [OF lt]
    by (auto simp: mm_inv_def pages_wf_def total_refs_def set_ref_def)
qed

lemma mm_K_pos:
  assumes inv: "mm_inv s D K fl" and p: "p < npage s" and K: "0 < K p"
  shows "data_page s D fl p" "0 < unat (pp_ref s p)"
proof -
  have pos: "0 < unat (pp_ref s p)"
    using mm_invD(5) [OF inv p] K by (simp add: total_refs_def)
  then show "0 < unat (pp_ref s p)" .
  have "p \<notin> set fl" using mm_inv_free(2) [OF inv] pos by auto
  moreover have "p \<notin> D" using mm_invD(6) [OF inv] K by auto
  moreover have "nrefs (ptmap s) (ptslots D) p = 0"
    using mm_inv_table(3) [OF inv] K mm_invD(2) [OF inv] by (auto simp: nrefs_zero)
  ultimately show "data_page s D fl p" using p by (simp add: data_page_def)
qed

lemma mm_decref:
  assumes inv: "mm_inv s D K fl" and p: "p < npage s" and K: "0 < K p"
  shows "\<exists>s'. page_decref (Some p) s = Some s'
    \<and> mm_inv s' D (K(p := K p - 1)) (if unat (pp_ref s p) = 1 then p # fl else fl)
    \<and> mem s' = mem s \<and> npage s' = npage s \<and> pp_ref s' = (pp_ref s)(p := pp_ref s p - 1)"
proof -
  note d = mm_K_pos [OF inv p K]
  have np: "\<And>x t. x \<in> ptslots D \<Longrightarrow> ptmap s x = Some t \<Longrightarrow> t \<noteq> p"
    using d(1) mm_invD(2) [OF inv] by (auto simp: data_page_def nrefs_zero)
  have nD: "p \<notin> D" "p \<notin> set fl" using d(1) by (auto simp: data_page_def)
  let ?r = "pp_ref s p - 1"
  have r: "unat ?r = unat (pp_ref s p) - 1" by (rule unat_dec16 [OF d(2)])
  have r0: "?r = 0 \<longleftrightarrow> unat (pp_ref s p) = 1" by (rule dec16_zero [OF d(2)])
  have tot: "unat (pp_ref s p) = total_refs s D K p" by (rule mm_invD(5) [OF inv p])
  have base: "mm_inv (set_ref p ?r s) D (K(p := K p - 1)) fl"
    using inv np nD r tot K
    by (auto simp: mm_inv_def pages_wf_def total_refs_def set_ref_def)
  show ?thesis
  proof (cases "unat (pp_ref s p) = 1")
    case False
    with r0 base show ?thesis by (simp add: page_decref_def set_ref_def)
  next
    case True
    let ?s = "page_free p (set_ref p ?r s)"
    have ls: "is_list (page_free_list ?s) (p # fl)"
      using inv nD by (auto simp: page_free_def set_ref_def mm_inv_def pages_wf_def
          intro: tailq.repr_insert)
    have "mm_inv ?s D (K(p := K p - 1)) (p # fl)"
      using base ls p r0 True
      by (auto simp: mm_inv_def pages_wf_def total_refs_def page_free_def set_ref_def)
    with True r0 show ?thesis by (simp add: page_decref_def set_ref_def page_free_def)
  qed
qed

section \<open>Writing page-table entries\<close>

lemma wr_fields [simp]:
  "npage (wr p v s) = npage s" "pp_ref (wr p v s) = pp_ref s"
  "page_free_list (wr p v s) = page_free_list s" "curenv (wr p v s) = curenv s"
  "envs (wr p v s) = envs s"
  by (simp_all add: wr_def)

lemma slots_sub: "(d, i, j) \<in> leafslots D \<Longrightarrow> (d, i) \<in> ptslots D"
  by (auto simp: leafslots_def ptslots_def)

lemma leafmap_table:
  "leafmap s (d, i, j) = (case ptmap s (d, i) of None \<Rightarrow> None | Some t \<Rightarrow> ent (mem s t j))"
  by (simp add: leafmap_def leafpte_def split: option.split)

lemma ptmap_wr_table:
  assumes inv: "mm_inv s D K fl" and x: "x \<in> ptslots D" and t: "ptmap s x = Some t"
    and y: "y \<in> ptslots D"
  shows "ptmap (wr (t, j) v s) y = ptmap s y"
  using mm_inv_table(2) [OF inv x t] y
  by (cases y) (auto simp: ptmap_def wr_def ptslots_def)

lemma leafpte_wr_table:
  assumes inv: "mm_inv s D K fl" and x: "(d, i, j) \<in> leafslots D"
    and t: "ptmap s (d, i) = Some t" and y: "y \<in> leafslots D"
  shows "leafpte (wr (t, j) v s) y = ((leafpte s)((d, i, j) := v)) y"
proof -
  obtain d' i' j' where y': "y = (d', i', j')" by (cases y) auto
  have pt: "ptmap (wr (t, j) v s) (d', i') = ptmap s (d', i')"
    using ptmap_wr_table [OF inv slots_sub [OF x] t] y y' slots_sub by blast
  show ?thesis
  proof (cases "ptmap s (d', i') = Some t")
    case True
    then have "(d', i') = (d, i)"
      using nrefs_one [OF mm_inv_table(4) [OF inv slots_sub [OF x] t]] slots_sub [OF x] t y y' slots_sub
      by blast
    then show ?thesis using pt t y' by (auto simp: leafpte_def wr_def)
  next
    case False
    with pt y' t show ?thesis
      by (auto simp: leafpte_def wr_def split: option.splits)
  qed
qed

lemma leafmap_wr_table:
  assumes "mm_inv s D K fl" "(d, i, j) \<in> leafslots D" "ptmap s (d, i) = Some t" "y \<in> leafslots D"
  shows "leafmap (wr (t, j) v s) y = ((leafmap s)((d, i, j) := ent v)) y"
  using leafpte_wr_table [OF assms] by (simp add: leafmap_def)

definition one_if :: "bool \<Rightarrow> nat" where
  "one_if b = (if b then 1 else 0)"

lemma one_if_simps [simp]: "one_if True = 1" "one_if False = 0"
  by (simp_all add: one_if_def)

text \<open>Overwriting an entry moves the old reference into \<open>K\<close> and takes the new one out.\<close>

lemma mm_write_leaf:
  assumes inv: "mm_inv s D K fl" and x: "(d, i, j) \<in> leafslots D"
    and t: "ptmap s (d, i) = Some t"
    and new: "\<And>q. ent v = Some q \<Longrightarrow> q < npage s \<and> 0 < K q + one_if (leafmap s (d, i, j) = Some q)"
    and K': "\<And>p. K' p = K p + one_if (leafmap s (d, i, j) = Some p) - one_if (ent v = Some p)"
  shows "mm_inv (wr (t, j) v s) D K' fl"
proof -
  let ?s = "wr (t, j) v s"
  note fin = mm_invD(2) [OF inv]
  have pt: "nrefs (ptmap ?s) (ptslots D) p = nrefs (ptmap s) (ptslots D) p" for p
    by (rule nrefs_cong) (rule ptmap_wr_table [OF inv slots_sub [OF x] t])
  have "nrefs (leafmap ?s) (leafslots D) p
      = nrefs ((leafmap s)((d, i, j) := ent v)) (leafslots D) p" for p
    by (rule nrefs_cong) (rule leafmap_wr_table [OF inv x t])
  then have lf: "nrefs (leafmap ?s) (leafslots D) p + one_if (leafmap s (d, i, j) = Some p)
      = nrefs (leafmap s) (leafslots D) p + one_if (ent v = Some p)" for p
    using nrefs_upd [of "leafslots D" "(d, i, j)" "leafmap s" "ent v" p] fin x
    by (simp add: one_if_def)
  have bal: "K' p + nrefs (leafmap ?s) (leafslots D) p = K p + nrefs (leafmap s) (leafslots D) p"
    for p
    using lf [of p] K' [of p] new [of p]
    by (cases "ent v = Some p"; cases "leafmap s (d, i, j) = Some p") auto
  then have tot: "total_refs ?s D K' p = total_refs s D K p" for p
    using pt by (simp add: total_refs_def add.commute add.left_commute)
  have quiet: "K' p = 0 \<and> nrefs (leafmap ?s) (leafslots D) p = 0"
    if "K p = 0" "nrefs (leafmap s) (leafslots D) p = 0" for p
    using bal [of p] that by simp
  have bound: "p < npage s" if y: "y \<in> leafslots D" and p: "leafmap ?s y = Some p" for y p
    using leafmap_wr_table [OF inv x t y, of v] p new [of p] mm_invD(9) [OF inv y, of p]
    by (simp split: if_splits)
  have tab: "p < npage s \<and> p \<notin> D \<and> K' p = 0 \<and> nrefs (ptmap ?s) (ptslots D) p = 1
      \<and> nrefs (leafmap ?s) (leafslots D) p = 0"
    if y: "y \<in> ptslots D" and p: "ptmap ?s y = Some p" for y p
  proof -
    have "ptmap s y = Some p"
      using ptmap_wr_table [OF inv slots_sub [OF x] t y, of j v] p by simp
    from mm_inv_table [OF inv y this] quiet [of p] pt show ?thesis by simp
  qed
  show ?thesis
    unfolding mm_inv_def
    using mm_invD(1,3,5,6,7,8) [OF inv] fin quiet pt tot bound tab
    by (simp add: pages_wf_def)
qed

text \<open>A new, empty page table.\<close>

lemma mm_new_table:
  assumes inv: "mm_inv s D K fl" and x: "(d, i) \<in> ptslots D" and none: "ptmap s (d, i) = None"
    and K: "K t = 1" and t: "t < npage s" and ref: "unat (pp_ref s t) = 1" and v: "ent v = Some t"
    and s': "s' = wr (d, i) v (zero_page t s)"
  shows "mm_inv s' D (K(t := 0)) fl"
    and "\<And>y. y \<in> ptslots D \<Longrightarrow> ptmap s' y = ((ptmap s)((d, i) := Some t)) y"
    and "\<And>y. y \<in> leafslots D \<Longrightarrow> leafpte s' y = leafpte s y"
proof -
  note fin = mm_invD(2) [OF inv]
  have tz: "t \<notin> D" "nrefs (ptmap s) (ptslots D) t = 0" "nrefs (leafmap s) (leafslots D) t = 0"
    using mm_invD(5) [OF inv t] K ref by (auto simp: total_refs_def split: if_splits)
  have pt: "ptmap s' y = ((ptmap s)((d, i) := Some t)) y" if "y \<in> ptslots D" for y
    using that tz(1) v by (cases y) (auto simp: s' ptmap_def wr_def zero_page_def ptslots_def)
  show "\<And>y. y \<in> ptslots D \<Longrightarrow> ptmap s' y = ((ptmap s)((d, i) := Some t)) y" by (rule pt)
  have lp: "leafpte s' y = leafpte s y" if y: "y \<in> leafslots D" for y
  proof -
    obtain d' i' j' where y': "y = (d', i', j')" by (cases y) auto
    have sl: "(d', i') \<in> ptslots D" using y y' slots_sub by blast
    have "t \<noteq> d" using tz(1) x by (auto simp: ptslots_def)
    have other: "mem s' t' = mem s t'" if "ptmap s (d', i') = Some t'" for t'
    proof -
      have "t' \<noteq> t" using tz(2) that sl fin by (auto simp: nrefs_zero)
      moreover have "t' \<noteq> d"
        using mm_inv_table(2) [OF inv sl that] x by (auto simp: ptslots_def)
      ultimately show ?thesis by (simp add: s' wr_def zero_page_def)
    qed
    show ?thesis
    proof (cases "(d', i') = (d, i)")
      case True
      then show ?thesis using pt [OF sl] none \<open>t \<noteq> d\<close> y'
        by (auto simp: leafpte_def s' wr_def zero_page_def)
    next
      case False
      then show ?thesis using pt [OF sl] other y'
        by (auto simp: leafpte_def split: option.splits)
    qed
  qed
  show "\<And>y. y \<in> leafslots D \<Longrightarrow> leafpte s' y = leafpte s y" by (rule lp)
  have lf: "leafmap s' y = leafmap s y" if "y \<in> leafslots D" for y
    using lp [OF that] by (simp add: leafmap_def)
  have nl: "nrefs (leafmap s') (leafslots D) p = nrefs (leafmap s) (leafslots D) p" for p
    by (rule nrefs_cong) (rule lf)
  have np: "nrefs (ptmap s') (ptslots D) p = nrefs (ptmap s) (ptslots D) p + one_if (p = t)" for p
  proof -
    have "nrefs (ptmap s') (ptslots D) p = nrefs ((ptmap s)((d, i) := Some t)) (ptslots D) p"
      by (rule nrefs_cong) (rule pt)
    then show ?thesis
      using nrefs_upd [of "ptslots D" "(d, i)" "ptmap s" "Some t" p] fin x none
      by (auto simp: one_if_def split: if_splits)
  qed
  have tot: "total_refs s' D (K(t := 0)) p = total_refs s D K p" for p
    using nl np [of p] K by (simp add: total_refs_def one_if_def)
  have f: "npage s' = npage s" "pp_ref s' = pp_ref s" "page_free_list s' = page_free_list s"
    by (simp_all add: s' zero_page_def)
  have tab: "p < npage s \<and> p \<notin> D \<and> (K(t := 0)) p = 0 \<and> nrefs (ptmap s') (ptslots D) p = 1
      \<and> nrefs (leafmap s') (leafslots D) p = 0"
    if y: "y \<in> ptslots D" and p: "ptmap s' y = Some p" for y p
  proof (cases "p = t")
    case True
    then show ?thesis using tz nl np t by (simp add: one_if_def)
  next
    case False
    then have "ptmap s y = Some p" using pt [OF y] p by (auto split: if_splits)
    from mm_inv_table [OF inv y this] False nl np show ?thesis by (simp add: one_if_def)
  qed
  show "mm_inv s' D (K(t := 0)) fl"
    unfolding mm_inv_def
    using mm_invD(1,3,5,6,7,8,9) [OF inv] fin tot f tab np nl lf tz(1)
    by (auto simp: pages_wf_def one_if_def)
qed

section \<open>pgdir\_walk and page\_lookup\<close>

definition slot :: "nat \<Rightarrow> u32 \<Rightarrow> nat \<times> nat \<times> nat" where
  "slot d va = (d, unat (PDX va), unat (PTX va))"

lemma slot_in:
  "d \<in> D \<Longrightarrow> va < UTOP \<Longrightarrow> slot d va \<in> leafslots D"
  "d \<in> D \<Longrightarrow> va < UTOP \<Longrightarrow> (d, unat (PDX va)) \<in> ptslots D"
  using PDX_user [of va] PTX_lt [of va]
  by (auto simp: slot_def leafslots_def ptslots_def NPTENTRIES_def)

lemma ptmap_rd: "ptmap s (d, i) = ent (rd s (d, i))"
  by (simp add: ptmap_def rd_def)

lemma ent_SomeD: "ent pte = Some t \<Longrightarrow> pte AND PTE_P \<noteq> 0 \<and> unat (PPN pte) = t"
  by (auto simp: ent_def present_def frame_of_def split: if_splits)

lemma ent_NoneD: "ent pte = None \<Longrightarrow> pte AND PTE_P = 0"
  by (auto simp: ent_def present_def split: if_splits)

lemma KADDR_frame:
  assumes "unat (PPN pa) = t" "t < np"
  shows "\<exists>kva. KADDR np (PTE_ADDR pa) = Some kva \<and> kptr kva i = (t, unat i)"
proof -
  have "KADDR np (PTE_ADDR pa) = Some (PTE_ADDR pa + KERNBASE)"
    using assms by (simp add: KADDR_def PPN_PTE_ADDR)
  with kptr_KADDR [OF this, of i] assms show ?thesis by (simp add: PPN_PTE_ADDR)
qed

lemma walk_present:
  assumes inv: "mm_inv s D K fl" and d: "d \<in> D" and va: "va < UTOP"
    and t: "ptmap s (d, unat (PDX va)) = Some t"
  shows "pgdir_walk d va c s = Some (Some (t, unat (PTX va)), s)"
proof -
  have "t < npage s" using mm_inv_table(1) [OF inv slot_in(2) [OF d va] t] .
  with t ent_SomeD KADDR_frame [of "rd s (d, unat (PDX va))" t "npage s" "PTX va"]
  show ?thesis by (force simp: pgdir_walk_def ptmap_rd Let_def)
qed

lemma walk_absent:
  assumes "ptmap s (d, unat (PDX va)) = None" and "c \<noteq> 1"
  shows "pgdir_walk d va c s = Some (None, s)"
  using assms by (auto simp: pgdir_walk_def ptmap_rd dest: ent_NoneD)

lemma walk_nomem:
  assumes "ptmap s (d, unat (PDX va)) = None" and "is_list (page_free_list s) []"
  shows "pgdir_walk d va 1 s = Some (None, s)"
  using assms by (auto simp: pgdir_walk_def ptmap_rd page_alloc_empty dest: ent_NoneD)

lemma page2kva_ok:
  assumes "pp < np" "np \<le> 2 ^ 20"
  shows "\<exists>kva. page2kva np pp = Some kva \<and> kptr kva i = (pp, unat i)"
proof -
  have u: "unat (PPN (page2pa pp)) = pp" using assms by (simp add: unat_PPN_page2pa)
  have "page2kva np pp = Some (page2pa pp + KERNBASE)"
    using assms u by (simp add: page2kva_def KADDR_def)
  with kptr_KADDR [of np "page2pa pp" _ i] u show ?thesis by (simp add: page2kva_def)
qed

lemma walk_create:
  assumes inv: "mm_inv s D K (t # fl)" and d: "d \<in> D" and va: "va < UTOP"
    and none: "ptmap s (d, unat (PDX va)) = None"
  shows "\<exists>s'. pgdir_walk d va 1 s = Some (Some (t, unat (PTX va)), s')
    \<and> mm_inv s' D K fl \<and> npage s' = npage s
    \<and> pp_ref s' = (pp_ref s)(t := 1)
    \<and> (\<forall>y \<in> ptslots D. ptmap s' y = ((ptmap s)((d, unat (PDX va)) := Some t)) y)
    \<and> (\<forall>y \<in> leafslots D. leafpte s' y = leafpte s y)
    \<and> curenv s' = curenv s \<and> envs s' = envs s
    \<and> mem s' = (mem s)(t := (\<lambda>_. 0), d := (mem s d)(unat (PDX va) := mkpte t (PTE_U OR PTE_W)))"
proof -
  obtain l where l: "page_alloc s = Some (Inr t, s\<lparr>page_free_list := l\<rparr>)"
    and inv1: "mm_inv (s\<lparr>page_free_list := l\<rparr>) D K fl"
    using mm_alloc [OF inv] by blast
  let ?s1 = "s\<lparr>page_free_list := l\<rparr>" and ?v = "page2pa t OR PTE_U OR PTE_W OR PTE_P"
  note fr = mm_inv_free [OF inv, of t, simplified]
  note fin = mm_invD(2) [OF inv]
  have "distinct (t # fl)"
    using mm_invD(1) [OF inv] tailq.repr_distinct unfolding pages_wf_def by blast
  then have dp: "data_page ?s1 D fl t"
    using fr fin by (auto simp: data_page_def nrefs_zero)
  let ?s2 = "set_ref t 1 ?s1"
  have inv2: "mm_inv ?s2 D (K(t := 1)) fl"
    using mm_incref [OF inv1 dp] fr by simp
  let ?s4 = "wr (d, unat (PDX va)) ?v (zero_page t ?s2)"
  have np20: "npage s \<le> 2 ^ 20" "t < 2 ^ 20" using mm_invD(4) [OF inv] fr(1) by simp_all
  have mk: "?v = mkpte t (PTE_U OR PTE_W)" by (simp add: mkpte_def or.assoc)
  have ev: "ent ?v = Some t"
    unfolding mk using np20 by (intro ent_mkpte) (simp_all add: pte_flags)
  have K1: "(K(t := 1)) t = 1" "t < npage ?s2" "unat (pp_ref ?s2 t) = 1" "ptmap ?s2 (d, unat (PDX va)) = None"
    using fr none by (simp_all add: set_ref_def)
  note new = mm_new_table [OF inv2 slot_in(2) [OF d va] K1(4) K1(1,2,3) ev refl]
  have Kt: "(K(t := 1))(t := 0) = K" using fr(3) by auto
  have rd4: "rd ?s4 (d, unat (PDX va)) = ?v" by simp
  have np4: "npage ?s4 = npage s" by (simp add: zero_page_def set_ref_def)
  obtain kva where kva: "page2kva (npage ?s2) t = Some kva" "kptr kva 0 = (t, unat (0::u32))"
    using page2kva_ok [of t "npage ?s2" 0] K1 np20 by (auto simp: set_ref_def)
  obtain kva' where kva': "KADDR (npage ?s4) (PTE_ADDR ?v) = Some kva'" "kptr kva' (PTX va) = (t, unat (PTX va))"
    using KADDR_frame [of ?v t "npage s" "PTX va"] ent_SomeD [OF ev] fr(1) np4 by auto
  have "rd s (d, unat (PDX va)) AND PTE_P = 0"
    using none ent_NoneD by (simp add: ptmap_rd)
  then have "pgdir_walk d va 1 s = Some (Some (t, unat (PTX va)), ?s4)"
    using l kva kva' rd4 by (simp add: pgdir_walk_def Let_def)
  moreover have "mm_inv ?s4 D K fl" by (rule new(1) [unfolded Kt])
  moreover have "t \<noteq> d" using fr(4) d by auto
  then have "mem ?s4 = (mem s)(t := (\<lambda>_. 0), d := (mem s d)(unat (PDX va) := mkpte t (PTE_U OR PTE_W)))"
    unfolding mk by (simp add: wr_def zero_page_def set_ref_def)
  ultimately show ?thesis
    using new(2,3) np4 by (auto simp: set_ref_def zero_page_def)
qed

lemma lookup_ok:
  assumes inv: "mm_inv s D K fl" and d: "d \<in> D" and va: "va < UTOP"
  shows "page_lookup d va s =
    Some (leafmap s (slot d va),
          map_option (\<lambda>t. (t, unat (PTX va))) (ptmap s (d, unat (PDX va))), s)"
proof (cases "ptmap s (d, unat (PDX va))")
  case None
  then show ?thesis by (simp add: page_lookup_def walk_absent slot_def leafmap_table)
next
  case (Some t)
  let ?pte = "rd s (t, unat (PTX va))"
  have lf: "leafmap s (slot d va) = ent ?pte"
    using Some by (simp add: slot_def leafmap_table rd_def)
  show ?thesis
  proof (cases "ent ?pte")
    case None
    then show ?thesis using lf Some walk_present [OF inv d va Some]
      by (auto simp: page_lookup_def dest: ent_NoneD)
  next
    case (Some q)
    have "q < npage s" using mm_invD(9) [OF inv slot_in(1) [OF d va]] lf Some by simp
    then show ?thesis
      using lf Some \<open>ptmap s (d, unat (PDX va)) = Some t\<close> walk_present [OF inv d va, of t]
        ent_SomeD [OF Some]
      by (auto simp: page_lookup_def pa2page_def PPN_PTE_ADDR)
  qed
qed

section \<open>page\_remove\<close>

lemma page_decref_wr:
  "page_decref p (wr q v s) = map_option (wr q v) (page_decref p s)"
  by (cases p) (auto simp: page_decref_def set_ref_def wr_def page_free_def Let_def)

lemma tlb_invalidate_fields [simp]:
  "mem (tlb_invalidate d va s) = mem s" "pp_ref (tlb_invalidate d va s) = pp_ref s"
  "npage (tlb_invalidate d va s) = npage s"
  "page_free_list (tlb_invalidate d va s) = page_free_list s"
  "curenv (tlb_invalidate d va s) = curenv s" "envs (tlb_invalidate d va s) = envs s"
  by (simp_all add: tlb_invalidate_def invlpg_def split: option.split)

lemma mm_inv_tlb [simp]: "mm_inv (tlb_invalidate d va s) D K fl = mm_inv s D K fl"
  by (rule mm_inv_cong) simp_all

lemma leafmap_ptmap: "leafmap s (d, i, j) = Some p \<Longrightarrow> \<exists>t. ptmap s (d, i) = Some t"
  by (auto simp: leafmap_table split: option.splits)

lemma remove_mapped:
  assumes inv: "mm_inv s D K fl" and d: "d \<in> D" and va: "va < UTOP"
    and p: "leafmap s (slot d va) = Some p"
  shows "\<exists>s'. page_remove d va s = Some s'
    \<and> mm_inv s' D K (if unat (pp_ref s p) = 1 then p # fl else fl)
    \<and> npage s' = npage s \<and> pp_ref s' = (pp_ref s)(p := pp_ref s p - 1)
    \<and> (\<forall>y \<in> ptslots D. ptmap s' y = ptmap s y)
    \<and> (\<forall>y \<in> leafslots D. leafpte s' y = ((leafpte s)(slot d va := 0)) y)"
proof -
  let ?i = "unat (PDX va)" and ?j = "unat (PTX va)"
  obtain t where t: "ptmap s (d, ?i) = Some t"
    using leafmap_ptmap [OF p [unfolded slot_def]] by blast
  note sl = slot_in [OF d va]
  have sl': "(d, ?i, ?j) \<in> leafslots D" using sl(1) by (simp add: slot_def)
  have p': "leafmap s (d, ?i, ?j) = Some p" using p by (simp add: slot_def)
  let ?w = "wr (t, ?j) 0 s"
  have inv1: "mm_inv ?w D (K(p := K p + 1)) fl"
    by (rule mm_write_leaf [OF inv sl' t]) (use p' in auto)
  have pn: "p < npage ?w" using mm_invD(9) [OF inv sl(1) p] by simp
  obtain s2 where s2: "page_decref (Some p) ?w = Some s2"
      "mm_inv s2 D K (if unat (pp_ref s p) = 1 then p # fl else fl)" "mem s2 = mem ?w"
      "npage s2 = npage s" "pp_ref s2 = (pp_ref s)(p := pp_ref s p - 1)"
    using mm_decref [OF inv1 pn] by auto
  have "page_remove d va s = Some (tlb_invalidate d va s2)"
    using s2(1) p t lookup_ok [OF inv d va] by (auto simp: page_remove_def page_decref_wr)
  then show ?thesis
    using s2 maps_cong [OF s2(3)] ptmap_wr_table [OF inv sl(2) t] leafpte_wr_table [OF inv sl' t]
    by (auto simp: slot_def)
qed

lemma remove_no_table:
  assumes "ptmap s (d, unat (PDX va)) = None"
  shows "page_remove d va s = Some s"
  using assms by (simp add: page_remove_def page_lookup_def walk_absent)

lemma remove_faults:
  assumes "mm_inv s D K fl" and "d \<in> D" and "va < UTOP"
    and "ptmap s (d, unat (PDX va)) = Some t" and "leafmap s (slot d va) = None"
  shows "page_remove d va s = None"
  using assms lookup_ok [OF assms(1-3)] by (simp add: page_remove_def page_decref_def)

end
