(* ===== verification/Pmap_Insert.thy ===== *)
theory Pmap_Insert
  imports Pmap_Inv
begin

text \<open>
  page_insert of kern/pmap.c on all its branches: a missing page table, a page already mapped
  at the address (another one or the same), and an empty slot.
\<close>

unbundle bit_operations_syntax

lemma set_ref_wr: "set_ref p v (wr q w s) = wr q w (set_ref p v s)"
  by (simp add: set_ref_def wr_def)

lemma mkpte_alt: "page2pa pp OR perm OR PTE_P = mkpte pp perm"
  by (simp add: mkpte_def or.assoc)

lemma set_ref_fields [simp]:
  "npage (set_ref p v s) = npage s" "page_free_list (set_ref p v s) = page_free_list s"
  "curenv (set_ref p v s) = curenv s" "envs (set_ref p v s) = envs s"
  "pp_ref (set_ref p v s) = (pp_ref s)(p := v)" "rd (set_ref p v s) q = rd s q"
  by (simp_all add: set_ref_def rd_def)

text \<open>The last three statements of page_insert, on an empty slot.\<close>

lemma put_ok:
  assumes inv: "mm_inv s D K fl" and x: "(d, i, j) \<in> leafslots D" and t: "ptmap s (d, i) = Some t"
    and none: "leafmap s (d, i, j) = None" and pp: "data_page s D fl pp"
    and lt: "unat (pp_ref s pp) < 65535" and perm: "unat perm < 4096"
    and s': "s' = set_ref pp (pp_ref s pp + 1) (wr (t, j) (mkpte pp perm) s)"
  shows "mm_inv s' D K fl"
    and "\<And>y. y \<in> leafslots D \<Longrightarrow> leafpte s' y = ((leafpte s)((d, i, j) := mkpte pp perm)) y"
proof -
  have pn: "pp < npage s" "pp < 2 ^ 20"
    using pp mm_invD(4) [OF inv] by (auto simp: data_page_def)
  have e: "ent (mkpte pp perm) = Some pp" using pn perm by simp
  have inv1: "mm_inv (set_ref pp (pp_ref s pp + 1) s) D (K(pp := K pp + 1)) fl"
    by (rule mm_incref [OF inv pp lt])
  show "mm_inv s' D K fl"
    unfolding s' set_ref_wr
    by (rule mm_write_leaf [OF inv1 x]) (use t none e pn in auto)
  show "leafpte s' y = ((leafpte s)((d, i, j) := mkpte pp perm)) y" if "y \<in> leafslots D" for y
    unfolding s' using leafpte_wr_table [OF inv x t that] by simp
qed

text \<open>The pages on the free list afterwards.\<close>

definition insert_free :: "kstate \<Rightarrow> nat \<Rightarrow> u32 \<Rightarrow> nat \<Rightarrow> nat list \<Rightarrow> nat list" where
  "insert_free s d va pp fl =
     (let fl1 = (if ptmap s (d, unat (PDX va)) = None then tl fl else fl)
      in case leafmap s (slot d va) of
           None \<Rightarrow> fl1
         | Some q \<Rightarrow> if q \<noteq> pp \<and> unat (pp_ref s q) = 1 then q # fl1 else fl1)"

text \<open>page_insert when the page table exists.\<close>

lemma insert_table:
  assumes inv: "mm_inv s D K fl" and d: "d \<in> D" and va: "va < UTOP"
    and t: "ptmap s (d, unat (PDX va)) = Some t" and pp: "data_page s D fl pp"
    and lt: "unat (pp_ref s pp) < 65535" and perm: "unat perm < 4096"
    and w: "pgdir_walk d va 1 s0 = Some (Some (t, unat (PTX va)), s)"
  shows "\<exists>s'. page_insert d pp va perm s0 = Some (Inr (), s')
    \<and> mm_inv s' D K (insert_free s d va pp fl) \<and> npage s' = npage s
    \<and> (\<forall>y \<in> leafslots D. leafpte s' y = ((leafpte s)(slot d va := mkpte pp perm)) y)"
proof -
  let ?i = "unat (PDX va)" and ?j = "unat (PTX va)"
  let ?pte = "rd s (t, ?j)"
  note sl = slot_in [OF d va]
  have sl': "(d, ?i, ?j) \<in> leafslots D" using sl(1) by (simp add: slot_def)
  have pn: "pp < npage s" "pp < 2 ^ 20"
    using pp mm_invD(4) [OF inv] by (auto simp: data_page_def)
  have lf: "leafmap s (slot d va) = ent ?pte"
    using t by (simp add: slot_def leafmap_table rd_def)
  show ?thesis
  proof (cases "leafmap s (slot d va)")
    case None
    then have "?pte AND PTE_P = 0" using lf ent_NoneD by simp
    then have ins: "page_insert d pp va perm s0
        = Some (Inr (), set_ref pp (pp_ref s pp + 1) (wr (t, ?j) (mkpte pp perm) s))"
      using w by (simp add: page_insert_def mkpte_alt)
    from put_ok [OF inv sl' t _ pp lt perm refl] None ins t show ?thesis
      by (simp add: slot_def insert_free_def)
  next
    case (Some q)
    then have pte: "?pte AND PTE_P \<noteq> 0" "unat (PPN ?pte) = q" using lf ent_SomeD by simp_all
    then have cmp: "PTE_ADDR ?pte = page2pa pp \<longleftrightarrow> q = pp"
      using PTE_ADDR_eq_iff [OF pn(2)] by simp
    show ?thesis
    proof (cases "q = pp")
      case True
      let ?s1 = "tlb_invalidate d va (set_ref pp (pp_ref s pp - 1) s)"
      have ins: "page_insert d pp va perm s0
          = Some (Inr (), set_ref pp (pp_ref ?s1 pp + 1) (wr (t, ?j) (mkpte pp perm) ?s1))"
        using w pte cmp True by (simp add: page_insert_def mkpte_alt)
      let ?w = "wr (t, ?j) (mkpte pp perm) s"
      have e: "ent (mkpte pp perm) = Some pp" using pn perm by simp
      have inv1: "mm_inv ?w D K fl"
        by (rule mm_write_leaf [OF inv sl' t]) (use Some True e pn in \<open>auto simp: slot_def\<close>)
      let ?s' = "set_ref pp (pp_ref ?s1 pp + 1) (wr (t, ?j) (mkpte pp perm) ?s1)"
      have f: "mem ?s' = mem ?w" "pp_ref ?s' = pp_ref ?w" "npage ?s' = npage ?w"
          "page_free_list ?s' = page_free_list ?w"
        by (auto simp: set_ref_def wr_def)
      have "mm_inv ?s' D K fl" using mm_inv_cong [OF f] inv1 by simp
      with ins f maps_cong [OF f(1)] leafpte_wr_table [OF inv sl' t] t Some True show ?thesis
        by (auto simp: slot_def insert_free_def)
    next
      case False
      obtain s1 where s1: "page_remove d va s = Some s1"
        "mm_inv s1 D K (if unat (pp_ref s q) = 1 then q # fl else fl)" "npage s1 = npage s"
        "pp_ref s1 = (pp_ref s)(q := pp_ref s q - 1)"
        "\<forall>y \<in> ptslots D. ptmap s1 y = ptmap s y"
        "\<forall>y \<in> leafslots D. leafpte s1 y = ((leafpte s)(slot d va := 0)) y"
        using remove_mapped [OF inv d va Some] by blast
      have "nrefs (ptmap s1) (ptslots D) pp = nrefs (ptmap s) (ptslots D) pp"
        using s1(5) by (intro nrefs_cong) simp
      then have dp: "data_page s1 D (if unat (pp_ref s q) = 1 then q # fl else fl) pp"
        using pp s1(3) False by (simp add: data_page_def)
      have t1: "ptmap s1 (d, ?i) = Some t" using s1(5) sl(2) t by simp
      have n1: "leafmap s1 (d, ?i, ?j) = None"
        using s1(6) sl' by (simp add: leafmap_def slot_def)
      have r1: "unat (pp_ref s1 pp) < 65535" using s1(4) False lt by simp
      have ins: "page_insert d pp va perm s0
          = Some (Inr (), set_ref pp (pp_ref s1 pp + 1) (wr (t, ?j) (mkpte pp perm) s1))"
        using w pte cmp False s1(1) by (simp add: page_insert_def mkpte_alt)
      from put_ok [OF s1(2) sl' t1 n1 dp r1 perm refl] ins s1(3,6) t Some False show ?thesis
        by (auto simp: slot_def insert_free_def)
    qed
  qed
qed

lemma insert_nomem:
  assumes "mm_inv s D K []" and "ptmap s (d, unat (PDX va)) = None"
  shows "page_insert d pp va perm s = Some (Inl E_NO_MEM, s)"
proof -
  have "is_list (page_free_list s) []"
    using assms(1) by (simp add: mm_inv_def pages_wf_def)
  with assms(2) show ?thesis by (simp add: page_insert_def walk_nomem)
qed

lemma insert_ok:
  assumes inv: "mm_inv s D K fl" and d: "d \<in> D" and va: "va < UTOP"
    and pp: "data_page s D fl pp" and lt: "unat (pp_ref s pp) < 65535"
    and perm: "unat perm < 4096"
    and room: "ptmap s (d, unat (PDX va)) \<noteq> None \<or> fl \<noteq> []"
  shows "\<exists>s'. page_insert d pp va perm s = Some (Inr (), s')
    \<and> mm_inv s' D K (insert_free s d va pp fl) \<and> npage s' = npage s
    \<and> (\<forall>y \<in> leafslots D. leafpte s' y = ((leafpte s)(slot d va := mkpte pp perm)) y)"
proof (cases "ptmap s (d, unat (PDX va))")
  case (Some t)
  from insert_table [OF inv d va Some pp lt perm walk_present [OF inv d va Some]]
  show ?thesis .
next
  case None
  with room obtain t fl1 where fl: "fl = t # fl1" by (cases fl) auto
  note inv' = inv [unfolded fl]
  obtain s1 where s1: "pgdir_walk d va 1 s = Some (Some (t, unat (PTX va)), s1)"
    "mm_inv s1 D K fl1" "npage s1 = npage s" "pp_ref s1 = (pp_ref s)(t := 1)"
    "\<forall>y \<in> ptslots D. ptmap s1 y = ((ptmap s)((d, unat (PDX va)) := Some t)) y"
    "\<forall>y \<in> leafslots D. leafpte s1 y = leafpte s y"
    using walk_create [OF inv' d va None] by blast
  have ne: "pp \<noteq> t" "pp \<notin> set fl1" using pp fl by (auto simp: data_page_def)
  have dp: "data_page s1 D fl1 pp"
  proof -
    have "ptmap s1 x \<noteq> Some pp" if "x \<in> ptslots D" for x
      using that s1(5) pp ne mm_invD(2) [OF inv] by (auto simp: data_page_def nrefs_zero)
    then show ?thesis
      using pp ne s1(3) mm_invD(2) [OF inv] by (simp add: data_page_def nrefs_zero)
  qed
  have t1: "ptmap s1 (d, unat (PDX va)) = Some t" using s1(5) slot_in(2) [OF d va] by simp
  have lt1: "unat (pp_ref s1 pp) < 65535" using s1(4) ne lt by simp
  have nol: "leafmap s (slot d va) = None" using None by (simp add: slot_def leafmap_table)
  have "leafmap s1 (slot d va) = None"
    using s1(6) slot_in(1) [OF d va] nol by (simp add: leafmap_def)
  then have "insert_free s1 d va pp fl1 = insert_free s d va pp fl"
    using None nol t1 fl by (simp add: insert_free_def)
  with insert_table [OF s1(2) d va t1 dp lt1 perm s1(1)] s1(3,6) show ?thesis by auto
qed

end
