(* ===== verification/Pmap_Boot.thy ===== *)
theory Pmap_Boot
  imports Pmap_Inv
begin

text \<open>
  The boot-time part of kern/pmap.c: the free list that page_init builds, and the loop of
  boot_map_segment as an iteration over pages.
\<close>

unbundle bit_operations_syntax

section \<open>page\_init\<close>

definition kernel_page :: "nat \<Rightarrow> nat \<Rightarrow> nat \<Rightarrow> bool" where
  "kernel_page lo hi i \<longleftrightarrow> i = 0 \<or> (lo \<le> i \<and> i < hi)"

definition init_free :: "nat \<Rightarrow> nat \<Rightarrow> nat list \<Rightarrow> nat list" where
  "init_free lo hi is = rev (filter (\<lambda>i. \<not> kernel_page lo hi i) is)"

lemma page_init_step_ref:
  "pp_ref (page_init_step lo hi i s) = (pp_ref s)(i := if kernel_page lo hi i then 1 else 0)"
  by (auto simp: kernel_page_def set_ref_def Let_def)

lemma page_init_step_list:
  assumes "is_list (page_free_list s) fl" and "i \<notin> set fl"
  shows "is_list (page_free_list (page_init_step lo hi i s))
           (if kernel_page lo hi i then fl else i # fl)"
  using assms tailq.repr_insert by (auto simp: kernel_page_def set_ref_def Let_def)

lemma page_init_step_frame [simp]:
  "npage (page_init_step lo hi i s) = npage s" "mem (page_init_step lo hi i s) = mem s"
  by (auto simp: set_ref_def Let_def)

declare page_init_step.simps [simp del]

lemma page_init_fold:
  assumes "is_list (page_free_list s) fl" and "distinct is" and "set is \<inter> set fl = {}"
  shows "is_list (page_free_list (fold (page_init_step lo hi) is s)) (init_free lo hi is @ fl)
    \<and> pp_ref (fold (page_init_step lo hi) is s)
        = (\<lambda>i. if i \<in> set is then (if kernel_page lo hi i then 1 else 0) else pp_ref s i)
    \<and> npage (fold (page_init_step lo hi) is s) = npage s
    \<and> mem (fold (page_init_step lo hi) is s) = mem s"
  using assms
proof (induction "is" arbitrary: s fl)
  case Nil
  then show ?case by (simp add: init_free_def)
next
  case (Cons i "is")
  let ?s1 = "page_init_step lo hi i s" and ?fl1 = "if kernel_page lo hi i then fl else i # fl"
  have "is_list (page_free_list ?s1) ?fl1"
    using page_init_step_list Cons.prems by simp
  moreover have "distinct is" "set is \<inter> set ?fl1 = {}" using Cons.prems by auto
  ultimately have ih: "is_list (page_free_list (fold (page_init_step lo hi) is ?s1))
        (init_free lo hi is @ ?fl1)
    \<and> pp_ref (fold (page_init_step lo hi) is ?s1)
        = (\<lambda>i. if i \<in> set is then (if kernel_page lo hi i then 1 else 0) else pp_ref ?s1 i)
    \<and> npage (fold (page_init_step lo hi) is ?s1) = npage ?s1
    \<and> mem (fold (page_init_step lo hi) is ?s1) = mem ?s1"
    by (rule Cons.IH)
  have "init_free lo hi is @ ?fl1 = init_free lo hi (i # is) @ fl"
    by (simp add: init_free_def)
  with ih show ?case by (auto simp: page_init_step_ref fun_eq_iff)
qed

lemma page_init_ok:
  assumes pa: "PADDR fm = Some pa" and np: "npage s \<le> 2 ^ 20"
  defines "lo \<equiv> unat (PPN IOPHYSMEM)" and "hi \<equiv> unat (PPN (ROUNDUP pa PGSIZE))"
  shows "\<exists>s'. page_init fm s = Some s' \<and> npage s' = npage s \<and> mem s' = mem s
    \<and> pages_wf s' (init_free lo hi [0..<npage s])
    \<and> free_pages s' = {i. i < npage s \<and> \<not> kernel_page lo hi i}
    \<and> (\<forall>i < npage s. pp_ref s' i = (if kernel_page lo hi i then 1 else 0))"
proof -
  let ?s0 = "s\<lparr>page_free_list := LIST_INIT (page_free_list s)\<rparr>"
  let ?s' = "fold (page_init_step lo hi) [0..<npage s] ?s0"
  have ls0: "is_list (page_free_list ?s0) []" by (simp add: tailq.repr_init)
  have "distinct [0..<npage s]" "set [0..<npage s] \<inter> set [] = {}" by simp_all
  note f = page_init_fold [OF ls0 this, of lo hi]
  have run: "page_init fm s = Some ?s'"
    using pa by (simp add: page_init_def lo_def hi_def)
  have ls: "is_list (page_free_list ?s') (init_free lo hi [0..<npage s])" using f by simp
  then have "free_pages ?s' = {i. i < npage s \<and> \<not> kernel_page lo hi i}"
    by (auto simp: free_pages_eq init_free_def)
  moreover have "pages_wf ?s' (init_free lo hi [0..<npage s])"
    using ls f np by (auto simp: pages_wf_def init_free_def)
  ultimately show ?thesis using run f by auto
qed

section \<open>boot\_map\_segment\<close>

text \<open>The loop without its counter: one entry written per page.\<close>

fun map_pages :: "nat \<Rightarrow> u32 \<Rightarrow> u32 \<Rightarrow> u32 \<Rightarrow> nat \<Rightarrow> kstate \<Rightarrow> kstate option" where
  "map_pages pgdir la pa perm 0 s = Some s"
| "map_pages pgdir la pa perm (Suc n) s =
     do {
       (pte, s1) \<leftarrow> pgdir_walk pgdir la 1 s;
       p \<leftarrow> pte;
       map_pages pgdir (la + PGSIZE) (pa + PGSIZE) perm n (wr p (pa OR perm OR PTE_P) s1)
     }"

lemma boot_map_loop_pages:
  assumes "unat sz + 4095 < 2 ^ 32" and "n = (unat sz - unat i + 4095) div 4096"
  shows "boot_map_loop pgdir la sz pa perm i s = map_pages pgdir la pa perm n s"
  using assms(2)
proof (induction n arbitrary: la pa i s)
  case 0
  then have "\<not> i < sz" by (simp add: word_less_nat_alt)
  then show ?case by (simp add: boot_map_loop.simps)
next
  case (Suc n)
  have lt: "i < sz"
  proof (rule ccontr)
    assume "\<not> i < sz"
    then have "unat sz - unat i = 0" by (simp add: word_less_nat_alt)
    with Suc.prems show False by simp
  qed
  then have "unat i < unat sz" by (simp add: word_less_nat_alt)
  moreover from this assms(1) have "unat (i + PGSIZE) = unat i + 4096"
    by (simp add: unat_word_ariths layout)
  ultimately have "n = (unat sz - unat (i + PGSIZE) + 4095) div 4096"
    using Suc.prems by linarith
  from Suc.IH [OF this] lt show ?case
    by (subst boot_map_loop.simps) (auto simp: split_def split: option.splits intro!: Option.bind_cong)
qed

end
