(* ===== verification/User_Mem.thy ===== *)
theory User_Mem
  imports Pmap_Inv
begin

text \<open>
  user_mem_check of kern/pmap.c: what a successful check promises about every address of the
  range, what a failed one reports, and the case of a range that wraps around.
\<close>

unbundle bit_operations_syntax

text \<open>
  Address \<open>a\<close> is below ULIM and its page-table entry grants all bits of \<open>perm\<close>.
\<close>

definition uva_ok :: "kstate \<Rightarrow> nat \<Rightarrow> u32 \<Rightarrow> u32 \<Rightarrow> bool" where
  "uva_ok s pgdir perm a \<longleftrightarrow> a < ULIM
     \<and> (case pgdir_walk pgdir a 0 s of
          Some (Some p, _) \<Rightarrow> rd s p AND perm = perm
        | _ \<Rightarrow> False)"

lemma walk_pure: "pgdir_walk d va 0 s = Some (r, s') \<Longrightarrow> s' = s"
  by (auto simp: pgdir_walk_def Let_def bind_Some_iff split: if_splits)

lemma same_page_index:
  assumes "ROUNDDOWN a PGSIZE = ROUNDDOWN b PGSIZE"
  shows "PDX a = PDX b" "PTX a = PTX b"
proof -
  have *: "PGADDR (PDX a) (PTX a) 0 = PGADDR (PDX b) (PTX b) 0"
    using assms by (simp add: ROUNDDOWN_PGSIZE)
  have b: "unat (PDX c) < 1024" "unat (PTX c) < 1024" for c
    using PDX_lt [of c] PTX_lt [of c] by (simp_all add: layout)
  show "PDX a = PDX b" using arg_cong [OF *, of PDX] b by (simp add: PDX_PGADDR)
  show "PTX a = PTX b" using arg_cong [OF *, of PTX] b by (simp add: PTX_PGADDR)
qed

lemma uva_ok_page:
  assumes "ROUNDDOWN a PGSIZE = ROUNDDOWN b PGSIZE" and "a < ULIM" "b < ULIM"
  shows "uva_ok s d perm a = uva_ok s d perm b"
  using assms(2,3) unfolding uva_ok_def pgdir_walk_def same_page_index [OF assms(1)] by simp

lemma mod_page: "unat (x :: u32) mod 4096 < 4096"
  by simp

lemma same_page:
  assumes "i \<le> a" and "unat a < unat i - unat i mod 4096 + 4096"
  shows "ROUNDDOWN a PGSIZE = ROUNDDOWN i PGSIZE"
proof -
  have le: "unat i \<le> unat a" using assms(1) by (simp add: word_le_nat_alt)
  have "unat i - unat i mod 4096 = 4096 * (unat i div 4096)"
    by (simp add: minus_mod_eq_mult_div)
  with le assms(2) have "unat a div 4096 = unat i div 4096"
    by (metis (no_types, lifting) add.commute div_le_mono div_mult_self1_is_m less_mult_imp_div_less
        le_antisym less_Suc_eq_le mult.commute mult_Suc zero_less_numeral)
  then have "unat a - unat a mod 4096 = unat i - unat i mod 4096"
    by (simp add: minus_mod_eq_mult_div)
  then show ?thesis by (simp add: word_unat_eq_iff unat_ROUNDDOWN layout)
qed

text \<open>One round of the loop, on a page that is reachable or not.\<close>

lemma loop_step:
  assumes e: "env_pgdir (envs s e) = Some d" and lt: "i < fin"
    and w: "pgdir_walk d i 0 s = Some (pte, s)"
  shows "user_mem_check_loop e i fin perm s =
    (if uva_ok s d perm i then user_mem_check_loop e (ROUNDDOWN i PGSIZE + PGSIZE) fin perm s
     else Some (Inl E_FAULT, s\<lparr>user_mem_check_addr := i\<rparr>))"
  using assms
  by (subst user_mem_check_loop.simps)
    (auto simp: uva_ok_def not_le split: option.splits)

lemma check_loop:
  assumes e: "env_pgdir (envs s e) = Some d"
    and res: "user_mem_check_loop e i fin perm s = Some (r, s')"
  shows "case r of
      Inr _ \<Rightarrow> s' = s \<and> (\<forall>a. i \<le> a \<and> a < fin \<longrightarrow> uva_ok s d perm a)
    | Inl er \<Rightarrow> er = E_FAULT \<and> (\<exists>a. i \<le> a \<and> a < fin \<and> \<not> uva_ok s d perm a
        \<and> (\<forall>b. i \<le> b \<and> b < a \<longrightarrow> uva_ok s d perm b) \<and> s' = s\<lparr>user_mem_check_addr := a\<rparr>)"
  using res
proof (induction "2 ^ 32 - unat i" arbitrary: i rule: less_induct)
  case less
  show ?case
  proof (cases "i < fin")
    case False
    then show ?thesis using less.prems by (subst (asm) user_mem_check_loop.simps) auto
  next
    case True
    then obtain pte where w: "pgdir_walk d i 0 s = Some (pte, s)"
      using less.prems e walk_pure [of d i s]
      by (subst (asm) user_mem_check_loop.simps) (auto simp: bind_Some_iff)
    note st = loop_step [OF e True w, of perm]
    show ?thesis
    proof (cases "uva_ok s d perm i")
      case False
      then have "r = Inl E_FAULT" "s' = s\<lparr>user_mem_check_addr := i\<rparr>"
        using st less.prems by auto
      with False True show ?thesis by auto
    next
      case ok: True
      let ?n = "ROUNDDOWN i PGSIZE + PGSIZE"
      have u: "i < ULIM" using ok by (simp add: uva_ok_def)
      note n = next_page_gt [OF u]
      have gt: "unat i < unat ?n" using n mod_page [of i] by linarith
      then have "2 ^ 32 - unat ?n < 2 ^ 32 - unat i"
        using unsigned_less [of i, where 'a = nat] by simp
      note ih = less.hyps [OF this]
      have page: "uva_ok s d perm a" if "i \<le> a" "a < ?n" for a
      proof -
        have "unat a < unat i - unat i mod 4096 + 4096"
          using that(2) n by (simp add: word_less_nat_alt)
        then have r: "ROUNDDOWN a PGSIZE = ROUNDDOWN i PGSIZE" using same_page that(1) by blast
        have "unat ?n \<le> 0xEF800000"
        proof -
          have "unat i < 0xEF800000" using u by (simp add: word_less_nat_alt layout)
          then have "unat i div 4096 * 4096 + 4096 \<le> 0xEF800000" by simp
          then show ?thesis using n by (simp add: minus_mod_eq_div_mult)
        qed
        then have "a < ULIM" using that(2) by (simp add: word_less_nat_alt layout)
        with uva_ok_page [OF r _ u] ok show ?thesis by simp
      qed
      have rest: "user_mem_check_loop e ?n fin perm s = Some (r, s')" using st ok less.prems by simp
      have le: "i \<le> ?n" using gt by (simp add: word_le_nat_alt)
      have ext: "uva_ok s d perm b" if "\<forall>b. ?n \<le> b \<and> b < c \<longrightarrow> uva_ok s d perm b" "i \<le> b" "b < c" for b c
        using that page [of b] by (cases "b < ?n") (simp_all add: not_less)
      show ?thesis
      proof (cases r)
        case (Inr u)
        with ih [OF rest] ext [of fin] show ?thesis by simp
      next
        case (Inl er)
        with ih [OF rest] obtain a where a: "er = E_FAULT" "?n \<le> a" "a < fin" "\<not> uva_ok s d perm a"
          "\<forall>b. ?n \<le> b \<and> b < a \<longrightarrow> uva_ok s d perm b" "s' = s\<lparr>user_mem_check_addr := a\<rparr>"
          by auto
        have "i \<le> a" using le a(2) by (rule order_trans)
        moreover have "\<forall>b. i \<le> b \<and> b < a \<longrightarrow> uva_ok s d perm b" using ext [OF a(5)] by blast
        ultimately show ?thesis using Inl a by auto
      qed
    qed
  qed
qed

text \<open>
  When the present entries of the directory name pages that exist, no walk of the loop faults and the
  check returns.
\<close>

lemma check_loop_returns:
  assumes e: "env_pgdir (envs s e) = Some d" and dir: "\<forall>k t. ptmap s (d, k) = Some t \<longrightarrow> t < npage s"
  shows "user_mem_check_loop e i fin perm s \<noteq> None"
proof (induction "2 ^ 32 - unat i" arbitrary: i rule: less_induct)
  case less
  show ?case
  proof (cases "i < fin")
    case True
    obtain pte where "pgdir_walk d i 0 s = Some (pte, s)"
    proof (cases "ptmap s (d, unat (PDX i))")
      case None
      then show ?thesis using walk_absent [of s d i 0] that by simp
    next
      case (Some t)
      with ent_SomeD KADDR_frame [of "rd s (d, unat (PDX i))" t "npage s" "PTX i"] dir [rule_format, OF Some]
      show ?thesis using that by (force simp: pgdir_walk_def ptmap_rd Let_def)
    qed
    note st = loop_step [OF e True this, of perm]
    show ?thesis
    proof (cases "uva_ok s d perm i")
      case ok: True
      then have "i < ULIM" by (simp add: uva_ok_def)
      then have "unat i < unat (ROUNDDOWN i PGSIZE + PGSIZE)"
        using next_page_gt [of i] mod_page [of i] by linarith
      then have "2 ^ 32 - unat (ROUNDDOWN i PGSIZE + PGSIZE) < 2 ^ 32 - unat i"
        using unsigned_less [of i, where 'a = nat] by simp
      from less [OF this] st ok show ?thesis by simp
    qed (use st in simp)
  qed (subst user_mem_check_loop.simps, simp)
qed

text \<open>The addresses of a range that does not wrap around, by their offsets.\<close>

lemma range_offsets:
  assumes "unat va + unat (len :: u32) < 2 ^ 32"
  shows "va \<le> a \<and> a < va + len \<longleftrightarrow> (\<exists>k<unat len. a = va + of_nat k)"
    and "k \<le> unat len \<Longrightarrow> unat (va + of_nat k) = unat va + k"
proof -
  show k: "unat (va + of_nat k) = unat va + k" if "k \<le> unat len" for k
    using that assms by (simp add: unat_word_ariths unat_of_nat)
  have l: "unat (va + len) = unat va + unat len" using k [of "unat len"] by simp
  show "va \<le> a \<and> a < va + len \<longleftrightarrow> (\<exists>k<unat len. a = va + of_nat k)"
  proof
    assume a: "va \<le> a \<and> a < va + len"
    then have "unat a - unat va < unat len" "a = va + of_nat (unat a - unat va)"
      using l by (auto simp: word_less_nat_alt word_le_nat_alt of_nat_diff)
    then show "\<exists>k<unat len. a = va + of_nat k" by blast
  next
    assume "\<exists>k<unat len. a = va + of_nat k"
    then show "va \<le> a \<and> a < va + len" using k l by (auto simp: word_less_nat_alt word_le_nat_alt)
  qed
qed

end
