(* ===== verification/Demo_State.thy ===== *)
theory Demo_State
  imports Pmap_Insert Pmap_Boot User_Mem
begin

text \<open>
  A small concrete kernel state: five pages of memory; page 0 is a page directory, page 1 its
  page table for the first 4MB, page 2 is mapped at 0x1000 by that table, page 3 is free and
  page 4 is in use by the kernel. The witnesses of the properties are evaluated on it.
\<close>

unbundle bit_operations_syntax

definition demo_env :: Env where
  "demo_env = Env_zero\<lparr>env_id := 0x1001, env_status := ENV_RUNNABLE, env_pgdir := Some 0,
     env_priority := PRIORITY_DEFAULT\<rparr>"

definition demo :: kstate where
  "demo = kstate_zero\<lparr>npage := 5,
     page_free_list := LIST_INSERT_HEAD 3 (LIST_INIT llist_zero),
     pp_ref := (\<lambda>_. 0)(0 := 1, 1 := 1, 2 := 1, 4 := 1),
     mem := (\<lambda>_ _. 0)(0 := (\<lambda>_. 0)(0 := mkpte 1 (PTE_U OR PTE_W)),
                    1 := (\<lambda>_. 0)(1 := mkpte 2 (PTE_U OR PTE_W))),
     envs := (\<lambda>_. Env_zero)(1 := demo_env)\<rparr>"

definition demo_K :: "nat \<Rightarrow> nat" where
  "demo_K p = (if p = 4 then 1 else 0)"

text \<open>The same memory with nothing on the free list.\<close>

definition demo_full :: kstate where
  "demo_full = demo\<lparr>page_free_list := LIST_INIT llist_zero, pp_ref := (pp_ref demo)(3 := 1)\<rparr>"

definition demo_full_K :: "nat \<Rightarrow> nat" where
  "demo_full_K p = (if p = 4 \<or> p = 3 then 1 else 0)"

lemma nrefs_single:
  assumes "\<And>x. x \<in> X \<Longrightarrow> f x = (if x = a then Some q else None)" and "a \<in> X"
  shows "nrefs f X p = (if p = q then 1 else 0)"
proof -
  have "{x \<in> X. f x = Some p} = (if p = q then {a} else {})"
    using assms by (auto split: if_splits)
  then show ?thesis by (simp add: nrefs_def)
qed

lemma demo_fields:
  "npage demo = 5" "pp_ref demo = (\<lambda>_. 0)(0 := 1, 1 := 1, 2 := 1, 4 := 1)"
  "mem demo 0 = (\<lambda>_. 0)(0 := mkpte 1 (PTE_U OR PTE_W))"
  "mem demo 1 = (\<lambda>_. 0)(1 := mkpte 2 (PTE_U OR PTE_W))"
  "curenv demo = None" "envs demo 1 = demo_env" "tlb demo = Map.empty"
  by (simp_all add: demo_def kstate_zero_def)

lemma demo_perm: "unat (PTE_U OR PTE_W) < 4096"
  by (simp add: pte_flags)

lemma demo_ptmap: "ptmap demo (0, i) = (if i = 0 then Some 1 else None)"
  using demo_perm by (simp add: ptmap_def demo_fields)

lemma demo_leafpte:
  "leafpte demo (0, i, j) = (if i = 0 \<and> j = 1 then mkpte 2 (PTE_U OR PTE_W) else 0)"
  using demo_fields(4) by (simp add: leafpte_def demo_ptmap)

lemma demo_leafmap: "leafmap demo (0, i, j) = (if i = 0 \<and> j = 1 then Some 2 else None)"
  using demo_perm by (simp add: leafmap_def demo_leafpte)

lemma demo_nrefs:
  "nrefs (ptmap demo) (ptslots {0}) p = (if p = 1 then 1 else 0)"
  "nrefs (leafmap demo) (leafslots {0}) p = (if p = 2 then 1 else 0)"
  by (rule nrefs_single [where a = "(0, 0)"]; force simp: ptslots_def UPDX_val demo_ptmap)
     (rule nrefs_single [where a = "(0, 0, 1)"];
      force simp: leafslots_def UPDX_val NPTENTRIES_def demo_leafmap)

lemma ptslotsE: "x \<in> ptslots {d} \<Longrightarrow> (\<And>i. x = (d, i) \<Longrightarrow> P) \<Longrightarrow> P"
  by (auto simp: ptslots_def)

lemma demo_list: "is_list (page_free_list demo) [3]"
  by (simp add: demo_def tailq.repr_insert tailq.repr_init)

lemma lt5: "p < (5::nat) \<longleftrightarrow> p = 0 \<or> p = 1 \<or> p = 2 \<or> p = 3 \<or> p = 4"
  by arith

lemma demo_inv: "mm_inv demo {0} demo_K [3]"
  unfolding mm_inv_def
proof (intro conjI)
  show "pages_wf demo [3]" using demo_list by (simp add: pages_wf_def demo_fields)
  show "\<forall>p<npage demo. unat (pp_ref demo p) = total_refs demo {0} demo_K p"
    by (auto simp: demo_fields total_refs_def demo_nrefs demo_K_def lt5)
  show "\<forall>x\<in>ptslots {0}. \<forall>t. ptmap demo x = Some t \<longrightarrow>
      t < npage demo \<and> t \<notin> {0} \<and> demo_K t = 0 \<and> nrefs (ptmap demo) (ptslots {0}) t = 1
      \<and> nrefs (leafmap demo) (leafslots {0}) t = 0"
    using demo_nrefs [of 1] demo_ptmap by (auto simp: demo_fields demo_K_def elim!: ptslotsE split: if_splits)
  show "\<forall>x\<in>leafslots {0}. \<forall>p. leafmap demo x = Some p \<longrightarrow> p < npage demo"
    by (auto simp: leafslots_def demo_leafmap demo_fields)
qed (auto simp: demo_K_def demo_nrefs demo_fields)

lemma demo_full_maps:
  "ptmap demo_full = ptmap demo" "leafmap demo_full = leafmap demo" "leafpte demo_full = leafpte demo"
  by (rule maps_cong; simp add: demo_full_def)+

lemma demo_full_inv: "mm_inv demo_full {0} demo_full_K []"
  unfolding mm_inv_def
proof (intro conjI)
  show "pages_wf demo_full []"
    by (simp add: pages_wf_def demo_full_def demo_fields tailq.repr_init)
  show "\<forall>p<npage demo_full. unat (pp_ref demo_full p) = total_refs demo_full {0} demo_full_K p"
    by (auto simp: demo_full_maps demo_full_def demo_fields total_refs_def demo_nrefs
        demo_full_K_def lt5)
  show "\<forall>x\<in>ptslots {0}. \<forall>t. ptmap demo_full x = Some t \<longrightarrow>
      t < npage demo_full \<and> t \<notin> {0} \<and> demo_full_K t = 0
      \<and> nrefs (ptmap demo_full) (ptslots {0}) t = 1
      \<and> nrefs (leafmap demo_full) (leafslots {0}) t = 0"
    using demo_nrefs [of 1] demo_ptmap
    by (auto simp: demo_full_maps demo_full_def demo_fields demo_full_K_def elim!: ptslotsE split: if_splits)
  show "\<forall>x\<in>leafslots {0}. \<forall>p. leafmap demo_full x = Some p \<longrightarrow> p < npage demo_full"
    by (auto simp: demo_full_maps demo_full_def leafslots_def demo_leafmap demo_fields)
qed (auto simp: demo_full_maps demo_full_K_def demo_nrefs demo_full_def demo_fields)

lemma demo_data: "data_page demo {0} [3] 2" "data_page demo {0} [3] 4"
  by (simp_all add: data_page_def demo_fields demo_nrefs)

lemma demo_index:
  "unat (PDX 0x1000) = 0" "unat (PTX 0x1000) = 1" "unat (PDX 0x400000) = 1"
  "unat (PTX 0x400000) = 0" "unat (PDX 0x2000) = 0" "unat (PTX 0x2000) = 2"
  by (simp_all add: PDX_def PTX_def shifts)

end
