(* ===== verification/Vmem.thy ===== *)
theory Vmem
  imports Kstate
begin

text \<open>
  Accesses of the kernel to memory through the page tables that CR3 points at: the way
  load_icode, the copies of trap frames and the frames pushed on user stacks reach user
  memory. An access to a page that is not mapped, or a write to one that is read-only (the
  kernel sets CR0\_WP in i386\_vm\_init), is a page fault in kernel mode, which panics.
\<close>

unbundle bit_operations_syntax

definition mmu_walk :: "bool \<Rightarrow> u32 \<Rightarrow> kstate \<Rightarrow> nat option" where
  "mmu_walk w va s =
     (let pde = rd s (unat (PPN (cr3 s)), unat (PDX va)) in
      if pde AND PTE_P = 0 \<or> (w \<and> pde AND PTE_W = 0) then None
      else let pte = rd s (unat (PPN pde), unat (PTX va)) in
        if pte AND PTE_P = 0 \<or> (w \<and> pte AND PTE_W = 0) then None
        else Some (unat (PPN pte)))"

definition vread8 :: "u32 \<Rightarrow> kstate \<Rightarrow> u8 option" where
  "vread8 va s =
     do {
       f \<leftarrow> mmu_walk False va s;
       Some (get_byte (unat (PGOFF va) mod 4) (rd s (f, unat (PGOFF va) div 4)))
     }"

definition vwrite8 :: "u32 \<Rightarrow> u8 \<Rightarrow> kstate \<Rightarrow> kstate option" where
  "vwrite8 va b s =
     do {
       f \<leftarrow> mmu_walk True va s;
       let p = (f, unat (PGOFF va) div 4);
       Some (wr p (put_byte (unat (PGOFF va) mod 4) b (rd s p)) s)
     }"

text \<open>A little-endian word, byte by byte: the address need not be aligned.\<close>

definition vread32 :: "u32 \<Rightarrow> kstate \<Rightarrow> u32 option" where
  "vread32 va s =
     do {
       b0 \<leftarrow> vread8 va s;
       b1 \<leftarrow> vread8 (va + 1) s;
       b2 \<leftarrow> vread8 (va + 2) s;
       b3 \<leftarrow> vread8 (va + 3) s;
       Some (ucast b0 OR push_bit 8 (ucast b1) OR push_bit 16 (ucast b2) OR push_bit 24 (ucast b3))
     }"

definition vread16 :: "u32 \<Rightarrow> kstate \<Rightarrow> u16 option" where
  "vread16 va s =
     do {
       b0 \<leftarrow> vread8 va s;
       b1 \<leftarrow> vread8 (va + 1) s;
       Some (ucast b0 OR push_bit 8 (ucast b1))
     }"

text \<open>\<open>memmove\<close> to and \<open>memset\<close> of virtual addresses.\<close>

fun vwrite_bytes :: "u32 \<Rightarrow> u8 list \<Rightarrow> kstate \<Rightarrow> kstate option" where
  "vwrite_bytes va [] s = Some s"
| "vwrite_bytes va (b # bs) s =
     (case vwrite8 va b s of None \<Rightarrow> None | Some s' \<Rightarrow> vwrite_bytes (va + 1) bs s')"

definition word_bytes :: "u32 \<Rightarrow> u8 list" where
  "word_bytes w = map (\<lambda>k. get_byte k w) [0..<4]"

definition vwrite32 :: "u32 \<Rightarrow> u32 \<Rightarrow> kstate \<Rightarrow> kstate option" where
  "vwrite32 va w s = vwrite_bytes va (word_bytes w) s"

fun vread_bytes :: "u32 \<Rightarrow> nat \<Rightarrow> kstate \<Rightarrow> u8 list option" where
  "vread_bytes va 0 s = Some []"
| "vread_bytes va (Suc n) s =
     do { b \<leftarrow> vread8 va s; bs \<leftarrow> vread_bytes (va + 1) n s; Some (b # bs) }"

text \<open>The words at consecutive addresses, as a structure of words is written and read.\<close>

fun vwrite_words :: "u32 \<Rightarrow> u32 list \<Rightarrow> kstate \<Rightarrow> kstate option" where
  "vwrite_words va [] s = Some s"
| "vwrite_words va (w # ws) s =
     (case vwrite32 va w s of None \<Rightarrow> None | Some s' \<Rightarrow> vwrite_words (va + 4) ws s')"

text \<open>\<open>*tf\<close> for a \<open>struct Trapframe *\<close> from the user: 0x44 bytes in the order of inc/trap.h.\<close>

definition vread_Trapframe :: "u32 \<Rightarrow> kstate \<Rightarrow> Trapframe option" where
  "vread_Trapframe a s =
     do {
       edi \<leftarrow> vread32 a s;
       esi \<leftarrow> vread32 (a + 4) s;
       ebp \<leftarrow> vread32 (a + 8) s;
       oesp \<leftarrow> vread32 (a + 12) s;
       ebx \<leftarrow> vread32 (a + 16) s;
       edx \<leftarrow> vread32 (a + 20) s;
       ecx \<leftarrow> vread32 (a + 24) s;
       eax \<leftarrow> vread32 (a + 28) s;
       es \<leftarrow> vread16 (a + 32) s;
       pad1 \<leftarrow> vread16 (a + 34) s;
       ds \<leftarrow> vread16 (a + 36) s;
       pad2 \<leftarrow> vread16 (a + 38) s;
       trapno \<leftarrow> vread32 (a + 40) s;
       err \<leftarrow> vread32 (a + 44) s;
       eip \<leftarrow> vread32 (a + 48) s;
       cs \<leftarrow> vread16 (a + 52) s;
       pad3 \<leftarrow> vread16 (a + 54) s;
       eflags \<leftarrow> vread32 (a + 56) s;
       esp \<leftarrow> vread32 (a + 60) s;
       ss \<leftarrow> vread16 (a + 64) s;
       pad4 \<leftarrow> vread16 (a + 66) s;
       Some \<lparr>tf_regs = \<lparr>reg_edi = edi, reg_esi = esi, reg_ebp = ebp, reg_oesp = oesp,
                reg_ebx = ebx, reg_edx = edx, reg_ecx = ecx, reg_eax = eax\<rparr>,
             tf_es = es, tf_padding1 = pad1, tf_ds = ds, tf_padding2 = pad2,
             tf_trapno = trapno, tf_err = err, tf_eip = eip, tf_cs = cs, tf_padding3 = pad3,
             tf_eflags = eflags, tf_esp = esp, tf_ss = ss, tf_padding4 = pad4\<rparr>
     }"

lemma vwrite_bytes_append:
  "vwrite_bytes va (xs @ ys) s =
     (case vwrite_bytes va xs s of None \<Rightarrow> None
      | Some s' \<Rightarrow> vwrite_bytes (va + of_nat (length xs)) ys s')"
  by (induction xs arbitrary: va s) (auto simp: add.assoc split: option.splits)

end
