(* ===== verification/Env_Model.thy ===== *)
theory Env_Model
  imports Pmap Vmem
begin

text \<open>
  kern/env.c: environment ids, creation (address space, ELF image, stack) and destruction of
  environments, and the switch to one. \<open>struct Env *\<close> is the index in \<open>envs[]\<close>.
\<close>

unbundle bit_operations_syntax

text \<open>
  What a kernel function that may give up the CPU does: return to its caller, or enter an
  environment with env_pop_tf (its registers are the saved ones), or stop in the monitor
  because no environment is left.
\<close>

datatype 'r flow = Ret 'r kstate | Run nat kstate | Monitor kstate

text \<open>Sequencing: what follows a call that returned.\<close>

fun call :: "'r flow option \<Rightarrow> ('r \<Rightarrow> kstate \<Rightarrow> 'b flow option) \<Rightarrow> 'b flow option" where
  "call None k = None"
| "call (Some (Ret r s)) k = k r s"
| "call (Some (Run e s)) k = Some (Run e s)"
| "call (Some (Monitor s)) k = Some (Monitor s)"

definition mod_env :: "nat \<Rightarrow> (Env \<Rightarrow> Env) \<Rightarrow> kstate \<Rightarrow> kstate" where
  "mod_env e f s = set_env e (f (envs s e)) s"

section \<open>Environment ids\<close>

definition ENVGENSHIFT :: nat where "ENVGENSHIFT = 12"

definition envid2env :: "u32 \<Rightarrow> bool \<Rightarrow> kstate \<Rightarrow> (errno + nat option) option" where
  "envid2env envid checkperm s =
     (if envid = 0 then Some (Inr (curenv s))
      else let e = ENVX envid in
        if env_status (envs s e) = ENV_FREE \<or> env_id (envs s e) \<noteq> envid
        then Some (Inl E_BAD_ENV)
        else if checkperm \<and> curenv s \<noteq> Some e then do {
          c \<leftarrow> curenv s;
          Some (if env_parent_id (envs s e) \<noteq> env_id (envs s c) then Inl E_BAD_ENV
                else Inr (Some e))
        }
        else Some (Inr (Some e)))"

definition env_init_step :: "nat \<Rightarrow> kstate \<Rightarrow> kstate" where
  "env_init_step i s =
     (let s1 = mod_env i (\<lambda>v. v\<lparr>env_status := ENV_FREE\<rparr>) s;
          s2 = mod_env i (\<lambda>v. v\<lparr>env_id := 0\<rparr>) s1
      in s2\<lparr>env_free_list := LIST_INSERT_HEAD i (env_free_list s2)\<rparr>)"

definition env_init :: "kstate \<Rightarrow> kstate" where
  "env_init s =
     fold env_init_step (rev [0..<NENV]) (s\<lparr>env_free_list := LIST_INIT (env_free_list s)\<rparr>)"

section \<open>Creation\<close>

definition env_setup_vm :: "nat \<Rightarrow> kstate \<Rightarrow> ((errno + unit) \<times> kstate) option" where
  "env_setup_vm e s =
     do {
       (r, s1) \<leftarrow> page_alloc s;
       case r of
         Inl er \<Rightarrow> Some (Inl er, s1)
       | Inr p \<Rightarrow> do {
           kva \<leftarrow> page2kva (npage s1) p;
           let f = fst (kptr kva 0);
           let s2 = mod_env e (\<lambda>v. v\<lparr>env_pgdir := Some f, env_cr3 := page2pa p\<rparr>) s1;
           let s3 = s2\<lparr>mem := (mem s2)(f := mem s2 (boot_pgdir s2))\<rparr>;
           let s4 = s3\<lparr>mem := (mem s3)(f :=
                      (\<lambda>i. if i < unat (PDX UTOP) then 0 else mem s3 f i))\<rparr>;
           let s5 = set_ref p (pp_ref s4 p + 1) s4;
           let s6 = wr (f, unat (PDX VPT)) (env_cr3 (envs s5 e) OR PTE_P OR PTE_W) s5;
           let s7 = wr (f, unat (PDX UVPT)) (env_cr3 (envs s6 e) OR PTE_P OR PTE_U) s6;
           Some (Inr (), s7)
         }
     }"

definition next_env_id :: "u32 \<Rightarrow> nat \<Rightarrow> u32" where
  "next_env_id old e =
     (let g = (old + push_bit ENVGENSHIFT 1) AND NOT (of_nat NENV - 1);
          generation = (if sint g \<le> 0 then push_bit ENVGENSHIFT 1 else g)
      in generation OR of_nat e)"

definition env_alloc :: "u32 \<Rightarrow> kstate \<Rightarrow> ((errno + nat) \<times> kstate) option" where
  "env_alloc parent_id s =
     (case LIST_FIRST (env_free_list s) of
        None \<Rightarrow> Some (Inl E_NO_FREE_ENV, s)
      | Some e \<Rightarrow> do {
          (r, s1) \<leftarrow> env_setup_vm e s;
          case r of
            Inl er \<Rightarrow> Some (Inl er, s1)
          | Inr _ \<Rightarrow> do {
              let s2 = mod_env e (\<lambda>v. v\<lparr>env_id := next_env_id (env_id v) e\<rparr>) s1;
              let s3 = mod_env e (\<lambda>v. v\<lparr>env_parent_id := parent_id,
                          env_status := ENV_RUNNABLE, env_runs := 0\<rparr>) s2;
              let s4 = mod_env e (\<lambda>v. v\<lparr>env_tf := Trapframe_zero\<lparr>
                          tf_ds := GD_UD OR 3, tf_es := GD_UD OR 3, tf_ss := GD_UD OR 3,
                          tf_esp := USTACKTOP, tf_cs := GD_UT OR 3\<rparr>\<rparr>) s3;
              let s5 = mod_env e (\<lambda>v. v\<lparr>env_priority := PRIORITY_DEFAULT, env_ipc_sended := 0,
                          env_tf := (env_tf v)\<lparr>tf_eflags := tf_eflags (env_tf v) OR FL_IF\<rparr>,
                          env_pgfault_upcall := 0, env_ipc_recving := False\<rparr>) s4;
              let s6 = (if e = 1
                        then mod_env e (\<lambda>v. v\<lparr>env_tf := (env_tf v)\<lparr>
                               tf_eflags := tf_eflags (env_tf v) OR FL_IOPL_3\<rparr>\<rparr>) s5
                        else s5);
              l \<leftarrow> LIST_REMOVE e (env_free_list s6);
              Some (Inr e, s6\<lparr>env_free_list := l\<rparr>)
            }
        })"

text \<open>
  The loop of \<open>segment_alloc\<close> compares the unsigned \<open>la\<close> with \<open>la_end\<close>, which is converted
  to unsigned. \<open>None\<close> is one of its panics (or the loop running on past the top of the
  address space, which aligned bounds exclude).
\<close>

partial_function (option) segment_alloc_loop ::
  "nat \<Rightarrow> u32 \<Rightarrow> u32 \<Rightarrow> kstate \<Rightarrow> kstate option" where
  "segment_alloc_loop e la la_end s =
     (if la < la_end then
        Option.bind (page_alloc s) (\<lambda>(r, s1).
          case r of
            Inl _ \<Rightarrow> None
          | Inr p \<Rightarrow>
              Option.bind (env_pgdir (envs s1 e)) (\<lambda>d.
                Option.bind (page_insert d p la (PTE_U OR PTE_W) s1) (\<lambda>(r', s2).
                  case r' of
                    Inl _ \<Rightarrow> None
                  | Inr _ \<Rightarrow> segment_alloc_loop e (la + PGSIZE) la_end s2)))
      else Some s)"

definition segment_alloc :: "nat \<Rightarrow> u32 \<Rightarrow> u32 \<Rightarrow> kstate \<Rightarrow> kstate option" where
  "segment_alloc e va len s =
     (let la = ROUNDDOWN va PGSIZE; size = ROUNDUP len PGSIZE
      in segment_alloc_loop e la (la + size) s)"

section \<open>ELF images (inc/elf.h)\<close>

definition ELF_MAGIC :: u32 where "ELF_MAGIC = 0x464C457F"
definition ELF_PROG_LOAD :: u32 where "ELF_PROG_LOAD = 1"

record Elf =
  e_magic :: u32
  e_entry :: u32
  e_phoff :: u32
  e_phnum :: u16

record Proghdr =
  p_type :: u32
  p_offset :: u32
  p_va :: u32
  p_filesz :: u32
  p_memsz :: u32

text \<open>The fields the loaders use, at their offsets in the packed structures.\<close>

definition read_Elf :: "(u32 \<Rightarrow> u8) \<Rightarrow> Elf" where
  "read_Elf binary = \<lparr>e_magic = le32 binary 0, e_entry = le32 binary 24,
     e_phoff = le32 binary 28, e_phnum = le16 binary 44\<rparr>"

definition read_Proghdr :: "(u32 \<Rightarrow> u8) \<Rightarrow> u32 \<Rightarrow> Proghdr" where
  "read_Proghdr binary a = \<lparr>p_type = le32 binary a, p_offset = le32 binary (a + 4),
     p_va = le32 binary (a + 8), p_filesz = le32 binary (a + 16), p_memsz = le32 binary (a + 20)\<rparr>"

definition load_segment :: "nat \<Rightarrow> (u32 \<Rightarrow> u8) \<Rightarrow> u32 \<Rightarrow> kstate \<Rightarrow> kstate option" where
  "load_segment e binary a s =
     (let ph = read_Proghdr binary a in
      if p_type ph = ELF_PROG_LOAD then do {
        s1 \<leftarrow> segment_alloc e (p_va ph) (p_memsz ph) s;
        s2 \<leftarrow> vwrite_bytes (p_va ph)
                (map (\<lambda>k. binary (p_offset ph + of_nat k)) [0..<unat (p_filesz ph)]) s1;
        vwrite_bytes (p_va ph + p_filesz ph)
          (replicate (unat (p_memsz ph - p_filesz ph)) 0) s2
      }
      else Some s)"

text \<open>\<open>binary\<close> gives the byte at each offset of the image linked into the kernel.\<close>

definition load_icode :: "nat \<Rightarrow> (u32 \<Rightarrow> u8) \<Rightarrow> kstate \<Rightarrow> kstate option" where
  "load_icode e binary s =
     (let elf = read_Elf binary in
      if e_magic elf \<noteq> ELF_MAGIC then None
      else do {
        let s1 = lcr3 (env_cr3 (envs s e)) s;
        s2 \<leftarrow> iter_opt (load_segment e binary)
               (map (\<lambda>k. e_phoff elf + 32 * of_nat k) [0..<unat (e_phnum elf)]) s1;
        let s3 = lcr3 (boot_cr3 s2) s2;
        let s4 = mod_env e (\<lambda>v. v\<lparr>env_tf := (env_tf v)\<lparr>tf_eip := e_entry elf\<rparr>\<rparr>) s3;
        segment_alloc e (USTACKTOP - PGSIZE) PGSIZE s4
      })"

definition env_create :: "(u32 \<Rightarrow> u8) \<Rightarrow> kstate \<Rightarrow> kstate option" where
  "env_create binary s =
     do {
       (r, s1) \<leftarrow> env_alloc 0 s;
       case r of Inl _ \<Rightarrow> None | Inr e \<Rightarrow> load_icode e binary s1
     }"

section \<open>Destruction\<close>

text \<open>The two loops of env_free: over the entries of a page table and over the tables.\<close>

definition env_free_pte :: "nat \<Rightarrow> nat \<Rightarrow> nat \<Rightarrow> nat \<Rightarrow> kstate \<Rightarrow> kstate option" where
  "env_free_pte e pdeno pt pteno s =
     (if rd s (pt, pteno) AND PTE_P \<noteq> 0 then do {
        d \<leftarrow> env_pgdir (envs s e);
        page_remove d (PGADDR (of_nat pdeno) (of_nat pteno) 0) s
      }
      else Some s)"

definition env_free_pde :: "nat \<Rightarrow> nat \<Rightarrow> kstate \<Rightarrow> kstate option" where
  "env_free_pde e pdeno s =
     do {
       d \<leftarrow> env_pgdir (envs s e);
       if rd s (d, pdeno) AND PTE_P = 0 then Some s
       else do {
         let pa = PTE_ADDR (rd s (d, pdeno));
         kva \<leftarrow> KADDR (npage s) pa;
         s1 \<leftarrow> iter_opt (env_free_pte e pdeno (fst (kptr kva 0)))
                [0..<Suc (unat (PTX (NOT 0)))] s;
         d' \<leftarrow> env_pgdir (envs s1 e);
         let s2 = wr (d', pdeno) 0 s1;
         pp \<leftarrow> pa2page (npage s2) pa;
         page_decref (Some pp) s2
       }
     }"

definition env_free :: "nat \<Rightarrow> kstate \<Rightarrow> kstate option" where
  "env_free e s =
     do {
       let s1 = (if curenv s = Some e then lcr3 (boot_cr3 s) s else s);
       s2 \<leftarrow> iter_opt (env_free_pde e) [0..<unat (PDX UTOP)] s1;
       let pa = env_cr3 (envs s2 e);
       let s3 = mod_env e (\<lambda>v. v\<lparr>env_pgdir := None, env_cr3 := 0\<rparr>) s2;
       pp \<leftarrow> pa2page (npage s3) pa;
       s4 \<leftarrow> page_decref (Some pp) s3;
       let s5 = mod_env e (\<lambda>v. v\<lparr>env_status := ENV_FREE\<rparr>) s4;
       Some (s5\<lparr>env_free_list := LIST_INSERT_HEAD e (env_free_list s5)\<rparr>)
     }"

section \<open>Running\<close>

definition env_run :: "nat \<Rightarrow> kstate \<Rightarrow> 'r flow option" where
  "env_run e s =
     (if curenv s \<noteq> Some e then do {
        let s1 = s\<lparr>curenv := Some e\<rparr>;
        let s2 = mod_env e (\<lambda>v. v\<lparr>env_runs := env_runs v + 1\<rparr>) s1;
        Some (Run e (lcr3 (env_cr3 (envs s2 e)) s2))
      }
      else Some (Run e s))"

end
