(* ===== verification/Tlb.thy ===== *)
theory Tlb
  imports Pmap_Insert
begin

text \<open>
  What page_insert and page_remove of kern/pmap.c leave in the TLB, which stays coherent with the
  page tables, and in memory.
\<close>

unbundle bit_operations_syntax

text \<open>
  \<open>tlb_coherent s d\<close>: every cached translation of a user address is the present entry of the
  page tables of directory \<open>d\<close>. \<open>active s d\<close>: \<open>d\<close> is the directory tlb_invalidate acts on.
\<close>

definition tlb_coherent :: "kstate \<Rightarrow> nat \<Rightarrow> bool" where
  "tlb_coherent s d \<longleftrightarrow>
     (\<forall>va pte. va < UTOP \<longrightarrow> tlb s (VPN va) = Some pte \<longrightarrow> present pte \<and> leafpte s (slot d va) = pte)"

definition active :: "kstate \<Rightarrow> nat \<Rightarrow> bool" where
  "active s d \<longleftrightarrow> (\<forall>e. curenv s = Some e \<longrightarrow> env_pgdir (envs s e) = Some d)"

lemma tlb_frames [simp]:
  "tlb (wr p v s) = tlb s" "tlb (set_ref q r s) = tlb s" "tlb (page_free q s) = tlb s"
  "tlb (zero_page f s) = tlb s"
  "curenv (page_free q s) = curenv s" "envs (page_free q s) = envs s"
  "curenv (zero_page f s) = curenv s" "envs (zero_page f s) = envs s"
  by (simp_all add: wr_def set_ref_def page_free_def zero_page_def)

lemma tlb_invalidate_tlb:
  "active s d \<Longrightarrow> tlb (tlb_invalidate d va s) = (tlb s)(VPN va := None)"
  "vpn \<noteq> VPN va \<Longrightarrow> tlb (tlb_invalidate d va s) vpn = tlb s vpn"
  "tlb (tlb_invalidate d va s) vpn = Some pte \<Longrightarrow> tlb s vpn = Some pte"
  by (auto simp: tlb_invalidate_def invlpg_def active_def split: option.splits if_splits)

text \<open>
  The frame of the operations on page tables: they change memory, the page structures and the
  TLB, and nothing else.
\<close>

definition same_rest :: "kstate \<Rightarrow> kstate \<Rightarrow> bool" where
  "same_rest s s' \<longleftrightarrow> npage s' = npage s \<and> boot_pgdir s' = boot_pgdir s \<and> boot_cr3 s' = boot_cr3 s
     \<and> cr3 s' = cr3 s \<and> envs s' = envs s \<and> env_free_list s' = env_free_list s
     \<and> curenv s' = curenv s \<and> waiting_srcenv_ids s' = waiting_srcenv_ids s
     \<and> waiting_dstenv_ids s' = waiting_dstenv_ids s \<and> waiting_env_num s' = waiting_env_num s
     \<and> kbd_state s' = kbd_state s \<and> cons s' = cons s
     \<and> cons_out s' = cons_out s \<and> user_mem_check_addr s' = user_mem_check_addr s"

definition same_cpu :: "kstate \<Rightarrow> kstate \<Rightarrow> bool" where
  "same_cpu s s' \<longleftrightarrow> tlb s' = tlb s \<and> same_rest s s'"

lemma same_rest_refl [simp]: "same_rest s s"
  by (simp add: same_rest_def)

lemma same_rest_trans [trans]: "same_rest s s' \<Longrightarrow> same_rest s' s'' \<Longrightarrow> same_rest s s''"
  by (simp add: same_rest_def)

lemma same_rest_steps [simp]:
  "same_rest s (wr p v s') = same_rest s s'" "same_rest s (set_ref q r s') = same_rest s s'"
  "same_rest s (page_free q s') = same_rest s s'" "same_rest s (zero_page f s') = same_rest s s'"
  "same_rest s (tlb_invalidate d va s') = same_rest s s'"
  "same_rest s (s'\<lparr>page_free_list := l\<rparr>) = same_rest s s'"
  by (simp_all add: same_rest_def wr_def set_ref_def page_free_def zero_page_def
      tlb_invalidate_def invlpg_def split: option.split)

lemma same_cpu_fields:
  assumes "same_cpu s s'"
  shows "tlb s' = tlb s" "curenv s' = curenv s" "envs s' = envs s" "same_rest s s'"
  using assms by (simp_all add: same_cpu_def same_rest_def)

lemma same_cpu_trans [trans]: "same_cpu s s' \<Longrightarrow> same_cpu s' s'' \<Longrightarrow> same_cpu s s''"
  by (simp add: same_cpu_def same_rest_def)

lemma page_alloc_cpu: "page_alloc s = Some (r, s') \<Longrightarrow> same_cpu s s'"
  by (auto simp: page_alloc_def same_cpu_def bind_Some_iff split: option.splits)

lemma page_decref_cpu: "page_decref p s = Some s' \<Longrightarrow> same_cpu s s'"
  by (auto simp: page_decref_def same_cpu_def bind_Some_iff Let_def split: if_splits)

lemma walk_cpu:
  assumes w: "pgdir_walk d va c s = Some (r, s')"
  shows "same_cpu s s'"
proof (cases "rd s (d, unat (PDX va)) AND PTE_P = 0 \<and> c = 1")
  case False
  with w show ?thesis by (auto simp: pgdir_walk_def Let_def bind_Some_iff same_cpu_def split: if_splits)
next
  case True
  with w obtain x s1 where a: "page_alloc s = Some (x, s1)"
    by (auto simp: pgdir_walk_def Let_def bind_Some_iff)
  have "same_cpu s1 s'"
    using w True a by (cases x) (auto simp: pgdir_walk_def bind_Some_iff same_cpu_def Let_def)
  with page_alloc_cpu [OF a] show ?thesis by (rule same_cpu_trans)
qed

lemma VPN_slot:
  assumes "VPN a = VPN b"
  shows "slot d a = slot d b"
proof -
  have "PDX a = PDX b \<and> PTX a = PTX b"
  proof (intro conjI; rule bit_word_eqI)
    fix n assume "n < LENGTH(32)"
    have "bit (VPN a) (n + 10) = bit (VPN b) (n + 10)" "bit (VPN a) n = bit (VPN b) n"
      using assms by simp_all
    then show "bit (PDX a) n = bit (PDX b) n" "bit (PTX a) n = bit (PTX b) n"
      by (auto simp: VPN_def PPN_def PDX_def PTX_def shifts bit_simps add_ac)
  qed
  then show ?thesis by (simp add: slot_def)
qed

lemma slot_VPN:
  assumes "slot d a = slot d' b"
  shows "VPN a = VPN b"
proof -
  have eq: "PDX a = PDX b" "PTX a = PTX b" using assms by (simp_all add: slot_def word_unat_eq_iff)
  show ?thesis
  proof (rule bit_word_eqI)
    fix n assume n: "n < LENGTH(32)"
    show "bit (VPN a) n = bit (VPN b) n"
    proof (cases "n < 10")
      case True
      have "bit (PTX a) n = bit (PTX b) n" using eq by simp
      then show ?thesis using True by (auto simp: VPN_def PPN_def PTX_def shifts mask10 bit_simps)
    next
      case False
      have "bit (PDX a) (n - 10) = bit (PDX b) (n - 10)" using eq by simp
      then show ?thesis using False n
        by (auto simp: VPN_def PPN_def PDX_def shifts mask10 bit_simps dest: bit_imp_le_length)
    qed
  qed
qed

lemma lookup_cpu: "page_lookup d va s = Some (pp, pte, s') \<Longrightarrow> same_cpu s s'"
  by (auto simp: page_lookup_def bind_Some_iff dest!: walk_cpu split: option.splits if_splits)

text \<open>page_remove only drops entries, and the one of its address when the directory is active.\<close>

lemma remove_tlb:
  assumes "page_remove d va s = Some s'"
  shows "same_rest s s'"
    and "\<And>vpn pte. tlb s' vpn = Some pte \<Longrightarrow> tlb s vpn = Some pte"
    and "active s d \<Longrightarrow> page_lookup d va s = Some (pp, Some p, s1)
      \<Longrightarrow> tlb s' (VPN va) = None"
proof -
  from assms obtain pp pte s1 where l: "page_lookup d va s = Some (pp, pte, s1)"
    and r: "(case pte of None \<Rightarrow> Some s1 | Some p \<Rightarrow>
      Option.bind (page_decref pp s1) (\<lambda>s2. Some (tlb_invalidate d va (wr p 0 s2)))) = Some s'"
    by (auto simp: page_remove_def bind_Some_iff)
  note c1 = lookup_cpu [OF l]
  have c: "same_rest s s' \<and>
      (pte = None \<and> tlb s' = tlb s \<or> (\<exists>s3. same_cpu s s3 \<and> s' = tlb_invalidate d va s3))"
  proof (cases pte)
    case None
    with r c1 show ?thesis by (simp add: same_cpu_def)
  next
    case (Some p)
    with r obtain s2 where s2: "page_decref pp s1 = Some s2" "s' = tlb_invalidate d va (wr p 0 s2)"
      by (auto simp: bind_Some_iff)
    from same_cpu_trans [OF c1 page_decref_cpu [OF s2(1)]]
    have "same_cpu s (wr p 0 s2)" by (simp add: same_cpu_def)
    with s2(2) have "\<exists>s3. same_cpu s s3 \<and> s' = tlb_invalidate d va s3" by blast
    then show ?thesis by (auto simp: same_cpu_def)
  qed
  then show "same_rest s s'" by simp
  show "tlb s vpn = Some pt" if "tlb s' vpn = Some pt" for vpn pt
  proof -
    from c consider "tlb s' = tlb s" | s3 where "same_cpu s s3" "s' = tlb_invalidate d va s3"
      by blast
    then show ?thesis
    proof cases
      case 1
      with that show ?thesis by simp
    next
      case 2
      from tlb_invalidate_tlb(3) [of d va s3 vpn pt] 2 that show ?thesis
        by (simp add: same_cpu_def)
    qed
  qed
  show "tlb s' (VPN va) = None"
    if "active s d" "page_lookup d va s = Some (pp', Some p', s1')" for pp' p' s1'
  proof -
    have "pte \<noteq> None" using that l by simp
    with c obtain s3 where s3: "same_cpu s s3" "s' = tlb_invalidate d va s3"
      by blast
    then have "active s3 d" using that(1) by (simp add: same_cpu_def same_rest_def active_def)
    with s3(2) show ?thesis by (simp add: tlb_invalidate_tlb(1))
  qed
qed

lemma coherentI:
  assumes co: "tlb_coherent s a" and sub: "\<And>vpn pte. tlb s' vpn = Some pte \<Longrightarrow> tlb s vpn = Some pte"
    and eq: "\<And>b. b < UTOP \<Longrightarrow> slot a b \<noteq> slot d va \<Longrightarrow> leafpte s' (slot a b) = leafpte s (slot a b)"
    and gone: "d = a \<Longrightarrow> tlb s' (VPN va) = None"
  shows "tlb_coherent s' a"
  unfolding tlb_coherent_def
proof (intro allI impI)
  fix b pte
  assume b: "b < UTOP" and t: "tlb s' (VPN b) = Some pte"
  have ne: "slot a b \<noteq> slot d va"
  proof
    assume *: "slot a b = slot d va"
    then have "a = d" by (simp add: slot_def)
    with gone slot_VPN [OF *] t show False by simp
  qed
  from sub [OF t] co b have "present pte \<and> leafpte s (slot a b) = pte"
    by (simp add: tlb_coherent_def)
  with eq [OF b ne] show "present pte \<and> leafpte s' (slot a b) = pte" by simp
qed

lemma remove_coherent:
  assumes inv: "mm_inv s D K fl" and d: "d \<in> D" and a: "a \<in> D" and va: "va < UTOP"
    and p: "leafmap s (slot d va) = Some p" and act: "active s a" and co: "tlb_coherent s a"
    and r: "page_remove d va s = Some s'"
  shows "tlb_coherent s' a \<and> active s' a"
proof -
  note tl = remove_tlb [OF r]
  from remove_mapped [OF inv d va p] r
  have lp: "\<forall>y \<in> leafslots D. leafpte s' y = ((leafpte s)(slot d va := 0)) y" by auto
  obtain t where t: "ptmap s (d, unat (PDX va)) = Some t"
    using leafmap_ptmap [OF p [unfolded slot_def]] by blast
  have gone: "tlb s' (VPN va) = None" if "d = a"
    using tl(3) act that lookup_ok [OF inv d va] t by auto
  have "tlb_coherent s' a"
    by (rule coherentI [OF co tl(2) _ gone]) (use lp a slot_in(1) in auto)
  then show ?thesis using tl(1) act by (simp add: active_def same_rest_def)
qed

lemma insert_tlb:
  assumes i: "page_insert d pp va perm s = Some (Inr (), s')"
  shows "same_rest s s' \<and> (\<forall>vpn pte. tlb s' vpn = Some pte \<longrightarrow> tlb s vpn = Some pte)"
proof -
  from i obtain p s1 where w: "pgdir_walk d va 1 s = Some (Some p, s1)"
    by (auto simp: page_insert_def bind_Some_iff split: option.splits)
  note c = walk_cpu [OF w]
  consider (same) "s' = set_ref pp (pp_ref s1 pp + 1) (wr p (page2pa pp OR perm OR PTE_P) s1)"
    | (inval) s2 where "same_cpu s1 s2" "same_rest s2 s'" "tlb s' = tlb (tlb_invalidate d va s2)"
    | (remove) s2 where "page_remove d va s1 = Some s2" "same_cpu s2 s'"
  proof (cases "rd s1 p AND PTE_P \<noteq> 0")
    case False
    with i w same show thesis by (simp add: page_insert_def)
  next
    case True
    show thesis
    proof (cases "PTE_ADDR (rd s1 p) \<noteq> page2pa pp")
      case True
      with i w \<open>rd s1 p AND PTE_P \<noteq> 0\<close> obtain s2 where "page_remove d va s1 = Some s2"
        "s' = set_ref pp (pp_ref s2 pp + 1) (wr p (page2pa pp OR perm OR PTE_P) s2)"
        by (auto simp: page_insert_def bind_Some_iff)
      with remove show thesis by (simp add: same_cpu_def)
    next
      case False
      let ?s2 = "set_ref pp (pp_ref s1 pp - 1) s1"
      have "same_cpu s1 ?s2" "same_rest ?s2 s'" "tlb s' = tlb (tlb_invalidate d va ?s2)"
        using i w True False by (auto simp: page_insert_def same_cpu_def)
      then show thesis by (rule inval)
    qed
  qed
  then show ?thesis
  proof cases
    case same
    with c show ?thesis by (simp add: same_cpu_def)
  next
    case inval
    from c inval have "same_rest s s'" by (auto simp: same_cpu_def intro: same_rest_trans)
    with c inval tlb_invalidate_tlb(3) [of d va s2] show ?thesis by (auto simp: same_cpu_def)
  next
    case remove
    from c remove remove_tlb(1) [OF remove(1)] have "same_rest s s'"
      by (auto simp: same_cpu_def intro: same_rest_trans)
    with c remove remove_tlb(2) [OF remove(1)] show ?thesis by (auto simp: same_cpu_def)
  qed
qed

lemma insert_gone:
  assumes inv: "mm_inv s D K fl" and d: "d \<in> D" and va: "va < UTOP"
    and q: "leafmap s (slot d va) = Some q" and act: "active s d"
    and i: "page_insert d pp va perm s = Some (Inr (), s')"
  shows "tlb s' (VPN va) = None"
proof -
  obtain t where t: "ptmap s (d, unat (PDX va)) = Some t"
    using leafmap_ptmap [OF q [unfolded slot_def]] by blast
  let ?p = "(t, unat (PTX va))"
  note w = walk_present [OF inv d va t, of 1]
  have pres: "rd s ?p AND PTE_P \<noteq> 0"
    using q t ent_SomeD by (simp add: slot_def leafmap_table rd_def)
  show ?thesis
  proof (cases "PTE_ADDR (rd s ?p) \<noteq> page2pa pp")
    case True
    with i w pres obtain s2 where s2: "page_remove d va s = Some s2"
      "s' = set_ref pp (pp_ref s2 pp + 1) (wr ?p (page2pa pp OR perm OR PTE_P) s2)"
      by (auto simp: page_insert_def bind_Some_iff)
    have "tlb s2 (VPN va) = None"
      using remove_tlb(3) [OF s2(1) act] lookup_ok [OF inv d va] t by auto
    with s2(2) show ?thesis by simp
  next
    case False
    have "active (set_ref pp (pp_ref s pp - 1) s) d" using act by (simp add: active_def)
    with i w pres False show ?thesis by (auto simp: page_insert_def tlb_invalidate_tlb(1))
  qed
qed

lemma insert_coherent:
  assumes inv: "mm_inv s D K fl" and d: "d \<in> D" and a: "a \<in> D" and va: "va < UTOP"
    and pp: "data_page s D fl pp" and lt: "unat (pp_ref s pp) < 65535"
    and perm: "unat perm < 4096"
    and act: "active s a" and co: "tlb_coherent s a"
    and i: "page_insert d pp va perm s = Some (Inr (), s')"
  shows "tlb_coherent s' a \<and> active s' a"
proof -
  note tl = insert_tlb [OF i]
  have room: "ptmap s (d, unat (PDX va)) \<noteq> None \<or> fl \<noteq> []"
  proof (rule ccontr)
    assume "\<not> ?thesis"
    with insert_nomem [of s D K d va pp perm] inv i show False by auto
  qed
  from insert_ok [OF inv d va pp lt perm room] i
  have lp: "\<forall>y \<in> leafslots D. leafpte s' y = ((leafpte s)(slot d va := mkpte pp perm)) y" by auto
  have gone: "tlb s' (VPN va) = None" if "d = a"
  proof (cases "leafmap s (slot d va)")
    case None
    then have "\<not> present (leafpte s (slot a va))"
      using that by (auto simp: leafmap_def ent_def split: if_splits)
    then have "tlb s (VPN va) = None" using co va unfolding tlb_coherent_def by (metis option.exhaust)
    with tl show ?thesis by (metis option.distinct(1) option.exhaust)
  next
    case (Some q)
    from insert_gone [OF inv d va Some _ i] act that show ?thesis by simp
  qed
  have "tlb_coherent s' a"
    by (rule coherentI [OF co _ _ gone]) (use lp a slot_in(1) tl in auto)
  then show ?thesis using tl act by (simp add: active_def same_rest_def)
qed

section \<open>What stays in memory\<close>

text \<open>
  What page_insert and page_remove of kern/pmap.c leave alone in memory: all pages but the page
  directory, the page table of the address, and a new page table from the free list. So the
  contents of the mapped pages stay, and every directory entry keeps its permissions.
\<close>

lemma page_decref_mem: "page_decref p s = Some s' \<Longrightarrow> mem s' = mem s"
  by (auto simp: page_decref_def page_free_def set_ref_def bind_Some_iff Let_def split: if_splits)

lemma remove_mem:
  assumes "mm_inv s D K fl" and "d \<in> D" and "va < UTOP" and "page_remove d va s = Some s'"
    and "ptmap s (d, unat (PDX va)) = Some t" and "f \<noteq> t"
  shows "mem s' f = mem s f"
  using assms lookup_ok [OF assms(1-3)]
  by (auto simp: page_remove_def bind_Some_iff wr_def dest: page_decref_mem)

text \<open>The table of an address after page_insert: the one it has, or the first free page.\<close>

definition insert_pt :: "kstate \<Rightarrow> nat \<Rightarrow> u32 \<Rightarrow> nat list \<Rightarrow> nat" where
  "insert_pt s d va fl = (case ptmap s (d, unat (PDX va)) of Some t \<Rightarrow> t | None \<Rightarrow> hd fl)"

lemma insert_tail_mem:
  assumes inv: "mm_inv s1 D K fl" and d: "d \<in> D" and va: "va < UTOP"
    and t: "ptmap s1 (d, unat (PDX va)) = Some t"
    and w: "pgdir_walk d va 1 s = Some (Some (t, unat (PTX va)), s1)"
    and i: "page_insert d pp va perm s = Some (Inr (), s')" and f: "f \<noteq> t"
  shows "mem s' f = mem s1 f"
proof -
  let ?p = "(t, unat (PTX va))"
  consider "s' = set_ref pp (pp_ref s1 pp + 1) (wr ?p (page2pa pp OR perm OR PTE_P) s1)"
    | s2 where "mem s2 = mem s1" "mem s' = mem (wr ?p (page2pa pp OR perm OR PTE_P) s2)"
    | s2 where "page_remove d va s1 = Some s2" "mem s' = mem (wr ?p (page2pa pp OR perm OR PTE_P) s2)"
  proof (cases "rd s1 ?p AND PTE_P \<noteq> 0")
    case False
    then show thesis using i w that(1) by (simp add: page_insert_def)
  next
    case True
    show thesis
    proof (cases "PTE_ADDR (rd s1 ?p) \<noteq> page2pa pp")
      case True
      with \<open>rd s1 ?p AND PTE_P \<noteq> 0\<close> i w obtain s2 where "page_remove d va s1 = Some s2"
        "s' = set_ref pp (pp_ref s2 pp + 1) (wr ?p (page2pa pp OR perm OR PTE_P) s2)"
        by (auto simp: page_insert_def bind_Some_iff)
      then show thesis using that(3) [of s2] by (simp add: set_ref_def)
    next
      case False
      with True i w show thesis
        using that(2) [of "tlb_invalidate d va (set_ref pp (pp_ref s1 pp - 1) s1)"]
        by (auto simp: page_insert_def set_ref_def)
    qed
  qed
  then show ?thesis
  proof cases
    case 3
    then show ?thesis using remove_mem [OF inv d va 3(1) t f] f by (simp add: wr_def)
  qed (use f in \<open>simp_all add: wr_def set_ref_def\<close>)
qed

lemma insert_mem:
  assumes inv: "mm_inv s D K fl" and d: "d \<in> D" and va: "va < UTOP"
    and i: "page_insert d pp va perm s = Some (Inr (), s')"
  shows "f \<noteq> d \<Longrightarrow> f \<noteq> insert_pt s d va fl \<Longrightarrow> mem s' f = mem s f"
    and "j \<noteq> unat (PDX va) \<Longrightarrow> mem s' d j = mem s d j"
    and "mem s' d (unat (PDX va)) = (case ptmap s (d, unat (PDX va)) of Some _ \<Rightarrow> mem s d (unat (PDX va))
      | None \<Rightarrow> mkpte (hd fl) (PTE_U OR PTE_W))"
    and "insert_pt s d va fl \<notin> D"
proof -
  have *: "(f \<noteq> d \<longrightarrow> f \<noteq> insert_pt s d va fl \<longrightarrow> mem s' f = mem s f)
    \<and> (j \<noteq> unat (PDX va) \<longrightarrow> mem s' d j = mem s d j)
    \<and> mem s' d (unat (PDX va)) = (case ptmap s (d, unat (PDX va)) of Some _ \<Rightarrow> mem s d (unat (PDX va))
        | None \<Rightarrow> mkpte (hd fl) (PTE_U OR PTE_W))
    \<and> insert_pt s d va fl \<notin> D"
  proof (cases "ptmap s (d, unat (PDX va))")
    case (Some t)
    have "t \<notin> D" by (rule mm_inv_table(2) [OF inv slot_in(2) [OF d va] Some])
    moreover from this have "d \<noteq> t" using d by auto
    moreover note walk_present [OF inv d va Some, of 1]
    ultimately show ?thesis
      using insert_tail_mem [OF inv d va Some _ i] Some by (simp add: insert_pt_def)
  next
    case None
    have "fl \<noteq> []" using insert_nomem [of s D K d va pp perm] inv i None by auto
    then obtain t fl1 where fl: "fl = t # fl1" by (cases fl) auto
    obtain s1 where s1: "pgdir_walk d va 1 s = Some (Some (t, unat (PTX va)), s1)" "mm_inv s1 D K fl1"
      "\<forall>y \<in> ptslots D. ptmap s1 y = ((ptmap s)((d, unat (PDX va)) := Some t)) y"
      "mem s1 = (mem s)(t := (\<lambda>_. 0), d := (mem s d)(unat (PDX va) := mkpte t (PTE_U OR PTE_W)))"
      using walk_create [OF inv [unfolded fl] d va None] by blast
    have t: "ptmap s1 (d, unat (PDX va)) = Some t" using s1(3) slot_in(2) [OF d va] by simp
    have "t \<notin> D" using mm_inv_free(4) [OF inv, of t] fl by simp
    moreover from this have "d \<noteq> t" using d by auto
    ultimately show ?thesis
      using insert_tail_mem [OF s1(2) d va t s1(1) i] s1(4) None fl by (simp add: insert_pt_def)
  qed
  then show "f \<noteq> d \<Longrightarrow> f \<noteq> insert_pt s d va fl \<Longrightarrow> mem s' f = mem s f"
    "j \<noteq> unat (PDX va) \<Longrightarrow> mem s' d j = mem s d j"
    "mem s' d (unat (PDX va)) = (case ptmap s (d, unat (PDX va)) of Some _ \<Rightarrow> mem s d (unat (PDX va))
      | None \<Rightarrow> mkpte (hd fl) (PTE_U OR PTE_W))"
    "insert_pt s d va fl \<notin> D" by blast+
qed

text \<open>A page that holds no directory and no page table.\<close>

definition no_table :: "kstate \<Rightarrow> nat set \<Rightarrow> nat \<Rightarrow> bool" where
  "no_table s D f \<longleftrightarrow> f \<notin> D \<and> (\<forall>y \<in> ptslots D. ptmap s y \<noteq> Some f)"

lemma no_table_data: "mm_inv s D K fl \<Longrightarrow> data_page s D fl f \<Longrightarrow> no_table s D f"
  using mm_invD(2) by (auto simp: no_table_def data_page_def nrefs_zero)

lemma no_table_free: "mm_inv s D K fl \<Longrightarrow> f \<in> set fl \<Longrightarrow> no_table s D f"
  using mm_inv_free(4,5) by (auto simp: no_table_def)

lemma insert_ptmap:
  assumes inv: "mm_inv s D K fl" and d: "d \<in> D" and va: "va < UTOP"
    and i: "page_insert d pp va perm s = Some (Inr (), s')" and y: "y \<in> ptslots D"
  shows "ptmap s' y = (if ptmap s y = None \<and> y = (d, unat (PDX va)) then Some (hd fl) else ptmap s y)"
proof -
  obtain a j where y': "y = (a, j)" "a \<in> D" using y by (cases y) (auto simp: ptslots_def)
  note im = insert_mem [OF inv d va i]
  show ?thesis
  proof (cases "y = (d, unat (PDX va)) \<and> ptmap s y = None")
    case True
    then have "fl \<noteq> []" using insert_nomem [of s D K d va pp perm] inv i by auto
    then have "hd fl < npage s" using mm_inv_free(1) [OF inv, of "hd fl"] by simp
    then have "hd fl < 2 ^ 20" using mm_invD(4) [OF inv] by simp
    then have "ent (mkpte (hd fl) (PTE_U OR PTE_W)) = Some (hd fl)" by (rule ent_mkpte) (simp add: pte_flags)
    then show ?thesis using True im(3) by (auto simp: ptmap_def)
  next
    case False
    have "mem s' a j = mem s a j"
    proof (cases "a = d")
      case True
      then show ?thesis using False im(2,3) y' by (cases "j = unat (PDX va)") auto
    next
      case False
      then show ?thesis using im(1,4) y'(2) by metis
    qed
    then show ?thesis using False y' by (auto simp: ptmap_def)
  qed
qed

text \<open>The contents of such a page survive a mapping anywhere, unless it becomes a page table.\<close>

lemma insert_keep:
  assumes inv: "mm_inv s D K fl" and d: "d \<in> D" and va: "va < UTOP"
    and i: "page_insert d pp va perm s = Some (Inr (), s')" and f: "no_table s D f"
    and g: "f \<notin> set fl \<or> ptmap s (d, unat (PDX va)) \<noteq> None"
  shows "mem s' f = mem s f \<and> no_table s' D f"
proof
  have n: "fl \<noteq> []" if "ptmap s (d, unat (PDX va)) = None"
    using that insert_nomem [of s D K d va pp perm] inv i by auto
  show "mem s' f = mem s f"
  proof (rule insert_mem(1) [OF inv d va i])
    show "f \<noteq> d" using f d by (auto simp: no_table_def)
    show "f \<noteq> insert_pt s d va fl"
      using f g n slot_in(2) [OF d va] by (cases fl) (auto simp: insert_pt_def no_table_def split: option.splits)
  qed
  have "ptmap s' y \<noteq> Some f" if "y \<in> ptslots D" for y
    using insert_ptmap [OF inv d va i that] f g n that by (cases fl) (auto simp: no_table_def)
  then show "no_table s' D f" using f by (simp add: no_table_def)
qed

lemma remove_keep:
  assumes inv: "mm_inv s D K fl" and d: "d \<in> D" and va: "va < UTOP"
    and p: "leafmap s (slot d va) = Some p" and r: "page_remove d va s = Some s'" and f: "no_table s D f"
  shows "mem s' f = mem s f \<and> no_table s' D f"
proof -
  obtain t where t: "ptmap s (d, unat (PDX va)) = Some t"
    using leafmap_ptmap [OF p [unfolded slot_def]] by blast
  have "f \<noteq> t" using f t slot_in(2) [OF d va] by (auto simp: no_table_def)
  moreover have "\<forall>y \<in> ptslots D. ptmap s' y = ptmap s y" using remove_mapped [OF inv d va p] r by auto
  ultimately show ?thesis using remove_mem [OF inv d va r t] f by (simp add: no_table_def)
qed

lemma remove_dirs:
  assumes inv: "mm_inv s D K fl" and d: "d \<in> D" and va: "va < UTOP"
    and p: "leafmap s (slot d va) = Some p" and r: "page_remove d va s = Some s'" and a: "a \<in> D"
  shows "mem s' a = mem s a"
proof -
  obtain t where t: "ptmap s (d, unat (PDX va)) = Some t"
    using leafmap_ptmap [OF p [unfolded slot_def]] by blast
  have "t \<notin> D" by (rule mm_inv_table(2) [OF inv slot_in(2) [OF d va] t])
  then show ?thesis using remove_mem [OF inv d va r t, of a] a by auto
qed

end
