(* ===== verification/Env_Inv.thy ===== *)
theory Env_Inv
  imports Env_Model Tlb
begin

text \<open>
  Environments and memory (kern/env.c): env_free gives back every page of an address space
  and env_setup_vm builds a new one, both keeping the reference counts exact.
\<close>

unbundle bit_operations_syntax

section \<open>Page-directory entries and page directories\<close>

text \<open>Clearing the directory entry of an empty page table.\<close>

lemma mm_clear_table:
  assumes inv: "mm_inv s D K fl" and x: "(d, i) \<in> ptslots D" and t: "ptmap s (d, i) = Some t"
    and empty: "\<forall>j < NPTENTRIES. leafmap s (d, i, j) = None"
    and s': "s' = wr (d, i) 0 s"
  shows "mm_inv s' D (K(t := 1)) fl"
    and "\<And>y. y \<in> ptslots D \<Longrightarrow> ptmap s' y = ((ptmap s)((d, i) := None)) y"
    and "\<And>y. y \<in> leafslots D \<Longrightarrow> fst y \<noteq> d \<or> fst (snd y) \<noteq> i \<Longrightarrow> leafpte s' y = leafpte s y"
proof -
  note fin = mm_invD(2) [OF inv]
  note tt = mm_inv_table [OF inv x t]
  have pt: "ptmap s' y = ((ptmap s)((d, i) := None)) y" if "y \<in> ptslots D" for y
    by (cases y) (auto simp: s' ptmap_def wr_def)
  show "\<And>y. y \<in> ptslots D \<Longrightarrow> ptmap s' y = ((ptmap s)((d, i) := None)) y" by (rule pt)
  have lp: "leafpte s' y = (if fst y = d \<and> fst (snd y) = i then 0 else leafpte s y)"
    if y: "y \<in> leafslots D" for y
  proof -
    obtain d' i' j' where y': "y = (d', i', j')" by (cases y) auto
    have sl: "(d', i') \<in> ptslots D" using y y' slots_sub by blast
    have other: "mem s' t' = mem s t'" if "ptmap s (d', i') = Some t'" for t'
      using mm_inv_table(2) [OF inv sl that] x by (auto simp: s' wr_def ptslots_def)
    show ?thesis
      using pt [OF sl] other y' by (auto simp: leafpte_def split: option.splits)
  qed
  then show "leafpte s' y = leafpte s y" if "y \<in> leafslots D" "fst y \<noteq> d \<or> fst (snd y) \<noteq> i" for y
    using that by auto
  have lf: "leafmap s' y = leafmap s y" if y: "y \<in> leafslots D" for y
    using lp [OF y] y empty by (cases y) (auto simp: leafmap_def leafslots_def)
  have nl: "nrefs (leafmap s') (leafslots D) p = nrefs (leafmap s) (leafslots D) p" for p
    by (rule nrefs_cong) (rule lf)
  have np: "nrefs (ptmap s') (ptslots D) p + one_if (p = t) = nrefs (ptmap s) (ptslots D) p" for p
  proof -
    have "nrefs (ptmap s') (ptslots D) p = nrefs ((ptmap s)((d, i) := None)) (ptslots D) p"
      by (rule nrefs_cong) (rule pt)
    then show ?thesis
      using nrefs_upd [of "ptslots D" "(d, i)" "ptmap s" None p] fin x t
      by (auto simp: one_if_def split: if_splits)
  qed
  have tot: "total_refs s' D (K(t := 1)) p = total_refs s D K p" for p
    using nl np [of p] tt(3) by (simp add: total_refs_def one_if_def split: if_splits)
  have tab: "p < npage s \<and> p \<notin> D \<and> (K(t := 1)) p = 0 \<and> nrefs (ptmap s') (ptslots D) p = 1
      \<and> nrefs (leafmap s') (leafslots D) p = 0"
    if y: "y \<in> ptslots D" and p: "ptmap s' y = Some p" for y p
  proof -
    have y2: "ptmap s y = Some p" "y \<noteq> (d, i)" using pt [OF y] p by (auto split: if_splits)
    then have "p \<noteq> t" using nrefs_one [OF tt(4) x y t] by blast
    with mm_inv_table [OF inv y y2(1)] nl np [of p] show ?thesis by (simp add: one_if_def)
  qed
  have zero: "nrefs (ptmap s') (ptslots D) p = 0" if "p \<in> D" for p
    using np [of p] mm_invD(7) [OF inv that] by simp
  have f: "npage s' = npage s" "pp_ref s' = pp_ref s" "page_free_list s' = page_free_list s"
    by (simp_all add: s')
  have bnd: "\<And>y p. y \<in> leafslots D \<Longrightarrow> leafmap s' y = Some p \<Longrightarrow> p < npage s"
    using lf mm_invD(9) [OF inv] by simp
  have "t \<notin> D" by (rule tt(2))
  then show "mm_inv s' D (K(t := 1)) fl"
    unfolding mm_inv_def
    using mm_invD(1,3,5,6,8) [OF inv] fin tot f tab zero nl bnd
    by (auto simp: pages_wf_def)
qed

text \<open>A page directory without tables: its reference moves to \<open>K\<close>.\<close>

lemma nrefs_mono_None:
  assumes "X \<subseteq> Y" "finite Y" "\<And>x. x \<in> Y - X \<Longrightarrow> f x = None"
  shows "nrefs f X p = nrefs f Y p"
proof -
  have "{x \<in> X. f x = Some p} = {x \<in> Y. f x = Some p}" using assms by fastforce
  then show ?thesis by (simp add: nrefs_def)
qed

lemma mm_drop_dir:
  assumes inv: "mm_inv s D K fl" and d: "d \<in> D"
    and empty: "\<forall>i < UPDX. ptmap s (d, i) = None"
  shows "mm_inv s (D - {d}) (K(d := 1)) fl"
proof -
  note fin = mm_invD(2) [OF inv]
  have np: "nrefs (ptmap s) (ptslots (D - {d})) p = nrefs (ptmap s) (ptslots D) p" for p
    by (rule nrefs_mono_None) (use empty fin in \<open>auto simp: ptslots_def\<close>)
  have nl: "nrefs (leafmap s) (leafslots (D - {d})) p = nrefs (leafmap s) (leafslots D) p" for p
    by (rule nrefs_mono_None) (use empty fin in \<open>auto simp: leafslots_def leafmap_table\<close>)
  have Kd: "K d = 0" by (rule mm_invD(6) [OF inv d])
  have tot: "total_refs s (D - {d}) (K(d := 1)) p = total_refs s D K p" for p
    using np nl d Kd by (auto simp: total_refs_def)
  have sub: "ptslots (D - {d}) \<subseteq> ptslots D" "leafslots (D - {d}) \<subseteq> leafslots D"
    by (auto simp: ptslots_def leafslots_def)
  have tab: "p < npage s \<and> p \<notin> D \<and> (K(d := 1)) p = 0 \<and> nrefs (ptmap s) (ptslots D) p = 1
      \<and> nrefs (leafmap s) (leafslots D) p = 0"
    if "y \<in> ptslots (D - {d})" "ptmap s y = Some p" for y p
    using mm_inv_table [OF inv _ that(2)] that(1) sub d by (metis fun_upd_other subsetD)
  show ?thesis
    unfolding mm_inv_def
    using mm_invD(1,3,5,6,7,8,9) [OF inv] fin np nl tot tab sub
    by (auto simp: pages_wf_def)
qed

text \<open>The reverse: a new directory without user entries.\<close>

lemma mm_new_dir:
  assumes inv: "mm_inv s D K fl" and d: "d \<notin> D" "d < npage s" and K: "K d = 1"
    and ref: "unat (pp_ref s d) = 1"
    and mem: "\<And>f. f \<noteq> d \<Longrightarrow> mem s' f = mem s f" and z: "\<And>i. i < UPDX \<Longrightarrow> mem s' d i = 0"
    and f: "npage s' = npage s" "pp_ref s' = pp_ref s" "page_free_list s' = page_free_list s"
  shows "mm_inv s' (insert d D) (K(d := 0)) fl"
    and "\<And>y. y \<in> leafslots D \<Longrightarrow> leafpte s' y = leafpte s y"
    and "\<And>i. i < UPDX \<Longrightarrow> ptmap s' (d, i) = None"
proof -
  note fin = mm_invD(2) [OF inv]
  have dz: "nrefs (ptmap s) (ptslots D) d = 0" "nrefs (leafmap s) (leafslots D) d = 0"
    using mm_invD(5) [OF inv d(2)] K ref by (auto simp: total_refs_def split: if_splits)
  show new: "\<And>i. i < UPDX \<Longrightarrow> ptmap s' (d, i) = None" using z by (simp add: ptmap_def)
  have pt: "ptmap s' y = ptmap s y" if y0: "y \<in> ptslots D" for y
  proof -
    obtain a i where y: "y = (a, i)" "a \<in> D" using y0 by (cases y) (auto simp: ptslots_def)
    with d(1) have "a \<noteq> d" by auto
    with y mem [of a] show ?thesis by (simp add: ptmap_def)
  qed
  have lp: "leafpte s' y = leafpte s y" if y: "y \<in> leafslots D" for y
  proof -
    obtain d' i' j' where y': "y = (d', i', j')" by (cases y) auto
    have sl: "(d', i') \<in> ptslots D" using y y' slots_sub by blast
    have "t \<noteq> d" if "ptmap s (d', i') = Some t" for t
      using dz(1) fin sl that by (auto simp: nrefs_zero)
    then show ?thesis using pt [OF sl] mem y' by (auto simp: leafpte_def split: option.splits)
  qed
  show "\<And>y. y \<in> leafslots D \<Longrightarrow> leafpte s' y = leafpte s y" by (rule lp)
  have np: "nrefs (ptmap s') (ptslots (insert d D)) p = nrefs (ptmap s) (ptslots D) p" for p
  proof -
    have "nrefs (ptmap s') (ptslots D) p = nrefs (ptmap s') (ptslots (insert d D)) p"
      by (rule nrefs_mono_None) (use new fin in \<open>auto simp: ptslots_def\<close>)
    moreover have "nrefs (ptmap s') (ptslots D) p = nrefs (ptmap s) (ptslots D) p"
      by (rule nrefs_cong) (rule pt)
    ultimately show ?thesis by simp
  qed
  have nl: "nrefs (leafmap s') (leafslots (insert d D)) p = nrefs (leafmap s) (leafslots D) p" for p
  proof -
    have "nrefs (leafmap s') (leafslots D) p = nrefs (leafmap s') (leafslots (insert d D)) p"
      by (rule nrefs_mono_None) (use new fin in \<open>auto simp: leafslots_def leafmap_table\<close>)
    moreover have "nrefs (leafmap s') (leafslots D) p = nrefs (leafmap s) (leafslots D) p"
      by (rule nrefs_cong) (simp add: leafmap_def lp)
    ultimately show ?thesis by simp
  qed
  have tot: "total_refs s' (insert d D) (K(d := 0)) p = total_refs s D K p" for p
    using np nl d(1) K by (auto simp: total_refs_def)
  have old: "y \<in> ptslots D \<and> ptmap s y = Some p" if "y \<in> ptslots (insert d D)" "ptmap s' y = Some p" for y p
    using that new pt by (cases y) (auto simp: ptslots_def)
  have tab: "p < npage s \<and> p \<noteq> d \<and> p \<notin> D \<and> K p = 0
      \<and> nrefs (ptmap s) (ptslots D) p = 1 \<and> nrefs (leafmap s) (leafslots D) p = 0"
    if "y \<in> ptslots (insert d D)" "ptmap s' y = Some p" for y p
  proof -
    from old [OF that] have o: "y \<in> ptslots D" "ptmap s y = Some p" by simp_all
    have "p \<noteq> d" using dz(1) fin o by (auto simp: nrefs_zero)
    with mm_inv_table [OF inv o] show ?thesis by simp
  qed
  have bnd: "p < npage s" if y: "y \<in> leafslots (insert d D)" and p: "leafmap s' y = Some p" for y p
  proof -
    obtain d' i' j' where y': "y = (d', i', j')" by (cases y) auto
    have "d' \<noteq> d" using y y' p new by (auto simp: leafslots_def leafmap_table)
    then have "y \<in> leafslots D" using y y' by (auto simp: leafslots_def)
    with lp p mm_invD(9) [OF inv, of y p] show ?thesis by (simp add: leafmap_def)
  qed
  show "mm_inv s' (insert d D) (K(d := 0)) fl"
    unfolding mm_inv_def
    using mm_invD(1,3,5,6,7,8) [OF inv] fin f tot tab np nl dz d bnd
    by (auto simp: pages_wf_def)
qed

section \<open>env\_free\<close>

lemma PGADDR_user:
  assumes "i < UPDX" "j < 1024"
  shows "PGADDR (of_nat i) (of_nat j) 0 < UTOP"
    and "slot d (PGADDR (of_nat i) (of_nat j) 0) = (d, i, j)"
proof -
  have u: "unat (of_nat i :: u32) = i" "unat (of_nat j :: u32) = j"
    using assms by (simp_all add: UPDX_val unsigned_of_nat take_bit_nat_eq_self)
  have ix: "unat (PDX (PGADDR (of_nat i) (of_nat j) 0)) = i" "unat (PTX (PGADDR (of_nat i) (of_nat j) 0)) = j"
    using assms u by (simp_all add: addr_simps UPDX_val)
  then show "slot d (PGADDR (of_nat i) (of_nat j) 0) = (d, i, j)" by (simp add: slot_def)
  show "PGADDR (of_nat i) (of_nat j) 0 < UTOP"
  proof (rule ccontr)
    assume "\<not> ?thesis"
    then have "0xEEC00000 \<le> unat (PGADDR (of_nat i) (of_nat j) 0 :: u32)"
      by (simp add: not_less word_le_nat_alt layout)
    moreover have "unat (PDX a) = unat a div 2 ^ 22" for a
    proof -
      have "PDX a = drop_bit 22 a"
        unfolding PDX_def shifts mask10
        by (rule bit_word_eqI) (auto simp: bit_simps dest: bit_imp_le_length)
      then show ?thesis by (simp add: unat_drop_bit)
    qed
    ultimately have "955 \<le> unat (PDX (PGADDR (of_nat i) (of_nat j) 0))"
      using div_le_mono [of "0xEEC00000" _ "2 ^ 22"] by simp
    with ix assms show False by (simp add: UPDX_val)
  qed
qed

text \<open>One page table: every entry is removed, the other translations stay.\<close>

definition table_done :: "kstate \<Rightarrow> nat set \<Rightarrow> (nat \<Rightarrow> nat) \<Rightarrow> nat \<Rightarrow> nat \<Rightarrow> nat list \<Rightarrow> kstate \<Rightarrow> bool" where
  "table_done s0 D K d i js s \<longleftrightarrow>
     (\<exists>fl. mm_inv s D K fl) \<and> same_rest s0 s
   \<and> (\<forall>y \<in> ptslots D. ptmap s y = ptmap s0 y)
   \<and> (\<forall>j \<in> set js. j < NPTENTRIES \<longrightarrow> leafmap s (d, i, j) = None)
   \<and> (\<forall>y \<in> leafslots D. fst y \<noteq> d \<longrightarrow> leafpte s y = leafpte s0 y)"

lemma free_pte_step:
  assumes e: "env_pgdir (envs s0 e) = Some d" and d: "d \<in> D" and i: "i < UPDX" and j: "j < 1024"
    and t: "ptmap s0 (d, i) = Some t" and P: "table_done s0 D K d i js s"
  shows "\<exists>s'. env_free_pte e i t j s = Some s' \<and> table_done s0 D K d i (js @ [j]) s'"
proof -
  let ?va = "PGADDR (of_nat i) (of_nat j) 0"
  note va = PGADDR_user [OF i j]
  from P obtain fl where inv: "mm_inv s D K fl" by (auto simp: table_done_def)
  have sl: "(d, i) \<in> ptslots D" using d i by (simp add: ptslots_def)
  have slot: "slot d ?va = (d, i, j)" by (rule va(2))
  have t': "ptmap s (d, i) = Some t" using P sl t by (simp add: table_done_def)
  have lf: "leafmap s (d, i, j) = ent (rd s (t, j))" using t' by (simp add: leafmap_table rd_def)
  have e': "env_pgdir (envs s e) = Some d" using P e by (simp add: table_done_def same_rest_def)
  show ?thesis
  proof (cases "leafmap s (d, i, j)")
    case None
    then have "env_free_pte e i t j s = Some s" using lf ent_NoneD by (simp add: env_free_pte_def)
    with P None show ?thesis by (auto simp: table_done_def)
  next
    case (Some p)
    with slot have lp: "leafmap s (slot d ?va) = Some p" by simp
    obtain s' where s': "page_remove d ?va s = Some s'"
      "mm_inv s' D K (if unat (pp_ref s p) = 1 then p # fl else fl)"
      "\<forall>y \<in> ptslots D. ptmap s' y = ptmap s y"
      "\<forall>y \<in> leafslots D. leafpte s' y = ((leafpte s)((d, i, j) := 0)) y"
      using remove_mapped [OF inv d va(1) lp] slot by auto
    have "env_free_pte e i t j s = Some s'"
      using ent_SomeD [of "rd s (t, j)" p] lf Some e' s'(1) by (simp add: env_free_pte_def)
    moreover have "same_rest s0 s'"
      using P remove_tlb(1) [OF s'(1)] by (auto simp: table_done_def intro: same_rest_trans)
    moreover have "leafmap s' (d, i, k) = None" if "k \<in> set (js @ [j])" "k < NPTENTRIES" for k
    proof -
      have "(d, i, k) \<in> leafslots D" using d i that(2) by (simp add: leafslots_def)
      with s'(4) P that show ?thesis by (auto simp: leafmap_def table_done_def)
    qed
    ultimately show ?thesis using s' P by (auto simp: table_done_def)
  qed
qed

lemma free_table:
  assumes e: "env_pgdir (envs s0 e) = Some d" and d: "d \<in> D" and i: "i < UPDX"
    and t: "ptmap s0 (d, i) = Some t" and inv: "mm_inv s0 D K fl"
  shows "\<exists>s. iter_opt (env_free_pte e i t) [0..<1024] s0 = Some s
    \<and> table_done s0 D K d i [0..<1024] s"
proof (rule iter_opt_invariant)
  show "table_done s0 D K d i [] s0" using inv by (auto simp: table_done_def)
next
  fix js j rest s
  assume "[0..<1024] = js @ j # rest" and P: "table_done s0 D K d i js s"
  then have "j \<in> set [0..<1024]" by (metis in_set_conv_decomp)
  then have "j < 1024" by simp
  from free_pte_step [OF e d i this t P]
  show "\<exists>s'. env_free_pte e i t j s = Some s' \<and> table_done s0 D K d i (js @ [j]) s'" .
qed

text \<open>The outer loop: after the directory entries in \<open>is\<close>.\<close>

definition dirs_done :: "kstate \<Rightarrow> nat set \<Rightarrow> (nat \<Rightarrow> nat) \<Rightarrow> nat \<Rightarrow> nat list \<Rightarrow> kstate \<Rightarrow> bool" where
  "dirs_done s0 D K d is s \<longleftrightarrow>
     (\<exists>fl. mm_inv s D K fl) \<and> same_rest s0 s
   \<and> (\<forall>i \<in> set is. i < UPDX \<longrightarrow> ptmap s (d, i) = None)
   \<and> (\<forall>y \<in> leafslots D. fst y \<noteq> d \<longrightarrow> leafpte s y = leafpte s0 y)"

lemma last_PTX: "Suc (unat (PTX (- 1))) = 1024"
proof -
  have "PTX (- 1) = mask 10"
    by (rule bit_word_eqI) (auto simp: PTX_def shifts mask10 bit_simps)
  then show ?thesis by (simp add: mask_eq_exp_minus_1)
qed

lemma free_pde_step:
  assumes e: "env_pgdir (envs s0 e) = Some d" and d: "d \<in> D" and i: "i < UPDX"
    and P: "dirs_done s0 D K d is s"
  shows "\<exists>s'. env_free_pde e i s = Some s' \<and> dirs_done s0 D K d (is @ [i]) s'"
proof -
  from P obtain fl where inv: "mm_inv s D K fl" by (auto simp: dirs_done_def)
  have sl: "(d, i) \<in> ptslots D" using d i by (simp add: ptslots_def)
  have e1: "env_pgdir (envs s e) = Some d" using P e by (simp add: dirs_done_def same_rest_def)
  show ?thesis
  proof (cases "ptmap s (d, i)")
    case None
    then have "env_free_pde e i s = Some s"
      using e1 ent_NoneD [of "rd s (d, i)"] by (simp add: env_free_pde_def ptmap_rd)
    with P None show ?thesis by (auto simp: dirs_done_def)
  next
    case (Some t)
    let ?pde = "rd s (d, i)"
    have pde: "?pde AND PTE_P \<noteq> 0" "unat (PPN ?pde) = t"
      using Some ent_SomeD [of ?pde t] by (simp_all add: ptmap_rd)
    note tt = mm_inv_table [OF inv sl Some]
    obtain kva where kva: "KADDR (npage s) (PTE_ADDR ?pde) = Some kva" "kptr kva 0 = (t, unat (0::u32))"
      using KADDR_frame [OF pde(2) tt(1), of 0] by blast
    obtain s1 where s1: "iter_opt (env_free_pte e i t) [0..<1024] s = Some s1"
      and T: "table_done s D K d i [0..<1024] s1"
      using free_table [OF e1 d i Some inv] by blast
    from T obtain fl1 where inv1: "mm_inv s1 D K fl1" by (auto simp: table_done_def)
    have Some1: "ptmap s1 (d, i) = Some t" using T sl Some by (simp add: table_done_def)
    let ?s2 = "wr (d, i) 0 s1"
    have empty: "\<forall>j < NPTENTRIES. leafmap s1 (d, i, j) = None"
      using T by (simp add: table_done_def NPTENTRIES_def)
    note c = mm_clear_table [OF inv1 sl Some1 empty refl]
    have rest1: "same_rest s s1" using T by (simp add: table_done_def)
    then have np: "npage ?s2 = npage s" by (simp add: same_rest_def)
    have tn: "t < npage ?s2" using tt(1) np by simp
    obtain s3 where s3: "page_decref (Some t) ?s2 = Some s3" "mem s3 = mem ?s2"
      "\<exists>fl. mm_inv s3 D ((K(t := 1))(t := 0)) fl"
      using mm_decref [OF c(1) tn] by auto
    have K: "(K(t := 1))(t := 0) = K" using tt(3) by auto
    have "pa2page (npage ?s2) (PTE_ADDR ?pde) = Some t"
      using pde(2) tn by (simp add: pa2page_def PPN_PTE_ADDR)
    then have run: "env_free_pde e i s = Some s3"
      using e1 pde(1) kva s1 s3(1) rest1
      by (simp add: env_free_pde_def last_PTX same_rest_def del: One_nat_def upt_Suc)
    have "same_rest s ?s2" using rest1 by simp
    also have "same_rest ?s2 s3" by (rule same_cpu_fields(4) [OF page_decref_cpu [OF s3(1)]])
    finally have "same_rest s s3" .
    then have rest3: "same_rest s0 s3" using P by (auto simp: dirs_done_def intro: same_rest_trans)
    have pt3: "ptmap s3 (d, k) = (if k = i then None else ptmap s1 (d, k))" if "k < UPDX" for k
      using maps_cong [OF s3(2)] c(2) [of "(d, k)"] that d by (simp add: ptslots_def)
    have keep: "ptmap s1 (d, k) = ptmap s (d, k)" if "k < UPDX" for k
      using T that d by (simp add: table_done_def ptslots_def)
    have none: "ptmap s3 (d, k) = None" if "k \<in> set (is @ [i])" "k < UPDX" for k
      using pt3 [OF that(2)] keep [OF that(2)] that(1) P that(2) by (auto simp: dirs_done_def)
    have others: "leafpte s3 y = leafpte s0 y" if "y \<in> leafslots D" "fst y \<noteq> d" for y
      using maps_cong(2) [OF s3(2)] c(3) [OF that(1)] T P that
      by (simp add: table_done_def dirs_done_def)
    from s3(3) K have "\<exists>fl. mm_inv s3 D K fl" by simp
    with run rest3 none others show ?thesis by (auto simp: dirs_done_def)
  qed
qed

lemma free_dirs:
  assumes e: "env_pgdir (envs s0 e) = Some d" and d: "d \<in> D" and inv: "mm_inv s0 D K fl"
  shows "\<exists>s. iter_opt (env_free_pde e) [0..<UPDX] s0 = Some s
    \<and> dirs_done s0 D K d [0..<UPDX] s"
proof (rule iter_opt_invariant)
  show "dirs_done s0 D K d [] s0" using inv by (auto simp: dirs_done_def)
next
  fix "is" i rest s
  assume "[0..<UPDX] = is @ i # rest" and P: "dirs_done s0 D K d is s"
  then have "i \<in> set [0..<UPDX]" by (metis in_set_conv_decomp)
  then have "i < UPDX" by simp
  from free_pde_step [OF e d this P]
  show "\<exists>s'. env_free_pde e i s = Some s' \<and> dirs_done s0 D K d (is @ [i]) s'" .
qed

lemma lcr3_fields [simp]:
  "mem (lcr3 v s) = mem s" "pp_ref (lcr3 v s) = pp_ref s" "npage (lcr3 v s) = npage s"
  "page_free_list (lcr3 v s) = page_free_list s" "envs (lcr3 v s) = envs s"
  "env_free_list (lcr3 v s) = env_free_list s" "curenv (lcr3 v s) = curenv s"
  by (simp_all add: lcr3_def)

lemma mod_env_fields [simp]:
  "mem (mod_env e f s) = mem s" "pp_ref (mod_env e f s) = pp_ref s"
  "npage (mod_env e f s) = npage s" "page_free_list (mod_env e f s) = page_free_list s"
  "envs (mod_env e f s) = (envs s)(e := f (envs s e))"
  "env_free_list (mod_env e f s) = env_free_list s" "curenv (mod_env e f s) = curenv s"
  "boot_pgdir (mod_env e f s) = boot_pgdir s" "boot_cr3 (mod_env e f s) = boot_cr3 s"
  by (simp_all add: mod_env_def set_env_def)

lemma env_free_ok:
  assumes inv: "mm_inv s D K fl" and d: "d \<in> D" and e: "env_pgdir (envs s e) = Some d"
    and c: "env_cr3 (envs s e) = page2pa d"
  shows "\<exists>s' fl'. env_free e s = Some s' \<and> mm_inv s' (D - {d}) K fl' \<and> d \<in> set fl'
    \<and> (\<forall>y \<in> leafslots (D - {d}). leafpte s' y = leafpte s y)
    \<and> envs s' = (envs s)(e := (envs s e)\<lparr>env_pgdir := None, env_cr3 := 0, env_status := ENV_FREE\<rparr>)
    \<and> env_free_list s' = LIST_INSERT_HEAD e (env_free_list s) \<and> curenv s' = curenv s"
proof -
  let ?s1 = "if curenv s = Some e then lcr3 (boot_cr3 s) s else s"
  have f1: "mem ?s1 = mem s" "pp_ref ?s1 = pp_ref s" "npage ?s1 = npage s"
      "page_free_list ?s1 = page_free_list s" "envs ?s1 = envs s"
      "env_free_list ?s1 = env_free_list s" "curenv ?s1 = curenv s" by simp_all
  have inv1: "mm_inv ?s1 D K fl" using mm_inv_cong [OF f1(1-4)] inv by blast
  have e1: "env_pgdir (envs ?s1 e) = Some d" using e f1(5) by simp
  obtain s2 where s2: "iter_opt (env_free_pde e) [0..<UPDX] ?s1 = Some s2"
    and P: "dirs_done ?s1 D K d [0..<UPDX] s2"
    using free_dirs [OF e1 d inv1] by blast
  from P obtain fl2 where inv2: "mm_inv s2 D K fl2" by (auto simp: dirs_done_def)
  have none: "\<forall>i < UPDX. ptmap s2 (d, i) = None" using P by (simp add: dirs_done_def)
  have r2: "envs s2 = envs s" "npage s2 = npage s" "env_free_list s2 = env_free_list s"
      "curenv s2 = curenv s"
    using P f1 by (simp_all add: dirs_done_def same_rest_def)
  let ?s3 = "mod_env e (\<lambda>v. v\<lparr>env_pgdir := None, env_cr3 := 0\<rparr>) s2"
  have f3: "mem ?s3 = mem s2" "pp_ref ?s3 = pp_ref s2" "npage ?s3 = npage s2"
      "page_free_list ?s3 = page_free_list s2" by simp_all
  have dn: "d < npage s" "d < 2 ^ 20" using mm_invD(3,4) [OF inv] d by auto
  have K0: "K d = 0" by (rule mm_invD(6) [OF inv d])
  have inv3: "mm_inv ?s3 (D - {d}) (K(d := 1)) fl2"
    using mm_inv_cong [OF f3] mm_drop_dir [OF inv2 d none] by simp
  have ref: "unat (pp_ref ?s3 d) = 1"
    using mm_invD(5) [OF inv2, of d] mm_invD(6,7,8) [OF inv2 d] dn d r2 by (simp add: total_refs_def)
  obtain s4 where s4: "page_decref (Some d) ?s3 = Some s4" "mem s4 = mem ?s3"
    "mm_inv s4 (D - {d}) K (d # fl2)"
    using mm_decref [OF inv3, of d] dn r2 ref K0 by (auto simp: fun_upd_idem)
  have r4: "same_rest ?s3 s4" by (rule same_cpu_fields(4) [OF page_decref_cpu [OF s4(1)]])
  let ?s5 = "mod_env e (\<lambda>v. v\<lparr>env_status := ENV_FREE\<rparr>) s4"
  let ?s6 = "?s5\<lparr>env_free_list := LIST_INSERT_HEAD e (env_free_list ?s5)\<rparr>"
  have UP: "unat (PDX UTOP) = UPDX" by (simp add: UPDX_def)
  have "pa2page (npage ?s3) (env_cr3 (envs s2 e)) = Some d"
    using c r2 dn mm_invD(4) [OF inv] by (simp add: pa2page_page2pa)
  then have run: "env_free e s = Some ?s6"
    unfolding env_free_def Let_def UP s2 by (simp add: s4(1))
  have f6: "mem ?s6 = mem s4" "pp_ref ?s6 = pp_ref s4" "npage ?s6 = npage s4"
      "page_free_list ?s6 = page_free_list s4" by simp_all
  have "mm_inv ?s6 (D - {d}) K (d # fl2)" using mm_inv_cong [OF f6] s4(3) by simp
  moreover have "leafpte ?s6 y = leafpte s y" if y: "y \<in> leafslots (D - {d})" for y
  proof -
    have y2: "y \<in> leafslots D" "fst y \<noteq> d" using y by (auto simp: leafslots_def)
    have m6: "mem ?s6 = mem s2" using s4(2) by simp
    have "leafpte ?s6 y = leafpte s2 y" using maps_cong(2) [OF m6] by simp
    also have "\<dots> = leafpte ?s1 y" using P y2 by (simp add: dirs_done_def)
    also have "\<dots> = leafpte s y" using maps_cong(2) [OF f1(1)] by simp
    finally show ?thesis .
  qed
  ultimately show ?thesis
    using run r4 r2 by (intro exI [of _ ?s6] exI [of _ "d # fl2"]) (auto simp: same_rest_def)
qed

end
