(* ===== verification/Env_Alloc.thy ===== *)
theory Env_Alloc
  imports Env_Inv
begin

text \<open>
  Environment ids and env_alloc (kern/env.c): the id that env_alloc generates for a slot is
  positive, names the slot, and differs from the id the slot had before, so that stale ids are
  refused by envid2env; env_setup_vm makes an address space that is empty below UTOP and equal
  to the kernel's above, and env_alloc the environment that gets it.
\<close>

unbundle bit_operations_syntax

lemma NENV_mask: "(of_nat NENV - 1 :: u32) = mask 10"
  by (simp add: layout mask_eq_exp_minus_1)

lemma next_gen_mask: "(old + 4096 :: u32) AND mask 10 = old AND mask 10"
proof -
  have "unat (take_bit 10 (old + 4096)) = (unat old + 4096) mod 2 ^ 32 mod 2 ^ 10"
    by (simp add: unsigned_take_bit_eq take_bit_eq_mod unat_word_ariths)
  also have "\<dots> = (unat old + 4096) mod 2 ^ 10" by (rule mod_mod_cancel) simp
  also have "\<dots> = unat old mod 2 ^ 10"
    using mod_mult_self1 [of "unat old" 4 "2 ^ 10"] by simp
  also have "\<dots> = unat (take_bit 10 old)" by (simp add: unsigned_take_bit_eq take_bit_nat_def)
  finally show ?thesis by (simp add: take_bit_eq_mask word_unat_eq_iff)
qed

lemma bit_env_index:
  assumes "e < NENV" "10 \<le> n"
  shows "\<not> bit (of_nat e :: u32) n"
  using bit_of_small [of "of_nat e" 10 n] assms
  by (simp add: layout unsigned_of_nat take_bit_nat_eq_self)

definition generation :: "u32 \<Rightarrow> u32" where
  "generation old = (let g = (old + 4096) AND NOT (mask 10) in if sint g \<le> 0 then 4096 else g)"

lemma next_env_id_gen: "next_env_id old e = generation old OR of_nat e"
proof -
  have "(push_bit ENVGENSHIFT 1 :: u32) = 4096" by (simp add: ENVGENSHIFT_def)
  then show ?thesis unfolding next_env_id_def generation_def NENV_mask by (simp add: Let_def)
qed

lemma generation_pos: "0 < sint (generation old)"
  by (simp add: generation_def Let_def)

lemma generation_bits: "n < 10 \<Longrightarrow> \<not> bit (generation old) n"
proof -
  assume n: "n < 10"
  have "(4096 :: u32) = push_bit 12 1" by simp
  then have "\<not> bit (4096 :: u32) n" using n by (simp only: bit_simps) simp
  with n show ?thesis by (simp add: generation_def Let_def bit_simps)
qed

lemma sint_pos_iff: "0 < sint (w :: u32) \<longleftrightarrow> \<not> bit w 31 \<and> w \<noteq> 0"
proof -
  have "bit w 31 \<longleftrightarrow> sint w < 0" using bit_last_iff [of w] by simp
  moreover have "sint w = 0 \<longleftrightarrow> w = 0" by (rule signed_eq_0_iff)
  ultimately show ?thesis by linarith
qed

lemma next_env_id_pos:
  assumes "e < NENV"
  shows "0 < sint (next_env_id old e)"
proof -
  have "\<not> bit (generation old) 31" "generation old \<noteq> 0"
    using generation_pos [of old] by (simp_all add: sint_pos_iff)
  moreover have "\<not> bit (of_nat e :: u32) 31" by (rule bit_env_index [OF assms]) simp
  ultimately show ?thesis
    unfolding sint_pos_iff next_env_id_gen by (simp add: bit_simps or_eq_0_iff)
qed

lemma ENVX_next_env_id:
  assumes "e < NENV"
  shows "ENVX (next_env_id old e) = e"
proof -
  have "(generation old OR of_nat e) AND mask 10 = (of_nat e :: u32)"
  proof (rule bit_word_eqI)
    fix n assume "n < LENGTH(32)"
    then show "bit ((generation old OR of_nat e) AND mask 10) n = bit (of_nat e :: u32) n"
      using generation_bits [of n old] bit_env_index [OF assms, of n]
      by (cases "n < 10") (simp_all only: bit_and_iff bit_or_iff bit_mask_iff possible_bit_word, simp_all)
  qed
  then have "ENVX (next_env_id old e) = unat (of_nat e :: u32)"
    unfolding ENVX_def NENV_mask next_env_id_gen by simp
  then show ?thesis using assms by (simp add: layout unsigned_of_nat take_bit_nat_eq_self)
qed

lemma next_env_id_fresh:
  assumes "e < NENV"
  shows "next_env_id old e \<noteq> old"
proof
  assume eq: "next_env_id old e = old"
  have hi: "(generation old OR of_nat e) AND NOT (mask 10) = generation old"
  proof (rule bit_word_eqI)
    fix n assume "n < LENGTH(32)"
    then show "bit ((generation old OR of_nat e) AND NOT (mask 10)) n = bit (generation old) n"
      using generation_bits [of n old] bit_env_index [OF assms, of n]
      by (cases "n < 10")
        (simp_all only: bit_and_iff bit_or_iff bit_not_iff bit_mask_iff possible_bit_word, simp_all)
  qed
  then have g: "generation old = old - (old AND mask 10)"
    using eq and_not_mask [of old] by (simp add: next_env_id_gen)
  have n: "(old + 4096) AND NOT (mask 10) = old + 4096 - (old AND mask 10)"
    unfolding and_not_mask next_gen_mask by simp
  show False
  proof (cases "sint ((old + 4096) AND NOT (mask 10)) \<le> 0")
    case False
    then have "generation old = old + 4096 - (old AND mask 10)" by (simp add: generation_def n)
    with g have "old - (old AND mask 10) = 4096 + (old - (old AND mask 10))"
      by (simp add: algebra_simps)
    then have "(4096 :: u32) = 0" by (metis add_cancel_left_left)
    then show False by simp
  next
    case True
    then have "generation old = 4096" by (simp add: generation_def)
    with g have "old - (old AND mask 10) = 4096" by simp
    then have "old + 4096 - (old AND mask 10) = 8192" by (simp add: algebra_simps)
    with True n show False by simp
  qed
qed

lemma VPT_index: "unat (PDX VPT) = 959" "unat (PDX UVPT) = 957"
  by (simp_all add: PDX_def shifts layout)

lemma setup_ok:
  assumes inv: "mm_inv s D K (p # fl)"
  shows "\<exists>s'. env_setup_vm e s = Some (Inr (), s') \<and> mm_inv s' (insert p D) K fl
    \<and> envs s' = (envs s)(e := (envs s e)\<lparr>env_pgdir := Some p, env_cr3 := page2pa p\<rparr>)
    \<and> env_free_list s' = env_free_list s \<and> curenv s' = curenv s
    \<and> (\<forall>y \<in> leafslots D. leafpte s' y = leafpte s y)
    \<and> (\<forall>i < UPDX. ptmap s' (p, i) = None)
    \<and> (\<forall>i. UPDX \<le> i \<longrightarrow> i \<noteq> unat (PDX VPT) \<longrightarrow> i \<noteq> unat (PDX UVPT) \<longrightarrow>
         mem s' p i = mem s (boot_pgdir s) i)
    \<and> mem s' p (unat (PDX VPT)) = page2pa p OR PTE_P OR PTE_W
    \<and> mem s' p (unat (PDX UVPT)) = page2pa p OR PTE_P OR PTE_U
    \<and> (\<forall>f. f \<noteq> p \<longrightarrow> mem s' f = mem s f) \<and> pp_ref s' = (pp_ref s)(p := 1) \<and> cr3 s' = cr3 s"
proof -
  obtain l where l: "page_alloc s = Some (Inr p, s\<lparr>page_free_list := l\<rparr>)"
    and inv1: "mm_inv (s\<lparr>page_free_list := l\<rparr>) D K fl"
    using mm_alloc [OF inv] by blast
  let ?s1 = "s\<lparr>page_free_list := l\<rparr>"
  note fr = mm_inv_free [OF inv, of p, simplified]
  note fin = mm_invD(2) [OF inv]
  have "distinct (p # fl)"
    using mm_invD(1) [OF inv] tailq.repr_distinct unfolding pages_wf_def by blast
  then have dp: "data_page ?s1 D fl p" using fr fin by (auto simp: data_page_def nrefs_zero)
  let ?r = "set_ref p 1 ?s1"
  have inv2: "mm_inv ?r D (K(p := 1)) fl" using mm_incref [OF inv1 dp] fr by simp
  have np20: "npage s \<le> 2 ^ 20" using mm_invD(4) [OF inv] .
  obtain kva where kva: "page2kva (npage s) p = Some kva" "kptr kva 0 = (p, unat (0::u32))"
    using page2kva_ok [OF fr(1) np20] by blast
  let ?m = "(mem s)(p := (\<lambda>i. if i < UPDX then 0 else mem s (boot_pgdir s) i))"
  let ?s2 = "mod_env e (\<lambda>v. v\<lparr>env_pgdir := Some p, env_cr3 := page2pa p\<rparr>) ?s1"
  let ?s5 = "set_ref p 1 (?s2\<lparr>mem := ?m\<rparr>)"
  let ?s6 = "wr (p, unat (PDX VPT)) (page2pa p OR PTE_P OR PTE_W) ?s5"
  let ?s7 = "wr (p, unat (PDX UVPT)) (page2pa p OR PTE_P OR PTE_U) ?s6"
  have UP: "unat (PDX UTOP) = UPDX" by (simp add: UPDX_def)
  have run: "env_setup_vm e s = Some (Inr (), ?s7)"
    using l kva fr(2) by (simp add: env_setup_vm_def UP Let_def cong: if_cong)
  have m7: "mem ?s7 f = mem ?r f" if "f \<noteq> p" for f
    using that by (simp add: wr_def set_ref_def)
  have z7: "mem ?s7 p i = 0" if "i < UPDX" for i
    using that by (simp add: wr_def set_ref_def VPT_index UPDX_val)
  have f7: "npage ?s7 = npage ?r" "pp_ref ?s7 = pp_ref ?r" "page_free_list ?s7 = page_free_list ?r"
    by simp_all
  have kr: "(K(p := 1)) p = 1" "unat (pp_ref ?r p) = 1" "p < npage ?r" using fr by simp_all
  have Kp: "(K(p := 1))(p := 0) = K" using fr(3) by auto
  note new = mm_new_dir [OF inv2 fr(4) kr(3,1,2) m7 z7 f7]
  have "mm_inv ?s7 (insert p D) K fl" by (rule new(1) [unfolded Kp])
  moreover have "\<forall>y \<in> leafslots D. leafpte ?s7 y = leafpte s y" using new(2) by simp
  moreover have "\<forall>i < UPDX. ptmap ?s7 (p, i) = None" using new(3) by simp
  ultimately show ?thesis
    using run by (intro exI [of _ ?s7]) (simp add: wr_def set_ref_def VPT_index UPDX_val mod_env_def set_env_def)
qed

text \<open>The environment env_alloc builds in slot \<open>e\<close> with page directory \<open>p\<close>.\<close>

definition new_env :: "nat \<Rightarrow> nat \<Rightarrow> u32 \<Rightarrow> Env \<Rightarrow> Env" where
  "new_env e p parent_id v = v\<lparr>env_pgdir := Some p, env_cr3 := page2pa p,
     env_id := next_env_id (env_id v) e, env_parent_id := parent_id,
     env_status := ENV_RUNNABLE, env_runs := 0,
     env_tf := Trapframe_zero\<lparr>tf_ds := GD_UD OR 3, tf_es := GD_UD OR 3, tf_ss := GD_UD OR 3,
       tf_esp := USTACKTOP, tf_cs := GD_UT OR 3,
       tf_eflags := (if e = 1 then FL_IF OR FL_IOPL_3 else FL_IF)\<rparr>,
     env_priority := PRIORITY_DEFAULT, env_ipc_sended := 0, env_pgfault_upcall := 0,
     env_ipc_recving := False\<rparr>"

lemma fun_upd_eqI: "v = w \<Longrightarrow> f(x := v) = f(x := w)"
  by simp

lemma alloc_ok:
  assumes inv: "mm_inv s D K (p # fl)" and efl: "is_list (env_free_list s) (e # es)"
  shows "\<exists>s'. env_alloc parent s = Some (Inr e, s') \<and> mm_inv s' (insert p D) K fl
    \<and> envs s' = (envs s)(e := new_env e p parent (envs s e))
    \<and> is_list (env_free_list s') es \<and> curenv s' = curenv s
    \<and> (\<forall>y \<in> leafslots D. leafpte s' y = leafpte s y)
    \<and> (\<forall>i < UPDX. ptmap s' (p, i) = None)
    \<and> (\<forall>i. UPDX \<le> i \<longrightarrow> i \<noteq> unat (PDX VPT) \<longrightarrow> i \<noteq> unat (PDX UVPT) \<longrightarrow>
         mem s' p i = mem s (boot_pgdir s) i)
    \<and> (\<forall>f. f \<noteq> p \<longrightarrow> mem s' f = mem s f) \<and> pp_ref s' = (pp_ref s)(p := 1) \<and> cr3 s' = cr3 s"
proof -
  have first: "LIST_FIRST (env_free_list s) = Some e" using efl by (simp add: tailq.repr_first)
  obtain s1 where s1: "env_setup_vm e s = Some (Inr (), s1)" "mm_inv s1 (insert p D) K fl"
    "envs s1 = (envs s)(e := (envs s e)\<lparr>env_pgdir := Some p, env_cr3 := page2pa p\<rparr>)"
    "env_free_list s1 = env_free_list s" "curenv s1 = curenv s"
    "\<forall>y \<in> leafslots D. leafpte s1 y = leafpte s y"
    "\<forall>i < UPDX. ptmap s1 (p, i) = None"
    "\<forall>i. UPDX \<le> i \<longrightarrow> i \<noteq> unat (PDX VPT) \<longrightarrow> i \<noteq> unat (PDX UVPT) \<longrightarrow>
       mem s1 p i = mem s (boot_pgdir s) i"
    "\<forall>f. f \<noteq> p \<longrightarrow> mem s1 f = mem s f" "pp_ref s1 = (pp_ref s)(p := 1)" "cr3 s1 = cr3 s"
    using setup_ok [OF inv, of e] by blast
  obtain l where l: "LIST_REMOVE e (env_free_list s) = Some l" "is_list l es"
    using tailq.pop [OF efl first] by auto
  let ?s' = "s1\<lparr>envs := (envs s)(e := new_env e p parent (envs s e)), env_free_list := l\<rparr>"
  have fl: "Trapframe_zero\<lparr>tf_ds := a, tf_es := b, tf_ss := c, tf_esp := x, tf_cs := y,
      tf_eflags := 0 OR z\<rparr> = Trapframe_zero\<lparr>tf_ds := a, tf_es := b, tf_ss := c, tf_esp := x,
      tf_cs := y, tf_eflags := z\<rparr>" for a b c x y z by simp
  have run: "env_alloc parent s = Some (Inr e, ?s')"
    using first s1(1,3,4) l(1)
    by (cases "e = 1") (auto simp: env_alloc_def mod_env_def set_env_def new_env_def Let_def
        Trapframe_zero_def cong: if_cong intro!: kstate.equality fun_upd_eqI Env.equality)
  have f: "mem ?s' = mem s1" "pp_ref ?s' = pp_ref s1" "npage ?s' = npage s1"
    "page_free_list ?s' = page_free_list s1" by simp_all
  have inv': "mm_inv ?s' (insert p D) K fl" using mm_inv_cong [OF f] s1(2) by simp
  show ?thesis
    using run inv' l(2) s1(5-11) maps_cong [OF f(1)] by (intro exI [of _ ?s']) simp
qed

lemma alloc_no_env:
  "is_list (env_free_list s) [] \<Longrightarrow> env_alloc parent s = Some (Inl E_NO_FREE_ENV, s)"
  by (simp add: env_alloc_def tailq.repr_first)

lemma alloc_no_mem:
  assumes "mm_inv s D K []" and "is_list (env_free_list s) (e # es)"
  shows "env_alloc parent s = Some (Inl E_NO_MEM, s)"
proof -
  have "is_list (page_free_list s) []" using assms(1) by (simp add: mm_inv_def pages_wf_def)
  with assms(2) show ?thesis
    by (simp add: env_alloc_def tailq.repr_first env_setup_vm_def page_alloc_empty)
qed

end
