(* ===== verification/Sched.thy ===== *)
theory Sched
  imports Env_Model
begin

text \<open>
  kern/sched.c: the choice of the environment to run. The specification orders environments
  by a key (priority, then fewer messages sent) that is made a linear order; the loop of
  sched_yield is shown to pick the first environment in circular order among those with the
  greatest key. The functions that end in sched_yield follow: env_destroy of kern/env.c and
  user_mem_assert of kern/pmap.c.
\<close>

unbundle bit_operations_syntax

section \<open>The code\<close>

text \<open>One round of the loop; the accumulator is \<open>envidx\<close>, \<open>max_priority\<close>, \<open>min_ipc_sended\<close>.\<close>

definition sched_step ::
  "kstate \<Rightarrow> nat \<Rightarrow> nat option \<times> u32 \<times> u32 \<Rightarrow> nat option \<times> u32 \<times> u32" where
  "sched_step s i acc =
     (case acc of (envidx, max_priority, min_ipc_sended) \<Rightarrow>
        let v = envs s (i mod NENV) in
        if i mod NENV \<noteq> 0 \<and> env_status v = ENV_RUNNABLE then
          if env_priority v > max_priority
             \<or> (env_priority v = max_priority \<and> env_ipc_sended v < min_ipc_sended)
          then (Some (i mod NENV), env_priority v, env_ipc_sended v)
          else acc
        else acc)"

definition sched_start :: "kstate \<Rightarrow> nat" where
  "sched_start s = (case curenv s of None \<Rightarrow> 0 | Some c \<Rightarrow> ENVX (env_id (envs s c)))"

definition sched_pick :: "kstate \<Rightarrow> nat option" where
  "sched_pick s =
     fst (fold (sched_step s) [sched_start s + 1..<sched_start s + NENV + 1]
            (None, 0, 0xFFFFFFFF))"

definition sched_yield :: "kstate \<Rightarrow> 'r flow option" where
  "sched_yield s =
     (case sched_pick s of
        Some e \<Rightarrow> env_run e s
      | None \<Rightarrow>
          if env_status (envs s 0) = ENV_RUNNABLE then env_run 0 s
          else Some (Monitor s))"

definition env_destroy :: "nat \<Rightarrow> kstate \<Rightarrow> unit flow option" where
  "env_destroy e s =
     do {
       s1 \<leftarrow> env_free e s;
       if curenv s1 = Some e then sched_yield (s1\<lparr>curenv := None\<rparr>)
       else Some (Ret () s1)
     }"

definition user_mem_assert :: "nat \<Rightarrow> u32 \<Rightarrow> u32 \<Rightarrow> u32 \<Rightarrow> kstate \<Rightarrow> unit flow option" where
  "user_mem_assert e va len perm s =
     do {
       (r, s1) \<leftarrow> user_mem_check e va len (perm OR PTE_U) s;
       case r of
         Inl _ \<Rightarrow> env_destroy e s1
       | Inr _ \<Rightarrow> Some (Ret () s1)
     }"

section \<open>The order on environments\<close>

datatype sched_key = Key (key_prio: u32) (key_sended: u32)

instantiation sched_key :: linorder
begin

definition less_sched_key :: "sched_key \<Rightarrow> sched_key \<Rightarrow> bool" where
  "less_sched_key a b \<longleftrightarrow> key_prio a < key_prio b
     \<or> (key_prio a = key_prio b \<and> key_sended b < key_sended a)"

definition less_eq_sched_key :: "sched_key \<Rightarrow> sched_key \<Rightarrow> bool" where
  "less_eq_sched_key a b \<longleftrightarrow> a = b \<or> less a (b :: sched_key)"

instance
proof
  fix x y z :: sched_key
  show "(x < y) = (x \<le> y \<and> \<not> y \<le> x)"
    by (auto simp: less_sched_key_def less_eq_sched_key_def)
  show "x \<le> x" by (simp add: less_eq_sched_key_def)
  show "x \<le> y \<Longrightarrow> y \<le> z \<Longrightarrow> x \<le> z"
    by (auto simp: less_sched_key_def less_eq_sched_key_def)
  show "x \<le> y \<Longrightarrow> y \<le> x \<Longrightarrow> x = y"
    by (auto simp: less_sched_key_def less_eq_sched_key_def)
  show "x \<le> y \<or> y \<le> x"
    by (cases x; cases y) (auto simp: less_sched_key_def less_eq_sched_key_def)
qed

end

definition env_key :: "Env \<Rightarrow> sched_key" where
  "env_key v = Key (env_priority v) (env_ipc_sended v)"

definition key_bottom :: sched_key where
  "key_bottom = Key 0 0xFFFFFFFF"

text \<open>What the loop considers.\<close>

definition candidate :: "kstate \<Rightarrow> nat \<Rightarrow> bool" where
  "candidate s e \<longleftrightarrow> e \<noteq> 0 \<and> env_status (envs s e) = ENV_RUNNABLE \<and> key_bottom < env_key (envs s e)"

text \<open>The first element of a list with the greatest key.\<close>

fun first_best :: "('a \<Rightarrow> 'k::linorder) \<Rightarrow> 'a list \<Rightarrow> 'a option" where
  "first_best k [] = None"
| "first_best k (x # xs) =
     (case first_best k xs of
        None \<Rightarrow> Some x
      | Some y \<Rightarrow> if k y \<le> k x then Some x else Some y)"

lemma first_best_None: "first_best k xs = None \<longleftrightarrow> xs = []"
  by (cases xs) (auto split: option.splits)

lemma first_best_Some:
  "first_best k xs = Some x \<Longrightarrow>
     \<exists>ys zs. xs = ys @ x # zs \<and> (\<forall>y \<in> set ys. k y < k x) \<and> (\<forall>z \<in> set zs. k z \<le> k x)"
proof (induction xs arbitrary: x)
  case Nil
  then show ?case by simp
next
  case (Cons a xs)
  show ?case
  proof (cases "first_best k xs")
    case None
    with Cons.prems have "x = a" "xs = []" by (auto simp: first_best_None)
    then show ?thesis by (intro exI [of _ "[]"]) simp
  next
    case (Some y)
    from Cons.IH [OF this] obtain ys zs where xs: "xs = ys @ y # zs"
      "\<forall>u \<in> set ys. k u < k y" "\<forall>z \<in> set zs. k z \<le> k y" by blast
    show ?thesis
    proof (cases "k y \<le> k a")
      case True
      with Cons.prems Some xs have "x = a" by simp
      moreover have "\<forall>z \<in> set xs. k z \<le> k a" using xs True by force
      ultimately show ?thesis by (intro exI [of _ "[]"] exI [of _ xs]) simp
    next
      case False
      with Cons.prems Some have "x = y" by simp
      with xs False show ?thesis by (intro exI [of _ "a # ys"] exI [of _ zs]) auto
    qed
  qed
qed

section \<open>The loop picks the first best candidate\<close>

text \<open>The environments in the order of the loop.\<close>

definition sched_order :: "kstate \<Rightarrow> nat list" where
  "sched_order s = map (\<lambda>i. i mod NENV) [sched_start s + 1..<sched_start s + NENV + 1]"

definition acc_key :: "nat option \<times> u32 \<times> u32 \<Rightarrow> sched_key" where
  "acc_key acc = (case acc of (_, p, m) \<Rightarrow> Key p m)"

lemma sched_step_key:
  "sched_step s i acc =
     (if i mod NENV \<noteq> 0 \<and> env_status (envs s (i mod NENV)) = ENV_RUNNABLE
         \<and> acc_key acc < env_key (envs s (i mod NENV))
      then (Some (i mod NENV), env_priority (envs s (i mod NENV)), env_ipc_sended (envs s (i mod NENV)))
      else acc)"
  by (auto simp: sched_step_def acc_key_def env_key_def less_sched_key_def Let_def
      split: prod.splits)

lemma first_best_filter:
  "first_best k (filter (\<lambda>x. c < k x) xs) =
     (case first_best k xs of None \<Rightarrow> None | Some y \<Rightarrow> if c < k y then Some y else None)"
  by (induction xs) (auto split: option.splits)

definition sched_key_of :: "kstate \<Rightarrow> nat \<Rightarrow> sched_key" where
  "sched_key_of s e = env_key (envs s e)"

definition ready :: "kstate \<Rightarrow> nat \<Rightarrow> bool" where
  "ready s e \<longleftrightarrow> e \<noteq> 0 \<and> env_status (envs s e) = ENV_RUNNABLE"

lemma pick_fold:
  "fst (fold (sched_step s) is acc) =
     (case first_best (sched_key_of s)
             (filter (\<lambda>e. acc_key acc < sched_key_of s e)
               (filter (ready s) (map (\<lambda>i. i mod NENV) is))) of
        None \<Rightarrow> fst acc
      | Some e \<Rightarrow> Some e)"
proof (induction "is" arbitrary: acc)
  case Nil
  then show ?case by simp
next
  case (Cons i "is")
  let ?e = "i mod NENV"
  show ?case
  proof (cases "ready s ?e \<and> acc_key acc < sched_key_of s ?e")
    case False
    then have "sched_step s i acc = acc"
      unfolding sched_step_key ready_def sched_key_of_def by auto
    with Cons.IH [of acc] False show ?thesis by auto
  next
    case True
    then have st: "sched_step s i acc
        = (Some ?e, env_priority (envs s ?e), env_ipc_sended (envs s ?e))"
      unfolding sched_step_key ready_def sched_key_of_def by auto
    then have k: "acc_key (sched_step s i acc) = sched_key_of s ?e" "fst (sched_step s i acc) = Some ?e"
      by (simp_all add: acc_key_def sched_key_of_def env_key_def)
    from Cons.IH [of "sched_step s i acc"] True show ?thesis
      unfolding fold_simps o_apply k
      by (auto simp: first_best_filter simp del: filter_filter split: option.splits)
  qed
qed

lemma sched_pick_first_best:
  "sched_pick s = first_best (sched_key_of s) (filter (candidate s) (sched_order s))"
proof -
  have "filter (\<lambda>e. key_bottom < sched_key_of s e) (filter (ready s) xs) = filter (candidate s) xs" for xs
    by (rule trans [OF filter_filter]) (rule filter_cong;
        auto simp: candidate_def ready_def sched_key_of_def)
  then show ?thesis
    unfolding sched_pick_def pick_fold sched_order_def
    by (simp add: acc_key_def key_bottom_def [symmetric] split: option.split)
qed

lemma circular_index: "e < 1024 \<Longrightarrow> (a + (e + 1023 * a) mod 1024) mod 1024 = (e :: nat)"
  by (simp add: mod_add_right_eq)

text \<open>Every slot of \<open>envs[]\<close> occurs in the circular order.\<close>

lemma sched_order_set: "set (sched_order s) = {..<NENV}"
proof
  show "set (sched_order s) \<subseteq> {..<NENV}" by (auto simp: sched_order_def layout)
  show "{..<NENV} \<subseteq> set (sched_order s)"
  proof
    fix e assume "e \<in> {..<NENV}"
    then have e: "e < 1024" by (simp add: layout)
    let ?a = "sched_start s + 1"
    let ?i = "?a + (e + 1023 * ?a) mod 1024"
    have "?i mod 1024 = e" by (rule circular_index) (rule e)
    moreover have "?i \<in> set [?a..<sched_start s + 1024 + 1]" by simp
    ultimately show "e \<in> set (sched_order s)"
      unfolding sched_order_def layout by (metis (no_types, lifting) image_eqI list.set_map)
  qed
qed

lemma filter_split:
  "filter P xs = ys @ e # zs \<Longrightarrow> \<exists>pre post. xs = pre @ e # post \<and> filter P pre = ys"
proof (induction xs arbitrary: ys)
  case Nil
  then show ?case by simp
next
  case (Cons x xs)
  consider "\<not> P x" | "P x" "ys = []" "x = e" | ys' where "P x" "ys = x # ys'"
    using Cons.prems by (cases ys) (auto split: if_splits)
  then show ?case
  proof cases
    case 1
    with Cons obtain pre post where "xs = pre @ e # post" "filter P pre = ys" by auto
    with 1 show ?thesis by (intro exI [of _ "x # pre"] exI [of _ post]) simp
  next
    case 2
    then show ?thesis by (intro exI [of _ "[]"] exI [of _ xs]) simp
  next
    case 3
    with Cons.prems Cons.IH [of ys'] obtain pre post where
      "xs = pre @ e # post" "filter P pre = ys'" by auto
    with 3 show ?thesis by (intro exI [of _ "x # pre"] exI [of _ post]) simp
  qed
qed

lemma pick_best:
  assumes "sched_pick s = Some e"
  shows "e < NENV \<and> candidate s e
    \<and> (\<forall>j < NENV. candidate s j \<longrightarrow> env_key (envs s j) \<le> env_key (envs s e))
    \<and> (\<exists>pre post. sched_order s = pre @ e # post
        \<and> (\<forall>j \<in> set pre. candidate s j \<longrightarrow> env_key (envs s j) < env_key (envs s e)))"
proof -
  from assms have "first_best (sched_key_of s) (filter (candidate s) (sched_order s)) = Some e"
    by (simp add: sched_pick_first_best)
  from first_best_Some [OF this] obtain ys zs where
    f: "filter (candidate s) (sched_order s) = ys @ e # zs"
    and y: "\<forall>y \<in> set ys. sched_key_of s y < sched_key_of s e"
    and z: "\<forall>z \<in> set zs. sched_key_of s z \<le> sched_key_of s e" by blast
  have "e \<in> set (filter (candidate s) (sched_order s))" using f by simp
  then have e: "e < NENV" "candidate s e" using sched_order_set by auto
  have best: "env_key (envs s j) \<le> env_key (envs s e)" if "j < NENV" "candidate s j" for j
  proof -
    have "j \<in> set (filter (candidate s) (sched_order s))" using that sched_order_set by auto
    with f y z show ?thesis by (auto simp: sched_key_of_def dest: less_imp_le)
  qed
  from f obtain pre post where p: "sched_order s = pre @ e # post" "filter (candidate s) pre = ys"
    using filter_split by metis
  then have "\<forall>j \<in> set pre. candidate s j \<longrightarrow> env_key (envs s j) < env_key (envs s e)"
    using y by (auto simp: sched_key_of_def)
  with e best p(1) show ?thesis by blast
qed

lemma pick_None: "sched_pick s = None \<longleftrightarrow> (\<forall>e < NENV. \<not> candidate s e)"
  using sched_order_set by (auto simp: sched_pick_first_best first_best_None filter_empty_conv)

lemma env_run_Run:
  "env_run e s = Some (Run e (if curenv s = Some e then s
     else lcr3 (env_cr3 (envs s e)) (mod_env e (\<lambda>v. v\<lparr>env_runs := env_runs v + 1\<rparr>) (s\<lparr>curenv := Some e\<rparr>))))"
  by (simp add: env_run_def mod_env_def set_env_def Let_def)

lemma sched_yield_cases:
  "sched_yield s =
     (case sched_pick s of
        Some e \<Rightarrow> env_run e s
      | None \<Rightarrow> if env_status (envs s 0) = ENV_RUNNABLE then env_run 0 s else Some (Monitor s))"
  by (simp add: sched_yield_def split: option.splits)

end
