(* ===== verification/Env_Spec.thy ===== *)
theory Env_Spec
  imports Demo_State Env_Alloc Sched
begin

text \<open>
  The properties of kern/env.c and kern/sched.c: building and tearing down environments,
  environment ids and the permission to use them, and the scheduling policy.
\<close>

unbundle bit_operations_syntax

section \<open>Life of an environment\<close>

text \<open>
  C3: env_free. Freeing an environment whose page tables satisfy the invariant never panics,
  removes its directory and tables with all their mappings while the reference counts stay
  exact, frees the directory page, leaves the user mappings of every other environment as
  they are, and returns the Env to the free list.
\<close>

theorem env_free_reclaims:
  assumes "mm_inv s D K fl" and "d \<in> D" and "env_pgdir (envs s e) = Some d"
    and "env_cr3 (envs s e) = page2pa d" and "is_list (env_free_list s) es" and "e \<notin> set es"
  shows "\<exists>s' fl'. env_free e s = Some s' \<and> mm_inv s' (D - {d}) K fl' \<and> d \<in> set fl'
    \<and> (\<forall>a va. a \<in> D - {d} \<and> va < UTOP \<longrightarrow> leafpte s' (slot a va) = leafpte s (slot a va))
    \<and> envs s' = (envs s)(e := (envs s e)\<lparr>env_pgdir := None, env_cr3 := 0, env_status := ENV_FREE\<rparr>)
    \<and> is_list (env_free_list s') (e # es)"
proof -
  from env_free_ok [OF assms(1-4)] obtain s' fl' where
    "env_free e s = Some s'" "mm_inv s' (D - {d}) K fl'" "d \<in> set fl'"
    "\<forall>y \<in> leafslots (D - {d}). leafpte s' y = leafpte s y"
    "envs s' = (envs s)(e := (envs s e)\<lparr>env_pgdir := None, env_cr3 := 0, env_status := ENV_FREE\<rparr>)"
    "env_free_list s' = LIST_INSERT_HEAD e (env_free_list s)" by blast
  with tailq.repr_insert [OF assms(5,6)] slot_in(1) show ?thesis by fastforce
qed

definition demo_envs :: kstate where
  "demo_envs = demo\<lparr>env_free_list := LIST_INSERT_HEAD 2 (LIST_INIT llist_zero)\<rparr>"

lemma demo_envs_inv: "mm_inv demo_envs {0} demo_K [3]"
proof -
  have f: "mem demo_envs = mem demo" "pp_ref demo_envs = pp_ref demo"
    "npage demo_envs = npage demo" "page_free_list demo_envs = page_free_list demo"
    by (simp_all add: demo_envs_def)
  show ?thesis using mm_inv_cong [OF f] demo_inv by simp
qed

lemma demo_envs_fields:
  "envs demo_envs 1 = demo_env" "envs demo_envs 2 = Env_zero" "curenv demo_envs = None"
  "is_list (env_free_list demo_envs) [2]"
  using demo_fields(6)
  by (simp_all add: demo_envs_def demo_fields tailq.repr_insert tailq.repr_init)
    (simp add: demo_def)

lemma demo_env_fields: "env_pgdir demo_env = Some 0" "env_cr3 demo_env = page2pa 0"
  "env_id demo_env = 0x1001" "env_status demo_env = ENV_RUNNABLE"
  "env_priority demo_env = PRIORITY_DEFAULT" "env_ipc_sended demo_env = 0"
  by (simp_all add: demo_env_def Env_zero_def page2pa_def page2ppn_def)

theorem env_free_reclaims_witness:
  "\<exists>s' fl'. env_free 1 demo_envs = Some s' \<and> mm_inv s' {} demo_K fl' \<and> 0 \<in> set fl'
    \<and> is_list (env_free_list s') [1, 2]"
proof -
  have "env_pgdir (envs demo_envs 1) = Some 0" "env_cr3 (envs demo_envs 1) = page2pa 0"
    using demo_envs_fields(1) demo_env_fields by simp_all
  from env_free_reclaims [OF demo_envs_inv _ this demo_envs_fields(4)] show ?thesis by auto
qed

text \<open>
  C7: env_alloc. With a free Env and a free page it succeeds with the first free Env: a
  runnable environment with default priority, user segments, interrupts on and the user stack
  pointer, whose address space is empty below UTOP and the kernel's above (but for the
  entries that map its own page tables), while the mappings of the other environments and
  the exact reference counts are kept.
\<close>

theorem env_alloc_new:
  assumes "mm_inv s D K (p # fl)" and "is_list (env_free_list s) (e # es)"
  shows "\<exists>s'. env_alloc parent s = Some (Inr e, s') \<and> mm_inv s' (insert p D) K fl
    \<and> envs s' = (envs s)(e := new_env e p parent (envs s e)) \<and> is_list (env_free_list s') es
    \<and> (\<forall>a va. a \<in> D \<and> va < UTOP \<longrightarrow> leafpte s' (slot a va) = leafpte s (slot a va))
    \<and> (\<forall>va. va < UTOP \<longrightarrow> leafpte s' (slot p va) = 0)
    \<and> (\<forall>i. UPDX \<le> i \<longrightarrow> i \<noteq> unat (PDX VPT) \<longrightarrow> i \<noteq> unat (PDX UVPT) \<longrightarrow>
         mem s' p i = mem s (boot_pgdir s) i)"
proof -
  from alloc_ok [OF assms, of parent] obtain s' where
    s': "env_alloc parent s = Some (Inr e, s')" "mm_inv s' (insert p D) K fl"
    "envs s' = (envs s)(e := new_env e p parent (envs s e))" "is_list (env_free_list s') es"
    "\<forall>y \<in> leafslots D. leafpte s' y = leafpte s y" "\<forall>i < UPDX. ptmap s' (p, i) = None"
    "\<forall>i. UPDX \<le> i \<longrightarrow> i \<noteq> unat (PDX VPT) \<longrightarrow> i \<noteq> unat (PDX UVPT) \<longrightarrow>
       mem s' p i = mem s (boot_pgdir s) i" by blast
  moreover have "leafpte s' (slot p va) = 0" if "va < UTOP" for va
    using s'(6) PDX_user [OF that] by (simp add: leafpte_def slot_def)
  ultimately show ?thesis using slot_in(1) by (intro exI [of _ s']) blast
qed

theorem env_alloc_new_witness:
  "\<exists>s'. env_alloc 0x1001 demo_envs = Some (Inr 2, s') \<and> mm_inv s' {3, 0} demo_K []
    \<and> env_id (envs s' 2) = 0x1002"
proof -
  from env_alloc_new [OF demo_envs_inv demo_envs_fields(4), of "0x1001"] obtain s' where
    s': "env_alloc 0x1001 demo_envs = Some (Inr 2, s')" "mm_inv s' {3, 0} demo_K []"
    "envs s' = (envs demo_envs)(2 := new_env 2 3 0x1001 (envs demo_envs 2))" by blast
  have "next_env_id 0 2 = 0x1002"
    by (simp add: next_env_id_def ENVGENSHIFT_def layout)
  then have "env_id (envs s' 2) = 0x1002"
    using s'(3) demo_envs_fields(2) by (simp add: new_env_def Env_zero_def)
  with s' show ?thesis by blast
qed

text \<open>
  env_alloc on its error paths changes nothing: -E_NO_FREE_ENV when all Envs are in use,
  -E_NO_MEM when there is no page for the directory.
\<close>

theorem env_alloc_errors:
  assumes "mm_inv s D K fl" and "is_list (env_free_list s) es"
  shows "(es = [] \<longrightarrow> env_alloc parent s = Some (Inl E_NO_FREE_ENV, s))
    \<and> (es \<noteq> [] \<longrightarrow> fl = [] \<longrightarrow> env_alloc parent s = Some (Inl E_NO_MEM, s))"
  using assms alloc_no_env alloc_no_mem by (cases es) auto

theorem env_alloc_errors_witness:
  "env_alloc 0 (demo_full\<lparr>env_free_list := LIST_INIT llist_zero\<rparr>)
     = Some (Inl E_NO_FREE_ENV, demo_full\<lparr>env_free_list := LIST_INIT llist_zero\<rparr>)"
proof -
  let ?s = "demo_full\<lparr>env_free_list := LIST_INIT llist_zero\<rparr>"
  have f: "mem ?s = mem demo_full" "pp_ref ?s = pp_ref demo_full"
    "npage ?s = npage demo_full" "page_free_list ?s = page_free_list demo_full" by simp_all
  have inv: "mm_inv ?s {0} demo_full_K []" using mm_inv_cong [OF f] demo_full_inv by simp
  have l: "is_list (env_free_list ?s) []" by (simp add: tailq.repr_init)
  from env_alloc_errors [OF inv l, of 0] show ?thesis by simp
qed

lemma env_init_fold:
  "is_list (env_free_list s) ys \<Longrightarrow> set ys \<inter> {..<n} = {} \<Longrightarrow>
   is_list (env_free_list (fold env_init_step (rev [0..<n]) s)) ([0..<n] @ ys)
   \<and> (\<forall>i. envs (fold env_init_step (rev [0..<n]) s) i =
        (if i < n then (envs s i)\<lparr>env_status := ENV_FREE, env_id := 0\<rparr> else envs s i))"
proof (induction n arbitrary: s ys)
  case 0
  then show ?case by simp
next
  case (Suc n)
  let ?s1 = "env_init_step n s"
  have l1: "is_list (env_free_list ?s1) (n # ys)"
    using Suc.prems by (auto simp: env_init_step_def Let_def intro: tailq.repr_insert)
  have "set (n # ys) \<inter> {..<n} = {}" using Suc.prems by auto
  from Suc.IH [OF l1 this] show ?case
    by (auto simp: env_init_step_def Let_def less_Suc_eq)
qed

text \<open>
  env_init. All NENV environments are free with id 0, and the free list holds them in
  ascending order, so the first env_alloc returns envs[0].
\<close>

theorem env_init_all_free:
  "is_list (env_free_list (env_init s)) [0..<NENV]
   \<and> (\<forall>e < NENV. env_status (envs (env_init s) e) = ENV_FREE \<and> env_id (envs (env_init s) e) = 0)"
proof -
  let ?s = "s\<lparr>env_free_list := LIST_INIT (env_free_list s)\<rparr>"
  have "is_list (env_free_list ?s) []" by (simp add: tailq.repr_init)
  then have h: "is_list (env_free_list (env_init s)) ([0..<NENV] @ [])
      \<and> (\<forall>i. envs (env_init s) i = (if i < NENV
            then (envs ?s i)\<lparr>env_status := ENV_FREE, env_id := 0\<rparr> else envs ?s i))"
    unfolding env_init_def by (rule env_init_fold) simp
  then show ?thesis by simp
qed

theorem env_init_all_free_witness: "LIST_FIRST (env_free_list (env_init kstate_zero)) = Some 0"
proof -
  have "0 < NENV" by (simp add: layout)
  then have "[0..<NENV] = 0 # [Suc 0..<NENV]" by (rule upt_conv_Cons)
  moreover have "is_list (env_free_list (env_init kstate_zero)) [0..<NENV]"
    using env_init_all_free by blast
  ultimately show ?thesis by (simp add: tailq.repr_first)
qed

section \<open>Environment ids\<close>

text \<open>
  C37: ids. The id env_alloc gives to slot e is positive as a signed number, has index e, and
  differs from the id the slot had before.
\<close>

theorem next_env_id_correct:
  assumes "e < NENV"
  shows "0 < sint (next_env_id old e) \<and> ENVX (next_env_id old e) = e \<and> next_env_id old e \<noteq> old"
  using next_env_id_pos [OF assms] ENVX_next_env_id [OF assms] next_env_id_fresh [OF assms] by simp

theorem next_env_id_correct_witness:
  "0 < sint (next_env_id 0x7FFFF005 5) \<and> next_env_id 0x7FFFF005 5 \<noteq> 0x7FFFF005"
  using next_env_id_correct [of 5 "0x7FFFF005"] by (simp add: layout)

text \<open>
  stale ids. After env_alloc reused a slot, the id of its previous environment is refused
  with -E_BAD_ENV.
\<close>

theorem envid2env_stale:
  assumes "mm_inv s D K (p # fl)" and "is_list (env_free_list s) (e # es)" and "e < NENV"
    and "old = env_id (envs s e)" and "ENVX old = e" and "old \<noteq> 0"
    and "env_alloc parent s = Some (r, s')"
  shows "envid2env old checkperm s' = Some (Inl E_BAD_ENV)"
proof -
  from alloc_ok [OF assms(1,2), of parent] assms(7)
  have "envs s' e = new_env e p parent (envs s e)" by auto
  then have "env_id (envs s' e) \<noteq> old"
    using next_env_id_fresh [OF assms(3)] assms(4) by (simp add: new_env_def)
  with assms(5,6) show ?thesis by (simp add: envid2env_def)
qed

theorem envid2env_stale_witness:
  "\<exists>s'. env_alloc 0 (mod_env 2 (\<lambda>v. v\<lparr>env_id := 0x5002\<rparr>) demo_envs) = Some (Inr 2, s')
    \<and> envid2env 0x5002 False s' = Some (Inl E_BAD_ENV)"
proof -
  let ?s = "mod_env 2 (\<lambda>v. v\<lparr>env_id := 0x5002\<rparr>) demo_envs"
  have f: "mem ?s = mem demo_envs" "pp_ref ?s = pp_ref demo_envs"
    "npage ?s = npage demo_envs" "page_free_list ?s = page_free_list demo_envs" by simp_all
  have inv: "mm_inv ?s {0} demo_K [3]" using mm_inv_cong [OF f] demo_envs_inv by simp
  have l: "is_list (env_free_list ?s) [2]" using demo_envs_fields(4) by simp
  obtain s' where s': "env_alloc 0 ?s = Some (Inr 2, s')" using alloc_ok [OF inv l] by blast
  have x: "ENVX 0x5002 = 2" "0x5002 = env_id (envs ?s 2)" by (simp_all add: ENVX_def layout)
  from envid2env_stale [OF inv l _ x(2,1) _ s'] s' show ?thesis by (simp add: layout)
qed

text \<open>
  the permission check. When envid2env with checkperm accepts an id, it is the current
  environment or one whose parent is the current environment, it is not free, and its id is
  exactly the one asked for (0 stands for the current environment).
\<close>

theorem envid2env_permission:
  assumes "envid2env envid True s = Some (Inr (Some e))"
  shows "curenv s = Some e
    \<or> (\<exists>c. curenv s = Some c \<and> env_parent_id (envs s e) = env_id (envs s c)
         \<and> env_id (envs s e) = envid \<and> env_status (envs s e) \<noteq> ENV_FREE \<and> e = ENVX envid)"
  using assms by (auto simp: envid2env_def Let_def bind_Some_iff split: if_splits)

theorem envid2env_permission_witness:
  "\<exists>s. envid2env 0x1001 True s = Some (Inr (Some 1)) \<and> curenv s = Some 1"
proof -
  let ?s = "demo\<lparr>curenv := Some 1\<rparr>"
  have c: "envid2env 0x1001 True ?s = Some (Inr (Some 1))"
    using demo_fields(6) by (simp add: envid2env_def ENVX_def layout demo_env_fields env_status_defs)
  from envid2env_permission [OF c] c show ?thesis by (intro exI [of _ ?s]) simp
qed

section \<open>Scheduling\<close>

text \<open>
  C19: the environment sched_yield runs, other than the idle one, is runnable, no runnable
  environment has a higher priority, none of the same priority has sent fewer messages, and
  of the equal ones it is the first after the current environment in circular order.
\<close>

theorem sched_yield_best:
  assumes "sched_yield s = Some (Run e s')" and "e \<noteq> 0"
  shows "env_status (envs s e) = ENV_RUNNABLE
    \<and> (\<forall>j < NENV. candidate s j \<longrightarrow> env_key (envs s j) \<le> env_key (envs s e))
    \<and> (\<exists>pre post. sched_order s = pre @ e # post
        \<and> (\<forall>j \<in> set pre. candidate s j \<longrightarrow> env_key (envs s j) < env_key (envs s e)))
    \<and> curenv s' = Some e"
proof -
  have "sched_pick s = Some e"
    using assms by (auto simp: sched_yield_def env_run_Run split: option.splits if_splits)
  moreover have "curenv s' = Some e"
    using assms(1) calculation by (auto simp: sched_yield_def env_run_Run split: if_splits)
  ultimately show ?thesis using pick_best [of s e] by (simp add: candidate_def)
qed

lemma demo_candidate: "candidate demo 1"
  using demo_fields(6)
  by (simp add: candidate_def demo_env_fields env_key_def key_bottom_def less_sched_key_def
      PRIORITY_DEFAULT_def)

lemma demo_pick: "sched_pick demo = Some 1"
proof -
  have "j = 1" if "candidate demo j" for j
    using that by (simp add: candidate_def demo_def Env_zero_def env_status_defs split: if_splits)
  moreover from demo_candidate have "sched_pick demo \<noteq> None"
    by (simp add: pick_None layout exI [of _ 1])
  ultimately show ?thesis using pick_best [of demo] by auto
qed

theorem sched_yield_best_witness:
  "\<exists>s'. sched_yield demo = Some (Run 1 s' :: unit flow) \<and> env_status (envs demo 1) = ENV_RUNNABLE"
proof -
  obtain s' where s': "sched_yield demo = Some (Run 1 s' :: unit flow)"
    using demo_pick by (simp add: sched_yield_def env_run_Run)
  from sched_yield_best [OF s'] have "env_status (envs demo 1) = ENV_RUNNABLE" by simp
  with s' show ?thesis by blast
qed

text \<open>
  C38: whenever some environment other than the idle one is runnable (with a priority above 0,
  or fewer than 0xffffffff messages sent), sched_yield runs one, never the idle one, and one
  at least as urgent.
\<close>

theorem sched_yield_progress:
  assumes "j < NENV" and "candidate s j"
  shows "\<exists>e s'. sched_yield s = Some (Run e s') \<and> e \<noteq> 0
    \<and> env_key (envs s j) \<le> env_key (envs s e)"
proof -
  obtain e where e: "sched_pick s = Some e" using assms pick_None [of s] by fastforce
  with pick_best [OF e] assms show ?thesis
    by (auto simp: sched_yield_def env_run_Run candidate_def)
qed

theorem sched_yield_progress_witness:
  "\<exists>e s'. sched_yield demo = Some (Run e s' :: unit flow) \<and> e \<noteq> 0"
  using sched_yield_progress [OF _ demo_candidate] by (auto simp: layout)

text \<open>
  the idle environment runs only when no other one is runnable, and the kernel stops in
  the monitor only when the idle one is not runnable either.
\<close>

theorem sched_yield_idle:
  "case sched_yield s of
     Some (Run e s') \<Rightarrow> e \<noteq> 0 \<or> (\<forall>j < NENV. \<not> candidate s j)
   | Some (Monitor s') \<Rightarrow> (\<forall>j < NENV. \<not> candidate s j) \<and> env_status (envs s 0) \<noteq> ENV_RUNNABLE \<and> s' = s
   | _ \<Rightarrow> False"
proof (cases "sched_pick s")
  case None
  then show ?thesis using pick_None [of s] by (simp add: sched_yield_def env_run_Run)
next
  case (Some e)
  then show ?thesis using pick_best [OF Some] by (simp add: sched_yield_def env_run_Run candidate_def)
qed

end
