(* ===== verification/Pmap_Spec.thy ===== *)
theory Pmap_Spec
  imports Demo_State Tlb
begin

text \<open>
  The properties of kern/pmap.c: the free list built at boot, the page allocator, the
  mapping operations with exact reference counts and a coherent TLB, and the checks on
  ranges of user memory.
\<close>

unbundle bit_operations_syntax

section \<open>Mapping pages\<close>

text \<open>
  C2: page_insert. Given the reference-count invariant, a data page with fewer than 65535
  references and a page table or a free page for one, page_insert succeeds, maps the page
  with the permissions at the address, leaves every other user translation of every
  environment as it was, keeps the reference counts exact, and puts the page that was mapped
  there before on the free list if that was its last reference.
\<close>

theorem page_insert_maps:
  assumes "mm_inv s D K fl" and "d \<in> D" and "va < UTOP"
    and "data_page s D fl pp" and "unat (pp_ref s pp) < 65535" and "unat perm < 4096"
    and "ptmap s (d, unat (PDX va)) \<noteq> None \<or> fl \<noteq> []"
  shows "\<exists>s'. page_insert d pp va perm s = Some (Inr (), s')
    \<and> mm_inv s' D K (insert_free s d va pp fl)
    \<and> (\<forall>a b. a \<in> D \<and> b < UTOP \<longrightarrow>
         leafpte s' (slot a b) =
           (if slot a b = slot d va then page2pa pp OR perm OR PTE_P else leafpte s (slot a b)))"
  using insert_ok [OF assms] slot_in(1) unfolding mkpte_alt by fastforce

theorem page_insert_maps_witness:
  "\<exists>s'. page_insert 0 4 0x1000 (PTE_U OR PTE_W) demo = Some (Inr (), s')
    \<and> mm_inv s' {0} demo_K [2, 3]
    \<and> (\<forall>a b. a \<in> {0} \<and> b < UTOP \<longrightarrow>
         leafpte s' (slot a b) =
           (if slot a b = slot 0 0x1000 then page2pa 4 OR (PTE_U OR PTE_W) OR PTE_P
            else leafpte demo (slot a b)))"
proof -
  have fl: "insert_free demo 0 0x1000 4 [3] = [2, 3]"
    by (simp add: insert_free_def slot_def demo_index demo_ptmap demo_leafmap demo_fields)
  show ?thesis
    using page_insert_maps [OF demo_inv _ _ demo_data(2), of 0 "0x1000" "PTE_U OR PTE_W"]
    unfolding fl by (simp add: layout demo_fields demo_perm)
qed

text \<open>
  page_insert without memory. When the page table is missing and no page is free,
  page_insert returns -E_NO_MEM and changes nothing.
\<close>

theorem page_insert_no_mem:
  assumes "mm_inv s D K []" and "ptmap s (d, unat (PDX va)) = None"
  shows "page_insert d pp va perm s = Some (Inl E_NO_MEM, s)"
  using assms by (rule insert_nomem)

theorem page_insert_no_mem_witness:
  "page_insert 0 2 0x400000 PTE_U demo_full = Some (Inl E_NO_MEM, demo_full)"
  using page_insert_no_mem [OF demo_full_inv, of 0 "0x400000" 2 PTE_U]
  by (simp add: demo_full_maps demo_ptmap demo_index)

text \<open>
  C24: page_remove. A mapped page is unmapped: its entry becomes 0, every other user
  translation stays, its reference count drops by one with the counts staying exact, and the
  page goes to the free list exactly when that was the last reference.
\<close>

theorem page_remove_unmaps:
  assumes "mm_inv s D K fl" and "d \<in> D" and "va < UTOP" and "leafmap s (slot d va) = Some p"
  shows "\<exists>s'. page_remove d va s = Some s'
    \<and> mm_inv s' D K (if unat (pp_ref s p) = 1 then p # fl else fl)
    \<and> (\<forall>q. pp_ref s' q = (if q = p then pp_ref s p - 1 else pp_ref s q))
    \<and> (\<forall>a b. a \<in> D \<and> b < UTOP \<longrightarrow>
         leafpte s' (slot a b) = (if slot a b = slot d va then 0 else leafpte s (slot a b)))"
  using remove_mapped [OF assms] slot_in(1) by fastforce

theorem page_remove_unmaps_witness:
  "\<exists>s'. page_remove 0 0x1000 demo = Some s' \<and> mm_inv s' {0} demo_K [2, 3]
    \<and> (\<forall>q. pp_ref s' q = (if q = 2 then pp_ref demo 2 - 1 else pp_ref demo q))
    \<and> (\<forall>a b. a \<in> {0} \<and> b < UTOP \<longrightarrow>
         leafpte s' (slot a b) = (if slot a b = slot 0 0x1000 then 0 else leafpte demo (slot a b)))"
proof -
  have "leafmap demo (slot 0 0x1000) = Some 2"
    by (simp add: slot_def demo_index demo_leafmap)
  from page_remove_unmaps [OF demo_inv _ _ this] show ?thesis
    by (simp add: layout demo_fields)
qed

text \<open>
  page_remove of an address that has a page table but no page. The comment promises that
  nothing happens; the code passes the NULL page to page_decref, which dereferences it, so
  the kernel faults.
\<close>

theorem page_remove_null_deref:
  assumes "mm_inv s D K fl" and "d \<in> D" and "va < UTOP"
    and "ptmap s (d, unat (PDX va)) = Some t" and "leafmap s (slot d va) = None"
  shows "page_remove d va s = None"
  using assms by (rule remove_faults)

theorem page_remove_null_deref_witness: "page_remove 0 0x2000 demo = None"
  using page_remove_null_deref [OF demo_inv, of 0 "0x2000" 1]
  by (simp add: slot_def demo_index demo_leafmap demo_ptmap layout)

text \<open>
  C25: TLB coherence. After page_insert in any environment, every translation of a user
  address that the TLB still holds is the present entry of the active page tables.
\<close>

theorem page_insert_tlb_coherent:
  assumes "mm_inv s D K fl" and "d \<in> D" and "a \<in> D" and "va < UTOP"
    and "data_page s D fl pp" and "unat (pp_ref s pp) < 65535" and "unat perm < 4096"
    and "active s a" and "tlb_coherent s a"
    and "page_insert d pp va perm s = Some (Inr (), s')"
  shows "tlb_coherent s' a"
  using insert_coherent [OF assms] by simp

theorem page_insert_tlb_coherent_witness:
  "\<exists>s'. page_insert 0 4 0x1000 PTE_U demo = Some (Inr (), s') \<and> tlb_coherent s' 0"
proof -
  have perm: "unat PTE_U < 4096" by (simp add: PTE_U_def)
  have ut: "(0x1000 :: u32) < UTOP" by (simp add: layout)
  have ref: "unat (pp_ref demo 4) < 65535" by (simp add: demo_fields)
  have co: "active demo 0" "tlb_coherent demo 0"
    by (simp_all add: active_def tlb_coherent_def demo_fields)
  obtain s' where s': "page_insert 0 4 0x1000 PTE_U demo = Some (Inr (), s')"
    using insert_ok [OF demo_inv _ ut demo_data(2) ref perm] by auto
  from page_insert_tlb_coherent [OF demo_inv _ _ ut demo_data(2) ref perm co s'] s'
  show ?thesis by simp
qed

text \<open>
  TLB coherence of page_remove, as for page_insert.
\<close>

theorem page_remove_tlb_coherent:
  assumes "mm_inv s D K fl" and "d \<in> D" and "a \<in> D" and "va < UTOP"
    and "leafmap s (slot d va) = Some p" and "active s a" and "tlb_coherent s a"
    and "page_remove d va s = Some s'"
  shows "tlb_coherent s' a"
  using remove_coherent [OF assms] by simp

theorem page_remove_tlb_coherent_witness:
  "\<exists>s'. page_remove 0 0x1000 demo = Some s' \<and> tlb_coherent s' 0"
proof -
  have ut: "(0x1000 :: u32) < UTOP" by (simp add: layout)
  have l: "leafmap demo (slot 0 0x1000) = Some 2"
    by (simp add: slot_def demo_index demo_leafmap)
  have co: "active demo 0" "tlb_coherent demo 0"
    by (simp_all add: active_def tlb_coherent_def demo_fields)
  obtain s' where s': "page_remove 0 0x1000 demo = Some s'"
    using remove_mapped [OF demo_inv _ ut l] by auto
  from page_remove_tlb_coherent [OF demo_inv _ _ ut l co s'] s' show ?thesis by simp
qed

section \<open>The page allocator\<close>

text \<open>
  page_init. The free list holds exactly the pages that are neither page 0 nor between
  the I/O hole and the end of the kernel's boot allocations; those have no reference, all
  others one.
\<close>

theorem page_init_free_list:
  assumes "PADDR fm = Some pa" and "npage s \<le> 2 ^ 20"
  shows "\<exists>s'. page_init fm s = Some s' \<and> npage s' = npage s \<and> pages_inv s'
    \<and> free_pages s' = {i. i < npage s \<and> i \<noteq> 0 \<and> \<not> (160 \<le> i \<and> i < unat (PPN (ROUNDUP pa PGSIZE)))}
    \<and> (\<forall>i < npage s. unat (pp_ref s' i) = (if i \<in> free_pages s' then 0 else 1))"
proof -
  have lo: "unat (PPN IOPHYSMEM) = 160" by (simp add: PPN_def shifts layout)
  from page_init_ok [OF assms] show ?thesis
    unfolding lo by (auto simp: pages_inv_def kernel_page_def)
qed

theorem page_init_free_list_witness:
  "\<exists>s'. page_init 0xF0200000 (kstate_zero\<lparr>npage := 1024\<rparr>) = Some s' \<and> npage s' = 1024
    \<and> pages_inv s' \<and> free_pages s' = {i. i < 1024 \<and> i \<noteq> 0 \<and> \<not> (160 \<le> i \<and> i < 512)}
    \<and> (\<forall>i < 1024. unat (pp_ref s' i) = (if i \<in> free_pages s' then 0 else 1))"
proof -
  have pa: "PADDR 0xF0200000 = Some 0x200000" by (simp add: PADDR_def layout)
  have hi: "unat (PPN (ROUNDUP 0x200000 PGSIZE)) = 512"
    by (simp add: PPN_def ROUNDUP_def ROUNDDOWN_def shifts layout)
  from page_init_free_list [OF pa, of "kstate_zero\<lparr>npage := 1024\<rparr>"] show ?thesis
    unfolding hi by simp
qed

text \<open>
  page_alloc. As many calls as there are free pages all succeed, with distinct pages that
  were free, and one more call fails.
\<close>

theorem page_alloc_exact:
  assumes "pages_inv s"
  shows "(n \<le> card (free_pages s) \<longrightarrow>
      (\<exists>ps s'. alloc_many page_alloc n s = Some (ps, s') \<and> length ps = n \<and> distinct ps
        \<and> set ps \<subseteq> free_pages s \<and> free_pages s' = free_pages s - set ps \<and> pages_inv s'))
    \<and> (card (free_pages s) < n \<longrightarrow> alloc_many page_alloc n s = None)"
  using pages.alloc_many_ok [OF assms] pages.alloc_many_exhausts [OF assms] by blast

theorem page_alloc_exact_witness:
  "alloc_many page_alloc 2 demo = None \<and> (\<exists>ps s'. alloc_many page_alloc 1 demo = Some (ps, s'))"
proof -
  have fp: "free_pages demo = {3}" using demo_list by (simp add: free_pages_eq)
  have "pages_inv demo" using mm_invD(1) [OF demo_inv] by (auto simp: pages_inv_def)
  note t = page_alloc_exact [OF this]
  from t [of 2] t [of 1] show ?thesis by (auto simp: fp)
qed

text \<open>
  page_free then page_alloc. A freed page that had no reference is available again: the
  next page_alloc succeeds, and what is free afterwards with its result is what was free
  before with the freed page.
\<close>

theorem page_free_alloc:
  assumes "pages_inv s" and "p < npage s" and "pp_ref s p = 0" and "p \<notin> free_pages s"
  shows "\<exists>q s'. page_alloc (page_free p s) = Some (Inr q, s') \<and> pages_inv s'
    \<and> insert q (free_pages s') = insert p (free_pages s)"
  using pages.release_alloc [of s p] assms by auto

theorem page_free_alloc_witness:
  "\<exists>q s'. page_alloc (page_free 3 (demo_full\<lparr>pp_ref := \<lambda>_. 0\<rparr>)) = Some (Inr q, s') \<and> pages_inv s'
    \<and> insert q (free_pages s') = insert 3 (free_pages (demo_full\<lparr>pp_ref := \<lambda>_. 0\<rparr>))"
proof -
  have l: "is_list (page_free_list (demo_full\<lparr>pp_ref := \<lambda>_. 0\<rparr>)) []"
    by (simp add: demo_full_def tailq.repr_init)
  then have "pages_inv (demo_full\<lparr>pp_ref := \<lambda>_. 0\<rparr>)"
    by (auto simp: pages_inv_def pages_wf_def demo_full_def demo_fields intro: exI [of _ "[]"])
  from page_free_alloc [OF this, of 3] l show ?thesis
    by (simp add: free_pages_eq demo_full_def demo_fields)
qed

section \<open>Boot-time mappings\<close>

text \<open>
  boot_map_segment. For a size up to 2^32 - PGSIZE the loop ends after one round per page
  and is the same as mapping that many consecutive pages one after the other.
\<close>

theorem boot_map_segment_pages:
  assumes "unat sz + 4095 < 2 ^ 32"
  shows "boot_map_segment d la sz pa perm s = map_pages d la pa perm ((unat sz + 4095) div 4096) s"
  unfolding boot_map_segment_def using boot_map_loop_pages [OF assms, of _ 0] by simp

theorem boot_map_segment_pages_witness:
  "boot_map_segment 0 0x2000 0x2000 0x4000 PTE_W demo = map_pages 0 0x2000 0x4000 PTE_W 2 demo"
  using boot_map_segment_pages [of "0x2000"] by simp

section \<open>User memory\<close>

text \<open>
  A range that wraps around the address space is accepted without looking at any page:
  user_mem_check computes the end as va + len in 32 bits and its loop does not run.
\<close>

lemma user_mem_check_wraps:
  assumes "2 ^ 32 \<le> unat va + unat len"
  shows "user_mem_check e va len perm s = Some (Inr (), s)"
proof -
  have "unat (va + len) \<le> unat va"
    using assms unsigned_less [of len, where 'a = nat] unsigned_less [of va, where 'a = nat]
    by (auto simp: unat_word_ariths mod_if)
  then have "\<not> va < va + len" by (simp add: word_less_nat_alt)
  then show ?thesis
    unfolding user_mem_check_def by (subst user_mem_check_loop.simps) simp
qed

text \<open>
  C34: user_mem_check, for a page directory whose present entries name pages that exist. For a range that does
  not wrap around the address space the check always returns: 0 exactly when every address of the
  range is below ULIM with all of \<open>perm | PTE_P | PTE_U\<close> granted by its page-table entry, otherwise -E_FAULT with
  user_mem_check_addr the first address of the range for which this fails, and nothing else changed.
  For a range that wraps (or ends at the very top of the address space) the code does not do what its
  comment says: the end, computed in 32 bits, is not above the start, so it returns 0 and looks at no page.
\<close>

theorem user_mem_check_sound:
  assumes "env_pgdir (envs s e) = Some d" and "\<forall>i t. ptmap s (d, i) = Some t \<longrightarrow> t < npage s"
  shows "user_mem_check e va len perm s =
    (if unat va + unat len < 2 ^ 32 then
       case find (\<lambda>k. \<not> uva_ok s d (perm OR PTE_P OR PTE_U) (va + of_nat k)) [0..<unat len] of
         None \<Rightarrow> Some (Inr (), s)
       | Some k \<Rightarrow> Some (Inl E_FAULT, s\<lparr>user_mem_check_addr := va + of_nat k\<rparr>)
     else Some (Inr (), s))"
proof (cases "unat va + unat len < 2 ^ 32")
  case fits: True
  let ?ok = "\<lambda>k. uva_ok s d (perm OR PTE_P OR PTE_U) (va + of_nat k)"
  note rg = range_offsets [OF fits]
  obtain r s' where rs: "user_mem_check e va len perm s = Some (r, s')"
    using check_loop_returns [OF assms] unfolding user_mem_check_def by fast
  note l = check_loop [OF assms(1) rs [unfolded user_mem_check_def], folded conj_assoc]
  show ?thesis
  proof (cases r)
    case (Inr u)
    with l rg(1) have "find (\<lambda>k. \<not> ?ok k) [0..<unat len] = None" "s' = s"
      by (auto simp: find_None_iff)
    with rs Inr fits show ?thesis by simp
  next
    case (Inl er)
    with l obtain a where a: "va \<le> a \<and> a < va + len" "\<not> uva_ok s d (perm OR PTE_P OR PTE_U) a"
      "\<And>b. va \<le> b \<Longrightarrow> b < a \<Longrightarrow> uva_ok s d (perm OR PTE_P OR PTE_U) b"
      "er = E_FAULT" "s' = s\<lparr>user_mem_check_addr := a\<rparr>" by auto
    from a(1) rg(1) obtain k where k: "k < unat len" "a = va + of_nat k" by blast
    have "?ok j" if "j < k" for j
      using a(3) [of "va + of_nat j"] rg(2) [of j] rg(2) [of k] that k
      by (simp add: word_less_nat_alt word_le_nat_alt)
    then have "find (\<lambda>k. \<not> ?ok k) [0..<unat len] = Some k"
      using a(2) k by (auto simp: find_Some_iff intro!: exI [of _ k])
    with rs Inl fits a k show ?thesis by simp
  qed
qed (use user_mem_check_wraps in simp)

lemma demo_uva_ok:
  assumes "k < 32"
  shows "uva_ok demo 0 (PTE_W OR PTE_P OR PTE_U) (0x1FF0 + of_nat k) \<longleftrightarrow> k < 16"
proof -
  let ?a = "0x1FF0 + of_nat k :: u32"
  have u: "unat ?a = 0x1FF0 + k" using assms by (simp add: unat_word_ariths unat_of_nat)
  have ix: "unat (PDX ?a) = 0" "unat (PTX ?a) = (if k < 16 then 1 else 2)"
    using assms by (auto simp: unat_PDX unat_PTX u)
  have "?a < UTOP" using u assms by (simp add: word_less_nat_alt layout)
  from walk_present [OF demo_inv _ this, of 0 1 0]
  have "pgdir_walk 0 ?a 0 demo = Some (Some (1, unat (PTX ?a)), demo)"
    by (simp add: ix(1) demo_ptmap)
  moreover have "mkpte 2 (PTE_U OR PTE_W) AND 7 = 7"
    using mkpte_AND_low [of 7 2 "PTE_U OR PTE_W"] by (simp add: pte_flags)
  moreover have "?a < ULIM" using u assms by (simp add: word_less_nat_alt layout)
  moreover have "PTE_W OR PTE_P OR PTE_U = 7" by (simp add: pte_flags)
  moreover have "rd demo (1, 1) = mkpte 2 (PTE_U OR PTE_W)" "rd demo (1, 2) = 0" by (simp_all add: rd_def demo_fields(4) del: One_nat_def)
  ultimately show ?thesis by (simp add: uva_ok_def ix(2) del: One_nat_def)
qed

text \<open>Page 0x1000 is mapped; a range of 32 bytes from 0x1FF0 fails at 0x2000; a wrapping range is accepted.\<close>

theorem user_mem_check_sound_witness:
  "user_mem_check 1 0x1FF0 16 PTE_W demo = Some (Inr (), demo)
    \<and> user_mem_check 1 0x1FF0 32 PTE_W demo = Some (Inl E_FAULT, demo\<lparr>user_mem_check_addr := 0x2000\<rparr>)
    \<and> user_mem_check 1 0xF0100000 0x0FF00000 PTE_W demo = Some (Inr (), demo)"
proof -
  have e: "env_pgdir (envs demo 1) = Some 0" using demo_fields(6) by (simp add: demo_env_def)
  have dir: "\<forall>i t. ptmap demo (0, i) = Some t \<longrightarrow> t < npage demo"
    by (simp add: demo_ptmap demo_fields)
  note spec = user_mem_check_sound [OF e dir]
  have "find (\<lambda>k. \<not> uva_ok demo 0 (PTE_W OR PTE_P OR PTE_U) (0x1FF0 + of_nat k)) [0..<16] = None"
    by (simp add: find_None_iff demo_uva_ok)
  moreover have "find (\<lambda>k. \<not> uva_ok demo 0 (PTE_W OR PTE_P OR PTE_U) (0x1FF0 + of_nat k)) [0..<32] = Some 16"
    using demo_uva_ok by (auto simp: find_Some_iff demo_uva_ok [of 16, simplified] intro!: exI [of _ 16])
  ultimately show ?thesis
    using spec [of "0x1FF0" 16 PTE_W] spec [of "0x1FF0" 32 PTE_W] spec [of "0xF0100000" "0x0FF00000" PTE_W] by simp
qed

end
