(* ===== verification/Printfmt.thy ===== *)
theory Printfmt
  imports Cstring
begin

text \<open>
  lib/printfmt.c, the formatted output shared by the kernel and the user programs, and its
  clients: kern/printf.c, lib/printf.c, lib/fprintf.c, and lib/readline.c. A format is the
  list of its bytes; reading at its length gives the null byte, and reading beyond it, or
  beyond the argument list, is \<open>None\<close>. The variable arguments are the 32-bit words on the
  stack (a long long is two words, the low one first). The output function \<open>putch\<close>, the
  object it works on, and the memory that the strings of \<open>%s\<close> are read from, which may be
  part of that object, are parameters. Widths and precisions are integers: a format whose
  width overflows an \<open>int\<close> is not modelled.
\<close>

unbundle bit_operations_syntax

text \<open>The object behind \<open>putdat\<close> and the two colour variables.\<close>

record 's pf =
  pf_data :: 's
  pf_color :: u32
  pf_background :: u32

type_synonym 's putch = "u32 \<Rightarrow> 's pf \<Rightarrow> 's pf"

definition bytes :: "string \<Rightarrow> u8 list" where
  "bytes s = map of_char s"

definition error_string :: "string list" where
  "error_string = [
     '''', ''unspecified error'', ''bad environment'', ''invalid parameter'', ''out of memory'',
     ''out of environments'', ''segmentation fault'', ''env is not recving'',
     ''unexpected end of file'', ''no free space on disk'', ''too many files are open'',
     ''file or block not found'', ''invalid path'', ''file already exists'',
     ''file is not a valid executable'', ''operation not supported'']"

text \<open>\<open>*(fmt + i)\<close>.\<close>

definition fmt_at :: "u8 list \<Rightarrow> nat \<Rightarrow> u8 option" where
  "fmt_at f i = (if i < length f then Some (f ! i) else if i = length f then Some 0 else None)"

section \<open>Numbers\<close>

definition digit_char :: "u64 \<Rightarrow> u32" where
  "digit_char d = (if d < 10 then 48 + ucast d else 87 + ucast d)"

text \<open>\<open>while (--width > 0) putch(padc, putdat)\<close>\<close>

definition put_pad :: "'s putch \<Rightarrow> int \<Rightarrow> u32 \<Rightarrow> 's pf \<Rightarrow> 's pf" where
  "put_pad putch width padc st = (putch padc ^^ nat (width - 1)) st"

text \<open>The recursion does not end for a base below 2; the callers pass 8, 10 and 16.\<close>

partial_function (option) printnum ::
  "'s putch \<Rightarrow> u64 \<Rightarrow> u64 \<Rightarrow> int \<Rightarrow> u32 \<Rightarrow> 's pf \<Rightarrow> 's pf option" where
  "printnum putch num base width padc st =
     (if base = 0 then None
      else if num \<ge> base then do {
        st1 \<leftarrow> printnum putch (num div base) base (width - 1) padc st;
        Some (putch (digit_char (num mod base)) st1)
      }
      else Some (putch (digit_char (num mod base)) (put_pad putch width padc st)))"

fun getuint :: "u32 list \<Rightarrow> nat \<Rightarrow> (u64 \<times> u32 list) option" where
  "getuint (w # ws) lflag =
     (if lflag \<ge> 2 then (case ws of [] \<Rightarrow> None | h # ws' \<Rightarrow> Some (ucast w OR push_bit 32 (ucast h), ws'))
      else Some (ucast w, ws))"
| "getuint [] lflag = None"

fun getint :: "u32 list \<Rightarrow> nat \<Rightarrow> (u64 \<times> u32 list) option" where
  "getint (w # ws) lflag =
     (if lflag \<ge> 2 then (case ws of [] \<Rightarrow> None | h # ws' \<Rightarrow> Some (ucast w OR push_bit 32 (ucast h), ws'))
      else Some (scast w, ws))"
| "getint [] lflag = None"

text \<open>The case \<open>%d\<close> from the value of \<open>getint\<close> on.\<close>

definition print_signed :: "'s putch \<Rightarrow> u64 \<Rightarrow> int \<Rightarrow> u32 \<Rightarrow> 's pf \<Rightarrow> 's pf option" where
  "print_signed putch num width padc st =
     (if sint num < 0 then printnum putch (- num) 10 width padc (putch 45 st)
      else printnum putch num 10 width padc st)"

section \<open>Strings\<close>

partial_function (option) str_len :: "(nat \<Rightarrow> u8) \<Rightarrow> nat option \<Rightarrow> nat \<Rightarrow> nat option" where
  "str_len p lim n =
     (if lim = Some n \<or> p n = 0 then Some n else str_len p lim (n + 1))"

definition plain_char :: "bool \<Rightarrow> u8 \<Rightarrow> u32" where
  "plain_char altflag c =
     (let ch = scast c :: u32
      in if altflag \<and> (sint ch < 32 \<or> sint ch > 126) then 63 else ch)"

text \<open>The characters; the result has the width that is left.\<close>

partial_function (option) put_chars ::
  "'s putch \<Rightarrow> ('s pf \<Rightarrow> nat \<Rightarrow> u8) \<Rightarrow> bool \<Rightarrow> nat \<Rightarrow> int \<Rightarrow> int \<Rightarrow> 's pf \<Rightarrow> (int \<times> 's pf) option" where
  "put_chars putch p altflag i precision width st =
     (if p st i \<noteq> 0 \<and> (precision < 0 \<or> precision - 1 \<ge> 0) then
        put_chars putch p altflag (i + 1) (if precision < 0 then precision else precision - 1)
          (width - 1) (putch (plain_char altflag (p st i)) st)
      else Some (width, st))"

text \<open>
  The case \<open>%s\<close> for the string whose bytes are \<open>p\<close>, read from memory as the output goes on
  (\<open>snprintf\<close> may write over the string it prints). A precision of -1, passed to \<open>strnlen\<close> as
  an unsigned size, is its largest value.
\<close>

definition print_str ::
  "'s putch \<Rightarrow> ('s pf \<Rightarrow> nat \<Rightarrow> u8) \<Rightarrow> bool \<Rightarrow> int \<Rightarrow> int \<Rightarrow> u32 \<Rightarrow> 's pf \<Rightarrow> 's pf option" where
  "print_str putch p altflag precision width padc st =
     do {
       (w, st1) \<leftarrow>
         (if width > 0 \<and> padc \<noteq> 45 then do {
            n \<leftarrow> str_len (p st) (Some (unat (word_of_int precision :: u32))) 0;
            let w = width - int n;
            Some (if w > 0 then 0 else w, (putch padc ^^ nat w) st)
          }
          else Some (width, st));
       (w2, st2) \<leftarrow> put_chars putch p altflag 0 precision w st1;
       Some ((putch 32 ^^ nat w2) st2)
     }"

definition lit :: "u8 list \<Rightarrow> 's \<Rightarrow> nat \<Rightarrow> u8" where
  "lit xs st i = (if i < length xs then xs ! i else 0)"

section \<open>Colours\<close>

definition color_of :: "u8 list \<Rightarrow> nat \<Rightarrow> u32 option" where
  "color_of f i =
     do {
       c0 \<leftarrow> fmt_at f i;
       if c0 \<ge> 48 \<and> c0 \<le> 57 then do {
         c1 \<leftarrow> fmt_at f (i + 1);
         c2 \<leftarrow> fmt_at f (i + 2);
         Some (((scast c0 - 48) * 10 + scast c1 - 48) * 10 + scast c2 - 48)
       }
       else if c0 = 114 then Some 4
       else if c0 = 98 then Some 3
       else if c0 = 103 then do {
         c2 \<leftarrow> fmt_at f (i + 2);
         Some (if c2 = 97 then 8 else 2)
       }
       else if c0 = 119 then Some 7
       else if c0 = 115 then Some 15
       else if c0 = 112 then Some 5
       else if c0 = 111 then Some 12
       else if c0 = 105 then Some 1
       else Some 7
     }"

section \<open>Formats\<close>

text \<open>What \<open>reswitch\<close> keeps while it reads the flags of an escape.\<close>

record flags =
  fl_padc :: u32
  fl_width :: int
  fl_precision :: int
  fl_lflag :: nat
  fl_altflag :: bool

definition flags_init :: flags where
  "flags_init = \<lparr>fl_padc = 32, fl_width = -1, fl_precision = -1, fl_lflag = 0,
     fl_altflag = False\<rparr>"

definition process_precision :: "flags \<Rightarrow> flags" where
  "process_precision fl =
     (if fl_width fl < 0 then fl\<lparr>fl_width := fl_precision fl, fl_precision := -1\<rparr> else fl)"

text \<open>The digits from index \<open>i\<close>; \<open>ch\<close> is the one before. The index is of the first non-digit.\<close>

partial_function (option) read_number :: "u8 list \<Rightarrow> nat \<Rightarrow> u8 \<Rightarrow> int \<Rightarrow> (int \<times> nat) option" where
  "read_number f i ch v =
     do {
       let v1 = v * 10 + uint ch - 48;
       c \<leftarrow> fmt_at f i;
       if c < 48 \<or> c > 57 then Some (v1, i) else read_number f (i + 1) c v1
     }"

text \<open>From \<open>reswitch\<close> to the conversion character: the character, the index after it, the flags.\<close>

partial_function (option) read_flags ::
  "u8 list \<Rightarrow> nat \<Rightarrow> u32 list \<Rightarrow> flags \<Rightarrow> (u8 \<times> nat \<times> u32 list \<times> flags) option" where
  "read_flags f i ap fl =
     do {
       ch \<leftarrow> fmt_at f i;
       if ch = 45 then read_flags f (i + 1) ap (fl\<lparr>fl_padc := 45\<rparr>)
       else if ch = 48 then read_flags f (i + 1) ap (fl\<lparr>fl_padc := 48\<rparr>)
       else if ch \<ge> 49 \<and> ch \<le> 57 then do {
         (v, j) \<leftarrow> read_number f (i + 1) ch 0;
         read_flags f j ap (process_precision (fl\<lparr>fl_precision := v\<rparr>))
       }
       else if ch = 42 then
         (case ap of
            [] \<Rightarrow> None
          | w # ap' \<Rightarrow> read_flags f (i + 1) ap' (process_precision (fl\<lparr>fl_precision := sint w\<rparr>)))
       else if ch = 46 then
         read_flags f (i + 1) ap (if fl_width fl < 0 then fl\<lparr>fl_width := 0\<rparr> else fl)
       else if ch = 35 then read_flags f (i + 1) ap (fl\<lparr>fl_altflag := True\<rparr>)
       else if ch = 108 then read_flags f (i + 1) ap (fl\<lparr>fl_lflag := fl_lflag fl + 1\<rparr>)
       else Some (ch, i + 1, ap, fl)
     }"

text \<open>
  The conversion \<open>ch\<close>. \<open>esc\<close> is the index after the \<open>%\<close>, where an unknown conversion resumes;
  \<open>i\<close> is the index after \<open>ch\<close>.
\<close>

definition convert ::
  "'s putch \<Rightarrow> ('s pf \<Rightarrow> smem) \<Rightarrow> u8 list \<Rightarrow> nat \<Rightarrow> u8 \<Rightarrow> nat \<Rightarrow> u32 list \<Rightarrow> flags \<Rightarrow> 's pf \<Rightarrow>
     (nat \<times> u32 list \<times> 's pf) option" where
  "convert putch m f esc ch i ap fl st =
     (let number = (\<lambda>r base st1. do {
            (num, ap') \<leftarrow> r;
            st2 \<leftarrow> printnum putch num base (fl_width fl) (fl_padc fl) st1;
            Some (i, ap', st2)
          })
      in
      if ch = 99 then
        (case ap of [] \<Rightarrow> None | w # ap' \<Rightarrow> Some (i, ap', putch w st))
      else if ch = 66 then do {
        c \<leftarrow> color_of f i; Some (i + 3, ap, st\<lparr>pf_background := c\<rparr>)
      }
      else if ch = 67 then do {
        c \<leftarrow> color_of f i; Some (i + 3, ap, st\<lparr>pf_color := c\<rparr>)
      }
      else if ch = 101 then
        (case ap of [] \<Rightarrow> None | w # ap' \<Rightarrow>
           let err = (if sint w < 0 then - w else w)
           in if sint err < 0 then None
              else if sint err > MAXERROR \<or> err = 0 then do {
                st1 \<leftarrow> print_str putch (lit (bytes ''error '')) False (-1) (-1) 32 st;
                st2 \<leftarrow> print_signed putch (scast err) (-1) 32 st1;
                Some (i, ap', st2)
              }
              else do {
                st1 \<leftarrow> print_str putch (lit (bytes (error_string ! unat err))) False (-1) (-1) 32 st;
                Some (i, ap', st1)
              })
      else if ch = 115 then
        (case ap of [] \<Rightarrow> None | w # ap' \<Rightarrow>
           let p = (if w = 0 then lit (bytes ''(null)'') else (\<lambda>st' k. m st' (w + of_nat k)))
           in do {
             st1 \<leftarrow> print_str putch p (fl_altflag fl) (fl_precision fl) (fl_width fl) (fl_padc fl) st;
             Some (i, ap', st1)
           })
      else if ch = 100 then do {
        (num, ap') \<leftarrow> getint ap (fl_lflag fl);
        st1 \<leftarrow> print_signed putch num (fl_width fl) (fl_padc fl) st;
        Some (i, ap', st1)
      }
      else if ch = 117 then number (getuint ap (fl_lflag fl)) 10 st
      else if ch = 111 then number (getuint ap (fl_lflag fl)) 8 st
      else if ch = 112 then number (getuint ap 0) 16 (putch 120 (putch 48 st))
      else if ch = 120 then number (getuint ap (fl_lflag fl)) 16 st
      else if ch = 37 then Some (i, ap, putch 37 st)
      else Some (esc, ap, putch 37 st))"

text \<open>\<open>vprintfmt\<close> from index \<open>i\<close> of the format on.\<close>

partial_function (option) vprintfmt_loop ::
  "'s putch \<Rightarrow> ('s pf \<Rightarrow> smem) \<Rightarrow> u8 list \<Rightarrow> nat \<Rightarrow> u32 list \<Rightarrow> 's pf \<Rightarrow> 's pf option" where
  "vprintfmt_loop putch m f i ap st =
     do {
       ch \<leftarrow> fmt_at f i;
       if ch = 0 then Some st
       else if ch \<noteq> 37 then vprintfmt_loop putch m f (i + 1) ap (putch (ucast ch) st)
       else do {
         (c, j, ap1, fl) \<leftarrow> read_flags f (i + 1) ap flags_init;
         (k, ap2, st1) \<leftarrow> convert putch m f (i + 1) c j ap1 fl st;
         vprintfmt_loop putch m f k ap2 st1
       }
     }"

definition vprintfmt :: "'s putch \<Rightarrow> ('s pf \<Rightarrow> smem) \<Rightarrow> u8 list \<Rightarrow> u32 list \<Rightarrow> 's pf \<Rightarrow> 's pf option" where
  "vprintfmt putch m f ap st = vprintfmt_loop putch m f 0 ap st"

end
