(* ===== verification/Printf.thy ===== *)
theory Printf
  imports Printfmt Console
begin

text \<open>
  The clients of \<open>vprintfmt\<close>: the bounded buffer of snprintf (lib/printfmt.c), the kernel's
  cprintf (kern/printf.c), the buffered cprintf and fprintf of the user programs
  (lib/printf.c, lib/fprintf.c), and readline (lib/readline.c).
\<close>

unbundle bit_operations_syntax

section \<open>snprintf\<close>

record sprintbuf =
  sp_buf :: u32
  sp_ebuf :: u32
  sp_cnt :: u32
  sp_mem :: smem

definition sprintputch :: "sprintbuf putch" where
  "sprintputch ch st =
     (let b = pf_data st;
          b1 = b\<lparr>sp_cnt := sp_cnt b + 1\<rparr>
      in st\<lparr>pf_data :=
           (if sp_buf b1 < sp_ebuf b1
            then b1\<lparr>sp_mem := (sp_mem b1)(sp_buf b1 := ucast ch), sp_buf := sp_buf b1 + 1\<rparr>
            else b1)\<rparr>)"

text \<open>The result: the count or the error, and the memory with the two colours.\<close>

definition vsnprintf ::
  "u32 \<Rightarrow> u32 \<Rightarrow> u8 list \<Rightarrow> u32 list \<Rightarrow> smem pf \<Rightarrow> ((errno + u32) \<times> smem pf) option" where
  "vsnprintf buf n f ap st =
     (if buf = 0 \<or> sint n < 1 then Some (Inl E_INVAL, st)
      else do {
        let b = \<lparr>sp_buf = buf, sp_ebuf = buf + n - 1, sp_cnt = 0, sp_mem = pf_data st\<rparr>;
        st1 \<leftarrow> vprintfmt sprintputch (\<lambda>t. sp_mem (pf_data t)) f ap
                 \<lparr>pf_data = b, pf_color = pf_color st, pf_background = pf_background st\<rparr>;
        let b1 = pf_data st1;
        Some (Inr (sp_cnt b1),
              \<lparr>pf_data = (sp_mem b1)(sp_buf b1 := 0), pf_color = pf_color st1,
               pf_background = pf_background st1\<rparr>)
      })"

definition snprintf ::
  "u32 \<Rightarrow> u32 \<Rightarrow> u8 list \<Rightarrow> u32 list \<Rightarrow> smem pf \<Rightarrow> ((errno + u32) \<times> smem pf) option" where
  "snprintf buf n f ap st = vsnprintf buf n f ap st"

section \<open>The kernel's cprintf (kern/printf.c)\<close>

text \<open>
  \<open>putch\<close> writes to the console and then \<open>*cnt++\<close> moves its own copy of the pointer: the
  counter keeps its value.
\<close>

record kprint =
  kp_crt :: crt
  kp_cnt :: u32

definition kputch :: "kprint putch" where
  "kputch ch st = st\<lparr>pf_data := (pf_data st)\<lparr>
     kp_crt := cons_putc (pf_color st) (pf_background st) ch (kp_crt (pf_data st))\<rparr>\<rparr>"

definition kern_vcprintf :: "smem \<Rightarrow> u8 list \<Rightarrow> u32 list \<Rightarrow> crt pf \<Rightarrow> (u32 \<times> crt pf) option" where
  "kern_vcprintf m f ap st =
     do {
       st1 \<leftarrow> vprintfmt kputch (\<lambda>_. m) f ap
                \<lparr>pf_data = \<lparr>kp_crt = pf_data st, kp_cnt = 0\<rparr>, pf_color = pf_color st,
                 pf_background = pf_background st\<rparr>;
       Some (kp_cnt (pf_data st1),
             \<lparr>pf_data = kp_crt (pf_data st1), pf_color = pf_color st1,
              pf_background = pf_background st1\<rparr>)
     }"

definition kern_cprintf :: "smem \<Rightarrow> u8 list \<Rightarrow> u32 list \<Rightarrow> crt pf \<Rightarrow> (u32 \<times> crt pf) option" where
  "kern_cprintf m f ap st = kern_vcprintf m f ap st"

section \<open>The user programs' cprintf (lib/printf.c)\<close>

text \<open>\<open>pb_sent\<close> are the arguments of the calls of \<open>sys_cputs\<close> so far.\<close>

record printbuf =
  pb_idx :: nat
  pb_cnt :: u32
  pb_buf :: "nat \<Rightarrow> u8"
  pb_sent :: "u8 list list"

definition flush_buf :: "printbuf \<Rightarrow> printbuf" where
  "flush_buf b = b\<lparr>pb_sent := pb_sent b @ [map (pb_buf b) [0..<pb_idx b]]\<rparr>"

definition uputch :: "printbuf putch" where
  "uputch ch st =
     (let b = pf_data st;
          b1 = b\<lparr>pb_buf := (pb_buf b)(pb_idx b := ucast ch), pb_idx := pb_idx b + 1\<rparr>;
          b2 = (if pb_idx b1 = 256 - 1 then (flush_buf b1)\<lparr>pb_idx := 0\<rparr> else b1)
      in st\<lparr>pf_data := b2\<lparr>pb_cnt := pb_cnt b2 + 1\<rparr>\<rparr>)"

definition user_vcprintf ::
  "smem \<Rightarrow> u8 list \<Rightarrow> u32 list \<Rightarrow> (nat \<Rightarrow> u8) \<Rightarrow> u32 \<Rightarrow> u32 \<Rightarrow> (u32 \<times> u8 list list) option" where
  "user_vcprintf m f ap garbage color background =
     do {
       st1 \<leftarrow> vprintfmt uputch (\<lambda>_. m) f ap
                \<lparr>pf_data = \<lparr>pb_idx = 0, pb_cnt = 0, pb_buf = garbage, pb_sent = []\<rparr>,
                 pf_color = color, pf_background = background\<rparr>;
       Some (pb_cnt (pf_data st1), pb_sent (flush_buf (pf_data st1)))
     }"

section \<open>fprintf (lib/fprintf.c)\<close>

text \<open>
  \<open>write\<close> is a parameter: from the device's state, the bytes to write, to its result and the
  new state.
\<close>

record 'd fprintbuf =
  fb_idx :: nat
  fb_result :: int
  fb_error :: int
  fb_buf :: "nat \<Rightarrow> u8"
  fb_dev :: 'd

definition writebuf :: "(u8 list \<Rightarrow> 'd \<Rightarrow> int \<times> 'd) \<Rightarrow> 'd fprintbuf \<Rightarrow> 'd fprintbuf" where
  "writebuf write b =
     (if fb_error b > 0 then
        (case write (map (fb_buf b) [0..<fb_idx b]) (fb_dev b) of (result, dev) \<Rightarrow>
           let b1 = b\<lparr>fb_dev := dev\<rparr>;
               b2 = (if result > 0 then b1\<lparr>fb_result := fb_result b1 + result\<rparr> else b1)
           in if result \<noteq> int (fb_idx b2)
              then b2\<lparr>fb_error := (if result < 0 then result else 0)\<rparr> else b2)
      else b)"

definition fputch :: "(u8 list \<Rightarrow> 'd \<Rightarrow> int \<times> 'd) \<Rightarrow> 'd fprintbuf putch" where
  "fputch write ch st =
     (let b = pf_data st;
          b1 = b\<lparr>fb_buf := (fb_buf b)(fb_idx b := ucast ch), fb_idx := fb_idx b + 1\<rparr>
      in st\<lparr>pf_data := (if fb_idx b1 = 256 then (writebuf write b1)\<lparr>fb_idx := 0\<rparr> else b1)\<rparr>)"

definition vfprintf ::
  "(u8 list \<Rightarrow> 'd \<Rightarrow> int \<times> 'd) \<Rightarrow> smem \<Rightarrow> u8 list \<Rightarrow> u32 list \<Rightarrow> (nat \<Rightarrow> u8) \<Rightarrow> u32 \<Rightarrow> u32 \<Rightarrow> 'd \<Rightarrow>
     (int \<times> 'd) option" where
  "vfprintf write m f ap garbage color background dev =
     do {
       st1 \<leftarrow> vprintfmt (fputch write) (\<lambda>_. m) f ap
                \<lparr>pf_data = \<lparr>fb_idx = 0, fb_result = 0, fb_error = 1, fb_buf = garbage, fb_dev = dev\<rparr>,
                 pf_color = color, pf_background = background\<rparr>;
       let b = pf_data st1;
       let b1 = (if fb_idx b > 0 then writebuf write b else b);
       Some (if fb_result b1 \<noteq> 0 then fb_result b1 else fb_error b1, fb_dev b1)
     }"

section \<open>readline (lib/readline.c)\<close>

definition BUFLEN :: nat where "BUFLEN = 1024"

datatype line_result = Line "u8 list" | Read_error | More

text \<open>
  The loop over the characters \<open>getchar\<close> returns, with the first \<open>i\<close> bytes of the static
  buffer, and the characters echoed so far. \<open>More\<close> waits for input. The terminating null byte
  goes to index \<open>i\<close>, which is below BUFLEN.
\<close>

fun readline_loop ::
  "bool \<Rightarrow> int list \<Rightarrow> (nat \<Rightarrow> u8) \<Rightarrow> nat \<Rightarrow> int list \<Rightarrow> line_result \<times> (nat \<Rightarrow> u8) \<times> int list" where
  "readline_loop echoing [] buf i out = (More, buf, out)"
| "readline_loop echoing (c # cs) buf i out =
     (if c < 0 then (Read_error, buf, out)
      else if (c = 8 \<or> c = 0x7f) \<and> i > 0 then
        readline_loop echoing cs buf (i - 1) (if echoing then out @ [8] else out)
      else if c \<ge> 32 \<and> i < BUFLEN - 1 then
        readline_loop echoing cs (buf(i := word_of_int c)) (i + 1) (if echoing then out @ [c] else out)
      else if c = 10 \<or> c = 13 then
        (Line (map buf [0..<i]), buf(i := 0), if echoing then out @ [10] else out)
      else readline_loop echoing cs buf i out)"

definition readline :: "bool \<Rightarrow> int list \<Rightarrow> (nat \<Rightarrow> u8) \<Rightarrow> line_result \<times> (nat \<Rightarrow> u8) \<times> int list" where
  "readline echoing cs buf = readline_loop echoing cs buf 0 []"

end
