(* ===== verification/Printf_Buffers.thy ===== *)
theory Printf_Buffers
  imports Printf Printf_Spec
begin

text \<open>
  The interface between \<open>vprintfmt\<close> and its output functions. Two output functions that keep
  a relation between their objects make two runs of \<open>vprintfmt\<close> that keep it; an invariant
  of one output function is the special case of a relation with itself. What the buffers of the
  printf functions do with the characters follows, each by an interpretation on the
  output function of the code.
\<close>

unbundle bit_operations_syntax

locale putch_sim =
  fixes putch :: "'s putch" and putch' :: "'t putch"
    and m :: "'s pf \<Rightarrow> smem" and m' :: "'t pf \<Rightarrow> smem"
    and R :: "'s pf \<Rightarrow> 't pf \<Rightarrow> bool"
  assumes put: "R st t \<Longrightarrow> R (putch ch st) (putch' ch t)"
    and color: "R st t \<Longrightarrow> R (st\<lparr>pf_color := c\<rparr>) (t\<lparr>pf_color := c\<rparr>)"
    and background: "R st t \<Longrightarrow> R (st\<lparr>pf_background := c\<rparr>) (t\<lparr>pf_background := c\<rparr>)"
    and mem: "R st t \<Longrightarrow> m st = m' t"
begin

lemma repeat_sim: "R st t \<Longrightarrow> R ((putch c ^^ n) st) ((putch' c ^^ n) t)"
  by (induction n) (simp_all add: put)

lemma printnum_sim:
  assumes "printnum putch num base width padc st = Some st'" and "R st t"
  shows "\<exists>t'. printnum putch' num base width padc t = Some t' \<and> R st' t'"
proof -
  have "q = putch \<longrightarrow> (\<forall>t. R st t \<longrightarrow>
      (\<exists>t'. printnum putch' num base width padc t = Some t' \<and> R st' t'))"
    if "printnum q num base width padc st = Some st'" for q
    using that
  proof (rule printnum.raw_induct [rotated], goal_cases)
    case (1 rec q num base width padc st st')
    show ?case
    proof (intro impI allI)
      fix t assume q: "q = putch" and r: "R st t"
      show "\<exists>t'. printnum putch' num base width padc t = Some t' \<and> R st' t'"
      proof (cases "base \<le> num")
        case True
        from 1(2) True obtain st1 where b: "base \<noteq> 0"
          and st1: "rec q (num div base) base (width - 1) padc st = Some st1"
          and st': "st' = putch (digit_char (num mod base)) st1"
          by (auto simp: bind_Some_iff q split: if_splits)
        from 1(1) [OF st1] q r obtain t1 where
          "printnum putch' (num div base) base (width - 1) padc t = Some t1" "R st1 t1" by blast
        with True b st' show ?thesis by (subst printnum.simps) (simp add: put)
      next
        case False
        with 1(2) have b: "base \<noteq> 0"
          and st': "st' = putch (digit_char (num mod base)) (put_pad putch width padc st)"
          by (auto simp: q split: if_splits)
        with False r show ?thesis by (subst printnum.simps) (simp add: put put_pad_def repeat_sim)
      qed
    qed
  qed
  with assms show ?thesis by blast
qed

lemma print_signed_sim:
  assumes "print_signed putch num width padc st = Some st'" and "R st t"
  shows "\<exists>t'. print_signed putch' num width padc t = Some t' \<and> R st' t'"
  using assms printnum_sim put [OF assms(2)] unfolding print_signed_def
  by (cases "sint num < 0") simp_all

lemma put_chars_sim:
  assumes "put_chars putch p altflag i precision width st = Some (w, st')" and "R st t"
    and "\<forall>s t. R s t \<longrightarrow> p s = p' t"
  shows "\<exists>t'. put_chars putch' p' altflag i precision width t = Some (w, t') \<and> R st' t'"
proof -
  have "q = putch \<and> p0 = p \<longrightarrow> (\<forall>t. R st t \<longrightarrow>
      (\<exists>t'. put_chars putch' p' altflag i precision width t = Some (fst r, t') \<and> R (snd r) t'))"
    if "put_chars q p0 altflag i precision width st = Some r" for q p0 r
    using that
  proof (rule put_chars.raw_induct [rotated], goal_cases)
    case (1 rec q p0 altflag i precision width st r)
    show ?case
    proof (intro impI allI)
      fix t assume q: "q = putch \<and> p0 = p" and rr: "R st t"
      have p: "p st = p' t" using assms(3) rr by blast
      show "\<exists>t'. put_chars putch' p' altflag i precision width t = Some (fst r, t') \<and> R (snd r) t'"
      proof (cases "p st i \<noteq> 0 \<and> (precision < 0 \<or> 0 \<le> precision - 1)")
        case True
        let ?pr = "if precision < 0 then precision else precision - 1"
        have rec: "rec q p0 altflag (i + 1) ?pr (width - 1) (putch (plain_char altflag (p st i)) st) = Some r"
          using 1(2) True q by simp
        have "R (putch (plain_char altflag (p st i)) st) (putch' (plain_char altflag (p' t i)) t)"
          using put [OF rr] p by simp
        with 1(1) [OF rec] q obtain t' where
          "put_chars putch' p' altflag (i + 1) ?pr (width - 1) (putch' (plain_char altflag (p' t i)) t)
             = Some (fst r, t')" "R (snd r) t'" by blast
        with True p show ?thesis by (subst put_chars.simps) simp
      next
        case False
        with 1(2) q have "r = (width, st)" by (simp split: if_splits)
        with False p rr show ?thesis by (subst put_chars.simps) auto
      qed
    qed
  qed
  with assms show ?thesis by fastforce
qed

lemma print_str_sim:
  assumes "print_str putch p altflag precision width padc st = Some st'" and "R st t"
    and "\<forall>s t. R s t \<longrightarrow> p s = p' t"
  shows "\<exists>t'. print_str putch' p' altflag precision width padc t = Some t' \<and> R st' t'"
proof -
  have p: "p st = p' t" using assms(2,3) by blast
  show ?thesis
  proof (cases "width > 0 \<and> padc \<noteq> 45")
    case True
    from assms(1) True obtain n w2 st2 where
      n: "str_len (p st) (Some (unat (word_of_int precision :: u32))) 0 = Some n"
      and c: "put_chars putch p altflag 0 precision (if width - int n > 0 then 0 else width - int n)
          ((putch padc ^^ nat (width - int n)) st) = Some (w2, st2)"
      and s: "st' = (putch 32 ^^ nat w2) st2"
      by (auto simp: print_str_def bind_Some_iff Let_def)
    from put_chars_sim [OF c repeat_sim [OF assms(2)] assms(3)] obtain t2 where
      "put_chars putch' p' altflag 0 precision (if width - int n > 0 then 0 else width - int n)
          ((putch' padc ^^ nat (width - int n)) t) = Some (w2, t2)" "R st2 t2" by blast
    with True n p s show ?thesis by (auto simp: print_str_def Let_def repeat_sim)
  next
    case False
    from assms(1) False obtain w2 st2 where
      c: "put_chars putch p altflag 0 precision width st = Some (w2, st2)"
      and s: "st' = (putch 32 ^^ nat w2) st2"
      by (auto simp: print_str_def bind_Some_iff)
    from put_chars_sim [OF c assms(2,3)] obtain t2 where
      "put_chars putch' p' altflag 0 precision width t = Some (w2, t2)" "R st2 t2" by blast
    with False s show ?thesis by (auto simp: print_str_def repeat_sim)
  qed
qed

lemma lit_sim: "\<forall>s t. R s t \<longrightarrow> lit xs s = lit xs t"
  by (simp add: lit_def [abs_def])

lemma number_sim:
  assumes "Option.bind r (\<lambda>(num, ap'). Option.bind (printnum putch num base width padc st)
      (\<lambda>st2. Some (i, ap', st2))) = Some (k, ap2, st')" and "R st t"
  shows "\<exists>t'. Option.bind r (\<lambda>(num, ap'). Option.bind (printnum putch' num base width padc t)
      (\<lambda>st2. Some (i, ap', st2))) = Some (k, ap2, t') \<and> R st' t'"
  using assms printnum_sim by (fastforce simp: bind_Some_iff)

lemma number_p_sim:
  assumes "Option.bind r (\<lambda>(num, ap'). Option.bind (printnum putch num 16 width padc
      (putch 120 (putch 48 st))) (\<lambda>st2. Some (i, ap', st2))) = Some (k, ap2, st')" and "R st t"
  shows "\<exists>t'. Option.bind r (\<lambda>(num, ap'). Option.bind (printnum putch' num 16 width padc
      (putch' 120 (putch' 48 t))) (\<lambda>st2. Some (i, ap', st2))) = Some (k, ap2, t') \<and> R st' t'"
  by (rule number_sim [OF assms(1)]) (intro put assms(2))

lemma convert_error_sim:
  assumes "convert putch m f esc 101 i ap fl st = Some (k, ap', st')" and "R st t"
  shows "\<exists>t'. convert putch' m' f esc 101 i ap fl t = Some (k, ap', t') \<and> R st' t'"
proof -
  obtain w ap1 where ap: "ap = w # ap1" using assms(1) by (cases ap) (simp_all add: convert_def)
  define err where "err = (if sint w < 0 then - w else w)"
  have pos: "\<not> sint err < 0" using assms(1) by (auto simp: convert_def ap Let_def err_def [symmetric])
  show ?thesis
  proof (cases "sint err > MAXERROR \<or> err = 0")
    case True
    from assms(1) True pos obtain st1 where
      a: "print_str putch (lit (bytes ''error '')) False (-1) (-1) 32 st = Some st1"
      and b: "print_signed putch (scast err) (-1) 32 st1 = Some st'" "k = i" "ap' = ap1"
      by (auto simp: convert_def ap Let_def err_def [symmetric] bind_Some_iff)
    from print_str_sim [OF a assms(2) lit_sim] obtain t1 where
      t1: "print_str putch' (lit (bytes ''error '')) False (-1) (-1) 32 t = Some t1" "R st1 t1" by blast
    from print_signed_sim [OF b(1) t1(2)] obtain t' where
      "print_signed putch' (scast err) (-1) 32 t1 = Some t'" "R st' t'" by blast
    with True pos t1 b(2,3) show ?thesis
      by (simp add: convert_def ap Let_def err_def [symmetric])
  next
    case False
    from assms(1) False pos obtain
      a: "print_str putch (lit (bytes (error_string ! unat err))) False (-1) (-1) 32 st = Some st'"
      and b: "k = i" "ap' = ap1"
      by (auto simp: convert_def ap Let_def err_def [symmetric] bind_Some_iff)
    from print_str_sim [OF a assms(2) lit_sim] obtain t' where
      "print_str putch' (lit (bytes (error_string ! unat err))) False (-1) (-1) 32 t = Some t'"
      "R st' t'" by blast
    with False pos b show ?thesis
      by (simp add: convert_def ap Let_def err_def [symmetric])
  qed
qed

lemma convert_string_sim:
  assumes "convert putch m f esc 115 i ap fl st = Some (k, ap', st')" and "R st t"
  shows "\<exists>t'. convert putch' m' f esc 115 i ap fl t = Some (k, ap', t') \<and> R st' t'"
proof -
  obtain w ap1 where ap: "ap = w # ap1" using assms(1) by (cases ap) (simp_all add: convert_def)
  define p where "p = (if w = 0 then lit (bytes ''(null)'') else (\<lambda>st' k. m st' (w + of_nat k)))"
  define p' where "p' = (if w = 0 then lit (bytes ''(null)'') else (\<lambda>st' k. m' st' (w + of_nat k)))"
  have pp: "\<forall>s t. R s t \<longrightarrow> p s = p' t"
    using mem by (simp add: p_def p'_def lit_def [abs_def])
  from assms(1) have
    a: "print_str putch p (fl_altflag fl) (fl_precision fl) (fl_width fl) (fl_padc fl) st = Some st'"
    and b: "k = i" "ap' = ap1"
    by (auto simp: convert_def ap Let_def p_def [symmetric] bind_Some_iff)
  from print_str_sim [OF a assms(2) pp] b show ?thesis
    by (auto simp: convert_def ap Let_def p'_def [symmetric])
qed

lemma convert_sim:
  assumes "convert putch m f esc ch i ap fl st = Some (k, ap', st')" and "R st t"
  shows "\<exists>t'. convert putch' m' f esc ch i ap fl t = Some (k, ap', t') \<and> R st' t'"
proof -
  consider "ch = 101" | "ch = 115" | "ch = 99" | "ch = 66" | "ch = 67" | "ch = 100" | "ch = 117"
    | "ch = 111" | "ch = 112" | "ch = 120"
    | "ch \<notin> {101, 115, 99, 66, 67, 100, 117, 111, 112, 120}" by blast
  then show ?thesis
  proof cases
    case 1
    then show ?thesis using convert_error_sim assms by blast
  next
    case 2
    then show ?thesis using convert_string_sim assms by blast
  next
    case 3
    then show ?thesis using assms by (cases ap) (auto simp: convert_def put)
  next
    case 4
    then show ?thesis using assms by (auto simp: convert_def bind_Some_iff background)
  next
    case 5
    then show ?thesis using assms by (auto simp: convert_def bind_Some_iff color)
  next
    case 6
    then show ?thesis using assms print_signed_sim by (fastforce simp: convert_def bind_Some_iff)
  next
    case 7
    show ?thesis using number_sim [OF _ assms(2)] assms(1) unfolding convert_def Let_def 7 by simp
  next
    case 8
    show ?thesis using number_sim [OF _ assms(2)] assms(1) unfolding convert_def Let_def 8 by simp
  next
    case 9
    show ?thesis using number_p_sim [OF _ assms(2)] assms(1) unfolding convert_def Let_def 9 by simp
  next
    case 10
    show ?thesis using number_sim [OF _ assms(2)] assms(1) unfolding convert_def Let_def 10 by simp
  next
    case 11
    then show ?thesis using assms by (auto simp: convert_def Let_def put)
  qed
qed

lemma loop_sim:
  assumes "vprintfmt_loop putch m f i ap st = Some st'" and "R st t"
  shows "\<exists>t'. vprintfmt_loop putch' m' f i ap t = Some t' \<and> R st' t'"
proof -
  have "q = putch \<and> m0 = m \<longrightarrow> (\<forall>t. R st t \<longrightarrow>
      (\<exists>t'. vprintfmt_loop putch' m' f i ap t = Some t' \<and> R st' t'))"
    if "vprintfmt_loop q m0 f i ap st = Some st'" for q m0
    using that
  proof (rule vprintfmt_loop.raw_induct [rotated], goal_cases)
    case (1 rec q m0 f i ap st st')
    show ?case
    proof (intro impI allI)
      fix t assume q: "q = putch \<and> m0 = m" and r: "R st t"
      obtain ch where ch: "fmt_at f i = Some ch" using 1(2) by (auto simp: bind_Some_iff)
      consider "ch = 0" | "ch \<noteq> 0" "ch \<noteq> 37" | "ch = 37" by blast
      then show "\<exists>t'. vprintfmt_loop putch' m' f i ap t = Some t' \<and> R st' t'"
      proof cases
        case c: 1
        then show ?thesis using 1(2) ch r by (subst vprintfmt_loop.simps) simp
      next
        case c: 2
        then have "rec q m0 f (i + 1) ap (putch (ucast ch) st) = Some st'" using 1(2) ch q by simp
        from 1(1) [OF this] q put [OF r] obtain t' where
          "vprintfmt_loop putch' m' f (i + 1) ap (putch' (ucast ch) t) = Some t'" "R st' t'" by blast
        then show ?thesis using c ch by (subst vprintfmt_loop.simps) simp
      next
        case c: 3
        from 1(2) c ch q obtain c' j ap1 fl k ap2 st1 where
          rf: "read_flags f (i + 1) ap flags_init = Some (c', j, ap1, fl)"
          and cv: "convert putch m f (i + 1) c' j ap1 fl st = Some (k, ap2, st1)"
          and rc: "rec q m0 f k ap2 st1 = Some st'" by (auto simp: bind_Some_iff)
        from convert_sim [OF cv r] obtain t1 where
          cv': "convert putch' m' f (i + 1) c' j ap1 fl t = Some (k, ap2, t1)" "R st1 t1" by blast
        from 1(1) [OF rc] q cv'(2) obtain t' where
          "vprintfmt_loop putch' m' f k ap2 t1 = Some t'" "R st' t'" by blast
        then show ?thesis using c ch rf cv' by (subst vprintfmt_loop.simps) simp
      qed
    qed
  qed
  with assms show ?thesis by blast
qed

lemma vprintfmt_sim:
  assumes "vprintfmt putch m f ap st = Some st'" and "R st t"
  shows "\<exists>t'. vprintfmt putch' m' f ap t = Some t' \<and> R st' t'"
  using loop_sim assms unfolding vprintfmt_def .

end

section \<open>snprintf\<close>

definition snp_inv :: "u32 \<Rightarrow> u32 \<Rightarrow> smem \<Rightarrow> sprintbuf \<Rightarrow> bool" where
  "snp_inv buf n m0 b \<longleftrightarrow> 0 < unat n \<and> unat buf + unat n \<le> 2 ^ 32 \<and> sp_ebuf b = buf + n - 1
     \<and> unat (sp_buf b - buf) < unat n \<and> (\<forall>a. unat n - 1 \<le> unat (a - buf) \<longrightarrow> sp_mem b a = m0 a)"

lemma sprint_step:
  assumes "snp_inv buf n m0 b" and "sp_buf b < sp_ebuf b"
  shows "Suc (unat (sp_buf b - buf)) < unat n" and "unat (sp_buf b + 1 - buf) = Suc (unat (sp_buf b - buf))"
proof -
  define x where "x = sp_buf b - buf"
  have b: "sp_buf b = buf + x" by (simp add: x_def)
  have n: "0 < unat n" "unat buf + unat n \<le> 2 ^ 32" "unat x < unat n" "sp_ebuf b = buf + n - 1"
    using assms(1) by (simp_all add: snp_inv_def x_def)
  have "n \<noteq> 0" using n(1) by auto
  then have n1: "unat (n - 1) = unat n - 1" by (rule unat_minus_one)
  have e: "unat (buf + (n - 1)) = unat buf + (unat n - 1)"
    using n(1,2) n1 by (subst unat_add_small) simp_all
  have "unat (buf + x) = unat buf + unat x" using n(2,3) by (intro unat_add_small) simp
  with e assms(2) have lt: "Suc (unat x) < unat n"
    unfolding b n(4) by (simp add: word_less_nat_alt add_diff_eq)
  then show "Suc (unat (sp_buf b - buf)) < unat n" by (simp add: x_def)
  have "unat (x + 1) = unat x + 1" using lt unsigned_less [of n, where 'a = nat]
    by (subst unat_add_small) simp_all
  then show "unat (sp_buf b + 1 - buf) = Suc (unat (sp_buf b - buf))"
    by (simp add: x_def algebra_simps)
qed

lemma sprintputch_inv:
  assumes "snp_inv buf n m0 (pf_data st)"
  shows "snp_inv buf n m0 (pf_data (sprintputch ch st))"
proof (cases "sp_buf (pf_data st) < sp_ebuf (pf_data st)")
  case False
  then show ?thesis using assms by (simp add: sprintputch_def Let_def snp_inv_def)
next
  case True
  from sprint_step [OF assms True] True assms show ?thesis
    by (auto simp: sprintputch_def Let_def snp_inv_def)
qed

interpretation snp: putch_sim sprintputch sprintputch "\<lambda>t. sp_mem (pf_data t)"
  "\<lambda>t. sp_mem (pf_data t)" "\<lambda>st t. st = t \<and> snp_inv buf n m0 (pf_data st)" for buf n m0
  by unfold_locales (auto simp: sprintputch_inv)

text \<open>
  snprintf writes only inside its buffer and leaves it null-terminated, whatever the
  format and the arguments are.
\<close>

theorem vsnprintf_bounds:
  assumes "vsnprintf buf n f ap st = Some (Inr c, st')" and "unat buf + unat n \<le> 2 ^ 32"
  shows "(\<exists>z. unat (z - buf) < unat n \<and> pf_data st' z = 0)
    \<and> (\<forall>a. unat n \<le> unat (a - buf) \<longrightarrow> pf_data st' a = pf_data st a)"
proof -
  let ?b = "\<lparr>sp_buf = buf, sp_ebuf = buf + n - 1, sp_cnt = 0, sp_mem = pf_data st\<rparr>"
  let ?st0 = "\<lparr>pf_data = ?b, pf_color = pf_color st, pf_background = pf_background st\<rparr>"
  from assms(1) obtain st1 where ok: "\<not> (buf = 0 \<or> sint n < 1)"
    and run: "vprintfmt sprintputch (\<lambda>t. sp_mem (pf_data t)) f ap ?st0 = Some st1"
    and d: "pf_data st' = (sp_mem (pf_data st1))(sp_buf (pf_data st1) := 0)"
    by (auto simp: vsnprintf_def Let_def bind_Some_iff split: if_splits)
  have "n \<noteq> 0" using ok by auto
  then have n0: "0 < unat n" by (simp add: unat_gt_0)
  have "snp_inv buf n (pf_data st) (pf_data ?st0)" using n0 assms(2) by (simp add: snp_inv_def)
  with snp.vprintfmt_sim [OF run] have i: "snp_inv buf n (pf_data st) (pf_data st1)" by blast
  then have "\<forall>a. unat n \<le> unat (a - buf) \<longrightarrow> pf_data st' a = pf_data st a"
    unfolding d by (auto simp: snp_inv_def)
  moreover have "unat (sp_buf (pf_data st1) - buf) < unat n" using i by (simp add: snp_inv_def)
  ultimately show ?thesis unfolding d by (metis fun_upd_same)
qed

text \<open>The format "a" into a buffer of one byte at address 16.\<close>

theorem vsnprintf_bounds_witness:
  "\<exists>c st'. vsnprintf 16 1 [97] [] (pf_of demo_mem) = Some (Inr c, st')
    \<and> (\<exists>z. unat (z - 16) < 1 \<and> pf_data st' z = 0) \<and> pf_data st' 100 = 72"
proof -
  obtain c st' where r: "vsnprintf 16 1 [97] [] (pf_of demo_mem) = Some (Inr c, st')"
    by (simp add: vsnprintf_def vprintfmt_def vprintfmt_loop.simps fmt_at_def sprintputch_def Let_def)
  from vsnprintf_bounds [OF r] have "(\<exists>z. unat (z - 16) < 1 \<and> pf_data st' z = 0)"
    "\<forall>a. 1 \<le> unat (a - 16) \<longrightarrow> pf_data st' a = demo_mem a"
    by (simp_all add: pf_of_def)
  with r show ?thesis by (force simp: demo_mem_def)
qed

section \<open>The user programs' cprintf\<close>

definition up_rel :: "u32 list pf \<Rightarrow> printbuf pf \<Rightarrow> bool" where
  "up_rel st t \<longleftrightarrow> (let b = pf_data t in
     concat (pb_sent b) @ map (pb_buf b) [0..<pb_idx b] = map ucast (pf_data st)
     \<and> pb_cnt b = of_nat (length (pf_data st)) \<and> pb_idx b < 255
     \<and> (\<forall>c \<in> set (pb_sent b). length c = 255))"

lemma uputch_rel:
  assumes "up_rel st t"
  shows "up_rel (collect ch st) (uputch ch t)"
proof -
  let ?b = "pf_data t"
  have m: "map ((pb_buf ?b)(pb_idx ?b := ucast ch)) [0..<Suc (pb_idx ?b)]
      = map (pb_buf ?b) [0..<pb_idx ?b] @ [ucast ch]"
    by (simp add: map_eq_conv)
  have a: "concat (pb_sent ?b) @ map (pb_buf ?b) [0..<pb_idx ?b] = map ucast (pf_data st)"
    "pb_cnt ?b = of_nat (length (pf_data st))" "pb_idx ?b < 255" "\<forall>c \<in> set (pb_sent ?b). length c = 255"
    using assms by (simp_all add: up_rel_def Let_def)
  show ?thesis
  proof (cases "Suc (pb_idx ?b) = 255")
    case True
    then show ?thesis
      using a m by (simp add: up_rel_def uputch_def collect_def flush_buf_def Let_def
          append_assoc [symmetric] del: append_assoc upt_Suc)
  next
    case False
    then show ?thesis
      using a m by (simp add: up_rel_def uputch_def collect_def Let_def
          append_assoc [symmetric] del: append_assoc upt_Suc)
  qed
qed

interpretation up: putch_sim collect uputch "\<lambda>_. m" "\<lambda>_. m" up_rel for m
  by unfold_locales (simp_all add: uputch_rel, simp_all add: up_rel_def)

text \<open>
  C28: the buffering of the user programs' cprintf is transparent: the calls of sys_cputs carry
  exactly the characters the format produces, in order, in chunks of at most 255 bytes, and
  the count returned is their number.
\<close>

theorem user_vcprintf_output:
  assumes "vprintfmt collect (\<lambda>_. m) f ap \<lparr>pf_data = [], pf_color = cl, pf_background = bg\<rparr> = Some out"
  shows "\<exists>chunks. user_vcprintf m f ap garbage cl bg = Some (of_nat (length (pf_data out)), chunks)
    \<and> concat chunks = map ucast (pf_data out) \<and> (\<forall>c \<in> set chunks. length c \<le> 255)"
proof -
  let ?t = "\<lparr>pf_data = \<lparr>pb_idx = 0, pb_cnt = 0, pb_buf = garbage, pb_sent = []\<rparr>,
    pf_color = cl, pf_background = bg\<rparr>"
  have "up_rel \<lparr>pf_data = [], pf_color = cl, pf_background = bg\<rparr> ?t" by (simp add: up_rel_def)
  from up.vprintfmt_sim [OF assms this] obtain t' where
    t': "vprintfmt uputch (\<lambda>_. m) f ap ?t = Some t'" "up_rel out t'" by blast
  have "length (map (pb_buf (pf_data t')) [0..<pb_idx (pf_data t')]) \<le> 255"
    using t'(2) by (simp add: up_rel_def Let_def)
  with t' show ?thesis
    by (intro exI [of _ "pb_sent (flush_buf (pf_data t'))"])
      (auto simp: user_vcprintf_def up_rel_def Let_def flush_buf_def)
qed

theorem user_vcprintf_output_witness:
  "\<exists>chunks. user_vcprintf (\<lambda>_. 0) [104, 105, 37, 100] [7] (\<lambda>_. 0) 0 0 = Some (3, chunks)
    \<and> concat chunks = [104, 105, 55]"
proof -
  have "printnum collect 7 10 (-1) 32 st = Some (collect 55 st)" for st
    using printnum_digits [of 10 collect 7 "-1" 32 st] by (simp add: digs_less dchar_def)
  then have "vprintfmt collect (\<lambda>_. \<lambda>_. 0) [104, 105, 37, 100] [7]
      \<lparr>pf_data = [], pf_color = 0, pf_background = 0\<rparr> =
      Some \<lparr>pf_data = [104, 105, 55], pf_color = 0, pf_background = 0\<rparr>"
    by (simp add: vprintfmt_def vprintfmt_loop.simps fmt_at_def collect_def read_flags.simps
        convert_def flags_init_def print_signed_def Let_def)
  from user_vcprintf_output [OF this, of "\<lambda>_. 0"] show ?thesis by auto
qed

section \<open>The kernel's cprintf\<close>

interpretation kp: putch_sim kputch kputch "\<lambda>_. m" "\<lambda>_. m"
  "\<lambda>st t. st = t \<and> kp_cnt (pf_data st) = 0" for m
  by unfold_locales (auto simp: kputch_def)

text \<open>
  the kernel's cprintf always returns 0, however many characters it prints: its putch
  increments its copy of the pointer to the counter.
\<close>

theorem kern_cprintf_zero:
  assumes "kern_cprintf m f ap st = Some (n, st')"
  shows "n = 0"
  using assms kp.vprintfmt_sim [of m f ap]
  by (fastforce simp: kern_cprintf_def kern_vcprintf_def bind_Some_iff)

section \<open>fprintf\<close>

text \<open>A device that takes every byte it is given.\<close>

definition take_all :: "u8 list \<Rightarrow> u8 list \<Rightarrow> int \<times> u8 list" where
  "take_all xs d = (int (length xs), d @ xs)"

definition fp_rel :: "u32 list pf \<Rightarrow> u8 list fprintbuf pf \<Rightarrow> bool" where
  "fp_rel st t \<longleftrightarrow> (let b = pf_data t in
     fb_dev b @ map (fb_buf b) [0..<fb_idx b] = map ucast (pf_data st)
     \<and> fb_idx b < 256 \<and> fb_error b = 1 \<and> fb_result b = int (length (fb_dev b)))"

lemma fputch_rel:
  assumes "fp_rel st t"
  shows "fp_rel (collect ch st) (fputch take_all ch t)"
proof -
  let ?b = "pf_data t"
  have m: "map ((fb_buf ?b)(fb_idx ?b := ucast ch)) [0..<Suc (fb_idx ?b)]
      = map (fb_buf ?b) [0..<fb_idx ?b] @ [ucast ch]"
    by (simp add: map_eq_conv)
  have a: "fb_dev ?b @ map (fb_buf ?b) [0..<fb_idx ?b] = map ucast (pf_data st)"
    "fb_idx ?b < 256" "fb_error ?b = 1" "fb_result ?b = int (length (fb_dev ?b))"
    using assms by (simp_all add: fp_rel_def Let_def)
  have l: "length (fb_dev ?b) + fb_idx ?b = length (pf_data st)"
    using arg_cong [OF a(1), of length] by simp
  show ?thesis
  proof (cases "Suc (fb_idx ?b) = 256")
    case True
    then show ?thesis
      using a m l by (simp add: fp_rel_def fputch_def writebuf_def take_all_def collect_def Let_def
          append_assoc [symmetric] del: append_assoc upt_Suc)
  next
    case False
    then show ?thesis
      using a m by (simp add: fp_rel_def fputch_def collect_def Let_def
          append_assoc [symmetric] del: append_assoc upt_Suc)
  qed
qed

interpretation fp: putch_sim collect "fputch take_all" "\<lambda>_. m" "\<lambda>_. m" fp_rel for m
  by unfold_locales (simp_all add: fputch_rel, simp_all add: fp_rel_def)

text \<open>
  fprintf on a device that accepts every write delivers the characters of the format, and
  returns their number, except that it returns 1 when there are none.
\<close>

theorem vfprintf_output:
  assumes "vprintfmt collect (\<lambda>_. m) f ap \<lparr>pf_data = [], pf_color = cl, pf_background = bg\<rparr> = Some out"
  shows "vfprintf take_all m f ap garbage cl bg [] =
    Some (if pf_data out = [] then 1 else int (length (pf_data out)), map ucast (pf_data out))"
proof -
  let ?t = "\<lparr>pf_data = \<lparr>fb_idx = 0, fb_result = 0, fb_error = 1, fb_buf = garbage, fb_dev = []\<rparr>,
    pf_color = cl, pf_background = bg\<rparr>"
  have "fp_rel \<lparr>pf_data = [], pf_color = cl, pf_background = bg\<rparr> ?t" by (simp add: fp_rel_def)
  from fp.vprintfmt_sim [OF assms this] obtain t' where
    t': "vprintfmt (fputch take_all) (\<lambda>_. m) f ap ?t = Some t'" "fp_rel out t'" by blast
  let ?b = "pf_data t'"
  have a: "map ucast (pf_data out) = fb_dev ?b @ map (fb_buf ?b) [0..<fb_idx ?b]"
    "fb_error ?b = 1" "fb_result ?b = int (length (fb_dev ?b))"
    using t'(2) by (simp_all add: fp_rel_def Let_def)
  have l: "length (pf_data out) = length (fb_dev ?b) + fb_idx ?b"
    using arg_cong [OF a(1), of length] by simp
  have "(pf_data out = []) = (length (fb_dev ?b) = 0 \<and> fb_idx ?b = 0)"
    using l by (metis length_0_conv add_is_0)
  then show ?thesis using t'(1) a l
    by (simp add: vfprintf_def Let_def writebuf_def take_all_def)
qed

end
