(* ===== verification/Syscall.thy ===== *)
theory Syscall
  imports Sched
begin

text \<open>
  kern/syscall.c: the system calls and their dispatcher. A call that can only return gives
  \<open>errno + 'a\<close> with the new state; one that may give up the CPU gives a \<open>flow\<close>. What the
  devices hold at the time of the call is the argument \<open>hw\<close>.
\<close>

unbundle bit_operations_syntax

record hw =
  hw_serial_exists :: bool
  hw_serial :: "u8 list"
  hw_kbd :: "u8 list"
  hw_cr2 :: u32

type_synonym 'a sysres = "((errno + 'a) \<times> kstate) option"

text \<open>
  The idiom \<open>if ((r = envid2env(envid, &e, perm)) < 0) return r;\<close> followed by uses of \<open>e\<close>.
  A null \<open>e\<close> (id 0 without a current environment) faults at the first use.
\<close>

definition with_env :: "u32 \<Rightarrow> bool \<Rightarrow> kstate \<Rightarrow> (nat \<Rightarrow> 'a sysres) \<Rightarrow> 'a sysres" where
  "with_env envid checkperm s k =
     do {
       r \<leftarrow> envid2env envid checkperm s;
       case r of
         Inl er \<Rightarrow> Some (Inl er, s)
       | Inr p \<Rightarrow> (case p of None \<Rightarrow> None | Some e \<Rightarrow> k e)
     }"

definition neg_errno :: "errno \<Rightarrow> u32" where
  "neg_errno e = word_of_int (- errcode e)"

section \<open>Console\<close>

text \<open>
  The \<open>%.*s\<close> of cprintf (lib/printfmt.c): characters up to a NUL or to the precision, which
  is unlimited when negative. The next character is read before the precision is tested.
\<close>

partial_function (option) print_str :: "u32 \<Rightarrow> int \<Rightarrow> kstate \<Rightarrow> kstate option" where
  "print_str p precision s =
     Option.bind (vread8 p s) (\<lambda>ch.
       if ch = 0 then Some s
       else if precision < 0 then print_str (p + 1) precision (s\<lparr>cons_out := cons_out s @ [ch]\<rparr>)
       else if 0 \<le> precision - 1
       then print_str (p + 1) (precision - 1) (s\<lparr>cons_out := cons_out s @ [ch]\<rparr>)
       else Some s)"

definition null_str :: "u8 list" where
  "null_str = [40, 110, 117, 108, 108, 41]"

definition sys_cputs :: "u32 \<Rightarrow> u32 \<Rightarrow> kstate \<Rightarrow> unit flow option" where
  "sys_cputs a len s =
     (case curenv s of
        None \<Rightarrow> None
      | Some c \<Rightarrow>
          call (user_mem_assert c a len PTE_U s) (\<lambda>_ s1.
            if a = 0 then
              Some (Ret () (s1\<lparr>cons_out := cons_out s1 @
                (if sint len < 0 then null_str else take (nat (sint len)) null_str)\<rparr>))
            else
              (case print_str a (sint len) s1 of
                 None \<Rightarrow> None
               | Some s2 \<Rightarrow> Some (Ret () s2))))"

definition sys_cgetc :: "hw \<Rightarrow> kstate \<Rightarrow> u32 \<times> kstate" where
  "sys_cgetc hw s =
     (case cons_getc (hw_serial_exists hw) (hw_serial hw) (hw_kbd hw) (kbd_state s, cons s) of
        (c, k, b) \<Rightarrow> (ucast c, s\<lparr>kbd_state := k, cons := b\<rparr>))"

section \<open>Environments\<close>

definition sys_getenvid :: "kstate \<Rightarrow> u32 option" where
  "sys_getenvid s = do { c \<leftarrow> curenv s; Some (env_id (envs s c)) }"

definition sys_env_destroy :: "u32 \<Rightarrow> kstate \<Rightarrow> (errno + unit) flow option" where
  "sys_env_destroy envid s =
     do {
       r \<leftarrow> envid2env envid True s;
       case r of
         Inl er \<Rightarrow> Some (Ret (Inl er) s)
       | Inr p \<Rightarrow> (case p of
           None \<Rightarrow> None
         | Some e \<Rightarrow> call (env_destroy e s) (\<lambda>_ s1. Some (Ret (Inr ()) s1)))
     }"

definition sys_yield :: "kstate \<Rightarrow> 'r flow option" where
  "sys_yield s = sched_yield s"

definition sys_exofork :: "kstate \<Rightarrow> u32 sysres" where
  "sys_exofork s =
     do {
       c \<leftarrow> curenv s;
       (r, s1) \<leftarrow> env_alloc (env_id (envs s c)) s;
       case r of
         Inl er \<Rightarrow> Some (Inl er, s1)
       | Inr e \<Rightarrow> do {
           let s2 = mod_env e (\<lambda>v. v\<lparr>env_status := ENV_NOT_RUNNABLE\<rparr>) s1;
           c2 \<leftarrow> curenv s2;
           let s3 = mod_env e (\<lambda>v. v\<lparr>env_tf := env_tf (envs s2 c2)\<rparr>) s2;
           let s4 = mod_env e (\<lambda>v. v\<lparr>env_tf := (env_tf v)\<lparr>
                      tf_regs := (tf_regs (env_tf v))\<lparr>reg_eax := 0\<rparr>\<rparr>\<rparr>) s3;
           Some (Inr (env_id (envs s4 e)), s4)
         }
     }"

definition sys_env_set_status :: "u32 \<Rightarrow> u32 \<Rightarrow> kstate \<Rightarrow> unit sysres" where
  "sys_env_set_status envid status s =
     (if status \<noteq> ENV_RUNNABLE \<and> status \<noteq> ENV_NOT_RUNNABLE then Some (Inl E_INVAL, s)
      else with_env envid True s (\<lambda>e.
        Some (Inr (), mod_env e (\<lambda>v. v\<lparr>env_status := status\<rparr>) s)))"

text \<open>
  \<open>sizeof(tf)\<close> is the size of the pointer, and the result of the check is not used: \<open>*tf\<close> is
  read through the current page tables in any case.
\<close>

definition sys_env_set_trapframe :: "u32 \<Rightarrow> u32 \<Rightarrow> kstate \<Rightarrow> unit sysres" where
  "sys_env_set_trapframe envid tf s =
     with_env envid True s (\<lambda>e. do {
       (_, s1) \<leftarrow> user_mem_check e tf 4 PTE_U s;
       f \<leftarrow> vread_Trapframe tf s1;
       let s2 = mod_env e (\<lambda>v. v\<lparr>env_tf := f\<rparr>) s1;
       let s3 = mod_env e (\<lambda>v. v\<lparr>env_tf := (env_tf v)\<lparr>tf_cs := GD_UT OR 3\<rparr>\<rparr>) s2;
       let s4 = mod_env e (\<lambda>v. v\<lparr>env_tf := (env_tf v)\<lparr>
                  tf_eflags := tf_eflags (env_tf v) OR FL_IF\<rparr>\<rparr>) s3;
       Some (Inr (), s4)
     })"

definition sys_env_set_pgfault_upcall :: "u32 \<Rightarrow> u32 \<Rightarrow> kstate \<Rightarrow> unit sysres" where
  "sys_env_set_pgfault_upcall envid func s =
     with_env envid True s (\<lambda>e.
       Some (Inr (), mod_env e (\<lambda>v. v\<lparr>env_pgfault_upcall := func\<rparr>) s))"

definition sys_env_set_priority :: "u32 \<Rightarrow> u32 \<Rightarrow> kstate \<Rightarrow> unit sysres" where
  "sys_env_set_priority envid priority s =
     with_env envid True s (\<lambda>e.
       Some (Inr (), mod_env e (\<lambda>v. v\<lparr>env_priority := priority\<rparr>) s))"

definition sys_env_restore :: "u32 \<Rightarrow> kstate \<Rightarrow> (errno + unit) flow option" where
  "sys_env_restore envid s =
     do {
       r \<leftarrow> envid2env envid False s;
       case r of
         Inl er \<Rightarrow> Some (Ret (Inl er) s)
       | Inr p \<Rightarrow> (case p of
           None \<Rightarrow> None
         | Some e \<Rightarrow>
             if env_status (envs s e) \<noteq> ENV_NOT_RUNNABLE then Some (Ret (Inl E_INVAL) s)
             else call (sys_env_destroy 0 (mod_env e (\<lambda>v. v\<lparr>env_status := ENV_RUNNABLE\<rparr>) s))
                    (\<lambda>_ s1. Some (Ret (Inr ()) s1)))
     }"

definition sys_env_set_gpfault_upcall :: "u32 \<Rightarrow> u32 \<Rightarrow> kstate \<Rightarrow> unit sysres" where
  "sys_env_set_gpfault_upcall envid func s =
     with_env envid True s (\<lambda>e.
       Some (Inr (), mod_env e (\<lambda>v. v\<lparr>env_gpfault_upcall := func\<rparr>) s))"

definition sys_env_set_divide_upcall :: "u32 \<Rightarrow> u32 \<Rightarrow> kstate \<Rightarrow> unit sysres" where
  "sys_env_set_divide_upcall envid func s =
     with_env envid True s (\<lambda>e.
       Some (Inr (), mod_env e (\<lambda>v. v\<lparr>env_divide_upcall := func\<rparr>) s))"

definition sys_env_set_illop_upcall :: "u32 \<Rightarrow> u32 \<Rightarrow> kstate \<Rightarrow> unit sysres" where
  "sys_env_set_illop_upcall envid func s =
     with_env envid True s (\<lambda>e.
       Some (Inr (), mod_env e (\<lambda>v. v\<lparr>env_illop_upcall := func\<rparr>) s))"

section \<open>Memory\<close>

definition bad_va :: "u32 \<Rightarrow> bool" where
  "bad_va va \<longleftrightarrow> va \<ge> UTOP \<or> va mod PGSIZE \<noteq> 0"

definition bad_perm :: "u32 \<Rightarrow> bool" where
  "bad_perm perm \<longleftrightarrow> perm AND PTE_U = 0 \<or> perm AND PTE_P = 0 \<or> perm OR PTE_USER \<noteq> PTE_USER"

definition sys_page_alloc :: "u32 \<Rightarrow> u32 \<Rightarrow> u32 \<Rightarrow> kstate \<Rightarrow> unit sysres" where
  "sys_page_alloc envid va perm s =
     (if bad_va va \<or> bad_perm perm then Some (Inl E_INVAL, s)
      else with_env envid True s (\<lambda>e. do {
        (r, s1) \<leftarrow> page_alloc s;
        case r of
          Inl er \<Rightarrow> Some (Inl er, s1)
        | Inr pp \<Rightarrow> do {
            d \<leftarrow> env_pgdir (envs s1 e);
            (r2, s2) \<leftarrow> page_insert d pp va perm s1;
            case r2 of
              Inl er \<Rightarrow> Some (Inl er, page_free pp s2)
            | Inr _ \<Rightarrow> do {
                d2 \<leftarrow> env_pgdir (envs s2 e);
                (p, _, s3) \<leftarrow> page_lookup d2 va s2;
                pp2 \<leftarrow> p;
                kva \<leftarrow> page2kva (npage s3) pp2;
                Some (Inr (), zero_page (fst (kptr kva 0)) s3)
              }
          }
      }))"

text \<open>
  The part common to \<open>sys_page_map\<close> and \<open>sys_ipc_try_send\<close>: look the page up in the
  source, check that a writable mapping is not made from a read-only one, insert.
\<close>

definition share_page :: "nat \<Rightarrow> u32 \<Rightarrow> nat \<Rightarrow> u32 \<Rightarrow> u32 \<Rightarrow> kstate \<Rightarrow> unit sysres" where
  "share_page srcenv srcva dstenv dstva perm s =
     do {
       d \<leftarrow> env_pgdir (envs s srcenv);
       (p, pte, s1) \<leftarrow> page_lookup d srcva s;
       case p of
         None \<Rightarrow> Some (Inl E_INVAL, s1)
       | Some pp \<Rightarrow> do {
           ptep \<leftarrow> pte;
           if perm AND PTE_W \<noteq> 0 \<and> rd s1 ptep AND PTE_W = 0 then Some (Inl E_INVAL, s1)
           else do {
             d2 \<leftarrow> env_pgdir (envs s1 dstenv);
             (r, s2) \<leftarrow> page_insert d2 pp dstva perm s1;
             case r of
               Inl er \<Rightarrow> Some (Inl er, page_free pp s2)
             | Inr _ \<Rightarrow> Some (Inr (), s2)
           }
         }
     }"

definition sys_page_map :: "u32 \<Rightarrow> u32 \<Rightarrow> u32 \<Rightarrow> u32 \<Rightarrow> u32 \<Rightarrow> kstate \<Rightarrow> unit sysres" where
  "sys_page_map srcenvid srcva dstenvid dstva perm s =
     (if bad_va srcva \<or> bad_va dstva \<or> bad_perm perm then Some (Inl E_INVAL, s)
      else with_env srcenvid True s (\<lambda>src.
        with_env dstenvid True s (\<lambda>dst.
          share_page src srcva dst dstva perm s)))"

definition sys_page_unmap :: "u32 \<Rightarrow> u32 \<Rightarrow> kstate \<Rightarrow> unit sysres" where
  "sys_page_unmap envid va s =
     (if bad_va va then Some (Inl E_INVAL, s)
      else with_env envid True s (\<lambda>e. do {
        d \<leftarrow> env_pgdir (envs s e);
        s1 \<leftarrow> page_remove d va s;
        Some (Inr (), s1)
      }))"

section \<open>Messages\<close>

text \<open>The delivery at the end of \<open>sys_ipc_try_send\<close>.\<close>

definition ipc_deliver :: "nat \<Rightarrow> nat \<Rightarrow> u32 \<Rightarrow> kstate \<Rightarrow> unit sysres" where
  "ipc_deliver src dst value s =
     do {
       from \<leftarrow> sys_getenvid s;
       let s1 = mod_env dst (\<lambda>v. v\<lparr>env_ipc_recving := False, env_ipc_from := from,
                  env_ipc_value := value, env_status := ENV_RUNNABLE,
                  env_tf := (env_tf v)\<lparr>tf_regs := (tf_regs (env_tf v))\<lparr>reg_eax := 0\<rparr>\<rparr>\<rparr>) s;
       let s2 = mod_env src (\<lambda>v. v\<lparr>env_ipc_sended := (env_ipc_sended v + 1) mod 0xFFFFFFFF\<rparr>) s1;
       Some (Inr (), s2)
     }"

definition sys_ipc_try_send ::
  "u32 \<Rightarrow> u32 \<Rightarrow> u32 \<Rightarrow> u32 \<Rightarrow> kstate \<Rightarrow> (errno + unit) flow option" where
  "sys_ipc_try_send envid value srcva perm s =
     do {
       src \<leftarrow> curenv s;
       r \<leftarrow> envid2env envid False s;
       case r of
         Inl er \<Rightarrow> Some (Ret (Inl er) s)
       | Inr p \<Rightarrow> (case p of
           None \<Rightarrow> None
         | Some dst \<Rightarrow>
             if \<not> env_ipc_recving (envs s dst) \<or> env_ipc_from (envs s dst) \<noteq> 0 then
               if waiting_env_num s = NENV then None
               else
                 let n = waiting_env_num s;
                     s1 = s\<lparr>waiting_srcenv_ids := (waiting_srcenv_ids s)(n := env_id (envs s src)),
                            waiting_dstenv_ids := (waiting_dstenv_ids s)(n := envid),
                            waiting_env_num := n + 1\<rparr>;
                     s2 = mod_env src (\<lambda>v. v\<lparr>env_status := ENV_NOT_RUNNABLE\<rparr>) s1
                 in sched_yield s2
             else
               let res =
                 (if srcva < UTOP \<and> env_ipc_dstva (envs s dst) < UTOP then
                    if srcva mod PGSIZE \<noteq> 0 \<or> bad_perm perm then Some (Inl E_INVAL, s)
                    else do {
                      (r, s1) \<leftarrow> share_page src srcva dst (env_ipc_dstva (envs s dst)) perm s;
                      case r of
                        Inl er \<Rightarrow> Some (Inl er, s1)
                      | Inr _ \<Rightarrow>
                          ipc_deliver src dst value
                            (mod_env dst (\<lambda>v. v\<lparr>env_ipc_perm := perm\<rparr>) s1)
                    }
                  else
                    ipc_deliver src dst value (mod_env dst (\<lambda>v. v\<lparr>env_ipc_perm := 0\<rparr>) s))
               in (case res of None \<Rightarrow> None | Some (r, s') \<Rightarrow> Some (Ret r s')))
     }"

text \<open>Remove entry \<open>i\<close> from the two arrays of waiting senders.\<close>

definition waiting_remove :: "nat \<Rightarrow> kstate \<Rightarrow> kstate" where
  "waiting_remove i s =
     (let n = waiting_env_num s;
          shift = (\<lambda>(a :: nat \<Rightarrow> u32) j. if i \<le> j \<and> j < n - 1 then a (j + 1) else a j)
      in s\<lparr>waiting_srcenv_ids := shift (waiting_srcenv_ids s),
           waiting_dstenv_ids := shift (waiting_dstenv_ids s),
           waiting_env_num := n - 1\<rparr>)"

definition waiting_find :: "u32 \<Rightarrow> kstate \<Rightarrow> nat option" where
  "waiting_find envid s =
     find (\<lambda>i. waiting_dstenv_ids s i = envid) [0..<waiting_env_num s]"

definition sys_ipc_recv :: "u32 \<Rightarrow> kstate \<Rightarrow> (errno + unit) flow option" where
  "sys_ipc_recv dstva s =
     do {
       dst \<leftarrow> curenv s;
       let s1 = mod_env dst (\<lambda>v. v\<lparr>env_ipc_from := 0, env_ipc_recving := True,
                  env_ipc_dstva := dstva, env_status := ENV_NOT_RUNNABLE\<rparr>) s;
       if dstva < UTOP \<and> dstva mod PGSIZE \<noteq> 0 then Some (Ret (Inl E_INVAL) s1)
       else
         (case waiting_find (env_id (envs s1 dst)) s1 of
            None \<Rightarrow> sched_yield s1
          | Some i \<Rightarrow> do {
              r \<leftarrow> envid2env (waiting_srcenv_ids s1 i) False s1;
              case r of
                Inl er \<Rightarrow> Some (Ret (Inl er) s1)
              | Inr p \<Rightarrow> do {
                  src \<leftarrow> p;
                  let s2 = mod_env src (\<lambda>v. v\<lparr>env_tf := (env_tf v)\<lparr>
                             tf_regs := (tf_regs (env_tf v))\<lparr>reg_eax := neg_errno E_IPC_NOT_RECV\<rparr>\<rparr>,
                             env_status := ENV_RUNNABLE\<rparr>) s1;
                  sched_yield (waiting_remove i s2)
                }
            })
     }"

section \<open>The dispatcher\<close>

definition SYS_cputs :: u32 where "SYS_cputs = 0"
definition SYS_cgetc :: u32 where "SYS_cgetc = 1"
definition SYS_getenvid :: u32 where "SYS_getenvid = 2"
definition SYS_env_destroy :: u32 where "SYS_env_destroy = 3"
definition SYS_page_alloc :: u32 where "SYS_page_alloc = 4"
definition SYS_page_map :: u32 where "SYS_page_map = 5"
definition SYS_page_unmap :: u32 where "SYS_page_unmap = 6"
definition SYS_exofork :: u32 where "SYS_exofork = 7"
definition SYS_env_set_status :: u32 where "SYS_env_set_status = 8"
definition SYS_env_set_trapframe :: u32 where "SYS_env_set_trapframe = 9"
definition SYS_env_set_pgfault_upcall :: u32 where "SYS_env_set_pgfault_upcall = 10"
definition SYS_yield :: u32 where "SYS_yield = 11"
definition SYS_ipc_try_send :: u32 where "SYS_ipc_try_send = 12"
definition SYS_ipc_recv :: u32 where "SYS_ipc_recv = 13"
definition SYS_env_set_priority :: u32 where "SYS_env_set_priority = 14"
definition SYS_env_restore :: u32 where "SYS_env_restore = 15"
definition SYS_env_set_gpfault_upcall :: u32 where "SYS_env_set_gpfault_upcall = 16"
definition SYS_env_set_divide_upcall :: u32 where "SYS_env_set_divide_upcall = 17"
definition SYS_env_set_illop_upcall :: u32 where "SYS_env_set_illop_upcall = 18"
definition SYS_page_map_update_perm :: u32 where "SYS_page_map_update_perm = 19"
definition SYS_uxstack_pgfault_status :: u32 where "SYS_uxstack_pgfault_status = 20"
definition NSYSCALLS :: u32 where "NSYSCALLS = 21"

lemmas sysno_defs =
  SYS_cputs_def SYS_cgetc_def SYS_getenvid_def SYS_env_destroy_def SYS_page_alloc_def
  SYS_page_map_def SYS_page_unmap_def SYS_exofork_def SYS_env_set_status_def
  SYS_env_set_trapframe_def SYS_env_set_pgfault_upcall_def SYS_yield_def
  SYS_ipc_try_send_def SYS_ipc_recv_def SYS_env_set_priority_def SYS_env_restore_def
  SYS_env_set_gpfault_upcall_def SYS_env_set_divide_upcall_def SYS_env_set_illop_upcall_def
  SYS_page_map_update_perm_def SYS_uxstack_pgfault_status_def NSYSCALLS_def

text \<open>The value a call returns in eax.\<close>

definition ret_unit :: "unit sysres \<Rightarrow> u32 flow option" where
  "ret_unit r = (case r of
     None \<Rightarrow> None
   | Some (Inl er, s) \<Rightarrow> Some (Ret (neg_errno er) s)
   | Some (Inr _, s) \<Rightarrow> Some (Ret 0 s))"

definition ret_word :: "u32 sysres \<Rightarrow> u32 flow option" where
  "ret_word r = (case r of
     None \<Rightarrow> None
   | Some (Inl er, s) \<Rightarrow> Some (Ret (neg_errno er) s)
   | Some (Inr v, s) \<Rightarrow> Some (Ret v s))"

definition ret_flow :: "(errno + unit) flow option \<Rightarrow> u32 flow option" where
  "ret_flow f = call f (\<lambda>r s. Some (Ret (case r of Inl er \<Rightarrow> neg_errno er | Inr _ \<Rightarrow> 0) s))"

definition syscall ::
  "hw \<Rightarrow> u32 \<Rightarrow> u32 \<Rightarrow> u32 \<Rightarrow> u32 \<Rightarrow> u32 \<Rightarrow> u32 \<Rightarrow> kstate \<Rightarrow> u32 flow option" where
  "syscall hw no a1 a2 a3 a4 a5 s =
     (if no = SYS_cputs then call (sys_cputs a1 a2 s) (\<lambda>_ s1. Some (Ret 0 s1))
      else if no = SYS_cgetc then (case sys_cgetc hw s of (c, s1) \<Rightarrow> Some (Ret c s1))
      else if no = SYS_getenvid then do { i \<leftarrow> sys_getenvid s; Some (Ret i s) }
      else if no = SYS_env_destroy then ret_flow (sys_env_destroy a1 s)
      else if no = SYS_yield then sys_yield s
      else if no = SYS_page_alloc then ret_unit (sys_page_alloc a1 a2 a3 s)
      else if no = SYS_page_map then ret_unit (sys_page_map a1 a2 a3 a4 a5 s)
      else if no = SYS_page_unmap then ret_unit (sys_page_unmap a1 a2 s)
      else if no = SYS_exofork then ret_word (sys_exofork s)
      else if no = SYS_env_set_status then ret_unit (sys_env_set_status a1 a2 s)
      else if no = SYS_env_set_pgfault_upcall then ret_unit (sys_env_set_pgfault_upcall a1 a2 s)
      else if no = SYS_env_set_priority then ret_unit (sys_env_set_priority a1 a2 s)
      else if no = SYS_env_restore then ret_flow (sys_env_restore a1 s)
      else if no = SYS_env_set_gpfault_upcall then ret_unit (sys_env_set_gpfault_upcall a1 a2 s)
      else if no = SYS_env_set_divide_upcall then ret_unit (sys_env_set_divide_upcall a1 a2 s)
      else if no = SYS_env_set_illop_upcall then ret_unit (sys_env_set_illop_upcall a1 a2 s)
      else if no = SYS_page_map_update_perm then
        (case sys_page_map a1 a2 a3 a4 a5 s of
           None \<Rightarrow> None
         | Some (Inl er, s1) \<Rightarrow> Some (Ret (neg_errno er) s1)
         | Some (Inr _, s1) \<Rightarrow> ret_unit (sys_page_map a1 a2 a1 a4 a5 s1))
      else if no = SYS_uxstack_pgfault_status then
        (case sys_page_alloc a1 a2 a3 s of
           None \<Rightarrow> None
         | Some (Inl er, s1) \<Rightarrow> Some (Ret (neg_errno er) s1)
         | Some (Inr _, s1) \<Rightarrow>
             (case sys_env_set_pgfault_upcall a1 a4 s1 of
                None \<Rightarrow> None
              | Some (Inl er, s2) \<Rightarrow> Some (Ret (neg_errno er) s2)
              | Some (Inr _, s2) \<Rightarrow>
                  if a5 \<noteq> ENV_NOT_SET then ret_unit (sys_env_set_status a1 a5 s2)
                  else Some (Ret 0 s2)))
      else if no = SYS_ipc_try_send then ret_flow (sys_ipc_try_send a1 a2 a3 a4 s)
      else if no = SYS_ipc_recv then ret_flow (sys_ipc_recv a1 s)
      else if no = SYS_env_set_trapframe then ret_unit (sys_env_set_trapframe a1 a2 s)
      else Some (Ret (neg_errno E_INVAL) s))"

end
