(* ===== verification/Syscall_Inv.thy ===== *)
theory Syscall_Inv
  imports Syscall Env_Alloc
begin

text \<open>
  The memory system calls of kern/syscall.c keep the reference-count invariant; what they map
  where.
\<close>

unbundle bit_operations_syntax

section \<open>Data pages\<close>

lemma mapped_data:
  assumes inv: "mm_inv s D K fl" and x: "x \<in> leafslots D" and p: "leafmap s x = Some p"
  shows "data_page s D fl p"
proof -
  note fin = mm_invD(2) [OF inv]
  have pos: "0 < nrefs (leafmap s) (leafslots D) p" using fin x p by (simp add: nrefs_pos)
  have "p \<notin> D" using mm_invD(8) [OF inv, of p] pos by auto
  moreover have "p \<notin> set fl" using mm_inv_free(6) [OF inv _ x, of p] p by auto
  moreover have "ptmap s y \<noteq> Some p" if "y \<in> ptslots D" for y
    using mm_inv_table(5) [OF inv that, of p] pos by auto
  ultimately show ?thesis
    using mm_invD(9) [OF inv x p] fin by (simp add: data_page_def nrefs_zero)
qed

text \<open>Changing the contents of a data page changes no translation and no count.\<close>

lemma mm_data_write:
  assumes inv: "mm_inv s D K fl" and p: "p \<notin> D" "nrefs (ptmap s) (ptslots D) p = 0"
    and m: "\<forall>f. f \<noteq> p \<longrightarrow> mem s' f = mem s f"
    and f: "npage s' = npage s" "pp_ref s' = pp_ref s" "page_free_list s' = page_free_list s"
  shows "mm_inv s' D K fl" and "\<And>y. y \<in> leafslots D \<Longrightarrow> leafpte s' y = leafpte s y"
    and "\<And>y. y \<in> ptslots D \<Longrightarrow> ptmap s' y = ptmap s y"
proof -
  note fin = mm_invD(2) [OF inv]
  have pt: "ptmap s' y = ptmap s y" if y0: "y \<in> ptslots D" for y
  proof -
    obtain a i where y: "y = (a, i)" "a \<in> D" using y0 by (cases y) (auto simp: ptslots_def)
    with p(1) have "a \<noteq> p" by auto
    with y m show ?thesis by (simp add: ptmap_def)
  qed
  show "\<And>y. y \<in> ptslots D \<Longrightarrow> ptmap s' y = ptmap s y" by (rule pt)
  have lp: "leafpte s' y = leafpte s y" if y: "y \<in> leafslots D" for y
  proof -
    obtain d i j where y': "y = (d, i, j)" by (cases y) auto
    have sl: "(d, i) \<in> ptslots D" using y y' slots_sub by blast
    have "t \<noteq> p" if "ptmap s (d, i) = Some t" for t
      using p(2) fin sl that by (auto simp: nrefs_zero)
    then show ?thesis using pt [OF sl] m y' by (auto simp: leafpte_def split: option.splits)
  qed
  show "\<And>y. y \<in> leafslots D \<Longrightarrow> leafpte s' y = leafpte s y" by (rule lp)
  have np: "nrefs (ptmap s') (ptslots D) q = nrefs (ptmap s) (ptslots D) q" for q
    by (rule nrefs_cong) (rule pt)
  have nl: "nrefs (leafmap s') (leafslots D) q = nrefs (leafmap s) (leafslots D) q" for q
    by (rule nrefs_cong) (simp add: leafmap_def lp)
  have tab: "t < npage s \<and> t \<notin> D \<and> K t = 0 \<and> nrefs (ptmap s) (ptslots D) t = 1
      \<and> nrefs (leafmap s) (leafslots D) t = 0"
    if "y \<in> ptslots D" "ptmap s' y = Some t" for y t
    using mm_inv_table [OF inv that(1)] pt [OF that(1)] that(2) by simp
  have bnd: "q < npage s" if "y \<in> leafslots D" "leafmap s' y = Some q" for y q
    using mm_invD(9) [OF inv that(1), of q] lp [OF that(1)] that(2) by (simp add: leafmap_def)
  show "mm_inv s' D K fl"
    unfolding mm_inv_def
    using mm_invD(1,3,5,6,7,8) [OF inv] fin f np nl tab bnd
    by (simp add: pages_wf_def total_refs_def)
qed

section \<open>Arguments\<close>

lemma good_perm_lt: "\<not> bad_perm perm \<Longrightarrow> unat perm < 4096"
proof -
  assume "\<not> bad_perm perm"
  then have "perm OR PTE_USER = PTE_USER" by (simp add: bad_perm_def)
  then have "perm AND PTE_USER = perm AND (perm OR PTE_USER)" by simp
  also have "\<dots> = perm" by (rule bit_word_eqI) (auto simp: bit_simps)
  finally have "perm \<le> PTE_USER" by (metis word_and_le1)
  then have "unat perm \<le> unat PTE_USER" by (simp add: word_le_nat_alt)
  then show ?thesis by (simp add: PTE_USER_def pte_flags)
qed

lemma good_va_lt: "\<not> bad_va va \<Longrightarrow> va < UTOP"
  by (simp add: bad_va_def not_le)

section \<open>sys\_page\_alloc\<close>

lemma page_alloc_data:
  assumes inv: "mm_inv s D K (pp # fl)" and inv1: "mm_inv (s\<lparr>page_free_list := l\<rparr>) D K fl"
  shows "data_page (s\<lparr>page_free_list := l\<rparr>) D fl pp"
proof -
  note fr = mm_inv_free [OF inv, of pp, simplified]
  have "distinct (pp # fl)"
    using mm_invD(1) [OF inv] tailq.repr_distinct unfolding pages_wf_def by blast
  then show ?thesis using fr mm_invD(2) [OF inv] by (auto simp: data_page_def nrefs_zero)
qed

lemma sys_page_alloc_maps:
  assumes inv: "mm_inv s D K (pp # fl)" and e: "envid2env envid True s = Some (Inr (Some e))"
    and d: "env_pgdir (envs s e) = Some d" "d \<in> D" and va: "\<not> bad_va va" and perm: "\<not> bad_perm perm"
    and room: "ptmap s (d, unat (PDX va)) \<noteq> None \<or> fl \<noteq> []"
  shows "\<exists>s'. sys_page_alloc envid va perm s = Some (Inr (), s')
    \<and> mm_inv s' D K (insert_free s d va pp fl)
    \<and> mem s' pp = (\<lambda>_. 0)
    \<and> (\<forall>y \<in> leafslots D. leafpte s' y = ((leafpte s)(slot d va := mkpte pp perm)) y)
    \<and> (\<exists>l s2. page_insert d pp va perm (s\<lparr>page_free_list := l\<rparr>) = Some (Inr (), s2)
        \<and> mm_inv (s\<lparr>page_free_list := l\<rparr>) D K fl \<and> s' = zero_page pp s2)"
proof -
  obtain l where l: "page_alloc s = Some (Inr pp, s\<lparr>page_free_list := l\<rparr>)"
    and inv1: "mm_inv (s\<lparr>page_free_list := l\<rparr>) D K fl"
    using mm_alloc [OF inv] by blast
  let ?s1 = "s\<lparr>page_free_list := l\<rparr>"
  note va' = good_va_lt [OF va] and perm' = good_perm_lt [OF perm]
  note dp = page_alloc_data [OF inv inv1]
  have ref: "unat (pp_ref ?s1 pp) < 65535" using mm_inv_free(2) [OF inv, of pp] by simp
  have room1: "ptmap ?s1 (d, unat (PDX va)) \<noteq> None \<or> fl \<noteq> []" using room by simp
  obtain s2 where s2: "page_insert d pp va perm ?s1 = Some (Inr (), s2)"
    "mm_inv s2 D K (insert_free ?s1 d va pp fl)" "npage s2 = npage s"
    "\<forall>y \<in> leafslots D. leafpte s2 y = ((leafpte s)(slot d va := mkpte pp perm)) y"
    using insert_ok [OF inv1 d(2) va' dp ref perm' room1] by auto
  have ifr: "insert_free ?s1 d va pp fl = insert_free s d va pp fl"
    by (cases "leafmap s (slot d va)") (simp_all add: insert_free_def)
  have e2: "env_pgdir (envs s2 e) = Some d"
    using insert_tlb [OF s2(1)] d(1) by (simp add: same_rest_def)
  have pn: "pp < npage s" "pp < 2 ^ 20"
    using mm_inv_free(1) [OF inv, of pp] mm_invD(4) [OF inv] by auto
  have sl: "slot d va \<in> leafslots D" by (rule slot_in(1) [OF d(2) va'])
  have lf: "leafmap s2 (slot d va) = Some pp"
    using s2(4) sl pn perm' by (simp add: leafmap_def)
  then obtain pt where lk: "page_lookup d va s2 = Some (Some pp, pt, s2)"
    using lookup_ok [OF s2(2) d(2) va'] by auto
  obtain kva where kva: "page2kva (npage s2) pp = Some kva" "kptr kva 0 = (pp, unat (0::u32))"
    using page2kva_ok [of pp "npage s2" 0] pn(1) s2(3) mm_invD(4) [OF s2(2)] by auto
  have run: "sys_page_alloc envid va perm s = Some (Inr (), zero_page pp s2)"
    using va perm e l d(1) s2(1) e2 lk kva
    by (simp add: sys_page_alloc_def with_env_def)
  have dat: "pp \<notin> D" "nrefs (ptmap s2) (ptslots D) pp = 0"
    using mapped_data [OF s2(2) sl lf] by (simp_all add: data_page_def)
  have zm: "\<forall>f. f \<noteq> pp \<longrightarrow> mem (zero_page pp s2) f = mem s2 f" by (simp add: zero_page_def)
  note z = mm_data_write [OF s2(2) dat zm]
  have "npage (zero_page pp s2) = npage s2" "pp_ref (zero_page pp s2) = pp_ref s2"
    "page_free_list (zero_page pp s2) = page_free_list s2"
    by (simp_all add: zero_page_def)
  note z' = z [OF this]
  show ?thesis
    using run z'(1,2) s2(4) ifr s2(1) inv1
    by (intro exI [of _ "zero_page pp s2"] conjI exI [of _ l] exI [of _ s2]) (simp_all add: zero_page_def)
qed

lemma sys_page_alloc_nomem:
  assumes inv: "mm_inv s D K [pp]" and e: "envid2env envid True s = Some (Inr (Some e))"
    and d: "env_pgdir (envs s e) = Some d" "d \<in> D" and va: "\<not> bad_va va" and perm: "\<not> bad_perm perm"
    and none: "ptmap s (d, unat (PDX va)) = None"
  shows "\<exists>s'. sys_page_alloc envid va perm s = Some (Inl E_NO_MEM, s') \<and> mm_inv s' D K [pp]
    \<and> mem s' = mem s \<and> envs s' = envs s"
proof -
  obtain l where l: "page_alloc s = Some (Inr pp, s\<lparr>page_free_list := l\<rparr>)"
    and inv1: "mm_inv (s\<lparr>page_free_list := l\<rparr>) D K []"
    using mm_alloc [OF inv] by blast
  let ?s1 = "s\<lparr>page_free_list := l\<rparr>"
  have "ptmap ?s1 (d, unat (PDX va)) = None" using none by simp
  from insert_nomem [OF inv1 this]
  have ins: "page_insert d pp va perm ?s1 = Some (Inl E_NO_MEM, ?s1)" .
  then have run: "sys_page_alloc envid va perm s = Some (Inl E_NO_MEM, page_free pp ?s1)"
    using va perm e l d(1) by (simp add: sys_page_alloc_def with_env_def)
  have "is_list (page_free_list ?s1) []" using mm_invD(1) [OF inv1] by (simp add: pages_wf_def)
  then have ls: "is_list (page_free_list (page_free pp ?s1)) [pp]"
    by (simp add: page_free_def tailq.repr_insert)
  have tot: "total_refs (page_free pp ?s1) D K = total_refs ?s1 D K"
    by (simp add: total_refs_def fun_eq_iff)
  have "mm_inv (page_free pp ?s1) D K [pp]"
    using inv1 inv ls by (simp add: mm_inv_def pages_wf_def total_refs_def page_free_def)
  then show ?thesis
    using run by (intro exI [of _ "page_free pp ?s1"]) (simp add: page_free_def)
qed

section \<open>Sharing a page\<close>

lemma share_page_maps:
  assumes inv: "mm_inv s D K fl" and src: "env_pgdir (envs s src) = Some d1" "d1 \<in> D"
    and dst: "env_pgdir (envs s dst) = Some d2" "d2 \<in> D"
    and va: "srcva < UTOP" "dstva < UTOP" and perm: "unat perm < 4096"
    and pp: "leafmap s (slot d1 srcva) = Some pp"
    and w: "perm AND PTE_W \<noteq> 0 \<longrightarrow> leafpte s (slot d1 srcva) AND PTE_W \<noteq> 0"
    and ref: "unat (pp_ref s pp) < 65535"
    and room: "ptmap s (d2, unat (PDX dstva)) \<noteq> None \<or> fl \<noteq> []"
  shows "\<exists>s'. share_page src srcva dst dstva perm s = Some (Inr (), s')
    \<and> mm_inv s' D K (insert_free s d2 dstva pp fl)
    \<and> (\<forall>y \<in> leafslots D. leafpte s' y = ((leafpte s)(slot d2 dstva := mkpte pp perm)) y)
    \<and> same_rest s s' \<and> page_insert d2 pp dstva perm s = Some (Inr (), s')"
proof -
  obtain t where t: "ptmap s (d1, unat (PDX srcva)) = Some t"
    using leafmap_ptmap [OF pp [unfolded slot_def]] by blast
  have lk: "page_lookup d1 srcva s = Some (Some pp, Some (t, unat (PTX srcva)), s)"
    using lookup_ok [OF inv src(2) va(1)] pp t by simp
  have rdp: "rd s (t, unat (PTX srcva)) = leafpte s (slot d1 srcva)"
    using t by (simp add: slot_def leafpte_def rd_def)
  note dp = mapped_data [OF inv slot_in(1) [OF src(2) va(1)] pp]
  obtain s' where s': "page_insert d2 pp dstva perm s = Some (Inr (), s')"
    "mm_inv s' D K (insert_free s d2 dstva pp fl)"
    "\<forall>y \<in> leafslots D. leafpte s' y = ((leafpte s)(slot d2 dstva := mkpte pp perm)) y"
    using insert_ok [OF inv dst(2) va(2) dp ref perm room] by auto
  have "share_page src srcva dst dstva perm s = Some (Inr (), s')"
    using src(1) dst(1) lk w rdp s'(1) by (auto simp: share_page_def)
  with s' insert_tlb [OF s'(1)] show ?thesis by blast
qed

lemma share_page_denied:
  assumes inv: "mm_inv s D K fl" and src: "env_pgdir (envs s src) = Some d1" "d1 \<in> D"
    and va: "srcva < UTOP"
    and bad: "leafmap s (slot d1 srcva) = None
      \<or> (perm AND PTE_W \<noteq> 0 \<and> leafpte s (slot d1 srcva) AND PTE_W = 0)"
  shows "share_page src srcva dst dstva perm s = Some (Inl E_INVAL, s)"
proof (cases "leafmap s (slot d1 srcva)")
  case None
  with src(1) lookup_ok [OF inv src(2) va] show ?thesis by (simp add: share_page_def)
next
  case (Some pp)
  obtain t where t: "ptmap s (d1, unat (PDX srcva)) = Some t"
    using leafmap_ptmap [OF Some [unfolded slot_def]] by blast
  have "rd s (t, unat (PTX srcva)) = leafpte s (slot d1 srcva)"
    using t by (simp add: slot_def leafpte_def rd_def)
  with Some src(1) lookup_ok [OF inv src(2) va] t bad show ?thesis
    by (auto simp: share_page_def)
qed

lemma share_page_nomem:
  assumes inv: "mm_inv s D K []" and src: "env_pgdir (envs s src) = Some d1" "d1 \<in> D"
    and dst: "env_pgdir (envs s dst) = Some d2"
    and va: "srcva < UTOP" and pp: "leafmap s (slot d1 srcva) = Some pp"
    and w: "perm AND PTE_W \<noteq> 0 \<longrightarrow> leafpte s (slot d1 srcva) AND PTE_W \<noteq> 0"
    and none: "ptmap s (d2, unat (PDX dstva)) = None"
  shows "share_page src srcva dst dstva perm s = Some (Inl E_NO_MEM, page_free pp s)"
proof -
  obtain t where t: "ptmap s (d1, unat (PDX srcva)) = Some t"
    using leafmap_ptmap [OF pp [unfolded slot_def]] by blast
  have lk: "page_lookup d1 srcva s = Some (Some pp, Some (t, unat (PTX srcva)), s)"
    using lookup_ok [OF inv src(2) va] pp t by simp
  have "rd s (t, unat (PTX srcva)) = leafpte s (slot d1 srcva)"
    using t by (simp add: slot_def leafpte_def rd_def)
  then show ?thesis
    using src(1) dst(1) lk w insert_nomem [OF inv none] by (auto simp: share_page_def)
qed

end
