(* ===== verification/Syscall_Spec.thy ===== *)
theory Syscall_Spec
  imports Syscall_Inv Env_Spec
begin

text \<open>
  The properties of the system calls (kern/syscall.c): what the memory calls map and leave
  alone, that permissions are not escalated, the paths on which the kernel panics or loses track
  of a page; and the messages between environments (sys_ipc_try_send and sys_ipc_recv): the two
  arrays of waiting senders as one list, delivery, and the console output call.
\<close>

unbundle bit_operations_syntax

text \<open>The demonstration state with environment 1 running.\<close>

definition demo_run :: kstate where
  "demo_run = demo\<lparr>curenv := Some 1\<rparr>"

text \<open>The devices of the demonstration: nothing to read, and an address that has faulted.\<close>

definition demo_hw :: hw where
  "demo_hw = \<lparr>hw_serial_exists = False, hw_serial = [], hw_kbd = [], hw_cr2 = 0x801000\<rparr>"

lemma demo_run_inv: "mm_inv demo_run {0} demo_K [3]"
proof -
  have f: "mem demo_run = mem demo" "pp_ref demo_run = pp_ref demo"
    "npage demo_run = npage demo" "page_free_list demo_run = page_free_list demo"
    by (simp_all add: demo_run_def)
  show ?thesis using mm_inv_cong [OF f] demo_inv by simp
qed

lemma demo_run_maps: "ptmap demo_run = ptmap demo" "leafmap demo_run = leafmap demo"
  "leafpte demo_run = leafpte demo"
  by (rule maps_cong; simp add: demo_run_def)+

lemma demo_run_env:
  "curenv demo_run = Some 1" "env_pgdir (envs demo_run 1) = Some 0"
  "envid2env 0 c demo_run = Some (Inr (Some 1))" "pp_ref demo_run = pp_ref demo"
  using demo_fields(6) by (simp_all add: demo_run_def demo_env_fields envid2env_def)

lemma demo_args: "\<not> bad_va 0x1000" "\<not> bad_va 0x2000" "\<not> bad_va 0x400000"
  "\<not> bad_perm (PTE_U OR PTE_P)"
  by (simp_all add: bad_va_def bad_perm_def layout pte_flags PTE_USER_def)

section \<open>Memory\<close>

text \<open>
  sys_page_alloc. For an environment the caller may act on, a page-aligned address below
  UTOP and permitted bits, it maps a free page, filled with zeros, at the address, changes no
  other translation of any environment, and keeps the reference counts exact; the page that
  was mapped there is released.
\<close>

theorem sys_page_alloc_correct:
  assumes "mm_inv s D K (pp # fl)" and "envid2env envid True s = Some (Inr (Some e))"
    and "env_pgdir (envs s e) = Some d" and "d \<in> D" and "\<not> bad_va va" and "\<not> bad_perm perm"
    and "ptmap s (d, unat (PDX va)) \<noteq> None \<or> fl \<noteq> []"
  shows "\<exists>s'. sys_page_alloc envid va perm s = Some (Inr (), s')
    \<and> mm_inv s' D K (insert_free s d va pp fl) \<and> mem s' pp = (\<lambda>_. 0)
    \<and> (\<forall>a b. a \<in> D \<and> b < UTOP \<longrightarrow>
         leafpte s' (slot a b) = (if slot a b = slot d va then mkpte pp perm else leafpte s (slot a b)))"
  using sys_page_alloc_maps [OF assms] slot_in(1) by fastforce

theorem sys_page_alloc_correct_witness:
  "\<exists>s'. sys_page_alloc 0 0x2000 (PTE_U OR PTE_P) demo_run = Some (Inr (), s')
    \<and> mem s' 3 = (\<lambda>_. 0) \<and> leafpte s' (slot 0 0x2000) = mkpte 3 (PTE_U OR PTE_P)"
proof -
  have "ptmap demo_run (0, unat (PDX 0x2000)) \<noteq> None \<or> [] \<noteq> []"
    by (simp add: demo_run_maps demo_ptmap demo_index)
  from sys_page_alloc_correct [OF demo_run_inv demo_run_env(3,2) _ demo_args(2,4) this]
  obtain s' where s': "sys_page_alloc 0 0x2000 (PTE_U OR PTE_P) demo_run = Some (Inr (), s')"
    "mem s' 3 = (\<lambda>_. 0)"
    "\<forall>a b. a \<in> {0} \<and> b < UTOP \<longrightarrow> leafpte s' (slot a b)
       = (if slot a b = slot 0 0x2000 then mkpte 3 (PTE_U OR PTE_P) else leafpte demo_run (slot a b))"
    by blast
  have "(0x2000 :: u32) < UTOP" by (simp add: layout)
  with s' show ?thesis by (intro exI [of _ s']) simp
qed

text \<open>
  sys_page_alloc without memory for a page table: it returns -E_NO_MEM, and the page it
  had taken is free again.
\<close>

theorem sys_page_alloc_no_mem:
  assumes "mm_inv s D K [pp]" and "envid2env envid True s = Some (Inr (Some e))"
    and "env_pgdir (envs s e) = Some d" and "d \<in> D" and "\<not> bad_va va" and "\<not> bad_perm perm"
    and "ptmap s (d, unat (PDX va)) = None"
  shows "\<exists>s'. sys_page_alloc envid va perm s = Some (Inl E_NO_MEM, s') \<and> mm_inv s' D K [pp]
    \<and> mem s' = mem s \<and> envs s' = envs s"
  using assms by (rule sys_page_alloc_nomem)

theorem sys_page_alloc_no_mem_witness:
  "\<exists>s'. sys_page_alloc 0 0x400000 (PTE_U OR PTE_P) demo_run = Some (Inl E_NO_MEM, s')
    \<and> mm_inv s' {0} demo_K [3]"
proof -
  have "ptmap demo_run (0, unat (PDX 0x400000)) = None"
    by (simp add: demo_run_maps demo_ptmap demo_index)
  from sys_page_alloc_no_mem [OF demo_run_inv demo_run_env(3,2) _ demo_args(3,4) this]
  show ?thesis by blast
qed

text \<open>
  C14: sys_page_map maps the page of the source address at the destination with the requested
  permissions and changes no other translation; with PTE_W it does so only when the source
  mapping is writable, otherwise it returns -E_INVAL and changes nothing.
\<close>

theorem sys_page_map_correct:
  assumes "mm_inv s D K fl" and "envid2env srcid True s = Some (Inr (Some src))"
    and "envid2env dstid True s = Some (Inr (Some dst))"
    and "env_pgdir (envs s src) = Some d1" and "d1 \<in> D"
    and "env_pgdir (envs s dst) = Some d2" and "d2 \<in> D"
    and "\<not> bad_va srcva" and "\<not> bad_va dstva" and "\<not> bad_perm perm"
    and "leafmap s (slot d1 srcva) = Some pp" and "unat (pp_ref s pp) < 65535"
    and "ptmap s (d2, unat (PDX dstva)) \<noteq> None \<or> fl \<noteq> []"
  shows "if perm AND PTE_W \<noteq> 0 \<and> leafpte s (slot d1 srcva) AND PTE_W = 0
    then sys_page_map srcid srcva dstid dstva perm s = Some (Inl E_INVAL, s)
    else \<exists>s'. sys_page_map srcid srcva dstid dstva perm s = Some (Inr (), s')
      \<and> mm_inv s' D K (insert_free s d2 dstva pp fl)
      \<and> (\<forall>a b. a \<in> D \<and> b < UTOP \<longrightarrow>
           leafpte s' (slot a b) = (if slot a b = slot d2 dstva then mkpte pp perm else leafpte s (slot a b)))"
proof -
  have run: "sys_page_map srcid srcva dstid dstva perm s = share_page src srcva dst dstva perm s"
    using assms(2,3,8,9,10) by (simp add: sys_page_map_def with_env_def)
  note va = good_va_lt [OF assms(8)] good_va_lt [OF assms(9)]
  show ?thesis
  proof (cases "perm AND PTE_W \<noteq> 0 \<and> leafpte s (slot d1 srcva) AND PTE_W = 0")
    case True
    with share_page_denied [OF assms(1,4,5) va(1)] run show ?thesis by simp
  next
    case False
    then have w: "perm AND PTE_W \<noteq> 0 \<longrightarrow> leafpte s (slot d1 srcva) AND PTE_W \<noteq> 0" by blast
    from share_page_maps [OF assms(1,4,5,6,7) va good_perm_lt [OF assms(10)] assms(11) w assms(12,13)]
    obtain s' where s': "share_page src srcva dst dstva perm s = Some (Inr (), s')"
      "mm_inv s' D K (insert_free s d2 dstva pp fl)"
      "\<forall>y \<in> leafslots D. leafpte s' y = ((leafpte s)(slot d2 dstva := mkpte pp perm)) y" by blast
    then have "\<forall>a b. a \<in> D \<and> b < UTOP \<longrightarrow> leafpte s' (slot a b)
        = (if slot a b = slot d2 dstva then mkpte pp perm else leafpte s (slot a b))"
      using slot_in(1) by fastforce
    with s' run False show ?thesis by (simp only: if_False) blast
  qed
qed

theorem sys_page_map_correct_witness:
  "\<exists>s'. sys_page_map 0 0x1000 0 0x2000 (PTE_U OR PTE_P) demo_run = Some (Inr (), s')
    \<and> leafpte s' (slot 0 0x2000) = mkpte 2 (PTE_U OR PTE_P)"
proof -
  have l: "leafmap demo_run (slot 0 0x1000) = Some 2"
    by (simp add: demo_run_maps slot_def demo_index demo_leafmap)
  have r: "unat (pp_ref demo_run 2) < 65535" by (simp add: demo_run_env demo_fields)
  have t: "ptmap demo_run (0, unat (PDX 0x2000)) \<noteq> None \<or> [3::nat] \<noteq> []" by simp
  have w: "\<not> ((PTE_U OR PTE_P) AND PTE_W \<noteq> 0 \<and> leafpte demo_run (slot 0 0x1000) AND PTE_W = 0)"
    by (simp add: pte_flags)
  have "(0x2000 :: u32) < UTOP" by (simp add: layout)
  with sys_page_map_correct [OF demo_run_inv demo_run_env(3,3,2) _ demo_run_env(2) _
      demo_args(1,2,4) l r t, unfolded if_not_P [OF w]]
  show ?thesis by fastforce
qed

text \<open>
  C36: when sys_page_map fails for lack of memory, the code frees the page although the source
  still maps it: the page is then both mapped and on the free list.
\<close>

theorem sys_page_map_frees_mapped:
  assumes "mm_inv s D K []" and "envid2env srcid True s = Some (Inr (Some src))"
    and "envid2env dstid True s = Some (Inr (Some dst))"
    and "env_pgdir (envs s src) = Some d1" and "d1 \<in> D" and "env_pgdir (envs s dst) = Some d2"
    and "\<not> bad_va srcva" and "\<not> bad_va dstva" and "\<not> bad_perm perm"
    and "leafmap s (slot d1 srcva) = Some pp"
    and "perm AND PTE_W \<noteq> 0 \<longrightarrow> leafpte s (slot d1 srcva) AND PTE_W \<noteq> 0"
    and "ptmap s (d2, unat (PDX dstva)) = None"
  shows "\<exists>s'. sys_page_map srcid srcva dstid dstva perm s = Some (Inl E_NO_MEM, s')
    \<and> leafmap s' (slot d1 srcva) = Some pp \<and> pp \<in> free_pages s'"
proof -
  have run: "sys_page_map srcid srcva dstid dstva perm s = Some (Inl E_NO_MEM, page_free pp s)"
    using share_page_nomem [OF assms(1,4,5,6) good_va_lt [OF assms(7)] assms(10,11,12)] assms(2,3,7,8,9)
    by (simp add: sys_page_map_def with_env_def)
  have "is_list (page_free_list s) []" using mm_invD(1) [OF assms(1)] by (simp add: pages_wf_def)
  then have "is_list (page_free_list (page_free pp s)) [pp]"
    by (simp add: page_free_def tailq.repr_insert)
  then have "pp \<in> free_pages (page_free pp s)" by (simp add: free_pages_eq)
  with run assms(10) show ?thesis by (intro exI [of _ "page_free pp s"]) simp
qed

theorem sys_page_map_frees_mapped_witness:
  "\<exists>s'. sys_page_map 0 0x1000 0 0x400000 (PTE_U OR PTE_P) (demo_full\<lparr>curenv := Some 1\<rparr>)
      = Some (Inl E_NO_MEM, s') \<and> leafmap s' (slot 0 0x1000) = Some 2 \<and> 2 \<in> free_pages s'"
proof -
  let ?s = "demo_full\<lparr>curenv := Some 1\<rparr>"
  have f: "mem ?s = mem demo_full" "pp_ref ?s = pp_ref demo_full"
    "npage ?s = npage demo_full" "page_free_list ?s = page_free_list demo_full" by simp_all
  have inv: "mm_inv ?s {0} demo_full_K []" using mm_inv_cong [OF f] demo_full_inv by simp
  have e: "envid2env 0 True ?s = Some (Inr (Some 1))" by (simp add: envid2env_def)
  have d: "env_pgdir (envs ?s 1) = Some 0"
    using demo_fields(6) by (simp add: demo_full_def demo_env_fields)
  have l: "leafmap ?s (slot 0 0x1000) = Some 2" "ptmap ?s (0, unat (PDX 0x400000)) = None"
    using maps_cong [OF f(1)]
    by (simp_all add: demo_full_maps slot_def demo_index demo_leafmap demo_ptmap)
  have w: "(PTE_U OR PTE_P) AND PTE_W \<noteq> 0 \<longrightarrow> leafpte ?s (slot 0 0x1000) AND PTE_W \<noteq> 0"
    by (simp add: pte_flags)
  from sys_page_map_frees_mapped [OF inv e e d _ d demo_args(1,3,4) l(1) w l(2)]
  show ?thesis by simp
qed

text \<open>
  sys_page_unmap by case: a mapped page is unmapped with exact counts and nothing else
  changes; without a page table nothing happens; with a page table but no page the kernel
  dereferences NULL, so a user program can bring it down.
\<close>

theorem sys_page_unmap_cases:
  assumes "mm_inv s D K fl" and "envid2env envid True s = Some (Inr (Some e))"
    and "env_pgdir (envs s e) = Some d" and "d \<in> D" and "\<not> bad_va va"
  shows "case ptmap s (d, unat (PDX va)) of
      None \<Rightarrow> sys_page_unmap envid va s = Some (Inr (), s)
    | Some t \<Rightarrow> (case leafmap s (slot d va) of
        None \<Rightarrow> sys_page_unmap envid va s = None
      | Some p \<Rightarrow> (\<exists>s'. sys_page_unmap envid va s = Some (Inr (), s')
          \<and> mm_inv s' D K (if unat (pp_ref s p) = 1 then p # fl else fl)
          \<and> (\<forall>a b. a \<in> D \<and> b < UTOP \<longrightarrow>
               leafpte s' (slot a b) = (if slot a b = slot d va then 0 else leafpte s (slot a b)))))"
proof -
  have run: "sys_page_unmap envid va s
      = (case page_remove d va s of None \<Rightarrow> None | Some s' \<Rightarrow> Some (Inr (), s'))"
    using assms(2,3,5) by (simp add: sys_page_unmap_def with_env_def split: option.split)
  note va = good_va_lt [OF assms(5)]
  show ?thesis
  proof (cases "ptmap s (d, unat (PDX va))")
    case None
    with run remove_no_table show ?thesis by simp
  next
    case t: (Some t)
    show ?thesis
    proof (cases "leafmap s (slot d va)")
      case None
      with run remove_faults [OF assms(1,4) va t] t show ?thesis by simp
    next
      case (Some p)
      from remove_mapped [OF assms(1,4) va Some] obtain s' where
        "page_remove d va s = Some s'"
        "mm_inv s' D K (if unat (pp_ref s p) = 1 then p # fl else fl)"
        "\<forall>y \<in> leafslots D. leafpte s' y = ((leafpte s)(slot d va := 0)) y" by blast
      moreover from this(3) have "\<forall>a b. a \<in> D \<and> b < UTOP \<longrightarrow>
          leafpte s' (slot a b) = (if slot a b = slot d va then 0 else leafpte s (slot a b))"
        using slot_in(1) by fastforce
      ultimately show ?thesis using run t Some by simp
    qed
  qed
qed

theorem sys_page_unmap_cases_witness: "sys_page_unmap 0 0x2000 demo_run = None"
  using sys_page_unmap_cases [OF demo_run_inv demo_run_env(3,2) _ demo_args(2)]
  by (simp add: demo_run_maps slot_def demo_index demo_leafmap demo_ptmap)

text \<open>
  arguments that do not name a page-aligned address below UTOP, or permission bits that
  are not allowed, are refused with -E_INVAL by all three memory calls and nothing changes.
\<close>

theorem memory_calls_refuse:
  assumes "bad_va va \<or> bad_perm perm"
  shows "sys_page_alloc envid va perm s = Some (Inl E_INVAL, s)
    \<and> sys_page_map envid va dstid dstva perm s = Some (Inl E_INVAL, s)
    \<and> sys_page_map srcid srcva envid va perm s = Some (Inl E_INVAL, s)
    \<and> (bad_va va \<longrightarrow> sys_page_unmap envid va s = Some (Inl E_INVAL, s))"
  using assms by (auto simp: sys_page_alloc_def sys_page_map_def sys_page_unmap_def)

theorem memory_calls_refuse_witness:
  "sys_page_alloc 0 UTOP (PTE_U OR PTE_P) demo_run = Some (Inl E_INVAL, demo_run)"
  by (rule memory_calls_refuse [THEN conjunct1]) (simp add: bad_va_def)


section \<open>The list of waiting senders\<close>

definition waiting :: "kstate \<Rightarrow> (u32 \<times> u32) list" where
  "waiting s = map (\<lambda>i. (waiting_srcenv_ids s i, waiting_dstenv_ids s i)) [0..<waiting_env_num s]"

lemma waiting_length [simp]: "length (waiting s) = waiting_env_num s"
  by (simp add: waiting_def)

lemma waiting_nth: "i < waiting_env_num s \<Longrightarrow>
    waiting s ! i = (waiting_srcenv_ids s i, waiting_dstenv_ids s i)"
  by (simp add: waiting_def)

lemma waiting_mod_env [simp]: "waiting (mod_env e f s) = waiting s"
  by (simp add: waiting_def mod_env_def set_env_def)

lemma waiting_remove_list:
  assumes "i < waiting_env_num s"
  shows "waiting (waiting_remove i s) = take i (waiting s) @ drop (Suc i) (waiting s)"
proof (rule nth_equalityI)
  show "length (waiting (waiting_remove i s)) = length (take i (waiting s) @ drop (Suc i) (waiting s))"
    using assms by (simp add: waiting_remove_def Let_def)
next
  fix k assume "k < length (waiting (waiting_remove i s))"
  then have k: "k < waiting_env_num s - 1" by (simp add: waiting_remove_def Let_def)
  then show "waiting (waiting_remove i s) ! k = (take i (waiting s) @ drop (Suc i) (waiting s)) ! k"
    using assms by (auto simp: waiting_def waiting_remove_def Let_def nth_append)
qed

lemma waiting_find_first:
  assumes w: "waiting s = w1 @ (a, envid) # w2" and first: "envid \<notin> snd ` set w1"
  shows "waiting_find envid s = Some (length w1)" "length w1 < waiting_env_num s"
    "waiting_srcenv_ids s (length w1) = a"
proof -
  have len: "waiting_env_num s = length w1 + Suc (length w2)"
    using arg_cong [OF w, of length] by simp
  then show lt: "length w1 < waiting_env_num s" by simp
  have at: "waiting s ! length w1 = (a, envid)" using w by simp
  then show "waiting_srcenv_ids s (length w1) = a" using waiting_nth [OF lt] by simp
  have dst: "waiting_dstenv_ids s (length w1) = envid" using at waiting_nth [OF lt] by simp
  have no: "waiting_dstenv_ids s k \<noteq> envid" if "k < length w1" for k
  proof -
    have "waiting s ! k = w1 ! k" using w that by (simp add: nth_append)
    moreover have "snd (w1 ! k) \<noteq> envid" using first that by force
    moreover have "waiting s ! k = (waiting_srcenv_ids s k, waiting_dstenv_ids s k)"
      using that lt by (intro waiting_nth) simp
    ultimately show ?thesis by (metis snd_conv)
  qed
  show "waiting_find envid s = Some (length w1)"
    unfolding waiting_find_def find_Some_iff using lt dst no by (intro exI [of _ "length w1"]) auto
qed

section \<open>Properties\<close>

text \<open>
  a send to an environment that is not waiting for a message does not fail: the sender is
  appended to the list of waiting senders, marked not runnable, and the CPU is given up.
\<close>

theorem ipc_send_queues:
  assumes "curenv s = Some src" and "envid2env envid False s = Some (Inr (Some dst))"
    and "\<not> env_ipc_recving (envs s dst) \<or> env_ipc_from (envs s dst) \<noteq> 0"
    and "waiting_env_num s < NENV"
  shows "\<exists>s'. sys_ipc_try_send envid value srcva perm s = sched_yield s'
    \<and> waiting s' = waiting s @ [(env_id (envs s src), envid)]
    \<and> envs s' = (envs s)(src := (envs s src)\<lparr>env_status := ENV_NOT_RUNNABLE\<rparr>)"
proof -
  let ?n = "waiting_env_num s"
  let ?s1 = "s\<lparr>waiting_srcenv_ids := (waiting_srcenv_ids s)(?n := env_id (envs s src)),
               waiting_dstenv_ids := (waiting_dstenv_ids s)(?n := envid), waiting_env_num := ?n + 1\<rparr>"
  let ?s2 = "mod_env src (\<lambda>v. v\<lparr>env_status := ENV_NOT_RUNNABLE\<rparr>) ?s1"
  have "sys_ipc_try_send envid value srcva perm s = sched_yield ?s2"
    using assms by (simp add: sys_ipc_try_send_def Let_def)
  moreover have "waiting ?s1 = waiting s @ [(env_id (envs s src), envid)]"
    by (simp add: waiting_def)
  ultimately show ?thesis by (intro exI [of _ ?s2]) simp
qed

theorem ipc_send_queues_witness:
  "\<exists>s'. (sys_ipc_try_send 0x1001 7 UTOP 0 demo_run :: (errno + unit) flow option) = sched_yield s'
    \<and> waiting s' = [(0x1001, 0x1001)]"
proof -
  have e: "envid2env 0x1001 False demo_run = Some (Inr (Some 1))"
    using demo_fields(6)
    by (simp add: demo_run_def envid2env_def ENVX_def layout demo_env_fields env_status_defs)
  have r: "\<not> env_ipc_recving (envs demo_run 1) \<or> env_ipc_from (envs demo_run 1) \<noteq> 0"
    using demo_fields(6) by (simp add: demo_run_def demo_env_def Env_zero_def)
  have n: "waiting_env_num demo_run < NENV" "waiting demo_run = []"
    by (simp_all add: waiting_def demo_run_def demo_def kstate_zero_def layout)
  have i: "env_id (envs demo_run 1) = 0x1001"
    using demo_fields(6) by (simp add: demo_run_def demo_env_fields)
  from ipc_send_queues [OF demo_run_env(1) e r n(1)] n(2) i show ?thesis by fastforce
qed

text \<open>
  C22: sys_ipc_recv wakes the sender that has waited longest for this environment: it removes
  the first entry for it from the list, keeps the order of the others, makes that sender
  runnable with -E_IPC_NOT_RECV in eax (so that it tries again), and blocks the receiver,
  ready for a message.
\<close>

theorem ipc_recv_wakes_first:
  assumes "curenv s = Some dst" and "dstva \<ge> UTOP \<or> dstva mod PGSIZE = 0"
    and "waiting s = w1 @ (srcid, env_id (envs s dst)) # w2"
    and "env_id (envs s dst) \<notin> snd ` set w1"
    and "envid2env srcid False s = Some (Inr (Some src))" and "src \<noteq> dst"
  shows "\<exists>s'. sys_ipc_recv dstva s = sched_yield s' \<and> waiting s' = w1 @ w2
    \<and> env_status (envs s' src) = ENV_RUNNABLE
    \<and> reg_eax (tf_regs (env_tf (envs s' src))) = neg_errno E_IPC_NOT_RECV
    \<and> env_status (envs s' dst) = ENV_NOT_RUNNABLE \<and> env_ipc_recving (envs s' dst)
    \<and> env_ipc_dstva (envs s' dst) = dstva \<and> env_ipc_from (envs s' dst) = 0"
proof -
  let ?s1 = "mod_env dst (\<lambda>v. v\<lparr>env_ipc_from := 0, env_ipc_recving := True,
                  env_ipc_dstva := dstva, env_status := ENV_NOT_RUNNABLE\<rparr>) s"
  have w: "waiting ?s1 = w1 @ (srcid, env_id (envs ?s1 dst)) # w2" using assms(3) by simp
  have f: "env_id (envs ?s1 dst) \<notin> snd ` set w1" using assms(4) by simp
  note fd = waiting_find_first [OF w f]
  have e: "envid2env srcid False ?s1 = Some (Inr (Some src))"
    using assms(1,5,6) by (auto simp: envid2env_def Let_def split: if_splits)
  let ?s2 = "mod_env src (\<lambda>v. v\<lparr>env_tf := (env_tf v)\<lparr>
                tf_regs := (tf_regs (env_tf v))\<lparr>reg_eax := neg_errno E_IPC_NOT_RECV\<rparr>\<rparr>,
                env_status := ENV_RUNNABLE\<rparr>) ?s1"
  let ?s3 = "waiting_remove (length w1) ?s2"
  have ok: "\<not> (dstva < UTOP \<and> dstva mod PGSIZE \<noteq> 0)" using assms(2) by auto
  have run: "sys_ipc_recv dstva s = sched_yield ?s3"
    using assms(1) ok fd(1,3) e by (auto simp: sys_ipc_recv_def Let_def)
  have "length w1 < waiting_env_num ?s2" using fd(2) by (simp add: mod_env_def set_env_def)
  from waiting_remove_list [OF this] have "waiting ?s3 = w1 @ w2" using assms(3) by simp
  moreover have "envs ?s3 = envs ?s2" by (simp add: waiting_remove_def Let_def)
  ultimately show ?thesis using run assms(6) by (intro exI [of _ ?s3]) simp
qed

definition demo_wait :: kstate where
  "demo_wait = demo_run\<lparr>envs := (envs demo_run)(2 := demo_env\<lparr>env_id := 0x1002\<rparr>),
     waiting_srcenv_ids := (\<lambda>_. 0x1002), waiting_dstenv_ids := (\<lambda>_. 0x1001), waiting_env_num := 1\<rparr>"

theorem ipc_recv_wakes_first_witness:
  "\<exists>s'. (sys_ipc_recv UTOP demo_wait :: (errno + unit) flow option) = sched_yield s' \<and> waiting s' = []
    \<and> env_ipc_recving (envs s' 1)"
proof -
  have i: "env_id (envs demo_wait 1) = 0x1001" "curenv demo_wait = Some 1"
    using demo_fields(6) by (simp_all add: demo_wait_def demo_run_def demo_env_fields)
  have w: "waiting demo_wait = [] @ (0x1002, env_id (envs demo_wait 1)) # []"
    unfolding i by (simp add: waiting_def demo_wait_def)
  have e: "envid2env 0x1002 False demo_wait = Some (Inr (Some 2))"
    by (simp add: demo_wait_def envid2env_def ENVX_def layout demo_env_fields env_status_defs)
  from ipc_recv_wakes_first [OF i(2) _ w _ e] show ?thesis by fastforce
qed

text \<open>
  a message without a page to a waiting receiver is delivered: the receiver becomes
  runnable with the value, the sender's id, no page permission and 0 in eax, the send returns
  0, and no translation changes.
\<close>

theorem ipc_send_delivers:
  assumes "curenv s = Some src" and "envid2env envid False s = Some (Inr (Some dst))"
    and "env_ipc_recving (envs s dst)" and "env_ipc_from (envs s dst) = 0"
    and "srcva \<ge> UTOP \<or> env_ipc_dstva (envs s dst) \<ge> UTOP" and "src \<noteq> dst"
  shows "\<exists>s'. sys_ipc_try_send envid value srcva perm s = Some (Ret (Inr ()) s')
    \<and> envs s' dst = (envs s dst)\<lparr>env_ipc_recving := False, env_ipc_value := value,
         env_ipc_from := env_id (envs s src), env_ipc_perm := 0, env_status := ENV_RUNNABLE,
         env_tf := (env_tf (envs s dst))\<lparr>tf_regs := (tf_regs (env_tf (envs s dst)))\<lparr>reg_eax := 0\<rparr>\<rparr>\<rparr>
    \<and> (\<forall>e. e \<noteq> src \<and> e \<noteq> dst \<longrightarrow> envs s' e = envs s e) \<and> mem s' = mem s"
proof -
  have c: "(srcva < UTOP \<and> env_ipc_dstva (envs s dst) < UTOP) = False" using assms(5) by auto
  show ?thesis
    unfolding sys_ipc_try_send_def ipc_deliver_def
    using assms(1-4,6)
    by (simp add: c sys_getenvid_def mod_env_def set_env_def Let_def)
qed

theorem ipc_send_delivers_witness:
  "\<exists>s'. sys_ipc_try_send 0x1002 42 UTOP 0
      (mod_env 2 (\<lambda>v. v\<lparr>env_ipc_recving := True\<rparr>) demo_wait) = Some (Ret (Inr ()) s')
    \<and> env_ipc_value (envs s' 2) = 42 \<and> env_ipc_from (envs s' 2) = 0x1001"
proof -
  let ?s = "mod_env 2 (\<lambda>v. v\<lparr>env_ipc_recving := True\<rparr>) demo_wait"
  have c: "curenv ?s = Some 1" "env_id (envs ?s 1) = 0x1001" "env_ipc_recving (envs ?s 2)"
    "env_ipc_from (envs ?s 2) = 0"
    using demo_fields(6)
    by (simp_all add: demo_wait_def demo_run_def demo_env_fields) (simp add: demo_env_def Env_zero_def)
  have e: "envid2env 0x1002 False ?s = Some (Inr (Some 2))"
    by (simp add: demo_wait_def envid2env_def ENVX_def layout demo_env_fields env_status_defs)
  from ipc_send_delivers [OF c(1) e c(3,4), of UTOP 42 0] c(2) show ?thesis by auto
qed

text \<open>
  a waiting sender that was destroyed blocks the queue. When the first entry for the
  receiver names an environment that no longer exists, sys_ipc_recv returns -E_BAD_ENV with
  the caller already marked as not runnable, and the entry stays for the next call.
\<close>

theorem ipc_recv_stale_sender:
  assumes "curenv s = Some dst" and "dstva \<ge> UTOP \<or> dstva mod PGSIZE = 0"
    and "waiting s = w1 @ (srcid, env_id (envs s dst)) # w2"
    and "env_id (envs s dst) \<notin> snd ` set w1" and "ENVX srcid \<noteq> dst"
    and "envid2env srcid False s = Some (Inl E_BAD_ENV)"
  shows "\<exists>s'. sys_ipc_recv dstva s = Some (Ret (Inl E_BAD_ENV) s')
    \<and> waiting s' = waiting s \<and> env_status (envs s' dst) = ENV_NOT_RUNNABLE"
proof -
  let ?s1 = "mod_env dst (\<lambda>v. v\<lparr>env_ipc_from := 0, env_ipc_recving := True,
                  env_ipc_dstva := dstva, env_status := ENV_NOT_RUNNABLE\<rparr>) s"
  have w: "waiting ?s1 = w1 @ (srcid, env_id (envs ?s1 dst)) # w2" using assms(3) by simp
  have f: "env_id (envs ?s1 dst) \<notin> snd ` set w1" using assms(4) by simp
  note fd = waiting_find_first [OF w f]
  have e: "envid2env srcid False ?s1 = Some (Inl E_BAD_ENV)"
    using assms(5,6) by (auto simp: envid2env_def Let_def split: if_splits)
  have ok: "\<not> (dstva < UTOP \<and> dstva mod PGSIZE \<noteq> 0)" using assms(2) by auto
  have "sys_ipc_recv dstva s = Some (Ret (Inl E_BAD_ENV) ?s1)"
    using assms(1) ok fd(1,3) e by (auto simp: sys_ipc_recv_def Let_def)
  then show ?thesis by (intro exI [of _ ?s1]) simp
qed

theorem ipc_recv_stale_sender_witness:
  "\<exists>s'. sys_ipc_recv UTOP (demo_wait\<lparr>waiting_srcenv_ids := (\<lambda>_. 0x9003)\<rparr>)
      = Some (Ret (Inl E_BAD_ENV) s') \<and> waiting s' = [(0x9003, 0x1001)]"
proof -
  let ?s = "demo_wait\<lparr>waiting_srcenv_ids := (\<lambda>_. 0x9003)\<rparr>"
  have i: "env_id (envs ?s 1) = 0x1001" "curenv ?s = Some 1"
    using demo_fields(6) by (simp_all add: demo_wait_def demo_run_def demo_env_fields)
  have w: "waiting ?s = [] @ (0x9003, env_id (envs ?s 1)) # []"
    unfolding i by (simp add: waiting_def demo_wait_def)
  have x: "ENVX 0x9003 \<noteq> 1" by (simp add: ENVX_def layout)
  have e: "envid2env 0x9003 False ?s = Some (Inl E_BAD_ENV)"
    by (simp add: demo_wait_def demo_run_def demo_def envid2env_def ENVX_def layout Env_zero_def
        env_status_defs)
  from ipc_recv_stale_sender [OF i(2) _ w _ x e] w i show ?thesis by auto
qed

end
