(* ===== verification/Trap.thy ===== *)
theory Trap
  imports Syscall
begin

text \<open>
  kern/trap.c and the descriptors of inc/mmu.h: the interrupt descriptor table, the dispatch
  of traps, and the delivery of faults to user-mode handlers on the exception stack. The
  messages the kernel prints are not modelled; the control register CR2 and the flags of the
  processor are fields of \<open>hw\<close>. A breakpoint ends in the kernel monitor.
\<close>

unbundle bit_operations_syntax

section \<open>Descriptors (inc/mmu.h)\<close>

record Segdesc =
  sd_lim_15_0 :: u32
  sd_base_15_0 :: u32
  sd_base_23_16 :: u32
  sd_type :: u32
  sd_s :: u32
  sd_dpl :: u32
  sd_p :: u32
  sd_lim_19_16 :: u32
  sd_avl :: u32
  sd_rsv1 :: u32
  sd_db :: u32
  sd_g :: u32
  sd_base_31_24 :: u32

text \<open>Bit fields keep the low bits of what is stored in them.\<close>

definition SEG :: "u32 \<Rightarrow> u32 \<Rightarrow> u32 \<Rightarrow> u32 \<Rightarrow> Segdesc" where
  "SEG type base lim dpl = \<lparr>sd_lim_15_0 = drop_bit 12 lim AND 0xFFFF, sd_base_15_0 = base AND 0xFFFF,
     sd_base_23_16 = drop_bit 16 base AND 0xFF, sd_type = type AND 0xF, sd_s = 1,
     sd_dpl = dpl AND 3, sd_p = 1, sd_lim_19_16 = drop_bit 28 lim, sd_avl = 0, sd_rsv1 = 0,
     sd_db = 1, sd_g = 1, sd_base_31_24 = drop_bit 24 base\<rparr>"

definition SEG16 :: "u32 \<Rightarrow> u32 \<Rightarrow> u32 \<Rightarrow> u32 \<Rightarrow> Segdesc" where
  "SEG16 type base lim dpl = \<lparr>sd_lim_15_0 = lim AND 0xFFFF, sd_base_15_0 = base AND 0xFFFF,
     sd_base_23_16 = drop_bit 16 base AND 0xFF, sd_type = type AND 0xF, sd_s = 1,
     sd_dpl = dpl AND 3, sd_p = 1, sd_lim_19_16 = drop_bit 16 lim AND 0xF, sd_avl = 0, sd_rsv1 = 0,
     sd_db = 1, sd_g = 0, sd_base_31_24 = drop_bit 24 base\<rparr>"

definition STS_T32A :: u32 where "STS_T32A = 0x9"
definition STS_IG32 :: u32 where "STS_IG32 = 0xE"
definition STS_TG32 :: u32 where "STS_TG32 = 0xF"

record Gatedesc =
  gd_off_15_0 :: u32
  gd_ss :: u32
  gd_args :: u32
  gd_rsv1 :: u32
  gd_type :: u32
  gd_s :: u32
  gd_dpl :: u32
  gd_p :: u32
  gd_off_31_16 :: u32

definition SETGATE :: "u32 \<Rightarrow> u32 \<Rightarrow> u32 \<Rightarrow> u32 \<Rightarrow> Gatedesc" where
  "SETGATE istrap sel off dpl = \<lparr>gd_off_15_0 = off AND 0xFFFF, gd_ss = sel AND 0xFFFF,
     gd_args = 0, gd_rsv1 = 0, gd_type = (if istrap \<noteq> 0 then STS_TG32 else STS_IG32),
     gd_s = 0, gd_dpl = dpl AND 3, gd_p = 1, gd_off_31_16 = drop_bit 16 off\<rparr>"

text \<open>
  idt_init: an entry of \<open>myidt\<close> (laid out by the macros of kern/trapentry.S) is the address
  of the handler, the kind of gate and its privilege level; entries without a handler are 0.
\<close>

record Myidt =
  mi_handler :: u32
  mi_istrap :: u16
  mi_dpl :: u16

definition idt_init_entry :: "Myidt \<Rightarrow> Gatedesc \<Rightarrow> Gatedesc" where
  "idt_init_entry m g =
     (if mi_handler m \<noteq> 0
      then SETGATE (ucast (mi_istrap m)) (ucast GD_KT) (mi_handler m) (ucast (mi_dpl m))
      else g)"

text \<open>The table, the stack fields of the TSS, and the descriptor of the TSS in the GDT.\<close>

definition idt_init_tss ::
  "u32 \<Rightarrow> u32 \<Rightarrow> (nat \<Rightarrow> Segdesc) \<Rightarrow> u32 \<times> u16 \<times> (nat \<Rightarrow> Segdesc)" where
  "idt_init_tss ts ts_size gdt =
     (KSTACKTOP, GD_KD,
      gdt(unat (drop_bit 3 GD_TSS) := (SEG16 STS_T32A ts ts_size 0)\<lparr>sd_s := 0\<rparr>))"

definition idt_init ::
  "(nat \<Rightarrow> Myidt) \<Rightarrow> u32 \<Rightarrow> u32 \<Rightarrow> (nat \<Rightarrow> Gatedesc) \<Rightarrow> (nat \<Rightarrow> Segdesc) \<Rightarrow>
     (nat \<Rightarrow> Gatedesc) \<times> u32 \<times> u16 \<times> (nat \<Rightarrow> Segdesc)" where
  "idt_init myidt ts ts_size idt gdt =
     (\<lambda>i. if i < 256 then idt_init_entry (myidt i) (idt i) else idt i, idt_init_tss ts ts_size gdt)"

section \<open>Trap numbers (inc/trap.h)\<close>

definition T_DIVIDE :: u32 where "T_DIVIDE = 0"
definition T_BRKPT :: u32 where "T_BRKPT = 3"
definition T_ILLOP :: u32 where "T_ILLOP = 6"
definition T_GPFLT :: u32 where "T_GPFLT = 13"
definition T_PGFLT :: u32 where "T_PGFLT = 14"
definition T_SYSCALL :: u32 where "T_SYSCALL = 48"
definition IRQ_OFFSET :: u32 where "IRQ_OFFSET = 32"
definition IRQ_TIMER :: u32 where "IRQ_TIMER = 0"
definition IRQ_KBD :: u32 where "IRQ_KBD = 1"
definition IRQ_SPURIOUS :: u32 where "IRQ_SPURIOUS = 7"

lemmas trapno_defs = T_DIVIDE_def T_BRKPT_def T_ILLOP_def T_GPFLT_def T_PGFLT_def T_SYSCALL_def
  IRQ_OFFSET_def IRQ_TIMER_def IRQ_KBD_def IRQ_SPURIOUS_def

definition excnames :: "string list" where
  "excnames = [
     ''Divide error'', ''Debug'', ''Non-Maskable Interrupt'', ''Breakpoint'', ''Overflow'',
     ''BOUND Range Exceeded'', ''Invalid Opcode'', ''Device Not Available'', ''Double Fault'',
     ''Coprocessor Segment Overrun'', ''Invalid TSS'', ''Segment Not Present'', ''Stack Fault'',
     ''General Protection'', ''Page Fault'', ''(unknown trap)'', ''x87 FPU Floating-Point Error'',
     ''Alignment Check'', ''Machine-Check'', ''SIMD Floating-Point Exception'']"

text \<open>\<open>trapno\<close> is an \<open>int\<close>, compared with the unsigned size of the table.\<close>

definition trapname :: "u32 \<Rightarrow> string" where
  "trapname trapno =
     (if unat trapno < length excnames then excnames ! unat trapno
      else if trapno = T_SYSCALL then ''System call''
      else if sint trapno \<ge> sint IRQ_OFFSET \<and> sint trapno < sint IRQ_OFFSET + 16
      then ''Hardware Interrupt''
      else ''(unknown trap)'')"

section \<open>User-mode fault handlers\<close>

text \<open>
  \<open>struct Trapframe *\<close>: the frame on the kernel stack, or the saved frame of an environment.
\<close>

datatype tfptr = KStack Trapframe | EnvTf nat

fun tf_get :: "tfptr \<Rightarrow> kstate \<Rightarrow> Trapframe" where
  "tf_get (KStack tf) s = tf"
| "tf_get (EnvTf e) s = env_tf (envs s e)"

definition SIZEOF_TRAPFRAME :: u32 where "SIZEOF_TRAPFRAME = 0x44"
definition SIZEOF_UTRAPFRAME :: u32 where "SIZEOF_UTRAPFRAME = 0x34"

text \<open>The address of the frame: below the current one when already on the exception stack.\<close>

definition utf_address :: "u32 \<Rightarrow> u32" where
  "utf_address esp =
     (if esp \<le> UXSTACKTOP - 1 \<and> esp \<ge> UXSTACKTOP - PGSIZE
      then esp - SIZEOF_TRAPFRAME - 4
      else UXSTACKTOP - SIZEOF_TRAPFRAME)"

definition regs_words :: "PushRegs \<Rightarrow> u32 list" where
  "regs_words r = [reg_edi r, reg_esi r, reg_ebp r, reg_oesp r, reg_ebx r, reg_edx r, reg_ecx r,
     reg_eax r]"

text \<open>The stores to \<open>*utf\<close> (struct UTrapframe of inc/trap.h), in the order of the code.\<close>

definition push_utf :: "u32 \<Rightarrow> u32 \<Rightarrow> Trapframe \<Rightarrow> kstate \<Rightarrow> kstate option" where
  "push_utf utf fault_va tf s =
     do {
       s1 \<leftarrow> vwrite32 (utf + 48) (tf_esp tf) s;
       s2 \<leftarrow> vwrite32 (utf + 44) (tf_eflags tf) s1;
       s3 \<leftarrow> vwrite32 (utf + 40) (tf_eip tf) s2;
       s4 \<leftarrow> vwrite_words (utf + 8) (regs_words (tf_regs tf)) s3;
       s5 \<leftarrow> vwrite32 (utf + 4) (tf_err tf) s4;
       vwrite32 utf fault_va s5
     }"

text \<open>The four handlers are the same function of the field that holds the upcall.\<close>

definition fault_upcall :: "(Env \<Rightarrow> u32) \<Rightarrow> u32 \<Rightarrow> tfptr \<Rightarrow> kstate \<Rightarrow> unit flow option" where
  "fault_upcall upcall fault_va tfp s =
     (let tf = tf_get tfp s in
      if tf_cs tf AND 3 = 0 then None
      else
        (case curenv s of
           None \<Rightarrow> None
         | Some c \<Rightarrow>
             if upcall (envs s c) \<noteq> 0 then
               let utf = utf_address (tf_esp tf)
               in call (user_mem_assert c utf SIZEOF_UTRAPFRAME (PTE_U OR PTE_W) s) (\<lambda>_ s1.
                    case push_utf utf fault_va (tf_get tfp s1) s1 of
                      None \<Rightarrow> None
                    | Some s2 \<Rightarrow>
                        (case curenv s2 of
                           None \<Rightarrow> None
                         | Some c2 \<Rightarrow>
                             env_run c2 (mod_env c2 (\<lambda>v. v\<lparr>env_tf := (env_tf v)\<lparr>
                               tf_esp := utf, tf_eip := upcall v\<rparr>\<rparr>) s2)))
             else env_destroy c s))"

definition page_fault_handler :: "hw \<Rightarrow> tfptr \<Rightarrow> kstate \<Rightarrow> unit flow option" where
  "page_fault_handler hw = fault_upcall env_pgfault_upcall (hw_cr2 hw)"

definition divide_by_zero_handler :: "hw \<Rightarrow> tfptr \<Rightarrow> kstate \<Rightarrow> unit flow option" where
  "divide_by_zero_handler hw = fault_upcall env_divide_upcall (hw_cr2 hw)"

definition general_protection_fault_handler :: "hw \<Rightarrow> tfptr \<Rightarrow> kstate \<Rightarrow> unit flow option" where
  "general_protection_fault_handler hw = fault_upcall env_gpfault_upcall (hw_cr2 hw)"

definition illegal_opcode_handler :: "hw \<Rightarrow> tfptr \<Rightarrow> kstate \<Rightarrow> unit flow option" where
  "illegal_opcode_handler hw = fault_upcall env_illop_upcall (hw_cr2 hw)"

section \<open>Dispatch\<close>

text \<open>\<open>tf->tf_regs.reg_eax = v\<close>; the frame on the kernel stack is not used afterwards.\<close>

fun tf_set_eax :: "tfptr \<Rightarrow> u32 \<Rightarrow> kstate \<Rightarrow> kstate" where
  "tf_set_eax (KStack tf) v s = s"
| "tf_set_eax (EnvTf e) v s =
     mod_env e (\<lambda>w. w\<lparr>env_tf := (env_tf w)\<lparr>tf_regs := (tf_regs (env_tf w))\<lparr>reg_eax := v\<rparr>\<rparr>\<rparr>) s"

definition trap_dispatch :: "hw \<Rightarrow> tfptr \<Rightarrow> kstate \<Rightarrow> unit flow option" where
  "trap_dispatch hw tfp s =
     (let tf = tf_get tfp s; no = tf_trapno tf in
      if no = IRQ_OFFSET + IRQ_SPURIOUS then Some (Ret () s)
      else if no = IRQ_OFFSET + IRQ_TIMER then sched_yield s
      else if no = T_DIVIDE then divide_by_zero_handler hw tfp s
      else if no = T_GPFLT then general_protection_fault_handler hw tfp s
      else if no = T_ILLOP then illegal_opcode_handler hw tfp s
      else if no = T_PGFLT then page_fault_handler hw tfp s
      else if no = T_BRKPT then Some (Monitor s)
      else if no = T_SYSCALL then
        (let r = tf_regs tf in
         call (syscall hw (reg_eax r) (reg_edx r) (reg_ecx r) (reg_ebx r) (reg_edi r) (reg_esi r) s)
           (\<lambda>v s1. Some (Ret () (tf_set_eax tfp v s1))))
      else if tf_cs tf = GD_KT then None
      else (case curenv s of None \<Rightarrow> None | Some c \<Rightarrow> env_destroy c s))"

text \<open>\<open>trap\<close> with the frame the processor and kern/trapentry.S pushed.\<close>

definition trap :: "hw \<Rightarrow> u32 \<Rightarrow> Trapframe \<Rightarrow> kstate \<Rightarrow> unit flow option" where
  "trap hw eflags tf s =
     (if eflags AND FL_IF \<noteq> 0 then None
      else
        let after = (\<lambda>_ s2. case curenv s2 of
              None \<Rightarrow> sched_yield s2
            | Some c \<Rightarrow> if env_status (envs s2 c) = ENV_RUNNABLE then env_run c s2
                        else sched_yield s2)
        in if tf_cs tf AND 3 = 3 then
             (case curenv s of
                None \<Rightarrow> None
              | Some c \<Rightarrow>
                  call (trap_dispatch hw (EnvTf c) (mod_env c (\<lambda>v. v\<lparr>env_tf := tf\<rparr>) s)) after)
           else call (trap_dispatch hw (KStack tf) s) after)"

end
