(* ===== verification/Vmem_Inv.thy ===== *)
theory Vmem_Inv
  imports Vmem
begin

text \<open>
  Stores through a writable page: word stores at aligned addresses of the page, read back
  through the page tables. The translation survives the stores when the page is neither the
  page directory nor the page table that maps it.
\<close>

unbundle bit_operations_syntax

definition writable_page :: "u32 \<Rightarrow> nat \<Rightarrow> kstate \<Rightarrow> bool" where
  "writable_page va f s \<longleftrightarrow> mmu_walk True va s = Some f \<and> unat (PPN (cr3 s)) \<noteq> f
     \<and> unat (PPN (rd s (unat (PPN (cr3 s)), unat (PDX va)))) \<noteq> f"

text \<open>The words \<open>ws\<close> stored from word \<open>o\<close> of frame \<open>f\<close> on.\<close>

definition upd_words :: "nat \<Rightarrow> u32 list \<Rightarrow> (nat \<Rightarrow> u32) \<Rightarrow> nat \<Rightarrow> u32" where
  "upd_words b ws g = (\<lambda>i. if b \<le> i \<and> i < b + length ws then ws ! (i - b) else g i)"

definition store_words :: "nat \<Rightarrow> nat \<Rightarrow> u32 list \<Rightarrow> kstate \<Rightarrow> kstate" where
  "store_words f b ws s = s\<lparr>mem := (mem s)(f := upd_words b ws (mem s f))\<rparr>"

lemma upd_words_Nil [simp]: "upd_words b [] g = g"
  by (auto simp: upd_words_def fun_eq_iff)

lemma upd_words_append:
  "upd_words (b + length xs) ys (upd_words b xs g) = upd_words b (xs @ ys) g"
  by (auto simp: upd_words_def fun_eq_iff nth_append)

lemma upd_words_prepend: "upd_words b [x] (upd_words (Suc b) xs g) = upd_words b (x # xs) g"
  by (auto simp: upd_words_def fun_eq_iff nth_Cons' not_less_eq_eq)

lemma store_words_fields [simp]:
  "cr3 (store_words f b ws s) = cr3 s" "envs (store_words f b ws s) = envs s"
  "curenv (store_words f b ws s) = curenv s" "npage (store_words f b ws s) = npage s"
  by (simp_all add: store_words_def)

lemma rd_store_words:
  "rd (store_words f b ws s) (g, i) =
     (if g = f \<and> b \<le> i \<and> i < b + length ws then ws ! (i - b) else rd s (g, i))"
  by (simp add: store_words_def upd_words_def rd_def)

lemma wr_store: "wr (f, i) w s = store_words f i [w] s"
proof -
  have "upd_words i [w] g = g(i := w)" for g by (auto simp: upd_words_def fun_eq_iff)
  then show ?thesis by (simp add: wr_def store_words_def)
qed

lemma store_words_append:
  "store_words f (b + length xs) ys (store_words f b xs s) = store_words f b (xs @ ys) s"
  by (simp add: store_words_def upd_words_append)

lemma store_words_prepend:
  "store_words f b [x] (store_words f (Suc b) xs s) = store_words f b (x # xs) s"
  by (simp add: store_words_def upd_words_prepend)

lemma writable_store:
  assumes "writable_page va f s"
  shows "writable_page va f (store_words f b ws s)"
  using assms by (simp add: writable_page_def mmu_walk_def Let_def rd_store_words split: if_splits)

section \<open>Addresses of one page\<close>

lemma PGOFF_unat: "unat (PGOFF a) = unat a mod 4096"
  by (simp add: PGOFF_eq_mod layout unat_mod_distrib)

lemma block_div:
  assumes "(a :: nat) mod n + k < n"
  shows "(a + k) div n = a div n"
  using assms by (simp add: div_add1_eq [of a k n])

lemma page_add:
  assumes "unat (PGOFF va) + k < 4096"
  shows "unat (PGOFF (va + of_nat k)) = unat (PGOFF va) + k"
    and "PDX (va + of_nat k) = PDX va" and "PTX (va + of_nat k) = PTX va"
proof -
  have r: "unat va mod 4096 + k < 4096" using assms by (simp add: PGOFF_unat)
  have d: "unat va = unat va div 4096 * 4096 + unat va mod 4096" by simp
  have "unat va < 1048576 * 4096" using unsigned_less [of va] by simp
  then have q: "unat va div 4096 < 1048576" by (simp add: less_mult_imp_div_less)
  have "unat va + k < 4294967296" using d q r by linarith
  then have u: "unat (va + of_nat k) = unat va + k"
    by (simp add: unat_word_ariths unsigned_of_nat take_bit_nat_eq_self)
  show "unat (PGOFF (va + of_nat k)) = unat (PGOFF va) + k"
    using r unfolding PGOFF_unat u by (metis mod_add_left_eq mod_less)
  have "(unat va + k) div 4096 = unat va div 4096"
    using block_div [OF r] .
  then have "drop_bit 12 (va + of_nat k) = drop_bit 12 va"
    by (simp add: word_unat_eq_iff unat_drop_bit u)
  moreover have d22: "drop_bit 10 (drop_bit 12 x) = drop_bit 22 x" for x :: u32
    by simp
  ultimately have "drop_bit 12 (va + of_nat k) = drop_bit 12 va"
    "drop_bit 22 (va + of_nat k) = drop_bit 22 va"
    by (simp, metis d22)
  then show "PDX (va + of_nat k) = PDX va" "PTX (va + of_nat k) = PTX va"
    by (simp_all add: PDX_def PTX_def shifts)
qed

lemma walk_add:
  assumes "unat (PGOFF va) + k < 4096"
  shows "mmu_walk w (va + of_nat k) s = mmu_walk w va s"
  unfolding mmu_walk_def page_add(2,3) [OF assms] ..

lemma writable_add:
  assumes "unat (PGOFF va) + k < 4096"
  shows "writable_page (va + of_nat k) f s = writable_page va f s"
  using page_add(2) [OF assms] walk_add [OF assms] by (simp add: writable_page_def)

lemma walk_weaken: "mmu_walk True va s = Some f \<Longrightarrow> mmu_walk w va s = Some f"
  by (cases w) (auto simp: mmu_walk_def Let_def split: if_splits)

section \<open>Word stores\<close>

lemma word_eq_bytes:
  assumes "\<And>k. k < 4 \<Longrightarrow> get_byte k a = get_byte k b"
  shows "a = b"
proof (rule bit_word_eqI)
  fix n assume n: "n < LENGTH(32)"
  have "bit (get_byte (n div 8) a) (n mod 8) = bit (get_byte (n div 8) b) (n mod 8)"
    using assms [of "n div 8"] n by simp
  then show "bit a n = bit b n" using n by (simp add: get_byte_def bit_simps)
qed

lemma put_bytes:
  "put_byte 3 (get_byte 3 w) (put_byte 2 (get_byte 2 w)
     (put_byte 1 (get_byte 1 w) (put_byte 0 (get_byte 0 w) x))) = w"
  by (rule word_eq_bytes) (auto simp: get_put_byte less_Suc_eq numeral_eq_Suc)

lemma vwrite8_store:
  assumes "writable_page va f s" and "unat (PGOFF va) + k < 4096"
    and "j = (unat (PGOFF va) + k) mod 4" and "i = (unat (PGOFF va) + k) div 4"
  shows "vwrite8 (va + of_nat k) b s = Some (wr (f, i) (put_byte j b (rd s (f, i))) s)"
  using assms walk_add [OF assms(2), of True s] page_add(1) [OF assms(2)]
  by (simp add: vwrite8_def writable_page_def Let_def)

lemma wr_wr: "wr p v (wr p u s) = wr p v s"
  by (simp add: wr_def)

lemma vwrite32_store:
  assumes w: "writable_page va f s" and a: "unat (PGOFF va) mod 4 = 0"
  shows "vwrite32 va x s = Some (store_words f (unat (PGOFF va) div 4) [x] s)"
proof -
  let ?i = "unat (PGOFF va) div 4"
  have lt: "unat (PGOFF va) + k < 4096" if "k < 4" for k
    using that a PGOFF_lt [of va] by presburger
  have step: "vwrite8 (va + of_nat k) b (wr (f, ?i) v s) = Some (wr (f, ?i) (put_byte k b v) s)"
    if "k < 4" for k b v
  proof -
    have "writable_page va f (wr (f, ?i) v s)" using w by (simp add: wr_store writable_store)
    moreover have "(unat (PGOFF va) + k) mod 4 = k" "(unat (PGOFF va) + k) div 4 = ?i"
      using a that by presburger+
    ultimately show ?thesis using vwrite8_store [OF _ lt [OF that]] by (simp add: wr_wr)
  qed
  have s0: "s = wr (f, ?i) (rd s (f, ?i)) s" by (simp add: wr_def rd_def)
  have l: "[0..<4] = [0, 1, 2, 3]" by (simp add: upt_rec)
  note st = step [of 0] step [of 1] step [of 2] step [of 3]
  have "vwrite32 va x (wr (f, ?i) (rd s (f, ?i)) s) = Some (wr (f, ?i) x s)"
    using st put_bytes [of x] by (simp add: vwrite32_def word_bytes_def l add.assoc)
  then show ?thesis using s0 by (simp add: wr_store [symmetric])
qed

lemma vwrite_words_store:
  assumes "writable_page va f s" and "unat (PGOFF va) mod 4 = 0"
    and "unat (PGOFF va) + 4 * length ws \<le> 4096"
  shows "vwrite_words va ws s = Some (store_words f (unat (PGOFF va) div 4) ws s)"
  using assms
proof (induction ws arbitrary: va s)
  case Nil
  show ?case by (simp add: store_words_def)
next
  case (Cons w ws)
  let ?s1 = "store_words f (unat (PGOFF va) div 4) [w] s"
  show ?case
  proof (cases "ws = []")
    case True
    then show ?thesis using vwrite32_store [OF Cons.prems(1,2)] by simp
  next
    case False
    then have lt: "unat (PGOFF va) + 4 < 4096" using Cons.prems(3) by (cases ws) auto
    note pa = page_add(1) [OF lt] and wa = writable_add [OF lt]
    have "writable_page (va + 4) f ?s1" using wa writable_store [OF Cons.prems(1)] by simp
    moreover have "unat (PGOFF (va + 4)) mod 4 = 0" "unat (PGOFF (va + 4)) + 4 * length ws \<le> 4096"
      using pa Cons.prems(2,3) by simp_all
    ultimately have "vwrite_words (va + 4) ws ?s1
        = Some (store_words f (unat (PGOFF (va + 4)) div 4) ws ?s1)"
      by (rule Cons.IH)
    moreover have "unat (PGOFF (va + 4)) div 4 = unat (PGOFF va) div 4 + length [w]"
      using pa by simp
    ultimately show ?thesis
      using vwrite32_store [OF Cons.prems(1,2), of w]
        store_words_append [of f "unat (PGOFF va) div 4" "[w]" ws s] by simp
  qed
qed

lemma vread8_page:
  assumes "mmu_walk False va s = Some f" and "unat (PGOFF va) + k < 4096"
  shows "vread8 (va + of_nat k) s
    = Some (get_byte ((unat (PGOFF va) + k) mod 4) (rd s (f, (unat (PGOFF va) + k) div 4)))"
  using assms walk_add [OF assms(2), of False s] page_add(1) [OF assms(2)]
  by (simp add: vread8_def)

lemma vread32_page:
  assumes w: "mmu_walk False va s = Some f" and a: "unat (PGOFF va) mod 4 = 0"
  shows "vread32 va s = Some (rd s (f, unat (PGOFF va) div 4))"
proof -
  let ?i = "unat (PGOFF va) div 4"
  have lt: "unat (PGOFF va) + k < 4096" if "k < 4" for k
    using that a PGOFF_lt [of va] by presburger
  have step: "vread8 (va + of_nat k) s = Some (get_byte k (rd s (f, ?i)))" if "k < 4" for k
  proof -
    have "(unat (PGOFF va) + k) mod 4 = k" "(unat (PGOFF va) + k) div 4 = ?i"
      using a that by presburger+
    then show ?thesis using vread8_page [OF w lt [OF that]] by simp
  qed
  show ?thesis
    using step [of 0] step [of 1] step [of 2] step [of 3] join_bytes [of "rd s (f, ?i)"]
    by (simp add: vread32_def)
qed

text \<open>What was stored is what the page tables read back.\<close>

lemma vread32_store:
  assumes w: "writable_page va f s" and a: "unat (PGOFF va) mod 4 = 0"
    and l: "unat (PGOFF va) + 4 * length ws \<le> 4096" and k: "k < length ws"
  shows "vread32 (va + of_nat (4 * k)) (store_words f (unat (PGOFF va) div 4) ws s) = Some (ws ! k)"
proof -
  let ?s = "store_words f (unat (PGOFF va) div 4) ws s"
  have lt: "unat (PGOFF va) + 4 * k < 4096" using l k by simp
  have "mmu_walk True (va + of_nat (4 * k)) ?s = Some f"
    using writable_store [OF w] unfolding walk_add [OF lt] by (simp add: writable_page_def)
  then have "mmu_walk False (va + of_nat (4 * k)) ?s = Some f" by (rule walk_weaken)
  moreover have o: "unat (PGOFF (va + of_nat (4 * k))) = unat (PGOFF va) + 4 * k"
    by (rule page_add [OF lt])
  ultimately have "vread32 (va + of_nat (4 * k)) ?s
      = Some (rd ?s (f, (unat (PGOFF va) + 4 * k) div 4))"
    using vread32_page [of "va + of_nat (4 * k)" ?s f] a by simp
  then show ?thesis using k by (simp add: rd_store_words)
qed

end
