(* ===== verification/Trap_Spec.thy ===== *)
theory Trap_Spec
  imports Trap Vmem_Inv Syscall_Spec
begin

text \<open>
  Properties of kern/trap.c: a trap never returns to its caller, system calls come back in
  eax, the timer preempts with the frame saved, faults reach the user-mode handler with their
  frame on the exception stack, and the gates of the interrupt descriptor table.
\<close>

unbundle bit_operations_syntax

section \<open>Control never returns\<close>

lemma env_run_not_Ret: "env_run e s \<noteq> Some (Ret r s')"
  by (simp add: env_run_def Let_def)

lemma sched_yield_not_Ret: "sched_yield s \<noteq> Some (Ret r s')"
  by (auto simp: sched_yield_cases env_run_not_Ret split: option.splits)

lemma call_not_Ret: "(\<And>x s1. k x s1 \<noteq> Some (Ret r s')) \<Longrightarrow> call m k \<noteq> Some (Ret r s')"
  by (cases "(m, k)" rule: call.cases) auto

text \<open>
  the trap handler does not return: from every state it ends by running an environment, in
  the kernel monitor, or in a panic.
\<close>

theorem trap_never_returns: "trap hw eflags tf s \<noteq> Some (Ret r s')"
proof -
  have "(case curenv s2 of None \<Rightarrow> sched_yield s2
      | Some c \<Rightarrow> if env_status (envs s2 c) = ENV_RUNNABLE then env_run c s2 else sched_yield s2)
      \<noteq> Some (Ret r s')" for s2
    by (simp add: sched_yield_not_Ret env_run_not_Ret split: option.splits)
  then have c: "call m (\<lambda>_ s2. case curenv s2 of None \<Rightarrow> sched_yield s2
      | Some c \<Rightarrow> if env_status (envs s2 c) = ENV_RUNNABLE then env_run c s2 else sched_yield s2)
      \<noteq> Some (Ret r s')" for m :: "unit flow option"
    by (rule call_not_Ret)
  show ?thesis unfolding trap_def Let_def using c by (simp split: option.splits)
qed

section \<open>System calls and the timer\<close>

definition save_frame :: "nat \<Rightarrow> Trapframe \<Rightarrow> kstate \<Rightarrow> kstate" where
  "save_frame c tf s = mod_env c (\<lambda>v. v\<lparr>env_tf := tf\<rparr>) s"

lemma trap_user:
  assumes "eflags AND FL_IF = 0" "tf_cs tf AND 3 = 3" "curenv s = Some c"
  shows "trap hw eflags tf s = call (trap_dispatch hw (EnvTf c) (save_frame c tf s)) (\<lambda>_ s2.
           case curenv s2 of None \<Rightarrow> sched_yield s2
           | Some c \<Rightarrow> if env_status (envs s2 c) = ENV_RUNNABLE then env_run c s2 else sched_yield s2)"
  using assms by (simp add: trap_def save_frame_def Let_def)

lemma save_frame_simps [simp]:
  "envs (save_frame c tf s) e = (if e = c then (envs s c)\<lparr>env_tf := tf\<rparr> else envs s e)"
  "curenv (save_frame c tf s) = curenv s" "mem (save_frame c tf s) = mem s"
  "cr3 (save_frame c tf s) = cr3 s"
  by (simp_all add: save_frame_def mod_env_def set_env_def)

text \<open>A frame of the running environment of the demonstration state.\<close>

definition demo_tf :: "u32 \<Rightarrow> u32 \<Rightarrow> Trapframe" where
  "demo_tf no eax = Trapframe_zero\<lparr>tf_trapno := no, tf_cs := 0x1B, tf_esp := 0xEEBFDF00,
     tf_regs := PushRegs_zero\<lparr>reg_eax := eax\<rparr>\<rparr>"

lemma demo_tf_fields:
  "tf_cs (demo_tf no eax) = 0x1B" "tf_trapno (demo_tf no eax) = no"
  "reg_eax (tf_regs (demo_tf no eax)) = eax" "tf_esp (demo_tf no eax) = 0xEEBFDF00"
  by (simp_all add: demo_tf_def)

text \<open>
  a system call that returns to its caller: the value of \<open>syscall\<close> is in eax of the frame
  the caller is resumed with, the rest of the frame is the one the call left, and the memory
  is the one the call left.
\<close>

theorem trap_syscall_returns:
  assumes "eflags AND FL_IF = 0" "tf_cs tf AND 3 = 3" "curenv s = Some c" "tf_trapno tf = T_SYSCALL"
    and "syscall hw (reg_eax (tf_regs tf)) (reg_edx (tf_regs tf)) (reg_ecx (tf_regs tf))
           (reg_ebx (tf_regs tf)) (reg_edi (tf_regs tf)) (reg_esi (tf_regs tf))
           (mod_env c (\<lambda>v. v\<lparr>env_tf := tf\<rparr>) s) = Some (Ret v s1)"
    and "curenv s1 = Some c" "env_status (envs s1 c) = ENV_RUNNABLE"
  shows "\<exists>s'. trap hw eflags tf s = Some (Run c s') \<and> mem s' = mem s1
    \<and> env_tf (envs s' c) = (env_tf (envs s1 c))\<lparr>tf_regs := (tf_regs (env_tf (envs s1 c)))\<lparr>reg_eax := v\<rparr>\<rparr>
    \<and> (\<forall>e. e \<noteq> c \<longrightarrow> envs s' e = envs s1 e)"
proof -
  let ?s2 = "tf_set_eax (EnvTf c) v s1"
  have f: "curenv ?s2 = Some c" "env_status (envs ?s2 c) = ENV_RUNNABLE" "mem ?s2 = mem s1"
    "env_tf (envs ?s2 c) = (env_tf (envs s1 c))\<lparr>tf_regs := (tf_regs (env_tf (envs s1 c)))\<lparr>reg_eax := v\<rparr>\<rparr>"
    "\<forall>e. e \<noteq> c \<longrightarrow> envs ?s2 e = envs s1 e"
    using assms(6,7) by (simp_all add: mod_env_def set_env_def)
  have d: "trap_dispatch hw (EnvTf c) (save_frame c tf s) = Some (Ret () ?s2)"
    using assms(4,5) by (simp add: trap_dispatch_def Let_def trapno_defs save_frame_def [symmetric])
  have "trap hw eflags tf s = Some (Run c ?s2)"
    unfolding trap_user [OF assms(1-3)] d using f(1,2)
    by (simp add: env_run_Run del: tf_set_eax.simps)
  then show ?thesis using f by blast
qed

theorem trap_syscall_returns_witness:
  "\<exists>s'. trap demo_hw 0 (demo_tf T_SYSCALL SYS_getenvid) demo_run = Some (Run 1 s')
    \<and> reg_eax (tf_regs (env_tf (envs s' 1))) = 0x1001"
proof -
  let ?tf = "demo_tf T_SYSCALL SYS_getenvid"
  let ?s1 = "mod_env 1 (\<lambda>v. v\<lparr>env_tf := ?tf\<rparr>) demo_run"
  have e: "env_id (envs demo_run 1) = 0x1001" "env_status (envs demo_run 1) = ENV_RUNNABLE"
    using demo_fields(6) by (simp_all add: demo_run_def demo_env_fields)
  have c: "syscall demo_hw SYS_getenvid a b c d f ?s1 = Some (Ret 0x1001 ?s1)" for a b c d f
    using e demo_run_env(1)
    by (simp add: syscall_def sysno_defs sys_getenvid_def ret_word_def mod_env_def set_env_def)
  have "curenv ?s1 = Some 1" "env_status (envs ?s1 1) = ENV_RUNNABLE"
    using e demo_run_env(1) by (simp_all add: mod_env_def set_env_def)
  from trap_syscall_returns [of 0 ?tf demo_run 1 demo_hw "0x1001", OF _ _ demo_run_env(1) _ _ this]
  show ?thesis using c by (auto simp: demo_tf_fields)
qed

text \<open>
  the timer preempts: the interrupted environment's frame is saved, and the environment
  the scheduler picks in the saved state runs; only the bookkeeping of its run changes.
\<close>

theorem trap_timer_preempts:
  assumes "eflags AND FL_IF = 0" "tf_cs tf AND 3 = 3" "curenv s = Some c"
    and "tf_trapno tf = IRQ_OFFSET + IRQ_TIMER"
    and "sched_pick (mod_env c (\<lambda>v. v\<lparr>env_tf := tf\<rparr>) s) = Some e"
  shows "\<exists>s'. trap hw eflags tf s = Some (Run e s') \<and> curenv s' = Some e
    \<and> env_tf (envs s' c) = tf \<and> mem s' = mem s
    \<and> (\<forall>x. x \<noteq> c \<longrightarrow> env_tf (envs s' x) = env_tf (envs s x))
    \<and> (\<forall>x. env_status (envs s' x) = env_status (envs s x))"
proof -
  let ?s = "save_frame c tf s"
  have "trap_dispatch hw (EnvTf c) ?s = sched_yield ?s"
    using assms(4) by (simp add: trap_dispatch_def Let_def trapno_defs)
  moreover have "sched_yield ?s = (env_run e ?s :: unit flow option)"
    using assms(5) by (simp add: sched_yield_cases save_frame_def)
  ultimately have "trap hw eflags tf s = env_run e ?s"
    unfolding trap_user [OF assms(1-3)] by (simp add: env_run_Run)
  then show ?thesis
    by (simp add: env_run_Run lcr3_def mod_env_def set_env_def)
qed

theorem trap_timer_preempts_witness:
  "\<exists>e s'. trap demo_hw 0 (demo_tf 32 7) demo_run = Some (Run e s') \<and> env_tf (envs s' 1) = demo_tf 32 7"
proof -
  let ?s = "mod_env 1 (\<lambda>v. v\<lparr>env_tf := demo_tf 32 7\<rparr>) demo_run"
  have "candidate ?s 1"
    using demo_fields(6)
    by (simp add: candidate_def mod_env_def set_env_def demo_run_def demo_env_fields key_bottom_def
        env_key_def PRIORITY_DEFAULT_def less_sched_key_def)
  then obtain e where "sched_pick ?s = Some e"
    using pick_None [of ?s] by (fastforce simp: layout)
  from trap_timer_preempts [of 0 "demo_tf 32 7", OF _ _ demo_run_env(1) _ this, of demo_hw] show ?thesis
    by (auto simp: demo_tf_fields trapno_defs)
qed

text \<open>
  an interrupt from the keyboard or the serial port (lines 1 and 4) while an environment
  runs has no case in \<open>trap_dispatch\<close>: it falls to the default, which destroys the
  environment that happens to be running.
\<close>

theorem trap_device_irq_destroys:
  assumes "eflags AND FL_IF = 0" "tf_cs tf AND 3 = 3" "curenv s = Some c"
    and no: "tf_trapno tf = IRQ_OFFSET + IRQ_KBD \<or> tf_trapno tf = IRQ_OFFSET + 4"
    and inv: "mm_inv s D K fl" and "d \<in> D"
    and "env_pgdir (envs s c) = Some d" "env_cr3 (envs s c) = page2pa d"
  shows "\<exists>s' fl'. trap hw eflags tf s = sched_yield (s'\<lparr>curenv := None\<rparr>)
    \<and> env_status (envs s' c) = ENV_FREE \<and> mm_inv s' (D - {d}) K fl' \<and> d \<in> set fl'"
proof -
  let ?s = "save_frame c tf s"
  have f: "mem ?s = mem s" "pp_ref ?s = pp_ref s" "npage ?s = npage s"
      "page_free_list ?s = page_free_list s"
    by (simp_all add: save_frame_def mod_env_def set_env_def)
  have inv': "mm_inv ?s D K fl" using mm_inv_cong [OF f] inv by blast
  have "env_pgdir (envs ?s c) = Some d" "env_cr3 (envs ?s c) = page2pa d" using assms(7,8) by simp_all
  from env_free_ok [OF inv' assms(6) this] obtain s' fl' where
    s': "env_free c ?s = Some s'" "mm_inv s' (D - {d}) K fl'" "d \<in> set fl'"
      "env_status (envs s' c) = ENV_FREE" "curenv s' = Some c"
    using assms(3) by auto
  have cs: "tf_cs tf \<noteq> GD_KT" using assms(2) by (auto simp: GD_KT_def)
  have d: "trap_dispatch hw (EnvTf c) ?s = env_destroy c ?s"
    using no
  proof
    assume "tf_trapno tf = IRQ_OFFSET + IRQ_KBD"
    with cs assms(3) show ?thesis by (simp add: trap_dispatch_def Let_def trapno_defs)
  next
    assume "tf_trapno tf = IRQ_OFFSET + 4"
    with cs assms(3) show ?thesis by (simp add: trap_dispatch_def Let_def trapno_defs)
  qed
  have "env_destroy c ?s = sched_yield (s'\<lparr>curenv := None\<rparr>)"
    using s'(1,5) by (simp add: env_destroy_def)
  moreover have "call (sched_yield t) k = sched_yield t" for t k
    by (simp add: sched_yield_cases env_run_Run split: option.splits)
  ultimately have "trap hw eflags tf s = sched_yield (s'\<lparr>curenv := None\<rparr>)"
    unfolding trap_user [OF assms(1-3)] d by simp
  with s' show ?thesis by blast
qed

theorem trap_device_irq_destroys_witness:
  "\<exists>s' fl'. trap demo_hw 0 (demo_tf 33 7) demo_run = sched_yield (s'\<lparr>curenv := None\<rparr>)
    \<and> env_status (envs s' 1) = ENV_FREE \<and> mm_inv s' {} demo_K fl'"
proof -
  have "env_cr3 (envs demo_run 1) = page2pa 0"
    using demo_fields(6) by (simp add: demo_run_def demo_env_fields)
  from trap_device_irq_destroys [of 0 "demo_tf 33 7", OF _ _ demo_run_env(1) _ demo_run_inv _
      demo_run_env(2) this, of demo_hw]
  show ?thesis by (auto simp: demo_tf_fields trapno_defs)
qed

section \<open>Delivery of faults\<close>

text \<open>The words of \<open>struct UTrapframe\<close> in the order of inc/trap.h.\<close>

definition utf_words :: "u32 \<Rightarrow> Trapframe \<Rightarrow> u32 list" where
  "utf_words fault_va tf = [fault_va, tf_err tf] @ regs_words (tf_regs tf)
     @ [tf_eip tf, tf_eflags tf, tf_esp tf]"

lemma utf_words_length: "length (utf_words fault_va tf) = 13"
  by (simp add: utf_words_def regs_words_def)

lemma vwrite32_at:
  assumes w: "writable_page va f s" and a: "unat (PGOFF va) mod 4 = 0"
    and l: "unat (PGOFF va) + 4 * k < 4096"
  shows "vwrite32 (va + of_nat (4 * k)) x s = Some (store_words f (unat (PGOFF va) div 4 + k) [x] s)"
  using vwrite32_store [of "va + of_nat (4 * k)" f s x] writable_add [OF l] page_add(1) [OF l] w a
  by (simp add: add.commute)

lemma vwrite_words_at:
  assumes w: "writable_page va f s" and a: "unat (PGOFF va) mod 4 = 0"
    and l: "unat (PGOFF va) + 4 * k + 4 * length xs \<le> 4096" "xs \<noteq> []"
  shows "vwrite_words (va + of_nat (4 * k)) xs s
    = Some (store_words f (unat (PGOFF va) div 4 + k) xs s)"
proof -
  have lt: "unat (PGOFF va) + 4 * k < 4096" using l by (cases xs) auto
  show ?thesis
    using vwrite_words_store [of "va + of_nat (4 * k)" f s xs] writable_add [OF lt]
      page_add(1) [OF lt] w a l(1) by (simp add: add.commute)
qed

lemma store_words_join:
  "c = b + length xs \<Longrightarrow> store_words f b xs (store_words f c ys s) = store_words f b (xs @ ys) s"
proof (induction xs arbitrary: b)
  case Nil
  then show ?case by (simp add: store_words_def)
next
  case (Cons x xs)
  have "store_words f b (x # xs) t = store_words f b [x] (store_words f (Suc b) xs t)" for t
    by (simp add: store_words_prepend)
  then show ?case using Cons.IH [of "Suc b"] Cons.prems
    by (metis Cons_eq_appendI add_Suc_right add_Suc list.size(4) store_words_prepend One_nat_def add.right_neutral)
qed

lemma push_utf_store:
  assumes w: "writable_page utf f s" and a: "unat (PGOFF utf) mod 4 = 0"
    and l: "unat (PGOFF utf) + 52 \<le> 4096"
  shows "push_utf utf fault_va tf s
    = Some (store_words f (unat (PGOFF utf) div 4) (utf_words fault_va tf) s)"
proof -
  let ?b = "unat (PGOFF utf) div 4"
  have st: "vwrite32 (utf + of_nat (4 * k)) x t = Some (store_words f (?b + k) [x] t)"
    if "k < 13" "writable_page utf f t" for k x t
    using vwrite32_at [OF that(2) a, of k] that(1) l by simp
  have rg: "vwrite_words (utf + of_nat (4 * 2)) (regs_words r) t
      = Some (store_words f (?b + 2) (regs_words r) t)" if "writable_page utf f t" for r t
    using vwrite_words_at [OF that a, of 2 "regs_words r"] l by (simp add: regs_words_def)
  note ws = writable_store w
  have "push_utf utf fault_va tf s = Some (store_words f ?b [fault_va]
     (store_words f (?b + 1) [tf_err tf] (store_words f (?b + 2) (regs_words (tf_regs tf))
       (store_words f (?b + 10) [tf_eip tf] (store_words f (?b + 11) [tf_eflags tf]
         (store_words f (?b + 12) [tf_esp tf] s))))))"
    unfolding push_utf_def
    using st [of 12] st [of 11] st [of 10] st [of 1] st [of 0] rg ws by simp
  also have "\<dots> = Some (store_words f ?b (utf_words fault_va tf) s)"
    by (simp add: utf_words_def store_words_join regs_words_def)
  finally show ?thesis .
qed

text \<open>
  C12: delivery of a page fault to the handler of the environment. When the environment has a
  page-fault upcall and the frame address is on a mapped, user-writable, aligned part of its
  exception stack, the kernel resumes the environment at the upcall with esp at the frame, and
  the frame read through the page tables holds the fault address, the error code, the
  registers, eip, eflags and esp of the fault; no other word of memory changes.
\<close>

theorem page_fault_delivers:
  assumes "curenv s = Some c" and "tf = env_tf (envs s c)" and "tf_cs tf AND 3 \<noteq> 0"
    and "env_pgfault_upcall (envs s c) \<noteq> 0" and "utf = utf_address (tf_esp tf)"
    and "user_mem_assert c utf SIZEOF_UTRAPFRAME (PTE_U OR PTE_W) s = Some (Ret () s)"
    and "mmu_walk True utf s = Some f" and "f \<noteq> unat (PPN (cr3 s))"
    and "f \<noteq> unat (PPN (rd s (unat (PPN (cr3 s)), unat (PDX utf))))"
    and "unat (PGOFF utf) mod 4 = 0" and "unat (PGOFF utf) + 52 \<le> 4096"
  shows "\<exists>s'. page_fault_handler hw (EnvTf c) s = Some (Run c s')
    \<and> envs s' c = (envs s c)\<lparr>env_tf := tf\<lparr>tf_esp := utf, tf_eip := env_pgfault_upcall (envs s c)\<rparr>\<rparr>
    \<and> (\<forall>k<13. vread32 (utf + of_nat (4 * k)) s' = Some (utf_words (hw_cr2 hw) tf ! k))
    \<and> (\<forall>p. fst p \<noteq> f \<or> snd p < unat (PGOFF utf) div 4 \<or> snd p \<ge> unat (PGOFF utf) div 4 + 13
         \<longrightarrow> rd s' p = rd s p)"
proof -
  have w: "writable_page utf f s" using assms(7-9) by (auto simp: writable_page_def)
  let ?b = "unat (PGOFF utf) div 4" and ?ws = "utf_words (hw_cr2 hw) tf"
  let ?s1 = "store_words f ?b ?ws s"
  let ?s2 = "mod_env c (\<lambda>v. v\<lparr>env_tf := (env_tf v)\<lparr>tf_esp := utf, tf_eip := env_pgfault_upcall v\<rparr>\<rparr>) ?s1"
  note pu = push_utf_store [OF w assms(10,11), of "hw_cr2 hw" tf]
  have run: "page_fault_handler hw (EnvTf c) s = Some (Run c ?s2)"
    unfolding page_fault_handler_def fault_upcall_def using assms(1-6) pu
    by (simp add: Let_def env_run_Run mod_env_def set_env_def)
  have rd2: "rd ?s2 p = rd ?s1 p" "cr3 ?s2 = cr3 ?s1" for p
    by (simp_all add: mod_env_def set_env_def rd_def)
  have v2: "vread32 a ?s2 = vread32 a ?s1" for a
    unfolding vread32_def vread8_def mmu_walk_def rd2 ..
  have l: "unat (PGOFF utf) + 4 * length ?ws \<le> 4096" using assms(11) by (simp add: utf_words_length)
  have "\<forall>k<13. vread32 (utf + of_nat (4 * k)) ?s2 = Some (?ws ! k)"
    unfolding v2 using vread32_store [OF w assms(10) l] by (simp add: utf_words_length)
  moreover have "\<forall>p. fst p \<noteq> f \<or> snd p < ?b \<or> snd p \<ge> ?b + 13 \<longrightarrow> rd ?s2 p = rd s p"
    unfolding rd2 by (auto simp: rd_store_words utf_words_length)
  moreover have "envs ?s2 c = (envs s c)\<lparr>env_tf := tf\<lparr>tf_esp := utf, tf_eip := env_pgfault_upcall (envs s c)\<rparr>\<rparr>"
    using assms(2) by (simp add: mod_env_def set_env_def)
  ultimately show ?thesis using run by blast
qed

text \<open>The demonstration state with page 2 mapped as the exception stack, by table page 4.\<close>

definition demo_xs :: kstate where
  "demo_xs = mod_env 1 (\<lambda>v. v\<lparr>env_pgfault_upcall := 0x800020, env_tf := demo_tf T_PGFLT 0\<rparr>)
     (demo_run\<lparr>cr3 := 0, mem := (mem demo_run)(0 := (mem demo_run 0)(954 := mkpte 4 (PTE_U OR PTE_W)),
        4 := (\<lambda>_. 0)(1023 := mkpte 2 (PTE_U OR PTE_W)))\<rparr>)"

lemma demo_xs_fields:
  "cr3 demo_xs = 0" "curenv demo_xs = Some 1" "npage demo_xs = 5"
  "rd demo_xs (0, 954) = mkpte 4 (PTE_U OR PTE_W)" "rd demo_xs (4, 1023) = mkpte 2 (PTE_U OR PTE_W)"
  "env_pgdir (envs demo_xs 1) = Some 0" "env_tf (envs demo_xs 1) = demo_tf T_PGFLT 0"
  "env_pgfault_upcall (envs demo_xs 1) = 0x800020"
  using demo_fields demo_run_env
  by (simp_all add: demo_xs_def mod_env_def set_env_def rd_def demo_run_def)

theorem page_fault_delivers_witness:
  "\<forall>hw. \<exists>s'. page_fault_handler hw (EnvTf 1) demo_xs = Some (Run 1 s')
    \<and> tf_eip (env_tf (envs s' 1)) = 0x800020 \<and> tf_esp (env_tf (envs s' 1)) = 0xEEBFFFBC
    \<and> vread32 0xEEBFFFBC s' = Some (hw_cr2 hw)"
proof
  fix hw
  let ?tf = "env_tf (envs demo_xs 1)"
  have a: "utf_address (tf_esp ?tf) = 0xEEBFFFBC"
    unfolding demo_xs_fields demo_tf_fields by (simp add: utf_address_def layout SIZEOF_TRAPFRAME_def)
  have ix: "unat (PDX 0xEEBFFFBC) = 954" "unat (PTX 0xEEBFFFBC) = 1023"
    "unat (PGOFF 0xEEBFFFBC) = 4028" "PPN 0 = 0"
    by (simp_all add: PDX_def PTX_def PGOFF_def PPN_def shifts)
  have pt: "unat (PPN (mkpte 4 (PTE_U OR PTE_W))) = 4" "unat (PPN (mkpte 2 (PTE_U OR PTE_W))) = 2"
    using demo_perm by (simp_all add: PPN_mkpte)
  have fl: "mkpte p (PTE_U OR PTE_W) AND PTE_W \<noteq> 0"
     "mkpte p (PTE_U OR PTE_W) AND 7 = 7" for p
    using mkpte_AND_low [of PTE_W p "PTE_U OR PTE_W"] mkpte_AND_low [of 7 p "PTE_U OR PTE_W"]
    by (simp_all add: pte_flags)
  have w: "mmu_walk True 0xEEBFFFBC demo_xs = Some 2"
    by (simp add: mmu_walk_def Let_def demo_xs_fields ix pt fl)
  have pw: "pgdir_walk 0 0xEEBFFFBC 0 demo_xs = Some (Some (4, 1023), demo_xs)"
    using demo_perm
    by (simp add: pgdir_walk_def Let_def demo_xs_fields ix pt KADDR_def kptr_KADDR PTE_ADDR_mkpte
        unat_PPN_page2pa kptr_def)
  have perm: "((PTE_U OR PTE_W) OR PTE_U) OR PTE_P OR PTE_U = 7" by (simp add: pte_flags)
  have u: "user_mem_assert 1 0xEEBFFFBC SIZEOF_UTRAPFRAME (PTE_U OR PTE_W) demo_xs = Some (Ret () demo_xs)"
    using pw fl(2)
    by (simp add: user_mem_assert_def user_mem_check_def SIZEOF_UTRAPFRAME_def perm
        user_mem_check_loop.simps demo_xs_fields ROUNDDOWN_def layout del: One_nat_def)
  have g: "tf_cs ?tf AND 3 \<noteq> 0" "env_pgfault_upcall (envs demo_xs 1) \<noteq> 0"
    "(2 :: nat) \<noteq> unat (PPN (cr3 demo_xs))"
    "2 \<noteq> unat (PPN (rd demo_xs (unat (PPN (cr3 demo_xs)), unat (PDX 0xEEBFFFBC))))"
    "unat (PGOFF 0xEEBFFFBC) mod 4 = 0" "unat (PGOFF 0xEEBFFFBC) + 52 \<le> 4096"
    unfolding demo_xs_fields demo_tf_fields ix by (simp_all add: demo_xs_fields pt)
  from page_fault_delivers [OF demo_xs_fields(2) refl g(1,2) a [symmetric] u w g(3-6), of hw]
  obtain s' where s': "page_fault_handler hw (EnvTf 1) demo_xs = Some (Run 1 s')"
    "envs s' 1 = (envs demo_xs 1)\<lparr>env_tf := ?tf\<lparr>tf_esp := 0xEEBFFFBC,
       tf_eip := env_pgfault_upcall (envs demo_xs 1)\<rparr>\<rparr>"
    "\<forall>k<13. vread32 (0xEEBFFFBC + of_nat (4 * k)) s' = Some (utf_words (hw_cr2 hw) ?tf ! k)"
    by blast
  have "vread32 0xEEBFFFBC s' = Some (hw_cr2 hw)"
    using s'(3) [rule_format, of 0] by (simp add: utf_words_def)
  moreover have "tf_eip (env_tf (envs s' 1)) = 0x800020" "tf_esp (env_tf (envs s' 1)) = 0xEEBFFFBC"
    unfolding s'(2) demo_xs_fields by simp_all
  ultimately show "\<exists>s'. page_fault_handler hw (EnvTf 1) demo_xs = Some (Run 1 s')
    \<and> tf_eip (env_tf (envs s' 1)) = 0x800020 \<and> tf_esp (env_tf (envs s' 1)) = 0xEEBFFFBC
    \<and> vread32 0xEEBFFFBC s' = Some (hw_cr2 hw)" using s'(1) by blast
qed

section \<open>Gates\<close>

lemma low_high_16: "(w :: u32) AND 0xFFFF OR push_bit 16 (drop_bit 16 w) = w"
proof -
  have m: "(0xFFFF :: u32) = mask 16" by (simp add: mask_eq_exp_minus_1)
  show ?thesis unfolding m
  proof (rule bit_word_eqI)
    fix n assume n: "n < LENGTH(32)"
    show "bit (w AND mask 16 OR push_bit 16 (drop_bit 16 w)) n = bit w n"
      using n by (cases "n < 16") (auto simp: bit_simps)
  qed
qed

text \<open>
  C39: the interrupt descriptor table. Every vector with a handler gets a present gate in the
  kernel code segment whose offset is the address of the handler, of the kind and privilege
  level of its entry; the other vectors keep their descriptor, and the TSS descriptor, a
  system segment, points at the task state whose stack is the kernel stack.
\<close>

theorem idt_init_gates:
  "\<exists>idt' gdt'. idt_init myidt ts ts_size idt gdt = (idt', KSTACKTOP, GD_KD, gdt')
    \<and> (\<forall>i. if i < 256 \<and> mi_handler (myidt i) \<noteq> 0
         then gd_off_15_0 (idt' i) OR push_bit 16 (gd_off_31_16 (idt' i)) = mi_handler (myidt i)
           \<and> gd_ss (idt' i) = ucast GD_KT \<and> gd_p (idt' i) = 1 \<and> gd_s (idt' i) = 0
           \<and> gd_dpl (idt' i) = ucast (mi_dpl (myidt i)) AND 3
           \<and> gd_type (idt' i) = (if mi_istrap (myidt i) = 0 then STS_IG32 else STS_TG32)
         else idt' i = idt i)
    \<and> (\<forall>i. gdt' i = (if i = 5 then gdt' 5 else gdt i))
    \<and> sd_base_15_0 (gdt' 5) OR push_bit 16 (sd_base_23_16 (gdt' 5)) OR push_bit 24 (sd_base_31_24 (gdt' 5)) = ts
    \<and> sd_s (gdt' 5) = 0 \<and> sd_type (gdt' 5) = STS_T32A \<and> sd_p (gdt' 5) = 1"
proof -
  have m: "(0xFFFF :: u32) = mask 16" "(0xFF :: u32) = mask 8" by (simp_all add: mask_eq_exp_minus_1)
  have b: "ts AND 0xFFFF OR push_bit 16 (drop_bit 16 ts AND 0xFF) OR push_bit 24 (drop_bit 24 ts) = ts"
    unfolding m
  proof (rule bit_word_eqI)
    fix n assume n: "n < LENGTH(32)"
    consider "n < 16" | "16 \<le> n \<and> n < 24" | "24 \<le> n" by linarith
    then show "bit (ts AND mask 16 OR push_bit 16 (drop_bit 16 ts AND mask 8)
        OR push_bit 24 (drop_bit 24 ts)) n = bit ts n"
      using n by cases (auto simp: bit_simps)
  qed
  have z: "ucast x = (0 :: u32) \<longleftrightarrow> x = 0" for x :: u16
  proof
    assume "ucast x = (0 :: u32)"
    then have "unat (ucast x :: u32) = 0" by simp
    moreover have "unat (ucast x :: u32) = unat x" using unsigned_less [of x, where 'a = nat]
      by (simp add: unsigned_ucast_eq take_bit_nat_eq_self)
    ultimately show "x = 0" by (simp add: unat_eq_0)
  qed simp
  show ?thesis
    using b by (simp add: idt_init_def idt_init_tss_def idt_init_entry_def SETGATE_def SEG16_def low_high_16 z
        GD_TSS_def GD_KT_def STS_T32A_def)
qed

end
