(* ===== verification/Bc.thy ===== *)
theory Bc
  imports Prelude
begin

text \<open>
  fs/bc.c and the block bitmap of fs/fs.c: the block cache of the file server, which maps the
  disk at DISKMAP and loads a block on the first access through its page-fault handler.

  Block \<open>b\<close> of the disk is at \<open>DISKMAP + b * BLKSIZE\<close>; an address in the cache is the pair of
  a block number and the index of a 32-bit word. \<open>io_ok b\<close> says whether the page for the block
  can be allocated and its sectors transferred (the disk itself and the memory of the machine
  are outside the program): a failure of either is a panic of the server.
\<close>

unbundle bit_operations_syntax

section \<open>inc/fs.h and fs/fs.h\<close>

definition BLKSIZE :: nat where "BLKSIZE = 4096"
definition BLKBITSIZE :: nat where "BLKBITSIZE = BLKSIZE * 8"
definition DISKSIZE :: nat where "DISKSIZE = 0xC0000000"
definition FS_MAGIC :: u32 where "FS_MAGIC = 0x4A0530AE"

record fs =
  disk :: "nat \<Rightarrow> nat \<Rightarrow> u32"
  cache :: "nat \<Rightarrow> (nat \<Rightarrow> u32) option"
  dirty :: "nat \<Rightarrow> bool"
  super_set :: bool
  bitmap_set :: bool
  io_ok :: "nat \<Rightarrow> bool"

definition va_is_mapped :: "nat \<Rightarrow> fs \<Rightarrow> bool" where
  "va_is_mapped b s = (cache s b \<noteq> None)"

definition va_is_dirty :: "nat \<Rightarrow> fs \<Rightarrow> bool" where
  "va_is_dirty b s = dirty s b"

text \<open>The block and the word of the bitmap with the bit of block \<open>b\<close>.\<close>

definition bm_slot :: "nat \<Rightarrow> nat \<times> nat" where
  "bm_slot b = (2 + b div 32 div 1024, b div 32 mod 1024)"

text \<open>
  An access to block \<open>b\<close>: nothing when it is mapped, otherwise \<open>bc_pgfault\<close>. The transfer from
  the disk writes to the page and so makes it dirty. The checks after the transfer read the
  superblock and the bitmap, which may fault in turn: a fault on a block can only lead to
  faults on block 1, on the bitmap block with the block's bit, and on block 2, each once, so
  that the nesting is at most four deep.
\<close>

fun bc_access :: "nat \<Rightarrow> nat \<Rightarrow> fs \<Rightarrow> fs option" where
  "bc_access 0 b s = None"
| "bc_access (Suc n) b s =
     (if va_is_mapped b s then Some s
      else if b \<ge> DISKSIZE div BLKSIZE \<or> \<not> io_ok s b then None
      else
        let s1 = s\<lparr>cache := (cache s)(b \<mapsto> disk s b), dirty := (dirty s)(b := True)\<rparr>
        in if \<not> super_set s1 then Some s1
           else do {
             s2 \<leftarrow> bc_access n 1 s1;
             sb \<leftarrow> cache s2 1;
             if b \<ge> unat (sb 1) then None
             else if \<not> bitmap_set s2 then Some s2
             else do {
               s3 \<leftarrow> bc_access n (fst (bm_slot b)) s2;
               bm \<leftarrow> cache s3 (fst (bm_slot b));
               if bit (bm (snd (bm_slot b))) (b mod 32) then None else Some s3
             }
           })"

definition touch :: "nat \<Rightarrow> fs \<Rightarrow> fs option" where
  "touch b s = bc_access 4 b s"

text \<open>Loads and stores through the mapping.\<close>

definition rd_w :: "nat \<times> nat \<Rightarrow> fs \<Rightarrow> (u32 \<times> fs) option" where
  "rd_w a s = do { s1 \<leftarrow> touch (fst a) s; c \<leftarrow> cache s1 (fst a); Some (c (snd a), s1) }"

definition put_block :: "nat \<Rightarrow> (nat \<Rightarrow> u32) \<Rightarrow> fs \<Rightarrow> fs" where
  "put_block b c s = s\<lparr>cache := (cache s)(b \<mapsto> c), dirty := (dirty s)(b := True)\<rparr>"

definition wr_w :: "nat \<times> nat \<Rightarrow> u32 \<Rightarrow> fs \<Rightarrow> fs option" where
  "wr_w a v s =
     do { s1 \<leftarrow> touch (fst a) s; c \<leftarrow> cache s1 (fst a); Some (put_block (fst a) (c(snd a := v)) s1) }"

text \<open>\<open>memset(diskaddr(b), 0, BLKSIZE)\<close> after the address was computed.\<close>

definition zero_block :: "nat \<Rightarrow> fs \<Rightarrow> fs option" where
  "zero_block b s = do { s1 \<leftarrow> touch b s; Some (put_block b (\<lambda>_. 0) s1) }"

section \<open>fs/bc.c\<close>

definition s_nblocks :: "fs \<Rightarrow> (nat \<times> fs) option" where
  "s_nblocks s = do { (n, s1) \<leftarrow> rd_w (1, 1) s; Some (unat n, s1) }"

text \<open>The address of a block is its number; a bad number is a panic.\<close>

definition diskaddr :: "nat \<Rightarrow> fs \<Rightarrow> (nat \<times> fs) option" where
  "diskaddr b s =
     (if b = 0 then None
      else if super_set s then do { (n, s1) \<leftarrow> s_nblocks s; if b \<ge> n then None else Some (b, s1) }
      else Some (b, s))"

definition flush_block :: "nat \<Rightarrow> fs \<Rightarrow> fs option" where
  "flush_block b s =
     (if b \<ge> DISKSIZE div BLKSIZE then None
      else if va_is_mapped b s \<and> va_is_dirty b s then
        if \<not> io_ok s b then None
        else do {
          c \<leftarrow> cache s b;
          Some (s\<lparr>disk := (disk s)(b := c), dirty := (dirty s)(b := False)\<rparr>)
        }
      else Some s)"

text \<open>
  check_bc: the superblock is smashed, flushed, unmapped, read back and repaired. \<open>OOPS\<close> and
  \<open>OOPS_END\<close> are the words of the string; of the second only the low three bytes, the last of them
  the terminator, are written and compared. A \<open>struct Super\<close> has 66 words.
\<close>

definition OOPS :: u32 where "OOPS = 0x53504F4F"
definition OOPS_END :: u32 where "OOPS_END = 0x000A21"

definition put_oops :: "(nat \<Rightarrow> u32) \<Rightarrow> nat \<Rightarrow> u32" where
  "put_oops c = c(0 := OOPS, 1 := c 1 AND 0xFF000000 OR OOPS_END)"

definition is_oops :: "(nat \<Rightarrow> u32) \<Rightarrow> bool" where
  "is_oops c \<longleftrightarrow> c 0 = OOPS \<and> c 1 AND 0x00FFFFFF = OOPS_END"

definition load_block :: "nat \<Rightarrow> fs \<Rightarrow> ((nat \<Rightarrow> u32) \<times> fs) option" where
  "load_block b s = do { s1 \<leftarrow> touch b s; c \<leftarrow> cache s1 b; Some (c, s1) }"

definition page_unmap :: "nat \<Rightarrow> fs \<Rightarrow> fs" where
  "page_unmap b s = s\<lparr>cache := (cache s)(b := None), dirty := (dirty s)(b := False)\<rparr>"

definition check_bc :: "fs \<Rightarrow> fs option" where
  "check_bc s =
     do {
       (b, s) \<leftarrow> diskaddr 1 s;
       (c, s) \<leftarrow> load_block b s;
       let backup = map c [0..<66];
       s \<leftarrow> flush_block b (put_block b (put_oops c) s);
       if va_is_mapped b s \<and> \<not> va_is_dirty b s then do {
         let s = page_unmap b s;
         if va_is_mapped b s then None
         else do {
           (c, s) \<leftarrow> load_block b s;
           if \<not> is_oops c then None
           else flush_block b (put_block b (\<lambda>i. if i < 66 then backup ! i else c i) s)
         }
       }
       else None
     }"

section \<open>The free-block bitmap (fs/fs.c)\<close>

definition block_is_free :: "nat \<Rightarrow> fs \<Rightarrow> (bool \<times> fs) option" where
  "block_is_free b s =
     (if \<not> super_set s then Some (False, s)
      else do {
        (n, s1) \<leftarrow> s_nblocks s;
        if b \<ge> n then Some (False, s1)
        else do {
          (w, s2) \<leftarrow> rd_w (bm_slot b) s1;
          Some (bit w (b mod 32), s2)
        }
      })"

definition free_block :: "nat \<Rightarrow> fs \<Rightarrow> fs option" where
  "free_block b s =
     (if b = 0 then None
      else do {
        (w, s1) \<leftarrow> rd_w (bm_slot b) s;
        wr_w (bm_slot b) (w OR push_bit (b mod 32) 1) s1
      })"

text \<open>The loop over the block numbers; the flush is of the first block of the bitmap.\<close>

fun alloc_loop :: "nat list \<Rightarrow> fs \<Rightarrow> ((errno + nat) \<times> fs) option" where
  "alloc_loop [] s = Some (Inl E_NO_DISK, s)"
| "alloc_loop (b # bs) s =
     do {
       (fr, s1) \<leftarrow> block_is_free b s;
       if fr then do {
         (w, s2) \<leftarrow> rd_w (bm_slot b) s1;
         s3 \<leftarrow> wr_w (bm_slot b) (w AND NOT (push_bit (b mod 32) 1)) s2;
         s4 \<leftarrow> flush_block 2 s3;
         Some (Inr b, s4)
       }
       else alloc_loop bs s1
     }"

definition alloc_block :: "fs \<Rightarrow> ((errno + nat) \<times> fs) option" where
  "alloc_block s = do { (n, s1) \<leftarrow> s_nblocks s; alloc_loop [0..<n] s1 }"

definition check_super :: "fs \<Rightarrow> fs option" where
  "check_super s =
     do {
       (magic, s1) \<leftarrow> rd_w (1, 0) s;
       (n, s2) \<leftarrow> s_nblocks s1;
       if magic \<noteq> FS_MAGIC \<or> n > DISKSIZE div BLKSIZE then None else Some s2
     }"

definition assert_used :: "nat \<Rightarrow> fs \<Rightarrow> fs option" where
  "assert_used b s = do { (fr, s1) \<leftarrow> block_is_free b s; if fr then None else Some s1 }"

definition check_bitmap :: "fs \<Rightarrow> fs option" where
  "check_bitmap s =
     do {
       (n, s1) \<leftarrow> s_nblocks s;
       s2 \<leftarrow> iter_opt (\<lambda>i. assert_used (2 + i)) (filter (\<lambda>i. i * BLKBITSIZE < n) [0..<n]) s1;
       s3 \<leftarrow> assert_used 0 s2;
       assert_used 1 s3
     }"

text \<open>\<open>fs_init\<close> after the disk was chosen; bc_init installs the handler and runs check_bc.\<close>

definition bc_init :: "fs \<Rightarrow> fs option" where
  "bc_init s = check_bc s"

definition fs_init :: "fs \<Rightarrow> fs option" where
  "fs_init s =
     do {
       s \<leftarrow> bc_init s;
       (b1, s1) \<leftarrow> diskaddr 1 s;
       let s2 = s1\<lparr>super_set := True\<rparr>;
       (b2, s3) \<leftarrow> diskaddr 2 s2;
       let s4 = s3\<lparr>bitmap_set := True\<rparr>;
       s5 \<leftarrow> check_super s4;
       check_bitmap s5
     }"

end
