(* ===== verification/Fs.thy ===== *)
theory Fs
  imports Bc "HOL-Library.Signed_Division"
begin

text \<open>
  fs/fs.c: files, directories and path names on the block cache. A \<open>struct File *\<close> is the
  address (block, word) of the structure in the cache: 64 words, with the name in words 0-31,
  then f_size, f_type, ten direct blocks and the indirect block. A file operation gives the
  error or the result with the new state, or \<open>None\<close> when the server panics.
\<close>

unbundle bit_operations_syntax

type_synonym fptr = "nat \<times> nat"
type_synonym 'a fsres = "((errno + 'a) \<times> fs) option"

definition MAXNAMELEN :: nat where "MAXNAMELEN = 128"
definition NDIRECT :: nat where "NDIRECT = 10"
definition NINDIRECT :: nat where "NINDIRECT = BLKSIZE div 4"
definition BLKFILES :: nat where "BLKFILES = BLKSIZE div 256"
definition FTYPE_DIR :: u32 where "FTYPE_DIR = 1"

definition fld :: "fptr \<Rightarrow> nat \<Rightarrow> nat \<times> nat" where
  "fld f k = (fst f, snd f + k)"

definition F_SIZE :: nat where "F_SIZE = 32"
definition F_TYPE :: nat where "F_TYPE = 33"
definition F_DIRECT :: nat where "F_DIRECT = 34"
definition F_INDIRECT :: nat where "F_INDIRECT = 44"

definition s_root :: fptr where "s_root = (1, 2)"

text \<open>Sequencing of operations that can fail.\<close>

definition seq :: "'a fsres \<Rightarrow> ('a \<Rightarrow> fs \<Rightarrow> 'b fsres) \<Rightarrow> 'b fsres" where
  "seq m k = (case m of
     None \<Rightarrow> None
   | Some (Inl e, s) \<Rightarrow> Some (Inl e, s)
   | Some (Inr x, s) \<Rightarrow> k x s)"

text \<open>Bytes of the mapping; an address is a number of bytes from DISKMAP.\<close>

definition rd_b :: "nat \<Rightarrow> fs \<Rightarrow> (u8 \<times> fs) option" where
  "rd_b a s = do { (w, s1) \<leftarrow> rd_w (a div 4096, a mod 4096 div 4) s; Some (get_byte (a mod 4) w, s1) }"

definition wr_b :: "nat \<Rightarrow> u8 \<Rightarrow> fs \<Rightarrow> fs option" where
  "wr_b a c s =
     do {
       (w, s1) \<leftarrow> rd_w (a div 4096, a mod 4096 div 4) s;
       wr_w (a div 4096, a mod 4096 div 4) (put_byte (a mod 4) c w) s1
     }"

fun rd_bs :: "nat \<Rightarrow> nat \<Rightarrow> fs \<Rightarrow> (u8 list \<times> fs) option" where
  "rd_bs a 0 s = Some ([], s)"
| "rd_bs a (Suc n) s = do { (c, s1) \<leftarrow> rd_b a s; (cs, s2) \<leftarrow> rd_bs (a + 1) n s1; Some (c # cs, s2) }"

fun wr_bs :: "nat \<Rightarrow> u8 list \<Rightarrow> fs \<Rightarrow> fs option" where
  "wr_bs a [] s = Some s"
| "wr_bs a (c # cs) s = do { s1 \<leftarrow> wr_b a c s; wr_bs (a + 1) cs s1 }"

definition byte_addr :: "nat \<times> nat \<Rightarrow> nat" where
  "byte_addr a = fst a * 4096 + snd a * 4"

section \<open>The blocks of a file\<close>

definition clear_block :: "nat \<Rightarrow> fs \<Rightarrow> fs option" where
  "clear_block b s =
     do {
       (d, s1) \<leftarrow> diskaddr b s;
       s2 \<leftarrow> zero_block d s1;
       (d2, s3) \<leftarrow> diskaddr b s2;
       flush_block d2 s3
     }"

text \<open>The slot with the number of the disk block.\<close>

definition file_block_walk :: "fptr \<Rightarrow> nat \<Rightarrow> bool \<Rightarrow> fs \<Rightarrow> (nat \<times> nat) fsres" where
  "file_block_walk f filebno alloc s =
     (if filebno \<ge> NDIRECT + NINDIRECT then Some (Inl E_INVAL, s)
      else if filebno < NDIRECT then Some (Inr (fld f (F_DIRECT + filebno)), s)
      else do {
        (ind, s1) \<leftarrow> rd_w (fld f F_INDIRECT) s;
        seq
          (if ind = 0 then
             if \<not> alloc then Some (Inl E_NOT_FOUND, s1)
             else seq (alloc_block s1) (\<lambda>r s2. do {
               s3 \<leftarrow> wr_w (fld f F_INDIRECT) (of_nat r) s2;
               s4 \<leftarrow> clear_block r s3;
               Some (Inr (), s4)
             })
           else Some (Inr (), s1))
          (\<lambda>_ s5. do {
            (ind2, s6) \<leftarrow> rd_w (fld f F_INDIRECT) s5;
            (d, s7) \<leftarrow> diskaddr (unat ind2) s6;
            Some (Inr (d, filebno - NDIRECT), s7)
          })
      })"

definition file_get_block :: "fptr \<Rightarrow> nat \<Rightarrow> fs \<Rightarrow> nat fsres" where
  "file_get_block f filebno s =
     seq (file_block_walk f filebno True s) (\<lambda>p s1. do {
       (bn, s2) \<leftarrow> rd_w p s1;
       seq
         (if bn = 0 then
            seq (alloc_block s2) (\<lambda>r s3. do {
              s4 \<leftarrow> wr_w p (of_nat r) s3;
              s5 \<leftarrow> clear_block r s4;
              Some (Inr (), s5)
            })
          else Some (Inr (), s2))
         (\<lambda>_ s6. do {
           (bn2, s7) \<leftarrow> rd_w p s6;
           (d, s8) \<leftarrow> diskaddr (unat bn2) s7;
           Some (Inr d, s8)
         })
     })"

definition file_free_block :: "fptr \<Rightarrow> nat \<Rightarrow> fs \<Rightarrow> unit fsres" where
  "file_free_block f filebno s =
     seq (file_block_walk f filebno False s) (\<lambda>p s1. do {
       (bn, s2) \<leftarrow> rd_w p s1;
       if bn \<noteq> 0 then do {
         s3 \<leftarrow> free_block (unat bn) s2;
         s4 \<leftarrow> wr_w p 0 s3;
         Some (Inr (), s4)
       }
       else Some (Inr (), s2)
     })"

text \<open>\<open>(size + BLKSIZE - 1) / BLKSIZE\<close>, a signed division, converted to the type it is used at.\<close>

definition nblocks_of :: "u32 \<Rightarrow> u32" where
  "nblocks_of sz = word_of_int (sint (sz + of_nat BLKSIZE - 1) sdiv int BLKSIZE)"

text \<open>The warning for a block that cannot be freed is printed and ignored.\<close>

fun free_blocks :: "fptr \<Rightarrow> nat list \<Rightarrow> fs \<Rightarrow> fs option" where
  "free_blocks f [] s = Some s"
| "free_blocks f (b # bs) s = do { (r, s1) \<leftarrow> file_free_block f b s; free_blocks f bs s1 }"

definition file_truncate_blocks :: "fptr \<Rightarrow> u32 \<Rightarrow> fs \<Rightarrow> fs option" where
  "file_truncate_blocks f newsize s =
     do {
       (sz, s1) \<leftarrow> rd_w (fld f F_SIZE) s;
       let old_nblocks = unat (nblocks_of sz);
       let new_nblocks = unat (nblocks_of newsize);
       s2 \<leftarrow> free_blocks f [new_nblocks..<old_nblocks] s1;
       if new_nblocks \<le> NDIRECT then do {
         (ind, s3) \<leftarrow> rd_w (fld f F_INDIRECT) s2;
         if ind \<noteq> 0 then do {
           s4 \<leftarrow> free_block (unat ind) s3;
           wr_w (fld f F_INDIRECT) 0 s4
         }
         else Some s3
       }
       else Some s2
     }"

definition file_set_size :: "fptr \<Rightarrow> u32 \<Rightarrow> fs \<Rightarrow> fs option" where
  "file_set_size f newsize s =
     do {
       (sz, s1) \<leftarrow> rd_w (fld f F_SIZE) s;
       s2 \<leftarrow> (if sint sz > sint newsize then file_truncate_blocks f newsize s1 else Some s1);
       s3 \<leftarrow> wr_w (fld f F_SIZE) newsize s2;
       flush_block (fst f) s3
     }"

fun flush_loop :: "fptr \<Rightarrow> nat list \<Rightarrow> fs \<Rightarrow> fs option" where
  "flush_loop f [] s = Some s"
| "flush_loop f (i # is) s =
     do {
       (r, s1) \<leftarrow> file_block_walk f i False s;
       s2 \<leftarrow> (case r of
          Inl e \<Rightarrow> Some s1
        | Inr p \<Rightarrow> do {
            (bn, s2) \<leftarrow> rd_w p s1;
            if bn = 0 then Some s2
            else do { (d, s3) \<leftarrow> diskaddr (unat bn) s2; flush_block d s3 }
          });
       flush_loop f is s2
     }"

definition file_flush :: "fptr \<Rightarrow> fs \<Rightarrow> fs option" where
  "file_flush f s =
     do {
       (sz, s1) \<leftarrow> rd_w (fld f F_SIZE) s;
       s2 \<leftarrow> flush_loop f [0..<nat (sint (nblocks_of sz))] s1;
       s3 \<leftarrow> flush_block (fst f) s2;
       (ind, s4) \<leftarrow> rd_w (fld f F_INDIRECT) s3;
       if ind \<noteq> 0 then do { (d, s5) \<leftarrow> diskaddr (unat ind) s4; flush_block d s5 }
       else Some s4
     }"

section \<open>Reading and writing\<close>

definition MIN_u :: "u32 \<Rightarrow> u32 \<Rightarrow> u32" where
  "MIN_u a b = (if a \<le> b then a else b)"

text \<open>
  The bytes of block \<open>b\<close> from offset \<open>pos % BLKSIZE\<close>, which is negative for a negative \<open>pos\<close>.
\<close>

definition blk_addr :: "nat \<Rightarrow> u32 \<Rightarrow> nat" where
  "blk_addr b pos = nat (int b * 4096 + sint pos smod int BLKSIZE)"

definition chunk :: "u32 \<Rightarrow> u32 \<Rightarrow> u32" where
  "chunk pos lim = MIN_u (word_of_int (int BLKSIZE - sint pos smod int BLKSIZE)) (lim - pos)"

partial_function (option) read_loop :: "fptr \<Rightarrow> u32 \<Rightarrow> u32 \<Rightarrow> u8 list \<Rightarrow> fs \<Rightarrow> u8 list fsres" where
  "read_loop f pos lim acc s =
     (if pos < lim then
        (case file_get_block f (unat (word_of_int (sint pos sdiv int BLKSIZE) :: u32)) s of
           None \<Rightarrow> None
         | Some (Inl e, s1) \<Rightarrow> Some (Inl e, s1)
         | Some (Inr b, s1) \<Rightarrow> do {
             let bn = chunk pos lim;
             (bs, s2) \<leftarrow> rd_bs (blk_addr b pos) (unat bn) s1;
             read_loop f (pos + bn) lim (acc @ bs) s2
           })
      else Some (Inr acc, s))"

text \<open>The result is the bytes put in the buffer; their number is what the function returns.\<close>

definition file_read :: "fptr \<Rightarrow> u32 \<Rightarrow> u32 \<Rightarrow> fs \<Rightarrow> u8 list fsres" where
  "file_read f count offset s =
     do {
       (sz, s1) \<leftarrow> rd_w (fld f F_SIZE) s;
       if sint offset \<ge> sint sz then Some (Inr [], s1)
       else let n = MIN_u count (sz - offset) in read_loop f offset (offset + n) [] s1
     }"

partial_function (option) write_loop :: "fptr \<Rightarrow> u32 \<Rightarrow> u32 \<Rightarrow> u8 list \<Rightarrow> fs \<Rightarrow> unit fsres" where
  "write_loop f pos lim buf s =
     (if pos < lim then
        (case file_get_block f (unat (word_of_int (sint pos sdiv int BLKSIZE) :: u32)) s of
           None \<Rightarrow> None
         | Some (Inl e, s1) \<Rightarrow> Some (Inl e, s1)
         | Some (Inr b, s1) \<Rightarrow> do {
             let bn = chunk pos lim;
             s2 \<leftarrow> wr_bs (blk_addr b pos) (take (unat bn) buf) s1;
             write_loop f (pos + bn) lim (drop (unat bn) buf) s2
           })
      else Some (Inr (), s))"

text \<open>\<open>buf\<close> has the \<open>count\<close> bytes to write. The comparison with the size is unsigned.\<close>

definition file_write :: "fptr \<Rightarrow> u8 list \<Rightarrow> u32 \<Rightarrow> fs \<Rightarrow> u32 fsres" where
  "file_write f buf offset s =
     do {
       let count = of_nat (length buf);
       (sz, s1) \<leftarrow> rd_w (fld f F_SIZE) s;
       s2 \<leftarrow> (if offset + count > sz then file_set_size f (offset + count) s1 else Some s1);
       seq (write_loop f offset (offset + count) buf s2) (\<lambda>_ s3. Some (Inr count, s3))
     }"

section \<open>Directories\<close>

text \<open>\<open>strcmp(f_name, name) == 0\<close> for a name without null bytes.\<close>

fun name_eq :: "nat \<Rightarrow> u8 list \<Rightarrow> fs \<Rightarrow> (bool \<times> fs) option" where
  "name_eq a [] s = do { (c, s1) \<leftarrow> rd_b a s; Some (c = 0, s1) }"
| "name_eq a (x # xs) s =
     do { (c, s1) \<leftarrow> rd_b a s; if c \<noteq> x then Some (False, s1) else name_eq (a + 1) xs s1 }"

definition slot_file :: "nat \<Rightarrow> nat \<Rightarrow> fptr" where
  "slot_file b j = (b, j * 64)"

fun scan_names :: "nat \<Rightarrow> u8 list \<Rightarrow> nat list \<Rightarrow> fs \<Rightarrow> (fptr option \<times> fs) option" where
  "scan_names b name [] s = Some (None, s)"
| "scan_names b name (j # js) s =
     do {
       (eq, s1) \<leftarrow> name_eq (byte_addr (slot_file b j)) name s;
       if eq then Some (Some (slot_file b j), s1) else scan_names b name js s1
     }"

fun lookup_blocks :: "fptr \<Rightarrow> u8 list \<Rightarrow> nat list \<Rightarrow> fs \<Rightarrow> fptr fsres" where
  "lookup_blocks dir name [] s = Some (Inl E_NOT_FOUND, s)"
| "lookup_blocks dir name (i # is) s =
     seq (file_get_block dir i s) (\<lambda>b s1. do {
       (r, s2) \<leftarrow> scan_names b name [0..<BLKFILES] s1;
       case r of Some f \<Rightarrow> Some (Inr f, s2) | None \<Rightarrow> lookup_blocks dir name is s2
     })"

text \<open>The assertion on the size, and the number of blocks of the directory.\<close>

definition dir_nblock :: "fptr \<Rightarrow> fs \<Rightarrow> (nat \<times> fs) option" where
  "dir_nblock dir s =
     do {
       (sz, s1) \<leftarrow> rd_w (fld dir F_SIZE) s;
       if sint sz smod int BLKSIZE \<noteq> 0 then None
       else Some (unat (word_of_int (sint sz sdiv int BLKSIZE) :: u32), s1)
     }"

definition dir_lookup :: "fptr \<Rightarrow> u8 list \<Rightarrow> fs \<Rightarrow> fptr fsres" where
  "dir_lookup dir name s =
     do { (nblock, s1) \<leftarrow> dir_nblock dir s; lookup_blocks dir name [0..<nblock] s1 }"

fun scan_free :: "nat \<Rightarrow> nat list \<Rightarrow> fs \<Rightarrow> (fptr option \<times> fs) option" where
  "scan_free b [] s = Some (None, s)"
| "scan_free b (j # js) s =
     do {
       (c, s1) \<leftarrow> rd_b (byte_addr (slot_file b j)) s;
       if c = 0 then Some (Some (slot_file b j), s1) else scan_free b js s1
     }"

fun free_slot_blocks :: "fptr \<Rightarrow> nat list \<Rightarrow> fs \<Rightarrow> fptr option fsres" where
  "free_slot_blocks dir [] s = Some (Inr None, s)"
| "free_slot_blocks dir (i # is) s =
     seq (file_get_block dir i s) (\<lambda>b s1. do {
       (r, s2) \<leftarrow> scan_free b [0..<BLKFILES] s1;
       case r of Some f \<Rightarrow> Some (Inr (Some f), s2) | None \<Rightarrow> free_slot_blocks dir is s2
     })"

definition dir_alloc_file :: "fptr \<Rightarrow> fs \<Rightarrow> fptr fsres" where
  "dir_alloc_file dir s =
     do {
       (nblock, s1) \<leftarrow> dir_nblock dir s;
       seq (free_slot_blocks dir [0..<nblock] s1) (\<lambda>r s2.
         case r of
           Some f \<Rightarrow> Some (Inr f, s2)
         | None \<Rightarrow> do {
             (sz, s3) \<leftarrow> rd_w (fld dir F_SIZE) s2;
             s4 \<leftarrow> wr_w (fld dir F_SIZE) (sz + of_nat BLKSIZE) s3;
             seq (file_get_block dir nblock s4) (\<lambda>b s5. Some (Inr (slot_file b 0), s5))
           })
     }"

section \<open>Paths\<close>

definition skip_slash :: "u8 list \<Rightarrow> u8 list" where
  "skip_slash p = dropWhile (\<lambda>c. c = 47) p"

text \<open>What \<open>walk_path\<close> returns, and what it stores in \<open>pdir\<close>, \<open>pf\<close> and \<open>lastelem\<close>.\<close>

record walked =
  w_res :: "errno + unit"
  w_pdir :: "fptr option"
  w_pf :: "fptr option"
  w_last :: "u8 list option"

definition walk_fail :: "errno \<Rightarrow> walked" where
  "walk_fail e = \<lparr>w_res = Inl e, w_pdir = None, w_pf = None, w_last = None\<rparr>"

text \<open>The loop, with the current file \<open>f\<close> and its directory; \<open>path\<close> has no leading slash.\<close>

function walk_loop :: "u8 list \<Rightarrow> fptr option \<Rightarrow> fptr \<Rightarrow> fs \<Rightarrow> (walked \<times> fs) option" where
  "walk_loop path dir f s =
     (if path = [] then Some (\<lparr>w_res = Inr (), w_pdir = dir, w_pf = Some f, w_last = None\<rparr>, s)
      else
        let name = takeWhile (\<lambda>c. c \<noteq> 47) path;
            rest = skip_slash (dropWhile (\<lambda>c. c \<noteq> 47) path)
        in if length name \<ge> MAXNAMELEN then Some (walk_fail E_BAD_PATH, s)
           else do {
             (ty, s1) \<leftarrow> rd_w (fld f F_TYPE) s;
             if ty \<noteq> FTYPE_DIR then Some (walk_fail E_NOT_FOUND, s1)
             else do {
               (r, s2) \<leftarrow> dir_lookup f name s1;
               case r of
                 Inl e \<Rightarrow>
                   if e = E_NOT_FOUND \<and> rest = []
                   then Some (\<lparr>w_res = Inl e, w_pdir = Some f, w_pf = None, w_last = Some name\<rparr>, s2)
                   else Some (walk_fail e, s2)
               | Inr f2 \<Rightarrow> walk_loop rest (Some f) f2 s2
             }
           })"
  by pat_completeness auto

lemma skip_shorter: "path \<noteq> [] \<Longrightarrow> length (skip_slash (dropWhile (\<lambda>c. c \<noteq> 47) path)) < length path"
proof (cases path)
  case (Cons c cs)
  have "length (dropWhile P xs) \<le> length xs" for P and xs :: "u8 list" by (rule length_dropWhile_le)
  then show ?thesis
    using Cons by (auto simp: skip_slash_def less_Suc_eq_le intro: order_trans)
qed simp

termination walk_loop
  by (relation "measure (\<lambda>(path, dir, f, s). length path)") (auto simp: skip_shorter)

definition walk_path :: "u8 list \<Rightarrow> fs \<Rightarrow> (walked \<times> fs) option" where
  "walk_path path s = walk_loop (skip_slash path) None s_root s"

section \<open>Operations on paths\<close>

definition file_create :: "u8 list \<Rightarrow> fs \<Rightarrow> fptr fsres" where
  "file_create path s =
     do {
       (w, s1) \<leftarrow> walk_path path s;
       case w_res w of
         Inr _ \<Rightarrow> Some (Inl E_FILE_EXISTS, s1)
       | Inl r \<Rightarrow>
           (case w_pdir w of
              None \<Rightarrow> Some (Inl r, s1)
            | Some dir \<Rightarrow>
                if r \<noteq> E_NOT_FOUND then Some (Inl r, s1)
                else do {
                  (a, s2) \<leftarrow> dir_alloc_file dir s1;
                  case a of
                    Inl e \<Rightarrow> Some (Inl r, s2)
                  | Inr f \<Rightarrow> do {
                      name \<leftarrow> w_last w;
                      s3 \<leftarrow> wr_bs (byte_addr f) (name @ [0]) s2;
                      s4 \<leftarrow> file_flush dir s3;
                      Some (Inr f, s4)
                    }
                })
     }"

definition file_open :: "u8 list \<Rightarrow> fs \<Rightarrow> fptr fsres" where
  "file_open path s =
     do {
       (w, s1) \<leftarrow> walk_path path s;
       case w_res w of
         Inl e \<Rightarrow> Some (Inl e, s1)
       | Inr _ \<Rightarrow> do { f \<leftarrow> w_pf w; Some (Inr f, s1) }
     }"

definition file_remove :: "u8 list \<Rightarrow> fs \<Rightarrow> unit fsres" where
  "file_remove path s =
     seq (file_open path s) (\<lambda>f s1. do {
       s2 \<leftarrow> file_truncate_blocks f 0 s1;
       s3 \<leftarrow> wr_b (byte_addr f) 0 s2;
       s4 \<leftarrow> wr_w (fld f F_SIZE) 0 s3;
       s5 \<leftarrow> flush_block (fst f) s4;
       Some (Inr (), s5)
     })"

fun sync_loop :: "nat list \<Rightarrow> fs \<Rightarrow> fs option" where
  "sync_loop [] s = Some s"
| "sync_loop (b # bs) s = do { (d, s1) \<leftarrow> diskaddr b s; s2 \<leftarrow> flush_block d s1; sync_loop bs s2 }"

definition fs_sync :: "fs \<Rightarrow> fs option" where
  "fs_sync s = do { (n, s1) \<leftarrow> s_nblocks s; sync_loop [1..<n] s1 }"

end
