(* ===== verification/Serv.thy ===== *)
theory Serv
  imports Fs
begin

text \<open>
  fs/serv.c: the table of open files and the handlers of the requests that other environments
  send to the file server. The request page \<open>fsreq\<close> is a function from offsets to bytes; its
  fields are those of \<open>union Fsipc\<close> in inc/fs.h.

  The Fd page of entry \<open>i\<close> of the table is \<open>fdpage s i\<close>, and \<open>fdref s i\<close> is what
  \<open>pageref(opentab[i].o_fd)\<close> gives: 0 when the server has no page there, 1 when only the server
  maps it, more when clients do. Clients change it by mapping and unmapping the page
  between the requests (the events of Serv_Spec). \<open>can_map i\<close> says whether the kernel has a page for entry \<open>i\<close>.
  An access through a null \<open>o_file\<close> or to an Fd page that is not mapped is a page fault outside
  of the block cache, a panic of \<open>bc_pgfault\<close>. The debugging messages are off.
\<close>

unbundle bit_operations_syntax

section \<open>Data\<close>

definition MAXOPEN :: nat where "MAXOPEN = 1024"
definition MAXPATHLEN :: nat where "MAXPATHLEN = 1024"

definition O_ACCMODE :: u32 where "O_ACCMODE = 0x3"
definition O_CREAT :: u32 where "O_CREAT = 0x100"
definition O_TRUNC :: u32 where "O_TRUNC = 0x200"
definition O_EXCL :: u32 where "O_EXCL = 0x400"

definition FSREQ_OPEN :: u32 where "FSREQ_OPEN = 1"
definition FSREQ_SET_SIZE :: u32 where "FSREQ_SET_SIZE = 2"
definition FSREQ_READ :: u32 where "FSREQ_READ = 3"
definition FSREQ_WRITE :: u32 where "FSREQ_WRITE = 4"
definition FSREQ_STAT :: u32 where "FSREQ_STAT = 5"
definition FSREQ_FLUSH :: u32 where "FSREQ_FLUSH = 6"
definition FSREQ_REMOVE :: u32 where "FSREQ_REMOVE = 7"
definition FSREQ_SYNC :: u32 where "FSREQ_SYNC = 8"

lemmas fsreq_defs = FSREQ_OPEN_def FSREQ_SET_SIZE_def FSREQ_READ_def FSREQ_WRITE_def FSREQ_STAT_def
  FSREQ_FLUSH_def FSREQ_REMOVE_def FSREQ_SYNC_def

record OpenFile =
  o_fileid :: u32
  o_file :: "fptr option"
  o_mode :: u32

record Fd =
  fd_dev_id :: u32
  fd_offset :: u32
  fd_omode :: u32
  fd_file_id :: u32

record serv =
  s_fs :: fs
  opentab :: "nat \<Rightarrow> OpenFile"
  fdpage :: "nat \<Rightarrow> Fd"
  fdref :: "nat \<Rightarrow> nat"
  can_map :: "nat \<Rightarrow> bool"

type_synonym page = "nat \<Rightarrow> u8"

definition req_word :: "page \<Rightarrow> nat \<Rightarrow> u32" where
  "req_word pg k = ucast (pg k) OR push_bit 8 (ucast (pg (k + 1))) OR push_bit 16 (ucast (pg (k + 2)))
     OR push_bit 24 (ucast (pg (k + 3)))"

definition put_word :: "nat \<Rightarrow> u32 \<Rightarrow> page \<Rightarrow> page" where
  "put_word k w pg = (\<lambda>i. if k \<le> i \<and> i < k + 4 then get_byte (i - k) w else pg i)"

definition put_bytes :: "u8 list \<Rightarrow> page \<Rightarrow> page" where
  "put_bytes bs pg = (\<lambda>i. if i < length bs then bs ! i else pg i)"

text \<open>A result: an error code as a negative number, or a value.\<close>

definition ret_err :: "errno \<Rightarrow> u32" where
  "ret_err e = word_of_int (- errcode e)"

text \<open>\<open>memmove(path, req_path, MAXPATHLEN); path[MAXPATHLEN-1] = 0\<close>, as a string.\<close>

definition req_path :: "page \<Rightarrow> u8 list" where
  "req_path pg = takeWhile (\<lambda>c. c \<noteq> 0) (map pg [0..<MAXPATHLEN - 1])"

section \<open>Open files\<close>

definition set_open :: "nat \<Rightarrow> OpenFile \<Rightarrow> serv \<Rightarrow> serv" where
  "set_open i o' s = s\<lparr>opentab := (opentab s)(i := o')\<rparr>"

definition serve_init :: "serv \<Rightarrow> serv" where
  "serve_init s = s\<lparr>opentab := (\<lambda>i. if i < MAXOPEN then (opentab s i)\<lparr>o_fileid := of_nat i\<rparr> else opentab s i)\<rparr>"

definition Fd_zero :: Fd where
  "Fd_zero = \<lparr>fd_dev_id = 0, fd_offset = 0, fd_omode = 0, fd_file_id = 0\<rparr>"

text \<open>The loop over the entries; the result is the entry, with its new file id.\<close>

definition open_entry :: "nat \<Rightarrow> serv \<Rightarrow> (errno + nat) \<times> serv" where
  "open_entry i s =
     (let o' = opentab s i
      in (Inr i, (set_open i (o'\<lparr>o_fileid := o_fileid o' + of_nat MAXOPEN\<rparr>) s)\<lparr>
            fdpage := (fdpage s)(i := Fd_zero)\<rparr>))"

fun openfile_loop :: "nat list \<Rightarrow> serv \<Rightarrow> (errno + nat) \<times> serv" where
  "openfile_loop [] s = (Inl E_MAX_OPEN, s)"
| "openfile_loop (i # is) s =
     (if fdref s i = 0 then
        if can_map s i then open_entry i (s\<lparr>fdref := (fdref s)(i := 1)\<rparr>) else (Inl E_NO_MEM, s)
      else if fdref s i = 1 then open_entry i s
      else openfile_loop is s)"

definition openfile_alloc :: "serv \<Rightarrow> (errno + nat) \<times> serv" where
  "openfile_alloc s = openfile_loop [0..<MAXOPEN] s"

definition openfile_lookup :: "u32 \<Rightarrow> serv \<Rightarrow> errno + nat" where
  "openfile_lookup fileid s =
     (let i = unat (fileid mod of_nat MAXOPEN)
      in if fdref s i = 1 \<or> o_fileid (opentab s i) \<noteq> fileid then Inl E_INVAL else Inr i)"

text \<open>\<open>o->o_fd\<close>: the Fd page, when it is mapped.\<close>

definition fd_get :: "nat \<Rightarrow> serv \<Rightarrow> Fd option" where
  "fd_get i s = (if fdref s i = 0 then None else Some (fdpage s i))"

definition fd_put :: "nat \<Rightarrow> Fd \<Rightarrow> serv \<Rightarrow> serv option" where
  "fd_put i fd s = (if fdref s i = 0 then None else Some (s\<lparr>fdpage := (fdpage s)(i := fd)\<rparr>))"

text \<open>A file system function on the state of the server.\<close>

definition on_fs :: "(fs \<Rightarrow> 'a fsres) \<Rightarrow> serv \<Rightarrow> ((errno + 'a) \<times> serv) option" where
  "on_fs op s = (case op (s_fs s) of None \<Rightarrow> None | Some (r, f) \<Rightarrow> Some (r, s\<lparr>s_fs := f\<rparr>))"

definition ok_unit :: "(fs \<Rightarrow> fs option) \<Rightarrow> fs \<Rightarrow> unit fsres" where
  "ok_unit op f = (case op f of None \<Rightarrow> None | Some f' \<Rightarrow> Some (Inr (), f'))"

section \<open>The handlers\<close>

text \<open>The result is the value sent back, the request page, and for an open the entry to share.\<close>

type_synonym served = "(u32 \<times> page \<times> nat option \<times> serv) option"

definition fail :: "errno \<Rightarrow> page \<Rightarrow> serv \<Rightarrow> served" where
  "fail e pg s = Some (ret_err e, pg, None, s)"

text \<open>\<open>file_create\<close> with O_CREAT, and \<open>file_open\<close> without it or when the file exists.\<close>

definition open_file :: "u8 list \<Rightarrow> u32 \<Rightarrow> serv \<Rightarrow> ((errno + fptr) \<times> serv) option" where
  "open_file path omode s =
     (if omode AND O_CREAT \<noteq> 0 then do {
        (r, s1) \<leftarrow> on_fs (file_create path) s;
        case r of
          Inl e \<Rightarrow> if omode AND O_EXCL = 0 \<and> e = E_FILE_EXISTS then on_fs (file_open path) s1
                   else Some (Inl e, s1)
        | Inr f \<Rightarrow> Some (Inr f, s1)
      }
      else on_fs (file_open path) s)"

definition serve_open :: "page \<Rightarrow> serv \<Rightarrow> served" where
  "serve_open pg s =
     (let path = req_path pg; omode = req_word pg MAXPATHLEN;
          (r, s1) = openfile_alloc s
      in case r of
           Inl e \<Rightarrow> fail e pg s1
         | Inr i \<Rightarrow>
             if sint (o_fileid (opentab s1 i)) < 0 then Some (o_fileid (opentab s1 i), pg, None, s1)
             else do {
               (r2, s2) \<leftarrow> open_file path omode s1;
               case r2 of
                 Inl e \<Rightarrow> fail e pg s2
               | Inr f \<Rightarrow> do {
                   (r3, s3) \<leftarrow> (if omode AND O_TRUNC \<noteq> 0 then on_fs (ok_unit (file_set_size f 0)) s2
                                else Some (Inr (), s2));
                   let s4 = set_open i ((opentab s3 i)\<lparr>o_file := Some f\<rparr>) s3;
                   fd \<leftarrow> fd_get i s4;
                   s5 \<leftarrow> fd_put i (fd\<lparr>fd_file_id := o_fileid (opentab s4 i), fd_omode := omode AND O_ACCMODE,
                            fd_dev_id := 102\<rparr>) s4;
                   let s6 = set_open i ((opentab s5 i)\<lparr>o_mode := omode\<rparr>) s5;
                   Some (0, pg, Some i, s6)
                 }
             })"

text \<open>The handlers that work on an open file.\<close>

definition with_open :: "u32 \<Rightarrow> page \<Rightarrow> serv \<Rightarrow> (nat \<Rightarrow> served) \<Rightarrow> served" where
  "with_open fileid pg s k = (case openfile_lookup fileid s of Inl e \<Rightarrow> fail e pg s | Inr i \<Rightarrow> k i)"

definition serve_set_size :: "page \<Rightarrow> serv \<Rightarrow> served" where
  "serve_set_size pg s =
     with_open (req_word pg 0) pg s (\<lambda>i. do {
       f \<leftarrow> o_file (opentab s i);
       (r, s1) \<leftarrow> on_fs (ok_unit (file_set_size f (req_word pg 4))) s;
       Some (0, pg, None, s1)
     })"

text \<open>\<open>req_n < PGSIZE ? req_n : PGSIZE\<close>.\<close>

definition clamp :: "u32 \<Rightarrow> u32" where
  "clamp n = (if n < 4096 then n else 4096)"

text \<open>When reading fails, the bytes already copied to the page are left out of the result.\<close>

definition serve_read :: "page \<Rightarrow> serv \<Rightarrow> served" where
  "serve_read pg s =
     with_open (req_word pg 0) pg s (\<lambda>i. do {
       f \<leftarrow> o_file (opentab s i);
       fd \<leftarrow> fd_get i s;
       (r, s1) \<leftarrow> on_fs (file_read f (clamp (req_word pg 4)) (fd_offset fd)) s;
       case r of
         Inl e \<Rightarrow> fail e pg s1
       | Inr bs \<Rightarrow> do {
           s2 \<leftarrow> fd_put i (fd\<lparr>fd_offset := fd_offset fd + of_nat (length bs)\<rparr>) s1;
           Some (of_nat (length bs), put_bytes bs pg, None, s2)
         }
     })"

text \<open>
  The data of a write starts at offset 8 of the page, which has 4088 bytes of it; the page after
  \<open>fsreq\<close> is block 0 of the disk map, and it gives the rest of a longer write. It is read here
  before the write, which does not change it.
\<close>

definition write_data :: "page \<Rightarrow> nat \<Rightarrow> fs \<Rightarrow> (u8 list \<times> fs) option" where
  "write_data pg n f =
     (if n \<le> 4088 then Some (map pg [8..<8 + n], f)
      else do { (bs, f1) \<leftarrow> rd_bs 0 (n - 4088) f; Some (map pg [8..<4096] @ bs, f1) })"

definition serve_write :: "page \<Rightarrow> serv \<Rightarrow> served" where
  "serve_write pg s =
     with_open (req_word pg 0) pg s (\<lambda>i. do {
       f \<leftarrow> o_file (opentab s i);
       fd \<leftarrow> fd_get i s;
       (buf, f1) \<leftarrow> write_data pg (unat (clamp (req_word pg 4))) (s_fs s);
       (r, s1) \<leftarrow> on_fs (file_write f buf (fd_offset fd)) (s\<lparr>s_fs := f1\<rparr>);
       case r of
         Inl e \<Rightarrow> fail e pg s1
       | Inr m \<Rightarrow> do {
           s2 \<leftarrow> fd_put i (fd\<lparr>fd_offset := fd_offset fd + m\<rparr>) s1;
           Some (m, pg, None, s2)
         }
     })"

text \<open>\<open>strcpy\<close> from the cache.\<close>

partial_function (option) rd_str :: "nat \<Rightarrow> fs \<Rightarrow> (u8 list \<times> fs) option" where
  "rd_str a f = do {
     (c, f1) \<leftarrow> rd_b a f;
     if c = 0 then Some ([0], f1) else do { (cs, f2) \<leftarrow> rd_str (a + 1) f1; Some (c # cs, f2) }
   }"

definition serve_stat :: "page \<Rightarrow> serv \<Rightarrow> served" where
  "serve_stat pg s =
     with_open (req_word pg 0) pg s (\<lambda>i. do {
       f \<leftarrow> o_file (opentab s i);
       (name, f1) \<leftarrow> rd_str (byte_addr f) (s_fs s);
       (size, f2) \<leftarrow> rd_w (fld f F_SIZE) f1;
       (type, f3) \<leftarrow> rd_w (fld f F_TYPE) f2;
       Some (0, put_word 132 (if type = FTYPE_DIR then 1 else 0) (put_word 128 size (put_bytes name pg)),
             None, s\<lparr>s_fs := f3\<rparr>)
     })"

definition serve_flush :: "page \<Rightarrow> serv \<Rightarrow> served" where
  "serve_flush pg s =
     with_open (req_word pg 0) pg s (\<lambda>i. do {
       f \<leftarrow> o_file (opentab s i);
       (r, s1) \<leftarrow> on_fs (ok_unit (file_flush f)) s;
       Some (0, pg, None, s1)
     })"

definition serve_remove :: "page \<Rightarrow> serv \<Rightarrow> served" where
  "serve_remove pg s =
     do {
       (r, s1) \<leftarrow> on_fs (file_remove (req_path pg)) s;
       case r of Inl e \<Rightarrow> fail e pg s1 | Inr _ \<Rightarrow> Some (0, pg, None, s1)
     }"

definition serve_sync :: "page \<Rightarrow> serv \<Rightarrow> served" where
  "serve_sync pg s = do { (r, s1) \<leftarrow> on_fs (ok_unit fs_sync) s; Some (0, pg, None, s1) }"

definition handlers :: "u32 \<Rightarrow> (page \<Rightarrow> serv \<Rightarrow> served) option" where
  "handlers req =
     (if req = FSREQ_SET_SIZE then Some serve_set_size
      else if req = FSREQ_READ then Some serve_read
      else if req = FSREQ_WRITE then Some serve_write
      else if req = FSREQ_STAT then Some serve_stat
      else if req = FSREQ_FLUSH then Some serve_flush
      else if req = FSREQ_REMOVE then Some serve_remove
      else if req = FSREQ_SYNC then Some serve_sync
      else None)"

section \<open>The server loop\<close>

text \<open>A received request, and whether the client accepts the page of the reply to an open.\<close>

record request =
  rq_code :: u32
  rq_whom :: u32
  rq_perm :: u32
  rq_page :: page
  rq_accepts :: bool

text \<open>The message sent by \<open>ipc_send\<close>; \<open>m_fd\<close> is the entry whose Fd page goes with it.\<close>

record message =
  m_to :: u32
  m_value :: u32
  m_fd :: "nat option"
  m_perm :: u32

definition share_fd :: "nat option \<Rightarrow> bool \<Rightarrow> serv \<Rightarrow> serv" where
  "share_fd fd accepts s =
     (case fd of
        None \<Rightarrow> s
      | Some i \<Rightarrow> if accepts then s\<lparr>fdref := (fdref s)(i := fdref s i + 1)\<rparr> else s)"

text \<open>
  One round of \<open>serve\<close>: no message when the request came without a page, otherwise the reply, and
  the request page as the client sees it. The permissions are PTE_P (1), PTE_W (2), PTE_U (4).
\<close>

definition serve_step :: "request \<Rightarrow> serv \<Rightarrow> ((message \<times> page) option \<times> serv) option" where
  "serve_step rq s =
     (if rq_perm rq AND 1 = 0 then Some (None, s)
      else do {
        (r, pg, fd, s1) \<leftarrow>
          (if rq_code rq = FSREQ_OPEN then serve_open (rq_page rq) s
           else case handlers (rq_code rq) of
                  Some h \<Rightarrow> h (rq_page rq) s
                | None \<Rightarrow> fail E_INVAL (rq_page rq) s);
        let perm = (if fd = None then rq_perm rq else 7);
        Some (Some (\<lparr>m_to = rq_whom rq, m_value = r, m_fd = fd, m_perm = perm\<rparr>, pg),
              share_fd fd (rq_accepts rq) s1)
      })"

end
