(* ===== verification/File_Client.thy ===== *)
theory File_Client
  imports Serv Mmu
begin

text \<open>
  lib/fd.c and lib/file.c: the file descriptors of a program and its requests to the file server.

  The state of the program holds the pages mapped in its address space (\<open>umap\<close>, by address): the
  Fd page of an entry of the server's table, or another page. A Fd page is shared with the server,
  so its contents and its number of references are those of \<open>c_serv\<close>. \<open>ptable\<close> says for which page
  directory entries there is a page table, and \<open>ufree\<close> how many pages the kernel has left.
  Functions that return an int give the word, an error being negative, as in the source.

  What the kernel does is the part of sys_page_map, sys_page_unmap and the messages that matters
  here: the address check, the page table that a new mapping may need, the references. Two of its
  failures are None: unmapping an address that has a page table but no page, and sharing a page
  without memory for the page table. The debugging messages are off, and the others are not
  modelled. An access through an Fd pointer that is not mapped faults, None as well.
\<close>

unbundle bit_operations_syntax

section \<open>The program\<close>

datatype upage = Fd_page nat | Frame nat

record client =
  c_id :: u32
  c_serv :: serv
  umap :: "u32 \<Rightarrow> upage option"
  ptable :: "u32 \<Rightarrow> bool"
  ufree :: nat
  frame_fd :: "nat \<Rightarrow> Fd"
  fsipcbuf :: page

definition neg :: "u32 \<Rightarrow> bool" where
  "neg r \<longleftrightarrow> sint r < 0"

section \<open>Pages\<close>

definition drop_page :: "u32 \<Rightarrow> client \<Rightarrow> client" where
  "drop_page va c =
     (let c1 = c\<lparr>umap := (umap c)(va := None)\<rparr>
      in case umap c va of
           Some (Fd_page i) \<Rightarrow>
             c1\<lparr>c_serv := (c_serv c)\<lparr>fdref := (fdref (c_serv c))(i := fdref (c_serv c) i - 1)\<rparr>\<rparr>
         | _ \<Rightarrow> c1)"

definition add_page :: "u32 \<Rightarrow> upage \<Rightarrow> client \<Rightarrow> client" where
  "add_page va pg c =
     (let c1 = c\<lparr>umap := (umap c)(va \<mapsto> pg)\<rparr>
      in case pg of
           Fd_page i \<Rightarrow>
             c1\<lparr>c_serv := (c_serv c)\<lparr>fdref := (fdref (c_serv c))(i := fdref (c_serv c) i + 1)\<rparr>\<rparr>
         | Frame _ \<Rightarrow> c1)"

text \<open>The page table for an address, made when it is missing.\<close>

definition need_pt :: "u32 \<Rightarrow> client \<Rightarrow> client option" where
  "need_pt va c =
     (if ptable c (PDX va) then Some c
      else if ufree c = 0 then None
      else Some (c\<lparr>ptable := (ptable c)(PDX va := True), ufree := ufree c - 1\<rparr>))"

definition user_map :: "u32 \<Rightarrow> u32 \<Rightarrow> client \<Rightarrow> (u32 \<times> client) option" where
  "user_map src dst c =
     (if src \<ge> UTOP \<or> dst \<ge> UTOP then Some (ret_err E_INVAL, c)
      else case umap c src of
             None \<Rightarrow> Some (ret_err E_INVAL, c)
           | Some pg \<Rightarrow> do {
               c1 \<leftarrow> need_pt dst c;
               Some (0, add_page dst pg (drop_page dst c1))
             })"

definition user_unmap :: "u32 \<Rightarrow> client \<Rightarrow> (u32 \<times> client) option" where
  "user_unmap va c =
     (if va \<ge> UTOP then Some (ret_err E_INVAL, c)
      else if \<not> ptable c (PDX va) then Some (0, c)
      else if umap c va = None then None
      else Some (0, drop_page va c))"

definition get_fd :: "u32 \<Rightarrow> client \<Rightarrow> Fd option" where
  "get_fd va c =
     (case umap c va of
        None \<Rightarrow> None
      | Some (Fd_page i) \<Rightarrow> Some (fdpage (c_serv c) i)
      | Some (Frame f) \<Rightarrow> Some (frame_fd c f))"

definition put_fd :: "u32 \<Rightarrow> Fd \<Rightarrow> client \<Rightarrow> client option" where
  "put_fd va fd c =
     (case umap c va of
        None \<Rightarrow> None
      | Some (Fd_page i) \<Rightarrow> Some (c\<lparr>c_serv := (c_serv c)\<lparr>fdpage := (fdpage (c_serv c))(i := fd)\<rparr>\<rparr>)
      | Some (Frame f) \<Rightarrow> Some (c\<lparr>frame_fd := (frame_fd c)(f := fd)\<rparr>))"

section \<open>Requests\<close>

text \<open>
  \<open>ipc_send(envs[1].env_id, type, &fsipcbuf, PTE_P|PTE_W|PTE_U)\<close> followed by
  \<open>ipc_recv(NULL, dstva, NULL)\<close>, with a round of the server between them. When the reply has a
  page, it is mapped at \<open>dstva\<close>; if that fails, the send of the server panics.
\<close>

definition fsipc :: "u32 \<Rightarrow> u32 \<Rightarrow> client \<Rightarrow> (u32 \<times> client) option" where
  "fsipc type dstva c =
     (let rq = \<lparr>rq_code = type, rq_whom = c_id c, rq_perm = 7, rq_page = fsipcbuf c, rq_accepts = False\<rparr>
      in case serve_step rq (c_serv c) of
           Some (Some (m, pg), s1) \<Rightarrow>
             let c1 = c\<lparr>c_serv := s1, fsipcbuf := pg\<rparr>
             in (case m_fd m of
                   None \<Rightarrow> Some (m_value m, c1)
                 | Some i \<Rightarrow> do {
                     c2 \<leftarrow> need_pt dstva c1;
                     Some (m_value m, add_page dstva (Fd_page i) (drop_page dstva c2))
                   })
         | _ \<Rightarrow> None)"

section \<open>File descriptors\<close>

definition MAXFD :: nat where "MAXFD = 32"
definition FDTABLE :: u32 where "FDTABLE = 0xD0000000"
definition FILEDATA :: u32 where "FILEDATA = FDTABLE + of_nat MAXFD * PGSIZE"

definition INDEX2FD :: "u32 \<Rightarrow> u32" where "INDEX2FD i = FDTABLE + i * PGSIZE"
definition INDEX2DATA :: "u32 \<Rightarrow> u32" where "INDEX2DATA i = FILEDATA + i * PGSIZE"

definition fd2num :: "u32 \<Rightarrow> u32" where "fd2num fd = (fd - FDTABLE) div PGSIZE"
definition fd2data :: "u32 \<Rightarrow> u32" where "fd2data fd = INDEX2DATA (fd2num fd)"

definition fd_alloc :: "client \<Rightarrow> errno + u32" where
  "fd_alloc c =
     (case find (\<lambda>i. umap c (INDEX2FD (of_nat i)) = None) [0..<MAXFD] of
        Some i \<Rightarrow> Inr (INDEX2FD (of_nat i))
      | None \<Rightarrow> Inl E_MAX_OPEN)"

definition fd_lookup :: "u32 \<Rightarrow> client \<Rightarrow> errno + u32" where
  "fd_lookup fdnum c =
     (if sint fdnum < 0 \<or> sint fdnum \<ge> int MAXFD then Inl E_INVAL
      else if umap c (INDEX2FD fdnum) = None then Inl E_INVAL
      else Inr (INDEX2FD fdnum))"

text \<open>The devices are the file server's, with the id 'f', and no other.\<close>

definition dev_lookup :: "u32 \<Rightarrow> errno + unit" where
  "dev_lookup i = (if i = 102 then Inr () else Inl E_INVAL)"

definition devfile_flush :: "u32 \<Rightarrow> client \<Rightarrow> (u32 \<times> client) option" where
  "devfile_flush fd c = do {
     f \<leftarrow> get_fd fd c;
     fsipc FSREQ_FLUSH 0 (c\<lparr>fsipcbuf := put_word 0 (fd_file_id f) (fsipcbuf c)\<rparr>)
   }"

definition fd_close :: "u32 \<Rightarrow> bool \<Rightarrow> client \<Rightarrow> (u32 \<times> client) option" where
  "fd_close fd must_exist c =
     (case fd_lookup (fd2num fd) c of
        Inl e \<Rightarrow> Some (if must_exist then ret_err e else 0, c)
      | Inr fd2 \<Rightarrow>
          if fd \<noteq> fd2 then Some (0, c)
          else do {
            f \<leftarrow> get_fd fd c;
            (r, c1) \<leftarrow> (case dev_lookup (fd_dev_id f) of
                          Inr _ \<Rightarrow> devfile_flush fd c
                        | Inl e \<Rightarrow> Some (ret_err e, c));
            (_, c2) \<leftarrow> user_unmap fd c1;
            Some (r, c2)
          })"

definition close :: "u32 \<Rightarrow> client \<Rightarrow> (u32 \<times> client) option" where
  "close fdnum c =
     (case fd_lookup fdnum c of Inl e \<Rightarrow> Some (ret_err e, c) | Inr fd \<Rightarrow> fd_close fd True c)"

fun close_list :: "nat list \<Rightarrow> client \<Rightarrow> client option" where
  "close_list [] c = Some c"
| "close_list (i # is) c = do { (_, c1) \<leftarrow> close (of_nat i) c; close_list is c1 }"

definition close_all :: "client \<Rightarrow> client option" where
  "close_all c = close_list [0..<MAXFD] c"

definition dup_fail :: "u32 \<Rightarrow> u32 \<Rightarrow> u32 \<Rightarrow> client \<Rightarrow> (u32 \<times> client) option" where
  "dup_fail r newfd nva c = do { (_, c1) \<leftarrow> user_unmap newfd c; (_, c2) \<leftarrow> user_unmap nva c1; Some (r, c2) }"

definition dup :: "u32 \<Rightarrow> u32 \<Rightarrow> client \<Rightarrow> (u32 \<times> client) option" where
  "dup oldfdnum newfdnum c =
     (case fd_lookup oldfdnum c of
        Inl e \<Rightarrow> Some (ret_err e, c)
      | Inr oldfd \<Rightarrow> do {
          (_, c1) \<leftarrow> close newfdnum c;
          let newfd = INDEX2FD newfdnum;
          let ova = fd2data oldfd;
          let nva = fd2data newfd;
          (r, c2) \<leftarrow> (if umap c1 ova \<noteq> None then user_map ova nva c1 else Some (0, c1));
          if neg r then dup_fail r newfd nva c2
          else do {
            (r2, c3) \<leftarrow> user_map oldfd newfd c2;
            if neg r2 then dup_fail r2 newfd nva c3 else Some (newfdnum, c3)
          }
        })"

text \<open>\<open>fd_lookup\<close> and \<open>dev_lookup\<close>, as the file functions begin.\<close>

definition with_fd :: "u32 \<Rightarrow> client \<Rightarrow> (u32 \<Rightarrow> Fd \<Rightarrow> 'a) \<Rightarrow> (u32 \<Rightarrow> 'a) \<Rightarrow> 'a option" where
  "with_fd fdnum c k err =
     (case fd_lookup fdnum c of
        Inl e \<Rightarrow> Some (err (ret_err e))
      | Inr fd \<Rightarrow> do {
          f \<leftarrow> get_fd fd c;
          Some (case dev_lookup (fd_dev_id f) of Inl e \<Rightarrow> err (ret_err e) | Inr _ \<Rightarrow> k fd f)
        })"

definition O_RDONLY :: u32 where "O_RDONLY = 0"
definition O_WRONLY :: u32 where "O_WRONLY = 1"
definition O_RDWR :: u32 where "O_RDWR = 2"

text \<open>The bytes are those put in the caller's buffer.\<close>

definition devfile_read :: "u32 \<Rightarrow> u32 \<Rightarrow> client \<Rightarrow> (u32 \<times> u8 list \<times> client) option" where
  "devfile_read fd n c = do {
     f \<leftarrow> get_fd fd c;
     (r, c1) \<leftarrow> fsipc FSREQ_READ 0 (c\<lparr>fsipcbuf := put_word 4 n (put_word 0 (fd_file_id f) (fsipcbuf c))\<rparr>);
     if neg r then Some (r, [], c1) else Some (r, map (fsipcbuf c1) [0..<unat r], c1)
   }"

definition read_fd :: "u32 \<Rightarrow> u32 \<Rightarrow> client \<Rightarrow> (u32 \<times> u8 list \<times> client) option" where
  "read_fd fdnum n c =
     Option.bind (with_fd fdnum c
       (\<lambda>fd f. if fd_omode f AND O_ACCMODE = O_WRONLY then Some (ret_err E_INVAL, [], c)
               else devfile_read fd n c)
       (\<lambda>e. Some (e, [], c))) (\<lambda>r. r)"

partial_function (option) readn_loop ::
  "u32 \<Rightarrow> u32 \<Rightarrow> u32 \<Rightarrow> u8 list \<Rightarrow> client \<Rightarrow> (u32 \<times> u8 list \<times> client) option" where
  "readn_loop fdnum tot n acc c =
     (if tot < n then
        Option.bind (read_fd fdnum (n - tot) c) (\<lambda>(m, bs, c1).
          if neg m then Some (m, acc @ bs, c1)
          else if m = 0 then Some (tot, acc @ bs, c1)
          else readn_loop fdnum (tot + m) n (acc @ bs) c1)
      else Some (tot, acc, c))"

definition readn :: "u32 \<Rightarrow> u32 \<Rightarrow> client \<Rightarrow> (u32 \<times> u8 list \<times> client) option" where
  "readn fdnum n c = readn_loop fdnum 0 n [] c"

definition REQ_BUF :: u32 where "REQ_BUF = PGSIZE - (4 + 4)"

text \<open>The buffer \<open>buf\<close> has the \<open>n\<close> bytes of the argument.\<close>

definition devfile_write :: "u32 \<Rightarrow> u8 list \<Rightarrow> client \<Rightarrow> (u32 \<times> client) option" where
  "devfile_write fd buf c = do {
     f \<leftarrow> get_fd fd c;
     let n = (of_nat (length buf) :: u32);
     let m = (if n < REQ_BUF then n else REQ_BUF);
     let pg = put_word 4 m (put_word 0 (fd_file_id f) (fsipcbuf c));
     fsipc FSREQ_WRITE 0 (c\<lparr>fsipcbuf := (\<lambda>k. if 8 \<le> k \<and> k < 8 + unat m then buf ! (k - 8) else pg k)\<rparr>)
   }"

definition write_fd :: "u32 \<Rightarrow> u8 list \<Rightarrow> client \<Rightarrow> (u32 \<times> client) option" where
  "write_fd fdnum buf c =
     Option.bind (with_fd fdnum c
       (\<lambda>fd f. if fd_omode f AND O_ACCMODE = O_RDONLY then Some (ret_err E_INVAL, c)
               else devfile_write fd buf c)
       (\<lambda>e. Some (e, c))) (\<lambda>r. r)"

definition seek :: "u32 \<Rightarrow> u32 \<Rightarrow> client \<Rightarrow> (u32 \<times> client) option" where
  "seek fdnum off c =
     (case fd_lookup fdnum c of
        Inl e \<Rightarrow> Some (ret_err e, c)
      | Inr fd \<Rightarrow> do {
          f \<leftarrow> get_fd fd c;
          c1 \<leftarrow> put_fd fd (f\<lparr>fd_offset := off\<rparr>) c;
          Some (0, c1)
        })"

definition devfile_trunc :: "u32 \<Rightarrow> u32 \<Rightarrow> client \<Rightarrow> (u32 \<times> client) option" where
  "devfile_trunc fd newsize c = do {
     f \<leftarrow> get_fd fd c;
     fsipc FSREQ_SET_SIZE 0 (c\<lparr>fsipcbuf := put_word 4 newsize (put_word 0 (fd_file_id f) (fsipcbuf c))\<rparr>)
   }"

definition ftruncate :: "u32 \<Rightarrow> u32 \<Rightarrow> client \<Rightarrow> (u32 \<times> client) option" where
  "ftruncate fdnum newsize c =
     Option.bind (with_fd fdnum c
       (\<lambda>fd f. if fd_omode f AND O_ACCMODE = O_RDONLY then Some (ret_err E_INVAL, c)
               else devfile_trunc fd newsize c)
       (\<lambda>e. Some (e, c))) (\<lambda>r. r)"

text \<open>The caller's \<open>struct Stat\<close>; an error of the request leaves it cleared, one before it unset.\<close>

record Stat =
  st_name :: "u8 list"
  st_size :: u32
  st_isdir :: u32

definition Stat_zero :: Stat where
  "Stat_zero = \<lparr>st_name = [], st_size = 0, st_isdir = 0\<rparr>"

text \<open>\<open>strcpy\<close> from the start of the request page; running off the page is None.\<close>

definition page_str :: "page \<Rightarrow> u8 list option" where
  "page_str pg =
     (let s = takeWhile (\<lambda>b. b \<noteq> 0) (map pg [0..<4096]) in if length s = 4096 then None else Some s)"

definition devfile_stat :: "u32 \<Rightarrow> Stat \<Rightarrow> client \<Rightarrow> (u32 \<times> Stat \<times> client) option" where
  "devfile_stat fd st c = do {
     f \<leftarrow> get_fd fd c;
     (r, c1) \<leftarrow> fsipc FSREQ_STAT 0 (c\<lparr>fsipcbuf := put_word 0 (fd_file_id f) (fsipcbuf c)\<rparr>);
     if neg r then Some (r, st, c1)
     else do {
       name \<leftarrow> page_str (fsipcbuf c1);
       Some (0, \<lparr>st_name = name, st_size = req_word (fsipcbuf c1) 128, st_isdir = req_word (fsipcbuf c1) 132\<rparr>, c1)
     }
   }"

definition fstat :: "u32 \<Rightarrow> Stat \<Rightarrow> client \<Rightarrow> (u32 \<times> Stat \<times> client) option" where
  "fstat fdnum st c =
     Option.bind (with_fd fdnum c (\<lambda>fd f. devfile_stat fd Stat_zero c) (\<lambda>e. Some (e, st, c))) (\<lambda>r. r)"

section \<open>Paths\<close>

definition path_req :: "u8 list \<Rightarrow> client \<Rightarrow> client" where
  "path_req path c = c\<lparr>fsipcbuf := put_bytes (path @ [0]) (fsipcbuf c)\<rparr>"

text \<open>A path is the bytes of a string without its NUL.\<close>

definition open_path :: "u8 list \<Rightarrow> u32 \<Rightarrow> client \<Rightarrow> (u32 \<times> client) option" where
  "open_path path mode c =
     (if length path \<ge> MAXPATHLEN then Some (ret_err E_BAD_PATH, c)
      else case fd_alloc c of
             Inl e \<Rightarrow> Some (ret_err e, c)
           | Inr fd \<Rightarrow> do {
               let c1 = path_req path c;
               (r, c2) \<leftarrow> fsipc FSREQ_OPEN fd (c1\<lparr>fsipcbuf := put_word MAXPATHLEN mode (fsipcbuf c1)\<rparr>);
               if neg r then Some (r, c2) else Some (fd2num fd, c2)
             })"

definition stat :: "u8 list \<Rightarrow> Stat \<Rightarrow> client \<Rightarrow> (u32 \<times> Stat \<times> client) option" where
  "stat path st c = do {
     (fd, c1) \<leftarrow> open_path path O_RDONLY c;
     if neg fd then Some (fd, st, c1)
     else do {
       (r, st', c2) \<leftarrow> fstat fd st c1;
       (_, c3) \<leftarrow> close fd c2;
       Some (r, st', c3)
     }
   }"

definition remove :: "u8 list \<Rightarrow> client \<Rightarrow> (u32 \<times> client) option" where
  "remove path c =
     (if length path \<ge> MAXPATHLEN then Some (ret_err E_BAD_PATH, c)
      else fsipc FSREQ_REMOVE 0 (path_req path c))"

definition sync :: "client \<Rightarrow> (u32 \<times> client) option" where
  "sync c = fsipc FSREQ_SYNC 0 c"

end
