(* ===== verification/Bc_Spec.thy ===== *)
theory Bc_Spec
  imports Bc Interfaces
begin

text \<open>
  The block cache and the block allocator. The contents of a block are its cached copy, or
  the disk's when it is not cached; accesses change neither, and under the invariant of a
  mounted file system an access to a block in use does not panic.
\<close>

unbundle bit_operations_syntax

definition blk :: "fs \<Rightarrow> nat \<Rightarrow> nat \<Rightarrow> u32" where
  "blk s b = (case cache s b of Some c \<Rightarrow> c | None \<Rightarrow> disk s b)"

definition is_free :: "fs \<Rightarrow> nat \<Rightarrow> bool" where
  "is_free s b = bit (blk s (fst (bm_slot b)) (snd (bm_slot b))) (b mod 32)"

text \<open>Same contents and same disk; what was cached stays cached.\<close>

definition same_fs :: "fs \<Rightarrow> fs \<Rightarrow> bool" where
  "same_fs s s' \<longleftrightarrow> blk s' = blk s \<and> disk s' = disk s \<and> super_set s' = super_set s
     \<and> bitmap_set s' = bitmap_set s \<and> io_ok s' = io_ok s
     \<and> (\<forall>b. cache s b \<noteq> None \<longrightarrow> cache s' b \<noteq> None)"

text \<open>
  A mounted file system of \<open>n\<close> blocks: the boot block, the superblock and the bitmap blocks
  are not free, and the disk can be read and written.
\<close>

definition fs_ok :: "fs \<Rightarrow> nat \<Rightarrow> bool" where
  "fs_ok s n \<longleftrightarrow> super_set s \<and> bitmap_set s \<and> unat (blk s 1 1) = n \<and> 2 < n
     \<and> n \<le> DISKSIZE div BLKSIZE \<and> (\<forall>b<n. io_ok s b) \<and> \<not> is_free s 0 \<and> \<not> is_free s 1
     \<and> (\<forall>b<n. fst (bm_slot b) < n \<and> \<not> is_free s (fst (bm_slot b)))"

lemma same_fs_refl [simp]: "same_fs s s"
  by (simp add: same_fs_def)

lemma same_fs_trans [trans]: "same_fs s s' \<Longrightarrow> same_fs s' s'' \<Longrightarrow> same_fs s s''"
  by (simp add: same_fs_def)

lemma is_free_cong: "blk s' = blk s \<Longrightarrow> is_free s' b = is_free s b"
  by (simp add: is_free_def)

lemma fs_ok_same: "same_fs s s' \<Longrightarrow> fs_ok s' n = fs_ok s n"
  by (simp add: same_fs_def fs_ok_def is_free_def)

lemma blk_cached: "cache s b = Some c \<Longrightarrow> blk s b = c"
  by (simp add: blk_def)

definition loaded :: "nat \<Rightarrow> fs \<Rightarrow> fs" where
  "loaded b s = s\<lparr>cache := (cache s)(b \<mapsto> disk s b), dirty := (dirty s)(b := True)\<rparr>"

lemma blk_map: "blk (s\<lparr>cache := (cache s)(b \<mapsto> c), dirty := d\<rparr>) = (blk s)(b := c)"
  by (rule ext) (auto simp: blk_def split: option.split)

lemma loaded_same:
  assumes "cache s b = None"
  shows "same_fs s (loaded b s)"
proof -
  have "blk (loaded b s) = blk s" using assms by (auto simp: loaded_def blk_map blk_def)
  then show ?thesis by (auto simp: same_fs_def loaded_def)
qed

section \<open>Accesses\<close>

definition access_ok :: "nat \<Rightarrow> nat \<Rightarrow> fs \<Rightarrow> bool" where
  "access_ok m b s \<longleftrightarrow> (\<exists>s'. bc_access m b s = Some s' \<and> same_fs s s' \<and> cache s' b \<noteq> None)"

lemma access_cached: "cache s b \<noteq> None \<Longrightarrow> access_ok (Suc m) b s"
  by (simp add: access_ok_def va_is_mapped_def)

lemma access_step:
  assumes "fs_ok s n" "b < n" "\<not> is_free s b" "cache s b = None"
    and one: "access_ok m 1 (loaded b s)"
    and bm: "\<forall>s2. same_fs s s2 \<longrightarrow> cache s2 1 \<noteq> None \<longrightarrow> cache s2 b \<noteq> None \<longrightarrow> access_ok m (fst (bm_slot b)) s2"
  shows "access_ok (Suc m) b s"
proof -
  let ?s1 = "loaded b s"
  have s1: "same_fs s ?s1" by (rule loaded_same [OF assms(4)])
  obtain s2 where s2: "bc_access m 1 ?s1 = Some s2" "same_fs ?s1 s2" "cache s2 1 \<noteq> None"
    using one by (auto simp: access_ok_def)
  have s12: "same_fs s s2" using s1 s2(2) by (rule same_fs_trans)
  have cb2: "cache s2 b \<noteq> None" using s2(2) by (auto simp: same_fs_def loaded_def)
  then obtain s3 where s3: "bc_access m (fst (bm_slot b)) s2 = Some s3" "same_fs s2 s3"
    "cache s3 (fst (bm_slot b)) \<noteq> None"
    using bm s12 s2(3) by (auto simp: access_ok_def)
  have s13: "same_fs s s3" using s12 s3(2) by (rule same_fs_trans)
  obtain sb where sb: "cache s2 1 = Some sb" using s2(3) by auto
  obtain bmc where bmc: "cache s3 (fst (bm_slot b)) = Some bmc" using s3(3) by auto
  have "unat (sb 1) = n"
    using assms(1) s12 blk_cached [OF sb] by (simp add: fs_ok_def same_fs_def)
  moreover have "\<not> bit (bmc (snd (bm_slot b))) (b mod 32)"
    using assms(3) s13 blk_cached [OF bmc] by (simp add: is_free_def same_fs_def)
  moreover have "b < DISKSIZE div BLKSIZE" "io_ok s b" "super_set s" "bitmap_set s2"
    using assms(1,2) s12 by (simp_all add: fs_ok_def same_fs_def)
  moreover have "cache s3 b \<noteq> None" using s3(2) cb2 by (auto simp: same_fs_def)
  ultimately show ?thesis
    using assms(2,4) s2 s3 sb bmc s13 unfolding access_ok_def loaded_def
    by (simp add: va_is_mapped_def Let_def loaded_def)
qed

lemma bm_slot_low: "b < 32768 \<Longrightarrow> fst (bm_slot b) = 2"
  by (simp add: bm_slot_def)

lemma bm_block_range: "b < DISKSIZE div BLKSIZE \<Longrightarrow> 2 \<le> fst (bm_slot b) \<and> fst (bm_slot b) < 32768"
  by (simp add: bm_slot_def DISKSIZE_def BLKSIZE_def)

lemma fs_ok_facts:
  assumes "fs_ok s n"
  shows "1 < n" "2 < n" "\<not> is_free s 1" "\<not> is_free s 2" "n \<le> DISKSIZE div BLKSIZE"
proof -
  show "1 < n" "2 < n" "\<not> is_free s 1" "n \<le> DISKSIZE div BLKSIZE"
    using assms by (simp_all add: fs_ok_def)
  then show "\<not> is_free s 2"
    using assms bm_slot_low [of 1] by (auto simp: fs_ok_def dest: spec [of _ 1])
qed

lemma access_2:
  assumes "fs_ok s n" "cache s 1 \<noteq> None"
  shows "access_ok (Suc (Suc k)) 2 s"
proof (cases "cache s 2 = None")
  case True
  have "access_ok (Suc k) 1 (loaded 2 s)"
    using assms(2) by (intro access_cached) (simp add: loaded_def)
  then show ?thesis
    using access_step [OF assms(1) fs_ok_facts(2,4) [OF assms(1)] True] access_cached bm_slot_low [of 2]
    by simp
qed (rule access_cached)

lemma access_1:
  assumes "fs_ok s n"
  shows "access_ok (Suc (Suc (Suc k))) 1 s"
proof (cases "cache s 1 = None")
  case True
  have "access_ok (Suc (Suc k)) 1 (loaded 1 s)"
    by (intro access_cached) (simp add: loaded_def)
  moreover have "access_ok (Suc (Suc k)) 2 s2" if "same_fs s s2" "cache s2 1 \<noteq> None" for s2
    using access_2 fs_ok_same [OF that(1)] assms that(2) by blast
  ultimately show ?thesis
    using access_step [OF assms fs_ok_facts(1,3) [OF assms] True] bm_slot_low [of 1] by simp
qed (rule access_cached)

lemma access_bm:
  assumes "fs_ok s n" "b < n" "\<not> is_free s b" "b < 32768" "cache s 1 \<noteq> None"
  shows "access_ok (Suc (Suc (Suc k))) b s"
proof (cases "cache s b = None")
  case True
  have "access_ok (Suc (Suc k)) 1 (loaded b s)"
    using assms(5) by (intro access_cached) (simp add: loaded_def)
  moreover have "access_ok (Suc (Suc k)) 2 s2" if "same_fs s s2" "cache s2 1 \<noteq> None" for s2
    using access_2 fs_ok_same [OF that(1)] assms(1) that(2) by blast
  ultimately show ?thesis
    using access_step [OF assms(1-3) True] bm_slot_low [OF assms(4)] by simp
qed (rule access_cached)

lemma access_any:
  assumes "fs_ok s n" "b < n" "\<not> is_free s b"
  shows "access_ok (Suc (Suc (Suc (Suc k)))) b s"
proof (cases "cache s b = None")
  case True
  have l: "same_fs s (loaded b s)" by (rule loaded_same [OF True])
  have "access_ok (Suc (Suc (Suc k))) 1 (loaded b s)"
    using access_1 fs_ok_same [OF l] assms(1) by blast
  moreover have "access_ok (Suc (Suc (Suc k))) (fst (bm_slot b)) s2"
    if "same_fs s s2" "cache s2 1 \<noteq> None" for s2
  proof (rule access_bm [OF _ _ _ _ that(2)])
    show ok: "fs_ok s2 n" using fs_ok_same [OF that(1)] assms(1) by blast
    show "fst (bm_slot b) < n" "\<not> is_free s2 (fst (bm_slot b))"
      using ok assms(2) by (auto simp: fs_ok_def)
    show "fst (bm_slot b) < 32768"
      using bm_block_range [of b] assms(2) fs_ok_facts(5) [OF assms(1)] by simp
  qed
  ultimately show ?thesis using access_step [OF assms True] by blast
qed (rule access_cached)

lemma touch_ok:
  assumes "fs_ok s n" "b < n" "\<not> is_free s b"
  shows "\<exists>s'. touch b s = Some s' \<and> same_fs s s' \<and> cache s' b = Some (blk s b)"
proof -
  have "access_ok 4 b s" using access_any [OF assms, of 0] by (simp add: numeral_eq_Suc)
  then obtain s' c where "touch b s = Some s'" "same_fs s s'" "cache s' b = Some c"
    by (auto simp: access_ok_def touch_def)
  then show ?thesis using blk_cached [of s' b c] by (simp add: same_fs_def)
qed

lemma rd_w_ok:
  assumes "fs_ok s n" "fst a < n" "\<not> is_free s (fst a)"
  shows "\<exists>s'. rd_w a s = Some (blk s (fst a) (snd a), s') \<and> same_fs s s'"
  using touch_ok [OF assms] by (auto simp: rd_w_def)

text \<open>The effect of a store.\<close>

definition stored :: "nat \<Rightarrow> (nat \<Rightarrow> u32) \<Rightarrow> fs \<Rightarrow> fs \<Rightarrow> bool" where
  "stored b c s s' \<longleftrightarrow> blk s' = (blk s)(b := c) \<and> disk s' = disk s \<and> super_set s' = super_set s
     \<and> bitmap_set s' = bitmap_set s \<and> io_ok s' = io_ok s \<and> cache s' b \<noteq> None \<and> dirty s' b"

lemma put_block_stored: "same_fs s s1 \<Longrightarrow> stored b c s (put_block b c s1)"
  by (simp add: stored_def same_fs_def put_block_def blk_map)

lemma wr_w_ok:
  assumes "fs_ok s n" "fst a < n" "\<not> is_free s (fst a)"
  shows "\<exists>s'. wr_w a v s = Some s' \<and> stored (fst a) ((blk s (fst a))(snd a := v)) s s'"
  using touch_ok [OF assms] put_block_stored by (auto simp: wr_w_def)

lemma s_nblocks_ok: "fs_ok s n \<Longrightarrow> \<exists>s'. s_nblocks s = Some (n, s') \<and> same_fs s s'"
proof -
  assume ok: "fs_ok s n"
  have "unat (blk s 1 1) = n" using ok by (simp add: fs_ok_def)
  then show ?thesis
    using rd_w_ok [of s n "(1, 1)"] ok fs_ok_facts(1,3) [OF ok] by (auto simp: s_nblocks_def)
qed

lemma bm_read_ok:
  assumes "fs_ok s n" "b < n"
  shows "\<exists>s'. rd_w (bm_slot b) s = Some (blk s (fst (bm_slot b)) (snd (bm_slot b)), s') \<and> same_fs s s'"
  using rd_w_ok [OF assms(1), of "bm_slot b"] assms by (auto simp: fs_ok_def)

lemma block_is_free_ok:
  assumes "fs_ok s n" "b < n"
  shows "\<exists>s'. block_is_free b s = Some (is_free s b, s') \<and> same_fs s s'"
proof -
  obtain s1 where s1: "s_nblocks s = Some (n, s1)" "same_fs s s1" using s_nblocks_ok [OF assms(1)] by blast
  have ok1: "fs_ok s1 n" using fs_ok_same [OF s1(2)] assms(1) by blast
  obtain s2 where s2: "rd_w (bm_slot b) s1 = Some (blk s1 (fst (bm_slot b)) (snd (bm_slot b)), s2)"
    "same_fs s1 s2" using bm_read_ok [OF ok1 assms(2)] by blast
  have "super_set s" using assms(1) by (simp add: fs_ok_def)
  moreover have "same_fs s s2" using s1(2) s2(2) by (rule same_fs_trans)
  moreover have "blk s1 = blk s" using s1(2) by (simp add: same_fs_def)
  ultimately show ?thesis
    using s1(1) s2(1) assms(2) by (simp add: block_is_free_def is_free_def)
qed

section \<open>The bitmap\<close>

definition bm_store :: "fs \<Rightarrow> nat \<Rightarrow> u32 \<Rightarrow> nat \<Rightarrow> nat \<Rightarrow> u32" where
  "bm_store s b w = (blk s)(fst (bm_slot b) := (blk s (fst (bm_slot b)))(snd (bm_slot b) := w))"

definition bm_word :: "fs \<Rightarrow> nat \<Rightarrow> u32" where
  "bm_word s b = blk s (fst (bm_slot b)) (snd (bm_slot b))"

lemma bm_slot_eq: "bm_slot b = bm_slot c \<longleftrightarrow> b div 32 = c div 32"
proof
  assume "bm_slot b = bm_slot c"
  then have "b div 32 div 1024 = c div 32 div 1024" "b div 32 mod 1024 = c div 32 mod 1024"
    by (simp_all add: bm_slot_def)
  then show "b div 32 = c div 32" by (metis div_mult_mod_eq)
qed (simp add: bm_slot_def)

lemma same_bit: "bm_slot b = bm_slot c \<Longrightarrow> b mod 32 = c mod 32 \<Longrightarrow> b = c"
  by (metis bm_slot_eq div_mult_mod_eq)

lemma bm_store_lookup:
  "bm_store s b w (fst (bm_slot c)) (snd (bm_slot c)) = (if bm_slot c = bm_slot b then w else bm_word s c)"
  by (auto simp: bm_store_def bm_word_def prod_eq_iff)

lemma is_free_word: "is_free s b = bit (bm_word s b) (b mod 32)"
  by (simp add: is_free_def bm_word_def)

lemma bm_word_cong: "bm_slot c = bm_slot b \<Longrightarrow> bm_word s c = bm_word s b"
  by (simp add: bm_word_def)

lemma free_after_clear:
  assumes "blk s' = bm_store s b (bm_word s b AND NOT (push_bit (b mod 32) 1))"
  shows "is_free s' c \<longleftrightarrow> c \<noteq> b \<and> is_free s c"
proof (cases "bm_slot c = bm_slot b")
  case True
  then have w: "bm_word s' c = bm_word s b AND NOT (push_bit (b mod 32) 1)"
    unfolding bm_word_def [of s'] assms bm_store_lookup by simp
  have "c mod 32 = b mod 32 \<longleftrightarrow> c = b" using same_bit [OF True] by auto
  then show ?thesis unfolding is_free_word w bm_word_cong [OF True, of s]
    by (auto simp: bit_simps)
next
  case False
  then have "bm_word s' c = bm_word s c" "c \<noteq> b"
    unfolding bm_word_def [of s'] assms bm_store_lookup by auto
  then show ?thesis by (simp add: is_free_word)
qed

lemma free_after_set:
  assumes "blk s' = bm_store s b (bm_word s b OR push_bit (b mod 32) 1)"
  shows "is_free s' c \<longleftrightarrow> c = b \<or> is_free s c"
proof (cases "bm_slot c = bm_slot b")
  case True
  then have w: "bm_word s' c = bm_word s b OR push_bit (b mod 32) 1"
    unfolding bm_word_def [of s'] assms bm_store_lookup by simp
  have "c mod 32 = b mod 32 \<longleftrightarrow> c = b" using same_bit [OF True] by auto
  then show ?thesis unfolding is_free_word w bm_word_cong [OF True, of s]
    by (auto simp: bit_simps)
next
  case False
  then have "bm_word s' c = bm_word s c" "c \<noteq> b"
    unfolding bm_word_def [of s'] assms bm_store_lookup by auto
  then show ?thesis by (simp add: is_free_word)
qed

text \<open>What a step leaves alone: the flags and the disk's capability.\<close>

definition same_flags :: "fs \<Rightarrow> fs \<Rightarrow> bool" where
  "same_flags s s' \<longleftrightarrow> super_set s' = super_set s \<and> bitmap_set s' = bitmap_set s \<and> io_ok s' = io_ok s"

lemma same_flags_trans [trans]: "same_flags s s' \<Longrightarrow> same_flags s' s'' \<Longrightarrow> same_flags s s''"
  by (simp add: same_flags_def)

lemma same_fs_flags: "same_fs s s' \<Longrightarrow> same_flags s s' \<and> blk s' = blk s \<and> disk s' = disk s"
  by (simp add: same_fs_def same_flags_def)

lemma fs_ok_cong: "same_flags s s' \<Longrightarrow> blk s' = blk s \<Longrightarrow> fs_ok s' n = fs_ok s n"
  by (simp add: same_flags_def fs_ok_def is_free_def)

lemma bm_blk_other: "blk s' = bm_store s b w \<Longrightarrow> c \<noteq> fst (bm_slot b) \<Longrightarrow> blk s' c = blk s c"
  by (simp add: bm_store_def)

lemma bm_store_super: "blk s' = bm_store s b w \<Longrightarrow> blk s' 1 = blk s 1"
  by (rule bm_blk_other) (auto simp: bm_slot_def)

lemma fs_ok_bitmap:
  assumes "fs_ok s n" "same_flags s s'" "blk s' = bm_store s b w"
    and "\<forall>c. is_free s' c \<longrightarrow> is_free s c \<or> (c \<noteq> 0 \<and> c \<noteq> 1 \<and> c \<notin> fst ` bm_slot ` {..<n})"
  shows "fs_ok s' n"
proof -
  have "blk s' 1 = blk s 1" by (rule bm_store_super [OF assms(3)])
  moreover have "\<not> is_free s' (fst (bm_slot c))" if "c < n" for c
    using assms(1,4) that by (auto simp: fs_ok_def)
  ultimately show ?thesis using assms unfolding fs_ok_def same_flags_def by auto
qed

lemma flush_ok:
  assumes "fs_ok s n" "b < n"
  shows "\<exists>s'. flush_block b s = Some s' \<and> same_flags s s' \<and> blk s' = blk s
    \<and> (\<forall>c. c \<noteq> b \<longrightarrow> disk s' c = disk s c) \<and> cache s' = cache s"
proof -
  have io: "io_ok s b" "b < DISKSIZE div BLKSIZE" using assms by (simp_all add: fs_ok_def)
  have "blk (s\<lparr>disk := (disk s)(b := c), dirty := d\<rparr>) = blk s" if "cache s b = Some c" for c d
    using that by (auto simp: fun_eq_iff blk_def split: option.split)
  then show ?thesis using io
    by (auto simp: flush_block_def va_is_mapped_def same_flags_def)
qed

lemma alloc_step:
  assumes "fs_ok s n" "b < n" "is_free s b"
  shows "\<exists>s'. alloc_loop (b # bs) s = Some (Inr b, s') \<and> fs_ok s' n \<and> same_flags s s'
    \<and> blk s' = bm_store s b (bm_word s b AND NOT (push_bit (b mod 32) 1))
    \<and> (\<forall>c. c \<noteq> 2 \<longrightarrow> disk s' c = disk s c)"
proof -
  obtain s1 where s1: "block_is_free b s = Some (True, s1)" "same_fs s s1"
    using block_is_free_ok [OF assms(1,2)] assms(3) by auto
  have b1: "blk s1 = blk s" using same_fs_flags [OF s1(2)] by simp
  have ok1: "fs_ok s1 n" using fs_ok_same [OF s1(2)] assms(1) by blast
  obtain s2 where s2: "rd_w (bm_slot b) s1 = Some (bm_word s b, s2)" "same_fs s1 s2"
    using bm_read_ok [OF ok1 assms(2)] b1 by (auto simp: bm_word_def)
  have ok2: "fs_ok s2 n" using fs_ok_same [OF s2(2)] ok1 by blast
  have b2: "blk s2 = blk s" using same_fs_flags [OF s2(2)] b1 by simp
  let ?w = "bm_word s b AND NOT (push_bit (b mod 32) 1)"
  have "fst (bm_slot b) < n" "\<not> is_free s2 (fst (bm_slot b))" using ok2 assms(2) by (auto simp: fs_ok_def)
  from wr_w_ok [OF ok2 this, of ?w] obtain s3 where s3: "wr_w (bm_slot b) ?w s2 = Some s3"
    "stored (fst (bm_slot b)) ((blk s2 (fst (bm_slot b)))(snd (bm_slot b) := ?w)) s2 s3" by blast
  have b3: "blk s3 = bm_store s b ?w" using s3(2) b2 by (simp add: stored_def bm_store_def)
  have f3: "same_flags s s3"
    using same_fs_flags [OF s1(2)] same_fs_flags [OF s2(2)] s3(2) by (simp add: same_flags_def stored_def)
  have ok3: "fs_ok s3 n"
    by (rule fs_ok_bitmap [OF assms(1) f3 b3]) (simp add: free_after_clear [OF b3])
  obtain s4 where s4: "flush_block 2 s3 = Some s4" "same_flags s3 s4" "blk s4 = blk s3"
    "\<forall>c. c \<noteq> 2 \<longrightarrow> disk s4 c = disk s3 c"
    using flush_ok [OF ok3 fs_ok_facts(2) [OF ok3]] by blast
  have "fs_ok s4 n" using fs_ok_cong [OF s4(2,3)] ok3 by blast
  moreover have "same_flags s s4" using f3 s4(2) by (rule same_flags_trans)
  moreover have "disk s3 = disk s"
    using same_fs_flags [OF s1(2)] same_fs_flags [OF s2(2)] s3(2) by (simp add: stored_def)
  ultimately show ?thesis
    using s1(1) s2(1) s3(1) s4 b3 by (auto simp: fun_upd_def)
qed

lemma alloc_loop_ok:
  assumes "fs_ok s n" and "\<forall>b \<in> set bs. b < n"
  shows "case find (is_free s) bs of
      None \<Rightarrow> \<exists>s'. alloc_loop bs s = Some (Inl E_NO_DISK, s') \<and> same_fs s s'
    | Some b \<Rightarrow> \<exists>s'. alloc_loop bs s = Some (Inr b, s') \<and> fs_ok s' n \<and> same_flags s s'
        \<and> blk s' = bm_store s b (bm_word s b AND NOT (push_bit (b mod 32) 1))
        \<and> (\<forall>c. c \<noteq> 2 \<longrightarrow> disk s' c = disk s c)"
  using assms
proof (induction bs arbitrary: s)
  case Nil
  then show ?case by simp
next
  case (Cons b bs)
  show ?case
  proof (cases "is_free s b")
    case True
    then show ?thesis using alloc_step [OF Cons.prems(1)] Cons.prems(2) by simp
  next
    case False
    obtain s1 where s1: "block_is_free b s = Some (False, s1)" "same_fs s s1"
      using block_is_free_ok [OF Cons.prems(1), of b] Cons.prems(2) False by auto
    note sf = same_fs_flags [OF s1(2)]
    have fr: "is_free s1 = is_free s" using is_free_cong sf by (simp add: fun_eq_iff)
    have bw: "bm_word s1 c = bm_word s c" "bm_store s1 c w = bm_store s c w" for c w
      using sf by (simp_all add: bm_word_def bm_store_def)
    have "fs_ok s1 n" using fs_ok_same [OF s1(2)] Cons.prems(1) by blast
    note ih = Cons.IH [OF this, unfolded fr bw]
    show ?thesis
      using ih Cons.prems(2) s1(1) False sf same_fs_trans [OF s1(2)]
      by (fastforce simp: same_flags_def split: option.splits)
  qed
qed

text \<open>The first free block, with its bit cleared in the cached bitmap; or no free block.\<close>

lemma alloc_block_ok:
  assumes "fs_ok s n"
  shows "case find (is_free s) [0..<n] of
      None \<Rightarrow> \<exists>s'. alloc_block s = Some (Inl E_NO_DISK, s') \<and> same_fs s s'
    | Some b \<Rightarrow> \<exists>s'. alloc_block s = Some (Inr b, s') \<and> fs_ok s' n \<and> same_flags s s'
        \<and> blk s' = bm_store s b (bm_word s b AND NOT (push_bit (b mod 32) 1))
        \<and> (\<forall>c. c \<noteq> 2 \<longrightarrow> disk s' c = disk s c)"
proof -
  obtain s1 where s1: "s_nblocks s = Some (n, s1)" "same_fs s s1" using s_nblocks_ok [OF assms] by blast
  note sf = same_fs_flags [OF s1(2)]
  have fr: "is_free s1 = is_free s" using is_free_cong sf by (simp add: fun_eq_iff)
  have bw: "bm_word s1 c = bm_word s c" "bm_store s1 c w = bm_store s c w" for c w
    using sf by (simp_all add: bm_word_def bm_store_def)
  have "fs_ok s1 n" using fs_ok_same [OF s1(2)] assms by blast
  note al = alloc_loop_ok [OF this, of "[0..<n]", unfolded fr bw]
  then show ?thesis using s1(1) sf same_fs_trans [OF s1(2)]
    by (fastforce simp: alloc_block_def same_flags_def split: option.splits)
qed

lemma free_block_ok:
  assumes "fs_ok s n" "b < n" "b \<noteq> 0" "b \<noteq> 1" "b \<notin> fst ` bm_slot ` {..<n}"
  shows "\<exists>s'. free_block b s = Some s' \<and> fs_ok s' n \<and> same_flags s s' \<and> disk s' = disk s
    \<and> blk s' = bm_store s b (bm_word s b OR push_bit (b mod 32) 1)"
proof -
  obtain s1 where s1: "rd_w (bm_slot b) s = Some (bm_word s b, s1)" "same_fs s s1"
    using bm_read_ok [OF assms(1,2)] by (auto simp: bm_word_def)
  have ok1: "fs_ok s1 n" using fs_ok_same [OF s1(2)] assms(1) by blast
  have b1: "blk s1 = blk s" using same_fs_flags [OF s1(2)] by simp
  let ?w = "bm_word s b OR push_bit (b mod 32) 1"
  have "fst (bm_slot b) < n" "\<not> is_free s1 (fst (bm_slot b))" using ok1 assms(2) by (auto simp: fs_ok_def)
  from wr_w_ok [OF ok1 this, of ?w] obtain s2 where s2: "wr_w (bm_slot b) ?w s1 = Some s2"
    "stored (fst (bm_slot b)) ((blk s1 (fst (bm_slot b)))(snd (bm_slot b) := ?w)) s1 s2" by blast
  have b2: "blk s2 = bm_store s b ?w" using s2(2) b1 by (simp add: stored_def bm_store_def)
  have f2: "same_flags s s2" using same_fs_flags [OF s1(2)] s2(2) by (simp add: same_flags_def stored_def)
  have "fs_ok s2 n"
    by (rule fs_ok_bitmap [OF assms(1) f2 b2]) (use assms(3-5) in \<open>auto simp: free_after_set [OF b2]\<close>)
  then show ?thesis using s1 s2(1) b2 f2 assms(3) same_fs_flags [OF s1(2)] s2(2)
    by (simp add: free_block_def stored_def)
qed

section \<open>The self test\<close>

lemma is_oops_put: "is_oops (put_oops c)"
proof -
  have "(c 1 AND 0xFF000000 OR OOPS_END) AND 0x00FFFFFF = OOPS_END"
    unfolding OOPS_END_def by (simp add: word_ao_dist and.assoc)
  then show ?thesis by (simp add: is_oops_def put_oops_def)
qed

text \<open>
  check_bc before the superblock is known: all its assertions hold, and afterwards the superblock
  is cached, clean and on the disk as it was, with everything else untouched.
\<close>

lemma check_bc_ok:
  assumes "\<not> super_set s" and "io_ok s 1"
  shows "check_bc s = Some (s\<lparr>cache := (cache s)(1 \<mapsto> blk s 1), dirty := (dirty s)(1 := False),
    disk := (disk s)(1 := blk s 1)\<rparr>)"
proof -
  let ?c = "blk s 1"
  let ?s1 = "s\<lparr>cache := (cache s)(1 \<mapsto> put_oops ?c), dirty := (dirty s)(1 := True)\<rparr>"
  let ?s2 = "s\<lparr>cache := (cache s)(1 \<mapsto> put_oops ?c), dirty := (dirty s)(1 := False),
    disk := (disk s)(1 := put_oops ?c)\<rparr>"
  let ?s3 = "s\<lparr>cache := (cache s)(1 \<mapsto> put_oops ?c), dirty := (dirty s)(1 := True),
    disk := (disk s)(1 := put_oops ?c)\<rparr>"
  have lim: "1 < DISKSIZE div BLKSIZE" by (simp add: DISKSIZE_def BLKSIZE_def)
  obtain s0 where s0: "load_block 1 s = Some (?c, s0)" "\<And>d. put_block 1 d s0 = put_block 1 d s"
    using assms lim
    by (cases "cache s 1") (auto simp: load_block_def touch_def numeral_eq_Suc va_is_mapped_def blk_def put_block_def)
  have a: "diskaddr 1 s = Some (1, s)" using assms(1) by (simp add: diskaddr_def)
  have f1: "flush_block 1 (put_block 1 (put_oops ?c) s0) = Some ?s2"
    unfolding s0(2) using assms lim by (simp add: put_block_def flush_block_def va_is_mapped_def va_is_dirty_def)
  have l2: "load_block 1 (page_unmap 1 ?s2) = Some (put_oops ?c, ?s3)"
    using assms lim by (simp add: load_block_def page_unmap_def touch_def numeral_eq_Suc va_is_mapped_def)
  have fixed: "(\<lambda>i. if i < 66 then map ?c [0..<66] ! i else put_oops ?c i) = ?c"
    by (rule ext) (simp add: put_oops_def)
  have f2: "flush_block 1 (put_block 1 ?c ?s3) = Some (s\<lparr>cache := (cache s)(1 \<mapsto> ?c), dirty := (dirty s)(1 := False),
      disk := (disk s)(1 := ?c)\<rparr>)"
    using assms lim by (simp add: put_block_def flush_block_def va_is_mapped_def va_is_dirty_def)
  have m: "va_is_mapped 1 ?s2" "\<not> va_is_dirty 1 ?s2" "\<not> va_is_mapped 1 (page_unmap 1 ?s2)"
    by (simp_all add: va_is_mapped_def va_is_dirty_def page_unmap_def)
  show ?thesis
    unfolding check_bc_def a using s0(1) f1 m l2 fixed f2 by (simp add: is_oops_put Let_def del: One_nat_def)
qed

end
