(* ===== verification/Fs_Inv.thy ===== *)
theory Fs_Inv
  imports Fs Bc_Spec
begin

text \<open>
  The invariant of a file on a mounted file system: its data blocks and its indirect block are
  in use, distinct, and none of them is the superblock, a bitmap block or the block of its
  structure. The lookup of a block keeps it and keeps the contents of the file; a new block
  is zero, as the hole it fills was read.
\<close>

unbundle bit_operations_syntax

section \<open>Blocks that can hold data\<close>

definition data_ok :: "fs \<Rightarrow> nat \<Rightarrow> nat \<Rightarrow> bool" where
  "data_ok s n b \<longleftrightarrow> b < n \<and> \<not> is_free s b \<and> b \<noteq> 0 \<and> b \<noteq> 1 \<and> b \<notin> fst ` bm_slot ` {..<n}"

text \<open>The block allocator under the interface of \<open>allocator\<close>.\<close>

definition mounted :: "fs \<Rightarrow> bool" where
  "mounted s \<longleftrightarrow> fs_ok s (unat (blk s 1 1))"

definition free_set :: "fs \<Rightarrow> nat set" where
  "free_set s = {b. b < unat (blk s 1 1) \<and> is_free s b}"

definition freeable :: "nat \<Rightarrow> fs \<Rightarrow> bool" where
  "freeable b s \<longleftrightarrow> b < unat (blk s 1 1) \<and> b \<noteq> 0 \<and> b \<noteq> 1 \<and> b \<notin> fst ` bm_slot ` {..<unat (blk s 1 1)}"

lemma find_free_None: "find P [0..<n] = None \<longleftrightarrow> (\<forall>b<n. \<not> P b)"
  by (auto simp: find_None_iff)

lemma find_free_Some: "find P [0..<n] = Some b \<Longrightarrow> b < n \<and> P b \<and> (\<forall>c<b. \<not> P c)"
  by (auto simp: find_Some_iff)

lemma bm_store_free_set:
  assumes "blk s' = bm_store s b w" and "\<And>c. is_free s' c \<longleftrightarrow> P c"
  shows "free_set s' = {c. c < unat (blk s 1 1) \<and> P c}"
  using bm_store_super [OF assms(1)] assms(2) by (simp add: free_set_def)

lemma alloc_block_free_set:
  assumes "fs_ok s n" and "n = unat (blk s 1 1)" and "free_set s \<noteq> {}"
  shows "\<exists>x s'. alloc_block s = Some (Inr x, s') \<and> x \<in> free_set s \<and> free_set s' = free_set s - {x} \<and> mounted s'"
proof -
  obtain b where f: "find (is_free s) [0..<n] = Some b"
    using assms(2,3) find_free_None [of "is_free s" n] by (cases "find (is_free s) [0..<n]") (auto simp: free_set_def)
  with alloc_block_ok [OF assms(1)] obtain s' where s': "alloc_block s = Some (Inr b, s')" "fs_ok s' n"
    "blk s' = bm_store s b (bm_word s b AND NOT (push_bit (b mod 32) 1))" by auto
  have "free_set s' = free_set s - {b}"
    unfolding bm_store_free_set [OF s'(3) free_after_clear [OF s'(3)]] by (auto simp: free_set_def)
  moreover have "mounted s'" using s'(2) bm_store_super [OF s'(3)] assms(2) by (simp add: mounted_def)
  ultimately show ?thesis using s'(1) find_free_Some [OF f] assms(2) by (auto simp: free_set_def)
qed

lemma alloc_block_full:
  assumes "fs_ok s n" and "n = unat (blk s 1 1)" and "free_set s = {}"
  shows "\<exists>e s'. alloc_block s = Some (Inl e, s') \<and> free_set s' = {} \<and> mounted s'"
proof -
  have "find (is_free s) [0..<n] = None" using assms(2,3) by (auto simp: find_free_None free_set_def)
  with alloc_block_ok [OF assms(1)] obtain s' where s': "alloc_block s = Some (Inl E_NO_DISK, s')" "same_fs s s'"
    by auto
  note b = same_fs_flags [OF s'(2)]
  have "unat (blk s' 1 1) = n" using b assms(2) by simp
  moreover have "fs_ok s' n" using fs_ok_same [OF s'(2)] assms(1) by blast
  ultimately have "mounted s'" by (simp add: mounted_def)
  moreover have "is_free s' = is_free s" using is_free_cong b by blast
  then have "free_set s' = {}" using assms(3) b by (simp add: free_set_def)
  ultimately show ?thesis using s'(1) by blast
qed

lemma free_block_free_set:
  assumes "mounted s" and "freeable b s"
  shows "\<exists>s'. free_block b s = Some s' \<and> free_set s' = insert b (free_set s) \<and> mounted s'"
proof -
  from free_block_ok [of s "unat (blk s 1 1)" b] assms obtain s' where s': "free_block b s = Some s'"
    "fs_ok s' (unat (blk s 1 1))" "blk s' = bm_store s b (bm_word s b OR push_bit (b mod 32) 1)"
    by (auto simp: mounted_def freeable_def)
  have "free_set s' = insert b (free_set s)"
    unfolding bm_store_free_set [OF s'(3) free_after_set [OF s'(3)]]
    using assms(2) by (auto simp: free_set_def freeable_def)
  moreover have "mounted s'" using s'(2) bm_store_super [OF s'(3)] by (simp add: mounted_def)
  ultimately show ?thesis using s'(1) by blast
qed

lemma free_set_finite: "finite (free_set s)"
  by (simp add: free_set_def)

interpretation blocks: allocator alloc_block free_block free_set mounted freeable
  by unfold_locales
    (rule free_set_finite,
     erule alloc_block_free_set [OF _ refl, folded mounted_def], assumption,
     erule alloc_block_full [OF _ refl, folded mounted_def], assumption,
     erule free_block_free_set, assumption)

section \<open>Writes to a block in use\<close>

lemma seq_simps [simp]:
  "seq None k = None" "seq (Some (Inl e, s)) k = Some (Inl e, s)" "seq (Some (Inr x, s)) k = k x s"
  by (simp_all add: seq_def)

text \<open>A change of the contents of one block, none of the bitmap, that keeps the superblock's count.\<close>

definition upd :: "nat \<Rightarrow> (nat \<Rightarrow> u32) \<Rightarrow> fs \<Rightarrow> fs \<Rightarrow> bool" where
  "upd b c s s' \<longleftrightarrow> same_flags s s' \<and> blk s' = (blk s)(b := c)"

lemma is_free_upd: "upd b c s s' \<Longrightarrow> fst (bm_slot x) \<noteq> b \<Longrightarrow> is_free s' x = is_free s x"
  by (simp add: upd_def is_free_def)

lemma is_free_upd_in:
  assumes "upd b c s s'" "b \<notin> fst ` bm_slot ` {..<n}" "x < n"
  shows "is_free s' x = is_free s x"
proof -
  have "fst (bm_slot x) \<noteq> b" using assms(2,3) by auto
  then show ?thesis by (rule is_free_upd [OF assms(1)])
qed

lemma fs_ok_upd:
  assumes "fs_ok s n" "upd b c s s'" "b \<notin> fst ` bm_slot ` {..<n}" "b = 1 \<longrightarrow> c 1 = blk s 1 1"
  shows "fs_ok s' n"
proof -
  have "is_free s' x = is_free s x" if "x < n" for x
    by (rule is_free_upd_in [OF assms(2,3) that])
  moreover have "blk s' 1 1 = blk s 1 1" using assms(2,4) by (auto simp: upd_def)
  ultimately show ?thesis using assms(1,2) unfolding fs_ok_def upd_def same_flags_def by auto
qed

lemma data_ok_upd:
  "fs_ok s n \<Longrightarrow> upd b c s s' \<Longrightarrow> b \<notin> fst ` bm_slot ` {..<n} \<Longrightarrow> data_ok s' n x = data_ok s n x"
  using is_free_upd_in [of b c s s' n x] by (auto simp: data_ok_def)

lemma data_ok_same: "blk s' = blk s \<Longrightarrow> data_ok s' n x = data_ok s n x"
  using is_free_cong [of s' s x] by (simp add: data_ok_def)

lemma wr_w_upd:
  assumes "fs_ok s n" "fst a < n" "\<not> is_free s (fst a)"
  shows "\<exists>s'. wr_w a v s = Some s' \<and> upd (fst a) ((blk s (fst a))(snd a := v)) s s'"
  using wr_w_ok [OF assms, of v] by (auto simp: upd_def stored_def same_flags_def)

lemma diskaddr_ok:
  assumes "fs_ok s n" "0 < b" "b < n"
  shows "\<exists>s'. diskaddr b s = Some (b, s') \<and> same_fs s s'"
proof -
  have "super_set s" using assms(1) by (simp add: fs_ok_def)
  then show ?thesis using s_nblocks_ok [OF assms(1)] assms(2,3) by (auto simp: diskaddr_def)
qed

lemma clear_block_ok:
  assumes "fs_ok s n" "data_ok s n b"
  shows "\<exists>s'. clear_block b s = Some s' \<and> upd b (\<lambda>_. 0) s s' \<and> fs_ok s' n"
proof -
  have b: "0 < b" "b < n" "\<not> is_free s b" "b \<noteq> 1" "b \<notin> fst ` bm_slot ` {..<n}"
    using assms(2) by (auto simp: data_ok_def)
  obtain s1 where s1: "diskaddr b s = Some (b, s1)" "same_fs s s1" using diskaddr_ok [OF assms(1) b(1,2)] by blast
  have ok1: "fs_ok s1 n" using fs_ok_same [OF s1(2)] assms(1) by blast
  have fr: "\<not> is_free s1 b" using is_free_cong [of s1 s b] same_fs_flags [OF s1(2)] b(3) by simp
  obtain s2 where s2: "touch b s1 = Some s2" "same_fs s1 s2" using touch_ok [OF ok1 b(2) fr] by blast
  let ?s3 = "put_block b (\<lambda>_. 0) s2"
  have u3: "upd b (\<lambda>_. 0) s ?s3"
    using put_block_stored [OF same_fs_trans [OF s1(2) s2(2)], of b "\<lambda>_. 0"]
    by (simp add: upd_def stored_def same_flags_def)
  have ok3: "fs_ok ?s3 n" using fs_ok_upd [OF assms(1) u3 b(5)] b(4) by simp
  obtain s4 where s4: "diskaddr b ?s3 = Some (b, s4)" "same_fs ?s3 s4" using diskaddr_ok [OF ok3 b(1,2)] by blast
  have ok4: "fs_ok s4 n" using fs_ok_same [OF s4(2)] ok3 by blast
  obtain s5 where s5: "flush_block b s4 = Some s5" "same_flags s4 s5" "blk s5 = blk s4"
    using flush_ok [OF ok4 b(2)] by blast
  have "upd b (\<lambda>_. 0) s s5"
    using u3 same_fs_flags [OF s4(2)] s5(2,3) by (simp add: upd_def same_flags_def)
  moreover have "fs_ok s5 n" using fs_ok_cong [OF s5(2,3)] ok4 by blast
  moreover have "zero_block b s1 = Some ?s3" by (simp add: zero_block_def s2(1))
  ultimately show ?thesis using s1(1) s4(1) s5(1) by (simp add: clear_block_def)
qed

section \<open>The invariant of a file\<close>

definition f_word :: "fs \<Rightarrow> fptr \<Rightarrow> nat \<Rightarrow> u32" where
  "f_word s f k = blk s (fst f) (snd f + k)"

definition ind :: "fs \<Rightarrow> fptr \<Rightarrow> nat" where
  "ind s f = unat (f_word s f F_INDIRECT)"

text \<open>The disk block of block \<open>i\<close> of the file, 0 when there is none.\<close>

definition bno :: "fs \<Rightarrow> fptr \<Rightarrow> nat \<Rightarrow> nat" where
  "bno s f i =
     (if i < NDIRECT then unat (f_word s f (F_DIRECT + i))
      else if ind s f = 0 then 0 else unat (blk s (ind s f) (i - NDIRECT)))"

definition file_inv :: "fs \<Rightarrow> nat \<Rightarrow> fptr \<Rightarrow> bool" where
  "file_inv s n f \<longleftrightarrow> fs_ok s n \<and> fst f < n \<and> \<not> is_free s (fst f) \<and> fst f \<noteq> 0
     \<and> fst f \<notin> fst ` bm_slot ` {..<n} \<and> (fst f = 1 \<longrightarrow> 2 \<le> snd f)
     \<and> (ind s f \<noteq> 0 \<longrightarrow> data_ok s n (ind s f) \<and> ind s f \<noteq> fst f)
     \<and> (\<forall>i<1034. bno s f i \<noteq> 0 \<longrightarrow> data_ok s n (bno s f i) \<and> bno s f i \<noteq> fst f \<and> bno s f i \<noteq> ind s f)
     \<and> (\<forall>i<1034. \<forall>j<1034. bno s f i = bno s f j \<longrightarrow> bno s f i \<noteq> 0 \<longrightarrow> i = j)"

lemma file_consts: "NDIRECT = 10" "NINDIRECT = 1024" "F_DIRECT = 34" "F_INDIRECT = 44" "F_SIZE = 32"
  "BLKSIZE = 4096"
  by (simp_all add: NDIRECT_def NINDIRECT_def F_DIRECT_def F_INDIRECT_def F_SIZE_def BLKSIZE_def)

lemma file_invD:
  assumes "file_inv s n f"
  shows "fs_ok s n" "fst f < n" "\<not> is_free s (fst f)" "fst f \<notin> fst ` bm_slot ` {..<n}"
    "fst f = 1 \<Longrightarrow> 2 \<le> snd f" "ind s f \<noteq> 0 \<Longrightarrow> data_ok s n (ind s f) \<and> ind s f \<noteq> fst f"
    "i < 1034 \<Longrightarrow> bno s f i \<noteq> 0 \<Longrightarrow> data_ok s n (bno s f i) \<and> bno s f i \<noteq> fst f \<and> bno s f i \<noteq> ind s f"
    "i < 1034 \<Longrightarrow> j < 1034 \<Longrightarrow> bno s f i = bno s f j \<Longrightarrow> bno s f i \<noteq> 0 \<Longrightarrow> i = j"
  using assms by (auto simp: file_inv_def)

lemma file_inv_same:
  assumes "same_flags s s'" "blk s' = blk s"
  shows "file_inv s' n f = file_inv s n f" "bno s' f = bno s f" "ind s' f = ind s f"
proof -
  show i: "ind s' f = ind s f" using assms(2) by (simp add: ind_def f_word_def)
  show b: "bno s' f = bno s f" using assms(2) i by (simp add: bno_def f_word_def fun_eq_iff)
  show "file_inv s' n f = file_inv s n f"
    using fs_ok_cong [OF assms] is_free_cong [OF assms(2)] data_ok_same [OF assms(2)]
    by (simp add: file_inv_def i b)
qed

text \<open>A change of a data block.\<close>

lemma file_inv_data:
  assumes "file_inv s n f" "i < 1034" "bno s f i \<noteq> 0" "upd (bno s f i) c s s'"
  shows "file_inv s' n f" "bno s' f = bno s f" "f_word s' f = f_word s f"
proof -
  note inv = file_invD [OF assms(1)]
  have d: "data_ok s n (bno s f i)" "bno s f i \<noteq> fst f" "bno s f i \<noteq> ind s f"
    using inv(7) [OF assms(2,3)] by auto
  have nb: "bno s f i \<notin> fst ` bm_slot ` {..<n}" "bno s f i \<noteq> 1" using d(1) by (auto simp: data_ok_def)
  have b: "blk s' = (blk s)(bno s f i := c)" using assms(4) by (simp add: upd_def)
  show w: "f_word s' f = f_word s f" using d(2) by (auto simp: f_word_def b fun_eq_iff)
  then have i: "ind s' f = ind s f" by (simp add: ind_def)
  show bb: "bno s' f = bno s f" using w i d(3) by (auto simp: bno_def b fun_eq_iff)
  have "fs_ok s' n" using fs_ok_upd [OF inv(1) assms(4) nb(1)] nb(2) by simp
  moreover have "data_ok s' n x = data_ok s n x" for x by (rule data_ok_upd [OF inv(1) assms(4) nb(1)])
  moreover have "is_free s' (fst f) = is_free s (fst f)"
    by (rule is_free_upd_in [OF assms(4) nb(1) inv(2)])
  ultimately show "file_inv s' n f" using assms(1) unfolding file_inv_def i bb by auto
qed

section \<open>The contents of a file\<close>

text \<open>Byte \<open>k\<close> of the file; a hole reads as 0.\<close>

definition fbyte :: "fs \<Rightarrow> fptr \<Rightarrow> nat \<Rightarrow> u8" where
  "fbyte s f k =
     (let b = bno s f (k div 4096)
      in if b = 0 then 0 else get_byte (k mod 4) (blk s b (k mod 4096 div 4)))"

definition kept :: "fs \<Rightarrow> fs \<Rightarrow> nat \<Rightarrow> fptr \<Rightarrow> bool" where
  "kept s s' n f \<longleftrightarrow> file_inv s' n f \<and> same_flags s s' \<and> f_word s' f F_SIZE = f_word s f F_SIZE
     \<and> (\<forall>k<1034 * 4096. fbyte s' f k = fbyte s f k)"

lemma kept_trans [trans]: "kept s s1 n f \<Longrightarrow> kept s1 s2 n f \<Longrightarrow> kept s s2 n f"
  using same_flags_trans by (auto simp: kept_def)

lemma kept_same: "file_inv s n f \<Longrightarrow> same_flags s s' \<Longrightarrow> blk s' = blk s \<Longrightarrow> kept s s' n f"
  using file_inv_same [where s = s and s' = s'] by (simp add: kept_def fbyte_def f_word_def Let_def)

text \<open>A block the file does not use.\<close>

definition fresh :: "fs \<Rightarrow> nat \<Rightarrow> fptr \<Rightarrow> nat \<Rightarrow> bool" where
  "fresh s n f r \<longleftrightarrow> data_ok s n r \<and> r \<noteq> fst f \<and> r \<noteq> ind s f \<and> (\<forall>i<1034. bno s f i \<noteq> r)"

lemma freshD:
  "fresh s n f r \<Longrightarrow> data_ok s n r \<and> r \<noteq> 0 \<and> r \<noteq> 1 \<and> r < n \<and> r \<notin> fst ` bm_slot ` {..<n} \<and> r \<noteq> fst f \<and> r \<noteq> ind s f"
  by (auto simp: fresh_def data_ok_def)

lemma alloc_file:
  assumes "file_inv s n f"
  shows "(\<exists>s'. alloc_block s = Some (Inl E_NO_DISK, s') \<and> kept s s' n f \<and> bno s' f = bno s f)
    \<or> (\<exists>r s'. alloc_block s = Some (Inr r, s') \<and> kept s s' n f \<and> fresh s' n f r
        \<and> bno s' f = bno s f \<and> ind s' f = ind s f)"
proof (cases "find (is_free s) [0..<n]")
  case None
  with alloc_block_ok [OF file_invD(1) [OF assms]] obtain s' where
    s': "alloc_block s = Some (Inl E_NO_DISK, s')" "same_fs s s'" by auto
  have sf: "same_flags s s'" "blk s' = blk s" using same_fs_flags [OF s'(2)] by auto
  with s'(1) kept_same [OF assms sf] file_inv_same(2) [OF sf] show ?thesis by blast
next
  case (Some r)
  note inv = file_invD [OF assms]
  from Some alloc_block_ok [OF inv(1)] obtain s' where s': "alloc_block s = Some (Inr r, s')"
    "fs_ok s' n" "same_flags s s'" "blk s' = bm_store s r (bm_word s r AND NOT (push_bit (r mod 32) 1))"
    by auto
  have r: "r < n" "is_free s r" using find_free_Some [OF Some] by auto
  have bm: "fst (bm_slot r) \<in> fst ` bm_slot ` {..<n}" using r(1) by auto
  have same: "blk s' b = blk s b" if "b \<notin> fst ` bm_slot ` {..<n}" for b
    using bm_blk_other [OF s'(4), of b] that bm by blast
  have free: "is_free s' c \<longleftrightarrow> c \<noteq> r \<and> is_free s c" for c by (rule free_after_clear [OF s'(4)])
  have w: "f_word s' f = f_word s f" using same [OF inv(4)] by (simp add: f_word_def fun_eq_iff)
  have i: "ind s' f = ind s f" by (simp add: ind_def w)
  have si: "blk s' (ind s f) = blk s (ind s f)" if "ind s f \<noteq> 0"
    using same inv(6) [OF that] by (simp add: data_ok_def)
  have b: "bno s' f = bno s f" using si by (auto simp: bno_def w i fun_eq_iff)
  have d: "data_ok s n x \<Longrightarrow> data_ok s' n x" for x by (simp add: data_ok_def free)
  have fi: "file_inv s' n f"
    using assms s'(2) d unfolding file_inv_def b i by (auto simp: free)
  have sb: "blk s' (bno s f j) = blk s (bno s f j)" if "j < 1034" "bno s f j \<noteq> 0" for j
    using same inv(7) [OF that] by (simp add: data_ok_def)
  have "fbyte s' f k = fbyte s f k" if "k < 1034 * 4096" for k
  proof -
    have "k div 4096 < 1034" using that by (simp add: div_less_iff_less_mult)
    then show ?thesis using sb [of "k div 4096"] by (simp add: fbyte_def b Let_def)
  qed
  then have "kept s s' n f" using fi s'(3) by (simp add: kept_def w)
  moreover have "fresh s' n f r"
  proof -
    have nf: "\<not> is_free s 0" "\<not> is_free s 1" "r \<notin> fst ` bm_slot ` {..<n}"
      using inv(1) r(2) by (auto simp: fs_ok_def)
    then have "data_ok s' n r" using r by (auto simp: data_ok_def free)
    moreover have r0: "r \<noteq> 0" using r(2) nf(1) by metis
    moreover have "r \<noteq> ind s f" using inv(6) r(2) r0 by (cases "ind s f = 0") (auto simp: data_ok_def)
    moreover have "bno s f j \<noteq> r" if "j < 1034" for j
      using inv(7) [OF that] r(2) r0 by (cases "bno s f j = 0") (auto simp: data_ok_def)
    moreover have "r \<noteq> fst f" using inv(3) r(2) by auto
    ultimately show ?thesis by (simp add: fresh_def b i)
  qed
  ultimately show ?thesis using s'(1) b i by blast
qed

text \<open>A fresh block, cleared, in an empty slot; or as the indirect block.\<close>

lemma install_block:
  assumes "file_inv s n f" "fresh s n f r" "i < 1034" "bno s f i = 0"
    and "fs_ok s' n" "same_flags s s'" "\<forall>x<n. is_free s' x = is_free s x"
    and "ind s' f = ind s f" "bno s' f = (bno s f)(i := r)" "blk s' r = (\<lambda>_. 0)"
    and "\<forall>b. b \<noteq> fst f \<longrightarrow> b \<noteq> ind s f \<longrightarrow> b \<noteq> r \<longrightarrow> blk s' b = blk s b"
    and "f_word s' f F_SIZE = f_word s f F_SIZE"
  shows "kept s s' n f"
proof -
  note inv = file_invD [OF assms(1)]
  have d: "data_ok s' n x = data_ok s n x" for x using assms(7) by (auto simp: data_ok_def)
  have fr: "\<forall>j<1034. bno s f j \<noteq> r" "data_ok s n r" "r \<noteq> fst f" "r \<noteq> ind s f"
    using assms(2) by (auto simp: fresh_def)
  have "file_inv s' n f"
    unfolding file_inv_def assms(8,9) d
    using assms(1,5,7) fr by (auto simp: file_inv_def)
  moreover have "fbyte s' f k = fbyte s f k" if "k < 1034 * 4096" for k
  proof (cases "k div 4096 = i")
    case True
    then show ?thesis using assms(4,10) by (simp add: fbyte_def assms(9) Let_def get_byte_def)
  next
    case False
    have j: "k div 4096 < 1034" using that by (simp add: div_less_iff_less_mult)
    show ?thesis
      using inv(7) [OF j] fr(1) j assms(11) False by (auto simp: fbyte_def assms(9) Let_def)
  qed
  ultimately show ?thesis using assms(6,12) by (simp add: kept_def)
qed

lemma install_indirect:
  assumes "file_inv s n f" "fresh s n f r" "ind s f = 0"
    and "fs_ok s' n" "same_flags s s'" "\<forall>x<n. is_free s' x = is_free s x"
    and "ind s' f = r" "bno s' f = bno s f"
    and "\<forall>b. b \<noteq> fst f \<longrightarrow> b \<noteq> r \<longrightarrow> blk s' b = blk s b"
    and "f_word s' f F_SIZE = f_word s f F_SIZE"
  shows "kept s s' n f"
proof -
  note inv = file_invD [OF assms(1)]
  have d: "data_ok s' n x = data_ok s n x" for x using assms(6) by (auto simp: data_ok_def)
  have fr: "\<forall>j<1034. bno s f j \<noteq> r" "data_ok s n r" "r \<noteq> fst f"
    using assms(2) by (auto simp: fresh_def)
  have "file_inv s' n f"
    unfolding file_inv_def assms(7,8) d using assms(1,4,6) fr by (auto simp: file_inv_def)
  moreover have "fbyte s' f k = fbyte s f k" if "k < 1034 * 4096" for k
  proof -
    have j: "k div 4096 < 1034" using that by (simp add: div_less_iff_less_mult)
    show ?thesis using inv(7) [OF j] fr(1) j assms(9) by (auto simp: fbyte_def assms(8) Let_def)
  qed
  ultimately show ?thesis using assms(5,10) by (simp add: kept_def)
qed

section \<open>Looking up and allocating blocks\<close>

lemma write_clear:
  assumes "fs_ok s n" "fst p < n" "\<not> is_free s (fst p)" "fst p \<notin> fst ` bm_slot ` {..<n}"
    and "fst p = 1 \<longrightarrow> snd p \<noteq> 1" "data_ok s n r" "r \<noteq> fst p"
  shows "\<exists>s2 s3. wr_w p v s = Some s2 \<and> clear_block r s2 = Some s3 \<and> fs_ok s3 n \<and> same_flags s s3
    \<and> (\<forall>x<n. is_free s3 x = is_free s x)
    \<and> blk s3 = (blk s)(fst p := (blk s (fst p))(snd p := v), r := \<lambda>_. 0)"
proof -
  from wr_w_upd [OF assms(1-3), of v] obtain s2 where s2: "wr_w p v s = Some s2"
    "upd (fst p) ((blk s (fst p))(snd p := v)) s s2" by blast
  have ok2: "fs_ok s2 n"
    by (rule fs_ok_upd [OF assms(1) s2(2) assms(4)]) (use assms(5) in auto)
  have d2: "data_ok s2 n r" using data_ok_upd [OF assms(1) s2(2) assms(4)] assms(6) by simp
  from clear_block_ok [OF ok2 d2] obtain s3 where s3: "clear_block r s2 = Some s3"
    "upd r (\<lambda>_. 0) s2 s3" "fs_ok s3 n" by blast
  have nb: "r \<notin> fst ` bm_slot ` {..<n}" using assms(6) by (simp add: data_ok_def)
  have "is_free s3 x = is_free s x" if "x < n" for x
    using is_free_upd_in [OF s3(2) nb that] is_free_upd_in [OF s2(2) assms(4) that] by simp
  moreover have "same_flags s s3" using s2(2) s3(2) by (simp add: upd_def same_flags_def)
  moreover have "blk s3 = (blk s)(fst p := (blk s (fst p))(snd p := v), r := \<lambda>_. 0)"
    using s2(2) s3(2) by (simp add: upd_def)
  ultimately show ?thesis using s2(1) s3(1,3) by blast
qed

lemma unat_block: "r < n \<Longrightarrow> fs_ok s n \<Longrightarrow> unat (of_nat r :: u32) = r"
proof -
  assume "r < n" "fs_ok s n"
  then have "r < 786432" using fs_ok_facts(5) by (fastforce simp: DISKSIZE_def BLKSIZE_def)
  then show ?thesis by (simp add: unat_of_nat)
qed

lemma fld_slot: "fst (fld f k) = fst f" "snd (fld f k) = snd f + k"
  by (simp_all add: fld_def)

lemma install_direct_ok:
  assumes "file_inv s n f" "fresh s n f r" "i < 10" "bno s f i = 0"
  shows "\<exists>s2 s3. wr_w (fld f (F_DIRECT + i)) (of_nat r) s = Some s2 \<and> clear_block r s2 = Some s3
    \<and> kept s s3 n f \<and> bno s3 f = (bno s f)(i := r)"
proof -
  note inv = file_invD [OF assms(1)] and fr = freshD [OF assms(2)]
  have u: "unat (of_nat r :: u32) = r" using unat_block [OF _ inv(1)] fr by blast
  have "fst (fld f (F_DIRECT + i)) = 1 \<longrightarrow> snd (fld f (F_DIRECT + i)) \<noteq> 1"
    using inv(5) by (auto simp: fld_slot file_consts)
  from write_clear [OF inv(1) _ _ _ this, of r "of_nat r"] inv(2-4) fr obtain s2 s3 where
    s: "wr_w (fld f (F_DIRECT + i)) (of_nat r) s = Some s2" "clear_block r s2 = Some s3" "fs_ok s3 n"
    "same_flags s s3" "\<forall>x<n. is_free s3 x = is_free s x"
    and b: "blk s3 = (blk s)(fst f := (blk s (fst f))(snd f + (F_DIRECT + i) := of_nat r), r := \<lambda>_. 0)"
    by (auto simp: fld_slot)
  have w: "f_word s3 f k = (if k = 34 + i then of_nat r else f_word s f k)" for k
    using fr by (auto simp: f_word_def b file_consts)
  have i: "ind s3 f = ind s f" using assms(3) by (simp add: ind_def w file_consts)
  have n: "bno s3 f = (bno s f)(i := r)"
  proof
    fix j
    show "bno s3 f j = ((bno s f)(i := r)) j"
      using fr assms(3) u inv(6) by (auto simp: bno_def i w file_consts b)
  qed
  have "kept s s3 n f"
    by (rule install_block [OF assms(1,2) _ assms(4) s(3-5) i n])
      (use assms(3) in \<open>auto simp: b w file_consts\<close>)
  with s n show ?thesis by blast
qed

lemma install_slot_ok:
  assumes "file_inv s n f" "fresh s n f r" "10 \<le> i" "i < 1034" "ind s f \<noteq> 0" "bno s f i = 0"
  shows "\<exists>s2 s3. wr_w (ind s f, i - NDIRECT) (of_nat r) s = Some s2 \<and> clear_block r s2 = Some s3
    \<and> kept s s3 n f \<and> bno s3 f = (bno s f)(i := r)"
proof -
  note inv = file_invD [OF assms(1)] and fr = freshD [OF assms(2)]
  have u: "unat (of_nat r :: u32) = r" using unat_block [OF _ inv(1)] fr by blast
  have d: "data_ok s n (ind s f)" "ind s f \<noteq> fst f" using inv(6) [OF assms(5)] by auto
  have "fst (ind s f, i - NDIRECT) = 1 \<longrightarrow> snd (ind s f, i - NDIRECT) \<noteq> 1"
    using d(1) by (simp add: data_ok_def)
  from write_clear [OF inv(1) _ _ _ this, of r "of_nat r"] d fr obtain s2 s3 where
    s: "wr_w (ind s f, i - NDIRECT) (of_nat r) s = Some s2" "clear_block r s2 = Some s3" "fs_ok s3 n"
    "same_flags s s3" "\<forall>x<n. is_free s3 x = is_free s x"
    and b: "blk s3 = (blk s)(ind s f := (blk s (ind s f))(i - 10 := of_nat r), r := \<lambda>_. 0)"
    by (auto simp: data_ok_def file_consts)
  have w: "f_word s3 f = f_word s f" using fr d(2) by (auto simp: f_word_def b fun_eq_iff)
  have i: "ind s3 f = ind s f" by (simp add: ind_def w)
  have n: "bno s3 f = (bno s f)(i := r)"
  proof
    fix j
    show "bno s3 f j = ((bno s f)(i := r)) j"
      using fr assms(3,5) u d by (auto simp: bno_def i w file_consts b)
  qed
  have "kept s s3 n f"
    by (rule install_block [OF assms(1,2,4,6) s(3-5) i n]) (auto simp: b w)
  with s n show ?thesis by (auto simp: file_consts)
qed

lemma install_ind_ok:
  assumes "file_inv s n f" "fresh s n f r" "ind s f = 0"
  shows "\<exists>s2 s3. wr_w (fld f F_INDIRECT) (of_nat r) s = Some s2 \<and> clear_block r s2 = Some s3
    \<and> kept s s3 n f \<and> bno s3 f = bno s f \<and> ind s3 f = r"
proof -
  note inv = file_invD [OF assms(1)] and fr = freshD [OF assms(2)]
  have u: "unat (of_nat r :: u32) = r" using unat_block [OF _ inv(1)] fr by blast
  have "fst (fld f F_INDIRECT) = 1 \<longrightarrow> snd (fld f F_INDIRECT) \<noteq> 1"
    using inv(5) by (auto simp: fld_slot file_consts)
  from write_clear [OF inv(1) _ _ _ this, of r "of_nat r"] inv(2-4) fr obtain s2 s3 where
    s: "wr_w (fld f F_INDIRECT) (of_nat r) s = Some s2" "clear_block r s2 = Some s3" "fs_ok s3 n"
    "same_flags s s3" "\<forall>x<n. is_free s3 x = is_free s x"
    and b: "blk s3 = (blk s)(fst f := (blk s (fst f))(snd f + F_INDIRECT := of_nat r), r := \<lambda>_. 0)"
    by (auto simp: fld_slot)
  have w: "f_word s3 f k = (if k = 44 then of_nat r else f_word s f k)" for k
    using fr by (auto simp: f_word_def b file_consts)
  have i: "ind s3 f = r" using u by (simp add: ind_def w file_consts)
  have n: "bno s3 f = bno s f"
    using fr assms(3) by (auto simp: bno_def i w file_consts b fun_eq_iff)
  have "kept s s3 n f"
    by (rule install_indirect [OF assms s(3-5) i n]) (auto simp: b w file_consts)
  with s n i show ?thesis by blast
qed

text \<open>The slot of block \<open>i\<close>.\<close>

definition slot_of :: "fs \<Rightarrow> fptr \<Rightarrow> nat \<Rightarrow> nat \<times> nat \<Rightarrow> bool" where
  "slot_of s f i p \<longleftrightarrow> (if i < 10 then p = fld f (F_DIRECT + i)
     else ind s f \<noteq> 0 \<and> p = (ind s f, i - NDIRECT))"

lemma f_read:
  assumes "file_inv s n f"
  shows "\<exists>s'. rd_w (fld f k) s = Some (f_word s f k, s') \<and> same_fs s s'"
  using rd_w_ok [of s n "fld f k"] file_invD(1-3) [OF assms] by (simp add: fld_slot f_word_def)

lemma slot_read:
  assumes "file_inv s n f" "slot_of s f i p"
  shows "\<exists>w s'. rd_w p s = Some (w, s') \<and> same_fs s s' \<and> unat w = bno s f i"
proof (cases "i < 10")
  case True
  then show ?thesis using f_read [OF assms(1), of "F_DIRECT + i"] assms(2)
    by (auto simp: slot_of_def bno_def file_consts)
next
  case False
  then have p: "ind s f \<noteq> 0" "p = (ind s f, i - NDIRECT)" using assms(2) by (auto simp: slot_of_def)
  then have "data_ok s n (ind s f)" using file_invD(6) [OF assms(1)] by blast
  then show ?thesis
    using rd_w_ok [OF file_invD(1) [OF assms(1)], of p] p False
    by (auto simp: data_ok_def bno_def file_consts)
qed

lemma same_fs_kept: "file_inv s n f \<Longrightarrow> same_fs s s' \<Longrightarrow> kept s s' n f \<and> bno s' f = bno s f \<and> ind s' f = ind s f"
  using kept_same [of s n f s'] same_fs_flags [of s s'] file_inv_same(2,3) [of s s'] by simp

lemma kept_inv: "kept s s' n f \<Longrightarrow> file_inv s' n f"
  by (simp add: kept_def)

lemma walk_tail:
  assumes "file_inv s n f" "ind s f \<noteq> 0" "10 \<le> i"
  shows "\<exists>s'. (do { (ind2, s6) \<leftarrow> rd_w (fld f F_INDIRECT) s; (d, s7) \<leftarrow> diskaddr (unat ind2) s6;
       Some (Inr (d, i - NDIRECT) :: errno + nat \<times> nat, s7) }) = Some (Inr (ind s f, i - NDIRECT), s')
    \<and> same_fs s s'"
proof -
  obtain s1 where s1: "rd_w (fld f F_INDIRECT) s = Some (f_word s f F_INDIRECT, s1)" "same_fs s s1"
    using f_read [OF assms(1)] by blast
  have "fs_ok s1 n" using fs_ok_same [OF s1(2)] file_invD(1) [OF assms(1)] by blast
  moreover have "0 < ind s f" "ind s f < n"
    using file_invD(6) [OF assms(1,2)] assms(2) by (auto simp: data_ok_def)
  ultimately obtain s2 where s2: "diskaddr (ind s f) s1 = Some (ind s f, s2)" "same_fs s1 s2"
    using diskaddr_ok by blast
  show ?thesis using s1(1) s2(1) same_fs_trans [OF s1(2) s2(2)] by (simp add: ind_def)
qed

lemma walk_ok:
  assumes "file_inv s n f" "i < 1034"
  shows "(\<exists>s'. file_block_walk f i True s = Some (Inl E_NO_DISK, s') \<and> kept s s' n f \<and> bno s f i = 0
        \<and> bno s' f = bno s f)
    \<or> (\<exists>p s'. file_block_walk f i True s = Some (Inr p, s') \<and> kept s s' n f \<and> slot_of s' f i p
        \<and> bno s' f = bno s f)"
proof (cases "i < 10")
  case True
  then show ?thesis using kept_same [OF assms(1), of s]
    by (simp add: file_block_walk_def slot_of_def file_consts same_flags_def)
next
  case False
  obtain s1 where s1: "rd_w (fld f F_INDIRECT) s = Some (f_word s f F_INDIRECT, s1)" "same_fs s s1"
    using f_read [OF assms(1)] by blast
  note k1 = same_fs_kept [OF assms(1) s1(2)]
  have fi1: "file_inv s1 n f" using k1 kept_inv by blast
  have z: "f_word s f F_INDIRECT = 0 \<longleftrightarrow> ind s f = 0" by (simp add: ind_def unat_eq_0)
  note u = file_block_walk_def
  show ?thesis
  proof (cases "ind s f = 0")
    case nz: False
    obtain s2 where s2: "(do { (ind2, s6) \<leftarrow> rd_w (fld f F_INDIRECT) s1; (d, s7) \<leftarrow> diskaddr (unat ind2) s6;
       Some (Inr (d, i - NDIRECT) :: errno + nat \<times> nat, s7) }) = Some (Inr (ind s f, i - NDIRECT), s2)"
      "same_fs s1 s2" using walk_tail [OF fi1, of i] k1 nz False by auto
    note k2 = same_fs_kept [OF fi1 s2(2)]
    have "file_block_walk f i True s = Some (Inr (ind s f, i - NDIRECT), s2)"
      using False assms(2) s1(1) s2(1) z nz by (simp add: u file_consts)
    moreover have "slot_of s2 f i (ind s f, i - NDIRECT)" using k1 k2 nz False by (simp add: slot_of_def)
    ultimately show ?thesis using k1 k2 kept_trans by metis
  next
    case iz: True
    from alloc_file [OF fi1] show ?thesis
    proof (elim disjE exE conjE)
      fix s2 assume s2: "alloc_block s1 = Some (Inl E_NO_DISK, s2)" "kept s1 s2 n f"
        "bno s2 f = bno s1 f"
      have "file_block_walk f i True s = Some (Inl E_NO_DISK, s2)"
        using False assms(2) s1(1) s2(1) z iz by (simp add: u file_consts)
      moreover have "bno s f i = 0" using False iz by (simp add: bno_def file_consts)
      moreover have "kept s s2 n f" using kept_trans k1 s2(2) by blast
      ultimately show ?thesis using k1 s2(3) by auto
    next
      fix r s2 assume s2: "alloc_block s1 = Some (Inr r, s2)" "kept s1 s2 n f" "fresh s2 n f r"
        "bno s2 f = bno s1 f" "ind s2 f = ind s1 f"
      from install_ind_ok [OF kept_inv [OF s2(2)] s2(3)] s2(5) k1 iz obtain s3 s4 where
        s4: "wr_w (fld f F_INDIRECT) (of_nat r) s2 = Some s3" "clear_block r s3 = Some s4"
          "kept s2 s4 n f" "bno s4 f = bno s2 f" "ind s4 f = r" by auto
      have "r \<noteq> 0" using freshD [OF s2(3)] by blast
      then obtain s5 where s5: "(do { (ind2, s6) \<leftarrow> rd_w (fld f F_INDIRECT) s4; (d, s7) \<leftarrow> diskaddr (unat ind2) s6;
         Some (Inr (d, i - NDIRECT) :: errno + nat \<times> nat, s7) }) = Some (Inr (r, i - NDIRECT), s5)"
        "same_fs s4 s5" using walk_tail [OF kept_inv [OF s4(3)], of i] s4(5) False by auto
      note k5 = same_fs_kept [OF kept_inv [OF s4(3)] s5(2)]
      have "file_block_walk f i True s = Some (Inr (r, i - NDIRECT), s5)"
        using False assms(2) s1(1) s2(1) s4(1,2) s5(1) z iz by (simp add: u file_consts)
      moreover have "slot_of s5 f i (r, i - NDIRECT)"
        using k5 s4(5) \<open>r \<noteq> 0\<close> False by (simp add: slot_of_def)
      moreover have "kept s s5 n f" using k1 s2(2) s4(3) k5 kept_trans by blast
      moreover have "bno s5 f = bno s f" using k1 s2(4) s4(4) k5 by simp
      ultimately show ?thesis by blast
    qed
  qed
qed

lemma install_ok:
  assumes "file_inv s n f" "fresh s n f r" "i < 1034" "bno s f i = 0" "slot_of s f i p"
  shows "\<exists>s2 s3. wr_w p (of_nat r) s = Some s2 \<and> clear_block r s2 = Some s3
    \<and> kept s s3 n f \<and> bno s3 f = (bno s f)(i := r) \<and> slot_of s3 f i p"
proof (cases "i < 10")
  case True
  then show ?thesis using install_direct_ok [OF assms(1,2) True assms(4)] assms(5)
    by (auto simp: slot_of_def)
next
  case False
  then have p: "ind s f \<noteq> 0" "p = (ind s f, i - NDIRECT)" using assms(5) by (auto simp: slot_of_def)
  from install_slot_ok [OF assms(1,2) _ assms(3) p(1) assms(4)] False obtain s2 s3 where
    s: "wr_w p (of_nat r) s = Some s2" "clear_block r s2 = Some s3" "kept s s3 n f"
    "bno s3 f = (bno s f)(i := r)" using p(2) by auto
  have d: "data_ok s n (ind s f)" "ind s f \<noteq> fst f"
    using file_invD(6) [OF assms(1) p(1)] by auto
  have "ind s3 f = ind s f"
  proof -
    have "wr_w p (of_nat r) s = Some s2" by (rule s(1))
    from wr_w_upd [OF file_invD(1) [OF assms(1)], of p "of_nat r"] d(1) p(2) s(1)
    have u2: "upd (ind s f) ((blk s (ind s f))(i - NDIRECT := of_nat r)) s s2"
      by (auto simp: data_ok_def)
    have ok2: "fs_ok s2 n"
      using fs_ok_upd [OF file_invD(1) [OF assms(1)] u2] d(1) by (auto simp: data_ok_def)
    have "data_ok s2 n r"
      using data_ok_upd [OF file_invD(1) [OF assms(1)] u2] d(1) assms(2)
      by (auto simp: fresh_def data_ok_def)
    from clear_block_ok [OF ok2 this] s(2) have u3: "upd r (\<lambda>_. 0) s2 s3" by auto
    show ?thesis using u2 u3 d(2) assms(2) by (auto simp: upd_def ind_def f_word_def fresh_def)
  qed
  then show ?thesis using s p False by (auto simp: slot_of_def)
qed

lemma get_block_tail:
  assumes "file_inv s n f" "i < 1034" "slot_of s f i p" "bno s f i \<noteq> 0"
  shows "\<exists>s'. (do { (bn2, s7) \<leftarrow> rd_w p s; (d, s8) \<leftarrow> diskaddr (unat bn2) s7;
      Some (Inr d :: errno + nat, s8) }) = Some (Inr (bno s f i), s') \<and> same_fs s s'"
proof -
  obtain w s1 where s1: "rd_w p s = Some (w, s1)" "same_fs s s1" "unat w = bno s f i"
    using slot_read [OF assms(1,3)] by blast
  have "fs_ok s1 n" using fs_ok_same [OF s1(2)] file_invD(1) [OF assms(1)] by blast
  moreover have "0 < bno s f i" "bno s f i < n"
    using file_invD(7) [OF assms(1,2,4)] assms(4) by (auto simp: data_ok_def)
  ultimately obtain s2 where "diskaddr (bno s f i) s1 = Some (bno s f i, s2)" "same_fs s1 s2"
    using diskaddr_ok by blast
  then show ?thesis using s1(1) same_fs_trans [OF s1(2)] by (auto simp: s1(3))
qed

text \<open>
  \<open>file_get_block\<close>: the number of the block, which now exists, or -E_NO_DISK; the contents of
  the file, its size and the invariant are kept in both cases.
\<close>

lemma get_block_ok:
  assumes "file_inv s n f" "i < 1034"
  shows "(\<exists>s'. file_get_block f i s = Some (Inl E_NO_DISK, s') \<and> kept s s' n f \<and> bno s f i = 0
        \<and> bno s' f = bno s f)
    \<or> (\<exists>s'. file_get_block f i s = Some (Inr (bno s' f i), s') \<and> kept s s' n f \<and> bno s' f i \<noteq> 0
        \<and> (\<forall>j. j \<noteq> i \<longrightarrow> bno s' f j = bno s f j) \<and> (bno s f i \<noteq> 0 \<longrightarrow> bno s' f i = bno s f i))"
  using walk_ok [OF assms]
proof (elim disjE exE conjE)
  fix s1 assume "file_block_walk f i True s = Some (Inl E_NO_DISK, s1)" "kept s s1 n f" "bno s f i = 0"
    "bno s1 f = bno s f"
  then show ?thesis by (simp add: file_get_block_def)
next
  fix p s1 assume s1: "file_block_walk f i True s = Some (Inr p, s1)" "kept s s1 n f"
    "slot_of s1 f i p" "bno s1 f = bno s f"
  note fi1 = kept_inv [OF s1(2)]
  obtain w s2 where s2: "rd_w p s1 = Some (w, s2)" "same_fs s1 s2" "unat w = bno s1 f i"
    using slot_read [OF fi1 s1(3)] by blast
  note k2 = same_fs_kept [OF fi1 s2(2)]
  have fi2: "file_inv s2 n f" using k2 kept_inv by blast
  have p2: "slot_of s2 f i p" using s1(3) k2 by (simp add: slot_of_def)
  have z: "w = 0 \<longleftrightarrow> bno s f i = 0" using s2(3) s1(4) by (metis unat_eq_0)
  note u = file_get_block_def
  show ?thesis
  proof (cases "bno s f i = 0")
    case False
    then obtain s3 where s3: "(do { (bn2, s7) \<leftarrow> rd_w p s2; (d, s8) \<leftarrow> diskaddr (unat bn2) s7;
        Some (Inr d :: errno + nat, s8) }) = Some (Inr (bno s2 f i), s3)" "same_fs s2 s3"
      using get_block_tail [OF fi2 assms(2) p2] k2 s1(4) by auto
    note k3 = same_fs_kept [OF fi2 s3(2)]
    have "file_get_block f i s = Some (Inr (bno s2 f i), s3)"
      using s1(1) s2(1) z False s3(1) by (simp add: u)
    then show ?thesis using k3 k2 s1(2,4) kept_trans False by metis
  next
    case True
    from alloc_file [OF fi2] show ?thesis
    proof (elim disjE exE conjE)
      fix s3 assume s3: "alloc_block s2 = Some (Inl E_NO_DISK, s3)" "kept s2 s3 n f"
        "bno s3 f = bno s2 f"
      have "file_get_block f i s = Some (Inl E_NO_DISK, s3)" using s1(1) s2(1) z True s3(1) by (simp add: u)
      moreover have "kept s s3 n f" using s3(2) k2 s1(2) kept_trans by blast
      ultimately show ?thesis using s3(3) k2 s1(4) True by auto
    next
      fix r s3 assume s3: "alloc_block s2 = Some (Inr r, s3)" "kept s2 s3 n f" "fresh s3 n f r"
        "bno s3 f = bno s2 f" "ind s3 f = ind s2 f"
      note fi3 = kept_inv [OF s3(2)]
      have "slot_of s3 f i p" using p2 s3(5) by (simp add: slot_of_def)
      from install_ok [OF fi3 s3(3) assms(2) _ this] s3(4) k2 s1(4) True obtain s4 s5 where
        s5: "wr_w p (of_nat r) s3 = Some s4" "clear_block r s4 = Some s5" "kept s3 s5 n f"
        "bno s5 f = (bno s3 f)(i := r)" "slot_of s5 f i p" by auto
      have "bno s5 f i \<noteq> 0" using s5(4) freshD [OF s3(3)] by simp
      from get_block_tail [OF kept_inv [OF s5(3)] assms(2) s5(5) this] obtain s6 where
        s6: "(do { (bn2, s7) \<leftarrow> rd_w p s5; (d, s8) \<leftarrow> diskaddr (unat bn2) s7;
          Some (Inr d :: errno + nat, s8) }) = Some (Inr (bno s5 f i), s6)" "same_fs s5 s6" by blast
      note k6 = same_fs_kept [OF kept_inv [OF s5(3)] s6(2)]
      have "file_get_block f i s = Some (Inr (bno s6 f i), s6)"
        using s1(1) s2(1) z True s3(1) s5(1,2) s6(1) k6 by (simp add: u)
      moreover have "kept s s6 n f" using s1(2) k2 s3(2) s5(3) k6 kept_trans by blast
      moreover have "bno s6 f = (bno s f)(i := r)" using k6 s5(4) s3(4) k2 s1(4) by simp
      ultimately show ?thesis using \<open>bno s5 f i \<noteq> 0\<close> k6 True by auto
    qed
  qed
qed

end
