(* ===== verification/Fs_File.thy ===== *)
theory Fs_File
  imports Fs_Inv
begin

text \<open>
  Reading, writing and looking up. The loops of file_read and file_write, byte by byte, against
  the contents of the file. In a mounted file system, a block that a file has is found
  without a change of the contents, directory entries are compared by name, a path of one
  component is resolved in the root directory, and fs_init mounts a disk that is well formed.
\<close>

unbundle bit_operations_syntax

section \<open>Bytes of a block\<close>

definition byte_of :: "(nat \<Rightarrow> u32) \<Rightarrow> nat \<Rightarrow> u8" where
  "byte_of c x = get_byte (x mod 4) (c (x div 4))"

lemma fbyte_byte_of:
  "fbyte s f k = (if bno s f (k div 4096) = 0 then 0 else byte_of (blk s (bno s f (k div 4096))) (k mod 4096))"
  by (simp add: fbyte_def byte_of_def Let_def mod_mod_cancel)

lemma byte_index: "(b * 4096 + x) mod 4 = x mod (4 :: nat)"
proof -
  have "b * 4096 + x = x + 4 * (b * 1024)" by simp
  then show ?thesis by (simp only: mod_mult_self2)
qed

lemma rd_b_ok:
  assumes "fs_ok s n" "b < n" "\<not> is_free s b" "x < 4096"
  shows "\<exists>s'. rd_b (b * 4096 + x) s = Some (byte_of (blk s b) x, s') \<and> same_fs s s'"
  using rd_w_ok [OF assms(1), of "(b, x div 4)"] assms(2-4)
  by (auto simp: rd_b_def byte_of_def byte_index)

lemma rd_bs_ok:
  assumes "fs_ok s n" "b < n" "\<not> is_free s b" "x + m \<le> 4096"
  shows "\<exists>s'. rd_bs (b * 4096 + x) m s = Some (map (byte_of (blk s b)) [x..<x + m], s') \<and> same_fs s s'"
  using assms
proof (induction m arbitrary: x s)
  case 0
  then show ?case by simp
next
  case (Suc m)
  from rd_b_ok [OF Suc.prems(1-3), of x] Suc.prems(4) obtain s1 where
    s1: "rd_b (b * 4096 + x) s = Some (byte_of (blk s b) x, s1)" "same_fs s s1" by auto
  note sf = same_fs_flags [OF s1(2)]
  have "fs_ok s1 n" "\<not> is_free s1 b"
    using fs_ok_same [OF s1(2)] is_free_cong [of s1 s b] sf Suc.prems(1,3) by auto
  from Suc.IH [OF this(1) Suc.prems(2) this(2), of "Suc x"] Suc.prems(4) obtain s2 where
    s2: "rd_bs (b * 4096 + Suc x) m s1 = Some (map (byte_of (blk s b)) [Suc x..<Suc x + m], s2)"
    "same_fs s1 s2" using sf by auto
  have "[x..<x + Suc m] = x # [Suc x..<Suc x + m]" by (simp add: upt_conv_Cons)
  then show ?case using s1(1) s2 same_fs_trans [OF s1(2) s2(2)] by simp
qed

lemma wr_b_ok:
  assumes "fs_ok s n" "b < n" "\<not> is_free s b" "x < 4096"
  shows "\<exists>s' c. wr_b (b * 4096 + x) v s = Some s' \<and> upd b c s s'
    \<and> (\<forall>y<4096. byte_of c y = (if y = x then v else byte_of (blk s b) y))"
proof -
  have a: "(b * 4096 + x) div 4096 = b" "(b * 4096 + x) mod 4096 = x" using assms(4) by auto
  obtain s1 where s1: "rd_w (b, x div 4) s = Some (blk s b (x div 4), s1)" "same_fs s s1"
    using rd_w_ok [OF assms(1), of "(b, x div 4)"] assms(2,3) by auto
  note sf = same_fs_flags [OF s1(2)]
  have ok: "fs_ok s1 n" "\<not> is_free s1 b"
    using fs_ok_same [OF s1(2)] is_free_cong [of s1 s b] sf assms(1,3) by auto
  let ?v = "put_byte (x mod 4) v (blk s b (x div 4))"
  obtain s2 where s2: "wr_w (b, x div 4) ?v s1 = Some s2" "upd b ((blk s b)(x div 4 := ?v)) s1 s2"
    using wr_w_upd [OF ok(1), of "(b, x div 4)"] ok(2) assms(2) sf by auto
  have "wr_b (b * 4096 + x) v s = Some s2"
    unfolding wr_b_def a byte_index mod_less [OF assms(4)] using s1(1) s2(1) by simp
  moreover have "upd b ((blk s b)(x div 4 := ?v)) s s2" using s2(2) sf by (simp add: upd_def same_flags_def)
  moreover have "byte_of ((blk s b)(x div 4 := ?v)) y = (if y = x then v else byte_of (blk s b) y)" for y
  proof (cases "y div 4 = x div 4")
    case True
    then have "y mod 4 = x mod 4 \<longleftrightarrow> y = x" by (metis div_mult_mod_eq)
    then show ?thesis using True by (auto simp: byte_of_def get_put_byte)
  qed (auto simp: byte_of_def)
  ultimately show ?thesis by blast
qed

lemma wr_bs_ok:
  assumes "fs_ok s n" "data_ok s n b" "x + length vs \<le> 4096"
  shows "\<exists>s' c. wr_bs (b * 4096 + x) vs s = Some s' \<and> upd b c s s'
    \<and> (\<forall>y<4096. byte_of c y = (if x \<le> y \<and> y < x + length vs then vs ! (y - x) else byte_of (blk s b) y))"
  using assms
proof (induction vs arbitrary: x s)
  case Nil
  have "upd b (blk s b) s s" by (simp add: upd_def same_flags_def)
  then show ?case by auto
next
  case (Cons v vs)
  have b: "b < n" "\<not> is_free s b" "b \<notin> fst ` bm_slot ` {..<n}" "b \<noteq> 1"
    using Cons.prems(2) by (auto simp: data_ok_def)
  from wr_b_ok [OF Cons.prems(1) b(1,2), of x v] Cons.prems(3) obtain s1 c1 where
    s1: "wr_b (b * 4096 + x) v s = Some s1" "upd b c1 s s1"
    and c1: "\<forall>y<4096. byte_of c1 y = (if y = x then v else byte_of (blk s b) y)" by auto
  have "fs_ok s1 n" by (rule fs_ok_upd [OF Cons.prems(1) s1(2) b(3)]) (use b(4) in auto)
  moreover have "data_ok s1 n b" using data_ok_upd [OF Cons.prems(1) s1(2) b(3)] Cons.prems(2) by simp
  ultimately obtain s2 c2 where s2: "wr_bs (b * 4096 + Suc x) vs s1 = Some s2" "upd b c2 s1 s2"
    and c2: "\<forall>y<4096. byte_of c2 y = (if Suc x \<le> y \<and> y < Suc x + length vs then vs ! (y - Suc x)
        else byte_of (blk s1 b) y)"
    using Cons.IH [of s1 "Suc x"] Cons.prems(3) by auto
  have "blk s1 b = c1" using s1(2) by (simp add: upd_def)
  then have "\<forall>y<4096. byte_of c2 y = (if x \<le> y \<and> y < x + length (v # vs) then (v # vs) ! (y - x)
      else byte_of (blk s b) y)"
    using c1 c2 by (auto simp: nth_Cons' less_Suc_eq_le Suc_le_eq)
  moreover have "upd b c2 s s2" using s1(2) s2(2) by (auto simp: upd_def same_flags_def)
  ultimately show ?case using s1(1) s2(1) by auto
qed

section \<open>Positions\<close>

lemma pos_small:
  assumes "unat (p :: u32) \<le> 4235264"
  shows "sint p = int (unat p)"
proof -
  have "int (unat p) < 2147483648" using assms by linarith
  then have "uint p < 2 ^ 31" "- (2 ^ 31) \<le> uint p" by simp_all (use uint_ge_0 [of p] in linarith)
  then have "signed_take_bit 31 (uint p) = uint p" by (simp add: signed_take_bit_int_eq_self_iff)
  then show ?thesis by (simp add: sint_uint)
qed

lemma nat_sdiv: "int a sdiv 4096 = int (a div 4096)" "int a smod 4096 = int (a mod 4096)"
  unfolding signed_divide_int_def signed_modulo_int_def
  by (cases "a = 0"; simp add: zdiv_int zmod_int sgn_if)+

lemma pos_sdiv: "unat (p :: u32) \<le> 4235264 \<Longrightarrow> sint p sdiv 4096 = int (unat p div 4096)"
  using nat_sdiv(1) [of "unat p"] pos_small by metis

lemma pos_smod: "unat (p :: u32) \<le> 4235264 \<Longrightarrow> sint p smod 4096 = int (unat p mod 4096)"
  using nat_sdiv(2) [of "unat p"] pos_small by metis

lemma pos_block: "unat (p :: u32) \<le> 4235264 \<Longrightarrow> unat (word_of_int (sint p sdiv int BLKSIZE) :: u32) = unat p div 4096"
proof -
  assume p: "unat p \<le> 4235264"
  have "unat (of_nat (unat p div 4096) :: u32) = unat p div 4096" using p by (simp add: unat_of_nat)
  moreover have "sint p sdiv int BLKSIZE = int (unat p div 4096)" using pos_sdiv [OF p] by (simp add: file_consts)
  ultimately show ?thesis by (simp only: of_int_of_nat_eq)
qed

lemma pos_addr: "unat p \<le> 4235264 \<Longrightarrow> blk_addr b p = b * 4096 + unat p mod 4096"
  by (simp add: blk_addr_def file_consts pos_smod nat_int_add)

lemma chunk_size:
  assumes "p < lim" "unat lim \<le> 4235264"
  shows "unat (chunk p lim) = min (4096 - unat p mod 4096) (unat lim - unat p)"
proof -
  have p: "unat p < unat lim" using assms(1) by (simp add: word_less_nat_alt)
  have a: "unat (lim - p) = unat lim - unat p" using p by (simp add: unat_sub word_le_nat_alt)
  have "(int BLKSIZE - sint p smod int BLKSIZE) = int (4096 - unat p mod 4096)"
    using p assms(2) by (simp add: file_consts pos_smod of_nat_diff)
  then have "(word_of_int (int BLKSIZE - sint p smod int BLKSIZE) :: u32) = of_nat (4096 - unat p mod 4096)"
    by (simp only: of_int_of_nat_eq)
  moreover have "unat (of_nat (4096 - unat p mod 4096) :: u32) = 4096 - unat p mod 4096"
    by (simp only: unat_of_nat) simp
  ultimately have b: "unat (word_of_int (int BLKSIZE - sint p smod int BLKSIZE) :: u32) = 4096 - unat p mod 4096"
    by simp
  show ?thesis unfolding chunk_def MIN_u_def word_le_nat_alt
    by (simp only: if_distrib [of unat] a b min_def)
qed

section \<open>The loops\<close>

lemma block_index: "p < lim \<Longrightarrow> unat lim \<le> 4235264 \<Longrightarrow> unat (p :: u32) div 4096 < 1034"
  by (simp add: word_less_nat_alt div_less_iff_less_mult)

lemma chunk_next:
  assumes "p < lim" "unat lim \<le> 4235264"
  shows "unat (p + chunk p lim) = unat p + unat (chunk p lim)" "0 < unat (chunk p lim)"
    "unat p mod 4096 + unat (chunk p lim) \<le> 4096" "unat p + unat (chunk p lim) \<le> unat lim"
proof -
  have p: "unat p < unat lim" using assms(1) by (simp add: word_less_nat_alt)
  note c = chunk_size [OF assms]
  show "0 < unat (chunk p lim)" using p unfolding c by simp
  show "unat p mod 4096 + unat (chunk p lim) \<le> 4096" unfolding c by simp
  show le: "unat p + unat (chunk p lim) \<le> unat lim" unfolding c using p by simp
  then have "unat p + unat (chunk p lim) < 2 ^ LENGTH(32)" using assms(2) by simp
  then show "unat (p + chunk p lim) = unat p + unat (chunk p lim)" by (rule unat_add_lem [THEN iffD1])
qed

lemma same_block: "p mod 4096 + m \<le> 4096 \<Longrightarrow> p \<le> k \<Longrightarrow> k < p + m \<Longrightarrow>
  k div 4096 = p div 4096 \<and> k mod 4096 = p mod 4096 + (k - (p :: nat))"
proof -
  assume a: "p mod 4096 + m \<le> 4096" "p \<le> k" "k < p + m"
  have "k = p div 4096 * 4096 + (p mod 4096 + (k - p))" using a(2) by simp
  moreover have "p mod 4096 + (k - p) < 4096" using a by simp
  ultimately show ?thesis by (metis div_mult_self3 mod_mult_self3 div_less mod_less add.left_neutral
        add.commute zero_neq_numeral)
qed

lemma fbyte_range:
  assumes "p mod 4096 + m \<le> 4096" "bno s f (p div 4096) \<noteq> 0"
  shows "map (fbyte s f) [p..<p + m]
    = map (byte_of (blk s (bno s f (p div 4096)))) [p mod 4096..<p mod 4096 + m]"
proof (rule nth_equalityI)
  fix t assume "t < length (map (fbyte s f) [p..<p + m])"
  then have t: "t < m" by simp
  then have "(p + t) div 4096 = p div 4096 \<and> (p + t) mod 4096 = p mod 4096 + t"
    using same_block [OF assms(1), of "p + t"] by simp
  then show "map (fbyte s f) [p..<p + m] ! t
      = map (byte_of (blk s (bno s f (p div 4096)))) [p mod 4096..<p mod 4096 + m] ! t"
    using t assms(2) by (simp add: fbyte_byte_of)
qed simp

lemma read_loop_ok:
  assumes "file_inv s n f" "unat pos \<le> unat lim" "unat lim \<le> 4235264"
  shows "(\<exists>s'. read_loop f pos lim acc s = Some (Inl E_NO_DISK, s') \<and> kept s s' n f
        \<and> (\<exists>k. unat pos \<le> k \<and> k < unat lim \<and> bno s f (k div 4096) = 0))
    \<or> (\<exists>s'. read_loop f pos lim acc s = Some (Inr (acc @ map (fbyte s f) [unat pos..<unat lim]), s')
        \<and> kept s s' n f \<and> (\<forall>k. bno s' f k = 0 \<longrightarrow> bno s f k = 0))"
  using assms
proof (induction "unat lim - unat pos" arbitrary: pos acc s rule: less_induct)
  case less
  show ?case
  proof (cases "pos < lim")
    case False
    then have "unat pos = unat lim" using less.prems(2) by (simp add: word_less_nat_alt)
    then show ?thesis using False kept_same [OF less.prems(1)]
      by (simp add: read_loop.simps same_flags_def)
  next
    case True
    let ?i = "unat pos div 4096" and ?x = "unat pos mod 4096" and ?m = "unat (chunk pos lim)"
    have p: "unat pos \<le> 4235264" using less.prems(2,3) by simp
    note i = block_index [OF True less.prems(3)] and c = chunk_next [OF True less.prems(3)]
    from get_block_ok [OF less.prems(1) i] show ?thesis
    proof (elim disjE exE conjE)
      fix s1 assume s1: "file_get_block f ?i s = Some (Inl E_NO_DISK, s1)" "kept s s1 n f" "bno s f ?i = 0"
      have "unat pos \<le> unat pos \<and> unat pos < unat lim" using True by (simp add: word_less_nat_alt)
      with s1 show ?thesis using True pos_block [OF p] by (fastforce simp: read_loop.simps)
    next
      fix s1 assume s1: "file_get_block f ?i s = Some (Inr (bno s1 f ?i), s1)" "kept s s1 n f" "bno s1 f ?i \<noteq> 0"
        "\<forall>j. j \<noteq> ?i \<longrightarrow> bno s1 f j = bno s f j"
      let ?b = "bno s1 f ?i"
      note fi1 = kept_inv [OF s1(2)]
      have d: "data_ok s1 n ?b" using file_invD(7) [OF fi1 i s1(3)] by blast
      then obtain s2 where s2: "rd_bs (?b * 4096 + ?x) ?m s1 = Some (map (byte_of (blk s1 ?b)) [?x..<?x + ?m], s2)"
        "same_fs s1 s2" using rd_bs_ok [OF file_invD(1) [OF fi1], of ?b ?x ?m] c(3) by (auto simp: data_ok_def)
      have k2: "kept s s2 n f" using kept_trans [OF s1(2)] same_fs_kept [OF fi1 s2(2)] by blast
      have bytes: "map (byte_of (blk s1 ?b)) [?x..<?x + ?m] = map (fbyte s f) [unat pos..<unat pos + ?m]"
        unfolding fbyte_range [OF c(3) s1(3), symmetric]
        using s1(2) c(4) less.prems(3) by (simp add: kept_def)
      have lt: "unat lim - unat (pos + chunk pos lim) < unat lim - unat pos" "unat (pos + chunk pos lim) \<le> unat lim"
        using c True by (simp_all add: word_less_nat_alt)
      have app: "[unat pos..<unat lim] = [unat pos..<unat pos + ?m] @ [unat pos + ?m..<unat lim]"
        using c(4) upt_add_eq_append [of "unat pos" "unat pos + ?m" "unat lim - (unat pos + ?m)"] by simp
      have fb: "map (fbyte s2 f) [unat pos + ?m..<unat lim] = map (fbyte s f) [unat pos + ?m..<unat lim]"
        using k2 less.prems(3) by (simp add: kept_def)
      have step: "read_loop f pos lim acc s
          = read_loop f (pos + chunk pos lim) lim (acc @ map (fbyte s f) [unat pos..<unat pos + ?m]) s2"
        using True s1(1) s2(1) bytes pos_addr [OF p] pos_block [OF p] by (simp add: read_loop.simps [of f pos] Let_def)
      have hole: "bno s f k = 0" if "bno s2 f k = 0" for k
        using that s1(3,4) same_fs_kept [OF fi1 s2(2)] by (cases "k = ?i") auto
      show ?thesis
        using less.hyps [OF lt(1) kept_inv [OF k2] lt(2) less.prems(3), of "acc @ map (fbyte s f) [unat pos..<unat pos + ?m]"]
        unfolding step c(1) fb app using kept_trans [OF k2] hole by (fastforce intro: order_trans [OF le_add1])
    qed
  qed
qed

text \<open>The contents after \<open>vs\<close> was stored at \<open>p\<close>.\<close>

definition written :: "fs \<Rightarrow> fptr \<Rightarrow> nat \<Rightarrow> u8 list \<Rightarrow> nat \<Rightarrow> u8" where
  "written s f p vs k = (if p \<le> k \<and> k < p + length vs then vs ! (k - p) else fbyte s f k)"

lemma write_block_ok:
  assumes "file_inv s n f" "bno s f (p div 4096) \<noteq> 0" "p div 4096 < 1034"
    and "p mod 4096 + length vs \<le> 4096"
  shows "\<exists>s'. wr_bs (bno s f (p div 4096) * 4096 + p mod 4096) vs s = Some s' \<and> file_inv s' n f
    \<and> same_flags s s' \<and> f_word s' f = f_word s f
    \<and> bno s' f = bno s f \<and> (\<forall>k<1034 * 4096. fbyte s' f k = written s f p vs k)"
proof -
  let ?b = "bno s f (p div 4096)"
  have d: "data_ok s n ?b" using file_invD(7) [OF assms(1,3,2)] by blast
  obtain s' c where s': "wr_bs (?b * 4096 + p mod 4096) vs s = Some s'" "upd ?b c s s'"
    and c: "\<forall>y<4096. byte_of c y = (if p mod 4096 \<le> y \<and> y < p mod 4096 + length vs
        then vs ! (y - p mod 4096) else byte_of (blk s ?b) y)"
    using wr_bs_ok [OF file_invD(1) [OF assms(1)] d assms(4)] by blast
  note fi = file_inv_data [OF assms(1,3,2) s'(2)]
  have "fbyte s' f k = written s f p vs k" if k: "k < 1034 * 4096" for k
  proof (cases "k div 4096 = p div 4096")
    case True
    have "k = p div 4096 * 4096 + k mod 4096" using True by (metis div_mult_mod_eq)
    moreover have "p = p div 4096 * 4096 + p mod 4096" by simp
    ultimately have "(p \<le> k) = (p mod 4096 \<le> k mod 4096)"
      "k < p + length vs \<longleftrightarrow> k mod 4096 < p mod 4096 + length vs" "k - p = k mod 4096 - p mod 4096"
      by linarith+
    then show ?thesis
      using s'(2) c True assms(2) by (simp add: fbyte_byte_of fi(2) written_def upd_def)
  next
    case False
    have "k div 4096 < 1034" using k by (simp add: div_less_iff_less_mult)
    then have "bno s f (k div 4096) \<noteq> 0 \<Longrightarrow> bno s f (k div 4096) \<noteq> ?b"
      using file_invD(8) [OF assms(1)] assms(3) False by blast
    moreover have "\<not> (p \<le> k \<and> k < p + length vs)" using same_block [OF assms(4)] False by blast
    ultimately show ?thesis
      using s'(2) by (auto simp: fbyte_byte_of fi(2) written_def upd_def)
  qed
  then show ?thesis using s' fi by (auto simp: upd_def)
qed

lemma write_loop_ok:
  assumes "file_inv s n f" "unat lim = unat pos + length vs" "unat lim \<le> 4235264"
  shows "\<exists>r s'. write_loop f pos lim vs s = Some (r, s') \<and> file_inv s' n f \<and> same_flags s s'
    \<and> f_word s' f F_SIZE = f_word s f F_SIZE
    \<and> (\<forall>k<1034 * 4096. k < unat pos \<or> unat lim \<le> k \<longrightarrow> fbyte s' f k = fbyte s f k)
    \<and> (\<forall>j. bno s f j \<noteq> 0 \<longrightarrow> bno s' f j \<noteq> 0)
    \<and> (case r of Inl e \<Rightarrow> e = E_NO_DISK \<and> (\<exists>k. unat pos \<le> k \<and> k < unat lim \<and> bno s f (k div 4096) = 0)
        | Inr _ \<Rightarrow> (\<forall>k<1034 * 4096. fbyte s' f k = written s f (unat pos) vs k)
            \<and> (\<forall>k. unat pos \<le> k \<longrightarrow> k < unat lim \<longrightarrow> bno s' f (k div 4096) \<noteq> 0))"
  using assms
proof (induction "unat lim - unat pos" arbitrary: pos vs s rule: less_induct)
  case less
  show ?case
  proof (cases "pos < lim")
    case False
    then have "vs = []" "unat lim = unat pos" using less.prems(2) by (simp_all add: word_less_nat_alt)
    then show ?thesis using False less.prems(1)
      by (auto simp: write_loop.simps same_flags_def written_def)
  next
    case True
    let ?i = "unat pos div 4096" and ?x = "unat pos mod 4096" and ?m = "unat (chunk pos lim)"
    have p: "unat pos \<le> 4235264" using less.prems(2,3) by simp
    note i = block_index [OF True less.prems(3)] and c = chunk_next [OF True less.prems(3)]
    from get_block_ok [OF less.prems(1) i] show ?thesis
    proof (elim disjE exE conjE)
      fix s1 assume "file_get_block f ?i s = Some (Inl E_NO_DISK, s1)" "kept s s1 n f"
        "bno s f ?i = 0" "bno s1 f = bno s f"
      then show ?thesis using True pos_block [OF p]
        by (auto simp: write_loop.simps kept_def word_less_nat_alt intro!: exI [of _ "unat pos"])
    next
      fix s1 assume s1: "file_get_block f ?i s = Some (Inr (bno s1 f ?i), s1)" "kept s s1 n f" "bno s1 f ?i \<noteq> 0"
        "\<forall>j. j \<noteq> ?i \<longrightarrow> bno s1 f j = bno s f j"
      let ?b = "bno s1 f ?i"
      note fi1 = kept_inv [OF s1(2)]
      have len: "length (take ?m vs) = ?m" using c(4) less.prems(2) by simp
      from write_block_ok [OF fi1 s1(3) i, of "take ?m vs"] c(3) len obtain s2 where
        s2: "wr_bs (?b * 4096 + ?x) (take ?m vs) s1 = Some s2" "file_inv s2 n f" "same_flags s1 s2"
        "f_word s2 f = f_word s1 f" "bno s2 f = bno s1 f" "\<forall>k<1034 * 4096. fbyte s2 f k = written s1 f (unat pos) (take ?m vs) k" by auto
      have lt: "unat lim - unat (pos + chunk pos lim) < unat lim - unat pos"
        "unat lim = unat (pos + chunk pos lim) + length (drop ?m vs)"
        using c True less.prems(2) by (simp_all add: word_less_nat_alt)
      have step: "write_loop f pos lim vs s = write_loop f (pos + chunk pos lim) lim (drop ?m vs) s2"
        using True s1(1) s2(1) pos_addr [OF p] pos_block [OF p] by (simp add: write_loop.simps [of f pos] Let_def)
      have w2: "fbyte s2 f k = (if unat pos \<le> k \<and> k < unat pos + ?m then vs ! (k - unat pos) else fbyte s f k)"
        if "k < 1034 * 4096" for k
        using s2(6) s1(2) that len by (auto simp: written_def kept_def)
      from less.hyps [OF lt(1) s2(2) lt(2) less.prems(3)] obtain r s' where
        r: "write_loop f (pos + chunk pos lim) lim (drop ?m vs) s2 = Some (r, s')" "file_inv s' n f"
          "same_flags s2 s'" "f_word s' f F_SIZE = f_word s2 f F_SIZE"
          "\<forall>k<1034 * 4096. k < unat (pos + chunk pos lim) \<or> unat lim \<le> k \<longrightarrow> fbyte s' f k = fbyte s2 f k"
          "\<forall>j. bno s2 f j \<noteq> 0 \<longrightarrow> bno s' f j \<noteq> 0"
          "case r of Inl e \<Rightarrow> e = E_NO_DISK \<and> (\<exists>k. unat (pos + chunk pos lim) \<le> k \<and> k < unat lim \<and> bno s2 f (k div 4096) = 0)
            | Inr _ \<Rightarrow> (\<forall>k<1034 * 4096. fbyte s' f k = written s2 f (unat (pos + chunk pos lim)) (drop ?m vs) k)
              \<and> (\<forall>k. unat (pos + chunk pos lim) \<le> k \<longrightarrow> k < unat lim \<longrightarrow> bno s' f (k div 4096) \<noteq> 0)"
        by blast
      have mono: "bno s' f j \<noteq> 0" if "bno s f j \<noteq> 0 \<or> j = ?i" for j
        using r(6) s2(5) s1(3,4) that by (cases "j = ?i") auto
      have front: "bno s' f (k div 4096) \<noteq> 0" if "unat pos \<le> k" "k < unat pos + ?m" for k
        using same_block [OF c(3) that] mono by auto
      have "fbyte s' f k = fbyte s f k" if "k < 1034 * 4096" "k < unat pos \<or> unat lim \<le> k" for k
        using r(5) w2 that c(1,4) by auto
      note out = this
      have "written s2 f (unat (pos + chunk pos lim)) (drop ?m vs) k = written s f (unat pos) vs k"
        if "k < 1034 * 4096" for k
        using w2 [OF that] c(1,4) less.prems(2) by (auto simp: written_def)
      note wr = this
      have "case r of Inl e \<Rightarrow> e = E_NO_DISK \<and> (\<exists>k. unat pos \<le> k \<and> k < unat lim \<and> bno s f (k div 4096) = 0)
            | Inr _ \<Rightarrow> (\<forall>k<1034 * 4096. fbyte s' f k = written s f (unat pos) vs k)
              \<and> (\<forall>k. unat pos \<le> k \<longrightarrow> k < unat lim \<longrightarrow> bno s' f (k div 4096) \<noteq> 0)"
      proof (cases r)
        case (Inr u)
        have "bno s' f (k div 4096) \<noteq> 0" if "unat pos \<le> k" "k < unat lim" for k
        proof (cases "k < unat pos + ?m")
          case False
          with r(7) Inr that(2) show ?thesis unfolding c(1) by simp
        qed (rule front [OF that(1)])
        then show ?thesis using r(7) Inr wr by simp
      next
        case (Inl e)
        have "bno s f j = 0" if "bno s2 f j = 0" for j
          using that s2(5) s1(3,4) by (cases "j = ?i") auto
        moreover obtain k where "unat pos + ?m \<le> k" "k < unat lim" "bno s2 f (k div 4096) = 0" "e = E_NO_DISK"
          using r(7) Inl unfolding c(1) by auto
        ultimately have "e = E_NO_DISK \<and> (\<exists>k. unat pos \<le> k \<and> k < unat lim \<and> bno s f (k div 4096) = 0)"
          using add_leD1 by blast
        then show ?thesis using Inl by simp
      qed
      moreover have "same_flags s s'" using s1(2) s2(3) r(3) by (simp add: kept_def same_flags_def)
      moreover have "f_word s' f F_SIZE = f_word s f F_SIZE" using s1(2) s2(4) r(4) by (simp add: kept_def)
      ultimately show ?thesis using r(1,2) step mono out by auto
    qed
  qed
qed

section \<open>Blocks a file has\<close>

lemma same_fs_invs: "same_fs s s' \<Longrightarrow> file_inv s n f \<Longrightarrow> file_inv s' n f" "same_fs s s' \<Longrightarrow> bno s' f = bno s f"
  "same_fs s s' \<Longrightarrow> f_word s' f = f_word s f" "same_fs s s' \<Longrightarrow> blk s' = blk s"
  using file_inv_same [of s s'] same_fs_flags [of s s'] by (auto simp: f_word_def fun_eq_iff)

lemma path_walk_present:
  assumes "file_inv s n f" "i < 1034" "bno s f i \<noteq> 0"
  shows "\<exists>p s'. file_block_walk f i al s = Some (Inr p, s') \<and> same_fs s s' \<and> slot_of s f i p"
proof (cases "i < 10")
  case True
  then show ?thesis by (auto simp: file_block_walk_def slot_of_def file_consts)
next
  case False
  obtain s1 where s1: "rd_w (fld f F_INDIRECT) s = Some (f_word s f F_INDIRECT, s1)" "same_fs s s1"
    using f_read [OF assms(1)] by blast
  have nz: "ind s f \<noteq> 0" using assms(3) False by (auto simp: bno_def file_consts split: if_splits)
  then have z: "f_word s f F_INDIRECT \<noteq> 0" by (auto simp: ind_def)
  have i1: "ind s1 f = ind s f" using file_inv_same(3) same_fs_flags [OF s1(2)] by blast
  obtain s2 where s2: "(do { (ind2, s6) \<leftarrow> rd_w (fld f F_INDIRECT) s1; (d, s7) \<leftarrow> diskaddr (unat ind2) s6;
       Some (Inr (d, i - NDIRECT) :: errno + nat \<times> nat, s7) }) = Some (Inr (ind s f, i - NDIRECT), s2)"
      "same_fs s1 s2" using walk_tail [OF same_fs_invs(1) [OF s1(2) assms(1)], of i] i1 nz False by auto
  have "file_block_walk f i al s = Some (Inr (ind s f, i - NDIRECT), s2)"
    using False assms(2) s1(1) s2(1) z by (simp add: file_block_walk_def file_consts)
  moreover have "slot_of s f i (ind s f, i - NDIRECT)" using nz False by (simp add: slot_of_def)
  ultimately show ?thesis using same_fs_trans [OF s1(2) s2(2)] by blast
qed

lemma get_block_present:
  assumes "file_inv s n f" "i < 1034" "bno s f i \<noteq> 0"
  shows "\<exists>s'. file_get_block f i s = Some (Inr (bno s f i), s') \<and> same_fs s s'"
proof -
  obtain p s1 where s1: "file_block_walk f i True s = Some (Inr p, s1)" "same_fs s s1" "slot_of s f i p"
    using path_walk_present [OF assms] by blast
  have same_slot: "slot_of t f i p" if "same_fs s t" for t
    using s1(3) file_inv_same(3) [of s t f] same_fs_flags [OF that] by (simp add: slot_of_def)
  obtain w s2 where s2: "rd_w p s1 = Some (w, s2)" "same_fs s1 s2" "unat w = bno s f i"
    using slot_read [OF same_fs_invs(1) [OF s1(2) assms(1)] same_slot [OF s1(2)]] same_fs_invs(2) [OF s1(2)] by auto
  have t: "same_fs s s2" using same_fs_trans [OF s1(2) s2(2)] .
  have b: "bno s2 f i = bno s f i" using same_fs_invs(2) [OF t] by simp
  obtain s3 where s3: "(do { (bn2, s7) \<leftarrow> rd_w p s2; (d, s8) \<leftarrow> diskaddr (unat bn2) s7;
      Some (Inr d :: errno + nat, s8) }) = Some (Inr (bno s f i), s3)" "same_fs s2 s3"
    using get_block_tail [OF same_fs_invs(1) [OF t assms(1)] assms(2) same_slot [OF t]] assms(3) b by auto
  have "w \<noteq> 0" using s2(3) assms(3) by auto
  then have "file_get_block f i s = Some (Inr (bno s f i), s3)"
    using s1(1) s2(1) s3(1) by (simp add: file_get_block_def)
  then show ?thesis using same_fs_trans [OF t s3(2)] by blast
qed

section \<open>Names\<close>

text \<open>The string at byte \<open>x\<close> of a block is the name.\<close>

fun name_at :: "(nat \<Rightarrow> u32) \<Rightarrow> nat \<Rightarrow> u8 list \<Rightarrow> bool" where
  "name_at c x [] \<longleftrightarrow> byte_of c x = 0"
| "name_at c x (y # ys) \<longleftrightarrow> byte_of c x = y \<and> name_at c (x + 1) ys"

lemma name_at_unique:
  "name_at c x a \<Longrightarrow> name_at c x b \<Longrightarrow> 0 \<notin> set a \<Longrightarrow> 0 \<notin> set b \<Longrightarrow> a = b"
proof (induction a arbitrary: x b)
  case Nil
  then show ?case by (cases b) auto
next
  case (Cons y ys)
  then show ?case by (cases b) auto
qed

lemma name_eq_ok:
  assumes "fs_ok s n" "b < n" "\<not> is_free s b" "x + length name < 4096"
  shows "\<exists>s'. name_eq (b * 4096 + x) name s = Some (name_at (blk s b) x name, s') \<and> same_fs s s'"
  using assms
proof (induction name arbitrary: x s)
  case Nil
  then show ?case using rd_b_ok [of s n b x] by auto
next
  case (Cons y ys)
  obtain s1 where s1: "rd_b (b * 4096 + x) s = Some (byte_of (blk s b) x, s1)" "same_fs s s1"
    using rd_b_ok [of s n b x] Cons.prems by auto
  have e: "fs_ok s1 n" "\<not> is_free s1 b" "blk s1 b = blk s b"
    using fs_ok_same [OF s1(2)] Cons.prems same_fs_flags [OF s1(2)] is_free_cong [of s1 s b] by auto
  obtain s2 where s2: "name_eq (b * 4096 + Suc x) ys s1 = Some (name_at (blk s b) (Suc x) ys, s2)" "same_fs s1 s2"
    using Cons.IH [of s1 "Suc x"] Cons.prems e by auto
  show ?case using s1 s2 same_fs_trans [OF s1(2) s2(2)] by auto
qed

lemma scan_names_ok:
  assumes "fs_ok s n" "b < n" "\<not> is_free s b" "\<forall>j \<in> set js. j < 16" "length name < 128"
  shows "\<exists>s'. scan_names b name js s
      = Some (map_option (slot_file b) (find (\<lambda>j. name_at (blk s b) (j * 256) name) js), s') \<and> same_fs s s'"
  using assms
proof (induction js arbitrary: s)
  case (Cons j js)
  have "j * 256 + length name < 4096" using Cons.prems(4,5) by auto
  moreover have "byte_addr (slot_file b j) = b * 4096 + j * 256" by (simp add: byte_addr_def slot_file_def)
  ultimately obtain s1 where s1: "name_eq (byte_addr (slot_file b j)) name s
      = Some (name_at (blk s b) (j * 256) name, s1)" "same_fs s s1"
    using name_eq_ok [OF Cons.prems(1-3), of "j * 256" name] by auto
  have e: "fs_ok s1 n" "\<not> is_free s1 b" "blk s1 b = blk s b"
    using fs_ok_same [OF s1(2)] Cons.prems same_fs_flags [OF s1(2)] is_free_cong [of s1 s b] by auto
  obtain s2 where s2: "scan_names b name js s1
      = Some (map_option (slot_file b) (find (\<lambda>j. name_at (blk s b) (j * 256) name) js), s2)" "same_fs s1 s2"
    using Cons.IH [OF e(1) Cons.prems(2) e(2)] Cons.prems(4,5) e(3) by auto
  show ?case using s1 s2 same_fs_trans [OF s1(2) s2(2)] by auto
qed simp

section \<open>Directories\<close>

text \<open>The slots of block \<open>i\<close> of a directory with the name.\<close>

definition slot_named :: "fs \<Rightarrow> fptr \<Rightarrow> u8 list \<Rightarrow> nat \<Rightarrow> nat \<Rightarrow> bool" where
  "slot_named s dir name i j \<longleftrightarrow> name_at (blk s (bno s dir i)) (j * 256) name"

lemma slot_named_same: "same_fs s s' \<Longrightarrow> slot_named s' dir name = slot_named s dir name"
  by (simp add: slot_named_def fun_eq_iff same_fs_invs)

lemma scan_block:
  assumes "file_inv s n dir" "i < 1034" "bno s dir i \<noteq> 0" "length name < 128"
  shows "\<exists>s1 s2. file_get_block dir i s = Some (Inr (bno s dir i), s1)
    \<and> scan_names (bno s dir i) name [0..<BLKFILES] s1
      = Some (map_option (slot_file (bno s dir i)) (find (slot_named s dir name i) [0..<16]), s2) \<and> same_fs s s2"
proof -
  obtain s1 where s1: "file_get_block dir i s = Some (Inr (bno s dir i), s1)" "same_fs s s1"
    using get_block_present [OF assms(1-3)] by blast
  have "fs_ok s1 n" "bno s dir i < n" "\<not> is_free s1 (bno s dir i)"
    using file_invD(7) [OF assms(1-3)] file_invD(1) [OF assms(1)] fs_ok_same [OF s1(2)] same_fs_invs(4) [OF s1(2)]
      is_free_cong [of s1 s] by (auto simp: data_ok_def)
  from scan_names_ok [OF this, of "[0..<16]" name] obtain s2 where
    "scan_names (bno s dir i) name [0..<16] s1
      = Some (map_option (slot_file (bno s dir i)) (find (slot_named s dir name i) [0..<16]), s2)" "same_fs s1 s2"
    using assms(4) same_fs_invs(4) [OF s1(2)] by (auto simp: slot_named_def [abs_def])
  moreover have "BLKFILES = 16" by (simp add: BLKFILES_def BLKSIZE_def)
  ultimately show ?thesis using s1 same_fs_trans [OF s1(2)] by metis
qed

lemma lookup_blocks_hit:
  assumes "file_inv s n dir" "\<forall>i \<in> set (is @ [i0]). i < 1034 \<and> bno s dir i \<noteq> 0" "length name < 128"
    and "\<forall>i \<in> set is. find (slot_named s dir name i) [0..<16] = None"
    and "find (slot_named s dir name i0) [0..<16] = Some j"
  shows "\<exists>s'. lookup_blocks dir name (is @ i0 # rest) s = Some (Inr (slot_file (bno s dir i0) j), s') \<and> same_fs s s'"
  using assms
proof (induction "is" arbitrary: s)
  case Nil
  then show ?case using scan_block [of s n dir i0 name] by auto
next
  case (Cons i "is")
  obtain s1 s2 where s1: "file_get_block dir i s = Some (Inr (bno s dir i), s1)"
    and s2: "scan_names (bno s dir i) name [0..<BLKFILES] s1 = Some (None, s2)" "same_fs s s2"
    using scan_block [of s n dir i name] Cons.prems by auto
  note e = same_fs_invs(1,2) [OF s2(2)] slot_named_same [OF s2(2)]
  obtain s3 where "lookup_blocks dir name (is @ i0 # rest) s2 = Some (Inr (slot_file (bno s dir i0) j), s3)" "same_fs s2 s3"
    using Cons.IH [of s2] Cons.prems e by auto
  then show ?case using s1 s2 same_fs_trans [OF s2(2)] by auto
qed

lemma dir_lookup_hit:
  assumes "file_inv s n dir" "f_word s dir F_SIZE = of_nat (m * 4096)" "m \<le> 1034" "\<forall>i<m. bno s dir i \<noteq> 0"
    and "length name < 128" "i0 < m" "\<forall>i<i0. find (slot_named s dir name i) [0..<16] = None"
    and "find (slot_named s dir name i0) [0..<16] = Some j"
  shows "\<exists>s'. dir_lookup dir name s = Some (Inr (slot_file (bno s dir i0) j), s') \<and> same_fs s s'"
proof -
  obtain s1 where s1: "rd_w (fld dir F_SIZE) s = Some (f_word s dir F_SIZE, s1)" "same_fs s s1"
    using f_read [OF assms(1)] by blast
  let ?z = "of_nat (m * 4096) :: u32"
  have u: "unat ?z = m * 4096" using assms(3) by (simp add: unat_of_nat del: of_nat_mult)
  then have z: "sint ?z smod int BLKSIZE = 0" "unat (word_of_int (sint ?z sdiv int BLKSIZE) :: u32) = m"
    using pos_smod [of ?z] pos_block [of ?z] assms(3) by (simp_all add: file_consts)
  have n: "dir_nblock dir s = Some (m, s1)" using s1(1) z unfolding assms(2) by (simp add: dir_nblock_def)
  have l: "[0..<m] = [0..<i0] @ i0 # [Suc i0..<m]"
    using assms(6) by (metis upt_conv_Cons upt_add_eq_append le_add_diff_inverse less_imp_le_nat zero_le)
  note e = same_fs_invs(1,2) [OF s1(2)] slot_named_same [OF s1(2)]
  obtain s2 where "lookup_blocks dir name ([0..<i0] @ i0 # [Suc i0..<m]) s1
      = Some (Inr (slot_file (bno s dir i0) j), s2)" "same_fs s1 s2"
    using lookup_blocks_hit [OF e(1) [OF assms(1)], of "[0..<i0]" i0 name j "[Suc i0..<m]"] assms(3-8) e by auto
  then show ?thesis using n l same_fs_trans [OF s1(2)] by (auto simp: dir_lookup_def)
qed

section \<open>A path in the root directory\<close>

lemma skip_slash_name: "47 \<notin> set name \<Longrightarrow> name \<noteq> [] \<Longrightarrow> skip_slash (47 # name) = name"
  by (cases name) (auto simp: skip_slash_def)

lemma file_open_root:
  assumes "file_inv s n s_root" "f_word s s_root F_TYPE = FTYPE_DIR"
    and "f_word s s_root F_SIZE = of_nat (m * 4096)" "m \<le> 1034" "\<forall>i<m. bno s s_root i \<noteq> 0"
    and "length name < 128" "name \<noteq> []" "47 \<notin> set name"
    and "i0 < m" "\<forall>i<i0. find (slot_named s s_root name i) [0..<16] = None"
    and "find (slot_named s s_root name i0) [0..<16] = Some j"
  shows "\<exists>s'. file_open (47 # name) s = Some (Inr (slot_file (bno s s_root i0) j), s') \<and> same_fs s s'"
proof -
  obtain s1 where s1: "rd_w (fld s_root F_TYPE) s = Some (f_word s s_root F_TYPE, s1)" "same_fs s s1"
    using f_read [OF assms(1)] by blast
  note e = same_fs_invs [OF s1(2)] slot_named_same [OF s1(2)]
  obtain s2 where s2: "dir_lookup s_root name s1 = Some (Inr (slot_file (bno s s_root i0) j), s2)" "same_fs s1 s2"
    using dir_lookup_hit [OF e(1) [OF assms(1)], of m name i0 j] assms e by auto
  have tw: "takeWhile (\<lambda>c. c \<noteq> 47) name = name" "dropWhile (\<lambda>c. c \<noteq> 47) name = []"
    using assms(8) by (auto simp: takeWhile_eq_all_conv dropWhile_eq_Nil_conv)
  have "walk_loop [] (Some s_root) (slot_file (bno s s_root i0) j) s2 = Some (\<lparr>w_res = Inr (),
      w_pdir = Some s_root, w_pf = Some (slot_file (bno s s_root i0) j), w_last = None\<rparr>, s2)"
    by (subst walk_loop.simps) simp
  then have "walk_path (47 # name) s
      = Some (\<lparr>w_res = Inr (), w_pdir = Some s_root, w_pf = Some (slot_file (bno s s_root i0) j), w_last = None\<rparr>, s2)"
    using assms(2,6,7) s1(1) s2(1) unfolding walk_path_def skip_slash_name [OF assms(8,7)]
    by (subst walk_loop.simps) (simp add: tw MAXNAMELEN_def skip_slash_def del: walk_loop.simps)
  then show ?thesis using same_fs_trans [OF s1(2) s2(2)] by (simp add: file_open_def)
qed

section \<open>fs_init\<close>

lemma assert_used_ok:
  assumes "fs_ok s n" "b < n" "\<not> is_free s b"
  shows "\<exists>s'. assert_used b s = Some s' \<and> same_fs s s'"
  using block_is_free_ok [OF assms(1,2)] assms(3) by (auto simp: assert_used_def)

lemma check_super_ok:
  assumes "fs_ok s n" "blk s 1 0 = FS_MAGIC"
  shows "\<exists>s'. check_super s = Some s' \<and> same_fs s s'"
proof -
  obtain s1 where s1: "rd_w (1, 0) s = Some (FS_MAGIC, s1)" "same_fs s s1"
    using rd_w_ok [OF assms(1), of "(1, 0)"] fs_ok_facts(1,3) [OF assms(1)] assms(2) by auto
  obtain s2 where "s_nblocks s1 = Some (n, s2)" "same_fs s1 s2"
    using s_nblocks_ok fs_ok_same [OF s1(2)] assms(1) by blast
  then show ?thesis
    using s1 same_fs_trans [OF s1(2)] fs_ok_facts(5) [OF assms(1)] by (auto simp: check_super_def)
qed

lemma check_bitmap_ok:
  assumes "fs_ok s n"
  shows "\<exists>s'. check_bitmap s = Some s' \<and> same_fs s s'"
proof -
  obtain s1 where s1: "s_nblocks s = Some (n, s1)" "same_fs s s1" using s_nblocks_ok [OF assms] by blast
  let ?L = "filter (\<lambda>i. i * BLKBITSIZE < n) [0..<n]"
  have used: "2 + i < n \<and> \<not> is_free s (2 + i)" if "i \<in> set ?L" for i
  proof -
    have "i * 32768 < n" using that by (simp add: BLKBITSIZE_def BLKSIZE_def)
    moreover have "fst (bm_slot (i * 32768)) = 2 + i" by (simp add: bm_slot_def)
    ultimately show ?thesis using assms unfolding fs_ok_def by metis
  qed
  have "\<exists>s2. iter_opt (\<lambda>i. assert_used (2 + i)) ?L s1 = Some s2 \<and> same_fs s s2"
  proof (rule iter_opt_invariant)
    fix pre x rest t assume t: "?L = pre @ x # rest" "same_fs s t"
    have "x \<in> set ?L" unfolding t(1) by simp
    then have "2 + x < n" "\<not> is_free t (2 + x)"
      using used is_free_cong [OF same_fs_invs(4) [OF t(2)]] by blast+
    then obtain t' where "assert_used (2 + x) t = Some t'" "same_fs t t'"
      using assert_used_ok fs_ok_same [OF t(2)] assms by blast
    then show "\<exists>t'. assert_used (2 + x) t = Some t' \<and> same_fs s t'" using same_fs_trans [OF t(2)] by blast
  qed (rule s1(2))
  then obtain s2 where s2: "iter_opt (\<lambda>i. assert_used (2 + i)) ?L s1 = Some s2" "same_fs s s2" by blast
  have u: "\<exists>t'. assert_used b t = Some t' \<and> same_fs s t'" if "same_fs s t" "b < 2" for b t
  proof -
    have "fs_ok t n" "b < n" "\<not> is_free t b"
      using fs_ok_same [OF that(1)] assms that(2) fs_ok_facts(2) [OF assms]
        is_free_cong [OF same_fs_invs(4) [OF that(1)]] by (auto simp: fs_ok_def less_2_cases_iff)
    then show ?thesis using assert_used_ok same_fs_trans [OF that(1)] by blast
  qed
  obtain s3 where s3: "assert_used 0 s2 = Some s3" "same_fs s s3" using u [OF s2(2), of 0] by auto
  obtain s4 where s4: "assert_used 1 s3 = Some s4" "same_fs s s4" using u [OF s3(2), of 1] by auto
  show ?thesis using s1(1) s2(1) s3(1) s4 by (simp add: check_bitmap_def)
qed

lemma fs_init_ok:
  assumes "fs_ok (s\<lparr>super_set := True, bitmap_set := True\<rparr>) n" "\<not> super_set s" "\<not> bitmap_set s" "cache s = Map.empty"
    and "disk s 1 0 = FS_MAGIC"
  shows "\<exists>s'. fs_init s = Some s' \<and> fs_ok s' n \<and> blk s' = disk s"
proof -
  let ?s = "s\<lparr>cache := (cache s)(1 \<mapsto> disk s 1), dirty := (dirty s)(1 := False)\<rparr>"
  let ?t = "?s\<lparr>super_set := True\<rparr>" and ?m = "?s\<lparr>super_set := True, bitmap_set := True\<rparr>"
  have n: "unat (disk s 1 1) = n" "2 < n" "io_ok s 1"
    using assms(1,4) by (auto simp: fs_ok_def blk_def)
  have "blk s 1 = disk s 1" using assms(4) by (simp add: blk_def)
  then have c: "bc_init s = Some ?s" using check_bc_ok [OF assms(2) n(3)] by (simp add: bc_init_def)
  have b: "blk ?m = disk s" using assms(4) by (auto simp: blk_def fun_eq_iff)
  have "is_free ?m c = is_free (s\<lparr>super_set := True, bitmap_set := True\<rparr>) c" for c
    using b assms(4) by (simp add: is_free_def blk_def)
  moreover have "blk (s\<lparr>super_set := True, bitmap_set := True\<rparr>) = disk s" using assms(4) by (auto simp: blk_def fun_eq_iff)
  ultimately have ok: "fs_ok ?m n" using assms(1) b unfolding fs_ok_def by simp
  have "touch 1 ?t = Some ?t" by (simp add: touch_def numeral_eq_Suc va_is_mapped_def)
  then have "s_nblocks ?t = Some (n, ?t)" using n(1) by (simp add: s_nblocks_def rd_w_def)
  then have d: "diskaddr 2 ?t = Some (2, ?t)" using n(2) by (simp add: diskaddr_def)
  obtain s5 where s5: "check_super ?m = Some s5" "same_fs ?m s5"
    using check_super_ok [OF ok] assms(5) b by auto
  obtain s6 where s6: "check_bitmap s5 = Some s6" "same_fs s5 s6"
    using check_bitmap_ok [of s5 n] ok fs_ok_same [OF s5(2)] by blast
  have t: "same_fs ?m s6" using same_fs_trans [OF s5(2) s6(2)] .
  have "fs_ok s6 n" "blk s6 = disk s" using fs_ok_same [OF t] ok same_fs_invs(4) [OF t] b by simp_all
  moreover have "diskaddr 1 ?s = Some (1, ?s)" using assms(2) by (simp add: diskaddr_def)
  ultimately show ?thesis using c d s5(1) s6(1) by (simp add: fs_init_def)
qed

end
