(* ===== verification/Fs_Spec.thy ===== *)
theory Fs_Spec
  imports Fs_File
begin

text \<open>
  The properties of the file server's block allocator, of file_read and file_write, and of
  fs_sync, with a small file system on which they are applied.
\<close>

unbundle bit_operations_syntax

section \<open>A small file system\<close>

text \<open>
  Eight blocks: the superblock, the bitmap with blocks 5 to 7 free, and block 3 with a file of
  the five bytes "hello", which are in block 4; nothing is cached.
\<close>

definition demo_disk :: "nat \<Rightarrow> nat \<Rightarrow> u32" where
  "demo_disk = (\<lambda>_ _. 0)(1 := (\<lambda>_. 0)(0 := FS_MAGIC, 1 := 8), 2 := (\<lambda>_. 0)(0 := 0xE0),
     3 := (\<lambda>_. 0)(32 := 5, 34 := 4), 4 := (\<lambda>_. 0)(0 := 0x6C6C6568, 1 := 0x6F))"

definition demo_fs :: fs where
  "demo_fs = \<lparr>disk = demo_disk, cache = Map.empty, dirty = (\<lambda>_. False), super_set = True,
     bitmap_set = True, io_ok = (\<lambda>_. True)\<rparr>"

lemma demo_blk: "blk demo_fs = demo_disk"
  by (rule ext) (simp add: blk_def demo_fs_def)

lemma demo_free: "b < 8 \<Longrightarrow> is_free demo_fs b \<longleftrightarrow> 5 \<le> b"
proof -
  assume b: "b < 8"
  have "bit (0xE0 :: u32) b \<longleftrightarrow> 5 \<le> b" if "b \<in> {0, 1, 2, 3, 4, 5, 6, 7}" for b :: nat
    using that by (auto simp: bit_numeral_rec bit_1_iff)
  moreover have "b \<in> {0, 1, 2, 3, 4, 5, 6, 7}" using b by auto
  ultimately have "bit (0xE0 :: u32) b \<longleftrightarrow> 5 \<le> b" by blast
  then show ?thesis using b by (simp add: is_free_def bm_slot_def demo_blk demo_disk_def)
qed

lemma demo_bitmap: "fst ` bm_slot ` {..<8} = {2}"
proof -
  have "fst (bm_slot b) = 2" if "b < 8" for b using that by (simp add: bm_slot_def)
  then show ?thesis by (force simp: image_iff)
qed

lemma demo_fs_ok: "fs_ok demo_fs 8"
proof -
  have "fst (bm_slot b) < 8 \<and> \<not> is_free demo_fs (fst (bm_slot b))" if "b < 8" for b
    using that by (simp add: bm_slot_def demo_free)
  moreover have "unat (blk demo_fs 1 1) = 8" by (simp add: demo_blk demo_disk_def)
  moreover have "super_set demo_fs" "bitmap_set demo_fs" "\<forall>b. io_ok demo_fs b" by (simp_all add: demo_fs_def)
  moreover have "\<not> is_free demo_fs 0" "\<not> is_free demo_fs 1" using demo_free by simp_all
  ultimately show ?thesis unfolding fs_ok_def DISKSIZE_def BLKSIZE_def by simp
qed

lemma demo_mounted: "mounted demo_fs"
  using demo_fs_ok by (simp add: mounted_def demo_blk demo_disk_def)

lemma demo_free_set: "free_set demo_fs = {5, 6, 7}"
  using demo_free by (auto simp: free_set_def demo_blk demo_disk_def)

lemma demo_words: "f_word demo_fs (3, 0) k = (if k = 32 then 5 else if k = 34 then 4 else 0)"
  by (simp add: f_word_def demo_blk demo_disk_def)

lemma demo_bno: "bno demo_fs (3, 0) i = (if i = 0 then 4 else 0)" "ind demo_fs (3, 0) = 0"
  by (simp_all add: bno_def ind_def demo_words file_consts)

lemma demo_file: "file_inv demo_fs 8 (3, 0)"
  using demo_fs_ok demo_free by (simp add: file_inv_def demo_bno data_ok_def demo_bitmap)

lemma demo_bytes: "map (fbyte demo_fs (3, 0)) [0..<5] = [104, 101, 108, 108, 111]"
  by (simp add: upt_rec fbyte_def demo_bno demo_blk demo_disk_def get_byte_def)

section \<open>Blocks\<close>

text \<open>
  alloc_block. As many calls as there are free blocks all succeed, with distinct blocks that
  were free, and one more call fails.
\<close>

theorem alloc_block_exact:
  assumes "mounted s"
  shows "(m \<le> card (free_set s) \<longrightarrow> (\<exists>bs s'. alloc_many alloc_block m s = Some (bs, s') \<and> length bs = m
      \<and> distinct bs \<and> set bs \<subseteq> free_set s \<and> free_set s' = free_set s - set bs \<and> mounted s'))
    \<and> (card (free_set s) < m \<longrightarrow> alloc_many alloc_block m s = None)"
  using blocks.alloc_many_ok [OF assms] blocks.alloc_many_exhausts [OF assms] by blast

theorem alloc_block_exact_witness:
  "(\<exists>bs s'. alloc_many alloc_block 3 demo_fs = Some (bs, s') \<and> free_set s' = free_set demo_fs - set bs)
    \<and> alloc_many alloc_block 4 demo_fs = None"
  using alloc_block_exact [OF demo_mounted, of 3] alloc_block_exact [OF demo_mounted, of 4]
  by (auto simp: demo_free_set)

text \<open>
  alloc_block writes only the first block of the bitmap to the disk: a block from 32768 on is
  allocated in the cache, but its bit on the disk still says free.
\<close>

theorem alloc_block_high:
  assumes "fs_ok s n" and "alloc_block s = Some (Inr b, s')" and "32768 \<le> b"
    and "disk s (fst (bm_slot b)) = blk s (fst (bm_slot b))"
  shows "\<not> is_free s' b \<and> bit (disk s' (fst (bm_slot b)) (snd (bm_slot b))) (b mod 32)"
proof -
  have f: "find (is_free s) [0..<n] = Some b"
    using alloc_block_ok [OF assms(1)] assms(2) by (auto split: option.splits)
  then have s': "blk s' = bm_store s b (bm_word s b AND NOT (push_bit (b mod 32) 1))"
    "\<forall>c. c \<noteq> 2 \<longrightarrow> disk s' c = disk s c"
    using alloc_block_ok [OF assms(1)] assms(2) by auto
  have "is_free s b" using find_free_Some [OF f] by blast
  moreover have "fst (bm_slot b) \<noteq> 2" using assms(3) by (simp add: bm_slot_def div_eq_0_iff)
  ultimately show ?thesis
    using s'(2) assms(4) free_after_clear [OF s'(1)] by (simp add: is_free_def)
qed

section \<open>Reading and writing\<close>

lemma read_ok:
  assumes "file_inv s n f" and "unat (f_word s f F_SIZE) \<le> 4235264" and "unat offset \<le> 4235264"
    and "e = min (unat offset + unat count) (unat (f_word s f F_SIZE))"
  shows "\<exists>r s'. file_read f count offset s = Some (r, s') \<and> kept s s' n f
    \<and> (case r of Inl er \<Rightarrow> er = E_NO_DISK \<and> (\<exists>k. unat offset \<le> k \<and> k < e \<and> bno s f (k div 4096) = 0)
        | Inr bs \<Rightarrow> bs = map (fbyte s f) [unat offset..<e] \<and> (\<forall>k. bno s' f k = 0 \<longrightarrow> bno s f k = 0))"
proof -
  let ?sz = "f_word s f F_SIZE"
  obtain s1 where s1: "rd_w (fld f F_SIZE) s = Some (?sz, s1)" "same_fs s s1" using f_read [OF assms(1)] by blast
  have k1: "kept s s1 n f" and b1: "bno s1 f = bno s f" using same_fs_kept [OF assms(1) s1(2)] by auto
  have cmp: "sint offset \<ge> sint ?sz \<longleftrightarrow> unat ?sz \<le> unat offset"
    by (simp only: pos_small [OF assms(2)] pos_small [OF assms(3)] of_nat_le_iff)
  show ?thesis
  proof (cases "unat ?sz \<le> unat offset")
    case True
    then show ?thesis using s1(1) k1 b1 assms(4) by (auto simp: file_read_def cmp)
  next
    case False
    let ?n = "MIN_u count (?sz - offset)"
    have d: "unat (?sz - offset) = unat ?sz - unat offset" using False by (simp add: unat_sub word_le_nat_alt)
    have m: "unat ?n = min (unat count) (unat ?sz - unat offset)"
      unfolding MIN_u_def word_le_nat_alt d by (simp add: if_distrib [of unat] d min_def)
    have "unat offset + unat ?n < 2 ^ LENGTH(32)" using assms(2) False unfolding m by simp
    then have a: "unat (offset + ?n) = unat offset + unat ?n" by (rule unat_add_lem [THEN iffD1])
    have e: "unat (offset + ?n) = e" using False unfolding a m assms(4) by simp
    have "unat offset \<le> unat (offset + ?n)" unfolding a by simp
    then have b: "unat offset \<le> unat (offset + ?n)" "unat (offset + ?n) \<le> 4235264" using assms(2,4) False unfolding e by auto
    have run: "file_read f count offset s = read_loop f offset (offset + ?n) [] s1"
      using s1(1) False by (simp add: file_read_def cmp Let_def)
    have fb: "map (fbyte s1 f) [unat offset..<unat (offset + ?n)] = map (fbyte s f) [unat offset..<unat (offset + ?n)]"
      using k1 b by (simp add: kept_def)
    show ?thesis
      using read_loop_ok [OF kept_inv [OF k1] b, of "[]"] kept_trans [OF k1]
      unfolding run fb [unfolded e] e b1 by fastforce
  qed
qed

text \<open>
  C21: file_read. For a file that satisfies the invariant, it returns the bytes of the file from
  the offset on, at most \<open>count\<close> of them and none after the end, where a hole reads as
  zeros; it fails only with -E_NO_DISK, when there is a hole in the range that it has no block
  for. The contents of the file are kept.
\<close>

theorem file_read_correct:
  assumes "file_inv s n f" and "unat (f_word s f F_SIZE) \<le> 4235264" and "unat offset \<le> 4235264"
    and "e = min (unat offset + unat count) (unat (f_word s f F_SIZE))"
  shows "\<exists>r s'. file_read f count offset s = Some (r, s') \<and> kept s s' n f
    \<and> (case r of Inl er \<Rightarrow> er = E_NO_DISK \<and> (\<exists>k. unat offset \<le> k \<and> k < e \<and> bno s f (k div 4096) = 0)
        | Inr bs \<Rightarrow> bs = map (fbyte s f) [unat offset..<e])"
  using read_ok [OF assms] by (fastforce split: sum.splits)

theorem file_read_correct_witness:
  "\<exists>s'. file_read (3, 0) 100 0 demo_fs = Some (Inr [104, 101, 108, 108, 111], s')"
  using file_read_correct [OF demo_file, of 0 _ 100] demo_bytes
  by (fastforce simp: demo_words file_consts demo_bno split: sum.splits)

text \<open>A file whose size word is written.\<close>

lemma file_inv_size:
  assumes "file_inv s n f"
  shows "\<exists>s'. wr_w (fld f F_SIZE) v s = Some s' \<and> file_inv s' n f \<and> same_flags s s' \<and> bno s' f = bno s f
    \<and> f_word s' f F_SIZE = v \<and> (\<forall>k<1034 * 4096. fbyte s' f k = fbyte s f k)"
proof -
  note inv = file_invD [OF assms]
  from wr_w_upd [OF inv(1), of "fld f F_SIZE" v] inv(2,3) obtain s' where s': "wr_w (fld f F_SIZE) v s = Some s'"
    and u: "upd (fst f) ((blk s (fst f))(snd f + F_SIZE := v)) s s'" by (auto simp: fld_slot)
  have b: "blk s' = (blk s)(fst f := (blk s (fst f))(snd f + F_SIZE := v))" using u by (simp add: upd_def)
  have w: "f_word s' f k = (if k = F_SIZE then v else f_word s f k)" for k by (simp add: f_word_def b)
  have i: "ind s' f = ind s f" by (simp add: ind_def w file_consts)
  have bn: "bno s' f = bno s f"
    using inv(6) by (auto simp: bno_def i w file_consts b fun_eq_iff)
  have ok: "fs_ok s' n"
    by (rule fs_ok_upd [OF inv(1) u inv(4)]) (use inv(5) in \<open>auto simp: file_consts\<close>)
  have "data_ok s' n x = data_ok s n x" for x by (rule data_ok_upd [OF inv(1) u inv(4)])
  moreover have "is_free s' (fst f) = is_free s (fst f)" by (rule is_free_upd_in [OF u inv(4,2)])
  ultimately have "file_inv s' n f" using assms ok unfolding file_inv_def i bn by auto
  moreover have "fbyte s' f k = fbyte s f k" if "k < 1034 * 4096" for k
  proof -
    have "k div 4096 < 1034" using that by (simp add: div_less_iff_less_mult)
    then show ?thesis using inv(7) [of "k div 4096"] by (auto simp: fbyte_def bn b Let_def)
  qed
  ultimately show ?thesis using s' u bn w by (auto simp: upd_def)
qed

lemma set_size_grow:
  assumes "file_inv s n f" "unat (f_word s f F_SIZE) \<le> unat v" "unat v \<le> 4235264"
  shows "\<exists>s'. file_set_size f v s = Some s' \<and> file_inv s' n f \<and> same_flags s s' \<and> bno s' f = bno s f
    \<and> f_word s' f F_SIZE = v \<and> (\<forall>k<1034 * 4096. fbyte s' f k = fbyte s f k)"
proof -
  obtain s1 where s1: "rd_w (fld f F_SIZE) s = Some (f_word s f F_SIZE, s1)" "same_fs s s1"
    using f_read [OF assms(1)] by blast
  have k1: "kept s s1 n f" "bno s1 f = bno s f" using same_fs_kept [OF assms(1) s1(2)] by auto
  obtain s2 where s2: "wr_w (fld f F_SIZE) v s1 = Some s2" "file_inv s2 n f" "same_flags s1 s2" "bno s2 f = bno s1 f"
    "f_word s2 f F_SIZE = v" "\<forall>k<1034 * 4096. fbyte s2 f k = fbyte s1 f k"
    using file_inv_size [OF kept_inv [OF k1(1)]] by blast
  obtain s3 where s3: "flush_block (fst f) s2 = Some s3" "same_flags s2 s3" "blk s3 = blk s2"
    using flush_ok [OF file_invD(1,2) [OF s2(2)]] by blast
  note k3 = kept_same [OF s2(2) s3(2,3)] file_inv_same [OF s3(2,3)]
  have le: "unat (f_word s f F_SIZE) \<le> 4235264" using assms(2,3) by simp
  have "\<not> sint (f_word s f F_SIZE) > sint v"
    using assms(2) by (simp only: pos_small [OF le] pos_small [OF assms(3)] of_nat_less_iff not_less)
  then have "file_set_size f v s = Some s3" using s1(1) s2(1) s3(1) by (simp add: file_set_size_def)
  then show ?thesis
    using k1 s2 s3(2) k3 by (auto simp: kept_def same_flags_def)
qed

lemma write_ok:
  assumes "file_inv s n f" and "unat (f_word s f F_SIZE) \<le> 4235264"
    and "unat offset + length buf \<le> 4235264"
  shows "\<exists>r s'. file_write f buf offset s = Some (r, s') \<and> file_inv s' n f
    \<and> unat (f_word s' f F_SIZE) = max (unat (f_word s f F_SIZE)) (unat offset + length buf)
    \<and> (\<forall>k<1034 * 4096. k < unat offset \<or> unat offset + length buf \<le> k \<longrightarrow> fbyte s' f k = fbyte s f k)
    \<and> (case r of Inl er \<Rightarrow> er = E_NO_DISK
          \<and> (\<exists>k. unat offset \<le> k \<and> k < unat offset + length buf \<and> bno s f (k div 4096) = 0)
        | Inr m \<Rightarrow> unat m = length buf \<and> (\<forall>k<1034 * 4096. fbyte s' f k = written s f (unat offset) buf k)
            \<and> (\<forall>k. unat offset \<le> k \<longrightarrow> k < unat offset + length buf \<longrightarrow> bno s' f (k div 4096) \<noteq> 0))"
proof -
  let ?sz = "f_word s f F_SIZE" and ?c = "of_nat (length buf) :: u32"
  have c: "unat ?c = length buf" using assms(3) by (simp add: unat_of_nat)
  have "unat offset + unat ?c < 2 ^ LENGTH(32)" unfolding c using assms(3) by simp
  then have e: "unat (offset + ?c) = unat offset + length buf" using unat_add_lem [THEN iffD1] c by metis
  obtain s1 where s1: "rd_w (fld f F_SIZE) s = Some (?sz, s1)" "same_fs s s1" using f_read [OF assms(1)] by blast
  have k1: "kept s s1 n f" "bno s1 f = bno s f" using same_fs_kept [OF assms(1) s1(2)] by auto
  have "\<exists>s2. (if offset + ?c > ?sz then file_set_size f (offset + ?c) s1 else Some s1) = Some s2 \<and> file_inv s2 n f
    \<and> unat (f_word s2 f F_SIZE) = max (unat ?sz) (unat offset + length buf) \<and> bno s2 f = bno s f
    \<and> (\<forall>k<1034 * 4096. fbyte s2 f k = fbyte s f k)"
  proof (cases "offset + ?c > ?sz")
    case True
    then have le: "unat ?sz \<le> unat (offset + ?c)" by (simp add: word_less_nat_alt)
    then have "unat (f_word s1 f F_SIZE) \<le> unat (offset + ?c)" using k1 by (simp add: kept_def)
    from set_size_grow [OF kept_inv [OF k1(1)] this] obtain s2 where
      "file_set_size f (offset + ?c) s1 = Some s2" "file_inv s2 n f" "f_word s2 f F_SIZE = offset + ?c"
      "bno s2 f = bno s1 f"
      "\<forall>k<1034 * 4096. fbyte s2 f k = fbyte s1 f k" using assms(3) e by auto
    then show ?thesis using True le k1 unfolding e by (auto simp: kept_def max_def e)
  next
    case False
    then have "unat offset + length buf \<le> unat ?sz" using e by (simp add: word_less_nat_alt)
    then show ?thesis using False k1 by (auto simp: kept_def max_def)
  qed
  then obtain s2 where s2: "(if offset + ?c > ?sz then file_set_size f (offset + ?c) s1 else Some s1) = Some s2"
    "file_inv s2 n f" "unat (f_word s2 f F_SIZE) = max (unat ?sz) (unat offset + length buf)"
    "\<forall>k<1034 * 4096. fbyte s2 f k = fbyte s f k" "bno s2 f = bno s f" by blast
  note wl = write_loop_ok [OF s2(2) e, unfolded e, OF assms(3)]
  then obtain r s' where
    r: "write_loop f offset (offset + ?c) buf s2 = Some (r, s')" "file_inv s' n f"
    "f_word s' f F_SIZE = f_word s2 f F_SIZE"
    "\<forall>k<1034 * 4096. k < unat offset \<or> unat offset + length buf \<le> k \<longrightarrow> fbyte s' f k = fbyte s2 f k"
    "case r of Inl er \<Rightarrow> er = E_NO_DISK
          \<and> (\<exists>k. unat offset \<le> k \<and> k < unat offset + length buf \<and> bno s2 f (k div 4096) = 0)
        | Inr _ \<Rightarrow> (\<forall>k<1034 * 4096. fbyte s' f k = written s2 f (unat offset) buf k)
            \<and> (\<forall>k. unat offset \<le> k \<longrightarrow> k < unat offset + length buf \<longrightarrow> bno s' f (k div 4096) \<noteq> 0)"
    by blast
  have run: "file_write f buf offset s = Some ((case r of Inl e \<Rightarrow> Inl e | Inr _ \<Rightarrow> Inr ?c), s')"
    using s1(1) s2(1) r(1) by (simp add: file_write_def Let_def seq_def split: sum.splits)
  have w: "written s2 f (unat offset) buf k = written s f (unat offset) buf k" if "k < 1034 * 4096" for k
    using s2(4) that by (simp add: written_def)
  show ?thesis
    using run r(2-5) s2(3-5) c w by (cases r) auto
qed

text \<open>
  C20: file_write. For a file that satisfies the invariant, within the largest file size: on
  success exactly the bytes from the offset on are replaced, the file has grown to the end
  of the write if it was shorter, and every block of the range exists; it can fail only with
  -E_NO_DISK, and then no byte outside of the range has changed. The invariant is kept.
\<close>

theorem file_write_correct:
  assumes "file_inv s n f" and "unat (f_word s f F_SIZE) \<le> 4235264"
    and "unat offset + length buf \<le> 4235264"
  shows "\<exists>r s'. file_write f buf offset s = Some (r, s') \<and> file_inv s' n f
    \<and> unat (f_word s' f F_SIZE) = max (unat (f_word s f F_SIZE)) (unat offset + length buf)
    \<and> (\<forall>k<1034 * 4096. k < unat offset \<or> unat offset + length buf \<le> k \<longrightarrow> fbyte s' f k = fbyte s f k)
    \<and> (case r of Inl er \<Rightarrow> er = E_NO_DISK
          \<and> (\<exists>k. unat offset \<le> k \<and> k < unat offset + length buf \<and> bno s f (k div 4096) = 0)
        | Inr m \<Rightarrow> unat m = length buf \<and> (\<forall>k<1034 * 4096. fbyte s' f k = written s f (unat offset) buf k)
            \<and> (\<forall>k. unat offset \<le> k \<longrightarrow> k < unat offset + length buf \<longrightarrow> bno s' f (k div 4096) \<noteq> 0))"
  using assms by (rule write_ok)

theorem file_write_correct_witness:
  "\<exists>s'. file_write (3, 0) [33, 33] 4 demo_fs = Some (Inr 2, s') \<and> fbyte s' (3, 0) 3 = 108
    \<and> fbyte s' (3, 0) 5 = 33 \<and> f_word s' (3, 0) F_SIZE = 6"
proof -
  from file_write_correct [OF demo_file, of 4 "[33, 33]"] obtain r s' where
    r: "file_write (3, 0) [33, 33] 4 demo_fs = Some (r, s')" "unat (f_word s' (3, 0) F_SIZE) = 6"
    "\<forall>k<1034 * 4096. k < 4 \<or> 6 \<le> k \<longrightarrow> fbyte s' (3, 0) k = fbyte demo_fs (3, 0) k"
    "case r of Inl er \<Rightarrow> er = E_NO_DISK \<and> (\<exists>k. 4 \<le> k \<and> k < 6 \<and> bno demo_fs (3, 0) (k div 4096) = 0)
      | Inr m \<Rightarrow> unat m = 2 \<and> (\<forall>k<1034 * 4096. fbyte s' (3, 0) k = written demo_fs (3, 0) 4 [33, 33] k)"
    by (fastforce simp: demo_words file_consts split: sum.splits)
  obtain m where m: "r = Inr m" "unat m = 2" "fbyte s' (3, 0) 5 = 33"
    using r(4) by (cases r) (auto simp: demo_bno written_def)
  have "m = 2" "f_word s' (3, 0) F_SIZE = 6" using m(2) r(2) by (simp_all add: word_unat_eq_iff)
  moreover have "fbyte s' (3, 0) 3 = 108"
    using r(3) by (simp add: fbyte_def demo_bno demo_blk demo_disk_def get_byte_def)
  ultimately show ?thesis using r(1) m by auto
qed

text \<open>
  a write that succeeds can be read back: file_read of as many bytes at the same offset
  succeeds, whatever is left on the disk, and returns the bytes that were written.
\<close>

theorem file_write_read:
  assumes "file_inv s n f" and "unat (f_word s f F_SIZE) \<le> 4235264"
    and "unat offset + length buf \<le> 4235264" and "file_write f buf offset s = Some (Inr m, s1)"
  shows "\<exists>s2. file_read f m offset s1 = Some (Inr buf, s2)"
proof -
  from write_ok [OF assms(1-3)] assms(4) have w: "file_inv s1 n f" "unat m = length buf"
    "unat (f_word s1 f F_SIZE) = max (unat (f_word s f F_SIZE)) (unat offset + length buf)"
    "\<forall>k<1034 * 4096. fbyte s1 f k = written s f (unat offset) buf k"
    "\<forall>k. unat offset \<le> k \<longrightarrow> k < unat offset + length buf \<longrightarrow> bno s1 f (k div 4096) \<noteq> 0" by auto
  let ?e = "unat offset + length buf"
  have e: "?e = min (unat offset + unat m) (unat (f_word s1 f F_SIZE))" using w(2,3) by simp
  have "unat (f_word s1 f F_SIZE) \<le> 4235264" "unat offset \<le> 4235264" using w(3) assms(2,3) by simp_all
  from read_ok [OF w(1) this e] obtain r s2 where r: "file_read f m offset s1 = Some (r, s2)"
    "case r of Inl er \<Rightarrow> er = E_NO_DISK \<and> (\<exists>k. unat offset \<le> k \<and> k < ?e \<and> bno s1 f (k div 4096) = 0)
        | Inr bs \<Rightarrow> bs = map (fbyte s1 f) [unat offset..<?e]" by (fastforce split: sum.splits)
  then have "r = Inr (map (fbyte s1 f) [unat offset..<?e])" using w(5) by (cases r) auto
  moreover have "map (fbyte s1 f) [unat offset..<?e] = buf"
    by (rule nth_equalityI) (use w(4) assms(3) in \<open>simp_all add: written_def\<close>)
  ultimately show ?thesis using r(1) by simp
qed

theorem file_write_read_witness:
  "\<exists>s1 s2. file_write (3, 0) [33, 33] 4 demo_fs = Some (Inr 2, s1) \<and> file_read (3, 0) 2 4 s1 = Some (Inr [33, 33], s2)"
proof -
  from write_ok [OF demo_file, of 4 "[33, 33]"] obtain r s1 where
    r: "file_write (3, 0) [33, 33] 4 demo_fs = Some (r, s1)"
    "case r of Inl er \<Rightarrow> er = E_NO_DISK \<and> (\<exists>k. 4 \<le> k \<and> k < 6 \<and> bno demo_fs (3, 0) (k div 4096) = 0)
      | Inr m \<Rightarrow> unat m = 2" by (fastforce simp: demo_words file_consts split: sum.splits)
  obtain m where w: "file_write (3, 0) [33, 33] 4 demo_fs = Some (Inr m, s1)" "unat m = 2"
    using r by (cases r) (auto simp: demo_bno)
  have "m = 2" using w(2) by (simp add: word_unat_eq_iff)
  with w(1) file_write_read [OF demo_file, of 4 "[33, 33]" m s1] show ?thesis
    by (auto simp: demo_words file_consts)
qed

section \<open>Synchronisation\<close>

text \<open>A block that is cached and not dirty is as on the disk.\<close>

definition clean_ok :: "fs \<Rightarrow> bool" where
  "clean_ok s \<longleftrightarrow> (\<forall>b c. cache s b = Some c \<longrightarrow> \<not> dirty s b \<longrightarrow> disk s b = c)"

lemma clean_access: "bc_access m b s = Some s' \<Longrightarrow> clean_ok s \<Longrightarrow> clean_ok s'"
proof (induction m arbitrary: b s s')
  case (Suc m)
  let ?s1 = "s\<lparr>cache := (cache s)(b \<mapsto> disk s b), dirty := (dirty s)(b := True)\<rparr>"
  have c1: "clean_ok ?s1" using Suc.prems(2) by (auto simp: clean_ok_def)
  show ?case
    using Suc.prems c1 Suc.IH by (fastforce simp: Let_def bind_Some_iff split: if_splits)
qed simp

lemma clean_diskaddr: "diskaddr b s = Some (d, s') \<Longrightarrow> clean_ok s \<Longrightarrow> clean_ok s'"
  using clean_access
  by (fastforce simp: diskaddr_def s_nblocks_def rd_w_def touch_def bind_Some_iff split: if_splits)

lemma flush_writes:
  assumes "fs_ok s n" "b < n" "clean_ok s" "flush_block b s = Some s'"
  shows "disk s' b = blk s b \<and> clean_ok s'"
  using assms by (auto simp: flush_block_def va_is_mapped_def va_is_dirty_def clean_ok_def blk_def bind_Some_iff
      split: if_splits option.splits)

lemma sync_loop_ok:
  assumes "fs_ok s n" "clean_ok s" "\<forall>b \<in> set bs. 0 < b \<and> b < n"
  shows "\<exists>s'. sync_loop bs s = Some s' \<and> fs_ok s' n \<and> clean_ok s' \<and> blk s' = blk s
    \<and> (\<forall>b. disk s' b = (if b \<in> set bs then blk s b else disk s b))"
  using assms
proof (induction bs arbitrary: s)
  case Nil
  then show ?case by simp
next
  case (Cons b bs)
  from diskaddr_ok [OF Cons.prems(1), of b] Cons.prems(3) obtain s1 where
    s1: "diskaddr b s = Some (b, s1)" "same_fs s s1" by auto
  note sf = same_fs_flags [OF s1(2)]
  have ok1: "fs_ok s1 n" "clean_ok s1"
    using fs_ok_same [OF s1(2)] Cons.prems(1,2) clean_diskaddr [OF s1(1)] by auto
  from flush_ok [OF ok1(1), of b] Cons.prems(3) obtain s2 where s2: "flush_block b s1 = Some s2"
    "same_flags s1 s2" "blk s2 = blk s1" "\<forall>c. c \<noteq> b \<longrightarrow> disk s2 c = disk s1 c" by auto
  have f: "disk s2 b = blk s1 b" "clean_ok s2"
    using flush_writes [OF ok1(1) _ ok1(2) s2(1)] Cons.prems(3) by auto
  have "fs_ok s2 n" using fs_ok_cong [OF s2(2,3)] ok1(1) by blast
  from Cons.IH [OF this f(2)] Cons.prems(3) obtain s3 where "sync_loop bs s2 = Some s3" "fs_ok s3 n"
    "clean_ok s3" "blk s3 = blk s2" "\<forall>c. disk s3 c = (if c \<in> set bs then blk s2 c else disk s2 c)" by auto
  then show ?case using s1(1) s2 f(1) sf by auto
qed

text \<open>
  fs_sync. On a mounted file system it succeeds, changes no contents, and afterwards every
  block but the boot block is on the disk as the file server sees it.
\<close>

theorem fs_sync_flushes:
  assumes "fs_ok s n" and "clean_ok s"
  shows "\<exists>s'. fs_sync s = Some s' \<and> blk s' = blk s \<and> (\<forall>b. 0 < b \<and> b < n \<longrightarrow> disk s' b = blk s b)
    \<and> disk s' 0 = disk s 0"
proof -
  obtain s1 where s1: "s_nblocks s = Some (n, s1)" "same_fs s s1" using s_nblocks_ok [OF assms(1)] by blast
  note sf = same_fs_flags [OF s1(2)]
  have "fs_ok s1 n" "clean_ok s1"
    using fs_ok_same [OF s1(2)] assms clean_access s1(1)
    by (auto simp: s_nblocks_def rd_w_def touch_def bind_Some_iff)
  from sync_loop_ok [OF this, of "[1..<n]"] s1(1) sf show ?thesis by (auto simp: fs_sync_def)
qed

theorem fs_sync_flushes_witness:
  "\<exists>s'. fs_sync (demo_fs\<lparr>cache := [4 \<mapsto> (\<lambda>_. 7)], dirty := (\<lambda>_. True)\<rparr>) = Some s' \<and> disk s' 4 = (\<lambda>_. 7)"
proof -
  let ?s = "demo_fs\<lparr>cache := [4 \<mapsto> (\<lambda>_. 7)], dirty := (\<lambda>_. True)\<rparr>"
  have b: "blk ?s = (blk demo_fs)(4 := \<lambda>_. 7)" by (rule ext) (simp add: blk_def demo_fs_def)
  have "upd 4 (\<lambda>_. 7) demo_fs ?s" by (simp add: upd_def same_flags_def b)
  then have "fs_ok ?s 8" using fs_ok_upd [OF demo_fs_ok] demo_bitmap by auto
  moreover have "clean_ok ?s" by (simp add: clean_ok_def)
  ultimately have "\<exists>s'. fs_sync ?s = Some s' \<and> blk s' = blk ?s \<and> (\<forall>b. 0 < b \<and> b < 8 \<longrightarrow> disk s' b = blk ?s b)
    \<and> disk s' 0 = disk ?s 0" by (rule fs_sync_flushes)
  then show ?thesis unfolding b by auto
qed

end
