(* ===== verification/Serv_Spec.thy ===== *)
theory Serv_Spec
  imports Serv Fs_Spec
begin

text \<open>
  The properties of the file server's table of open files and of its request handlers
  (fs/serv.c): which entry an open takes, that the ids of earlier opens go stale, that every
  request keeps the table well formed, and how reads and writes move the seek position.
\<close>

unbundle bit_operations_syntax

section \<open>A small server\<close>

text \<open>Entry 0 of the table has the file of \<open>demo_fs\<close> open, for one client; the rest was never opened.\<close>

definition demo_serv :: serv where
  "demo_serv = \<lparr>s_fs = demo_fs,
     opentab = (\<lambda>i. \<lparr>o_fileid = of_nat i, o_file = None, o_mode = 0\<rparr>)(
       0 := \<lparr>o_fileid = 1024, o_file = Some (3, 0), o_mode = 2\<rparr>),
     fdpage = (\<lambda>_. Fd_zero)(0 := \<lparr>fd_dev_id = 102, fd_offset = 0, fd_omode = 2, fd_file_id = 1024\<rparr>),
     fdref = (\<lambda>_. 0)(0 := 2), can_map = (\<lambda>_. True)\<rparr>"

text \<open>A request page with an id and a number of bytes; the rest is zero.\<close>

definition demo_req :: "u32 \<Rightarrow> u32 \<Rightarrow> page" where
  "demo_req fid m = put_word 4 m (put_word 0 fid (\<lambda>_. 0))"

lemma req_put_same [simp]: "req_word (put_word k w pg) k = w"
  using join_bytes [of w] by (simp add: req_word_def put_word_def)

lemma req_put_other [simp]: "k + 4 \<le> j \<or> j + 4 \<le> k \<Longrightarrow> req_word (put_word j w pg) k = req_word pg k"
  by (auto simp: req_word_def put_word_def)

lemma demo_req_words [simp]: "req_word (demo_req fid m) 0 = fid" "req_word (demo_req fid m) 4 = m"
  by (simp_all add: demo_req_def)

section \<open>The table of open files\<close>

text \<open>The id of entry \<open>i\<close> is \<open>i\<close> modulo the size of the table.\<close>

definition serv_ok :: "serv \<Rightarrow> bool" where
  "serv_ok s \<longleftrightarrow> (\<forall>i<MAXOPEN. o_fileid (opentab s i) mod of_nat MAXOPEN = of_nat i)"

text \<open>An entry that no client has open.\<close>

definition available :: "serv \<Rightarrow> nat \<Rightarrow> bool" where
  "available s i \<longleftrightarrow> fdref s i \<le> 1"

lemma small_mod: "i < 1024 \<Longrightarrow> (of_nat i :: u32) mod 1024 = of_nat i"
  by (simp add: word_unat_eq_iff unat_mod_distrib unat_of_nat)

lemma serve_init_ok: "serv_ok (serve_init s)"
  by (simp add: serv_ok_def serve_init_def MAXOPEN_def small_mod)

lemma add_mod_1024: "((x :: u32) + 1024) mod 1024 = x mod 1024"
proof -
  have "(unat x + 1024) mod 4294967296 mod 1024 = unat x mod 1024"
    by (subst mod_mod_cancel) (simp_all add: dvd_def)
  then show ?thesis by (simp add: word_unat_eq_iff unat_mod_distrib unat_word_ariths)
qed

lemma openfile_loop_find:
  "openfile_loop is s =
     (case find (available s) is of
        None \<Rightarrow> (Inl E_MAX_OPEN, s)
      | Some i \<Rightarrow>
          if fdref s i = 0 \<and> \<not> can_map s i then (Inl E_NO_MEM, s)
          else open_entry i (s\<lparr>fdref := (fdref s)(i := 1)\<rparr>))"
proof (induction "is")
  case (Cons i "is")
  have "s\<lparr>fdref := (fdref s)(i := 1)\<rparr> = s" if "fdref s i = 1"
  proof -
    have "(fdref s)(i := 1) = fdref s" using that by auto
    then show ?thesis by simp
  qed
  with Cons show ?case by (auto simp: available_def)
qed simp

lemma find_upto_Some:
  "find P [0..<n] = Some i \<longleftrightarrow> i < n \<and> P i \<and> (\<forall>j<i. \<not> P j)"
  by (auto simp: find_Some_iff)

text \<open>
  openfile_alloc takes the first entry of the table that no client has open, gives it the id
  that follows the last one of this entry, and clears its Fd page; without such an entry, or
  without memory for the Fd page, it fails and nothing changes.
\<close>

theorem openfile_alloc_first:
  "case openfile_alloc s of
     (Inr i, s') \<Rightarrow> i < MAXOPEN \<and> available s i \<and> (\<forall>j<i. \<not> available s j)
        \<and> o_fileid (opentab s' i) = o_fileid (opentab s i) + 1024 \<and> fdref s' i = 1
        \<and> fdpage s' i = Fd_zero \<and> s_fs s' = s_fs s
        \<and> (\<forall>j. j \<noteq> i \<longrightarrow> opentab s' j = opentab s j \<and> fdref s' j = fdref s j \<and> fdpage s' j = fdpage s j)
   | (Inl e, s') \<Rightarrow> s' = s
        \<and> (if e = E_NO_MEM then \<exists>i<MAXOPEN. fdref s i = 0 \<and> \<not> can_map s i
           else e = E_MAX_OPEN \<and> (\<forall>i<MAXOPEN. \<not> available s i))"
proof (cases "find (available s) [0..<MAXOPEN]")
  case None
  then have "openfile_alloc s = (Inl E_MAX_OPEN, s)"
    by (simp add: openfile_alloc_def openfile_loop_find)
  with None show ?thesis by (auto simp: find_None_iff)
next
  case (Some i)
  then have "openfile_alloc s = (if fdref s i = 0 \<and> \<not> can_map s i then (Inl E_NO_MEM, s)
      else open_entry i (s\<lparr>fdref := (fdref s)(i := 1)\<rparr>))"
    by (simp add: openfile_alloc_def openfile_loop_find)
  with Some show ?thesis
    by (auto simp: find_upto_Some open_entry_def set_open_def MAXOPEN_def Let_def)
qed

lemma openfile_alloc_ok: "openfile_alloc s = (r, s') \<Longrightarrow> serv_ok s \<Longrightarrow> serv_ok s'"
  by (auto simp: openfile_alloc_def openfile_loop_find open_entry_def set_open_def serv_ok_def
      MAXOPEN_def Let_def add_mod_1024 split: option.splits if_splits)

lemma lookup_index:
  assumes "fid mod 1024 = (of_nat i :: u32)" and "i < 1024"
  shows "openfile_lookup fid s = (if fdref s i = 1 \<or> o_fileid (opentab s i) \<noteq> fid then Inl E_INVAL else Inr i)"
proof -
  have "unat (fid mod 1024) = i" using assms by (simp add: unat_of_nat)
  then show ?thesis by (simp add: openfile_lookup_def MAXOPEN_def)
qed

lemma lookup_InrD:
  assumes "openfile_lookup fid s = Inr i"
  shows "i < 1024" "fdref s i \<noteq> 1" "o_fileid (opentab s i) = fid"
  using assms by (auto simp: openfile_lookup_def MAXOPEN_def Let_def unat_mod_distrib split: if_splits)

lemma alloc_InrD:
  assumes "openfile_alloc s = (Inr i, s')"
  shows "i < 1024" "o_fileid (opentab s' i) = o_fileid (opentab s i) + 1024" "s_fs s' = s_fs s"
    "fdref s' i = 1" "fdpage s' i = Fd_zero"
  using assms by (auto simp: openfile_alloc_def openfile_loop_find find_upto_Some open_entry_def
      set_open_def MAXOPEN_def Let_def split: option.splits if_splits)

text \<open>
  once an open has reused an entry, the id of the file that had it before is refused, and the
  new id names the entry as soon as a client maps its Fd page.
\<close>

theorem openfile_stale:
  assumes "serv_ok s" and "openfile_alloc s = (Inr i, s')" and "opentab t i = opentab s' i"
  shows "openfile_lookup (o_fileid (opentab s i)) t = Inl E_INVAL
    \<and> (2 \<le> fdref t i \<longrightarrow> openfile_lookup (o_fileid (opentab s i) + 1024) t = Inr i)"
proof -
  note al = alloc_InrD [OF assms(2)]
  have m: "o_fileid (opentab s i) mod 1024 = of_nat i"
    using assms(1) al(1) by (simp add: serv_ok_def MAXOPEN_def)
  then have m': "(o_fileid (opentab s i) + 1024) mod 1024 = of_nat i" by (simp add: add_mod_1024)
  show ?thesis
    using lookup_index [OF m al(1), of t] lookup_index [OF m' al(1), of t] al(2) assms(3) by auto
qed

theorem openfile_stale_witness:
  "openfile_lookup 1 (snd (openfile_alloc demo_serv)) = Inl E_INVAL"
proof -
  have "serv_ok demo_serv" by (auto simp: serv_ok_def demo_serv_def MAXOPEN_def small_mod)
  moreover have "openfile_alloc demo_serv = (Inr 1, snd (openfile_alloc demo_serv))"
    by (simp add: openfile_alloc_def MAXOPEN_def upt_rec [of 0] upt_rec [of "Suc 0"] demo_serv_def
        open_entry_def set_open_def Let_def)
  ultimately show ?thesis
    using openfile_stale [of demo_serv 1 "snd (openfile_alloc demo_serv)" "snd (openfile_alloc demo_serv)"]
    by (simp add: demo_serv_def)
qed

section \<open>Every request keeps the table\<close>

lemma fs_only: "on_fs p s = Some (r, s') \<Longrightarrow> \<exists>f. s' = s\<lparr>s_fs := f\<rparr>"
  by (auto simp: on_fs_def split: option.splits)

lemma serv_ok_cong: "(\<And>i. o_fileid (opentab s' i) = o_fileid (opentab s i)) \<Longrightarrow> serv_ok s' = serv_ok s"
  by (simp add: serv_ok_def)

lemma on_fs_ok: "on_fs p s = Some (r, s') \<Longrightarrow> serv_ok s' = serv_ok s"
  using fs_only [of p s r s'] by (auto simp: serv_ok_def)

lemma fd_put_ok: "fd_put i fd s = Some s' \<Longrightarrow> serv_ok s' = serv_ok s"
  by (auto simp: fd_put_def serv_ok_def split: if_splits)

lemma open_file_ok: "open_file path m s = Some (r, s') \<Longrightarrow> serv_ok s' = serv_ok s"
  by (auto simp: open_file_def bind_Some_iff case_sum_Some dest!: on_fs_ok split: if_splits)

lemma serve_open_ok:
  assumes "serve_open pg s = Some (r, pg', m, s')" and "serv_ok s"
  shows "serv_ok s'"
proof -
  obtain q s1 where al: "openfile_alloc s = (q, s1)" by (cases "openfile_alloc s")
  note s1 = openfile_alloc_ok [OF al assms(2)]
  have set: "serv_ok (set_open j ((opentab t j)\<lparr>o_file := g\<rparr>) t) = serv_ok t"
    "serv_ok (set_open j ((opentab t j)\<lparr>o_mode := h\<rparr>) t) = serv_ok t" for j t g h
    by (auto simp: serv_ok_def set_open_def)
  show ?thesis
    using assms(1) s1
    by (auto simp: serve_open_def Let_def al fail_def bind_Some_iff case_sum_Some set
        dest!: open_file_ok on_fs_ok fd_put_ok split: if_splits)
qed

lemma handlers_ok:
  assumes "handlers c = Some h" and "h pg s = Some (r, pg', m, s')" and "serv_ok s"
  shows "serv_ok s'"
proof -
  have [simp]: "serv_ok (s\<lparr>s_fs := f\<rparr>) = serv_ok s" for f by (simp add: serv_ok_def)
  have lo: "with_open fid pg s k = Some (r, pg', m, s') \<Longrightarrow> (\<And>i. k i = Some (r, pg', m, s') \<Longrightarrow> serv_ok s') \<Longrightarrow> serv_ok s'"
    for fid k using assms(3) by (auto simp: with_open_def fail_def split: sum.splits)
  have "serve_set_size pg s = Some (r, pg', m, s') \<Longrightarrow> serv_ok s'"
    unfolding serve_set_size_def by (erule lo) (use assms(3) in \<open>auto simp: bind_Some_iff case_sum_Some dest!: on_fs_ok\<close>)
  moreover have "serve_read pg s = Some (r, pg', m, s') \<Longrightarrow> serv_ok s'"
    unfolding serve_read_def
    by (erule lo) (use assms(3) in \<open>auto simp: bind_Some_iff case_sum_Some fail_def dest!: on_fs_ok fd_put_ok split: sum.splits\<close>)
  moreover have "serve_write pg s = Some (r, pg', m, s') \<Longrightarrow> serv_ok s'"
    unfolding serve_write_def
    by (erule lo) (use assms(3) in \<open>auto simp: bind_Some_iff case_sum_Some fail_def dest!: on_fs_ok fd_put_ok split: sum.splits\<close>)
  moreover have "serve_stat pg s = Some (r, pg', m, s') \<Longrightarrow> serv_ok s'"
    unfolding serve_stat_def by (erule lo) (use assms(3) in \<open>auto simp: bind_Some_iff case_sum_Some\<close>)
  moreover have "serve_flush pg s = Some (r, pg', m, s') \<Longrightarrow> serv_ok s'"
    unfolding serve_flush_def by (erule lo) (use assms(3) in \<open>auto simp: bind_Some_iff case_sum_Some dest!: on_fs_ok\<close>)
  moreover have "serve_remove pg s = Some (r, pg', m, s') \<Longrightarrow> serv_ok s'"
    using assms(3) by (auto simp: serve_remove_def bind_Some_iff case_sum_Some fail_def dest!: on_fs_ok)
  moreover have "serve_sync pg s = Some (r, pg', m, s') \<Longrightarrow> serv_ok s'"
    using assms(3) by (auto simp: serve_sync_def bind_Some_iff case_sum_Some dest!: on_fs_ok)
  ultimately show ?thesis using assms(1,2) by (auto simp: handlers_def split: if_splits)
qed

lemma share_fd_ok [simp]: "serv_ok (share_fd m a s) = serv_ok s"
  by (auto simp: share_fd_def serv_ok_def split: option.splits)

lemma serve_step_ok: "serve_step rq s = Some (m, s') \<Longrightarrow> serv_ok s \<Longrightarrow> serv_ok s'"
  by (auto simp: serve_step_def bind_Some_iff fail_def Let_def dest: serve_open_ok handlers_ok
      split: if_splits option.splits)

section \<open>Requests and clients\<close>

text \<open>
  What happens to the table: a request arrives; a client that has the Fd page of entry \<open>i\<close> maps it once
  more (fork, spawn or dup), drops a mapping (close or exit), or writes into it (seek); and the memory
  that the kernel has for Fd pages changes. Clients do nothing to an entry that none of them has.
\<close>

datatype event = EvRequest request | EvDup nat | EvUnmap nat | EvStore nat Fd | EvMemory "nat \<Rightarrow> bool"

fun serve_event :: "event \<Rightarrow> serv \<Rightarrow> serv option" where
  "serve_event (EvRequest rq) s = (case serve_step rq s of None \<Rightarrow> None | Some (_, s1) \<Rightarrow> Some s1)"
| "serve_event (EvDup i) s = Some (if 2 \<le> fdref s i then s\<lparr>fdref := (fdref s)(i := fdref s i + 1)\<rparr> else s)"
| "serve_event (EvUnmap i) s = Some (if 2 \<le> fdref s i then s\<lparr>fdref := (fdref s)(i := fdref s i - 1)\<rparr> else s)"
| "serve_event (EvStore i fd) s = Some (if 2 \<le> fdref s i then s\<lparr>fdpage := (fdpage s)(i := fd)\<rparr> else s)"
| "serve_event (EvMemory f) s = Some (s\<lparr>can_map := f\<rparr>)"

text \<open>The server after a sequence of events; \<open>None\<close> when it panics.\<close>

fun serve_many :: "event list \<Rightarrow> serv \<Rightarrow> serv option" where
  "serve_many [] s = Some s"
| "serve_many (e # es) s = (case serve_event e s of None \<Rightarrow> None | Some s1 \<Rightarrow> serve_many es s1)"

text \<open>Besides the ids: an entry that a client has open is in the table and has a file.\<close>

definition table_ok :: "serv \<Rightarrow> bool" where
  "table_ok s \<longleftrightarrow> serv_ok s \<and> (\<forall>i. 2 \<le> fdref s i \<longrightarrow> i < MAXOPEN \<and> o_file (opentab s i) \<noteq> None)"

text \<open>A file operation or a handler leaves the table and the counts alone; an open changes one free entry.\<close>

definition table_same :: "serv \<Rightarrow> serv \<Rightarrow> bool" where
  "table_same s s' \<longleftrightarrow> opentab s' = opentab s \<and> fdref s' = fdref s"

lemma table_same_simps [simp]: "table_same s s" "table_same s (s1\<lparr>s_fs := f\<rparr>) = table_same s s1"
  by (simp_all add: table_same_def)

lemma on_fs_table: "on_fs p s = Some (r, s') \<Longrightarrow> table_same s1 s' = table_same s1 s"
  using fs_only [of p s r s'] by auto

lemma fd_put_table: "fd_put i fd s = Some s' \<Longrightarrow> table_same s1 s' = table_same s1 s"
  by (auto simp: fd_put_def table_same_def split: if_splits)

lemma open_file_table: "open_file path m s = Some (r, s') \<Longrightarrow> table_same s s'"
  by (auto simp: open_file_def bind_Some_iff case_sum_Some on_fs_table split: if_splits)

lemma handlers_table:
  assumes "handlers c = Some h" and "h pg s = Some (r, pg', m, s')"
  shows "table_same s s' \<and> m = None"
proof -
  have lo: "with_open fid pg s k = Some (r, pg', m, s') \<Longrightarrow> (\<And>i. k i = Some (r, pg', m, s') \<Longrightarrow> table_same s s' \<and> m = None)
    \<Longrightarrow> table_same s s' \<and> m = None" for fid k
    by (auto simp: with_open_def fail_def split: sum.splits)
  note u = bind_Some_iff case_sum_Some fail_def on_fs_table fd_put_table
  have "serve_set_size pg s = Some (r, pg', m, s') \<Longrightarrow> table_same s s' \<and> m = None"
    unfolding serve_set_size_def by (erule lo) (auto simp: u)
  moreover have "serve_read pg s = Some (r, pg', m, s') \<Longrightarrow> table_same s s' \<and> m = None"
    unfolding serve_read_def by (erule lo) (auto simp: u split: sum.splits)
  moreover have "serve_write pg s = Some (r, pg', m, s') \<Longrightarrow> table_same s s' \<and> m = None"
    unfolding serve_write_def by (erule lo) (auto simp: u split: sum.splits)
  moreover have "serve_stat pg s = Some (r, pg', m, s') \<Longrightarrow> table_same s s' \<and> m = None"
    unfolding serve_stat_def by (erule lo) (auto simp: u)
  moreover have "serve_flush pg s = Some (r, pg', m, s') \<Longrightarrow> table_same s s' \<and> m = None"
    unfolding serve_flush_def by (erule lo) (auto simp: u)
  moreover have "serve_remove pg s = Some (r, pg', m, s') \<Longrightarrow> table_same s s' \<and> m = None"
    by (auto simp: serve_remove_def u)
  moreover have "serve_sync pg s = Some (r, pg', m, s') \<Longrightarrow> table_same s s' \<and> m = None"
    by (auto simp: serve_sync_def u)
  ultimately show ?thesis using assms by (auto simp: handlers_def split: if_splits)
qed

text \<open>An open changes an entry that no client has; only on success its Fd page goes to the client.\<close>

lemma serve_open_table:
  assumes "serve_open pg s = Some (r, pg', m, s')"
  shows "table_same s s' \<and> m = None
    \<or> (\<exists>i<MAXOPEN. fdref s i \<le> 1 \<and> (\<forall>j. j \<noteq> i \<longrightarrow> opentab s' j = opentab s j)
        \<and> fdref s' = (fdref s)(i := 1) \<and> (m = None \<or> m = Some i \<and> o_file (opentab s' i) \<noteq> None))"
proof -
  obtain q s1 where al: "openfile_alloc s = (q, s1)" by (cases "openfile_alloc s")
  show ?thesis
  proof (cases q)
    case (Inl e)
    with openfile_alloc_first [of s] al have "s1 = s" by simp
    with assms al Inl show ?thesis by (simp add: serve_open_def fail_def)
  next
    case (Inr i)
    have a: "i < MAXOPEN" "fdref s i \<le> 1" "\<forall>j. j \<noteq> i \<longrightarrow> opentab s1 j = opentab s j" "fdref s1 = (fdref s)(i := 1)"
      using openfile_alloc_first [of s] al Inr by (auto simp: available_def)
    have "(\<forall>j. j \<noteq> i \<longrightarrow> opentab s' j = opentab s1 j) \<and> fdref s' = fdref s1
        \<and> (m = None \<or> m = Some i \<and> o_file (opentab s' i) \<noteq> None)"
      using assms Inr
      by (auto simp: serve_open_def Let_def al fail_def bind_Some_iff case_sum_Some set_open_def fd_put_def
          dest!: open_file_table fs_only split: if_splits)
        (auto simp: table_same_def)
    with a show ?thesis by auto
  qed
qed

lemma serve_step_table:
  assumes "serve_step rq s = Some (m, s')" and ok: "table_ok s"
  shows "table_ok s' \<and> (\<forall>i. 2 \<le> fdref s i \<longrightarrow> opentab s' i = opentab s i \<and> fdref s' i = fdref s i)"
proof -
  have sv: "serv_ok s'" using serve_step_ok [OF assms(1)] ok by (simp add: table_ok_def)
  have same: ?thesis if "table_same s s'" using that sv ok by (simp add: table_same_def table_ok_def)
  show ?thesis
  proof (cases "rq_perm rq AND 1 = 0")
    case True
    then show ?thesis using same assms(1) by (simp add: serve_step_def)
  next
    case False
    then obtain r pg fd s1 where run: "(if rq_code rq = FSREQ_OPEN then serve_open (rq_page rq) s
        else case handlers (rq_code rq) of Some h \<Rightarrow> h (rq_page rq) s | None \<Rightarrow> fail E_INVAL (rq_page rq) s)
        = Some (r, pg, fd, s1)"
      and s': "s' = share_fd fd (rq_accepts rq) s1"
      using assms(1) by (auto simp: serve_step_def bind_Some_iff Let_def)
    have "table_same s s1 \<and> fd = None
      \<or> (\<exists>i<MAXOPEN. fdref s i \<le> 1 \<and> (\<forall>j. j \<noteq> i \<longrightarrow> opentab s1 j = opentab s j)
        \<and> fdref s1 = (fdref s)(i := 1) \<and> (fd = None \<or> fd = Some i \<and> o_file (opentab s1 i) \<noteq> None))"
    proof (cases "rq_code rq = FSREQ_OPEN")
      case True
      with run serve_open_table [of "rq_page rq" s r pg fd s1] show ?thesis by simp
    next
      case no: False
      show ?thesis
      proof (cases "handlers (rq_code rq)")
        case None
        with run no show ?thesis by (simp add: fail_def)
      next
        case (Some h)
        with run no handlers_table [OF Some] show ?thesis by simp
      qed
    qed
    then show ?thesis
    proof (elim disjE exE conjE)
      assume "table_same s s1" "fd = None"
      then show ?thesis using same s' by (simp add: share_fd_def)
    next
      fix i assume n: "i < MAXOPEN" "fdref s i \<le> 1" "\<forall>j. j \<noteq> i \<longrightarrow> opentab s1 j = opentab s j"
        "fdref s1 = (fdref s)(i := 1)" "fd = None"
      then have "opentab s' = opentab s1" "fdref s' = (fdref s)(i := 1)" using s' by (simp_all add: share_fd_def)
      with n sv ok show ?thesis by (auto simp: table_ok_def)
    next
      fix i assume n: "i < MAXOPEN" "fdref s i \<le> 1" "\<forall>j. j \<noteq> i \<longrightarrow> opentab s1 j = opentab s j"
        "fdref s1 = (fdref s)(i := 1)" "fd = Some i" "o_file (opentab s1 i) \<noteq> None"
      then have "opentab s' = opentab s1" "fdref s' = (fdref s)(i := (if rq_accepts rq then 2 else 1))"
        using s' by (simp_all add: share_fd_def numeral_2_eq_2)
      with n sv ok show ?thesis by (auto simp: table_ok_def)
    qed
  qed
qed

lemma serve_event_table:
  assumes "serve_event e s = Some s'" and "table_ok s"
  shows "table_ok s' \<and> (\<forall>i. 2 \<le> fdref s i \<longrightarrow> opentab s' i = opentab s i)"
proof (cases e)
  case (EvRequest rq)
  then show ?thesis using assms serve_step_table [of rq s _ s'] by (auto split: option.splits)
qed (use assms in \<open>auto simp: table_ok_def serv_ok_def split: if_splits\<close>)

lemma serve_many_table: "serve_many es s = Some s' \<Longrightarrow> table_ok s \<Longrightarrow> table_ok s'"
  by (induction es arbitrary: s) (auto dest: serve_event_table split: option.splits)

lemma table_lookup: "table_ok s \<Longrightarrow> 2 \<le> fdref s i \<Longrightarrow> openfile_lookup (o_fileid (opentab s i)) s = Inr i"
  using lookup_index [of "o_fileid (opentab s i)" i s] by (auto simp: table_ok_def serv_ok_def MAXOPEN_def)

text \<open>
  C30: the table of open files after serve_init, when no client has any Fd page yet, and after any sequence of
  requests, successful or not, with clients in between that map, unmap and write their Fd pages. The id of entry
  \<open>i\<close> is \<open>i\<close> modulo the size of the table. Every entry that a client has open has a file, so that the handlers
  never follow a null \<open>o_file\<close> for it, and its id leads to it. Whatever happens next, such an
  entry keeps its id and its file: opens reuse only the entries that all clients have unmapped.
\<close>

theorem serve_table_invariant:
  assumes "\<forall>i. fdref s i \<le> 1" and "serve_many es (serve_init s) = Some s1"
  shows "(\<forall>i<MAXOPEN. o_fileid (opentab s1 i) mod of_nat MAXOPEN = of_nat i)
    \<and> (\<forall>i. 2 \<le> fdref s1 i \<longrightarrow> i < MAXOPEN \<and> o_file (opentab s1 i) \<noteq> None
        \<and> openfile_lookup (o_fileid (opentab s1 i)) s1 = Inr i)
    \<and> (\<forall>e s2 i. serve_event e s1 = Some s2 \<and> 2 \<le> fdref s1 i \<longrightarrow> opentab s2 i = opentab s1 i)"
proof -
  have "\<not> 2 \<le> fdref (serve_init s) i" for i using assms(1) [rule_format, of i] by (simp add: serve_init_def)
  then have "table_ok (serve_init s)" using serve_init_ok [of s] by (simp add: table_ok_def)
  from serve_many_table [OF assms(2) this] have ok: "table_ok s1" .
  with table_lookup [OF ok] serve_event_table [OF _ ok] show ?thesis
    by (auto simp: table_ok_def serv_ok_def)
qed

text \<open>The root is opened, closed and opened again: the second open reuses entry 0 with the next id.\<close>

definition demo_open :: request where
  "demo_open = \<lparr>rq_code = FSREQ_OPEN, rq_whom = 0x1001, rq_perm = 7, rq_page = (\<lambda>_. 0)(0 := 47), rq_accepts = True\<rparr>"

definition demo_closed :: serv where
  "demo_closed = demo_serv\<lparr>fdref := \<lambda>_. 0\<rparr>"

lemma demo_open_step:
  assumes "fdref s 0 \<le> 1" and "can_map s 0" and "0 \<le> sint (o_fileid (opentab s 0) + 1024)"
  shows "\<exists>m s1. serve_step demo_open s = Some (m, s1) \<and> fdref s1 = (fdref s)(0 := 2) \<and> can_map s1 = can_map s
    \<and> opentab s1 0 = \<lparr>o_fileid = o_fileid (opentab s 0) + 1024, o_file = Some s_root, o_mode = 0\<rparr>"
proof -
  let ?pg = "(\<lambda>_. 0)(0 := 47) :: page"
  have p: "req_path ?pg = [47]" by (simp add: req_path_def MAXPATHLEN_def upt_rec [of 0] upt_rec [of "Suc 0"])
  have w: "req_word ?pg 1024 = 0" by (simp add: req_word_def)
  have f: "file_open [47] h = Some (Inr s_root, h)" for h
    by (simp add: file_open_def walk_path_def skip_slash_def walk_loop.simps [of "[]"])
  have a: "openfile_alloc s = open_entry 0 (s\<lparr>fdref := (fdref s)(0 := 1)\<rparr>)"
    using assms(1,2) by (simp add: openfile_alloc_def openfile_loop_find MAXOPEN_def upt_rec [of 0] available_def)
  show ?thesis
    using assms(3)
    by (simp add: serve_step_def demo_open_def serve_open_def p w a open_entry_def set_open_def open_file_def on_fs_def f
        fd_get_def fd_put_def share_fd_def MAXOPEN_def MAXPATHLEN_def Let_def not_less [symmetric]
        numeral_2_eq_2)
qed

theorem serve_table_invariant_witness:
  "\<exists>s1. serve_many [EvRequest demo_open, EvUnmap 0, EvRequest demo_open] (serve_init demo_closed) = Some s1
    \<and> fdref s1 0 = 2 \<and> o_file (opentab s1 0) = Some s_root
    \<and> openfile_lookup 2048 s1 = Inr 0 \<and> openfile_lookup 1024 s1 = Inl E_INVAL"
proof -
  let ?s = "serve_init demo_closed"
  obtain s1 where s1: "serve_many [EvRequest demo_open, EvUnmap 0, EvRequest demo_open] ?s = Some s1"
    "fdref s1 0 = 2" "o_file (opentab s1 0) = Some s_root" "o_fileid (opentab s1 0) = 2048"
  proof -
    have i: "fdref ?s = (\<lambda>_. 0)" "can_map ?s 0" "o_fileid (opentab ?s 0) = 0"
      by (simp_all add: demo_closed_def demo_serv_def serve_init_def MAXOPEN_def)
    obtain m t1 where t1: "serve_step demo_open ?s = Some (m, t1)" "fdref t1 0 = 2" "can_map t1 0"
      "opentab t1 0 = \<lparr>o_fileid = 1024, o_file = Some s_root, o_mode = 0\<rparr>"
      using demo_open_step [of ?s] i by auto
    let ?t = "t1\<lparr>fdref := (fdref t1)(0 := 1)\<rparr>"
    obtain m' s1 where "serve_step demo_open ?t = Some (m', s1)" "fdref s1 0 = 2"
      "opentab s1 0 = \<lparr>o_fileid = 2048, o_file = Some s_root, o_mode = 0\<rparr>"
      using demo_open_step [of ?t] t1 by auto
    with t1 that show thesis by simp
  qed
  have "\<forall>i. fdref demo_closed i \<le> 1" by (simp add: demo_closed_def)
  from serve_table_invariant [OF this s1(1)] have "2 \<le> fdref s1 0 \<longrightarrow> openfile_lookup (o_fileid (opentab s1 0)) s1 = Inr 0"
    by blast
  with s1(2,4) have "openfile_lookup 2048 s1 = Inr 0" by simp
  with s1 show ?thesis by (simp add: openfile_lookup_def MAXOPEN_def)
qed

section \<open>Files as byte lists\<close>

text \<open>The abstraction of a file: its bytes, and what a write does to them.\<close>

definition contents :: "fs \<Rightarrow> fptr \<Rightarrow> u8 list" where
  "contents s f = map (fbyte s f) [0..<unat (f_word s f F_SIZE)]"

definition overwrite :: "nat \<Rightarrow> 'a list \<Rightarrow> 'a list \<Rightarrow> 'a list" where
  "overwrite p bs c = take p c @ bs @ drop (p + length bs) c"

text \<open>A byte from \<open>a\<close> to \<open>b\<close> lies in a block that the file does not have.\<close>

definition hole :: "fs \<Rightarrow> fptr \<Rightarrow> nat \<Rightarrow> nat \<Rightarrow> bool" where
  "hole s f a b \<longleftrightarrow> (\<exists>k. a \<le> k \<and> k < b \<and> bno s f (k div 4096) = 0)"

definition file_ok :: "fs \<Rightarrow> nat \<Rightarrow> fptr \<Rightarrow> bool" where
  "file_ok s n f \<longleftrightarrow> file_inv s n f \<and> unat (f_word s f F_SIZE) \<le> 4235264"

lemma contents_length [simp]: "length (contents s f) = unat (f_word s f F_SIZE)"
  by (simp add: contents_def)

lemma contents_slice: "take m (drop p (contents s f)) = map (fbyte s f) [p..<min (p + m) (length (contents s f))]"
  by (simp add: contents_def drop_map take_map drop_upt take_upt min_def)

lemma file_okD: "file_ok s n f \<Longrightarrow> file_inv s n f" "file_ok s n f \<Longrightarrow> length (contents s f) \<le> 4235264"
  by (simp_all add: file_ok_def)

lemma kept_contents: "kept s s' n f \<Longrightarrow> file_ok s n f \<Longrightarrow> file_ok s' n f \<and> contents s' f = contents s f"
  by (auto simp: kept_def file_ok_def contents_def)

lemma read_contents:
  assumes "file_ok s n f" and "unat p \<le> 4235264"
  shows "\<exists>r s'. file_read f m p s = Some (r, s') \<and> file_ok s' n f \<and> contents s' f = contents s f
    \<and> (r = Inl E_NO_DISK \<and> hole s f (unat p) (min (unat p + unat m) (length (contents s f)))
      \<or> r = Inr (take (unat m) (drop (unat p) (contents s f))) \<and> (\<forall>a b. hole s' f a b \<longrightarrow> hole s f a b))"
proof -
  note ok = assms(1) [unfolded file_ok_def]
  from read_ok [of s n f p _ m] ok assms(2) obtain r s' where "file_read f m p s = Some (r, s')" "kept s s' n f"
    "case r of Inl er \<Rightarrow> er = E_NO_DISK
        \<and> (\<exists>k. unat p \<le> k \<and> k < min (unat p + unat m) (unat (f_word s f F_SIZE)) \<and> bno s f (k div 4096) = 0)
      | Inr bs \<Rightarrow> bs = map (fbyte s f) [unat p..<min (unat p + unat m) (unat (f_word s f F_SIZE))]
        \<and> (\<forall>k. bno s' f k = 0 \<longrightarrow> bno s f k = 0)"
    by blast
  then show ?thesis using kept_contents [of s s' n f] assms(1)
    by (cases r) (fastforce simp: contents_slice hole_def)+
qed

text \<open>
  After a write of the bytes from \<open>a\<close> to \<open>b\<close> that failed: the file may have grown to \<open>b\<close>, and
  the bytes before \<open>a\<close> and from \<open>b\<close> on are what they were.
\<close>

definition outside_same :: "fs \<Rightarrow> fs \<Rightarrow> fptr \<Rightarrow> nat \<Rightarrow> nat \<Rightarrow> bool" where
  "outside_same s s' f a b \<longleftrightarrow> length (contents s' f) = max (length (contents s f)) b
     \<and> take a (contents s' f) = take a (contents s f) \<and> drop b (contents s' f) = drop b (contents s f)"

lemma outside_sameI:
  assumes "unat (f_word s' f F_SIZE) = max (unat (f_word s f F_SIZE)) b" and "unat (f_word s' f F_SIZE) \<le> N"
    and "\<forall>k<N. k < a \<or> b \<le> k \<longrightarrow> fbyte s' f k = fbyte s f k" and "a \<le> length (contents s f)"
  shows "outside_same s s' f a b"
  unfolding outside_same_def
proof (intro conjI)
  show "length (contents s' f) = max (length (contents s f)) b" using assms(1) by simp
  show "take a (contents s' f) = take a (contents s f)"
    using assms by (auto simp: contents_def take_map take_upt)
  show "drop b (contents s' f) = drop b (contents s f)"
    using assms(1-3) by (cases "b \<le> unat (f_word s f F_SIZE)") (auto simp: contents_def drop_map max_def)
qed

lemma write_contents:
  assumes "file_ok s n f" and "unat p \<le> length (contents s f)" and "unat p + length bs \<le> 4235264"
  shows "\<exists>r s'. file_write f bs p s = Some (r, s') \<and> file_ok s' n f
    \<and> (r = Inl E_NO_DISK \<and> hole s f (unat p) (unat p + length bs)
        \<and> outside_same s s' f (unat p) (unat p + length bs)
      \<or> r = Inr (of_nat (length bs)) \<and> contents s' f = overwrite (unat p) bs (contents s f)
      \<and> \<not> hole s' f (unat p) (unat p + length bs))"
proof -
  note ok = assms(1) [unfolded file_ok_def]
  from write_ok [of s n f p bs] ok assms(3) obtain r s' where w: "file_write f bs p s = Some (r, s')" "file_inv s' n f"
    "unat (f_word s' f F_SIZE) = max (unat (f_word s f F_SIZE)) (unat p + length bs)"
    "\<forall>k<1034 * 4096. k < unat p \<or> unat p + length bs \<le> k \<longrightarrow> fbyte s' f k = fbyte s f k"
    "case r of Inl er \<Rightarrow> er = E_NO_DISK
          \<and> (\<exists>k. unat p \<le> k \<and> k < unat p + length bs \<and> bno s f (k div 4096) = 0)
        | Inr m \<Rightarrow> unat m = length bs \<and> (\<forall>k<1034 * 4096. fbyte s' f k = written s f (unat p) bs k)
          \<and> (\<forall>k. unat p \<le> k \<longrightarrow> k < unat p + length bs \<longrightarrow> bno s' f (k div 4096) \<noteq> 0)"
    by (fastforce split: sum.splits)
  have "contents s' f = overwrite (unat p) bs (contents s f)"
    if "\<forall>k<1034 * 4096. fbyte s' f k = written s f (unat p) bs k"
  proof (rule nth_equalityI)
    show "length (contents s' f) = length (overwrite (unat p) bs (contents s f))"
      using w(3) assms(2) by (simp add: overwrite_def)
  next
    fix k assume "k < length (contents s' f)"
    then have "k < 1034 * 4096" "k < max (length (contents s f)) (unat p + length bs)"
      using w(3) ok assms(3) by auto
    then show "contents s' f ! k = overwrite (unat p) bs (contents s f) ! k"
      using that w(3) assms(2)
      by (auto simp: contents_def overwrite_def written_def nth_append max_def split: if_splits)
  qed
  moreover have "outside_same s s' f (unat p) (unat p + length bs)"
    using w(3,4) ok assms(2,3) by (intro outside_sameI) auto
  ultimately show ?thesis
    using w(1-3,5) ok assms(3) by (cases r) (auto simp: file_ok_def hole_def word_unat_eq_iff unat_of_nat)
qed

section \<open>Reads and writes\<close>

text \<open>The id \<open>fid\<close> names entry \<open>i\<close>, which a client has open, with the file \<open>f\<close>.\<close>

definition opened :: "serv \<Rightarrow> u32 \<Rightarrow> nat \<Rightarrow> nat \<Rightarrow> fptr \<Rightarrow> bool" where
  "opened s fid i n f \<longleftrightarrow> openfile_lookup fid s = Inr i \<and> 2 \<le> fdref s i \<and> o_file (opentab s i) = Some f
     \<and> file_ok (s_fs s) n f"

text \<open>The state after the server advanced the seek position of entry \<open>i\<close>.\<close>

definition advanced :: "nat \<Rightarrow> nat \<Rightarrow> fs \<Rightarrow> serv \<Rightarrow> serv" where
  "advanced i m g s = s\<lparr>s_fs := g,
     fdpage := (fdpage s)(i := (fdpage s i)\<lparr>fd_offset := fd_offset (fdpage s i) + of_nat m\<rparr>)\<rparr>"

lemma advanced_fields [simp]:
  "s_fs (advanced i m g s) = g" "opentab (advanced i m g s) = opentab s"
  "fdref (advanced i m g s) = fdref s" "can_map (advanced i m g s) = can_map s"
  "fd_offset (fdpage (advanced i m g s) i) = fd_offset (fdpage s i) + of_nat m"
  "fd_file_id (fdpage (advanced i m g s) j) = fd_file_id (fdpage s j)"
  "fd_omode (fdpage (advanced i m g s) j) = fd_omode (fdpage s j)"
  "fd_dev_id (fdpage (advanced i m g s) j) = fd_dev_id (fdpage s j)"
  by (simp_all add: advanced_def)

lemma lookup_cong: "opentab s' = opentab s \<Longrightarrow> fdref s' = fdref s \<Longrightarrow> openfile_lookup fid s' = openfile_lookup fid s"
  by (simp add: openfile_lookup_def)

lemma opened_advanced:
  "opened s fid i n f \<Longrightarrow> file_ok g n f \<Longrightarrow> opened (advanced i m g s) fid i n f"
  using lookup_cong [of "advanced i m g s" s fid] by (simp add: opened_def)

lemma opened_fs: "opened s fid i n f \<Longrightarrow> file_ok g n f \<Longrightarrow> opened (s\<lparr>s_fs := g\<rparr>) fid i n f"
  using lookup_cong [of "s\<lparr>s_fs := g\<rparr>" s fid] by (simp add: opened_def)

lemma demo_contents: "contents demo_fs (3, 0) = [104, 101, 108, 108, 111]"
  using demo_bytes by (simp add: contents_def demo_words file_consts)

lemma demo_file_ok: "file_ok demo_fs 8 (3, 0)"
  using demo_file by (simp add: file_ok_def demo_words file_consts)

lemma demo_opened: "opened demo_serv 1024 0 8 (3, 0)"
  using demo_file_ok by (simp add: opened_def demo_serv_def openfile_lookup_def MAXOPEN_def)

lemma clamp_unat: "unat (clamp m) = min 4096 (unat m)"
  by (simp add: clamp_def word_less_nat_alt)

lemma serve_read_ok:
  assumes op: "opened s (req_word pg 0) i n f" and off: "unat (fd_offset (fdpage s i)) \<le> 4235264"
    and bs: "bs = take (min 4096 (unat (req_word pg 4))) (drop (unat (fd_offset (fdpage s i))) (contents (s_fs s) f))"
  shows "\<exists>g. file_ok g n f \<and> contents g f = contents (s_fs s) f
    \<and> (serve_read pg s = Some (ret_err E_NO_DISK, pg, None, s\<lparr>s_fs := g\<rparr>)
        \<and> hole (s_fs s) f (unat (fd_offset (fdpage s i))) (unat (fd_offset (fdpage s i)) + length bs)
      \<or> serve_read pg s = Some (of_nat (length bs), put_bytes bs pg, None, advanced i (length bs) g s)
        \<and> (\<forall>a b. hole g f a b \<longrightarrow> hole (s_fs s) f a b))"
proof -
  let ?fd = "fdpage s i"
  from op have o': "openfile_lookup (req_word pg 0) s = Inr i" "fdref s i \<noteq> 0" "o_file (opentab s i) = Some f"
    "file_ok (s_fs s) n f" by (auto simp: opened_def)
  from read_contents [OF o'(4) off, of "clamp (req_word pg 4)"] obtain r g where
    g: "file_read f (clamp (req_word pg 4)) (fd_offset ?fd) (s_fs s) = Some (r, g)" "file_ok g n f"
      "contents g f = contents (s_fs s) f"
      "r = Inl E_NO_DISK \<and> hole (s_fs s) f (unat (fd_offset ?fd)) (min (unat (fd_offset ?fd)
          + min 4096 (unat (req_word pg 4))) (length (contents (s_fs s) f)))
        \<or> r = Inr bs \<and> (\<forall>a b. hole g f a b \<longrightarrow> hole (s_fs s) f a b)"
    unfolding clamp_unat bs [symmetric] by blast
  have e: "hole (s_fs s) f (unat (fd_offset ?fd)) (unat (fd_offset ?fd) + length bs)"
    if "hole (s_fs s) f (unat (fd_offset ?fd)) (min (unat (fd_offset ?fd)
          + min 4096 (unat (req_word pg 4))) (length (contents (s_fs s) f)))"
    using that unfolding hole_def bs by (auto simp: min_def split: if_splits)
  have fd: "fd_get i s = Some ?fd" using o'(2) by (simp add: fd_get_def)
  have rd: "on_fs (file_read f (clamp (req_word pg 4)) (fd_offset ?fd)) s = Some (r, s\<lparr>s_fs := g\<rparr>)"
    by (simp add: on_fs_def g(1))
  show ?thesis
    using g(2-4) o'(2) e by (intro exI [of _ g])
      (auto simp: serve_read_def with_open_def o'(1,3) fd rd fail_def fd_put_def advanced_def)
qed

lemma serve_write_ok:
  assumes op: "opened s (req_word pg 0) i n f"
    and len: "unat (req_word pg 4) \<le> 4088"
    and off: "unat (fd_offset (fdpage s i)) \<le> length (contents (s_fs s) f)"
    and max: "unat (fd_offset (fdpage s i)) + unat (req_word pg 4) \<le> 4235264"
    and bs: "bs = map pg [8..<8 + unat (req_word pg 4)]"
  shows "\<exists>g. file_ok g n f
    \<and> (serve_write pg s = Some (ret_err E_NO_DISK, pg, None, s\<lparr>s_fs := g\<rparr>)
        \<and> hole (s_fs s) f (unat (fd_offset (fdpage s i))) (unat (fd_offset (fdpage s i)) + length bs)
        \<and> outside_same (s_fs s) g f (unat (fd_offset (fdpage s i))) (unat (fd_offset (fdpage s i)) + length bs)
      \<or> serve_write pg s = Some (of_nat (length bs), pg, None, advanced i (length bs) g s)
        \<and> contents g f = overwrite (unat (fd_offset (fdpage s i))) bs (contents (s_fs s) f)
        \<and> \<not> hole g f (unat (fd_offset (fdpage s i))) (unat (fd_offset (fdpage s i)) + length bs))"
proof -
  let ?fd = "fdpage s i"
  from op have o': "openfile_lookup (req_word pg 0) s = Inr i" "fdref s i \<noteq> 0" "o_file (opentab s i) = Some f"
    "file_ok (s_fs s) n f" by (auto simp: opened_def)
  have wd: "write_data pg (unat (clamp (req_word pg 4))) (s_fs s) = Some (bs, s_fs s)"
    using len by (simp add: clamp_unat write_data_def bs min_def)
  have "unat (fd_offset ?fd) + length bs \<le> 4235264" using max by (simp add: bs)
  from write_contents [OF o'(4) off this] obtain r g where
    g: "file_write f bs (fd_offset ?fd) (s_fs s) = Some (r, g)" "file_ok g n f"
      "r = Inl E_NO_DISK \<and> hole (s_fs s) f (unat (fd_offset ?fd)) (unat (fd_offset ?fd) + length bs)
        \<and> outside_same (s_fs s) g f (unat (fd_offset ?fd)) (unat (fd_offset ?fd) + length bs)
        \<or> r = Inr (of_nat (length bs))
        \<and> contents g f = overwrite (unat (fd_offset ?fd)) bs (contents (s_fs s) f)
        \<and> \<not> hole g f (unat (fd_offset ?fd)) (unat (fd_offset ?fd) + length bs)" by blast
  have fd: "fd_get i s = Some ?fd" using o'(2) by (simp add: fd_get_def)
  have wr: "on_fs (file_write f bs (fd_offset ?fd)) s = Some (r, s\<lparr>s_fs := g\<rparr>)"
    by (simp add: on_fs_def g(1))
  have "s\<lparr>s_fs := s_fs s\<rparr> = s" by simp
  then show ?thesis
    using g(2,3) o'(2) by (intro exI [of _ g])
      (auto simp: serve_write_def with_open_def o'(1,3) fd wd wr fail_def fd_put_def advanced_def)
qed

text \<open>
  a read request on an open file returns at most a page of the bytes of the file from the seek
  position on, puts them at the start of the request page and advances the seek position by their
  number; the file is unchanged. Only when a hole cannot be filled because the disk is full is the
  reply -E_NO_DISK, and the seek position stays.
\<close>

theorem serve_read_correct:
  assumes "opened s (req_word pg 0) i n f" and "unat (fd_offset (fdpage s i)) \<le> 4235264"
    and "bs = take (min 4096 (unat (req_word pg 4))) (drop (unat (fd_offset (fdpage s i))) (contents (s_fs s) f))"
  shows "\<exists>g. file_ok g n f \<and> contents g f = contents (s_fs s) f
    \<and> (serve_read pg s = Some (ret_err E_NO_DISK, pg, None, s\<lparr>s_fs := g\<rparr>)
        \<and> hole (s_fs s) f (unat (fd_offset (fdpage s i))) (unat (fd_offset (fdpage s i)) + length bs)
      \<or> serve_read pg s = Some (of_nat (length bs), put_bytes bs pg, None, advanced i (length bs) g s))"
  using serve_read_ok [OF assms] by blast

theorem serve_read_correct_witness:
  "\<exists>r pg s'. serve_read (demo_req 1024 100) demo_serv = Some (r, pg, None, s')
    \<and> (r = 5 \<longrightarrow> map pg [0..<5] = [104, 101, 108, 108, 111] \<and> fd_offset (fdpage s' 0) = 5)"
proof -
  have o': "fd_offset (fdpage demo_serv 0) = 0" "s_fs demo_serv = demo_fs" by (simp_all add: demo_serv_def)
  have "ret_err E_NO_DISK \<noteq> 5" by (simp add: ret_err_def)
  then show ?thesis
    using serve_read_correct [of demo_serv "demo_req 1024 100" 0 8 "(3, 0)"] demo_opened
    by (auto simp: demo_contents o' put_bytes_def upt_rec)
qed

text \<open>
  C33: a write request of at most 4088 bytes on an open file, at a seek position inside of the
  file or at its end, replaces the bytes there, extends the file if it must, and advances the seek
  position, and all the blocks of the range exist. The only other reply is -E_NO_DISK, and only when
  some block of the range did not exist before; then the seek position stays, and the bytes of the
  file before and after the range are what they were, though its size may already be the larger one.
\<close>

theorem serve_write_correct:
  assumes "opened s (req_word pg 0) i n f" and "unat (req_word pg 4) \<le> 4088"
    and "unat (fd_offset (fdpage s i)) \<le> length (contents (s_fs s) f)"
    and "unat (fd_offset (fdpage s i)) + unat (req_word pg 4) \<le> 4235264"
    and "bs = map pg [8..<8 + unat (req_word pg 4)]"
  shows "\<exists>g. file_ok g n f
    \<and> (serve_write pg s = Some (ret_err E_NO_DISK, pg, None, s\<lparr>s_fs := g\<rparr>)
        \<and> hole (s_fs s) f (unat (fd_offset (fdpage s i))) (unat (fd_offset (fdpage s i)) + length bs)
        \<and> outside_same (s_fs s) g f (unat (fd_offset (fdpage s i))) (unat (fd_offset (fdpage s i)) + length bs)
      \<or> serve_write pg s = Some (of_nat (length bs), pg, None, advanced i (length bs) g s)
        \<and> contents g f = overwrite (unat (fd_offset (fdpage s i))) bs (contents (s_fs s) f)
        \<and> \<not> hole g f (unat (fd_offset (fdpage s i))) (unat (fd_offset (fdpage s i)) + length bs))"
  using assms by (rule serve_write_ok)

text \<open>The file has a block, so the write succeeds.\<close>

theorem serve_write_correct_witness:
  "\<exists>g. serve_write (demo_req 1024 2) demo_serv = Some (2, demo_req 1024 2, None, advanced 0 2 g demo_serv)
    \<and> contents g (3, 0) = [0, 0, 108, 108, 111]"
proof -
  have o': "fd_offset (fdpage demo_serv 0) = 0" "s_fs demo_serv = demo_fs" by (simp_all add: demo_serv_def)
  have b: "map (demo_req 1024 2) [8..<8 + unat (2 :: u32)] = [0, 0]"
    by (simp add: demo_req_def put_word_def upt_rec)
  have "\<not> hole demo_fs (3, 0) 0 2" by (auto simp: hole_def demo_bno)
  then show ?thesis
    using serve_write_correct [of demo_serv "demo_req 1024 2" 0 8 "(3, 0)" "[0, 0]"] demo_opened b
    by (auto simp: demo_contents o' overwrite_def simp flip: numeral_2_eq_2)
qed

section \<open>Errors\<close>

text \<open>The handlers that name an open file by the id at the start of the request.\<close>

definition by_fileid :: "u32 \<Rightarrow> bool" where
  "by_fileid c \<longleftrightarrow> c \<in> {FSREQ_SET_SIZE, FSREQ_READ, FSREQ_WRITE, FSREQ_STAT, FSREQ_FLUSH}"

text \<open>
  a request with a page and a code the server does not know, or with an id that
  openfile_lookup refuses, is answered with -E_INVAL and changes nothing; a request without a page is
  dropped.
\<close>

theorem serve_refuses:
  assumes "rq_perm rq AND 1 = 0 \<or> rq_code rq \<noteq> FSREQ_OPEN \<and> handlers (rq_code rq) = None
    \<or> by_fileid (rq_code rq) \<and> openfile_lookup (req_word (rq_page rq) 0) s = Inl E_INVAL"
  shows "serve_step rq s = Some (if rq_perm rq AND 1 = 0 then None
      else Some (\<lparr>m_to = rq_whom rq, m_value = ret_err E_INVAL, m_fd = None, m_perm = rq_perm rq\<rparr>, rq_page rq), s)"
  using assms
  by (auto simp: serve_step_def fail_def share_fd_def by_fileid_def handlers_def with_open_def fsreq_defs
      serve_set_size_def serve_read_def serve_write_def serve_stat_def serve_flush_def)

theorem serve_refuses_witness:
  "\<exists>rq. rq_perm rq = 7 \<and> rq_code rq = 9 \<and> serve_step rq demo_serv
    = Some (Some (\<lparr>m_to = rq_whom rq, m_value = ret_err E_INVAL, m_fd = None, m_perm = 7\<rparr>, rq_page rq), demo_serv)"
  using serve_refuses [of "\<lparr>rq_code = 9, rq_whom = 0x1001, rq_perm = 7, rq_page = demo_req 0 0, rq_accepts = True\<rparr>" demo_serv]
  by (intro exI [of _ "\<lparr>rq_code = 9, rq_whom = 0x1001, rq_perm = 7, rq_page = demo_req 0 0, rq_accepts = True\<rparr>"])
    (simp add: handlers_def fsreq_defs)

text \<open>
  a request that names an entry of the table that was never opened passes openfile_lookup, as
  the Fd page of the entry has no references, and makes the server fault on its null file
  pointer: any client can bring the file server down.
\<close>

theorem serve_unopened_faults:
  assumes "s0 = serve_init s" and "unat (req_word (rq_page rq) 0) < MAXOPEN"
    and "fdref s (unat (req_word (rq_page rq) 0)) = 0" and "o_file (opentab s (unat (req_word (rq_page rq) 0))) = None"
    and "by_fileid (rq_code rq)" and "rq_perm rq AND 1 \<noteq> 0"
  shows "openfile_lookup (req_word (rq_page rq) 0) s0 = Inr (unat (req_word (rq_page rq) 0))
    \<and> serve_step rq s0 = None"
proof -
  let ?w = "req_word (rq_page rq) 0"
  have i: "unat ?w < 1024" using assms(2) by (simp add: MAXOPEN_def)
  have t: "opentab s0 (unat ?w) = (opentab s (unat ?w))\<lparr>o_fileid := ?w\<rparr>" "fdref s0 = fdref s"
    using i assms(1) by (simp_all add: serve_init_def MAXOPEN_def)
  have "?w mod 1024 = of_nat (unat ?w)" using i by (simp add: word_unat_eq_iff unat_mod_distrib)
  from lookup_index [OF this i, of s0] have l: "openfile_lookup ?w s0 = Inr (unat ?w)" using t assms(3) by simp
  moreover have "serve_step rq s0 = None"
    using assms(4,5,6) l t
    by (auto simp: serve_step_def by_fileid_def handlers_def with_open_def fsreq_defs
      serve_set_size_def serve_read_def serve_write_def serve_stat_def serve_flush_def)
  ultimately show ?thesis by blast
qed

theorem serve_unopened_faults_witness:
  "serve_step \<lparr>rq_code = FSREQ_READ, rq_whom = 0x1001, rq_perm = 7, rq_page = demo_req 5 10, rq_accepts = True\<rparr>
     (serve_init demo_serv) = None"
  using serve_unopened_faults [of "serve_init demo_serv" demo_serv
      "\<lparr>rq_code = FSREQ_READ, rq_whom = 0x1001, rq_perm = 7, rq_page = demo_req 5 10, rq_accepts = True\<rparr>"]
  by (simp add: demo_serv_def MAXOPEN_def by_fileid_def)

end
