(* ===== verification/File_Client_Spec.thy ===== *)
theory File_Client_Spec
  imports File_Client Serv_Spec
begin

text \<open>
  The properties of the file descriptors (lib/fd.c, lib/file.c) composed with the file server:
  what a program writes it reads back, \<open>readn\<close> returns a file whole, duplicates share the seek
  position, and the descriptor that an open takes.
\<close>

unbundle bit_operations_syntax

section \<open>Arithmetic\<close>

lemma not_neg_small: "m \<le> 4235264 \<Longrightarrow> \<not> neg (of_nat m)"
  using pos_small [of "of_nat m"] by (simp add: neg_def unat_of_nat)

lemma neg_ret_err [simp]: "neg (ret_err e)"
  by (cases e) (simp_all add: neg_def ret_err_def)

lemma sint_nonneg:
  assumes "0 \<le> sint (w :: u32)"
  shows "sint w = int (unat w)"
proof -
  have "sint w = uint w - 4294967296 * of_bool (bit (uint w) 31)"
    using take_bit_int_eq_self [of "uint w" 32] uint_lt2p [of w]
    by (simp add: sint_uint signed_take_bit_eq_take_bit_minus)
  moreover have "uint w < 4294967296" using uint_lt2p [of w] by simp
  ultimately show ?thesis using assms by (cases "bit (uint w) 31") simp_all
qed

section \<open>Requests\<close>

text \<open>A request other than an open, whose handler answers without a page.\<close>

lemma fsipc_handler:
  assumes "handlers t = Some h" "t \<noteq> FSREQ_OPEN" "h (fsipcbuf c) (c_serv c) = Some (r, pg, None, s1)"
  shows "fsipc t va c = Some (r, c\<lparr>c_serv := s1, fsipcbuf := pg\<rparr>)"
  using assms by (simp add: fsipc_def serve_step_def share_fd_def Let_def)

lemma handlers_simps [simp]:
  "handlers FSREQ_READ = Some serve_read" "handlers FSREQ_WRITE = Some serve_write"
  "FSREQ_READ \<noteq> FSREQ_OPEN" "FSREQ_WRITE \<noteq> FSREQ_OPEN"
  by (simp_all add: handlers_def fsreq_defs)

text \<open>Descriptor \<open>fdnum\<close> of the program names entry \<open>i\<close> of the server, open with the file \<open>f\<close>.\<close>

definition opened_fd :: "client \<Rightarrow> u32 \<Rightarrow> nat \<Rightarrow> nat \<Rightarrow> fptr \<Rightarrow> bool" where
  "opened_fd c fdnum i n f \<longleftrightarrow> unat fdnum < MAXFD \<and> umap c (INDEX2FD fdnum) = Some (Fd_page i)
     \<and> fd_dev_id (fdpage (c_serv c) i) = 102
     \<and> opened (c_serv c) (fd_file_id (fdpage (c_serv c) i)) i n f"

abbreviation file_bytes :: "client \<Rightarrow> fptr \<Rightarrow> u8 list" where
  "file_bytes c f \<equiv> contents (s_fs (c_serv c)) f"

abbreviation file_hole :: "client \<Rightarrow> fptr \<Rightarrow> nat \<Rightarrow> nat \<Rightarrow> bool" where
  "file_hole c f \<equiv> hole (s_fs (c_serv c)) f"

abbreviation seek_pos :: "client \<Rightarrow> nat \<Rightarrow> nat" where
  "seek_pos c i \<equiv> unat (fd_offset (fdpage (c_serv c) i))"

text \<open>The program after a request that moved the seek position of entry \<open>i\<close> by \<open>m\<close>.\<close>

definition moved :: "nat \<Rightarrow> nat \<Rightarrow> fs \<Rightarrow> page \<Rightarrow> client \<Rightarrow> client" where
  "moved i m g pg c = c\<lparr>c_serv := advanced i m g (c_serv c), fsipcbuf := pg\<rparr>"

lemma moved_fields [simp]:
  "s_fs (c_serv (moved i m g pg c)) = g" "umap (moved i m g pg c) = umap c"
  "fd_offset (fdpage (c_serv (moved i m g pg c)) i) = fd_offset (fdpage (c_serv c) i) + of_nat m"
  "fd_omode (fdpage (c_serv (moved i m g pg c)) i) = fd_omode (fdpage (c_serv c) i)"
  by (simp_all add: moved_def)

lemma opened_moved:
  "opened_fd c fdnum i n f \<Longrightarrow> file_ok g n f \<Longrightarrow> opened_fd (moved i m g pg c) fdnum i n f"
  by (simp add: opened_fd_def moved_def opened_advanced)

lemma fd_small: "unat (fdnum :: u32) < MAXFD \<Longrightarrow> 0 \<le> sint fdnum \<and> sint fdnum < int MAXFD"
proof -
  assume "unat fdnum < MAXFD"
  moreover from this have "sint fdnum = int (unat fdnum)" by (intro pos_small) (simp add: MAXFD_def)
  ultimately show ?thesis by (metis of_nat_0_le_iff of_nat_less_iff)
qed

lemma opened_lookup:
  assumes "opened_fd c fdnum i n f"
  shows "fd_lookup fdnum c = Inr (INDEX2FD fdnum)" "get_fd (INDEX2FD fdnum) c = Some (fdpage (c_serv c) i)"
    "with_fd fdnum c k err = Some (k (INDEX2FD fdnum) (fdpage (c_serv c) i))"
proof -
  have s: "\<not> sint fdnum < 0" "\<not> sint fdnum \<ge> int MAXFD" using assms fd_small [of fdnum] by (auto simp: opened_fd_def)
  then show l: "fd_lookup fdnum c = Inr (INDEX2FD fdnum)"
    using assms unfolding fd_lookup_def by (simp add: opened_fd_def)
  show g: "get_fd (INDEX2FD fdnum) c = Some (fdpage (c_serv c) i)"
    using assms by (simp add: opened_fd_def get_fd_def)
  show "with_fd fdnum c k err = Some (k (INDEX2FD fdnum) (fdpage (c_serv c) i))"
    using l g assms by (simp add: with_fd_def dev_lookup_def opened_fd_def)
qed

lemma read_fd_ok:
  assumes op: "opened_fd c fdnum i n f" and mode: "fd_omode (fdpage (c_serv c) i) AND O_ACCMODE \<noteq> O_WRONLY"
    and off: "seek_pos c i \<le> 4235264"
    and bs: "bs = take (min 4096 (unat k)) (drop (seek_pos c i) (file_bytes c f))"
  shows "\<exists>g pg. file_ok g n f \<and> contents g f = file_bytes c f
    \<and> (file_hole c f (seek_pos c i) (seek_pos c i + length bs)
        \<and> (\<exists>c'. read_fd fdnum k c = Some (ret_err E_NO_DISK, [], c'))
      \<or> read_fd fdnum k c = Some (of_nat (length bs), bs, moved i (length bs) g pg c)
        \<and> (\<forall>a b. hole g f a b \<longrightarrow> file_hole c f a b))"
proof -
  let ?s = "c_serv c" and ?fd = "fdpage (c_serv c) i"
  let ?pg = "put_word 4 k (put_word 0 (fd_file_id ?fd) (fsipcbuf c))"
  let ?c = "c\<lparr>fsipcbuf := ?pg\<rparr>"
  have "opened ?s (req_word ?pg 0) i n f" using op by (simp add: opened_fd_def)
  from serve_read_ok [OF this off] obtain g where g: "file_ok g n f" "contents g f = file_bytes c f"
    "serve_read ?pg ?s = Some (ret_err E_NO_DISK, ?pg, None, ?s\<lparr>s_fs := g\<rparr>)
        \<and> file_hole c f (seek_pos c i) (seek_pos c i + length bs)
      \<or> serve_read ?pg ?s = Some (of_nat (length bs), put_bytes bs ?pg, None, advanced i (length bs) g ?s)
        \<and> (\<forall>a b. hole g f a b \<longrightarrow> file_hole c f a b)"
    using bs by auto
  have l: "length bs \<le> 4096" by (simp add: bs)
  then have u: "unat (of_nat (length bs) :: u32) = length bs" "\<not> neg (of_nat (length bs))"
    using not_neg_small [of "length bs"] by (simp_all add: unat_of_nat)
  have run: "read_fd fdnum k c = devfile_read (INDEX2FD fdnum) k c"
    using mode by (simp add: read_fd_def opened_lookup [OF op])
  note ipc = fsipc_handler [OF handlers_simps(1,3), of ?c]
  have bytes: "map (put_bytes bs ?pg) [0..<length bs] = bs"
    by (rule nth_equalityI) (simp_all add: put_bytes_def)
  show ?thesis
    using g(3)
  proof (elim disjE conjE)
    assume "serve_read ?pg ?s = Some (ret_err E_NO_DISK, ?pg, None, ?s\<lparr>s_fs := g\<rparr>)"
      and h: "file_hole c f (seek_pos c i) (seek_pos c i + length bs)"
    then have "\<exists>c'. read_fd fdnum k c = Some (ret_err E_NO_DISK, [], c')"
      using ipc [of "ret_err E_NO_DISK" ?pg] by (simp add: run devfile_read_def opened_lookup [OF op])
    then show ?thesis using g(1,2) h by blast
  next
    assume "serve_read ?pg ?s = Some (of_nat (length bs), put_bytes bs ?pg, None, advanced i (length bs) g ?s)"
      and h: "\<forall>a b. hole g f a b \<longrightarrow> file_hole c f a b"
    then have "read_fd fdnum k c = Some (of_nat (length bs), bs, moved i (length bs) g (put_bytes bs ?pg) c)"
      using ipc [of "of_nat (length bs)" "put_bytes bs ?pg"] u bytes
      by (simp add: run devfile_read_def opened_lookup [OF op] moved_def)
    then show ?thesis using g(1,2) h by blast
  qed
qed

lemma req_above: "k \<le> 4 \<Longrightarrow> req_word (\<lambda>j. if 8 \<le> j \<and> j < b then h j else pg j) k = req_word pg k"
  by (simp add: req_word_def)

lemma write_fd_ok:
  assumes op: "opened_fd c fdnum i n f" and mode: "fd_omode (fdpage (c_serv c) i) AND O_ACCMODE \<noteq> O_RDONLY"
    and off: "seek_pos c i \<le> length (file_bytes c f)"
    and max: "length buf \<le> 4235264" "seek_pos c i + min 4088 (length buf) \<le> 4235264"
    and bs: "bs = take 4088 buf"
  shows "\<exists>g pg. file_ok g n f
    \<and> ((\<exists>c'. write_fd fdnum buf c = Some (ret_err E_NO_DISK, c'))
      \<or> write_fd fdnum buf c = Some (of_nat (length bs), moved i (length bs) g pg c)
        \<and> contents g f = overwrite (seek_pos c i) bs (file_bytes c f)
        \<and> \<not> hole g f (seek_pos c i) (seek_pos c i + length bs))"
proof -
  let ?s = "c_serv c" and ?fd = "fdpage (c_serv c) i" and ?n = "of_nat (length buf) :: u32"
  define m where "m = (if ?n < REQ_BUF then ?n else REQ_BUF)"
  have n: "unat ?n = length buf" using max(1) by (simp add: unat_of_nat)
  have m: "unat m = length bs" using n by (simp add: m_def REQ_BUF_def layout word_less_nat_alt bs)
  let ?pg0 = "put_word 4 m (put_word 0 (fd_file_id ?fd) (fsipcbuf c))"
  define pg where "pg = (\<lambda>k. if 8 \<le> k \<and> k < 8 + unat m then buf ! (k - 8) else ?pg0 k)"
  have w: "req_word pg 0 = fd_file_id ?fd" "req_word pg 4 = m" by (simp_all add: pg_def req_above)
  have b: "map pg [8..<8 + unat m] = bs"
    by (rule nth_equalityI) (simp_all add: m pg_def, simp add: bs)
  have "opened ?s (req_word pg 0) i n f" using op by (simp add: opened_fd_def w)
  from serve_write_ok [OF this _ off, of bs] max(2) b m w obtain g where g: "file_ok g n f"
    "serve_write pg ?s = Some (ret_err E_NO_DISK, pg, None, ?s\<lparr>s_fs := g\<rparr>)
      \<or> serve_write pg ?s = Some (of_nat (length bs), pg, None, advanced i (length bs) g ?s)
        \<and> contents g f = overwrite (seek_pos c i) bs (file_bytes c f)
        \<and> \<not> hole g f (seek_pos c i) (seek_pos c i + length bs)"
    unfolding w m b by (auto simp: bs min.commute)
  have run: "write_fd fdnum buf c = fsipc FSREQ_WRITE 0 (c\<lparr>fsipcbuf := pg\<rparr>)"
    using mode unfolding pg_def m_def by (simp add: write_fd_def opened_lookup [OF op] devfile_write_def Let_def)
  note ipc = fsipc_handler [OF handlers_simps(2,4), of "c\<lparr>fsipcbuf := pg\<rparr>"]
  from g(2) show ?thesis
  proof (elim disjE conjE)
    assume "serve_write pg ?s = Some (ret_err E_NO_DISK, pg, None, ?s\<lparr>s_fs := g\<rparr>)"
    then have "\<exists>c'. write_fd fdnum buf c = Some (ret_err E_NO_DISK, c')"
      using ipc [of "ret_err E_NO_DISK" pg] unfolding run by simp
    then show ?thesis using g(1) by blast
  next
    assume "serve_write pg ?s = Some (of_nat (length bs), pg, None, advanced i (length bs) g ?s)"
      and h: "contents g f = overwrite (seek_pos c i) bs (file_bytes c f)"
        "\<not> hole g f (seek_pos c i) (seek_pos c i + length bs)"
    then have "write_fd fdnum buf c = Some (of_nat (length bs), moved i (length bs) g pg c)"
      using ipc [of "of_nat (length bs)" pg] unfolding run moved_def by simp
    then show ?thesis using g(1) h by blast
  qed
qed

lemma seek_ok:
  assumes "opened_fd c fdnum i n f"
  shows "\<exists>c'. seek fdnum off c = Some (0, c') \<and> opened_fd c' fdnum i n f \<and> fd_offset (fdpage (c_serv c') i) = off
    \<and> s_fs (c_serv c') = s_fs (c_serv c) \<and> fd_omode (fdpage (c_serv c') i) = fd_omode (fdpage (c_serv c) i)"
proof -
  let ?s = "c_serv c"
  let ?s' = "?s\<lparr>fdpage := (fdpage ?s)(i := (fdpage ?s i)\<lparr>fd_offset := off\<rparr>)\<rparr>"
  have "openfile_lookup fid ?s' = openfile_lookup fid ?s" for fid by (rule lookup_cong) simp_all
  then show ?thesis
    using assms opened_lookup [OF assms]
    by (auto simp: seek_def put_fd_def opened_fd_def opened_def)
qed

section \<open>A small program\<close>

text \<open>Its descriptor 0 has the file of \<open>demo_serv\<close> open; there is a page table for the descriptors.\<close>

definition demo_client :: client where
  "demo_client = \<lparr>c_id = 0x1001, c_serv = demo_serv, umap = [INDEX2FD 0 \<mapsto> Fd_page 0], ptable = (\<lambda>_. True),
     ufree = 0, frame_fd = (\<lambda>_. Fd_zero), fsipcbuf = (\<lambda>_. 0)\<rparr>"

lemma demo_client_opened: "opened_fd demo_client 0 0 8 (3, 0)"
  using demo_opened by (simp add: opened_fd_def demo_client_def MAXFD_def) (simp add: demo_serv_def)

lemma demo_client_fields:
  "file_bytes demo_client (3, 0) = [104, 101, 108, 108, 111]" "fd_offset (fdpage (c_serv demo_client) 0) = 0"
  "fd_omode (fdpage (c_serv demo_client) 0) = 2" "fdref (c_serv demo_client) 0 = 2"
  "\<not> file_hole demo_client (3, 0) 0 5"
  using demo_contents by (simp_all add: demo_client_def demo_serv_def hole_def demo_bno)

section \<open>Writing and reading\<close>

text \<open>
  C6: what a program writes through a descriptor it reads back: after a write of a buffer of at
  most 4088 bytes that gave no error, seeking back and reading as many bytes as the write returned
  gives exactly the buffer, whatever else the disk is used for.
\<close>

theorem client_write_read:
  assumes "opened_fd c fdnum i n f" and "fd_omode (fdpage (c_serv c) i) AND O_ACCMODE = O_RDWR"
    and "seek_pos c i \<le> length (file_bytes c f)" and "length buf \<le> 4088" and "seek_pos c i + length buf \<le> 4235264"
    and "write_fd fdnum buf c = Some (m, c1)" and "\<not> neg m"
  shows "\<exists>c2 c3. seek fdnum (fd_offset (fdpage (c_serv c) i)) c1 = Some (0, c2)
    \<and> read_fd fdnum m c2 = Some (m, buf, c3) \<and> unat m = length buf \<and> seek_pos c3 i = seek_pos c i + length buf"
proof -
  let ?off = "fd_offset (fdpage (c_serv c) i)"
  have md: "fd_omode (fdpage (c_serv c) i) AND O_ACCMODE \<noteq> O_RDONLY"
    "fd_omode (fdpage (c_serv c) i) AND O_ACCMODE \<noteq> O_WRONLY"
    using assms(2) by (simp_all add: O_RDWR_def O_RDONLY_def O_WRONLY_def)
  from write_fd_ok [OF assms(1) md(1) assms(3) _ _ refl, of buf] assms(4-7) obtain g pg where
    g: "file_ok g n f" "m = of_nat (length buf)" "c1 = moved i (length buf) g pg c"
      "contents g f = overwrite (unat ?off) buf (file_bytes c f)"
      "\<not> hole g f (unat ?off) (unat ?off + length buf)" by auto
  have m: "unat m = length buf" using assms(4) g(2) by (simp add: unat_of_nat)
  from seek_ok [OF opened_moved [OF assms(1) g(1)], of ?off "length buf" pg] obtain c2 where
    c2: "seek fdnum ?off c1 = Some (0, c2)" "opened_fd c2 fdnum i n f" "fd_offset (fdpage (c_serv c2) i) = ?off"
      "s_fs (c_serv c2) = g" "fd_omode (fdpage (c_serv c2) i) = fd_omode (fdpage (c_serv c) i)"
    using g(3) by auto
  have len: "unat ?off \<le> length (file_bytes c f)" using assms(3) .
  have bs: "buf = take (min 4096 (unat m)) (drop (seek_pos c2 i) (file_bytes c2 f))"
    using len assms(4) by (simp add: c2(3,4) g(4) overwrite_def m)
  have "fd_omode (fdpage (c_serv c2) i) AND O_ACCMODE \<noteq> O_WRONLY" "seek_pos c2 i \<le> 4235264"
    using md(2) assms(5) by (simp_all add: c2(3,5))
  from read_fd_ok [OF c2(2) this bs] g(5) obtain g2 pg2 where
    "read_fd fdnum m c2 = Some (m, buf, moved i (length buf) g2 pg2 c2)"
    using c2(3,4) g(2) by auto
  moreover have "unat (?off + of_nat (length buf)) = unat ?off + length buf"
    using assms(4,5) by (simp add: unat_word_ariths unat_of_nat)
  ultimately show ?thesis using c2(1,3) m by auto
qed

theorem client_write_read_witness:
  "\<exists>r c1. write_fd 0 [33, 33] demo_client = Some (r, c1) \<and> (\<not> neg r \<longrightarrow>
    (\<exists>c2 c3. seek 0 0 c1 = Some (0, c2) \<and> read_fd 0 r c2 = Some (r, [33, 33], c3) \<and> seek_pos c3 0 = 2))"
proof -
  have m: "fd_omode (fdpage (c_serv demo_client) 0) AND O_ACCMODE = O_RDWR"
    by (simp add: demo_client_fields O_ACCMODE_def O_RDWR_def)
  then have "fd_omode (fdpage (c_serv demo_client) 0) AND O_ACCMODE \<noteq> O_RDONLY"
    by (simp add: O_RDWR_def O_RDONLY_def)
  from write_fd_ok [OF demo_client_opened this, of "[33, 33]"] obtain r c1 where
    "write_fd 0 [33, 33] demo_client = Some (r, c1)" by (auto simp: demo_client_fields)
  with client_write_read [OF demo_client_opened m, of "[33, 33]" r c1] show ?thesis
    by (auto simp: demo_client_fields)
qed

section \<open>Reading a file whole\<close>

lemma take_pieces:
  assumes "a \<le> b" and "l = length (take a xs)"
  shows "take a xs @ take (b - l) (drop l xs) = take b xs"
proof (cases "a \<le> length xs")
  case True
  then show ?thesis using assms take_add [of a "b - a" xs] by simp
next
  case False
  then show ?thesis using assms by simp
qed

lemma readn_loop_ok:
  assumes "opened_fd c fdnum i n f" and "fd_omode (fdpage (c_serv c) i) AND O_ACCMODE \<noteq> O_WRONLY"
    and "seek_pos c i \<le> 4235264" and "unat tot \<le> unat k"
    and "rest = take (unat k - unat tot) (drop (seek_pos c i) (file_bytes c f))"
    and "\<not> file_hole c f (seek_pos c i) (seek_pos c i + length rest)"
  shows "\<exists>c'. readn_loop fdnum tot k acc c = Some (tot + of_nat (length rest), acc @ rest, c')
    \<and> opened_fd c' fdnum i n f \<and> file_bytes c' f = file_bytes c f \<and> seek_pos c' i = seek_pos c i + length rest"
  using assms
proof (induction "unat k - unat tot" arbitrary: tot acc c rest rule: less_induct)
  case less
  show ?case
  proof (cases "tot < k")
    case False
    then have "rest = []" using less.prems(5) by (simp add: word_less_nat_alt)
    then show ?thesis using False less.prems(1) by (auto simp: readn_loop.simps)
  next
    case True
    have d: "unat (k - tot) = unat k - unat tot" "0 < unat k - unat tot"
      using True less.prems(4) by (simp_all add: unat_sub word_le_nat_alt word_less_nat_alt)
    define bs where "bs = take (min 4096 (unat (k - tot))) (drop (seek_pos c i) (file_bytes c f))"
    define rest' where "rest' = take (unat k - unat tot - length bs) (drop (length bs) (drop (seek_pos c i) (file_bytes c f)))"
    have app: "bs @ rest' = rest"
      unfolding bs_def rest'_def less.prems(5) d by (rule take_pieces) simp_all
    have lb: "length bs \<le> 4096" "length bs \<le> unat k - unat tot" using d by (simp_all add: bs_def)
    then have u: "unat (of_nat (length bs) :: u32) = length bs" "\<not> neg (of_nat (length bs))"
      using not_neg_small [of "length bs"] by (simp_all add: unat_of_nat)
    have "\<not> file_hole c f (seek_pos c i) (seek_pos c i + length bs)"
      using less.prems(6) unfolding hole_def app [symmetric] by auto
    with read_fd_ok [OF less.prems(1,2,3) bs_def] obtain g pg where
      g: "file_ok g n f" "contents g f = file_bytes c f" "\<forall>a b. hole g f a b \<longrightarrow> file_hole c f a b"
        "read_fd fdnum (k - tot) c = Some (of_nat (length bs), bs, moved i (length bs) g pg c)"
      by blast
    let ?c = "moved i (length bs) g pg c"
    note op = opened_moved [OF less.prems(1) g(1), of "length bs" pg]
    have pos: "seek_pos ?c i = seek_pos c i + length bs"
      using less.prems(3) lb by (simp add: unat_word_ariths unat_of_nat)
    show ?thesis
    proof (cases "bs = []")
      case True
      then have "drop (seek_pos c i) (file_bytes c f) = []" using d by (auto simp: bs_def)
      then have "rest' = []" by (simp add: rest'_def)
      then have "rest = []" using app True by simp
      then show ?thesis using \<open>tot < k\<close> g True op pos neg_def by (auto simp: readn_loop.simps)
    next
      case False
      have t: "unat (tot + of_nat (length bs)) = unat tot + length bs"
      proof -
        have "unat tot + length bs < 4294967296"
          using lb(2) d less.prems(4) unsigned_less [of k, where 'a = nat] by simp
        then show ?thesis using u(1) by (simp add: unat_word_ariths)
      qed
      have "length bs \<le> length (drop (seek_pos c i) (file_bytes c f))" by (simp add: bs_def)
      moreover have "length (file_bytes c f) \<le> 4235264"
        using less.prems(1) by (auto simp: opened_fd_def opened_def dest: file_okD)
      moreover have "0 < length bs" using False by simp
      ultimately have p: "seek_pos ?c i \<le> 4235264" unfolding pos length_drop by linarith
      have lt: "unat k - unat (tot + of_nat (length bs)) < unat k - unat tot" using t d(2) \<open>0 < length bs\<close> by linarith
      have le: "unat (tot + of_nat (length bs)) \<le> unat k" using t lb less.prems(4) by simp
      have r: "rest' = take (unat k - unat (tot + of_nat (length bs))) (drop (seek_pos ?c i) (file_bytes ?c f))"
        unfolding rest'_def pos t by (simp add: g(2) add.commute)
      have m: "fd_omode (fdpage (c_serv ?c) i) AND O_ACCMODE \<noteq> O_WRONLY" using less.prems(2) by simp
      have "\<not> file_hole c f (seek_pos c i + length bs) (seek_pos c i + length bs + length rest')"
        using less.prems(6) unfolding hole_def app [symmetric] by auto
      then have h: "\<not> file_hole ?c f (seek_pos ?c i) (seek_pos ?c i + length rest')"
        unfolding pos using g(3) by auto
      from less.hyps [OF lt op m p le r h, of "acc @ bs"] obtain c' where
        c': "readn_loop fdnum (tot + of_nat (length bs)) k (acc @ bs) ?c
            = Some (tot + of_nat (length bs) + of_nat (length rest'), acc @ bs @ rest', c')"
          "opened_fd c' fdnum i n f" "file_bytes c' f = file_bytes c f"
          "seek_pos c' i = seek_pos ?c i + length rest'"
        using g(2) by auto
      have "of_nat (length bs) \<noteq> (0 :: u32)" using u(1) False by (metis length_0_conv unat_0)
      then have "readn_loop fdnum tot k acc c = Some (tot + of_nat (length rest), acc @ rest, c')"
        using c'(1) \<open>tot < k\<close> g(4) u(2) by (simp add: readn_loop.simps [of fdnum tot] app [symmetric] add.assoc)
      then show ?thesis using c' pos by (auto simp: app [symmetric])
    qed
  qed
qed

text \<open>
  C29: readn, whose loop asks the file server for at most a page at a time, returns all of the
  bytes of the file from the seek position on, up to the number asked for, and always ends. The
  file has no holes in the range, which could not be filled on a full disk.
\<close>

theorem readn_whole:
  assumes "opened_fd c fdnum i n f" and "fd_omode (fdpage (c_serv c) i) AND O_ACCMODE \<noteq> O_WRONLY"
    and "seek_pos c i \<le> 4235264" and "bs = take (unat k) (drop (seek_pos c i) (file_bytes c f))"
    and "\<not> file_hole c f (seek_pos c i) (seek_pos c i + length bs)"
  shows "\<exists>c'. readn fdnum k c = Some (of_nat (length bs), bs, c')
    \<and> file_bytes c' f = file_bytes c f \<and> seek_pos c' i = seek_pos c i + length bs"
proof -
  have "bs = take (unat k - unat (0 :: u32)) (drop (seek_pos c i) (file_bytes c f))" using assms(4) by simp
  from readn_loop_ok [OF assms(1-3) _ this assms(5), of "[]"] show ?thesis by (auto simp: readn_def)
qed

theorem readn_whole_witness:
  "\<exists>c'. readn 0 100 demo_client = Some (5, [104, 101, 108, 108, 111], c') \<and> seek_pos c' 0 = 5"
proof -
  have "length [104, 101, 108, 108, 111 :: u8] = 5" by simp
  note w = readn_whole [OF demo_client_opened, of "[104, 101, 108, 108, 111]" 100, unfolded this]
  show ?thesis using w by (auto simp: demo_client_fields O_ACCMODE_def O_WRONLY_def)
qed

section \<open>Descriptors\<close>

lemma unat_INDEX2FD: "i < 32 \<Longrightarrow> unat (INDEX2FD (of_nat i)) = 0xD0000000 + i * 4096"
  by (simp add: INDEX2FD_def FDTABLE_def layout unat_word_ariths unat_of_nat)

lemma INDEX2FD_inj:
  assumes "i < 32" "j < 32" "INDEX2FD (of_nat i) = INDEX2FD (of_nat j)"
  shows "i = j"
proof -
  have "(0xD0000000 :: nat) + i * 4096 = 0xD0000000 + j * 4096"
    using unat_INDEX2FD [OF assms(1)] unat_INDEX2FD [OF assms(2)] unfolding assms(3) by (rule trans [OF sym])
  then show ?thesis by simp
qed

lemma fd2num_index: "i < 32 \<Longrightarrow> fd2num (INDEX2FD (of_nat i)) = of_nat i"
  by (simp add: fd2num_def INDEX2FD_def layout word_unat_eq_iff unat_div_distrib unat_word_ariths unat_of_nat)

text \<open>
  fd_alloc gives the descriptor with the least number whose page is not mapped, and fails with
  -E_MAX_OPEN exactly when the pages of all 32 are mapped; fd_lookup accepts exactly the numbers
  below 32 whose page is mapped.
\<close>

theorem fd_alloc_least:
  "(case fd_alloc c of
      Inr fd \<Rightarrow> \<exists>i<32. fd = INDEX2FD (of_nat i) \<and> fd2num fd = of_nat i \<and> umap c fd = None
        \<and> (\<forall>j<i. umap c (INDEX2FD (of_nat j)) \<noteq> None) \<and> fd_lookup (of_nat i) c = Inl E_INVAL
    | Inl e \<Rightarrow> e = E_MAX_OPEN \<and> (\<forall>i<32. fd_lookup (of_nat i) c = Inr (INDEX2FD (of_nat i))))"
proof (cases "find (\<lambda>i. umap c (INDEX2FD (of_nat i)) = None) [0..<MAXFD]")
  case None
  have "fd_lookup (of_nat i) c = Inr (INDEX2FD (of_nat i))" if i: "i < 32" for i
  proof -
    have "unat (of_nat i :: u32) < MAXFD" using i by (simp add: MAXFD_def unat_of_nat)
    from fd_small [OF this] show ?thesis
      using None i by (auto simp: fd_lookup_def MAXFD_def find_None_iff)
  qed
  then show ?thesis using None by (simp add: fd_alloc_def)
next
  case (Some i)
  then have i: "i < 32" "umap c (INDEX2FD (of_nat i)) = None" "\<forall>j<i. umap c (INDEX2FD (of_nat j)) \<noteq> None"
    by (auto simp: find_upto_Some MAXFD_def)
  have "fd_lookup (of_nat i) c = Inl E_INVAL" using i(2) by (simp add: fd_lookup_def)
  with i Some fd2num_index show ?thesis by (auto simp: fd_alloc_def)
qed

section \<open>Opening\<close>

lemma req_path_put:
  assumes "0 \<notin> set path" and "length path < 1024"
  shows "req_path (put_word 1024 m (put_bytes (path @ [0]) pg)) = path"
proof -
  let ?q = "put_word 1024 m (put_bytes (path @ [0]) pg)"
  have q: "?q k = (path @ [0]) ! k" if "k \<le> length path" for k
    using that assms(2) by (simp add: put_word_def put_bytes_def)
  have p: "map ?q [0..<length path] = path"
    by (rule nth_equalityI) (simp_all add: q nth_append)
  show ?thesis
  proof (cases "length path < 1023")
    case True
    then have "[0..<1023] = [0..<length path] @ length path # [Suc (length path)..<1023]"
      by (metis append.assoc less_imp_le upt_add_eq_append upt_conv_Cons le_add_diff_inverse le0 add_0)
    then show ?thesis
      using assms(1) p q [of "length path"] by (simp add: req_path_def MAXPATHLEN_def takeWhile_append2 takeWhile_append)
  next
    case False
    then have "length path = 1023" using assms(2) by simp
    then show ?thesis using assms(1) p by (auto simp: req_path_def MAXPATHLEN_def takeWhile_eq_all_conv)
  qed
qed

lemma open_file_fs: "open_file path m s = Some (r, s') \<Longrightarrow> \<exists>g. s' = s\<lparr>s_fs := g\<rparr>"
  by (auto simp: open_file_def bind_Some_iff case_sum_Some dest!: fs_only split: if_splits)

lemma need_pt_fields:
  assumes "need_pt va c = Some c'"
  shows "umap c' = umap c" "c_serv c' = c_serv c" "fsipcbuf c' = fsipcbuf c"
  using assms by (auto simp: need_pt_def split: if_splits)

lemma need_pt_ok: "ptable c (PDX va) \<or> ufree c \<noteq> 0 \<Longrightarrow> \<exists>c'. need_pt va c = Some c'"
  by (auto simp: need_pt_def)

text \<open>
  when the server has a free entry and finds or creates the file, opening a path gives the
  least free descriptor, and with it a program has the file open at position 0 in the mode it
  asked for; the id is the one that followed on the last use of the entry.
\<close>

theorem client_open:
  assumes "serv_ok (c_serv c)" and "0 \<notin> set path" and "length path < 1024"
    and "fd_alloc c = Inr fd" and "ptable c (PDX fd) \<or> ufree c \<noteq> 0"
    and "openfile_alloc (c_serv c) = (Inr i, s1)" and "\<not> neg (o_fileid (opentab s1 i))"
    and "open_file path mode s1 = Some (Inr f, s2)" and "mode AND O_TRUNC = 0" and "file_ok (s_fs s2) n f"
  shows "\<exists>c' fdnum. open_path path mode c = Some (fdnum, c') \<and> fd = INDEX2FD fdnum \<and> opened_fd c' fdnum i n f
    \<and> seek_pos c' i = 0 \<and> fd_omode (fdpage (c_serv c') i) = mode AND O_ACCMODE
    \<and> file_bytes c' f = contents (s_fs s2) f"
proof -
  let ?s = "c_serv c" and ?id = "o_fileid (opentab s1 i)"
  let ?pg = "put_word 1024 mode (put_bytes (path @ [0]) (fsipcbuf c))"
  note al = alloc_InrD [OF assms(6)]
  obtain g where s2: "s2 = s1\<lparr>s_fs := g\<rparr>" using open_file_fs [OF assms(8)] by blast
  from assms(4) fd_alloc_least [of c] obtain k where k: "k < 32" "fd = INDEX2FD (of_nat k)"
    "fd2num fd = of_nat k" "umap c fd = None" by auto
  define s3 where "s3 = s2\<lparr>opentab := (opentab s2)(i := (opentab s2 i)\<lparr>o_file := Some f, o_mode := mode\<rparr>),
    fdpage := (fdpage s2)(i := \<lparr>fd_dev_id = 102, fd_offset = 0, fd_omode = mode AND O_ACCMODE, fd_file_id = ?id\<rparr>)\<rparr>"
  have sv: "serve_open ?pg ?s = Some (0, ?pg, Some i, s3)"
    using assms(6-9) al(4,5) req_path_put [OF assms(2,3), of mode "fsipcbuf c"]
    by (simp add: serve_open_def MAXPATHLEN_def Let_def neg_def s2 fd_get_def fd_put_def set_open_def Fd_zero_def s3_def)
  let ?c = "c\<lparr>c_serv := s3, fsipcbuf := ?pg\<rparr>"
  obtain c2 where c2: "need_pt fd ?c = Some c2" using need_pt_ok [of ?c fd] assms(5) by auto
  note nf = need_pt_fields [OF c2]
  let ?c' = "add_page fd (Fd_page i) c2"
  have dr: "drop_page fd c2 = c2" using nf k(4) by (simp add: drop_page_def fun_upd_idem)
  have "fsipc FSREQ_OPEN fd (c\<lparr>fsipcbuf := ?pg\<rparr>) = Some (0, ?c')"
    using sv c2 dr by (simp add: fsipc_def serve_step_def share_fd_def Let_def)
  then have run: "open_path path mode c = Some (of_nat k, ?c')"
    using assms(3,4) k(3) by (simp add: open_path_def path_req_def MAXPATHLEN_def neg_def Let_def)
  have m: "?id mod 1024 = of_nat i"
    using openfile_alloc_ok [OF assms(6,1)] al(1) by (simp add: serv_ok_def MAXOPEN_def)
  have f: "s_fs (c_serv ?c') = g" "fdpage (c_serv ?c') i
      = \<lparr>fd_dev_id = 102, fd_offset = 0, fd_omode = mode AND O_ACCMODE, fd_file_id = ?id\<rparr>"
    "fdref (c_serv ?c') i = 2" "o_file (opentab (c_serv ?c') i) = Some f" "o_fileid (opentab (c_serv ?c') i) = ?id"
    "umap ?c' fd = Some (Fd_page i)"
    using al(4) by (simp_all add: add_page_def nf s3_def s2)
  have "openfile_lookup ?id (c_serv ?c') = Inr i"
    using lookup_index [OF m al(1), of "c_serv ?c'"] f by simp
  then have "opened (c_serv ?c') ?id i n f" using f assms(10) s2 by (simp add: opened_def)
  moreover have "unat (of_nat k :: u32) < MAXFD" using k(1) by (simp add: MAXFD_def unat_of_nat)
  ultimately have "opened_fd ?c' (of_nat k) i n f" using f k(2) by (simp add: opened_fd_def)
  then show ?thesis using run k(2) f s2 by auto
qed

text \<open>The root directory of \<open>demo_fs\<close> is empty; its descriptor 1 gets entry 1 of the server.\<close>

lemma demo_root: "file_ok demo_fs 8 s_root"
proof -
  have w: "f_word demo_fs s_root k = 0" if "10 \<le> k" for k
    using that by (simp add: f_word_def demo_blk demo_disk_def s_root_def)
  then have "bno demo_fs s_root i = 0" "ind demo_fs s_root = 0" for i
    by (simp_all add: bno_def ind_def file_consts)
  moreover have "fst s_root = 1" "2 \<le> snd s_root" by (simp_all add: s_root_def)
  ultimately have "file_inv demo_fs 8 s_root"
    using demo_fs_ok demo_free [of 1] by (simp add: file_inv_def demo_bitmap)
  then show ?thesis using w by (simp add: file_ok_def file_consts)
qed

theorem client_open_witness:
  "\<exists>c'. open_path [47] 0 demo_client = Some (1, c') \<and> opened_fd c' 1 1 8 s_root \<and> seek_pos c' 1 = 0"
proof -
  let ?s1 = "snd (openfile_alloc demo_serv)"
  have al: "openfile_alloc demo_serv = (Inr 1, ?s1)" "o_fileid (opentab ?s1 1) = 1025" "s_fs ?s1 = demo_fs"
    by (simp_all add: openfile_alloc_def MAXOPEN_def upt_rec [of 0] upt_rec [of "Suc 0"] demo_serv_def
        open_entry_def set_open_def Let_def)
  have o': "open_file [47] 0 ?s1 = Some (Inr s_root, ?s1\<lparr>s_fs := demo_fs\<rparr>)"
    using al(3) by (simp add: open_file_def on_fs_def file_open_def walk_path_def skip_slash_def)
  have ok: "serv_ok demo_serv" by (auto simp: serv_ok_def demo_serv_def MAXOPEN_def small_mod)
  have ne: "INDEX2FD 1 \<noteq> INDEX2FD 0" by (simp add: INDEX2FD_def FDTABLE_def layout)
  have d: "c_serv demo_client = demo_serv" "ptable demo_client a" "umap demo_client (INDEX2FD 0) \<noteq> None" for a
    by (simp_all add: demo_client_def)
  have fd: "fd_alloc demo_client = Inr (INDEX2FD 1)"
    using ne by (simp add: fd_alloc_def MAXFD_def upt_rec [of 0] upt_rec [of "Suc 0"] demo_client_def)
  have nn: "\<not> neg (o_fileid (opentab ?s1 1))" using not_neg_small [of 1025] al(2) by simp
  from client_open [of demo_client "[47]" "INDEX2FD 1" 1 ?s1 0 s_root "?s1\<lparr>s_fs := demo_fs\<rparr>" 8]
  obtain c' fdnum where c': "open_path [47] 0 demo_client = Some (fdnum, c')" "INDEX2FD 1 = INDEX2FD fdnum"
    "opened_fd c' fdnum 1 8 s_root" "seek_pos c' 1 = 0"
    using ok fd al nn o' demo_root d by auto
  have "unat fdnum < 32" using c'(3) by (simp add: opened_fd_def MAXFD_def)
  with INDEX2FD_inj [of 1 "unat fdnum"] c'(2) have "fdnum = 1" by (simp add: word_unat_eq_iff)
  with c' show ?thesis by auto
qed

section \<open>Duplicates\<close>

lemma INDEX2FD_user: "unat fdnum < MAXFD \<Longrightarrow> INDEX2FD fdnum < UTOP"
  using unat_INDEX2FD [of "unat fdnum"] by (simp add: MAXFD_def word_less_nat_alt layout)

text \<open>
  dup to a number that is not open shares the Fd page of the old descriptor: both then name
  the same entry of the server, so they have one seek position, and the entry has one more
  reference. The new number is not checked: dup to a number of 32 or more succeeds as well, and
  gives a descriptor that every other function refuses.
\<close>

theorem dup_shares:
  assumes "opened_fd c old i n f" and "fd_lookup new c = Inl e" and "umap c (INDEX2FD new) = None"
    and "INDEX2FD new < UTOP" and "ptable c (PDX (INDEX2FD new))" and "umap c (fd2data (INDEX2FD old)) = None"
  shows "\<exists>c'. dup old new c = Some (new, c') \<and> opened_fd c' old i n f
    \<and> fdref (c_serv c') i = fdref (c_serv c) i + 1
    \<and> (unat new < MAXFD \<longrightarrow> opened_fd c' new i n f) \<and> (MAXFD \<le> unat new \<longrightarrow> fd_lookup new c' = Inl E_INVAL)"
proof -
  let ?c' = "add_page (INDEX2FD new) (Fd_page i) c"
  have old: "umap c (INDEX2FD old) = Some (Fd_page i)" "unat old < MAXFD" using assms(1) by (simp_all add: opened_fd_def)
  note u = INDEX2FD_user [OF old(2)]
  have "drop_page (INDEX2FD new) c = c" using assms(3) by (simp add: drop_page_def fun_upd_idem)
  then have run: "dup old new c = Some (new, ?c')"
    using assms(2-6) old(1) u
    by (simp add: dup_def opened_lookup [OF assms(1)] close_def user_map_def need_pt_def neg_def Let_def not_le [symmetric])
  have f: "c_serv ?c' = (c_serv c)\<lparr>fdref := (fdref (c_serv c))(i := fdref (c_serv c) i + 1)\<rparr>"
    "umap ?c' = (umap c)(INDEX2FD new \<mapsto> Fd_page i)" by (simp_all add: add_page_def)
  have op: "opened (c_serv ?c') fid i n f" if "opened (c_serv c) fid i n f" for fid
    using that lookup_InrD [of fid "c_serv c" i]
    by (auto simp: opened_def f openfile_lookup_def Let_def split: if_splits)
  have o1: "opened_fd ?c' old i n f" "unat new < MAXFD \<Longrightarrow> opened_fd ?c' new i n f"
    using assms(1) op by (auto simp: opened_fd_def f)
  have "fd_lookup new ?c' = Inl E_INVAL" if "MAXFD \<le> unat new"
  proof (cases "sint new < 0")
    case True
    then show ?thesis by (simp add: fd_lookup_def)
  next
    case False
    then have "0 \<le> sint new" by simp
    then have "sint new = int (unat new)" by (rule sint_nonneg)
    then have "int MAXFD \<le> sint new" using that by linarith
    then show ?thesis unfolding fd_lookup_def by simp
  qed
  then show ?thesis using run o1 f by auto
qed

theorem dup_shares_witness:
  "\<exists>c'. dup 0 5 demo_client = Some (5, c') \<and> opened_fd c' 5 0 8 (3, 0) \<and> fdref (c_serv c') 0 = 3"
proof -
  have ne: "INDEX2FD 5 \<noteq> INDEX2FD 0" "fd2data (INDEX2FD 0) \<noteq> INDEX2FD 0"
    by (simp_all add: INDEX2FD_def INDEX2DATA_def fd2data_def fd2num_def FILEDATA_def FDTABLE_def MAXFD_def layout)
  have "fd_lookup 5 demo_client = Inl E_INVAL" "umap demo_client (INDEX2FD 5) = None"
    "umap demo_client (fd2data (INDEX2FD 0)) = None" "ptable demo_client (PDX (INDEX2FD 5))"
    using ne by (simp_all add: fd_lookup_def demo_client_def)
  then show ?thesis
    using dup_shares [OF demo_client_opened, of 5] INDEX2FD_user [of 5]
    by (auto simp: demo_client_fields MAXFD_def)
qed

end
