(* ===== verification/Ulib.thy ===== *)
theory Ulib
  imports Syscall
begin

text \<open>
  The user-level library above the system calls: lib/syscall.c, lib/pageref.c, lib/pgfault.c and
  its variants for the other faults, lib/fork.c, lib/ipc.c, lib/priority.c, lib/checkpoint.c.

  The functions run in the current environment, in user mode, on the state of the kernel; the
  trap into the kernel and back is lib/syscall.c with \<open>syscall\<close> of kern/syscall.c. A call that
  gives up the CPU ends the function there (\<open>Run\<close>). What is not modelled is the program's own
  stack and text: the faults that its pushes take on pages marked copy-on-write. The addresses
  of the entry points of lib/pfentry.S and the C handlers are parameters, and the global
  variables of a program are the record \<open>uvars\<close>. A panic is None.
\<close>

unbundle bit_operations_syntax

section \<open>Accesses in user mode\<close>

text \<open>A page that is mapped for the user at both levels, and writable for a write.\<close>

definition user_walk :: "bool \<Rightarrow> u32 \<Rightarrow> kstate \<Rightarrow> nat option" where
  "user_walk w va s =
     (let pde = rd s (unat (PPN (cr3 s)), unat (PDX va))
      in if pde AND PTE_U = 0 then None
         else if rd s (unat (PPN pde), unat (PTX va)) AND PTE_U = 0 then None
         else mmu_walk w va s)"

definition uread32 :: "u32 \<Rightarrow> kstate \<Rightarrow> u32 option" where
  "uread32 va s = (if user_walk False va s = None then None else vread32 va s)"

text \<open>\<open>vpd[i]\<close> and \<open>vpt[n]\<close> (lib/entry.S): the page tables, mapped read-only at UVPT.\<close>

definition vpt :: "u32 \<Rightarrow> kstate \<Rightarrow> u32 option" where
  "vpt n s = uread32 (UVPT + 4 * n) s"

definition vpd :: "u32 \<Rightarrow> kstate \<Rightarrow> u32 option" where
  "vpd i s = uread32 (UVPT + push_bit 2 (drop_bit 12 UVPT) + 4 * i) s"

text \<open>memmove of a page to another one, both page-aligned.\<close>

definition copy_page :: "u32 \<Rightarrow> u32 \<Rightarrow> kstate \<Rightarrow> kstate option" where
  "copy_page dst src s =
     (if user_walk False src s = None \<or> user_walk True dst s = None then None
      else do { bs \<leftarrow> vread_bytes src 4096 s; vwrite_bytes dst bs s })"

section \<open>System calls\<close>

text \<open>
  The stub of lib/syscall.c: with \<open>check\<close>, a positive result panics. It calls the dispatcher of the
  kernel directly: that trap first saves the frame in the \<open>struct Env\<close> (sys_exofork copies it from
  there) is modelled in Trap and not repeated here, so \<open>env_tf\<close> stands for the frame of the last trap. \<open>neg\<close> is the test \<open>r < 0\<close> of the callers.
\<close>

definition neg :: "u32 \<Rightarrow> bool" where
  "neg r \<longleftrightarrow> sint r < 0"

definition stub ::
  "hw \<Rightarrow> u32 \<Rightarrow> bool \<Rightarrow> u32 \<Rightarrow> u32 \<Rightarrow> u32 \<Rightarrow> u32 \<Rightarrow> u32 \<Rightarrow> kstate \<Rightarrow> u32 flow option" where
  "stub hw num check a1 a2 a3 a4 a5 s =
     call (syscall hw num a1 a2 a3 a4 a5 s)
       (\<lambda>r s1. if check \<and> 0 < sint r then None else Some (Ret r s1))"

definition u_cputs where "u_cputs hw p len = stub hw SYS_cputs False p len 0 0 0"
definition u_cgetc where "u_cgetc hw = stub hw SYS_cgetc False 0 0 0 0 0"
definition u_env_destroy where "u_env_destroy hw e = stub hw SYS_env_destroy True e 0 0 0 0"
definition u_getenvid where "u_getenvid hw = stub hw SYS_getenvid False 0 0 0 0 0"
definition u_yield where "u_yield hw = stub hw SYS_yield False 0 0 0 0 0"
definition u_page_alloc where
  "u_page_alloc hw e va perm = stub hw SYS_page_alloc True e va perm 0 0"
definition u_page_map where
  "u_page_map hw e va e2 va2 perm = stub hw SYS_page_map True e va e2 va2 perm"
definition u_page_unmap where "u_page_unmap hw e va = stub hw SYS_page_unmap True e va 0 0 0"
definition u_exofork where "u_exofork hw = stub hw SYS_exofork False 0 0 0 0 0"
definition u_env_set_status where
  "u_env_set_status hw e st = stub hw SYS_env_set_status True e st 0 0 0"
definition u_env_set_trapframe where
  "u_env_set_trapframe hw e tf = stub hw SYS_env_set_trapframe True e tf 0 0 0"
definition u_env_set_pgfault_upcall where
  "u_env_set_pgfault_upcall hw e up = stub hw SYS_env_set_pgfault_upcall True e up 0 0 0"
definition u_env_set_priority where
  "u_env_set_priority hw e pr = stub hw SYS_env_set_priority True e pr 0 0 0"
definition u_env_restore where "u_env_restore hw e = stub hw SYS_env_restore True e 0 0 0 0"
definition u_env_set_gpfault_upcall where
  "u_env_set_gpfault_upcall hw e up = stub hw SYS_env_set_gpfault_upcall True e up 0 0 0"
definition u_env_set_divide_upcall where
  "u_env_set_divide_upcall hw e up = stub hw SYS_env_set_divide_upcall True e up 0 0 0"
definition u_env_set_illop_upcall where
  "u_env_set_illop_upcall hw e up = stub hw SYS_env_set_illop_upcall True e up 0 0 0"
definition u_page_map_update_perm where
  "u_page_map_update_perm hw e va e2 va2 perm = stub hw SYS_page_map_update_perm True e va e2 va2 perm"
definition u_uxstack_pgfault_status where
  "u_uxstack_pgfault_status hw e va perm up st = stub hw SYS_uxstack_pgfault_status True e va perm up st"
definition u_ipc_try_send where
  "u_ipc_try_send hw e v va perm = stub hw SYS_ipc_try_send False e v va perm 0"
definition u_ipc_recv where "u_ipc_recv hw va = stub hw SYS_ipc_recv True va 0 0 0 0"

lemmas stub_defs = u_page_alloc_def u_page_map_def u_page_unmap_def u_exofork_def u_getenvid_def
  u_env_set_status_def u_page_map_update_perm_def u_uxstack_pgfault_status_def
  u_env_set_pgfault_upcall_def u_ipc_try_send_def u_ipc_recv_def

text \<open>\<open>if (r < 0) panic(...)\<close> after a call.\<close>

definition must :: "u32 flow option \<Rightarrow> (u32 \<Rightarrow> kstate \<Rightarrow> 'a flow option) \<Rightarrow> 'a flow option" where
  "must f k = call f (\<lambda>r s. if neg r then None else k r s)"

section \<open>Variables of a program\<close>

record uvars =
  v_pgfault_handler :: u32
  v_gpfault_handler :: u32
  v_divide_handler :: u32
  v_illop_handler :: u32
  v_env :: nat

section \<open>lib/pageref.c\<close>

definition pageref :: "u32 \<Rightarrow> kstate \<Rightarrow> u32 option" where
  "pageref v s = do {
     pde \<leftarrow> vpd (PDX v) s;
     if pde AND PTE_P = 0 then Some 0
     else do {
       pte \<leftarrow> vpt (VPN v) s;
       if pte AND PTE_P = 0 then Some 0 else Some (ucast (pp_ref s (unat (PPN pte))))
     }
   }"

section \<open>Fault handlers\<close>

definition UXSTACK :: u32 where "UXSTACK = UXSTACKTOP - PGSIZE"

text \<open>The result is the value of \<open>_pgfault_handler\<close> afterwards, and likewise for the other faults.\<close>

definition set_pgfault_handler :: "hw \<Rightarrow> u32 \<Rightarrow> u32 \<Rightarrow> uvars \<Rightarrow> kstate \<Rightarrow> uvars flow option" where
  "set_pgfault_handler hw upcall handler v s =
     (if v_pgfault_handler v = 0 then
        must (u_uxstack_pgfault_status hw 0 UXSTACK (PTE_P OR PTE_U OR PTE_W) upcall ENV_NOT_SET s)
          (\<lambda>_ s1. Some (Ret (v\<lparr>v_pgfault_handler := handler\<rparr>) s1))
      else Some (Ret (v\<lparr>v_pgfault_handler := handler\<rparr>) s))"

definition set_gpfault_handler :: "hw \<Rightarrow> u32 \<Rightarrow> u32 \<Rightarrow> uvars \<Rightarrow> kstate \<Rightarrow> uvars flow option" where
  "set_gpfault_handler hw upcall handler v s =
     (if v_gpfault_handler v = 0 then
        call (u_getenvid hw s) (\<lambda>e s1.
        must (u_page_alloc hw e UXSTACK (PTE_P OR PTE_U OR PTE_W) s1) (\<lambda>_ s2.
        call (u_env_set_gpfault_upcall hw e upcall s2) (\<lambda>_ s3.
        Some (Ret (v\<lparr>v_gpfault_handler := handler\<rparr>) s3))))
      else Some (Ret (v\<lparr>v_gpfault_handler := handler\<rparr>) s))"

definition set_divide_handler :: "hw \<Rightarrow> u32 \<Rightarrow> u32 \<Rightarrow> uvars \<Rightarrow> kstate \<Rightarrow> uvars flow option" where
  "set_divide_handler hw upcall handler v s =
     (if v_divide_handler v = 0 then
        call (u_getenvid hw s) (\<lambda>e s1.
        must (u_page_alloc hw e UXSTACK (PTE_P OR PTE_U OR PTE_W) s1) (\<lambda>_ s2.
        call (u_env_set_divide_upcall hw e upcall s2) (\<lambda>_ s3.
        Some (Ret (v\<lparr>v_divide_handler := handler\<rparr>) s3))))
      else Some (Ret (v\<lparr>v_divide_handler := handler\<rparr>) s))"

definition set_illop_handler :: "hw \<Rightarrow> u32 \<Rightarrow> u32 \<Rightarrow> uvars \<Rightarrow> kstate \<Rightarrow> uvars flow option" where
  "set_illop_handler hw upcall handler v s =
     (if v_illop_handler v = 0 then
        call (u_getenvid hw s) (\<lambda>e s1.
        must (u_page_alloc hw e UXSTACK (PTE_P OR PTE_U OR PTE_W) s1) (\<lambda>_ s2.
        call (u_env_set_illop_upcall hw e upcall s2) (\<lambda>_ s3.
        Some (Ret (v\<lparr>v_illop_handler := handler\<rparr>) s3))))
      else Some (Ret (v\<lparr>v_illop_handler := handler\<rparr>) s))"

section \<open>lib/fork.c\<close>

definition PTE_COW :: u32 where "PTE_COW = 0x800"
definition FEC_WR :: u32 where "FEC_WR = 0x2"

definition pgfault :: "hw \<Rightarrow> u32 \<Rightarrow> u32 \<Rightarrow> kstate \<Rightarrow> unit flow option" where
  "pgfault hw addr err s =
     (if err AND FEC_WR \<noteq> FEC_WR then None
      else do {
        pde \<leftarrow> vpd (PDX addr) s;
        bad \<leftarrow> (if pde AND PTE_P \<noteq> PTE_P
                then do { pte \<leftarrow> vpt (VPN addr) s; Some (pte AND PTE_COW \<noteq> PTE_COW) }
                else Some False);
        if bad then None
        else
          must (u_page_alloc hw 0 PFTEMP (PTE_U OR PTE_P OR PTE_W) s) (\<lambda>_ s1.
          case copy_page PFTEMP (ROUNDDOWN addr PGSIZE) s1 of
            None \<Rightarrow> None
          | Some s2 \<Rightarrow>
              must (u_page_map hw 0 PFTEMP 0 (ROUNDDOWN addr PGSIZE) (PTE_U OR PTE_P OR PTE_W) s2) (\<lambda>_ s3.
              must (u_page_unmap hw 0 PFTEMP s3) (\<lambda>_ s4. Some (Ret () s4))))
      })"

definition duppage :: "hw \<Rightarrow> u32 \<Rightarrow> u32 \<Rightarrow> kstate \<Rightarrow> u32 flow option" where
  "duppage hw envid pn s = do {
     let addr = pn * PGSIZE;
     pte \<leftarrow> vpt pn s;
     if pte AND PTE_P = 0 \<or> pte AND PTE_U = 0 then None
     else if pte AND PTE_COW = PTE_COW \<or> pte AND PTE_W = PTE_W then
       must (u_page_map_update_perm hw 0 addr envid addr (PTE_COW OR PTE_P OR PTE_U) s)
         (\<lambda>_ s1. Some (Ret 0 s1))
     else
       must (u_page_map hw 0 addr envid addr (PTE_P OR PTE_U) s) (\<lambda>_ s1. Some (Ret 0 s1))
   }"

text \<open>The test of the loops over the pages: present and for the user.\<close>

definition user_page :: "u32 \<Rightarrow> kstate \<Rightarrow> bool option" where
  "user_page i s = do {
     pde \<leftarrow> vpd (PDX i) s;
     if pde AND PTE_P = 0 then Some False
     else do { pte \<leftarrow> vpt (VPN i) s; Some (pte AND PTE_P \<noteq> 0 \<and> pte AND PTE_U \<noteq> 0) }
   }"

fun each_page :: "(u32 \<Rightarrow> kstate \<Rightarrow> u32 flow option) \<Rightarrow> u32 list \<Rightarrow> kstate \<Rightarrow> unit flow option" where
  "each_page f [] s = Some (Ret () s)"
| "each_page f (i # is) s =
     (case user_page i s of
        None \<Rightarrow> None
      | Some False \<Rightarrow> each_page f is s
      | Some True \<Rightarrow> call (f i s) (\<lambda>_ s1. each_page f is s1))"

text \<open>The addresses of a loop \<open>for (i = lo; i < hi; i += PGSIZE)\<close>, both page-aligned.\<close>

definition pages_from :: "u32 \<Rightarrow> u32 \<Rightarrow> u32 list" where
  "pages_from lo hi = map (\<lambda>k. lo + of_nat k * PGSIZE) [0..<(unat hi - unat lo) div 4096]"

text \<open>
  The result of \<open>sys_exofork\<close> is 0 in the child, which runs from here when it is first scheduled.
\<close>

definition fork_child :: "hw \<Rightarrow> uvars \<Rightarrow> kstate \<Rightarrow> (u32 \<times> uvars) flow option" where
  "fork_child hw v s = call (u_getenvid hw s) (\<lambda>e s1. Some (Ret (0, v\<lparr>v_env := ENVX e\<rparr>) s1))"

definition fork_parent :: "hw \<Rightarrow> u32 \<Rightarrow> u32 \<Rightarrow> uvars \<Rightarrow> kstate \<Rightarrow> (u32 \<times> uvars) flow option" where
  "fork_parent hw upcall envid v s =
     call (each_page (\<lambda>i. duppage hw envid (VPN i)) (pages_from UTEXT UXSTACK) s) (\<lambda>_ s1.
     must (u_uxstack_pgfault_status hw envid UXSTACK (PTE_P OR PTE_U OR PTE_W) upcall ENV_RUNNABLE s1) (\<lambda>_ s2.
     Some (Ret (envid, v) s2)))"

definition fork :: "hw \<Rightarrow> u32 \<Rightarrow> u32 \<Rightarrow> uvars \<Rightarrow> kstate \<Rightarrow> (u32 \<times> uvars) flow option" where
  "fork hw upcall handler v s =
     call (set_pgfault_handler hw upcall handler v s) (\<lambda>v1 s1.
     must (u_exofork hw s1) (\<lambda>envid s2.
     if envid = 0 then fork_child hw v1 s2 else fork_parent hw upcall envid v1 s2))"

definition sfork_share :: "hw \<Rightarrow> u32 \<Rightarrow> u32 \<Rightarrow> kstate \<Rightarrow> u32 flow option" where
  "sfork_share hw envid i s = do {
     pte \<leftarrow> vpt (VPN i) s;
     if pte AND PTE_P = 0 \<or> pte AND PTE_U = 0 then None
     else if pte AND PTE_COW = PTE_COW \<or> pte AND PTE_W = PTE_W
     then must (u_page_map hw 0 i envid i (PTE_W OR PTE_P OR PTE_U) s) (\<lambda>r s1. Some (Ret r s1))
     else must (u_page_map hw 0 i envid i (PTE_P OR PTE_U) s) (\<lambda>r s1. Some (Ret r s1))
   }"

definition sfork_parent :: "hw \<Rightarrow> u32 \<Rightarrow> u32 \<Rightarrow> uvars \<Rightarrow> kstate \<Rightarrow> (u32 \<times> uvars) flow option" where
  "sfork_parent hw upcall envid v s =
     call (each_page (sfork_share hw envid) (pages_from 0 (USTACKTOP - PGSIZE)) s) (\<lambda>_ s1.
     call (each_page (\<lambda>i. duppage hw envid (VPN i)) (pages_from (USTACKTOP - PGSIZE) UXSTACK) s1) (\<lambda>_ s2.
     must (u_page_alloc hw envid UXSTACK (PTE_P OR PTE_U OR PTE_W) s2) (\<lambda>_ s3.
     call (u_env_set_pgfault_upcall hw envid upcall s3) (\<lambda>_ s4.
     must (u_env_set_status hw envid ENV_RUNNABLE s4) (\<lambda>_ s5.
     Some (Ret (envid, v) s5))))))"

definition sfork :: "hw \<Rightarrow> u32 \<Rightarrow> u32 \<Rightarrow> uvars \<Rightarrow> kstate \<Rightarrow> (u32 \<times> uvars) flow option" where
  "sfork hw upcall handler v s =
     call (set_pgfault_handler hw upcall handler v s) (\<lambda>v1 s1.
     must (u_exofork hw s1) (\<lambda>envid s2.
     if envid = 0 then fork_child hw v1 s2 else sfork_parent hw upcall envid v1 s2))"

section \<open>lib/priority.c, lib/checkpoint.c\<close>

definition set_priority :: "hw \<Rightarrow> u32 \<Rightarrow> kstate \<Rightarrow> unit flow option" where
  "set_priority hw priority s =
     call (u_getenvid hw s) (\<lambda>e s1.
     must (u_env_set_priority hw e priority s1) (\<lambda>_ s2. Some (Ret () s2)))"

text \<open>The parent saves itself: its copy stays not runnable until it is restored.\<close>

definition env_save :: "hw \<Rightarrow> u32 \<Rightarrow> u32 \<Rightarrow> uvars \<Rightarrow> kstate \<Rightarrow> u32 flow option" where
  "env_save hw upcall handler v s =
     call (fork hw upcall handler v s) (\<lambda>(envid, v1) s1.
       if envid = 0 then
         call (u_env_set_status hw 0 ENV_NOT_RUNNABLE s1) (\<lambda>_ s2.
         call (u_yield hw s2) (\<lambda>_ s3. Some (Ret envid s3)))
       else call (u_yield hw s1) (\<lambda>_ s2. Some (Ret envid s2)))"

section \<open>lib/ipc.c\<close>

text \<open>
  What ipc_recv gives when the system call has returned \<open>r\<close>: its value, and what it stores
  through \<open>from_env_store\<close> and \<open>perm_store\<close>. The fields are read from the environments mapped
  at UENVS. When the call blocks, this is what runs when the environment is resumed.
\<close>

definition ipc_recv_result :: "u32 \<Rightarrow> u32 \<Rightarrow> kstate \<Rightarrow> u32 \<times> u32 \<times> u32" where
  "ipc_recv_result me r s =
     (let v = envs s (ENVX me)
      in if neg r then (r, 0, 0) else (env_ipc_value v, env_ipc_from v, env_ipc_perm v))"

definition ipc_recv :: "hw \<Rightarrow> u32 \<Rightarrow> kstate \<Rightarrow> (u32 \<times> u32 \<times> u32) flow option" where
  "ipc_recv hw pg s =
     call (u_getenvid hw s) (\<lambda>me s1.
     call (u_ipc_recv hw pg s1) (\<lambda>r s2. Some (Ret (ipc_recv_result me r s2) s2)))"

text \<open>The second attempt, after the call was queued and the receiver has asked for the message.\<close>

definition ipc_send_again :: "hw \<Rightarrow> u32 \<Rightarrow> u32 \<Rightarrow> u32 \<Rightarrow> u32 \<Rightarrow> u32 \<Rightarrow> kstate \<Rightarrow> unit flow option" where
  "ipc_send_again hw to v va perm r s =
     (if r \<noteq> 0 then
        if r \<noteq> neg_errno E_IPC_NOT_RECV then None
        else must (u_ipc_try_send hw to v va perm s) (\<lambda>_ s1. Some (Ret () s1))
      else Some (Ret () s))"

definition ipc_send :: "hw \<Rightarrow> u32 \<Rightarrow> u32 \<Rightarrow> u32 \<Rightarrow> u32 \<Rightarrow> kstate \<Rightarrow> unit flow option" where
  "ipc_send hw to v pg perm s =
     (let va = (if pg \<noteq> 0 then pg else UTOP)
      in call (u_ipc_try_send hw to v va perm s) (\<lambda>r s1. ipc_send_again hw to v va perm r s1))"

end
