(* ===== verification/Ulib_Inv.thy ===== *)
theory Ulib_Inv
  imports Ulib Syscall_Inv Vmem_Inv
begin

text \<open>
  The user's view of its page tables (vpd and vpt of lib/entry.S), the stubs of the system calls,
  and memmove from one page to another.
\<close>

unbundle bit_operations_syntax

section \<open>Addresses as numbers\<close>

text \<open>The address of word \<open>k\<close> of the page that entries \<open>i\<close> and \<open>j\<close> map.\<close>

lemma index_parts:
  assumes "unat a = i * 4194304 + j * 4096 + k * 4" and "j < 1024" and "k < 1024"
  shows "unat (PDX a) = i" "unat (PTX a) = j" "unat (PGOFF a) = k * 4"
proof -
  have k: "k * 4 < 4096" using assms(3) by simp
  have d: "unat a div 4096 = i * 1024 + j" using k unfolding assms(1) by simp
  show "unat (PTX a) = j" using assms(2) unfolding unat_PTX d by simp
  have "unat a div 4096 div 1024 = i" using assms(2) unfolding d by simp
  then show "unat (PDX a) = i" by (simp add: unat_PDX div_mult2_eq [symmetric])
  have "i * 4194304 + j * 4096 + k * 4 = k * 4 + (i * 1024 + j) * 4096" by simp
  then show "unat (PGOFF a) = k * 4" using k unfolding PGOFF_unat assms(1) by (simp only: mod_mult_self1 mod_less)
qed

section \<open>The page tables as the user reads them\<close>

text \<open>
  \<open>self_map s d\<close>: directory \<open>d\<close> is loaded and maps itself for the user at UVPT, as
  env_setup_vm arranges. \<open>user_tables s d\<close>: its entries below UTOP give the user access, as
  pgdir_walk makes them.
\<close>

definition self_map :: "kstate \<Rightarrow> nat \<Rightarrow> bool" where
  "self_map s d \<longleftrightarrow> unat (PPN (cr3 s)) = d \<and> d < 2 ^ 20 \<and> mem s d 957 = page2pa d OR PTE_P OR PTE_U"

definition user_tables :: "kstate \<Rightarrow> nat \<Rightarrow> bool" where
  "user_tables s d \<longleftrightarrow> (\<forall>i<UPDX. ptmap s (d, i) \<noteq> None \<longrightarrow>
     mem s d i AND PTE_U \<noteq> 0 \<and> mem s d i AND PTE_W \<noteq> 0)"

lemma self_entry:
  assumes "d < 2 ^ 20"
  shows "unat (PPN (page2pa d OR PTE_P OR PTE_U)) = d"
    "(page2pa d OR PTE_P OR PTE_U) AND PTE_P \<noteq> 0" "(page2pa d OR PTE_P OR PTE_U) AND PTE_U \<noteq> 0"
proof -
  have mk: "page2pa d OR PTE_P OR PTE_U = mkpte d PTE_U" by (simp add: mkpte_def or.commute or.left_commute)
  show "unat (PPN (page2pa d OR PTE_P OR PTE_U)) = d"
    "(page2pa d OR PTE_P OR PTE_U) AND PTE_P \<noteq> 0"
    unfolding mk using assms PPN_mkpte [of d PTE_U] ent_mkpte [of d PTE_U] ent_SomeD [of "mkpte d PTE_U" d]
    by (simp_all add: pte_flags)
  have "bit (page2pa d OR PTE_P OR PTE_U) 2" by (simp add: bit_simps pte_flags bit_numeral_rec)
  then have "bit ((page2pa d OR PTE_P OR PTE_U) AND PTE_U) 2"
    by (simp add: bit_simps pte_flags bit_numeral_rec)
  then show "(page2pa d OR PTE_P OR PTE_U) AND PTE_U \<noteq> 0" by (metis bit_0_eq bot_apply bot_bool_def)
qed

text \<open>Any address of the page of a user mapping.\<close>

lemma user_read_page:
  assumes "unat (PPN (cr3 s)) = d" and "mem s d (unat (PDX a)) AND PTE_P \<noteq> 0" and "mem s d (unat (PDX a)) AND PTE_U \<noteq> 0"
    and "unat (PPN (mem s d (unat (PDX a)))) = t" and "mem s t (unat (PTX a)) AND PTE_P \<noteq> 0"
    and "mem s t (unat (PTX a)) AND PTE_U \<noteq> 0" and "unat (PPN (mem s t (unat (PTX a)))) = f"
    and "unat (PGOFF a) = k * 4"
  shows "uread32 a s = Some (mem s f k)"
proof -
  have w: "mmu_walk False a s = Some f" using assms by (simp add: mmu_walk_def rd_def Let_def)
  have "user_walk False a s = Some f" using assms w by (simp add: user_walk_def rd_def Let_def)
  moreover have "vread32 a s = Some (rd s (f, k))" using vread32_page [OF w] assms(8) by simp
  ultimately show ?thesis by (simp add: uread32_def rd_def)
qed

lemma vpd_ok:
  assumes "self_map s d" and "unat i < 1024"
  shows "vpd i s = Some (mem s d (unat i))"
proof -
  let ?a = "UVPT + push_bit 2 (drop_bit 12 UVPT) + 4 * i"
  have b: "(UVPT + push_bit 2 (drop_bit 12 UVPT) :: u32) = 0xEF7BD000" by (simp add: layout)
  have "unat (4 * i) = 4 * unat i" using assms(2) by (simp add: unat_word_ariths)
  then have u: "unat ?a = 957 * 4194304 + 957 * 4096 + unat i * 4"
    using assms(2) unfolding b by (simp add: unat_word_ariths)
  note ix = index_parts [OF u _ assms(2), simplified]
  note se = self_entry [of d]
  show ?thesis
    unfolding vpd_def
    by (rule user_read_page [where d = d and t = d]) (use assms(1) se ix in \<open>simp_all add: self_map_def\<close>)
qed

lemma vpt_ok:
  assumes "self_map s d" and "user_tables s d" and va: "va < UTOP"
    and t: "ptmap s (d, unat (PDX va)) = Some t"
  shows "vpt (VPN va) s = Some (leafpte s (slot d va))"
proof -
  let ?a = "UVPT + 4 * VPN va" and ?n = "unat (VPN va)"
  have n: "?n < 1048576" using unsigned_less [of va, where 'a = nat] by (simp add: unat_VPN less_mult_imp_div_less)
  have "unat (4 * VPN va) = 4 * ?n" using n by (simp add: unat_word_ariths)
  then have u0: "unat ?a = 957 * 4194304 + 4 * ?n" using n by (simp add: unat_word_ariths layout)
  have q: "?n div 1024 < 1024" using n by (simp add: less_mult_imp_div_less)
  have "4 * ?n = ?n div 1024 * 4096 + ?n mod 1024 * 4"
    using div_mult_mod_eq [of ?n 1024] by linarith
  then have u: "unat ?a = 957 * 4194304 + ?n div 1024 * 4096 + ?n mod 1024 * 4" using u0 by simp
  have m: "?n mod 1024 < 1024" by simp
  note ix = index_parts [OF u q m]
  have j: "?n div 1024 = unat (PDX va)" by (simp add: unat_VPN unat_PDX div_mult2_eq [symmetric])
  have k: "?n mod 1024 = unat (PTX va)" by (simp add: unat_VPN unat_PTX)
  have e: "mem s d (unat (PDX va)) AND PTE_P \<noteq> 0" "unat (PPN (mem s d (unat (PDX va)))) = t"
    using t ent_SomeD [of "mem s d (unat (PDX va))" t] by (simp_all add: ptmap_def)
  have U: "mem s d (unat (PDX va)) AND PTE_U \<noteq> 0"
    using assms(2) t PDX_user [OF va] by (simp add: user_tables_def)
  note se = self_entry [of d]
  have "vpt (VPN va) s = Some (mem s t (unat (PTX va)))"
    unfolding vpt_def
    by (rule user_read_page [where d = d and t = d])
      (use assms(1) se ix e U in \<open>simp_all add: self_map_def j k\<close>)
  then show ?thesis using t by (simp add: slot_def leafpte_def)
qed

lemma PDX_small: "unat (PDX va) < 1024"
  by (rule PDX_lt)

section \<open>The stubs\<close>

lemma neg_0 [simp]: "\<not> neg 0"
  by (simp add: neg_def)

lemma call_ret_unit: "ret_unit (Some (Inr (), s')) = Some (Ret 0 s')"
  by (simp add: ret_unit_def)

lemma u_page_alloc_ok: "sys_page_alloc e va perm s = Some (Inr (), s') \<Longrightarrow> u_page_alloc hw e va perm s = Some (Ret 0 s')"
  by (simp add: u_page_alloc_def stub_def syscall_def sysno_defs ret_unit_def)

lemma u_page_map_ok: "sys_page_map e va e2 va2 perm s = Some (Inr (), s') \<Longrightarrow> u_page_map hw e va e2 va2 perm s = Some (Ret 0 s')"
  by (simp add: u_page_map_def stub_def syscall_def sysno_defs ret_unit_def)

lemma u_page_unmap_ok: "sys_page_unmap e va s = Some (Inr (), s') \<Longrightarrow> u_page_unmap hw e va s = Some (Ret 0 s')"
  by (simp add: u_page_unmap_def stub_def syscall_def sysno_defs ret_unit_def)

lemma u_page_map_update_perm_ok:
  assumes "sys_page_map e va e2 va2 perm s = Some (Inr (), s1)" and "sys_page_map e va e va2 perm s1 = Some (Inr (), s')"
  shows "u_page_map_update_perm hw e va e2 va2 perm s = Some (Ret 0 s')"
  using assms by (simp add: u_page_map_update_perm_def stub_def syscall_def sysno_defs ret_unit_def)

lemma must_0 [simp]: "must (Some (Ret 0 s)) k = k 0 s"
  by (simp add: must_def)

section \<open>Frames\<close>

text \<open>What the calls on page tables keep for the user: everything but memory, and its own view.\<close>

definition uframe :: "nat set \<Rightarrow> kstate \<Rightarrow> kstate \<Rightarrow> bool" where
  "uframe D s s' \<longleftrightarrow> same_rest s s' \<and>
     (\<forall>d \<in> D. (self_map s d \<longrightarrow> self_map s' d) \<and> (user_tables s d \<longrightarrow> user_tables s' d))"

lemma uframe_refl [simp]: "uframe D s s"
  by (simp add: uframe_def)

lemma uframe_trans [trans]: "uframe D s s' \<Longrightarrow> uframe D s' s'' \<Longrightarrow> uframe D s s''"
  using same_rest_trans by (auto simp: uframe_def)

lemma uframe_mem:
  assumes "same_rest s s'" and "\<And>d. d \<in> D \<Longrightarrow> mem s' d = mem s d"
  shows "uframe D s s'"
  using assms by (auto simp: uframe_def self_map_def user_tables_def ptmap_def same_rest_def)

lemma insert_uframe:
  assumes inv: "mm_inv s D K fl" and d: "d \<in> D" and va: "va < UTOP"
    and i: "page_insert d pp va perm s = Some (Inr (), s')"
  shows "uframe D s s'"
proof -
  note im = insert_mem [OF inv d va i]
  have sr: "same_rest s s'" using insert_tlb [OF i] by blast
  have pd: "unat (PDX va) < 955" using PDX_user [OF va] by (simp add: UPDX_val)
  have UW: "mkpte t (PTE_U OR PTE_W) AND PTE_U \<noteq> 0 \<and> mkpte t (PTE_U OR PTE_W) AND PTE_W \<noteq> 0" for t
  proof -
    have "bit (mkpte t (PTE_U OR PTE_W) AND PTE_U) 2" "bit (mkpte t (PTE_U OR PTE_W) AND PTE_W) 1"
      by (simp_all add: mkpte_def bit_simps pte_flags bit_numeral_rec)
    then show ?thesis by (metis bit_0_eq bot_apply bot_bool_def)
  qed
  show ?thesis
    unfolding uframe_def
  proof (intro conjI ballI impI sr)
    fix a assume a: "a \<in> D" "self_map s a"
    have "mem s' a 957 = mem s a 957"
    proof (cases "a = d")
      case True
      then show ?thesis using im(2) [of 957] pd by simp
    next
      case False
      then show ?thesis using im(1,4) a(1) by metis
    qed
    then show "self_map s' a" using a(2) sr by (simp add: self_map_def same_rest_def)
  next
    fix a assume a: "a \<in> D" "user_tables s a"
    have "mem s' a j AND PTE_U \<noteq> 0 \<and> mem s' a j AND PTE_W \<noteq> 0"
      if j: "j < UPDX" and p: "ptmap s' (a, j) \<noteq> None" for j
    proof (cases "ptmap s (a, j)")
      case None
      have y: "(a, j) \<in> ptslots D" using a(1) j by (simp add: ptslots_def)
      from insert_ptmap [OF inv d va i y] None p have "a = d" "j = unat (PDX va)" by (auto split: if_splits)
      then show ?thesis using im(3) None UW by simp
    next
      case (Some t)
      have "mem s' a j = mem s a j"
      proof (cases "a = d")
        case True
        then show ?thesis using im(2,3) Some by (cases "j = unat (PDX va)") auto
      next
        case False
        then show ?thesis using im(1,4) a(1) by metis
      qed
      then show ?thesis using a(2) j Some by (simp add: user_tables_def)
    qed
    then show "user_tables s' a" by (simp add: user_tables_def)
  qed
qed

lemma remove_uframe:
  assumes "mm_inv s D K fl" and "d \<in> D" and "va < UTOP" and "leafmap s (slot d va) = Some p"
    and "page_remove d va s = Some s'"
  shows "uframe D s s'"
  using remove_dirs [OF assms] remove_tlb(1) [OF assms(5)] by (rule uframe_mem [rotated])

section \<open>Copying a page\<close>

lemma vread_page:
  assumes "mmu_walk False va s = Some f" and "unat (PGOFF va) = 0" and "k + n \<le> 4096"
  shows "vread_bytes (va + of_nat k) n s = Some (map (\<lambda>j. get_byte (j mod 4) (mem s f (j div 4))) [k..<k + n])"
  using assms(3)
proof (induction n arbitrary: k)
  case 0
  then show ?case by simp
next
  case (Suc n)
  have "vread8 (va + of_nat k) s = Some (get_byte (k mod 4) (mem s f (k div 4)))"
    using vread8_page [OF assms(1), of k] assms(2) Suc.prems by (simp add: rd_def)
  moreover have "vread_bytes (va + of_nat (Suc k)) n s
      = Some (map (\<lambda>j. get_byte (j mod 4) (mem s f (j div 4))) [Suc k..<Suc k + n])"
    using Suc.IH [of "Suc k"] Suc.prems by simp
  moreover have "[k..<k + Suc n] = k # [Suc k..<Suc k + n]" using upt_conv_Cons [of k "k + Suc n"] by simp
  moreover have "va + of_nat (Suc k) = va + of_nat k + 1" by (simp add: add.commute add.left_commute)
  ultimately show ?case by (simp del: upt_Suc of_nat_Suc)
qed

lemma vwrite_concat: "vwrite_bytes va (concat (map word_bytes ws)) s = vwrite_words va ws s"
proof (induction ws arbitrary: va s)
  case (Cons w ws)
  have "length (word_bytes w) = 4" by (simp add: word_bytes_def)
  then show ?case
    using Cons by (simp add: vwrite_bytes_append vwrite32_def split: option.split)
qed simp

lemma page_bytes:
  "map (\<lambda>j. get_byte (j mod 4) (g (j div 4))) [0..<4 * n] = concat (map word_bytes (map g [0..<n]))"
proof (induction n)
  case (Suc n)
  have "[0..<4 * Suc n] = [0..<4 * n] @ [4 * n..<4 * n + 4]"
    using upt_add_eq_append [of 0 "4 * n" 4] by (simp add: add.commute)
  moreover have "[4 * n..<4 * n + 4] = map (\<lambda>j. j + 4 * n) [0..<4]" by (simp add: map_add_upt add.commute)
  moreover have "map (\<lambda>j. get_byte (j mod 4) (g (j div 4))) (map (\<lambda>j. j + 4 * n) [0..<4]) = word_bytes (g n)"
    by (simp add: word_bytes_def)
  moreover have "[0..<Suc n] = [0..<n] @ [n]" by simp
  ultimately show ?case using Suc by (simp del: upt_Suc map_map)
qed simp

lemma copy_page_ok:
  assumes "user_walk False src s = Some f" and "user_walk True dst s = Some g"
    and "writable_page dst g s" and "unat (PGOFF src) = 0" and "unat (PGOFF dst) = 0"
  shows "\<exists>s'. copy_page dst src s = Some s' \<and> (\<forall>i<1024. mem s' g i = mem s f i)
    \<and> (\<forall>h. h \<noteq> g \<longrightarrow> mem s' h = mem s h) \<and> s' = s\<lparr>mem := mem s'\<rparr>"
proof -
  have w: "mmu_walk False src s = Some f"
    using assms(1) by (simp add: user_walk_def Let_def split: if_splits)
  have "vread_bytes src 4096 s = Some (concat (map word_bytes (map (mem s f) [0..<1024])))"
    using vread_page [OF w assms(4), of 0 4096] page_bytes [of "mem s f" 1024] by simp
  moreover have "vwrite_bytes dst (concat (map word_bytes (map (mem s f) [0..<1024]))) s
      = Some (store_words g 0 (map (mem s f) [0..<1024]) s)"
    using vwrite_words_store [OF assms(3), of "map (mem s f) [0..<1024]"] assms(5) unfolding vwrite_concat by simp
  ultimately have "copy_page dst src s = Some (store_words g 0 (map (mem s f) [0..<1024]) s)"
    using assms(1,2) by (simp add: copy_page_def)
  then show ?thesis by (auto simp: store_words_def upd_words_def)
qed

end
