(* ===== verification/Fork_Inv.thy ===== *)
theory Fork_Inv
  imports Ulib_Inv Syscall_Spec
begin

text \<open>
  Copy-on-write (lib/fork.c): what duppage does to the parent's and the child's mapping of a page,
  what the page fault handler does on a write to a copy-on-write page, and the isolation that
  the two give; the loop of fork over the whole address space.
\<close>

unbundle bit_operations_syntax

section \<open>The environments involved\<close>

text \<open>
  \<open>running s D d\<close>: some environment runs on directory \<open>d\<close> and sees its own page tables;
  \<open>proc s D envid d\<close>: the current environment may act on \<open>envid\<close>, whose directory is \<open>d\<close>.
\<close>

definition running :: "kstate \<Rightarrow> nat set \<Rightarrow> nat \<Rightarrow> bool" where
  "running s D d \<longleftrightarrow> (\<exists>c. curenv s = Some c \<and> env_pgdir (envs s c) = Some d) \<and> d \<in> D
     \<and> self_map s d \<and> user_tables s d"

definition proc :: "kstate \<Rightarrow> nat set \<Rightarrow> u32 \<Rightarrow> nat \<Rightarrow> bool" where
  "proc s D envid d \<longleftrightarrow> (\<exists>e. envid2env envid True s = Some (Inr (Some e)) \<and> env_pgdir (envs s e) = Some d) \<and> d \<in> D"

lemma running_proc: "running s D d \<Longrightarrow> proc s D 0 d"
  by (auto simp: running_def proc_def envid2env_def)

lemma running_uframe: "running s D d \<Longrightarrow> uframe D s s' \<Longrightarrow> running s' D d"
  by (simp add: running_def uframe_def same_rest_def)

lemma envid2env_same: "same_rest s s' \<Longrightarrow> envid2env i p s' = envid2env i p s"
  by (simp add: same_rest_def envid2env_def Let_def)

lemma proc_uframe: "proc s D envid d \<Longrightarrow> uframe D s s' \<Longrightarrow> proc s' D envid d"
  using envid2env_same [of s s'] by (auto simp: proc_def uframe_def same_rest_def)

lemma uframe_same: "uframe D s s' \<Longrightarrow> same_rest s s'"
  by (simp add: uframe_def)

section \<open>Sharing a page with one more mapping\<close>

lemma sys_page_map_ok:
  assumes inv: "mm_inv s D K fl" and p: "proc s D id1 d1" "proc s D id2 d2"
    and va: "\<not> bad_va va1" "\<not> bad_va va2" "\<not> bad_perm perm"
    and pp: "leafmap s (slot d1 va1) = Some pp"
    and w: "perm AND PTE_W \<noteq> 0 \<longrightarrow> leafpte s (slot d1 va1) AND PTE_W \<noteq> 0"
    and ref: "unat (pp_ref s pp) < 65535"
    and room: "ptmap s (d2, unat (PDX va2)) \<noteq> None \<or> fl \<noteq> []"
  shows "\<exists>s'. sys_page_map id1 va1 id2 va2 perm s = Some (Inr (), s')
    \<and> mm_inv s' D K (insert_free s d2 va2 pp fl)
    \<and> (\<forall>y \<in> leafslots D. leafpte s' y = ((leafpte s)(slot d2 va2 := mkpte pp perm)) y)
    \<and> page_insert d2 pp va2 perm s = Some (Inr (), s') \<and> uframe D s s'"
proof -
  obtain e1 e2 where e: "envid2env id1 True s = Some (Inr (Some e1))" "env_pgdir (envs s e1) = Some d1" "d1 \<in> D"
    "envid2env id2 True s = Some (Inr (Some e2))" "env_pgdir (envs s e2) = Some d2" "d2 \<in> D"
    using p by (auto simp: proc_def)
  note lt = good_va_lt [OF va(1)] good_va_lt [OF va(2)] and perm = good_perm_lt [OF va(3)]
  have run: "sys_page_map id1 va1 id2 va2 perm s = share_page e1 va1 e2 va2 perm s"
    using va e by (simp add: sys_page_map_def with_env_def)
  from share_page_maps [OF inv e(2,3,5,6) lt perm pp w ref room] obtain s' where
    s': "share_page e1 va1 e2 va2 perm s = Some (Inr (), s')" "mm_inv s' D K (insert_free s d2 va2 pp fl)"
    "\<forall>y \<in> leafslots D. leafpte s' y = ((leafpte s)(slot d2 va2 := mkpte pp perm)) y"
    "page_insert d2 pp va2 perm s = Some (Inr (), s')" by blast
  with run insert_uframe [OF inv e(6) lt(2) s'(4)] show ?thesis by auto
qed

text \<open>One more mapping of a page adds at most one reference.\<close>

lemma refs_upd:
  assumes inv: "mm_inv s D K fl" and inv': "mm_inv s' D K fl'" and x: "x \<in> leafslots D"
    and lf: "\<forall>y \<in> leafslots D. leafmap s' y = ((leafmap s)(x := Some p)) y"
    and p: "data_page s D fl p"
  shows "unat (pp_ref s' p) \<le> unat (pp_ref s p) + 1"
    and "q \<noteq> p \<Longrightarrow> data_page s D fl q \<Longrightarrow> data_page s' D fl' q \<Longrightarrow> unat (pp_ref s' q) \<le> unat (pp_ref s q)"
proof -
  have tot: "unat (pp_ref s' q) \<le> unat (pp_ref s q) + (if q = p then 1 else 0)"
    if q: "data_page s D fl q" "data_page s' D fl' q" for q
  proof -
    have "nrefs (leafmap s') (leafslots D) q = nrefs ((leafmap s)(x := Some p)) (leafslots D) q"
      by (rule nrefs_cong) (use lf in auto)
    then have "nrefs (leafmap s') (leafslots D) q \<le> nrefs (leafmap s) (leafslots D) q + (if q = p then 1 else 0)"
      using nrefs_upd [of "leafslots D" x "leafmap s" "Some p" q] mm_invD(2) [OF inv] x by (auto split: if_splits)
    moreover have "unat (pp_ref s' q) = total_refs s' D K q" "unat (pp_ref s q) = total_refs s D K q"
      using mm_invD(5) [OF inv] mm_invD(5) [OF inv'] q by (auto simp: data_page_def)
    ultimately show ?thesis using q by (simp add: total_refs_def data_page_def)
  qed
  have "leafmap s' x = Some p" using lf x by simp
  from mapped_data [OF inv' x this] have p': "data_page s' D fl' p" .
  show "unat (pp_ref s' p) \<le> unat (pp_ref s p) + 1" using tot [OF p p'] by simp
  show "q \<noteq> p \<Longrightarrow> data_page s D fl q \<Longrightarrow> data_page s' D fl' q \<Longrightarrow> unat (pp_ref s' q) \<le> unat (pp_ref s q)"
    using tot [of q] by simp
qed
section \<open>duppage\<close>

text \<open>The permissions of the child's mapping, and of the parent's afterwards.\<close>

definition writable_pte :: "u32 \<Rightarrow> bool" where
  "writable_pte pte \<longleftrightarrow> pte AND PTE_COW = PTE_COW \<or> pte AND PTE_W = PTE_W"

definition cow_perm :: "u32 \<Rightarrow> u32" where
  "cow_perm pte = (if writable_pte pte then PTE_COW OR PTE_P OR PTE_U else PTE_P OR PTE_U)"

lemma cow_perm_ok: "\<not> bad_perm (cow_perm pte)" "cow_perm pte AND PTE_W = 0" "unat (cow_perm pte) < 4096"
proof -
  show "\<not> bad_perm (cow_perm pte)" "cow_perm pte AND PTE_W = 0"
    by (simp_all add: cow_perm_def bad_perm_def pte_flags PTE_USER_def PTE_COW_def)
  then show "unat (cow_perm pte) < 4096" using good_perm_lt by blast
qed

lemma VPN_page: "\<not> bad_va va \<Longrightarrow> VPN va * PGSIZE = va"
proof -
  assume "\<not> bad_va va"
  then have "va mod PGSIZE = 0" by (simp add: bad_va_def)
  then have m: "unat va mod 4096 = 0" by (simp add: layout word_unat_eq_iff unat_mod_distrib)
  have "unat va < 4294967296" using unsigned_less [of va, where 'a = nat] by simp
  have "unat va div 4096 * 4096 + unat va mod 4096 = unat va" by simp
  then have "unat (VPN va) * 4096 = unat va" using m unat_VPN [of va] by simp
  moreover from this have "unat (VPN va * 4096) = unat (VPN va) * 4096"
    using \<open>unat va < 4294967296\<close> by (simp add: unat_word_ariths)
  ultimately show "VPN va * PGSIZE = va" by (simp add: layout word_unat_eq_iff)
qed

lemma duppage_ok:
  assumes inv: "mm_inv s D K fl" and run: "running s D d" and child: "proc s D envid d2" and ne: "d2 \<noteq> d"
    and va: "\<not> bad_va va" and pp: "leafmap s (slot d va) = Some pp" and U: "leafpte s (slot d va) AND PTE_U \<noteq> 0"
    and ref: "unat (pp_ref s pp) < 65534"
    and room: "ptmap s (d2, unat (PDX va)) \<noteq> None \<or> fl \<noteq> []"
    and perm: "perm = cow_perm (leafpte s (slot d va))"
  shows "\<exists>s'. duppage hw envid (VPN va) s = Some (Ret 0 s')
    \<and> mm_inv s' D K (insert_free s d2 va pp fl) \<and> uframe D s s'
    \<and> (\<forall>y \<in> leafslots D. leafpte s' y = ((leafpte s)(slot d2 va := mkpte pp perm,
        slot d va := (if writable_pte (leafpte s (slot d va)) then mkpte pp perm else leafpte s (slot d va)))) y)
    \<and> (\<forall>f. data_page s D fl f \<longrightarrow> mem s' f = mem s f)
    \<and> (\<forall>y \<in> ptslots D. ptmap s' y = (if ptmap s y = None \<and> y = (d2, unat (PDX va)) then Some (hd fl) else ptmap s y))
    \<and> (tlb_coherent s d \<longrightarrow> tlb_coherent s' d)"
proof -
  let ?pte = "leafpte s (slot d va)"
  have d: "d \<in> D" "self_map s d" "user_tables s d" using run by (auto simp: running_def)
  have d2: "d2 \<in> D" using child by (simp add: proc_def)
  note lt = good_va_lt [OF va] and cp = cow_perm_ok [of ?pte, folded perm]
  obtain t where t: "ptmap s (d, unat (PDX va)) = Some t"
    using leafmap_ptmap [OF pp [unfolded slot_def]] by blast
  note vp = vpt_ok [OF d(2,3) lt t]
  have pte: "?pte AND PTE_P \<noteq> 0" using pp ent_SomeD by (auto simp: leafmap_def)
  have ref': "unat (pp_ref s pp) < 65535" using ref by simp
  have W: "perm AND PTE_W \<noteq> 0 \<longrightarrow> ?pte AND PTE_W \<noteq> 0" using cp(2) by simp
  from sys_page_map_ok [OF inv running_proc [OF run] child va va cp(1) pp W ref' room] obtain s1 where
    s1: "sys_page_map 0 va envid va perm s = Some (Inr (), s1)" "mm_inv s1 D K (insert_free s d2 va pp fl)"
      "\<forall>y \<in> leafslots D. leafpte s1 y = ((leafpte s)(slot d2 va := mkpte pp perm)) y"
      "page_insert d2 pp va perm s = Some (Inr (), s1)" "uframe D s s1" by blast
  have dat: "mem s1 f = mem s f \<and> no_table s1 D f" if "data_page s D fl f" for f
    using insert_keep [OF inv d2 lt s1(4) no_table_data [OF inv that]] that by (simp add: data_page_def)
  have sl: "slot d va \<in> leafslots D" "slot d2 va \<in> leafslots D" using slot_in(1) d(1) d2 lt by blast+
  have ns: "slot d va \<noteq> slot d2 va" using ne by (simp add: slot_def)
  have pn: "pp < 2 ^ 20"
    using mm_invD(9) [OF inv sl(1) pp] mm_invD(4) [OF inv] by simp
  have lf1: "leafmap s1 y = ((leafmap s)(slot d2 va := Some pp)) y" if "y \<in> leafslots D" for y
    using s1(3) that pn cp(3) by (simp add: leafmap_def)
  have r1: "running s1 D d" using running_uframe [OF run s1(5)] .
  have act: "active s d" "active s1 d" using run r1 by (auto simp: running_def active_def)
  have co1: "tlb_coherent s d \<longrightarrow> tlb_coherent s1 d"
    using insert_coherent [OF inv d2 d(1) lt mapped_data [OF inv sl(1) pp] ref' cp(3) act(1) _ s1(4)] by blast
  show ?thesis
  proof (cases "writable_pte ?pte")
    case False
    have "duppage hw envid (VPN va) s = Some (Ret 0 s1)"
      using vp pte U s1(1) False perm VPN_page [OF va]
      by (simp add: duppage_def writable_pte_def cow_perm_def u_page_map_ok)
    moreover have "(leafpte s)(slot d2 va := mkpte pp perm, slot d va := ?pte) = (leafpte s)(slot d2 va := mkpte pp perm)"
      using ns by (auto simp: fun_eq_iff)
    ultimately show ?thesis using s1(2,3,5) dat insert_ptmap [OF inv d2 lt s1(4)] False co1 by auto
  next
    case True
    have pp1: "leafmap s1 (slot d va) = Some pp" using lf1 [OF sl(1)] ns pp by simp
    have t1: "ptmap s1 (d, unat (PDX va)) \<noteq> None"
      using leafmap_ptmap [OF pp1 [unfolded slot_def]] by blast
    have "unat (pp_ref s1 pp) \<le> unat (pp_ref s pp) + 1"
      by (rule refs_upd [OF inv s1(2) sl(2) _ mapped_data [OF inv sl(1) pp]]) (use lf1 in blast)
    then have rf: "unat (pp_ref s1 pp) < 65535" using ref by simp
    have W1: "perm AND PTE_W \<noteq> 0 \<longrightarrow> leafpte s1 (slot d va) AND PTE_W \<noteq> 0" using cp(2) by simp
    note me = running_proc [OF r1]
    from sys_page_map_ok [OF s1(2) me me va va cp(1) pp1 W1 rf] t1 obtain s2 where
      s2: "sys_page_map 0 va 0 va perm s1 = Some (Inr (), s2)"
        "mm_inv s2 D K (insert_free s1 d va pp (insert_free s d2 va pp fl))"
        "\<forall>y \<in> leafslots D. leafpte s2 y = ((leafpte s1)(slot d va := mkpte pp perm)) y"
        "page_insert d pp va perm s1 = Some (Inr (), s2)" "uframe D s1 s2" by blast
    have ifr: "insert_free s1 d va pp (insert_free s d2 va pp fl) = insert_free s d2 va pp fl"
      using pp1 t1 by (auto simp: insert_free_def [of s1 d])
    have "duppage hw envid (VPN va) s = Some (Ret 0 s2)"
      using vp pte U u_page_map_update_perm_ok [OF s1(1) s2(1)] True perm VPN_page [OF va]
      by (simp add: duppage_def writable_pte_def cow_perm_def)
    moreover have "mem s2 f = mem s f" if "data_page s D fl f" for f
      using insert_keep [OF s1(2) d(1) lt s2(4), of f] dat [OF that] t1 by simp
    moreover have "\<forall>y \<in> leafslots D. leafpte s2 y
        = ((leafpte s)(slot d2 va := mkpte pp perm, slot d va := mkpte pp perm)) y"
      using s1(3) s2(3) by auto
    moreover have "ptmap s2 y = (if ptmap s y = None \<and> y = (d2, unat (PDX va)) then Some (hd fl) else ptmap s y)"
      if "y \<in> ptslots D" for y
      using insert_ptmap [OF s1(2) d(1) lt s2(4) that] insert_ptmap [OF inv d2 lt s1(4) that] t1 by auto
    moreover have "tlb_coherent s d \<longrightarrow> tlb_coherent s2 d"
      using co1 insert_coherent [OF s1(2) d(1,1) lt mapped_data [OF s1(2) sl(1) pp1] rf cp(3) act(2) _ s2(4)] by blast
    ultimately show ?thesis
      using s2(2) ifr uframe_trans [OF s1(5) s2(5)] True by auto
  qed
qed

section \<open>A new page\<close>

lemma sys_page_alloc_ok:
  assumes inv: "mm_inv s D K (pp # fl)" and p: "proc s D i d" and va: "\<not> bad_va va" "\<not> bad_perm perm"
    and room: "ptmap s (d, unat (PDX va)) \<noteq> None \<or> fl \<noteq> []"
  shows "\<exists>s'. sys_page_alloc i va perm s = Some (Inr (), s') \<and> mm_inv s' D K (insert_free s d va pp fl)
    \<and> mem s' pp = (\<lambda>_. 0) \<and> unat (pp_ref s' pp) \<le> 1
    \<and> (\<forall>y \<in> leafslots D. leafpte s' y = ((leafpte s)(slot d va := mkpte pp perm)) y)
    \<and> uframe D s s' \<and> (\<forall>f. no_table s D f \<and> f \<notin> set (pp # fl) \<longrightarrow> mem s' f = mem s f \<and> no_table s' D f)"
proof -
  obtain e where e: "envid2env i True s = Some (Inr (Some e))" "env_pgdir (envs s e) = Some d" "d \<in> D"
    using p by (auto simp: proc_def)
  note lt = good_va_lt [OF va(1)] and pl = good_perm_lt [OF va(2)]
  from sys_page_alloc_maps [OF inv e va room] obtain s' l s2 where
    s': "sys_page_alloc i va perm s = Some (Inr (), s')" "mm_inv s' D K (insert_free s d va pp fl)"
      "mem s' pp = (\<lambda>_. 0)" "\<forall>y \<in> leafslots D. leafpte s' y = ((leafpte s)(slot d va := mkpte pp perm)) y"
    and l: "page_insert d pp va perm (s\<lparr>page_free_list := l\<rparr>) = Some (Inr (), s2)"
      "mm_inv (s\<lparr>page_free_list := l\<rparr>) D K fl" "s' = zero_page pp s2" by blast
  let ?s1 = "s\<lparr>page_free_list := l\<rparr>"
  have sl: "slot d va \<in> leafslots D" by (rule slot_in(1) [OF e(3) lt])
  have pn: "pp < 2 ^ 20" using mm_inv_free(1) [OF inv, of pp] mm_invD(4) [OF inv] by auto
  have lf: "leafmap s' y = ((leafmap ?s1)(slot d va := Some pp)) y" if "y \<in> leafslots D" for y
    using s'(4) that pn pl by (simp add: leafmap_def)
  have "leafmap s' (slot d va) = Some pp" using lf [OF sl] by simp
  then have pD: "pp \<notin> D" using mapped_data [OF s'(2) sl] by (simp add: data_page_def)
  have pt: "ptmap s' y = ptmap s2 y" if "y \<in> ptslots D" for y
    using that pD l(3) by (auto simp: ptmap_def ptslots_def zero_page_def)
  have f1: "uframe D s ?s1" by (rule uframe_mem) (simp_all add: same_rest_def)
  have f3: "uframe D s2 s'" by (rule uframe_mem) (use pD l(3) in \<open>auto simp: same_rest_def zero_page_def\<close>)
  have fr: "uframe D s s'"
    using uframe_trans [OF uframe_trans [OF f1 insert_uframe [OF l(2) e(3) lt l(1)]] f3] .
  have "unat (pp_ref s' pp) \<le> unat (pp_ref ?s1 pp) + 1"
    by (rule refs_upd [OF l(2) s'(2) sl _ page_alloc_data [OF inv l(2)]]) (use lf in blast)
  then have r: "unat (pp_ref s' pp) \<le> 1" using mm_inv_free(2) [OF inv, of pp] by simp
  have keep: "mem s' f = mem s f \<and> no_table s' D f" if "no_table s D f" "f \<notin> set (pp # fl)" for f
  proof -
    have "no_table ?s1 D f" using that(1) by (simp add: no_table_def ptmap_def)
    from insert_keep [OF l(2) e(3) lt l(1) this] that(2) have "mem s2 f = mem s f" "no_table s2 D f" by auto
    then show ?thesis using that(2) l(3) pt by (simp add: no_table_def zero_page_def)
  qed
  from s' fr r keep show ?thesis by blast
qed

section \<open>pgfault\<close>

lemma mkpte_user: "mkpte f (PTE_U OR PTE_P OR PTE_W) AND PTE_U \<noteq> 0" "mkpte f (PTE_U OR PTE_P OR PTE_W) AND PTE_W \<noteq> 0"
proof -
  have "bit (mkpte f (PTE_U OR PTE_P OR PTE_W) AND PTE_U) 2" "bit (mkpte f (PTE_U OR PTE_P OR PTE_W) AND PTE_W) 1"
    by (simp_all add: mkpte_def bit_simps pte_flags bit_numeral_rec)
  then show "mkpte f (PTE_U OR PTE_P OR PTE_W) AND PTE_U \<noteq> 0" "mkpte f (PTE_U OR PTE_P OR PTE_W) AND PTE_W \<noteq> 0"
    by (metis bit_0_eq bot_apply bot_bool_def)+
qed

lemma user_walk_dir:
  assumes cr: "unat (PPN (cr3 s)) = d" and ut: "user_tables s d" and va: "va < UTOP"
    and f: "leafmap s (slot d va) = Some f"
    and U: "leafpte s (slot d va) AND PTE_U \<noteq> 0" and W: "w \<Longrightarrow> leafpte s (slot d va) AND PTE_W \<noteq> 0"
  shows "user_walk w va s = Some f"
proof -
  obtain t where t: "ptmap s (d, unat (PDX va)) = Some t"
    using leafmap_ptmap [OF f [unfolded slot_def]] by blast
  have e: "mem s d (unat (PDX va)) AND PTE_P \<noteq> 0" "unat (PPN (mem s d (unat (PDX va)))) = t"
    using t ent_SomeD [of "mem s d (unat (PDX va))" t] by (simp_all add: ptmap_def)
  have u: "mem s d (unat (PDX va)) AND PTE_U \<noteq> 0" "mem s d (unat (PDX va)) AND PTE_W \<noteq> 0"
    using ut t PDX_user [OF va] by (simp_all add: user_tables_def)
  have l: "leafpte s (slot d va) = mem s t (unat (PTX va))" using t by (simp add: slot_def leafpte_def)
  have p: "mem s t (unat (PTX va)) AND PTE_P \<noteq> 0" "unat (PPN (mem s t (unat (PTX va)))) = f"
    using f ent_SomeD [of "mem s t (unat (PTX va))" f] l by (simp_all add: leafmap_def)
  show ?thesis
    using e u p U W l cr by (auto simp: user_walk_def mmu_walk_def rd_def Let_def)
qed

lemma user_walk_leaf:
  assumes run: "running s D d" and va: "va < UTOP" and f: "leafmap s (slot d va) = Some f"
    and U: "leafpte s (slot d va) AND PTE_U \<noteq> 0" and W: "w \<Longrightarrow> leafpte s (slot d va) AND PTE_W \<noteq> 0"
  shows "user_walk w va s = Some f"
  by (rule user_walk_dir [OF _ _ va f U W]) (use run in \<open>simp_all add: running_def self_map_def\<close>)

text \<open>A page that is not writable: the user can read it, and a write faults.\<close>

lemma user_walk_denied:
  assumes run: "running s D d" and f: "leafmap s (slot d va) = Some f" and W: "leafpte s (slot d va) AND PTE_W = 0"
  shows "user_walk True va s = None"
proof -
  obtain t where t: "ptmap s (d, unat (PDX va)) = Some t"
    using leafmap_ptmap [OF f [unfolded slot_def]] by blast
  then have "unat (PPN (mem s d (unat (PDX va)))) = t"
    using ent_SomeD [of "mem s d (unat (PDX va))" t] by (simp add: ptmap_def)
  moreover have "mem s t (unat (PTX va)) AND PTE_W = 0" using W t by (simp add: slot_def leafpte_def)
  moreover have "unat (PPN (cr3 s)) = d" using run by (simp add: running_def self_map_def)
  ultimately show ?thesis by (simp add: user_walk_def mmu_walk_def rd_def Let_def)
qed

text \<open>And back.\<close>

lemma user_walk_mapped:
  assumes cr: "unat (PPN (cr3 s)) = d" and f: "user_walk w va s = Some f"
  shows "leafmap s (slot d va) = Some f" "leafpte s (slot d va) AND PTE_U \<noteq> 0"
proof -
  let ?e = "mem s d (unat (PDX va))" and ?t = "unat (PPN (mem s d (unat (PDX va))))"
  have e: "?e AND PTE_P \<noteq> 0" "mem s ?t (unat (PTX va)) AND PTE_P \<noteq> 0" "unat (PPN (mem s ?t (unat (PTX va)))) = f"
    "mem s ?t (unat (PTX va)) AND PTE_U \<noteq> 0"
    using f cr by (auto simp: user_walk_def mmu_walk_def rd_def Let_def split: if_splits)
  have "ptmap s (d, unat (PDX va)) = Some ?t" using e(1) by (simp add: ptmap_def ent_def present_def frame_of_def)
  then have l: "leafpte s (slot d va) = mem s ?t (unat (PTX va))" by (simp add: slot_def leafpte_def)
  show "leafpte s (slot d va) AND PTE_U \<noteq> 0" using e(4) l by simp
  show "leafmap s (slot d va) = Some f" using e l by (simp add: leafmap_def ent_def present_def frame_of_def)
qed

lemma walk_writable_page:
  assumes inv: "mm_inv s D K fl" and run: "running s D d" and va: "va < UTOP" and f: "leafmap s (slot d va) = Some f"
    and U: "leafpte s (slot d va) AND PTE_U \<noteq> 0" and W: "leafpte s (slot d va) AND PTE_W \<noteq> 0"
  shows "writable_page va f s"
proof -
  have d: "d \<in> D" "unat (PPN (cr3 s)) = d" using run by (simp_all add: running_def self_map_def)
  obtain t where t: "ptmap s (d, unat (PDX va)) = Some t"
    using leafmap_ptmap [OF f [unfolded slot_def]] by blast
  have "unat (PPN (mem s d (unat (PDX va)))) = t"
    using t ent_SomeD [of "mem s d (unat (PDX va))" t] by (simp add: ptmap_def)
  moreover have "no_table s D f" by (rule no_table_data [OF inv mapped_data [OF inv slot_in(1) [OF d(1) va] f]])
  ultimately show ?thesis
    using user_walk_leaf [OF run va f U, of True] W d t slot_in(2) [OF d(1) va]
    by (auto simp: writable_page_def no_table_def user_walk_def rd_def Let_def split: if_splits)
qed

lemma page_of: "addr < UTOP \<Longrightarrow> \<not> bad_va (ROUNDDOWN addr PGSIZE)"
  using ROUNDDOWN_le [of addr PGSIZE] ROUNDDOWN_aligned [of addr PGSIZE] by (simp add: bad_va_def not_le)

lemma PDX_ROUNDDOWN: "PDX (ROUNDDOWN a PGSIZE) = PDX a"
proof -
  have "unat (ROUNDDOWN a PGSIZE) = unat a div 4096 * 4096"
    by (simp add: unat_ROUNDDOWN layout minus_mod_eq_div_mult)
  then have "unat (PDX (ROUNDDOWN a PGSIZE)) = unat a div 4096 * 4096 div 4096 div 1024"
    unfolding unat_PDX by (simp only: div_mult2_eq [symmetric]) simp
  also have "\<dots> = unat (PDX a)" by (simp add: unat_PDX div_mult2_eq [symmetric])
  finally show ?thesis by (simp add: word_unat_eq_iff)
qed

lemma PGOFF_page: "\<not> bad_va a \<Longrightarrow> unat (PGOFF a) = 0"
proof -
  assume "\<not> bad_va a"
  then have "unat (a mod PGSIZE) = 0" by (simp add: bad_va_def)
  then show "unat (PGOFF a) = 0" by (simp add: PGOFF_unat unat_mod_distrib layout)
qed

lemma present_eq: "pte AND PTE_P \<noteq> 0 \<longleftrightarrow> pte AND PTE_P = PTE_P"
  by (simp add: pte_flags and_one_eq odd_iff_mod_2_eq_one)

lemma slot_eq:
  assumes "\<not> bad_va a" "\<not> bad_va b" "slot d a = slot d b"
  shows "a = b"
proof -
  have "unat a div 4096 = unat a div 4194304 * 1024 + unat a div 4096 mod 1024" for a :: u32
    using div_mult_mod_eq [of "unat a div 4096" 1024] by (simp add: div_mult2_eq [symmetric])
  then have "unat (VPN a) = unat (VPN b)"
    using assms(3) by (simp add: slot_def unat_VPN unat_PDX [symmetric] unat_PTX [symmetric])
  then show ?thesis using VPN_page [OF assms(1)] VPN_page [OF assms(2)] by (metis word_unat_eq_iff)
qed

lemma sys_page_unmap_ok:
  assumes inv: "mm_inv s D K fl" and p: "proc s D i d" and va: "\<not> bad_va va"
    and m: "leafmap s (slot d va) = Some q"
  shows "\<exists>s'. sys_page_unmap i va s = Some (Inr (), s') \<and> uframe D s s'
    \<and> mm_inv s' D K (if unat (pp_ref s q) = 1 then q # fl else fl)
    \<and> (\<forall>y \<in> leafslots D. leafpte s' y = ((leafpte s)(slot d va := 0)) y)
    \<and> (\<forall>f. no_table s D f \<longrightarrow> mem s' f = mem s f \<and> no_table s' D f)"
proof -
  obtain e where e: "envid2env i True s = Some (Inr (Some e))" "env_pgdir (envs s e) = Some d" "d \<in> D"
    using p by (auto simp: proc_def)
  note lt = good_va_lt [OF va]
  from remove_mapped [OF inv e(3) lt m] obtain s' where
    s': "page_remove d va s = Some s'" "mm_inv s' D K (if unat (pp_ref s q) = 1 then q # fl else fl)"
      "\<forall>y \<in> leafslots D. leafpte s' y = ((leafpte s)(slot d va := 0)) y" by blast
  have "sys_page_unmap i va s = Some (Inr (), s')"
    using va e s'(1) by (simp add: sys_page_unmap_def with_env_def)
  with s' remove_uframe [OF inv e(3) lt m s'(1)] remove_keep [OF inv e(3) lt m s'(1)] show ?thesis by blast
qed

definition PTE_RW :: u32 where "PTE_RW = PTE_U OR PTE_P OR PTE_W"

lemma PTE_RW_ok: "\<not> bad_perm PTE_RW" "unat PTE_RW < 4096" "\<not> bad_va PFTEMP"
  by (simp_all add: PTE_RW_def bad_perm_def pte_flags PTE_USER_def bad_va_def layout)

text \<open>
  The write fault on a page of the current environment. No hypothesis says that the page is
  marked copy-on-write: the test of the code only fails when no page table is there at all.
\<close>

lemma pgfault_ok:
  assumes inv: "mm_inv s D K (pp # fl)" and run: "running s D d" and W: "err AND FEC_WR = FEC_WR"
    and va: "addr < UTOP" "a = ROUNDDOWN addr PGSIZE" "a \<noteq> PFTEMP"
    and old: "leafmap s (slot d a) = Some q" and U: "leafpte s (slot d a) AND PTE_U \<noteq> 0"
    and tmp: "leafmap s (slot d PFTEMP) = None" and room: "ptmap s (d, unat (PDX PFTEMP)) \<noteq> None \<or> fl \<noteq> []"
  shows "\<exists>s' fl'. pgfault hw addr err s = Some (Ret () s') \<and> mm_inv s' D K fl' \<and> uframe D s s'
    \<and> (\<forall>y \<in> leafslots D. leafpte s' y = ((leafpte s)(slot d PFTEMP := 0, slot d a := mkpte pp PTE_RW)) y)
    \<and> (\<forall>i<1024. mem s' pp i = mem s q i)
    \<and> (\<forall>f. no_table s D f \<and> f \<notin> set (pp # fl) \<longrightarrow> mem s' f = mem s f)"
proof -
  have d: "d \<in> D" "self_map s d" using run by (simp_all add: running_def)
  have a: "\<not> bad_va a" using page_of [OF va(1)] va(2) by simp
  note lt = good_va_lt [OF a] and rw = PTE_RW_ok and tlt = good_va_lt [OF PTE_RW_ok(3)]
  have ne: "slot d a \<noteq> slot d PFTEMP" using slot_eq [OF a rw(3)] va(3) by blast
  note sl = slot_in(1) [OF d(1) lt] slot_in(1) [OF d(1) tlt]
  have dat: "no_table s D q" "q \<notin> set (pp # fl)"
    using mapped_data [OF inv sl(1) old] no_table_data [OF inv] by (auto simp: data_page_def)
  \<comment> \<open>the test\<close>
  obtain t where t: "ptmap s (d, unat (PDX a)) = Some t"
    using leafmap_ptmap [OF old [unfolded slot_def]] by blast
  have px: "PDX addr = PDX a"
    using page_of [OF va(1)] by (simp add: va(2) PDX_ROUNDDOWN)
  have pd: "vpd (PDX addr) s = Some (mem s d (unat (PDX a)))" "mem s d (unat (PDX a)) AND PTE_P = PTE_P"
    using vpd_ok [OF d(2), of "PDX addr"] PDX_small [of a] px t ent_SomeD [of "mem s d (unat (PDX a))" t]
    by (simp_all add: ptmap_def present_eq)
  \<comment> \<open>a new page at PFTEMP\<close>
  from sys_page_alloc_ok [OF inv running_proc [OF run] rw(3,1) room] obtain s1 where
    s1: "sys_page_alloc 0 PFTEMP PTE_RW s = Some (Inr (), s1)" "mm_inv s1 D K (insert_free s d PFTEMP pp fl)"
      "unat (pp_ref s1 pp) \<le> 1" "uframe D s s1"
      "\<forall>y \<in> leafslots D. leafpte s1 y = ((leafpte s)(slot d PFTEMP := mkpte pp PTE_RW)) y"
    and k1: "\<And>f. no_table s D f \<Longrightarrow> f \<notin> set (pp # fl) \<Longrightarrow> mem s1 f = mem s f \<and> no_table s1 D f" by blast
  have pn: "pp < 2 ^ 20" using mm_inv_free(1) [OF inv, of pp] mm_invD(4) [OF inv] by auto
  note run1 = running_uframe [OF run s1(4)]
  have l1: "leafpte s1 (slot d a) = leafpte s (slot d a)" "leafpte s1 (slot d PFTEMP) = mkpte pp PTE_RW"
    using s1(5) sl ne by simp_all
  then have m1: "leafmap s1 (slot d a) = Some q" "leafmap s1 (slot d PFTEMP) = Some pp"
    using old pn rw(2) by (simp_all add: leafmap_def)
  note bits = mkpte_user [of pp, folded PTE_RW_def]
  have pD: "pp \<notin> D" "nrefs (ptmap s1) (ptslots D) pp = 0" "no_table s1 D pp" "pp \<noteq> q"
    using mapped_data [OF s1(2) sl(2) m1(2)] no_table_data [OF s1(2)] dat by (auto simp: data_page_def)
  \<comment> \<open>the copy\<close>
  have "user_walk False a s1 = Some q" "user_walk True PFTEMP s1 = Some pp" "writable_page PFTEMP pp s1"
    using user_walk_leaf [OF run1 lt m1(1), of False] user_walk_leaf [OF run1 tlt m1(2), of True]
      walk_writable_page [OF s1(2) run1 tlt m1(2)] l1 U bits by simp_all
  from copy_page_ok [OF this] PGOFF_page [OF a] PGOFF_page [OF rw(3)] obtain s2 where
    s2: "copy_page PFTEMP a s1 = Some s2" "\<forall>i<1024. mem s2 pp i = mem s1 q i"
      "\<forall>h. h \<noteq> pp \<longrightarrow> mem s2 h = mem s1 h" "s2 = s1\<lparr>mem := mem s2\<rparr>"
    by blast
  have f2: "npage s2 = npage s1" "pp_ref s2 = pp_ref s1" "page_free_list s2 = page_free_list s1"
    by (subst s2(4), simp)+
  note w2 = mm_data_write [OF s1(2) pD(1,2) s2(3) f2]
  have u2: "uframe D s1 s2"
  proof (rule uframe_mem)
    show "same_rest s1 s2" by (subst s2(4)) (simp add: same_rest_def)
  qed (use s2(3) pD(1) in auto)
  note run2 = running_uframe [OF run1 u2]
  have m2: "leafmap s2 (slot d a) = Some q" "leafmap s2 (slot d PFTEMP) = Some pp"
    using m1 w2(2) sl by (simp_all add: leafmap_def)
  have n2: "no_table s2 D f" if "no_table s1 D f" for f
    using that w2(3) by (simp add: no_table_def)
  \<comment> \<open>the new page at the address\<close>
  have r2: "unat (pp_ref s2 pp) < 65535" using s1(3) f2(2) by simp
  have t2: "ptmap s2 (d, unat (PDX a)) \<noteq> None \<or> insert_free s d PFTEMP pp fl \<noteq> []"
    using leafmap_ptmap [OF m2(1) [unfolded slot_def]] by blast
  have w: "PTE_RW AND PTE_W \<noteq> 0 \<longrightarrow> leafpte s2 (slot d PFTEMP) AND PTE_W \<noteq> 0"
    using w2(2) sl l1(2) bits by simp
  note me = running_proc [OF run2]
  from sys_page_map_ok [OF w2(1) me me rw(3) a rw(1) m2(2) w r2 t2] obtain s3 fl3 where
    s3: "sys_page_map 0 PFTEMP 0 a PTE_RW s2 = Some (Inr (), s3)" "mm_inv s3 D K fl3"
      "\<forall>y \<in> leafslots D. leafpte s3 y = ((leafpte s2)(slot d a := mkpte pp PTE_RW)) y"
      "page_insert d pp a PTE_RW s2 = Some (Inr (), s3)" "uframe D s2 s3" by blast
  have k3: "mem s3 f = mem s2 f \<and> no_table s3 D f" if "no_table s2 D f" for f
    using insert_keep [OF w2(1) d(1) lt s3(4) that] leafmap_ptmap [OF m2(1) [unfolded slot_def]] by blast
  \<comment> \<open>and no longer at PFTEMP\<close>
  have m3: "leafmap s3 (slot d PFTEMP) = Some pp" using m2(2) s3(3) sl(2) ne by (simp add: leafmap_def)
  from sys_page_unmap_ok [OF s3(2) running_proc [OF running_uframe [OF run2 s3(5)]] rw(3) m3] obtain s4 fl4 where
    s4: "sys_page_unmap 0 PFTEMP s3 = Some (Inr (), s4)" "uframe D s3 s4" "mm_inv s4 D K fl4"
      "\<forall>y \<in> leafslots D. leafpte s4 y = ((leafpte s3)(slot d PFTEMP := 0)) y"
    and k4: "\<And>f. no_table s3 D f \<Longrightarrow> mem s4 f = mem s3 f \<and> no_table s4 D f" by blast
  have "pgfault hw addr err s = Some (Ret () s4)"
    using W pd u_page_alloc_ok [OF s1(1)] s2(1) u_page_map_ok [OF s3(1)] u_page_unmap_ok [OF s4(1)]
    unfolding pgfault_def PTE_RW_def [symmetric] va(2) [symmetric] by simp
  moreover have "\<forall>y \<in> leafslots D. leafpte s4 y = ((leafpte s)(slot d PFTEMP := 0, slot d a := mkpte pp PTE_RW)) y"
    using s4(4) s3(3) w2(2) s1(5) ne by auto
  moreover have "\<forall>i<1024. mem s4 pp i = mem s q i"
    using k4 k3 n2 pD(3) s2(2) k1 [OF dat] by simp
  moreover have "mem s4 f = mem s f" if "no_table s D f" "f \<notin> set (pp # fl)" for f
    using k1 [OF that] n2 k3 k4 s2(3) that(2) by simp
  moreover have "uframe D s s4"
    using uframe_trans [OF uframe_trans [OF uframe_trans [OF s1(4) u2] s3(5)] s4(2)] .
  ultimately show ?thesis using s4(3) by blast
qed

end
