(* ===== verification/Fork_Loop.thy ===== *)
theory Fork_Loop
  imports Fork_Inv
begin

text \<open>
  The loop of fork (lib/fork.c) over the pages of the parent: it finds exactly the pages mapped
  for the user, it always has the page tables it needs, and every one of the pages ends up
  shared with the same contents, writable on neither side.
\<close>

unbundle bit_operations_syntax

text \<open>A page of directory \<open>d\<close> that the user can read.\<close>

definition user_leaf :: "kstate \<Rightarrow> nat \<Rightarrow> u32 \<Rightarrow> bool" where
  "user_leaf s d va \<longleftrightarrow> leafpte s (slot d va) AND PTE_P \<noteq> 0 \<and> leafpte s (slot d va) AND PTE_U \<noteq> 0"

lemma user_leaf_map: "user_leaf s d va \<Longrightarrow> leafmap s (slot d va) = Some (unat (PPN (leafpte s (slot d va))))"
  by (simp add: user_leaf_def leafmap_def ent_def present_def frame_of_def)

lemma user_page_ok:
  assumes run: "running s D d" and va: "va < UTOP"
  shows "user_page va s = Some (user_leaf s d va)"
proof -
  have d: "self_map s d" "user_tables s d" using run by (simp_all add: running_def)
  note pd = vpd_ok [OF d(1) PDX_small [of va]]
  show ?thesis
  proof (cases "ptmap s (d, unat (PDX va))")
    case None
    then have "mem s d (unat (PDX va)) AND PTE_P = 0" by (auto simp: ptmap_def dest: ent_NoneD)
    with pd None show ?thesis by (simp add: user_page_def user_leaf_def slot_def leafpte_def)
  next
    case (Some t)
    then have "mem s d (unat (PDX va)) AND PTE_P \<noteq> 0"
      using ent_SomeD [of "mem s d (unat (PDX va))" t] by (simp add: ptmap_def)
    with pd vpt_ok [OF d va Some] show ?thesis by (simp add: user_page_def user_leaf_def)
  qed
qed

text \<open>The page tables the child still lacks.\<close>

definition lacking :: "kstate \<Rightarrow> nat \<Rightarrow> nat \<Rightarrow> nat set" where
  "lacking s d d2 = {i. i < UPDX \<and> ptmap s (d, i) \<noteq> None \<and> ptmap s (d2, i) = None}"

lemma finite_lacking [simp]: "finite (lacking s d d2)"
  by (rule finite_subset [of _ "{..<UPDX}"]) (auto simp: lacking_def)

lemma insert_free_length:
  "length fl \<le> length (insert_free s d va pp fl) + (if ptmap s (d, unat (PDX va)) = None then 1 else 0)"
  by (auto simp: insert_free_def Let_def split: option.split)

text \<open>The mappings of one page of the parent among \<open>vs\<close>.\<close>

definition uses :: "kstate \<Rightarrow> nat \<Rightarrow> u32 list \<Rightarrow> nat \<Rightarrow> nat" where
  "uses s d vs p = length (filter (\<lambda>v. leafmap s (slot d v) = Some p) vs)"

definition room_for :: "kstate \<Rightarrow> nat \<Rightarrow> nat \<Rightarrow> u32 list \<Rightarrow> nat \<Rightarrow> nat list \<Rightarrow> bool" where
  "room_for s d d2 vs k fl \<longleftrightarrow> card (lacking s d d2) + k \<le> length fl
     \<and> (\<forall>v\<in>set vs. \<forall>p. leafmap s (slot d v) = Some p \<longrightarrow> unat (pp_ref s p) + uses s d vs p < 65535)"

text \<open>What has become of the entries: \<open>forked s s' d d2 vs y\<close> for every entry \<open>y\<close>.\<close>

definition child_pte :: "u32 \<Rightarrow> u32" where
  "child_pte pte = mkpte (unat (PPN pte)) (cow_perm pte)"

definition parent_pte :: "u32 \<Rightarrow> u32" where
  "parent_pte pte = (if writable_pte pte then child_pte pte else pte)"

definition forked :: "kstate \<Rightarrow> kstate \<Rightarrow> nat set \<Rightarrow> nat \<Rightarrow> nat \<Rightarrow> u32 list \<Rightarrow> bool" where
  "forked s s' D d d2 vs \<longleftrightarrow>
     (\<forall>v\<in>set vs. user_leaf s d v \<longrightarrow> leafpte s' (slot d2 v) = child_pte (leafpte s (slot d v))
        \<and> leafpte s' (slot d v) = parent_pte (leafpte s (slot d v)))
     \<and> (\<forall>y\<in>leafslots D. (\<forall>v\<in>set vs. user_leaf s d v \<longrightarrow> y \<noteq> slot d v \<and> y \<noteq> slot d2 v) \<longrightarrow> leafpte s' y = leafpte s y)"

lemma slot_dir: "d \<noteq> d2 \<Longrightarrow> slot d v \<noteq> slot d2 v'"
  by (simp add: slot_def)

lemma parent_pte_map:
  assumes inv: "mm_inv s D K fl" and x: "slot d v \<in> leafslots D" and u: "user_leaf s d v"
  shows "ent (parent_pte (leafpte s (slot d v))) = leafmap s (slot d v)"
proof -
  have m: "leafmap s (slot d v) = Some (unat (PPN (leafpte s (slot d v))))" by (rule user_leaf_map [OF u])
  then have "unat (PPN (leafpte s (slot d v))) < 2 ^ 20"
    using mm_invD(9) [OF inv x] mm_invD(4) [OF inv] by fastforce
  then show ?thesis using m cow_perm_ok(3) by (simp add: parent_pte_def child_pte_def leafmap_def)
qed

lemma duppage_step:
  assumes inv: "mm_inv s D K fl" and run: "running s D d" and child: "proc s D envid d2" and ne: "d2 \<noteq> d"
    and v: "\<not> bad_va v" and u: "user_leaf s d v" and ds: "v \<notin> set vs" and good: "\<forall>w\<in>set vs. \<not> bad_va w"
    and room: "room_for s d d2 (v # vs) k fl"
  shows "\<exists>s' fl'. duppage hw envid (VPN v) s = Some (Ret 0 s') \<and> mm_inv s' D K fl' \<and> uframe D s s'
    \<and> forked s s' D d d2 [v] \<and> room_for s' d d2 vs k fl'
    \<and> (\<forall>w. w < UTOP \<longrightarrow> leafmap s' (slot d w) = leafmap s (slot d w))
    \<and> (\<forall>f. data_page s D fl f \<longrightarrow> mem s' f = mem s f)"
proof -
  have d: "d \<in> D" "d2 \<in> D" using run child by (simp_all add: running_def proc_def)
  note lt = good_va_lt [OF v]
  note sl = slot_in(1) [OF d(1) lt] slot_in(1) [OF d(2) lt] and ps = slot_in(2) [OF d(1) lt] slot_in(2) [OF d(2) lt]
  let ?pte = "leafpte s (slot d v)"
  let ?pp = "unat (PPN ?pte)"
  let ?fl = "insert_free s d2 v ?pp fl"
  have m: "leafmap s (slot d v) = Some ?pp" by (rule user_leaf_map [OF u])
  have U: "?pte AND PTE_U \<noteq> 0" using u by (simp add: user_leaf_def)
  obtain t where t: "ptmap s (d, unat (PDX v)) = Some t" using leafmap_ptmap [OF m [unfolded slot_def]] by blast
  have us: "uses s d (v # vs) ?pp = uses s d vs ?pp + 1" using m by (simp add: uses_def)
  have ref: "unat (pp_ref s ?pp) < 65534" using room m us by (simp add: room_for_def)
  have lk: "ptmap s (d2, unat (PDX v)) = None \<Longrightarrow> unat (PDX v) \<in> lacking s d d2"
    using t PDX_user [OF lt] by (simp add: lacking_def)
  then have "ptmap s (d2, unat (PDX v)) = None \<Longrightarrow> 0 < card (lacking s d d2)" by (auto simp: card_gt_0_iff)
  then have rm: "ptmap s (d2, unat (PDX v)) \<noteq> None \<or> fl \<noteq> []" using room by (auto simp: room_for_def)
  from duppage_ok [OF inv run child ne v m U ref rm refl] obtain s' where
    s': "duppage hw envid (VPN v) s = Some (Ret 0 s')" "mm_inv s' D K ?fl" "uframe D s s'"
      "\<forall>y \<in> leafslots D. leafpte s' y = ((leafpte s)(slot d2 v := mkpte ?pp (cow_perm ?pte),
        slot d v := (if writable_pte ?pte then mkpte ?pp (cow_perm ?pte) else ?pte))) y"
      "\<forall>f. data_page s D fl f \<longrightarrow> mem s' f = mem s f"
      "\<forall>y \<in> ptslots D. ptmap s' y = (if ptmap s y = None \<and> y = (d2, unat (PDX v)) then Some (hd fl) else ptmap s y)"
    by blast
  have fk: "leafpte s' y = ((leafpte s)(slot d2 v := child_pte ?pte, slot d v := parent_pte ?pte)) y"
    if "y \<in> leafslots D" for y
    using s'(4) that by (simp add: child_pte_def parent_pte_def)
  have dd: "slot d2 a \<noteq> slot d b" for a b using slot_dir [OF ne] .
  have pm: "ent (parent_pte ?pte) = Some ?pp" using parent_pte_map [OF inv sl(1) u] m by simp
  have lf: "leafmap s' y = ((leafmap s)(slot d2 v := Some ?pp)) y" if "y \<in> leafslots D" for y
  proof -
    have "unat (PPN ?pte) < 2 ^ 20" using mm_invD(9) [OF inv sl(1) m] mm_invD(4) [OF inv] by simp
    then have "ent (child_pte ?pte) = Some ?pp" using cow_perm_ok(3) by (simp add: child_pte_def)
    then show ?thesis using fk [OF that] pm m dd by (auto simp: leafmap_def)
  qed
  have par: "leafmap s' (slot d w) = leafmap s (slot d w)" if "w < UTOP" for w
    using lf [OF slot_in(1) [OF d(1) that]] dd [of v w] by simp
  have frk: "forked s s' D d d2 [v]" using fk sl dd [of v v] u by (simp add: forked_def)
  have pt: "ptmap s' (d, i) = ptmap s (d, i)"
    "ptmap s' (d2, i) = (if ptmap s (d2, i) = None \<and> i = unat (PDX v) then Some (hd fl) else ptmap s (d2, i))"
    if "i < UPDX" for i
    using s'(6) d that ne by (simp_all add: ptslots_def)
  have "card (lacking s' d d2) + k \<le> length ?fl"
  proof (cases "ptmap s (d2, unat (PDX v))")
    case None
    have "lacking s' d d2 = lacking s d d2 - {unat (PDX v)}"
      unfolding lacking_def using pt None by (auto split: if_splits)
    then have "card (lacking s d d2) = card (lacking s' d d2) + 1"
      using card_Suc_Diff1 [OF finite_lacking lk [OF None]] by simp
    then show ?thesis using room insert_free_length [of fl s d2 v ?pp] by (simp add: room_for_def None)
  next
    case (Some t2)
    have "lacking s' d d2 = lacking s d d2" unfolding lacking_def using pt Some by (auto split: if_splits)
    then show ?thesis using room insert_free_length [of fl s d2 v ?pp] by (simp add: room_for_def Some)
  qed
  moreover
  have lf': "\<forall>y\<in>leafslots D. leafmap s' y = ((leafmap s)(slot d2 v := Some ?pp)) y" using lf by blast
  note refs = refs_upd [OF inv s'(2) sl(2) lf' mapped_data [OF inv sl(1) m]]
  have "unat (pp_ref s' p) + uses s' d vs p < 65535"
    if w: "w \<in> set vs" "leafmap s' (slot d w) = Some p" for w p
  proof -
    have wl: "w < UTOP" using w(1) good good_va_lt by blast
    have p: "leafmap s (slot d w) = Some p" using par [OF wl] w(2) by simp
    note q = mapped_data [OF inv slot_in(1) [OF d(1) wl] p] mapped_data [OF s'(2) slot_in(1) [OF d(1) wl] w(2)]
    have "uses s' d vs p = uses s d vs p"
      unfolding uses_def by (rule arg_cong [where f = length], rule filter_cong) (use par good good_va_lt in auto)
    moreover have "unat (pp_ref s p) + uses s d (v # vs) p < 65535" using room w(1) p by (simp add: room_for_def)
    moreover have "unat (pp_ref s' p) + uses s d vs p \<le> unat (pp_ref s p) + uses s d (v # vs) p"
    proof (cases "p = ?pp")
      case True
      then show ?thesis using refs(1) us by simp
    next
      case False
      moreover have "uses s d vs p \<le> uses s d (v # vs) p" by (simp add: uses_def)
      ultimately show ?thesis using refs(2) [OF False q] by simp
    qed
    ultimately show ?thesis by simp
  qed
  ultimately have "room_for s' d d2 vs k ?fl" by (simp add: room_for_def)
  with s'(1,2,3,5) frk par show ?thesis by blast
qed

lemma forked_Cons:
  assumes a: "forked s s1 D d d2 [v]" and b: "forked s1 s' D d d2 vs" and u: "user_leaf s d v"
    and ne: "d2 \<noteq> d" and dD: "d \<in> D" "d2 \<in> D"
    and v: "v \<notin> set vs" "\<not> bad_va v" "\<forall>w\<in>set vs. \<not> bad_va w"
  shows "forked s s' D d d2 (v # vs)"
proof -
  have sl: "slot e w \<in> leafslots D" if "e \<in> {d, d2}" "w \<in> set (v # vs)" for e w
    using that slot_in(1) dD v(2,3) good_va_lt by auto
  have dd: "slot d a \<noteq> slot d2 b" for a b using slot_dir ne by metis
  have off: "slot e v \<noteq> slot e w" if "w \<in> set vs" for e w
  proof
    assume "slot e v = slot e w"
    then have "slot d v = slot d w" by (simp add: slot_def)
    from slot_eq [OF v(2) _ this] v(1,3) that show False by blast
  qed
  have same: "leafpte s1 (slot d w) = leafpte s (slot d w)" if "w \<in> set vs" for w
    using a sl [of d w] off [OF that] dd that unfolding forked_def by (metis insertI1 list.set_intros singletonD list.set(1,2))
  have ul: "user_leaf s1 d w = user_leaf s d w" if "w \<in> set vs" for w
    using same [OF that] by (simp add: user_leaf_def)
  have head: "leafpte s' (slot e v) = leafpte s1 (slot e v)" if "e \<in> {d, d2}" for e
    using b sl [OF that, of v] off dd that unfolding forked_def by (metis empty_iff insert_iff list.set_intros(1))
  show ?thesis
    unfolding forked_def
  proof (intro conjI ballI impI)
    fix w assume w: "w \<in> set (v # vs)" "user_leaf s d w"
    show "leafpte s' (slot d2 w) = child_pte (leafpte s (slot d w))"
      "leafpte s' (slot d w) = parent_pte (leafpte s (slot d w))"
      using w a b head same ul u by (cases "w = v"; simp add: forked_def)+
  next
    fix y assume y: "y \<in> leafslots D" "\<forall>w\<in>set (v # vs). user_leaf s d w \<longrightarrow> y \<noteq> slot d w \<and> y \<noteq> slot d2 w"
    then have "leafpte s' y = leafpte s1 y" using b ul by (simp add: forked_def)
    then show "leafpte s' y = leafpte s y" using a y by (simp add: forked_def)
  qed
qed

lemma forked_skip: "\<not> user_leaf s d v \<Longrightarrow> forked s s' D d d2 vs \<Longrightarrow> forked s s' D d d2 (v # vs)"
  by (simp add: forked_def)

lemma room_skip: "room_for s d d2 (v # vs) k fl \<Longrightarrow> room_for s d d2 vs k fl"
proof -
  have "uses s d vs p \<le> uses s d (v # vs) p" for p by (simp add: uses_def)
  then show "room_for s d d2 (v # vs) k fl \<Longrightarrow> room_for s d d2 vs k fl"
    unfolding room_for_def by (meson le_less_trans add_left_mono list.set_intros(2))
qed

lemma each_duppage:
  assumes "mm_inv s D K fl" and "running s D d" and "proc s D envid d2" and "d2 \<noteq> d"
    and "distinct vs" and "\<forall>w\<in>set vs. \<not> bad_va w" and "room_for s d d2 vs k fl"
  shows "\<exists>s' fl'. each_page (\<lambda>i. duppage hw envid (VPN i)) vs s = Some (Ret () s') \<and> mm_inv s' D K fl'
    \<and> uframe D s s' \<and> forked s s' D d d2 vs \<and> k \<le> length fl'
    \<and> (\<forall>w p. w < UTOP \<and> leafmap s (slot d w) = Some p \<longrightarrow> leafmap s' (slot d w) = Some p \<and> mem s' p = mem s p)"
  using assms
proof (induction vs arbitrary: s fl)
  case Nil
  then show ?case by (auto simp: forked_def room_for_def)
next
  case (Cons v vs)
  have good: "\<not> bad_va v" "\<forall>w\<in>set vs. \<not> bad_va w" "v \<notin> set vs" "distinct vs" using Cons.prems by auto
  have up: "user_page v s = Some (user_leaf s d v)"
    by (rule user_page_ok [OF Cons.prems(2) good_va_lt [OF good(1)]])
  show ?case
  proof (cases "user_leaf s d v")
    case False
    from Cons.IH [OF Cons.prems(1-4) good(4,2) room_skip [OF Cons.prems(7)]] up False forked_skip [OF False]
    show ?thesis by auto
  next
    case True
    have dD: "d \<in> D" "d2 \<in> D" using Cons.prems(2,3) by (simp_all add: running_def proc_def)
    from duppage_step [OF Cons.prems(1-4) good(1) True good(3,2) Cons.prems(7)] obtain s1 fl1 where
      s1: "duppage hw envid (VPN v) s = Some (Ret 0 s1)" "mm_inv s1 D K fl1" "uframe D s s1"
        "forked s s1 D d d2 [v]" "room_for s1 d d2 vs k fl1"
        "\<forall>w. w < UTOP \<longrightarrow> leafmap s1 (slot d w) = leafmap s (slot d w)"
        "\<forall>f. data_page s D fl f \<longrightarrow> mem s1 f = mem s f" by blast
    from Cons.IH [OF s1(2) running_uframe [OF Cons.prems(2) s1(3)] proc_uframe [OF Cons.prems(3) s1(3)]
        Cons.prems(4) good(4,2) s1(5)] obtain s' fl' where
      s': "each_page (\<lambda>i. duppage hw envid (VPN i)) vs s1 = Some (Ret () s')" "mm_inv s' D K fl'"
        "uframe D s1 s'" "forked s1 s' D d d2 vs" "k \<le> length fl'"
        "\<forall>w p. w < UTOP \<and> leafmap s1 (slot d w) = Some p \<longrightarrow> leafmap s' (slot d w) = Some p \<and> mem s' p = mem s1 p"
      by blast
    have "mem s1 p = mem s p" if "w < UTOP" "leafmap s (slot d w) = Some p" for w p
      using s1(7) mapped_data [OF Cons.prems(1) slot_in(1) [OF dD(1) that(1)] that(2)] by blast
    moreover have "each_page (\<lambda>i. duppage hw envid (VPN i)) (v # vs) s = Some (Ret () s')"
      using up True s1(1) s'(1) by simp
    ultimately show ?thesis
      using s'(2,5,6) s1(6) uframe_trans [OF s1(3) s'(3)]
        forked_Cons [OF s1(4) s'(4) True Cons.prems(4) dD good(3,1,2)] by metis
  qed
qed

text \<open>The pages of the loop.\<close>

lemma pages_from_ok:
  assumes "unat lo mod 4096 = 0" and "unat hi mod 4096 = 0" and "hi \<le> UTOP"
  shows "distinct (pages_from lo hi)" "\<forall>w\<in>set (pages_from lo hi). \<not> bad_va w"
    "v \<in> set (pages_from lo hi) \<longleftrightarrow> \<not> bad_va v \<and> lo \<le> v \<and> v < hi"
proof -
  let ?n = "(unat hi - unat lo) div 4096"
  have hi: "unat hi \<le> 4007657472" using assms(3) by (simp add: word_le_nat_alt layout)
  have u: "unat (lo + of_nat k * PGSIZE) = unat lo + k * 4096" if "k < ?n" for k
  proof -
    have k: "unat lo + k * 4096 < 4294967296" using that hi by simp
    have "unat (of_nat k * PGSIZE :: u32) = k * 4096"
      using k by (simp add: unat_word_ariths layout unat_of_nat)
    then show ?thesis using k by (simp add: unat_word_ariths)
  qed
  show "distinct (pages_from lo hi)"
    unfolding pages_from_def
  proof (subst distinct_map, intro conjI inj_onI)
    fix a b assume ab: "a \<in> set [0..<?n]" "b \<in> set [0..<?n]" and eq: "lo + of_nat a * PGSIZE = lo + of_nat b * PGSIZE"
    have "a < ?n" "b < ?n" using ab by simp_all
    from u [OF this(1)] u [OF this(2)] have "unat lo + a * 4096 = unat lo + b * 4096" unfolding eq by (rule trans [OF sym])
    then show "a = b" by simp
  qed simp
  have bad: "bad_va w \<longleftrightarrow> \<not> (w < UTOP \<and> unat w mod 4096 = 0)" for w :: u32
  proof -
    have "unat (w mod PGSIZE) = unat w mod 4096" by (simp add: layout unat_mod_distrib)
    then have "w mod PGSIZE = 0 \<longleftrightarrow> unat w mod 4096 = 0" by (metis unat_eq_zero)
    then show ?thesis unfolding bad_va_def by (auto simp: not_le)
  qed
  have in_iff: "v \<in> set (pages_from lo hi) \<longleftrightarrow> (\<exists>k<?n. unat v = unat lo + k * 4096)" for v
  proof -
    have "v \<in> set (pages_from lo hi) \<longleftrightarrow> (\<exists>k<?n. v = lo + of_nat k * PGSIZE)" by (auto simp: pages_from_def)
    then show ?thesis using u by (simp add: word_unat_eq_iff cong: conj_cong)
  qed
  have al: "(\<exists>k<?n. unat v = unat lo + k * 4096) \<longleftrightarrow> unat v mod 4096 = 0 \<and> unat lo \<le> unat v \<and> unat v < unat hi" for v
  proof
    assume "\<exists>k<?n. unat v = unat lo + k * 4096"
    then obtain k where k: "k < ?n" "unat v = unat lo + k * 4096" by blast
    have "?n * 4096 \<le> unat hi - unat lo" by simp
    with k show "unat v mod 4096 = 0 \<and> unat lo \<le> unat v \<and> unat v < unat hi" using assms(1) by auto
  next
    assume r: "unat v mod 4096 = 0 \<and> unat lo \<le> unat v \<and> unat v < unat hi"
    let ?k = "(unat v - unat lo) div 4096"
    have "4096 dvd unat v - unat lo" "4096 dvd unat hi - unat lo"
      using r assms(1,2) by (simp_all add: mod_eq_0_iff_dvd dvd_diff_nat)
    then have k: "?k * 4096 = unat v - unat lo" and "?n * 4096 = unat hi - unat lo"
      by (simp_all only: dvd_div_mult_self)
    with k r have "?k < ?n" "unat v = unat lo + ?k * 4096" by linarith+
    then show "\<exists>k<?n. unat v = unat lo + k * 4096" by blast
  qed
  have lt: "w < hi \<Longrightarrow> w < UTOP" for w using assms(3) by simp
  show iff: "v \<in> set (pages_from lo hi) \<longleftrightarrow> \<not> bad_va v \<and> lo \<le> v \<and> v < hi" for v
    unfolding in_iff al bad using lt by (auto simp: word_le_nat_alt word_less_nat_alt)
  show "\<forall>w\<in>set (pages_from lo hi). \<not> bad_va w" using iff by blast
qed

end
