(* ===== verification/Fork_Spec.thy ===== *)
theory Fork_Spec
  imports Fork_Loop
begin

text \<open>
  The correctness of copy-on-write fork (lib/fork.c): duppage, the page fault handler, the
  isolation the two give, and the whole of the parent's part of fork.
\<close>

unbundle bit_operations_syntax

section \<open>The exception stack of the child\<close>

lemma envid2env_mod:
  assumes "\<And>v. env_status (f v) = env_status v" "\<And>v. env_id (f v) = env_id v" "\<And>v. env_parent_id (f v) = env_parent_id v"
  shows "envid2env i c (mod_env e f s) = envid2env i c s"
proof -
  have "env_status (envs (mod_env e f s) x) = env_status (envs s x)" "env_id (envs (mod_env e f s) x) = env_id (envs s x)"
    "env_parent_id (envs (mod_env e f s) x) = env_parent_id (envs s x)" "curenv (mod_env e f s) = curenv s" for x
    by (simp_all add: mod_env_def set_env_def assms)
  then show ?thesis by (simp only: envid2env_def)
qed

lemma uxstack_ok:
  assumes inv: "mm_inv s D K (pp # fl)" and e: "envid2env envid True s = Some (Inr (Some e))"
    and d: "env_pgdir (envs s e) = Some d" "d \<in> D" and fl: "fl \<noteq> []"
  shows "\<exists>s' fl'. u_uxstack_pgfault_status hw envid UXSTACK (PTE_P OR PTE_U OR PTE_W) upcall ENV_RUNNABLE s = Some (Ret 0 s')
    \<and> mm_inv s' D K fl' \<and> mem s' pp = (\<lambda>_. 0)
    \<and> (\<forall>y \<in> leafslots D. leafpte s' y = ((leafpte s)(slot d UXSTACK := mkpte pp PTE_RW)) y)
    \<and> envs s' = (envs s)(e := (envs s e)\<lparr>env_pgfault_upcall := upcall, env_status := ENV_RUNNABLE\<rparr>)
    \<and> (\<forall>f. no_table s D f \<and> f \<notin> set (pp # fl) \<longrightarrow> mem s' f = mem s f)"
proof -
  have p: "proc s D envid d" using e d by (auto simp: proc_def)
  have ux: "\<not> bad_va UXSTACK" by (simp add: bad_va_def UXSTACK_def layout)
  have rw: "PTE_P OR PTE_U OR PTE_W = PTE_RW" by (simp add: PTE_RW_def or.commute or.left_commute)
  have "ptmap s (d, unat (PDX UXSTACK)) \<noteq> None \<or> fl \<noteq> []" using fl by simp
  from sys_page_alloc_ok [OF inv p ux PTE_RW_ok(1) this] obtain s1 fl1 where
    s1: "sys_page_alloc envid UXSTACK PTE_RW s = Some (Inr (), s1)" "mm_inv s1 D K fl1" "mem s1 pp = (\<lambda>_. 0)"
      "\<forall>y \<in> leafslots D. leafpte s1 y = ((leafpte s)(slot d UXSTACK := mkpte pp PTE_RW)) y" "uframe D s s1"
      "\<forall>f. no_table s D f \<and> f \<notin> set (pp # fl) \<longrightarrow> mem s1 f = mem s f \<and> no_table s1 D f" by blast
  have ev: "envs s1 = envs s" using s1(5) by (simp add: uframe_def same_rest_def)
  have e1: "envid2env envid True s1 = Some (Inr (Some e))"
    using e envid2env_same [OF uframe_same [OF s1(5)]] by simp
  let ?s2 = "mod_env e (\<lambda>v. v\<lparr>env_pgfault_upcall := upcall\<rparr>) s1"
  let ?s3 = "mod_env e (\<lambda>v. v\<lparr>env_status := ENV_RUNNABLE\<rparr>) ?s2"
  have up: "sys_env_set_pgfault_upcall envid upcall s1 = Some (Inr (), ?s2)"
    using e1 by (simp add: sys_env_set_pgfault_upcall_def with_env_def)
  have e2: "envid2env envid True ?s2 = Some (Inr (Some e))"
    using e1 by (subst envid2env_mod) simp_all
  have st: "sys_env_set_status envid ENV_RUNNABLE ?s2 = Some (Inr (), ?s3)"
    using e2 by (simp add: sys_env_set_status_def with_env_def)
  have "ENV_RUNNABLE \<noteq> ENV_NOT_SET" by (simp add: ENV_RUNNABLE_def ENV_NOT_SET_def)
  then have run: "u_uxstack_pgfault_status hw envid UXSTACK (PTE_P OR PTE_U OR PTE_W) upcall ENV_RUNNABLE s = Some (Ret 0 ?s3)"
    unfolding rw using s1(1) up st
    by (simp add: u_uxstack_pgfault_status_def stub_def syscall_def sysno_defs ret_unit_def)
  have f: "mem ?s3 = mem s1" "pp_ref ?s3 = pp_ref s1" "npage ?s3 = npage s1" "page_free_list ?s3 = page_free_list s1"
    by (simp_all add: mod_env_def set_env_def)
  have "envs ?s3 = (envs s)(e := (envs s e)\<lparr>env_pgfault_upcall := upcall, env_status := ENV_RUNNABLE\<rparr>)"
    by (simp add: mod_env_def set_env_def ev)
  then show ?thesis
    using run mm_inv_cong [OF f] s1(2,3,4,6) maps_cong(2) [OF f(1)] f(1) by (intro exI [of _ ?s3] exI [of _ fl1]) simp
qed

section \<open>The child\<close>

text \<open>The environment that sys_exofork makes in slot \<open>e\<close> for the parent in slot \<open>c\<close>.\<close>

definition exofork_env :: "kstate \<Rightarrow> nat \<Rightarrow> nat \<Rightarrow> nat \<Rightarrow> Env" where
  "exofork_env s c e p = (new_env e p (env_id (envs s c)) (envs s e))\<lparr>env_status := ENV_NOT_RUNNABLE,
     env_tf := (env_tf (envs s c))\<lparr>tf_regs := (tf_regs (env_tf (envs s c)))\<lparr>reg_eax := 0\<rparr>\<rparr>\<rparr>"

lemma exofork_ok:
  assumes inv: "mm_inv s D K (p # fl)" and efl: "is_list (env_free_list s) (e # es)"
    and c: "curenv s = Some c" "c \<noteq> e"
  shows "\<exists>s'. sys_exofork s = Some (Inr (next_env_id (env_id (envs s e)) e), s') \<and> mm_inv s' (insert p D) K fl
    \<and> envs s' = (envs s)(e := exofork_env s c e p) \<and> curenv s' = curenv s \<and> cr3 s' = cr3 s
    \<and> (\<forall>y \<in> leafslots D. leafpte s' y = leafpte s y) \<and> (\<forall>i < UPDX. ptmap s' (p, i) = None)
    \<and> (\<forall>f. f \<noteq> p \<longrightarrow> mem s' f = mem s f) \<and> pp_ref s' = (pp_ref s)(p := 1)"
proof -
  from alloc_ok [OF inv efl, of "env_id (envs s c)"] obtain s1 where
    s1: "env_alloc (env_id (envs s c)) s = Some (Inr e, s1)" "mm_inv s1 (insert p D) K fl"
      "envs s1 = (envs s)(e := new_env e p (env_id (envs s c)) (envs s e))" "curenv s1 = curenv s"
      "\<forall>y \<in> leafslots D. leafpte s1 y = leafpte s y" "\<forall>i < UPDX. ptmap s1 (p, i) = None"
      "\<forall>f. f \<noteq> p \<longrightarrow> mem s1 f = mem s f" "pp_ref s1 = (pp_ref s)(p := 1)" "cr3 s1 = cr3 s" by blast
  let ?s' = "s1\<lparr>envs := (envs s)(e := exofork_env s c e p)\<rparr>"
  have "sys_exofork s = Some (Inr (next_env_id (env_id (envs s e)) e), ?s')"
    using c s1(1,3,4)
    by (simp add: sys_exofork_def mod_env_def set_env_def exofork_env_def new_env_def Let_def)
  moreover have f: "mem ?s' = mem s1" "pp_ref ?s' = pp_ref s1" "npage ?s' = npage s1"
    "page_free_list ?s' = page_free_list s1" by simp_all
  ultimately show ?thesis
    using mm_inv_cong [OF f] maps_cong(1,2) [OF f(1)] s1 by (intro exI [of _ ?s']) simp
qed

section \<open>The parent's part\<close>

text \<open>
  Every page of \<open>d\<close> that the user can read, from UTEXT up to the exception stack, is shared with
  \<open>d2\<close>: same frame, same contents, and writable on neither side.
\<close>

definition cow_shared :: "kstate \<Rightarrow> kstate \<Rightarrow> nat \<Rightarrow> nat \<Rightarrow> bool" where
  "cow_shared s s' d d2 \<longleftrightarrow> (\<forall>va. \<not> bad_va va \<and> UTEXT \<le> va \<and> va < UXSTACK \<and> user_leaf s d va \<longrightarrow>
     leafpte s' (slot d2 va) = child_pte (leafpte s (slot d va))
     \<and> leafpte s' (slot d va) = parent_pte (leafpte s (slot d va))
     \<and> mem s' (unat (PPN (leafpte s (slot d va)))) = mem s (unat (PPN (leafpte s (slot d va)))))"

abbreviation fork_pages :: "u32 list" where
  "fork_pages \<equiv> pages_from UTEXT UXSTACK"

lemma fork_pages_ok: "distinct fork_pages" "\<forall>w\<in>set fork_pages. \<not> bad_va w"
  "v \<in> set fork_pages \<longleftrightarrow> \<not> bad_va v \<and> UTEXT \<le> v \<and> v < UXSTACK"
  using pages_from_ok [of UTEXT UXSTACK] by (simp_all add: layout UXSTACK_def)

lemma uxstack_va: "\<not> bad_va UXSTACK" "UXSTACK < UTOP"
  by (simp_all add: bad_va_def UXSTACK_def layout)

lemma fork_parent_ok:
  assumes inv: "mm_inv s D K fl" and run: "running s D d"
    and e: "envid2env envid True s = Some (Inr (Some e))" "env_pgdir (envs s e) = Some d2" "d2 \<in> D"
    and ne: "d2 \<noteq> d" and room: "room_for s d d2 fork_pages 2 fl"
  shows "\<exists>s' fl' pp. fork_parent hw upcall envid v s = Some (Ret (envid, v) s') \<and> mm_inv s' D K fl'
    \<and> cow_shared s s' d d2 \<and> leafpte s' (slot d2 UXSTACK) = mkpte pp PTE_RW \<and> mem s' pp = (\<lambda>_. 0)
    \<and> leafpte s' (slot d UXSTACK) = leafpte s (slot d UXSTACK)
    \<and> envs s' = (envs s)(e := (envs s e)\<lparr>env_pgfault_upcall := upcall, env_status := ENV_RUNNABLE\<rparr>)"
proof -
  have d: "d \<in> D" using run by (simp add: running_def)
  have child: "proc s D envid d2" using e by (auto simp: proc_def)
  note fp = fork_pages_ok
  from each_duppage [OF inv run child ne fp(1,2) room] obtain s1 fl1 where
    s1: "each_page (\<lambda>i. duppage hw envid (VPN i)) fork_pages s = Some (Ret () s1)" "mm_inv s1 D K fl1"
      "uframe D s s1" "forked s s1 D d d2 fork_pages" "2 \<le> length fl1"
      "\<forall>w p. w < UTOP \<and> leafmap s (slot d w) = Some p \<longrightarrow> leafmap s1 (slot d w) = Some p \<and> mem s1 p = mem s p"
    by blast
  obtain pp fl2 where fl: "fl1 = pp # fl2" "fl2 \<noteq> []" using s1(5) by (cases fl1) (auto simp: Suc_le_eq)
  have ev: "envs s1 = envs s" using s1(3) by (simp add: uframe_def same_rest_def)
  have e1: "envid2env envid True s1 = Some (Inr (Some e))" "env_pgdir (envs s1 e) = Some d2"
    using e envid2env_same [OF uframe_same [OF s1(3)]] ev by simp_all
  from uxstack_ok [OF s1(2) [unfolded fl(1)] e1 e(3) fl(2)] obtain s2 fl3 where
    s2: "u_uxstack_pgfault_status hw envid UXSTACK (PTE_P OR PTE_U OR PTE_W) upcall ENV_RUNNABLE s1 = Some (Ret 0 s2)"
      "mm_inv s2 D K fl3" "mem s2 pp = (\<lambda>_. 0)"
      "\<forall>y \<in> leafslots D. leafpte s2 y = ((leafpte s1)(slot d2 UXSTACK := mkpte pp PTE_RW)) y"
      "envs s2 = (envs s1)(e := (envs s1 e)\<lparr>env_pgfault_upcall := upcall, env_status := ENV_RUNNABLE\<rparr>)"
      "\<forall>f. no_table s1 D f \<and> f \<notin> set (pp # fl2) \<longrightarrow> mem s2 f = mem s1 f" by blast
  have "fork_parent hw upcall envid v s = Some (Ret (envid, v) s2)"
    using s1(1) s2(1) by (simp add: fork_parent_def)
  moreover have "cow_shared s s2 d d2"
    unfolding cow_shared_def
  proof (intro allI impI)
    fix va assume va: "\<not> bad_va va \<and> UTEXT \<le> va \<and> va < UXSTACK \<and> user_leaf s d va"
    then have lt: "va < UTOP" using good_va_lt by blast
    let ?f = "unat (PPN (leafpte s (slot d va)))"
    have m: "leafmap s1 (slot d va) = Some ?f" "mem s1 ?f = mem s ?f"
      using s1(6) lt user_leaf_map [of s d va] va by blast+
    note sl = slot_in(1) [OF d lt] slot_in(1) [OF e(3) lt]
    have "slot d2 va \<noteq> slot d2 UXSTACK"
    proof
      assume "slot d2 va = slot d2 UXSTACK"
      from slot_eq [OF _ uxstack_va(1) this] va show False by simp
    qed
    then have "leafpte s2 (slot d2 va) = leafpte s1 (slot d2 va)" "leafpte s2 (slot d va) = leafpte s1 (slot d va)"
      using s2(4) sl slot_dir [OF ne, of UXSTACK va] by auto
    moreover have "mem s2 ?f = mem s1 ?f"
      using s2(6) mapped_data [OF s1(2) sl(1) m(1)] no_table_data [OF s1(2)] fl(1) by (auto simp: data_page_def)
    ultimately show "leafpte s2 (slot d2 va) = child_pte (leafpte s (slot d va))
      \<and> leafpte s2 (slot d va) = parent_pte (leafpte s (slot d va)) \<and> mem s2 ?f = mem s ?f"
      using s1(4) va m(2) fp(3) by (simp add: forked_def)
  qed
  moreover have "leafpte s2 (slot d2 UXSTACK) = mkpte pp PTE_RW"
    using s2(4) slot_in(1) [OF e(3) uxstack_va(2)] by simp
  moreover have "leafpte s2 (slot d UXSTACK) = leafpte s (slot d UXSTACK)"
  proof -
    have "slot d UXSTACK \<noteq> slot d v" if "v \<in> set fork_pages" for v
    proof
      assume "slot d UXSTACK = slot d v"
      from slot_eq [OF uxstack_va(1) _ this] that fp(3) [of v] show False by simp
    qed
    then have "leafpte s1 (slot d UXSTACK) = leafpte s (slot d UXSTACK)"
      using s1(4) slot_in(1) [OF d uxstack_va(2)] slot_dir [of d d2] ne unfolding forked_def by metis
    then show ?thesis using s2(4) slot_in(1) [OF d uxstack_va(2)] slot_dir [OF ne, of UXSTACK UXSTACK] by auto
  qed
  ultimately show ?thesis using s2(2,3,5) ev by auto
qed

section \<open>fork\<close>

text \<open>
  Enough free pages: one for each page table of the parent, the child's exception stack and its
  page table; and no reference count is near its limit.
\<close>

definition fork_room :: "kstate \<Rightarrow> nat \<Rightarrow> nat list \<Rightarrow> bool" where
  "fork_room s d fl \<longleftrightarrow> card {i. i < UPDX \<and> ptmap s (d, i) \<noteq> None} + 2 \<le> length fl
     \<and> (\<forall>v\<in>set fork_pages. \<forall>q. leafmap s (slot d v) = Some q \<longrightarrow> unat (pp_ref s q) + uses s d fork_pages q < 65535)"

lemma u_exofork_ok:
  assumes "sys_exofork s = Some (Inr (next_env_id old e), s')"
  shows "u_exofork hw s = Some (Ret (next_env_id old e) s')"
  using assms by (simp add: u_exofork_def stub_def syscall_def sysno_defs ret_word_def)

lemma fork_ok:
  assumes inv: "mm_inv s D K (p # fl)" and efl: "is_list (env_free_list s) (e # es)" and el: "e < NENV"
    and c: "curenv s = Some c" "c \<noteq> e" and run: "running s D d" and room: "fork_room s d fl"
    and h: "v_pgfault_handler v \<noteq> 0" and id: "envid = next_env_id (env_id (envs s e)) e"
  shows "\<exists>s' fl' q. fork hw upcall handler v s = Some (Ret (envid, v\<lparr>v_pgfault_handler := handler\<rparr>) s')
    \<and> mm_inv s' (insert p D) K fl' \<and> cow_shared s s' d p
    \<and> leafpte s' (slot p UXSTACK) = mkpte q PTE_RW \<and> mem s' q = (\<lambda>_. 0)
    \<and> leafpte s' (slot d UXSTACK) = leafpte s (slot d UXSTACK)
    \<and> envs s' = (envs s)(e := (exofork_env s c e p)\<lparr>env_pgfault_upcall := upcall, env_status := ENV_RUNNABLE\<rparr>)"
proof -
  have d: "d \<in> D" "env_pgdir (envs s c) = Some d" using run c by (auto simp: running_def)
  have pD: "p \<notin> D" using mm_inv_free(4) [OF inv, of p] by simp
  then have ne: "p \<noteq> d" using d by auto
  from exofork_ok [OF inv efl c] obtain s2 where
    s2: "sys_exofork s = Some (Inr envid, s2)" "mm_inv s2 (insert p D) K fl"
      "envs s2 = (envs s)(e := exofork_env s c e p)" "curenv s2 = curenv s" "cr3 s2 = cr3 s"
      "\<forall>y \<in> leafslots D. leafpte s2 y = leafpte s y" "\<forall>i < UPDX. ptmap s2 (p, i) = None"
      "\<forall>f. f \<noteq> p \<longrightarrow> mem s2 f = mem s f" "pp_ref s2 = (pp_ref s)(p := 1)" unfolding id by blast
  have pt: "ptmap s2 (d, i) = ptmap s (d, i)" for i using s2(8) ne by (simp add: ptmap_def)
  have run2: "running s2 (insert p D) d"
    using run c d ne s2(3,4,5,8) pt by (simp add: running_def self_map_def user_tables_def)
  have lf: "leafpte s2 (slot d w) = leafpte s (slot d w)" if "w < UTOP" for w
    using s2(6) slot_in(1) [OF d(1) that] by blast
  have lm: "leafmap s2 (slot d w) = leafmap s (slot d w)" if "w < UTOP" for w
    using lf [OF that] by (simp add: leafmap_def)
  have np: "q \<noteq> p" if "w < UTOP" "leafmap s (slot d w) = Some q" for w q
    using mapped_data [OF inv slot_in(1) [OF d(1) that(1)] that(2)] by (auto simp: data_page_def)
  have fp: "w < UTOP" if "w \<in> set fork_pages" for w using fork_pages_ok(2) that good_va_lt by blast
  have us: "uses s2 d fork_pages q = uses s d fork_pages q" for q
    unfolding uses_def by (rule arg_cong [where f = length], rule filter_cong) (use lm fp in auto)
  have "lacking s2 d p = {i. i < UPDX \<and> ptmap s (d, i) \<noteq> None}"
    using s2(7) pt by (auto simp: lacking_def)
  moreover have "\<forall>v\<in>set fork_pages. leafmap s (slot d v) \<noteq> Some p" using np fp by blast
  ultimately have room2: "room_for s2 d p fork_pages 2 fl"
    using room lm fp us s2(9) unfolding room_for_def fork_room_def by auto
  note idp = next_env_id_pos [OF el, of "env_id (envs s e)", folded id]
    and idx = ENVX_next_env_id [OF el, of "env_id (envs s e)", folded id]
  have id0: "envid \<noteq> 0" "\<not> neg envid" using idp by (auto simp: neg_def)
  have nf: "ENV_NOT_RUNNABLE \<noteq> ENV_FREE" by (simp add: ENV_NOT_RUNNABLE_def ENV_FREE_def)
  have ce: "env_id (exofork_env s c e p) = envid" "env_parent_id (exofork_env s c e p) = env_id (envs s c)"
    "env_status (exofork_env s c e p) = ENV_NOT_RUNNABLE" "env_pgdir (exofork_env s c e p) = Some p"
    by (simp_all add: exofork_env_def new_env_def id)
  have "envid2env envid True s2 = Some (Inr (Some e))" "env_pgdir (envs s2 e) = Some p"
    using id0 idx ce nf c s2(3,4) by (simp_all add: envid2env_def Let_def)
  from fork_parent_ok [OF s2(2) run2 this _ ne room2] obtain s' fl' q where
    s': "fork_parent hw upcall envid (v\<lparr>v_pgfault_handler := handler\<rparr>) s2
        = Some (Ret (envid, v\<lparr>v_pgfault_handler := handler\<rparr>) s')" "mm_inv s' (insert p D) K fl'"
      "cow_shared s2 s' d p" "leafpte s' (slot p UXSTACK) = mkpte q PTE_RW" "mem s' q = (\<lambda>_. 0)"
      "leafpte s' (slot d UXSTACK) = leafpte s2 (slot d UXSTACK)"
      "envs s' = (envs s2)(e := (envs s2 e)\<lparr>env_pgfault_upcall := upcall, env_status := ENV_RUNNABLE\<rparr>)"
    by blast
  have "fork hw upcall handler v s = Some (Ret (envid, v\<lparr>v_pgfault_handler := handler\<rparr>) s')"
    using h u_exofork_ok [OF s2(1) [unfolded id]] id0 s'(1) unfolding id
    by (simp add: fork_def set_pgfault_handler_def must_def)
  moreover have "cow_shared s s' d p"
    unfolding cow_shared_def
  proof (intro allI impI)
    fix va assume va: "\<not> bad_va va \<and> UTEXT \<le> va \<and> va < UXSTACK \<and> user_leaf s d va"
    then have lt: "va < UTOP" using good_va_lt by blast
    have "unat (PPN (leafpte s (slot d va))) \<noteq> p" using np [OF lt user_leaf_map] va by blast
    moreover have "user_leaf s2 d va" using va lf [OF lt] by (simp add: user_leaf_def)
    with s'(3) va have "leafpte s' (slot p va) = child_pte (leafpte s2 (slot d va))
      \<and> leafpte s' (slot d va) = parent_pte (leafpte s2 (slot d va))
      \<and> mem s' (unat (PPN (leafpte s2 (slot d va)))) = mem s2 (unat (PPN (leafpte s2 (slot d va))))"
      unfolding cow_shared_def by blast
    ultimately show "leafpte s' (slot p va) = child_pte (leafpte s (slot d va))
      \<and> leafpte s' (slot d va) = parent_pte (leafpte s (slot d va))
      \<and> mem s' (unat (PPN (leafpte s (slot d va)))) = mem s (unat (PPN (leafpte s (slot d va))))"
      using s2(8) unfolding lf [OF lt] by simp
  qed
  ultimately show ?thesis using s'(2,4-7) lf [OF uxstack_va(2)] s2(3) by auto
qed

section \<open>A demonstration state\<close>

text \<open>
  Environment 1 runs on directory 0, whose table 1 maps page 2 writable at UTEXT; environment 2
  is its child, with the empty directory 4; pages 3, 5, 6 and 7 and environment 3 are free.
\<close>

definition demo_fork :: kstate where
  "demo_fork = kstate_zero\<lparr>npage := 8,
     page_free_list := LIST_INSERT_HEAD 3 (LIST_INSERT_HEAD 5 (LIST_INSERT_HEAD 6 (LIST_INSERT_HEAD 7 (LIST_INIT llist_zero)))),
     pp_ref := (\<lambda>_. 0)(0 := 1, 1 := 1, 2 := 1, 4 := 1),
     mem := (\<lambda>_ _. 0)(0 := (\<lambda>_. 0)(2 := mkpte 1 (PTE_U OR PTE_W), 957 := page2pa 0 OR PTE_P OR PTE_U),
                    1 := (\<lambda>_. 0)(0 := mkpte 2 PTE_RW)),
     envs := (\<lambda>_. Env_zero)(1 := demo_env, 2 := demo_env\<lparr>env_id := 0x1002, env_parent_id := 0x1001,
       env_status := ENV_NOT_RUNNABLE, env_pgdir := Some 4\<rparr>),
     env_free_list := LIST_INSERT_HEAD 3 (LIST_INIT llist_zero), curenv := Some 1\<rparr>"

lemma demo_fork_fields:
  "npage demo_fork = 8" "pp_ref demo_fork = (\<lambda>_. 0)(0 := 1, 1 := 1, 2 := 1, 4 := 1)"
  "mem demo_fork 0 = (\<lambda>_. 0)(2 := mkpte 1 (PTE_U OR PTE_W), 957 := page2pa 0 OR PTE_P OR PTE_U)"
  "mem demo_fork 1 = (\<lambda>_. 0)(0 := mkpte 2 PTE_RW)" "mem demo_fork 4 = (\<lambda>_. 0)"
  "curenv demo_fork = Some 1" "cr3 demo_fork = 0"
  by (simp_all add: demo_fork_def kstate_zero_def)

lemma demo_fork_ptmap: "i < UPDX \<Longrightarrow> d \<in> {0, 4} \<Longrightarrow> ptmap demo_fork (d, i) = (if d = 0 \<and> i = 2 then Some 1 else None)"
  using demo_perm by (auto simp: ptmap_def demo_fork_fields UPDX_val)

lemma demo_fork_leafpte:
  "i < UPDX \<Longrightarrow> d \<in> {0, 4} \<Longrightarrow> leafpte demo_fork (d, i, j) = (if d = 0 \<and> i = 2 \<and> j = 0 then mkpte 2 PTE_RW else 0)"
  using demo_fork_fields(4) by (auto simp: leafpte_def demo_fork_ptmap)

lemma demo_fork_leafmap:
  "i < UPDX \<Longrightarrow> d \<in> {0, 4} \<Longrightarrow> leafmap demo_fork (d, i, j) = (if d = 0 \<and> i = 2 \<and> j = 0 then Some 2 else None)"
  using PTE_RW_ok(2) by (simp add: leafmap_def demo_fork_leafpte)

lemma demo_fork_nrefs:
  "nrefs (ptmap demo_fork) (ptslots {0, 4}) p = (if p = 1 then 1 else 0)"
  "nrefs (leafmap demo_fork) (leafslots {0, 4}) p = (if p = 2 then 1 else 0)"
  by (rule nrefs_single [where a = "(0, 2)"]; force simp: ptslots_def UPDX_val demo_fork_ptmap)
     (rule nrefs_single [where a = "(0, 2, 0)"];
      force simp: leafslots_def UPDX_val NPTENTRIES_def demo_fork_leafmap)

lemma demo_fork_list: "is_list (page_free_list demo_fork) [3, 5, 6, 7]"
  by (simp add: demo_fork_def tailq.repr_insert tailq.repr_init)

lemma lt8: "p < (8::nat) \<longleftrightarrow> p = 0 \<or> p = 1 \<or> p = 2 \<or> p = 3 \<or> p = 4 \<or> p = 5 \<or> p = 6 \<or> p = 7"
  by arith

lemma demo_fork_inv: "mm_inv demo_fork {0, 4} (\<lambda>_. 0) [3, 5, 6, 7]"
  unfolding mm_inv_def
proof (intro conjI)
  show "pages_wf demo_fork [3, 5, 6, 7]" using demo_fork_list by (simp add: pages_wf_def demo_fork_fields)
  show "\<forall>p<npage demo_fork. unat (pp_ref demo_fork p) = total_refs demo_fork {0, 4} (\<lambda>_. 0) p"
    by (auto simp: demo_fork_fields total_refs_def demo_fork_nrefs lt8)
  show "\<forall>x\<in>ptslots {0, 4}. \<forall>t. ptmap demo_fork x = Some t \<longrightarrow>
      t < npage demo_fork \<and> t \<notin> {0, 4} \<and> (0 :: nat) = 0 \<and> nrefs (ptmap demo_fork) (ptslots {0, 4}) t = 1
      \<and> nrefs (leafmap demo_fork) (leafslots {0, 4}) t = 0"
    using demo_fork_nrefs [of 1] demo_fork_ptmap by (auto simp: demo_fork_fields ptslots_def split: if_splits)
  show "\<forall>x\<in>leafslots {0, 4}. \<forall>p. leafmap demo_fork x = Some p \<longrightarrow> p < npage demo_fork"
    using demo_fork_leafmap by (auto simp: leafslots_def demo_fork_fields split: if_splits)
qed (auto simp: demo_fork_nrefs demo_fork_fields)

lemma demo_fork_index: "slot d UTEXT = (d, 2, 0)" "slot d PFTEMP = (d, 1, 1023)"
  by (simp_all add: slot_def PDX_def PTX_def shifts layout)

lemma demo_fork_running: "running demo_fork {0, 4} 0"
proof -
  have "env_pgdir (envs demo_fork 1) = Some 0" by (simp add: demo_fork_def demo_env_def)
  moreover have "self_map demo_fork 0"
    by (simp add: self_map_def demo_fork_fields PPN_def shifts)
  moreover have "user_tables demo_fork 0"
  proof -
    have "bit (mkpte 1 (PTE_U OR PTE_W) AND PTE_U) 2" "bit (mkpte 1 (PTE_U OR PTE_W) AND PTE_W) 1"
      by (simp_all add: mkpte_def bit_simps pte_flags bit_numeral_rec)
    then have "mkpte 1 (PTE_U OR PTE_W) AND PTE_U \<noteq> 0 \<and> mkpte 1 (PTE_U OR PTE_W) AND PTE_W \<noteq> 0"
      by (metis bit_0_eq bot_apply bot_bool_def)
    then show ?thesis by (auto simp: user_tables_def demo_fork_ptmap demo_fork_fields(3) split: if_splits)
  qed
  ultimately show ?thesis by (simp add: running_def demo_fork_fields)
qed

lemma demo_fork_child: "proc demo_fork {0, 4} 0x1002 4"
proof -
  have "envid2env 0x1002 True demo_fork = Some (Inr (Some 2))"
    by (simp add: envid2env_def ENVX_def demo_fork_def demo_env_def layout ENV_NOT_RUNNABLE_def ENV_FREE_def)
  moreover have "env_pgdir (envs demo_fork 2) = Some 4" by (simp add: demo_fork_def)
  ultimately show ?thesis by (auto simp: proc_def)
qed

lemma demo_fork_user: "user_leaf demo_fork 0 UTEXT" "writable_pte (leafpte demo_fork (slot 0 UTEXT))"
  "\<not> bad_va UTEXT" "leafmap demo_fork (slot 0 UTEXT) = Some 2" "leafmap demo_fork (slot 0 PFTEMP) = None"
proof -
  have e: "leafpte demo_fork (slot 0 UTEXT) = mkpte 2 PTE_RW"
    by (simp add: demo_fork_index demo_fork_leafpte UPDX_val)
  have v: "mkpte 2 PTE_RW = 0x2007" by (simp add: mkpte_def PTE_RW_def page2pa_def page2ppn_def pte_flags)
  show "user_leaf demo_fork 0 UTEXT" "writable_pte (leafpte demo_fork (slot 0 UTEXT))"
    unfolding user_leaf_def writable_pte_def e v by (simp_all add: pte_flags)
  show "\<not> bad_va UTEXT" by (simp add: bad_va_def layout)
  show "leafmap demo_fork (slot 0 UTEXT) = Some 2" "leafmap demo_fork (slot 0 PFTEMP) = None"
    by (simp_all add: demo_fork_index demo_fork_leafmap UPDX_val)
qed

section \<open>Properties\<close>

text \<open>
  C4: fork, with a page fault handler installed. It returns the id of a new environment that is
  runnable, starts where the parent is but with 0 in eax, and has the parent's fault entry point;
  every user page from UTEXT up to the exception stack is shared with the child, same frame and
  contents, writable on neither side and copy-on-write where the parent could write or already
  had it so; the child has a fresh zeroed exception stack, the parent keeps its own; and all
  reference counts stay exact.
\<close>

theorem fork_correct:
  assumes "mm_inv s D K (p # fl)" and "is_list (env_free_list s) (e # es)" and "e < NENV"
    and "curenv s = Some c" and "c \<noteq> e" and "running s D d" and "fork_room s d fl"
    and "v_pgfault_handler v \<noteq> 0" and "envid = next_env_id (env_id (envs s e)) e"
  shows "\<exists>s' fl' q. fork hw upcall handler v s = Some (Ret (envid, v\<lparr>v_pgfault_handler := handler\<rparr>) s')
    \<and> mm_inv s' (insert p D) K fl' \<and> cow_shared s s' d p
    \<and> leafpte s' (slot p UXSTACK) = mkpte q PTE_RW \<and> mem s' q = (\<lambda>_. 0)
    \<and> leafpte s' (slot d UXSTACK) = leafpte s (slot d UXSTACK)
    \<and> envs s' = (envs s)(e := (exofork_env s c e p)\<lparr>env_pgfault_upcall := upcall, env_status := ENV_RUNNABLE\<rparr>)"
  using assms by (rule fork_ok)

lemma demo_fork_room: "fork_room demo_fork 0 [5, 6, 7]"
proof -
  have one: "v = UTEXT" if "v \<in> set fork_pages" "leafmap demo_fork (slot 0 v) = Some q" for v q
  proof -
    have v: "\<not> bad_va v" using fork_pages_ok(2) that(1) by blast
    have "slot 0 v = (0, 2, 0)"
      using that(2) demo_fork_leafmap [OF PDX_user [OF good_va_lt [OF v]], of 0]
      by (simp add: slot_def split: if_splits)
    then show ?thesis using slot_eq [OF v demo_fork_user(3)] demo_fork_index(1) by simp
  qed
  have "uses demo_fork 0 fork_pages q \<le> 1" for q
  proof -
    let ?l = "filter (\<lambda>v. leafmap demo_fork (slot 0 v) = Some q) fork_pages"
    have "set ?l \<subseteq> {UTEXT}" using one by auto
    then have "card (set ?l) \<le> 1" using card_mono [of "{UTEXT}" "set ?l"] by simp
    then show ?thesis using distinct_card [of ?l] fork_pages_ok(1) by (simp add: uses_def)
  qed
  note u1 = this
  have "unat (pp_ref demo_fork q) + uses demo_fork 0 fork_pages q < 65535" for q
  proof -
    have "unat (pp_ref demo_fork q) \<le> 1" by (simp add: demo_fork_fields)
    then show ?thesis using u1 [of q] by linarith
  qed
  moreover have "{i. i < UPDX \<and> ptmap demo_fork (0, i) \<noteq> None} = {2}"
    using demo_fork_ptmap by (auto simp: UPDX_val split: if_splits)
  ultimately show ?thesis by (simp add: fork_room_def)
qed

theorem fork_correct_witness:
  "\<exists>s' fl' v. fork demo_hw 0x800020 0x800040 v demo_fork = Some (Ret (0x1003, v) s') \<and> mm_inv s' {0, 3, 4} (\<lambda>_. 0) fl'
    \<and> leafpte s' (slot 3 UTEXT) = mkpte 2 (PTE_COW OR PTE_P OR PTE_U)
    \<and> leafpte s' (slot 0 UTEXT) = mkpte 2 (PTE_COW OR PTE_P OR PTE_U)
    \<and> env_status (envs s' 3) = ENV_RUNNABLE \<and> env_pgdir (envs s' 3) = Some 3"
proof -
  let ?v = "\<lparr>v_pgfault_handler = 0x800040, v_gpfault_handler = 0, v_divide_handler = 0, v_illop_handler = 0, v_env = 1\<rparr>"
  have l: "is_list (env_free_list demo_fork) [3]" by (simp add: demo_fork_def tailq.repr_insert tailq.repr_init)
  have id: "0x1003 = next_env_id (env_id (envs demo_fork 3)) 3"
    by (simp add: demo_fork_def Env_zero_def next_env_id_def ENVGENSHIFT_def layout)
  from fork_correct [OF demo_fork_inv l _ _ _ demo_fork_running demo_fork_room _ id, of 1 ?v demo_hw "0x800020" "0x800040"]
  obtain s' fl' where s': "fork demo_hw 0x800020 0x800040 ?v demo_fork = Some (Ret (0x1003, ?v) s')"
    "mm_inv s' {3, 0, 4} (\<lambda>_. 0) fl'" "cow_shared demo_fork s' 0 3"
    "envs s' = (envs demo_fork)(3 := (exofork_env demo_fork 1 3 3)\<lparr>env_pgfault_upcall := 0x800020, env_status := ENV_RUNNABLE\<rparr>)"
    by (auto simp: demo_fork_fields layout)
  have p: "leafpte demo_fork (slot 0 UTEXT) = mkpte 2 PTE_RW"
    by (simp add: demo_fork_index demo_fork_leafpte UPDX_val)
  have c: "child_pte (mkpte 2 PTE_RW) = mkpte 2 (PTE_COW OR PTE_P OR PTE_U)"
    "parent_pte (mkpte 2 PTE_RW) = mkpte 2 (PTE_COW OR PTE_P OR PTE_U)"
    using demo_fork_user(2) PPN_mkpte [of 2 PTE_RW] PTE_RW_ok(2)
    by (simp_all add: p parent_pte_def child_pte_def cow_perm_def)
  have "UTEXT < UXSTACK" by (simp add: UXSTACK_def layout)
  then have "leafpte s' (slot 3 UTEXT) = mkpte 2 (PTE_COW OR PTE_P OR PTE_U)"
    "leafpte s' (slot 0 UTEXT) = mkpte 2 (PTE_COW OR PTE_P OR PTE_U)"
    using s'(3) demo_fork_user(1,3) p c unfolding cow_shared_def by auto
  moreover have "{3, 0, 4} = {0, 3, 4 :: nat}" by auto
  ultimately show ?thesis using s'(1,2,4) by (auto simp: exofork_env_def new_env_def)
qed

text \<open>
  C13: the page fault handler on a write to a user page of the running environment. The page gets a
  new frame, writable, with the contents of the old one; PFTEMP is unmapped again; no other
  entry changes, nor any other mapped page. The page need not be marked copy-on-write: a write
  to a page shared read-only is made private too, where the code means to panic.
\<close>

theorem pgfault_correct:
  assumes "mm_inv s D K (pp # fl)" and "running s D d" and "err AND FEC_WR = FEC_WR"
    and "addr < UTOP" and "a = ROUNDDOWN addr PGSIZE" and "a \<noteq> PFTEMP"
    and "leafmap s (slot d a) = Some q" and "leafpte s (slot d a) AND PTE_U \<noteq> 0"
    and "leafmap s (slot d PFTEMP) = None" and "ptmap s (d, unat (PDX PFTEMP)) \<noteq> None \<or> fl \<noteq> []"
  shows "\<exists>s' fl'. pgfault hw addr err s = Some (Ret () s') \<and> mm_inv s' D K fl' \<and> uframe D s s'
    \<and> (\<forall>y \<in> leafslots D. leafpte s' y = ((leafpte s)(slot d PFTEMP := 0, slot d a := mkpte pp PTE_RW)) y)
    \<and> (\<forall>i<1024. mem s' pp i = mem s q i)
    \<and> (\<forall>f. no_table s D f \<and> f \<notin> set (pp # fl) \<longrightarrow> mem s' f = mem s f)"
  using assms by (rule pgfault_ok)

theorem pgfault_correct_witness:
  "\<exists>s'. pgfault demo_hw 0x800123 7 demo_fork = Some (Ret () s') \<and> leafpte s' (slot 0 UTEXT) = mkpte 3 PTE_RW
    \<and> (\<forall>i<1024. mem s' 3 i = mem demo_fork 2 i)"
proof -
  have a: "UTEXT = ROUNDDOWN 0x800123 PGSIZE" by (simp add: ROUNDDOWN_def layout)
  have U: "leafpte demo_fork (slot 0 UTEXT) AND PTE_U \<noteq> 0" using demo_fork_user(1) by (simp add: user_leaf_def)
  have h: "(7 :: u32) AND FEC_WR = FEC_WR" "(0x800123 :: u32) < UTOP" "UTEXT \<noteq> PFTEMP"
    by (simp_all add: FEC_WR_def layout)
  have sl: "slot 0 UTEXT \<in> leafslots {0, 4}" by (rule slot_in(1)) (simp_all add: layout)
  from pgfault_correct [OF demo_fork_inv demo_fork_running h(1,2) a h(3) demo_fork_user(4) U demo_fork_user(5)]
  obtain s' fl' where s': "pgfault demo_hw 0x800123 7 demo_fork = Some (Ret () s')"
    "\<forall>y \<in> leafslots {0, 4}. leafpte s' y = ((leafpte demo_fork)(slot 0 PFTEMP := 0, slot 0 UTEXT := mkpte 3 PTE_RW)) y"
    "\<forall>i<1024. mem s' 3 i = mem demo_fork 2 i" by (metis list.distinct(1))
  then show ?thesis using sl by auto
qed

text \<open>duppage on a page of the running environment: the entries and the page afterwards.\<close>

lemma duppage_cow:
  assumes inv: "mm_inv s D K fl" and len: "3 \<le> length fl" and run: "running s D d" and child: "proc s D envid d2"
    and dd: "d2 \<noteq> d" and va: "\<not> bad_va va" "va \<noteq> PFTEMP" and u: "user_leaf s d va"
    and f: "leafmap s (slot d va) = Some f" and ref: "unat (pp_ref s f) < 65534"
  shows "\<exists>s1 q fl1. duppage hw envid (VPN va) s = Some (Ret 0 s1) \<and> mm_inv s1 D K (q # fl1) \<and> fl1 \<noteq> [] \<and> uframe D s s1
    \<and> leafpte s1 (slot d va) = parent_pte (leafpte s (slot d va))
    \<and> leafpte s1 (slot d2 va) = mkpte f (cow_perm (leafpte s (slot d va)))
    \<and> leafpte s1 (slot d PFTEMP) = leafpte s (slot d PFTEMP)
    \<and> mem s1 f = mem s f \<and> (tlb_coherent s d \<longrightarrow> tlb_coherent s1 d)"
proof -
  let ?pte = "leafpte s (slot d va)"
  note lt = good_va_lt [OF va(1)] and tlt = good_va_lt [OF PTE_RW_ok(3)]
  have d: "d \<in> D" "d2 \<in> D" using run child by (simp_all add: running_def proc_def)
  note sl = slot_in(1) [OF d(1) lt] slot_in(1) [OF d(2) lt] slot_in(1) [OF d(1) tlt]
  have U: "?pte AND PTE_U \<noteq> 0" using u by (simp add: user_leaf_def)
  have "ptmap s (d2, unat (PDX va)) \<noteq> None \<or> fl \<noteq> []" using len by auto
  from duppage_ok [OF inv run child dd va(1) f U ref this refl] obtain s1 where
    s1: "duppage hw envid (VPN va) s = Some (Ret 0 s1)" "mm_inv s1 D K (insert_free s d2 va f fl)" "uframe D s s1"
      "\<forall>y \<in> leafslots D. leafpte s1 y = ((leafpte s)(slot d2 va := mkpte f (cow_perm ?pte),
        slot d va := (if writable_pte ?pte then mkpte f (cow_perm ?pte) else ?pte))) y"
      "\<forall>h. data_page s D fl h \<longrightarrow> mem s1 h = mem s h" "tlb_coherent s d \<longrightarrow> tlb_coherent s1 d" by blast
  have "2 \<le> length (insert_free s d2 va f fl)"
    using insert_free_length [of fl s d2 va f] len by (simp split: if_splits)
  then obtain q fl1 where "insert_free s d2 va f fl = q # fl1" "fl1 \<noteq> []"
    by (cases "insert_free s d2 va f fl") (auto simp: Suc_le_eq)
  moreover have "slot d2 va \<noteq> slot d b" "slot d b \<noteq> slot d2 va" "slot d PFTEMP \<noteq> slot d va" for b
    using slot_dir [OF dd] slot_eq [OF PTE_RW_ok(3) va(1)] va(2) by metis+
  moreover have "unat (PPN ?pte) = f" using user_leaf_map [OF u] f by simp
  moreover have "mem s1 f = mem s f" using s1(5) mapped_data [OF inv sl(1) f] by blast
  ultimately show ?thesis
    using s1 sl by (intro exI [of _ s1] exI [of _ q] exI [of _ fl1]) (simp add: parent_pte_def child_pte_def)
qed

lemma mkpte_ro: "perm AND PTE_W = 0 \<Longrightarrow> mkpte f perm AND PTE_W = 0"
  using mkpte_AND_low [of PTE_W f perm] by (simp add: pte_flags word_ao_dist)

lemma not_PTE_W: "pte AND PTE_W \<noteq> PTE_W \<Longrightarrow> pte AND PTE_W = 0"
proof -
  have "pte AND PTE_W = (if bit pte 1 then PTE_W else 0)"
    by (rule bit_word_eqI) (auto simp: pte_flags bit_and_iff bit_2_iff)
  then show "pte AND PTE_W \<noteq> PTE_W \<Longrightarrow> pte AND PTE_W = 0" by (auto split: if_splits)
qed

text \<open>The entry that duppage leaves the parent: for the user, and not writable.\<close>

lemma parent_pte_perm:
  assumes "user_leaf s d va"
  shows "parent_pte (leafpte s (slot d va)) AND PTE_U \<noteq> 0" "parent_pte (leafpte s (slot d va)) AND PTE_W = 0"
proof -
  let ?pte = "leafpte s (slot d va)"
  have U: "?pte AND PTE_U \<noteq> 0" using assms by (simp add: user_leaf_def)
  show "parent_pte ?pte AND PTE_U \<noteq> 0"
  proof (cases "writable_pte ?pte")
    case True
    have "bit (mkpte (unat (PPN ?pte)) (cow_perm ?pte) AND PTE_U) 2"
      using True by (simp add: cow_perm_def mkpte_def bit_simps pte_flags bit_numeral_rec)
    then show ?thesis using True by (auto simp: parent_pte_def child_pte_def)
  qed (use U in \<open>simp add: parent_pte_def\<close>)
  show "parent_pte ?pte AND PTE_W = 0"
  proof (cases "writable_pte ?pte")
    case True
    then show ?thesis by (simp add: parent_pte_def child_pte_def mkpte_ro cow_perm_ok)
  next
    case False
    then show ?thesis by (simp add: parent_pte_def writable_pte_def not_PTE_W)
  qed
qed

text \<open>
  C5: isolation. After duppage has shared a page with the child, neither entry is writable: where the
  parent could write, or the page was copy-on-write already, both are copy-on-write entries of the old
  frame; otherwise the parent's entry is what it was. The MMU still reads the page for the parent
  but refuses its next write, a page fault, and no writable translation is left in the TLB if it was coherent.
  The handler of that fault gives the parent a private copy that it can write, with the old
  contents; the child still maps the old frame, not writable, with the old contents.
\<close>

theorem cow_isolation:
  assumes "mm_inv s D K fl" and "3 \<le> length fl" and "running s D d" and "proc s D envid d2" and "d2 \<noteq> d"
    and "addr < UTOP" and "va = ROUNDDOWN addr PGSIZE" and "va \<noteq> PFTEMP" and "err AND FEC_WR = FEC_WR"
    and "user_leaf s d va" and "leafmap s (slot d va) = Some f" and "unat (pp_ref s f) < 65534"
    and "leafmap s (slot d PFTEMP) = None"
  shows "\<exists>s1 s2 fl' q. duppage hw envid (VPN va) s = Some (Ret 0 s1) \<and> pgfault hw addr err s1 = Some (Ret () s2)
    \<and> leafpte s1 (slot d va) = (if writable_pte (leafpte s (slot d va)) then mkpte f (PTE_COW OR PTE_P OR PTE_U)
        else leafpte s (slot d va))
    \<and> leafpte s1 (slot d2 va) = mkpte f (cow_perm (leafpte s (slot d va)))
    \<and> leafpte s1 (slot d va) AND PTE_W = 0 \<and> leafpte s1 (slot d2 va) AND PTE_W = 0
    \<and> user_walk False addr s1 = Some f \<and> user_walk True addr s1 = None
    \<and> (tlb_coherent s d \<longrightarrow> tlb_coherent s1 d)
    \<and> mm_inv s2 D K fl' \<and> q \<noteq> f \<and> user_walk True addr s2 = Some q
    \<and> leafpte s2 (slot d2 va) = leafpte s1 (slot d2 va) \<and> leafpte s2 (slot d va) = mkpte q PTE_RW
    \<and> (\<forall>i<1024. mem s2 f i = mem s f i \<and> mem s2 q i = mem s f i)"
proof -
  let ?pte = "leafpte s (slot d va)"
  have va: "\<not> bad_va va" using page_of [OF assms(6)] assms(7) by simp
  note lt = good_va_lt [OF va]
  have d: "d \<in> D" "d2 \<in> D" using assms(3,4) by (simp_all add: running_def proc_def)
  note sl = slot_in(1) [OF d(1) lt] slot_in(1) [OF d(2) lt]
  have sa: "slot d addr = slot d va"
  proof -
    have "ROUNDDOWN va PGSIZE = va" using va by (simp add: ROUNDDOWN_def bad_va_def)
    then show ?thesis using same_page_index [of addr va] assms(7) by (simp add: slot_def)
  qed
  from duppage_cow [OF assms(1-5) va assms(8,10-12)] obtain s1 q fl1 where
    s1: "duppage hw envid (VPN va) s = Some (Ret 0 s1)" "mm_inv s1 D K (q # fl1)" "fl1 \<noteq> []" "uframe D s s1"
      "leafpte s1 (slot d va) = parent_pte ?pte" "leafpte s1 (slot d2 va) = mkpte f (cow_perm ?pte)"
      "leafpte s1 (slot d PFTEMP) = leafpte s (slot d PFTEMP)" "mem s1 f = mem s f" "tlb_coherent s d \<longrightarrow> tlb_coherent s1 d"
    by blast
  note run1 = running_uframe [OF assms(3) s1(4)] and pp = parent_pte_perm [OF assms(10), folded s1(5)]
  have tmp1: "leafmap s1 (slot d PFTEMP) = None" using assms(13) s1(7) by (simp add: leafmap_def)
  have m1: "leafmap s1 (slot d va) = Some f"
    using parent_pte_map [OF assms(1) sl(1) assms(10)] s1(5) assms(11) by (simp add: leafmap_def)
  have room: "ptmap s1 (d, unat (PDX PFTEMP)) \<noteq> None \<or> fl1 \<noteq> []" using s1(3) by simp
  from pgfault_ok [OF s1(2) run1 assms(9,6-8) m1 pp(1) tmp1 room] obtain s2 fl2 where
    s2: "pgfault hw addr err s1 = Some (Ret () s2)" "mm_inv s2 D K fl2" "uframe D s1 s2"
      "\<forall>y \<in> leafslots D. leafpte s2 y = ((leafpte s1)(slot d PFTEMP := 0, slot d va := mkpte q PTE_RW)) y"
      "\<forall>i<1024. mem s2 q i = mem s1 f i"
      "\<forall>h. no_table s1 D h \<and> h \<notin> set (q # fl1) \<longrightarrow> mem s2 h = mem s1 h" by blast
  have "mem s2 f = mem s1 f" "q \<noteq> f"
    using s2(6) mapped_data [OF s1(2) sl(1) m1] no_table_data [OF s1(2)] by (auto simp: data_page_def)
  moreover have pq: "leafpte s2 (slot d va) = mkpte q PTE_RW" "leafpte s2 (slot d2 va) = leafpte s1 (slot d2 va)"
    using s2(4) sl slot_dir [OF assms(5)] by auto
  moreover have "user_walk True addr s2 = Some q"
  proof (rule user_walk_leaf [OF running_uframe [OF run1 s2(3)] assms(6)])
    show "leafmap s2 (slot d addr) = Some q"
      using mm_inv_free(1) [OF s1(2), of q] mm_invD(4) [OF s1(2)] PTE_RW_ok(2)
      by (simp add: sa leafmap_def pq(1))
  qed (use pq(1) mkpte_user [of q] in \<open>simp_all add: sa PTE_RW_def\<close>)
  moreover have "user_walk False addr s1 = Some f" "user_walk True addr s1 = None"
    using user_walk_leaf [OF run1 assms(6)] user_walk_denied [OF run1] sa m1 pp by simp_all
  moreover have "leafpte s1 (slot d2 va) AND PTE_W = 0" by (simp add: s1(6) mkpte_ro cow_perm_ok)
  moreover have "parent_pte ?pte = (if writable_pte ?pte then mkpte f (PTE_COW OR PTE_P OR PTE_U) else ?pte)"
    using user_leaf_map [OF assms(10)] assms(11) by (simp add: parent_pte_def child_pte_def cow_perm_def)
  ultimately show ?thesis
    using s1 s2(1,2,5) pp(2) by (intro exI [of _ s1] exI [of _ s2] exI [of _ fl2] exI [of _ q]) simp
qed

theorem cow_isolation_witness:
  "\<exists>s1 s2 q. duppage demo_hw 0x1002 (VPN UTEXT) demo_fork = Some (Ret 0 s1) \<and> pgfault demo_hw 0x800123 7 s1 = Some (Ret () s2)
    \<and> leafpte s1 (slot 0 UTEXT) = mkpte 2 (PTE_COW OR PTE_P OR PTE_U)
    \<and> user_walk False 0x800123 s1 = Some 2 \<and> user_walk True 0x800123 s1 = None \<and> user_walk True 0x800123 s2 = Some q
    \<and> q \<noteq> 2 \<and> leafpte s2 (slot 4 UTEXT) = mkpte 2 (PTE_COW OR PTE_P OR PTE_U) \<and> leafpte s2 (slot 0 UTEXT) = mkpte q PTE_RW"
proof -
  have a: "UTEXT = ROUNDDOWN 0x800123 PGSIZE" by (simp add: ROUNDDOWN_def layout)
  have h: "(7 :: u32) AND FEC_WR = FEC_WR" "(0x800123 :: u32) < UTOP" "UTEXT \<noteq> PFTEMP"
    by (simp_all add: FEC_WR_def layout)
  have c: "cow_perm (leafpte demo_fork (slot 0 UTEXT)) = PTE_COW OR PTE_P OR PTE_U"
    using demo_fork_user(2) by (simp add: cow_perm_def)
  have r: "unat (pp_ref demo_fork 2) < 65534" "3 \<le> length [3, 5, 6, 7 :: nat]" "4 \<noteq> (0 :: nat)"
    by (simp_all add: demo_fork_fields)
  from cow_isolation [OF demo_fork_inv r(2) demo_fork_running demo_fork_child r(3) h(2) a h(3,1)
      demo_fork_user(1,4) r(1) demo_fork_user(5), of demo_hw]
  show ?thesis using demo_fork_user(2) unfolding c by fastforce
qed

lemma share_denied_ok:
  assumes inv: "mm_inv s D K fl" and run: "running s D d" and child: "proc s D envid d2"
    and va: "\<not> bad_va va" and ro: "leafpte s (slot d va) AND PTE_W = 0"
  shows "sys_page_map 0 va envid va (PTE_W OR PTE_P OR PTE_U) s = Some (Inl E_INVAL, s)"
proof -
  obtain c where c: "envid2env 0 True s = Some (Inr (Some c))" "env_pgdir (envs s c) = Some d"
    using running_proc [OF run] by (auto simp: proc_def)
  obtain e where e: "envid2env envid True s = Some (Inr (Some e))" using child by (auto simp: proc_def)
  have d: "d \<in> D" using run by (simp add: running_def)
  have w: "(PTE_W OR PTE_P OR PTE_U) AND PTE_W \<noteq> 0" "\<not> bad_perm (PTE_W OR PTE_P OR PTE_U)"
    by (simp_all add: pte_flags bad_perm_def PTE_USER_def)
  show ?thesis
    using share_page_denied [OF inv c(2) d good_va_lt [OF va], of "PTE_W OR PTE_P OR PTE_U" e va] w ro va c(1) e
    by (simp add: sys_page_map_def with_env_def)
qed

text \<open>
  sfork cannot share a page that is copy-on-write, such as a page of a program that has forked
  before: it asks the kernel for a writable mapping, which is refused, and panics.
\<close>

theorem sfork_cow_panics:
  assumes "mm_inv s D K fl" and "running s D d" and "proc s D envid d2" and "\<not> bad_va va"
    and "user_leaf s d va" and "leafpte s (slot d va) AND PTE_COW = PTE_COW" and "leafpte s (slot d va) AND PTE_W = 0"
  shows "each_page (sfork_share hw envid) (va # rest) s = None"
proof -
  note lt = good_va_lt [OF assms(4)]
  obtain t where t: "ptmap s (d, unat (PDX va)) = Some t"
    using leafmap_ptmap [OF user_leaf_map [OF assms(5), unfolded slot_def]] by blast
  have "vpt (VPN va) s = Some (leafpte s (slot d va))"
    using vpt_ok [OF _ _ lt t] assms(2) by (simp add: running_def)
  moreover have "u_page_map hw 0 va envid va (PTE_W OR PTE_P OR PTE_U) s = Some (Ret (neg_errno E_INVAL) s)"
    using share_denied_ok [OF assms(1-4,7)]
    by (simp add: u_page_map_def stub_def syscall_def sysno_defs ret_unit_def neg_errno_def)
  moreover have "neg (neg_errno E_INVAL)" by (simp add: neg_def neg_errno_def)
  ultimately have "sfork_share hw envid va s = None"
    using assms(5,6) by (simp add: sfork_share_def must_def user_leaf_def)
  then show ?thesis using user_page_ok [OF assms(2) lt] assms(5) by simp
qed

theorem sfork_cow_panics_witness:
  "\<exists>s1. duppage demo_hw 0x1002 (VPN UTEXT) demo_fork = Some (Ret 0 s1) \<and> each_page (sfork_share demo_hw 0x1002) [UTEXT] s1 = None"
proof -
  let ?pte = "leafpte demo_fork (slot 0 UTEXT)" and ?v = "mkpte 2 (PTE_COW OR PTE_P OR PTE_U)"
  have c: "cow_perm ?pte = PTE_COW OR PTE_P OR PTE_U" using demo_fork_user(2) by (simp add: cow_perm_def)
  have r: "unat (pp_ref demo_fork 2) < 65534" "4 \<noteq> (0 :: nat)" by (simp_all add: demo_fork_fields)
  have U: "?pte AND PTE_U \<noteq> 0" using demo_fork_user(1) by (simp add: user_leaf_def)
  have room: "ptmap demo_fork (4, unat (PDX UTEXT)) \<noteq> None \<or> [3, 5, 6, 7 :: nat] \<noteq> []" by simp
  from duppage_ok [OF demo_fork_inv demo_fork_running demo_fork_child r(2) demo_fork_user(3,4) U r(1) room refl, of demo_hw]
  obtain s1 fl1 where s1: "duppage demo_hw 0x1002 (VPN UTEXT) demo_fork = Some (Ret 0 s1)" "mm_inv s1 {0, 4} (\<lambda>_. 0) fl1"
    "uframe {0, 4} demo_fork s1" "\<forall>y \<in> leafslots {0, 4}. leafpte s1 y = ((leafpte demo_fork)(slot 4 UTEXT := ?v,
        slot 0 UTEXT := ?v)) y"
    using demo_fork_user(2) unfolding c by auto
  have sl: "slot 0 UTEXT \<in> leafslots {0, 4}" by (rule slot_in(1)) (simp_all add: layout)
  have e: "leafpte s1 (slot 0 UTEXT) = ?v" using s1(4) sl by simp
  have v: "?v = 0x2805" by (simp add: mkpte_def PTE_COW_def page2pa_def page2ppn_def pte_flags)
  have "user_leaf s1 0 UTEXT" "?v AND PTE_COW = PTE_COW" "?v AND PTE_W = 0"
    unfolding user_leaf_def e v by (simp_all add: pte_flags PTE_COW_def)
  with sfork_cow_panics [OF s1(2) running_uframe [OF demo_fork_running s1(3)] proc_uframe [OF demo_fork_child s1(3)]
      demo_fork_user(3), of demo_hw "[]"] s1(1) e
  show ?thesis by auto
qed

end
