(* ===== verification/Kdebug.thy ===== *)
theory Kdebug
  imports Pmap Cstring
begin

text \<open>
  kern/kdebug.c: looking an instruction address up in the debugging tables (inc/stab.h) of the
  kernel or of the running program. The indices are C ints that stay within the table, so they
  are integers; the tables are read from memory as the kernel sees it, a map from addresses to
  bytes.
\<close>

unbundle bit_operations_syntax

section \<open>inc/stab.h\<close>

definition N_FUN :: u8 where "N_FUN = 0x24"
definition N_SLINE :: u8 where "N_SLINE = 0x44"
definition N_SO :: u8 where "N_SO = 0x64"
definition N_SOL :: u8 where "N_SOL = 0x84"
definition N_PSYM :: u8 where "N_PSYM = 0xa0"

record Stab =
  n_strx :: u32
  n_type :: u8
  n_other :: u8
  n_desc :: u16
  n_value :: u32

text \<open>\<open>stabs[i]\<close>: 12 bytes each.\<close>

definition stab_at :: "smem \<Rightarrow> u32 \<Rightarrow> int \<Rightarrow> Stab" where
  "stab_at m stabs i =
     (let a = stabs + 12 * word_of_int i
      in \<lparr>n_strx = le32 m a, n_type = m (a + 4), n_other = m (a + 5), n_desc = le16 m (a + 6),
          n_value = le32 m (a + 8)\<rparr>)"

text \<open>
  The difference of two \<open>struct Stab *\<close>. C defines it for pointers into one array only, whose
  distance is a multiple of 12.
\<close>

definition stab_diff :: "u32 \<Rightarrow> u32 \<Rightarrow> int" where
  "stab_diff a b = sint (a - b) div 12"

section \<open>stab_binsearch\<close>

text \<open>The earliest stab of the type, going down from \<open>m\<close>; \<open>l - 1\<close> when there is none in \<open>[l, m]\<close>.\<close>

function find_type :: "(int \<Rightarrow> Stab) \<Rightarrow> u8 \<Rightarrow> int \<Rightarrow> int \<Rightarrow> int" where
  "find_type tab ty l m = (if m \<ge> l \<and> n_type (tab m) \<noteq> ty then find_type tab ty l (m - 1) else m)"
  by pat_completeness auto
termination by (relation "measure (\<lambda>(_, _, l, m). nat (m - l + 1))") auto

declare find_type.simps [simp del]

lemma find_type_le: "find_type tab ty l m \<le> m"
proof (induction tab ty l m rule: find_type.induct)
  case (1 tab ty l m)
  then show ?case by (cases "m \<ge> l \<and> n_type (tab m) \<noteq> ty") (auto simp: find_type.simps [of tab ty l m])
qed

text \<open>
  The loop on \<open>l\<close>, \<open>r\<close> and \<open>addr\<close>, with \<open>*region_left\<close>, \<open>*region_right\<close> and \<open>any_matches\<close>.
\<close>

function bs_loop ::
  "(int \<Rightarrow> Stab) \<Rightarrow> u8 \<Rightarrow> int \<Rightarrow> int \<Rightarrow> u32 \<Rightarrow> int \<Rightarrow> int \<Rightarrow> bool \<Rightarrow> int \<times> int \<times> bool" where
  "bs_loop tab ty l r addr lft rgt any =
     (if l \<le> r then
        let true_m = (l + r) div 2; m = find_type tab ty l true_m
        in if m < l then bs_loop tab ty (true_m + 1) r addr lft rgt any
           else if n_value (tab m) < addr then bs_loop tab ty (true_m + 1) r addr m rgt True
           else if n_value (tab m) > addr then bs_loop tab ty l (m - 1) addr lft (m - 1) True
           else bs_loop tab ty m r (addr + 1) m rgt True
      else (lft, rgt, any))"
  by pat_completeness auto

termination
proof (relation "measures [\<lambda>(_, _, l, r, _). nat (r - l + 1),
    \<lambda>(tab, ty, l, r, addr, _). if n_value (tab (find_type tab ty l ((l + r) div 2))) = addr then 1 else 0]",
    goal_cases)
  case (4 tab ty l r addr lft rgt any tm m)
  have "m \<le> (l + r) div 2" using 4 find_type_le by simp
  with 4 show ?case by (cases "m = l") auto
next
  case (5 tab ty l r addr lft rgt any tm m)
  have "m \<le> (l + r) div 2" using 5 find_type_le by simp
  with 5 show ?case by (cases "m = l") auto
qed (auto simp: find_type_le)

declare bs_loop.simps [simp del]

definition stab_binsearch :: "(int \<Rightarrow> Stab) \<Rightarrow> int \<Rightarrow> int \<Rightarrow> u8 \<Rightarrow> u32 \<Rightarrow> int \<times> int" where
  "stab_binsearch tab region_left region_right ty addr =
     (case bs_loop tab ty region_left region_right addr region_left region_right False of
        (lft, rgt, any) \<Rightarrow>
          if \<not> any then (lft, lft - 1) else (find_type tab ty (lft + 1) rgt, rgt))"

section \<open>debuginfo_eip\<close>

text \<open>A string of the record: the constant "<unknown>", or a pointer into the string table.\<close>

datatype dstr = Unknown | Ptr u32

record Eipdebuginfo =
  eip_file :: dstr
  eip_line :: int
  eip_fn_name :: dstr
  eip_fn_namelen :: int
  eip_fn_addr :: u32
  eip_fn_narg :: int

text \<open>The tables: the linker's symbols for the kernel, \<open>struct UserStabData\<close> for a program.\<close>

record stabdata =
  sd_stabs :: u32
  sd_stab_end :: u32
  sd_stabstr :: u32
  sd_stabstr_end :: u32

definition info_init :: "u32 \<Rightarrow> Eipdebuginfo" where
  "info_init addr = \<lparr>eip_file = Unknown, eip_line = 0, eip_fn_name = Unknown, eip_fn_namelen = 9,
     eip_fn_addr = addr, eip_fn_narg = 0\<rparr>"

text \<open>\<open>None\<close> inside is the return of -1.\<close>

definition user_stabs :: "smem \<Rightarrow> kstate \<Rightarrow> (stabdata option \<times> kstate) option" where
  "user_stabs m s = do {
     c \<leftarrow> curenv s;
     (r0, s0) \<leftarrow> user_mem_check c USTABDATA 16 PTE_U s;
     case r0 of Inl _ \<Rightarrow> Some (None, s0)
     | Inr _ \<Rightarrow>
       let d = \<lparr>sd_stabs = le32 m USTABDATA, sd_stab_end = le32 m (USTABDATA + 4),
                sd_stabstr = le32 m (USTABDATA + 8), sd_stabstr_end = le32 m (USTABDATA + 12)\<rparr>
       in do {
         (r1, s1) \<leftarrow> user_mem_check c (sd_stabs d) (word_of_int (stab_diff (sd_stab_end d) (sd_stabs d))) PTE_U s0;
         case r1 of Inl _ \<Rightarrow> Some (None, s1)
         | Inr _ \<Rightarrow> do {
             (r2, s2) \<leftarrow> user_mem_check c (sd_stabstr d) (sd_stabstr_end d - sd_stabstr d) PTE_U s1;
             case r2 of Inl _ \<Rightarrow> Some (None, s2) | Inr _ \<Rightarrow> Some (Some d, s2)
           }
       }
   }"

text \<open>The search backwards for the file name.\<close>

function file_stab :: "(int \<Rightarrow> Stab) \<Rightarrow> int \<Rightarrow> int \<Rightarrow> int" where
  "file_stab tab lfile l =
     (if l \<ge> lfile \<and> n_type (tab l) \<noteq> N_SOL \<and> (n_type (tab l) \<noteq> N_SO \<or> n_value (tab l) = 0)
      then file_stab tab lfile (l - 1) else l)"
  by pat_completeness auto
termination by (relation "measure (\<lambda>(_, lfile, l). nat (l - lfile + 1))") auto

text \<open>The number of N_PSYM stabs that follow.\<close>

function count_args :: "(int \<Rightarrow> Stab) \<Rightarrow> int \<Rightarrow> int \<Rightarrow> int" where
  "count_args tab l rfun =
     (if l < rfun \<and> n_type (tab l) = N_PSYM then 1 + count_args tab (l + 1) rfun else 0)"
  by pat_completeness auto
termination by (relation "measure (\<lambda>(_, l, rfun). nat (rfun - l))") auto

declare file_stab.simps [simp del] count_args.simps [simp del]

text \<open>\<open>strfind(name, ':') - name\<close>.\<close>

definition name_len :: "smem \<Rightarrow> dstr \<Rightarrow> int option" where
  "name_len m n = (case n of
     Unknown \<Rightarrow> Some 9
   | Ptr p \<Rightarrow> do { e \<leftarrow> strfind m p 0x3a; Some (sint (e - p)) })"

text \<open>The function that contains the address: its record, the address to look for and the range.\<close>

definition find_fun ::
  "smem \<Rightarrow> stabdata \<Rightarrow> (int \<Rightarrow> Stab) \<Rightarrow> u32 \<Rightarrow> int \<Rightarrow> int \<Rightarrow> Eipdebuginfo
     \<Rightarrow> Eipdebuginfo \<times> u32 \<times> int \<times> int \<times> int \<times> int" where
  "find_fun m d tab addr lfile rfile info =
     (let (lfun, rfun) = stab_binsearch tab lfile rfile N_FUN addr
      in if lfun \<le> rfun then
           let info1 = (if n_strx (tab lfun) < sd_stabstr_end d - sd_stabstr d
                        then info\<lparr>eip_fn_name := Ptr (sd_stabstr d + n_strx (tab lfun))\<rparr> else info);
               info2 = info1\<lparr>eip_fn_addr := n_value (tab lfun)\<rparr>
           in (info2, addr - eip_fn_addr info2, lfun, rfun, lfun, rfun)
         else (info\<lparr>eip_fn_addr := addr\<rparr>, addr, lfun, rfun, lfile, rfile))"

definition find_line ::
  "stabdata \<Rightarrow> (int \<Rightarrow> Stab) \<Rightarrow> u32 \<Rightarrow> int \<Rightarrow> int \<Rightarrow> int \<Rightarrow> int \<Rightarrow> int \<Rightarrow> Eipdebuginfo \<Rightarrow> int \<times> Eipdebuginfo" where
  "find_line d tab addr lfile lfun rfun lline rline info =
     (let (ll, rl) = stab_binsearch tab lline rline N_SLINE addr
      in if ll > rl then (-1, info)
         else
           let info1 = info\<lparr>eip_line := uint (n_desc (tab ll))\<rparr>;
               lf = file_stab tab lfile ll;
               info2 = (if lf \<ge> lfile \<and> n_strx (tab lf) < sd_stabstr_end d - sd_stabstr d
                        then info1\<lparr>eip_file := Ptr (sd_stabstr d + n_strx (tab lf))\<rparr> else info1);
               info3 = (if lfun < rfun then info2\<lparr>eip_fn_narg := count_args tab (lfun + 1) rfun\<rparr> else info2)
           in (0, info3))"

definition lookup_eip :: "smem \<Rightarrow> stabdata \<Rightarrow> u32 \<Rightarrow> Eipdebuginfo \<Rightarrow> (int \<times> Eipdebuginfo) option" where
  "lookup_eip m d addr info =
     (if sd_stabstr_end d \<le> sd_stabstr d \<or> m (sd_stabstr_end d - 1) \<noteq> 0 then Some (-1, info)
      else
        let tab = stab_at m (sd_stabs d);
            (lfile, rfile) = stab_binsearch tab 0 (stab_diff (sd_stab_end d) (sd_stabs d) - 1) N_SO addr
        in if lfile = 0 then Some (-1, info)
           else
             let (info1, addr1, lfun, rfun, lline, rline) = find_fun m d tab addr lfile rfile info
             in do {
                  k \<leftarrow> name_len m (eip_fn_name info1);
                  Some (find_line d tab addr1 lfile lfun rfun lline rline (info1\<lparr>eip_fn_namelen := k\<rparr>))
                })"

definition debuginfo_eip ::
  "stabdata \<Rightarrow> smem \<Rightarrow> u32 \<Rightarrow> kstate \<Rightarrow> ((int \<times> Eipdebuginfo) \<times> kstate) option" where
  "debuginfo_eip kern m addr s =
     (let info = info_init addr in
      if addr \<ge> ULIM then do { r \<leftarrow> lookup_eip m kern addr info; Some (r, s) }
      else do {
        (d, s1) \<leftarrow> user_stabs m s;
        case d of None \<Rightarrow> Some ((-1, info), s1)
        | Some d' \<Rightarrow> do { r \<leftarrow> lookup_eip m d' addr info; Some (r, s1) }
      })"

end
