(* ===== verification/Kdebug_Spec.thy ===== *)
theory Kdebug_Spec
  imports Kdebug
begin

text \<open>
  The binary search of kern/kdebug.c against the linear scan that its comment describes: the last
  entry of the type at or below the address, and the index before the next entry of the type; an
  empty range when there is none. The search gives that except for an address below all entries
  of the type, where its range is not empty.
\<close>

section \<open>Reference\<close>

definition typed :: "(int \<Rightarrow> Stab) \<Rightarrow> u8 \<Rightarrow> int \<Rightarrow> int \<Rightarrow> int list" where
  "typed tab ty L R = filter (\<lambda>i. n_type (tab i) = ty) [L..R]"

text \<open>
  The contract in the comment of stab_binsearch: the region of the last entry of the type at or
  below the address ends before the next entry of the type; when the address lies in no region of
  the type the left end is greater than the right end.
\<close>

definition stab_region :: "(int \<Rightarrow> Stab) \<Rightarrow> int \<Rightarrow> int \<Rightarrow> u8 \<Rightarrow> u32 \<Rightarrow> int \<times> int" where
  "stab_region tab L R ty addr =
     (let lo = filter (\<lambda>i. n_value (tab i) \<le> addr) (typed tab ty L R);
          hi = filter (\<lambda>i. addr < n_value (tab i)) (typed tab ty L R)
      in if lo = [] then (L, L - 1) else (last lo, if hi = [] then R else hd hi - 1))"

text \<open>There are entries of the type, and the address is below all of them.\<close>

definition below_all :: "(int \<Rightarrow> Stab) \<Rightarrow> int \<Rightarrow> int \<Rightarrow> u8 \<Rightarrow> u32 \<Rightarrow> bool" where
  "below_all tab L R ty addr \<longleftrightarrow>
     typed tab ty L R \<noteq> [] \<and> list_all (\<lambda>i. addr < n_value (tab i)) (typed tab ty L R)"

text \<open>The entries of the type are in increasing order of their addresses.\<close>

definition stabs_sorted :: "(int \<Rightarrow> Stab) \<Rightarrow> u8 \<Rightarrow> int \<Rightarrow> int \<Rightarrow> bool" where
  "stabs_sorted tab ty L R \<longleftrightarrow> sorted (map (\<lambda>i. n_value (tab i)) (typed tab ty L R))"

text \<open>If an entry is at the address itself, no entry is one byte above it.\<close>

definition no_neighbour :: "(int \<Rightarrow> Stab) \<Rightarrow> u8 \<Rightarrow> int \<Rightarrow> int \<Rightarrow> u32 \<Rightarrow> bool" where
  "no_neighbour tab ty L R addr \<longleftrightarrow>
     (let vs = map (\<lambda>i. n_value (tab i)) (typed tab ty L R) in addr \<notin> set vs \<or> addr + 1 \<notin> set vs)"

section \<open>The search for the type\<close>

lemma find_type_spec:
  "(l \<le> find_type tab ty l k \<longrightarrow> n_type (tab (find_type tab ty l k)) = ty)
   \<and> (\<forall>i. l \<le> i \<and> find_type tab ty l k < i \<and> i \<le> k \<longrightarrow> n_type (tab i) \<noteq> ty)
   \<and> (l - 1 \<le> k \<longrightarrow> l - 1 \<le> find_type tab ty l k) \<and> (k < l \<longrightarrow> find_type tab ty l k = k)"
proof (induction tab ty l k rule: find_type.induct)
  case (1 tab ty l m)
  show ?case
  proof (cases "m \<ge> l \<and> n_type (tab m) \<noteq> ty")
    case True
    then have e: "find_type tab ty l m = find_type tab ty l (m - 1)" by (simp add: find_type.simps [of tab ty l m])
    have "n_type (tab i) \<noteq> ty" if "l \<le> i" "find_type tab ty l (m - 1) < i" "i \<le> m" for i
      using 1 [OF True] True that by (cases "i = m") auto
    then show ?thesis unfolding e using 1 [OF True] True by auto
  next
    case False
    then have "find_type tab ty l m = m" by (auto simp: find_type.simps [of tab ty l m])
    then show ?thesis using False by auto
  qed
qed

lemma find_type_last:
  assumes "l - 1 \<le> q" and "q \<le> k" and "q = l - 1 \<or> n_type (tab q) = ty"
    and "\<And>i. q < i \<Longrightarrow> i \<le> k \<Longrightarrow> n_type (tab i) \<noteq> ty"
  shows "find_type tab ty l k = q"
proof -
  note sp = find_type_spec [of l tab ty k] and le = find_type_le [of tab ty l k]
  have "\<not> q < find_type tab ty l k"
  proof
    assume a: "q < find_type tab ty l k"
    then have "l \<le> find_type tab ty l k" using assms(1) by simp
    with sp le assms(4) [OF a] show False by blast
  qed
  moreover have "\<not> find_type tab ty l k < q"
  proof
    assume a: "find_type tab ty l k < q"
    then have "l \<le> q" using sp assms(1,2) by auto
    then show False using sp a assms(2,3) by auto
  qed
  ultimately show ?thesis by simp
qed

section \<open>The loop\<close>

definition is_typed :: "(int \<Rightarrow> Stab) \<Rightarrow> u8 \<Rightarrow> int \<Rightarrow> int \<Rightarrow> int \<Rightarrow> bool" where
  "is_typed tab ty L R i \<longleftrightarrow> L \<le> i \<and> i \<le> R \<and> n_type (tab i) = ty"

text \<open>Everything of the type below \<open>l\<close> is below \<open>addr\<close>, everything above \<open>r\<close> is above the goal \<open>A\<close>.\<close>

definition bs_inv ::
  "(int \<Rightarrow> Stab) \<Rightarrow> u8 \<Rightarrow> int \<Rightarrow> int \<Rightarrow> u32 \<Rightarrow> int \<Rightarrow> int \<Rightarrow> u32 \<Rightarrow> int \<Rightarrow> bool \<Rightarrow> bool" where
  "bs_inv tab ty L R A l r addr lft any \<longleftrightarrow>
     L \<le> l \<and> l \<le> r + 1 \<and> r \<le> R
     \<and> (addr = A \<or> addr = A + 1 \<and> (\<exists>j. is_typed tab ty L R j \<and> n_value (tab j) = A))
     \<and> (\<forall>i. is_typed tab ty L R i \<and> i < l \<longrightarrow> n_value (tab i) < addr)
     \<and> (\<forall>i. is_typed tab ty L R i \<and> r < i \<longrightarrow> A < n_value (tab i))
     \<and> (r = R \<or> is_typed tab ty L R (r + 1))
     \<and> (if any then \<exists>i. is_typed tab ty L R i else lft = L \<and> r = R \<and> (\<forall>i. i < l \<longrightarrow> \<not> is_typed tab ty L R i))
     \<and> (lft = L \<or> is_typed tab ty L R lft \<and> n_value (tab lft) \<le> A)"

lemma less_succ_word:
  assumes "A \<noteq> (- 1 :: u32)"
  shows "x < A + 1 \<longleftrightarrow> x \<le> A"
proof -
  have "1 + A \<noteq> 0" using assms by (simp add: add_eq_0_iff)
  then have "unat (A + 1) = Suc (unat A)" using unatSuc [of A] by (simp add: add.commute)
  then show ?thesis by (simp add: word_less_nat_alt word_le_nat_alt less_Suc_eq_le)
qed

lemma bs_loop_inv:
  assumes "\<forall>i j. is_typed tab ty L R i \<and> is_typed tab ty L R j \<and> i < j \<longrightarrow> n_value (tab i) \<le> n_value (tab j)"
    and "\<forall>i j. is_typed tab ty L R i \<and> is_typed tab ty L R j \<and> n_value (tab i) = A \<longrightarrow> n_value (tab j) \<noteq> A + 1"
    and "A \<noteq> - 1" and "bs_inv tab ty L R A l r addr lft any" and "rgt = r"
  shows "\<exists>lft' r' any' addr'. bs_loop tab ty l r addr lft rgt any = (lft', r', any')
      \<and> bs_inv tab ty L R A (r' + 1) r' addr' lft' any'"
  using assms
proof (induction tab ty l r addr lft rgt any rule: bs_loop.induct)
  case (1 tab ty l r addr lft rgt any)
  note mono = 1(5) [rule_format, OF conjI, OF _ conjI] and gap = 1(6) [rule_format, OF conjI, OF _ conjI] and A = 1(7) and I = 1(8) [unfolded bs_inv_def] and rgt = 1(9)
  note prem = 1(5-7)
  note IH = 1(1-4)
  show ?case
  proof (cases "l \<le> r")
    case False
    then have "l = r + 1" using I by simp
    moreover have "bs_loop tab ty l r addr lft rgt any = (lft, r, any)"
      using False rgt by (simp add: bs_loop.simps [of tab ty l r])
    ultimately show ?thesis using 1(8) by blast
  next
    case lr: True
    define tm where "tm = (l + r) div 2"
    define m where "m = find_type tab ty l tm"
    have tm: "l \<le> tm" "tm \<le> r" using lr by (simp_all add: tm_def)
    have sp: "l \<le> m \<Longrightarrow> n_type (tab m) = ty" "\<And>i. l \<le> i \<Longrightarrow> m < i \<Longrightarrow> i \<le> tm \<Longrightarrow> n_type (tab i) \<noteq> ty"
      "l - 1 \<le> m" "m \<le> tm"
      using find_type_spec [of l tab ty tm] find_type_le [of tab ty l tm] tm by (auto simp: m_def)
    have le: "addr \<le> A \<or> addr = A + 1" "A \<le> addr" and bnd: "\<And>x. x < addr \<Longrightarrow> x \<le> A"
      using I less_succ_word [OF A] by auto (metis less_imp_le order_refl)+
    show ?thesis
    proof (cases "m < l")
      case True
      have nt: "\<not> is_typed tab ty L R i" if "l \<le> i" "i < tm + 1" for i
        using sp(2) [of i] True that by (simp add: is_typed_def)
      have "bs_inv tab ty L R A (tm + 1) r addr lft any"
        unfolding bs_inv_def using I nt tm by (smt (verit, best))
      from IH(1) [OF lr tm_def m_def True prem this rgt] show ?thesis
        using lr True by (simp add: bs_loop.simps [of tab ty l r] Let_def m_def tm_def)
    next
      case ml: False
      have T: "is_typed tab ty L R m" using ml sp(1,4) tm I by (simp add: is_typed_def)
      have top: "\<not> is_typed tab ty L R i" if "m < i" "i \<le> tm" for i
        using sp(2) [of i] ml that by (simp add: is_typed_def)
      consider (lt) "n_value (tab m) < addr" | (gt) "addr < n_value (tab m)" | (eq) "n_value (tab m) = addr" by fastforce
      then show ?thesis
      proof cases
        case lt
        have "n_value (tab i) < addr" if "is_typed tab ty L R i" "i < tm + 1" for i
          using mono [OF that(1) T] top [of i] that lt
          by (cases i m rule: linorder_cases) (auto intro: le_less_trans)
        then have "bs_inv tab ty L R A (tm + 1) r addr m True"
          unfolding bs_inv_def using I T tm bnd [OF lt] by auto
        from IH(2) [OF lr tm_def m_def ml lt prem this rgt] show ?thesis
          using lr ml lt by (simp add: bs_loop.simps [of tab ty l r] Let_def m_def tm_def)
      next
        case gt
        have "A < n_value (tab i)" if "is_typed tab ty L R i" "m - 1 < i" for i
          using mono [OF T that(1)] that gt le(2) by (cases "i = m") (auto intro: le_less_trans less_le_trans)
        then have "bs_inv tab ty L R A l (m - 1) addr lft True"
          unfolding bs_inv_def using I T tm ml sp(4) by auto
        moreover have nl: "\<not> n_value (tab m) < addr" using gt by simp
        ultimately show ?thesis
          using IH(3) [OF lr tm_def m_def ml nl gt prem _ refl] lr ml gt by (simp add: bs_loop.simps [of tab ty l r] Let_def m_def tm_def)
      next
        case eq
        have eA: "addr = A" using I gap [OF _ T] eq by auto
        have "n_value (tab i) < addr + 1" if "is_typed tab ty L R i" "i < m" for i
          using mono [OF that(1) T that(2)] eq eA less_succ_word [OF A] by simp
        then have "bs_inv tab ty L R A m r (addr + 1) m True"
          unfolding bs_inv_def using I T tm ml sp(4) eq eA by auto
        moreover have "\<not> n_value (tab m) < addr" "\<not> addr < n_value (tab m)" using eq by simp_all
        ultimately show ?thesis
          using IH(4) [OF lr tm_def m_def ml _ _ prem _ rgt] lr ml by (simp add: bs_loop.simps [of tab ty l r] Let_def m_def tm_def)
      qed
    qed
  qed
qed

section \<open>The result\<close>

lemma set_typed: "i \<in> set (typed tab ty L R) \<longleftrightarrow> is_typed tab ty L R i"
  by (auto simp: typed_def is_typed_def)

lemma typed_sorted: "sorted_wrt (<) (typed tab ty L R)"
proof -
  have "sorted_wrt (<) [L..R]"
    by (induction L R rule: upto.induct) (subst upto.simps, auto)
  then show ?thesis by (simp add: typed_def sorted_wrt_filter)
qed

lemma sorted_hd: "sorted_wrt (<) (xs :: int list) \<Longrightarrow> x \<in> set xs \<Longrightarrow> (\<And>y. y \<in> set xs \<Longrightarrow> x \<le> y) \<Longrightarrow> hd xs = x"
  by (cases xs) (auto, force)

lemma sorted_last: "sorted_wrt (<) (xs :: int list) \<Longrightarrow> x \<in> set xs \<Longrightarrow> x \<le> last xs"
  by (induction xs rule: rev_induct) (auto simp: sorted_wrt_append)

lemma stabs_sorted_mono:
  assumes "stabs_sorted tab ty L R" and "is_typed tab ty L R i" and "is_typed tab ty L R j" and "i < j"
  shows "n_value (tab i) \<le> n_value (tab j)"
proof -
  let ?ts = "typed tab ty L R"
  obtain a b where ab: "a < length ?ts" "?ts ! a = i" "b < length ?ts" "?ts ! b = j"
    using assms(2,3) by (metis set_typed in_set_conv_nth)
  have "a < b"
  proof (rule ccontr)
    assume "\<not> a < b"
    then have "?ts ! b \<le> ?ts ! a"
      using typed_sorted [of tab ty L R] ab by (cases "a = b") (auto simp: sorted_wrt_iff_nth_less intro!: less_imp_le)
    then show False using ab assms(4) by simp
  qed
  then show ?thesis
    using assms(1) ab by (auto simp: stabs_sorted_def sorted_wrt_iff_nth_less)
qed

lemma stab_binsearch_ok:
  assumes LR: "L \<le> R + 1" and srt: "stabs_sorted tab ty L R" and gap: "no_neighbour tab ty L R addr" and A: "addr \<noteq> - 1"
  shows "stab_binsearch tab L R ty addr =
    (if below_all tab L R ty addr then let r = hd (typed tab ty L R) - 1 in (min L r, r)
     else stab_region tab L R ty addr)"
proof -
  let ?T = "is_typed tab ty L R" and ?ts = "typed tab ty L R"
  let ?lo = "filter (\<lambda>i. n_value (tab i) \<le> addr) ?ts" and ?hi = "filter (\<lambda>i. addr < n_value (tab i)) ?ts"
  have mono: "\<forall>i j. ?T i \<and> ?T j \<and> i < j \<longrightarrow> n_value (tab i) \<le> n_value (tab j)"
    using stabs_sorted_mono [OF srt] by blast
  have gap': "\<forall>i j. ?T i \<and> ?T j \<and> n_value (tab i) = addr \<longrightarrow> n_value (tab j) \<noteq> addr + 1"
    using gap unfolding no_neighbour_def by (metis (no_types, lifting) image_eqI set_map set_typed)
  have "bs_inv tab ty L R addr L R addr L False"
    unfolding bs_inv_def using LR by (auto simp: is_typed_def)
  from bs_loop_inv [OF mono gap' A this refl] obtain lft r any addr' where
    run: "bs_loop tab ty L R addr L R False = (lft, r, any)"
    and I: "bs_inv tab ty L R addr (r + 1) r addr' lft any" by blast
  note I' = I [unfolded bs_inv_def]
  have low: "n_value (tab i) \<le> addr" if "?T i" "i \<le> r" for i
    using I' that less_succ_word [OF A] by (metis less_imp_le zle_add1_eq_le)
  have high: "addr < n_value (tab i)" if "?T i" "r < i" for i using I' that by blast
  have rR: "L - 1 \<le> r" "r \<le> R" using I' by auto
  show ?thesis
  proof (cases any)
    case False
    then have "?T i \<Longrightarrow> False" for i using I' by (auto simp: is_typed_def)
    then have "?ts = []" using set_typed by (metis set_empty2 equals0I)
    moreover have "lft = L" using I' False by simp
    ultimately show ?thesis using run False by (simp add: stab_binsearch_def stab_region_def below_all_def)
  next
    case True
    then obtain i where "?T i" using I' by auto
    then have ne: "?ts \<noteq> []" using set_typed [of i] by (metis list.set(1) empty_iff)
    have r: "r = (if ?hi = [] then R else hd ?hi - 1)"
    proof (cases "r = R")
      case True
      then have "?hi = []" using low by (auto simp: filter_empty_conv set_typed is_typed_def not_less)
      then show ?thesis using True by simp
    next
      case False
      then have T: "?T (r + 1)" using I' by blast
      have "hd ?hi = r + 1"
      proof (rule sorted_hd)
        show "sorted_wrt (<) ?hi" using typed_sorted by (rule sorted_wrt_filter)
        show "r + 1 \<in> set ?hi" using T high [OF T] by (simp add: set_typed)
        show "r + 1 \<le> y" if "y \<in> set ?hi" for y
          using that low [of y] by (auto simp: set_typed not_less [symmetric])
      qed
      then show ?thesis using T high [OF T] set_typed [of "r + 1"] by (auto simp: filter_empty_conv)
    qed
    have "find_type tab ty (lft + 1) r = (if ?lo = [] then min L r else last ?lo)"
    proof (cases "?lo = []")
      case True
      have no: "\<not> ?T i" if "i \<le> r" for i using low [of i] that True by (auto simp: filter_empty_conv set_typed)
      have lft: "lft = L" using I' True by (auto simp: filter_empty_conv set_typed)
      have "find_type tab ty (lft + 1) r = min L r"
      proof (cases "L \<le> r")
        case True
        then show ?thesis
          using no rR by (intro find_type_last) (auto simp: lft is_typed_def min_def)
      qed (use find_type_spec [of "lft + 1" tab ty r] lft in auto)
      then show ?thesis using True by simp
    next
      case False
      define q where "q = last ?lo"
      have q: "?T q" "n_value (tab q) \<le> addr" using last_in_set [OF False] by (auto simp: q_def set_typed)
      have "q \<le> r" using high [OF q(1)] q(2) by (meson leI not_less)
      have mx: "i \<le> q" if "?T i" "i \<le> r" for i
      proof (rule ccontr)
        assume "\<not> i \<le> q"
        have "i \<in> set ?lo" using that low by (simp add: set_typed)
        moreover have "sorted_wrt (<) ?lo" using typed_sorted by (rule sorted_wrt_filter)
        ultimately have "i \<le> last ?lo" by (intro sorted_last)
        then show False using \<open>\<not> i \<le> q\<close> by (simp add: q_def)
      qed
      have "lft \<le> q"
      proof (cases "lft = L")
        case True
        then show ?thesis using q(1) by (simp add: is_typed_def)
      next
        case False
        then have "?T lft" "n_value (tab lft) \<le> addr" using I' by auto
        then show ?thesis using mx [of lft] high [of lft] by (meson leI not_less)
      qed
      have "find_type tab ty (lft + 1) r = q"
      proof (rule find_type_last)
        show "lft + 1 - 1 \<le> q" "q \<le> r" using \<open>lft \<le> q\<close> \<open>q \<le> r\<close> by simp_all
        show "q = lft + 1 - 1 \<or> n_type (tab q) = ty" using q(1) by (simp add: is_typed_def)
        fix i assume i: "q < i" "i \<le> r"
        then have "L \<le> i" "i \<le> R" using q(1) rR by (simp_all add: is_typed_def)
        then show "n_type (tab i) \<noteq> ty" using mx [of i] i by (auto simp: is_typed_def)
      qed
      then show ?thesis using False q_def by simp
    qed
    moreover have "below_all tab L R ty addr \<longleftrightarrow> ?lo = []"
      using ne by (auto simp: below_all_def list_all_iff filter_empty_conv not_le)
    moreover have "?hi = ?ts" if "?lo = []"
      using that by (intro filter_True) (auto simp: filter_empty_conv not_le)
    ultimately show ?thesis using run True ne r by (simp add: stab_binsearch_def stab_region_def Let_def)
  qed
qed

text \<open>
  C31: the binary search of the debugging tables against the contract in its comment, for entries of the
  type in increasing order of addresses, with entries of other types between them. When some entry of the
  type is at or below the address, or there is none of the type at all, the search gives what the linear scan of
  stab_region gives: the last entry at or below the address and the index before the next one, or the empty
  range. When there are entries of the type and the address is below all of them, the comment promises
  an empty range, but the code returns a range that is not empty: it ends before the first entry of
  the type and begins at the left end of the search, or one before it when the first entry is
  there. One byte above the address there must be no entry if there is one at the address,
  because the search steps over it.
\<close>

theorem stab_binsearch_correct:
  assumes "L \<le> R + 1" and "stabs_sorted tab ty L R" and "no_neighbour tab ty L R addr" and "addr \<noteq> - 1"
  shows "stab_binsearch tab L R ty addr =
    (if below_all tab L R ty addr then let r = hd (typed tab ty L R) - 1 in (min L r, r)
     else stab_region tab L R ty addr)"
  using assms by (rule stab_binsearch_ok)

text \<open>The table of the comment in the source, with entries of another type in between.\<close>

definition demo_stab :: "u8 \<Rightarrow> u32 \<Rightarrow> Stab" where
  "demo_stab ty v = \<lparr>n_strx = 0, n_type = ty, n_other = 0, n_desc = 0, n_value = v\<rparr>"

definition demo_tab :: "int \<Rightarrow> Stab" where
  "demo_tab i = (if i = 0 then demo_stab N_SO 0xF0100000 else if i = 3 then demo_stab N_SO 0xF0100040
     else if i = 5 then demo_stab N_SO 0xF0100176 else if i = 6 then demo_stab N_SO 0xF0100178
     else if i = 9 then demo_stab N_SO 0xF0100652 else demo_stab N_SLINE 0)"

lemma demo_typed: "typed demo_tab N_SO 0 11 = [0, 3, 5, 6, 9]"
  by (simp add: typed_def demo_tab_def demo_stab_def N_SO_def N_SLINE_def upto.simps)

lemma demo_tab_values:
  "map (\<lambda>i. n_value (demo_tab i)) [0, 3, 5, 6, 9] = [0xF0100000, 0xF0100040, 0xF0100176, 0xF0100178, 0xF0100652]"
  by (simp add: demo_tab_def demo_stab_def)

text \<open>The lookup of the comment, and an address below the first entry: the range (-1, -1).\<close>

theorem stab_binsearch_correct_witness:
  "stab_binsearch demo_tab 0 11 N_SO 0xF0100184 = (6, 8) \<and> stab_binsearch demo_tab 0 11 N_SO 0xF00FFFFF = (- 1, - 1)"
proof -
  have srt: "stabs_sorted demo_tab N_SO 0 11"
    unfolding stabs_sorted_def demo_typed demo_tab_values by simp
  have gap: "no_neighbour demo_tab N_SO 0 11 0xF0100184" "no_neighbour demo_tab N_SO 0 11 0xF00FFFFF"
    unfolding no_neighbour_def demo_typed demo_tab_values by simp_all
  have "stab_region demo_tab 0 11 N_SO 0xF0100184 = (6, 8)"
    unfolding stab_region_def demo_typed by (simp add: demo_tab_def demo_stab_def)
  moreover have "\<not> below_all demo_tab 0 11 N_SO 0xF0100184" "below_all demo_tab 0 11 N_SO 0xF00FFFFF"
    unfolding below_all_def demo_typed by (simp_all add: demo_tab_def demo_stab_def)
  ultimately show ?thesis
    using stab_binsearch_correct [OF _ srt gap(1)] stab_binsearch_correct [OF _ srt gap(2)]
    by (simp add: demo_typed Let_def)
qed

text \<open>
  Below the first entry of the type the result is no empty range as the comment promises: it is
  \<open>(L - 1, L - 1)\<close> when \<open>L\<close> has the type, so that debuginfo_eip goes on with index -1.
\<close>

lemma stab_binsearch_below:
  assumes "L \<le> R" and "stabs_sorted tab ty L R" and "n_type (tab L) = ty" and "addr < n_value (tab L)"
  shows "stab_binsearch tab L R ty addr = (L - 1, L - 1)"
proof -
  have L: "is_typed tab ty L R L" using assms(1,3) by (simp add: is_typed_def)
  have all: "addr < n_value (tab i)" if "is_typed tab ty L R i" for i
    using stabs_sorted_mono [OF assms(2) L that] assms(4) that
    by (cases "i = L") (auto simp: is_typed_def intro: less_le_trans)
  have "addr \<noteq> - 1" using assms(4) by (metis word_n1_ge leD)
  moreover have "no_neighbour tab ty L R addr"
    unfolding no_neighbour_def Let_def using all by (fastforce simp: set_typed)
  moreover have "typed tab ty L R \<noteq> []" using L set_typed [of L] by (metis empty_iff list.set(1))
  then have "below_all tab L R ty addr" using all by (auto simp: below_all_def list_all_iff set_typed)
  moreover have "hd (typed tab ty L R) = L"
    using typed_sorted L by (intro sorted_hd) (auto simp: set_typed is_typed_def)
  ultimately show ?thesis using assms(1,2) stab_binsearch_ok [of L R tab ty addr] by (simp add: Let_def)
qed

text \<open>Two entries one byte apart: looking for the first finds the second.\<close>

lemma stab_binsearch_neighbour:
  "stab_binsearch (\<lambda>i. demo_stab N_FUN (0xF0100000 + word_of_int i)) 0 1 N_FUN 0xF0100000 = (1, 1)"
  "stab_region (\<lambda>i. demo_stab N_FUN (0xF0100000 + word_of_int i)) 0 1 N_FUN 0xF0100000 = (0, 0)"
  by (simp_all add: stab_binsearch_def bs_loop.simps find_type.simps demo_stab_def stab_region_def typed_def upto.simps)

end
