(* ===== verification/Monitor.thy ===== *)
theory Monitor
  imports Kdebug Env_Model Syscall
begin

text \<open>
  kern/monitor.c: the commands of the kernel monitor, its command line and its loop. The command
  buffer, the kernel stack and the strings are bytes of memory as the kernel sees it. Of what is
  printed only the data is kept, as a list of items; fixed messages are left out. Lines come
  from readline (Printf), here the addresses of buffers.
\<close>

unbundle bit_operations_syntax

definition FL_TF :: u32 where "FL_TF = 0x100"
definition FL_RF :: u32 where "FL_RF = 0x10000"

section \<open>State\<close>

datatype item =
    Allocated u32
  | Status u32 bool
  | Mapping u32 "nat option" u32
  | Unmapped u32
  | Dumped u32 u32
  | Frame u32 u32 "u32 list" Eipdebuginfo

record mstate =
  ms_k :: kstate
  ms_mem :: smem
  ms_tf :: "Trapframe option"
  ms_out :: "item list"

text \<open>
  A command gets argc and argv and returns an integer; what it needs of the machine besides:
  the kernel's debugging tables and the value of the register ebp.
\<close>

record machine =
  mc_stabs :: stabdata
  mc_ebp :: u32

type_synonym mres = "(int \<times> mstate) option"

definition emit :: "item list \<Rightarrow> mstate \<Rightarrow> mstate" where
  "emit xs s = s\<lparr>ms_out := ms_out s @ xs\<rparr>"

section \<open>Numbers\<close>

definition isspace :: "u8 \<Rightarrow> bool" where
  "isspace c \<longleftrightarrow> c = 32"

partial_function (option) atol_blanks :: "smem \<Rightarrow> u32 \<Rightarrow> u32 option" where
  "atol_blanks m p = (if isspace (m p) then atol_blanks m (p + 1) else Some p)"

definition atol_digit :: "u8 \<Rightarrow> u32 option" where
  "atol_digit c =
     (if 48 \<le> c \<and> c \<le> 57 then Some (ucast c - 48)
      else if 97 \<le> c \<and> c \<le> 122 then Some (ucast c - 97 + 10)
      else if 65 \<le> c \<and> c \<le> 90 then Some (ucast c - 65 + 10)
      else None)"

text \<open>The loop on the current character, which is at \<open>p\<close>.\<close>

partial_function (option) atol_loop :: "smem \<Rightarrow> u32 \<Rightarrow> u32 \<Rightarrow> u32 \<Rightarrow> u32 option" where
  "atol_loop m base p tot =
     (if isspace (m p) then Some tot
      else case atol_digit (m p) of
             None \<Rightarrow> Some tot
           | Some d \<Rightarrow> atol_loop m base (p + 1) (base * tot + d))"

definition atol :: "smem \<Rightarrow> u32 \<Rightarrow> u32 \<Rightarrow> u32 option" where
  "atol m p base =
     do {
       p1 \<leftarrow> atol_blanks m p;
       let sign = m p1;
       let p2 = (if sign = 45 \<or> sign = 43 then p1 + 1 else p1);
       let p3 = (if base = 16 then p2 + 2 else p2);
       tot \<leftarrow> atol_loop m base p3 0;
       Some (if sign = 45 then - tot else tot)
     }"

definition atoi :: "smem \<Rightarrow> u32 \<Rightarrow> u32 option" where
  "atoi m p = atol m p 10"

definition atox :: "smem \<Rightarrow> u32 \<Rightarrow> u32 option" where
  "atox m p = atol m p 16"

section \<open>Pages\<close>

text \<open>The error of the commands that test argc.\<close>

definition mon_inval :: "mstate \<Rightarrow> mres" where
  "mon_inval s = Some (- errcode E_INVAL, s)"

definition mon_alloc_page :: "u32 list \<Rightarrow> mstate \<Rightarrow> mres" where
  "mon_alloc_page argv s =
     (case page_alloc (ms_k s) of
        None \<Rightarrow> None
      | Some (Inr pp, k) \<Rightarrow>
          Some (0, emit [Allocated (page2pa pp)] (s\<lparr>ms_k := set_ref pp (pp_ref k pp + 1) k\<rparr>))
      | Some (Inl _, k) \<Rightarrow> Some (- errcode E_NO_MEM, s\<lparr>ms_k := k\<rparr>))"

definition mon_page_status :: "u32 list \<Rightarrow> mstate \<Rightarrow> mres" where
  "mon_page_status argv s =
     (if length argv \<noteq> 2 then mon_inval s
      else do {
        pa \<leftarrow> atox (ms_mem s) (argv ! 1);
        Some (0, emit [Status pa (pp_ref (ms_k s) (unat (VPN pa)) \<noteq> 0)] s)
      })"

definition mon_free_page :: "u32 list \<Rightarrow> mstate \<Rightarrow> mres" where
  "mon_free_page argv s =
     (if length argv \<noteq> 2 then mon_inval s
      else do {
        pa \<leftarrow> atox (ms_mem s) (argv ! 1);
        let pp = unat (VPN pa);
        Some (0, s\<lparr>ms_k := page_free pp (set_ref pp 0 (ms_k s))\<rparr>)
      })"

section \<open>Mappings\<close>

partial_function (option) showmappings_loop :: "u32 \<Rightarrow> u32 \<Rightarrow> mstate \<Rightarrow> mstate option" where
  "showmappings_loop now stop s =
     (if now \<le> stop then
        Option.bind (page_lookup (boot_pgdir (ms_k s)) now (ms_k s)) (\<lambda>(pp, pte, k).
          showmappings_loop (now + PGSIZE) stop
            (emit [case pte of Some p \<Rightarrow> Mapping now pp (rd k p) | None \<Rightarrow> Unmapped now] (s\<lparr>ms_k := k\<rparr>)))
      else Some s)"

definition mon_showmappings :: "u32 list \<Rightarrow> mstate \<Rightarrow> mres" where
  "mon_showmappings argv s =
     (if length argv \<noteq> 3 then mon_inval s
      else do {
        start \<leftarrow> atox (ms_mem s) (argv ! 1);
        stop \<leftarrow> atox (ms_mem s) (argv ! 2);
        s1 \<leftarrow> showmappings_loop (ROUNDDOWN start PGSIZE) (ROUNDUP stop PGSIZE) s;
        Some (0, s1)
      })"

text \<open>The nine commands that change one entry of the kernel's page tables: \<open>*pte = f( *pte)\<close>.\<close>

definition mon_change :: "(u32 \<Rightarrow> u32) \<Rightarrow> u32 list \<Rightarrow> mstate \<Rightarrow> mres" where
  "mon_change f argv s =
     (if length argv \<noteq> 2 then mon_inval s
      else do {
        va \<leftarrow> atox (ms_mem s) (argv ! 1);
        (_, pte, k) \<leftarrow> page_lookup (boot_pgdir (ms_k s)) va (ms_k s);
        Some (0, s\<lparr>ms_k := (case pte of Some p \<Rightarrow> wr p (f (rd k p)) k | None \<Rightarrow> k)\<rparr>)
      })"

definition mon_set_user where "mon_set_user = mon_change (\<lambda>pte. pte AND PTE_U)"
definition mon_set_writable where "mon_set_writable = mon_change (\<lambda>pte. pte AND PTE_W)"
definition mon_set_present where "mon_set_present = mon_change (\<lambda>pte. pte AND PTE_P)"
definition mon_clear_user where "mon_clear_user = mon_change (\<lambda>pte. pte AND NOT PTE_U)"
definition mon_clear_writable where "mon_clear_writable = mon_change (\<lambda>pte. pte AND NOT PTE_W)"
definition mon_clear_present where "mon_clear_present = mon_change (\<lambda>pte. pte AND NOT PTE_P)"
definition mon_change_user where "mon_change_user = mon_change (\<lambda>pte. pte XOR PTE_U)"
definition mon_change_writable where "mon_change_writable = mon_change (\<lambda>pte. pte XOR PTE_W)"
definition mon_change_present where "mon_change_present = mon_change (\<lambda>pte. pte XOR PTE_U)"

section \<open>Memory\<close>

text \<open>The four bytes at a physical address, read through the kernel's mapping of it.\<close>

definition pbyte :: "kstate \<Rightarrow> u32 \<Rightarrow> u8" where
  "pbyte k pa = get_byte (unat (PGOFF pa) mod 4) (rd k (unat (PPN pa), unat (PGOFF pa) div 4))"

partial_function (option) dump_pa_loop :: "u32 \<Rightarrow> u32 \<Rightarrow> mstate \<Rightarrow> mstate option" where
  "dump_pa_loop now stop s =
     (if now \<le> stop then
        Option.bind (KADDR (npage (ms_k s)) now) (\<lambda>_.
          dump_pa_loop (now + 1) stop (emit [Dumped now (le32 (pbyte (ms_k s)) now)] s))
      else Some s)"

definition mon_dump_contents_pa :: "u32 list \<Rightarrow> mstate \<Rightarrow> mres" where
  "mon_dump_contents_pa argv s =
     (if length argv \<noteq> 3 then mon_inval s
      else do {
        start \<leftarrow> atox (ms_mem s) (argv ! 1);
        stop \<leftarrow> atox (ms_mem s) (argv ! 2);
        s1 \<leftarrow> dump_pa_loop start stop s;
        Some (0, s1)
      })"

text \<open>The words up to the end of the page or of the range, through the current page tables.\<close>

partial_function (option) dump_page_loop :: "u32 \<Rightarrow> u32 \<Rightarrow> u32 \<Rightarrow> mstate \<Rightarrow> (u32 \<times> mstate) option" where
  "dump_page_loop next stop lim s =
     (if next \<le> stop \<and> next < lim then
        Option.bind (vread32 next (ms_k s)) (\<lambda>w.
          dump_page_loop (next + 1) stop lim (emit [Dumped next w] s))
      else Some (next, s))"

partial_function (option) dump_va_loop :: "nat \<Rightarrow> u32 \<Rightarrow> u32 \<Rightarrow> mstate \<Rightarrow> mstate option" where
  "dump_va_loop pgdir now stop s =
     (if now \<le> stop then
        Option.bind (page_lookup pgdir now (ms_k s)) (\<lambda>(pp, pte, k).
          case pte of
            Some p \<Rightarrow>
              Option.bind (dump_page_loop now stop (ROUNDUP (now + 1) PGSIZE)
                  (emit [Mapping now pp (rd k p)] (s\<lparr>ms_k := k\<rparr>)))
                (\<lambda>(next, s1). dump_va_loop pgdir next stop s1)
          | None \<Rightarrow> dump_va_loop pgdir (ROUNDUP (now + 1) PGSIZE) stop (emit [Unmapped now] (s\<lparr>ms_k := k\<rparr>)))
      else Some s)"

text \<open>The result of envid2env is not tested: an id that is refused leaves env NULL.\<close>

definition mon_dump_contents_va :: "u32 list \<Rightarrow> mstate \<Rightarrow> mres" where
  "mon_dump_contents_va argv s =
     (if length argv = 4 then do {
        envid \<leftarrow> atox (ms_mem s) (argv ! 1);
        r \<leftarrow> envid2env envid False (ms_k s);
        start \<leftarrow> atox (ms_mem s) (argv ! 2);
        stop \<leftarrow> atox (ms_mem s) (argv ! 3);
        e \<leftarrow> (case r of Inl _ \<Rightarrow> None | Inr e \<Rightarrow> e);
        pgdir \<leftarrow> env_pgdir (envs (ms_k s) e);
        s1 \<leftarrow> dump_va_loop pgdir start stop s;
        Some (0, s1)
      }
      else if length argv = 3 then do {
        start \<leftarrow> atox (ms_mem s) (argv ! 1);
        stop \<leftarrow> atox (ms_mem s) (argv ! 2);
        s1 \<leftarrow> dump_va_loop (boot_pgdir (ms_k s)) start stop s;
        Some (0, s1)
      }
      else mon_inval s)"

section \<open>Execution\<close>

definition mon_continue :: "u32 list \<Rightarrow> mstate \<Rightarrow> mres" where
  "mon_continue argv s =
     (case ms_tf s of
        None \<Rightarrow> Some (-1, s)
      | Some tf \<Rightarrow> Some (0, s\<lparr>ms_tf := Some (tf\<lparr>tf_eflags := (tf_eflags tf OR FL_RF) AND NOT FL_TF\<rparr>)\<rparr>))"

definition mon_stepi :: "u32 list \<Rightarrow> mstate \<Rightarrow> mres" where
  "mon_stepi argv s =
     (case ms_tf s of
        None \<Rightarrow> Some (-1, s)
      | Some tf \<Rightarrow> Some (0, s\<lparr>ms_tf := Some (tf\<lparr>tf_eflags := tf_eflags tf OR FL_TF\<rparr>)\<rparr>))"

partial_function (option) backtrace_loop :: "stabdata \<Rightarrow> u32 \<Rightarrow> mstate \<Rightarrow> mstate option" where
  "backtrace_loop kern ebp s =
     (if ebp = 0 then Some s
      else
        let m = ms_mem s; eip = le32 m (ebp + 4);
            args = map (\<lambda>i. le32 m (ebp + 8 + 4 * of_nat i)) [0..<5]
        in Option.bind (debuginfo_eip kern m eip (ms_k s)) (\<lambda>((_, info), k).
             backtrace_loop kern (le32 m ebp) (emit [Frame ebp eip args info] (s\<lparr>ms_k := k\<rparr>))))"

definition mon_backtrace :: "machine \<Rightarrow> u32 list \<Rightarrow> mstate \<Rightarrow> mres" where
  "mon_backtrace mc argv s = do { s1 \<leftarrow> backtrace_loop (mc_stabs mc) (mc_ebp mc) s; Some (0, s1) }"

text \<open>mon_help, mon_kerninfo and mon_showcolor only print fixed data.\<close>

definition mon_print :: "u32 list \<Rightarrow> mstate \<Rightarrow> mres" where
  "mon_print argv s = Some (0, s)"

section \<open>The command line\<close>

definition is_white :: "u8 \<Rightarrow> bool" where
  "is_white c \<longleftrightarrow> c = 9 \<or> c = 13 \<or> c = 10 \<or> c = 32"

text \<open>White space is overwritten with NUL; then the scan past the argument.\<close>

partial_function (option) gobble :: "smem \<Rightarrow> u32 \<Rightarrow> (smem \<times> u32) option" where
  "gobble m buf =
     (if m buf \<noteq> 0 \<and> is_white (m buf) then gobble (m(buf := 0)) (buf + 1) else Some (m, buf))"

partial_function (option) skip_arg :: "smem \<Rightarrow> u32 \<Rightarrow> u32 option" where
  "skip_arg m buf = (if m buf \<noteq> 0 \<and> \<not> is_white (m buf) then skip_arg m (buf + 1) else Some buf)"

definition MAXARGS :: nat where "MAXARGS = 16"

text \<open>The arguments, or \<open>None\<close> when there are too many.\<close>

partial_function (option) parse_args :: "smem \<Rightarrow> u32 \<Rightarrow> u32 list \<Rightarrow> (smem \<times> u32 list option) option" where
  "parse_args m buf argv =
     Option.bind (gobble m buf) (\<lambda>(m1, buf1).
       if m1 buf1 = 0 then Some (m1, Some argv)
       else if length argv = MAXARGS - 1 then Some (m1, None)
       else Option.bind (skip_arg m1 buf1) (\<lambda>buf2. parse_args m1 buf2 (argv @ [buf1])))"

text \<open>strcmp with a constant string gives 0.\<close>

fun str_is :: "smem \<Rightarrow> u32 \<Rightarrow> u8 list \<Rightarrow> bool" where
  "str_is m p [] \<longleftrightarrow> m p = 0"
| "str_is m p (c # cs) \<longleftrightarrow> m p = c \<and> str_is m (p + 1) cs"

definition cmd_name :: "string \<Rightarrow> u8 list" where
  "cmd_name = map of_char"

definition commands :: "machine \<Rightarrow> (u8 list \<times> (u32 list \<Rightarrow> mstate \<Rightarrow> mres)) list" where
  "commands mc =
     [(cmd_name ''help'', mon_print),
      (cmd_name ''kerninfo'', mon_print),
      (cmd_name ''backtrace'', mon_backtrace mc),
      (cmd_name ''showcolor'', mon_print),
      (cmd_name ''alloc_page'', mon_alloc_page),
      (cmd_name ''page_status'', mon_page_status),
      (cmd_name ''free_page'', mon_free_page),
      (cmd_name ''showmappings'', mon_showmappings),
      (cmd_name ''set_user'', mon_set_user),
      (cmd_name ''clear_user'', mon_clear_user),
      (cmd_name ''change_perm'', mon_change_user),
      (cmd_name ''set_writable'', mon_set_writable),
      (cmd_name ''clear_writable'', mon_clear_writable),
      (cmd_name ''change_writable'', mon_change_writable),
      (cmd_name ''set_present'', mon_set_present),
      (cmd_name ''clear_present'', mon_clear_present),
      (cmd_name ''change_present'', mon_change_present),
      (cmd_name ''dump_contents_pa'', mon_dump_contents_pa),
      (cmd_name ''dump_contents_va'', mon_dump_contents_va),
      (cmd_name ''continue'', mon_continue),
      (cmd_name ''stepi'', mon_stepi)]"

text \<open>The table is searched from its first entry on; an unknown command gives 0.\<close>

fun run_first ::
  "(u8 list \<times> (u32 list \<Rightarrow> mstate \<Rightarrow> mres)) list \<Rightarrow> u32 list \<Rightarrow> mstate \<Rightarrow> mres" where
  "run_first [] argv s = Some (0, s)"
| "run_first ((name, f) # cs) argv s =
     (if str_is (ms_mem s) (argv ! 0) name then f argv s else run_first cs argv s)"

definition runcmd :: "machine \<Rightarrow> u32 \<Rightarrow> mstate \<Rightarrow> mres" where
  "runcmd mc buf s =
     (case parse_args (ms_mem s) buf [] of
        None \<Rightarrow> None
      | Some (m1, None) \<Rightarrow> Some (0, s\<lparr>ms_mem := m1\<rparr>)
      | Some (m1, Some argv) \<Rightarrow>
          if argv = [] then Some (0, s\<lparr>ms_mem := m1\<rparr>)
          else run_first (commands mc) argv (s\<lparr>ms_mem := m1\<rparr>))"

text \<open>
  The loop of monitor on the lines that readline returns, each at the address \<open>buf\<close>: the bytes
  it stores there, or \<open>None\<close> for NULL. The result is \<open>None\<close> inside when the input ends first.
\<close>

fun store_bytes :: "u32 \<Rightarrow> u8 list \<Rightarrow> smem \<Rightarrow> smem" where
  "store_bytes a [] m = m"
| "store_bytes a (b # bs) m = store_bytes (a + 1) bs (m(a := b))"

fun monitor_loop :: "machine \<Rightarrow> u32 \<Rightarrow> u8 list option list \<Rightarrow> mstate \<Rightarrow> mstate option option" where
  "monitor_loop mc buf [] s = Some None"
| "monitor_loop mc buf (None # ls) s = monitor_loop mc buf ls s"
| "monitor_loop mc buf (Some line # ls) s =
     (case runcmd mc buf (s\<lparr>ms_mem := store_bytes buf (line @ [0]) (ms_mem s)\<rparr>) of
        None \<Rightarrow> None
      | Some (r, s1) \<Rightarrow> if r < 0 then Some (Some s1) else monitor_loop mc buf ls s1)"

end
