(* ===== verification/Monitor_Spec.thy ===== *)
theory Monitor_Spec
  imports Monitor Cstring_Spec Demo_State
begin

text \<open>
  The kernel monitor (kern/monitor.c): the command line is split into the words of the line, the
  first of them selects the command; when the loop ends; what the commands that change an entry
  of the page tables do.
\<close>

unbundle bit_operations_syntax

section \<open>Words\<close>

function words :: "u8 list \<Rightarrow> u8 list list" where
  "words xs =
     (let ys = dropWhile is_white xs
      in if ys = [] then [] else takeWhile (\<lambda>c. \<not> is_white c) ys # words (dropWhile (\<lambda>c. \<not> is_white c) ys))"
  by pat_completeness auto

termination
proof (relation "measure length", goal_cases)
  case (2 xs ys)
  then have "\<not> is_white (hd ys)" using hd_dropWhile by metis
  then have "length (dropWhile (\<lambda>c. \<not> is_white c) ys) < length ys"
    using 2(2) length_dropWhile_le [of "\<lambda>c. \<not> is_white c" "tl ys"] by (cases ys) (auto simp: less_Suc_eq_le)
  then show ?case using 2(1) length_dropWhile_le [of is_white xs] by simp
qed simp

declare words.simps [simp del]

section \<open>Addresses of a string\<close>

text \<open>The bytes \<open>p, \<dots>, p + n\<close>.\<close>

definition span :: "u32 \<Rightarrow> nat \<Rightarrow> u32 set" where
  "span p n = {p + of_nat i | i. i \<le> n}"

lemma cstr_cong:
  assumes "\<And>i. i \<le> length xs \<Longrightarrow> m' (p + of_nat i) = m (p + of_nat i)"
  shows "cstr m' p xs = cstr m p xs"
  using assms
proof (induction xs arbitrary: p)
  case Nil
  then show ?case using Nil [of 0] by simp
next
  case (Cons x xs)
  have "m' (p + 1 + of_nat i) = m (p + 1 + of_nat i)" if "i \<le> length xs" for i
    using Cons.prems [of "Suc i"] that by (simp add: add.assoc)
  then show ?case using Cons.IH [of "p + 1"] Cons.prems [of 0] by simp
qed

lemma of_nat_eq:
  assumes "i < 2 ^ 32" "j < 2 ^ 32" "(of_nat i :: u32) = of_nat j"
  shows "i = j"
proof -
  have "unat (of_nat i :: u32) = unat (of_nat j :: u32)" using assms(3) by simp
  then show ?thesis using assms(1,2) by (simp add: unat_of_nat)
qed

lemma span_0: "p \<in> span p n"
  by (auto simp: span_def intro: exI [of _ 0])

lemma span_shift: "k + n \<le> l \<Longrightarrow> span (p + of_nat k) n \<subseteq> span p l"
proof
  fix a assume kn: "k + n \<le> l" and "a \<in> span (p + of_nat k) n"
  then obtain i where i: "a = p + of_nat k + of_nat i" "i \<le> n" by (auto simp: span_def)
  then have "a = p + of_nat (k + i)" "k + i \<le> l" using kn by (simp_all add: add.assoc)
  then show "a \<in> span p l" unfolding span_def by blast
qed

lemma before_span:
  assumes "i < k" and "k + n < 2 ^ 32"
  shows "p + of_nat i \<notin> span (p + of_nat k) n"
proof
  assume "p + of_nat i \<in> span (p + of_nat k) n"
  then obtain j where j: "p + of_nat i = p + of_nat k + of_nat j" "j \<le> n" by (auto simp: span_def)
  then have "(of_nat i :: u32) = of_nat (k + j)" by (simp add: add.assoc)
  then have "i = k + j" by (rule of_nat_eq [rotated 2]) (use assms j(2) in auto)
  then show False using assms(1) by simp
qed

lemma cstr_after:
  assumes "cstr m (p + of_nat k) xs" and "i < k" and "k + length xs < 2 ^ 32"
  shows "cstr (m(p + of_nat i := v)) (p + of_nat k) xs"
proof -
  have "p + of_nat k + of_nat j \<noteq> p + of_nat i" if "j \<le> length xs" for j
  proof
    assume "p + of_nat k + of_nat j = p + of_nat i"
    then have "p + of_nat i \<in> span (p + of_nat k) (length xs)"
      unfolding span_def using that by (metis (mono_tags, lifting) mem_Collect_eq)
    then show False using before_span [OF assms(2,3)] by blast
  qed
  then have "cstr (m(p + of_nat i := v)) (p + of_nat k) xs = cstr m (p + of_nat k) xs"
    by (intro cstr_cong) auto
  then show ?thesis using assms(1) by simp
qed

section \<open>Splitting the line\<close>

lemma gobble_ok:
  assumes "cstr m p (ws @ rest)" and "\<forall>c\<in>set ws. is_white c" and "rest = [] \<or> \<not> is_white (hd rest)"
    and "length ws + length rest < 2 ^ 32"
  shows "\<exists>m'. gobble m p = Some (m', p + of_nat (length ws)) \<and> cstr m' (p + of_nat (length ws)) rest
    \<and> (\<forall>i < length ws. m' (p + of_nat i) = 0) \<and> (\<forall>a. a \<notin> span p (length ws) \<longrightarrow> m' a = m a)"
  using assms
proof (induction ws arbitrary: m p)
  case Nil
  then have "\<not> (m p \<noteq> 0 \<and> is_white (m p))" by (cases rest) auto
  then show ?case using Nil by (subst gobble.simps) auto
next
  case (Cons c ws)
  let ?m = "m(p := 0)"
  have w: "m p \<noteq> 0 \<and> is_white (m p)" using Cons.prems by auto
  have "cstr ?m (p + 1) (ws @ rest)"
    using cstr_after [of m p 1 "ws @ rest" 0 0] Cons.prems by simp
  moreover have "\<forall>c\<in>set ws. is_white c" "length ws + length rest < 2 ^ 32" using Cons.prems(2,4) by simp_all
  ultimately obtain m' where
    m': "gobble ?m (p + 1) = Some (m', p + 1 + of_nat (length ws))" "cstr m' (p + 1 + of_nat (length ws)) rest"
      "\<forall>i < length ws. m' (p + 1 + of_nat i) = 0" "\<forall>a. a \<notin> span (p + 1) (length ws) \<longrightarrow> m' a = ?m a"
    using Cons.IH [OF _ _ Cons.prems(3)] by blast
  have e: "p + of_nat (length (c # ws)) = p + 1 + of_nat (length ws)" by (simp add: add.assoc)
  have "p \<notin> span (p + 1) (length ws)"
    using before_span [of 0 1 "length ws" p] Cons.prems(4) by simp
  then have p0: "m' p = 0" using m'(4) by simp
  have "m' (p + of_nat i) = 0" if "i < length (c # ws)" for i
    using that m'(3) p0 by (cases i) (auto simp: add.assoc)
  moreover have "m' a = m a" if "a \<notin> span p (length (c # ws))" for a
  proof -
    have "a \<noteq> p" using that span_0 by blast
    moreover have "a \<notin> span (p + 1) (length ws)"
      using that span_shift [of 1 "length ws" "length (c # ws)" p] by auto
    ultimately show ?thesis using m'(4) by simp
  qed
  moreover have "gobble m p = Some (m', p + of_nat (length (c # ws)))"
    unfolding e using w m'(1) by (subst gobble.simps) simp
  ultimately show ?case using m'(2) unfolding e by blast
qed

lemma skip_ok:
  assumes "cstr m p (w @ rest)" and "\<forall>c\<in>set w. \<not> is_white c" and "rest = [] \<or> is_white (hd rest)"
  shows "skip_arg m p = Some (p + of_nat (length w)) \<and> cstr m (p + of_nat (length w)) rest
    \<and> (\<forall>i < length w. m (p + of_nat i) = w ! i \<and> w ! i \<noteq> 0)"
  using assms
proof (induction w arbitrary: p)
  case Nil
  then have "\<not> (m p \<noteq> 0 \<and> \<not> is_white (m p))" by (cases rest) auto
  then show ?case using Nil by (subst skip_arg.simps) auto
next
  case (Cons c w)
  have "skip_arg m p = skip_arg m (p + 1)" using Cons.prems by (subst skip_arg.simps) auto
  moreover have "cstr m (p + 1) (w @ rest)" "\<forall>c\<in>set w. \<not> is_white c" using Cons.prems(1,2) by simp_all
  note IH = Cons.IH [OF this Cons.prems(3)]
  moreover have "m (p + of_nat i) = (c # w) ! i \<and> (c # w) ! i \<noteq> 0" if "i < length (c # w)" for i
  proof (cases i)
    case 0
    then show ?thesis using Cons.prems(1) by simp
  next
    case (Suc j)
    then show ?thesis using IH that by (simp add: add.assoc)
  qed
  ultimately show ?case by (simp add: add.assoc)
qed

lemma cstr_nth: "cstr m p w \<longleftrightarrow> (\<forall>i < length w. m (p + of_nat i) = w ! i \<and> w ! i \<noteq> 0) \<and> m (p + of_nat (length w)) = 0"
proof (induction w arbitrary: p)
  case (Cons x w)
  show ?case
    unfolding cstr.simps Cons.IH by (auto simp: less_Suc_eq_0_disj add.assoc)
qed simp

lemma parse_nil: "gobble m buf = Some (m1, buf1) \<Longrightarrow> m1 buf1 = 0 \<Longrightarrow> parse_args m buf argv = Some (m1, Some argv)"
  by (subst parse_args.simps) simp

lemma parse_many: "gobble m buf = Some (m1, buf1) \<Longrightarrow> m1 buf1 \<noteq> 0 \<Longrightarrow> length argv = 15 \<Longrightarrow> parse_args m buf argv = Some (m1, None)"
  by (subst parse_args.simps) (simp add: MAXARGS_def)

lemma parse_more: "gobble m buf = Some (m1, buf1) \<Longrightarrow> m1 buf1 \<noteq> 0 \<Longrightarrow> length argv \<noteq> 15 \<Longrightarrow> skip_arg m1 buf1 = Some buf2
  \<Longrightarrow> parse_args m buf argv = parse_args m1 buf2 (argv @ [buf1])"
  by (subst parse_args.simps) (simp add: MAXARGS_def)

text \<open>
  The arguments point to the words of the line, each now ended by a NUL; only the bytes of the
  line have changed. More than 15 words are refused.
\<close>

lemma parse_ok:
  assumes "cstr m p line" and "length line < 2 ^ 32" and "length argv \<le> 15"
  shows "if length argv + length (words line) \<le> 15
    then \<exists>m' as. parse_args m p argv = Some (m', Some (argv @ as)) \<and> list_all2 (\<lambda>a w. cstr m' a w) as (words line)
      \<and> (\<forall>a. a \<notin> span p (length line) \<longrightarrow> m' a = m a) \<and> (line = [] \<or> is_white (hd line) \<longrightarrow> m' p = 0)
    else \<exists>m'. parse_args m p argv = Some (m', None)"
  using assms
proof (induction line arbitrary: m p argv rule: words.induct)
  case (1 line)
  define ws where "ws = takeWhile is_white line"
  define ys where "ys = dropWhile is_white line"
  have line: "line = ws @ ys" unfolding ws_def ys_def by (rule takeWhile_dropWhile_id [symmetric])
  have wsw: "\<forall>c\<in>set ws. is_white c" by (auto simp: ws_def dest: set_takeWhileD)
  have ysw: "ys = [] \<or> \<not> is_white (hd ys)" using hd_dropWhile [of is_white line] by (auto simp: ys_def)
  have "length ws + length ys < 2 ^ 32" using 1(3) unfolding line by simp
  from gobble_ok [OF 1(2) [unfolded line] wsw ysw this] obtain m1 where
    g: "gobble m p = Some (m1, p + of_nat (length ws))" "cstr m1 (p + of_nat (length ws)) ys"
      "\<forall>i < length ws. m1 (p + of_nat i) = 0" "\<forall>a. a \<notin> span p (length ws) \<longrightarrow> m1 a = m a" by blast
  let ?p1 = "p + of_nat (length ws)"
  have first: "m1 p = 0" if "ws \<noteq> []" using g(3) [rule_format, of 0] that by simp
  show ?case
  proof (cases "ys = []")
    case True
    then have w: "words line = []" by (simp add: words.simps [of line] ys_def [symmetric])
    have "parse_args m p argv = Some (m1, Some (argv @ []))" using parse_nil [OF g(1)] g(2) True by simp
    moreover have "m1 a = m a" if "a \<notin> span p (length line)" for a using g(4) that line True by simp
    moreover have "m1 p = 0" using first g(2) True by (cases "ws = []") simp_all
    ultimately show ?thesis using w 1(4) by (auto intro!: exI [of _ m1] exI [of _ "[]"])
  next
    case False
    define w where "w = takeWhile (\<lambda>c. \<not> is_white c) ys"
    define rest where "rest = dropWhile (\<lambda>c. \<not> is_white c) ys"
    have ys: "ys = w @ rest" by (simp add: w_def rest_def)
    have wp: "\<forall>c\<in>set w. \<not> is_white c" by (auto simp: w_def dest: set_takeWhileD)
    have rp: "rest = [] \<or> is_white (hd rest)" using hd_dropWhile [of "\<lambda>c. \<not> is_white c" ys] by (auto simp: rest_def)
    have wn: "w \<noteq> []" using False ysw by (cases ys) (auto simp: w_def)
    have wd: "words line = w # words rest"
      using False by (simp add: words.simps [of line] ys_def [symmetric] w_def rest_def Let_def)
    from skip_ok [OF g(2) [unfolded ys] wp rp] have
      s: "skip_arg m1 ?p1 = Some (?p1 + of_nat (length w))" "cstr m1 (?p1 + of_nat (length w)) rest"
        "\<forall>i < length w. m1 (?p1 + of_nat i) = w ! i \<and> w ! i \<noteq> 0" by auto
    let ?p2 = "?p1 + of_nat (length w)"
    have ne: "m1 ?p1 \<noteq> 0" using g(2) False by (cases ys) auto
    have len: "length ws + length w + length rest = length line" using line ys by simp
    then have lr: "length rest < 2 ^ 32" using 1(3) by simp
    show ?thesis
    proof (cases "length argv = 15")
      case True
      then show ?thesis using parse_many [OF g(1) ne True] wd by simp
    next
      case nf: False
      have step: "parse_args m p argv = parse_args m1 ?p2 (argv @ [?p1])" by (rule parse_more [OF g(1) ne nf s(1)])
      have "ys = dropWhile is_white line" by (simp add: ys_def)
      note IH = 1(1) [OF this False, folded rest_def, OF s(2) lr, of "argv @ [?p1]"]
      show ?thesis
      proof (cases "length argv + length (words line) \<le> 15")
        case False
        then show ?thesis using IH wd 1(4) nf step by auto
      next
        case True
        then obtain m' as where
          m': "parse_args m1 ?p2 ((argv @ [?p1]) @ as) = parse_args m1 ?p2 ((argv @ [?p1]) @ as)"
            "parse_args m1 ?p2 (argv @ [?p1]) = Some (m', Some ((argv @ [?p1]) @ as))"
            "list_all2 (\<lambda>a w. cstr m' a w) as (words rest)"
            "\<forall>a. a \<notin> span ?p2 (length rest) \<longrightarrow> m' a = m1 a" "rest = [] \<or> is_white (hd rest) \<longrightarrow> m' ?p2 = 0"
          using IH wd 1(4) nf by auto
        have "m' (?p1 + of_nat i) = w ! i \<and> w ! i \<noteq> 0" if "i < length w" for i
          using s(3) m'(4) before_span [of i "length w" "length rest" ?p1] that len 1(3) by simp
        then have "cstr m' ?p1 w" unfolding cstr_nth using m'(5) rp by simp
        then have "list_all2 (\<lambda>a w. cstr m' a w) (?p1 # as) (words line)" using m'(3) wd by simp
        moreover have "m' a = m a" if "a \<notin> span p (length line)" for a
        proof -
          have "span p (length ws) \<subseteq> span p (length line)" using span_shift [of 0 "length ws" "length line" p] len by simp
          moreover have "span ?p2 (length rest) \<subseteq> span p (length line)"
            using span_shift [of "length ws + length w" "length rest" "length line" p] len by (simp add: add.assoc)
          ultimately have "a \<notin> span p (length ws)" "a \<notin> span ?p2 (length rest)" using that by blast+
          then show ?thesis using g(4) m'(4) by simp
        qed
        moreover have "m' p = 0" if "line = [] \<or> is_white (hd line)"
        proof -
          have "ws \<noteq> []" using that line False ysw by (cases ws) auto
          then have "m1 p = 0" by (rule first)
          moreover have "p \<notin> span ?p2 (length rest)"
            using before_span [of 0 "length ws + length w" "length rest" p] wn len 1(3) by (simp add: add.assoc)
          ultimately show ?thesis using m'(4) by simp
        qed
        ultimately show ?thesis using True step m'(2) by (auto intro!: exI [of _ m'] exI [of _ "?p1 # as"])
      qed
    qed
  qed
qed

section \<open>Commands\<close>

lemma str_is_cstr: "cstr m p w \<Longrightarrow> 0 \<notin> set n \<Longrightarrow> str_is m p n \<longleftrightarrow> w = n"
proof (induction n arbitrary: p w)
  case Nil
  then show ?case by (cases w) auto
next
  case (Cons c n)
  then show ?case by (cases w) auto
qed

text \<open>\<open>str_is\<close> is strcmp against a copy of the string in memory.\<close>

lemma str_is_strcmp:
  assumes "cstr m p w" and "cstr m q n" and "0 \<notin> set n"
  shows "strcmp m p q = Some 0 \<longleftrightarrow> str_is m p n"
  using strcmp_sgn [OF assms(1,2)] str_is_cstr [OF assms(1,3)] by (auto simp: sgn_if split: if_splits)

lemma run_first_map_of:
  assumes "cstr (ms_mem s) (argv ! 0) w" and "\<forall>(n, f) \<in> set cs. 0 \<notin> set n"
  shows "run_first cs argv s = (case map_of cs w of None \<Rightarrow> Some (0, s) | Some f \<Rightarrow> f argv s)"
  using assms(2)
proof (induction cs)
  case (Cons c cs)
  obtain n f where c: "c = (n, f)" by (cases c)
  then show ?case using Cons str_is_cstr [OF assms(1), of n] by auto
qed simp

lemma commands_names: "\<forall>(n, f) \<in> set (commands mc). 0 \<notin> set n"
  by (simp add: commands_def cmd_name_def)

lemma runcmd_ok:
  assumes "cstr (ms_mem s) buf line" and "length line < 2 ^ 32" and "words line = w # ws" and "length (words line) \<le> 15"
  shows "\<exists>m' argv. list_all2 (\<lambda>a w. cstr m' a w) argv (words line)
    \<and> (\<forall>a. a \<notin> span buf (length line) \<longrightarrow> m' a = ms_mem s a)
    \<and> runcmd mc buf s = (case map_of (commands mc) w of
        None \<Rightarrow> Some (0, s\<lparr>ms_mem := m'\<rparr>) | Some f \<Rightarrow> f argv (s\<lparr>ms_mem := m'\<rparr>))"
proof -
  from parse_ok [OF assms(1,2), of "[]"] assms(4) obtain m' as where
    p: "parse_args (ms_mem s) buf [] = Some (m', Some as)" "list_all2 (\<lambda>a w. cstr m' a w) as (words line)"
      "\<forall>a. a \<notin> span buf (length line) \<longrightarrow> m' a = ms_mem s a" by auto
  have a0: "as \<noteq> []" "cstr m' (as ! 0) w" using p(2) assms(3) by (auto simp: list_all2_Cons2)
  have "runcmd mc buf s = run_first (commands mc) as (s\<lparr>ms_mem := m'\<rparr>)"
    using p(1) a0(1) by (simp add: runcmd_def)
  also have "\<dots> = (case map_of (commands mc) w of
      None \<Rightarrow> Some (0, s\<lparr>ms_mem := m'\<rparr>) | Some f \<Rightarrow> f as (s\<lparr>ms_mem := m'\<rparr>))"
    using a0(2) by (subst run_first_map_of [where w = w]) (simp_all add: commands_names)
  finally show ?thesis using p(2,3) by blast
qed

section \<open>The loop\<close>

lemma store_bytes_other: "a \<notin> span p (length bs) \<Longrightarrow> store_bytes p bs m a = m a"
proof (induction bs arbitrary: p m)
  case (Cons b bs)
  have "a \<noteq> p" using Cons.prems span_0 by blast
  moreover have "a \<notin> span (p + 1) (length bs)"
    using Cons.prems span_shift [of 1 "length bs" "length (b # bs)" p] by auto
  ultimately show ?case using Cons.IH by simp
qed simp

lemma store_bytes_cstr:
  "0 \<notin> set bs \<Longrightarrow> length bs + 1 < 2 ^ 32 \<Longrightarrow> cstr (store_bytes p (bs @ [0]) m) p bs"
proof (induction bs arbitrary: p m)
  case (Cons b bs)
  have "p \<notin> span (p + 1) (length (bs @ [0]))"
    using before_span [of 0 1 "length (bs @ [0])" p] Cons.prems(2) by simp
  then have "store_bytes (p + 1) (bs @ [0]) (m(p := b)) p = b"
    using store_bytes_other [of p "p + 1" "bs @ [0]" "m(p := b)"] by simp
  then show ?case using Cons by simp
qed simp

text \<open>One word: a command without arguments.\<close>

lemma monitor_word:
  assumes "words w = [w]" and "0 \<notin> set w" and "length w + 1 < 2 ^ 32" and "map_of (commands mc) w = Some f"
  shows "\<exists>m' a. (\<forall>b. b \<notin> span buf (length w + 1) \<longrightarrow> m' b = ms_mem s b)
    \<and> monitor_loop mc buf (Some w # ls) s
      = (case f [a] (s\<lparr>ms_mem := m'\<rparr>) of None \<Rightarrow> None
         | Some (r, s1) \<Rightarrow> if r < 0 then Some (Some s1) else monitor_loop mc buf ls s1)"
proof -
  let ?s = "s\<lparr>ms_mem := store_bytes buf (w @ [0]) (ms_mem s)\<rparr>"
  have c: "cstr (ms_mem ?s) buf w" using store_bytes_cstr [OF assms(2,3)] by simp
  have l: "length w < 2 ^ 32" "length (words w) \<le> 15" using assms(1,3) by simp_all
  obtain m' argv where
    m': "list_all2 (\<lambda>a w. cstr m' a w) argv [w]" "\<forall>a. a \<notin> span buf (length w) \<longrightarrow> m' a = ms_mem ?s a"
      "runcmd mc buf ?s = f argv (?s\<lparr>ms_mem := m'\<rparr>)"
    using runcmd_ok [OF c l(1) assms(1) l(2), of mc] unfolding assms(1,4) option.case by blast
  obtain a where a: "argv = [a]" using m'(1) by (auto simp: list_all2_Cons2)
  have "m' b = ms_mem s b" if "b \<notin> span buf (length w + 1)" for b
  proof -
    have "b \<notin> span buf (length w)" using that span_shift [of 0 "length w" "length w + 1" buf] by auto
    then show ?thesis using m'(2) store_bytes_other [of b buf "w @ [0]"] that by simp
  qed
  then show ?thesis using m'(3) a by (intro exI [of _ m'] exI [of _ a]) simp
qed

section \<open>Properties\<close>

text \<open>
  C32: the command line of the monitor. A line of at most 15 words runs the command that its first
  word names, with pointers to the words of the line, each ended by a NUL; no byte outside the
  line changes before it runs. An unknown name does nothing.
\<close>

theorem runcmd_correct:
  assumes "cstr (ms_mem s) buf line" and "length line < 2 ^ 32" and "words line = w # ws" and "length (words line) \<le> 15"
  shows "\<exists>m' argv. list_all2 (\<lambda>a w. cstr m' a w) argv (words line)
    \<and> (\<forall>a. a \<notin> span buf (length line) \<longrightarrow> m' a = ms_mem s a)
    \<and> runcmd mc buf s = (case map_of (commands mc) w of
        None \<Rightarrow> Some (0, s\<lparr>ms_mem := m'\<rparr>) | Some f \<Rightarrow> f argv (s\<lparr>ms_mem := m'\<rparr>))"
  using assms by (rule runcmd_ok)

definition demo_machine :: machine where
  "demo_machine = \<lparr>mc_stabs = \<lparr>sd_stabs = 0, sd_stab_end = 0, sd_stabstr = 0, sd_stabstr_end = 0\<rparr>, mc_ebp = 0\<rparr>"

definition demo_ms :: mstate where
  "demo_ms = \<lparr>ms_k = demo, ms_mem = store_bytes 100 (cmd_name '' free_page  0x3000'' @ [0]) (\<lambda>_. 0),
     ms_tf = Some Trapframe_zero, ms_out = []\<rparr>"

theorem runcmd_correct_witness:
  "\<exists>m' p q. cstr m' p (cmd_name ''free_page'') \<and> cstr m' q (cmd_name ''0x3000'')
    \<and> runcmd demo_machine 100 demo_ms = mon_free_page [p, q] (demo_ms\<lparr>ms_mem := m'\<rparr>)"
proof -
  let ?l = "cmd_name '' free_page  0x3000''"
  have w: "words ?l = [cmd_name ''free_page'', cmd_name ''0x3000'']"
    by (simp add: words.simps cmd_name_def is_white_def)
  have c: "cstr (ms_mem demo_ms) 100 ?l" unfolding demo_ms_def by (simp add: store_bytes_cstr cmd_name_def)
  have l: "length ?l < 2 ^ 32" "length (words ?l) \<le> 15" unfolding w by (simp_all add: cmd_name_def)
  have f: "map_of (commands demo_machine) (cmd_name ''free_page'') = Some mon_free_page"
    by (simp add: commands_def cmd_name_def)
  from runcmd_correct [OF c l(1) w l(2), of demo_machine] obtain m' argv where
    "list_all2 (\<lambda>a w. cstr m' a w) argv (words ?l)"
    "runcmd demo_machine 100 demo_ms = mon_free_page argv (demo_ms\<lparr>ms_mem := m'\<rparr>)" unfolding f by auto
  then show ?thesis unfolding w by (auto simp: list_all2_Cons2)
qed

text \<open>
  the command continue does not leave the monitor. It clears the trap flag of the frame, but
  it returns 0, and the loop of monitor goes on to the next line; only a command that fails
  ends it.
\<close>

theorem monitor_continue_stays:
  assumes "ms_tf s = Some tf"
  shows "\<exists>m'. monitor_loop mc buf (Some (cmd_name ''continue'') # ls) s
    = monitor_loop mc buf ls (s\<lparr>ms_mem := m', ms_tf := Some (tf\<lparr>tf_eflags := (tf_eflags tf OR FL_RF) AND NOT FL_TF\<rparr>)\<rparr>)"
proof -
  let ?w = "cmd_name ''continue''"
  have "words ?w = [?w]" "0 \<notin> set ?w" "length ?w + 1 < 2 ^ 32"
    by (simp_all add: words.simps cmd_name_def is_white_def)
  moreover have "map_of (commands mc) ?w = Some mon_continue" by (simp add: commands_def cmd_name_def)
  ultimately show ?thesis
    using monitor_word [of ?w mc mon_continue buf s ls] assms by (auto simp: mon_continue_def)
qed

theorem monitor_continue_stays_witness:
  "monitor_loop demo_machine 100 [Some (cmd_name ''continue'')] demo_ms = Some None"
  using monitor_continue_stays [of demo_ms Trapframe_zero demo_machine 100 "[]"] by (simp add: demo_ms_def)

lemma set_bit_absent: "(pte AND PTE_U) AND PTE_P = 0" "(pte AND PTE_W) AND PTE_P = 0"
proof -
  have "PTE_U AND PTE_P = 0" "PTE_W AND PTE_P = 0" by (simp_all add: pte_flags)
  then show "(pte AND PTE_U) AND PTE_P = 0" "(pte AND PTE_W) AND PTE_P = 0" by (simp_all add: and.assoc)
qed

lemma mon_change_lookup:
  assumes "length argv = 2" and "atox (ms_mem s) (argv ! 1) = Some va"
    and "page_lookup (boot_pgdir (ms_k s)) va (ms_k s) = Some (pp, Some p, ms_k s)" and "fst p \<noteq> boot_pgdir (ms_k s)"
    and "f (rd (ms_k s) p) AND PTE_P = 0"
  shows "\<exists>k. mon_change f argv s = Some (0, s\<lparr>ms_k := k\<rparr>) \<and> k = wr p (f (rd (ms_k s) p)) (ms_k s)
    \<and> page_lookup (boot_pgdir k) va k = Some (None, Some p, k)"
proof -
  let ?k = "wr p (f (rd (ms_k s) p)) (ms_k s)"
  have w: "pgdir_walk (boot_pgdir (ms_k s)) va 0 (ms_k s) = Some (Some p, ms_k s)"
    using assms(3) by (auto simp: page_lookup_def bind_Some_iff split: option.splits if_splits)
  have d: "mem ?k (boot_pgdir (ms_k s)) = mem (ms_k s) (boot_pgdir (ms_k s))" "npage ?k = npage (ms_k s)"
    "boot_pgdir ?k = boot_pgdir (ms_k s)"
    using assms(4) by (simp_all add: wr_def)
  have "pgdir_walk (boot_pgdir ?k) va 0 ?k = Some (Some p, ?k)"
    using w d by (auto simp: pgdir_walk_def Let_def rd_def bind_Some_iff split: if_splits)
  moreover have "rd ?k p = f (rd (ms_k s) p)" by (simp add: rd_def wr_def)
  ultimately have "page_lookup (boot_pgdir ?k) va ?k = Some (None, Some p, ?k)"
    using assms(5) by (simp add: page_lookup_def)
  then show ?thesis using assms(1-3) by (simp add: mon_change_def)
qed

text \<open>
  the commands set_user and set_writable do not set a bit: they clear all others. The page at
  the address is no longer mapped afterwards, and its entry has lost the page number.
\<close>

theorem mon_set_unmaps:
  assumes "length argv = 2" and "atox (ms_mem s) (argv ! 1) = Some va"
    and "page_lookup (boot_pgdir (ms_k s)) va (ms_k s) = Some (Some pp, Some p, ms_k s)"
    and "fst p \<noteq> boot_pgdir (ms_k s)"
  shows "\<exists>k k'. mon_set_user argv s = Some (0, s\<lparr>ms_k := k\<rparr>) \<and> page_lookup (boot_pgdir k) va k = Some (None, Some p, k)
    \<and> mon_set_writable argv s = Some (0, s\<lparr>ms_k := k'\<rparr>) \<and> page_lookup (boot_pgdir k') va k' = Some (None, Some p, k')"
  using mon_change_lookup [OF assms, of "\<lambda>pte. pte AND PTE_U"] mon_change_lookup [OF assms, of "\<lambda>pte. pte AND PTE_W"]
    set_bit_absent unfolding mon_set_user_def mon_set_writable_def by blast

theorem mon_set_unmaps_witness:
  "\<exists>k. mon_set_user [0, 100] (demo_ms\<lparr>ms_mem := store_bytes 100 (cmd_name ''0x1000'') (\<lambda>_. 0)\<rparr>)
      = Some (0, demo_ms\<lparr>ms_mem := store_bytes 100 (cmd_name ''0x1000'') (\<lambda>_. 0), ms_k := k\<rparr>)
    \<and> page_lookup 0 0x1000 k = Some (None, Some (1, 1), k)"
proof -
  let ?m = "store_bytes 100 (cmd_name ''0x1000'') (\<lambda>_. 0)"
  let ?s = "demo_ms\<lparr>ms_mem := ?m\<rparr>"
  have "atol_loop ?m 16 102 0 = Some 0x1000"
    by (simp add: atol_loop.simps isspace_def atol_digit_def cmd_name_def)
  then have a: "atox (ms_mem ?s) ([0, 100] ! 1) = Some 0x1000"
    by (simp add: atox_def atol_def atol_blanks.simps isspace_def cmd_name_def)
  have b: "boot_pgdir demo = 0" by (simp add: demo_def kstate_zero_def)
  have "page_lookup (boot_pgdir demo) 0x1000 demo = Some (Some 2, Some (1, 1), demo)"
    using lookup_ok [OF demo_inv, of 0 "0x1000"] by (simp add: b slot_def demo_index demo_leafmap demo_ptmap layout)
  then have l: "page_lookup (boot_pgdir (ms_k ?s)) 0x1000 (ms_k ?s) = Some (Some 2, Some (1, 1), ms_k ?s)"
    by (simp add: demo_ms_def)
  have "fst (1, 1 :: nat) \<noteq> boot_pgdir (ms_k ?s)" by (simp add: demo_ms_def b)
  from mon_set_unmaps [OF _ a l this] obtain k where
    k: "mon_set_user [0, 100] ?s = Some (0, ?s\<lparr>ms_k := k\<rparr>)" "page_lookup (boot_pgdir k) 0x1000 k = Some (None, Some (1, 1), k)"
    by auto
  from mon_change_lookup [OF _ a l, of "\<lambda>pte. pte AND PTE_U"] k b set_bit_absent(1)
  have "boot_pgdir k = 0" by (auto simp: mon_set_user_def demo_ms_def wr_def)
  then show ?thesis using k by auto
qed

end
