(* ===== verification/Fsformat.thy ===== *)
theory Fsformat
  imports Fs
begin

text \<open>
  fs/fsformat.c: the tool that makes the disk image. The mapped image is a function from block
  and word numbers to words; positions in it are byte offsets from \<open>diskmap\<close>. The array of
  directory entries that startdir allocates is a sequence of words, 64 per entry, with the
  contents malloc left there as a parameter. A file of the host is its path, its size and the
  pieces in which read returns its bytes; other calls to the host (open, fstat, mmap, msync) are
  assumed to work. A panic, and the exit of \<open>usage\<close>, is None.
\<close>

unbundle bit_operations_syntax

section \<open>State\<close>

definition MAX_DIR_ENTS :: nat where "MAX_DIR_ENTS = 128"
definition MAXFILESIZE :: nat where "MAXFILESIZE = (NDIRECT + NINDIRECT) * BLKSIZE"
definition FTYPE_REG :: u32 where "FTYPE_REG = 0"

record fmt =
  fm_nblocks :: nat
  fm_img :: "nat \<Rightarrow> nat \<Rightarrow> u32"
  fm_pos :: nat
  fm_super :: nat
  fm_bitmap :: nat
  fm_ents :: "nat \<Rightarrow> u32"
  fm_n :: nat

record hostfile =
  hf_path :: "u8 list"
  hf_size :: nat
  hf_reads :: "u8 list list"

text \<open>A \<open>struct File *\<close>: the root in the superblock, or an entry of the array.\<close>

datatype fref = Root | Entry nat

text \<open>The macro ROUNDUP at the two types it is used with.\<close>

definition ROUNDUP_u :: "u32 \<Rightarrow> u32 \<Rightarrow> u32" where
  "ROUNDUP_u n v = n - 1 + v - (n - 1) mod v"

definition ROUNDUP_i :: "int \<Rightarrow> int \<Rightarrow> int" where
  "ROUNDUP_i n v = n - 1 + v - (n - 1) smod v"

definition blockof :: "nat \<Rightarrow> nat" where
  "blockof pos = pos div BLKSIZE"

text \<open>Stores into the image and into a \<open>struct File\<close>.\<close>

definition img_word :: "nat \<Rightarrow> nat \<Rightarrow> u32 \<Rightarrow> fmt \<Rightarrow> fmt" where
  "img_word b k v s = s\<lparr>fm_img := (fm_img s)(b := (fm_img s b)(k := v))\<rparr>"

definition img_byte :: "nat \<Rightarrow> u8 \<Rightarrow> (nat \<Rightarrow> nat \<Rightarrow> u32) \<Rightarrow> nat \<Rightarrow> nat \<Rightarrow> u32" where
  "img_byte a c img =
     (let b = a div 4096; k = a mod 4096 div 4 in img(b := (img b)(k := put_byte (a mod 4) c (img b k))))"

fun img_bytes :: "nat \<Rightarrow> u8 list \<Rightarrow> (nat \<Rightarrow> nat \<Rightarrow> u32) \<Rightarrow> nat \<Rightarrow> nat \<Rightarrow> u32" where
  "img_bytes a [] img = img"
| "img_bytes a (c # cs) img = img_bytes (a + 1) cs (img_byte a c img)"

fun ent_bytes :: "nat \<Rightarrow> u8 list \<Rightarrow> (nat \<Rightarrow> u32) \<Rightarrow> nat \<Rightarrow> u32" where
  "ent_bytes a [] e = e"
| "ent_bytes a (c # cs) e = ent_bytes (a + 1) cs (e(a div 4 := put_byte (a mod 4) c (e (a div 4))))"

definition set_field :: "fref \<Rightarrow> nat \<Rightarrow> u32 \<Rightarrow> fmt \<Rightarrow> fmt" where
  "set_field f k v s =
     (case f of
        Root \<Rightarrow> img_word (fm_super s) (2 + k) v s
      | Entry i \<Rightarrow> s\<lparr>fm_ents := (fm_ents s)(i * 64 + k := v)\<rparr>)"

section \<open>Space on the disk\<close>

definition alloc :: "u32 \<Rightarrow> fmt \<Rightarrow> (nat \<times> fmt) option" where
  "alloc bytes s =
     (let start = fm_pos s; s1 = s\<lparr>fm_pos := fm_pos s + unat (ROUNDUP_u bytes (of_nat BLKSIZE))\<rparr>
      in if blockof (fm_pos s1) \<ge> fm_nblocks s1 then None else Some (start, s1))"

definition set_root_name :: "fmt \<Rightarrow> fmt" where
  "set_root_name s = s\<lparr>fm_img := img_bytes (fm_super s * 4096 + 8) [47, 0] (fm_img s)\<rparr>"

definition opendisk :: "fmt \<Rightarrow> fmt option" where
  "opendisk s0 =
     do {
       let s = s0\<lparr>fm_img := (\<lambda>_ _. 0), fm_pos := 0\<rparr>;
       (_, s1) \<leftarrow> alloc (of_nat BLKSIZE) s;
       (p, s2) \<leftarrow> alloc (of_nat BLKSIZE) s1;
       let s3 = s2\<lparr>fm_super := blockof p\<rparr>;
       let s4 = img_word (fm_super s3) 1 (of_nat (fm_nblocks s3)) (img_word (fm_super s3) 0 FS_MAGIC s3);
       let s5 = set_root_name (set_field Root F_TYPE FTYPE_DIR s4);
       let nbitblocks = (fm_nblocks s5 + BLKBITSIZE - 1) div BLKBITSIZE;
       (q, s6) \<leftarrow> alloc (of_nat nbitblocks) s5;
       Some (s6\<lparr>fm_bitmap := blockof q,
         fm_img := (\<lambda>b. if blockof q \<le> b \<and> b < blockof q + nbitblocks then (\<lambda>_. 0xFFFFFFFF) else fm_img s6 b)\<rparr>)
     }"

text \<open>\<open>bitmap[i/32] &= ~(1<<(i%32))\<close>.\<close>

definition clear_bit :: "nat \<Rightarrow> fmt \<Rightarrow> fmt" where
  "clear_bit i s =
     (let b = fm_bitmap s + i div 32 div 1024; k = i div 32 mod 1024
      in img_word b k (fm_img s b k AND NOT (push_bit (i mod 32) 1)) s)"

definition finishdisk :: "fmt \<Rightarrow> fmt" where
  "finishdisk s = fold clear_bit [0..<blockof (fm_pos s)] s"

section \<open>Files\<close>

definition finishfile :: "fref \<Rightarrow> nat \<Rightarrow> u32 \<Rightarrow> fmt \<Rightarrow> fmt option" where
  "finishfile f start len s =
     (let s1 = set_field f F_SIZE len s;
          n = unat (ROUNDUP_u len (of_nat BLKSIZE)) div BLKSIZE;
          s2 = fold (\<lambda>i. set_field f (F_DIRECT + i) (of_nat (start + i))) [0..<min n NDIRECT] s1
      in if n \<ge> NDIRECT then do {
           (p, s3) \<leftarrow> alloc (of_nat BLKSIZE) s2;
           let s4 = set_field f F_INDIRECT (of_nat (blockof p)) s3;
           Some (fold (\<lambda>i. img_word (blockof p) (i - NDIRECT) (of_nat (start + i))) [NDIRECT..<n] s4)
         }
         else Some s2)"

definition startdir :: "(nat \<Rightarrow> u32) \<Rightarrow> fmt \<Rightarrow> fmt" where
  "startdir junk s = s\<lparr>fm_ents := junk, fm_n := 0\<rparr>"

definition diradd :: "u32 \<Rightarrow> u8 list \<Rightarrow> fmt \<Rightarrow> (fref \<times> fmt) option" where
  "diradd type name s =
     (let i = fm_n s; s1 = s\<lparr>fm_n := i + 1\<rparr>
      in if fm_n s1 > MAX_DIR_ENTS then None
         else Some (Entry i,
           set_field (Entry i) F_TYPE type (s1\<lparr>fm_ents := ent_bytes (i * 256) (name @ [0]) (fm_ents s1)\<rparr>)))"

definition finishdir :: "fmt \<Rightarrow> fmt option" where
  "finishdir s =
     do {
       let size = 256 * fm_n s;
       (start, s1) \<leftarrow> alloc (of_nat size) s;
       let s2 = fold (\<lambda>w. img_word (blockof start + w div 1024) (w mod 1024) (fm_ents s1 w)) [0..<size div 4] s1;
       finishfile Root (blockof start) (word_of_int (ROUNDUP_i (int size) (int BLKSIZE))) s2
     }"

text \<open>The pieces are stored one after the other; an empty one is the end of the file.\<close>

fun host_readn :: "nat \<Rightarrow> nat \<Rightarrow> u8 list list \<Rightarrow> fmt \<Rightarrow> fmt option" where
  "host_readn a 0 cs s = Some s"
| "host_readn a (Suc n) [] s = None"
| "host_readn a (Suc n) (c # cs) s =
     (if c = [] then None
      else host_readn (a + length c) (Suc n - length c) cs (s\<lparr>fm_img := img_bytes a c (fm_img s)\<rparr>))"

text \<open>The path from behind its last slash.\<close>

definition last_name :: "u8 list \<Rightarrow> u8 list" where
  "last_name p = rev (takeWhile (\<lambda>c. c \<noteq> 47) (rev p))"

definition writefile :: "hostfile \<Rightarrow> fmt \<Rightarrow> fmt option" where
  "writefile h s =
     (if hf_size h \<ge> MAXFILESIZE then None
      else do {
        (f, s1) \<leftarrow> diradd FTYPE_REG (last_name (hf_path h)) s;
        (start, s2) \<leftarrow> alloc (of_nat (hf_size h)) s1;
        s3 \<leftarrow> host_readn start (hf_size h) (hf_reads h) s2;
        finishfile f (blockof start) (of_nat (hf_size h)) s3
      })"

text \<open>\<open>main\<close>, with the number of blocks of the command line: the contents of the image.\<close>

definition format :: "(nat \<Rightarrow> u32) \<Rightarrow> nat \<Rightarrow> hostfile list \<Rightarrow> (nat \<Rightarrow> nat \<Rightarrow> u32) option" where
  "format junk nblocks files =
     (if nblocks < 2 \<or> nblocks > 1024 then None
      else do {
        s1 \<leftarrow> opendisk \<lparr>fm_nblocks = nblocks, fm_img = (\<lambda>_ _. 0), fm_pos = 0, fm_super = 0, fm_bitmap = 0,
                       fm_ents = (\<lambda>_. 0), fm_n = 0\<rparr>;
        s2 \<leftarrow> iter_opt writefile files (startdir junk s1);
        s3 \<leftarrow> finishdir s2;
        Some (fm_img (finishdisk s3))
      })"

end
