(* ===== verification/Fsformat_Inv.thy ===== *)
theory Fsformat_Inv
  imports Fsformat Fs_File
begin

text \<open>
  What each step of fs/fsformat.c does to the image: closed forms of its loops, the invariant
  \<open>fmt_inv\<close> (every entry so far names a file whose blocks hold its contents, all of them below the
  position, and the rest of the image is zero) and its preservation by writefile, whatever malloc
  left in the entries. An entry keeps that at the block numbers behind the end of its file, so
  the file need not satisfy \<open>file_inv\<close>; that it can be read is shown from its own blocks alone.
\<close>

unbundle bit_operations_syntax

section \<open>Bytes and words\<close>

lemma word_by_bytes: "(\<And>k. k < 4 \<Longrightarrow> byte_of c (4 * j + k) = byte_of d (4 * j + k)) \<Longrightarrow> c j = d j"
proof -
  assume b: "\<And>k. k < 4 \<Longrightarrow> byte_of c (4 * j + k) = byte_of d (4 * j + k)"
  have "get_byte k (c j) = get_byte k (d j)" if "k < 4" for k using b [OF that] that by (simp add: byte_of_def)
  then show ?thesis using join_bytes [of "c j"] join_bytes [of "d j"] by simp
qed

lemma byte_of_upd: "byte_of (c(a div 4 := put_byte (a mod 4) v (c (a div 4)))) x = (if x = a then v else byte_of c x)"
proof (cases "x div 4 = a div 4")
  case True
  then have "x mod 4 = a mod 4 \<longleftrightarrow> x = a" by (metis div_mult_mod_eq)
  then show ?thesis using True by (simp add: byte_of_def get_put_byte)
qed (auto simp: byte_of_def)

lemma byte_of_ent: "byte_of (ent_bytes a cs e) x = (if a \<le> x \<and> x < a + length cs then cs ! (x - a) else byte_of e x)"
proof (induction cs arbitrary: a e)
  case (Cons c cs)
  have u: "byte_of (e(a div 4 := put_byte (a mod 4) c (e (a div 4)))) x = (if x = a then c else byte_of e x)"
    by (rule byte_of_upd)
  show ?case unfolding ent_bytes.simps Cons.IH u by (auto simp: nth_Cons' Suc_le_eq)
qed auto

lemma ent_other: "4 * j + 4 \<le> a \<or> a + length cs \<le> 4 * j \<Longrightarrow> ent_bytes a cs e j = e j"
  by (rule word_by_bytes) (auto simp: byte_of_ent)

lemma img_byte_at:
  assumes "x < 4096"
  shows "byte_of (img_byte a v img b) x = (if a = b * 4096 + x then v else byte_of (img b) x)"
proof (cases "b = a div 4096")
  case True
  have m: "a mod 4096 mod 4 = a mod 4" by (simp add: mod_mod_cancel)
  have "x = a mod 4096 \<longleftrightarrow> a = b * 4096 + x" using True assms div_mult_mod_eq [of a 4096] by linarith
  then show ?thesis
    using byte_of_upd [of "img b" "a mod 4096" v x] True by (simp add: img_byte_def Let_def m)
next
  case False
  then have "a \<noteq> b * 4096 + x" using assms by auto
  then show ?thesis using False by (simp add: img_byte_def Let_def)
qed

lemma img_bytes_at:
  assumes "x < 4096"
  shows "byte_of (img_bytes a cs img b) x
    = (if a \<le> b * 4096 + x \<and> b * 4096 + x < a + length cs then cs ! (b * 4096 + x - a) else byte_of (img b) x)"
proof (induction cs arbitrary: a img)
  case (Cons c cs)
  show ?case unfolding img_bytes.simps Cons.IH img_byte_at [OF assms] by (auto simp: nth_Cons' Suc_le_eq)
qed auto

lemma img_bytes_other:
  "(\<And>x. a \<le> x \<Longrightarrow> x < a + length cs \<Longrightarrow> x div 4096 \<noteq> b) \<Longrightarrow> img_bytes a cs img b = img b"
proof (induction cs arbitrary: a img)
  case (Cons c cs)
  have "img_byte a c img b = img b" using Cons.prems [of a] by (simp add: img_byte_def Let_def)
  then show ?case using Cons.IH [of "a + 1" "img_byte a c img"] Cons.prems by simp
qed simp

lemma img_bytes_append: "img_bytes a (cs @ ds) img = img_bytes (a + length cs) ds (img_bytes a cs img)"
  by (induction cs arbitrary: a img) (simp_all add: add.assoc)

lemma host_readn_ok:
  "concat cs = content \<Longrightarrow> [] \<notin> set cs \<Longrightarrow>
    host_readn a (length content) cs s = Some (s\<lparr>fm_img := img_bytes a content (fm_img s)\<rparr>)"
proof (induction cs arbitrary: a content s)
  case (Cons c cs)
  have "c \<noteq> []" using Cons.prems(2) by auto
  then obtain m where m: "length content = Suc m" "Suc m - length c = length (concat cs)"
    using Cons.prems(1) by (cases c) (auto simp del: length_concat)
  then show ?case
    using Cons.IH [of "concat cs" "a + length c" "s\<lparr>fm_img := img_bytes a c (fm_img s)\<rparr>"] Cons.prems \<open>c \<noteq> []\<close>
    by (auto simp: img_bytes_append simp del: length_concat)
qed simp

section \<open>Space\<close>

definition blocks :: "nat \<Rightarrow> nat" where
  "blocks m = (m + 4095) div 4096"

lemma content_block:
  assumes "k < len" "K = blocks len"
  shows "k div 4096 < K"
  using assms by (auto simp: blocks_def)

lemma roundup_u: "m < 2 ^ 31 \<Longrightarrow> unat (ROUNDUP_u (of_nat m) (of_nat BLKSIZE)) = blocks m * 4096"
proof (cases m)
  case 0
  then show ?thesis by (simp add: ROUNDUP_u_def BLKSIZE_def blocks_def)
next
  case (Suc k)
  assume m: "m < 2 ^ 31"
  have "(of_nat k mod 4096 :: u32) = of_nat (k mod 4096)"
    by (rule word_unat_eq_iff [THEN iffD2]) (use m Suc in \<open>simp add: unat_mod unat_of_nat\<close>)
  then have "ROUNDUP_u (of_nat m) (of_nat BLKSIZE) = (of_nat (k + 4096 - k mod 4096) :: u32)"
    by (simp add: ROUNDUP_u_def BLKSIZE_def Suc of_nat_diff)
  moreover have "k + 4096 - k mod 4096 = blocks m * 4096"
    using Suc by (simp add: blocks_def minus_mod_eq_div_mult [symmetric])
  moreover have "blocks m * 4096 < 2 ^ 32" using m unfolding blocks_def by simp
  ultimately show ?thesis by (simp add: unat_of_nat del: of_nat_mult)
qed

lemma fmt_alloc_ok:
  assumes "fm_pos s = P * 4096" "m < 2 ^ 31" "P + blocks m < fm_nblocks s"
  shows "alloc (of_nat m) s = Some (P * 4096, s\<lparr>fm_pos := (P + blocks m) * 4096\<rparr>)"
  using assms(1,3) roundup_u [OF assms(2)] by (simp add: alloc_def blockof_def BLKSIZE_def algebra_simps)

lemma blockof_block: "blockof (b * 4096) = b"
  by (simp add: blockof_def BLKSIZE_def)

section \<open>Loops\<close>

lemma fold_entry:
  "fold (\<lambda>i. set_field (Entry e) (c + i) (v i)) [0..<m] s
    = s\<lparr>fm_ents := (\<lambda>j. if e * 64 + c \<le> j \<and> j < e * 64 + c + m then v (j - (e * 64 + c)) else fm_ents s j)\<rparr>"
  by (induction m) (auto simp: set_field_def fun_eq_iff intro!: fmt.equality)

lemma fold_root:
  "fold (\<lambda>i. set_field Root (c + i) (v i)) [0..<m] s
    = s\<lparr>fm_img := (fm_img s)(fm_super s := (\<lambda>j. if 2 + c \<le> j \<and> j < 2 + c + m then v (j - (2 + c))
        else fm_img s (fm_super s) j))\<rparr>"
  by (induction m) (auto simp: set_field_def img_word_def fun_eq_iff intro!: fmt.equality)

lemma fold_indirect:
  "10 \<le> n \<Longrightarrow> fold (\<lambda>i. img_word b (i - NDIRECT) (v i)) [NDIRECT..<n] s
    = s\<lparr>fm_img := (fm_img s)(b := (\<lambda>k. if k < n - 10 then v (k + 10) else fm_img s b k))\<rparr>"
proof (induction n rule: dec_induct)
  case base
  then show ?case by (simp add: NDIRECT_def)
next
  case (step n)
  then show ?case
    by (simp add: NDIRECT_def img_word_def) (auto simp: fun_eq_iff less_Suc_eq_le intro!: fmt.equality)
qed

lemma fold_words:
  "fold (\<lambda>w. img_word (P + w div 1024) (w mod 1024) (e w)) [0..<m] s
    = s\<lparr>fm_img := (\<lambda>b k. if P \<le> b \<and> k < 1024 \<and> (b - P) * 1024 + k < m then e ((b - P) * 1024 + k) else fm_img s b k)\<rparr>"
proof (induction m)
  case (Suc m)
  have i: "b = P + m div 1024 \<and> k = m mod 1024 \<longleftrightarrow> P \<le> b \<and> k < 1024 \<and> (b - P) * 1024 + k = m" for b k
    by (auto simp: div_mult_mod_eq)
  have "img_word (P + m div 1024) (m mod 1024) (e m) t
      = t\<lparr>fm_img := (\<lambda>b k. if P \<le> b \<and> k < 1024 \<and> (b - P) * 1024 + k = m then e m else fm_img t b k)\<rparr>" for t
    unfolding img_word_def i [symmetric] by (auto simp: fun_eq_iff intro!: fmt.equality)
  then show ?case by (auto simp: Suc.IH fun_eq_iff less_Suc_eq intro!: fmt.equality)
qed (simp add: fun_eq_iff)

section \<open>Reading a file whose blocks are there\<close>

text \<open>
  The first \<open>m\<close> blocks of a file, and its indirect block when one of them needs it, are on the
  disk and in use. Nothing is said of its other block numbers.
\<close>

definition has_blocks :: "fs \<Rightarrow> nat \<Rightarrow> fptr \<Rightarrow> nat \<Rightarrow> bool" where
  "has_blocks s n f m \<longleftrightarrow> fs_ok s n \<and> fst f < n \<and> \<not> is_free s (fst f) \<and> m \<le> 1034
     \<and> (10 < m \<longrightarrow> 0 < ind s f \<and> ind s f < n \<and> \<not> is_free s (ind s f))
     \<and> (\<forall>i<m. 0 < bno s f i \<and> bno s f i < n \<and> \<not> is_free s (bno s f i))"

lemma same_fs_file: "same_fs s s' \<Longrightarrow> bno s' f = bno s f" "same_fs s s' \<Longrightarrow> ind s' f = ind s f"
  "same_fs s s' \<Longrightarrow> f_word s' f = f_word s f" "same_fs s s' \<Longrightarrow> fbyte s' f = fbyte s f"
  "same_fs s s' \<Longrightarrow> blk s' = blk s" "same_fs s s' \<Longrightarrow> is_free s' b = is_free s b"
  using file_inv_same(2,3) [of s s' f] same_fs_flags [of s s'] same_fs_invs(3,4) [of s s'] is_free_cong [of s' s b]
  by (auto simp: fbyte_byte_of intro!: ext)

lemma has_blocks_same: "same_fs s s' \<Longrightarrow> has_blocks s n f m \<Longrightarrow> has_blocks s' n f m"
  using same_fs_file [of s s'] fs_ok_same [of s s'] by (simp add: has_blocks_def)

lemma has_read:
  assumes "has_blocks s n f m"
  shows "\<exists>s'. rd_w (fld f k) s = Some (f_word s f k, s') \<and> same_fs s s'"
  using rd_w_ok [of s n "fld f k"] assms by (simp add: has_blocks_def fld_slot f_word_def)

lemma has_slot_read:
  assumes "has_blocks s n f m" "i < m" "slot_of s f i p"
  shows "\<exists>w s'. rd_w p s = Some (w, s') \<and> same_fs s s' \<and> unat w = bno s f i"
proof (cases "i < 10")
  case True
  then show ?thesis using has_read [OF assms(1), of "F_DIRECT + i"] assms(3) by (auto simp: slot_of_def bno_def file_consts)
next
  case False
  then have p: "p = (ind s f, i - NDIRECT)" "10 < m" using assms(2,3) by (auto simp: slot_of_def)
  then have "fs_ok s n" "0 < ind s f" "ind s f < n" "\<not> is_free s (ind s f)" using assms(1) by (auto simp: has_blocks_def)
  then show ?thesis using rd_w_ok [of s n p] p False by (auto simp: bno_def file_consts)
qed

lemma has_walk:
  assumes "has_blocks s n f m" "i < m"
  shows "\<exists>p s'. file_block_walk f i True s = Some (Inr p, s') \<and> same_fs s s' \<and> slot_of s' f i p"
proof (cases "i < 10")
  case True
  then show ?thesis by (auto simp: file_block_walk_def slot_of_def file_consts)
next
  case False
  then have i: "0 < ind s f" "ind s f < n" "i < 1034" using assms by (auto simp: has_blocks_def)
  obtain s1 where s1: "rd_w (fld f F_INDIRECT) s = Some (f_word s f F_INDIRECT, s1)" "same_fs s s1"
    using has_read [OF assms(1)] by blast
  obtain s2 where s2: "rd_w (fld f F_INDIRECT) s1 = Some (f_word s f F_INDIRECT, s2)" "same_fs s1 s2"
    using has_read [OF has_blocks_same [OF s1(2) assms(1)]] same_fs_file(3) [OF s1(2)] by metis
  have t: "same_fs s s2" by (rule same_fs_trans [OF s1(2) s2(2)])
  obtain s3 where s3: "diskaddr (ind s f) s2 = Some (ind s f, s3)" "same_fs s2 s3"
    using diskaddr_ok [OF _ i(1,2), of s2] has_blocks_same [OF t assms(1)] by (auto simp: has_blocks_def)
  have "f_word s f F_INDIRECT \<noteq> 0" using i(1) by (auto simp: ind_def)
  then have "file_block_walk f i True s = Some (Inr (ind s f, i - NDIRECT), s3)"
    using False i(3) s1(1) s2(1) s3(1) by (simp add: file_block_walk_def file_consts ind_def)
  moreover have "same_fs s s3" by (rule same_fs_trans [OF t s3(2)])
  ultimately show ?thesis using i(1) False same_fs_file(2) [of s s3 f] by (auto simp: slot_of_def)
qed

lemma has_get_block:
  assumes "has_blocks s n f m" "i < m"
  shows "\<exists>s'. file_get_block f i s = Some (Inr (bno s f i), s') \<and> same_fs s s'"
proof -
  have i: "0 < bno s f i" "bno s f i < n" using assms by (auto simp: has_blocks_def)
  obtain p s1 where s1: "file_block_walk f i True s = Some (Inr p, s1)" "same_fs s s1" "slot_of s1 f i p"
    using has_walk [OF assms] by blast
  obtain w s2 where s2: "rd_w p s1 = Some (w, s2)" "same_fs s1 s2" "unat w = bno s f i"
    using has_slot_read [OF has_blocks_same [OF s1(2) assms(1)] assms(2) s1(3)] same_fs_file(1) [OF s1(2)] by auto
  have t: "same_fs s s2" by (rule same_fs_trans [OF s1(2) s2(2)])
  have sl: "slot_of s2 f i p" using s1(3) same_fs_file(2) [OF s2(2)] by (simp add: slot_of_def)
  obtain w' s3 where s3: "rd_w p s2 = Some (w', s3)" "same_fs s2 s3" "unat w' = bno s f i"
    using has_slot_read [OF has_blocks_same [OF t assms(1)] assms(2) sl] same_fs_file(1) [OF t] by auto
  have t3: "same_fs s s3" by (rule same_fs_trans [OF t s3(2)])
  obtain s4 where s4: "diskaddr (bno s f i) s3 = Some (bno s f i, s4)" "same_fs s3 s4"
    using diskaddr_ok [OF _ i, of s3] has_blocks_same [OF t3 assms(1)] by (auto simp: has_blocks_def)
  have "w \<noteq> 0" using s2(3) i(1) by auto
  then have "file_get_block f i s = Some (Inr (bno s f i), s4)"
    using s1(1) s2(1) s3(1,3) s4(1) by (simp add: file_get_block_def)
  then show ?thesis using same_fs_trans [OF t3 s4(2)] by blast
qed

lemma has_read_loop:
  assumes "has_blocks s n f (blocks (unat lim))" "unat pos \<le> unat lim" "unat lim \<le> 4235264"
  shows "\<exists>s'. read_loop f pos lim acc s = Some (Inr (acc @ map (fbyte s f) [unat pos..<unat lim]), s')"
  using assms
proof (induction "unat lim - unat pos" arbitrary: pos acc s rule: less_induct)
  case less
  show ?case
  proof (cases "pos < lim")
    case False
    then have "unat pos = unat lim" using less.prems(2) by (simp add: word_less_nat_alt)
    then show ?thesis using False by (simp add: read_loop.simps)
  next
    case True
    let ?i = "unat pos div 4096" and ?x = "unat pos mod 4096" and ?m = "unat (chunk pos lim)"
    let ?b = "bno s f ?i"
    have p: "unat pos \<le> 4235264" using less.prems(2,3) by simp
    note c = chunk_next [OF True less.prems(3)]
    have i: "?i < blocks (unat lim)" using content_block [of "unat pos" "unat lim"] True by (simp add: word_less_nat_alt)
    obtain s1 where s1: "file_get_block f ?i s = Some (Inr ?b, s1)" "same_fs s s1"
      using has_get_block [OF less.prems(1) i] by blast
    note e1 = same_fs_file [OF s1(2)]
    have b: "?b < n" "\<not> is_free s1 ?b" "fs_ok s1 n" "?b \<noteq> 0"
      using has_blocks_same [OF s1(2) less.prems(1)] i e1(1) by (auto simp: has_blocks_def)
    obtain s2 where s2: "rd_bs (?b * 4096 + ?x) ?m s1 = Some (map (byte_of (blk s ?b)) [?x..<?x + ?m], s2)" "same_fs s1 s2"
      using rd_bs_ok [OF b(3,1,2) c(3)] e1(5) by auto
    have t: "same_fs s s2" by (rule same_fs_trans [OF s1(2) s2(2)])
    have step: "read_loop f pos lim acc s
        = read_loop f (pos + chunk pos lim) lim (acc @ map (fbyte s f) [unat pos..<unat pos + ?m]) s2"
      using True s1(1) s2(1) fbyte_range [OF c(3) b(4)] pos_addr [OF p] pos_block [OF p]
      by (simp add: read_loop.simps [of f pos] Let_def)
    have lt: "unat lim - unat (pos + chunk pos lim) < unat lim - unat pos" "unat (pos + chunk pos lim) \<le> unat lim"
      using c True by (simp_all add: word_less_nat_alt)
    have app: "[unat pos..<unat lim] = [unat pos..<unat pos + ?m] @ [unat pos + ?m..<unat lim]"
      using c(4) upt_add_eq_append [of "unat pos" "unat pos + ?m" "unat lim - (unat pos + ?m)"] by simp
    from less.hyps [OF lt(1) has_blocks_same [OF t less.prems(1)] lt(2) less.prems(3),
        of "acc @ map (fbyte s f) [unat pos..<unat pos + ?m]"]
    show ?thesis unfolding step app c(1) same_fs_file(4) [OF t] map_append append_assoc .
  qed
qed

lemma has_file_read:
  assumes "has_blocks s n f (blocks m)" "f_word s f F_SIZE = of_nat m" "m \<le> 4235264"
  shows "\<exists>s'. file_read f (of_nat m) 0 s = Some (Inr (map (fbyte s f) [0..<m]), s')"
proof -
  have m: "unat (of_nat m :: u32) = m" using assms(3) by (simp add: unat_of_nat)
  obtain s1 where s1: "rd_w (fld f F_SIZE) s = Some (of_nat m, s1)" "same_fs s s1"
    using has_read [OF assms(1), of F_SIZE] assms(2) by auto
  show ?thesis
  proof (cases "m = 0")
    case True
    then show ?thesis using s1(1) by (simp add: file_read_def)
  next
    case False
    have "sint (of_nat m :: u32) = int m" using pos_small [of "of_nat m"] assms(3) m by metis
    then have run: "file_read f (of_nat m) 0 s = read_loop f 0 (of_nat m) [] s1"
      using s1(1) False by (simp add: file_read_def MIN_u_def)
    from has_read_loop [of s1 n f "of_nat m" 0 "[]"] show ?thesis
      unfolding run m using has_blocks_same [OF s1(2) assms(1)] assms(3) same_fs_file(4) [OF s1(2)] by simp
  qed
qed

section \<open>Files in an image\<close>

text \<open>Block \<open>i\<close> of the file with the fields \<open>w\<close>.\<close>

definition file_blk :: "(nat \<Rightarrow> nat \<Rightarrow> u32) \<Rightarrow> (nat \<Rightarrow> u32) \<Rightarrow> nat \<Rightarrow> nat" where
  "file_blk img w i =
     (if i < 10 then unat (w (34 + i)) else if unat (w 44) = 0 then 0 else unat (img (unat (w 44)) (i - 10)))"

text \<open>
  A file with these fields has the contents in blocks of its own below \<open>P\<close>. The block numbers
  behind its last block are those malloc left in the entry; nothing is said of them.
\<close>

definition file_in :: "(nat \<Rightarrow> nat \<Rightarrow> u32) \<Rightarrow> nat \<Rightarrow> (nat \<Rightarrow> u32) \<Rightarrow> u8 list \<Rightarrow> bool" where
  "file_in img P w content \<longleftrightarrow> unat (w 32) = length content \<and> length content < 4235264
     \<and> (10 < blocks (length content) \<longrightarrow> 3 \<le> unat (w 44) \<and> unat (w 44) < P)
     \<and> (\<forall>i<blocks (length content). 3 \<le> file_blk img w i \<and> file_blk img w i < P)
     \<and> (\<forall>k<length content. byte_of (img (file_blk img w (k div 4096))) (k mod 4096) = content ! k)"

lemma file_blk_cong:
  assumes "\<forall>k<64. w' k = w k" "10 \<le> i \<longrightarrow> img' (unat (w 44)) = img (unat (w 44))" "i < 1034"
  shows "file_blk img' w' i = file_blk img w i"
  using assms by (simp add: file_blk_def)

lemma blocks_max: "m < 4235264 \<Longrightarrow> blocks m \<le> 1034"
  by (simp add: blocks_def)

lemma file_in_mono:
  assumes "file_in img P w content" "P \<le> P'" "\<forall>k<64. w' k = w k" "\<forall>b. 3 \<le> b \<and> b < P \<longrightarrow> img' b = img b"
  shows "file_in img' P' w' content"
proof -
  note inv = assms(1) [unfolded file_in_def]
  have b: "file_blk img' w' i = file_blk img w i" if "i < blocks (length content)" for i
  proof (rule file_blk_cong [OF assms(3)])
    show "10 \<le> i \<longrightarrow> img' (unat (w 44)) = img (unat (w 44))"
    proof
      assume "10 \<le> i"
      then have "10 < blocks (length content)" using that by simp
      then show "img' (unat (w 44)) = img (unat (w 44))" using inv assms(4) by blast
    qed
    show "i < 1034" using that inv blocks_max [of "length content"] by auto
  qed
  have c: "file_blk img' w' (k div 4096) = file_blk img w (k div 4096)"
      "img' (file_blk img w (k div 4096)) = img (file_blk img w (k div 4096))" if "k < length content" for k
  proof -
    have i: "k div 4096 < blocks (length content)" by (rule content_block [OF that refl])
    show "file_blk img' w' (k div 4096) = file_blk img w (k div 4096)" by (rule b [OF i])
    show "img' (file_blk img w (k div 4096)) = img (file_blk img w (k div 4096))" using inv assms(4) i by blast
  qed
  have w: "w' 32 = w 32" "w' 44 = w 44" using assms(3) by auto
  show ?thesis
    unfolding file_in_def w using inv assms(2) b c by (auto intro: less_le_trans)
qed

definition entry_ok :: "(nat \<Rightarrow> nat \<Rightarrow> u32) \<Rightarrow> nat \<Rightarrow> (nat \<Rightarrow> u32) \<Rightarrow> u8 list \<Rightarrow> u8 list \<Rightarrow> bool" where
  "entry_ok img P w name content \<longleftrightarrow> length name < 128 \<and> name_at w 0 name \<and> file_in img P w content"

text \<open>The superblock, but for the size and the blocks of the root directory.\<close>

definition super_words :: "nat \<Rightarrow> nat \<Rightarrow> u32" where
  "super_words n = (\<lambda>_. 0)(0 := FS_MAGIC, 1 := of_nat n, 2 := 47, 35 := FTYPE_DIR)"

definition ent :: "fmt \<Rightarrow> nat \<Rightarrow> nat \<Rightarrow> u32" where
  "ent s i = (\<lambda>k. fm_ents s (i * 64 + k))"

definition fmt_inv :: "fmt \<Rightarrow> nat \<Rightarrow> nat \<Rightarrow> (u8 list \<times> u8 list) list \<Rightarrow> bool" where
  "fmt_inv s n P files \<longleftrightarrow> fm_nblocks s = n \<and> 3 \<le> P \<and> P < n \<and> n \<le> 1024 \<and> fm_pos s = P * 4096
     \<and> fm_super s = 1 \<and> fm_bitmap s = 2 \<and> fm_n s = length files
     \<and> fm_img s 1 = super_words n \<and> fm_img s 2 = (\<lambda>_. 0xFFFFFFFF) \<and> (\<forall>b\<ge>P. fm_img s b = (\<lambda>_. 0))
     \<and> (\<forall>i<length files. entry_ok (fm_img s) P (ent s i) (fst (files ! i)) (snd (files ! i)))"

section \<open>One file\<close>

text \<open>The fields of an entry after finishfile, and the new indirect block.\<close>

definition new_fields :: "nat \<Rightarrow> nat \<Rightarrow> nat \<Rightarrow> (nat \<Rightarrow> u32) \<Rightarrow> nat \<Rightarrow> u32" where
  "new_fields S K len w =
     (\<lambda>k. if k = 32 then of_nat len
          else if 34 \<le> k \<and> k < 34 + min K 10 then of_nat (S + (k - 34))
          else if k = 44 \<and> 10 \<le> K then of_nat (S + K) else w k)"

definition new_indirect :: "nat \<Rightarrow> nat \<Rightarrow> (nat \<Rightarrow> nat \<Rightarrow> u32) \<Rightarrow> nat \<Rightarrow> nat \<Rightarrow> u32" where
  "new_indirect S K img =
     (if 10 \<le> K then img(S + K := (\<lambda>k. if k < K - 10 then of_nat (S + (k + 10)) else img (S + K) k)) else img)"

definition ind_blocks :: "nat \<Rightarrow> nat" where
  "ind_blocks K = (if 10 \<le> K then 1 else 0)"

lemma blocks_1: "blocks 4096 = 1"
  by (simp add: blocks_def)

lemma entry_index:
  fixes j :: nat
  assumes "k < 64" "k + m \<le> 64"
  shows "j = e * 64 + k \<longleftrightarrow> j div 64 = e \<and> j mod 64 = k"
    "e * 64 + k \<le> j \<and> j < e * 64 + k + m \<longleftrightarrow> j div 64 = e \<and> k \<le> j mod 64 \<and> j mod 64 < k + m"
    "j div 64 = e \<Longrightarrow> j - (e * 64 + k) = j mod 64 - k" "j div 64 = e \<Longrightarrow> e * 64 + j mod 64 = j"
proof -
  obtain q r where j: "j = q * 64 + r" "r < 64" using div_mult_mod_eq [of j 64] by (metis mod_less_divisor zero_less_numeral)
  then have d: "j div 64 = q" "j mod 64 = r" by simp_all
  show "j div 64 = e \<Longrightarrow> j - (e * 64 + k) = j mod 64 - k" "j div 64 = e \<Longrightarrow> e * 64 + j mod 64 = j"
    unfolding d using j by auto
  consider "q = e" | "q < e" | "e < q" by linarith
  then show "j = e * 64 + k \<longleftrightarrow> j div 64 = e \<and> j mod 64 = k"
    "e * 64 + k \<le> j \<and> j < e * 64 + k + m \<longleftrightarrow> j div 64 = e \<and> k \<le> j mod 64 \<and> j mod 64 < k + m"
    unfolding d by (cases; use j assms in linarith)+
qed

lemma finishfile_entry:
  assumes "fm_pos s = (S + K) * 4096" "K = blocks len" "len < 2 ^ 31" "S + K + ind_blocks K < fm_nblocks s"
  shows "finishfile (Entry e) S (of_nat len) s
    = Some (s\<lparr>fm_pos := (S + K + ind_blocks K) * 4096,
        fm_ents := (\<lambda>j. if j div 64 = e then new_fields S K len (ent s e) (j mod 64) else fm_ents s j),
        fm_img := new_indirect S K (fm_img s)\<rparr>)"
proof -
  have K: "unat (ROUNDUP_u (of_nat len) (of_nat BLKSIZE)) div BLKSIZE = K"
    using roundup_u [OF assms(3)] assms(2) by (simp add: BLKSIZE_def)
  let ?e1 = "(fm_ents s)(e * 64 + 32 := of_nat len)"
  let ?e2 = "\<lambda>j. if e * 64 + 34 \<le> j \<and> j < e * 64 + 34 + min K 10 then of_nat (S + (j - (e * 64 + 34))) else ?e1 j"
  have s1: "set_field (Entry e) F_SIZE (of_nat len) s = s\<lparr>fm_ents := ?e1\<rparr>"
    by (simp add: set_field_def F_SIZE_def)
  have s2: "fold (\<lambda>i. set_field (Entry e) (F_DIRECT + i) (of_nat (S + i))) [0..<min K NDIRECT] (s\<lparr>fm_ents := ?e1\<rparr>)
      = s\<lparr>fm_ents := ?e2\<rparr>"
    unfolding fold_entry F_DIRECT_def NDIRECT_def by (simp cong: if_cong)
  let ?w = "\<lambda>j. new_fields S K len (ent s e) (j mod 64)"
  have ix: "j = e * 64 + 32 \<longleftrightarrow> j div 64 = e \<and> j mod 64 = 32" "j = e * 64 + 44 \<longleftrightarrow> j div 64 = e \<and> j mod 64 = 44"
    "e * 64 + 34 \<le> j \<and> j < e * 64 + 34 + min K 10 \<longleftrightarrow> j div 64 = e \<and> 34 \<le> j mod 64 \<and> j mod 64 < 34 + min K 10" for j
    using entry_index(1) [where k = 32 and m = 0 and e = e and j = j] entry_index(1) [where k = 44 and m = 0 and e = e and j = j]
      entry_index(2) [where k = 34 and m = "min K 10" and e = e and j = j] by auto
  have e2: "?e2 j = (if j div 64 = e then if j mod 64 = 44 \<and> 10 \<le> K then fm_ents s j else ?w j else fm_ents s j)" for j
  proof (cases "j div 64 = e")
    case True
    then have j: "e * 64 + j mod 64 = j" "j - (e * 64 + 34) = j mod 64 - 34"
      using entry_index(3) [where k = 34 and m = 0 and e = e and j = j] entry_index(4) [where k = 0 and m = 0 and e = e and j = j]
      by simp_all
    show ?thesis using True unfolding j(2) ix fun_upd_def by (simp add: new_fields_def ent_def j(1))
  next
    case False
    then show ?thesis unfolding ix fun_upd_def by simp
  qed
  show ?thesis
  proof (cases "10 \<le> K")
    case False
    then have "?e2 = (\<lambda>j. if j div 64 = e then ?w j else fm_ents s j)" using e2 by auto
    then show ?thesis
      using False K s1 s2 assms(1) by (simp add: finishfile_def new_indirect_def ind_blocks_def NDIRECT_def)
  next
    case True
    have al: "alloc (of_nat BLKSIZE) (s\<lparr>fm_ents := ?e2\<rparr>)
        = Some ((S + K) * 4096, s\<lparr>fm_ents := ?e2, fm_pos := (S + K + 1) * 4096\<rparr>)"
      using fmt_alloc_ok [of "s\<lparr>fm_ents := ?e2\<rparr>" "S + K" 4096] assms(1,4) True
      by (simp add: BLKSIZE_def blocks_1 ind_blocks_def)
    have "(?e2)(e * 64 + 44 := of_nat (S + K)) = (\<lambda>j. if j div 64 = e then ?w j else fm_ents s j)"
    proof
      fix j
      have a: "((?e2)(e * 64 + 44 := of_nat (S + K))) j = (if j = e * 64 + 44 then of_nat (S + K) else ?e2 j)"
        by (rule fun_upd_apply)
      show "((?e2)(e * 64 + 44 := of_nat (S + K))) j = (if j div 64 = e then ?w j else fm_ents s j)"
        unfolding a e2 using True ix(2) [of j] by (auto simp: new_fields_def)
    qed
    then have e3: "set_field (Entry e) F_INDIRECT (of_nat (S + K)) (s\<lparr>fm_ents := ?e2, fm_pos := (S + K + 1) * 4096\<rparr>)
        = s\<lparr>fm_pos := (S + K + 1) * 4096, fm_ents := \<lambda>j. if j div 64 = e then ?w j else fm_ents s j\<rparr>"
      unfolding set_field_def F_INDIRECT_def by (simp only: fref.case) simp
    have n: "\<not> K < NDIRECT" using True by (simp add: NDIRECT_def)
    have i: "ind_blocks K = 1" using True by (simp add: ind_blocks_def)
    show ?thesis
      unfolding finishfile_def Let_def K s1 s2 i if_P [OF n [unfolded not_less]] al bind.bind_lunit prod.case
        blockof_block e3 fold_indirect [OF True]
      using True by (simp add: new_indirect_def cong: if_cong)
  qed
qed

lemma new_file_blk:
  assumes "w = new_fields P K len z" "0 < P" "P + K < 1024" "i < K" "K \<le> 1034"
  shows "file_blk (new_indirect P K img) w i = P + i"
proof -
  have u: "unat (of_nat (P + i) :: u32) = P + i" if "i \<le> K" for i
    using assms(3) that by (simp add: unat_of_nat del: of_nat_add)
  show ?thesis
  proof (cases "i < 10")
    case True
    then have "w (34 + i) = of_nat (P + i)" using assms(1,4) by (simp add: new_fields_def)
    then show ?thesis using True u [of i] assms(4) by (simp add: file_blk_def del: of_nat_add)
  next
    case False
    then have "w 44 = of_nat (P + K)" using assms(1,4) by (simp add: new_fields_def del: of_nat_add)
    then show ?thesis
      using False u [of K] u [of i] assms(2,4) by (auto simp: file_blk_def new_indirect_def simp del: of_nat_add)
  qed
qed

lemma new_file_in:
  assumes "w = new_fields P K (length content) z"
    and "3 \<le> P" "P + K + ind_blocks K < 1024" "K = blocks (length content)" "length content < 4235264"
  shows "file_in (new_indirect P K (img_bytes (P * 4096) content img)) (P + K + ind_blocks K) w content"
proof -
  let ?i = "img_bytes (P * 4096) content img"
  have PK: "P + K < 1024" using assms(3) by simp
  have P0: "0 < P" using assms(2) by simp
  have K: "K \<le> 1034" using assms(4,5) by (simp add: blocks_max)
  note b = new_file_blk [OF assms(1) P0 PK _ K, where img = ?i]
  have c: "byte_of (new_indirect P K ?i (P + k div 4096)) (k mod 4096) = content ! k" if k: "k < length content" for k
  proof -
    have "k div 4096 < K" by (rule content_block [OF k assms(4)])
    then have "new_indirect P K ?i (P + k div 4096) = ?i (P + k div 4096)" by (simp add: new_indirect_def)
    moreover have "(P + k div 4096) * 4096 + k mod 4096 = P * 4096 + k" by (simp add: algebra_simps)
    ultimately show ?thesis using k by (simp add: img_bytes_at)
  qed
  have d: "file_blk (new_indirect P K ?i) w (k div 4096) = P + k div 4096" if k: "k < length content" for k
    by (rule b [OF content_block [OF k assms(4)]])
  have "w 32 = of_nat (length content)" using assms(1) by (simp add: new_fields_def)
  then have l: "unat (w 32) = length content" using assms(5) by (simp add: unat_of_nat)
  have i: "3 \<le> unat (w 44) \<and> unat (w 44) < P + K + ind_blocks K" if "10 < K"
  proof -
    have "w 44 = of_nat (P + K)" using assms(1) that by (simp add: new_fields_def del: of_nat_add)
    then have "unat (w 44) = P + K" using PK by (simp add: unat_of_nat del: of_nat_add)
    then show ?thesis using assms(2) that by (simp add: ind_blocks_def)
  qed
  show ?thesis
    unfolding file_in_def l assms(4) [symmetric] using b c d i assms(2,5) by auto
qed

section \<open>writefile\<close>

lemma name_at_iff:
  "name_at c x name \<longleftrightarrow> (\<forall>k<length name. byte_of c (x + k) = name ! k) \<and> byte_of c (x + length name) = 0"
  by (induction name arbitrary: x) (auto simp: nth_Cons' less_Suc_eq_0_disj all_conj_distrib)

lemma name_at_cong:
  assumes "\<forall>k<64. c k = d k" "length name < 128"
  shows "name_at c 0 name = name_at d 0 name"
proof -
  have "byte_of c y = byte_of d y" if "y \<le> length name" for y
    using assms that by (simp add: byte_of_def)
  then show ?thesis by (simp add: name_at_iff)
qed

lemma entry_ok_mono:
  assumes "entry_ok img P w name content" "P \<le> P'" "\<forall>k<64. w' k = w k" "\<forall>b. 3 \<le> b \<and> b < P \<longrightarrow> img' b = img b"
  shows "entry_ok img' P' w' name content"
  using assms(1) name_at_cong [OF assms(3)] file_in_mono [OF _ assms(2-4)] by (simp add: entry_ok_def)

definition host_ok :: "hostfile \<Rightarrow> u8 list \<Rightarrow> u8 list \<Rightarrow> bool" where
  "host_ok h name content \<longleftrightarrow> last_name (hf_path h) = name \<and> hf_size h = length content
     \<and> concat (hf_reads h) = content \<and> [] \<notin> set (hf_reads h)"

definition need :: "u8 list \<Rightarrow> nat" where
  "need content = blocks (length content) + ind_blocks (blocks (length content))"

lemma new_name:
  assumes "length name < 128"
    and "w = new_fields P K len (\<lambda>k. ((ent_bytes (i * 256) (name @ [0]) e)(i * 64 + 33 := 0)) (i * 64 + k))"
  shows "name_at w 0 name"
proof -
  let ?e = "ent_bytes (i * 256) (name @ [0]) e"
  have "byte_of w y = (if y < length name then name ! y else 0)" if "y \<le> length name" for y
  proof -
    have y: "y div 4 < 32" "(i * 256 + y) div 4 = i * 64 + y div 4" "(i * 256 + y) mod 4 = y mod 4"
      using that assms(1) by (simp_all, presburger+)
    then have "byte_of w y = byte_of ?e (i * 256 + y)"
      by (simp add: byte_of_def assms(2) new_fields_def)
    then show ?thesis using that by (simp add: byte_of_ent nth_append)
  qed
  then show ?thesis by (simp add: name_at_iff)
qed

lemma writefile_ok:
  assumes "fmt_inv s n P files" "length files < 128" "host_ok h name content" "length name < 128"
    and "length content < 4235264" "P + need content < n"
  shows "\<exists>s'. writefile h s = Some s' \<and> fmt_inv s' n (P + need content) (files @ [(name, content)])"
proof -
  let ?i = "length files"
  let ?K = "blocks (length content)"
  let ?e = "(ent_bytes (?i * 256) (name @ [0]) (fm_ents s))(?i * 64 + 33 := 0)"
  let ?s1 = "s\<lparr>fm_n := ?i + 1, fm_ents := ?e\<rparr>"
  let ?img = "img_bytes (P * 4096) content (fm_img s)"
  let ?s3 = "?s1\<lparr>fm_pos := (P + ?K) * 4096, fm_img := ?img\<rparr>"
  note inv = assms(1) [unfolded fmt_inv_def]
  have h: "last_name (hf_path h) = name" "hf_size h = length content" "concat (hf_reads h) = content" "[] \<notin> set (hf_reads h)"
    using assms(3) by (auto simp: host_ok_def)
  have len: "length content < 2 ^ 31" using assms(5) by simp
  have cap: "P + ?K + ind_blocks ?K < n" using assms(6) by (simp add: need_def)
  have d: "diradd FTYPE_REG name s = Some (Entry ?i, ?s1)"
    using inv assms(2) by (simp add: diradd_def Let_def MAX_DIR_ENTS_def set_field_def F_TYPE_def FTYPE_REG_def)
  have a: "alloc (of_nat (length content)) ?s1 = Some (P * 4096, ?s1\<lparr>fm_pos := (P + ?K) * 4096\<rparr>)"
    using fmt_alloc_ok [OF _ len, of ?s1 P] inv cap by simp
  have r: "host_readn (P * 4096) (length content) (hf_reads h) (?s1\<lparr>fm_pos := (P + ?K) * 4096\<rparr>) = Some ?s3"
    using host_readn_ok [OF h(3,4), of "P * 4096" "?s1\<lparr>fm_pos := (P + ?K) * 4096\<rparr>"] by simp
  let ?w = "\<lambda>k. new_fields P ?K (length content) (ent ?s3 ?i) k"
  let ?s4 = "?s3\<lparr>fm_pos := (P + ?K + ind_blocks ?K) * 4096,
    fm_ents := (\<lambda>j. if j div 64 = ?i then ?w (j mod 64) else fm_ents ?s3 j), fm_img := new_indirect P ?K ?img\<rparr>"
  have f: "finishfile (Entry ?i) P (of_nat (length content)) ?s3 = Some ?s4"
    using finishfile_entry [of ?s3 P ?K "length content" ?i] len cap inv by simp
  have w: "writefile h s = Some ?s4"
    using d a r f assms(5) h
    by (simp add: writefile_def MAXFILESIZE_def file_consts blockof_block del: of_nat_mult)
  have wk: "?w = new_fields P ?K (length content) (\<lambda>k. ?e (?i * 64 + k))" by (simp add: ent_def)
  have img: "new_indirect P ?K ?img b = fm_img s b" if "b < P" for b
  proof -
    have "?img b = fm_img s b"
    proof (rule img_bytes_other)
      fix x assume "P * 4096 \<le> x"
      then have "P \<le> x div 4096" by (simp add: less_eq_div_iff_mult_less_eq)
      then show "x div 4096 \<noteq> b" using that by simp
    qed
    then show ?thesis using that by (simp add: new_indirect_def)
  qed
  have above: "new_indirect P ?K ?img b = (\<lambda>_. 0)" if "P + need content \<le> b" for b
  proof -
    have l: "length content \<le> ?K * 4096" by (simp add: blocks_def)
    have "?img b = fm_img s b"
    proof (rule img_bytes_other)
      fix x assume "x < P * 4096 + length content"
      then have "x div 4096 < P + ?K" using l by (intro less_mult_imp_div_less) (simp add: add_mult_distrib)
      then show "x div 4096 \<noteq> b" using that by (simp add: need_def)
    qed
    moreover have "10 \<le> ?K \<Longrightarrow> b \<noteq> P + ?K" using that by (auto simp: need_def ind_blocks_def)
    ultimately show ?thesis using inv that by (simp add: new_indirect_def)
  qed
  have old: "ent ?s4 i k = ent s i k" if "i < ?i" "k < 64" for i k
  proof -
    have "(i * 64 + k) div 64 = i" using that(2) by simp
    moreover have "ent_bytes (?i * 256) (name @ [0]) (fm_ents s) (i * 64 + k) = fm_ents s (i * 64 + k)"
      using that by (intro ent_other) simp
    ultimately show ?thesis using that by (auto simp: ent_def)
  qed
  have new: "ent ?s4 ?i k = ?w k" if "k < 64" for k using that by (simp add: ent_def)
  have fin: "file_in (new_indirect P ?K ?img) (P + ?K + ind_blocks ?K) ?w content"
    by (rule new_file_in [OF wk]) (use inv cap assms(5) in auto)
  have "entry_ok (fm_img ?s4) (P + need content) (ent ?s4 i) (fst ((files @ [(name, content)]) ! i))
      (snd ((files @ [(name, content)]) ! i))" if "i < length files + 1" for i
  proof (cases "i < ?i")
    case True
    then have k: "entry_ok (fm_img s) P (ent s i) (fst (files ! i)) (snd (files ! i))" using inv by blast
    have "entry_ok (fm_img ?s4) (P + need content) (ent ?s4 i) (fst (files ! i)) (snd (files ! i))"
      by (rule entry_ok_mono [OF k]) (use old [OF True] img in simp_all)
    then show ?thesis using True by (simp add: nth_append)
  next
    case False
    have "entry_ok (fm_img ?s4) (P + need content) ?w name content"
      using fin new_name [OF assms(4) wk] assms(4) by (simp add: entry_ok_def need_def add.assoc)
    then have "entry_ok (fm_img ?s4) (P + need content) (ent ?s4 ?i) name content"
      by (rule entry_ok_mono) (use new in simp_all)
    then show ?thesis using False that by (simp add: nth_append less_Suc_eq)
  qed
  then have "fmt_inv ?s4 n (P + need content) (files @ [(name, content)])"
    using inv cap img above by (simp add: fmt_inv_def need_def)
  then show ?thesis using w by blast
qed

end
