(* ===== verification/Fsformat_Spec.thy ===== *)
theory Fsformat_Spec
  imports Fsformat_Inv Fs_Spec
begin

text \<open>
  The disk image that fs/fsformat.c makes is one the file server mounts, and every file put on it
  is found by its name and read back byte for byte; without files the image is damaged.
\<close>

unbundle bit_operations_syntax

section \<open>Start and end of the image\<close>

definition fmt_start :: "nat \<Rightarrow> fmt" where
  "fmt_start n = \<lparr>fm_nblocks = n, fm_img = (\<lambda>_ _. 0), fm_pos = 0, fm_super = 0, fm_bitmap = 0, fm_ents = (\<lambda>_. 0), fm_n = 0\<rparr>"

lemma opendisk_ok:
  assumes "4 \<le> n" "n \<le> 1024"
  shows "\<exists>s. opendisk (fmt_start n) = Some s \<and> fmt_inv (startdir junk s) n 3 []"
proof -
  let ?s0 = "fmt_start n"
  have nb: "(n + BLKBITSIZE - 1) div BLKBITSIZE = 1"
    using assms by (simp add: BLKBITSIZE_def BLKSIZE_def div_nat_eqI)
  have f: "fmt_start n\<lparr>fm_img := (\<lambda>_ _. 0), fm_pos := 0\<rparr> = fmt_start n" by (simp add: fmt_start_def)
  have a1: "alloc (of_nat BLKSIZE) (fmt_start n) = Some (0, fmt_start n\<lparr>fm_pos := 4096\<rparr>)"
    using fmt_alloc_ok [of "fmt_start n" 0 4096] assms by (simp add: fmt_start_def BLKSIZE_def blocks_1)
  have a2: "alloc (of_nat BLKSIZE) (fmt_start n\<lparr>fm_pos := 4096\<rparr>) = Some (4096, fmt_start n\<lparr>fm_pos := 8192\<rparr>)"
    using fmt_alloc_ok [of "fmt_start n\<lparr>fm_pos := 4096\<rparr>" 1 4096] assms by (simp add: fmt_start_def BLKSIZE_def blocks_1)
  have a3: "alloc (of_nat 1) (t\<lparr>fm_pos := 8192\<rparr>) = Some (8192, t\<lparr>fm_pos := 12288\<rparr>)" if "fm_nblocks t = n" for t
    using fmt_alloc_ok [of "t\<lparr>fm_pos := 8192\<rparr>" 2 1] assms that by (simp add: blocks_def)
  have b: "blockof 4096 = 1" "blockof 8192 = 2" by (simp_all add: blockof_def BLKSIZE_def)
  have p: "put_byte (Suc 0) 0 (put_byte 0 47 0) = 47" by (simp add: put_byte_def)
  let ?t = "set_root_name (set_field Root F_TYPE FTYPE_DIR
      (img_word 1 1 (of_nat n) (img_word 1 0 FS_MAGIC (fmt_start n\<lparr>fm_super := 1\<rparr>))))"
  have i: "fm_img ?t = (\<lambda>_ _. 0)(1 := super_words n)"
    by (rule ext, rule ext)
      (auto simp: set_root_name_def set_field_def img_word_def fmt_start_def F_TYPE_def img_byte_def Let_def p super_words_def)
  have o: "opendisk (fmt_start n) = Some (?t\<lparr>fm_pos := 12288, fm_bitmap := 2,
      fm_img := (\<lambda>b. if 2 \<le> b \<and> b < 2 + 1 then (\<lambda>_. 0xFFFFFFFF) else fm_img ?t b)\<rparr>)"
  proof -
    have "set_root_name (set_field Root F_TYPE FTYPE_DIR (img_word 1 1 (of_nat n)
        (img_word 1 0 FS_MAGIC (fmt_start n\<lparr>fm_pos := 8192, fm_super := 1\<rparr>)))) = ?t\<lparr>fm_pos := 8192\<rparr>"
      by (simp add: set_root_name_def set_field_def img_word_def fmt_start_def)
    moreover have "fm_nblocks ?t = n" by (simp add: set_root_name_def set_field_def img_word_def fmt_start_def)
    moreover have "fm_nblocks (fmt_start n) = n" by (simp add: fmt_start_def)
    ultimately show ?thesis
      unfolding opendisk_def Let_def f a1 bind.bind_lunit prod.case a2
      using a3 [of ?t] nb b by (simp add: set_root_name_def set_field_def img_word_def fmt_start_def cong: if_cong)
  qed
  have t: "fm_nblocks ?t = n" "fm_super ?t = 1"
    by (simp_all add: set_root_name_def set_field_def img_word_def fmt_start_def)
  show ?thesis
    unfolding o option.inject ex_simps(1) simp_thms fmt_inv_def startdir_def using assms t i
    by (simp del: fun_upd_apply add: fun_upd_other fun_upd_same)
qed

definition good_file :: "hostfile \<Rightarrow> u8 list \<times> u8 list \<Rightarrow> bool" where
  "good_file h f \<longleftrightarrow> host_ok h (fst f) (snd f) \<and> length (fst f) < 128 \<and> length (snd f) < 4235264"

definition total_need :: "(u8 list \<times> u8 list) list \<Rightarrow> nat" where
  "total_need fs = sum_list (map (\<lambda>f. need (snd f)) fs)"

lemma writefiles_ok:
  assumes "list_all2 good_file hs new" "fmt_inv s n P files" "length files + length new \<le> 128" "P + total_need new < n"
  shows "\<exists>s'. iter_opt writefile hs s = Some s' \<and> fmt_inv s' n (P + total_need new) (files @ new)"
  using assms
proof (induction arbitrary: s P files rule: list_all2_induct)
  case Nil
  then show ?case by (simp add: total_need_def)
next
  case (Cons h hs f new)
  have t: "total_need (f # new) = need (snd f) + total_need new" by (simp add: total_need_def)
  obtain s1 where s1: "writefile h s = Some s1" "fmt_inv s1 n (P + need (snd f)) (files @ [(fst f, snd f)])"
    using writefile_ok [OF Cons.prems(1), of h "fst f" "snd f"] Cons.hyps(1) Cons.prems(2,3) unfolding t
    by (auto simp: good_file_def)
  from Cons.IH [OF s1(2)] Cons.prems(2,3) show ?case using s1(1) unfolding t by (simp add: add.assoc)
qed

section \<open>The root directory\<close>

definition dir_blocks :: "nat \<Rightarrow> nat" where
  "dir_blocks m = (m + 15) div 16"

lemma dir_blocks_bound: "q < dir_blocks m \<longleftrightarrow> q * 16 < m"
  by (auto simp: dir_blocks_def less_eq_div_iff_mult_less_eq Suc_le_eq [symmetric])

lemma dir_blocks_len: "blocks (256 * m) = dir_blocks m" "blocks (dir_blocks m * 4096) = dir_blocks m"
  by (simp_all add: blocks_def dir_blocks_def)

lemma roundup_i: "0 < m \<Longrightarrow> ROUNDUP_i (int (256 * m)) (int BLKSIZE) = int (dir_blocks m * 4096)"
proof -
  assume m: "0 < m"
  have s: "int (256 * m) - 1 = int (256 * m - 1)" using m by simp
  have "(256 * m - 1) div 4096 + 1 = dir_blocks m"
  proof -
    obtain k where k: "m = Suc k" using m by (cases m) auto
    then have "256 * m - 1 = 255 + 256 * k" by simp
    then have "(256 * m - 1) div 256 = k" by simp
    moreover have "(256 * m - 1) div 4096 = (256 * m - 1) div 256 div 16" by (simp only: div_mult2_eq [symmetric]) simp
    moreover have "dir_blocks m = k div 16 + 1" by (simp add: dir_blocks_def k)
    ultimately show ?thesis by simp
  qed
  then have "256 * m - 1 + 4096 = dir_blocks m * 4096 + (256 * m - 1) mod 4096"
    using div_mult_mod_eq [of "256 * m - 1" 4096] by linarith
  from arg_cong [OF this, of int]
  have "int (256 * m - 1) + 4096 - int ((256 * m - 1) mod 4096) = int (dir_blocks m * 4096)"
    unfolding of_nat_add by (simp del: of_nat_mult)
  then show ?thesis unfolding ROUNDUP_i_def s by (simp only: BLKSIZE_def nat_sdiv(2) of_nat_numeral)
qed

text \<open>The superblock and the image once the directory is written.\<close>

definition root_words :: "nat \<Rightarrow> nat \<Rightarrow> nat \<Rightarrow> nat \<Rightarrow> u32" where
  "root_words n D P =
     (\<lambda>k. if 36 \<le> k \<and> k < 36 + D then of_nat (P + (k - 36)) else if k = 34 then of_nat (D * 4096) else super_words n k)"

definition dir_words :: "nat \<Rightarrow> nat \<Rightarrow> fmt \<Rightarrow> nat \<Rightarrow> nat \<Rightarrow> u32" where
  "dir_words m P s b k =
     (if P \<le> b \<and> k < 1024 \<and> (b - P) * 1024 + k < m * 64 then fm_ents s ((b - P) * 1024 + k) else fm_img s b k)"

lemma finishdir_ok:
  assumes "fmt_inv s n P files" "files \<noteq> []" "length files \<le> 128" "D = dir_blocks (length files)" "P + D < n"
  shows "finishdir s = Some (s\<lparr>fm_pos := (P + D) * 4096,
    fm_img := (dir_words (length files) P s)(1 := root_words n D P)\<rparr>)"
proof -
  let ?m = "length files"
  note inv = assms(1) [unfolded fmt_inv_def]
  let ?s1 = "s\<lparr>fm_pos := (P + D) * 4096\<rparr>"
  have a: "alloc (of_nat (256 * fm_n s)) s = Some (P * 4096, ?s1)"
    using fmt_alloc_ok [of s P "256 * ?m"] inv assms(3-5) by (simp add: dir_blocks_len del: of_nat_mult)
  let ?s2 = "?s1\<lparr>fm_img := dir_words ?m P s\<rparr>"
  have f: "fold (\<lambda>w. img_word (P + w div 1024) (w mod 1024) (fm_ents ?s1 w)) [0..<256 * fm_n s div 4] ?s1 = ?s2"
    using fold_words [of P "fm_ents s" "?m * 64" ?s1] inv by (simp add: dir_words_def [abs_def] mult.commute cong: if_cong)
  have D: "D < 10" "0 < D" using assms(3,4) dir_blocks_bound [of 0 ?m] assms(2) by (auto simp: dir_blocks_def)
  have r: "word_of_int (ROUNDUP_i (int (256 * fm_n s)) (int BLKSIZE)) = (of_nat (D * 4096) :: u32)"
    using roundup_i [of ?m] inv assms(2,4) by (simp del: of_nat_mult)
  have K: "unat (ROUNDUP_u (of_nat (D * 4096)) (of_nat BLKSIZE)) div BLKSIZE = D"
    using roundup_u [of "D * 4096"] D assms(4) by (simp add: dir_blocks_len BLKSIZE_def del: of_nat_mult)
  have d1: "dir_words ?m P s 1 = super_words n" using inv by (auto simp: dir_words_def fun_eq_iff)
  have "finishfile Root P (of_nat (D * 4096)) ?s2 = Some (s\<lparr>fm_pos := (P + D) * 4096,
      fm_img := (dir_words ?m P s)(1 := root_words n D P)\<rparr>)"
  proof -
    have m: "min D NDIRECT = D" "\<not> NDIRECT \<le> D" using D by (simp_all add: NDIRECT_def)
    have "(super_words n)(34 := of_nat (D * 4096)) = (\<lambda>k. if k = 34 then of_nat (D * 4096) else super_words n k)" by auto
    then show ?thesis
      unfolding finishfile_def Let_def K using inv d1 m
      by (simp add: m fold_root set_field_def img_word_def F_SIZE_def F_DIRECT_def root_words_def [abs_def]
          del: of_nat_mult of_nat_add cong: if_cong)
  qed
  then show ?thesis unfolding finishdir_def Let_def a bind.bind_lunit prod.case blockof_block f r .
qed

section \<open>The bitmap\<close>

lemma clear_bits:
  assumes "fm_bitmap s = 2" "m \<le> 32768"
  shows "\<exists>c. fold clear_bit [0..<m] s = s\<lparr>fm_img := (fm_img s)(2 := c)\<rparr>
    \<and> (\<forall>b<32768. bit (c (b div 32)) (b mod 32) \<longleftrightarrow> m \<le> b \<and> bit (fm_img s 2 (b div 32)) (b mod 32))"
  using assms(2)
proof (induction m)
  case 0
  show ?case by (rule exI [of _ "fm_img s 2"]) simp
next
  case (Suc m)
  then obtain c where c: "fold clear_bit [0..<m] s = s\<lparr>fm_img := (fm_img s)(2 := c)\<rparr>"
    "\<forall>b<32768. bit (c (b div 32)) (b mod 32) \<longleftrightarrow> m \<le> b \<and> bit (fm_img s 2 (b div 32)) (b mod 32)"
    using Suc.IH [OF Suc_leD [OF Suc.prems]] by blast
  have m: "m div 32 div 1024 = 0" "m div 32 mod 1024 = m div 32" using Suc.prems by simp_all
  let ?c = "c(m div 32 := c (m div 32) AND NOT (push_bit (m mod 32) 1))"
  have "fold clear_bit [0..<Suc m] s = s\<lparr>fm_img := (fm_img s)(2 := ?c)\<rparr>"
    using c(1) assms(1) m by (simp add: clear_bit_def Let_def img_word_def)
  moreover have "bit (?c (b div 32)) (b mod 32) \<longleftrightarrow> Suc m \<le> b \<and> bit (fm_img s 2 (b div 32)) (b mod 32)"
    if "b < 32768" for b
  proof -
    have "b = m \<longleftrightarrow> b div 32 = m div 32 \<and> b mod 32 = m mod 32" by (metis div_mult_mod_eq)
    then show ?thesis using c(2) that by (auto simp: bit_simps Suc_le_eq)
  qed
  ultimately show ?case by blast
qed

section \<open>The whole image\<close>

text \<open>The image of the files: the directory starts at block \<open>P\<close>, blocks from \<open>E\<close> on are free.\<close>

definition image_of :: "(nat \<Rightarrow> nat \<Rightarrow> u32) \<Rightarrow> nat \<Rightarrow> nat \<Rightarrow> fmt \<Rightarrow> (u8 list \<times> u8 list) list \<Rightarrow> bool" where
  "image_of img n P s files \<longleftrightarrow> fmt_inv s n P files \<and> P + dir_blocks (length files) < n
     \<and> (\<forall>b. b \<noteq> 2 \<longrightarrow> img b = ((dir_words (length files) P s)(1 := root_words n (dir_blocks (length files)) P)) b)
     \<and> (\<forall>b<32768. bit (img 2 (b div 32)) (b mod 32) \<longleftrightarrow> P + dir_blocks (length files) \<le> b)"

lemma format_finish:
  assumes "4 \<le> n" "n \<le> 1024" "opendisk (fmt_start n) = Some s0" "iter_opt writefile hs (startdir junk s0) = Some s"
    and "finishdir s = Some t" "fm_bitmap t = 2" "fm_img t 2 = (\<lambda>_. 0xFFFFFFFF)" "fm_pos t = E * 4096" "E < n"
  shows "\<exists>c. format junk n hs = Some ((fm_img t)(2 := c)) \<and> (\<forall>b<32768. bit (c (b div 32)) (b mod 32) \<longleftrightarrow> E \<le> b)"
proof -
  obtain c where c: "fold clear_bit [0..<E] t = t\<lparr>fm_img := (fm_img t)(2 := c)\<rparr>"
    "\<forall>b<32768. bit (c (b div 32)) (b mod 32) \<longleftrightarrow> E \<le> b \<and> bit (fm_img t 2 (b div 32)) (b mod 32)"
    using clear_bits [OF assms(6), of E] assms(2,9) by auto
  have "bit (0xFFFFFFFF :: u32) k" if "k < 32" for k
  proof -
    have "(0xFFFFFFFF :: u32) = mask 32" by (simp add: mask_eq_exp_minus_1)
    then show ?thesis using that by (simp only: bit_mask_iff) simp
  qed
  then have bits: "\<forall>b<32768. bit (c (b div 32)) (b mod 32) \<longleftrightarrow> E \<le> b" using c(2) assms(7) by simp
  have "finishdisk t = t\<lparr>fm_img := (fm_img t)(2 := c)\<rparr>"
    using c(1) assms(8) by (simp add: finishdisk_def blockof_def BLKSIZE_def)
  then have "format junk n hs = Some ((fm_img t)(2 := c))"
    using assms(1-5) by (simp add: format_def fmt_start_def)
  then show ?thesis using bits by blast
qed

lemma format_ok:
  assumes "list_all2 good_file hs files" "files \<noteq> []" "length files \<le> 128" "n \<le> 1024"
    and "3 + total_need files + dir_blocks (length files) < n"
  shows "\<exists>img s. format junk n hs = Some img \<and> image_of img n (3 + total_need files) s files"
proof -
  let ?P = "3 + total_need files" and ?D = "dir_blocks (length files)"
  have "0 < ?D" using dir_blocks_bound [of 0 "length files"] assms(2) by simp
  then have n: "4 \<le> n" using assms(5) by simp
  obtain s0 where s0: "opendisk (fmt_start n) = Some s0" "fmt_inv (startdir junk s0) n 3 []"
    using opendisk_ok [OF n assms(4)] by blast
  obtain s where s: "iter_opt writefile hs (startdir junk s0) = Some s" "fmt_inv s n ?P files"
    using writefiles_ok [OF assms(1) s0(2)] assms(3,5) by auto
  let ?t = "s\<lparr>fm_pos := (?P + ?D) * 4096, fm_img := (dir_words (length files) ?P s)(1 := root_words n ?D ?P)\<rparr>"
  have f: "finishdir s = Some ?t" by (rule finishdir_ok [OF s(2) assms(2,3) refl assms(5)])
  have "fm_bitmap ?t = 2" "fm_img ?t 2 = (\<lambda>_. 0xFFFFFFFF)" using s(2) by (auto simp: fmt_inv_def dir_words_def)
  from format_finish [OF n assms(4) s0(1) s(1) f this _ assms(5)] obtain c where
    "format junk n hs = Some ((fm_img ?t)(2 := c))" and bits: "\<forall>b<32768. bit (c (b div 32)) (b mod 32) \<longleftrightarrow> ?P + ?D \<le> b"
    by auto
  moreover have "image_of ((fm_img ?t)(2 := c)) n ?P s files"
    using s(2) assms(5) bits by (simp add: image_of_def)
  ultimately show ?thesis by blast
qed

text \<open>The file server on a new disk.\<close>

definition attach :: "(nat \<Rightarrow> nat \<Rightarrow> u32) \<Rightarrow> fs" where
  "attach img = \<lparr>disk = img, cache = Map.empty, dirty = (\<lambda>_. False), super_set = False, bitmap_set = False,
     io_ok = (\<lambda>_. True)\<rparr>"

lemma mount_ok:
  assumes "img 1 = root_words n D P" "\<forall>b<32768. bit (img 2 (b div 32)) (b mod 32) \<longleftrightarrow> E \<le> b" "3 \<le> E" "E < n" "n \<le> 1024"
  shows "\<exists>s1. fs_init (attach img) = Some s1 \<and> fs_ok s1 n \<and> blk s1 = img \<and> (\<forall>b<n. is_free s1 b \<longleftrightarrow> E \<le> b)"
proof -
  let ?s = "attach img\<lparr>super_set := True, bitmap_set := True\<rparr>"
  have w: "img 1 0 = FS_MAGIC" "img 1 1 = of_nat n" unfolding assms(1) by (simp_all add: root_words_def super_words_def)
  have b: "blk ?s = img" by (simp add: blk_def attach_def fun_eq_iff)
  have fr: "is_free t b \<longleftrightarrow> E \<le> b" if "blk t = img" "b < n" for t b
    using assms(2,5) that by (simp add: is_free_def bm_slot_def)
  have "fs_ok ?s n"
    unfolding fs_ok_def b using fr [OF b] assms(3-5) w(2)
    by (auto simp: attach_def bm_slot_def unat_of_nat DISKSIZE_def BLKSIZE_def)
  from fs_init_ok [OF this] w(1) obtain s1 where "fs_init (attach img) = Some s1" "fs_ok s1 n" "blk s1 = img"
    by (auto simp: attach_def)
  then show ?thesis using fr by blast
qed

section \<open>The root directory and its entries\<close>

definition entry_ptr :: "nat \<Rightarrow> nat \<Rightarrow> fptr" where
  "entry_ptr P q = slot_file (P + q div 16) (q mod 16)"

lemma slot_words:
  assumes "image_of img n P s files" "k < 64"
  shows "q < length files \<Longrightarrow> img (P + q div 16) (q mod 16 * 64 + k) = ent s q k"
    "length files \<le> q \<Longrightarrow> img (P + q div 16) (q mod 16 * 64 + k) = 0"
proof -
  let ?k = "q mod 16 * 64 + k"
  have r: "q mod 16 < 16" "q div 16 * 16 + q mod 16 = q" by simp_all
  have "q div 16 * 1024 + q mod 16 * 64 = q * 64" using r(2) by linarith
  then have k: "?k < 1024" "(P + q div 16 - P) * 1024 + ?k = q * 64 + k" using assms(2) r(1) by simp_all
  have inv: "3 \<le> P" "\<forall>b\<ge>P. fm_img s b = (\<lambda>_. 0)" using assms(1) by (simp_all add: image_of_def fmt_inv_def)
  have "img (P + q div 16) ?k = dir_words (length files) P s (P + q div 16) ?k"
    using assms(1) inv(1) by (simp add: image_of_def)
  then have i: "img (P + q div 16) ?k = (if q * 64 + k < length files * 64 then fm_ents s (q * 64 + k) else 0)"
    using inv(2) k unfolding dir_words_def k(2) by simp
  show "q < length files \<Longrightarrow> img (P + q div 16) ?k = ent s q k" unfolding i ent_def using assms(2) by simp
  show "length files \<le> q \<Longrightarrow> img (P + q div 16) ?k = 0" unfolding i by simp
qed

lemma name_at_slot:
  assumes "\<forall>k<64. c (j * 64 + k) = w k" "length name < 128"
  shows "name_at c (j * 256) name = name_at w 0 name"
proof -
  have "byte_of c (j * 256 + y) = byte_of w y" if "y \<le> length name" for y
  proof -
    have "(j * 256 + y) div 4 = j * 64 + y div 4" "(j * 256 + y) mod 4 = y mod 4" by presburger+
    then show ?thesis using assms that by (simp add: byte_of_def)
  qed
  then show ?thesis by (simp add: name_at_iff)
qed

lemma root_facts:
  assumes "image_of img n P s files" "fs_ok s1 n" "blk s1 = img"
    and "\<forall>b<n. is_free s1 b \<longleftrightarrow> P + dir_blocks (length files) \<le> b" "length files \<le> 128"
  shows "file_inv s1 n s_root" "f_word s1 s_root F_TYPE = FTYPE_DIR"
    "f_word s1 s_root F_SIZE = of_nat (dir_blocks (length files) * 4096)"
    "bno s1 s_root i = (if i < dir_blocks (length files) then P + i else 0)"
proof -
  let ?D = "dir_blocks (length files)"
  have D: "?D \<le> 8" using assms(5) by (simp add: dir_blocks_def)
  have inv: "3 \<le> P" "n \<le> 1024" "P + ?D < n" using assms(1) by (simp_all add: image_of_def fmt_inv_def)
  have w: "f_word s1 s_root k = root_words n ?D P (2 + k)" for k
    using assms(1,3) by (simp add: f_word_def s_root_def image_of_def)
  show "f_word s1 s_root F_TYPE = FTYPE_DIR" "f_word s1 s_root F_SIZE = of_nat (?D * 4096)"
    unfolding w by (simp_all add: root_words_def super_words_def F_TYPE_def F_SIZE_def)
  have i: "ind s1 s_root = 0" unfolding ind_def w using D by (simp add: root_words_def super_words_def F_INDIRECT_def)
  have b: "bno s1 s_root i = (if i < ?D then P + i else 0)" for i
    unfolding bno_def i w using D inv
    by (simp add: root_words_def super_words_def file_consts unat_of_nat del: of_nat_add)
  show "bno s1 s_root i = (if i < ?D then P + i else 0)" by (rule b)
  have nb: "x \<notin> fst ` bm_slot ` {..<n}" if "x \<noteq> 2" for x using that inv(2) by (auto simp: bm_slot_def)
  have "data_ok s1 n (P + i)" if "i < ?D" for i using that inv assms(4) by (simp add: data_ok_def nb)
  then show "file_inv s1 n s_root"
    unfolding file_inv_def b i using assms(2,4) inv nb [of 1] by (auto simp: s_root_def)
qed

lemma entry_facts:
  assumes "image_of img n P s files" "fs_ok s1 n" "blk s1 = img"
    and "\<forall>b<n. is_free s1 b \<longleftrightarrow> P + dir_blocks (length files) \<le> b" "q < length files"
  shows "has_blocks s1 n (entry_ptr P q) (blocks (length (snd (files ! q))))"
    "f_word s1 (entry_ptr P q) F_SIZE = of_nat (length (snd (files ! q)))"
    "length (snd (files ! q)) < 4235264"
    "k < length (snd (files ! q)) \<Longrightarrow> fbyte s1 (entry_ptr P q) k = snd (files ! q) ! k"
proof -
  let ?D = "dir_blocks (length files)"
  let ?f = "entry_ptr P q"
  let ?c = "snd (files ! q)"
  let ?m = "blocks (length ?c)"
  have inv: "3 \<le> P" "n \<le> 1024" "P + ?D < n" using assms(1) by (simp_all add: image_of_def fmt_inv_def)
  have q: "q div 16 < ?D"
  proof -
    have "q div 16 * 16 < length files" using assms(5) by (metis div_times_less_eq_dividend le_less_trans)
    then show "q div 16 < ?D" by (simp add: dir_blocks_bound)
  qed
  have w: "f_word s1 ?f k = ent s q k" if "k < 64" for k
    using slot_words(1) [OF assms(1) that assms(5)] assms(3) by (simp add: f_word_def entry_ptr_def slot_file_def)
  have "entry_ok (fm_img s) P (ent s q) (fst (files ! q)) ?c"
    using assms(1,5) by (simp add: image_of_def fmt_inv_def)
  then have "entry_ok img P (f_word s1 ?f) (fst (files ! q)) ?c"
    by (rule entry_ok_mono) (use w assms(1) in \<open>auto simp: image_of_def dir_words_def\<close>)
  then have fi: "file_in img P (f_word s1 ?f) ?c" by (simp add: entry_ok_def)
  have b: "file_blk img (f_word s1 ?f) i = bno s1 ?f i" for i
    by (simp add: file_blk_def bno_def ind_def file_consts assms(3))
  have i: "unat (f_word s1 ?f 44) = ind s1 ?f" by (simp add: ind_def F_INDIRECT_def)
  note fin = fi [unfolded file_in_def b i]
  have d: "0 < x \<and> x < n \<and> \<not> is_free s1 x" if "3 \<le> x \<and> x < P" for x using that inv assms(4) by auto
  have f: "fst ?f = P + q div 16" by (simp add: entry_ptr_def slot_file_def)
  show c: "length ?c < 4235264" using fin by simp
  have "fst ?f < n" "\<not> is_free s1 (fst ?f)" unfolding f using assms(4) inv q by auto
  then show "has_blocks s1 n ?f ?m"
    unfolding has_blocks_def using assms(2) fin d blocks_max [OF c] by blast
  have "unat (f_word s1 ?f 32) = length ?c" using fin by simp
  from this [symmetric] show "f_word s1 ?f F_SIZE = of_nat (length ?c)" by (simp add: F_SIZE_def)
  assume k: "k < length ?c"
  have "3 \<le> bno s1 ?f (k div 4096)" using fin content_block [OF k refl] by blast
  moreover have "byte_of (img (bno s1 ?f (k div 4096))) (k mod 4096) = ?c ! k" using fin k by blast
  ultimately show "fbyte s1 ?f k = ?c ! k" by (simp add: fbyte_byte_of assms(3))
qed

section \<open>Finding and reading a file\<close>

lemma find_single: "i < n \<Longrightarrow> (\<And>j. j < n \<Longrightarrow> Q j \<longleftrightarrow> j = i) \<Longrightarrow> find Q [0..<n] = Some i"
  by (auto simp: find_Some_iff intro!: exI [of _ i])

lemma slot_named_entry:
  assumes "image_of img n P s files" "fs_ok s1 n" "blk s1 = img"
    and "\<forall>b<n. is_free s1 b \<longleftrightarrow> P + dir_blocks (length files) \<le> b" "length files \<le> 128"
    and "\<forall>f \<in> set files. 0 \<notin> set (fst f)" "i < dir_blocks (length files)" "j < 16"
    and "length name < 128" "0 \<notin> set name" "name \<noteq> []"
  shows "slot_named s1 s_root name i j \<longleftrightarrow> i * 16 + j < length files \<and> fst (files ! (i * 16 + j)) = name"
proof -
  let ?q = "i * 16 + j"
  have q: "?q div 16 = i" "?q mod 16 = j" using assms(8) by auto
  have n: "slot_named s1 s_root name i j \<longleftrightarrow> name_at w 0 name" if "\<forall>k<64. img (P + i) (j * 64 + k) = w k" for w
    using name_at_slot [OF that assms(9)] assms(3,7) root_facts(4) [OF assms(1-5)] by (simp add: slot_named_def)
  show ?thesis
  proof (cases "?q < length files")
    case True
    have w: "\<forall>k<64. img (P + i) (j * 64 + k) = ent s ?q k"
      using slot_words(1) [OF assms(1) _ True] unfolding q by blast
    have "\<forall>i<length files. entry_ok (fm_img s) P (ent s i) (fst (files ! i)) (snd (files ! i))"
      using assms(1) by (simp add: image_of_def fmt_inv_def)
    then have "name_at (ent s ?q) 0 (fst (files ! ?q))" "0 \<notin> set (fst (files ! ?q))"
      using True assms(6) by (auto simp: entry_ok_def)
    then show ?thesis using n [OF w] name_at_unique assms(10) True by blast
  next
    case False
    then have w: "\<forall>k<64. img (P + i) (j * 64 + k) = 0"
      using slot_words(2) [OF assms(1), of _ ?q] unfolding q by simp
    moreover have "byte_of (\<lambda>_. 0) 0 = 0" by (simp add: byte_of_def get_byte_def)
    moreover obtain c cs where "name = c # cs" using assms(11) by (cases name) auto
    ultimately show ?thesis using n [of "\<lambda>_. 0"] False assms(10) by auto
  qed
qed

lemma open_entry_ok:
  assumes "image_of img n P s files" "fs_ok s1 n" "blk s1 = img"
    and "\<forall>b<n. is_free s1 b \<longleftrightarrow> P + dir_blocks (length files) \<le> b" "length files \<le> 128"
    and "\<forall>f \<in> set files. fst f \<noteq> [] \<and> 0 \<notin> set (fst f) \<and> 47 \<notin> set (fst f)" "distinct (map fst files)" "q < length files"
  shows "\<exists>s2. file_open (47 # fst (files ! q)) s1 = Some (Inr (entry_ptr P q), s2) \<and> same_fs s1 s2"
proof -
  let ?D = "dir_blocks (length files)" and ?n = "fst (files ! q)"
  have nm: "?n \<noteq> []" "0 \<notin> set ?n" "47 \<notin> set ?n" using assms(6,8) by auto
  have l: "length ?n < 128" using assms(1,8) by (simp add: image_of_def fmt_inv_def entry_ok_def)
  have "q div 16 * 16 < length files" using assms(8) by (metis div_times_less_eq_dividend le_less_trans)
  then have i0: "q div 16 < ?D" by (simp add: dir_blocks_bound)
  have eq: "slot_named s1 s_root ?n i j \<longleftrightarrow> i * 16 + j = q" if "i < ?D" "j < 16" for i j
  proof -
    have "slot_named s1 s_root ?n i j \<longleftrightarrow> i * 16 + j < length files \<and> fst (files ! (i * 16 + j)) = ?n"
      by (rule slot_named_entry [OF assms(1-5) _ that l nm(2,1)]) (use assms(6) in blast)
    also have "\<dots> \<longleftrightarrow> i * 16 + j = q"
      using assms(7,8) nth_eq_iff_index_eq [of "map fst files" "i * 16 + j" q] by auto
    finally show ?thesis .
  qed
  have hit: "find (slot_named s1 s_root ?n (q div 16)) [0..<16] = Some (q mod 16)"
    by (rule find_single) (simp, use eq [OF i0] in presburger)
  have miss: "find (slot_named s1 s_root ?n i) [0..<16] = None" if "i < q div 16" for i
    using eq [of i] that i0 by (auto simp: find_None_iff)
  note r = root_facts [OF assms(1-5)]
  have D: "?D \<le> 1034" using assms(5) by (simp add: dir_blocks_def)
  have nz: "\<forall>i<?D. bno s1 s_root i \<noteq> 0" using assms(1) by (simp add: r(4) image_of_def fmt_inv_def)
  from file_open_root [OF r(1-3) D nz l nm(1,3) i0 _ hit] miss obtain s2 where
    "file_open (47 # ?n) s1 = Some (Inr (slot_file (bno s1 s_root (q div 16)) (q mod 16)), s2)" "same_fs s1 s2" by blast
  then show ?thesis using i0 by (auto simp: r(4) entry_ptr_def)
qed

lemma read_entry_ok:
  assumes "image_of img n P s files" "fs_ok s1 n" "blk s1 = img"
    and "\<forall>b<n. is_free s1 b \<longleftrightarrow> P + dir_blocks (length files) \<le> b" "q < length files" "same_fs s1 s2"
  shows "\<exists>s3. file_read (entry_ptr P q) (of_nat (length (snd (files ! q)))) 0 s2 = Some (Inr (snd (files ! q)), s3)"
proof -
  let ?f = "entry_ptr P q" and ?c = "snd (files ! q)"
  note e = entry_facts [OF assms(1-5)]
  note t = same_fs_file [OF assms(6)]
  have "map (fbyte s2 ?f) [0..<length ?c] = ?c" using e(4) t(4) by (auto intro: nth_equalityI)
  then show ?thesis
    using has_file_read [OF has_blocks_same [OF assms(6) e(1)]] e(2,3) t(3) by simp
qed

section \<open>Properties\<close>

text \<open>
  C26: fsformat and the file server fit together. Up to 128 files, each smaller than 4235264 bytes
  and with a name (behind the last slash of its path) that is not empty, shorter than 128 bytes and
  free of NULs, the names distinct, go on a disk of at most 1024 blocks on which they fit: each file
  takes its blocks, one more for an indirect block from ten blocks on, and the directory a block for
  every sixteen entries; read returns each file's bytes, in pieces of any size. Then, whatever malloc left in the memory of the directory entries,
  formatting succeeds, the server mounts the image, and opening any of the files by its name and
  reading it gives exactly the bytes it had on the host.
\<close>

theorem fsformat_readback:
  assumes "list_all2 good_file hs files" and "files \<noteq> []" and "length files \<le> 128" and "n \<le> 1024"
    and "3 + total_need files + dir_blocks (length files) < n" and "distinct (map fst files)"
    and "\<forall>f \<in> set files. fst f \<noteq> [] \<and> 0 \<notin> set (fst f)" and "q < length files"
  shows "\<exists>img s1 f s2 s3. format junk n hs = Some img \<and> fs_init (attach img) = Some s1
    \<and> file_open (47 # fst (files ! q)) s1 = Some (Inr f, s2)
    \<and> file_read f (of_nat (length (snd (files ! q)))) 0 s2 = Some (Inr (snd (files ! q)), s3)"
proof -
  obtain img s where img: "format junk n hs = Some img" "image_of img n (3 + total_need files) s files"
    using format_ok [OF assms(1-5)] by blast
  obtain s1 where s1: "fs_init (attach img) = Some s1" "fs_ok s1 n" "blk s1 = img"
    "\<forall>b<n. is_free s1 b \<longleftrightarrow> 3 + total_need files + dir_blocks (length files) \<le> b"
    using mount_ok [of img n "dir_blocks (length files)" "3 + total_need files" "3 + total_need files + dir_blocks (length files)"]
      img(2) by (auto simp: image_of_def fmt_inv_def)
  have "47 \<notin> set (last_name p)" for p by (auto simp: last_name_def dest: set_takeWhileD)
  then have "good_file h f \<Longrightarrow> 47 \<notin> set (fst f)" for h f unfolding good_file_def host_ok_def by metis
  then have "\<forall>f \<in> set files. 47 \<notin> set (fst f)"
    using assms(1) by (metis in_set_conv_nth list_all2_conv_all_nth)
  then have nm: "\<forall>f \<in> set files. fst f \<noteq> [] \<and> 0 \<notin> set (fst f) \<and> 47 \<notin> set (fst f)" using assms(7) by blast
  obtain s2 where s2: "file_open (47 # fst (files ! q)) s1 = Some (Inr (entry_ptr (3 + total_need files) q), s2)" "same_fs s1 s2"
    using open_entry_ok [OF img(2) s1(2-4) assms(3) nm assms(6,8)] by blast
  from read_entry_ok [OF img(2) s1(2-4) assms(8) s2(2)] img(1) s1(1) s2(1) show ?thesis by blast
qed

definition demo_hosts :: "hostfile list" where
  "demo_hosts = [\<lparr>hf_path = [97, 47, 98, 99], hf_size = 3, hf_reads = [[65, 66], [67]]\<rparr>,
     \<lparr>hf_path = [120], hf_size = 0, hf_reads = []\<rparr>]"

theorem fsformat_readback_witness:
  "\<exists>img s1 f s2 s3. format (\<lambda>_. 0xFFFFFFFF) 8 demo_hosts = Some img \<and> fs_init (attach img) = Some s1
    \<and> file_open [47, 98, 99] s1 = Some (Inr f, s2) \<and> file_read f 3 0 s2 = Some (Inr [65, 66, 67], s3)"
proof -
  let ?fs = "[([98, 99], [65, 66, 67]), ([120], [])] :: (u8 list \<times> u8 list) list"
  have g: "list_all2 good_file demo_hosts ?fs"
    by (simp add: demo_hosts_def good_file_def host_ok_def last_name_def)
  have n: "3 + total_need ?fs + dir_blocks (length ?fs) < 8"
    by (simp add: total_need_def need_def blocks_def ind_blocks_def dir_blocks_def)
  show ?thesis using fsformat_readback [OF g _ _ _ n, of 0] by simp
qed

text \<open>
  C35: without any file the image is damaged. The macro ROUNDUP of a signed 0 is BLKSIZE, so the
  root directory gets one block although none was allocated for it: the block is recorded in the
  superblock and free in the bitmap, and the server will give it to the first file that grows.
\<close>

theorem fsformat_empty_root:
  assumes "4 \<le> n" and "n \<le> 1024"
  shows "\<exists>img s1 s2. format junk n [] = Some img \<and> fs_init (attach img) = Some s1
    \<and> bno s1 s_root 0 = 3 \<and> is_free s1 3 \<and> alloc_block s1 = Some (Inr 3, s2)"
proof -
  obtain s0 where s0: "opendisk (fmt_start n) = Some s0" "fmt_inv (startdir junk s0) n 3 []"
    using opendisk_ok [OF assms] by blast
  let ?s = "startdir junk s0"
  note inv = s0(2) [unfolded fmt_inv_def]
  have a: "alloc (of_nat (256 * fm_n ?s)) ?s = Some (3 * 4096, ?s)"
    using fmt_alloc_ok [of ?s 3 0] inv by (simp add: blocks_def)
  have z: "256 * fm_n ?s = 0" using inv by simp
  have r: "word_of_int (ROUNDUP_i (int 0) (int BLKSIZE)) = (of_nat (1 * 4096) :: u32)"
    by (simp add: ROUNDUP_i_def BLKSIZE_def signed_modulo_int_def signed_divide_int_def)
  have K: "unat (ROUNDUP_u (of_nat (1 * 4096)) (of_nat BLKSIZE)) div BLKSIZE = 1"
    using roundup_u [of 4096] by (simp add: blocks_1 BLKSIZE_def)
  let ?t = "?s\<lparr>fm_img := (fm_img ?s)(1 := root_words n 1 3)\<rparr>"
  have "finishfile Root 3 (of_nat (1 * 4096)) ?s = Some ?t"
    unfolding finishfile_def Let_def K using inv
    by (simp add: NDIRECT_def fold_root set_field_def img_word_def F_SIZE_def F_DIRECT_def)
      (auto simp: root_words_def fun_eq_iff intro!: fmt.equality)
  then have f: "finishdir ?s = Some ?t"
    unfolding finishdir_def Let_def z a [unfolded z] bind.bind_lunit prod.case blockof_block r by simp
  have "fm_bitmap ?t = 2" "fm_img ?t 2 = (\<lambda>_. 0xFFFFFFFF)" "fm_pos ?t = 3 * 4096" using inv by auto
  from format_finish [OF assms s0(1) _ f this, of "[]"] obtain c where
    img: "format junk n [] = Some ((fm_img ?t)(2 := c))" "\<forall>b<32768. bit (c (b div 32)) (b mod 32) \<longleftrightarrow> 3 \<le> b"
    using assms(1) by auto
  let ?img = "(fm_img ?t)(2 := c)"
  obtain s1 where s1: "fs_init (attach ?img) = Some s1" "fs_ok s1 n" "blk s1 = ?img" "\<forall>b<n. is_free s1 b \<longleftrightarrow> 3 \<le> b"
    using mount_ok [of ?img n 1 3 3] img(2) assms by auto
  have "bno s1 s_root 0 = 3"
    by (simp add: bno_def f_word_def s1(3) s_root_def root_words_def file_consts)
  moreover have "find (is_free s1) [0..<n] = Some 3"
    using s1(4) assms(1) by (auto simp: find_Some_iff intro!: exI [of _ 3])
  ultimately show ?thesis using img(1) s1 alloc_block_ok [OF s1(2)] assms(1) by auto
qed

theorem fsformat_empty_root_witness:
  "\<exists>img s1 s2. format (\<lambda>_. 0xFFFFFFFF) 4 [] = Some img \<and> fs_init (attach img) = Some s1
    \<and> is_free s1 3 \<and> alloc_block s1 = Some (Inr 3, s2)"
  using fsformat_empty_root [of 4] by simp blast

end
