(* ===== verification/Mmap.thy ===== *)
theory Mmap
  imports Ulib File_Client
begin

text \<open>
  lib/mmap.c: memory-mapped files. A program is its address space in the state of the kernel and,
  for its file descriptors and requests, a \<open>client\<close>; the global arrays of the library are the
  record \<open>mmaps\<close>. An access out of the bounds of an array, and a panic, is None. Messages between
  the program and the file server are the rounds of \<open>fsipc\<close>, which leave the program's own pages
  alone.
\<close>

unbundle bit_operations_syntax

section \<open>Accesses of the program\<close>

definition uread8 :: "u32 \<Rightarrow> kstate \<Rightarrow> u8 option" where
  "uread8 va s = (if user_walk False va s = None then None else vread8 va s)"

definition uread16 :: "u32 \<Rightarrow> kstate \<Rightarrow> u16 option" where
  "uread16 va s = (if user_walk False va s = None then None else vread16 va s)"

definition uwrite8 :: "u32 \<Rightarrow> u8 \<Rightarrow> kstate \<Rightarrow> kstate option" where
  "uwrite8 va b s = (if user_walk True va s = None then None else vwrite8 va b s)"

fun uread_bytes :: "u32 \<Rightarrow> nat \<Rightarrow> kstate \<Rightarrow> u8 list option" where
  "uread_bytes va 0 s = Some []"
| "uread_bytes va (Suc n) s = do { b \<leftarrow> uread8 va s; bs \<leftarrow> uread_bytes (va + 1) n s; Some (b # bs) }"

fun uwrite_bytes :: "u32 \<Rightarrow> u8 list \<Rightarrow> kstate \<Rightarrow> kstate option" where
  "uwrite_bytes va [] s = Some s"
| "uwrite_bytes va (b # bs) s = do { s1 \<leftarrow> uwrite8 va b s; uwrite_bytes (va + 1) bs s1 }"

definition uwrite32 :: "u32 \<Rightarrow> u32 \<Rightarrow> kstate \<Rightarrow> kstate option" where
  "uwrite32 va w s = uwrite_bytes va (word_bytes w) s"

section \<open>State\<close>

record mmaps =
  mm_addr :: "u32 list"
  mm_modes :: "u32 list"
  mm_fds :: "u32 list"
  mm_offsets :: "u32 list"
  mmap_cnt :: int

record prog =
  pg_client :: client
  pg_maps :: mmaps

definition NMMAP :: nat where "NMMAP = 32"

definition mmaps_init :: mmaps where
  "mmaps_init = \<lparr>mm_addr = replicate NMMAP 0, mm_modes = replicate NMMAP 0, mm_fds = replicate NMMAP 0,
     mm_offsets = replicate NMMAP 0, mmap_cnt = 0\<rparr>"

definition PROT_READ :: u32 where "PROT_READ = 0x2"
definition PROT_WRITE :: u32 where "PROT_WRITE = 0x4"
definition PROT_NONE :: u32 where "PROT_NONE = 0x8"
definition MAP_SHARED :: u32 where "MAP_SHARED = 0x2"
definition MAP_PRIVATE :: u32 where "MAP_PRIVATE = 0x4"
definition MAP_ANONYMOUS :: u32 where "MAP_ANONYMOUS = 0x100"
definition MAP_FAILED :: u32 where "MAP_FAILED = - 1"
definition PTE_SHARED :: u32 where "PTE_SHARED = 0x400"

text \<open>The file functions on the program, and read and write with a buffer in its memory.\<close>

definition u_seek :: "u32 \<Rightarrow> u32 \<Rightarrow> prog \<Rightarrow> (u32 \<times> prog) option" where
  "u_seek fd off p = do { (r, c) \<leftarrow> seek fd off (pg_client p); Some (r, p\<lparr>pg_client := c\<rparr>) }"

definition u_close :: "u32 \<Rightarrow> prog \<Rightarrow> (u32 \<times> prog) option" where
  "u_close fd p = do { (r, c) \<leftarrow> close fd (pg_client p); Some (r, p\<lparr>pg_client := c\<rparr>) }"

definition u_read :: "u32 \<Rightarrow> u32 \<Rightarrow> u32 \<Rightarrow> prog \<Rightarrow> kstate \<Rightarrow> (u32 \<times> prog \<times> kstate) option" where
  "u_read fd buf n p s =
     do {
       (r, bs, c) \<leftarrow> read_fd fd n (pg_client p);
       s1 \<leftarrow> uwrite_bytes buf bs s;
       Some (r, p\<lparr>pg_client := c\<rparr>, s1)
     }"

definition u_write :: "u32 \<Rightarrow> u32 \<Rightarrow> u32 \<Rightarrow> prog \<Rightarrow> kstate \<Rightarrow> (u32 \<times> prog) option" where
  "u_write fd buf n p s =
     do {
       bs \<leftarrow> uread_bytes buf (unat n) s;
       (r, c) \<leftarrow> write_fd fd bs (pg_client p);
       Some (r, p\<lparr>pg_client := c\<rparr>)
     }"

section \<open>mmap\<close>

definition MIN_size :: "u32 \<Rightarrow> u32 \<Rightarrow> u32" where
  "MIN_size a b = (if a \<le> b then a else b)"

definition mmap_perm :: "u32 \<Rightarrow> u32 \<Rightarrow> u32" where
  "mmap_perm prot mode =
     (if prot AND PROT_NONE \<noteq> 0 then PTE_P
      else PTE_P OR (if prot AND PROT_WRITE \<noteq> 0 then PTE_W else 0) OR (if prot AND PROT_READ \<noteq> 0 then PTE_U else 0)
        OR (if mode AND MAP_SHARED \<noteq> 0 then PTE_SHARED else 0))"

text \<open>The checks: \<open>None\<close> panics, \<open>Some False\<close> is MAP_FAILED.\<close>

definition mmap_check :: "u32 \<Rightarrow> u32 \<Rightarrow> u32 \<Rightarrow> client \<Rightarrow> bool option" where
  "mmap_check prot mode fd c =
     (if mode AND MAP_ANONYMOUS \<noteq> 0 then Some (fd = - 1)
      else case fd_lookup fd c of
             Inl _ \<Rightarrow> None
           | Inr fdp \<Rightarrow> do {
               f \<leftarrow> get_fd fdp c;
               Some (\<not> (prot AND PROT_READ \<noteq> 0 \<and> fd_omode f \<noteq> O_RDONLY \<and> fd_omode f \<noteq> O_RDWR)
                     \<and> \<not> (prot AND PROT_WRITE \<noteq> 0 \<and> fd_omode f \<noteq> O_WRONLY \<and> fd_omode f \<noteq> O_RDWR))
             })"

text \<open>
  The search for an address, which goes through the address space byte by byte and counts the
  bytes without a page in \<open>cnt\<close>.
\<close>

function mmap_search :: "u32 \<Rightarrow> u32 \<Rightarrow> u32 \<Rightarrow> kstate \<Rightarrow> (u32 \<times> u32) option" where
  "mmap_search st cnt len s =
     (if st < USTACKTOP - PGSIZE then
        (case pageref st s of
           None \<Rightarrow> None
         | Some r \<Rightarrow>
             let cnt1 = (if r = 0 then cnt + 1 else 0)
             in if cnt1 * PGSIZE \<ge> len then Some (st, cnt1) else mmap_search (st + 1) cnt1 len s)
      else Some (st, cnt))"
  by pat_completeness auto

termination
proof (relation "measure (\<lambda>(st, _). 2 ^ 32 - unat st)", goal_cases)
  case (2 st cnt len s r cnt1)
  then have "unat st < 4294967295" by (simp add: word_less_nat_alt layout)
  then show ?case by (simp add: unat_word_ariths)
qed simp

declare mmap_search.simps [simp del]

text \<open>The pages still to load; the bound of the loop is computed from what is left of \<open>length\<close>.\<close>

definition pages_left :: "u32 \<Rightarrow> u32" where
  "pages_left len = ROUNDUP len PGSIZE div PGSIZE"

lemma unat_pages_left: "unat (pages_left len) = unat (len + 4095) div 4096"
proof -
  have PG: "unat PGSIZE = 4096" by (simp add: layout)
  have "ROUNDUP len PGSIZE = ROUNDDOWN (len + 4095) PGSIZE" by (simp add: ROUNDUP_def layout add.commute)
  then have "unat (ROUNDUP len PGSIZE) = unat (len + 4095) div 4096 * 4096"
    by (simp only: unat_ROUNDDOWN PG minus_mod_eq_div_mult)
  then show ?thesis unfolding pages_left_def unat_div PG by simp
qed

lemma pages_left_dec: "0 < unat (pages_left len) \<Longrightarrow> unat (pages_left (len - PGSIZE)) < unat (pages_left len)"
proof -
  assume "0 < unat (pages_left len)"
  then have l: "4096 \<le> unat (len + 4095)" by (simp add: unat_pages_left div_greater_zero_iff)
  then have "4096 \<le> len + 4095" by (simp add: word_le_nat_alt)
  from unat_sub [OF this] have "unat (len + 4095 - 4096) = unat (len + 4095) - 4096" by simp
  moreover have "len - PGSIZE + 4095 = len + 4095 - 4096" by (simp add: layout)
  ultimately have "unat (len - PGSIZE + 4095) = unat (len + 4095) - 4096" by (simp only:)
  then show ?thesis using l unfolding unat_pages_left by (simp add: le_div_geq)
qed

function mmap_load ::
  "hw \<Rightarrow> u32 \<Rightarrow> u32 \<Rightarrow> u32 \<Rightarrow> u32 \<Rightarrow> u32 \<Rightarrow> prog \<Rightarrow> kstate \<Rightarrow> prog flow option" where
  "mmap_load hw perm fd i st len p s =
     (if i < pages_left len then
        case pageref st s of
          None \<Rightarrow> None
        | Some r \<Rightarrow>
            call (if r = 0 then must (u_page_alloc hw 0 st perm s) (\<lambda>_ s1. Some (Ret () s1)) else Some (Ret () s))
              (\<lambda>_ s1. case u_read fd st (MIN_size PGSIZE len) p s1 of
                 None \<Rightarrow> None
               | Some (n, p1, s2) \<Rightarrow>
                   if Ulib.neg n then None else mmap_load hw perm fd (i + 1) (st + PGSIZE) (len - PGSIZE) p1 s2)
      else Some (Ret p s))"
  by pat_completeness auto

termination
proof (relation "measure (\<lambda>(hw, perm, fd, i, st, len, p, s). unat (pages_left len))", goal_cases)
  case (2 hw perm fd i st len p s)
  then show ?case using pages_left_dec [of len] by (simp add: word_less_nat_alt)
qed simp

declare mmap_load.simps [simp del]

text \<open>The entry at the end of the four arrays.\<close>

definition mmap_record :: "u32 \<Rightarrow> u32 \<Rightarrow> u32 \<Rightarrow> u32 \<Rightarrow> prog \<Rightarrow> prog option" where
  "mmap_record ret mode fd offset p =
     (let m = pg_maps p; k = nat (mmap_cnt m)
      in if mmap_cnt m < 0 \<or> k \<ge> NMMAP then None
         else Some (p\<lparr>pg_maps := \<lparr>mm_addr = (mm_addr m)[k := ret], mm_modes = (mm_modes m)[k := mode],
                mm_fds = (mm_fds m)[k := fd], mm_offsets = (mm_offsets m)[k := offset],
                mmap_cnt = mmap_cnt m + 1\<rparr>\<rparr>))"

definition mmap ::
  "hw \<Rightarrow> u32 \<Rightarrow> u32 \<Rightarrow> u32 \<Rightarrow> u32 \<Rightarrow> u32 \<Rightarrow> u32 \<Rightarrow> prog \<Rightarrow> kstate \<Rightarrow> (u32 \<times> prog) flow option" where
  "mmap hw start len prot mode fd offset p s =
     (case mmap_check prot mode fd (pg_client p) of
        None \<Rightarrow> None
      | Some False \<Rightarrow> Some (Ret (MAP_FAILED, p) s)
      | Some True \<Rightarrow>
          (case (if start \<noteq> 0 then Some (start, 1) else mmap_search UTEXT 0 len s) of
             None \<Rightarrow> None
           | Some (st, cnt) \<Rightarrow>
               if start = 0 \<and> st = USTACKTOP - PGSIZE then Some (Ret (MAP_FAILED, p) s)
               else
                 let ret = (if start \<noteq> 0 then start else st - (cnt - 1) * PGSIZE)
                 in call (if mode AND MAP_ANONYMOUS = 0 then
                            case u_seek fd offset p of
                              None \<Rightarrow> None
                            | Some (_, p1) \<Rightarrow> mmap_load hw (mmap_perm prot mode) fd 0 ret len p1 s
                          else Some (Ret p s))
                      (\<lambda>p2 s2. case mmap_record ret mode fd offset p2 of
                         None \<Rightarrow> None | Some p3 \<Rightarrow> Some (Ret (ret, p3) s2))))"

section \<open>munmap\<close>

text \<open>The loop that writes the pages back; its counter is used again afterwards.\<close>

function munmap_store :: "u32 \<Rightarrow> u32 \<Rightarrow> u32 \<Rightarrow> u32 \<Rightarrow> prog \<Rightarrow> kstate \<Rightarrow> (u32 \<times> prog) option" where
  "munmap_store fd i st len p s =
     (if i < pages_left len then
        case u_write fd st (MIN_size len PGSIZE) p s of
          None \<Rightarrow> None
        | Some (n, p1) \<Rightarrow> if Ulib.neg n then None else munmap_store fd (i + 1) (st + PGSIZE) (len - PGSIZE) p1 s
      else Some (i, p))"
  by pat_completeness auto

termination
proof (relation "measure (\<lambda>(fd, i, st, len, p, s). unat (pages_left len))", goal_cases)
  case (2 fd i st len p s)
  then show ?case using pages_left_dec [of len] by (simp add: word_less_nat_alt)
qed simp

declare munmap_store.simps [simp del]

text \<open>The entries after the one at \<open>i\<close>, moved down by one.\<close>

definition drop_nth :: "nat \<Rightarrow> int \<Rightarrow> 'a list \<Rightarrow> 'a list" where
  "drop_nth i cnt xs = fold (\<lambda>j ys. ys[j := ys ! (j + 1)]) [i..<nat (cnt - 1)] xs"

definition munmap :: "u32 \<Rightarrow> u32 \<Rightarrow> prog \<Rightarrow> kstate \<Rightarrow> (u32 \<times> prog) option" where
  "munmap start len p s =
     (let m = pg_maps p; cnt = mmap_cnt m;
          i = (case find (\<lambda>i. mm_addr m ! i = start) [0..<nat cnt] of Some i \<Rightarrow> i | None \<Rightarrow> nat cnt)
      in if i \<ge> NMMAP then None
         else do {
           (j, p1) \<leftarrow> (if mm_modes m ! i AND MAP_ANONYMOUS = 0 \<and> mm_modes m ! i AND MAP_PRIVATE = 0 then do {
                         (_, p0) \<leftarrow> u_seek (mm_fds m ! i) (mm_offsets m ! i) p;
                         (k, p1) \<leftarrow> munmap_store (mm_fds m ! i) 0 start len p0 s;
                         Some (unat k, p1)
                       }
                       else Some (i, p));
           let m1 = pg_maps p1;
           Some (0, p1\<lparr>pg_maps := \<lparr>mm_addr = drop_nth j cnt (mm_addr m1), mm_modes = drop_nth j cnt (mm_modes m1),
                  mm_fds = drop_nth j cnt (mm_fds m1), mm_offsets = drop_nth j cnt (mm_offsets m1),
                  mmap_cnt = cnt - 1\<rparr>\<rparr>)
         })"

end
