(* ===== verification/Spawn.thy ===== *)
theory Spawn
  imports Mmap
begin

text \<open>
  lib/spawn.c: a child environment from a program in the file system. The program's locals are
  in its memory: \<open>elf_buf\<close> and \<open>child_tf\<close> are the addresses of the buffer and of the trap frame on
  its stack; a write to a page that is not writable (copy-on-write included) is None.
\<close>

unbundle bit_operations_syntax

definition UTEMP2USTACK :: "u32 \<Rightarrow> u32" where
  "UTEMP2USTACK addr = addr + (USTACKTOP - PGSIZE) - UTEMP"

section \<open>Arguments\<close>

text \<open>The string at an address; strlen is its length.\<close>

partial_function (option) ustr :: "u32 \<Rightarrow> kstate \<Rightarrow> u8 list option" where
  "ustr p s = Option.bind (uread8 p s) (\<lambda>b.
     if b = 0 then Some [] else Option.bind (ustr (p + 1) s) (\<lambda>bs. Some (b # bs)))"

text \<open>The loop that counts the arguments and the bytes of their strings.\<close>

partial_function (option) count_argv :: "u32 \<Rightarrow> nat \<Rightarrow> u32 \<Rightarrow> kstate \<Rightarrow> (nat \<times> u32) option" where
  "count_argv argv argc sz s =
     Option.bind (uread32 (argv + 4 * of_nat argc) s) (\<lambda>p.
       if p = 0 then Some (argc, sz)
       else Option.bind (ustr p s) (\<lambda>st. count_argv argv (argc + 1) (sz + of_nat (length st) + 1) s))"

fun store_args :: "u32 \<Rightarrow> u32 \<Rightarrow> nat list \<Rightarrow> u32 \<Rightarrow> kstate \<Rightarrow> (u32 \<times> kstate) option" where
  "store_args argv argv_store [] string_store s = Some (string_store, s)"
| "store_args argv argv_store (i # is) string_store s =
     do {
       s1 \<leftarrow> uwrite32 (argv_store + 4 * of_nat i) (UTEMP2USTACK string_store) s;
       p \<leftarrow> uread32 (argv + 4 * of_nat i) s1;
       st \<leftarrow> ustr p s1;
       s2 \<leftarrow> uwrite_bytes string_store (st @ [0]) s1;
       q \<leftarrow> uread32 (argv + 4 * of_nat i) s2;
       st2 \<leftarrow> ustr q s2;
       store_args argv argv_store is (string_store + (of_nat (length st2) + 1)) s2
     }"

text \<open>The page at UTEMP, with the assertion; the result is the stack pointer of the child.\<close>

definition fill_stack :: "u32 \<Rightarrow> u32 \<Rightarrow> nat \<Rightarrow> u32 \<Rightarrow> kstate \<Rightarrow> (u32 \<times> kstate) option" where
  "fill_stack argv argv_store argc string_store s =
     do {
       (ss, s1) \<leftarrow> store_args argv argv_store [0..<argc] string_store s;
       s2 \<leftarrow> uwrite32 (argv_store + 4 * of_nat argc) 0 s1;
       if ss \<noteq> UTEMP + PGSIZE then None
       else do {
         s3 \<leftarrow> uwrite32 (argv_store - 4) (UTEMP2USTACK argv_store) s2;
         s4 \<leftarrow> uwrite32 (argv_store - 8) (of_nat argc) s3;
         Some (UTEMP2USTACK (argv_store - 8), s4)
       }
     }"

definition PTE_UWP :: u32 where "PTE_UWP = PTE_P OR PTE_U OR PTE_W"

text \<open>The result, and what is stored in \<open>*init_esp\<close> if anything.\<close>

definition init_stack_end :: "hw \<Rightarrow> u32 \<Rightarrow> u32 \<Rightarrow> kstate \<Rightarrow> (u32 \<times> u32 option) flow option" where
  "init_stack_end hw child esp s =
     (let error = (\<lambda>r s'. call (u_page_unmap hw 0 UTEMP s') (\<lambda>_ s''. Some (Ret (r, Some esp) s'')))
      in call (u_page_map hw 0 UTEMP child (USTACKTOP - PGSIZE) PTE_UWP s) (\<lambda>r s1.
           if Ulib.neg r then error r s1
           else call (u_page_unmap hw 0 UTEMP s1) (\<lambda>r2 s2.
             if Ulib.neg r2 then error r2 s2 else Some (Ret (0, Some esp) s2))))"

definition init_stack :: "hw \<Rightarrow> u32 \<Rightarrow> u32 \<Rightarrow> kstate \<Rightarrow> (u32 \<times> u32 option) flow option" where
  "init_stack hw child argv s =
     (case count_argv argv 0 0 s of
        None \<Rightarrow> None
      | Some (argc, string_size) \<Rightarrow>
          let string_store = UTEMP + PGSIZE - string_size;
              argv_store = ROUNDDOWN string_store 4 - 4 * (of_nat argc + 1)
          in if argv_store - 8 < UTEMP then Some (Ret (neg_errno E_NO_MEM, None) s)
             else call (u_page_alloc hw 0 UTEMP PTE_UWP s) (\<lambda>r s1.
               if Ulib.neg r then Some (Ret (r, None) s1)
               else case fill_stack argv argv_store argc string_store s1 of
                      None \<Rightarrow> None
                    | Some (esp, s2) \<Rightarrow> init_stack_end hw child esp s2))"

section \<open>Segments\<close>

text \<open>A page of the segment; 0 or the error.\<close>

definition map_page ::
  "hw \<Rightarrow> u32 \<Rightarrow> u32 \<Rightarrow> u32 \<Rightarrow> u32 \<Rightarrow> u32 \<Rightarrow> u32 \<Rightarrow> u32 \<Rightarrow> prog \<Rightarrow> kstate \<Rightarrow> (u32 \<times> prog) flow option" where
  "map_page hw child va fd filesz fileoffset perm i p s =
     (if i \<ge> filesz then
        call (u_page_alloc hw child (va + i) perm s) (\<lambda>r s1. Some (Ret (if Ulib.neg r then r else 0, p) s1))
      else
        call (u_page_alloc hw 0 UTEMP PTE_UWP s) (\<lambda>r s1.
          if Ulib.neg r then Some (Ret (r, p) s1)
          else call (mmap hw UTEMP (MIN_size PGSIZE (filesz - i)) PROT_READ MAP_SHARED fd (fileoffset + i) p s1)
            (\<lambda>(a, p1) s2.
              if a = MAP_FAILED then None
              else must (u_page_map hw 0 UTEMP child (va + i) perm s2) (\<lambda>_ s3.
                call (u_page_unmap hw 0 UTEMP s3) (\<lambda>_ s4. Some (Ret (0, p1) s4))))))"

fun seg_pages ::
  "(u32 \<Rightarrow> prog \<Rightarrow> kstate \<Rightarrow> (u32 \<times> prog) flow option) \<Rightarrow> u32 list \<Rightarrow> prog \<Rightarrow> kstate \<Rightarrow> (u32 \<times> prog) flow option" where
  "seg_pages f [] p s = Some (Ret (0, p) s)"
| "seg_pages f (i # is) p s =
     call (f i p s) (\<lambda>(r, p1) s1. if Ulib.neg r then Some (Ret (r, p1) s1) else seg_pages f is p1 s1)"

text \<open>
  The offsets \<open>0, PGSIZE, ...\<close> below \<open>memsz\<close>. A segment of almost 4 GB, whose offsets would wrap,
  meets an address above UTOP before.
\<close>

definition page_offsets :: "u32 \<Rightarrow> u32 list" where
  "page_offsets memsz = map (\<lambda>k. of_nat k * PGSIZE) [0..<(unat memsz + 4095) div 4096]"

definition map_segment ::
  "hw \<Rightarrow> u32 \<Rightarrow> u32 \<Rightarrow> u32 \<Rightarrow> u32 \<Rightarrow> u32 \<Rightarrow> u32 \<Rightarrow> u32 \<Rightarrow> prog \<Rightarrow> kstate \<Rightarrow> (u32 \<times> prog) flow option" where
  "map_segment hw child va memsz fd filesz fileoffset perm p s =
     (let i = PGOFF va
      in seg_pages (map_page hw child (va - i) fd (filesz + i) (fileoffset - i) perm) (page_offsets (memsz + i)) p s)"

section \<open>spawn\<close>

definition ELF_PROG_FLAG_WRITE :: u32 where "ELF_PROG_FLAG_WRITE = 2"

definition seg_perm :: "u32 \<Rightarrow> u32" where
  "seg_perm flags = PTE_P OR PTE_U OR (if flags AND ELF_PROG_FLAG_WRITE \<noteq> 0 then PTE_W else 0)"

text \<open>The program headers from number \<open>i\<close> on, at \<open>ph\<close>; \<open>e_phnum\<close> is read again for each.\<close>

function load_segments :: "hw \<Rightarrow> u32 \<Rightarrow> u32 \<Rightarrow> u32 \<Rightarrow> nat \<Rightarrow> u32 \<Rightarrow> prog \<Rightarrow> kstate \<Rightarrow> (u32 \<times> prog) flow option" where
  "load_segments hw child fd elf i ph p s =
     (case uread16 (elf + 44) s of
        None \<Rightarrow> None
      | Some phnum \<Rightarrow>
          if i < unat phnum then
            case uread32 ph s of
              None \<Rightarrow> None
            | Some type \<Rightarrow>
                call (if type \<noteq> ELF_PROG_LOAD then Some (Ret (0, p) s)
                      else case (uread32 (ph + 24) s, uread32 (ph + 8) s, uread32 (ph + 20) s,
                                 uread32 (ph + 16) s, uread32 (ph + 4) s) of
                             (Some flags, Some va, Some memsz, Some filesz, Some off) \<Rightarrow>
                               map_segment hw child va memsz fd filesz off (seg_perm flags) p s
                           | _ \<Rightarrow> None)
                  (\<lambda>(r, p1) s1. if Ulib.neg r then Some (Ret (r, p1) s1)
                               else load_segments hw child fd elf (i + 1) (ph + 32) p1 s1)
          else Some (Ret (0, p) s))"
  by pat_completeness auto

termination
proof (relation "measure (\<lambda>(hw, child, fd, elf, i, ph, p, s). 65536 - i)", goal_cases)
  case (2 hw child fd elf i ph p s phnum)
  have "unat phnum < 65536" using unsigned_less [of phnum, where 'a = nat] by simp
  then show ?case using 2 by simp
qed simp

declare load_segments.simps [simp del]

text \<open>\<open>struct Trapframe\<close> as bytes.\<close>

definition half_bytes :: "u16 \<Rightarrow> u8 list" where
  "half_bytes w = [ucast w, ucast (drop_bit 8 w)]"

definition tf_bytes :: "Trapframe \<Rightarrow> u8 list" where
  "tf_bytes tf =
     (let r = tf_regs tf
      in word_bytes (reg_edi r) @ word_bytes (reg_esi r) @ word_bytes (reg_ebp r) @ word_bytes (reg_oesp r)
         @ word_bytes (reg_ebx r) @ word_bytes (reg_edx r) @ word_bytes (reg_ecx r) @ word_bytes (reg_eax r)
         @ half_bytes (tf_es tf) @ half_bytes (tf_padding1 tf) @ half_bytes (tf_ds tf) @ half_bytes (tf_padding2 tf)
         @ word_bytes (tf_trapno tf) @ word_bytes (tf_err tf) @ word_bytes (tf_eip tf)
         @ half_bytes (tf_cs tf) @ half_bytes (tf_padding3 tf) @ word_bytes (tf_eflags tf)
         @ word_bytes (tf_esp tf) @ half_bytes (tf_ss tf) @ half_bytes (tf_padding4 tf))"

text \<open>From the creation of the child on; \<open>elf\<close> is what mmap returned for \<open>elf_buf\<close>.\<close>

definition spawn_finish :: "hw \<Rightarrow> u32 \<Rightarrow> u32 \<Rightarrow> u32 \<Rightarrow> prog \<Rightarrow> kstate \<Rightarrow> (u32 \<times> prog) flow option" where
  "spawn_finish hw child fd child_tf p s =
     (case u_close fd p of
        None \<Rightarrow> None
      | Some (_, p1) \<Rightarrow>
          must (u_env_set_trapframe hw child child_tf s) (\<lambda>_ s1.
          must (u_env_set_status hw child ENV_RUNNABLE s1) (\<lambda>_ s2. Some (Ret (child, p1) s2))))"

definition spawn_error :: "hw \<Rightarrow> u32 \<Rightarrow> u32 \<Rightarrow> u32 \<Rightarrow> prog \<Rightarrow> kstate \<Rightarrow> (u32 \<times> prog) flow option" where
  "spawn_error hw child fd r p s =
     call (u_env_destroy hw child s) (\<lambda>_ s1.
       case u_close fd p of None \<Rightarrow> None | Some (_, p1) \<Rightarrow> Some (Ret (r, p1) s1))"

definition spawn_child ::
  "hw \<Rightarrow> u32 \<Rightarrow> u32 \<Rightarrow> u32 \<Rightarrow> u32 \<Rightarrow> u32 \<Rightarrow> u32 \<Rightarrow> prog \<Rightarrow> kstate \<Rightarrow> (u32 \<times> prog) flow option" where
  "spawn_child hw child fd elf elf_buf child_tf argv p s =
     (case uwrite_bytes child_tf (tf_bytes (env_tf (envs s (ENVX child)))) s of
        None \<Rightarrow> None
      | Some s1 \<Rightarrow>
          (case Option.bind (uread32 (elf + 24) s1) (\<lambda>entry. uwrite32 (child_tf + 48) entry s1) of
             None \<Rightarrow> None
           | Some s2 \<Rightarrow>
               call (init_stack hw child argv s2) (\<lambda>(r, esp) s3.
                 case (case esp of None \<Rightarrow> Some s3 | Some v \<Rightarrow> uwrite32 (child_tf + 60) v s3) of
                   None \<Rightarrow> None
                 | Some s4 \<Rightarrow>
                     if Ulib.neg r then Some (Ret (r, p) s4)
                     else case uread32 (elf + 28) s4 of
                            None \<Rightarrow> None
                          | Some phoff \<Rightarrow>
                              call (load_segments hw child fd elf 0 (elf_buf + phoff) p s4) (\<lambda>(r2, p1) s5.
                                if Ulib.neg r2 then spawn_error hw child fd r2 p1 s5
                                else spawn_finish hw child fd child_tf p1 s5))))"

definition spawn ::
  "hw \<Rightarrow> u8 list \<Rightarrow> u32 \<Rightarrow> u32 \<Rightarrow> u32 \<Rightarrow> prog \<Rightarrow> kstate \<Rightarrow> (u32 \<times> prog) flow option" where
  "spawn hw path argv elf_buf child_tf p s =
     (case open_path path O_RDONLY (pg_client p) of
        None \<Rightarrow> None
      | Some (fd, c) \<Rightarrow>
          let p1 = p\<lparr>pg_client := c\<rparr>
          in if Ulib.neg fd then Some (Ret (fd, p1) s)
             else call (mmap hw elf_buf 512 PROT_READ MAP_SHARED fd 0 p1 s) (\<lambda>(elf, p2) s1.
               case uread32 elf s1 of
                 None \<Rightarrow> None
               | Some magic \<Rightarrow>
                   if magic \<noteq> ELF_MAGIC then
                     (case u_close fd p2 of None \<Rightarrow> None | Some (_, p3) \<Rightarrow> Some (Ret (neg_errno E_NOT_EXEC, p3) s1))
                   else call (u_exofork hw s1) (\<lambda>child s2.
                     if Ulib.neg child then Some (Ret (child, p2) s2)
                     else spawn_child hw child fd elf elf_buf child_tf argv p2 s2)))"

end
