(* ===== verification/Spawn_Inv.thy ===== *)
theory Spawn_Inv
  imports Spawn Fork_Loop
begin

text \<open>
  The stack page that spawn (lib/spawn.c) makes for the child: strings and argument vectors as a
  program reads them, byte writes to the page at UTEMP, and what the loop over the arguments
  leaves in it.
\<close>

unbundle bit_operations_syntax

section \<open>Strings and argument vectors\<close>

definition str_at :: "u32 \<Rightarrow> u8 list \<Rightarrow> kstate \<Rightarrow> bool" where
  "str_at p cs s \<longleftrightarrow> 0 \<notin> set cs \<and> unat p + length cs < unat UTOP
     \<and> (\<forall>k<length (cs @ [0]). uread8 (p + of_nat k) s = Some ((cs @ [0]) ! k))"

definition args_at :: "u32 \<Rightarrow> u8 list list \<Rightarrow> kstate \<Rightarrow> bool" where
  "args_at argv args s \<longleftrightarrow> unat argv mod 4 = 0 \<and> unat argv + 4 * length args < unat UTOP
     \<and> (\<forall>i<length args. \<exists>p. uread32 (argv + 4 * of_nat i) s = Some p \<and> p \<noteq> 0 \<and> str_at p (args ! i) s)
     \<and> uread32 (argv + 4 * of_nat (length args)) s = Some 0"

lemma str_at_Cons: "str_at p (c # cs) s \<Longrightarrow> uread8 p s = Some c \<and> c \<noteq> 0 \<and> str_at (p + 1) cs s"
proof -
  assume a: "str_at p (c # cs) s"
  then have u: "unat p + Suc (length cs) < unat UTOP"
    and r: "\<And>k. k < Suc (Suc (length cs)) \<Longrightarrow> uread8 (p + of_nat k) s = Some ((c # cs @ [0]) ! k)"
    by (simp_all add: str_at_def)
  have "unat (p + 1) = unat p + 1" using u by (simp add: layout unat_word_ariths)
  moreover have "uread8 (p + 1 + of_nat k) s = Some ((cs @ [0]) ! k)" if "k < Suc (length cs)" for k
    using r [of "Suc k"] that by (simp add: add.commute add.left_commute)
  ultimately show ?thesis using a r [of 0] u by (auto simp: str_at_def)
qed

lemma str_at_ustr: "str_at p cs s \<Longrightarrow> ustr p s = Some cs"
proof (induction cs arbitrary: p)
  case Nil
  then have "uread8 p s = Some 0" by (auto simp: str_at_def dest!: spec [of _ 0])
  then show ?case by (subst ustr.simps) simp
next
  case (Cons c cs)
  from str_at_Cons [OF Cons.prems] Cons.IH show ?case by (subst ustr.simps) simp
qed

text \<open>The bytes that the strings need.\<close>

definition str_size :: "u8 list list \<Rightarrow> nat" where
  "str_size args = sum_list (map (\<lambda>cs. length cs + 1) args)"

lemma str_size_simps [simp]: "str_size [] = 0" "str_size (c # cs) = length c + 1 + str_size cs"
  "str_size (xs @ ys) = str_size xs + str_size ys"
  by (simp_all add: str_size_def)

lemma str_size_take: "i < length args \<Longrightarrow> str_size (take (Suc i) args) = str_size (take i args) + length (args ! i) + 1"
  by (simp add: take_Suc_conv_app_nth)

lemma str_size_le: "str_size (take i args) \<le> str_size args"
proof -
  have "str_size args = str_size (take i args) + str_size (drop i args)"
    by (subst append_take_drop_id [of i, symmetric]) (simp only: str_size_simps)
  then show ?thesis by simp
qed

lemma count_argv_ok:
  assumes a: "args_at argv args s" and i: "i \<le> length args"
  shows "count_argv argv i (of_nat (str_size (take i args))) s = Some (length args, of_nat (str_size args))"
  using i
proof (induction "length args - i" arbitrary: i)
  case 0
  then have "i = length args" by simp
  then show ?case using a by (subst count_argv.simps) (simp add: args_at_def)
next
  case (Suc k)
  then have lt: "i < length args" by simp
  with a obtain p where p: "uread32 (argv + 4 * of_nat i) s = Some p" "p \<noteq> 0" "str_at p (args ! i) s"
    unfolding args_at_def by blast
  have "of_nat (str_size (take (Suc i) args)) = (of_nat (str_size (take i args)) + of_nat (length (args ! i)) + 1 :: u32)"
    using lt by (simp add: str_size_take)
  then show ?case
    using Suc.hyps(1) [of "Suc i"] Suc.hyps(2) lt p str_at_ustr [OF p(3)] by (subst count_argv.simps) simp
qed

section \<open>Reading that stays the same\<close>

definition ukeep :: "kstate \<Rightarrow> kstate \<Rightarrow> bool" where
  "ukeep s0 s \<longleftrightarrow> (\<forall>a f. a < UTOP \<and> user_walk False a s0 = Some f \<longrightarrow> user_walk False a s = Some f \<and> mem s f = mem s0 f)"

lemma user_mmu: "user_walk w a s = Some f \<Longrightarrow> mmu_walk w a s = Some f"
  by (auto simp: user_walk_def Let_def split: if_splits)

lemma uread8_walk: "uread8 a s = Some b \<longleftrightarrow>
    (\<exists>f. user_walk False a s = Some f \<and> b = get_byte (unat (PGOFF a) mod 4) (mem s f (unat (PGOFF a) div 4)))"
  using user_mmu [of False a s] by (auto simp: uread8_def vread8_def rd_def)

lemma uread32_walk: "unat a mod 4 = 0 \<Longrightarrow> uread32 a s = Some w \<longleftrightarrow>
    (\<exists>f. user_walk False a s = Some f \<and> w = mem s f (unat (PGOFF a) div 4))"
proof -
  assume "unat a mod 4 = 0"
  then have "unat (PGOFF a) mod 4 = 0" by (simp add: PGOFF_unat mod_mod_cancel)
  from vread32_page [OF _ this] user_mmu [of False a s] show ?thesis
    by (auto simp: uread32_def rd_def)
qed

lemma ukeep_uread:
  assumes "ukeep s0 s" "a < UTOP"
  shows "uread8 a s0 = Some b \<Longrightarrow> uread8 a s = Some b"
    "unat a mod 4 = 0 \<Longrightarrow> uread32 a s0 = Some w \<Longrightarrow> uread32 a s = Some w"
  using assms unfolding uread8_walk ukeep_def by (metis, metis uread32_walk)

lemma add_lt: "unat p + k < unat UTOP \<Longrightarrow> p + of_nat k < UTOP \<and> unat (p + of_nat k) = unat p + k"
proof -
  assume a: "unat p + k < unat UTOP"
  moreover have "unat UTOP < 4294967296" using unsigned_less [of UTOP, where 'a = nat] by simp
  ultimately have "unat p + k < 4294967296" by simp
  then have "unat (p + of_nat k) = unat p + k" by (simp add: unat_word_ariths unsigned_of_nat take_bit_nat_eq_self)
  with a show ?thesis by (simp add: word_less_nat_alt)
qed

lemma str_at_keep: "str_at p cs s0 \<Longrightarrow> ukeep s0 s \<Longrightarrow> str_at p cs s"
  using add_lt [of p] ukeep_uread(1) [of s0 s] by (auto simp: str_at_def)

lemma arg_addr:
  assumes "args_at argv args s" "i \<le> length args"
  shows "argv + 4 * of_nat i < UTOP" "unat (argv + 4 * of_nat i) mod 4 = 0"
proof -
  have "unat argv + 4 * i < unat UTOP" using assms by (simp add: args_at_def)
  from add_lt [OF this] have "argv + 4 * of_nat i < UTOP \<and> unat (argv + 4 * of_nat i) = unat argv + 4 * i" by simp
  with assms(1) show "argv + 4 * of_nat i < UTOP" "unat (argv + 4 * of_nat i) mod 4 = 0"
    by (simp_all add: args_at_def mod_add_right_eq)
qed

lemma args_at_keep: "args_at argv args s0 \<Longrightarrow> ukeep s0 s \<Longrightarrow> args_at argv args s"
proof -
  assume a: "args_at argv args s0" and k: "ukeep s0 s"
  note ad = arg_addr [OF a]
  show "args_at argv args s"
    unfolding args_at_def
  proof (intro conjI allI impI)
    fix i assume i: "i < length args"
    with a obtain p where "uread32 (argv + 4 * of_nat i) s0 = Some p" "p \<noteq> 0" "str_at p (args ! i) s0"
      unfolding args_at_def by blast
    with ukeep_uread(2) [OF k ad] i str_at_keep [OF _ k]
    show "\<exists>p. uread32 (argv + 4 * of_nat i) s = Some p \<and> p \<noteq> 0 \<and> str_at p (args ! i) s" by force
  next
    show "uread32 (argv + 4 * of_nat (length args)) s = Some 0"
      using ukeep_uread(2) [OF k ad [OF order_refl]] a unfolding args_at_def by blast
  qed (use a in \<open>simp_all add: args_at_def\<close>)
qed

section \<open>Bytes of a page\<close>

definition frame_byte :: "kstate \<Rightarrow> nat \<Rightarrow> nat \<Rightarrow> u8" where
  "frame_byte s f k = get_byte (k mod 4) (mem s f (k div 4))"

definition has :: "kstate \<Rightarrow> nat \<Rightarrow> nat \<Rightarrow> u8 list \<Rightarrow> bool" where
  "has s f k bs \<longleftrightarrow> (\<forall>x<length bs. frame_byte s f (k + x) = bs ! x)"

lemma has_word: "k mod 4 = 0 \<Longrightarrow> has s f k (word_bytes w) \<longleftrightarrow> mem s f (k div 4) = w"
proof -
  assume k: "k mod 4 = 0"
  have "frame_byte s f (k + x) = get_byte x (mem s f (k div 4))" if "x < 4" for x
  proof -
    have "(k + x) mod 4 = x" "(k + x) div 4 = k div 4" using k that by presburger+
    then show ?thesis by (simp add: frame_byte_def)
  qed
  moreover have "word_bytes w ! x = get_byte x w" if "x < 4" for x using that by (simp add: word_bytes_def)
  moreover have "length (word_bytes w) = 4" by (simp add: word_bytes_def)
  ultimately show ?thesis using word_eq_bytes [of "mem s f (k div 4)" w] by (auto simp: has_def)
qed

lemma has_other: "has s f k bs \<Longrightarrow> \<forall>j. k \<le> j \<and> j < k + length bs \<longrightarrow> frame_byte s' f j = frame_byte s f j \<Longrightarrow> has s' f k bs"
  by (simp add: has_def)

text \<open>
  \<open>fillable s0 d pp s\<close>: page \<open>pp\<close> is at UTEMP, writable, and what could be read in \<open>s0\<close> is still
  there, in other pages.
\<close>

definition fillable :: "kstate \<Rightarrow> nat \<Rightarrow> nat \<Rightarrow> kstate \<Rightarrow> bool" where
  "fillable s0 d pp s \<longleftrightarrow> unat (PPN (cr3 s)) = d \<and> pp \<noteq> d \<and> (\<forall>i<UPDX. ptmap s (d, i) \<noteq> Some pp)
     \<and> user_walk True UTEMP s = Some pp \<and> ukeep s0 s \<and> (\<forall>a<UTOP. user_walk False a s0 \<noteq> Some pp)"

lemma fillable_keep: "fillable s0 d pp s \<Longrightarrow> ukeep s0 s"
  by (simp add: fillable_def)

definition wrote :: "nat \<Rightarrow> kstate \<Rightarrow> kstate \<Rightarrow> bool" where
  "wrote pp s s' \<longleftrightarrow> (\<exists>g. s' = s\<lparr>mem := (mem s)(pp := g)\<rparr>)"

lemma wrote_refl [simp]: "wrote pp s s"
  unfolding wrote_def by (rule exI [of _ "mem s pp"]) simp

lemma wrote_trans [trans]: "wrote pp s s1 \<Longrightarrow> wrote pp s1 s2 \<Longrightarrow> wrote pp s s2"
  by (auto simp: wrote_def)

lemma wroteD:
  assumes "wrote pp s s'"
  shows "\<And>f. f \<noteq> pp \<Longrightarrow> mem s' f = mem s f" "npage s' = npage s" "pp_ref s' = pp_ref s"
    "page_free_list s' = page_free_list s" "cr3 s' = cr3 s" "same_rest s s'"
  using assms by (auto simp: wrote_def same_rest_def)

lemma wrote_walk:
  assumes "wrote pp s s'" "unat (PPN (cr3 s)) \<noteq> pp" "\<forall>i<UPDX. ptmap s (unat (PPN (cr3 s)), i) \<noteq> Some pp" "a < UTOP"
  shows "user_walk w a s' = user_walk w a s"
proof -
  let ?e = "mem s (unat (PPN (cr3 s))) (unat (PDX a))"
  note D = wroteD [OF assms(1)]
  have e: "mem s' (unat (PPN (cr3 s'))) (unat (PDX a)) = ?e" using D(1) [OF assms(2)] D(5) by simp
  show ?thesis
  proof (cases "?e AND PTE_P = 0")
    case True
    then show ?thesis using e D(5) by (simp add: user_walk_def mmu_walk_def rd_def Let_def)
  next
    case False
    then have "unat (PPN ?e) \<noteq> pp"
      using assms(3) PDX_user [OF assms(4)] by (auto simp: ptmap_def ent_def present_def frame_of_def)
    then have "mem s' (unat (PPN ?e)) = mem s (unat (PPN ?e))" by (rule D(1))
    then show ?thesis using e D(5) by (simp add: user_walk_def mmu_walk_def rd_def Let_def)
  qed
qed

lemma wrote_fillable: "fillable s0 d pp s \<Longrightarrow> wrote pp s s' \<Longrightarrow> fillable s0 d pp s'"
proof -
  assume f: "fillable s0 d pp s" and w: "wrote pp s s'"
  note D = wroteD [OF w]
  have "UTEMP < UTOP" by (simp add: UTEMP_def layout)
  have walk: "user_walk b a s' = user_walk b a s" if "a < UTOP" for b a
    using wrote_walk [OF w _ _ that] f by (auto simp: fillable_def)
  have "ptmap s' (d, i) = ptmap s (d, i)" for i using D(1) f by (auto simp: ptmap_def fillable_def)
  moreover have "ukeep s0 s'" using f walk D(1) unfolding fillable_def ukeep_def by metis
  ultimately show ?thesis using f walk \<open>UTEMP < UTOP\<close> D(5) by (simp add: fillable_def)
qed

section \<open>Writing to the page at UTEMP\<close>

lemma UTEMP_off: "unat (PGOFF UTEMP) = 0" "UTEMP < UTOP"
  by (simp_all add: PGOFF_unat UTEMP_def layout)

lemma user_walk_add:
  assumes "unat (PGOFF va) + k < 4096"
  shows "user_walk w (va + of_nat k) s = user_walk w va s"
  unfolding user_walk_def page_add(2,3) [OF assms] walk_add [OF assms] ..

lemma UTEMP_walk: "k < 4096 \<Longrightarrow> user_walk w (UTEMP + of_nat k) s = user_walk w UTEMP s"
  by (rule user_walk_add) (simp add: UTEMP_off)

lemma uwrite8_page:
  assumes f: "fillable s0 d pp s" and k: "k < 4096"
  shows "\<exists>s'. uwrite8 (UTEMP + of_nat k) b s = Some s' \<and> wrote pp s s'
    \<and> (\<forall>j. frame_byte s' pp j = (if j = k then b else frame_byte s pp j))"
proof -
  let ?s = "wr (pp, k div 4) (put_byte (k mod 4) b (rd s (pp, k div 4))) s"
  have w: "user_walk True UTEMP s = Some pp" using f by (simp add: fillable_def)
  have "mmu_walk True (UTEMP + of_nat k) s = Some pp" using user_mmu [of True] UTEMP_walk [OF k] w by simp
  then have "uwrite8 (UTEMP + of_nat k) b s = Some ?s"
    using w UTEMP_walk [OF k] page_add(1) [of UTEMP k] UTEMP_off k by (simp add: uwrite8_def vwrite8_def Let_def)
  moreover have "wrote pp s ?s" by (auto simp: wrote_def wr_def)
  moreover have "frame_byte ?s pp j = (if j = k then b else frame_byte s pp j)" for j
  proof (cases "j div 4 = k div 4")
    case True
    then have "j = k \<longleftrightarrow> j mod 4 = k mod 4" using div_mult_mod_eq [of j 4] div_mult_mod_eq [of k 4] by auto
    then show ?thesis using True by (simp add: frame_byte_def wr_def rd_def get_put_byte)
  qed (auto simp: frame_byte_def wr_def)
  ultimately show ?thesis by blast
qed

lemma uwrite_page:
  assumes "fillable s0 d pp s" and "k + length bs \<le> 4096"
  shows "\<exists>s'. uwrite_bytes (UTEMP + of_nat k) bs s = Some s' \<and> wrote pp s s' \<and> fillable s0 d pp s'
    \<and> has s' pp k bs \<and> (\<forall>j. j < k \<or> k + length bs \<le> j \<longrightarrow> frame_byte s' pp j = frame_byte s pp j)"
  using assms
proof (induction bs arbitrary: k s)
  case Nil
  then show ?case by (auto simp: has_def)
next
  case (Cons b bs)
  from uwrite8_page [OF Cons.prems(1), of k b] Cons.prems(2) obtain s1 where
    s1: "uwrite8 (UTEMP + of_nat k) b s = Some s1" "wrote pp s s1"
      "\<And>j. frame_byte s1 pp j = (if j = k then b else frame_byte s pp j)" by auto
  have "Suc k + length bs \<le> 4096" using Cons.prems(2) by simp
  from Cons.IH [OF wrote_fillable [OF Cons.prems(1) s1(2)] this] obtain s' where
    s': "uwrite_bytes (UTEMP + of_nat (Suc k)) bs s1 = Some s'" "wrote pp s1 s'" "fillable s0 d pp s'"
      "has s' pp (Suc k) bs" "\<And>j. j < Suc k \<or> Suc k + length bs \<le> j \<Longrightarrow> frame_byte s' pp j = frame_byte s1 pp j" by blast
  have ad: "UTEMP + of_nat (Suc k) = UTEMP + of_nat k + 1" by (simp add: add.commute add.left_commute)
  then have "uwrite_bytes (UTEMP + of_nat k) (b # bs) s = Some s'" using s1(1) s'(1) unfolding ad by simp
  moreover have "has s' pp k (b # bs)"
    unfolding has_def
  proof (intro allI impI)
    fix x assume x: "x < length (b # bs)"
    show "frame_byte s' pp (k + x) = (b # bs) ! x"
    proof (cases x)
      case 0
      then show ?thesis using s'(5) [of k] s1(3) [of k] by simp
    next
      case (Suc y)
      then show ?thesis using s'(4) x by (simp add: has_def)
    qed
  qed
  moreover have "frame_byte s' pp j = frame_byte s pp j" if "j < k \<or> k + length (b # bs) \<le> j" for j
    using s'(5) [of j] s1(3) [of j] that by auto
  ultimately show ?case using wrote_trans [OF s1(2) s'(2)] s'(3) by blast
qed

section \<open>The arguments\<close>

text \<open>The offset of string \<open>i\<close> in the page, and the address of an offset in the child.\<close>

definition str_off :: "u8 list list \<Rightarrow> nat \<Rightarrow> nat" where
  "str_off args i = 4096 - str_size args + str_size (take i args)"

definition ustk :: "nat \<Rightarrow> u32" where
  "ustk k = USTACKTOP - PGSIZE + of_nat k"

lemma UTEMP2USTACK_off: "UTEMP2USTACK (UTEMP + of_nat k) = ustk k"
  by (simp add: UTEMP2USTACK_def ustk_def)

lemma word_bytes_len [simp]: "length (word_bytes w) = 4"
  by (simp add: word_bytes_def)

lemma str_off_end: "str_size args \<le> 4096 \<Longrightarrow> str_off args (length args) = 4096"
  by (simp add: str_off_def)

lemma str_off_mono: "i \<le> j \<Longrightarrow> str_off args i \<le> str_off args j"
proof -
  assume "i \<le> j"
  then have "str_size (take i args) \<le> str_size (take j args)"
    using str_size_le [of i "take j args"] by (simp add: min_def)
  then show ?thesis by (simp add: str_off_def)
qed

lemma args_at_nth:
  assumes "args_at argv args s0" "ukeep s0 s" "i < length args"
  shows "\<exists>p. uread32 (argv + 4 * of_nat i) s = Some p \<and> ustr p s = Some (args ! i)"
proof -
  have "args_at argv args s" using args_at_keep [OF assms(1,2)] .
  then show ?thesis using assms(3) str_at_ustr unfolding args_at_def by blast
qed

lemma store_args_ok:
  assumes f: "fillable s0 d pp s" and a: "args_at argv args s0" and L: "str_size args \<le> 4096"
    and A: "A + 4 * (length args + 1) \<le> 4096 - str_size args" and i: "i \<le> length args"
  shows "\<exists>s'. store_args argv (UTEMP + of_nat A) [i..<length args] (UTEMP + of_nat (str_off args i)) s = Some (UTEMP + PGSIZE, s')
    \<and> wrote pp s s' \<and> fillable s0 d pp s'
    \<and> (\<forall>m. i \<le> m \<and> m < length args \<longrightarrow> has s' pp (A + 4 * m) (word_bytes (ustk (str_off args m)))
        \<and> has s' pp (str_off args m) (args ! m @ [0]))
    \<and> (\<forall>j. (j < A + 4 * i \<or> A + 4 * length args \<le> j) \<and> j < str_off args i \<longrightarrow> frame_byte s' pp j = frame_byte s pp j)"
  using f i
proof (induction "length args - i" arbitrary: i s)
  case 0
  then have "i = length args" by simp
  then show ?case using 0 str_off_end [OF L] by (auto simp: layout)
next
  case (Suc k)
  let ?n = "length args" and ?o = "str_off args" and ?st = "args ! i @ [0]"
  have lt: "i < ?n" using Suc.hyps(2) by simp
  have o0: "4096 - str_size args \<le> ?o i" by (simp add: str_off_def)
  have o1: "?o (Suc i) = ?o i + length ?st" using lt by (simp add: str_off_def str_size_take)
  have o2: "?o (Suc i) \<le> 4096" using str_off_mono [of "Suc i" ?n args] str_off_end [OF L] lt by simp
  have "A + 4 * i + length (word_bytes (ustk (?o i))) \<le> 4096" using A lt by simp
  from uwrite_page [OF Suc.prems(1) this] obtain s1 where
    s1: "uwrite_bytes (UTEMP + of_nat (A + 4 * i)) (word_bytes (ustk (?o i))) s = Some s1" "wrote pp s s1"
      "fillable s0 d pp s1" "has s1 pp (A + 4 * i) (word_bytes (ustk (?o i)))"
      "\<And>j. j < A + 4 * i \<or> A + 4 * i + 4 \<le> j \<Longrightarrow> frame_byte s1 pp j = frame_byte s pp j" by auto
  have "?o i + length ?st \<le> 4096" using o1 o2 by simp
  from uwrite_page [OF s1(3) this] obtain s2 where
    s2: "uwrite_bytes (UTEMP + of_nat (?o i)) ?st s1 = Some s2" "wrote pp s1 s2" "fillable s0 d pp s2"
      "has s2 pp (?o i) ?st" "\<And>j. j < ?o i \<or> ?o i + length ?st \<le> j \<Longrightarrow> frame_byte s2 pp j = frame_byte s1 pp j" by blast
  have "k = ?n - Suc i" "Suc i \<le> ?n" using Suc.hyps(2) lt by simp_all
  from Suc.hyps(1) [OF this(1) s2(3) this(2)] obtain s' where
    s': "store_args argv (UTEMP + of_nat A) [Suc i..<?n] (UTEMP + of_nat (?o (Suc i))) s2 = Some (UTEMP + PGSIZE, s')"
      "wrote pp s2 s'" "fillable s0 d pp s'"
    and h: "\<And>m. Suc i \<le> m \<Longrightarrow> m < ?n \<Longrightarrow> has s' pp (A + 4 * m) (word_bytes (ustk (?o m))) \<and> has s' pp (?o m) (args ! m @ [0])"
    and k: "\<And>j. (j < A + 4 * Suc i \<or> A + 4 * ?n \<le> j) \<and> j < ?o (Suc i) \<Longrightarrow> frame_byte s' pp j = frame_byte s2 pp j" by blast
  obtain p where p: "uread32 (argv + 4 * of_nat i) s1 = Some p" "ustr p s1 = Some (args ! i)"
    using args_at_nth [OF a fillable_keep [OF s1(3)] lt] by blast
  obtain q where q: "uread32 (argv + 4 * of_nat i) s2 = Some q" "ustr q s2 = Some (args ! i)"
    using args_at_nth [OF a fillable_keep [OF s2(3)] lt] by blast
  have ad: "UTEMP + of_nat A + 4 * of_nat i = UTEMP + of_nat (A + 4 * i)" by simp
  have nx: "UTEMP + of_nat (?o i) + (of_nat (length (args ! i)) + 1) = UTEMP + of_nat (?o (Suc i))"
    by (simp add: o1 add.assoc)
  have run: "store_args argv (UTEMP + of_nat A) [i..<?n] (UTEMP + of_nat (?o i)) s = Some (UTEMP + PGSIZE, s')"
    unfolding upt_conv_Cons [OF lt] store_args.simps ad
    using s1(1) p s2(1) q s'(1) by (simp only: uwrite32_def UTEMP2USTACK_off bind.bind_lunit nx)
  have wi: "has s' pp (A + 4 * i) (word_bytes (ustk (?o i)))"
    by (rule has_other [OF s1(4)]) (use k s2(5) o0 o1 A lt in auto)
  have si: "has s' pp (?o i) ?st"
    by (rule has_other [OF s2(4)]) (use k o0 o1 A lt in auto)
  have "has s' pp (A + 4 * m) (word_bytes (ustk (?o m))) \<and> has s' pp (?o m) (args ! m @ [0])"
    if "i \<le> m" "m < ?n" for m
    using h [of m] wi si that by (cases "m = i") auto
  moreover have "frame_byte s' pp j = frame_byte s pp j" if "j < A + 4 * i \<or> A + 4 * ?n \<le> j" "j < ?o i" for j
    using k [of j] s2(5) [of j] s1(5) [of j] that o1 lt by auto
  ultimately show ?case using run wrote_trans [OF wrote_trans [OF s1(2) s2(2)] s'(2)] s'(3) by blast
qed

text \<open>The whole page, with the vector at offset \<open>A\<close>.\<close>

definition stack_page :: "kstate \<Rightarrow> nat \<Rightarrow> nat \<Rightarrow> u8 list list \<Rightarrow> bool" where
  "stack_page s pp A args \<longleftrightarrow> has s pp (A - 8) (word_bytes (of_nat (length args))) \<and> has s pp (A - 4) (word_bytes (ustk A))
     \<and> (\<forall>m<length args. has s pp (A + 4 * m) (word_bytes (ustk (str_off args m))) \<and> has s pp (str_off args m) (args ! m @ [0]))
     \<and> has s pp (A + 4 * length args) (word_bytes 0)"

lemma fill_stack_ok:
  assumes f: "fillable s0 d pp s" and a: "args_at argv args s0" and L: "str_size args \<le> 4096"
    and A: "A + 4 * (length args + 1) \<le> 4096 - str_size args" "8 \<le> A"
  shows "\<exists>s'. fill_stack argv (UTEMP + of_nat A) (length args) (UTEMP + of_nat (4096 - str_size args)) s = Some (ustk (A - 8), s')
    \<and> wrote pp s s' \<and> fillable s0 d pp s' \<and> stack_page s' pp A args"
proof -
  let ?n = "length args" and ?o = "str_off args"
  have o: "?o 0 = 4096 - str_size args" "\<And>m. ?o 0 \<le> ?o m" by (simp_all add: str_off_def)
  from store_args_ok [OF f a L A(1), of 0] obtain s1 where
    s1: "store_args argv (UTEMP + of_nat A) [0..<?n] (UTEMP + of_nat (?o 0)) s = Some (UTEMP + PGSIZE, s1)"
      "wrote pp s s1" "fillable s0 d pp s1"
    and h1: "\<And>m. m < ?n \<Longrightarrow> has s1 pp (A + 4 * m) (word_bytes (ustk (?o m))) \<and> has s1 pp (?o m) (args ! m @ [0])"
    by blast
  have "A + 4 * ?n + length (word_bytes 0) \<le> 4096" using A by simp
  from uwrite_page [OF s1(3) this] obtain s2 where
    s2: "uwrite_bytes (UTEMP + of_nat (A + 4 * ?n)) (word_bytes 0) s1 = Some s2" "wrote pp s1 s2" "fillable s0 d pp s2"
      "has s2 pp (A + 4 * ?n) (word_bytes 0)"
      "\<And>j. j < A + 4 * ?n \<or> A + 4 * ?n + 4 \<le> j \<Longrightarrow> frame_byte s2 pp j = frame_byte s1 pp j" by auto
  have "A - 4 + length (word_bytes (ustk A)) \<le> 4096" using A by simp
  from uwrite_page [OF s2(3) this] obtain s3 where
    s3: "uwrite_bytes (UTEMP + of_nat (A - 4)) (word_bytes (ustk A)) s2 = Some s3" "wrote pp s2 s3" "fillable s0 d pp s3"
      "has s3 pp (A - 4) (word_bytes (ustk A))"
      "\<And>j. j < A - 4 \<or> A - 4 + 4 \<le> j \<Longrightarrow> frame_byte s3 pp j = frame_byte s2 pp j" by auto
  have "A - 8 + length (word_bytes (of_nat ?n)) \<le> 4096" using A by simp
  from uwrite_page [OF s3(3) this] obtain s4 where
    s4: "uwrite_bytes (UTEMP + of_nat (A - 8)) (word_bytes (of_nat ?n)) s3 = Some s4" "wrote pp s3 s4" "fillable s0 d pp s4"
      "has s4 pp (A - 8) (word_bytes (of_nat ?n))"
      "\<And>j. j < A - 8 \<or> A - 8 + 4 \<le> j \<Longrightarrow> frame_byte s4 pp j = frame_byte s3 pp j" by auto
  have ad: "UTEMP + of_nat A + 4 * of_nat ?n = UTEMP + of_nat (A + 4 * ?n)"
    "UTEMP + of_nat A - 4 = UTEMP + of_nat (A - 4)" "UTEMP + of_nat A - 8 = UTEMP + of_nat (A - 8)"
    using A(2) by (simp_all add: of_nat_diff)
  have run: "fill_stack argv (UTEMP + of_nat A) ?n (UTEMP + of_nat (4096 - str_size args)) s = Some (ustk (A - 8), s4)"
    unfolding fill_stack_def ad
    using s1(1) s2(1) s3(1) s4(1) by (simp add: uwrite32_def UTEMP2USTACK_off o(1))
  have hi: "frame_byte s4 pp j = frame_byte s2 pp j" if "A \<le> j" for j
  proof -
    have "A - 4 + 4 \<le> j" "A - 8 + 4 \<le> j" using A(2) that by linarith+
    then show ?thesis using s3(5) [of j] s4(5) [of j] by simp
  qed
  then have e: "frame_byte s4 pp j = frame_byte s1 pp j" if "A \<le> j" "j < A + 4 * ?n \<or> A + 4 * ?n + 4 \<le> j" for j
    using s2(5) [of j] that by simp
  have "has s4 pp (A + 4 * m) (word_bytes (ustk (?o m)))" if "m < ?n" for m
    by (rule has_other [of s1]) (use h1 [OF that] e that in auto)
  moreover have "has s4 pp (?o m) (args ! m @ [0])" if "m < ?n" for m
    by (rule has_other [of s1]) (use h1 [OF that] e o(2) [of m] o(1) A in auto)
  moreover have "has s4 pp (A + 4 * ?n) (word_bytes 0)"
    by (rule has_other [OF s2(4)]) (use hi in auto)
  moreover have "has s4 pp (A - 4) (word_bytes (ustk A))"
    by (rule has_other [OF s3(4)]) (use s4(5) A in auto)
  ultimately show ?thesis
    using run s4(3,4) wrote_trans [OF wrote_trans [OF wrote_trans [OF s1(2) s2(2)] s3(2)] s4(2)]
    unfolding stack_page_def by blast
qed

section \<open>The page as the child reads it\<close>

definition child_view :: "nat \<Rightarrow> kstate \<Rightarrow> kstate" where
  "child_view d s = s\<lparr>cr3 := page2pa d\<rparr>"

definition STACK_PAGE :: u32 where "STACK_PAGE = USTACKTOP - PGSIZE"

lemma STACK_PAGE_ok: "\<not> bad_va STACK_PAGE" "unat STACK_PAGE = 0xEEBFD000" "unat (PGOFF STACK_PAGE) = 0"
  by (simp_all add: STACK_PAGE_def bad_va_def layout PGOFF_unat)

lemma ustk_eq: "ustk k = STACK_PAGE + of_nat k"
  by (simp add: ustk_def STACK_PAGE_def)

lemma unat_ustk: "k < 8192 \<Longrightarrow> unat (ustk k) = 0xEEBFD000 + k"
  unfolding ustk_eq by (simp add: unat_word_ariths STACK_PAGE_ok unsigned_of_nat take_bit_nat_eq_self)

lemma view_walk:
  assumes "user_tables s d" "d < 2 ^ 20" "leafmap s (slot d STACK_PAGE) = Some pp"
    "leafpte s (slot d STACK_PAGE) AND PTE_U \<noteq> 0" "k < 4096"
  shows "user_walk False (ustk k) (child_view d s) = Some pp"
proof -
  have "ptmap (child_view d s) = ptmap s" "leafpte (child_view d s) = leafpte s" "leafmap (child_view d s) = leafmap s"
    "user_tables (child_view d s) d = user_tables s d"
    by (auto simp: fun_eq_iff child_view_def ptmap_def leafpte_def leafmap_def user_tables_def split: option.splits)
  moreover have "unat (PPN (page2pa d)) = d" using unat_PPN_page2pa [OF assms(2)] .
  ultimately have "user_walk False STACK_PAGE (child_view d s) = Some pp"
    by (intro user_walk_dir [of _ d]) (use assms STACK_PAGE_ok(1) good_va_lt in \<open>auto simp: child_view_def\<close>)
  then show ?thesis
    using user_walk_add [of STACK_PAGE k] STACK_PAGE_ok(3) assms(5) by (simp add: ustk_eq)
qed

lemma view_has:
  assumes w: "\<And>k. k < 4096 \<Longrightarrow> user_walk False (ustk k) (child_view d s) = Some pp"
    and h: "has s pp k bs" "k + length bs \<le> 4096" "x < length bs"
  shows "uread8 (ustk k + of_nat x) (child_view d s) = Some (bs ! x)"
proof -
  have lt: "k + x < 4096" using h by simp
  have e: "ustk k + of_nat x = ustk (k + x)" by (simp add: ustk_def)
  have "unat (PGOFF (ustk (k + x))) = k + x"
    using page_add(1) [of STACK_PAGE "k + x"] STACK_PAGE_ok(3) lt by (simp add: ustk_eq)
  then show ?thesis
    using w [OF lt] h(1,3) unfolding e uread8_walk by (simp add: has_def frame_byte_def child_view_def)
qed

lemma view_word:
  assumes w: "\<And>k. k < 4096 \<Longrightarrow> user_walk False (ustk k) (child_view d s) = Some pp"
    and h: "has s pp k (word_bytes v)" "k < 4096" "k mod 4 = 0"
  shows "uread32 (ustk k) (child_view d s) = Some v"
proof -
  have "unat (PGOFF (ustk k)) = k"
    using page_add(1) [of STACK_PAGE k] STACK_PAGE_ok(3) h(2) by (simp add: ustk_eq)
  moreover have "unat (ustk k) mod 4 = 0" using h by (simp add: unat_ustk mod_add_right_eq [symmetric])
  ultimately show ?thesis
    using w [OF h(2)] h(1,3) has_word [of k s pp v] by (simp add: uread32_walk child_view_def)
qed

lemma child_args:
  assumes w: "\<And>k. k < 4096 \<Longrightarrow> user_walk False (ustk k) (child_view d s) = Some pp"
    and p: "stack_page s pp A args" and L: "str_size args \<le> 4096" "\<And>cs. cs \<in> set args \<Longrightarrow> 0 \<notin> set cs"
    and A: "A + 4 * (length args + 1) \<le> 4096 - str_size args" "8 \<le> A" "A mod 4 = 0"
  shows "uread32 (ustk (A - 8)) (child_view d s) = Some (of_nat (length args))"
    "uread32 (ustk (A - 4)) (child_view d s) = Some (ustk A)" "args_at (ustk A) args (child_view d s)"
proof -
  have m: "(A - 8) mod 4 = 0" "(A - 4) mod 4 = 0" "(A + 4 * i) mod 4 = 0" for i using A(2,3) by presburger+
  show "uread32 (ustk (A - 8)) (child_view d s) = Some (of_nat (length args))"
    "uread32 (ustk (A - 4)) (child_view d s) = Some (ustk A)"
    by (rule view_word [OF w]; use p m A in \<open>simp add: stack_page_def\<close>)+
  have ad: "ustk A + 4 * of_nat i = ustk (A + 4 * i)" for i by (simp add: ustk_def)
  have "\<exists>q. uread32 (ustk A + 4 * of_nat i) (child_view d s) = Some q \<and> q \<noteq> 0 \<and> str_at q (args ! i) (child_view d s)"
    if i: "i < length args" for i
  proof (intro exI conjI)
    let ?o = "str_off args i" and ?st = "args ! i @ [0]"
    have o: "?o + length ?st \<le> 4096"
      using str_off_mono [of "Suc i" "length args" args] str_off_end [OF L(1)] i
      by (simp add: str_off_def str_size_take)
    show "uread32 (ustk A + 4 * of_nat i) (child_view d s) = Some (ustk ?o)"
      unfolding ad by (rule view_word [OF w]) (use p m A i in \<open>auto simp: stack_page_def\<close>)
    have u: "unat (ustk ?o) = 0xEEBFD000 + ?o" using o by (simp add: unat_ustk)
    then show "ustk ?o \<noteq> 0" by auto
    have h: "has s pp ?o ?st" using p i by (simp add: stack_page_def)
    show "str_at (ustk ?o) (args ! i) (child_view d s)"
      unfolding str_at_def using view_has [OF w h o] L(2) [OF nth_mem [OF i]] u o by (simp add: layout)
  qed
  moreover have "uread32 (ustk A + 4 * of_nat (length args)) (child_view d s) = Some 0"
    unfolding ad by (rule view_word [OF w]) (use p m A in \<open>auto simp: stack_page_def\<close>)
  moreover have "unat (ustk A) = 0xEEBFD000 + A" using A by (simp add: unat_ustk)
  ultimately show "args_at (ustk A) args (child_view d s)"
    using A by (auto simp: args_at_def layout)
qed

section \<open>init_stack\<close>

definition stack_fits :: "u8 list list \<Rightarrow> bool" where
  "stack_fits args \<longleftrightarrow> str_size args \<le> 4096 \<and> length args + 3 \<le> (4096 - str_size args) div 4"

definition argv_off :: "u8 list list \<Rightarrow> nat" where
  "argv_off args = 4 * ((4096 - str_size args) div 4) - 4 * (length args + 1)"

lemma argv_off_ok:
  assumes "stack_fits args"
  shows "str_size args \<le> 4096" "argv_off args + 4 * (length args + 1) \<le> 4096 - str_size args"
    "8 \<le> argv_off args" "argv_off args mod 4 = 0"
proof -
  let ?q = "(4096 - str_size args) div 4"
  have q: "length args + 3 \<le> ?q" "4 * ?q \<le> 4096 - str_size args" using assms by (simp_all add: stack_fits_def)
  have gen: "4 * q - 4 * (n + 1) + 4 * (n + 1) \<le> m \<and> 8 \<le> 4 * q - 4 * (n + 1)"
    if "n + 3 \<le> q" "4 * q \<le> m" for n q m :: nat
    using that by auto
  show "str_size args \<le> 4096" using assms by (simp add: stack_fits_def)
  show "argv_off args + 4 * (length args + 1) \<le> 4096 - str_size args" "8 \<le> argv_off args"
    using gen [OF q] unfolding argv_off_def by blast+
  have "(4 * a - 4 * b) mod 4 = 0" for a b :: nat by (metis diff_mult_distrib2 mod_mult_self1_is_0)
  then show "argv_off args mod 4 = 0" unfolding argv_off_def .
qed

text \<open>The addresses that init_stack computes from what it has counted.\<close>

lemma init_addrs:
  assumes fits: "stack_fits args" and ss_def: "ss = UTEMP + PGSIZE - of_nat (str_size args)"
  shows "ss = UTEMP + of_nat (4096 - str_size args)"
    "ROUNDDOWN ss 4 - 4 * (of_nat (length args) + 1) = UTEMP + of_nat (argv_off args)"
    "\<not> ROUNDDOWN ss 4 - 4 * (of_nat (length args) + 1) - 8 < UTEMP"
proof -
  let ?m = "4096 - str_size args" and ?n = "length args"
  note A = argv_off_ok [OF fits]
  show ss: "ss = UTEMP + of_nat ?m" using A(1) by (simp add: ss_def of_nat_diff layout)
  have u: "unat (UTEMP + of_nat k) = 0x400000 + k" if "k \<le> 4096" for k
    using that by (simp add: UTEMP_def layout unat_word_ariths unsigned_of_nat take_bit_nat_eq_self)
  have "unat (ROUNDDOWN ss 4) = unat (UTEMP + of_nat (4 * (?m div 4)))"
  proof -
    have m: "?m \<le> 4096" "4 * (?m div 4) \<le> 4096" by simp_all
    have "0x400000 + m - (0x400000 + m) mod 4 = 0x400000 + 4 * (m div 4)" for m :: nat by presburger
    moreover have "unat (4 :: u32) = 4" by simp
    ultimately show ?thesis unfolding ss unat_ROUNDDOWN u [OF m(1)] u [OF m(2)] by simp
  qed
  then have r: "ROUNDDOWN ss 4 = UTEMP + of_nat (4 * (?m div 4))" by (simp only: word_unat_eq_iff)
  have "4 * (?m div 4) = argv_off args + 4 * (?n + 1)"
    using A(3) unfolding argv_off_def by linarith
  then have "of_nat (4 * (?m div 4)) = (of_nat (argv_off args) + 4 * (of_nat ?n + 1) :: u32)"
    by (metis of_nat_1 of_nat_add of_nat_mult of_nat_numeral)
  then show a: "ROUNDDOWN ss 4 - 4 * (of_nat ?n + 1) = UTEMP + of_nat (argv_off args)"
    unfolding r by simp
  have "UTEMP + of_nat (argv_off args) - 8 = UTEMP + of_nat (argv_off args - 8)" using A(3) by (simp add: of_nat_diff)
  moreover have "unat (UTEMP + of_nat (argv_off args - 8)) \<ge> unat UTEMP"
    using u [of "argv_off args - 8"] A(2) by (simp add: UTEMP_def layout)
  ultimately show "\<not> ROUNDDOWN ss 4 - 4 * (of_nat ?n + 1) - 8 < UTEMP"
    unfolding a word_less_nat_alt by (simp only: not_less)
qed

text \<open>The permissions are those of the fault handler's pages.\<close>

lemma PTE_UWP_eq: "PTE_UWP = PTE_RW"
  by (simp add: PTE_UWP_def PTE_RW_def pte_flags)

lemma fillable_start:
  assumes inv: "mm_inv s D K (pp # fl)" and run: "running s D d" and tmp: "leafmap s (slot d UTEMP) = None"
    and inv1: "mm_inv s1 D K fl1" and u: "uframe D s s1"
    and l: "\<forall>y \<in> leafslots D. leafpte s1 y = ((leafpte s)(slot d UTEMP := mkpte pp PTE_RW)) y"
    and m: "\<And>f. no_table s D f \<Longrightarrow> f \<notin> set (pp # fl) \<Longrightarrow> mem s1 f = mem s f"
  shows "fillable s d pp s1" "leafmap s1 (slot d UTEMP) = Some pp"
proof -
  note run1 = running_uframe [OF run u]
  have d: "d \<in> D" "self_map s d" "self_map s1 d" using run run1 by (simp_all add: running_def)
  have cr: "unat (PPN (cr3 s)) = d" "unat (PPN (cr3 s1)) = d" using d by (simp_all add: self_map_def)
  note sl = slot_in(1) [OF d(1) UTEMP_off(2)]
  have pn: "pp < 2 ^ 20" using mm_inv_free(1) [OF inv, of pp] mm_invD(4) [OF inv] by auto
  have e: "leafpte s1 (slot d UTEMP) = mkpte pp PTE_RW" using l sl by simp
  then show m1: "leafmap s1 (slot d UTEMP) = Some pp" using pn PTE_RW_ok(2) by (simp add: leafmap_def)
  note bits = mkpte_user [of pp, folded PTE_RW_def]
  have dat: "data_page s1 D fl1 pp" by (rule mapped_data [OF inv1 sl m1])
  have "user_walk False a s1 = Some f \<and> mem s1 f = mem s f \<and> f \<noteq> pp"
    if a: "a < UTOP" "user_walk False a s = Some f" for a f
  proof -
    note w = user_walk_mapped [OF cr(1) a(2)]
    have y: "slot d a \<in> leafslots D" by (rule slot_in(1) [OF d(1) a(1)])
    have "slot d a \<noteq> slot d UTEMP" using w(1) tmp by auto
    then have "leafpte s1 (slot d a) = leafpte s (slot d a)" using l y by simp
    then have "user_walk False a s1 = Some f"
      using user_walk_leaf [OF run1 a(1), of f False] w by (simp add: leafmap_def)
    moreover have "data_page s D (pp # fl) f" by (rule mapped_data [OF inv y w(1)])
    ultimately show ?thesis using m [OF no_table_data [OF inv]] by (simp add: data_page_def)
  qed
  moreover have "user_walk True UTEMP s1 = Some pp"
    using user_walk_leaf [OF run1 UTEMP_off(2) m1] e bits by simp
  moreover have "ptmap s1 (d, i) \<noteq> Some pp" if "i < UPDX" for i
    using no_table_data [OF inv1 dat] d(1) that by (auto simp: no_table_def ptslots_def)
  ultimately show "fillable s d pp s1"
    using cr(2) dat d(1) by (auto simp: fillable_def ukeep_def data_page_def)
qed

lemma insert_free_unmapped:
  assumes "leafmap s (slot d va) = None"
  shows "set (insert_free s d va pp fl) \<subseteq> set fl" "length fl \<le> length (insert_free s d va pp fl) + 1"
  using assms list.set_sel(2) [of fl] by (cases fl; auto simp: insert_free_def)+

lemma UTEMP_ok: "\<not> bad_va UTEMP"
  by (simp add: bad_va_def UTEMP_def layout)

text \<open>A new page at UTEMP.\<close>

lemma utemp_alloc_ok:
  assumes inv: "mm_inv s D K (pp # fl)" and fl: "fl \<noteq> []" and run: "running s D d" and tmp: "leafmap s (slot d UTEMP) = None"
  shows "\<exists>s1 fl1. (\<forall>hw. u_page_alloc hw 0 UTEMP PTE_RW s = Some (Ret 0 s1)) \<and> mm_inv s1 D K fl1
    \<and> set fl1 \<subseteq> set fl \<and> length fl \<le> length fl1 + 1 \<and> unat (pp_ref s1 pp) \<le> 1 \<and> mem s1 pp = (\<lambda>_. 0) \<and> uframe D s s1
    \<and> (\<forall>y \<in> leafslots D. leafpte s1 y = ((leafpte s)(slot d UTEMP := mkpte pp PTE_RW)) y)
    \<and> (\<forall>f. data_page s D (pp # fl) f \<longrightarrow> mem s1 f = mem s f \<and> no_table s1 D f)
    \<and> fillable s d pp s1 \<and> leafmap s1 (slot d UTEMP) = Some pp"
proof -
  have "ptmap s (d, unat (PDX UTEMP)) \<noteq> None \<or> fl \<noteq> []" using fl by simp
  from sys_page_alloc_ok [OF inv running_proc [OF run] UTEMP_ok PTE_RW_ok(1) this] obtain s1 where
    s1: "sys_page_alloc 0 UTEMP PTE_RW s = Some (Inr (), s1)" "mm_inv s1 D K (insert_free s d UTEMP pp fl)"
      "mem s1 pp = (\<lambda>_. 0)" "unat (pp_ref s1 pp) \<le> 1" "uframe D s s1"
      "\<forall>y \<in> leafslots D. leafpte s1 y = ((leafpte s)(slot d UTEMP := mkpte pp PTE_RW)) y"
    and k1: "\<And>f. no_table s D f \<Longrightarrow> f \<notin> set (pp # fl) \<Longrightarrow> mem s1 f = mem s f \<and> no_table s1 D f" by blast
  note f1 = fillable_start [OF inv run tmp s1(2,5,6)]
  have "mem s1 f = mem s f \<and> no_table s1 D f" if "data_page s D (pp # fl) f" for f
    using k1 [OF no_table_data [OF inv that]] that by (simp add: data_page_def)
  then show ?thesis
    using s1 f1 k1 u_page_alloc_ok [OF s1(1)] insert_free_unmapped [OF tmp, where pp = pp and fl = fl]
    by (intro exI [of _ s1] exI [of _ "insert_free s d UTEMP pp fl"]) simp
qed

text \<open>The page is filled and moves to the child.\<close>

lemma utemp_give_ok:
  assumes inv1: "mm_inv s1 D K fl1" and run1: "running s1 D d" and child: "proc s1 D child d2" and ne: "d2 \<noteq> d"
    and m1: "leafmap s1 (slot d UTEMP) = Some pp" "leafpte s1 (slot d UTEMP) = mkpte pp PTE_RW" "unat (pp_ref s1 pp) \<le> 1"
    and w: "wrote pp s1 s" and va: "\<not> bad_va va" "\<not> bad_perm perm"
    and room: "ptmap s1 (d2, unat (PDX va)) \<noteq> None \<or> fl1 \<noteq> []"
  shows "\<exists>s3 s4 fl4. (\<forall>hw. u_page_map hw 0 UTEMP child va perm s = Some (Ret 0 s3)
      \<and> u_page_unmap hw 0 UTEMP s3 = Some (Ret 0 s4)) \<and> mm_inv s4 D K fl4 \<and> length fl1 \<le> length fl4 + 1 \<and> uframe D s1 s4
    \<and> (\<forall>y \<in> leafslots D. leafpte s4 y = ((leafpte s1)(slot d UTEMP := 0, slot d2 va := mkpte pp perm)) y)
    \<and> (\<forall>f. no_table s1 D f \<and> f \<notin> set fl1 \<longrightarrow> mem s4 f = mem s f) \<and> data_page s1 D fl1 pp"
proof -
  have d: "d \<in> D" "d2 \<in> D" using run1 child by (simp_all add: running_def proc_def)
  note lt = good_va_lt [OF UTEMP_ok] good_va_lt [OF va(1)]
  note sl = slot_in(1) [OF d(1) lt(1)] slot_in(1) [OF d(2) lt(2)] and bits = mkpte_user [of pp, folded PTE_RW_def]
  have nt: "slot d UTEMP \<noteq> slot d2 va" using ne by (simp add: slot_def)
  \<comment> \<open>the write\<close>
  have dat: "data_page s1 D fl1 pp" by (rule mapped_data [OF inv1 sl(1) m1(1)])
  note W = wroteD [OF w]
  have pD: "pp \<notin> D" "nrefs (ptmap s1) (ptslots D) pp = 0" using dat by (simp_all add: data_page_def)
  have "\<forall>f. f \<noteq> pp \<longrightarrow> mem s f = mem s1 f" using W(1) by blast
  note w2 = mm_data_write [OF inv1 pD this W(2-4)]
  have u2: "uframe D s1 s" by (rule uframe_mem [OF W(6) W(1)]) (use pD in auto)
  have tmp: "leafmap s (slot d UTEMP) = Some pp" "leafpte s (slot d UTEMP) = mkpte pp PTE_RW"
    using m1 w2(2) sl by (simp_all add: leafmap_def)
  have nt2: "no_table s D f" if "no_table s1 D f" for f using that w2(3) by (simp add: no_table_def)
  have room2: "ptmap s (d2, unat (PDX va)) \<noteq> None \<or> fl1 \<noteq> []"
    using room w2(3) slots_sub [of d2 "unat (PDX va)" "unat (PTX va)"] sl(2) by (simp add: slot_def)
  note run = running_uframe [OF run1 u2] and ch = proc_uframe [OF child u2]
  \<comment> \<open>the two calls\<close>
  from sys_page_map_ok [OF w2(1) running_proc [OF run] ch UTEMP_ok va tmp(1) _ _ room2] tmp(2) bits m1(3) W(3) obtain s3 fl3 where
    s3: "sys_page_map 0 UTEMP child va perm s = Some (Inr (), s3)" "mm_inv s3 D K fl3" "fl3 = insert_free s d2 va pp fl1"
      "\<forall>y \<in> leafslots D. leafpte s3 y = ((leafpte s)(slot d2 va := mkpte pp perm)) y"
      "page_insert d2 pp va perm s = Some (Inr (), s3)" "uframe D s s3" by auto
  note s3 = s3(1,2,4-6,3)
  have k3: "mem s3 f = mem s f \<and> no_table s3 D f" if "no_table s D f" "f \<notin> set fl1" for f
    using insert_keep [OF w2(1) d(2) lt(2) s3(4) that(1)] that(2) by blast
  have m3: "leafmap s3 (slot d UTEMP) = Some pp" using s3(3) sl(1) nt tmp(1) by (simp add: leafmap_def)
  from sys_page_unmap_ok [OF s3(2) running_proc [OF running_uframe [OF run s3(5)]] UTEMP_ok m3] obtain s4 fl4 where
    s4: "sys_page_unmap 0 UTEMP s3 = Some (Inr (), s4)" "uframe D s3 s4" "mm_inv s4 D K fl4" "fl4 = (if unat (pp_ref s3 pp) = 1 then pp # fl3 else fl3)"
      "\<forall>y \<in> leafslots D. leafpte s4 y = ((leafpte s3)(slot d UTEMP := 0)) y"
    and k4: "\<And>f. no_table s3 D f \<Longrightarrow> mem s4 f = mem s3 f" by blast
  have "\<forall>y \<in> leafslots D. leafpte s4 y = ((leafpte s1)(slot d UTEMP := 0, slot d2 va := mkpte pp perm)) y"
    using s4(5) s3(3) w2(2) nt by auto
  moreover have "length fl1 \<le> length fl4 + 1"
    using insert_free_length [of fl1 s d2 va pp] s3(6) s4(4) by (auto split: if_splits)
  moreover have "mem s4 f = mem s f" if "no_table s1 D f" "f \<notin> set fl1" for f
    using k3 [OF nt2 [OF that(1)] that(2)] k4 by simp
  moreover have "uframe D s1 s4" using uframe_trans [OF uframe_trans [OF u2 s3(5)] s4(2)] .
  ultimately show ?thesis using s4(3) dat u_page_map_ok [OF s3(1)] u_page_unmap_ok [OF s4(1)] by blast
qed

lemma init_stack_ok:
  assumes inv: "mm_inv s D K fl" and len: "3 \<le> length fl" and run: "running s D d" and child: "proc s D child d2" and ne: "d2 \<noteq> d"
    and ut: "user_tables s d2" and tmp: "leafmap s (slot d UTEMP) = None"
    and args: "args_at argv args s" and fits: "stack_fits args" and esp: "esp = ustk (argv_off args - 8)"
  shows "\<exists>s' fl' pp. init_stack hw child argv s = Some (Ret (0, Some esp) s') \<and> mm_inv s' D K fl' \<and> uframe D s s'
    \<and> (\<forall>y \<in> leafslots D. leafpte s' y = ((leafpte s)(slot d UTEMP := 0, slot d2 STACK_PAGE := mkpte pp PTE_RW)) y)
    \<and> (\<forall>f. data_page s D fl f \<longrightarrow> mem s' f = mem s f)
    \<and> uread32 esp (child_view d2 s') = Some (of_nat (length args)) \<and> uread32 (esp + 4) (child_view d2 s') = Some (esp + 8)
    \<and> args_at (esp + 8) args (child_view d2 s')"
proof -
  note A = argv_off_ok [OF fits]
  obtain pp fl0 where fl: "fl = pp # fl0" using len by (cases fl) auto
  then have len0: "2 \<le> length fl0" "fl0 \<noteq> []" using len by auto
  note inv0 = inv [unfolded fl]
  have d: "d2 \<in> D" using child by (simp add: proc_def)
  note sl = slot_in(1) [OF d good_va_lt [OF STACK_PAGE_ok(1)]] slot_in(1) [OF _ UTEMP_off(2), of d D]
  from utemp_alloc_ok [OF inv0 len0(2) run tmp] obtain s1 fl1 where
    s1: "\<And>hw. u_page_alloc hw 0 UTEMP PTE_RW s = Some (Ret 0 s1)" "mm_inv s1 D K fl1"
      "set fl1 \<subseteq> set fl0" "length fl0 \<le> length fl1 + 1" "unat (pp_ref s1 pp) \<le> 1" "uframe D s s1"
      "\<forall>y \<in> leafslots D. leafpte s1 y = ((leafpte s)(slot d UTEMP := mkpte pp PTE_RW)) y"
      "fillable s d pp s1" "leafmap s1 (slot d UTEMP) = Some pp"
    and k1: "\<And>f. data_page s D fl f \<Longrightarrow> mem s1 f = mem s f \<and> no_table s1 D f" unfolding fl by blast
  from fill_stack_ok [OF s1(8) args A(1-3)] obtain s2 where
    s2: "fill_stack argv (UTEMP + of_nat (argv_off args)) (length args) (UTEMP + of_nat (4096 - str_size args)) s1
        = Some (esp, s2)" "wrote pp s1 s2" "stack_page s2 pp (argv_off args) args" unfolding esp by blast
  have e1: "leafpte s1 (slot d UTEMP) = mkpte pp PTE_RW" using s1(7) sl(2) run by (simp add: running_def)
  have room: "ptmap s1 (d2, unat (PDX STACK_PAGE)) \<noteq> None \<or> fl1 \<noteq> []" using s1(4) len0 by auto
  from utemp_give_ok [OF s1(2) running_uframe [OF run s1(6)] proc_uframe [OF child s1(6)] ne s1(9) e1 s1(5) s2(2)
      STACK_PAGE_ok(1) PTE_RW_ok(1) room] obtain s3 s4 fl4 where
    s4: "\<And>hw. u_page_map hw 0 UTEMP child STACK_PAGE PTE_RW s2 = Some (Ret 0 s3) \<and> u_page_unmap hw 0 UTEMP s3 = Some (Ret 0 s4)"
      "mm_inv s4 D K fl4" "uframe D s1 s4"
      "\<forall>y \<in> leafslots D. leafpte s4 y = ((leafpte s1)(slot d UTEMP := 0, slot d2 STACK_PAGE := mkpte pp PTE_RW)) y"
      "data_page s1 D fl1 pp"
    and k4: "\<And>f. no_table s1 D f \<Longrightarrow> f \<notin> set fl1 \<Longrightarrow> mem s4 f = mem s2 f" by blast
  define ss where "ss = UTEMP + PGSIZE - of_nat (str_size args)"
  note ia = init_addrs [OF fits ss_def]
  have c: "count_argv argv 0 0 s = Some (length args, of_nat (str_size args))"
    using count_argv_ok [OF args, of 0] by simp
  have "init_stack_end hw child esp s2 = Some (Ret (0, Some esp) s4)"
    using s4(1) unfolding init_stack_end_def PTE_UWP_eq STACK_PAGE_def [symmetric] by simp
  then have "init_stack hw child argv s = Some (Ret (0, Some esp) s4)"
    unfolding init_stack_def c option.case prod.case Let_def ss_def [symmetric] ia(2) PTE_UWP_eq
    using ia(3) [unfolded ia(2)] s1(1) s2(1) by (simp add: ia(1))
  moreover have l: "leafpte s4 y = ((leafpte s)(slot d UTEMP := 0, slot d2 STACK_PAGE := mkpte pp PTE_RW)) y" if "y \<in> leafslots D" for y
    using s4(4) s1(7) that by auto
  moreover have "mem s4 f = mem s f" if f: "data_page s D fl f" for f
  proof -
    have "f \<notin> set fl1" "f \<noteq> pp" using f fl s1(3) by (auto simp: data_page_def)
    then show ?thesis using k1 [OF f] k4 wroteD(1) [OF s2(2)] by simp
  qed
  moreover have "uread32 esp (child_view d2 s4) = Some (of_nat (length args)) \<and> uread32 (esp + 4) (child_view d2 s4) = Some (esp + 8)
    \<and> args_at (esp + 8) args (child_view d2 s4)"
  proof -
    have "mem s4 pp = mem s2 pp" using k4 [OF no_table_data [OF s1(2) s4(5)]] s4(5) by (simp add: data_page_def)
    then have st: "stack_page s4 pp (argv_off args) args" using s2(3) by (simp add: stack_page_def has_def frame_byte_def)
    have pn: "pp < 2 ^ 20" using mm_inv_free(1) [OF inv0, of pp] mm_invD(4) [OF inv] by auto
    have e: "leafpte s4 (slot d2 STACK_PAGE) = mkpte pp PTE_RW" using l [OF sl(1)] by simp
    then have lm: "leafmap s4 (slot d2 STACK_PAGE) = Some pp" using pn PTE_RW_ok(2) by (simp add: leafmap_def)
    have U: "leafpte s4 (slot d2 STACK_PAGE) AND PTE_U \<noteq> 0"
      unfolding e using mkpte_user(1) [of pp] by (simp add: PTE_RW_def)
    have ut4: "user_tables s4 d2" using uframe_trans [OF s1(6) s4(3)] ut d by (simp add: uframe_def)
    have d20: "d2 < 2 ^ 20" using mm_invD(3,4) [OF inv] d by auto
    note w = view_walk [OF ut4 d20 lm U]
    have nz: "\<And>cs. cs \<in> set args \<Longrightarrow> 0 \<notin> set cs"
      using args by (auto simp: args_at_def str_at_def in_set_conv_nth)
    have "esp + 4 = ustk (argv_off args - 4)" "esp + 8 = ustk (argv_off args)"
      unfolding esp using A(3) by (simp_all add: ustk_def of_nat_diff)
    then show ?thesis using child_args [OF w st A(1) nz A(2-4)] esp by simp
  qed
  ultimately show ?thesis using s4(2) uframe_trans [OF s1(6) s4(3)] by blast
qed

end
