(* ===== verification/Mmap_Spec.thy ===== *)
theory Mmap_Spec
  imports Spawn_Inv File_Client_Spec
begin

text \<open>
  Mapping a file (lib/mmap.c) over a page that is there already, as spawn does at UTEMP: the page
  gets the bytes of the file. How far the loops over several pages go.
\<close>

unbundle bit_operations_syntax

section \<open>The reference count\<close>

lemma vpd_leaf:
  assumes "running s D d" "leafmap s (slot d va) = Some f"
  shows "\<exists>pde. vpd (PDX va) s = Some pde \<and> pde AND PTE_P \<noteq> 0"
proof -
  obtain t where t: "ptmap s (d, unat (PDX va)) = Some t"
    using leafmap_ptmap [OF assms(2) [unfolded slot_def]] by blast
  then show ?thesis
    using vpd_ok [of s d "PDX va"] PDX_small [of va] assms(1) ent_SomeD [of "mem s d (unat (PDX va))" t]
    by (auto simp: running_def ptmap_def)
qed

lemma pageref_ok:
  assumes inv: "mm_inv s D K fl" and run: "running s D d" and va: "va < UTOP" and f: "leafmap s (slot d va) = Some f"
  shows "\<exists>r. pageref va s = Some r \<and> r \<noteq> 0"
proof -
  obtain t where t: "ptmap s (d, unat (PDX va)) = Some t"
    using leafmap_ptmap [OF f [unfolded slot_def]] by blast
  have v: "vpt (VPN va) s = Some (leafpte s (slot d va))"
    using vpt_ok [OF _ _ va t] run by (simp add: running_def)
  have e: "leafpte s (slot d va) AND PTE_P \<noteq> 0" "unat (PPN (leafpte s (slot d va))) = f"
    using f ent_SomeD [of "leafpte s (slot d va)" f] by (simp_all add: leafmap_def)
  have sl: "slot d va \<in> leafslots D" by (rule slot_in(1)) (use run va in \<open>simp_all add: running_def\<close>)
  have "0 < nrefs (leafmap s) (leafslots D) f" using mm_invD(2) [OF inv] sl f by (simp add: nrefs_pos)
  then have "0 < unat (pp_ref s f)" using mm_invD(5) [OF inv mm_invD(9) [OF inv sl f]] by (simp add: total_refs_def)
  moreover have "unat (ucast (pp_ref s f) :: u32) = unat (pp_ref s f)" 
    using unsigned_less [of "pp_ref s f", where 'a = nat] by (simp add: unsigned_ucast_eq take_bit_nat_eq_self)
  ultimately have "unat (ucast (pp_ref s f) :: u32) \<noteq> 0" by simp
  then have "(ucast (pp_ref s f) :: u32) \<noteq> 0" by (simp only: unat_eq_zero not_False_eq_True)
  then show ?thesis using vpd_leaf [OF run f] v e by (auto simp: pageref_def)
qed

section \<open>One page\<close>

lemma prot_read: "PROT_READ AND PROT_READ \<noteq> 0" "PROT_READ AND PROT_WRITE = 0" "MAP_SHARED AND MAP_ANONYMOUS = 0"
  by (simp_all add: PROT_READ_def PROT_WRITE_def MAP_SHARED_def MAP_ANONYMOUS_def)

lemma one_page:
  assumes "0 < unat len" "unat len \<le> 4096"
  shows "unat (pages_left len) = 1" "unat (pages_left (len - PGSIZE)) = 0"
proof -
  have "unat (len + 4095) = unat len + 4095" using assms by (simp add: unat_word_ariths)
  then show "unat (pages_left len) = 1" using assms unfolding unat_pages_left by simp
  have "len - PGSIZE + 4095 = len - 1" by (simp add: layout)
  moreover have "unat (len - 1) = unat len - 1" using assms(1) by (simp add: unat_sub word_le_nat_alt)
  ultimately show "unat (pages_left (len - PGSIZE)) = 0" using assms unfolding unat_pages_left by (simp only:)
qed

text \<open>
  \<open>file_page c fd i n f off len bs\<close>: \<open>bs\<close> is what the file open at \<open>fd\<close> has at \<open>off\<close>, with no hole
  in it.
\<close>

definition file_page :: "client \<Rightarrow> u32 \<Rightarrow> nat \<Rightarrow> nat \<Rightarrow> fptr \<Rightarrow> u32 \<Rightarrow> u32 \<Rightarrow> u8 list \<Rightarrow> bool" where
  "file_page c fd i n f off len bs \<longleftrightarrow> opened_fd c fd i n f
     \<and> fd_omode (fdpage (c_serv c) i) \<in> {O_RDONLY, O_RDWR} \<and> unat off \<le> 4235264
     \<and> bs = take (unat len) (drop (unat off) (file_bytes c f)) \<and> \<not> file_hole c f (unat off) (unat off + length bs)"

lemma seek_read_ok:
  assumes fp: "file_page (pg_client p) fd i n f off len bs" and len: "unat len \<le> 4096"
  shows "\<exists>p1 c2. u_seek fd off p = Some (0, p1) \<and> pg_maps p1 = pg_maps p
    \<and> read_fd fd len (pg_client p1) = Some (of_nat (length bs), bs, c2)
    \<and> opened_fd c2 fd i n f \<and> file_bytes c2 f = file_bytes (pg_client p) f
    \<and> fd_omode (fdpage (c_serv c2) i) = fd_omode (fdpage (c_serv (pg_client p)) i)
    \<and> (\<forall>a b. file_hole c2 f a b \<longrightarrow> file_hole (pg_client p) f a b)"
proof -
  let ?c = "pg_client p"
  have op: "opened_fd ?c fd i n f" using fp by (simp add: file_page_def)
  from seek_ok [OF op, of off] obtain c1 where
    c1: "seek fd off ?c = Some (0, c1)" "opened_fd c1 fd i n f" "fd_offset (fdpage (c_serv c1) i) = off"
      "s_fs (c_serv c1) = s_fs (c_serv ?c)" "fd_omode (fdpage (c_serv c1) i) = fd_omode (fdpage (c_serv ?c) i)" by blast
  have md: "fd_omode (fdpage (c_serv c1) i) AND O_ACCMODE \<noteq> O_WRONLY"
    using fp by (auto simp: file_page_def c1(5) O_RDONLY_def O_RDWR_def O_WRONLY_def O_ACCMODE_def)
  have off: "seek_pos c1 i \<le> 4235264" using fp by (simp add: file_page_def c1(3))
  have bs: "bs = take (min 4096 (unat len)) (drop (seek_pos c1 i) (file_bytes c1 f))"
    using fp len by (simp add: file_page_def c1(3,4) min_def)
  have nh: "\<not> file_hole c1 f (seek_pos c1 i) (seek_pos c1 i + length bs)"
    using fp unfolding file_page_def c1(3,4) by blast
  from read_fd_ok [OF c1(2) md off bs] nh obtain g pg where
    g: "file_ok g n f" "contents g f = file_bytes c1 f" "read_fd fd len c1 = Some (of_nat (length bs), bs, moved i (length bs) g pg c1)"
      "\<forall>a b. hole g f a b \<longrightarrow> file_hole c1 f a b" by blast
  have "opened_fd (moved i (length bs) g pg c1) fd i n f" by (rule opened_moved [OF c1(2) g(1)])
  then show ?thesis
    using c1(1,4,5) g
    by (intro exI [of _ "p\<lparr>pg_client := c1\<rparr>"] exI [of _ "moved i (length bs) g pg c1"]) (simp add: u_seek_def)
qed

lemma mmap_utemp_ok:
  assumes fil: "fillable s0 d pp s" and inv: "mm_inv s D K fl" and run: "running s D d" and m: "leafmap s (slot d UTEMP) = Some pp"
    and fp: "file_page (pg_client p) fd i n f off len bs" and len: "0 < unat len" "unat len \<le> 4096"
    and cnt: "0 \<le> mmap_cnt (pg_maps p)" "mmap_cnt (pg_maps p) < 32"
  shows "\<exists>p' s'. mmap hw UTEMP len PROT_READ MAP_SHARED fd off p s = Some (Ret (UTEMP, p') s')
    \<and> wrote pp s s' \<and> has s' pp 0 bs \<and> (\<forall>j \<ge> length bs. frame_byte s' pp j = frame_byte s pp j)
    \<and> opened_fd (pg_client p') fd i n f \<and> file_bytes (pg_client p') f = file_bytes (pg_client p) f
    \<and> fd_omode (fdpage (c_serv (pg_client p')) i) = fd_omode (fdpage (c_serv (pg_client p)) i)
    \<and> (\<forall>a b. file_hole (pg_client p') f a b \<longrightarrow> file_hole (pg_client p) f a b)
    \<and> mmap_cnt (pg_maps p') = mmap_cnt (pg_maps p) + 1"
proof -
  have op: "opened_fd (pg_client p) fd i n f" "fd_omode (fdpage (c_serv (pg_client p)) i) \<in> {O_RDONLY, O_RDWR}"
    using fp by (simp_all add: file_page_def)
  have chk: "mmap_check PROT_READ MAP_SHARED fd (pg_client p) = Some True"
    using op(2) opened_lookup(1,2) [OF op(1)] prot_read by (auto simp: mmap_check_def)
  from seek_read_ok [OF fp len(2)] obtain p1 c2 where
    p1: "u_seek fd off p = Some (0, p1)" "pg_maps p1 = pg_maps p"
      "read_fd fd len (pg_client p1) = Some (of_nat (length bs), bs, c2)"
      "opened_fd c2 fd i n f" "file_bytes c2 f = file_bytes (pg_client p) f"
      "fd_omode (fdpage (c_serv c2) i) = fd_omode (fdpage (c_serv (pg_client p)) i)"
      "\<forall>a b. file_hole c2 f a b \<longrightarrow> file_hole (pg_client p) f a b" by blast
  have lb: "length bs \<le> 4096" using fp len(2) by (simp add: file_page_def)
  then have "0 + length bs \<le> 4096" by simp
  from uwrite_page [OF fil this] obtain s' where
    s': "uwrite_bytes UTEMP bs s = Some s'" "wrote pp s s'" "has s' pp 0 bs" "\<And>j. length bs \<le> j \<Longrightarrow> frame_byte s' pp j = frame_byte s pp j"
    by auto
  obtain r where r: "pageref UTEMP s = Some r" "r \<noteq> 0" using pageref_ok [OF inv run UTEMP_off(2) m] by blast
  have mn: "MIN_size PGSIZE len = len" using len(2) by (auto simp: MIN_size_def layout word_le_nat_alt word_unat_eq_iff)
  have ng: "\<not> Ulib.neg (of_nat (length bs))" using not_neg_small [of "length bs"] lb by (simp add: Ulib.neg_def File_Client.neg_def)
  note op = one_page [OF len]
  have pl: "0 < pages_left len" "\<not> 0 + 1 < pages_left (len - PGSIZE)"
    using op by (simp_all add: word_less_nat_alt)
  have ld: "mmap_load hw (mmap_perm PROT_READ MAP_SHARED) fd 0 UTEMP len p1 s = Some (Ret (p1\<lparr>pg_client := c2\<rparr>) s')"
    using pl r ng p1(3) s'(1) mn by (subst mmap_load.simps, subst mmap_load.simps) (simp add: u_read_def)
  have nz: "UTEMP \<noteq> 0" by (simp add: UTEMP_def layout)
  have k: "nat (mmap_cnt (pg_maps p)) < 32" using cnt by simp
  have "mmap hw UTEMP len PROT_READ MAP_SHARED fd off p s
      = Some (Ret (UTEMP, the (mmap_record UTEMP MAP_SHARED fd off (p1\<lparr>pg_client := c2\<rparr>))) s')"
    using nz chk p1(1,2) ld prot_read(3) cnt k by (simp add: mmap_def mmap_record_def Let_def NMMAP_def)
  moreover have "pg_client (the (mmap_record UTEMP MAP_SHARED fd off (p1\<lparr>pg_client := c2\<rparr>))) = c2"
    "mmap_cnt (pg_maps (the (mmap_record UTEMP MAP_SHARED fd off (p1\<lparr>pg_client := c2\<rparr>)))) = mmap_cnt (pg_maps p) + 1"
    using cnt k p1(2) by (simp_all add: mmap_record_def Let_def NMMAP_def)
  ultimately show ?thesis using s'(2-4) p1(4-7) by auto
qed

section \<open>Several pages\<close>

text \<open>
  The bound of the loops shrinks with the length while the counter grows: of \<open>n\<close> pages, munmap
  writes \<open>(n + 1) div 2\<close>.
\<close>

lemma pages_left_minus:
  assumes "0 < unat (pages_left len)"
  shows "unat (pages_left (len - PGSIZE)) = unat (pages_left len) - 1"
proof -
  have l: "4096 \<le> unat (len + 4095)" using assms by (simp add: unat_pages_left div_greater_zero_iff)
  then have "4096 \<le> len + 4095" by (simp add: word_le_nat_alt)
  from unat_sub [OF this] have "unat (len + 4095 - 4096) = unat (len + 4095) - 4096" by simp
  moreover have "len - PGSIZE + 4095 = len + 4095 - 4096" by (simp add: layout)
  ultimately have "unat (len - PGSIZE + 4095) = unat (len + 4095) - 4096" by (simp only:)
  then show ?thesis using l unfolding unat_pages_left by (simp add: le_div_geq)
qed

lemma munmap_store_half:
  assumes "munmap_store fd i st len p s = Some (k, p')" and "unat i \<le> unat (pages_left len)"
  shows "unat k = unat i + (unat (pages_left len) - unat i + 1) div 2"
  using assms
proof (induction fd i st len p s arbitrary: k p' rule: munmap_store.induct)
  case (1 fd i st len p s)
  let ?n = "unat (pages_left len)"
  show ?case
  proof (cases "i < pages_left len")
    case False
    then have "k = i" using "1.prems"(1) by (subst (asm) munmap_store.simps) simp
    then show ?thesis using False "1.prems"(2) by (simp add: word_less_nat_alt)
  next
    case True
    then obtain n p1 where w: "u_write fd st (MIN_size len PGSIZE) p s = Some (n, p1)" "\<not> Ulib.neg n"
      "munmap_store fd (i + 1) (st + PGSIZE) (len - PGSIZE) p1 s = Some (k, p')"
      using "1.prems"(1) by (subst (asm) munmap_store.simps) (auto split: option.splits if_splits)
    have lt: "unat i < ?n" using True by (simp add: word_less_nat_alt)
    then have i1: "unat (i + 1) = unat i + 1"
      using unsigned_less [of "pages_left len", where 'a = nat] by (simp add: unat_word_ariths)
    have n1: "unat (pages_left (len - PGSIZE)) = ?n - 1" using lt by (intro pages_left_minus) simp
    show ?thesis
    proof (cases "unat i + 1 \<le> ?n - 1")
      case le: True
      then have "unat k = unat i + 1 + (?n - 1 - (unat i + 1) + 1) div 2"
        using "1.IH" [OF True w(1) refl w(2,3)] i1 n1 by simp
      then show ?thesis using le by presburger
    next
      case False
      then have "\<not> i + 1 < pages_left (len - PGSIZE)" using i1 n1 by (simp add: word_less_nat_alt)
      then have "k = i + 1" using w(3) by (subst (asm) munmap_store.simps) simp
      then show ?thesis using False lt i1 by presburger
    qed
  qed
qed

end
