(* ===== verification/Spawn_Seg.thy ===== *)
theory Spawn_Seg
  imports Mmap_Spec
begin

text \<open>
  The segments of a spawned program (lib/spawn.c): one page, from the file or blank, and the loop
  over the pages of a segment.
\<close>

unbundle bit_operations_syntax

section \<open>One page\<close>

text \<open>Byte \<open>k\<close> of a segment of \<open>fz\<close> bytes in the file from \<open>off\<close> on.\<close>

definition seg_byte :: "u8 list \<Rightarrow> nat \<Rightarrow> nat \<Rightarrow> nat \<Rightarrow> u8" where
  "seg_byte file off fz k = (if k < fz \<and> off + k < length file then file ! (off + k) else 0)"

text \<open>The file of the segment: open for reading, all of the segment within the file system's limit and without holes.\<close>

definition seg_file :: "prog \<Rightarrow> u32 \<Rightarrow> nat \<Rightarrow> nat \<Rightarrow> fptr \<Rightarrow> u32 \<Rightarrow> u32 \<Rightarrow> u8 list \<Rightarrow> bool" where
  "seg_file p fd i n f off fz file \<longleftrightarrow> opened_fd (pg_client p) fd i n f
     \<and> fd_omode (fdpage (c_serv (pg_client p)) i) \<in> {O_RDONLY, O_RDWR} \<and> file_bytes (pg_client p) f = file
     \<and> unat off + unat fz \<le> 4235264 \<and> \<not> file_hole (pg_client p) f (unat off) (unat off + unat fz)
     \<and> 0 \<le> mmap_cnt (pg_maps p)"

text \<open>What a step does to the address spaces: the parent keeps its own.\<close>

definition seg_step :: "kstate \<Rightarrow> kstate \<Rightarrow> nat set \<Rightarrow> nat list \<Rightarrow> nat \<Rightarrow> (nat \<times> nat \<times> nat \<Rightarrow> u32) \<Rightarrow> bool" where
  "seg_step s s' D fl d ptes \<longleftrightarrow> uframe D s s' \<and> leafmap s' (slot d UTEMP) = None
     \<and> (\<forall>y \<in> leafslots D. y \<noteq> slot d UTEMP \<longrightarrow> leafpte s' y = ptes y)
     \<and> (\<forall>h. data_page s D fl h \<longrightarrow> mem s' h = mem s h)"

lemma hole_mono: "hole g f a b \<Longrightarrow> a' \<le> a \<Longrightarrow> b \<le> b' \<Longrightarrow> hole g f a' b'"
  unfolding hole_def by (meson le_trans less_le_trans)

lemma seg_piece:
  assumes sf: "seg_file p fd k n f off fz file" and i: "i < fz" and len: "len = MIN_size PGSIZE (fz - i)"
    and bs: "bs = take (unat len) (drop (unat (off + i)) file)"
  shows "file_page (pg_client p) fd k n f (off + i) len bs" "0 < unat len" "unat len \<le> 4096"
    "x < 4096 \<Longrightarrow> seg_byte file (unat off) (unat fz) (unat i + x) = (if x < length bs then bs ! x else 0)"
proof -
  have lt: "unat i < unat fz" "unat off + unat fz \<le> 4235264" using i sf by (simp_all add: word_less_nat_alt seg_file_def)
  have fi: "unat (fz - i) = unat fz - unat i" using lt(1) by (simp add: unat_sub word_le_nat_alt)
  have oi: "unat (off + i) = unat off + unat i" using lt by (simp add: unat_word_ariths)
  have l: "unat len = min 4096 (unat fz - unat i)"
    using fi by (auto simp: len MIN_size_def layout word_le_nat_alt)
  then show "0 < unat len" "unat len \<le> 4096" using lt(1) by auto
  have lb: "length bs = min (unat len) (length file - (unat off + unat i))" by (simp add: bs oi)
  have "length bs \<le> unat fz - unat i" unfolding lb l by linarith
  then have "unat off + unat i + length bs \<le> unat off + unat fz" using lt(1) by simp
  then have "\<not> file_hole (pg_client p) f (unat off + unat i) (unat off + unat i + length bs)"
    using sf hole_mono [of _ f "unat off + unat i" "unat off + unat i + length bs" "unat off" "unat off + unat fz"]
    by (auto simp: seg_file_def)
  then show "file_page (pg_client p) fd k n f (off + i) len bs"
    using sf bs lt by (simp add: seg_file_def file_page_def oi)
  assume x: "x < 4096"
  have "unat i + x < unat fz \<and> unat off + (unat i + x) < length file \<longleftrightarrow> x < length bs"
    using x lb l lt(1) by auto
  moreover have "bs ! x = file ! (unat off + (unat i + x))" if "x < length bs"
  proof -
    have "unat off + unat i \<le> length file" "x < unat len" using that lb by linarith+
    then show ?thesis by (simp add: bs oi add.assoc)
  qed
  ultimately show "seg_byte file (unat off) (unat fz) (unat i + x) = (if x < length bs then bs ! x else 0)"
    by (simp add: seg_byte_def)
qed

lemma map_page_file:
  assumes inv: "mm_inv s D K fl" and len: "3 \<le> length fl" and run: "running s D d" and child: "proc s D child d2" and ne: "d2 \<noteq> d"
    and tmp: "leafmap s (slot d UTEMP) = None" and va: "\<not> bad_va (va + i)" "\<not> bad_perm perm"
    and sf: "seg_file p fd k n f off fz file" and i: "i < fz" and cnt: "mmap_cnt (pg_maps p) < 32"
  shows "\<exists>p' s' fl' pp. map_page hw child va fd fz off perm i p s = Some (Ret (0, p') s') \<and> mm_inv s' D K fl'
    \<and> length fl \<le> length fl' + 3 \<and> seg_step s s' D fl d ((leafpte s)(slot d2 (va + i) := mkpte pp perm))
    \<and> (\<forall>x<4096. frame_byte s' pp x = seg_byte file (unat off) (unat fz) (unat i + x))
    \<and> seg_file p' fd k n f off fz file \<and> mmap_cnt (pg_maps p') = mmap_cnt (pg_maps p) + 1 \<and> pp < 2 ^ 20"
proof -
  obtain pp fl0 where fl: "fl = pp # fl0" using len by (cases fl) auto
  have pn: "pp < 2 ^ 20" using mm_inv_free(1) [OF inv, of pp] mm_invD(4) [OF inv] fl by auto
  have len0: "2 \<le> length fl0" "fl0 \<noteq> []" using len fl by auto
  have d: "d \<in> D" using run by (simp add: running_def)
  note ut = slot_in(1) [OF d UTEMP_off(2)]
  from utemp_alloc_ok [OF inv [unfolded fl] len0(2) run tmp] obtain s1 fl1 where
    s1: "\<And>hw. u_page_alloc hw 0 UTEMP PTE_RW s = Some (Ret 0 s1)" "mm_inv s1 D K fl1"
      "set fl1 \<subseteq> set fl0" "length fl0 \<le> length fl1 + 1" "unat (pp_ref s1 pp) \<le> 1" "mem s1 pp = (\<lambda>_. 0)" "uframe D s s1"
      "\<forall>y \<in> leafslots D. leafpte s1 y = ((leafpte s)(slot d UTEMP := mkpte pp PTE_RW)) y"
      "fillable s d pp s1" "leafmap s1 (slot d UTEMP) = Some pp"
    and k1: "\<And>f. data_page s D fl f \<Longrightarrow> mem s1 f = mem s f \<and> no_table s1 D f" unfolding fl by blast
  note run1 = running_uframe [OF run s1(7)]
  define m where "m = MIN_size PGSIZE (fz - i)"
  define bs where "bs = take (unat m) (drop (unat (off + i)) file)"
  note sp = seg_piece [OF sf i m_def bs_def]
  have "0 \<le> mmap_cnt (pg_maps p)" using sf by (simp add: seg_file_def)
  from mmap_utemp_ok [OF s1(9,2) run1 s1(10) sp(1-3) this cnt, of hw] obtain p' s2 where
    s2: "mmap hw UTEMP m PROT_READ MAP_SHARED fd (off + i) p s1 = Some (Ret (UTEMP, p') s2)"
      "wrote pp s1 s2" "has s2 pp 0 bs" "\<forall>j \<ge> length bs. frame_byte s2 pp j = frame_byte s1 pp j"
    and p': "opened_fd (pg_client p') fd k n f" "file_bytes (pg_client p') f = file_bytes (pg_client p) f"
      "fd_omode (fdpage (c_serv (pg_client p')) k) = fd_omode (fdpage (c_serv (pg_client p)) k)"
      "\<forall>a b. file_hole (pg_client p') f a b \<longrightarrow> file_hole (pg_client p) f a b"
      "mmap_cnt (pg_maps p') = mmap_cnt (pg_maps p) + 1"
    by blast
  have e1: "leafpte s1 (slot d UTEMP) = mkpte pp PTE_RW" using s1(8) ut by simp
  have room: "ptmap s1 (d2, unat (PDX (va + i))) \<noteq> None \<or> fl1 \<noteq> []" using s1(4) len0 by auto
  from utemp_give_ok [OF s1(2) run1 proc_uframe [OF child s1(7)] ne s1(10) e1 s1(5) s2(2) va room] obtain s3 s4 fl4 where
    s4: "\<And>hw. u_page_map hw 0 UTEMP child (va + i) perm s2 = Some (Ret 0 s3) \<and> u_page_unmap hw 0 UTEMP s3 = Some (Ret 0 s4)"
      "mm_inv s4 D K fl4" "length fl1 \<le> length fl4 + 1" "uframe D s1 s4"
      "\<forall>y \<in> leafslots D. leafpte s4 y = ((leafpte s1)(slot d UTEMP := 0, slot d2 (va + i) := mkpte pp perm)) y"
      "data_page s1 D fl1 pp"
    and k4: "\<And>f. no_table s1 D f \<Longrightarrow> f \<notin> set fl1 \<Longrightarrow> mem s4 f = mem s2 f" by blast
  have "UTEMP \<noteq> MAP_FAILED" by (simp add: UTEMP_def layout MAP_FAILED_def)
  then have "map_page hw child va fd fz off perm i p s = Some (Ret (0, p') s4)"
    using i [unfolded not_le [symmetric]] s1(1) s2(1) s4(1) by (simp add: map_page_def PTE_UWP_eq m_def [symmetric])
  moreover have "frame_byte s4 pp x = seg_byte file (unat off) (unat fz) (unat i + x)" if "x < 4096" for x
  proof -
    have "mem s4 pp = mem s2 pp" using k4 [OF no_table_data [OF s1(2) s4(6)]] s4(6) by (simp add: data_page_def)
    then have "frame_byte s4 pp x = frame_byte s2 pp x" by (simp add: frame_byte_def)
    moreover have "frame_byte s1 pp x = 0" using s1(6) by (simp add: frame_byte_def get_byte_def)
    ultimately show ?thesis using sp(4) [OF that] s2(3,4) by (simp add: has_def)
  qed
  moreover have "seg_step s s4 D fl d ((leafpte s)(slot d2 (va + i) := mkpte pp perm))"
    unfolding seg_step_def
  proof (intro conjI ballI allI impI)
    show "uframe D s s4" by (rule uframe_trans [OF s1(7) s4(4)])
    have "slot d UTEMP \<noteq> slot d2 (va + i)" using ne by (simp add: slot_def)
    then have "leafpte s4 (slot d UTEMP) = 0" using s4(5) ut by simp
    then show "leafmap s4 (slot d UTEMP) = None" by (simp add: leafmap_def ent_def present_def)
    show "leafpte s4 y = ((leafpte s)(slot d2 (va + i) := mkpte pp perm)) y"
      if "y \<in> leafslots D" "y \<noteq> slot d UTEMP" for y using s4(5) s1(8) that by simp
    show "mem s4 h = mem s h" if h: "data_page s D fl h" for h
    proof -
      have "h \<notin> set fl1" "h \<noteq> pp" using h fl s1(3) by (auto simp: data_page_def)
      then show ?thesis using k1 [OF h] k4 wroteD(1) [OF s2(2)] by simp
    qed
  qed
  moreover have "seg_file p' fd k n f off fz file" using sf p' by (auto simp: seg_file_def)
  moreover have "length fl \<le> length fl4 + 3" using fl s1(4) s4(3) by simp
  ultimately show ?thesis using s4(2) p'(5) pn by blast
qed

lemma map_page_blank:
  assumes inv: "mm_inv s D K fl" and len: "3 \<le> length fl" and run: "running s D d" and child: "proc s D child d2" and ne: "d2 \<noteq> d"
    and tmp: "leafmap s (slot d UTEMP) = None" and va: "\<not> bad_va (va + i)" "\<not> bad_perm perm"
    and sf: "seg_file p fd k n f off fz file" and i: "\<not> i < fz"
  shows "\<exists>s' fl' pp. map_page hw child va fd fz off perm i p s = Some (Ret (0, p) s') \<and> mm_inv s' D K fl'
    \<and> length fl \<le> length fl' + 3 \<and> seg_step s s' D fl d ((leafpte s)(slot d2 (va + i) := mkpte pp perm))
    \<and> (\<forall>x<4096. frame_byte s' pp x = seg_byte file (unat off) (unat fz) (unat i + x)) \<and> pp < 2 ^ 20"
proof -
  obtain pp fl0 where fl: "fl = pp # fl0" using len by (cases fl) auto
  have pn: "pp < 2 ^ 20" using mm_inv_free(1) [OF inv, of pp] mm_invD(4) [OF inv] fl by auto
  have "ptmap s (d2, unat (PDX (va + i))) \<noteq> None \<or> fl0 \<noteq> []" using len fl by auto
  from sys_page_alloc_ok [OF inv [unfolded fl] child va this] obtain s1 where
    s1: "sys_page_alloc child (va + i) perm s = Some (Inr (), s1)" "mm_inv s1 D K (insert_free s d2 (va + i) pp fl0)"
      "mem s1 pp = (\<lambda>_. 0)" "uframe D s s1"
      "\<forall>y \<in> leafslots D. leafpte s1 y = ((leafpte s)(slot d2 (va + i) := mkpte pp perm)) y"
    and k1: "\<And>f. no_table s D f \<Longrightarrow> f \<notin> set fl \<Longrightarrow> mem s1 f = mem s f" unfolding fl by blast
  have d: "d \<in> D" using run by (simp add: running_def)
  have "slot d UTEMP \<noteq> slot d2 (va + i)" using ne by (simp add: slot_def)
  then have "leafpte s1 (slot d UTEMP) = leafpte s (slot d UTEMP)" using s1(5) slot_in(1) [OF d UTEMP_off(2)] by simp
  then have "leafmap s1 (slot d UTEMP) = None" using tmp by (simp add: leafmap_def)
  moreover have "mem s1 h = mem s h" if "data_page s D fl h" for h
    using k1 [OF no_table_data [OF inv that]] that by (simp add: data_page_def)
  ultimately have "seg_step s s1 D fl d ((leafpte s)(slot d2 (va + i) := mkpte pp perm))"
    using s1(4,5) by (simp add: seg_step_def)
  moreover have "map_page hw child va fd fz off perm i p s = Some (Ret (0, p) s1)"
    using i [unfolded not_less] u_page_alloc_ok [OF s1(1)] by (simp add: map_page_def)
  moreover have "frame_byte s1 pp x = seg_byte file (unat off) (unat fz) (unat i + x)" for x
    using i s1(3) by (simp add: frame_byte_def get_byte_def seg_byte_def word_less_nat_alt)
  moreover have "length fl \<le> length (insert_free s d2 (va + i) pp fl0) + 3"
    using insert_free_length [of fl0 s d2 "va + i" pp] fl by (auto split: if_splits)
  ultimately show ?thesis using s1(2) pn by blast
qed

text \<open>Both cases; the table of mappings grows with a page of the file only.\<close>

lemma map_page_ok:
  assumes inv: "mm_inv s D K fl" and len: "3 \<le> length fl" and run: "running s D d" and child: "proc s D child d2" and ne: "d2 \<noteq> d"
    and tmp: "leafmap s (slot d UTEMP) = None" and va: "\<not> bad_va (va + i)" "\<not> bad_perm perm"
    and sf: "seg_file p fd k n f off fz file" and cnt: "i < fz \<Longrightarrow> mmap_cnt (pg_maps p) < 32"
  shows "\<exists>p' s' fl' pp. map_page hw child va fd fz off perm i p s = Some (Ret (0, p') s') \<and> mm_inv s' D K fl'
    \<and> length fl \<le> length fl' + 3 \<and> seg_step s s' D fl d ((leafpte s)(slot d2 (va + i) := mkpte pp perm))
    \<and> (\<forall>x<4096. frame_byte s' pp x = seg_byte file (unat off) (unat fz) (unat i + x))
    \<and> seg_file p' fd k n f off fz file \<and> mmap_cnt (pg_maps p') = mmap_cnt (pg_maps p) + (if i < fz then 1 else 0) \<and> pp < 2 ^ 20"
proof (cases "i < fz")
  case True
  from map_page_file [OF inv len run child ne tmp va sf True cnt [OF True], of hw] True show ?thesis by auto
next
  case False
  from map_page_blank [OF inv len run child ne tmp va sf False, of hw] False sf show ?thesis by auto
qed

section \<open>The loop\<close>

lemma page_at:
  assumes "unat va mod 4096 = 0" "unat va + N * 4096 \<le> unat UTOP" "j < N"
  shows "unat (of_nat j * PGSIZE :: u32) = j * 4096" "unat (va + of_nat j * PGSIZE) = unat va + j * 4096" "\<not> bad_va (va + of_nat j * PGSIZE)"
proof -
  have U: "unat UTOP = 0xEEC00000" by (simp add: layout)
  have b: "j * 4096 < N * 4096" using assms(3) by simp
  then have lt: "unat va + j * 4096 < 0xEEC00000" using assms(2) U by linarith
  then show u: "unat (of_nat j * PGSIZE :: u32) = j * 4096"
    by (simp add: layout unat_word_ariths unsigned_of_nat take_bit_nat_eq_self)
  then show v: "unat (va + of_nat j * PGSIZE) = unat va + j * 4096" using lt by (simp add: unat_word_ariths)
  have "unat (va + of_nat j * PGSIZE) mod 4096 = 0" using assms(1) unfolding v by simp
  then show "\<not> bad_va (va + of_nat j * PGSIZE)"
    using lt v by (simp add: bad_va_def layout word_le_nat_alt word_unat_eq_iff [of _ 0] unat_mod_distrib)
qed

lemma page_slots:
  assumes "unat va mod 4096 = 0" "unat va + N * 4096 \<le> unat UTOP" "i < N" "j < N"
    and "slot d (va + of_nat i * PGSIZE) = slot d (va + of_nat j * PGSIZE)"
  shows "i = j"
proof -
  have "va + of_nat i * PGSIZE = va + of_nat j * PGSIZE"
    by (rule slot_eq [OF page_at(3) [OF assms(1-3)] page_at(3) [OF assms(1,2,4)] assms(5)])
  then have "unat va + i * 4096 = unat va + j * 4096"
    unfolding page_at(2) [OF assms(1-3), symmetric] page_at(2) [OF assms(1,2,4), symmetric] by (rule arg_cong)
  then show ?thesis by simp
qed

definition seg_loaded :: "kstate \<Rightarrow> nat \<Rightarrow> u32 \<Rightarrow> nat set \<Rightarrow> u32 \<Rightarrow> u8 list \<Rightarrow> nat \<Rightarrow> nat \<Rightarrow> bool" where
  "seg_loaded s d va J perm file off fz \<longleftrightarrow> (\<forall>j\<in>J. \<exists>q. q < 2 ^ 20 \<and> leafpte s (slot d (va + of_nat j * PGSIZE)) = mkpte q perm
     \<and> (\<forall>x<4096. frame_byte s q x = seg_byte file off fz (j * 4096 + x)))"

definition seg_slots :: "nat \<Rightarrow> u32 \<Rightarrow> nat set \<Rightarrow> (nat \<times> nat \<times> nat) set" where
  "seg_slots d va J = (\<lambda>j. slot d (va + of_nat j * PGSIZE)) ` J"

definition slots_kept :: "kstate \<Rightarrow> kstate \<Rightarrow> (nat \<times> nat \<times> nat) set \<Rightarrow> bool" where
  "slots_kept s s' Y \<longleftrightarrow> (\<forall>y\<in>Y. leafpte s' y = leafpte s y \<and> (\<forall>h. leafmap s y = Some h \<longrightarrow> mem s' h = mem s h))"

lemma slots_keptD:
  "slots_kept s s' Y \<Longrightarrow> y \<in> Y \<Longrightarrow> leafpte s' y = leafpte s y \<and> leafmap s' y = leafmap s y"
  by (simp add: slots_kept_def leafmap_def)

lemma slots_kept_trans: "slots_kept s s1 Y \<Longrightarrow> slots_kept s1 s' Y' \<Longrightarrow> Z \<subseteq> Y \<Longrightarrow> Z \<subseteq> Y' \<Longrightarrow> slots_kept s s' Z"
  by (auto simp: slots_kept_def leafmap_def) (metis subset_iff)+

lemma seg_pages_ok:
  assumes inv: "mm_inv s D K fl" and len: "3 * (N - m) \<le> length fl" and run: "running s D d" and child: "proc s D child d2" and ne: "d2 \<noteq> d"
    and tmp: "leafmap s (slot d UTEMP) = None" and va: "unat va mod 4096 = 0" "unat va + N * 4096 \<le> unat UTOP" and perm: "\<not> bad_perm perm"
    and sf: "seg_file p fd k n f off fz file" and cnt: "mmap_cnt (pg_maps p) + int ((unat fz + 4095) div 4096 - m) \<le> 32" and m: "m \<le> N"
  shows "\<exists>p' s' fl'. seg_pages (map_page hw child va fd fz off perm) (map (\<lambda>j. of_nat j * PGSIZE) [m..<N]) p s = Some (Ret (0, p') s')
    \<and> mm_inv s' D K fl' \<and> uframe D s s' \<and> leafmap s' (slot d UTEMP) = None
    \<and> seg_loaded s' d2 va {m..<N} perm file (unat off) (unat fz)
    \<and> slots_kept s s' (leafslots D - insert (slot d UTEMP) (seg_slots d2 va {m..<N})) \<and> seg_file p' fd k n f off fz file"
  using inv len run child tmp sf cnt m
proof (induction "N - m" arbitrary: m s fl p)
  case 0
  then have "m = N" by simp
  then show ?case using 0 by (auto simp: seg_loaded_def slots_kept_def)
next
  case (Suc r)
  let ?i = "of_nat m * PGSIZE :: u32"
  have lt: "m < N" using Suc.hyps(2) by simp
  note at = page_at [OF va lt]
  have i: "?i < fz \<longleftrightarrow> m * 4096 < unat fz" using at(1) by (simp add: word_less_nat_alt)
  have c: "mmap_cnt (pg_maps p) < 32" if "?i < fz"
  proof -
    have "m < (unat fz + 4095) div 4096" using that i by linarith
    then show ?thesis using Suc.prems(7) by linarith
  qed
  have len3: "3 \<le> length fl" using Suc.prems(2) lt by linarith
  from map_page_ok [OF Suc.prems(1) len3 Suc.prems(3,4) ne Suc.prems(5) at(3) perm Suc.prems(6) c, of hw] obtain p1 s1 fl1 pp where
    s1: "map_page hw child va fd fz off perm ?i p s = Some (Ret (0, p1) s1)" "mm_inv s1 D K fl1" "length fl \<le> length fl1 + 3"
      "seg_step s s1 D fl d ((leafpte s)(slot d2 (va + ?i) := mkpte pp perm))"
      "\<forall>x<4096. frame_byte s1 pp x = seg_byte file (unat off) (unat fz) (m * 4096 + x)"
      "seg_file p1 fd k n f off fz file" "mmap_cnt (pg_maps p1) = mmap_cnt (pg_maps p) + (if ?i < fz then 1 else 0)" "pp < 2 ^ 20"
    unfolding at(1) by blast
  note st = s1(4) [unfolded seg_step_def]
  have u: "uframe D s s1" and t1: "leafmap s1 (slot d UTEMP) = None" using st by blast+
  have r: "r = N - Suc m" "Suc m \<le> N" using Suc.hyps(2) by simp_all
  have len1: "3 * (N - Suc m) \<le> length fl1" using Suc.prems(2) s1(3) lt by linarith
  have cnt1: "mmap_cnt (pg_maps p1) + int ((unat fz + 4095) div 4096 - Suc m) \<le> 32"
  proof (cases "?i < fz")
    case True
    then have "m < (unat fz + 4095) div 4096" using i by linarith
    then show ?thesis using Suc.prems(7) s1(7) True by simp
  next
    case False
    then show ?thesis using Suc.prems(7) s1(7) by simp
  qed
  from Suc.hyps(1) [OF r(1) s1(2) len1 running_uframe [OF Suc.prems(3) u] proc_uframe [OF Suc.prems(4) u] t1 s1(6) cnt1 r(2)]
  obtain p' s' fl' where
    s': "seg_pages (map_page hw child va fd fz off perm) (map (\<lambda>j. of_nat j * PGSIZE) [Suc m..<N]) p1 s1 = Some (Ret (0, p') s')"
      "mm_inv s' D K fl'" "uframe D s1 s'" "leafmap s' (slot d UTEMP) = None"
      "seg_loaded s' d2 va {Suc m..<N} perm file (unat off) (unat fz)"
      "slots_kept s1 s' (leafslots D - insert (slot d UTEMP) (seg_slots d2 va {Suc m..<N}))" "seg_file p' fd k n f off fz file" by blast
  have d2: "d2 \<in> D" using Suc.prems(4) by (simp add: proc_def)
  let ?y = "slot d2 (va + ?i)"
  have y: "?y \<in> leafslots D" "?y \<noteq> slot d UTEMP"
    using slot_in(1) [OF d2 good_va_lt [OF at(3)]] ne by (auto simp: slot_def)
  have yo: "?y \<notin> seg_slots d2 va {Suc m..<N}"
    using page_slots [OF va lt] by (fastforce simp: seg_slots_def)
  have e1: "leafpte s1 ?y = mkpte pp perm" using st y by simp
  have "leafpte s' ?y = mkpte pp perm \<and> (\<forall>x<4096. frame_byte s' pp x = seg_byte file (unat off) (unat fz) (m * 4096 + x))"
  proof -
    have "leafmap s1 ?y = Some pp" using e1 s1(8) good_perm_lt [OF perm] by (simp add: leafmap_def)
    then have "leafpte s' ?y = mkpte pp perm" "mem s' pp = mem s1 pp" using s'(6) y yo e1 by (auto simp: slots_kept_def)
    then show ?thesis using s1(5) by (simp add: frame_byte_def)
  qed
  then have "seg_loaded s' d2 va {m..<N} perm file (unat off) (unat fz)"
    using s'(5) s1(8) lt unfolding seg_loaded_def by (metis atLeastLessThan_iff le_eq_less_or_eq Suc_leI)
  moreover have "slots_kept s s1 (leafslots D - insert (slot d UTEMP) {?y})"
    using st mapped_data [OF Suc.prems(1)] by (auto simp: slots_kept_def)
  then have "slots_kept s s' (leafslots D - insert (slot d UTEMP) (seg_slots d2 va {m..<N}))"
    by (rule slots_kept_trans [OF _ s'(6)]) (use lt in \<open>auto simp: seg_slots_def\<close>)
  moreover have "seg_pages (map_page hw child va fd fz off perm) (map (\<lambda>j. of_nat j * PGSIZE) [m..<N]) p s = Some (Ret (0, p') s')"
    unfolding upt_conv_Cons [OF lt] using s1(1) s'(1) by simp
  ultimately show ?case using s'(2,4,7) uframe_trans [OF u s'(3)] by blast
qed

end
