(* ===== verification/Spawn_Spec.thy ===== *)
theory Spawn_Spec
  imports Spawn_Seg Fork_Spec
begin

text \<open>
  The properties of spawn (lib/spawn.c) and of the memory-mapped files it uses (lib/mmap.c): the
  child finds its arguments on its stack, a page of its program is the page of the file, and how
  much of a mapping of several pages munmap writes back.
\<close>

unbundle bit_operations_syntax

section \<open>A program about to spawn\<close>

text \<open>The page at UTEXT holds the argument vector and the strings.\<close>

definition demo_args :: "(nat \<Rightarrow> u32) \<Rightarrow> kstate" where
  "demo_args g = demo_fork\<lparr>mem := (mem demo_fork)(2 := g)\<rparr>"

lemma demo_args_wrote: "wrote 2 demo_fork (demo_args g)"
  by (auto simp: wrote_def demo_args_def)

lemma demo_args_data: "data_page demo_fork {0, 4} [3, 5, 6, 7] 2"
proof (rule mapped_data [OF demo_fork_inv])
  show "slot 0 UTEXT \<in> leafslots {0, 4}" by (rule slot_in(1)) (simp_all add: layout)
qed (rule demo_fork_user(4))

lemma demo_args_inv:
  "mm_inv (demo_args g) {0, 4} (\<lambda>_. 0) [3, 5, 6, 7]" "running (demo_args g) {0, 4} 0" "proc (demo_args g) {0, 4} 0x1002 4"
  "user_tables (demo_args g) 4" "leafmap (demo_args g) (slot 0 UTEMP) = None"
  "\<And>y. y \<in> leafslots {0, 4} \<Longrightarrow> leafpte (demo_args g) y = leafpte demo_fork y"
proof -
  note W = wroteD [OF demo_args_wrote [of g]]
  have "\<forall>f. f \<noteq> 2 \<longrightarrow> mem (demo_args g) f = mem demo_fork f" using W(1) by blast
  note w = mm_data_write [OF demo_fork_inv _ _ this W(2-4)]
  have p: "2 \<notin> {0, 4 :: nat}" "nrefs (ptmap demo_fork) (ptslots {0, 4}) 2 = 0"
    using demo_args_data by (simp_all add: data_page_def)
  have u: "uframe {0, 4} demo_fork (demo_args g)" by (rule uframe_mem [OF W(6) W(1)]) auto
  show "mm_inv (demo_args g) {0, 4} (\<lambda>_. 0) [3, 5, 6, 7]" using w(1) p by simp
  show "running (demo_args g) {0, 4} 0" by (rule running_uframe [OF demo_fork_running u])
  show "proc (demo_args g) {0, 4} 0x1002 4" by (rule proc_uframe [OF demo_fork_child u])
  have "user_tables demo_fork 4" by (auto simp: user_tables_def demo_fork_ptmap)
  then show "user_tables (demo_args g) 4" using u by (simp add: uframe_def)
  show l: "leafpte (demo_args g) y = leafpte demo_fork y" if "y \<in> leafslots {0, 4}" for y using w(2) p that by simp
  have "slot 0 UTEMP \<in> leafslots {0, 4}" by (rule slot_in(1)) (simp_all add: layout UTEMP_def)
  moreover have "slot 0 UTEMP = (0, 1, 0)" by (simp add: slot_def PDX_def PTX_def shifts layout UTEMP_def)
  ultimately show "leafmap (demo_args g) (slot 0 UTEMP) = None"
    using l demo_fork_leafmap [of 1 0 0] by (simp add: leafmap_def UPDX_val)
qed

lemma demo_args_read:
  assumes "k < 4096"
  shows "uread8 (UTEXT + of_nat k) (demo_args g) = Some (get_byte (k mod 4) (g (k div 4)))"
    "k mod 4 = 0 \<Longrightarrow> uread32 (UTEXT + of_nat k) (demo_args g) = Some (g (k div 4))"
proof -
  have sl: "slot 0 UTEXT \<in> leafslots {0, 4}" by (rule slot_in(1)) (simp_all add: layout)
  have e: "leafpte (demo_args g) (slot 0 UTEXT) = leafpte demo_fork (slot 0 UTEXT)" by (rule demo_args_inv(6) [OF sl])
  have "user_walk False UTEXT (demo_args g) = Some 2"
    using user_walk_leaf [OF demo_args_inv(2) good_va_lt [OF demo_fork_user(3)], of g 2 False] e
      demo_fork_user(1,4) by (simp add: leafmap_def user_leaf_def)
  then have w: "user_walk False (UTEXT + of_nat k) (demo_args g) = Some 2"
    using user_walk_add [of UTEXT k] PGOFF_page [OF demo_fork_user(3)] assms by simp
  have off: "unat (PGOFF (UTEXT + of_nat k)) = k"
    using page_add(1) [of UTEXT k] PGOFF_page [OF demo_fork_user(3)] assms by simp
  have m: "mem (demo_args g) 2 = g" by (simp add: demo_args_def)
  then show "uread8 (UTEXT + of_nat k) (demo_args g) = Some (get_byte (k mod 4) (g (k div 4)))"
    using w off by (simp add: uread8_walk)
  assume k: "k mod 4 = 0"
  have "unat (UTEXT + of_nat k) = 0x800000 + k"
    using assms by (simp add: layout unat_word_ariths unsigned_of_nat take_bit_nat_eq_self)
  then have "unat (UTEXT + of_nat k) mod 4 = 0" using k by presburger
  from uread32_walk [OF this] show "uread32 (UTEXT + of_nat k) (demo_args g) = Some (g (k div 4))"
    using w off m by simp
qed

text \<open>A vector with one string, which starts in the third word of the page.\<close>

lemma demo_args_at:
  assumes "g 0 = 0x800008" "g 1 = 0" "0 \<notin> set cs" "length cs < 4088"
    and "\<And>k. k < length cs + 1 \<Longrightarrow> get_byte ((8 + k) mod 4) (g ((8 + k) div 4)) = (cs @ [0]) ! k"
  shows "args_at UTEXT [cs] (demo_args g)"
proof -
  have "uread8 (0x800008 + of_nat k) (demo_args g) = Some ((cs @ [0]) ! k)" if "k < length cs + 1" for k
  proof -
    have "UTEXT + of_nat (8 + k) = 0x800008 + of_nat k" by (simp add: layout)
    moreover have "8 + k < 4096" using that assms(4) by simp
    ultimately show ?thesis using demo_args_read(1) [of "8 + k" g] assms(5) [OF that] by metis
  qed
  then have "str_at 0x800008 cs (demo_args g)" using assms(3,4) by (simp add: str_at_def layout)
  then show ?thesis
    using demo_args_read(2) [of 0 g] demo_args_read(2) [of 4 g] assms(1,2) by (auto simp: args_at_def layout)
qed

lemma demo_ls: "args_at UTEXT [[0x6C, 0x73]] (demo_args ((\<lambda>_. 0)(0 := 0x800008, 2 := 0x736C)))"
proof (rule demo_args_at)
  fix k :: nat assume "k < length [0x6C, 0x73 :: u8] + 1"
  then have "k = 0 \<or> k = 1 \<or> k = 2" by auto
  then show "get_byte ((8 + k) mod 4) (((\<lambda>_. 0)(0 := 0x800008, 2 := 0x736C)) ((8 + k) div 4)) = ([0x6C, 0x73] @ [0]) ! k"
    by (elim disjE) (simp_all add: get_byte_def)
qed simp_all

section \<open>Properties\<close>

text \<open>
  C11: the stack page of a spawned program. When the arguments fit, init_stack returns the stack
  pointer, and the child, reading its own memory, finds there the number of arguments, a pointer
  to the argument vector just above, and in the vector the same strings the parent passed. The
  parent no longer maps the page, nothing else changes in either address space, no mapped page is
  written, and every reference count stays exact.
\<close>

theorem init_stack_correct:
  assumes "mm_inv s D K fl" and "3 \<le> length fl" and "running s D d" and "proc s D child d2" and "d2 \<noteq> d"
    and "user_tables s d2" and "leafmap s (slot d UTEMP) = None"
    and "args_at argv args s" and "stack_fits args" and "esp = ustk (argv_off args - 8)"
  shows "\<exists>s' fl' pp. init_stack hw child argv s = Some (Ret (0, Some esp) s') \<and> mm_inv s' D K fl' \<and> uframe D s s'
    \<and> (\<forall>y \<in> leafslots D. leafpte s' y = ((leafpte s)(slot d UTEMP := 0, slot d2 STACK_PAGE := mkpte pp PTE_RW)) y)
    \<and> (\<forall>f. data_page s D fl f \<longrightarrow> mem s' f = mem s f)
    \<and> uread32 esp (child_view d2 s') = Some (of_nat (length args)) \<and> uread32 (esp + 4) (child_view d2 s') = Some (esp + 8)
    \<and> args_at (esp + 8) args (child_view d2 s')"
  using assms by (rule init_stack_ok)

theorem init_stack_correct_witness:
  "\<exists>s'. init_stack demo_hw 0x1002 UTEXT (demo_args ((\<lambda>_. 0)(0 := 0x800008, 2 := 0x736C))) = Some (Ret (0, Some 0xEEBFDFEC) s')
    \<and> uread32 0xEEBFDFEC (child_view 4 s') = Some 1 \<and> args_at 0xEEBFDFF4 [[0x6C, 0x73]] (child_view 4 s')"
proof -
  have f: "stack_fits [[0x6C, 0x73]]" by (simp add: stack_fits_def)
  have esp: "(0xEEBFDFEC :: u32) = ustk (argv_off [[0x6C, 0x73]] - 8)" by (simp add: argv_off_def ustk_def layout)
  from init_stack_correct [OF demo_args_inv(1) _ demo_args_inv(2,3) _ demo_args_inv(4,5) demo_ls f esp, of demo_hw]
  show ?thesis by auto
qed

text \<open>
  arguments that do not fit the stack page are refused before anything is allocated. The
  total has to be below four megabytes: with more the address of the vector wraps around zero and
  the test passes.
\<close>

theorem init_stack_no_mem:
  assumes "args_at argv args s" and "\<not> stack_fits args" and "str_size args + 4 * length args + 16 \<le> 0x401000"
  shows "init_stack hw child argv s = Some (Ret (neg_errno E_NO_MEM, None) s)"
proof -
  let ?L = "str_size args" and ?n = "length args"
  define ss where "ss = UTEMP + PGSIZE - of_nat ?L"
  let ?q = "unat ss div 4"
  have "unat (of_nat ?L :: u32) = ?L" using assms(3) by (simp add: unsigned_of_nat take_bit_nat_eq_self)
  moreover have "UTEMP + PGSIZE = 0x401000" by (simp add: UTEMP_def layout)
  ultimately have u: "unat ss = 0x401000 - ?L"
    using assms(3) unat_sub [of "of_nat ?L" "0x401000 :: u32"] by (simp add: ss_def word_le_nat_alt)
  have q: "?n + 3 \<le> ?q" using assms(3) unfolding u by presburger
  have lt: "?q < 0x100000 + (?n + 3)"
  proof (cases "?L \<le> 4096")
    case True
    then have "unat ss = 0x100000 * 4 + (4096 - ?L)" using u by simp
    then have "?q = 0x100000 + (4096 - ?L) div 4" by simp
    then show ?thesis using assms(2) True by (simp add: stack_fits_def)
  qed (use u in auto)
  have r: "unat (ROUNDDOWN ss 4) = 4 * ?q" by (simp add: unat_ROUNDDOWN minus_mod_eq_mult_div)
  have "unat (4 * (of_nat ?n + 1) + 8 :: u32) = 4 * (?n + 3)"
  proof -
    have "4 * (of_nat ?n + 1) + 8 = (of_nat (4 * (?n + 3)) :: u32)" by simp
    moreover have "4 * (?n + 3) < 2 ^ 32" using assms(3) by simp
    ultimately show ?thesis by (simp only: unsigned_of_nat) (simp add: take_bit_nat_eq_self)
  qed
  then have "unat (ROUNDDOWN ss 4 - (4 * (of_nat ?n + 1) + 8)) = 4 * ?q - 4 * (?n + 3)"
    using q r unat_sub [of "4 * (of_nat ?n + 1) + 8" "ROUNDDOWN ss 4"] by (simp add: word_le_nat_alt)
  then have "unat (ROUNDDOWN ss 4 - (4 * (of_nat ?n + 1) + 8)) < unat UTEMP"
    using lt by (simp add: UTEMP_def layout)
  then have "ROUNDDOWN ss 4 - 4 * (of_nat ?n + 1) - 8 < UTEMP"
    unfolding word_less_nat_alt diff_diff_eq .
  moreover have "count_argv argv 0 0 s = Some (?n, of_nat ?L)" using count_argv_ok [OF assms(1), of 0] by simp
  ultimately show ?thesis by (simp add: init_stack_def Let_def ss_def)
qed

theorem init_stack_no_mem_witness:
  "\<exists>g. init_stack demo_hw 0x1002 UTEXT (demo_args g) = Some (Ret (neg_errno E_NO_MEM, None) (demo_args g))"
proof -
  define g where "g = (\<lambda>k :: nat. if k = 0 then 0x800008 else if k = 1 then 0 else if k = 1023 then 0x616161 else 0x61616161 :: u32)"
  let ?cs = "replicate 4087 (0x61 :: u8)"
  have b: "get_byte j 0x61616161 = 0x61 \<and> (j < 3 \<longrightarrow> get_byte j 0x616161 = 0x61)" "get_byte 3 0x616161 = 0" if "j < 4" for j
  proof -
    have "j = 0 \<or> j = 1 \<or> j = 2 \<or> j = 3" using that by arith
    then show "get_byte j 0x61616161 = 0x61 \<and> (j < 3 \<longrightarrow> get_byte j 0x616161 = 0x61)"
      by (elim disjE) (simp_all add: get_byte_def)
  qed (simp add: get_byte_def)
  have "args_at UTEXT [?cs] (demo_args g)"
  proof (rule demo_args_at)
    fix k assume k: "k < length ?cs + 1"
    show "get_byte ((8 + k) mod 4) (g ((8 + k) div 4)) = (?cs @ [0]) ! k"
    proof (cases "(8 + k) div 4 = 1023")
      case True
      then have "k = 4084 + (8 + k) mod 4" "(8 + k) mod 4 < 4" by presburger+
      then show ?thesis
        using b [of "(8 + k) mod 4"] True by (cases "(8 + k) mod 4 = 3") (auto simp: g_def nth_append)
    next
      case False
      then have "k < 4084" "(8 + k) div 4 \<noteq> 0" "(8 + k) div 4 \<noteq> 1" using k by (presburger | simp)+
      then show ?thesis using b [of "(8 + k) mod 4"] False by (simp add: g_def nth_append)
    qed
  qed (simp_all add: g_def)
  then have "init_stack demo_hw 0x1002 UTEXT (demo_args g) = Some (Ret (neg_errno E_NO_MEM, None) (demo_args g))"
    by (rule init_stack_no_mem) (simp_all add: stack_fits_def)
  then show ?thesis by blast
qed

text \<open>
  C10: a segment of a spawned program. When the file holds no hole there and the tables suffice,
  map_segment maps every page of the segment in the child with the given permissions: its bytes are
  those of the file up to the file size of the segment, and zero from there on. All other entries
  of the page tables and the pages they map stay as they are, the temporary page is unmapped
  again, and the reference counts stay exact.
\<close>

theorem map_segment_correct:
  assumes "mm_inv s D K fl" and "running s D d" and "proc s D child d2" and "d2 \<noteq> d"
    and "leafmap s (slot d UTEMP) = None" and "\<not> bad_perm perm"
    and "base = va - PGOFF va" and "N = (unat (memsz + PGOFF va) + 4095) div 4096"
    and "3 * N \<le> length fl" and "unat base + N * 4096 \<le> unat UTOP"
    and "seg_file p fd k n f (off - PGOFF va) (filesz + PGOFF va) file"
    and "mmap_cnt (pg_maps p) + int ((unat (filesz + PGOFF va) + 4095) div 4096) \<le> 32"
  shows "\<exists>p' s' fl'. map_segment hw child va memsz fd filesz off perm p s = Some (Ret (0, p') s') \<and> mm_inv s' D K fl'
    \<and> uframe D s s' \<and> leafmap s' (slot d UTEMP) = None
    \<and> seg_loaded s' d2 base {0..<N} perm file (unat (off - PGOFF va)) (unat (filesz + PGOFF va))
    \<and> slots_kept s s' (leafslots D - insert (slot d UTEMP) (seg_slots d2 base {0..<N}))"
proof -
  have "unat (PGOFF va) \<le> unat va" by (simp add: PGOFF_unat)
  then have "unat base = unat va - unat va mod 4096"
    unfolding assms(7) by (simp add: unat_sub word_le_nat_alt PGOFF_unat)
  then have a: "unat base mod 4096 = 0" by (simp add: minus_mod_eq_mult_div)
  have len: "3 * (N - 0) \<le> length fl" and z: "0 \<le> N" using assms(9) by simp_all
  have c: "mmap_cnt (pg_maps p) + int ((unat (filesz + PGOFF va) + 4095) div 4096 - 0) \<le> 32" using assms(12) by simp
  from seg_pages_ok [OF assms(1) len assms(2-5) a assms(10,6,11) c z, of hw] show ?thesis
    unfolding map_segment_def Let_def page_offsets_def assms(7,8) by blast
qed

theorem map_segment_correct_witness:
  "\<exists>p' s' q. map_segment demo_hw 0x1002 0x800000 5 0 5 0 (PTE_P OR PTE_U) \<lparr>pg_client = demo_client, pg_maps = mmaps_init\<rparr> demo_fork
      = Some (Ret (0, p') s')
    \<and> leafpte s' (slot 4 0x800000) = mkpte q (PTE_P OR PTE_U) \<and> map (frame_byte s' q) [0..<6] = [104, 101, 108, 108, 111, 0]"
proof -
  let ?p = "\<lparr>pg_client = demo_client, pg_maps = mmaps_init\<rparr>"
  have o: "PGOFF 0x800000 = 0" by (simp add: PGOFF_unat word_unat_eq_iff)
  have sf: "seg_file ?p 0 0 8 (3, 0) (0 - PGOFF 0x800000) (5 + PGOFF 0x800000) [104, 101, 108, 108, 111]"
    using demo_client_opened demo_client_fields by (simp add: seg_file_def o mmaps_init_def O_RDWR_def O_RDONLY_def)
  have tmp: "leafmap demo_fork (slot 0 UTEMP) = None"
    using demo_fork_leafmap [of 1 0 0] by (simp add: slot_def PDX_def PTX_def shifts layout UTEMP_def UPDX_val)
  have pm: "\<not> bad_perm (PTE_P OR PTE_U)" by (simp add: bad_perm_def pte_flags PTE_USER_def)
  have b: "0x800000 = 0x800000 - PGOFF 0x800000" "(1 :: nat) = (unat (5 + PGOFF 0x800000 :: u32) + 4095) div 4096"
    "3 * 1 \<le> length [3, 5, 6, 7 :: nat]" "unat (0x800000 :: u32) + 1 * 4096 \<le> unat UTOP"
    "mmap_cnt (pg_maps ?p) + int ((unat (5 + PGOFF 0x800000 :: u32) + 4095) div 4096) \<le> 32"
    by (simp_all add: o layout mmaps_init_def)
  from map_segment_correct [OF demo_fork_inv demo_fork_running demo_fork_child _ tmp pm b(1-4) sf b(5), of demo_hw]
  obtain p' s' where s': "map_segment demo_hw 0x1002 0x800000 5 0 5 0 (PTE_P OR PTE_U) ?p demo_fork = Some (Ret (0, p') s')"
    "seg_loaded s' 4 0x800000 {0..<1} (PTE_P OR PTE_U) [104, 101, 108, 108, 111] 0 5"
    by (auto simp: o)
  then obtain q where q: "leafpte s' (slot 4 0x800000) = mkpte q (PTE_P OR PTE_U)"
    "\<And>x. x < 4096 \<Longrightarrow> frame_byte s' q x = seg_byte [104, 101, 108, 108, 111] 0 5 x"
    by (auto simp: seg_loaded_def)
  have "map (frame_byte s' q) [0..<6] = [104, 101, 108, 108, 111, 0]"
    by (simp add: upt_rec q(2) seg_byte_def)
  then show ?thesis using s'(1) q(1) by (intro exI [of _ p'] exI [of _ s'] exI [of _ q] conjI)
qed

end
