(* ===== verification/Icode_Inv.thy ===== *)
theory Icode_Inv
  imports Ulib_Inv Env_Spec
begin

text \<open>
  Loading a program into a new address space (segment_alloc and load_icode of kern/env.c): the
  bytes of an address space as its program sees them, mapping fresh pages, and stores through
  the page tables that change exactly the bytes they are meant to.
\<close>

unbundle bit_operations_syntax

section \<open>Pages and bytes\<close>

lemma slot_page: "slot d a = slot d b \<longleftrightarrow> unat a div 4096 = unat b div 4096"
proof -
  have d: "unat x div 4096 = unat (PDX x) * 1024 + unat (PTX x)" for x :: u32
    using div_mult_mod_eq [of "unat x div 4096" 1024] by (simp add: unat_PDX unat_PTX div_mult2_eq [symmetric])
  have q: "(x * 1024 + y) div 1024 = x" "(x * 1024 + y) mod 1024 = y" if "y < 1024" for x y :: nat
    using that by simp_all
  have "x * 1024 + y = x' * 1024 + y' \<longleftrightarrow> x = x' \<and> y = y'" if "y < 1024" "y' < 1024" for x y x' y' :: nat
    using q [OF that(1), of x] q [OF that(2), of x'] by metis
  from this [of "unat (PTX a)" "unat (PTX b)"] PTX_lt [of a] PTX_lt [of b]
  have "unat (PDX a) * 1024 + unat (PTX a) = unat (PDX b) * 1024 + unat (PTX b)
      \<longleftrightarrow> unat (PDX a) = unat (PDX b) \<and> unat (PTX a) = unat (PTX b)" by (simp add: NPTENTRIES_def)
  then show ?thesis by (simp add: slot_def d)
qed

lemma unat_add_nat: "unat (a :: u32) + n < 2 ^ 32 \<Longrightarrow> unat (a + of_nat n) = unat a + n"
  by (simp add: unat_word_ariths unat_of_nat)

text \<open>The byte that a program with directory \<open>d\<close> reads at \<open>a\<close>, if a page is mapped there.\<close>

definition ubyte :: "kstate \<Rightarrow> nat \<Rightarrow> u32 \<Rightarrow> u8 option" where
  "ubyte s d a = (case leafmap s (slot d a) of None \<Rightarrow> None
     | Some f \<Rightarrow> Some (get_byte (unat a mod 4) (mem s f (unat a mod 4096 div 4))))"

text \<open>
  A directory under construction: every page it maps is writable and its own, shared with no other
  directory and mapped at one address only.
\<close>

definition loading :: "kstate \<Rightarrow> nat set \<Rightarrow> (nat \<Rightarrow> nat) \<Rightarrow> nat list \<Rightarrow> nat \<Rightarrow> bool" where
  "loading s D K fl d \<longleftrightarrow> mm_inv s D K fl \<and> d \<in> D \<and> user_tables s d
     \<and> (\<forall>y \<in> leafslots {d}. \<forall>f. leafmap s y = Some f \<longrightarrow>
          leafpte s y AND PTE_W \<noteq> 0 \<and> (\<forall>z \<in> leafslots D. leafmap s z = Some f \<longrightarrow> z = y))"

text \<open>Everything mapped stays mapped with the same contents.\<close>

definition keeps :: "nat set \<Rightarrow> kstate \<Rightarrow> kstate \<Rightarrow> bool" where
  "keeps D s s' \<longleftrightarrow> (\<forall>z \<in> leafslots D. \<forall>f. leafmap s z = Some f \<longrightarrow> leafpte s' z = leafpte s z \<and> mem s' f = mem s f)"

lemma keeps_refl [simp]: "keeps D s s"
  by (simp add: keeps_def)

lemma keeps_trans [trans]: "keeps D s s1 \<Longrightarrow> keeps D s1 s2 \<Longrightarrow> keeps D s s2"
  by (simp add: keeps_def leafmap_def)

lemma keeps_ubyte: "keeps D s s' \<Longrightarrow> d \<in> D \<Longrightarrow> a < UTOP \<Longrightarrow> ubyte s d a = Some b \<Longrightarrow> ubyte s' d a = Some b"
  using slot_in(1) [of d D a] by (auto simp: ubyte_def keeps_def leafmap_def split: option.splits)

lemma user_W: "mkpte p (PTE_U OR PTE_W) AND PTE_W \<noteq> 0" "mkpte p (PTE_U OR PTE_W) AND PTE_U \<noteq> 0"
proof -
  have "bit (mkpte p (PTE_U OR PTE_W) AND PTE_W) 1" "bit (mkpte p (PTE_U OR PTE_W) AND PTE_U) 2"
    by (simp_all add: mkpte_def bit_simps pte_flags bit_numeral_rec)
  then show "mkpte p (PTE_U OR PTE_W) AND PTE_W \<noteq> 0" "mkpte p (PTE_U OR PTE_W) AND PTE_U \<noteq> 0"
    by (metis bit_0_eq bot_apply bot_bool_def)+
qed

section \<open>One more page\<close>

lemma load_page:
  assumes L: "loading s D K (p # fl) d" and la: "la < UTOP" and none: "leafmap s (slot d la) = None"
    and room: "fl \<noteq> []"
  shows "\<exists>s1 s' fl'. page_alloc s = Some (Inr p, s1) \<and> envs s1 = envs s
    \<and> page_insert d p la (PTE_U OR PTE_W) s1 = Some (Inr (), s')
    \<and> loading s' D K fl' d \<and> length fl \<le> Suc (length fl') \<and> same_rest s s' \<and> keeps D s s'
    \<and> leafmap s' (slot d la) \<noteq> None
    \<and> (\<forall>z \<in> leafslots D. z \<noteq> slot d la \<longrightarrow> leafpte s' z = leafpte s z)"
proof -
  have inv: "mm_inv s D K (p # fl)" and d: "d \<in> D" and ut: "user_tables s d" using L by (simp_all add: loading_def)
  have own: "leafpte s y AND PTE_W \<noteq> 0" "z \<in> leafslots D \<Longrightarrow> leafmap s z = Some f \<Longrightarrow> z = y"
    if "y \<in> leafslots {d}" "leafmap s y = Some f" for y z f
    using L that by (auto simp: loading_def)
  obtain l where l: "page_alloc s = Some (Inr p, s\<lparr>page_free_list := l\<rparr>)"
    and inv1: "mm_inv (s\<lparr>page_free_list := l\<rparr>) D K fl"
    using mm_alloc [OF inv] by blast
  let ?s1 = "s\<lparr>page_free_list := l\<rparr>"
  note fr = mm_inv_free [OF inv, of p, simplified]
  have ref: "unat (pp_ref ?s1 p) < 65535" using fr(2) by simp
  have perm: "unat (PTE_U OR PTE_W) < 4096" by (simp add: pte_flags)
  obtain s' where s': "page_insert d p la (PTE_U OR PTE_W) ?s1 = Some (Inr (), s')"
      "mm_inv s' D K (insert_free ?s1 d la p fl)" "npage s' = npage s"
      "\<And>y. y \<in> leafslots D \<Longrightarrow> leafpte s' y = ((leafpte s)(slot d la := mkpte p (PTE_U OR PTE_W))) y"
    using insert_ok [OF inv1 d la page_alloc_data [OF inv inv1] ref perm] room by auto
  define fl' where "fl' = insert_free ?s1 d la p fl"
  have fl': "fl' = (if ptmap s (d, unat (PDX la)) = None then tl fl else fl)"
    using none by (simp add: fl'_def insert_free_def)
  have sl: "slot d la \<in> leafslots D" by (rule slot_in(1) [OF d la])
  have p20: "p < 2 ^ 20" using fr(1) mm_invD(4) [OF inv] by simp
  have lm: "leafmap s' (slot d la) = Some p" using s'(4) [OF sl] p20 perm by (simp add: leafmap_def)
  have other: "leafpte s' z = leafpte s z" if "z \<in> leafslots D" "z \<noteq> slot d la" for z
    using s'(4) [OF that(1)] that(2) by simp
  have kp: "keeps D s s'"
    unfolding keeps_def
  proof (intro ballI allI impI)
    fix z f assume z: "z \<in> leafslots D" "leafmap s z = Some f"
    have f: "f \<notin> set (p # fl)" using mm_inv_free(6) [OF inv _ z(1)] z(2) by blast
    have "f \<noteq> p" using f by simp
    have dp: "data_page s D (p # fl) f" by (rule mapped_data [OF inv z])
    have nt: "no_table ?s1 D f" using no_table_data [OF inv dp] by (simp add: no_table_def)
    from insert_keep [OF inv1 d la s'(1) nt] f have "mem s' f = mem s f" by simp
    moreover have "z \<noteq> slot d la" using z(2) none by auto
    ultimately show "leafpte s' z = leafpte s z \<and> mem s' f = mem s f" using other z(1) by simp
  qed
  have uf: "uframe D ?s1 s'" by (rule insert_uframe [OF inv1 d la s'(1)])
  have "user_tables ?s1 d" using ut by (simp add: user_tables_def)
  with uf d have ut': "user_tables s' d" by (simp add: uframe_def)
  have sr: "same_rest s s'" using uf by (simp add: uframe_def same_rest_def)
  have sub: "y \<in> leafslots D" if "y \<in> leafslots {d}" for y using that d by (auto simp: leafslots_def)
  have "leafpte s' y AND PTE_W \<noteq> 0 \<and> (\<forall>z \<in> leafslots D. leafmap s' z = Some f \<longrightarrow> z = y)"
    if y: "y \<in> leafslots {d}" "leafmap s' y = Some f" for y f
  proof (cases "y = slot d la")
    case True
    then have f: "f = p" using y(2) lm by simp
    have "z = y" if "z \<in> leafslots D" "leafmap s' z = Some f" for z
    proof (rule ccontr)
      assume "z \<noteq> y"
      then have "leafmap s z = Some p" using other [OF that(1)] that(2) True f by (simp add: leafmap_def)
      with fr(6) [OF that(1)] show False by simp
    qed
    moreover have "leafpte s' y AND PTE_W \<noteq> 0" using s'(4) [OF sl] True user_W by simp
    ultimately show ?thesis by blast
  next
    case False
    then have e: "leafpte s' y = leafpte s y" using other sub [OF y(1)] by simp
    then have yf: "leafmap s y = Some f" using y(2) by (simp add: leafmap_def)
    have "f \<noteq> p" using yf fr(6) [OF sub [OF y(1)]] by auto
    have "z = y" if "z \<in> leafslots D" "leafmap s' z = Some f" for z
    proof -
      have "z \<noteq> slot d la" using that(2) lm \<open>f \<noteq> p\<close> by auto
      then have "leafmap s z = Some f" using other [OF that(1)] that(2) by (simp add: leafmap_def)
      then show ?thesis using own(2) [OF y(1) yf that(1)] by simp
    qed
    then show ?thesis using own(1) [OF y(1) yf] e by simp
  qed
  then have "loading s' D K fl' d" using s'(2) d ut' by (simp add: loading_def fl'_def)
  moreover have "length fl \<le> Suc (length fl')" unfolding fl' by (cases fl) simp_all
  ultimately show ?thesis using l s'(1) sr kp lm other by (intro exI [of _ ?s1] exI [of _ s'] exI [of _ fl']) simp
qed

section \<open>segment\_alloc\<close>

lemma segment_alloc_loop_ok:
  assumes "loading s D K fl d" and "env_pgdir (envs s e) = Some d" and "unat la mod 4096 = 0"
    and "unat la + 4096 * n \<le> unat UTOP" and "2 * n \<le> length fl"
    and "\<And>k. k < n \<Longrightarrow> leafmap s (slot d (la + of_nat (4096 * k))) = None"
  shows "\<exists>s' fl'. segment_alloc_loop e la (la + of_nat (4096 * n)) s = Some s'
    \<and> loading s' D K fl' d \<and> length fl \<le> length fl' + 2 * n \<and> same_rest s s' \<and> keeps D s s'
    \<and> (\<forall>k < n. leafmap s' (slot d (la + of_nat (4096 * k))) \<noteq> None)
    \<and> (\<forall>z \<in> leafslots D. (\<forall>k < n. z \<noteq> slot d (la + of_nat (4096 * k))) \<longrightarrow> leafpte s' z = leafpte s z)"
  using assms
proof (induction n arbitrary: la s fl)
  case 0
  have "segment_alloc_loop e la la s = Some s" by (subst segment_alloc_loop.simps) simp
  with 0 show ?case by (intro exI [of _ s] exI [of _ fl]) (simp add: same_rest_def)
next
  case (Suc n)
  have top: "unat UTOP < 2 ^ 32 - 4096" by (simp add: layout)
  have la: "la < UTOP" using Suc.prems(4) by (simp add: word_less_nat_alt)
  have none: "leafmap s (slot d la) = None" using Suc.prems(6) [of 0] by simp
  from Suc.prems(5) obtain p fl1 where fl: "fl = p # fl1" "fl1 \<noteq> []"
    by (cases fl; cases "tl fl") auto
  obtain s1 s2 fl2 where st: "page_alloc s = Some (Inr p, s1)" "envs s1 = envs s"
      "page_insert d p la (PTE_U OR PTE_W) s1 = Some (Inr (), s2)" "loading s2 D K fl2 d"
      "length fl1 \<le> Suc (length fl2)" "same_rest s s2" "keeps D s s2" "leafmap s2 (slot d la) \<noteq> None"
      "\<forall>z \<in> leafslots D. z \<noteq> slot d la \<longrightarrow> leafpte s2 z = leafpte s z"
    using load_page [OF Suc.prems(1) [unfolded fl(1)] la none fl(2)] by blast
  have d: "d \<in> D" using Suc.prems(1) by (simp add: loading_def)
  have u: "unat (la + 4096) = unat la + 4096"
    using unat_add_small [of la 4096] Suc.prems(4) top by simp
  have u': "unat (la + of_nat (4096 * k)) = unat la + 4096 * k" if "k < Suc n" for k
    by (rule unat_add_nat) (use that Suc.prems(4) top in simp)
  have sh: "la + 4096 + of_nat (4096 * k) = la + of_nat (4096 * Suc k)" for k by (simp add: algebra_simps)
  have ne: "slot d (la + of_nat (4096 * Suc k)) \<noteq> slot d la" if "k < n" for k
  proof -
    have "unat (la + of_nat (4096 * Suc k)) div 4096 = unat la div 4096 + Suc k"
      unfolding u' [of "Suc k", simplified] using that u' [of "Suc k"] by simp
    then show ?thesis unfolding slot_page by simp
  qed
  have lt: "la + of_nat (4096 * Suc k) < UTOP" if "k < n" for k
    using u' [of "Suc k"] that Suc.prems(4) by (simp add: word_less_nat_alt)
  have none2: "leafmap s2 (slot d (la + 4096 + of_nat (4096 * k))) = None" if "k < n" for k
  proof -
    have "leafpte s2 (slot d (la + of_nat (4096 * Suc k))) = leafpte s (slot d (la + of_nat (4096 * Suc k)))"
      using st(9) slot_in(1) [OF d lt [OF that]] ne [OF that] by blast
    with Suc.prems(6) [of "Suc k"] that show ?thesis unfolding sh by (simp add: leafmap_def)
  qed
  have e2: "env_pgdir (envs s2 e) = Some d" using st(6) Suc.prems(2) by (simp add: same_rest_def)
  have al: "unat (la + 4096) mod 4096 = 0" using Suc.prems(3) by (simp add: u)
  have top2: "unat (la + 4096) + 4096 * n \<le> unat UTOP" using Suc.prems(4) by (simp add: u)
  have len2: "2 * n \<le> length fl2" using Suc.prems(5) st(5) fl by simp
  obtain s3 fl3 where ih: "segment_alloc_loop e (la + 4096) (la + 4096 + of_nat (4096 * n)) s2 = Some s3"
      "loading s3 D K fl3 d" "length fl2 \<le> length fl3 + 2 * n" "same_rest s2 s3" "keeps D s2 s3"
      "\<forall>k < n. leafmap s3 (slot d (la + 4096 + of_nat (4096 * k))) \<noteq> None"
      "\<forall>z \<in> leafslots D. (\<forall>k < n. z \<noteq> slot d (la + 4096 + of_nat (4096 * k))) \<longrightarrow> leafpte s3 z = leafpte s2 z"
    using Suc.IH [OF st(4) e2 al top2 len2 none2] by blast
  have "unat (la + of_nat (4096 * Suc n)) = unat la + 4096 * Suc n"
    by (rule unat_add_nat) (use Suc.prems(4) top in linarith)
  then have "la < la + of_nat (4096 * Suc n)" by (simp add: word_less_nat_alt del: mult_Suc_right of_nat_mult of_nat_Suc)
  then have "segment_alloc_loop e la (la + of_nat (4096 * Suc n)) s
      = segment_alloc_loop e (la + PGSIZE) (la + of_nat (4096 * Suc n)) s2"
    using st(1,2,3) Suc.prems(2) by (subst segment_alloc_loop.simps) simp
  then have run: "segment_alloc_loop e la (la + of_nat (4096 * Suc n)) s = Some s3"
    using ih(1) by (simp add: sh PGSIZE_val del: mult_Suc_right of_nat_mult of_nat_Suc)
  have m: "leafmap s3 (slot d (la + of_nat (4096 * k))) \<noteq> None" if "k < Suc n" for k
  proof (cases k)
    case 0
    have "slot d la \<in> leafslots D" by (rule slot_in(1) [OF d la])
    with st(8) ih(5) 0 show ?thesis by (auto simp: keeps_def leafmap_def)
  next
    case (Suc j)
    then have "j < n" using that by simp
    from ih(6) [rule_format, OF this] show ?thesis unfolding Suc sh .
  qed
  have o: "leafpte s3 z = leafpte s z"
    if "z \<in> leafslots D" "\<forall>k < Suc n. z \<noteq> slot d (la + of_nat (4096 * k))" for z
  proof -
    have "z \<noteq> slot d la" using that(2) [rule_format, of 0] by simp
    moreover have "\<forall>k < n. z \<noteq> slot d (la + 4096 + of_nat (4096 * k))"
      using that(2) unfolding sh by auto
    ultimately show ?thesis using ih(7) st(9) that(1) by simp
  qed
  have len: "length fl \<le> length fl3 + 2 * Suc n" using st(5) ih(3) fl(1) by simp
  show ?case
    by (rule exI [of _ s3], rule exI [of _ fl3])
      (use run ih(2) len same_rest_trans [OF st(6) ih(4)] keeps_trans [OF st(7) ih(5)] m o in blast)
qed

section \<open>Stores\<close>

lemma sub_leafslots: "d \<in> D \<Longrightarrow> y \<in> leafslots {d} \<Longrightarrow> y \<in> leafslots D"
  by (auto simp: leafslots_def)

lemma slot_sub: "a < UTOP \<Longrightarrow> slot d a \<in> leafslots {d}"
  by (rule slot_in(1)) simp_all

text \<open>A write to a mapped page does not touch the page tables.\<close>

lemma loading_write:
  assumes L: "loading s D K fl d" and y: "y \<in> leafslots {d}" "leafmap s y = Some f"
    and s': "s' = s\<lparr>mem := (mem s)(f := g)\<rparr>"
  shows "loading s' D K fl d" "\<And>z. z \<in> leafslots D \<Longrightarrow> leafpte s' z = leafpte s z"
proof -
  have inv: "mm_inv s D K fl" and d: "d \<in> D" using L by (simp_all add: loading_def)
  have dp: "data_page s D fl f" by (rule mapped_data [OF inv sub_leafslots [OF d y(1)] y(2)])
  then have p: "f \<notin> D" "nrefs (ptmap s) (ptslots D) f = 0" by (simp_all add: data_page_def)
  have m: "\<forall>h. h \<noteq> f \<longrightarrow> mem s' h = mem s h" by (simp add: s')
  have r: "npage s' = npage s" "pp_ref s' = pp_ref s" "page_free_list s' = page_free_list s" by (simp_all add: s')
  note w = mm_data_write [OF inv p m r]
  show lp: "\<And>z. z \<in> leafslots D \<Longrightarrow> leafpte s' z = leafpte s z" by (rule w(2))
  have "user_tables s' d"
    unfolding user_tables_def
  proof (intro allI impI)
    fix i assume i: "i < UPDX" "ptmap s' (d, i) \<noteq> None"
    have "d \<noteq> f" using p(1) d by auto
    moreover have "ptmap s (d, i) \<noteq> None" using i w(3) [of "(d, i)"] d by (simp add: ptslots_def)
    ultimately show "mem s' d i AND PTE_U \<noteq> 0 \<and> mem s' d i AND PTE_W \<noteq> 0"
      using L i(1) by (simp add: loading_def user_tables_def s')
  qed
  moreover have "leafmap s' z = leafmap s z" if "z \<in> leafslots D" for z using lp [OF that] by (simp add: leafmap_def)
  ultimately show "loading s' D K fl d"
    using L w(1) lp sub_leafslots [OF d] by (simp add: loading_def)
qed

lemma loading_walk:
  assumes L: "loading s D K fl d" and c: "unat (PPN (cr3 s)) = d" and a: "a < UTOP"
  shows "mmu_walk True a s = leafmap s (slot d a)"
proof (cases "ptmap s (d, unat (PDX a))")
  case None
  then have "mem s d (unat (PDX a)) AND PTE_P = 0" by (auto simp: ptmap_def dest: ent_NoneD)
  with None show ?thesis
    by (simp add: mmu_walk_def c rd_def leafmap_def leafpte_def slot_def ent_def present_def)
next
  case (Some t)
  have e: "mem s d (unat (PDX a)) AND PTE_P \<noteq> 0" "unat (PPN (mem s d (unat (PDX a)))) = t"
    using Some ent_SomeD [of "mem s d (unat (PDX a))" t] by (simp_all add: ptmap_def)
  have own: "\<forall>y \<in> leafslots {d}. \<forall>f. leafmap s y = Some f \<longrightarrow> leafpte s y AND PTE_W \<noteq> 0"
    using L by (simp add: loading_def)
  have W: "mem s d (unat (PDX a)) AND PTE_W \<noteq> 0"
    using L Some PDX_user [OF a] by (simp add: loading_def user_tables_def)
  have lp: "leafpte s (slot d a) = mem s t (unat (PTX a))" using Some by (simp add: leafpte_def slot_def)
  show ?thesis
  proof (cases "leafmap s (slot d a)")
    case None
    then have "mem s t (unat (PTX a)) AND PTE_P = 0" using lp by (auto simp: leafmap_def dest: ent_NoneD)
    then show ?thesis using e W None by (simp add: mmu_walk_def c rd_def Let_def)
  next
    case (Some f)
    have "mem s t (unat (PTX a)) AND PTE_W \<noteq> 0"
      using own [rule_format, OF slot_sub [OF a] Some] lp by simp
    moreover have "mem s t (unat (PTX a)) AND PTE_P \<noteq> 0" "unat (PPN (mem s t (unat (PTX a)))) = f"
      using Some ent_SomeD [of "mem s t (unat (PTX a))" f] lp by (simp_all add: leafmap_def)
    ultimately show ?thesis using e W Some by (simp add: mmu_walk_def c rd_def Let_def)
  qed
qed

lemma off_parts: "unat (PGOFF a) = unat a mod 4096" "unat a mod 4096 mod 4 = unat a mod 4"
  by (simp_all add: PGOFF_unat mod_mod_cancel)

lemma vwrite8_ok:
  assumes L: "loading s D K fl d" and c: "unat (PPN (cr3 s)) = d" and a: "a < UTOP"
    and f: "leafmap s (slot d a) = Some f"
  shows "\<exists>s'. vwrite8 a b s = Some s' \<and> loading s' D K fl d \<and> same_rest s s'
    \<and> (\<forall>z \<in> leafslots D. leafpte s' z = leafpte s z)
    \<and> (\<forall>d' \<in> D. \<forall>x < UTOP. ubyte s' d' x = (if d' = d \<and> x = a then Some b else ubyte s d' x))"
proof -
  let ?o = "unat a mod 4096 div 4"
  let ?s' = "s\<lparr>mem := (mem s)(f := (mem s f)(?o := put_byte (unat a mod 4) b (mem s f ?o)))\<rparr>"
  have d: "d \<in> D" using L by (simp add: loading_def)
  have w: "vwrite8 a b s = Some ?s'"
    using loading_walk [OF L c a] f by (simp add: vwrite8_def off_parts wr_def rd_def Let_def)
  have se: "?s' = s\<lparr>mem := (mem s)(f := (mem s f)(?o := put_byte (unat a mod 4) b (mem s f ?o)))\<rparr>" ..
  note lw = loading_write [OF L slot_sub [OF a] f se]
  have "ubyte ?s' d' x = (if d' = d \<and> x = a then Some b else ubyte s d' x)" if x: "d' \<in> D" "x < UTOP" for d' x
  proof -
    have lm: "leafmap ?s' (slot d' x) = leafmap s (slot d' x)"
      using lw(2) [OF slot_in(1) [OF x]] by (simp add: leafmap_def)
    show ?thesis
    proof (cases "leafmap s (slot d' x) = Some f")
      case True
      then have sl: "slot d' x = slot d a"
        using L slot_sub [OF a] f slot_in(1) [OF x] by (auto simp: loading_def)
      then have dd: "d' = d" by (simp add: slot_def)
      then have pg: "unat x div 4096 = unat a div 4096" using sl slot_page by simp
      have eq: "x = a \<longleftrightarrow> unat x mod 4096 div 4 = ?o \<and> unat x mod 4 = unat a mod 4"
      proof
        assume e: "unat x mod 4096 div 4 = ?o \<and> unat x mod 4 = unat a mod 4"
        then have "unat x mod 4096 mod 4 = unat a mod 4096 mod 4" by (simp only: off_parts(2))
        with e have "unat x mod 4096 = unat a mod 4096" by (metis div_mult_mod_eq)
        with pg have "unat x = unat a" by (metis div_mult_mod_eq)
        then show "x = a" by (simp add: word_unat_eq_iff)
      qed simp
      have "get_byte (unat x mod 4) (put_byte (unat a mod 4) b w)
          = (if unat x mod 4 = unat a mod 4 then b else get_byte (unat x mod 4) w)" for w
        by (rule get_put_byte) simp_all
      then show ?thesis using lm True eq dd f by (auto simp: ubyte_def)
    next
      case False
      then have n: "\<not> (d' = d \<and> x = a)" using f by auto
      have "ubyte ?s' d' x = ubyte s d' x"
        using lm False by (cases "leafmap s (slot d' x)") (auto simp: ubyte_def)
      then show ?thesis unfolding if_not_P [OF n] .
    qed
  qed
  with w lw show ?thesis by (intro exI [of _ ?s']) (simp add: same_rest_def)
qed

lemma vwrite_bytes_ok:
  assumes "loading s D K fl d" and "unat (PPN (cr3 s)) = d" and "unat a + length bs \<le> unat UTOP"
    and "\<And>k. k < length bs \<Longrightarrow> leafmap s (slot d (a + of_nat k)) \<noteq> None"
  shows "\<exists>s'. vwrite_bytes a bs s = Some s' \<and> loading s' D K fl d \<and> same_rest s s'
    \<and> (\<forall>z \<in> leafslots D. leafpte s' z = leafpte s z)
    \<and> (\<forall>d' \<in> D. \<forall>x < UTOP. ubyte s' d' x =
         (if d' = d \<and> unat a \<le> unat x \<and> unat x < unat a + length bs then Some (bs ! (unat x - unat a))
          else ubyte s d' x))"
  using assms
proof (induction bs arbitrary: a s)
  case Nil
  then show ?case by (intro exI [of _ s]) (auto simp: same_rest_def)
next
  case (Cons b bs)
  have top: "unat UTOP < 2 ^ 32" by (simp add: layout)
  have a: "a < UTOP" using Cons.prems(3) by (simp add: word_less_nat_alt)
  have d: "d \<in> D" using Cons.prems(1) by (simp add: loading_def)
  obtain f where f: "leafmap s (slot d a) = Some f" using Cons.prems(4) [of 0] by auto
  obtain s1 where s1: "vwrite8 a b s = Some s1" "loading s1 D K fl d" "same_rest s s1"
      "\<forall>z \<in> leafslots D. leafpte s1 z = leafpte s z"
      "\<forall>d' \<in> D. \<forall>x < UTOP. ubyte s1 d' x = (if d' = d \<and> x = a then Some b else ubyte s d' x)"
    using vwrite8_ok [OF Cons.prems(1,2) a f] by blast
  have u: "unat (a + 1) = unat a + 1" using unat_add_small [of a 1] Cons.prems(3) top by simp
  have c1: "unat (PPN (cr3 s1)) = d" using s1(3) Cons.prems(2) by (simp add: same_rest_def)
  have len: "unat (a + 1) + length bs \<le> unat UTOP" using Cons.prems(3) by (simp add: u)
  have m1: "leafmap s1 (slot d (a + 1 + of_nat k)) \<noteq> None" if "k < length bs" for k
  proof -
    have e: "a + 1 + of_nat k = a + of_nat (Suc k)" by simp
    have "unat (a + of_nat (Suc k)) = unat a + Suc k"
      by (rule unat_add_nat) (use that Cons.prems(3) top in simp)
    then have "a + of_nat (Suc k) < UTOP" using that Cons.prems(3) by (simp add: word_less_nat_alt)
    with s1(4) slot_in(1) [OF d] Cons.prems(4) [of "Suc k"] that show ?thesis
      unfolding e by (simp add: leafmap_def)
  qed
  obtain s2 where s2: "vwrite_bytes (a + 1) bs s1 = Some s2" "loading s2 D K fl d" "same_rest s1 s2"
      "\<forall>z \<in> leafslots D. leafpte s2 z = leafpte s1 z"
      "\<forall>d' \<in> D. \<forall>x < UTOP. ubyte s2 d' x =
         (if d' = d \<and> unat (a + 1) \<le> unat x \<and> unat x < unat (a + 1) + length bs
          then Some (bs ! (unat x - unat (a + 1))) else ubyte s1 d' x)"
    using Cons.IH [OF s1(2) c1 len m1] by blast
  have "ubyte s2 d' x = (if d' = d \<and> unat a \<le> unat x \<and> unat x < unat a + length (b # bs)
      then Some ((b # bs) ! (unat x - unat a)) else ubyte s d' x)" if "d' \<in> D" "x < UTOP" for d' x
  proof -
    have "x = a \<longleftrightarrow> unat x = unat a" by (simp add: word_unat_eq_iff)
    then show ?thesis using s2(5) s1(5) that by (auto simp: u nth_Cons')
  qed
  with s1(1,4) s2(1,2,4) same_rest_trans [OF s1(3) s2(3)] show ?case
    by (intro exI [of _ s2]) simp
qed

end
