(* ===== verification/Boot.thy ===== *)
theory Boot
  imports Pmap_Boot
begin

text \<open>
  The boot of virtual memory: i386_vm_init of kern/pmap.c and the self tests it runs,
  check_page_alloc, page_check and check_boot_pgdir. A failed \<open>assert\<close> is a panic, \<open>None\<close>.

  \<open>kend\<close> and \<open>bootstack\<close> are the linker's symbols. \<open>pages\<close> and \<open>envs\<close>, the pointers that
  i386_vm_init sets, \<open>boot_freemem\<close> and the register CR0 are in the record \<open>bootvars\<close>; the
  contents of the two arrays are the fields \<open>pp_ref\<close>, \<open>page_free_list\<close> and \<open>envs\<close> of the
  kernel state, as everywhere in the model.
\<close>

unbundle bit_operations_syntax

record bootvars =
  boot_freemem :: u32
  pages_ptr :: u32
  envs_ptr :: u32
  cr0 :: u32

definition sizeof_Page :: u32 where "sizeof_Page = 12"
definition sizeof_Env :: u32 where "sizeof_Env = 144"

definition chk :: "bool \<Rightarrow> unit option" where
  "chk b = (if b then Some () else None)"

lemma chk_simps [simp]: "chk True = Some ()" "chk False = None"
  by (simp_all add: chk_def)

section \<open>Asserted calls\<close>

text \<open>\<open>assert(page_alloc(&pp) == 0)\<close> and \<open>assert(page_alloc(&pp) == -E_NO_MEM)\<close>.\<close>

definition must_alloc :: "kstate \<Rightarrow> (nat \<times> kstate) option" where
  "must_alloc s =
     do {
       (r, s1) \<leftarrow> page_alloc s;
       case r of Inr pp \<Rightarrow> Some (pp, s1) | Inl _ \<Rightarrow> None
     }"

definition no_mem :: "kstate \<Rightarrow> kstate option" where
  "no_mem s =
     do {
       (r, s1) \<leftarrow> page_alloc s;
       case r of Inl E_NO_MEM \<Rightarrow> Some s1 | _ \<Rightarrow> None
     }"

text \<open>\<open>assert(page_insert(...) == 0)\<close> and \<open>assert(page_insert(...) < 0)\<close>.\<close>

definition must_insert :: "nat \<Rightarrow> nat \<Rightarrow> u32 \<Rightarrow> u32 \<Rightarrow> kstate \<Rightarrow> kstate option" where
  "must_insert pgdir pp va perm s =
     do {
       (r, s1) \<leftarrow> page_insert pgdir pp va perm s;
       case r of Inr _ \<Rightarrow> Some s1 | Inl _ \<Rightarrow> None
     }"

definition must_not_insert :: "nat \<Rightarrow> nat \<Rightarrow> u32 \<Rightarrow> u32 \<Rightarrow> kstate \<Rightarrow> kstate option" where
  "must_not_insert pgdir pp va perm s =
     do {
       (r, s1) \<leftarrow> page_insert pgdir pp va perm s;
       case r of Inl _ \<Rightarrow> Some s1 | Inr _ \<Rightarrow> None
     }"

text \<open>\<open>assert(check_va2pa(pgdir, va) == pa)\<close>.\<close>

definition at_pa :: "nat \<Rightarrow> u32 \<Rightarrow> u32 \<Rightarrow> kstate \<Rightarrow> unit option" where
  "at_pa pgdir va pa s = do { p \<leftarrow> check_va2pa pgdir va s; chk (p = pa) }"

section \<open>check\_page\_alloc\<close>

text \<open>\<open>memset(page2kva(pp), 0x97, 128)\<close>, 32 words.\<close>

definition poison_page :: "nat \<Rightarrow> kstate \<Rightarrow> kstate option" where
  "poison_page pp s =
     do {
       kva \<leftarrow> page2kva (npage s) pp;
       let f = fst (kptr kva 0);
       Some (s\<lparr>mem := (mem s)(f := (\<lambda>i. if i < 32 then 0x97979797 else mem s f i))\<rparr>)
     }"

text \<open>The two loops \<open>LIST_FOREACH(pp0, &page_free_list, pp_link)\<close>.\<close>

partial_function (option) poison_loop :: "nat option \<Rightarrow> kstate \<Rightarrow> kstate option" where
  "poison_loop v s =
     (case v of
        None \<Rightarrow> Some s
      | Some pp \<Rightarrow>
          Option.bind (poison_page pp s) (\<lambda>s1. poison_loop (LIST_NEXT (page_free_list s1) pp) s1))"

definition check_free_page :: "u32 \<Rightarrow> nat \<Rightarrow> kstate \<Rightarrow> unit option" where
  "check_free_page fm pp s =
     do {
       chk (pp < npage s);
       chk (page2pa pp \<noteq> 0);
       chk (page2pa pp \<noteq> IOPHYSMEM);
       chk (page2pa pp \<noteq> EXTPHYSMEM - PGSIZE);
       chk (page2pa pp \<noteq> EXTPHYSMEM);
       kva \<leftarrow> page2kva (npage s) pp;
       chk (kva \<noteq> ROUNDDOWN (fm - 1) PGSIZE)
     }"

partial_function (option) check_free_loop :: "u32 \<Rightarrow> nat option \<Rightarrow> kstate \<Rightarrow> unit option" where
  "check_free_loop fm v s =
     (case v of
        None \<Rightarrow> Some ()
      | Some pp \<Rightarrow>
          Option.bind (check_free_page fm pp s)
            (\<lambda>_. check_free_loop fm (LIST_NEXT (page_free_list s) pp) s))"

text \<open>\<open>fl = page_free_list\<close> copies the list head only; the links stay in the pages.\<close>

definition steal_free_list :: "kstate \<Rightarrow> nat option \<times> kstate" where
  "steal_free_list s =
     (lh_first (page_free_list s), s\<lparr>page_free_list := LIST_INIT (page_free_list s)\<rparr>)"

definition give_free_list :: "nat option \<Rightarrow> kstate \<Rightarrow> kstate" where
  "give_free_list fl s = s\<lparr>page_free_list := (page_free_list s)\<lparr>lh_first := fl\<rparr>\<rparr>"

definition check_page_alloc :: "u32 \<Rightarrow> kstate \<Rightarrow> kstate option" where
  "check_page_alloc fm s =
     do {
       s \<leftarrow> poison_loop (LIST_FIRST (page_free_list s)) s;
       check_free_loop fm (LIST_FIRST (page_free_list s)) s;
       (pp0, s) \<leftarrow> must_alloc s;
       (pp1, s) \<leftarrow> must_alloc s;
       (pp2, s) \<leftarrow> must_alloc s;
       chk (pp1 \<noteq> pp0);
       chk (pp2 \<noteq> pp1 \<and> pp2 \<noteq> pp0);
       chk (page2pa pp0 < of_nat (npage s) * PGSIZE);
       chk (page2pa pp1 < of_nat (npage s) * PGSIZE);
       chk (page2pa pp2 < of_nat (npage s) * PGSIZE);
       let (fl, s) = steal_free_list s;
       s \<leftarrow> no_mem s;
       let s = page_free pp2 (page_free pp1 (page_free pp0 s));
       (pp0, s) \<leftarrow> must_alloc s;
       (pp1, s) \<leftarrow> must_alloc s;
       (pp2, s) \<leftarrow> must_alloc s;
       chk (pp1 \<noteq> pp0);
       chk (pp2 \<noteq> pp1 \<and> pp2 \<noteq> pp0);
       s \<leftarrow> no_mem s;
       let s = give_free_list fl s;
       Some (page_free pp2 (page_free pp1 (page_free pp0 s)))
     }"

section \<open>page\_check\<close>

text \<open>From the stolen free list to the point where both pages are unmapped again.\<close>

definition page_check_map :: "nat \<Rightarrow> nat \<Rightarrow> nat \<Rightarrow> kstate \<Rightarrow> kstate option" where
  "page_check_map pp0 pp1 pp2 s =
     do {
       let d = boot_pgdir s;
       (pp, _, s) \<leftarrow> page_lookup d 0 s;
       chk (pp = None);
       s \<leftarrow> must_not_insert d pp1 0 0 s;
       s \<leftarrow> must_insert d pp1 0 0 (page_free pp0 s);
       chk (PTE_ADDR (rd s (d, 0)) = page2pa pp0);
       at_pa d 0 (page2pa pp1) s;
       chk (pp_ref s pp1 = 1);
       chk (pp_ref s pp0 = 1);
       s \<leftarrow> must_insert d pp2 PGSIZE 0 s;
       at_pa d PGSIZE (page2pa pp2) s;
       chk (pp_ref s pp2 = 1);
       s \<leftarrow> no_mem s;
       s \<leftarrow> must_insert d pp2 PGSIZE 0 s;
       at_pa d PGSIZE (page2pa pp2) s;
       chk (pp_ref s pp2 = 1);
       s \<leftarrow> no_mem s;
       ptep \<leftarrow> KADDR (npage s) (PTE_ADDR (rd s (d, unat (PDX PGSIZE))));
       (pte, s) \<leftarrow> pgdir_walk d PGSIZE 0 s;
       chk (pte = Some (kptr ptep (PTX PGSIZE)));
       s \<leftarrow> must_insert d pp2 PGSIZE PTE_U s;
       at_pa d PGSIZE (page2pa pp2) s;
       chk (pp_ref s pp2 = 1);
       (pte, s) \<leftarrow> pgdir_walk d PGSIZE 0 s;
       p \<leftarrow> pte;
       chk (rd s p AND PTE_U \<noteq> 0);
       chk (rd s (d, 0) AND PTE_U \<noteq> 0);
       s \<leftarrow> must_not_insert d pp0 PTSIZE 0 s;
       s \<leftarrow> must_insert d pp1 PGSIZE 0 s;
       (pte, s) \<leftarrow> pgdir_walk d PGSIZE 0 s;
       p \<leftarrow> pte;
       chk (rd s p AND PTE_U = 0);
       at_pa d 0 (page2pa pp1) s;
       at_pa d PGSIZE (page2pa pp1) s;
       chk (pp_ref s pp1 = 2);
       chk (pp_ref s pp2 = 0);
       (pp, s) \<leftarrow> must_alloc s;
       chk (pp = pp2);
       s \<leftarrow> page_remove d 0 s;
       at_pa d 0 (NOT 0) s;
       at_pa d PGSIZE (page2pa pp1) s;
       chk (pp_ref s pp1 = 1);
       chk (pp_ref s pp2 = 0);
       s \<leftarrow> page_remove d PGSIZE s;
       at_pa d 0 (NOT 0) s;
       at_pa d PGSIZE (NOT 0) s;
       chk (pp_ref s pp1 = 0);
       chk (pp_ref s pp2 = 0);
       (pp, s) \<leftarrow> must_alloc s;
       chk (pp = pp1);
       no_mem s
     }"

text \<open>The rest: \<open>pp0\<close> taken back, twice used as a new page table, and taken back again.\<close>

definition page_check_tables :: "nat \<Rightarrow> kstate \<Rightarrow> kstate option" where
  "page_check_tables pp0 s =
     do {
       let d = boot_pgdir s;
       chk (PTE_ADDR (rd s (d, 0)) = page2pa pp0);
       let s = wr (d, 0) 0 s;
       chk (pp_ref s pp0 = 1);
       let s = page_free pp0 (set_ref pp0 0 s);
       let va = PGSIZE * of_nat NPDENTRIES + PGSIZE;
       (ptep, s) \<leftarrow> pgdir_walk d va 1 s;
       ptep1 \<leftarrow> KADDR (npage s) (PTE_ADDR (rd s (d, unat (PDX va))));
       chk (ptep = Some (kptr ptep1 (PTX va)));
       let s = set_ref pp0 0 (wr (d, unat (PDX va)) 0 s);
       kva \<leftarrow> page2kva (npage s) pp0;
       let s = s\<lparr>mem := (mem s)(fst (kptr kva 0) := (\<lambda>_. 0xFFFFFFFF))\<rparr>;
       (_, s) \<leftarrow> pgdir_walk d 0 1 (page_free pp0 s);
       kva \<leftarrow> page2kva (npage s) pp0;
       chk (list_all (\<lambda>i. rd s (fst (kptr kva 0), i) AND PTE_P = 0) [0..<NPTENTRIES]);
       Some (set_ref pp0 0 (wr (d, 0) 0 s))
     }"

definition page_check :: "kstate \<Rightarrow> kstate option" where
  "page_check s =
     do {
       (pp0, s) \<leftarrow> must_alloc s;
       (pp1, s) \<leftarrow> must_alloc s;
       (pp2, s) \<leftarrow> must_alloc s;
       chk (pp1 \<noteq> pp0);
       chk (pp2 \<noteq> pp1 \<and> pp2 \<noteq> pp0);
       let (fl, s) = steal_free_list s;
       s \<leftarrow> no_mem s;
       s \<leftarrow> page_check_map pp0 pp1 pp2 s;
       s \<leftarrow> page_check_tables pp0 s;
       let s = give_free_list fl s;
       Some (page_free pp2 (page_free pp1 (page_free pp0 s)))
     }"

section \<open>check\_boot\_pgdir\<close>

text \<open>\<open>for (i = 0; i < n; i += PGSIZE) assert(check_va2pa(pgdir, base + i) == pa + i)\<close>.\<close>

partial_function (option) check_range ::
  "nat \<Rightarrow> u32 \<Rightarrow> u32 \<Rightarrow> u32 \<Rightarrow> u32 \<Rightarrow> kstate \<Rightarrow> unit option" where
  "check_range pgdir base n pa i s =
     (if i < n then
        Option.bind (at_pa pgdir (base + i) (pa + i) s)
          (\<lambda>_. check_range pgdir base n pa (i + PGSIZE) s)
      else Some ())"

definition pde_expected :: "nat \<Rightarrow> bool" where
  "pde_expected i \<longleftrightarrow>
     (if i \<in> {unat (PDX VPT), unat (PDX UVPT), unat (PDX (KSTACKTOP - 1)), unat (PDX UPAGES),
              unat (PDX UENVS)} then True
      else i \<ge> unat (PDX KERNBASE))"

definition check_boot_pgdir :: "u32 \<Rightarrow> bootvars \<Rightarrow> kstate \<Rightarrow> unit option" where
  "check_boot_pgdir bootstack b s =
     do {
       let d = boot_pgdir s;
       pg \<leftarrow> PADDR (pages_ptr b);
       check_range d UPAGES (ROUNDUP (of_nat (npage s) * sizeof_Page) PGSIZE) pg 0 s;
       en \<leftarrow> PADDR (envs_ptr b);
       check_range d UENVS (ROUNDUP (of_nat NENV * sizeof_Env) PGSIZE) en 0 s;
       check_range d KERNBASE (of_nat (npage s) * PGSIZE) 0 0 s;
       st \<leftarrow> PADDR bootstack;
       check_range d (KSTACKTOP - KSTKSIZE) KSTKSIZE st 0 s;
       at_pa d (KSTACKTOP - PTSIZE) (NOT 0) s;
       chk (list_all (\<lambda>i. (rd s (d, i) \<noteq> 0) = pde_expected i) [0..<NPDENTRIES])
     }"

section \<open>i386\_vm\_init\<close>

definition CR0_PE :: u32 where "CR0_PE = 0x00000001"
definition CR0_MP :: u32 where "CR0_MP = 0x00000002"
definition CR0_EM :: u32 where "CR0_EM = 0x00000004"
definition CR0_TS :: u32 where "CR0_TS = 0x00000008"
definition CR0_NE :: u32 where "CR0_NE = 0x00000020"
definition CR0_WP :: u32 where "CR0_WP = 0x00010000"
definition CR0_AM :: u32 where "CR0_AM = 0x00040000"
definition CR0_PG :: u32 where "CR0_PG = 0x80000000"

definition cr0_paging :: "u32 \<Rightarrow> u32" where
  "cr0_paging c =
     (c OR (CR0_PE OR CR0_PG OR CR0_AM OR CR0_WP OR CR0_NE OR CR0_TS OR CR0_EM OR CR0_MP))
       AND NOT (CR0_TS OR CR0_EM)"

text \<open>The boot-time allocations and the page directory up to the call of page_init.\<close>

definition vm_init_alloc :: "u32 \<Rightarrow> bootvars \<Rightarrow> kstate \<Rightarrow> (bootvars \<times> kstate) option" where
  "vm_init_alloc kend b s =
     do {
       let (pgdir, fm) = boot_alloc kend (boot_freemem b) PGSIZE PGSIZE;
       let d = fst (kptr pgdir 0);
       let s = zero_page d s;
       pa \<leftarrow> PADDR pgdir;
       let s = s\<lparr>boot_pgdir := d, boot_cr3 := pa\<rparr>;
       let s = wr (d, unat (PDX VPT)) (pa OR PTE_W OR PTE_P) s;
       let s = wr (d, unat (PDX UVPT)) (pa OR PTE_U OR PTE_P) s;
       let (pg, fm) = boot_alloc kend fm (of_nat (npage s) * sizeof_Page) PGSIZE;
       let (en, fm) = boot_alloc kend fm (of_nat NENV * sizeof_Env) PGSIZE;
       Some (b\<lparr>boot_freemem := fm, pages_ptr := pg, envs_ptr := en\<rparr>, s)
     }"

text \<open>The four segments of the kernel's part of the address space.\<close>

definition vm_init_segments :: "u32 \<Rightarrow> bootvars \<Rightarrow> kstate \<Rightarrow> kstate option" where
  "vm_init_segments bootstack b s =
     do {
       let d = boot_pgdir s;
       pg \<leftarrow> PADDR (pages_ptr b);
       s \<leftarrow> boot_map_segment d UPAGES (ROUNDUP (of_nat (npage s) * sizeof_Page) PGSIZE) pg PTE_U s;
       en \<leftarrow> PADDR (envs_ptr b);
       s \<leftarrow> boot_map_segment d UENVS (ROUNDUP (of_nat NENV * sizeof_Env) PGSIZE) en PTE_U s;
       st \<leftarrow> PADDR bootstack;
       s \<leftarrow> boot_map_segment d (KSTACKTOP - KSTKSIZE) KSTKSIZE st PTE_W s;
       boot_map_segment d KERNBASE (NOT KERNBASE + 1) 0 PTE_W s
     }"

text \<open>Turning paging on, with the low 4MB mapped while segmentation is reconfigured.\<close>

definition vm_init_paging :: "bootvars \<Rightarrow> kstate \<Rightarrow> bootvars \<times> kstate" where
  "vm_init_paging b s =
     (let d = boot_pgdir s;
          s = wr (d, 0) (rd s (d, unat (PDX KERNBASE))) s;
          s = lcr3 (boot_cr3 s) s;
          b = b\<lparr>cr0 := cr0_paging (cr0 b)\<rparr>;
          s = wr (d, 0) 0 s
      in (b, lcr3 (boot_cr3 s) s))"

definition i386_vm_init :: "u32 \<Rightarrow> u32 \<Rightarrow> bootvars \<Rightarrow> kstate \<Rightarrow> (bootvars \<times> kstate) option" where
  "i386_vm_init kend bootstack b s =
     do {
       (b, s) \<leftarrow> vm_init_alloc kend b s;
       s \<leftarrow> page_init (boot_freemem b) s;
       s \<leftarrow> check_page_alloc (boot_freemem b) s;
       s \<leftarrow> page_check s;
       s \<leftarrow> vm_init_segments bootstack b s;
       check_boot_pgdir bootstack b s;
       Some (vm_init_paging b s)
     }"

end
