(* ===== verification/Boot_Walk.thy ===== *)
theory Boot_Walk
  imports Boot Tlb
begin

text \<open>
  The page directory under construction: pgdir_walk and boot_map_segment of kern/pmap.c on
  every address but the two windows VPT and UVPT, where the directory maps itself. The
  invariant \<open>dir_inv d s fl\<close> says that each present entry of directory \<open>d\<close> has a page table of
  its own, which is not on the free list \<open>fl\<close>.
\<close>

unbundle bit_operations_syntax

section \<open>The invariant of the boot directory\<close>

definition kdirs :: "nat set" where
  "kdirs = {..<1024} - {unat (PDX UVPT), unat (PDX VPT)}"

definition dir_inv :: "nat \<Rightarrow> kstate \<Rightarrow> nat list \<Rightarrow> bool" where
  "dir_inv d s fl \<longleftrightarrow> pages_wf s fl \<and> d < npage s \<and> d \<notin> set fl
   \<and> (\<forall>i \<in> kdirs. ptmap s (d, i) = None \<longrightarrow> mem s d i = 0)
   \<and> (\<forall>i \<in> kdirs. \<forall>t. ptmap s (d, i) = Some t \<longrightarrow>
        t < npage s \<and> t \<noteq> d \<and> t \<notin> set fl \<and> mem s d i = mkpte t (PTE_U OR PTE_W))
   \<and> (\<forall>i \<in> kdirs. \<forall>j \<in> kdirs. \<forall>t. ptmap s (d, i) = Some t \<longrightarrow> ptmap s (d, j) = Some t \<longrightarrow> i = j)"

lemma kdirs_iff: "i \<in> kdirs \<longleftrightarrow> i < 1024 \<and> i \<noteq> 957 \<and> i \<noteq> 959"
  by (auto simp: kdirs_def unat_PDX layout)

lemma dir_invD:
  assumes "dir_inv d s fl"
  shows "pages_wf s fl" "d < npage s" "d \<notin> set fl" "npage s \<le> 2 ^ 20"
    "\<And>i. i \<in> kdirs \<Longrightarrow> ptmap s (d, i) = None \<Longrightarrow> mem s d i = 0"
    "\<And>i t. i \<in> kdirs \<Longrightarrow> ptmap s (d, i) = Some t \<Longrightarrow> t < npage s"
    "\<And>i t. i \<in> kdirs \<Longrightarrow> ptmap s (d, i) = Some t \<Longrightarrow> t \<noteq> d"
    "\<And>i t. i \<in> kdirs \<Longrightarrow> ptmap s (d, i) = Some t \<Longrightarrow> t \<notin> set fl"
    "\<And>i t. i \<in> kdirs \<Longrightarrow> ptmap s (d, i) = Some t \<Longrightarrow> mem s d i = mkpte t (PTE_U OR PTE_W)"
    "\<And>i j t. i \<in> kdirs \<Longrightarrow> j \<in> kdirs \<Longrightarrow> ptmap s (d, i) = Some t \<Longrightarrow> ptmap s (d, j) = Some t \<Longrightarrow> i = j"
  using assms unfolding dir_inv_def pages_wf_def by blast+

text \<open>A directory with no entry outside the windows, after page_init.\<close>

lemma dir_inv_empty:
  assumes "pages_wf s fl" "d < npage s" "d \<notin> set fl" "\<And>i. i \<in> kdirs \<Longrightarrow> mem s d i = 0"
  shows "dir_inv d s fl"
  using assms by (auto simp: dir_inv_def ptmap_def)

section \<open>pgdir\_walk at boot\<close>

lemma raw_walk_present:
  assumes "ent (mem s d (unat (PDX va))) = Some t" and "t < npage s"
  shows "pgdir_walk d va c s = Some (Some (t, unat (PTX va)), s)"
  using ent_SomeD [OF assms(1)] assms(2)
    KADDR_frame [of "rd s (d, unat (PDX va))" t "npage s" "PTX va"]
  by (force simp: pgdir_walk_def rd_def Let_def)

lemma raw_walk_create:
  assumes none: "mem s d (unat (PDX va)) = 0" and l: "page_alloc s = Some (Inr t, s\<lparr>page_free_list := l\<rparr>)"
    and t: "t < npage s" and np: "npage s \<le> 2 ^ 20" and td: "t \<noteq> d"
  shows "pgdir_walk d va 1 s = Some (Some (t, unat (PTX va)),
    s\<lparr>page_free_list := l, pp_ref := (pp_ref s)(t := 1),
      mem := (mem s)(t := (\<lambda>_. 0), d := (mem s d)(unat (PDX va) := mkpte t (PTE_U OR PTE_W)))\<rparr>)"
proof -
  let ?v = "page2pa t OR PTE_U OR PTE_W OR PTE_P"
  let ?s2 = "set_ref t 1 (s\<lparr>page_free_list := l\<rparr>)"
  let ?s4 = "wr (d, unat (PDX va)) ?v (zero_page t ?s2)"
  have mk: "?v = mkpte t (PTE_U OR PTE_W)" by (simp add: mkpte_def or.assoc)
  have "ent (mkpte t (PTE_U OR PTE_W)) = Some t"
    using t np by (intro ent_mkpte) (simp_all add: pte_flags)
  then have f: "unat (PPN ?v) = t" using ent_SomeD unfolding mk by blast
  obtain kva where kva: "page2kva (npage ?s2) t = Some kva" "kptr kva 0 = (t, unat (0::u32))"
    using page2kva_ok [of t "npage ?s2" 0] t np by auto
  have np4: "npage ?s4 = npage s" by (simp add: zero_page_def)
  obtain kva' where kva': "KADDR (npage ?s4) (PTE_ADDR ?v) = Some kva'"
      "kptr kva' (PTX va) = (t, unat (PTX va))"
    using KADDR_frame [OF f, of "npage s" "PTX va"] t np4 by auto
  have "pgdir_walk d va 1 s = Some (Some (t, unat (PTX va)), ?s4)"
    using none l kva kva' by (simp add: pgdir_walk_def Let_def rd_def [of s])
  then show ?thesis
    using td by (simp add: wr_def zero_page_def set_ref_def mk)
qed

lemma raw_walk_absent:
  assumes "mem s d (unat (PDX va)) = 0" and "c \<noteq> 1"
  shows "pgdir_walk d va c s = Some (None, s)"
  using assms by (simp add: pgdir_walk_def rd_def)

lemma raw_walk_nomem:
  assumes "mem s d (unat (PDX va)) = 0" and "lh_first (page_free_list s) = None"
  shows "pgdir_walk d va 1 s = Some (None, s)"
  using assms by (simp add: pgdir_walk_def rd_def page_alloc_def LIST_FIRST_def)

section \<open>One entry\<close>

text \<open>
  What a step of the boot-time mapping leaves alone, and what it does with the pages that it takes
  from the free list: they become page tables with one reference.
\<close>

definition dir_frame :: "nat \<Rightarrow> kstate \<Rightarrow> nat list \<Rightarrow> kstate \<Rightarrow> nat list \<Rightarrow> bool" where
  "dir_frame d s fl s' fl' \<longleftrightarrow> same_rest s s' \<and> tlb s' = tlb s \<and> (\<exists>k. fl' = drop k fl)
     \<and> (\<forall>i. i \<notin> kdirs \<longrightarrow> mem s' d i = mem s d i)
     \<and> (\<forall>p. p \<notin> set fl \<longrightarrow> pp_ref s' p = pp_ref s p)
     \<and> (\<forall>i \<in> kdirs. \<forall>t. ptmap s (d, i) = Some t \<longrightarrow> ptmap s' (d, i) = Some t)
     \<and> (\<forall>p \<in> set fl - set fl'. pp_ref s' p = 1 \<and> (\<exists>i \<in> kdirs. ptmap s' (d, i) = Some p))"

lemma dir_frame_refl [simp]: "dir_frame d s fl s fl"
  by (auto simp: dir_frame_def intro: exI [of _ 0])

lemma dir_frame_trans:
  assumes "dir_frame d s fl s1 fl1" and "dir_frame d s1 fl1 s2 fl2"
  shows "dir_frame d s fl s2 fl2"
proof -
  obtain k where k: "fl1 = drop k fl" using assms(1) by (auto simp: dir_frame_def)
  then have "set fl1 \<subseteq> set fl" by (simp add: set_drop_subset)
  moreover have "\<exists>k. fl2 = drop k fl" using assms(2) k by (auto simp: dir_frame_def)
  moreover have "pp_ref s2 p = 1 \<and> (\<exists>i \<in> kdirs. ptmap s2 (d, i) = Some p)" if "p \<in> set fl - set fl2" for p
  proof (cases "p \<in> set fl1")
    case True
    with that assms(2) show ?thesis by (simp add: dir_frame_def)
  next
    case False
    with that have "p \<in> set fl - set fl1" by simp
    with assms(1) obtain i where i: "pp_ref s1 p = 1" "i \<in> kdirs" "ptmap s1 (d, i) = Some p"
      unfolding dir_frame_def by blast
    moreover have "pp_ref s2 p = pp_ref s1 p" "ptmap s2 (d, i) = Some p"
      using assms(2) False i unfolding dir_frame_def by blast+
    ultimately show ?thesis by auto
  qed
  ultimately show ?thesis
    using assms unfolding dir_frame_def by (auto intro: same_rest_trans)
qed

lemma leafpte_mem: "leafpte s (d, i, j) = (case ptmap s (d, i) of None \<Rightarrow> 0 | Some t \<Rightarrow> mem s t j)"
  by (simp add: leafpte_def)

text \<open>pgdir_walk finds the page table or takes one from the free list.\<close>

lemma dir_walk:
  assumes inv: "dir_inv d s fl" and i: "i = unat (PDX va)" "i \<in> kdirs"
    and room: "ptmap s (d, i) \<noteq> None \<or> fl \<noteq> []"
  defines "fl' \<equiv> (if ptmap s (d, i) = None then tl fl else fl)"
  shows "\<exists>s' t. pgdir_walk d va 1 s = Some (Some (t, unat (PTX va)), s') \<and> dir_inv d s' fl'
    \<and> ptmap s' (d, i) = Some t
    \<and> (\<forall>k \<in> kdirs. k \<noteq> i \<longrightarrow> ptmap s' (d, k) = ptmap s (d, k))
    \<and> (\<forall>k \<in> kdirs. \<forall>j. leafpte s' (d, k, j) = leafpte s (d, k, j))
    \<and> dir_frame d s fl s' fl'"
proof (cases "ptmap s (d, i)")
  case (Some t)
  then have "ent (mem s d (unat (PDX va))) = Some t" using i by (simp add: ptmap_def)
  from raw_walk_present [OF this dir_invD(6) [OF inv i(2) Some]] inv Some i show ?thesis
    by (auto simp: fl'_def)
next
  case None
  with room obtain t fl1 where fl: "fl = t # fl1" by (cases fl) auto
  note D = dir_invD [OF inv]
  have ls: "is_list (page_free_list s) (t # fl1)" using D(1) fl by (simp add: pages_wf_def)
  then have dist: "t \<notin> set fl1" using tailq.repr_distinct by fastforce
  from page_alloc_Cons [OF ls] obtain l where
    l: "page_alloc s = Some (Inr t, s\<lparr>page_free_list := l\<rparr>)" "is_list l fl1" by blast
  have tn: "t < npage s" "t \<noteq> d" using D(1,3) fl by (auto simp: pages_wf_def)
  let ?v = "mkpte t (PTE_U OR PTE_W)"
  let ?s' = "s\<lparr>page_free_list := l, pp_ref := (pp_ref s)(t := 1),
      mem := (mem s)(t := (\<lambda>_. 0), d := (mem s d)(i := ?v))\<rparr>"
  have w: "pgdir_walk d va 1 s = Some (Some (t, unat (PTX va)), ?s')"
    using raw_walk_create [of s d va t l] D(5) [OF i(2) None] l(1) tn D(4) i by simp
  have ev: "ent ?v = Some t" using tn D(4) by (intro ent_mkpte) (simp_all add: pte_flags)
  have pt: "ptmap ?s' (d, k) = (if k = i then Some t else ptmap s (d, k))" for k
    using tn ev by (simp add: ptmap_def)
  have nt: "t' \<noteq> t" if "k \<in> kdirs" "ptmap s (d, k) = Some t'" for k t'
    using D(8) [OF that] fl by auto
  have nt': "\<And>k. k \<in> kdirs \<Longrightarrow> ptmap s (d, k) \<noteq> Some t" using nt by blast
  have lp: "leafpte ?s' (d, k, j) = leafpte s (d, k, j)" if k: "k \<in> kdirs" for k j
  proof (cases "ptmap s (d, k)")
    case None
    then show ?thesis using \<open>ptmap s (d, i) = None\<close> tn ev unfolding leafpte_mem pt
      by (simp add: leafpte_mem)
  next
    case (Some t')
    with nt [OF k Some] D(7) [OF k Some] None show ?thesis
      unfolding leafpte_mem pt by (auto simp: leafpte_mem)
  qed
  have wf: "pages_wf ?s' fl1" using D(1) l(2) dist fl by (auto simp: pages_wf_def)
  have "dir_inv d ?s' fl1"
    unfolding dir_inv_def pt
    using wf D(2,3,5-10) fl dist tn nt nt' by (auto simp: fun_upd_apply)
  moreover have "dir_frame d s fl ?s' fl1"
    unfolding dir_frame_def pt
    using fl i None by (auto simp: same_rest_def fun_upd_apply tn intro: exI [of _ 1])
  ultimately show ?thesis using w pt lp None fl by (auto simp: fl'_def)
qed

text \<open>Writing an entry of a page table that is present.\<close>

lemma dir_write:
  assumes inv: "dir_inv d s fl" and i: "i \<in> kdirs" and t: "ptmap s (d, i) = Some t"
  shows "dir_inv d (wr (t, j) v s) fl" "ptmap (wr (t, j) v s) (d, k) = ptmap s (d, k)"
    "k \<in> kdirs \<Longrightarrow>
      leafpte (wr (t, j) v s) (d, k, m) = (if k = i \<and> m = j then v else leafpte s (d, k, m))"
    "dir_frame d s fl (wr (t, j) v s) fl"
proof -
  note D = dir_invD [OF inv]
  have td: "t \<noteq> d" by (rule D(7) [OF i t])
  then have md: "mem (wr (t, j) v s) d = mem s d" by (simp add: wr_def)
  then have pt: "\<And>k. ptmap (wr (t, j) v s) (d, k) = ptmap s (d, k)" by (simp add: ptmap_def)
  then show "ptmap (wr (t, j) v s) (d, k) = ptmap s (d, k)" .
  show "dir_inv d (wr (t, j) v s) fl"
    using inv unfolding dir_inv_def pages_wf_def pt md wr_fields .
  show "leafpte (wr (t, j) v s) (d, k, m) = (if k = i \<and> m = j then v else leafpte s (d, k, m))"
    if k: "k \<in> kdirs"
  proof (cases "ptmap s (d, k)")
    case None
    with t show ?thesis unfolding leafpte_mem pt by auto
  next
    case (Some t')
    then have "t' = t \<longleftrightarrow> k = i" using D(10) [OF k i] t by auto
    with Some show ?thesis unfolding leafpte_mem pt by (auto simp: wr_def)
  qed
  show "dir_frame d s fl (wr (t, j) v s) fl"
    unfolding dir_frame_def md pt by (auto intro: exI [of _ 0])
qed

section \<open>Consecutive pages\<close>

text \<open>The address of page \<open>v\<close> of the address space, and its two indices.\<close>

definition vaddr :: "nat \<Rightarrow> u32" where
  "vaddr v = of_nat (v * 4096)"

lemma unat_vaddr: "v < 2 ^ 20 \<Longrightarrow> unat (vaddr v) = v * 4096"
  by (simp add: vaddr_def unat_of_nat take_bit_nat_eq_self del: of_nat_mult)

lemma vaddr_parts:
  assumes "v < 2 ^ 20"
  shows "unat (PDX (vaddr v)) = v div 1024" "unat (PTX (vaddr v)) = v mod 1024"
proof -
  have "v * 4096 div 4194304 = v div 1024"
    using div_mult2_eq [of "v * 4096" 4096 1024] by simp
  then show "unat (PDX (vaddr v)) = v div 1024" by (simp add: unat_PDX unat_vaddr [OF assms])
  show "unat (PTX (vaddr v)) = v mod 1024" by (simp add: unat_PTX unat_vaddr [OF assms])
qed

lemma vaddr_Suc: "vaddr v + PGSIZE = vaddr (Suc v)"
  by (simp add: vaddr_def PGSIZE_def)

text \<open>The directory entries of the pages from \<open>v\<close> on, and those that have no table yet.\<close>

definition seg_dirs :: "nat \<Rightarrow> nat \<Rightarrow> nat set" where
  "seg_dirs v n = (\<lambda>u. u div 1024) ` {v..<v + n}"

definition absent :: "nat \<Rightarrow> kstate \<Rightarrow> nat \<Rightarrow> nat \<Rightarrow> nat set" where
  "absent d s v n = {i \<in> seg_dirs v n. ptmap s (d, i) = None}"

lemma seg_dirs_Suc: "seg_dirs v (Suc n) = insert (v div 1024) (seg_dirs (Suc v) n)"
proof -
  have "{v..<v + Suc n} = insert v {Suc v..<Suc v + n}" by auto
  then show ?thesis unfolding seg_dirs_def by simp
qed

lemma finite_absent [simp]: "finite (absent d s v n)"
  by (auto simp: absent_def seg_dirs_def)

definition seg_pte :: "nat \<Rightarrow> nat \<Rightarrow> u32 \<Rightarrow> u32 \<Rightarrow> nat \<Rightarrow> u32" where
  "seg_pte v n pa perm u = ((pa + vaddr (u - v)) OR perm OR PTE_P)"

lemma map_pages_dir:
  assumes "dir_inv d s fl" and "v + n \<le> 2 ^ 20" and "seg_dirs v n \<subseteq> kdirs"
    and "card (absent d s v n) \<le> length fl"
  shows "\<exists>s' fl'. map_pages d (vaddr v) pa perm n s = Some s' \<and> dir_inv d s' fl'
    \<and> dir_frame d s fl s' fl' \<and> length fl \<le> length fl' + card (absent d s v n)
    \<and> (\<forall>i \<in> kdirs. ptmap s' (d, i) \<noteq> None \<longleftrightarrow> ptmap s (d, i) \<noteq> None \<or> i \<in> seg_dirs v n)
    \<and> (\<forall>i \<in> kdirs. \<forall>j < 1024. leafpte s' (d, i, j) =
         (if v \<le> i * 1024 + j \<and> i * 1024 + j < v + n then seg_pte v n pa perm (i * 1024 + j)
          else leafpte s (d, i, j)))"
  using assms
proof (induction n arbitrary: v pa s fl)
  case 0
  then show ?case by (auto simp: seg_dirs_def intro!: exI [of _ fl])
next
  case (Suc n)
  let ?i = "v div 1024" and ?m = "v mod 1024"
  have v20: "v < 2 ^ 20" using Suc.prems(2) by simp
  have ik: "?i \<in> kdirs" using Suc.prems(3) seg_dirs_Suc by auto
  have sub: "seg_dirs (Suc v) n \<subseteq> kdirs" using Suc.prems(3) seg_dirs_Suc by auto
  have room: "ptmap s (d, ?i) \<noteq> None \<or> fl \<noteq> []"
  proof (cases "ptmap s (d, ?i)")
    case None
    then have "?i \<in> absent d s v (Suc n)" by (simp add: absent_def seg_dirs_Suc)
    then have "card (absent d s v (Suc n)) \<noteq> 0" by auto
    then show ?thesis using Suc.prems(4) by auto
  qed simp
  let ?fl1 = "if ptmap s (d, ?i) = None then tl fl else fl"
  obtain s1 t where w: "pgdir_walk d (vaddr v) 1 s = Some (Some (t, ?m), s1)"
    and s1: "dir_inv d s1 ?fl1" "ptmap s1 (d, ?i) = Some t"
      "\<And>k. k \<in> kdirs \<Longrightarrow> k \<noteq> ?i \<Longrightarrow> ptmap s1 (d, k) = ptmap s (d, k)"
      "\<And>k j. k \<in> kdirs \<Longrightarrow> leafpte s1 (d, k, j) = leafpte s (d, k, j)"
      "dir_frame d s fl s1 ?fl1"
    using dir_walk [OF Suc.prems(1) vaddr_parts(1) [OF v20, symmetric] ik room]
    unfolding vaddr_parts(2) [OF v20] by blast
  let ?s2 = "wr (t, ?m) (pa OR perm OR PTE_P) s1"
  note s2 = dir_write [OF s1(1) ik s1(2), where j = ?m and v = "pa OR perm OR PTE_P"]
  have pt2: "ptmap ?s2 (d, k) = (if k = ?i then Some t else ptmap s (d, k))" if "k \<in> kdirs" for k
    using s2(2) s1(2,3) that by simp
  have ab: "absent d ?s2 (Suc v) n \<subseteq> absent d s v (Suc n) - {?i}"
  proof
    fix k assume "k \<in> absent d ?s2 (Suc v) n"
    then have k: "k \<in> seg_dirs (Suc v) n" "ptmap ?s2 (d, k) = None" by (simp_all add: absent_def)
    have "(if k = ?i then Some t else ptmap s (d, k)) = None"
      using pt2 [of k] k sub by (simp add: subset_iff)
    with k(1) show "k \<in> absent d s v (Suc n) - {?i}"
      by (auto simp: absent_def seg_dirs_Suc split: if_splits)
  qed
  have cab: "card (absent d ?s2 (Suc v) n) + (if ptmap s (d, ?i) = None then 1 else 0)
      \<le> card (absent d s v (Suc n))"
  proof (cases "ptmap s (d, ?i) = None")
    case True
    then have "?i \<in> absent d s v (Suc n)" by (simp add: absent_def seg_dirs_Suc)
    then have "Suc (card (absent d s v (Suc n) - {?i})) = card (absent d s v (Suc n))"
      by (rule card_Suc_Diff1 [OF finite_absent])
    with card_mono [OF _ ab] True show ?thesis by simp
  next
    case False
    have "card (absent d ?s2 (Suc v) n) \<le> card (absent d s v (Suc n))"
      by (rule card_mono) (use ab in auto)
    with False show ?thesis by auto
  qed
  then have "card (absent d ?s2 (Suc v) n) \<le> length ?fl1" using Suc.prems(4) by auto
  from Suc.IH [OF s2(1) _ sub this, of "pa + PGSIZE"] Suc.prems(2)
  obtain s' fl' where ih: "map_pages d (vaddr (Suc v)) (pa + PGSIZE) perm n ?s2 = Some s'"
    "dir_inv d s' fl'" "dir_frame d ?s2 ?fl1 s' fl'"
    "length ?fl1 \<le> length fl' + card (absent d ?s2 (Suc v) n)"
    "\<And>i. i \<in> kdirs \<Longrightarrow> ptmap s' (d, i) \<noteq> None \<longleftrightarrow> ptmap ?s2 (d, i) \<noteq> None \<or> i \<in> seg_dirs (Suc v) n"
    "\<And>i j. i \<in> kdirs \<Longrightarrow> j < 1024 \<Longrightarrow> leafpte s' (d, i, j) =
       (if Suc v \<le> i * 1024 + j \<and> i * 1024 + j < Suc v + n
        then seg_pte (Suc v) n (pa + PGSIZE) perm (i * 1024 + j) else leafpte ?s2 (d, i, j))"
    by auto
  have run: "map_pages d (vaddr v) pa perm (Suc n) s = Some s'"
    using w ih(1) by (simp add: vaddr_Suc)
  have fr: "dir_frame d s fl s' fl'"
    using dir_frame_trans [OF dir_frame_trans [OF s1(5) s2(4)] ih(3)] .
  have len: "length fl \<le> length fl' + card (absent d s v (Suc n))"
    using ih(4) cab Suc.prems(4) by (auto split: if_splits)
  have pt: "ptmap s' (d, i) \<noteq> None \<longleftrightarrow> ptmap s (d, i) \<noteq> None \<or> i \<in> seg_dirs v (Suc n)"
    if "i \<in> kdirs" for i
    using ih(5) [OF that] pt2 [OF that] by (auto simp: seg_dirs_Suc)
  have lf: "leafpte s' (d, i, j) = (if v \<le> i * 1024 + j \<and> i * 1024 + j < v + Suc n
      then seg_pte v (Suc n) pa perm (i * 1024 + j) else leafpte s (d, i, j))"
    if i: "i \<in> kdirs" and j: "j < 1024" for i j
  proof -
    have at: "i = ?i \<and> j = ?m \<longleftrightarrow> i * 1024 + j = v" using j by auto
    have old: "leafpte ?s2 (d, i, j) = (if i * 1024 + j = v then pa OR perm OR PTE_P else leafpte s (d, i, j))"
      unfolding s2(3) [OF i] s1(4) [OF i] at ..
    consider "i * 1024 + j = v" | "i * 1024 + j < v" | "Suc v \<le> i * 1024 + j" by linarith
    then show ?thesis
    proof cases
      case 1
      then show ?thesis unfolding ih(6) [OF i j] old by (simp add: seg_pte_def vaddr_def)
    next
      case 2
      then show ?thesis unfolding ih(6) [OF i j] old by simp
    next
      case 3
      then have "i * 1024 + j - v = Suc (i * 1024 + j - Suc v)" by simp
      then have "vaddr (i * 1024 + j - v) = PGSIZE + vaddr (i * 1024 + j - Suc v)"
        by (simp only: vaddr_Suc [symmetric] add.commute)
      then have "seg_pte (Suc v) n (pa + PGSIZE) perm (i * 1024 + j)
          = seg_pte v (Suc n) pa perm (i * 1024 + j)"
        by (simp only: seg_pte_def add.assoc)
      with 3 show ?thesis unfolding ih(6) [OF i j] old by simp
    qed
  qed
  show ?case using run ih(2) fr len pt lf by blast
qed

section \<open>Segments\<close>

lemma seg_dirs_iff:
  assumes "0 < n"
  shows "i \<in> seg_dirs v n \<longleftrightarrow> v div 1024 \<le> i \<and> i \<le> (v + n - 1) div 1024"
proof
  assume "i \<in> seg_dirs v n"
  then obtain u where u: "v \<le> u" "u < v + n" "i = u div 1024" by (auto simp: seg_dirs_def)
  then show "v div 1024 \<le> i \<and> i \<le> (v + n - 1) div 1024"
    using div_le_mono [of v u 1024] div_le_mono [of u "v + n - 1" 1024] by simp
next
  assume i: "v div 1024 \<le> i \<and> i \<le> (v + n - 1) div 1024"
  show "i \<in> seg_dirs v n"
  proof (cases "i = v div 1024")
    case True
    with assms show ?thesis unfolding seg_dirs_def by (intro image_eqI [of _ _ v]) auto
  next
    case False
    with i have "Suc (v div 1024) \<le> i" by simp
    then have "v \<le> i * 1024" by linarith
    moreover have "i * 1024 \<le> v + n - 1" using i by linarith
    then have "i * 1024 < v + n" using assms by linarith
    ultimately show ?thesis unfolding seg_dirs_def by (intro image_eqI [of _ _ "i * 1024"]) auto
  qed
qed

lemma card_absent:
  assumes "0 < n"
  shows "card (absent d s v n) \<le> Suc ((v + n - 1) div 1024) - v div 1024"
proof -
  have "absent d s v n \<subseteq> {v div 1024..(v + n - 1) div 1024}"
    using seg_dirs_iff [OF assms] by (auto simp: absent_def)
  from card_mono [OF _ this] show ?thesis by simp
qed

lemma segment_pages:
  assumes "unat sz = n * 4096" and "n < 2 ^ 20"
  shows "boot_map_segment d la sz pa perm s = map_pages d la pa perm n s"
  unfolding boot_map_segment_def
  by (rule boot_map_loop_pages) (use assms in simp_all)

lemma boot_segment:
  assumes inv: "dir_inv d s fl" and sz: "unat sz = n * 4096" and n: "0 < n" "v + n \<le> 2 ^ 20" "0 < v"
    and lo: "v div 1024 = lo" and hi: "(v + n - 1) div 1024 = hi"
    and k: "{lo..hi} \<subseteq> kdirs" and room: "Suc hi - lo \<le> length fl"
  obtains s' fl' where "boot_map_segment d (vaddr v) sz pa perm s = Some s'" "dir_inv d s' fl'"
    "dir_frame d s fl s' fl'" "length fl \<le> length fl' + (Suc hi - lo)"
    "\<And>i. i \<in> kdirs \<Longrightarrow> ptmap s' (d, i) \<noteq> None \<longleftrightarrow> ptmap s (d, i) \<noteq> None \<or> (lo \<le> i \<and> i \<le> hi)"
    "\<And>i j. i \<in> kdirs \<Longrightarrow> j < 1024 \<Longrightarrow> leafpte s' (d, i, j) =
         (if v \<le> i * 1024 + j \<and> i * 1024 + j < v + n then seg_pte v n pa perm (i * 1024 + j)
          else leafpte s (d, i, j))"
proof -
  note sd = seg_dirs_iff [OF n(1), of _ v, unfolded lo hi]
  have sub: "seg_dirs v n \<subseteq> kdirs" using sd k by auto
  have c: "card (absent d s v n) \<le> Suc hi - lo" using card_absent [OF n(1), of d s v] lo hi by simp
  have c': "card (absent d s v n) \<le> length fl" using c room by simp
  have n20: "n < 2 ^ 20" using n by simp
  from map_pages_dir [OF inv n(2) sub c', of pa perm] obtain s' fl' where
    m: "map_pages d (vaddr v) pa perm n s = Some s'" "dir_inv d s' fl'" "dir_frame d s fl s' fl'"
    and len: "length fl \<le> length fl' + card (absent d s v n)"
    and eff: "\<forall>i \<in> kdirs. ptmap s' (d, i) \<noteq> None \<longleftrightarrow> ptmap s (d, i) \<noteq> None \<or> (lo \<le> i \<and> i \<le> hi)"
      "\<forall>i \<in> kdirs. \<forall>j < 1024. leafpte s' (d, i, j) =
         (if v \<le> i * 1024 + j \<and> i * 1024 + j < v + n then seg_pte v n pa perm (i * 1024 + j)
          else leafpte s (d, i, j))"
    unfolding sd by blast
  have "length fl \<le> length fl' + (Suc hi - lo)" using len c by simp
  with that [of s' fl'] m eff show ?thesis unfolding segment_pages [OF sz n20] by blast
qed

end
