(* ===== verification/Boot_Map.thy ===== *)
theory Boot_Map
  imports Boot_Walk
begin

text \<open>
  The four segments that i386_vm_init of kern/pmap.c maps, and check_boot_pgdir, the walk over
  the finished directory.
\<close>

unbundle bit_operations_syntax

section \<open>Sizes\<close>

lemma unat_ROUNDUP_PGSIZE:
  assumes "unat a + 4095 < 2 ^ 32"
  shows "unat (ROUNDUP a PGSIZE) = (unat a + 4095) div 4096 * 4096"
proof -
  have "a + PGSIZE - 1 = a + 4095" by (simp add: layout)
  moreover have "unat (a + 4095) = unat a + 4095" using assms by (simp add: unat_word_ariths)
  ultimately have "unat (a + PGSIZE - 1) = unat a + 4095" by (simp only:)
  then show ?thesis
    by (simp add: ROUNDUP_def unat_ROUNDDOWN PGSIZE_val minus_mod_eq_div_mult)
qed

definition pages_len :: "nat \<Rightarrow> nat" where
  "pages_len np = (np * 12 + 4095) div 4096"

lemma pages_bytes:
  assumes "np \<le> 65536"
  shows "unat (of_nat np * sizeof_Page) = np * 12"
  using assms by (simp add: sizeof_Page_def unat_word_ariths unat_of_nat)

lemma pages_size:
  assumes "np \<le> 65536"
  shows "unat (ROUNDUP (of_nat np * sizeof_Page) PGSIZE) = pages_len np * 4096"
  using assms by (subst unat_ROUNDUP_PGSIZE) (simp_all add: pages_bytes pages_len_def)

lemma envs_size: "unat (ROUNDUP (of_nat NENV * sizeof_Env) PGSIZE) = 36 * 4096"
  by (simp add: sizeof_Env_def NENV_val ROUNDUP_def ROUNDDOWN_def PGSIZE_val)

section \<open>The segments\<close>

definition vpn_pte :: "nat \<Rightarrow> u32 \<Rightarrow> u32 \<Rightarrow> u32 \<Rightarrow> nat \<Rightarrow> u32" where
  "vpn_pte np pg en st u =
     (if 0xF0000 \<le> u \<and> u < 0xF0000 + 65536 then seg_pte 0xF0000 65536 0 PTE_W u
      else if 0xEFBF8 \<le> u \<and> u < 0xEFBF8 + 8 then seg_pte 0xEFBF8 8 st PTE_W u
      else if 0xEEC00 \<le> u \<and> u < 0xEEC00 + 36 then seg_pte 0xEEC00 36 en PTE_U u
      else if 0xEF000 \<le> u \<and> u < 0xEF000 + pages_len np then seg_pte 0xEF000 (pages_len np) pg PTE_U u
      else 0)"

lemma vaddr_consts:
  "UPAGES = vaddr 0xEF000" "UENVS = vaddr 0xEEC00" "KSTACKTOP - KSTKSIZE = vaddr 0xEFBF8"
  "KERNBASE = vaddr 0xF0000" "KSTACKTOP - PTSIZE = vaddr 0xEF800"
  by (simp_all add: vaddr_def layout)

lemma segments_ok:
  assumes inv: "dir_inv d s fl" and empty: "\<And>i. i \<in> kdirs \<Longrightarrow> ptmap s (d, i) = None"
    and d: "boot_pgdir s = d" and np: "0 < npage s" "npage s \<le> 65536"
    and pg: "PADDR (pages_ptr b) = Some pg" and en: "PADDR (envs_ptr b) = Some en"
    and st: "PADDR bootstack = Some st" and room: "67 \<le> length fl"
  shows "\<exists>s' fl'. vm_init_segments bootstack b s = Some s' \<and> dir_inv d s' fl'
    \<and> dir_frame d s fl s' fl' \<and> length fl \<le> length fl' + 67
    \<and> (\<forall>i \<in> kdirs. ptmap s' (d, i) \<noteq> None \<longleftrightarrow> i \<in> {955, 956, 958} \<or> 960 \<le> i)
    \<and> (\<forall>i \<in> kdirs. \<forall>j < 1024. leafpte s' (d, i, j) = vpn_pte (npage s) pg en st (i * 1024 + j))"
proof -
  have pl: "0 < pages_len (npage s)" "pages_len (npage s) \<le> 192"
    using np by (simp_all add: pages_len_def)
  have kd: "{955..955} \<subseteq> kdirs" "{956..956} \<subseteq> kdirs" "{958..958} \<subseteq> kdirs" "{960..1023} \<subseteq> kdirs"
    by (auto simp: kdirs_iff)
  have lf0: "\<And>i j. i \<in> kdirs \<Longrightarrow> leafpte s (d, i, j) = 0" using empty by (simp add: leafpte_mem)
  have v1: "0xEF000 + pages_len (npage s) \<le> 2 ^ 20" using pl by simp
  have hi: "(0xEF000 + pages_len (npage s) - 1) div 1024 = 956" using pl by simp
  have r1: "Suc 956 - 956 \<le> length fl" using room by simp
  obtain s1 fl1 where s1: "boot_map_segment d (vaddr 0xEF000)
        (ROUNDUP (of_nat (npage s) * sizeof_Page) PGSIZE) pg PTE_U s = Some s1"
      "dir_inv d s1 fl1" "dir_frame d s fl s1 fl1" "length fl \<le> length fl1 + (Suc 956 - 956)"
    and pt1: "\<And>i. i \<in> kdirs \<Longrightarrow> ptmap s1 (d, i) \<noteq> None \<longleftrightarrow>
        ptmap s (d, i) \<noteq> None \<or> (956 \<le> i \<and> i \<le> 956)"
    and lf1: "\<And>i j. i \<in> kdirs \<Longrightarrow> j < 1024 \<Longrightarrow> leafpte s1 (d, i, j) =
        (if 0xEF000 \<le> i * 1024 + j \<and> i * 1024 + j < 0xEF000 + pages_len (npage s)
         then seg_pte 0xEF000 (pages_len (npage s)) pg PTE_U (i * 1024 + j) else leafpte s (d, i, j))"
    by (rule boot_segment [OF inv pages_size [OF np(2)] pl(1) v1 _ _ hi kd(2) r1]) (simp, simp, rule that)
  have r2: "Suc 955 - 955 \<le> length fl1" using room s1(4) by simp
  obtain s2 fl2 where s2: "boot_map_segment d (vaddr 0xEEC00)
        (ROUNDUP (of_nat NENV * sizeof_Env) PGSIZE) en PTE_U s1 = Some s2"
      "dir_inv d s2 fl2" "dir_frame d s1 fl1 s2 fl2" "length fl1 \<le> length fl2 + (Suc 955 - 955)"
    and pt2: "\<And>i. i \<in> kdirs \<Longrightarrow> ptmap s2 (d, i) \<noteq> None \<longleftrightarrow>
        ptmap s1 (d, i) \<noteq> None \<or> (955 \<le> i \<and> i \<le> 955)"
    and lf2: "\<And>i j. i \<in> kdirs \<Longrightarrow> j < 1024 \<Longrightarrow> leafpte s2 (d, i, j) =
        (if 0xEEC00 \<le> i * 1024 + j \<and> i * 1024 + j < 0xEEC00 + 36
         then seg_pte 0xEEC00 36 en PTE_U (i * 1024 + j) else leafpte s1 (d, i, j))"
    by (rule boot_segment [OF s1(2) envs_size _ _ _ _ _ kd(1) r2, where v = "0xEEC00"])
      (simp, simp, simp, simp, simp, rule that)
  have r3: "Suc 958 - 958 \<le> length fl2" using room s1(4) s2(4) by simp
  have stk: "unat KSTKSIZE = 8 * 4096" by (simp add: layout)
  obtain s3 fl3 where s3: "boot_map_segment d (vaddr 0xEFBF8) KSTKSIZE st PTE_W s2 = Some s3"
      "dir_inv d s3 fl3" "dir_frame d s2 fl2 s3 fl3" "length fl2 \<le> length fl3 + (Suc 958 - 958)"
    and pt3: "\<And>i. i \<in> kdirs \<Longrightarrow> ptmap s3 (d, i) \<noteq> None \<longleftrightarrow>
        ptmap s2 (d, i) \<noteq> None \<or> (958 \<le> i \<and> i \<le> 958)"
    and lf3: "\<And>i j. i \<in> kdirs \<Longrightarrow> j < 1024 \<Longrightarrow> leafpte s3 (d, i, j) =
        (if 0xEFBF8 \<le> i * 1024 + j \<and> i * 1024 + j < 0xEFBF8 + 8
         then seg_pte 0xEFBF8 8 st PTE_W (i * 1024 + j) else leafpte s2 (d, i, j))"
    by (rule boot_segment [OF s2(2) stk _ _ _ _ _ kd(3) r3, where v = "0xEFBF8"])
      (simp, simp, simp, simp, simp, rule that)
  have r4: "Suc 1023 - 960 \<le> length fl3" using room s1(4) s2(4) s3(4) by simp
  have kbs: "unat (NOT KERNBASE + 1) = 65536 * 4096" by (simp add: layout)
  obtain s4 fl4 where s4: "boot_map_segment d (vaddr 0xF0000) (NOT KERNBASE + 1) 0 PTE_W s3 = Some s4"
      "dir_inv d s4 fl4" "dir_frame d s3 fl3 s4 fl4" "length fl3 \<le> length fl4 + (Suc 1023 - 960)"
    and pt4: "\<And>i. i \<in> kdirs \<Longrightarrow> ptmap s4 (d, i) \<noteq> None \<longleftrightarrow>
        ptmap s3 (d, i) \<noteq> None \<or> (960 \<le> i \<and> i \<le> 1023)"
    and lf4: "\<And>i j. i \<in> kdirs \<Longrightarrow> j < 1024 \<Longrightarrow> leafpte s4 (d, i, j) =
        (if 0xF0000 \<le> i * 1024 + j \<and> i * 1024 + j < 0xF0000 + 65536
         then seg_pte 0xF0000 65536 0 PTE_W (i * 1024 + j) else leafpte s3 (d, i, j))"
    by (rule boot_segment [OF s3(2) kbs _ _ _ _ _ kd(4) r4, where v = "0xF0000"])
      (simp, simp, simp, simp, simp, rule that)
  have fr: "dir_frame d s fl s2 fl2" "dir_frame d s fl s3 fl3" "dir_frame d s fl s4 fl4"
    using dir_frame_trans [OF s1(3) s2(3)] dir_frame_trans [OF dir_frame_trans [OF s1(3) s2(3)] s3(3)]
      dir_frame_trans [OF dir_frame_trans [OF dir_frame_trans [OF s1(3) s2(3)] s3(3)] s4(3)] by blast+
  have nps: "npage s1 = npage s" using s1(3) by (simp add: dir_frame_def same_rest_def)
  have run: "vm_init_segments bootstack b s = Some s4"
    unfolding vm_init_segments_def vaddr_consts
    using s1(1) s2(1) s3(1) s4(1) [unfolded vaddr_consts] d pg en st
    by (simp add: Let_def)
  have len: "length fl \<le> length fl4 + 67" using s1(4) s2(4) s3(4) s4(4) by simp
  have pt: "ptmap s4 (d, i) \<noteq> None \<longleftrightarrow> i \<in> {955, 956, 958} \<or> 960 \<le> i" if "i \<in> kdirs" for i
  proof -
    have "i \<le> 1023" using that by (simp add: kdirs_iff)
    then show ?thesis
      unfolding pt4 [OF that] pt3 [OF that] pt2 [OF that] pt1 [OF that] using empty [OF that] by auto
  qed
  have lf: "leafpte s4 (d, i, j) = vpn_pte (npage s) pg en st (i * 1024 + j)"
    if "i \<in> kdirs" "j < 1024" for i j
    unfolding lf4 [OF that] lf3 [OF that] lf2 [OF that] lf1 [OF that] vpn_pte_def lf0 [OF that(1)] ..
  show ?thesis using run s4(2) fr(3) len pt lf by blast
qed

section \<open>Entries of page-aligned segments\<close>

lemma vaddr_add: "vaddr p + vaddr k = vaddr (p + k)"
  by (simp add: vaddr_def distrib_right)

lemma page2pa_vaddr: "page2pa p = vaddr p"
  by (simp add: page2pa_def page2ppn_def vaddr_def push_bit_eq_mult mult.commute)

lemma seg_pte_mkpte: "seg_pte v n (vaddr p) perm u = mkpte (p + (u - v)) perm"
  by (simp add: seg_pte_def vaddr_add mkpte_def page2pa_vaddr or.assoc)

text \<open>check_va2pa on an address outside the windows reads the entry of the page tables.\<close>

lemma va2pa_dir:
  assumes inv: "dir_inv d s fl" and i: "unat (PDX va) \<in> kdirs"
  shows "check_va2pa d va s = Some (let e = leafpte s (slot d va) in if e AND PTE_P = 0 then NOT 0 else PTE_ADDR e)"
proof (cases "ptmap s (d, unat (PDX va))")
  case None
  then have "rd s (d, unat (PDX va)) AND PTE_P = 0" by (simp add: ptmap_rd ent_NoneD)
  with None show ?thesis by (simp add: check_va2pa_def slot_def leafpte_mem)
next
  case (Some t)
  then have e: "ent (rd s (d, unat (PDX va))) = Some t" by (simp add: ptmap_rd)
  note D = dir_invD [OF inv]
  obtain kva where "KADDR (npage s) (PTE_ADDR (rd s (d, unat (PDX va)))) = Some kva"
      "kptr kva (PTX va) = (t, unat (PTX va))"
    using KADDR_frame [of _ t "npage s" "PTX va"] ent_SomeD [OF e] D(6) [OF i Some] by blast
  with ent_SomeD [OF e] Some show ?thesis
    by (simp add: check_va2pa_def slot_def leafpte_mem Let_def rd_def)
qed

lemma va2pa_mkpte:
  assumes "dir_inv d s fl" and "unat (PDX va) \<in> kdirs"
    and "leafpte s (slot d va) = mkpte p perm" and "p < 2 ^ 20" and "unat perm < 4096"
  shows "check_va2pa d va s = Some (vaddr p)"
  using assms va2pa_dir [OF assms(1,2)]
  by (simp add: Let_def PTE_ADDR_mkpte page2pa_vaddr)

section \<open>check\_boot\_pgdir\<close>

lemma check_range_loop:
  assumes sz: "unat n = m * 4096" "m < 2 ^ 20"
    and ok: "\<And>k. k < m \<Longrightarrow> check_va2pa d (base + vaddr k) s = Some (pa + vaddr k)"
  shows "k \<le> m \<Longrightarrow> check_range d base n pa (vaddr k) s = Some ()"
proof (induction "m - k" arbitrary: k)
  case 0
  then have "\<not> vaddr k < n" using sz by (simp add: word_less_nat_alt unat_vaddr)
  then show ?case by (subst check_range.simps) simp
next
  case (Suc x)
  then have "k < m" by simp
  then have lt: "vaddr k < n" using sz by (simp add: word_less_nat_alt unat_vaddr)
  have "x = m - Suc k" "Suc k \<le> m" using Suc.hyps(2) by simp_all
  from Suc.hyps(1) [OF this] have "check_range d base n pa (vaddr (Suc k)) s = Some ()" .
  then show ?case
    using lt ok [OF \<open>k < m\<close>] by (subst check_range.simps) (simp add: at_pa_def vaddr_Suc)
qed

lemma check_range_ok:
  assumes sz: "unat n = m * 4096" "m < 2 ^ 20" and v: "v + m \<le> 2 ^ 20" and p: "p + m \<le> 2 ^ 20"
    and inv: "dir_inv d s fl" and perm: "unat perm < 4096"
    and k: "\<And>u. v \<le> u \<Longrightarrow> u < v + m \<Longrightarrow> u div 1024 \<in> kdirs"
    and e: "\<And>u. v \<le> u \<Longrightarrow> u < v + m \<Longrightarrow> leafpte s (d, u div 1024, u mod 1024) = mkpte (p + (u - v)) perm"
  shows "check_range d (vaddr v) n (vaddr p) 0 s = Some ()"
proof -
  have "check_va2pa d (vaddr v + vaddr k) s = Some (vaddr p + vaddr k)" if "k < m" for k
  proof -
    have u: "v \<le> v + k" "v + k < v + m" "v + k < 2 ^ 20" using that v by simp_all
    show ?thesis unfolding vaddr_add
      by (rule va2pa_mkpte [OF inv _ _ _ perm])
        (use that p k [OF u(1,2)] e [OF u(1,2)] in \<open>simp_all add: slot_def vaddr_parts [OF u(3)]\<close>)
  qed
  from check_range_loop [OF sz this, of 0] show ?thesis by (simp add: vaddr_def)
qed

text \<open>
  The finished directory: the tables that are present, the entries of the four segments, and the
  two windows. Page numbers stand for the physical addresses of the segments.
\<close>

definition boot_map_ok :: "nat \<Rightarrow> nat \<Rightarrow> nat \<Rightarrow> nat \<Rightarrow> kstate \<Rightarrow> nat list \<Rightarrow> bool" where
  "boot_map_ok d pg en st s fl \<longleftrightarrow> dir_inv d s fl
     \<and> (\<forall>i \<in> kdirs. ptmap s (d, i) \<noteq> None \<longleftrightarrow> i \<in> {955, 956, 958} \<or> 960 \<le> i)
     \<and> (\<forall>i \<in> kdirs. \<forall>j < 1024.
          leafpte s (d, i, j) = vpn_pte (npage s) (vaddr pg) (vaddr en) (vaddr st) (i * 1024 + j))
     \<and> mem s d (unat (PDX VPT)) = mkpte d PTE_W \<and> mem s d (unat (PDX UVPT)) = mkpte d PTE_U"

lemma mkpte_nonzero [simp]: "mkpte p perm \<noteq> 0"
  by (rule notI) (use mkpte_present [of p perm] in \<open>simp del: mkpte_present\<close>)

lemma boot_map_entry:
  assumes "boot_map_ok d pg en st s fl" and "u div 1024 \<in> kdirs"
  shows "leafpte s (d, u div 1024, u mod 1024) = vpn_pte (npage s) (vaddr pg) (vaddr en) (vaddr st) u"
  using assms unfolding boot_map_ok_def by (simp add: div_mult_mod_eq mult.commute)

lemma kdirs_range:
  assumes "v \<le> u" "u < v + n" "v div 1024 = lo" "(v + n - 1) div 1024 = hi" "{lo..hi} \<subseteq> kdirs"
  shows "u div 1024 \<in> kdirs"
  using assms div_le_mono [of v u 1024] div_le_mono [of u "v + n - 1" 1024] by auto

lemma check_boot_pgdir_ok:
  assumes B: "boot_map_ok d pg en st s fl" and d: "boot_pgdir s = d"
    and np: "0 < npage s" "npage s \<le> 65536"
    and ptrs: "PADDR (pages_ptr b) = Some (vaddr pg)" "PADDR (envs_ptr b) = Some (vaddr en)"
      "PADDR bootstack = Some (vaddr st)"
    and lim: "pg + 192 \<le> 2 ^ 20" "en + 36 \<le> 2 ^ 20" "st + 8 \<le> 2 ^ 20"
  shows "check_boot_pgdir bootstack b s = Some ()"
proof -
  have inv: "dir_inv d s fl" using B by (simp add: boot_map_ok_def)
  have pl: "0 < pages_len (npage s)" "pages_len (npage s) \<le> 192"
    using np by (simp_all add: pages_len_def)
  have perms: "unat PTE_U < 4096" "unat PTE_W < 4096" by (simp_all add: pte_flags)
  have kd: "{955..955} \<subseteq> kdirs" "{956..956} \<subseteq> kdirs" "{958..958} \<subseteq> kdirs" "{960..1023} \<subseteq> kdirs"
    by (auto simp: kdirs_iff)
  note E = boot_map_entry [OF B]
  have c1: "check_range d (vaddr 0xEF000) (ROUNDUP (of_nat (npage s) * sizeof_Page) PGSIZE) (vaddr pg) 0 s = Some ()"
  proof (rule check_range_ok [OF pages_size [OF np(2)] _ _ _ inv perms(1)])
    fix u assume u: "0xEF000 \<le> u" "u < 0xEF000 + pages_len (npage s)"
    show k: "u div 1024 \<in> kdirs" by (rule kdirs_range [OF u _ _ kd(2)]) (use pl in simp_all)
    show "leafpte s (d, u div 1024, u mod 1024) = mkpte (pg + (u - 0xEF000)) PTE_U"
      using u pl by (simp add: E [OF k] vpn_pte_def seg_pte_mkpte)
  qed (use pl lim in simp_all)
  have c2: "check_range d (vaddr 0xEEC00) (ROUNDUP (of_nat NENV * sizeof_Env) PGSIZE) (vaddr en) 0 s = Some ()"
  proof (rule check_range_ok [OF envs_size _ _ _ inv perms(1)])
    fix u :: nat assume u: "0xEEC00 \<le> u" "u < 0xEEC00 + 36"
    show k: "u div 1024 \<in> kdirs" by (rule kdirs_range [OF u _ _ kd(1)]) simp_all
    show "leafpte s (d, u div 1024, u mod 1024) = mkpte (en + (u - 0xEEC00)) PTE_U"
      using u by (simp add: E [OF k] vpn_pte_def seg_pte_mkpte)
  qed (use lim in simp_all)
  have mem_sz: "unat (of_nat (npage s) * PGSIZE) = npage s * 4096"
    using np by (simp add: unat_word_ariths unat_of_nat PGSIZE_val)
  have "check_range d (vaddr 0xF0000) (of_nat (npage s) * PGSIZE) (vaddr 0) 0 s = Some ()"
  proof (rule check_range_ok [OF mem_sz _ _ _ inv perms(2)])
    fix u assume u: "0xF0000 \<le> u" "u < 0xF0000 + npage s"
    then have u': "u < 0xF0000 + 65536" using np by simp
    show k: "u div 1024 \<in> kdirs" by (rule kdirs_range [OF u(1) u' _ _ kd(4)]) simp_all
    have "vaddr 0 = 0" by (simp add: vaddr_def)
    then have "seg_pte 0xF0000 65536 0 PTE_W u = mkpte (u - 0xF0000) PTE_W"
      using seg_pte_mkpte [of "0xF0000" 65536 0 PTE_W u] by simp
    then show "leafpte s (d, u div 1024, u mod 1024) = mkpte (0 + (u - 0xF0000)) PTE_W"
      using u(1) u' by (simp add: E [OF k] vpn_pte_def)
  qed (use np in simp_all)
  then have c3: "check_range d (vaddr 0xF0000) (of_nat (npage s) * PGSIZE) 0 0 s = Some ()"
    by (simp add: vaddr_def)
  have stk: "unat KSTKSIZE = 8 * 4096" by (simp add: layout)
  have c4: "check_range d (vaddr 0xEFBF8) KSTKSIZE (vaddr st) 0 s = Some ()"
  proof (rule check_range_ok [OF stk _ _ _ inv perms(2)])
    fix u :: nat assume u: "0xEFBF8 \<le> u" "u < 0xEFBF8 + 8"
    show k: "u div 1024 \<in> kdirs" by (rule kdirs_range [OF u _ _ kd(3)]) simp_all
    show "leafpte s (d, u div 1024, u mod 1024) = mkpte (st + (u - 0xEFBF8)) PTE_W"
      using u by (simp add: E [OF k] vpn_pte_def seg_pte_mkpte)
  qed (use lim in simp_all)
  have v: "unat (PDX (vaddr 0xEF800)) = 958" "unat (PTX (vaddr 0xEF800)) = 0"
    by (simp_all add: vaddr_parts)
  have "leafpte s (slot d (vaddr 0xEF800)) = 0"
    using boot_map_entry [OF B, of "0xEF800"] pl by (simp add: slot_def v vpn_pte_def kdirs_iff)
  then have c5: "at_pa d (vaddr 0xEF800) (NOT 0) s = Some ()"
    using va2pa_dir [OF inv, of "vaddr 0xEF800"] by (simp add: at_pa_def v kdirs_iff)
  have c6: "list_all (\<lambda>i. (rd s (d, i) \<noteq> 0) = pde_expected i) [0..<NPDENTRIES]"
  proof (unfold list_all_iff, rule ballI)
    fix i assume "i \<in> set [0..<NPDENTRIES]"
    then have i: "i < 1024" by (simp add: NPDENTRIES_def)
    have exp: "pde_expected i \<longleftrightarrow> i \<in> {955, 956, 957, 958, 959} \<or> 960 \<le> i"
      unfolding pde_expected_def unat_PDX by (auto simp: layout)
    show "(rd s (d, i) \<noteq> 0) = pde_expected i"
    proof (cases "i \<in> kdirs")
      case True
      then have p: "ptmap s (d, i) \<noteq> None \<longleftrightarrow> i \<in> {955, 956, 958} \<or> 960 \<le> i"
        using B by (simp add: boot_map_ok_def)
      have "rd s (d, i) \<noteq> 0 \<longleftrightarrow> ptmap s (d, i) \<noteq> None"
        using dir_invD(5,9) [OF inv True] by (auto simp: rd_def)
      with p True show ?thesis unfolding exp by (auto simp: kdirs_iff)
    next
      case False
      then have "i = 957 \<or> i = 959" using i by (auto simp: kdirs_iff)
      then show ?thesis using B unfolding exp
        by (auto simp: boot_map_ok_def rd_def unat_PDX layout)
    qed
  qed
  show ?thesis
    using c1 c2 c3 c4 c5 c6 d ptrs unfolding check_boot_pgdir_def vaddr_consts by (simp add: Let_def)
qed

end
