(* ===== verification/Page_Check.thy ===== *)
theory Page_Check
  imports Boot_Walk
begin

text \<open>
  The self tests of kern/pmap.c at boot. On a free list of at least three pages check_page_alloc
  passes, and leaves the free list with the same pages, the reference counts and the page
  directory as they were. page_check tests page_insert, page_remove and pgdir_walk: \<open>pc\<close>
  describes the state between two of its steps, where \<open>p0\<close> is the page table of the first 4MB
  with entries \<open>e0\<close> and \<open>e1\<close>, the other two pages have \<open>a\<close> and \<open>b\<close> references, and the rest is
  as it was at the start.
\<close>

unbundle bit_operations_syntax

section \<open>The links of the pages that are not on the list\<close>

definition links_eq :: "'a set \<Rightarrow> 'a llist \<Rightarrow> 'a llist \<Rightarrow> bool" where
  "links_eq Y h h' \<longleftrightarrow> (\<forall>y \<in> Y. le_next h' y = le_next h y \<and> le_prev h' y = le_prev h y)"

lemma links_eq_refl [simp]: "links_eq Y h h"
  by (simp add: links_eq_def)

lemma links_eq_trans: "links_eq Y h h1 \<Longrightarrow> links_eq Y' h1 h2 \<Longrightarrow> Z \<subseteq> Y \<inter> Y' \<Longrightarrow> links_eq Z h h2"
  unfolding links_eq_def by (metis IntE subsetD)

lemma links_eq_head [simp]:
  "links_eq Y h (h'\<lparr>lh_first := v\<rparr>) = links_eq Y h h'" "links_eq Y (h\<lparr>lh_first := v\<rparr>) h' = links_eq Y h h'"
  by (simp_all add: links_eq_def)

lemma insert_links: "is_list h xs \<Longrightarrow> links_eq (- set (x # xs)) h (LIST_INSERT_HEAD x h)"
  by (cases xs) (auto simp: links_eq_def is_list_def list_macro_defs split: option.splits)

lemma pop_links:
  assumes "is_list h (x # xs)"
  shows "\<exists>h'. LIST_REMOVE x h = Some h' \<and> is_list h' xs \<and> links_eq (- set (x # xs)) h h'"
proof -
  have ch: "chain h LHead (x # xs)" "distinct (x # xs)" using assms by (simp_all add: is_list_def)
  obtain h' where h': "LIST_REMOVE x h = Some h'" "chain h' LHead xs"
    and ld: "\<And>q. (\<forall>e. q = LNext e \<longrightarrow> e \<notin> set (x # xs)) \<Longrightarrow> q \<noteq> LHead \<Longrightarrow> load_lptr h' q = load_lptr h q"
    and pv: "\<And>e. e \<notin> set (x # xs) \<Longrightarrow> le_prev h' e = le_prev h e"
    using chain_remove [OF ch(1), of x] ch(2) by auto
  have "links_eq (- set (x # xs)) h h'"
    unfolding links_eq_def
  proof (intro ballI conjI)
    fix y assume y: "y \<in> - set (x # xs)"
    then show "le_next h' y = le_next h y" using ld [of "LNext y"] by (auto simp: load_lptr_def)
    show "le_prev h' y = le_prev h y" using y pv by simp
  qed
  with h' ch(2) show ?thesis by (auto simp: is_list_def)
qed

text \<open>Putting a stolen head back restores the list if the links of its pages are as they were.\<close>

lemma give_back:
  assumes "is_list h xs" and "links_eq (set xs) h h'"
  shows "is_list (h'\<lparr>lh_first := lh_first h\<rparr>) xs"
proof -
  have "chain (h'\<lparr>lh_first := lh_first h\<rparr>) LHead xs = chain h LHead xs"
    by (rule chain_cong) (use assms(2) in \<open>auto simp: load_lptr_def links_eq_def\<close>)
  with assms(1) show ?thesis by (simp add: is_list_def)
qed

section \<open>Asserted calls on a known list\<close>

lemma page_alloc_links:
  assumes "is_list (page_free_list s) (p # xs)"
  shows "\<exists>l. page_alloc s = Some (Inr p, s\<lparr>page_free_list := l\<rparr>) \<and> is_list l xs
    \<and> links_eq (- set (p # xs)) (page_free_list s) l"
  using pop_links [OF assms] tailq.repr_first [OF assms] by (auto simp: page_alloc_def)

lemma must_alloc_ok:
  assumes "is_list (page_free_list s) (p # xs)"
  shows "\<exists>l. must_alloc s = Some (p, s\<lparr>page_free_list := l\<rparr>) \<and> is_list l xs
    \<and> links_eq (- set (p # xs)) (page_free_list s) l"
  using page_alloc_links [OF assms] by (auto simp: must_alloc_def)

lemma no_mem_ok: "is_list (page_free_list s) [] \<Longrightarrow> no_mem s = Some s"
  by (simp add: no_mem_def page_alloc_empty)

lemma free_ok:
  assumes "is_list (page_free_list s) xs" and "p \<notin> set xs"
  shows "is_list (page_free_list (page_free p s)) (p # xs)"
    "links_eq (- set (p # xs)) (page_free_list s) (page_free_list (page_free p s))"
  using tailq.repr_insert [OF assms] insert_links [OF assms(1), of p]
  by (simp_all add: page_free_def)

section \<open>check\_page\_alloc\<close>

lemma list_next_load: "LIST_NEXT h x = load_lptr h (LNext x)"
  by (simp add: LIST_NEXT_def load_lptr_def)

lemma poison_loop_ok:
  assumes "chain (page_free_list s) p xs" and "\<And>x. x \<in> set xs \<Longrightarrow> x < npage s" and "npage s \<le> 2 ^ 20"
  shows "\<exists>m. poison_loop (load_lptr (page_free_list s) p) s = Some (s\<lparr>mem := m\<rparr>)
    \<and> (\<forall>f. f \<notin> set xs \<longrightarrow> m f = mem s f)"
  using assms
proof (induction xs arbitrary: p s)
  case Nil
  then show ?case by (auto simp: poison_loop.simps intro: exI [of _ "mem s"])
next
  case (Cons x xs)
  obtain kva where kva: "page2kva (npage s) x = Some kva" "fst (kptr kva 0) = x"
    using page2kva_ok [of x "npage s" 0] Cons.prems by force
  let ?m = "(mem s)(x := (\<lambda>i. if i < 32 then 0x97979797 else mem s x i))"
  have "poison_page x s = Some (s\<lparr>mem := ?m\<rparr>)" 
    unfolding poison_page_def Let_def kva(1) by simp (simp only: kva(2))
  moreover obtain m where "poison_loop (load_lptr (page_free_list s) (LNext x)) (s\<lparr>mem := ?m\<rparr>)
      = Some (s\<lparr>mem := m\<rparr>)" "\<forall>f. f \<notin> set xs \<longrightarrow> m f = ?m f"
    using Cons.IH [of "s\<lparr>mem := ?m\<rparr>" "LNext x"] Cons.prems by auto
  ultimately show ?case
    using Cons.prems by (subst poison_loop.simps) (auto simp: list_next_load)
qed

lemma check_free_loop_ok:
  assumes "chain (page_free_list s) p xs" and "\<And>x. x \<in> set xs \<Longrightarrow> check_free_page fm x s = Some ()"
  shows "check_free_loop fm (load_lptr (page_free_list s) p) s = Some ()"
  using assms
proof (induction xs arbitrary: p)
  case Nil
  then show ?case by (simp add: check_free_loop.simps)
next
  case (Cons x xs)
  then show ?case by (subst check_free_loop.simps) (simp add: list_next_load)
qed

lemma unat_page2pa: "p < 2 ^ 20 \<Longrightarrow> unat (page2pa p) = p * 4096"
  by (simp add: page2pa_def page2ppn_def push_bit_eq_mult unat_word_ariths unat_of_nat_ppn mult.commute)

text \<open>
  Three pages taken, the rest stolen, the three freed and taken again in the other order, and
  everything given back: the free list is the same list again.
\<close>

lemma check_page_alloc_ok:
  assumes ls: "is_list (page_free_list s) (p0 # p1 # p2 # fl)"
    and lt: "\<And>x. x \<in> set (p0 # p1 # p2 # fl) \<Longrightarrow> x < npage s" and np: "npage s \<le> 65536"
    and free: "\<And>x m. x \<in> set (p0 # p1 # p2 # fl) \<Longrightarrow> check_free_page fm x (s\<lparr>mem := m\<rparr>) = Some ()"
  shows "\<exists>m l. check_page_alloc fm s = Some (s\<lparr>mem := m, page_free_list := l\<rparr>)
    \<and> is_list l (p0 # p1 # p2 # fl) \<and> (\<forall>f. f \<notin> set (p0 # p1 # p2 # fl) \<longrightarrow> m f = mem s f)"
proof -
  let ?xs = "p0 # p1 # p2 # fl"
  have ds: "distinct ?xs" using tailq.repr_distinct [OF ls] .
  have first: "LIST_FIRST l = load_lptr l LHead" for l :: "nat llist"
    by (simp add: LIST_FIRST_def load_lptr_def)
  have ch: "chain (page_free_list s) LHead ?xs" using ls by (simp add: is_list_def)
  obtain m where m: "poison_loop (LIST_FIRST (page_free_list s)) s = Some (s\<lparr>mem := m\<rparr>)"
      "\<forall>f. f \<notin> set ?xs \<longrightarrow> m f = mem s f"
    using poison_loop_ok [OF ch] lt np unfolding first by auto
  let ?s0 = "s\<lparr>mem := m\<rparr>"
  have cf: "check_free_loop fm (LIST_FIRST (page_free_list ?s0)) ?s0 = Some ()"
    unfolding first
  proof (rule check_free_loop_ok)
    show "chain (page_free_list ?s0) LHead ?xs" using ls by (simp add: is_list_def)
    show "\<And>x. x \<in> set ?xs \<Longrightarrow> check_free_page fm x ?s0 = Some ()" by (rule free)
  qed
  obtain l1 where l1: "must_alloc ?s0 = Some (p0, ?s0\<lparr>page_free_list := l1\<rparr>)" "is_list l1 (p1 # p2 # fl)"
    using must_alloc_ok [of ?s0 p0 "p1 # p2 # fl"] ls by auto
  obtain l2 where l2: "must_alloc (?s0\<lparr>page_free_list := l1\<rparr>) = Some (p1, ?s0\<lparr>page_free_list := l2\<rparr>)"
      "is_list l2 (p2 # fl)"
    using must_alloc_ok [of "?s0\<lparr>page_free_list := l1\<rparr>" p1 "p2 # fl"] l1 by auto
  obtain l3 where l3: "must_alloc (?s0\<lparr>page_free_list := l2\<rparr>) = Some (p2, ?s0\<lparr>page_free_list := l3\<rparr>)"
      "is_list l3 fl"
    using must_alloc_ok [of "?s0\<lparr>page_free_list := l2\<rparr>" p2 fl] l2 by auto
  let ?l4 = "l3\<lparr>lh_first := None\<rparr>"
  let ?s4 = "?s0\<lparr>page_free_list := ?l4\<rparr>"
  have e4: "is_list (page_free_list ?s4) []" by (simp add: is_list_def load_lptr_def)
  let ?l5 = "LIST_INSERT_HEAD p0 ?l4" let ?l6 = "LIST_INSERT_HEAD p1 ?l5" let ?l7 = "LIST_INSERT_HEAD p2 ?l6"
  have i5: "is_list ?l5 [p0]" using tailq.repr_insert [of ?l4 "[]" p0] e4 by simp
  have i6: "is_list ?l6 [p1, p0]" using tailq.repr_insert [OF i5, of p1] ds by auto
  have i7: "is_list ?l7 [p2, p1, p0]" using tailq.repr_insert [OF i6, of p2] ds by auto
  have k: "links_eq (- {p0, p1, p2}) l3 ?l7"
    using insert_links [of ?l4 "[]" p0] e4 insert_links [OF i5, of p1] insert_links [OF i6, of p2]
    by (auto simp: links_eq_def)
  obtain l8 where l8: "must_alloc (?s0\<lparr>page_free_list := ?l7\<rparr>) = Some (p2, ?s0\<lparr>page_free_list := l8\<rparr>)"
      "is_list l8 [p1, p0]" "links_eq (- {p0, p1, p2}) ?l7 l8"
    using must_alloc_ok [of "?s0\<lparr>page_free_list := ?l7\<rparr>" p2 "[p1, p0]"] i7 by (auto simp: links_eq_def)
  obtain l9 where l9: "must_alloc (?s0\<lparr>page_free_list := l8\<rparr>) = Some (p1, ?s0\<lparr>page_free_list := l9\<rparr>)"
      "is_list l9 [p0]" "links_eq (- {p0, p1, p2}) l8 l9"
    using must_alloc_ok [of "?s0\<lparr>page_free_list := l8\<rparr>" p1 "[p0]"] l8(2) by (auto simp: links_eq_def)
  obtain l10 where l10: "must_alloc (?s0\<lparr>page_free_list := l9\<rparr>) = Some (p0, ?s0\<lparr>page_free_list := l10\<rparr>)"
      "is_list l10 []" "links_eq (- {p0, p1, p2}) l9 l10"
    using must_alloc_ok [of "?s0\<lparr>page_free_list := l9\<rparr>" p0 "[]"] l9(2) by (auto simp: links_eq_def)
  have "links_eq (set fl) l3 l10"
    using k l8(3) l9(3) l10(3) ds by (auto simp: links_eq_def)
  from give_back [OF l3(2) this] have g: "is_list (l10\<lparr>lh_first := lh_first l3\<rparr>) fl" .
  let ?l11 = "l10\<lparr>lh_first := lh_first l3\<rparr>"
  have i12: "is_list (LIST_INSERT_HEAD p2 ?l11) (p2 # fl)" using tailq.repr_insert [OF g] ds by auto
  have i13: "is_list (LIST_INSERT_HEAD p1 (LIST_INSERT_HEAD p2 ?l11)) (p1 # p2 # fl)"
    using tailq.repr_insert [OF i12] ds by auto
  have i14: "is_list (LIST_INSERT_HEAD p0 (LIST_INSERT_HEAD p1 (LIST_INSERT_HEAD p2 ?l11))) ?xs"
    using tailq.repr_insert [OF i13] ds by auto
  have lim: "page2pa x < of_nat (npage s) * PGSIZE" if "x \<in> {p0, p1, p2}" for x
  proof -
    have "x < npage s" using lt that by auto
    moreover have "unat (of_nat (npage s) * PGSIZE) = npage s * 4096"
      using np by (simp add: unat_word_ariths unat_of_nat PGSIZE_val)
    ultimately show ?thesis using np by (simp add: word_less_nat_alt unat_page2pa)
  qed
  have "check_page_alloc fm s = Some (?s0\<lparr>page_free_list :=
      LIST_INSERT_HEAD p0 (LIST_INSERT_HEAD p1 (LIST_INSERT_HEAD p2 ?l11))\<rparr>)"
    using m(1) cf l1(1) l2(1) l3(1) l8(1) l9(1) l10(1) no_mem_ok [OF e4]
      no_mem_ok [of "?s0\<lparr>page_free_list := l10\<rparr>"] l10(2) lim ds
    by (simp add: check_page_alloc_def steal_free_list_def give_free_list_def page_free_def LIST_INIT_def)
  with i14 m(2) show ?thesis by auto
qed

section \<open>The state between the steps\<close>

definition pc_setup :: "kstate \<Rightarrow> nat \<Rightarrow> nat \<Rightarrow> nat \<Rightarrow> nat \<Rightarrow> bool" where
  "pc_setup s0 d p0 p1 p2 \<longleftrightarrow> distinct [d, p0, p1, p2]
     \<and> d < npage s0 \<and> p0 < npage s0 \<and> p1 < npage s0 \<and> p2 < npage s0 \<and> npage s0 \<le> 2 ^ 20
     \<and> curenv s0 = None \<and> boot_pgdir s0 = d \<and> mem s0 d 0 = 0 \<and> mem s0 d 1 = 0
     \<and> pp_ref s0 p0 = 0 \<and> pp_ref s0 p1 = 0 \<and> pp_ref s0 p2 = 0"

definition pc_rest :: "kstate \<Rightarrow> nat \<Rightarrow> nat \<Rightarrow> nat \<Rightarrow> nat \<Rightarrow> kstate \<Rightarrow> nat list \<Rightarrow> bool" where
  "pc_rest s0 d p0 p1 p2 s xs \<longleftrightarrow> same_rest s0 s
     \<and> (\<forall>f. f \<noteq> d \<longrightarrow> f \<noteq> p0 \<longrightarrow> mem s f = mem s0 f)
     \<and> is_list (page_free_list s) xs \<and> set xs \<subseteq> {p0, p1, p2}
     \<and> links_eq (- {p0, p1, p2}) (page_free_list s0) (page_free_list s)"

definition pc ::
  "kstate \<Rightarrow> nat \<Rightarrow> nat \<Rightarrow> nat \<Rightarrow> nat \<Rightarrow> kstate \<Rightarrow> nat list \<Rightarrow> u32 \<Rightarrow> u32 \<Rightarrow> u16 \<Rightarrow> u16 \<Rightarrow> bool" where
  "pc s0 d p0 p1 p2 s xs e0 e1 a b \<longleftrightarrow> pc_setup s0 d p0 p1 p2 \<and> pc_rest s0 d p0 p1 p2 s xs
     \<and> mem s d = (mem s0 d)(0 := mkpte p0 (PTE_U OR PTE_W))
     \<and> mem s p0 = (\<lambda>_. 0)(0 := e0, 1 := e1)
     \<and> pp_ref s = (pp_ref s0)(p0 := 1, p1 := a, p2 := b)"

lemma pcD:
  assumes "pc s0 d p0 p1 p2 s xs e0 e1 a b"
  shows "distinct [d, p0, p1, p2]" "npage s = npage s0" "curenv s = None" "boot_pgdir s = d"
    "p0 < 2 ^ 20" "p1 < 2 ^ 20" "p2 < 2 ^ 20" "p0 < npage s0" "p1 < npage s0" "p2 < npage s0"
    "mem s d = (mem s0 d)(0 := mkpte p0 (PTE_U OR PTE_W))" "mem s p0 = (\<lambda>_. 0)(0 := e0, 1 := e1)"
    "pp_ref s p0 = 1" "pp_ref s p1 = a" "pp_ref s p2 = b" "is_list (page_free_list s) xs"
    "mem s d 1 = 0" "npage s0 \<le> 2 ^ 20"
  using assms by (auto simp: pc_def pc_setup_def pc_rest_def same_rest_def)

definition page_va :: "nat \<Rightarrow> u32" where
  "page_va j = (if j = 0 then 0 else PGSIZE)"

lemma page_va_parts [simp]:
  "j < 2 \<Longrightarrow> unat (PDX (page_va j)) = 0" "j < 2 \<Longrightarrow> unat (PTX (page_va j)) = j"
  by (auto simp: page_va_def unat_PDX unat_PTX PGSIZE_val less_2_cases_iff)

lemma page_va_simps [simp]: "page_va 0 = 0" "page_va (Suc 0) = PGSIZE"
  by (simp_all add: page_va_def)

definition entry :: "u32 \<Rightarrow> u32 \<Rightarrow> nat \<Rightarrow> u32" where
  "entry e0 e1 j = (if j = 0 then e0 else e1)"

lemma entry_simps [simp]: "entry e0 e1 0 = e0" "entry e0 e1 (Suc 0) = e1"
  by (simp_all add: entry_def)

lemma ent_dir: "p < 2 ^ 20 \<Longrightarrow> ent (mkpte p (PTE_U OR PTE_W)) = Some p"
  by (intro ent_mkpte) (simp_all add: pte_flags)

text \<open>The walk to either page finds its slot in \<open>p0\<close>.\<close>

lemma pc_walk:
  assumes "pc s0 d p0 p1 p2 s xs e0 e1 a b" and "j < 2"
  shows "pgdir_walk d (page_va j) c s = Some (Some (p0, j), s)"
    "rd s (p0, j) = entry e0 e1 j"
  using raw_walk_present [of s d "page_va j" p0 c] assms(2) pcD [OF assms(1)]
  by (auto simp: ent_dir rd_def entry_def)

lemma pc_at_pa:
  assumes P: "pc s0 d p0 p1 p2 s xs e0 e1 a b" and j: "j < 2"
  shows "entry e0 e1 j = mkpte p perm \<Longrightarrow> p < 2 ^ 20 \<Longrightarrow> unat perm < 4096 \<Longrightarrow>
      at_pa d (page_va j) (page2pa p) s = Some ()"
    "entry e0 e1 j = 0 \<Longrightarrow> at_pa d (page_va j) (NOT 0) s = Some ()"
proof -
  note D = pcD [OF P]
  have dir: "rd s (d, 0) = mkpte p0 (PTE_U OR PTE_W)" using D(11) by (simp add: rd_def)
  have fl: "unat (PTE_U OR PTE_W) < 4096" by (simp add: pte_flags)
  obtain kva where k: "KADDR (npage s) (PTE_ADDR (rd s (d, 0))) = Some kva"
      "kptr kva (PTX (page_va j)) = (p0, j)"
    using KADDR_frame [of "rd s (d, 0)" p0 "npage s" "PTX (page_va j)"] dir D(2,5,8) j
      PPN_mkpte [OF D(5) fl] by auto
  show "entry e0 e1 j = mkpte p perm \<Longrightarrow> p < 2 ^ 20 \<Longrightarrow> unat perm < 4096 \<Longrightarrow>
      at_pa d (page_va j) (page2pa p) s = Some ()"
    using k dir pc_walk(2) [OF P j] j by (simp add: at_pa_def check_va2pa_def Let_def PTE_ADDR_mkpte)
  show "entry e0 e1 j = 0 \<Longrightarrow> at_pa d (page_va j) (NOT 0) s = Some ()"
    using k dir pc_walk(2) [OF P j] j by (simp add: at_pa_def check_va2pa_def Let_def)
qed

lemma pc_no_mem: "pc s0 d p0 p1 p2 s [] e0 e1 a b \<Longrightarrow> no_mem s = Some s"
  by (rule no_mem_ok) (rule pcD(16))

lemma pc_must_alloc:
  assumes P: "pc s0 d p0 p1 p2 s [p] e0 e1 a b"
  shows "\<exists>s'. must_alloc s = Some (p, s') \<and> pc s0 d p0 p1 p2 s' [] e0 e1 a b"
proof -
  obtain l where l: "must_alloc s = Some (p, s\<lparr>page_free_list := l\<rparr>)" "is_list l []"
      "links_eq (- {p}) (page_free_list s) l"
    using must_alloc_ok [of s p "[]"] pcD(16) [OF P] by auto
  have "p \<in> {p0, p1, p2}" using P by (auto simp: pc_def pc_rest_def)
  with l(3) have "links_eq (- {p0, p1, p2}) (page_free_list s) l" by (auto simp: links_eq_def)
  then have "pc s0 d p0 p1 p2 (s\<lparr>page_free_list := l\<rparr>) [] e0 e1 a b"
    using P l(2) by (auto simp: pc_def pc_rest_def same_rest_def links_eq_def)
  with l(1) show ?thesis by blast
qed

text \<open>A change of one of the two entries and of the reference counts of \<open>p1\<close> and \<open>p2\<close>.\<close>

lemma pc_update:
  assumes P: "pc s0 d p0 p1 p2 s xs e0 e1 a b" and j: "j < 2"
    and m: "mem s' = (mem s)(p0 := (mem s p0)(j := v))"
    and r: "pp_ref s' = (pp_ref s)(p1 := a', p2 := b')" and rest: "same_rest s s'"
    and l: "is_list (page_free_list s') ys" "set ys \<subseteq> {p0, p1, p2}"
      "links_eq (- {p0, p1, p2}) (page_free_list s) (page_free_list s')"
  shows "pc s0 d p0 p1 p2 s' ys (if j = 0 then v else e0) (if j = 0 then e1 else v) a' b'"
proof -
  note D = pcD [OF P]
  have "mem s' d = mem s d" "mem s' p0 = (mem s p0)(j := v)"
    "\<And>f. f \<noteq> p0 \<Longrightarrow> mem s' f = mem s f"
    using m D(1) by auto
  moreover have "(mem s p0)(j := v) = (\<lambda>_. 0)(0 := if j = 0 then v else e0, 1 := if j = 0 then e1 else v)"
    unfolding D(12) using j by (auto simp: fun_eq_iff less_2_cases_iff)
  moreover have "pp_ref s' = (pp_ref s0)(p0 := 1, p1 := a', p2 := b')"
    using P unfolding r pc_def by (auto simp: fun_eq_iff)
  moreover have "same_rest s0 s'"
    using P rest by (auto simp: pc_def pc_rest_def intro: same_rest_trans)
  moreover have "links_eq (- {p0, p1, p2}) (page_free_list s0) (page_free_list s')"
    using P l(3) by (auto simp: pc_def pc_rest_def links_eq_def)
  ultimately show ?thesis
    using P l(1,2) unfolding pc_def pc_rest_def by (simp add: fun_upd_twist)
qed

section \<open>page\_insert and page\_remove between the steps\<close>

definition bump :: "u16 \<Rightarrow> nat \<Rightarrow> nat \<Rightarrow> u16 \<Rightarrow> u16" where
  "bump k p q a = (if p = q then a + k else a)"

lemma pc_refs:
  assumes "pc s0 d p0 p1 p2 s xs e0 e1 a b" and "p \<in> {p1, p2}"
  shows "(pp_ref s)(p := pp_ref s p + k) = (pp_ref s)(p1 := bump k p p1 a, p2 := bump k p p2 b)"
  using pcD(1,14,15) [OF assms(1)] assms(2) by (auto simp: bump_def fun_eq_iff)

lemma pc_page:
  assumes "pc s0 d p0 p1 p2 s xs e0 e1 a b" and "p \<in> {p1, p2}"
  shows "p < 2 ^ 20" "p < npage s" "p \<noteq> p0"
  using pcD(1,2,6,7,9,10) [OF assms(1)] assms(2) by auto

lemma must_insert_walked:
  assumes "pgdir_walk d va 1 s = Some (Some q, s)" and "rd s q AND PTE_P = 0"
  shows "must_insert d p va perm s
    = Some (set_ref p (pp_ref s p + 1) (wr q (mkpte p perm) s))"
  using assms by (simp add: must_insert_def page_insert_def mkpte_alt)

lemma pc_insert_new:
  assumes P: "pc s0 d p0 p1 p2 s xs e0 e1 a b" and j: "j < 2" and e: "entry e0 e1 j = 0"
    and p: "p \<in> {p1, p2}"
  shows "\<exists>s'. must_insert d p (page_va j) perm s = Some s' \<and> pc s0 d p0 p1 p2 s' xs
      (if j = 0 then mkpte p perm else e0) (if j = 0 then e1 else mkpte p perm)
      (bump 1 p p1 a) (bump 1 p p2 b)"
proof -
  note w = pc_walk [OF P j]
  let ?s' = "set_ref p (pp_ref s p + 1) (wr (p0, j) (mkpte p perm) s)"
  have "must_insert d p (page_va j) perm s = Some ?s'"
    by (rule must_insert_walked [OF w(1)]) (simp add: w(2) e)
  moreover have "pc s0 d p0 p1 p2 ?s' xs (if j = 0 then mkpte p perm else e0)
      (if j = 0 then e1 else mkpte p perm) (bump 1 p p1 a) (bump 1 p p2 b)"
    by (rule pc_update [OF P j])
      (use pc_refs [OF P p] pcD(16) [OF P] P in
        \<open>auto simp: set_ref_def wr_def pc_def pc_rest_def same_rest_def\<close>)
  ultimately show ?thesis by blast
qed

lemma pc_insert_same:
  assumes P: "pc s0 d p0 p1 p2 s xs e0 e1 a b" and j: "j < 2"
    and e: "entry e0 e1 j = mkpte p q" and q: "unat q < 4096" and p: "p \<in> {p1, p2}"
  shows "\<exists>s'. must_insert d p (page_va j) perm s = Some s' \<and> pc s0 d p0 p1 p2 s' xs
      (if j = 0 then mkpte p perm else e0) (if j = 0 then e1 else mkpte p perm) a b"
proof -
  note w = pc_walk [OF P j]
  let ?s1 = "tlb_invalidate d (page_va j) (set_ref p (pp_ref s p - 1) s)"
  let ?s' = "set_ref p (pp_ref ?s1 p + 1) (wr (p0, j) (mkpte p perm) ?s1)"
  have "must_insert d p (page_va j) perm s = Some ?s'"
    using w e PTE_ADDR_mkpte [OF pc_page(1) [OF P p] q]
    by (simp add: must_insert_def page_insert_def mkpte_alt)
  moreover have "pp_ref ?s' = (pp_ref s)(p1 := a, p2 := b)"
    using pcD(14,15) [OF P] by (auto simp: fun_eq_iff)
  then have "pc s0 d p0 p1 p2 ?s' xs (if j = 0 then mkpte p perm else e0)
      (if j = 0 then e1 else mkpte p perm) a b"
    by (rule pc_update [OF P j, rotated])
      (use pcD(16) [OF P] P in
        \<open>auto simp: set_ref_def wr_def pc_def pc_rest_def tlb_invalidate_def invlpg_def
          same_rest_def split: option.splits\<close>)
  ultimately show ?thesis by blast
qed

lemma pc_remove:
  assumes P: "pc s0 d p0 p1 p2 s [] e0 e1 a b" and j: "j < 2"
    and e: "entry e0 e1 j = mkpte p q" and q: "unat q < 4096" and p: "p \<in> {p1, p2}"
  shows "\<exists>s'. page_remove d (page_va j) s = Some s'
    \<and> pc s0 d p0 p1 p2 s' (if pp_ref s p = 1 then [p] else [])
        (if j = 0 then 0 else e0) (if j = 0 then e1 else 0) (bump (-1) p p1 a) (bump (-1) p p2 b)"
proof -
  note w = pc_walk [OF P j] and pg = pc_page [OF P p]
  have "page_lookup d (page_va j) s = Some (Some p, Some (p0, j), s)"
    using w e pg PTE_ADDR_mkpte [OF pg(1) q] pcD(2,18) [OF P]
    by (simp add: page_lookup_def pa2page_page2pa)
  moreover define s1 where "s1 = set_ref p (pp_ref s p - 1) s"
  define s2 where "s2 = (if pp_ref s1 p = 0 then page_free p s1 else s1)"
  ultimately have run: "page_remove d (page_va j) s = Some (tlb_invalidate d (page_va j) (wr (p0, j) 0 s2))"
    by (simp add: page_remove_def page_decref_def s1_def s2_def)
  have free0: "pp_ref s1 p = 0 \<longleftrightarrow> pp_ref s p = 1" by (simp add: s1_def)
  have ls: "is_list (page_free_list s1) []" using pcD(16) [OF P] by (simp add: s1_def)
  have s2: "mem s2 = mem s" "pp_ref s2 = (pp_ref s)(p := pp_ref s p - 1)" "same_rest s s2"
      "is_list (page_free_list s2) (if pp_ref s p = 1 then [p] else [])"
      "links_eq (- {p}) (page_free_list s) (page_free_list s2)"
    using free_ok [OF ls, of p] ls free0
    by (auto simp: s2_def s1_def page_free_def set_ref_def same_rest_def)
  have "pc s0 d p0 p1 p2 (tlb_invalidate d (page_va j) (wr (p0, j) 0 s2)) (if pp_ref s p = 1 then [p] else [])
      (if j = 0 then 0 else e0) (if j = 0 then e1 else 0) (bump (-1) p p1 a) (bump (-1) p p2 b)"
  proof (rule pc_update [OF P j])
    show "mem (tlb_invalidate d (page_va j) (wr (p0, j) 0 s2)) = (mem s)(p0 := (mem s p0)(j := 0))"
      by (simp add: wr_def s2)
    show "pp_ref (tlb_invalidate d (page_va j) (wr (p0, j) 0 s2))
        = (pp_ref s)(p1 := bump (-1) p p1 a, p2 := bump (-1) p p2 b)"
      using pc_refs [OF P p, of "-1"] by (simp add: s2)
  qed (use s2 p in \<open>auto simp: links_eq_def\<close>)
  with run show ?thesis by blast
qed

lemma pc_insert_other:
  assumes P: "pc s0 d p0 p1 p2 s [] e0 e1 a b" and j: "j < 2"
    and e: "entry e0 e1 j = mkpte o' q" and q: "unat q < 4096" and p: "p \<in> {p1, p2}" "o' \<in> {p1, p2}" "o' \<noteq> p"
  shows "\<exists>s'. must_insert d p (page_va j) perm s = Some s'
    \<and> pc s0 d p0 p1 p2 s' (if pp_ref s o' = 1 then [o'] else [])
        (if j = 0 then mkpte p perm else e0) (if j = 0 then e1 else mkpte p perm)
        (bump 1 p p1 (bump (-1) o' p1 a)) (bump 1 p p2 (bump (-1) o' p2 b))"
proof -
  note w = pc_walk [OF P j] and pg = pc_page [OF P p(1)] and og = pc_page [OF P p(2)]
  obtain s1 where s1: "page_remove d (page_va j) s = Some s1"
    "pc s0 d p0 p1 p2 s1 (if pp_ref s o' = 1 then [o'] else [])
        (if j = 0 then 0 else e0) (if j = 0 then e1 else 0) (bump (-1) o' p1 a) (bump (-1) o' p2 b)"
    using pc_remove [OF P j e q p(2)] by blast
  have ne: "PTE_ADDR (mkpte o' q) \<noteq> page2pa p"
    using PTE_ADDR_mkpte [OF og(1) q] page2pa_inj [OF og(1) pg(1)] p(3) by auto
  have "must_insert d p (page_va j) perm s
      = Some (set_ref p (pp_ref s1 p + 1) (wr (p0, j) (mkpte p perm) s1))"
    using w e ne s1(1) by (simp add: must_insert_def page_insert_def mkpte_alt)
  also have "\<dots> = must_insert d p (page_va j) perm s1"
    by (rule must_insert_walked [OF pc_walk(1) [OF s1(2) j], symmetric])
      (simp add: pc_walk(2) [OF s1(2) j] entry_def)
  finally show ?thesis
    using pc_insert_new [OF s1(2) j _ p(1), of perm] by (cases "j = 0") (simp_all add: entry_def)
qed

section \<open>The mapping tests\<close>

text \<open>The first insertion takes \<open>p0\<close> as the page table.\<close>

lemma pc_start:
  assumes S: "pc_setup s0 d p0 p1 p2" and l0: "is_list (page_free_list s0) []"
  shows "\<exists>s'. must_insert d p1 0 0 (page_free p0 s0) = Some s'
    \<and> pc s0 d p0 p1 p2 s' [] (mkpte p1 0) 0 1 0"
proof -
  let ?s = "page_free p0 s0"
  note f = free_ok [OF l0, of p0, simplified]
  obtain l where l: "page_alloc ?s = Some (Inr p0, ?s\<lparr>page_free_list := l\<rparr>)" "is_list l []"
      "links_eq (- {p0}) (page_free_list ?s) l"
    using page_alloc_links [OF f(1)] by auto
  let ?s1 = "?s\<lparr>page_free_list := l, pp_ref := (pp_ref ?s)(p0 := 1),
      mem := (mem ?s)(p0 := (\<lambda>_. 0), d := (mem ?s d)(0 := mkpte p0 (PTE_U OR PTE_W)))\<rparr>"
  have z: "unat (PDX 0) = 0" "unat (PTX 0) = 0" by (simp_all add: unat_PDX unat_PTX)
  have w: "pgdir_walk d 0 1 ?s = Some (Some (p0, 0), ?s1)"
    using raw_walk_create [of ?s d 0 p0 l] S l(1) unfolding z by (simp add: pc_setup_def page_free_def)
  have ds: "distinct [d, p0, p1, p2]" using S by (simp add: pc_setup_def)
  have "rd ?s1 (p0, 0) = 0" using ds by (simp add: rd_def)
  then have run: "must_insert d p1 0 0 ?s
      = Some (set_ref p1 (pp_ref ?s1 p1 + 1) (wr (p0, 0) (mkpte p1 0) ?s1))"
    using w mkpte_alt [of p1 0] by (simp add: must_insert_def page_insert_def)
  have lk: "links_eq (- {p0, p1, p2}) (page_free_list s0) l"
    using f(2) l(3) by (auto simp: links_eq_def)
  have "pc s0 d p0 p1 p2 (set_ref p1 (pp_ref ?s1 p1 + 1) (wr (p0, 0) (mkpte p1 0) ?s1)) [] (mkpte p1 0) 0 1 0"
    using S ds l(2) lk by (auto simp: pc_def pc_rest_def pc_setup_def same_rest_def set_ref_def wr_def
        page_free_def fun_eq_iff)
  with run show ?thesis by blast
qed

lemma page_check_map_ok:
  assumes S: "pc_setup s0 d p0 p1 p2" and l0: "is_list (page_free_list s0) []"
  shows "\<exists>s'. page_check_map p0 p1 p2 s0 = Some s' \<and> pc s0 d p0 p1 p2 s' [] 0 0 0 0"
proof -
  have d0: "boot_pgdir s0 = d" "mem s0 d 0 = 0" and ds: "distinct [d, p0, p1, p2]"
    and p20: "p0 < 2 ^ 20" "p1 < 2 ^ 20" "p2 < 2 ^ 20" using S by (auto simp: pc_setup_def)
  have z: "unat (PDX 0) = 0" "unat (PDX PTSIZE) = 1" "unat (PDX PGSIZE) = 0" "unat (PTX PGSIZE) = 1"
    by (simp_all add: unat_PDX unat_PTX layout)
  have perm: "unat (0 :: u32) < 4096" "unat PTE_U < 4096" by (simp_all add: pte_flags)
  have s1: "page_lookup d 0 s0 = Some (None, None, s0)"
    using raw_walk_absent [of s0 d 0 0] d0 z by (simp add: page_lookup_def)
  have hd0: "lh_first (page_free_list s0) = None"
    using l0 by (simp add: is_list_def load_lptr_def)
  have s2: "must_not_insert d p1 0 0 s0 = Some s0"
    using raw_walk_nomem [of s0 d 0] d0 hd0 z by (simp add: must_not_insert_def page_insert_def)
  obtain s3 where s3: "must_insert d p1 0 0 (page_free p0 s0) = Some s3"
    and P3: "pc s0 d p0 p1 p2 s3 [] (mkpte p1 0) 0 1 0" using pc_start [OF S l0] by blast
  obtain s4 where s4: "must_insert d p2 PGSIZE 0 s3 = Some s4"
    and P4: "pc s0 d p0 p1 p2 s4 [] (mkpte p1 0) (mkpte p2 0) 1 1"
    using pc_insert_new [OF P3, of 1 p2 0] ds by (auto simp: bump_def)
  obtain s5 where s5: "must_insert d p2 PGSIZE 0 s4 = Some s5"
    and P5: "pc s0 d p0 p1 p2 s5 [] (mkpte p1 0) (mkpte p2 0) 1 1"
    using pc_insert_same [OF P4, of 1 p2 0 0] by auto
  obtain s6 where s6: "must_insert d p2 PGSIZE PTE_U s5 = Some s6"
    and P6: "pc s0 d p0 p1 p2 s6 [] (mkpte p1 0) (mkpte p2 PTE_U) 1 1"
    using pc_insert_same [OF P5, of 1 p2 0 PTE_U] by auto
  have hd6: "lh_first (page_free_list s6) = None"
    using pcD(16) [OF P6] by (simp add: is_list_def load_lptr_def)
  have s7: "must_not_insert d p0 PTSIZE 0 s6 = Some s6"
    using raw_walk_nomem [of s6 d PTSIZE] pcD(17) [OF P6] hd6 z
    by (simp add: must_not_insert_def page_insert_def)
  obtain s8 where s8: "must_insert d p1 PGSIZE 0 s6 = Some s8"
    and P8: "pc s0 d p0 p1 p2 s8 [p2] (mkpte p1 0) (mkpte p1 0) 2 0"
    using pc_insert_other [OF P6, of 1 p2 PTE_U p1 0] ds pcD(15) [OF P6] perm by (auto simp: bump_def)
  obtain s9 where s9: "must_alloc s8 = Some (p2, s9)"
    and P9: "pc s0 d p0 p1 p2 s9 [] (mkpte p1 0) (mkpte p1 0) 2 0" using pc_must_alloc [OF P8] by blast
  obtain s10 where s10: "page_remove d 0 s9 = Some s10"
    and P10: "pc s0 d p0 p1 p2 s10 [] 0 (mkpte p1 0) 1 0"
    using pc_remove [OF P9, of 0 p1 0] ds pcD(14) [OF P9] by (auto simp: bump_def)
  obtain s11 where s11: "page_remove d PGSIZE s10 = Some s11"
    and P11: "pc s0 d p0 p1 p2 s11 [p1] 0 0 0 0"
    using pc_remove [OF P10, of 1 p1 0] ds pcD(14) [OF P10] by (auto simp: bump_def)
  obtain s12 where s12: "must_alloc s11 = Some (p1, s12)" and P12: "pc s0 d p0 p1 p2 s12 [] 0 0 0 0"
    using pc_must_alloc [OF P11] by blast
  note A = pc_at_pa(1) [where perm = 0, OF _ _ _ _ perm(1)]
  have at3: "at_pa d 0 (page2pa p1) s3 = Some ()" using A [OF P3, of 0] p20 by simp
  have at4: "at_pa d PGSIZE (page2pa p2) s4 = Some ()" using A [OF P4, of 1] p20 by simp
  have at5: "at_pa d PGSIZE (page2pa p2) s5 = Some ()" using A [OF P5, of 1] p20 by simp
  have at6: "at_pa d PGSIZE (page2pa p2) s6 = Some ()"
    using pc_at_pa(1) [OF P6, of 1 p2 PTE_U] p20 perm by simp
  have at8: "at_pa d 0 (page2pa p1) s8 = Some ()" "at_pa d PGSIZE (page2pa p1) s8 = Some ()"
    using A [OF P8, of 0] A [OF P8, of 1] p20 by simp_all
  have at10: "at_pa d 0 (NOT 0) s10 = Some ()" "at_pa d PGSIZE (page2pa p1) s10 = Some ()"
    using pc_at_pa(2) [OF P10, of 0] A [OF P10, of 1] p20 by simp_all
  have at11: "at_pa d 0 (NOT 0) s11 = Some ()" "at_pa d PGSIZE (NOT 0) s11 = Some ()"
    using pc_at_pa(2) [OF P11, of 0] pc_at_pa(2) [OF P11, of 1] by simp_all
  have dir: "rd s (d, 0) = mkpte p0 (PTE_U OR PTE_W)" if "pc s0 d p0 p1 p2 s xs e0 e1 a b" for s xs e0 e1 a b
    using pcD(11) [OF that] by (simp add: rd_def)
  have fl: "unat (PTE_U OR PTE_W) < 4096" by (simp add: pte_flags)
  have t3: "PTE_ADDR (rd s3 (d, 0)) = page2pa p0" using dir [OF P3] PTE_ADDR_mkpte [OF p20(1) fl] by simp
  obtain kva where kva: "KADDR (npage s5) (PTE_ADDR (rd s5 (d, 0))) = Some kva" "kptr kva (PTX PGSIZE) = (p0, 1)"
    using KADDR_frame [of "rd s5 (d, 0)" p0 "npage s5" "PTX PGSIZE"] dir [OF P5] pcD(2,8) [OF P5]
      PPN_mkpte [OF p20(1) fl] z by auto
  have w5: "pgdir_walk d PGSIZE 0 s5 = Some (Some (p0, 1), s5)" using pc_walk(1) [OF P5, of 1 0] by simp
  have w6: "pgdir_walk d PGSIZE 0 s6 = Some (Some (p0, 1), s6)" "rd s6 (p0, 1) = mkpte p2 PTE_U"
    using pc_walk [OF P6, of 1] by simp_all
  have w8: "pgdir_walk d PGSIZE 0 s8 = Some (Some (p0, 1), s8)" "rd s8 (p0, 1) = mkpte p1 0"
    using pc_walk [OF P8, of 1] by simp_all
  have u6: "mkpte p2 PTE_U AND PTE_U \<noteq> 0" "rd s6 (d, 0) AND PTE_U \<noteq> 0" "mkpte p1 0 AND PTE_U = 0"
    unfolding dir [OF P6] using mkpte_AND_low [OF perm(2)] by (simp_all add: pte_flags)
  note refs = pcD(13-15) [OF P3] pcD(15) [OF P4] pcD(15) [OF P5] pcD(15) [OF P6] pcD(14,15) [OF P8]
    pcD(14,15) [OF P10] pcD(14,15) [OF P11]
  have "page_check_map p0 p1 p2 s0 = Some s12"
    unfolding page_check_map_def Let_def d0 z
    using s1 s2 s3 s4 s5 s6 s7 s8 s9 s10 s11 s12 at3 at4 at5 at6 at8 at10 at11 t3 kva w5 w6 w8 u6
      refs pc_no_mem [OF P4] pc_no_mem [OF P5] pc_no_mem [OF P12]
    by (simp del: mkpte_present)
  with P12 show ?thesis by blast
qed

section \<open>The page-table tests\<close>

text \<open>
  A freed page without references becomes the page table of a directory entry that is 0, and
  clearing the entry and the reference count again leaves the rest as it was.
\<close>

lemma table_round:
  assumes l: "is_list (page_free_list s) []" and p: "p < npage s" "npage s \<le> 2 ^ 20" "p \<noteq> d"
    and z: "mem s d (unat (PDX va)) = 0" and r: "pp_ref s p = 0"
  shows "\<exists>s'. pgdir_walk d va 1 (page_free p s) = Some (Some (p, unat (PTX va)), s')
    \<and> same_rest s s' \<and> mem s' p = (\<lambda>_. 0) \<and> (\<forall>f. f \<noteq> p \<longrightarrow> f \<noteq> d \<longrightarrow> mem s' f = mem s f)
    \<and> mem s' d = (mem s d)(unat (PDX va) := mkpte p (PTE_U OR PTE_W))
    \<and> pp_ref s' = (pp_ref s)(p := 1) \<and> is_list (page_free_list s') []
    \<and> links_eq (- {p}) (page_free_list s) (page_free_list s')"
proof -
  let ?s = "page_free p s"
  note f = free_ok [OF l, of p, simplified]
  obtain l' where l': "page_alloc ?s = Some (Inr p, ?s\<lparr>page_free_list := l'\<rparr>)" "is_list l' []"
      "links_eq (- {p}) (page_free_list ?s) l'"
    using page_alloc_links [OF f(1)] by auto
  let ?s' = "?s\<lparr>page_free_list := l', pp_ref := (pp_ref ?s)(p := 1),
      mem := (mem ?s)(p := (\<lambda>_. 0), d := (mem ?s d)(unat (PDX va) := mkpte p (PTE_U OR PTE_W)))\<rparr>"
  have "pgdir_walk d va 1 ?s = Some (Some (p, unat (PTX va)), ?s')"
    using raw_walk_create [of ?s d va p l'] z p l'(1) by (simp add: page_free_def)
  moreover have "links_eq (- {p}) (page_free_list s) l'" using f(2) l'(3) by (auto simp: links_eq_def)
  ultimately show ?thesis
    using l'(2) p(3) by (auto simp: page_free_def same_rest_def)
qed

definition pc_done :: "kstate \<Rightarrow> nat \<Rightarrow> nat \<Rightarrow> nat \<Rightarrow> nat \<Rightarrow> kstate \<Rightarrow> bool" where
  "pc_done s0 d p0 p1 p2 s \<longleftrightarrow> same_rest s0 s \<and> (\<forall>f. f \<noteq> p0 \<longrightarrow> mem s f = mem s0 f)
     \<and> pp_ref s = pp_ref s0 \<and> is_list (page_free_list s) []
     \<and> links_eq (- {p0, p1, p2}) (page_free_list s0) (page_free_list s)"

lemma page_check_tables_ok:
  assumes P: "pc s0 d p0 p1 p2 s [] 0 0 0 0"
  shows "\<exists>s'. page_check_tables p0 s = Some s' \<and> pc_done s0 d p0 p1 p2 s'"
proof -
  note D = pcD [OF P]
  have S: "pc_setup s0 d p0 p1 p2" and rest: "pc_rest s0 d p0 p1 p2 s []"
    using P by (simp_all add: pc_def)
  have fl: "unat (PTE_U OR PTE_W) < 4096" by (simp add: pte_flags)
  have va: "PGSIZE * of_nat NPDENTRIES + PGSIZE = 0x401000" by (simp add: PGSIZE_val NPDENTRIES_def)
  have ix: "unat (PDX 0x401000) = 1" "unat (PDX 0) = 0" by (simp_all add: unat_PDX)
  have pd: "p0 \<noteq> d" using D(1) by auto
  let ?s1 = "set_ref p0 0 (wr (d, 0) 0 s)"
  have m1: "mem ?s1 d = mem s0 d" "mem ?s1 d 1 = 0" "npage ?s1 = npage s0"
    using D(2,11,17) S by (auto simp: wr_def set_ref_def pc_setup_def fun_eq_iff)
  obtain s2 where s2: "pgdir_walk d 0x401000 1 (page_free p0 ?s1) = Some (Some (p0, unat (PTX 0x401000)), s2)"
    "same_rest ?s1 s2" "mem s2 p0 = (\<lambda>_. 0)" "\<forall>f. f \<noteq> p0 \<longrightarrow> f \<noteq> d \<longrightarrow> mem s2 f = mem ?s1 f"
    "mem s2 d = (mem ?s1 d)(1 := mkpte p0 (PTE_U OR PTE_W))" "pp_ref s2 = (pp_ref ?s1)(p0 := 1)"
    "is_list (page_free_list s2) []" "links_eq (- {p0}) (page_free_list ?s1) (page_free_list s2)"
    using table_round [of ?s1 p0 d "0x401000"] D(8,16,18) m1 pd unfolding ix by auto
  have np2: "npage s2 = npage s0" using s2(2) m1(3) by (simp add: same_rest_def)
  obtain kv where kv: "KADDR (npage s2) (PTE_ADDR (rd s2 (d, 1))) = Some kv"
      "kptr kv (PTX 0x401000) = (p0, unat (PTX 0x401000))"
    using KADDR_frame [of "rd s2 (d, 1)" p0 "npage s2" "PTX 0x401000"] s2(5) np2 D(8)
      PPN_mkpte [OF D(5) fl] by (auto simp: rd_def)
  obtain kp where kp: "page2kva (npage s0) p0 = Some kp" "fst (kptr kp 0) = p0"
    using page2kva_ok [of p0 "npage s0" 0] D(8,18) by force
  let ?s3 = "(set_ref p0 0 (wr (d, 1) 0 s2))\<lparr>mem := (mem (set_ref p0 0 (wr (d, 1) 0 s2)))(p0 := (\<lambda>_. 0xFFFFFFFF))\<rparr>"
  have z1: "mem s0 d (Suc 0) = 0" using S by (simp add: pc_setup_def)
  have m3: "mem ?s3 d = mem s0 d" "npage ?s3 = npage s0"
    using s2(5) m1 np2 pd z1 by (auto simp: wr_def set_ref_def fun_eq_iff)
  obtain s4 where s4: "pgdir_walk d 0 1 (page_free p0 ?s3) = Some (Some (p0, unat (PTX 0)), s4)"
    "same_rest ?s3 s4" "mem s4 p0 = (\<lambda>_. 0)" "\<forall>f. f \<noteq> p0 \<longrightarrow> f \<noteq> d \<longrightarrow> mem s4 f = mem ?s3 f"
    "mem s4 d = (mem ?s3 d)(0 := mkpte p0 (PTE_U OR PTE_W))" "pp_ref s4 = (pp_ref ?s3)(p0 := 1)"
    "is_list (page_free_list s4) []" "links_eq (- {p0}) (page_free_list ?s3) (page_free_list s4)"
    using table_round [of ?s3 p0 d 0] D(8,18) s2(7) m3 pd S unfolding ix
    by (auto simp: pc_setup_def)
  have np4: "npage s4 = npage s0" using s4(2) m3(2) by (simp add: same_rest_def)
  let ?s5 = "set_ref p0 0 (wr (d, 0) 0 s4)"
  have t0: "PTE_ADDR (rd s (d, 0)) = page2pa p0"
    using D(11) PTE_ADDR_mkpte [OF D(5) fl] by (simp add: rd_def)
  have clear: "list_all (\<lambda>i. rd s4 (p0, i) AND PTE_P = 0) [0..<NPTENTRIES]"
    using s4(3) by (simp add: rd_def list_all_iff)
  have bp: "boot_pgdir s = d" by (rule D(4))
  have run: "page_check_tables p0 s = Some ?s5"
    unfolding page_check_tables_def Let_def va ix bp
    using t0 D(13) s2(1) kv kp s4(1) np2 np4 clear by simp
  have "mem ?s5 f = mem s0 f" if "f \<noteq> p0" for f
  proof (cases "f = d")
    case True
    with s4(5) m3 S show ?thesis by (auto simp: wr_def set_ref_def pc_setup_def fun_eq_iff)
  next
    case False
    with that s4(4) s2(4) rest show ?thesis by (simp add: wr_def set_ref_def pc_rest_def)
  qed
  moreover have "pp_ref ?s5 = pp_ref s0"
    using s4(6) s2(6) P S by (auto simp: pc_def pc_setup_def fun_eq_iff)
  moreover have "same_rest s0 s" using rest by (simp add: pc_rest_def)
  then have "same_rest s0 ?s5" using s2(2) s4(2) by (simp add: same_rest_def set_ref_def wr_def)
  moreover have "links_eq (- {p0, p1, p2}) (page_free_list s0) (page_free_list s4)"
    using rest s2(8) s4(8) by (auto simp: pc_rest_def links_eq_def)
  ultimately show ?thesis using run s4(7) by (simp add: pc_done_def)
qed

section \<open>page\_check\<close>

lemma page_check_ok:
  assumes ls: "is_list (page_free_list s) (p0 # p1 # p2 # fl)"
    and lt: "\<And>x. x \<in> set (p0 # p1 # p2 # fl) \<Longrightarrow> x < npage s \<and> pp_ref s x = 0"
    and d: "boot_pgdir s = d" "d < npage s" "d \<notin> set (p0 # p1 # p2 # fl)"
    and z: "mem s d 0 = 0" "mem s d 1 = 0" and np: "npage s \<le> 2 ^ 20" and cur: "curenv s = None"
  shows "\<exists>s'. page_check s = Some s' \<and> same_rest s s' \<and> pp_ref s' = pp_ref s
    \<and> (\<forall>f. f \<noteq> p0 \<longrightarrow> mem s' f = mem s f) \<and> is_list (page_free_list s') (p2 # p1 # p0 # fl)"
proof -
  have ds: "distinct (p0 # p1 # p2 # fl)" using tailq.repr_distinct [OF ls] .
  obtain l1 where l1: "must_alloc s = Some (p0, s\<lparr>page_free_list := l1\<rparr>)" "is_list l1 (p1 # p2 # fl)"
    using must_alloc_ok [OF ls] by auto
  obtain l2 where l2: "must_alloc (s\<lparr>page_free_list := l1\<rparr>) = Some (p1, s\<lparr>page_free_list := l2\<rparr>)"
      "is_list l2 (p2 # fl)"
    using must_alloc_ok [of "s\<lparr>page_free_list := l1\<rparr>" p1 "p2 # fl"] l1 by auto
  obtain l3 where l3: "must_alloc (s\<lparr>page_free_list := l2\<rparr>) = Some (p2, s\<lparr>page_free_list := l3\<rparr>)"
      "is_list l3 fl"
    using must_alloc_ok [of "s\<lparr>page_free_list := l2\<rparr>" p2 fl] l2 by auto
  let ?s0 = "s\<lparr>page_free_list := l3\<lparr>lh_first := None\<rparr>\<rparr>"
  have e0: "is_list (page_free_list ?s0) []" by (simp add: is_list_def load_lptr_def)
  have S: "pc_setup ?s0 d p0 p1 p2"
    using ds d z np cur lt by (auto simp: pc_setup_def)
  obtain s1 where s1: "page_check_map p0 p1 p2 ?s0 = Some s1" "pc ?s0 d p0 p1 p2 s1 [] 0 0 0 0"
    using page_check_map_ok [OF S e0] by blast
  obtain s2 where s2: "page_check_tables p0 s1 = Some s2" "pc_done ?s0 d p0 p1 p2 s2"
    using page_check_tables_ok [OF s1(2)] by blast
  let ?s3 = "give_free_list (lh_first l3) s2"
  have "links_eq (set fl) l3 (page_free_list s2)"
    using s2(2) ds by (auto simp: pc_done_def links_eq_def)
  from give_back [OF l3(2) this] have g: "is_list (page_free_list ?s3) fl" by (simp add: give_free_list_def)
  note f0 = free_ok [OF g, of p0]
  have g0: "is_list (page_free_list (page_free p0 ?s3)) (p0 # fl)" using f0 ds by auto
  have g1: "is_list (page_free_list (page_free p1 (page_free p0 ?s3))) (p1 # p0 # fl)"
    using free_ok(1) [OF g0, of p1] ds by auto
  have g2: "is_list (page_free_list (page_free p2 (page_free p1 (page_free p0 ?s3)))) (p2 # p1 # p0 # fl)"
    using free_ok(1) [OF g1, of p2] ds by auto
  have "page_check s = Some (page_free p2 (page_free p1 (page_free p0 ?s3)))"
    using l1(1) l2(1) l3(1) no_mem_ok [OF e0] s1(1) s2(1) ds
    by (simp add: page_check_def steal_free_list_def LIST_INIT_def)
  with g2 s2(2) show ?thesis
    by (auto simp: pc_done_def page_free_def give_free_list_def same_rest_def)
qed

end
