(* ===== verification/Boot_Init.thy ===== *)
theory Boot_Init
  imports Boot_Map Page_Check
begin

text \<open>
  i386_vm_init of kern/pmap.c as a whole: the boot-time allocations as page numbers, the free
  list that page_init builds from them, and the run through the self tests to the finished
  directory.
\<close>

unbundle bit_operations_syntax

section \<open>Boot-time allocations\<close>

text \<open>The first page after the kernel image, and the first one after the boot-time allocations.\<close>

definition kend_page :: "u32 \<Rightarrow> nat" where
  "kend_page kend = (unat kend - 0xF0000000 + 4095) div 4096"

definition boot_end :: "u32 \<Rightarrow> nat \<Rightarrow> nat" where
  "boot_end kend np = kend_page kend + 1 + pages_len np + 36"

definition kaddr :: "nat \<Rightarrow> u32" where
  "kaddr p = KERNBASE + vaddr p"

lemma unat_kaddr: "p < 65536 \<Longrightarrow> unat (kaddr p) = 0xF0000000 + p * 4096"
  by (simp add: kaddr_def unat_word_ariths unat_vaddr layout)

lemma kaddr_nonzero: "p < 65536 \<Longrightarrow> kaddr p \<noteq> 0"
  using unat_kaddr [of p] by auto

lemma PADDR_kaddr: "p < 65536 \<Longrightarrow> PADDR (kaddr p) = Some (vaddr p)"
  using unat_kaddr [of p] by (simp add: PADDR_def word_less_nat_alt layout kaddr_def)

lemma kptr_kaddr: "p < 2 ^ 20 \<Longrightarrow> fst (kptr (kaddr p) i) = p"
  by (simp add: kptr_def kaddr_def PPN_def shifts unat_drop_bit unat_vaddr)

lemma boot_alloc_page:
  assumes fm: "unat (if fm = 0 then kend else fm) = 0xF0000000 + x" and q: "q = (x + 4095) div 4096"
    and lt: "q < 65536"
  shows "boot_alloc kend fm n PGSIZE = (kaddr q, kaddr q + n)"
proof -
  let ?fm = "if fm = 0 then kend else fm"
  have "x \<le> q * 4096" using q by linarith
  then have "unat ?fm + 4095 < 2 ^ 32" using fm lt by simp
  from unat_ROUNDUP_PGSIZE [OF this] have "unat (ROUNDUP ?fm PGSIZE) = (0xF0000000 + x + 4095) div 4096 * 4096"
    using fm by simp
  also have "0xF0000000 + x + 4095 = (x + 4095) + 983040 * 4096" by simp
  also have "((x + 4095) + 983040 * 4096) div 4096 = 983040 + q"
    unfolding q by (simp only: div_mult_self1)
  also have "(983040 + q) * 4096 = 0xF0000000 + q * 4096" by simp
  also have "\<dots> = unat (kaddr q)" using unat_kaddr [OF lt] by simp
  finally have "ROUNDUP ?fm PGSIZE = kaddr q" by (simp only: word_unat_eq_iff)
  then show ?thesis unfolding boot_alloc_def Let_def by simp
qed

lemma kaddr_add: "kaddr q + vaddr k = kaddr (q + k)"
  by (simp add: kaddr_def add.assoc vaddr_add)

lemma vm_init_alloc_ok:
  assumes kend: "0xF0000000 \<le> unat kend" and np: "npage s \<le> 65536" and fit: "boot_end kend (npage s) < npage s"
    and fm: "boot_freemem b = 0"
  defines "d \<equiv> kend_page kend" and "pg \<equiv> kend_page kend + 1"
    and "en \<equiv> kend_page kend + 1 + pages_len (npage s)"
  shows "vm_init_alloc kend b s = Some
    (b\<lparr>boot_freemem := kaddr (boot_end kend (npage s)), pages_ptr := kaddr pg, envs_ptr := kaddr en\<rparr>,
     s\<lparr>boot_pgdir := d, boot_cr3 := vaddr d,
       mem := (mem s)(d := (\<lambda>_. 0)(959 := mkpte d PTE_W, 957 := mkpte d PTE_U))\<rparr>)"
proof -
  note b_end = fit [unfolded boot_end_def]
  have small: "d < 65536" "pg < 65536" "en < 65536" using np b_end by (simp_all add: d_def pg_def en_def)
  have a1: "boot_alloc kend 0 PGSIZE PGSIZE = (kaddr d, kaddr pg)"
  proof -
    have "unat (if (0 :: u32) = 0 then kend else 0) = 0xF0000000 + (unat kend - 0xF0000000)"
      using kend by simp
    from boot_alloc_page [OF this, of d PGSIZE] small(1) have
      "boot_alloc kend 0 PGSIZE PGSIZE = (kaddr d, kaddr d + PGSIZE)" by (simp add: d_def kend_page_def)
    moreover have "PGSIZE = vaddr 1" by (simp add: vaddr_def PGSIZE_val)
    ultimately show ?thesis using kaddr_add [of d 1] by (simp add: pg_def d_def)
  qed
  have bytes: "unat (of_nat (npage s) * sizeof_Page) = npage s * 12" by (rule pages_bytes [OF np])
  have a2: "boot_alloc kend (kaddr pg) (of_nat (npage s) * sizeof_Page) PGSIZE
      = (kaddr pg, kaddr pg + of_nat (npage s) * sizeof_Page)"
    by (rule boot_alloc_page [where x = "pg * 4096"]) (use unat_kaddr [OF small(2)] kaddr_nonzero [OF small(2)] small in simp_all)
  have u2: "unat (kaddr pg + of_nat (npage s) * sizeof_Page) = 0xF0000000 + (pg * 4096 + npage s * 12)"
  proof -
    have "npage s * 12 \<le> pages_len (npage s) * 4096" by (simp add: pages_len_def)
    then have "0xF0000000 + (pg * 4096 + npage s * 12) < 2 ^ 32" using small(3) by (simp add: en_def pg_def)
    then show ?thesis using unat_kaddr [OF small(2)] bytes by (simp add: unat_word_ariths)
  qed
  have q2: "en = (pg * 4096 + npage s * 12 + 4095) div 4096"
    by (simp add: en_def pg_def pages_len_def)
  have a3: "boot_alloc kend (kaddr pg + of_nat (npage s) * sizeof_Page) (of_nat NENV * sizeof_Env) PGSIZE
      = (kaddr en, kaddr (boot_end kend (npage s)))"
  proof -
    have "kaddr pg + of_nat (npage s) * sizeof_Page \<noteq> 0" using u2 by (metis add_is_0 unat_0 zero_neq_numeral)
    then have "unat (if kaddr pg + of_nat (npage s) * sizeof_Page = 0 then kend
        else kaddr pg + of_nat (npage s) * sizeof_Page) = 0xF0000000 + (pg * 4096 + npage s * 12)"
      using u2 by simp
    from boot_alloc_page [OF this q2 small(3)] have
      "boot_alloc kend (kaddr pg + of_nat (npage s) * sizeof_Page) (of_nat NENV * sizeof_Env) PGSIZE
        = (kaddr en, kaddr en + of_nat NENV * sizeof_Env)" .
    moreover have "of_nat NENV * sizeof_Env = vaddr 36" by (simp add: sizeof_Env_def NENV_val vaddr_def)
    ultimately show ?thesis using kaddr_add [of en 36] by (simp add: en_def boot_end_def)
  qed
  have fr: "fst (kptr (kaddr d) 0) = d" using small by (intro kptr_kaddr) simp
  have ix: "unat (PDX VPT) = 959" "unat (PDX UVPT) = 957" by (simp_all add: unat_PDX layout)
  have e: "vaddr d OR perm OR PTE_P = mkpte d perm" for perm
    by (simp add: mkpte_def page2pa_vaddr or.assoc)
  show ?thesis
    unfolding vm_init_alloc_def
    using a1 a2 a3 fm fr PADDR_kaddr [OF small(1)]
    by (simp add: Let_def ix e wr_def zero_page_def)
qed

section \<open>The free list\<close>

lemma page_init_step_rest:
  "same_rest s (page_init_step lo hi i s0) = same_rest s s0" "tlb (page_init_step lo hi i s0) = tlb s0"
  by (simp_all add: page_init_step.simps Let_def)

lemma page_init_fold_rest:
  "same_rest s (fold (page_init_step lo hi) xs s0) = same_rest s s0"
  "tlb (fold (page_init_step lo hi) xs s0) = tlb s0"
  by (induction xs arbitrary: s0)
    (simp_all add: page_init_step_rest del: page_init_step.simps)

lemma page_init_rest:
  assumes "page_init fm s = Some s'"
  shows "same_rest s s'" "tlb s' = tlb s"
proof -
  obtain lo hi where s': "s' = fold (page_init_step lo hi) [0..<npage s]
      (s\<lparr>page_free_list := LIST_INIT (page_free_list s)\<rparr>)"
    using assms by (auto simp: page_init_def bind_Some_iff Let_def)
  show "same_rest s s'" "tlb s' = tlb s" unfolding s' page_init_fold_rest by simp_all
qed

lemma vaddr_inj: "p < 2 ^ 20 \<Longrightarrow> q < 2 ^ 20 \<Longrightarrow> vaddr p = vaddr q \<longleftrightarrow> p = q"
  by (metis mult_cancel2 unat_vaddr zero_neq_numeral)

lemma page_init_boot:
  assumes e: "e < npage s" "npage s \<le> 65536"
  shows "\<exists>s'. page_init (kaddr e) s = Some s' \<and> same_rest s s' \<and> tlb s' = tlb s \<and> mem s' = mem s
    \<and> pages_wf s' (init_free 160 e [0..<npage s])
    \<and> (\<forall>i < npage s. pp_ref s' i = (if kernel_page 160 e i then 1 else 0))"
proof -
  have e': "e < 65536" using e by simp
  have lo: "unat (PPN IOPHYSMEM) = 160" by (simp add: PPN_def shifts layout)
  have "unat (ROUNDUP (vaddr e) PGSIZE) = e * 4096"
    using e' by (subst unat_ROUNDUP_PGSIZE) (simp_all add: unat_vaddr)
  then have hi: "unat (PPN (ROUNDUP (vaddr e) PGSIZE)) = e"
    by (simp add: PPN_def shifts unat_drop_bit)
  show ?thesis
    using page_init_ok [OF PADDR_kaddr [OF e'], of s] e page_init_rest [of "kaddr e" s]
    unfolding lo hi by force
qed

lemma init_free_set: "p \<in> set (init_free lo hi [0..<n]) \<longleftrightarrow> p < n \<and> \<not> kernel_page lo hi p"
  by (auto simp: init_free_def)

lemma init_free_length:
  assumes "160 \<le> e" and "e \<le> n"
  shows "159 + (n - e) \<le> length (init_free 160 e [0..<n])"
proof -
  have "{1..<160} \<union> {e..<n} \<subseteq> set (init_free 160 e [0..<n])"
    using assms by (auto simp: init_free_set kernel_page_def)
  then have "card ({1..<160} \<union> {e..<n}) \<le> card (set (init_free 160 e [0..<n]))" by (intro card_mono) simp_all
  moreover have "card ({1..<160} \<union> {e..<n}) = 159 + (n - e)"
    using assms by (subst card_Un_disjoint) auto
  ultimately show ?thesis using card_length [of "init_free 160 e [0..<n]"] by simp
qed

lemma check_free_page_ok:
  assumes x: "x \<in> set (init_free 160 e [0..<npage s])" and e: "256 < e" "e < npage s" "npage s \<le> 65536"
  shows "check_free_page (kaddr e) x s = Some ()"
proof -
  have xx: "x < npage s" "x \<noteq> 0" "x \<noteq> 160" "x \<noteq> 255" "x \<noteq> 256" "x \<noteq> e - 1" "x < 65536"
    using x e by (auto simp: init_free_set kernel_page_def)
  have v: "0 = vaddr 0" "IOPHYSMEM = vaddr 160" "EXTPHYSMEM - PGSIZE = vaddr 255" "EXTPHYSMEM = vaddr 256"
    by (simp_all add: vaddr_def layout)
  have inj: "page2pa x \<noteq> vaddr q" if "q < 2 ^ 20" "x \<noteq> q" for q
    unfolding page2pa_vaddr using xx(7) that by (simp add: vaddr_inj)
  have ne: "page2pa x \<noteq> 0" "page2pa x \<noteq> IOPHYSMEM" "page2pa x \<noteq> EXTPHYSMEM - PGSIZE"
      "page2pa x \<noteq> EXTPHYSMEM"
    unfolding v(3) using inj [of 0, folded v(1)] inj [of 160, folded v(2)] inj [of 255] inj [of 256, folded v(4)]
      xx by simp_all
  have kva: "page2kva (npage s) x = Some (kaddr x)"
  proof -
    have "page2kva (npage s) x = Some (page2pa x + KERNBASE)"
      using xx by (simp add: page2kva_def KADDR_def unat_PPN_page2pa)
    then show ?thesis by (simp only: kaddr_def page2pa_vaddr add.commute)
  qed
  have "kaddr e \<noteq> 0" using kaddr_nonzero [of e] e by simp
  then have u: "unat (kaddr e - 1) = 0xF0000000 + e * 4096 - 1"
    using unat_kaddr [of e] e by (simp add: unat_minus_one)
  have "(0xF0000000 + e * 4096 - 1) mod 4096 = 4095"
    using e by (cases e) (simp_all add: mod_simps)
  then have "unat (ROUNDDOWN (kaddr e - 1) PGSIZE) = 0xF0000000 + (e - 1) * 4096"
    unfolding unat_ROUNDDOWN u PGSIZE_val using e by (simp add: diff_mult_distrib)
  then have "kaddr x \<noteq> ROUNDDOWN (kaddr e - 1) PGSIZE"
    using unat_kaddr [OF xx(7)] xx(6) by auto
  with ne kva xx(1) show ?thesis by (simp add: check_free_page_def)
qed

section \<open>i386\_vm\_init\<close>

lemma boot_map_paging:
  assumes B: "boot_map_ok d pg en st s fl" and d: "boot_pgdir s = d"
    and s': "s' = snd (vm_init_paging b s)"
  shows "boot_map_ok d pg en st s' fl" "mem s' = mem s" "pp_ref s' = pp_ref s" "npage s' = npage s"
    "page_free_list s' = page_free_list s" "boot_pgdir s' = d" "cr3 s' = boot_cr3 s" "tlb s' = Map.empty"
    "envs s' = envs s" "curenv s' = curenv s" "env_free_list s' = env_free_list s" "boot_cr3 s' = boot_cr3 s"
proof -
  have inv: "dir_inv d s fl" using B by (simp add: boot_map_ok_def)
  have k0: "0 \<in> kdirs" by (simp add: kdirs_iff)
  have "ptmap s (d, 0) = None" using B k0 by (auto simp: boot_map_ok_def)
  then have z: "mem s d 0 = 0" using dir_invD(5) [OF inv k0] by simp
  show m: "mem s' = mem s"
    using z d by (auto simp: s' vm_init_paging_def Let_def lcr3_def wr_def fun_eq_iff)
  show f: "pp_ref s' = pp_ref s" "npage s' = npage s" "page_free_list s' = page_free_list s"
    "boot_pgdir s' = d" "cr3 s' = boot_cr3 s" "tlb s' = Map.empty"
    "envs s' = envs s" "curenv s' = curenv s" "env_free_list s' = env_free_list s" "boot_cr3 s' = boot_cr3 s"
    using d by (simp_all add: s' vm_init_paging_def Let_def lcr3_def wr_def)
  show "boot_map_ok d pg en st s' fl"
    using B unfolding boot_map_ok_def dir_inv_def pages_wf_def maps_cong [OF m] m f by simp
qed

text \<open>What the boot loader and the linker give the kernel, and memory enough for it.\<close>

definition boot_env :: "u32 \<Rightarrow> u32 \<Rightarrow> bootvars \<Rightarrow> kstate \<Rightarrow> bool" where
  "boot_env kend bootstack b s \<longleftrightarrow>
     KERNBASE + EXTPHYSMEM \<le> kend \<and> KERNBASE \<le> bootstack \<and> bootstack mod PGSIZE = 0
     \<and> boot_freemem b = 0 \<and> curenv s = None
     \<and> npage s \<le> 65536 \<and> boot_end kend (npage s) < npage s"

text \<open>
  The page tables of the boot directory, and the references of the pages when there is no
  environment: one for page 0, the I/O hole, the kernel and its boot-time structures up to page \<open>e\<close>, one for
  each of the page tables, none for any other page.
\<close>

definition kernel_tables :: "kstate \<Rightarrow> nat set" where
  "kernel_tables s = {t. \<exists>i \<in> kdirs. ptmap s (boot_pgdir s, i) = Some t}"

definition boot_refs :: "nat \<Rightarrow> nat set \<Rightarrow> nat \<Rightarrow> nat" where
  "boot_refs e T p = (if p = 0 \<or> (160 \<le> p \<and> p < e) \<or> p \<in> T then 1 else 0)"

text \<open>The 67 tables: for UENVS, UPAGES, the kernel stack and the 64 of the memory above KERNBASE.\<close>

lemma kernel_tables_card:
  assumes B: "boot_map_ok d pg en st s fl" and d: "boot_pgdir s = d"
  shows "card (kernel_tables s) = 67"
proof -
  let ?I = "{i \<in> kdirs. ptmap s (d, i) \<noteq> None}"
  have inv: "dir_inv d s fl" using B by (simp add: boot_map_ok_def)
  have I: "?I = {955, 956, 958} \<union> {960..<1024}" using B by (auto simp: boot_map_ok_def kdirs_iff)
  have "kernel_tables s = (\<lambda>i. the (ptmap s (d, i))) ` ?I"
    unfolding kernel_tables_def d by force
  moreover have "inj_on (\<lambda>i. the (ptmap s (d, i))) ?I"
    using dir_invD(10) [OF inv] by (auto intro!: inj_onI)
  ultimately have "card (kernel_tables s) = card ?I" by (simp add: card_image)
  also have "\<dots> = 67" unfolding I by (subst card_Un_disjoint) auto
  finally show ?thesis .
qed

lemma boot_stack:
  assumes "KERNBASE \<le> bootstack" and "bootstack mod PGSIZE = 0"
  shows "\<exists>st. bootstack = kaddr st \<and> st < 65536"
proof -
  let ?a = "unat bootstack"
  have a: "0xF0000000 \<le> ?a" "?a < 2 ^ 32"
    using assms(1) unsigned_less [of bootstack, where 'a = nat] by (simp_all add: word_le_nat_alt layout)
  have "?a mod 4096 = 0"
    using assms(2) by (simp add: word_unat_eq_iff unat_mod_distrib PGSIZE_val)
  then obtain q where q: "?a = 4096 * q" by blast
  then have "983040 \<le> q" "q < 1048576" using a by simp_all
  then have "unat (kaddr (q - 983040)) = ?a" "q - 983040 < 65536"
    using unat_kaddr [of "q - 983040"] q by simp_all
  then show ?thesis by (metis word_unat_eq_iff)
qed

lemma vm_init_ok:
  assumes E: "boot_env kend bootstack b s"
  defines "d \<equiv> kend_page kend" and "pg \<equiv> kend_page kend + 1"
    and "en \<equiv> kend_page kend + 1 + pages_len (npage s)" and "e \<equiv> boot_end kend (npage s)"
  shows "\<exists>b' s' st fl. i386_vm_init kend bootstack b s = Some (b', s')
    \<and> pages_ptr b' = kaddr pg \<and> envs_ptr b' = kaddr en \<and> bootstack = kaddr st \<and> st < 65536
    \<and> boot_freemem b' = kaddr e \<and> cr0 b' = cr0_paging (cr0 b)
    \<and> boot_map_ok d pg en st s' fl \<and> boot_pgdir s' = d \<and> boot_cr3 s' = vaddr d
    \<and> cr3 s' = vaddr d \<and> tlb s' = Map.empty
    \<and> npage s' = npage s \<and> envs s' = envs s \<and> env_free_list s' = env_free_list s \<and> curenv s' = None
    \<and> set fl \<subseteq> {p. p < npage s \<and> \<not> kernel_page 160 e p} \<and> 92 + (npage s - e) \<le> length fl
    \<and> (\<forall>p < npage s. kernel_page 160 e p \<longrightarrow> pp_ref s' p = 1)
    \<and> (\<forall>p < npage s. pp_ref s' p = of_nat (boot_refs e (kernel_tables s') p))
    \<and> set fl = {p. p < npage s \<and> pp_ref s' p = 0} \<and> card (kernel_tables s') = 67"
proof -
  note E' = E [unfolded boot_env_def]
  have kend: "0xF0100000 \<le> unat kend" using E' by (simp add: word_le_nat_alt layout)
  have np: "npage s \<le> 65536" "e < npage s" using E' by (simp_all add: e_def)
  have kp: "256 \<le> kend_page kend" using kend by (simp add: kend_page_def)
  then have e256: "256 < e" "160 \<le> npage s" using np by (simp_all add: e_def boot_end_def)
  have "KERNBASE \<le> bootstack" "bootstack mod PGSIZE = 0" using E' by simp_all
  from boot_stack [OF this] obtain st where st: "bootstack = kaddr st" "st < 65536" by blast
  let ?b = "b\<lparr>boot_freemem := kaddr e, pages_ptr := kaddr pg, envs_ptr := kaddr en\<rparr>"
  have k0: "0xF0000000 \<le> unat kend" using kend by simp
  have fm0: "boot_freemem b = 0" using E' by blast
  let ?s1 = "s\<lparr>boot_pgdir := d, boot_cr3 := vaddr d,
       mem := (mem s)(d := (\<lambda>_. 0)(959 := mkpte d PTE_W, 957 := mkpte d PTE_U))\<rparr>"
  have s1: "vm_init_alloc kend b s = Some (?b, ?s1)"
    unfolding d_def pg_def en_def e_def by (rule vm_init_alloc_ok [OF k0 np(1) np(2) [unfolded e_def] fm0])
  let ?fl = "init_free 160 e [0..<npage s]"
  obtain s2 where s2: "page_init (kaddr e) ?s1 = Some s2" "same_rest ?s1 s2" "mem s2 = mem ?s1"
      "pages_wf s2 ?fl" "\<forall>i < npage s. pp_ref s2 i = (if kernel_page 160 e i then 1 else 0)"
    using page_init_boot [of e ?s1] np by auto
  have ls2: "is_list (page_free_list s2) ?fl" using s2(4) by (simp add: pages_wf_def)
  have np2: "npage s2 = npage s" using s2(2) by (simp add: same_rest_def)
  have "159 + (npage s - e) \<le> length ?fl" using init_free_length e256(1) np(2) by simp
  then obtain p0 p1 p2 fl1 where fl: "?fl = p0 # p1 # p2 # fl1" and len1: "156 + (npage s - e) \<le> length fl1"
    by (auto simp: numeral_eq_Suc Suc_le_length_iff)
  have infl: "x \<in> set (p0 # p1 # p2 # fl1) \<longleftrightarrow> x < npage s \<and> \<not> kernel_page 160 e x" for x
    using init_free_set [of x 160 e "npage s"] unfolding fl .
  have dk: "kernel_page 160 e d" "d < npage s" "d \<noteq> 0"
    using kp np by (simp_all add: kernel_page_def d_def e_def boot_end_def)
  then have dn: "d \<notin> set (p0 # p1 # p2 # fl1)" unfolding infl by simp
  obtain m3 l3 where s3: "check_page_alloc (kaddr e) s2 = Some (s2\<lparr>mem := m3, page_free_list := l3\<rparr>)"
      "is_list l3 (p0 # p1 # p2 # fl1)" "\<forall>f. f \<notin> set (p0 # p1 # p2 # fl1) \<longrightarrow> m3 f = mem s2 f"
  proof -
    have "check_free_page (kaddr e) x (s2\<lparr>mem := m\<rparr>) = Some ()"
      if "x \<in> set (p0 # p1 # p2 # fl1)" for x m
      by (rule check_free_page_ok) (use that fl np2 np e256 in simp_all)
    with check_page_alloc_ok [OF ls2 [unfolded fl], of "kaddr e"] infl np2 np(1) that show ?thesis
      by (metis (no_types, lifting))
  qed
  let ?s3 = "s2\<lparr>mem := m3, page_free_list := l3\<rparr>"
  have m3d: "m3 d = (\<lambda>_. 0)(959 := mkpte d PTE_W, 957 := mkpte d PTE_U)"
    using s3(3) dn s2(3) by simp
  have d3: "boot_pgdir ?s3 = d" "curenv ?s3 = None" "npage ?s3 = npage s" "npage ?s3 \<le> 2 ^ 20"
    using s2(2) np E' by (simp_all add: same_rest_def)
  obtain s4 where s4: "page_check ?s3 = Some s4" "same_rest ?s3 s4" "pp_ref s4 = pp_ref s2"
      "\<forall>f. f \<noteq> p0 \<longrightarrow> mem s4 f = m3 f" "is_list (page_free_list s4) (p2 # p1 # p0 # fl1)"
    using page_check_ok [of ?s3 p0 p1 p2 fl1 d] s3(2) infl np2 s2(5) d3 dk dn m3d by auto
  let ?fl4 = "p2 # p1 # p0 # fl1"
  have fl4: "x \<in> set ?fl4 \<longleftrightarrow> x < npage s \<and> \<not> kernel_page 160 e x" for x
    using infl [of x] by auto
  have np4: "npage s4 = npage s" using s4(2) np2 by (simp add: same_rest_def)
  have m4d: "mem s4 d = (\<lambda>_. 0)(959 := mkpte d PTE_W, 957 := mkpte d PTE_U)"
    using s4(4) dn m3d by simp
  have k4: "mem s4 d i = 0" if "i \<in> kdirs" for i using that unfolding m4d by (simp add: kdirs_iff)
  have wf4: "pages_wf s4 ?fl4"
    using s4(3,5) s2(5) fl4 np4 np by (auto simp: pages_wf_def)
  have inv4: "dir_inv d s4 ?fl4"
    by (rule dir_inv_empty [OF wf4]) (use dk dn np4 k4 in auto)
  have pt4: "ptmap s4 (d, i) = None" if "i \<in> kdirs" for i using k4 [OF that] by (simp add: ptmap_def)
  have bp4: "boot_pgdir s4 = d" using s4(2) d3 by (simp add: same_rest_def)
  have small: "pg < 65536" "en < 65536" using np by (simp_all add: pg_def en_def e_def boot_end_def)
  note ptrs = PADDR_kaddr [OF small(1)] PADDR_kaddr [OF small(2)] PADDR_kaddr [OF st(2)]
  obtain s5 fl5 where s5: "vm_init_segments bootstack ?b s4 = Some s5" "dir_inv d s5 fl5"
      "dir_frame d s4 ?fl4 s5 fl5" "length ?fl4 \<le> length fl5 + 67"
      "\<forall>i \<in> kdirs. ptmap s5 (d, i) \<noteq> None \<longleftrightarrow> i \<in> {955, 956, 958} \<or> 960 \<le> i"
      "\<forall>i \<in> kdirs. \<forall>j < 1024. leafpte s5 (d, i, j)
         = vpn_pte (npage s4) (vaddr pg) (vaddr en) (vaddr st) (i * 1024 + j)"
    using segments_ok [OF inv4 pt4 bp4, of ?b "vaddr pg" "vaddr en" bootstack "vaddr st"] ptrs st np4 np
      e256 len1 by auto
  note fr5 = s5(3) [unfolded dir_frame_def]
  have np5: "npage s5 = npage s" "boot_pgdir s5 = d" using fr5 np4 bp4 by (simp_all add: same_rest_def)
  have ix: "unat (PDX VPT) = 959" "unat (PDX UVPT) = 957" by (simp_all add: unat_PDX layout)
  have B5: "boot_map_ok d pg en st s5 fl5"
    unfolding boot_map_ok_def using s5(2,5,6) fr5 np4 np5 m4d by (simp add: ix kdirs_iff)
  have chk5: "check_boot_pgdir bootstack ?b s5 = Some ()"
    by (rule check_boot_pgdir_ok [OF B5 np5(2)]) (use np5 np e256 ptrs st small in simp_all)
  let ?s6 = "snd (vm_init_paging ?b s5)"
  note P = boot_map_paging [OF B5 np5(2), of ?s6 ?b, OF refl]
  have run: "i386_vm_init kend bootstack b s = Some (vm_init_paging ?b s5)"
    unfolding i386_vm_init_def using s1 s2(1) s3(1) s4(1) s5(1) chk5 by simp
  have pb: "fst (vm_init_paging ?b s5) = ?b\<lparr>cr0 := cr0_paging (cr0 b)\<rparr>"
    by (simp add: vm_init_paging_def Let_def)
  have rest: "same_rest ?s1 s5"
    using s2(2) s4(2) fr5 by (simp add: same_rest_def)
  have sub5: "set fl5 \<subseteq> set ?fl4" using fr5 by (metis set_drop_subset)
  have ref5: "pp_ref ?s6 p = 1" if "p < npage s" "kernel_page 160 e p" for p
  proof -
    have "p \<notin> set ?fl4" unfolding fl4 using that by simp
    then show ?thesis using fr5 P(3) s4(3) s2(5) that by simp
  qed
  have T: "kernel_tables ?s6 = {t. \<exists>i \<in> kdirs. ptmap s5 (d, i) = Some t}"
    using P(2,6) by (simp add: kernel_tables_def ptmap_def)
  have tab5: "p \<notin> set fl5" if "p \<in> kernel_tables ?s6" for p
    using that dir_invD(8) [OF s5(2)] unfolding T by blast
  have free5: "pp_ref s5 p = 0" if "p \<in> set fl5" for p
    using dir_invD(1) [OF s5(2)] that by (simp add: pages_wf_def)
  have took: "pp_ref s5 p = 1 \<and> p \<in> kernel_tables ?s6" if "p < npage s" "\<not> kernel_page 160 e p" "p \<notin> set fl5" for p
  proof -
    have "p \<in> set ?fl4 - set fl5" using that unfolding Diff_iff fl4 by blast
    with fr5 show ?thesis unfolding T by blast
  qed
  have refs: "pp_ref ?s6 p = of_nat (boot_refs e (kernel_tables ?s6) p)" if "p < npage s" for p
  proof (cases "kernel_page 160 e p")
    case True
    then show ?thesis using ref5 [OF that] by (auto simp: boot_refs_def kernel_page_def)
  next
    case False
    then have "\<not> (p = 0 \<or> 160 \<le> p \<and> p < e)" by (auto simp: kernel_page_def)
    then show ?thesis
      using False that took [of p] tab5 [of p] free5 [of p] P(3) by (cases "p \<in> set fl5") (auto simp: boot_refs_def)
  qed
  have fl5: "set fl5 = {p. p < npage s \<and> pp_ref ?s6 p = 0}"
    using sub5 fl4 free5 took ref5 P(3) by (fastforce simp: subset_iff)
  have len5: "92 + (npage s - e) \<le> length fl5" using s5(4) len1 by simp
  have sub: "set fl5 \<subseteq> {p. p < npage s \<and> \<not> kernel_page 160 e p}" using sub5 fl4 by blast
  have "i386_vm_init kend bootstack b s = Some (?b\<lparr>cr0 := cr0_paging (cr0 b)\<rparr>, ?s6)"
    unfolding run by (metis pb prod.collapse)
  moreover have "\<forall>p < npage s. pp_ref ?s6 p = of_nat (boot_refs e (kernel_tables ?s6) p)" using refs by blast
  moreover have "boot_cr3 ?s6 = vaddr d" "cr3 ?s6 = vaddr d" "npage ?s6 = npage s" "envs ?s6 = envs s"
    "env_free_list ?s6 = env_free_list s" "curenv ?s6 = None"
    using P rest np5 E' by (simp_all add: same_rest_def)
  ultimately show ?thesis
    using st P(1,6,8) sub len5 ref5 fl5 kernel_tables_card [OF P(1) P(6)]
    by (intro exI [of _ "?b\<lparr>cr0 := cr0_paging (cr0 b)\<rparr>"] exI [of _ ?s6] exI [of _ st] exI [of _ fl5] conjI)
      (assumption | simp)+
qed

end
