(* ===== verification/Boot_Spec.thy ===== *)
theory Boot_Spec
  imports Boot_Init
begin

text \<open>
  The properties of i386_vm_init of kern/pmap.c: it gets through its own self tests, the address
  space it builds is the one inc/memlayout.h draws, the protection is the one its comment
  promises, and the page structures start in the invariant of the page allocator.
\<close>

unbundle bit_operations_syntax

section \<open>The documented address space\<close>

text \<open>
  The entry that the comments of i386_vm_init ask for, by address: \<open>pg\<close>, \<open>en\<close> and \<open>st\<close> are the
  physical addresses of the array of pages, the array of environments and the kernel stack.
\<close>

definition boot_pte :: "nat \<Rightarrow> u32 \<Rightarrow> u32 \<Rightarrow> u32 \<Rightarrow> u32 \<Rightarrow> u32" where
  "boot_pte np pg en st va =
     (let a = ROUNDDOWN va PGSIZE in
      if KERNBASE \<le> a then (a - KERNBASE) OR PTE_W OR PTE_P
      else if KSTACKTOP - KSTKSIZE \<le> a \<and> a < KSTACKTOP
      then (st + (a - (KSTACKTOP - KSTKSIZE))) OR PTE_W OR PTE_P
      else if UENVS \<le> a \<and> a < UENVS + ROUNDUP (of_nat NENV * sizeof_Env) PGSIZE
      then (en + (a - UENVS)) OR PTE_U OR PTE_P
      else if UPAGES \<le> a \<and> a < UPAGES + ROUNDUP (of_nat np * sizeof_Page) PGSIZE
      then (pg + (a - UPAGES)) OR PTE_U OR PTE_P
      else 0)"

lemma vaddr_le: "p < 2 ^ 20 \<Longrightarrow> q < 2 ^ 20 \<Longrightarrow> vaddr p \<le> vaddr q \<longleftrightarrow> p \<le> q"
  by (simp add: word_le_nat_alt unat_vaddr)

lemma vaddr_lt: "p < 2 ^ 20 \<Longrightarrow> q < 2 ^ 20 \<Longrightarrow> vaddr p < vaddr q \<longleftrightarrow> p < q"
  by (simp add: word_less_nat_alt unat_vaddr)

lemma vaddr_diff: "q \<le> p \<Longrightarrow> vaddr p - vaddr q = vaddr (p - q)"
  by (simp add: vaddr_def of_nat_diff left_diff_distrib)

lemma vaddr_eqI: "unat a = p * 4096 \<Longrightarrow> a = vaddr p"
  unfolding vaddr_def by (metis of_nat_unat ucast_id)

lemma page_of_va: "ROUNDDOWN va PGSIZE = vaddr (unat (VPN va))"
  by (rule vaddr_eqI) (simp add: unat_ROUNDDOWN unat_VPN PGSIZE_val minus_mod_eq_div_mult)

lemma VPN_lt20: "unat (VPN va) < 2 ^ 20"
  using PPN_lt [of va] by (simp add: VPN_def)

lemma boot_pte_vpn:
  assumes "np \<le> 65536"
  shows "boot_pte np pg en st va = vpn_pte np pg en st (unat (VPN va))"
proof -
  let ?u = "unat (VPN va)"
  have u: "?u < 2 ^ 20" by (rule VPN_lt20)
  have pl: "pages_len np \<le> 192" using assms by (simp add: pages_len_def)
  have k: "KSTACKTOP = vaddr 0xEFC00" by (simp add: vaddr_def layout)
  have e: "UENVS + ROUNDUP (of_nat NENV * sizeof_Env) PGSIZE = vaddr (0xEEC00 + 36)"
    unfolding vaddr_consts vaddr_eqI [OF envs_size] vaddr_add ..
  have p: "UPAGES + ROUNDUP (of_nat np * sizeof_Page) PGSIZE = vaddr (0xEF000 + pages_len np)"
    unfolding vaddr_consts vaddr_eqI [OF pages_size [OF assms]] vaddr_add ..
  have le: "vaddr q \<le> vaddr ?u \<longleftrightarrow> q \<le> ?u" "vaddr ?u < vaddr q \<longleftrightarrow> ?u < q" if "q < 2 ^ 20" for q
    using vaddr_le [OF that u] vaddr_lt [OF u that] by simp_all
  have c: "KERNBASE \<le> vaddr ?u \<longleftrightarrow> 0xF0000 \<le> ?u" "KSTACKTOP - KSTKSIZE \<le> vaddr ?u \<longleftrightarrow> 0xEFBF8 \<le> ?u"
    "vaddr ?u < KSTACKTOP \<longleftrightarrow> ?u < 0xEFC00" "UENVS \<le> vaddr ?u \<longleftrightarrow> 0xEEC00 \<le> ?u"
    "vaddr ?u < UENVS + ROUNDUP (of_nat NENV * sizeof_Env) PGSIZE \<longleftrightarrow> ?u < 0xEEC00 + 36"
    "UPAGES \<le> vaddr ?u \<longleftrightarrow> 0xEF000 \<le> ?u"
    "vaddr ?u < UPAGES + ROUNDUP (of_nat np * sizeof_Page) PGSIZE \<longleftrightarrow> ?u < 0xEF000 + pages_len np"
    unfolding e p unfolding vaddr_consts unfolding k by (rule le; use pl in simp)+
  have d: "vaddr ?u - KERNBASE = vaddr (?u - 0xF0000)" if "0xF0000 \<le> ?u"
    unfolding vaddr_consts by (rule vaddr_diff [OF that])
  have d2: "vaddr ?u - (KSTACKTOP - KSTKSIZE) = vaddr (?u - 0xEFBF8)" if "0xEFBF8 \<le> ?u"
    unfolding vaddr_consts by (rule vaddr_diff [OF that])
  have d3: "vaddr ?u - UENVS = vaddr (?u - 0xEEC00)" if "0xEEC00 \<le> ?u"
    unfolding vaddr_consts by (rule vaddr_diff [OF that])
  have d4: "vaddr ?u - UPAGES = vaddr (?u - 0xEF000)" if "0xEF000 \<le> ?u"
    unfolding vaddr_consts by (rule vaddr_diff [OF that])
  show ?thesis
    unfolding boot_pte_def page_of_va Let_def c vpn_pte_def seg_pte_def
    using u d d2 d3 d4 by simp
qed

text \<open>Paging and write protection on, no coprocessor emulation, no task-switch trap.\<close>

lemma cr0_paging_bits:
  "cr0_paging c AND (CR0_PE OR CR0_PG OR CR0_WP OR CR0_EM OR CR0_TS) = (CR0_PE OR CR0_PG OR CR0_WP)"
proof -
  have absorb: "((c OR a) AND n) AND m = k" if "n AND m = k" "a AND k = k" for a n m k :: u32
  proof -
    have "((c OR a) AND n) AND m = (c OR a) AND k" unfolding and.assoc that(1) ..
    moreover have "(c OR a) AND k = k"
    proof (rule bit_word_eqI)
      fix i assume "i < LENGTH(32)"
      have "bit (a AND k) i = bit k i" by (simp only: that(2))
      then show "bit ((c OR a) AND k) i = bit k i" by (auto simp: bit_simps)
    qed
    ultimately show ?thesis by simp
  qed
  show ?thesis unfolding cr0_paging_def
    by (rule absorb) (simp_all add: CR0_PE_def CR0_PG_def CR0_WP_def CR0_EM_def CR0_TS_def
        CR0_AM_def CR0_NE_def CR0_MP_def)
qed

text \<open>The entry of an address outside the windows.\<close>

lemma boot_leaf:
  assumes B: "boot_map_ok d pg en st s fl"
    and va: "PDX va \<noteq> PDX VPT" "PDX va \<noteq> PDX UVPT"
  shows "leafpte s (slot d va) = vpn_pte (npage s) (vaddr pg) (vaddr en) (vaddr st) (unat (VPN va))"
proof -
  have k: "unat (PDX va) \<in> kdirs"
    using va PDX_lt [of va] by (auto simp: kdirs_def word_unat_eq_iff)
  have dm: "unat (VPN va) div 1024 = unat (PDX va)" "unat (VPN va) mod 1024 = unat (PTX va)"
    by (simp_all add: unat_VPN unat_PDX unat_PTX div_mult2_eq [symmetric])
  from boot_map_entry [OF B, of "unat (VPN va)"] k show ?thesis unfolding dm slot_def .
qed

text \<open>With no environment the references of a page are those of the kernel.\<close>

lemma boot_mm_inv:
  assumes "pages_wf s fl" and "\<forall>p < npage s. pp_ref s p = of_nat (boot_refs e T p)"
  shows "mm_inv s {} (boot_refs e T) fl"
proof -
  have "unat (of_nat (boot_refs e T p) :: u16) = boot_refs e T p" for p by (simp add: boot_refs_def)
  with assms show ?thesis
    by (simp add: mm_inv_def total_refs_def ptslots_def leafslots_def nrefs_def)
qed

section \<open>The demonstration machine: 4 megabytes\<close>

definition boot_demo :: kstate where
  "boot_demo = kstate_zero\<lparr>npage := 1024\<rparr>"

definition boot_demo_vars :: bootvars where
  "boot_demo_vars = \<lparr>boot_freemem = 0, pages_ptr = 0, envs_ptr = 0, cr0 = 0x11\<rparr>"

lemma boot_demo_env: "boot_env 0xF0110000 0xF0108000 boot_demo_vars boot_demo"
  by (simp add: boot_env_def boot_demo_def boot_demo_vars_def kstate_zero_def boot_end_def
      kend_page_def pages_len_def layout)

section \<open>Properties\<close>

text \<open>
  C8: the boot address space. For any kernel that with its boot-time structures fits below the
  end of a physical memory of at most 256MB, i386_vm_init does not panic (so check_page_alloc,
  page_check and check_boot_pgdir all pass), loads CR3 with the new directory, flushes the TLB,
  and turns paging on. Outside the two windows where the directory maps itself, the
  entry of every address is exactly the one the memory layout documents.
\<close>

theorem i386_vm_init_maps:
  assumes "boot_env kend bootstack b s"
  shows "\<exists>b' s' pg en st. i386_vm_init kend bootstack b s = Some (b', s')
    \<and> PADDR (pages_ptr b') = Some pg \<and> PADDR (envs_ptr b') = Some en \<and> PADDR bootstack = Some st
    \<and> (\<forall>va. PDX va \<noteq> PDX VPT \<and> PDX va \<noteq> PDX UVPT \<longrightarrow>
         leafpte s' (slot (boot_pgdir s') va) = boot_pte (npage s) pg en st va)
    \<and> rd s' (boot_pgdir s', unat (PDX VPT)) = page2pa (boot_pgdir s') OR PTE_W OR PTE_P
    \<and> rd s' (boot_pgdir s', unat (PDX UVPT)) = page2pa (boot_pgdir s') OR PTE_U OR PTE_P
    \<and> cr3 s' = page2pa (boot_pgdir s') \<and> tlb s' = Map.empty
    \<and> cr0 b' AND (CR0_PE OR CR0_PG OR CR0_WP OR CR0_EM OR CR0_TS) = (CR0_PE OR CR0_PG OR CR0_WP)"
proof -
  let ?d = "kend_page kend" and ?pg = "kend_page kend + 1"
    and ?en = "kend_page kend + 1 + pages_len (npage s)"
  have np: "npage s \<le> 65536" "boot_end kend (npage s) < npage s" using assms by (simp_all add: boot_env_def)
  obtain b' s' st fl where run: "i386_vm_init kend bootstack b s = Some (b', s')"
    and b': "pages_ptr b' = kaddr ?pg" "envs_ptr b' = kaddr ?en" "bootstack = kaddr st" "st < 65536"
      "cr0 b' = cr0_paging (cr0 b)"
    and B: "boot_map_ok ?d ?pg ?en st s' fl" and s': "boot_pgdir s' = ?d" "cr3 s' = vaddr ?d"
      "tlb s' = Map.empty" "npage s' = npage s"
    using vm_init_ok [OF assms] by blast
  have small: "?pg < 65536" "?en < 65536" using np by (simp_all add: boot_end_def)
  have w: "mem s' ?d (unat (PDX VPT)) = mkpte ?d PTE_W" "mem s' ?d (unat (PDX UVPT)) = mkpte ?d PTE_U"
    using B by (simp_all add: boot_map_ok_def)
  note cr = cr0_paging_bits [of "cr0 b"]
  have "leafpte s' (slot ?d va) = boot_pte (npage s) (vaddr ?pg) (vaddr ?en) (vaddr st) va"
    if "PDX va \<noteq> PDX VPT" "PDX va \<noteq> PDX UVPT" for va
    using boot_leaf [OF B that] boot_pte_vpn [OF np(1)] s'(4) by simp
  then show ?thesis
    using run PADDR_kaddr [OF small(1)] PADDR_kaddr [OF small(2)] PADDR_kaddr [OF b'(4)] b' s' w cr
    by (auto simp: rd_def page2pa_vaddr mkpte_def or.assoc intro!: exI)
qed

theorem i386_vm_init_maps_witness:
  "\<exists>b' s' pg en st. i386_vm_init 0xF0110000 0xF0108000 boot_demo_vars boot_demo = Some (b', s')
    \<and> PADDR (pages_ptr b') = Some pg \<and> PADDR (envs_ptr b') = Some en \<and> PADDR 0xF0108000 = Some st
    \<and> leafpte s' (slot (boot_pgdir s') 0xF0105678) = boot_pte 1024 pg en st 0xF0105678"
proof -
  have v: "PDX 0xF0105678 \<noteq> PDX VPT" "PDX 0xF0105678 \<noteq> PDX UVPT"
    by (simp_all add: word_unat_eq_iff unat_PDX layout)
  have "npage boot_demo = 1024" by (simp add: boot_demo_def)
  with i386_vm_init_maps [OF boot_demo_env] v show ?thesis by metis
qed

text \<open>
  protection of the boot address space. After i386_vm_init nothing is mapped below UTOP;
  from UTOP to ULIM a user may read but not write, above ULIM a user can do neither; the window
  VPT is for the kernel and the window UVPT is read-only.
\<close>

theorem i386_vm_init_protects:
  assumes "boot_env kend bootstack b s" and "i386_vm_init kend bootstack b s = Some (b', s')"
    and "PDX va \<noteq> PDX VPT" and "PDX va \<noteq> PDX UVPT"
  defines "e \<equiv> leafpte s' (slot (boot_pgdir s') va)"
  shows "(va < UTOP \<longrightarrow> e = 0) \<and> (UTOP \<le> va \<and> va < ULIM \<longrightarrow> e AND PTE_W = 0)
    \<and> (ULIM \<le> va \<longrightarrow> e AND PTE_U = 0)
    \<and> rd s' (boot_pgdir s', unat (PDX VPT)) AND PTE_U = 0
    \<and> rd s' (boot_pgdir s', unat (PDX UVPT)) AND PTE_W = 0"
proof -
  let ?d = "kend_page kend" and ?pg = "kend_page kend + 1"
    and ?en = "kend_page kend + 1 + pages_len (npage s)" and ?u = "unat (VPN va)"
  obtain st fl where B: "boot_map_ok ?d ?pg ?en st s' fl" and s': "boot_pgdir s' = ?d" "npage s' = npage s"
    using vm_init_ok [OF assms(1)] assms(2) by auto
  have np: "npage s \<le> 65536" using assms(1) by (simp add: boot_env_def)
  then have pl: "pages_len (npage s) \<le> 192" by (simp add: pages_len_def)
  have e: "e = vpn_pte (npage s) (vaddr ?pg) (vaddr ?en) (vaddr st) ?u"
    unfolding e_def s' using boot_leaf [OF B assms(3,4)] s' by simp
  have low: "unat PTE_W < 4096" "unat PTE_U < 4096" by (simp_all add: pte_flags)
  have perm: "mkpte p PTE_U AND PTE_W = 0" "mkpte p PTE_W AND PTE_U = 0" for p
    using mkpte_AND_low [OF low(1), of p PTE_U] mkpte_AND_low [OF low(2), of p PTE_W]
    by (simp_all add: pte_flags)
  have "seg_pte 0xF0000 65536 0 PTE_W ?u = mkpte (?u - 0xF0000) PTE_W"
    using seg_pte_mkpte [of "0xF0000" 65536 0 PTE_W ?u] by (simp add: vaddr_def)
  note cases = e [unfolded vpn_pte_def seg_pte_mkpte this]
  have lt: "va < UTOP \<Longrightarrow> ?u < 0xEEC00" "va < ULIM \<Longrightarrow> ?u < 0xEF800"
    "ULIM \<le> va \<Longrightarrow> 0xEF800 \<le> ?u"
    by (simp_all add: unat_VPN word_less_nat_alt word_le_nat_alt layout)
  have w: "rd s' (?d, unat (PDX VPT)) = mkpte ?d PTE_W" "rd s' (?d, unat (PDX UVPT)) = mkpte ?d PTE_U"
    using B by (simp_all add: boot_map_ok_def rd_def)
  have "e = 0" if "va < UTOP" using lt(1) [OF that] unfolding cases by simp
  moreover have "e AND PTE_W = 0" if "va < ULIM" using lt(2) [OF that] perm unfolding cases by simp
  moreover have "e AND PTE_U = 0" if "ULIM \<le> va" using lt(3) [OF that] perm pl unfolding cases by simp
  ultimately show ?thesis unfolding s' w using perm by blast
qed

theorem i386_vm_init_protects_witness:
  "\<exists>b' s'. i386_vm_init 0xF0110000 0xF0108000 boot_demo_vars boot_demo = Some (b', s')
    \<and> leafpte s' (slot (boot_pgdir s') 0xEEC00000) AND PTE_W = 0"
proof -
  obtain b' s' where run: "i386_vm_init 0xF0110000 0xF0108000 boot_demo_vars boot_demo = Some (b', s')"
    using vm_init_ok [OF boot_demo_env] by blast
  have v: "PDX 0xEEC00000 \<noteq> PDX VPT" "PDX 0xEEC00000 \<noteq> PDX UVPT" "UTOP \<le> 0xEEC00000" "0xEEC00000 < ULIM"
    by (simp_all add: word_unat_eq_iff unat_PDX layout)
  from i386_vm_init_protects [OF boot_demo_env run v(1,2)] v(3,4) run show ?thesis by blast
qed

text \<open>
  C23: the page structures after boot. i386_vm_init establishes the invariant of the page
  allocator and of the reference counts, with no environment yet, and every count is known: a page has
  one reference if it is page 0, belongs to the I/O hole, the kernel image or the boot-time structures (page 160 up to
  boot_end), or is one of the 67 page tables of the boot directory, which come from the free list; every other
  page has none. The free list, without repetitions, holds exactly the pages without references,
  at least as many as there are above the boot-time structures and 92.
\<close>

theorem i386_vm_init_invariant:
  assumes "boot_env kend bootstack b s"
  shows "\<exists>b' s' fl. i386_vm_init kend bootstack b s = Some (b', s')
    \<and> mm_inv s' {} (boot_refs (boot_end kend (npage s)) (kernel_tables s')) fl
    \<and> card (kernel_tables s') = 67
    \<and> (\<forall>p < npage s. pp_ref s' p = (if p = 0 \<or> (160 \<le> p \<and> p < boot_end kend (npage s)) \<or> p \<in> kernel_tables s' then 1 else 0))
    \<and> is_list (page_free_list s') fl \<and> distinct fl \<and> set fl = {p. p < npage s \<and> pp_ref s' p = 0}
    \<and> 92 + (npage s - boot_end kend (npage s)) \<le> length fl"
proof -
  let ?d = "kend_page kend" and ?e = "boot_end kend (npage s)"
  obtain b' s' st fl where run: "i386_vm_init kend bootstack b s = Some (b', s')"
    and B: "boot_map_ok ?d (kend_page kend + 1) (kend_page kend + 1 + pages_len (npage s)) st s' fl"
    and s': "npage s' = npage s" "92 + (npage s - ?e) \<le> length fl" "card (kernel_tables s') = 67"
      "set fl = {p. p < npage s \<and> pp_ref s' p = 0}"
    and ref: "\<forall>p < npage s. pp_ref s' p = of_nat (boot_refs ?e (kernel_tables s') p)"
    using vm_init_ok [OF assms] by blast
  have inv: "dir_inv ?d s' fl" using B by (simp add: boot_map_ok_def)
  note wf = dir_invD(1) [OF inv]
  then have l: "is_list (page_free_list s') fl" "distinct fl"
    using tailq.repr_distinct unfolding pages_wf_def by blast+
  have "mm_inv s' {} (boot_refs ?e (kernel_tables s')) fl" by (rule boot_mm_inv [OF wf]) (use ref s'(1) in simp)
  with run s' ref l show ?thesis by (auto simp: boot_refs_def)
qed

theorem i386_vm_init_invariant_witness:
  "\<exists>b' s' fl. i386_vm_init 0xF0110000 0xF0108000 boot_demo_vars boot_demo = Some (b', s')
    \<and> mm_inv s' {} (boot_refs 312 (kernel_tables s')) fl \<and> card (kernel_tables s') = 67 \<and> 804 \<le> length fl
    \<and> pp_ref s' 300 = 1 \<and> 300 \<notin> set fl"
proof -
  have n: "npage boot_demo = 1024" "boot_end 0xF0110000 1024 = 312"
    by (simp_all add: boot_demo_def boot_end_def kend_page_def pages_len_def)
  obtain b' s' fl where w: "i386_vm_init 0xF0110000 0xF0108000 boot_demo_vars boot_demo = Some (b', s')"
      "mm_inv s' {} (boot_refs 312 (kernel_tables s')) fl" "card (kernel_tables s') = 67" "92 + (1024 - 312) \<le> length fl"
    and k: "\<forall>p < 1024. pp_ref s' p = (if p = 0 \<or> (160 \<le> p \<and> p < 312) \<or> p \<in> kernel_tables s' then 1 else 0)"
      "set fl = {p. p < 1024 \<and> pp_ref s' p = 0}"
    using i386_vm_init_invariant [OF boot_demo_env, unfolded n] by blast
  have "pp_ref s' 300 = 1" using k(1) [rule_format, of 300] by simp
  moreover from this have "300 \<notin> set fl" unfolding k(2) by simp
  ultimately show ?thesis using w by auto
qed

text \<open>
  page_check. On a free list of at least three pages, with the first two entries of the
  directory empty, the self test passes: the free list holds the same pages afterwards, and the
  reference counts, the directory and all pages but the first free one are as they were.
\<close>

theorem page_check_passes:
  assumes "is_list (page_free_list s) (p0 # p1 # p2 # fl)"
    and "\<And>x. x \<in> set (p0 # p1 # p2 # fl) \<Longrightarrow> x < npage s \<and> pp_ref s x = 0"
    and "boot_pgdir s < npage s" and "boot_pgdir s \<notin> set (p0 # p1 # p2 # fl)"
    and "mem s (boot_pgdir s) 0 = 0" and "mem s (boot_pgdir s) 1 = 0"
    and "npage s \<le> 2 ^ 20" and "curenv s = None"
  shows "\<exists>s'. page_check s = Some s' \<and> pp_ref s' = pp_ref s \<and> boot_pgdir s' = boot_pgdir s
    \<and> (\<forall>f. f \<noteq> p0 \<longrightarrow> mem s' f = mem s f) \<and> is_list (page_free_list s') (p2 # p1 # p0 # fl)"
  using page_check_ok [OF assms(1,2) refl assms(3-8)] by (auto simp: same_rest_def)

definition check_demo :: kstate where
  "check_demo = kstate_zero\<lparr>npage := 8, boot_pgdir := 4,
     page_free_list := fold LIST_INSERT_HEAD [1, 2, 3] (LIST_INIT llist_zero)\<rparr>"

theorem page_check_passes_witness:
  "\<exists>s'. page_check check_demo = Some s' \<and> pp_ref s' = pp_ref check_demo
    \<and> is_list (page_free_list s') [1, 2, 3]"
proof -
  have "is_list (page_free_list check_demo) (3 # 2 # 1 # [])"
    using tailq.insert_all [OF tailq.repr_init [of llist_zero], of "[1, 2, 3 :: nat]"] by (simp add: check_demo_def)
  moreover have "x < npage check_demo \<and> pp_ref check_demo x = 0" if "x \<in> set [3, 2, 1]" for x
    using that by (auto simp: check_demo_def kstate_zero_def)
  ultimately obtain s' where "page_check check_demo = Some s'" "pp_ref s' = pp_ref check_demo"
      "is_list (page_free_list s') (1 # 2 # 3 # [])"
    using page_check_passes [of check_demo 3 2 1 "[]"] by (auto simp: check_demo_def kstate_zero_def)
  then show ?thesis by blast
qed

end
