(* ===== verification/Boot_Env.thy ===== *)
theory Boot_Env
  imports Boot_Spec Env_Spec
begin

text \<open>
  From i386_vm_init of kern/pmap.c to the first environment of kern/env.c: env_init and env_alloc
  on the state that the boot of virtual memory leaves.
\<close>

unbundle bit_operations_syntax

lemma env_init_rest:
  "mem (env_init s) = mem s" "pp_ref (env_init s) = pp_ref s" "npage (env_init s) = npage s"
  "page_free_list (env_init s) = page_free_list s" "boot_pgdir (env_init s) = boot_pgdir s"
  "curenv (env_init s) = curenv s"
proof -
  have "mem (fold env_init_step xs s) = mem s \<and> pp_ref (fold env_init_step xs s) = pp_ref s
    \<and> npage (fold env_init_step xs s) = npage s
    \<and> page_free_list (fold env_init_step xs s) = page_free_list s
    \<and> boot_pgdir (fold env_init_step xs s) = boot_pgdir s
    \<and> curenv (fold env_init_step xs s) = curenv s" for xs s
    by (induction xs arbitrary: s) (simp_all add: env_init_step_def mod_env_def set_env_def Let_def)
  then show "mem (env_init s) = mem s" "pp_ref (env_init s) = pp_ref s" "npage (env_init s) = npage s"
    "page_free_list (env_init s) = page_free_list s" "boot_pgdir (env_init s) = boot_pgdir s"
    "curenv (env_init s) = curenv s"
    by (simp_all add: env_init_def)
qed

lemma env_init_list: "is_list (env_free_list (env_init s)) (0 # [1..<NENV])"
proof -
  let ?s = "s\<lparr>env_free_list := LIST_INIT (env_free_list s)\<rparr>"
  have "is_list (env_free_list ?s) []" by (simp add: tailq.repr_init)
  from env_init_fold [OF this, of NENV] have "is_list (env_free_list (env_init s)) [0..<NENV]"
    by (simp add: env_init_def)
  moreover have "0 < NENV" by (simp add: NENV_val)
  from upt_conv_Cons [OF this] have "[0..<NENV] = 0 # [1..<NENV]" by (simp only: One_nat_def)
  ultimately show ?thesis by (simp only:)
qed

lemma env_init_free:
  assumes "e < NENV"
  shows "env_status (envs (env_init s) e) = ENV_FREE \<and> env_id (envs (env_init s) e) = 0"
proof -
  let ?s = "s\<lparr>env_free_list := LIST_INIT (env_free_list s)\<rparr>"
  have "is_list (env_free_list ?s) []" by (simp add: tailq.repr_init)
  from env_init_fold [OF this, of NENV] assms show ?thesis by (simp add: env_init_def)
qed

lemma env_init_zero: "env_id (envs (env_init s) 0) = 0"
proof -
  let ?s = "s\<lparr>env_free_list := LIST_INIT (env_free_list s)\<rparr>"
  have "is_list (env_free_list ?s) []" by (simp add: tailq.repr_init)
  from env_init_fold [OF this, of NENV] show ?thesis by (simp add: env_init_def NENV_val)
qed

text \<open>What env_create needs of the booted state.\<close>

lemma boot_ready:
  assumes "boot_env kend bootstack b s"
  shows "\<exists>b' s1 fl. i386_vm_init kend bootstack b s = Some (b', s1)
    \<and> mm_inv (env_init s1) {} (boot_refs (boot_end kend (npage s)) (kernel_tables s1)) fl
    \<and> card (kernel_tables s1) = 67 \<and> 92 + (npage s - boot_end kend (npage s)) \<le> length fl
    \<and> is_list (env_free_list (env_init s1)) (0 # [1..<NENV])
    \<and> curenv (env_init s1) = None \<and> (\<forall>e < NENV. env_status (envs (env_init s1) e) = ENV_FREE \<and> env_id (envs (env_init s1) e) = 0)"
proof -
  obtain b' s1 st fl where run: "i386_vm_init kend bootstack b s = Some (b', s1)"
    and B: "boot_map_ok (kend_page kend) (kend_page kend + 1) (kend_page kend + 1 + pages_len (npage s)) st s1 fl"
    and len: "92 + (npage s - boot_end kend (npage s)) \<le> length fl" and c: "curenv s1 = None" and n: "npage s1 = npage s"
    and T: "card (kernel_tables s1) = 67"
    and ref: "\<forall>p < npage s. pp_ref s1 p = of_nat (boot_refs (boot_end kend (npage s)) (kernel_tables s1) p)"
    using vm_init_ok [OF assms] by blast
  have inv: "dir_inv (kend_page kend) s1 fl" using B by (simp add: boot_map_ok_def)
  have "mm_inv s1 {} (boot_refs (boot_end kend (npage s)) (kernel_tables s1)) fl"
    by (rule boot_mm_inv [OF dir_invD(1) [OF inv]]) (use ref n in simp)
  then have "mm_inv (env_init s1) {} (boot_refs (boot_end kend (npage s)) (kernel_tables s1)) fl"
    using mm_inv_cong [of "env_init s1" s1] by (simp add: env_init_rest)
  with run len c T env_init_list [of s1] env_init_free [of _ s1] show ?thesis by (auto simp: env_init_rest)
qed

lemma demo_ready:
  "\<exists>b' s1 fl. i386_vm_init 0xF0110000 0xF0108000 boot_demo_vars boot_demo = Some (b', s1)
    \<and> mm_inv (env_init s1) {} (boot_refs 312 (kernel_tables s1)) fl \<and> 804 \<le> length fl
    \<and> is_list (env_free_list (env_init s1)) (0 # [1..<NENV])"
proof -
  have "npage boot_demo = 1024" "boot_end 0xF0110000 1024 = 312"
    by (simp_all add: boot_demo_def boot_end_def kend_page_def pages_len_def)
  with boot_ready [OF boot_demo_env] show ?thesis by auto
qed

text \<open>
  the first environment. After i386_vm_init and env_init, env_alloc succeeds with envs[0],
  id 0x1000, runnable. Its own part of the address space is empty, and above UTOP it has exactly
  the documented entries of the kernel, outside the two windows; the invariant of the reference
  counts holds with its directory.
\<close>

theorem boot_first_env:
  assumes "boot_env kend bootstack b s"
  shows "\<exists>b' s1 s2 p pg en st fl. i386_vm_init kend bootstack b s = Some (b', s1)
    \<and> env_alloc 0 (env_init s1) = Some (Inr 0, s2)
    \<and> PADDR (pages_ptr b') = Some pg \<and> PADDR (envs_ptr b') = Some en \<and> PADDR bootstack = Some st
    \<and> env_pgdir (envs s2 0) = Some p \<and> env_id (envs s2 0) = 0x1000
    \<and> env_status (envs s2 0) = ENV_RUNNABLE
    \<and> (\<forall>va < UTOP. leafpte s2 (slot p va) = 0)
    \<and> (\<forall>va. UTOP \<le> va \<and> PDX va \<noteq> PDX VPT \<and> PDX va \<noteq> PDX UVPT \<longrightarrow>
         leafpte s2 (slot p va) = boot_pte (npage s) pg en st va)
    \<and> mm_inv s2 {p} (boot_refs (boot_end kend (npage s)) (kernel_tables s1)) fl"
proof -
  let ?d = "kend_page kend" and ?pg = "kend_page kend + 1"
    and ?en = "kend_page kend + 1 + pages_len (npage s)"
  have np: "npage s \<le> 65536" "boot_end kend (npage s) < npage s" using assms by (simp_all add: boot_env_def)
  obtain b' s1 st fl where run: "i386_vm_init kend bootstack b s = Some (b', s1)"
    and b': "pages_ptr b' = kaddr ?pg" "envs_ptr b' = kaddr ?en" "bootstack = kaddr st" "st < 65536"
    and B: "boot_map_ok ?d ?pg ?en st s1 fl" and d: "boot_pgdir s1 = ?d" and n1: "npage s1 = npage s"
    and len: "92 + (npage s - boot_end kend (npage s)) \<le> length fl"
    and ref: "\<forall>p < npage s. pp_ref s1 p = of_nat (boot_refs (boot_end kend (npage s)) (kernel_tables s1) p)"
    using vm_init_ok [OF assms] by blast
  have small: "?pg < 65536" "?en < 65536" using np by (simp_all add: boot_end_def)
  have inv: "dir_inv ?d s1 fl" using B by (simp add: boot_map_ok_def)
  let ?K = "boot_refs (boot_end kend (npage s)) (kernel_tables s1)"
  have mm: "mm_inv s1 {} ?K fl"
    by (rule boot_mm_inv [OF dir_invD(1) [OF inv]]) (use ref n1 in simp)
  have mm': "mm_inv (env_init s1) {} ?K fl"
    using mm mm_inv_cong [of "env_init s1" s1] by (simp add: env_init_rest)
  obtain p fl' where fl: "fl = p # fl'" using len by (cases fl) auto
  obtain s2 where s2: "env_alloc 0 (env_init s1) = Some (Inr 0, s2)" "mm_inv s2 {p} ?K fl'"
      "envs s2 = (envs (env_init s1))(0 := new_env 0 p 0 (envs (env_init s1) 0))"
      "\<forall>i < UPDX. ptmap s2 (p, i) = None"
      "\<forall>i. UPDX \<le> i \<longrightarrow> i \<noteq> unat (PDX VPT) \<longrightarrow> i \<noteq> unat (PDX UVPT) \<longrightarrow> mem s2 p i = mem s1 ?d i"
      "\<forall>f. f \<noteq> p \<longrightarrow> mem s2 f = mem s1 f"
    using alloc_ok [OF mm' [unfolded fl] env_init_list, of 0] by (auto simp: env_init_rest d)
  have low: "leafpte s2 (slot p va) = 0" if "va < UTOP" for va
    using s2(4) PDX_user [OF that] by (simp add: leafpte_def slot_def)
  have high: "leafpte s2 (slot p va) = boot_pte (npage s) (vaddr ?pg) (vaddr ?en) (vaddr st) va"
    if va: "UTOP \<le> va" "PDX va \<noteq> PDX VPT" "PDX va \<noteq> PDX UVPT" for va
  proof -
    let ?i = "unat (PDX va)"
    have ge: "UPDX \<le> ?i" using va(1) by (simp add: UPDX_val unat_PDX word_le_nat_alt layout)
    have ne: "?i \<noteq> unat (PDX VPT)" "?i \<noteq> unat (PDX UVPT)" using va by (simp_all add: word_unat_eq_iff)
    have k: "?i \<in> kdirs" using ne PDX_lt [of va] by (simp add: kdirs_def)
    have dir: "ptmap s2 (p, ?i) = ptmap s1 (?d, ?i)" using s2(5) ge ne by (simp add: ptmap_def)
    have "leafpte s2 (slot p va) = leafpte s1 (slot ?d va)"
    proof (cases "ptmap s1 (?d, ?i)")
      case None
      with dir show ?thesis by (simp add: slot_def leafpte_mem)
    next
      case (Some t)
      then have "t \<noteq> p" using dir_invD(8) [OF inv k Some] fl by auto
      with Some dir s2(6) show ?thesis by (simp add: slot_def leafpte_mem)
    qed
    then show ?thesis using boot_leaf [OF B va(2,3)] boot_pte_vpn [OF np(1)] n1 by simp
  qed
  have "next_env_id 0 0 = 0x1000" by (simp add: next_env_id_def ENVGENSHIFT_def layout)
  then have e0: "env_pgdir (envs s2 0) = Some p" "env_id (envs s2 0) = 0x1000"
      "env_status (envs s2 0) = ENV_RUNNABLE"
    using s2(3) env_init_zero [of s1] by (simp_all add: new_env_def)
  show ?thesis
    by (rule exI [of _ b'], rule exI [of _ s1], rule exI [of _ s2], rule exI [of _ p],
        rule exI [of _ "vaddr ?pg"], rule exI [of _ "vaddr ?en"], rule exI [of _ "vaddr st"],
        rule exI [of _ fl'])
      (use run s2(1,2) PADDR_kaddr [OF small(1)] PADDR_kaddr [OF small(2)] PADDR_kaddr [OF b'(4)]
        b' e0 low high in simp)
qed

theorem boot_first_env_witness:
  "\<exists>b' s1 s2 p. i386_vm_init 0xF0110000 0xF0108000 boot_demo_vars boot_demo = Some (b', s1)
    \<and> env_alloc 0 (env_init s1) = Some (Inr 0, s2) \<and> env_pgdir (envs s2 0) = Some p
    \<and> leafpte s2 (slot p 0x800000) = 0"
proof -
  have "(0x800000 :: u32) < UTOP" by (simp add: layout)
  with boot_first_env [OF boot_demo_env] show ?thesis by blast
qed

end
