(* ===== verification/Icode_Spec.thy ===== *)
theory Icode_Spec
  imports Icode_Inv Boot_Env
begin

text \<open>
  env_create of kern/env.c: the program that load_icode puts into a new address space is the one
  of the ELF image, byte by byte, with the rest of each segment cleared and a page for the stack,
  and no other address space changes.
\<close>

unbundle bit_operations_syntax

section \<open>The pages of a segment\<close>

definition seg_npages :: "u32 \<Rightarrow> nat" where
  "seg_npages len = (unat len + 4095) div 4096"

definition page_range :: "u32 \<Rightarrow> u32 \<Rightarrow> nat set" where
  "page_range va len = {unat va div 4096 ..< unat va div 4096 + seg_npages len}"

text \<open>
  A segment that segment_alloc covers: it rounds the start down and the length up, so the
  start's offset in its page must leave room; and it ends below the page of the stack.
\<close>

definition loadable :: "Proghdr \<Rightarrow> bool" where
  "loadable h \<longleftrightarrow> unat (p_filesz h) \<le> unat (p_memsz h)
     \<and> unat (p_va h) mod 4096 + unat (p_memsz h) \<le> 4096 * seg_npages (p_memsz h)
     \<and> 4096 * (unat (p_va h) div 4096 + seg_npages (p_memsz h)) \<le> unat (USTACKTOP - PGSIZE)"

definition seg_byte :: "(u32 \<Rightarrow> u8) \<Rightarrow> Proghdr \<Rightarrow> nat \<Rightarrow> u8" where
  "seg_byte binary h i = (if i < unat (p_filesz h) then binary (p_offset h + of_nat i) else 0)"

lemma ROUNDUP_PGSIZE:
  assumes "unat len + 4095 < 2 ^ 32"
  shows "ROUNDUP len PGSIZE = of_nat (4096 * seg_npages len)"
proof -
  have e: "len + PGSIZE - 1 = len + 4095" by (simp add: PGSIZE_val)
  have "unat (ROUNDUP len PGSIZE) = (unat len + 4095) - (unat len + 4095) mod 4096"
    unfolding ROUNDUP_def e unat_ROUNDDOWN using unat_add_small [of len 4095] assms by (simp add: PGSIZE_val)
  also have "\<dots> = 4096 * seg_npages len"
    unfolding seg_npages_def by (metis minus_mod_eq_mult_div)
  finally have u: "unat (ROUNDUP len PGSIZE) = 4096 * seg_npages len" .
  have "of_nat (unat (ROUNDUP len PGSIZE)) = (of_nat (4096 * seg_npages len) :: u32)" unfolding u ..
  then show ?thesis by simp
qed

text \<open>segment_alloc from any address, on pages that are not mapped.\<close>

lemma segment_alloc_ok:
  assumes L: "loading s D K fl d" and e: "env_pgdir (envs s e) = Some d"
    and top: "4096 * (unat va div 4096 + seg_npages len) \<le> unat UTOP"
    and len: "unat len + 4095 < 2 ^ 32" and room: "2 * seg_npages len \<le> length fl"
    and none: "\<And>x. x < UTOP \<Longrightarrow> unat x div 4096 \<in> page_range va len \<Longrightarrow> leafmap s (slot d x) = None"
  shows "\<exists>s' fl'. segment_alloc e va len s = Some s'
    \<and> loading s' D K fl' d \<and> length fl \<le> length fl' + 2 * seg_npages len \<and> same_rest s s' \<and> keeps D s s'
    \<and> (\<forall>x < UTOP. unat x div 4096 \<in> page_range va len \<longrightarrow> leafmap s' (slot d x) \<noteq> None)
    \<and> (\<forall>d' \<in> D. \<forall>x < UTOP. \<not> (d' = d \<and> unat x div 4096 \<in> page_range va len)
         \<longrightarrow> leafpte s' (slot d' x) = leafpte s (slot d' x))"
proof -
  let ?la = "ROUNDDOWN va PGSIZE" and ?n = "seg_npages len"
  have d: "d \<in> D" using L by (simp add: loading_def)
  have la: "unat ?la = 4096 * (unat va div 4096)"
    using minus_mod_eq_mult_div [of "unat va" 4096] by (simp add: unat_ROUNDDOWN PGSIZE_val)
  have utop: "unat UTOP < 2 ^ 32" by (simp add: layout)
  have pg: "unat (?la + of_nat (4096 * k)) = 4096 * (unat va div 4096 + k)" if "k < ?n" for k
  proof -
    have "unat ?la + 4096 * k < 2 ^ 32" using that top utop unfolding la distrib_left by linarith
    from unat_add_nat [OF this] show ?thesis unfolding la by simp
  qed
  have lt: "?la + of_nat (4096 * k) < UTOP" if "k < ?n" for k
  proof -
    have "4096 * (unat va div 4096 + k) < 4096 * (unat va div 4096 + ?n)" using that by simp
    then show ?thesis using top pg [OF that] by (simp add: word_less_nat_alt)
  qed
  have dv: "unat (?la + of_nat (4096 * k)) div 4096 = unat va div 4096 + k" if "k < ?n" for k
    unfolding pg [OF that] by simp
  have none': "leafmap s (slot d (?la + of_nat (4096 * k))) = None" if "k < ?n" for k
    by (rule none [OF lt [OF that]]) (use dv [OF that] that in \<open>simp add: page_range_def\<close>)
  have la4: "unat ?la mod 4096 = 0" unfolding la by simp
  have top': "unat ?la + 4096 * ?n \<le> unat UTOP" using top unfolding la by simp
  obtain s' fl' where s': "segment_alloc_loop e ?la (?la + of_nat (4096 * ?n)) s = Some s'"
      "loading s' D K fl' d" "length fl \<le> length fl' + 2 * ?n" "same_rest s s'" "keeps D s s'"
      "\<forall>k < ?n. leafmap s' (slot d (?la + of_nat (4096 * k))) \<noteq> None"
      "\<forall>z \<in> leafslots D. (\<forall>k < ?n. z \<noteq> slot d (?la + of_nat (4096 * k))) \<longrightarrow> leafpte s' z = leafpte s z"
    using segment_alloc_loop_ok [OF L e la4 top' room none'] by blast
  have in_range: "slot d x = slot d (?la + of_nat (4096 * (unat x div 4096 - unat va div 4096)))
      \<and> unat x div 4096 - unat va div 4096 < ?n" if "unat x div 4096 \<in> page_range va len" for x
  proof -
    have k: "unat x div 4096 - unat va div 4096 < ?n" "unat va div 4096 \<le> unat x div 4096"
      using that by (auto simp: page_range_def)
    then show ?thesis using dv [OF k(1)] by (simp add: slot_page)
  qed
  have m: "leafmap s' (slot d x) \<noteq> None" if "unat x div 4096 \<in> page_range va len" for x
    using in_range [OF that] s'(6) by metis
  have o: "leafpte s' (slot d' x) = leafpte s (slot d' x)"
    if "d' \<in> D" "x < UTOP" "\<not> (d' = d \<and> unat x div 4096 \<in> page_range va len)" for d' x
  proof -
    note out = that(3)
    have "slot d' x \<noteq> slot d (?la + of_nat (4096 * k))" if k: "k < ?n" for k
    proof
      assume q: "slot d' x = slot d (?la + of_nat (4096 * k))"
      then have "d' = d" by (simp add: slot_def)
      with q have "unat x div 4096 = unat va div 4096 + k" using dv [OF k] by (simp add: slot_page)
      with k \<open>d' = d\<close> out show False by (simp add: page_range_def)
    qed
    then show ?thesis using s'(7) slot_in(1) [OF that(1,2)] by blast
  qed
  have run: "segment_alloc e va len s = Some s'"
    using s'(1) by (simp add: segment_alloc_def Let_def ROUNDUP_PGSIZE [OF len])
  show ?thesis
    by (rule exI [of _ s'], rule exI [of _ fl']) (use run s'(2-5) m o in blast)
qed

section \<open>One segment\<close>

lemma map_upto_nth: "i < n \<Longrightarrow> map f [0..<n] ! i = f i"
  by simp

lemma load_segment_ok:
  assumes h_def: "h = read_Proghdr binary a"
    and L: "loading s D K fl d" and e: "env_pgdir (envs s e) = Some d" and c: "unat (PPN (cr3 s)) = d"
    and load: "p_type h = ELF_PROG_LOAD" and ok: "loadable h"
    and room: "2 * seg_npages (p_memsz h) \<le> length fl"
    and none: "\<And>x. x < UTOP \<Longrightarrow> unat x div 4096 \<in> page_range (p_va h) (p_memsz h) \<Longrightarrow> leafmap s (slot d x) = None"
  shows "\<exists>s' fl'. load_segment e binary a s = Some s'
    \<and> loading s' D K fl' d \<and> length fl \<le> length fl' + 2 * seg_npages (p_memsz h) \<and> same_rest s s'
    \<and> (\<forall>i < unat (p_memsz h). ubyte s' d (p_va h + of_nat i) = Some (seg_byte binary h i))
    \<and> (\<forall>d' \<in> D. \<forall>x < UTOP. \<not> (d' = d \<and> unat x div 4096 \<in> page_range (p_va h) (p_memsz h))
         \<longrightarrow> leafpte s' (slot d' x) = leafpte s (slot d' x) \<and> ubyte s' d' x = ubyte s d' x)"
proof -
  let ?va = "p_va h" and ?m = "unat (p_memsz h)" and ?f = "unat (p_filesz h)" and ?n = "seg_npages (p_memsz h)"
  let ?R = "page_range ?va (p_memsz h)"
  have d: "d \<in> D" using L by (simp add: loading_def)
  have stk: "unat (USTACKTOP - PGSIZE) = 0xEEBFD000" by (simp add: layout)
  have top: "4096 * (unat ?va div 4096 + ?n) \<le> unat (USTACKTOP - PGSIZE)" and fm: "?f \<le> ?m"
    and cover: "unat ?va mod 4096 + ?m \<le> 4096 * ?n"
    using ok by (simp_all add: loadable_def)
  have vdm: "unat ?va = 4096 * (unat ?va div 4096) + unat ?va mod 4096" by simp
  have vend: "unat ?va + ?m \<le> unat UTOP"
    using top cover vdm unfolding stk distrib_left by (simp add: UTOP_val)
  have utop: "unat UTOP < 2 ^ 32 - 4096" by (simp add: layout)
  have len: "?m + 4095 < 2 ^ 32" using vend utop by simp
  have topU: "4096 * (unat ?va div 4096 + ?n) \<le> unat UTOP" using top unfolding stk by (simp add: UTOP_val)
  obtain s1 fl1 where s1: "segment_alloc e ?va (p_memsz h) s = Some s1" "loading s1 D K fl1 d"
      "length fl \<le> length fl1 + 2 * ?n" "same_rest s s1" "keeps D s s1"
      "\<forall>x < UTOP. unat x div 4096 \<in> ?R \<longrightarrow> leafmap s1 (slot d x) \<noteq> None"
      "\<forall>d' \<in> D. \<forall>x < UTOP. \<not> (d' = d \<and> unat x div 4096 \<in> ?R) \<longrightarrow> leafpte s1 (slot d' x) = leafpte s (slot d' x)"
    using segment_alloc_ok [OF L e topU len room none] by blast
  have u: "unat (?va + of_nat i) = unat ?va + i" if "i < ?m" for i
    by (rule unat_add_nat) (use that vend utop in simp)
  have inR: "unat (?va + of_nat i) div 4096 \<in> ?R" "?va + of_nat i < UTOP" if i: "i < ?m" for i
  proof -
    have "unat ?va + i < 4096 * (unat ?va div 4096 + ?n)" using i cover vdm unfolding distrib_left by linarith
    then have "(unat ?va + i) div 4096 < unat ?va div 4096 + ?n" by (simp add: less_mult_imp_div_less mult.commute)
    moreover have "unat ?va div 4096 \<le> (unat ?va + i) div 4096" by (simp add: div_le_mono)
    ultimately show "unat (?va + of_nat i) div 4096 \<in> ?R" unfolding u [OF i] page_range_def by simp
    show "?va + of_nat i < UTOP" using vend i unfolding word_less_nat_alt u [OF i] by simp
  qed
  have mapped: "leafmap s1 (slot d (?va + of_nat i)) \<noteq> None" if "i < ?m" for i
    using s1(6) inR [OF that] by blast
  have c1: "unat (PPN (cr3 s1)) = d" using s1(4) c by (simp add: same_rest_def)
  let ?bs = "map (\<lambda>k. binary (p_offset h + of_nat k)) [0..<?f]"
  have l1: "unat ?va + length ?bs \<le> unat UTOP" using vend fm by simp
  have m1: "leafmap s1 (slot d (?va + of_nat k)) \<noteq> None" if "k < length ?bs" for k
    using mapped [of k] that fm by simp
  obtain s2 where s2: "vwrite_bytes ?va ?bs s1 = Some s2" "loading s2 D K fl1 d" "same_rest s1 s2"
      "\<forall>z \<in> leafslots D. leafpte s2 z = leafpte s1 z"
      "\<forall>d' \<in> D. \<forall>x < UTOP. ubyte s2 d' x =
         (if d' = d \<and> unat ?va \<le> unat x \<and> unat x < unat ?va + length ?bs then Some (?bs ! (unat x - unat ?va))
          else ubyte s1 d' x)"
    using vwrite_bytes_ok [OF s1(2) c1 l1 m1] by blast
  let ?zs = "replicate (unat (p_memsz h - p_filesz h)) 0 :: u8 list" and ?vf = "?va + p_filesz h"
  have sub: "unat (p_memsz h - p_filesz h) = ?m - ?f" by (rule unat_sub_ge [OF fm])
  have vf: "unat ?vf = unat ?va + ?f" using unat_add_small [of ?va "p_filesz h"] vend fm utop by simp
  have c2: "unat (PPN (cr3 s2)) = d" using s2(3) c1 by (simp add: same_rest_def)
  have l2: "unat ?vf + length ?zs \<le> unat UTOP" using vend fm by (simp add: vf sub)
  have m2: "leafmap s2 (slot d (?vf + of_nat k)) \<noteq> None" if "k < length ?zs" for k
  proof -
    have k: "?f + k < ?m" using that fm by (simp add: sub)
    have e: "?vf + of_nat k = ?va + of_nat (?f + k)" by (simp add: add.assoc)
    have "leafpte s2 (slot d (?va + of_nat (?f + k))) = leafpte s1 (slot d (?va + of_nat (?f + k)))"
      using s2(4) slot_in(1) [OF d inR(2) [OF k]] by blast
    with mapped [OF k] show ?thesis unfolding e leafmap_def by metis
  qed
  obtain s3 where s3: "vwrite_bytes ?vf ?zs s2 = Some s3" "loading s3 D K fl1 d" "same_rest s2 s3"
      "\<forall>z \<in> leafslots D. leafpte s3 z = leafpte s2 z"
      "\<forall>d' \<in> D. \<forall>x < UTOP. ubyte s3 d' x =
         (if d' = d \<and> unat ?vf \<le> unat x \<and> unat x < unat ?vf + length ?zs then Some (?zs ! (unat x - unat ?vf))
          else ubyte s2 d' x)"
    using vwrite_bytes_ok [OF s2(2) c2 l2 m2] by blast
  have run: "load_segment e binary a s = Some s3"
    using s1(1) s2(1) s3(1) load by (simp add: load_segment_def h_def Let_def)
  have bytes: "ubyte s3 d (?va + of_nat i) = Some (seg_byte binary h i)" if i: "i < ?m" for i
  proof (cases "i < ?f")
    case True
    then have "ubyte s3 d (?va + of_nat i) = ubyte s2 d (?va + of_nat i)"
      using s3(5) d inR(2) [OF i] by (simp add: u [OF i] vf)
    also have "\<dots> = Some (?bs ! i)" using s2(5) d inR(2) [OF i] True by (simp add: u [OF i])
    finally show ?thesis using True by (simp add: seg_byte_def)
  next
    case False
    then have "ubyte s3 d (?va + of_nat i) = Some (?zs ! (i - ?f))"
      using s3(5) d inR(2) [OF i] i fm by (simp add: u [OF i] vf sub)
    then show ?thesis using False i by (simp add: seg_byte_def sub)
  qed
  have rest: "leafpte s3 (slot d' x) = leafpte s (slot d' x) \<and> ubyte s3 d' x = ubyte s d' x"
    if x: "d' \<in> D" "x < UTOP" "\<not> (d' = d \<and> unat x div 4096 \<in> ?R)" for d' x
  proof
    note sl = slot_in(1) [OF x(1,2)]
    show lp: "leafpte s3 (slot d' x) = leafpte s (slot d' x)" using s3(4) s2(4) s1(7) sl x by simp
    have out: "\<not> (d' = d \<and> unat ?va \<le> unat x \<and> unat x < unat ?va + ?m)"
    proof
      assume r: "d' = d \<and> unat ?va \<le> unat x \<and> unat x < unat ?va + ?m"
      then have i: "unat x - unat ?va < ?m" by linarith
      have "unat (?va + of_nat (unat x - unat ?va)) = unat x" using r by (simp add: u [OF i])
      with inR(1) [OF i] x(3) r show False by simp
    qed
    have "ubyte s3 d' x = ubyte s1 d' x"
      using s3(5) s2(5) x(1,2) out fm by (auto simp: vf sub)
    also have "\<dots> = ubyte s d' x"
    proof (cases "leafmap s (slot d' x)")
      case None
      then have "leafmap s1 (slot d' x) = None" using s1(7) x by (simp add: leafmap_def)
      with None show ?thesis by (simp add: ubyte_def)
    next
      case (Some f)
      then have "leafmap s1 (slot d' x) = Some f" "mem s1 f = mem s f"
        using s1(5) sl by (auto simp: keeps_def leafmap_def)
      with Some show ?thesis by (simp add: ubyte_def)
    qed
    finally show "ubyte s3 d' x = ubyte s d' x" .
  qed
  show ?thesis
    by (rule exI [of _ s3], rule exI [of _ fl1])
      (use run s3(2) s1(3) same_rest_trans [OF s1(4) same_rest_trans [OF s2(3) s3(3)]] bytes rest in blast)
qed

section \<open>The whole image\<close>

definition image_headers :: "(u32 \<Rightarrow> u8) \<Rightarrow> Proghdr list" where
  "image_headers binary = map (\<lambda>k. read_Proghdr binary (e_phoff (read_Elf binary) + 32 * of_nat k))
     [0..<unat (e_phnum (read_Elf binary))]"

abbreviation is_load :: "Proghdr \<Rightarrow> bool" where
  "is_load h \<equiv> p_type h = ELF_PROG_LOAD"

definition loads :: "(u32 \<Rightarrow> u8) \<Rightarrow> Proghdr list" where
  "loads binary = filter is_load (image_headers binary)"

abbreviation hdr_pages :: "Proghdr \<Rightarrow> nat set" where
  "hdr_pages h \<equiv> page_range (p_va h) (p_memsz h)"

definition pages_of :: "Proghdr list \<Rightarrow> nat" where
  "pages_of hs = sum_list (map (\<lambda>h. seg_npages (p_memsz h)) hs)"

text \<open>An image that can be loaded: no two segments touch the same page.\<close>

definition good_image :: "(u32 \<Rightarrow> u8) \<Rightarrow> bool" where
  "good_image binary \<longleftrightarrow> e_magic (read_Elf binary) = ELF_MAGIC \<and> list_all loadable (loads binary)
     \<and> sorted_wrt (\<lambda>h h'. hdr_pages h \<inter> hdr_pages h' = {}) (loads binary)"

text \<open>The state of the loop after the headers \<open>hs\<close>, from an empty directory in \<open>s0\<close>.\<close>

definition load_state ::
  "(u32 \<Rightarrow> u8) \<Rightarrow> kstate \<Rightarrow> nat set \<Rightarrow> (nat \<Rightarrow> nat) \<Rightarrow> nat \<Rightarrow> nat \<Rightarrow> Proghdr list \<Rightarrow> kstate \<Rightarrow> nat list \<Rightarrow> bool" where
  "load_state binary s0 D K d n hs s fl \<longleftrightarrow> loading s D K fl d \<and> n \<le> length fl + 2 * pages_of hs \<and> same_rest s0 s
     \<and> (\<forall>h \<in> set hs. \<forall>i < unat (p_memsz h). ubyte s d (p_va h + of_nat i) = Some (seg_byte binary h i))
     \<and> (\<forall>d' \<in> D. \<forall>x < UTOP. \<not> (d' = d \<and> (\<exists>h \<in> set hs. unat x div 4096 \<in> hdr_pages h))
          \<longrightarrow> leafpte s (slot d' x) = leafpte s0 (slot d' x) \<and> ubyte s d' x = ubyte s0 d' x)"

lemma loadable_addr:
  assumes "loadable h" and "i < unat (p_memsz h)"
  shows "unat (p_va h + of_nat i) div 4096 \<in> hdr_pages h" "p_va h + of_nat i < USTACKTOP - PGSIZE"
proof -
  have stk: "unat (USTACKTOP - PGSIZE) = 0xEEBFD000" by (simp add: layout)
  let ?v = "unat (p_va h)" and ?n = "seg_npages (p_memsz h)"
  have a: "?v mod 4096 + unat (p_memsz h) \<le> 4096 * ?n" "4096 * (?v div 4096 + ?n) \<le> 0xEEBFD000"
    using assms(1) unfolding loadable_def stk by simp_all
  have v: "?v = 4096 * (?v div 4096) + ?v mod 4096" by simp
  have e: "?v + i < 4096 * (?v div 4096 + ?n)" using a(1) assms(2) v unfolding distrib_left by linarith
  have u: "unat (p_va h + of_nat i) = ?v + i" by (rule unat_add_nat) (use e a(2) in simp)
  from e have "(?v + i) div 4096 < ?v div 4096 + ?n" by (simp add: less_mult_imp_div_less mult.commute)
  moreover have "?v div 4096 \<le> (?v + i) div 4096" by (simp add: div_le_mono)
  ultimately show "unat (p_va h + of_nat i) div 4096 \<in> hdr_pages h" unfolding u page_range_def by simp
  show "p_va h + of_nat i < USTACKTOP - PGSIZE" using e a(2) unfolding word_less_nat_alt u stk by linarith
qed

lemma load_state_step:
  assumes S: "load_state binary s0 D K d n hs s fl" and h: "h = read_Proghdr binary a" "is_load h" "loadable h"
    and e: "env_pgdir (envs s0 e) = Some d" "unat (PPN (cr3 s0)) = d"
    and none: "\<And>x. x < UTOP \<Longrightarrow> leafmap s0 (slot d x) = None"
    and ok: "\<And>g. g \<in> set hs \<Longrightarrow> loadable g" and dis: "\<And>g. g \<in> set hs \<Longrightarrow> hdr_pages g \<inter> hdr_pages h = {}"
    and room: "2 * pages_of (hs @ [h]) \<le> n"
  shows "\<exists>s' fl'. load_segment e binary a s = Some s' \<and> load_state binary s0 D K d n (hs @ [h]) s' fl'"
proof -
  have L: "loading s D K fl d" and sr: "same_rest s0 s" and len: "n \<le> length fl + 2 * pages_of hs"
    and bytes: "\<forall>h \<in> set hs. \<forall>i < unat (p_memsz h). ubyte s d (p_va h + of_nat i) = Some (seg_byte binary h i)"
    and rest: "\<forall>d' \<in> D. \<forall>x < UTOP. \<not> (d' = d \<and> (\<exists>h \<in> set hs. unat x div 4096 \<in> hdr_pages h))
          \<longrightarrow> leafpte s (slot d' x) = leafpte s0 (slot d' x) \<and> ubyte s d' x = ubyte s0 d' x"
    using S by (simp_all add: load_state_def)
  have d: "d \<in> D" using L by (simp add: loading_def)
  have e': "env_pgdir (envs s e) = Some d" "unat (PPN (cr3 s)) = d" using sr e by (simp_all add: same_rest_def)
  have pg: "pages_of (hs @ [h]) = pages_of hs + seg_npages (p_memsz h)" by (simp add: pages_of_def)
  have room': "2 * seg_npages (p_memsz h) \<le> length fl" using room len unfolding pg by simp
  have none': "leafmap s (slot d x) = None" if x: "x < UTOP" "unat x div 4096 \<in> hdr_pages h" for x
  proof -
    have "\<not> (d = d \<and> (\<exists>g \<in> set hs. unat x div 4096 \<in> hdr_pages g))" using dis x(2) by blast
    with rest d x(1) have "leafpte s (slot d x) = leafpte s0 (slot d x)" by blast
    with none [OF x(1)] show ?thesis by (simp add: leafmap_def)
  qed
  obtain s' fl' where s': "load_segment e binary a s = Some s'" "loading s' D K fl' d"
      "length fl \<le> length fl' + 2 * seg_npages (p_memsz h)" "same_rest s s'"
      "\<forall>i < unat (p_memsz h). ubyte s' d (p_va h + of_nat i) = Some (seg_byte binary h i)"
      "\<forall>d' \<in> D. \<forall>x < UTOP. \<not> (d' = d \<and> unat x div 4096 \<in> hdr_pages h)
         \<longrightarrow> leafpte s' (slot d' x) = leafpte s (slot d' x) \<and> ubyte s' d' x = ubyte s d' x"
    using load_segment_ok [OF h(1) L e' h(2,3) room' none'] by blast
  have stk: "USTACKTOP - PGSIZE \<le> UTOP" by (simp add: layout)
  have b: "ubyte s' d (p_va g + of_nat i) = Some (seg_byte binary g i)"
    if g: "g \<in> set hs" "i < unat (p_memsz g)" for g i
  proof -
    note ad = loadable_addr [OF ok [OF g(1)] g(2)]
    have "p_va g + of_nat i < UTOP" using ad(2) stk by simp
    moreover have "\<not> (d = d \<and> unat (p_va g + of_nat i) div 4096 \<in> hdr_pages h)" using dis [OF g(1)] ad(1) by blast
    ultimately have "ubyte s' d (p_va g + of_nat i) = ubyte s d (p_va g + of_nat i)" using s'(6) d by blast
    with bytes g show ?thesis by simp
  qed
  have r: "leafpte s' (slot d' x) = leafpte s0 (slot d' x) \<and> ubyte s' d' x = ubyte s0 d' x"
    if x: "d' \<in> D" "x < UTOP" "\<not> (d' = d \<and> (\<exists>g \<in> set (hs @ [h]). unat x div 4096 \<in> hdr_pages g))" for d' x
  proof -
    have "\<not> (d' = d \<and> unat x div 4096 \<in> hdr_pages h)"
      "\<not> (d' = d \<and> (\<exists>g \<in> set hs. unat x div 4096 \<in> hdr_pages g))" using x(3) by auto
    with s'(6) rest x(1,2) show ?thesis by metis
  qed
  have "n \<le> length fl' + 2 * pages_of (hs @ [h])" using len s'(3) unfolding pg by simp
  with s'(1,2,5) b r same_rest_trans [OF sr s'(4)] show ?thesis
    by (intro exI [of _ s'] exI [of _ fl']) (auto simp: load_state_def)
qed

lemma load_all:
  assumes "load_state binary s0 D K d n hs s fl" and "gs = filter is_load (map (read_Proghdr binary) as)"
    and "env_pgdir (envs s0 e) = Some d" and "unat (PPN (cr3 s0)) = d"
    and "\<And>x. x < UTOP \<Longrightarrow> leafmap s0 (slot d x) = None"
    and "list_all loadable (hs @ gs)" and "sorted_wrt (\<lambda>h h'. hdr_pages h \<inter> hdr_pages h' = {}) (hs @ gs)"
    and "2 * pages_of (hs @ gs) \<le> n"
  shows "\<exists>s' fl'. iter_opt (load_segment e binary) as s = Some s' \<and> load_state binary s0 D K d n (hs @ gs) s' fl'"
  using assms
proof (induction as arbitrary: hs s fl gs)
  case Nil
  then show ?case by auto
next
  case (Cons a as)
  let ?h = "read_Proghdr binary a" and ?gs = "filter is_load (map (read_Proghdr binary) as)"
  show ?case
  proof (cases "is_load ?h")
    case False
    then have "load_segment e binary a s = Some s" by (simp add: load_segment_def Let_def)
    with Cons.IH [OF Cons.prems(1) refl Cons.prems(3-5)] Cons.prems(2,6-8) False show ?thesis by simp
  next
    case True
    have gs: "gs = ?h # ?gs" using Cons.prems(2) True by simp
    have l: "list_all loadable ((hs @ [?h]) @ ?gs)" using Cons.prems(6) gs by simp
    have so: "sorted_wrt (\<lambda>h h'. hdr_pages h \<inter> hdr_pages h' = {}) ((hs @ [?h]) @ ?gs)"
      using Cons.prems(7) gs by simp
    have pg: "2 * pages_of ((hs @ [?h]) @ ?gs) \<le> n" using Cons.prems(8) gs by simp
    then have pg1: "2 * pages_of (hs @ [?h]) \<le> n" by (simp add: pages_of_def)
    have ok: "loadable ?h" "\<And>g. g \<in> set hs \<Longrightarrow> loadable g" using l by (simp_all add: list_all_iff)
    have dis: "hdr_pages g \<inter> hdr_pages ?h = {}" if "g \<in> set hs" for g
      using Cons.prems(7) gs that by (simp add: sorted_wrt_append)
    obtain s1 fl1 where s1: "load_segment e binary a s = Some s1"
        "load_state binary s0 D K d n (hs @ [?h]) s1 fl1"
      using load_state_step [OF Cons.prems(1) refl True ok(1) Cons.prems(3-5) ok(2) dis pg1] by blast
    from Cons.IH [OF s1(2) refl Cons.prems(3-5) l so pg] s1(1) gs show ?thesis by simp
  qed
qed

text \<open>The bytes and the page tables depend on the memory only.\<close>

lemma ubyte_cong: "mem s' = mem s \<Longrightarrow> ubyte s' d x = ubyte s d x"
proof -
  assume m: "mem s' = mem s"
  show ?thesis unfolding ubyte_def maps_cong(3) [OF m] m ..
qed

lemma loading_cong:
  assumes "mem s' = mem s" "pp_ref s' = pp_ref s" "npage s' = npage s" "page_free_list s' = page_free_list s"
  shows "loading s' D K fl d = loading s D K fl d"
  using assms mm_inv_cong [OF assms] maps_cong [OF assms(1)] by (simp add: loading_def user_tables_def)

text \<open>A directory with no page table below UTOP.\<close>

lemma loading_empty:
  assumes "mm_inv s D K fl" and "d \<in> D" and "\<And>i. i < UPDX \<Longrightarrow> ptmap s (d, i) = None"
  shows "loading s D K fl d" "\<And>x. x < UTOP \<Longrightarrow> leafmap s (slot d x) = None"
proof -
  have n: "leafmap s y = None" if "y \<in> leafslots {d}" for y
    using that assms(3) by (auto simp: leafslots_def leafmap_def leafpte_def ent_def present_def)
  then show "loading s D K fl d" using assms by (simp add: loading_def user_tables_def)
  show "\<And>x. x < UTOP \<Longrightarrow> leafmap s (slot d x) = None" using n slot_sub by blast
qed

definition stack_base :: u32 where "stack_base = USTACKTOP - PGSIZE"

lemma stack_base_val: "unat stack_base = 0xEEBFD000" "stack_base < UTOP"
  by (simp_all add: stack_base_def layout)

lemma load_icode_ok:
  assumes inv: "mm_inv s D K fl" and d: "d \<in> D" and e: "env_pgdir (envs s e) = Some d" "env_cr3 (envs s e) = page2pa d"
    and none: "\<And>i. i < UPDX \<Longrightarrow> ptmap s (d, i) = None"
    and good: "good_image binary" and room: "2 * pages_of (loads binary) + 2 \<le> length fl"
  shows "\<exists>s' fl'. load_icode e binary s = Some s' \<and> mm_inv s' D K fl'
    \<and> envs s' = (envs s)(e := (envs s e)\<lparr>env_tf := (env_tf (envs s e))\<lparr>tf_eip := e_entry (read_Elf binary)\<rparr>\<rparr>)
    \<and> (\<forall>h \<in> set (loads binary). \<forall>i < unat (p_memsz h).
         ubyte s' d (p_va h + of_nat i) = Some (seg_byte binary h i))
    \<and> (\<forall>i < 4096. ubyte s' d (stack_base + of_nat i) \<noteq> None)
    \<and> (\<forall>d' \<in> D. d' \<noteq> d \<longrightarrow> (\<forall>x < UTOP. ubyte s' d' x = ubyte s d' x))
    \<and> length fl \<le> length fl' + 2 * pages_of (loads binary) + 2
    \<and> env_free_list s' = env_free_list s \<and> curenv s' = curenv s"
proof -
  let ?gs = "loads binary"
  let ?as = "map (\<lambda>k. e_phoff (read_Elf binary) + 32 * of_nat k) [0..<unat (e_phnum (read_Elf binary))]"
  let ?s1 = "lcr3 (env_cr3 (envs s e)) s"
  have gs: "?gs = filter is_load (map (read_Proghdr binary) ?as)" by (simp add: loads_def image_headers_def comp_def)
  have f1: "mem ?s1 = mem s" "pp_ref ?s1 = pp_ref s" "npage ?s1 = npage s" "page_free_list ?s1 = page_free_list s"
    "envs ?s1 = envs s" "cr3 ?s1 = page2pa d" by (simp_all add: lcr3_def e)
  have d20: "d < 2 ^ 20" using d mm_invD(3,4) [OF inv] by auto
  have inv1: "mm_inv ?s1 D K fl" using mm_inv_cong [OF f1(1-4)] inv by simp
  have none1: "ptmap ?s1 (d, i) = None" if "i < UPDX" for i using none [OF that] maps_cong(1) [OF f1(1)] by simp
  have em: "loading ?s1 D K fl d" "\<And>x. x < UTOP \<Longrightarrow> leafmap ?s1 (slot d x) = None"
    using loading_empty [OF inv1 d] none1 by blast+
  have S0: "load_state binary ?s1 D K d (length fl) [] ?s1 fl"
    using em(1) by (simp add: load_state_def same_rest_def pages_of_def)
  have e1: "env_pgdir (envs ?s1 e) = Some d" "unat (PPN (cr3 ?s1)) = d"
    using e(1) d20 f1(5,6) unat_PPN_page2pa by simp_all
  have l: "list_all loadable ([] @ ?gs)" "sorted_wrt (\<lambda>h h'. hdr_pages h \<inter> hdr_pages h' = {}) ([] @ ?gs)"
    using good by (simp_all add: good_image_def)
  have r: "2 * pages_of ([] @ ?gs) \<le> length fl" using room by simp
  obtain s2 fl2 where s2: "iter_opt (load_segment e binary) ?as ?s1 = Some s2"
      "load_state binary ?s1 D K d (length fl) ?gs s2 fl2"
    using load_all [OF S0 gs e1 em(2) l r] by auto
  have L2: "loading s2 D K fl2 d" and len2: "length fl \<le> length fl2 + 2 * pages_of ?gs" and sr2: "same_rest ?s1 s2"
    and b2: "\<forall>h \<in> set ?gs. \<forall>i < unat (p_memsz h). ubyte s2 d (p_va h + of_nat i) = Some (seg_byte binary h i)"
    and r2: "\<forall>d' \<in> D. \<forall>x < UTOP. \<not> (d' = d \<and> (\<exists>h \<in> set ?gs. unat x div 4096 \<in> hdr_pages h))
          \<longrightarrow> leafpte s2 (slot d' x) = leafpte ?s1 (slot d' x) \<and> ubyte s2 d' x = ubyte ?s1 d' x"
    using s2(2) by (simp_all add: load_state_def)
  let ?s4 = "mod_env e (\<lambda>v. v\<lparr>env_tf := (env_tf v)\<lparr>tf_eip := e_entry (read_Elf binary)\<rparr>\<rparr>) (lcr3 (boot_cr3 s2) s2)"
  have f4: "mem ?s4 = mem s2" "pp_ref ?s4 = pp_ref s2" "npage ?s4 = npage s2" "page_free_list ?s4 = page_free_list s2"
    by (simp_all add: lcr3_def mod_env_def set_env_def)
  have L4: "loading ?s4 D K fl2 d" using loading_cong [OF f4] L2 by simp
  have envs2: "envs s2 = envs s" using sr2 f1(5) by (simp add: same_rest_def)
  have envs4: "envs ?s4 = (envs s)(e := (envs s e)\<lparr>env_tf := (env_tf (envs s e))\<lparr>tf_eip := e_entry (read_Elf binary)\<rparr>\<rparr>)"
    by (simp add: lcr3_def mod_env_def set_env_def envs2)
  have e4: "env_pgdir (envs ?s4 e) = Some d" unfolding envs4 using e(1) by simp
  have np: "seg_npages PGSIZE = 1" "unat stack_base div 4096 = 0xEEBFD" by (simp_all add: seg_npages_def stack_base_val PGSIZE_val)
  have rng: "page_range stack_base PGSIZE = {0xEEBFD}" unfolding page_range_def np by auto
  have above: "\<not> (\<exists>h \<in> set ?gs. 0xEEBFD \<in> hdr_pages h)"
  proof
    assume "\<exists>h \<in> set ?gs. 0xEEBFD \<in> hdr_pages h"
    then obtain h where h: "h \<in> set ?gs" "0xEEBFD \<in> hdr_pages h" by blast
    from h(1) l(1) have "loadable h" by (simp add: list_all_iff)
    then have "4096 * (unat (p_va h) div 4096 + seg_npages (p_memsz h)) \<le> 0xEEBFD000"
      using stack_base_val(1) by (simp add: loadable_def stack_base_def)
    with h(2) show False by (simp add: page_range_def)
  qed
  have none4: "leafmap ?s4 (slot d x) = None" if x: "x < UTOP" "unat x div 4096 \<in> page_range stack_base PGSIZE" for x
  proof -
    have "\<not> (d = d \<and> (\<exists>h \<in> set ?gs. unat x div 4096 \<in> hdr_pages h))" using above x(2) rng by auto
    with r2 d x(1) have "leafpte s2 (slot d x) = leafpte ?s1 (slot d x)" by blast
    with em(2) [OF x(1)] maps_cong(2) [OF f4(1)] show ?thesis by (simp add: leafmap_def)
  qed
  have top4: "4096 * (unat stack_base div 4096 + seg_npages PGSIZE) \<le> unat UTOP" unfolding np by (simp add: layout)
  have len4: "unat PGSIZE + 4095 < 2 ^ 32" by (simp add: PGSIZE_val)
  have room4: "2 * seg_npages PGSIZE \<le> length fl2" using room len2 unfolding np by simp
  obtain s5 fl5 where s5: "segment_alloc e stack_base PGSIZE ?s4 = Some s5" "loading s5 D K fl5 d" "same_rest ?s4 s5"
      "length fl2 \<le> length fl5 + 2 * 1"
      "keeps D ?s4 s5" "\<forall>x < UTOP. unat x div 4096 \<in> page_range stack_base PGSIZE \<longrightarrow> leafmap s5 (slot d x) \<noteq> None"
      "\<forall>d' \<in> D. \<forall>x < UTOP. \<not> (d' = d \<and> unat x div 4096 \<in> page_range stack_base PGSIZE)
         \<longrightarrow> leafpte s5 (slot d' x) = leafpte ?s4 (slot d' x)"
    using segment_alloc_ok [OF L4 e4 top4 len4 room4 none4] unfolding np by blast
  have magic: "e_magic (read_Elf binary) = ELF_MAGIC" using good by (simp add: good_image_def)
  have run: "load_icode e binary s = Some s5"
    using magic s2(1) s5(1) by (simp add: load_icode_def Let_def stack_base_def)
  have inv5: "mm_inv s5 D K fl5" using s5(2) by (simp add: loading_def)
  have envs5: "envs s5 = envs ?s4" using s5(3) by (simp add: same_rest_def)
  have stk: "USTACKTOP - PGSIZE \<le> UTOP" by (simp add: layout)
  have bytes: "ubyte s5 d (p_va h + of_nat i) = Some (seg_byte binary h i)"
    if h: "h \<in> set ?gs" "i < unat (p_memsz h)" for h i
  proof -
    have "loadable h" using h(1) l(1) by (simp add: list_all_iff)
    from loadable_addr(2) [OF this h(2)] stk have lt: "p_va h + of_nat i < UTOP" by simp
    have "ubyte ?s4 d (p_va h + of_nat i) = Some (seg_byte binary h i)"
      using b2 h ubyte_cong [OF f4(1)] by simp
    from keeps_ubyte [OF s5(5) d lt this] show ?thesis .
  qed
  have stack: "ubyte s5 d (stack_base + of_nat i) \<noteq> None" if i: "i < 4096" for i
  proof -
    have u: "unat (stack_base + of_nat i) = 0xEEBFD000 + i"
      using unat_add_nat [of stack_base i] i by (simp add: stack_base_val)
    have "stack_base + of_nat i < UTOP" using i unfolding word_less_nat_alt u by (simp add: layout)
    moreover have "unat (stack_base + of_nat i) div 4096 \<in> page_range stack_base PGSIZE"
      using i unfolding rng u by simp
    ultimately have "leafmap s5 (slot d (stack_base + of_nat i)) \<noteq> None" using s5(6) by blast
    then show ?thesis by (auto simp: ubyte_def)
  qed
  have others: "ubyte s5 d' x = ubyte s d' x" if x: "d' \<in> D" "d' \<noteq> d" "x < UTOP" for d' x
  proof -
    have a: "ubyte ?s4 d' x = ubyte s d' x"
      using r2 x ubyte_cong [OF f4(1)] ubyte_cong [OF f1(1)] by simp
    show ?thesis
    proof (cases "ubyte ?s4 d' x")
      case None
      then have "leafmap ?s4 (slot d' x) = None" by (simp add: ubyte_def split: option.splits)
      then have "leafmap s5 (slot d' x) = None" using s5(7) x by (simp add: leafmap_def)
      then show ?thesis using None a by (simp add: ubyte_def)
    next
      case (Some b)
      from keeps_ubyte [OF s5(5) x(1,3) this] Some a show ?thesis by simp
    qed
  qed
  have len5: "length fl \<le> length fl5 + 2 * pages_of ?gs + 2" using len2 s5(4) by simp
  have rest: "env_free_list s5 = env_free_list s" "curenv s5 = curenv s"
    using sr2 s5(3) by (simp_all add: same_rest_def lcr3_def mod_env_def set_env_def)
  show ?thesis
    by (rule exI [of _ s5], rule exI [of _ fl5]) (use run inv5 envs5 envs4 bytes stack others len5 rest in simp)
qed

section \<open>Creating environments\<close>

text \<open>What env_create leaves in the slot \<open>e\<close>, and an address space that holds an image.\<close>

definition created :: "nat \<Rightarrow> nat \<Rightarrow> (u32 \<Rightarrow> u8) \<Rightarrow> Env \<Rightarrow> Env" where
  "created e p binary v =
     (new_env e p 0 v)\<lparr>env_tf := (env_tf (new_env e p 0 v))\<lparr>tf_eip := e_entry (read_Elf binary)\<rparr>\<rparr>"

definition image_at :: "(u32 \<Rightarrow> u8) \<Rightarrow> kstate \<Rightarrow> nat \<Rightarrow> bool" where
  "image_at binary s d \<longleftrightarrow>
     (\<forall>h \<in> set (loads binary). \<forall>i < unat (p_memsz h).
        ubyte s d (p_va h + of_nat i) = Some (seg_byte binary h i))
   \<and> (\<forall>i < 4096. ubyte s d (stack_base + of_nat i) \<noteq> None)"

lemma stack_addr: "i < 4096 \<Longrightarrow> stack_base + of_nat i < UTOP"
  using unat_add_nat [of stack_base i] by (simp add: word_less_nat_alt stack_base_val layout)

lemma image_at_keep:
  assumes "image_at binary s d" and "good_image binary" and "\<And>x. x < UTOP \<Longrightarrow> ubyte s' d x = ubyte s d x"
  shows "image_at binary s' d"
proof -
  have "p_va h + of_nat i < UTOP" if "h \<in> set (loads binary)" "i < unat (p_memsz h)" for h i
  proof -
    have "loadable h" using assms(2) that(1) by (simp add: good_image_def list_all_iff)
    moreover have "USTACKTOP - PGSIZE \<le> UTOP" by (simp add: layout)
    ultimately show ?thesis using loadable_addr(2) [OF _ that(2)] less_le_trans by blast
  qed
  with assms(1,3) stack_addr show ?thesis by (simp add: image_at_def)
qed

lemma env_create_ok:
  assumes inv: "mm_inv s D K (p # fl)" and efl: "is_list (env_free_list s) (e # es)" and good: "good_image binary"
    and room: "2 * pages_of (loads binary) + 2 \<le> length fl"
  shows "\<exists>s' fl'. env_create binary s = Some s' \<and> mm_inv s' (insert p D) K fl'
    \<and> length fl \<le> length fl' + 2 * pages_of (loads binary) + 2
    \<and> envs s' = (envs s)(e := created e p binary (envs s e))
    \<and> is_list (env_free_list s') es \<and> curenv s' = curenv s \<and> image_at binary s' p
    \<and> (\<forall>d \<in> D. \<forall>x < UTOP. ubyte s' d x = ubyte s d x)"
proof -
  obtain s1 where s1: "env_alloc 0 s = Some (Inr e, s1)" "mm_inv s1 (insert p D) K fl"
      "envs s1 = (envs s)(e := new_env e p 0 (envs s e))" "\<forall>y \<in> leafslots D. leafpte s1 y = leafpte s y"
      "\<forall>i < UPDX. ptmap s1 (p, i) = None" "\<forall>f. f \<noteq> p \<longrightarrow> mem s1 f = mem s f"
      "is_list (env_free_list s1) es" "curenv s1 = curenv s"
    using alloc_ok [OF inv efl, of 0] by blast
  have e1: "env_pgdir (envs s1 e) = Some p" "env_cr3 (envs s1 e) = page2pa p" by (simp_all add: s1(3) new_env_def)
  have p: "p \<in> insert p D" by simp
  have n1: "ptmap s1 (p, i) = None" if "i < UPDX" for i using s1(5) that by simp
  obtain s2 fl2 where s2: "load_icode e binary s1 = Some s2" "mm_inv s2 (insert p D) K fl2"
      "envs s2 = (envs s1)(e := (envs s1 e)\<lparr>env_tf := (env_tf (envs s1 e))\<lparr>tf_eip := e_entry (read_Elf binary)\<rparr>\<rparr>)"
      "image_at binary s2 p" "\<forall>d' \<in> insert p D. d' \<noteq> p \<longrightarrow> (\<forall>x < UTOP. ubyte s2 d' x = ubyte s1 d' x)"
      "length fl \<le> length fl2 + 2 * pages_of (loads binary) + 2"
      "env_free_list s2 = env_free_list s1" "curenv s2 = curenv s1"
    using load_icode_ok [OF s1(2) p e1 n1 good room] unfolding image_at_def by blast
  have o: "ubyte s2 d x = ubyte s d x" if x: "d \<in> D" "x < UTOP" for d x
  proof -
    have "p \<notin> D" using mm_inv_free(4) [OF inv, of p] by simp
    then have "ubyte s2 d x = ubyte s1 d x" using s2(5) x by auto
    also have "\<dots> = ubyte s d x"
    proof -
      note sl = slot_in(1) [OF x]
      have lm: "leafmap s1 (slot d x) = leafmap s (slot d x)" using s1(4) sl by (simp add: leafmap_def)
      have "leafmap s (slot d x) \<noteq> Some p" using mm_inv_free(6) [OF inv _ sl, of p] by simp
      then show ?thesis using s1(6) lm by (cases "leafmap s (slot d x)") (auto simp: ubyte_def)
    qed
    finally show ?thesis .
  qed
  have run: "env_create binary s = Some s2" using s1(1) s2(1) by (simp add: env_create_def)
  have en: "envs s2 = (envs s)(e := created e p binary (envs s e))"
    unfolding s2(3) s1(3) created_def by simp
  have rest: "is_list (env_free_list s2) es" "curenv s2 = curenv s" using s1(7,8) s2(7,8) by simp_all
  show ?thesis
    by (rule exI [of _ s2], rule exI [of _ fl2]) (use run s2(2,4,6) o en rest in simp)
qed

section \<open>Stores to a page that is not mapped\<close>

lemma vwrite_bytes_none:
  assumes L: "loading s D K fl d" and c: "unat (PPN (cr3 s)) = d" and top: "unat a + length bs \<le> unat UTOP"
    and k: "k < length bs" "leafmap s (slot d (a + of_nat k)) = None"
  shows "vwrite_bytes a bs s = None"
proof -
  let ?Q = "\<lambda>j. leafmap s (slot d (a + of_nat j)) = None"
  define m where "m = (LEAST j. ?Q j)"
  have m: "?Q m" "m \<le> k" "\<And>j. j < m \<Longrightarrow> \<not> ?Q j"
    unfolding m_def using LeastI [of ?Q, OF k(2)] Least_le [of ?Q, OF k(2)] not_less_Least [of _ ?Q] by blast+
  let ?xs = "take m bs" and ?ys = "drop m bs"
  have len: "length ?xs = m" using m(2) k(1) by simp
  have top1: "unat a + length ?xs \<le> unat UTOP" using top m(2) k(1) by simp
  have map1: "leafmap s (slot d (a + of_nat j)) \<noteq> None" if "j < length ?xs" for j
    using m(3) that len by simp
  obtain s1 where s1: "vwrite_bytes a ?xs s = Some s1" "loading s1 D K fl d" "same_rest s s1"
      "\<forall>z \<in> leafslots D. leafpte s1 z = leafpte s z"
    using vwrite_bytes_ok [OF L c top1 map1] by blast
  have d: "d \<in> D" using L by (simp add: loading_def)
  have "unat a + m < unat UTOP" using top m(2) k(1) by simp
  moreover from this have "unat (a + of_nat m) = unat a + m" by (intro unat_add_nat) (simp add: layout)
  ultimately have lt: "a + of_nat m < UTOP" by (simp add: word_less_nat_alt)
  have "leafmap s1 (slot d (a + of_nat m)) = None"
    using s1(4) slot_in(1) [OF d lt] m(1) by (simp add: leafmap_def)
  moreover have "unat (PPN (cr3 s1)) = d" using s1(3) c by (simp add: same_rest_def)
  ultimately have "mmu_walk True (a + of_nat m) s1 = None" using loading_walk [OF s1(2) _ lt] by simp
  then have "vwrite8 (a + of_nat m) b s1 = None" for b by (simp add: vwrite8_def)
  moreover obtain b ys where "?ys = b # ys" using m(2) k(1) by (cases ?ys) auto
  ultimately have "vwrite_bytes (a + of_nat m) ?ys s1 = None" by simp
  moreover have "vwrite_bytes a bs s = vwrite_bytes a (?xs @ ?ys) s" by simp
  ultimately show ?thesis using s1(1) len unfolding vwrite_bytes_append by simp
qed

section \<open>An image\<close>

text \<open>One segment to load, of 0x30 bytes and 0xED0 bytes of zeros at 0x800020, and one that is not.\<close>

definition demo_words :: "nat \<Rightarrow> u32" where
  "demo_words k = (if k = 0 then ELF_MAGIC else if k = 6 then 0x800020 else if k = 7 then 52 else if k = 11 then 2
     else if k = 13 then 1 else if k = 14 then 0x100 else if k = 15 then 0x800020
     else if k = 17 then 0x30 else if k = 18 then 0xF00 else of_nat k)"

abbreviation demo_prog :: "u32 \<Rightarrow> u8" where
  "demo_prog \<equiv> word_image demo_words"

definition demo_hdr :: Proghdr where
  "demo_hdr = \<lparr>p_type = 1, p_offset = 0x100, p_va = 0x800020, p_filesz = 0x30, p_memsz = 0xF00\<rparr>"

lemma demo_prog_elf:
  "read_Elf demo_prog = \<lparr>e_magic = ELF_MAGIC, e_entry = 0x800020, e_phoff = 52, e_phnum = 2\<rparr>"
proof -
  have "demo_prog 44 = 2" "demo_prog 45 = 0" by (simp_all add: word_image_def get_byte_def demo_words_def)
  then show ?thesis
    using le32_word_image [of 0 demo_words] le32_word_image [of 6 demo_words] le32_word_image [of 7 demo_words]
    by (simp add: read_Elf_def le16_def demo_words_def)
qed

lemma demo_prog_loads: "loads demo_prog = [demo_hdr]"
proof -
  have u: "[0..<2] = [0, 1 :: nat]" by (simp add: upt_rec)
  show ?thesis
    using le32_word_image [of 13 demo_words] le32_word_image [of 14 demo_words] le32_word_image [of 15 demo_words]
      le32_word_image [of 17 demo_words] le32_word_image [of 18 demo_words] le32_word_image [of 21 demo_words]
    by (simp add: loads_def image_headers_def demo_prog_elf read_Proghdr_def demo_words_def u demo_hdr_def ELF_PROG_LOAD_def)
qed

lemma demo_prog_good: "good_image demo_prog" "pages_of (loads demo_prog) = 1"
  unfolding good_image_def demo_prog_loads demo_prog_elf
  by (simp_all add: loadable_def demo_hdr_def seg_npages_def pages_of_def layout)

section \<open>Properties\<close>

text \<open>
  C9: env_create on a good image, that is: it has the magic number; each segment to load has no more bytes in the
  file than in memory, fits into the pages of its rounded length even though it may start inside of a page, and ends
  below the page of the stack; and no two segments touch the same page. (Without the second condition
  load_segment panics, C40; without the magic number so does load_icode.) With enough free pages, such an
  image becomes a runnable environment whose registers point at the entry point and the top of
  the stack, and whose memory holds, at the address of each segment, the bytes of the file followed
  by zeros, and a page for the stack. Every other environment keeps its structure and its memory, and
  the reference counts are right.
\<close>

theorem env_create_loads:
  assumes "mm_inv s D K (p # fl)" and "is_list (env_free_list s) (e # es)" and "good_image binary"
    and "2 * pages_of (loads binary) + 2 \<le> length fl"
  shows "\<exists>s' fl'. env_create binary s = Some s' \<and> mm_inv s' (insert p D) K fl'
    \<and> env_pgdir (envs s' e) = Some p \<and> env_status (envs s' e) = ENV_RUNNABLE
    \<and> tf_eip (env_tf (envs s' e)) = e_entry (read_Elf binary) \<and> tf_esp (env_tf (envs s' e)) = USTACKTOP
    \<and> (\<forall>h \<in> set (loads binary). \<forall>i < unat (p_memsz h). ubyte s' p (p_va h + of_nat i)
         = Some (if i < unat (p_filesz h) then binary (p_offset h + of_nat i) else 0))
    \<and> (\<forall>i < 4096. ubyte s' p (USTACKTOP - PGSIZE + of_nat i) \<noteq> None)
    \<and> (\<forall>x. x \<noteq> e \<longrightarrow> envs s' x = envs s x) \<and> (\<forall>d \<in> D. \<forall>x < UTOP. ubyte s' d x = ubyte s d x)"
proof -
  obtain s' fl' where s': "env_create binary s = Some s'" "mm_inv s' (insert p D) K fl'"
      "envs s' = (envs s)(e := created e p binary (envs s e))" "image_at binary s' p"
      "\<forall>d \<in> D. \<forall>x < UTOP. ubyte s' d x = ubyte s d x"
    using env_create_ok [OF assms] by blast
  then show ?thesis
    by (intro exI [of _ s'] exI [of _ fl']) (simp add: image_at_def created_def new_env_def seg_byte_def stack_base_def)
qed

theorem env_create_loads_witness:
  "\<exists>b' s1 s2 p. i386_vm_init 0xF0110000 0xF0108000 boot_demo_vars boot_demo = Some (b', s1)
    \<and> env_create demo_prog (env_init s1) = Some s2 \<and> env_pgdir (envs s2 0) = Some p
    \<and> ubyte s2 p 0x800021 = Some (demo_prog 0x101) \<and> ubyte s2 p 0x800050 = Some 0"
proof -
  obtain b' s1 fl where b: "i386_vm_init 0xF0110000 0xF0108000 boot_demo_vars boot_demo = Some (b', s1)"
      "mm_inv (env_init s1) {} (boot_refs 312 (kernel_tables s1)) fl" "804 \<le> length fl"
      "is_list (env_free_list (env_init s1)) (0 # [1..<NENV])"
    using demo_ready by blast
  obtain p fl1 where fl: "fl = p # fl1" using b(3) by (cases fl) auto
  have room: "2 * pages_of (loads demo_prog) + 2 \<le> length fl1" using b(3) fl demo_prog_good(2) by simp
  from env_create_loads [OF b(2) [unfolded fl] b(4) demo_prog_good(1) room] obtain s2 where
    s2: "env_create demo_prog (env_init s1) = Some s2" "env_pgdir (envs s2 0) = Some p"
    and seg: "\<forall>h \<in> set (loads demo_prog). \<forall>i < unat (p_memsz h). ubyte s2 p (p_va h + of_nat i)
         = Some (if i < unat (p_filesz h) then demo_prog (p_offset h + of_nat i) else 0)" by blast
  have seg1: "ubyte s2 p (0x800020 + of_nat i) = Some (if i < 0x30 then demo_prog (0x100 + of_nat i) else 0)"
    if "i < 0xF00" for i
  proof -
    have "demo_hdr \<in> set (loads demo_prog)" "i < unat (p_memsz demo_hdr)"
      using that by (simp_all add: demo_prog_loads demo_hdr_def)
    from seg [rule_format, OF this] show ?thesis by (simp add: demo_hdr_def)
  qed
  from seg1 [of 1] seg1 [of 48] b(1) s2 show ?thesis by auto
qed

text \<open>
  C40: load_icode. segment_alloc rounds the start of a segment down and its length up, not its
  end: of a segment that starts inside a page and runs into one page more than its length needs,
  the last page is not mapped, and the copy of its bytes is a page fault in the kernel, which panics.
\<close>

theorem load_segment_short:
  assumes L: "loading s D K fl d" and e: "env_pgdir (envs s e) = Some d" and c: "unat (PPN (cr3 s)) = d"
    and h: "h = read_Proghdr binary a" "is_load h" and "0 < unat (p_filesz h)"
    and short: "4096 * seg_npages (p_memsz h) < unat (p_va h) mod 4096 + unat (p_filesz h)"
      "unat (p_va h) + unat (p_filesz h) \<le> unat UTOP" "unat (p_memsz h) + 4095 < 2 ^ 32"
    and room: "2 * seg_npages (p_memsz h) \<le> length fl"
    and none: "\<And>x. x < UTOP \<Longrightarrow> leafmap s (slot d x) = None"
  shows "load_segment e binary a s = None"
proof -
  let ?va = "p_va h" and ?f = "unat (p_filesz h)" and ?n = "seg_npages (p_memsz h)"
  let ?stop = "4096 * (unat ?va div 4096 + ?n)"
  have vdm: "unat ?va = 4096 * (unat ?va div 4096) + unat ?va mod 4096" by simp
  have le: "?stop < unat ?va + ?f" using short(1) vdm unfolding distrib_left by linarith
  have top: "?stop \<le> unat UTOP" using le short(2) by linarith
  obtain s1 fl1 where s1: "segment_alloc e ?va (p_memsz h) s = Some s1" "loading s1 D K fl1 d" "same_rest s s1"
      "\<forall>d' \<in> D. \<forall>x < UTOP. \<not> (d' = d \<and> unat x div 4096 \<in> page_range ?va (p_memsz h))
         \<longrightarrow> leafpte s1 (slot d' x) = leafpte s (slot d' x)"
    using segment_alloc_ok [OF L e top short(3) room none] by blast
  have d: "d \<in> D" using L by (simp add: loading_def)
  let ?bs = "map (\<lambda>k. binary (p_offset h + of_nat k)) [0..<?f]"
  show ?thesis
  proof (cases "unat ?va \<le> ?stop")
    case True
    let ?k = "?stop - unat ?va"
    have k: "?k < ?f" using le True by linarith
    have u: "unat (?va + of_nat ?k) = ?stop"
      using unat_add_nat [of ?va ?k] True top by (simp add: layout)
    then have lt: "?va + of_nat ?k < UTOP" using le short(2) by (simp add: word_less_nat_alt)
    have "unat (?va + of_nat ?k) div 4096 = unat ?va div 4096 + ?n" unfolding u by simp
    then have "\<not> (d = d \<and> unat (?va + of_nat ?k) div 4096 \<in> page_range ?va (p_memsz h))" by (simp add: page_range_def)
    with s1(4) d lt none [OF lt] have "leafmap s1 (slot d (?va + of_nat ?k)) = None" by (simp add: leafmap_def)
    moreover have "unat (PPN (cr3 s1)) = d" using s1(3) c by (simp add: same_rest_def)
    ultimately have "vwrite_bytes ?va ?bs s1 = None"
      using vwrite_bytes_none [OF s1(2), of ?va ?bs ?k] short(2) k by simp
    with s1(1) h(2) show ?thesis by (simp add: load_segment_def h(1) Let_def)
  next
    case False
    then have n0: "?n = 0" using vdm by (cases ?n) (simp_all add: distrib_left)
    have lt: "?va < UTOP" using short(2) \<open>0 < ?f\<close> by (simp add: word_less_nat_alt)
    have "page_range ?va (p_memsz h) = {}" by (simp add: page_range_def n0)
    with s1(4) d lt none [OF lt] have "leafmap s1 (slot d ?va) = None" by (simp add: leafmap_def)
    moreover have "unat (PPN (cr3 s1)) = d" using s1(3) c by (simp add: same_rest_def)
    ultimately have "vwrite_bytes ?va ?bs s1 = None"
      using vwrite_bytes_none [OF s1(2), of ?va ?bs 0] short(2) \<open>0 < ?f\<close> by simp
    with s1(1) h(2) show ?thesis by (simp add: load_segment_def h(1) Let_def)
  qed
qed

theorem load_segment_short_witness:
  "\<exists>b' s1 s2 p. i386_vm_init 0xF0110000 0xF0108000 boot_demo_vars boot_demo = Some (b', s1)
    \<and> env_alloc 0 (env_init s1) = Some (Inr 0, s2) \<and> env_pgdir (envs s2 0) = Some p
    \<and> load_segment 0 (word_image (\<lambda>k. if k = 0 then 1 else if k = 2 then 0x800F00 else if k = 4 then 0x200
         else if k = 5 then 0x200 else 0)) 0 (lcr3 (page2pa p) s2) = None"
proof -
  let ?w = "\<lambda>k :: nat. (if k = 0 then 1 else if k = 2 then 0x800F00 else if k = 4 then 0x200
    else if k = 5 then 0x200 else 0) :: u32"
  obtain b' s1 fl where b: "i386_vm_init 0xF0110000 0xF0108000 boot_demo_vars boot_demo = Some (b', s1)"
      "mm_inv (env_init s1) {} (boot_refs 312 (kernel_tables s1)) fl" "804 \<le> length fl"
      "is_list (env_free_list (env_init s1)) (0 # [1..<NENV])"
    using demo_ready by blast
  obtain p fl1 where fl: "fl = p # fl1" using b(3) by (cases fl) auto
  obtain s2 where s2: "env_alloc 0 (env_init s1) = Some (Inr 0, s2)" "mm_inv s2 {p} (boot_refs 312 (kernel_tables s1)) fl1"
      "envs s2 = (envs (env_init s1))(0 := new_env 0 p 0 (envs (env_init s1) 0))" "\<forall>i < UPDX. ptmap s2 (p, i) = None"
    using alloc_ok [OF b(2) [unfolded fl] b(4), of 0] by blast
  let ?s = "lcr3 (page2pa p) s2"
  have f: "mem ?s = mem s2" "pp_ref ?s = pp_ref s2" "npage ?s = npage s2" "page_free_list ?s = page_free_list s2"
    "envs ?s = envs s2" "cr3 ?s = page2pa p" by (simp_all add: lcr3_def)
  have inv: "mm_inv ?s {p} (boot_refs 312 (kernel_tables s1)) fl1" using mm_inv_cong [OF f(1-4)] s2(2) by simp
  have em: "loading ?s {p} (boot_refs 312 (kernel_tables s1)) fl1 p" "\<And>x. x < UTOP \<Longrightarrow> leafmap ?s (slot p x) = None"
    using loading_empty [OF inv, of p] s2(4) maps_cong(1) [OF f(1)] by simp_all
  have e: "env_pgdir (envs ?s 0) = Some p" by (simp add: f(5) s2(3) new_env_def)
  have "p < 2 ^ 20" using mm_invD(3,4) [OF inv] by auto
  then have c: "unat (PPN (cr3 ?s)) = p" by (simp add: f(6) unat_PPN_page2pa)
  let ?h = "read_Proghdr (word_image ?w) 0"
  have h: "?h = \<lparr>p_type = 1, p_offset = 0, p_va = 0x800F00, p_filesz = 0x200, p_memsz = 0x200\<rparr>"
    using le32_word_image [of 0 ?w] le32_word_image [of 1 ?w] le32_word_image [of 2 ?w] le32_word_image [of 4 ?w]
      le32_word_image [of 5 ?w] by (simp add: read_Proghdr_def)
  have n: "seg_npages 0x200 = 1" by (simp add: seg_npages_def)
  have "load_segment 0 (word_image ?w) 0 ?s = None"
    by (rule load_segment_short [OF em(1) e c refl _ _ _ _ _ _ em(2)])
      (use b(3) fl in \<open>simp_all add: h n ELF_PROG_LOAD_def layout\<close>)
  moreover have "env_pgdir (envs s2 0) = Some p" using e by (simp add: f(5))
  ultimately show ?thesis using b(1) s2(1) by blast
qed

end
