(* ===== verification/Ports.thy ===== *)
theory Ports
  imports Prelude
begin

text \<open>
  Port I/O (inc/x86.h). The devices behind the ports are not part of the program: they are a
  parameter, a record of functions on an abstract state \<open>'d\<close>. What a driver relies on is stated
  where its properties are, as hypotheses on the record.
\<close>

unbundle bit_operations_syntax

record 'd ports =
  p_inb :: "u16 \<Rightarrow> 'd \<Rightarrow> u8 \<times> 'd"
  p_outb :: "u16 \<Rightarrow> u8 \<Rightarrow> 'd \<Rightarrow> 'd"
  p_inl :: "u16 \<Rightarrow> 'd \<Rightarrow> u32 \<times> 'd"
  p_outl :: "u16 \<Rightarrow> u32 \<Rightarrow> 'd \<Rightarrow> 'd"
  p_outw :: "u16 \<Rightarrow> u16 \<Rightarrow> 'd \<Rightarrow> 'd"

definition inb :: "'d ports \<Rightarrow> u16 \<Rightarrow> 'd \<Rightarrow> u8 \<times> 'd" where
  "inb P port d = p_inb P port d"

definition outb :: "'d ports \<Rightarrow> u16 \<Rightarrow> u8 \<Rightarrow> 'd \<Rightarrow> 'd" where
  "outb P port v d = p_outb P port v d"

definition outw :: "'d ports \<Rightarrow> u16 \<Rightarrow> u16 \<Rightarrow> 'd \<Rightarrow> 'd" where
  "outw P port v d = p_outw P port v d"

text \<open>The string instructions, as the words that go to or come from memory.\<close>

fun insl :: "'d ports \<Rightarrow> u16 \<Rightarrow> nat \<Rightarrow> 'd \<Rightarrow> u32 list \<times> 'd" where
  "insl P port 0 d = ([], d)"
| "insl P port (Suc n) d =
     (let (w, d1) = p_inl P port d; (ws, d2) = insl P port n d1 in (w # ws, d2))"

fun outsl :: "'d ports \<Rightarrow> u16 \<Rightarrow> u32 list \<Rightarrow> 'd \<Rightarrow> 'd" where
  "outsl P port [] d = d"
| "outsl P port (w # ws) d = outsl P port ws (p_outl P port w d)"

text \<open>A sequence of \<open>outb\<close>.\<close>

fun outs :: "'d ports \<Rightarrow> (u16 \<times> u8) list \<Rightarrow> 'd \<Rightarrow> 'd" where
  "outs P [] d = d"
| "outs P ((port, v) # xs) d = outs P xs (outb P port v d)"

lemma outs_append: "outs P (xs @ ys) d = outs P ys (outs P xs d)"
  by (induction P xs d rule: outs.induct) simp_all

lemma insl_length: "length (fst (insl P port n d)) = n"
  by (induction n arbitrary: d) (simp_all add: split_def Let_def)

end
