(* ===== verification/Pic.thy ===== *)
theory Pic
  imports Ports Trap
begin

text \<open>
  kern/picirq.c and kern/kclock.c: the interrupt controllers, the timer and the CMOS
  memory, programmed through the ports. What is printed is the list of the enabled interrupts.
\<close>

unbundle bit_operations_syntax

section \<open>The interrupt controllers (kern/picirq.c)\<close>

definition IRQ_SLAVE :: nat where "IRQ_SLAVE = 2"
definition IO_PIC1 :: u16 where "IO_PIC1 = 0x20"
definition IO_PIC2 :: u16 where "IO_PIC2 = 0xA0"

lemmas pic_consts = IRQ_SLAVE_def IO_PIC1_def IO_PIC2_def

record pic =
  irq_mask_8259A :: u16
  didinit :: bool

definition pic_start :: pic where
  "pic_start = \<lparr>irq_mask_8259A = 0xFFFF AND NOT (push_bit IRQ_SLAVE 1), didinit = False\<rparr>"

definition irq_setmask_8259A :: "'d ports \<Rightarrow> u16 \<Rightarrow> pic \<times> 'd \<Rightarrow> nat list option \<times> pic \<times> 'd" where
  "irq_setmask_8259A P irqs s =
     (case s of (p, d) \<Rightarrow>
        let p = p\<lparr>irq_mask_8259A := irqs\<rparr> in
        if \<not> didinit p then (None, p, d)
        else (Some (filter (\<lambda>i. NOT irqs AND push_bit i 1 \<noteq> 0) [0..<16]), p,
              outs P [(IO_PIC1 + 1, ucast irqs), (IO_PIC2 + 1, ucast (drop_bit 8 irqs))] d))"

text \<open>The command words of pic_init.\<close>

definition pic_words :: "(u16 \<times> u8) list" where
  "pic_words =
     [(IO_PIC1 + 1, 0xFF), (IO_PIC2 + 1, 0xFF),
      (IO_PIC1, 0x11), (IO_PIC1 + 1, ucast IRQ_OFFSET), (IO_PIC1 + 1, push_bit IRQ_SLAVE 1),
      (IO_PIC1 + 1, 0x3),
      (IO_PIC2, 0x11), (IO_PIC2 + 1, ucast (IRQ_OFFSET + 8)), (IO_PIC2 + 1, of_nat IRQ_SLAVE),
      (IO_PIC2 + 1, 0x01),
      (IO_PIC1, 0x68), (IO_PIC1, 0x0A), (IO_PIC2, 0x68), (IO_PIC2, 0x0A)]"

definition pic_init :: "'d ports \<Rightarrow> pic \<times> 'd \<Rightarrow> nat list option \<times> pic \<times> 'd" where
  "pic_init P s =
     (case s of (p, d) \<Rightarrow>
        let p = p\<lparr>didinit := True\<rparr>; d = outs P pic_words d in
        if irq_mask_8259A p \<noteq> 0xFFFF then irq_setmask_8259A P (irq_mask_8259A p) (p, d)
        else (None, p, d))"

section \<open>The timer and the CMOS memory (kern/kclock.c)\<close>

definition IO_RTC :: u16 where "IO_RTC = 0x70"

definition mc146818_read :: "'d ports \<Rightarrow> u32 \<Rightarrow> 'd \<Rightarrow> u32 \<times> 'd" where
  "mc146818_read P reg d = (let (v, d) = inb P (IO_RTC + 1) (outb P IO_RTC (ucast reg) d) in (ucast v, d))"

definition mc146818_write :: "'d ports \<Rightarrow> u32 \<Rightarrow> u32 \<Rightarrow> 'd \<Rightarrow> 'd" where
  "mc146818_write P reg datum d = outs P [(IO_RTC, ucast reg), (IO_RTC + 1, ucast datum)] d"

definition IO_TIMER1 :: u16 where "IO_TIMER1 = 0x40"
definition TIMER_MODE :: u16 where "TIMER_MODE = IO_TIMER1 + 3"
definition TIMER_FREQ :: nat where "TIMER_FREQ = 1193182"
definition TIMER_SEL0 :: u8 where "TIMER_SEL0 = 0"
definition TIMER_RATEGEN :: u8 where "TIMER_RATEGEN = 4"
definition TIMER_16BIT :: u8 where "TIMER_16BIT = 0x30"

lemmas timer_consts = IO_TIMER1_def TIMER_MODE_def TIMER_FREQ_def TIMER_SEL0_def TIMER_RATEGEN_def
  TIMER_16BIT_def

definition TIMER_DIV :: "nat \<Rightarrow> nat" where
  "TIMER_DIV x = (TIMER_FREQ + x div 2) div x"

definition kclock_init :: "'d ports \<Rightarrow> pic \<times> 'd \<Rightarrow> nat list option \<times> pic \<times> 'd" where
  "kclock_init P s =
     (case s of (p, d) \<Rightarrow>
        irq_setmask_8259A P (irq_mask_8259A p AND NOT 1)
          (p, outs P [(TIMER_MODE, TIMER_SEL0 OR TIMER_RATEGEN OR TIMER_16BIT),
                      (IO_TIMER1, of_nat (TIMER_DIV 100 mod 256)),
                      (IO_TIMER1, of_nat (TIMER_DIV 100 div 256))] d))"

section \<open>The devices, as documented\<close>

text \<open>
  An 8259A: \<open>icw\<close> is the initialisation word it expects next, or 0. The first word clears the
  mask register. \<open>a0\<close> is the lowest bit of the port.
\<close>

record i8259 =
  imr :: u8
  icw :: nat
  icw_four :: bool
  vbase :: u8
  cascade :: u8
  pic_mode :: u8

definition i8259_out :: "bool \<Rightarrow> u8 \<Rightarrow> i8259 \<Rightarrow> i8259" where
  "i8259_out a0 v c =
     (if \<not> a0 then
        (if bit v 4 then c\<lparr>imr := 0, icw := 2, icw_four := bit v 0\<rparr> else c)
      else if icw c = 2 then c\<lparr>vbase := v AND 0xF8, icw := 3\<rparr>
      else if icw c = 3 then c\<lparr>cascade := v, icw := if icw_four c then 4 else 0\<rparr>
      else if icw c = 4 then c\<lparr>pic_mode := v, icw := 0\<rparr>
      else c\<lparr>imr := v\<rparr>)"

text \<open>The two controllers, the counter of the timer and the CMOS memory with its index.\<close>

record board =
  master :: i8259
  slave :: i8259
  pit_mode :: u8
  pit_low :: "u8 option"
  pit_reload :: nat
  rtc_index :: u8
  rtc_regs :: "u8 \<Rightarrow> u8"

definition pit_out :: "u8 \<Rightarrow> board \<Rightarrow> board" where
  "pit_out v b = (case pit_low b of
     None \<Rightarrow> b\<lparr>pit_low := Some v\<rparr>
   | Some l \<Rightarrow> b\<lparr>pit_low := None, pit_reload := unat l + 256 * unat v\<rparr>)"

definition board_out :: "u16 \<Rightarrow> u8 \<Rightarrow> board \<Rightarrow> board" where
  "board_out port v b =
     (if port = 0x20 then b\<lparr>master := i8259_out False v (master b)\<rparr>
      else if port = 0x21 then b\<lparr>master := i8259_out True v (master b)\<rparr>
      else if port = 0xA0 then b\<lparr>slave := i8259_out False v (slave b)\<rparr>
      else if port = 0xA1 then b\<lparr>slave := i8259_out True v (slave b)\<rparr>
      else if port = 0x43 then b\<lparr>pit_mode := v, pit_low := None\<rparr>
      else if port = 0x40 then pit_out v b
      else if port = 0x70 then b\<lparr>rtc_index := v AND 0x7F\<rparr>
      else if port = 0x71 then b\<lparr>rtc_regs := (rtc_regs b)(rtc_index b := v)\<rparr>
      else b)"

definition board_port :: "'d ports \<Rightarrow> ('d \<Rightarrow> board) \<Rightarrow> bool" where
  "board_port P st \<longleftrightarrow>
     (\<forall>port v d. st (p_outb P port v d) = board_out port v (st d))
   \<and> (\<forall>d. fst (p_inb P 0x71 d) = rtc_regs (st d) (rtc_index (st d)) \<and> st (snd (p_inb P 0x71 d)) = st d)"

text \<open>The vector at which interrupt line \<open>n\<close> reaches the processor, if it does.\<close>

definition irq_vector :: "board \<Rightarrow> nat \<Rightarrow> nat option" where
  "irq_vector b n =
     (let m = master b; s = slave b in
      if icw m \<noteq> 0 \<or> icw s \<noteq> 0 \<or> \<not> bit (pic_mode m) 0 \<or> \<not> bit (pic_mode s) 0 then None
      else if n < 8 then
        if bit (imr m) n \<or> bit (cascade m) n then None else Some (unat (vbase m) + n)
      else if n < 16 then
        if bit (imr s) (n - 8) \<or> bit (imr m) (unat (cascade s)) \<or> \<not> bit (cascade m) (unat (cascade s)) then None
        else Some (unat (vbase s) + (n - 8))
      else None)"

lemma outs_board:
  assumes "board_port P st"
  shows "st (outs P xs d) = fold (\<lambda>(port, v). board_out port v) xs (st d)"
  using assms by (induction P xs d rule: outs.induct) (simp_all add: outb_def board_port_def)

section \<open>Initialisation\<close>

text \<open>What the command words leave in the two controllers: they are ready and nothing is masked.\<close>

lemma pic_words_board:
  "fold (\<lambda>(port, v). board_out port v) pic_words b =
     b\<lparr>master := \<lparr>imr = 0, icw = 0, icw_four = True, vbase = 32, cascade = 4, pic_mode = 3\<rparr>,
       slave := \<lparr>imr = 0, icw = 0, icw_four = True, vbase = 40, cascade = 2, pic_mode = 1\<rparr>\<rparr>"
  by (simp add: pic_words_def pic_consts IRQ_OFFSET_def board_out_def i8259_out_def)

lemma setmask_board:
  assumes "board_port P st" and "didinit p"
  shows "\<exists>d'. irq_setmask_8259A P irqs (p, d) =
      (Some (filter (\<lambda>n. \<not> bit irqs n) [0..<16]), p\<lparr>irq_mask_8259A := irqs\<rparr>, d')
    \<and> st d' = board_out 0xA1 (ucast (drop_bit 8 irqs)) (board_out 0x21 (ucast irqs) (st d))"
proof -
  have "NOT irqs AND push_bit i 1 \<noteq> 0 \<longleftrightarrow> \<not> bit irqs i" if "i < 16" for i
    using that by (simp add: push_bit_eq_mult and_exp_eq_0_iff_not_bit bit_not_iff_eq)
  then have "filter (\<lambda>i. NOT irqs AND push_bit i 1 \<noteq> 0) [0..<16] = filter (\<lambda>n. \<not> bit irqs n) [0..<16]"
    by (intro filter_cong) auto
  then show ?thesis using assms by (simp add: irq_setmask_8259A_def outs_board pic_consts del: outs.simps)
qed

text \<open>The vectors of two controllers that are set up, with the mask word \<open>irqs\<close>.\<close>

definition pics_ready :: "u16 \<Rightarrow> board \<Rightarrow> bool" where
  "pics_ready irqs b \<longleftrightarrow>
     master b = \<lparr>imr = ucast irqs, icw = 0, icw_four = True, vbase = 32, cascade = 4, pic_mode = 3\<rparr>
   \<and> slave b = \<lparr>imr = ucast (drop_bit 8 irqs), icw = 0, icw_four = True, vbase = 40, cascade = 2, pic_mode = 1\<rparr>"

lemma setmask_ready:
  "pics_ready m b \<Longrightarrow> pics_ready irqs (board_out 0xA1 (ucast (drop_bit 8 irqs)) (board_out 0x21 (ucast irqs) b))"
  by (simp add: pics_ready_def board_out_def i8259_out_def)

lemma bit_four: "bit (4 :: int) n \<longleftrightarrow> n = 2"
  using bit_exp_iff [of 2 n, where 'a = int] by auto

lemma irq_vector_ready:
  assumes "pics_ready irqs b" and "n < 16"
  shows "irq_vector b n =
    (if bit irqs n \<or> n = IRQ_SLAVE \<or> 8 \<le> n \<and> bit irqs IRQ_SLAVE then None else Some (32 + n))"
  using assms by (auto simp: irq_vector_def pics_ready_def Let_def bit_simps bit_four IRQ_SLAVE_def)

lemma pic_init_run:
  assumes "board_port P st" and "irq_mask_8259A p \<noteq> 0xFFFF"
  shows "\<exists>d'. pic_init P (p, d) =
      (Some (filter (\<lambda>n. \<not> bit (irq_mask_8259A p) n) [0..<16]), p\<lparr>didinit := True\<rparr>, d')
    \<and> pics_ready (irq_mask_8259A p) (st d')"
proof -
  let ?d1 = "outs P pic_words d" let ?p1 = "p\<lparr>didinit := True\<rparr>"
  have r: "pics_ready 0 (st ?d1)"
    unfolding outs_board [OF assms(1)] pic_words_board by (simp add: pics_ready_def)
  obtain d' where d': "irq_setmask_8259A P (irq_mask_8259A p) (?p1, ?d1) =
      (Some (filter (\<lambda>n. \<not> bit (irq_mask_8259A p) n) [0..<16]), ?p1\<lparr>irq_mask_8259A := irq_mask_8259A p\<rparr>, d')"
      "st d' = board_out 0xA1 (ucast (drop_bit 8 (irq_mask_8259A p))) (board_out 0x21 (ucast (irq_mask_8259A p)) (st ?d1))"
    using setmask_board [OF assms(1), of ?p1 "irq_mask_8259A p" ?d1] by auto
  have "pics_ready (irq_mask_8259A p) (st d')" unfolding d'(2) by (rule setmask_ready [OF r])
  moreover have "?p1\<lparr>irq_mask_8259A := irq_mask_8259A p\<rparr> = ?p1" by simp
  ultimately show ?thesis using d'(1) assms(2) by (simp add: pic_init_def Let_def)
qed

lemma kclock_init_ok:
  assumes "board_port P st" and "didinit p" and "pics_ready (irq_mask_8259A p) (st d)"
  shows "\<exists>out p' d'. kclock_init P (p, d) = (out, p', d')
    \<and> pit_reload (st d') = 11932 \<and> pit_mode (st d') = 0x34
    \<and> (\<forall>n. 0 < n \<and> n < 16 \<longrightarrow> irq_vector (st d') n = irq_vector (st d) n)
    \<and> irq_vector (st d') 0 = Some 32"
proof -
  let ?m = "irq_mask_8259A p AND NOT 1"
  let ?t = "[(TIMER_MODE, TIMER_SEL0 OR TIMER_RATEGEN OR TIMER_16BIT),
    (IO_TIMER1, of_nat (TIMER_DIV 100 mod 256)), (IO_TIMER1, of_nat (TIMER_DIV 100 div 256))] :: (u16 \<times> u8) list"
  let ?d1 = "outs P ?t d"
  have "TIMER_DIV 100 = 11932" by (simp add: TIMER_DIV_def TIMER_FREQ_def)
  then have d1: "st ?d1 = (st d)\<lparr>pit_mode := 0x34, pit_low := None, pit_reload := 11932\<rparr>"
    unfolding outs_board [OF assms(1)] by (simp add: timer_consts board_out_def pit_out_def)
  obtain d' where r: "kclock_init P (p, d) = (Some (filter (\<lambda>n. \<not> bit ?m n) [0..<16]), p\<lparr>irq_mask_8259A := ?m\<rparr>, d')"
      "st d' = board_out 0xA1 (ucast (drop_bit 8 ?m)) (board_out 0x21 (ucast ?m) (st ?d1))"
    using setmask_board [OF assms(1,2), of ?m ?d1] by (auto simp: kclock_init_def)
  have r1: "pics_ready (irq_mask_8259A p) (st ?d1)" using assms(3) unfolding pics_ready_def d1 by simp
  have rd: "pics_ready ?m (st d')" unfolding r(2) by (rule setmask_ready [OF r1])
  have pit: "pit_reload (st d') = 11932" "pit_mode (st d') = 0x34"
    unfolding r(2) d1 by (simp_all add: board_out_def)
  have b: "bit ?m n \<longleftrightarrow> bit (irq_mask_8259A p) n" if "0 < n" "n < 16" for n
    using that by (simp add: bit_simps)
  have "irq_vector (st d') n = irq_vector (st d) n" if "0 < n" "n < 16" for n
    using irq_vector_ready [OF rd that(2)] irq_vector_ready [OF assms(3) that(2)] b [OF that] b [of IRQ_SLAVE]
    by (simp add: IRQ_SLAVE_def)
  moreover have "irq_vector (st d') 0 = Some 32"
    using irq_vector_ready [OF rd, of 0] by (simp add: IRQ_SLAVE_def bit_simps)
  ultimately show ?thesis using r(1) pit by blast
qed

text \<open>A board right after reset, with nothing set up.\<close>

definition demo_chip :: i8259 where
  "demo_chip = \<lparr>imr = 0, icw = 0, icw_four = False, vbase = 8, cascade = 0, pic_mode = 0\<rparr>"

definition demo_board :: board where
  "demo_board = \<lparr>master = demo_chip, slave = demo_chip, pit_mode = 0, pit_low = Some 7, pit_reload = 0,
     rtc_index = 0, rtc_regs = (\<lambda>r. r + 1)\<rparr>"

definition board_ports :: "board ports" where
  "board_ports = \<lparr>
     p_inb = (\<lambda>port b. (if port = 0x71 then rtc_regs b (rtc_index b) else 0xFF, b)),
     p_outb = board_out, p_inl = (\<lambda>port b. (0, b)), p_outl = (\<lambda>port v b. b), p_outw = (\<lambda>port v b. b)\<rparr>"

lemma board_ports_ok: "board_port board_ports id"
  by (simp add: board_port_def board_ports_def)

section \<open>Properties\<close>

text \<open>
  pic_init. Whatever state the two interrupt controllers were in, afterwards interrupt line \<open>n\<close> of
  the sixteen reaches the processor at vector \<open>IRQ_OFFSET + n\<close> when its bit of the mask is clear
  (and, behind the second controller, when the line between the two is not masked), and not at all
  otherwise; the lines printed are those whose bit is clear.
\<close>

theorem pic_init_vectors:
  assumes "board_port P st" and "irq_mask_8259A p \<noteq> 0xFFFF"
  shows "\<exists>d'. pic_init P (p, d) =
      (Some (filter (\<lambda>n. \<not> bit (irq_mask_8259A p) n) [0..<16]), p\<lparr>didinit := True\<rparr>, d')
    \<and> (\<forall>n < 16. irq_vector (st d') n =
         (if bit (irq_mask_8259A p) n \<or> n = IRQ_SLAVE \<or> 8 \<le> n \<and> bit (irq_mask_8259A p) IRQ_SLAVE then None
          else Some (unat IRQ_OFFSET + n)))"
proof -
  obtain d' where d': "pic_init P (p, d) =
      (Some (filter (\<lambda>n. \<not> bit (irq_mask_8259A p) n) [0..<16]), p\<lparr>didinit := True\<rparr>, d')"
    and r: "pics_ready (irq_mask_8259A p) (st d')"
    using pic_init_run [OF assms] by blast
  with irq_vector_ready [OF r] show ?thesis by (auto simp: IRQ_OFFSET_def)
qed

theorem pic_init_vectors_witness:
  "\<exists>d'. pic_init board_ports (pic_start, demo_board) = (Some [2], pic_start\<lparr>didinit := True\<rparr>, d')
    \<and> irq_vector d' 2 = None \<and> irq_vector d' 14 = None"
proof -
  have m: "irq_mask_8259A pic_start = 0xFFFB" by (simp add: pic_start_def IRQ_SLAVE_def)
  then have "irq_mask_8259A pic_start \<noteq> 0xFFFF" by simp
  from pic_init_vectors [OF board_ports_ok this, of demo_board] obtain d' where
    r: "pic_init board_ports (pic_start, demo_board)
      = (Some (filter (\<lambda>n. \<not> bit (0xFFFB :: u16) n) [0..<16]), pic_start\<lparr>didinit := True\<rparr>, d')"
    and v: "\<forall>n < 16. irq_vector d' n = (if bit (0xFFFB :: u16) n \<or> n = IRQ_SLAVE \<or> 8 \<le> n \<and> bit (0xFFFB :: u16) IRQ_SLAVE
      then None else Some (unat IRQ_OFFSET + n))"
    unfolding m id_apply by blast
  have "filter (\<lambda>n. \<not> bit (0xFFFB :: u16) n) [0..<16] = [2]" by (simp add: upt_rec)
  with r v [rule_format, of 2] v [rule_format, of 14] show ?thesis by (simp add: IRQ_SLAVE_def)
qed

text \<open>
  With every line masked pic_init does not write the mask again, and the first command word has
  cleared the mask register of each controller: every line is then enabled.
\<close>

theorem pic_init_unmasks:
  assumes "board_port P st" and "irq_mask_8259A p = 0xFFFF" and "n < 16" and "n \<noteq> IRQ_SLAVE"
  shows "irq_vector (st (snd (snd (pic_init P (p, d))))) n = Some (unat IRQ_OFFSET + n)"
proof -
  have "pics_ready 0 (st (outs P pic_words d))"
    unfolding outs_board [OF assms(1)] pic_words_board by (simp add: pics_ready_def)
  from irq_vector_ready [OF this assms(3)] assms(2,4) show ?thesis
    by (simp add: pic_init_def Let_def IRQ_OFFSET_def)
qed

theorem pic_init_unmasks_witness:
  "irq_vector (snd (snd (pic_init board_ports (\<lparr>irq_mask_8259A = 0xFFFF, didinit = False\<rparr>, demo_board)))) 14
    = Some 46"
  using pic_init_unmasks [OF board_ports_ok, of "\<lparr>irq_mask_8259A = 0xFFFF, didinit = False\<rparr>" 14 demo_board]
  by (simp add: IRQ_SLAVE_def IRQ_OFFSET_def)

text \<open>The divisor is the one closest to the frequency asked for.\<close>

theorem TIMER_DIV_closest:
  assumes "0 < x"
  shows "2 * \<bar>int TIMER_FREQ - int (x * TIMER_DIV x)\<bar> \<le> int x"
proof -
  let ?m = "TIMER_FREQ + x div 2"
  have "?m = x * TIMER_DIV x + ?m mod x" unfolding TIMER_DIV_def by simp
  then have "int TIMER_FREQ - int (x * TIMER_DIV x) = int (?m mod x) - int (x div 2)" by linarith
  moreover have "2 * \<bar>int r - int k\<bar> \<le> int x" if "r < x" "2 * k \<le> x" "x \<le> 2 * k + 1" for r k
    using that by (simp add: abs_if)
  moreover have "?m mod x < x" "2 * (x div 2) \<le> x" "x \<le> 2 * (x div 2) + 1" using assms by auto
  ultimately show ?thesis by metis
qed

theorem TIMER_DIV_closest_witness: "2 * \<bar>int TIMER_FREQ - int (100 * TIMER_DIV 100)\<bar> \<le> 100"
  using TIMER_DIV_closest [of 100] by simp

text \<open>
  C16: kclock_init, after pic_init. The counter of the timer is loaded with 11932 (1193182 Hz
  divided by it is 100 Hz to within one in 10000) and reloads itself, its interrupt and
  no other changes: it is now enabled, and the vector at which it arrives is the one for which
  trap_dispatch runs the scheduler.
\<close>

theorem kclock_init_preempts:
  assumes "board_port P st" and "didinit p" and "pics_ready (irq_mask_8259A p) (st d)"
  shows "\<exists>out p' d'. kclock_init P (p, d) = (out, p', d')
    \<and> pit_reload (st d') = 11932 \<and> pit_mode (st d') = 0x34
    \<and> (\<forall>n. 0 < n \<and> n < 16 \<longrightarrow> irq_vector (st d') n = irq_vector (st d) n)
    \<and> (\<exists>v. irq_vector (st d') 0 = Some v
         \<and> (\<forall>hw tfp s. tf_trapno (tf_get tfp s) = of_nat v \<longrightarrow> trap_dispatch hw tfp s = sched_yield s))"
proof -
  have "tf_trapno (tf_get tfp s) = of_nat 32 \<longrightarrow> trap_dispatch hw tfp s = sched_yield s" for hw tfp s
    by (simp add: trap_dispatch_def Let_def IRQ_OFFSET_def IRQ_SPURIOUS_def IRQ_TIMER_def)
  with kclock_init_ok [OF assms] show ?thesis by blast
qed

theorem kclock_init_preempts_witness:
  "\<exists>d1 out p' d'. pic_init board_ports (pic_start, demo_board) = (Some [2], pic_start\<lparr>didinit := True\<rparr>, d1)
    \<and> kclock_init board_ports (pic_start\<lparr>didinit := True\<rparr>, d1) = (out, p', d')
    \<and> pit_reload d' = 11932 \<and> irq_vector d' 0 \<noteq> None"
proof -
  let ?p = "pic_start\<lparr>didinit := True\<rparr>"
  have i: "irq_mask_8259A pic_start = 0xFFFB" by (simp add: pic_start_def IRQ_SLAVE_def)
  then have n: "irq_mask_8259A pic_start \<noteq> 0xFFFF" by simp
  have f: "filter (\<lambda>n. \<not> bit (0xFFFB :: u16) n) [0..<16] = [2]" by (simp add: upt_rec)
  from pic_init_run [OF board_ports_ok n, of demo_board] obtain d1 where
    d1: "pic_init board_ports (pic_start, demo_board) = (Some [2], ?p, d1)" "pics_ready (irq_mask_8259A ?p) (id d1)"
    unfolding i f by (auto simp: i)
  from kclock_init_preempts [OF board_ports_ok _ d1(2)] d1(1) show ?thesis by fastforce
qed

text \<open>
  The CMOS memory: a read returns the register and leaves all of them as they are, whatever was
  read before, so that the parameter \<open>cmos\<close> of nvram_read is a function; what is written is
  read back.
\<close>

theorem mc146818_correct:
  assumes "board_port P st"
  shows "fst (mc146818_read P r d) = ucast (rtc_regs (st d) (ucast r AND 0x7F))"
    and "rtc_regs (st (snd (mc146818_read P r d))) = rtc_regs (st d)"
    and "fst (mc146818_read P r (mc146818_write P r v d)) = ucast (ucast v :: u8)"
  using assms
  by (simp_all add: mc146818_read_def mc146818_write_def outb_def inb_def IO_RTC_def board_port_def
      board_out_def split_def Let_def)

theorem mc146818_correct_witness: "fst (mc146818_read board_ports 0x15 demo_board) = 0x16"
  using mc146818_correct(1) [OF board_ports_ok, of "0x15" demo_board] by (simp add: demo_board_def)

end
