(* ===== verification/Console_Ports.thy ===== *)
theory Console_Ports
  imports Pic Console_Spec
begin

text \<open>
  kern/console.c at the level of the ports: the serial and parallel ports, the cursor registers
  of the display, the status and data registers of the keyboard controller, and the
  initialisation of all of them. Console models the same functions on the bytes that come and go;
  the properties here show that what the ports do is exactly that, for devices that behave as
  documented.
\<close>

unbundle bit_operations_syntax

section \<open>Output\<close>

definition delay :: "'d ports \<Rightarrow> 'd \<Rightarrow> 'd" where
  "delay P d = snd (inb P 0x84 (snd (inb P 0x84 (snd (inb P 0x84 (snd (inb P 0x84 d)))))))"

text \<open>
  The wait of serial_putc and lpt_putc for a bit of a status register: \<open>n\<close> is what is left of the
  12800 rounds; the register is read once more at the end.
\<close>

fun wait_bit :: "'d ports \<Rightarrow> u16 \<Rightarrow> u8 \<Rightarrow> nat \<Rightarrow> 'd \<Rightarrow> 'd" where
  "wait_bit P port b 0 d = snd (inb P port d)"
| "wait_bit P port b (Suc n) d =
     (let (v, d) = inb P port d in if v AND b = 0 then wait_bit P port b n (delay P d) else d)"

definition COM1 :: u16 where "COM1 = 0x3F8"
definition COM_RX :: u16 where "COM_RX = 0"
definition COM_TX :: u16 where "COM_TX = 0"
definition COM_DLL :: u16 where "COM_DLL = 0"
definition COM_DLM :: u16 where "COM_DLM = 1"
definition COM_IER :: u16 where "COM_IER = 1"
definition COM_IER_RDI :: u8 where "COM_IER_RDI = 1"
definition COM_IIR :: u16 where "COM_IIR = 2"
definition COM_FCR :: u16 where "COM_FCR = 2"
definition COM_LCR :: u16 where "COM_LCR = 3"
definition COM_LCR_DLAB :: u8 where "COM_LCR_DLAB = 0x80"
definition COM_LCR_WLEN8 :: u8 where "COM_LCR_WLEN8 = 3"
definition COM_MCR :: u16 where "COM_MCR = 4"
definition COM_LSR :: u16 where "COM_LSR = 5"
definition COM_LSR_DATA :: u8 where "COM_LSR_DATA = 1"
definition COM_LSR_TXRDY :: u8 where "COM_LSR_TXRDY = 0x20"

lemmas com_consts = COM1_def COM_RX_def COM_TX_def COM_DLL_def COM_DLM_def COM_IER_def COM_IER_RDI_def
  COM_IIR_def COM_FCR_def COM_LCR_def COM_LCR_DLAB_def COM_LCR_WLEN8_def COM_MCR_def COM_LSR_def
  COM_LSR_DATA_def COM_LSR_TXRDY_def

definition serial_putc :: "'d ports \<Rightarrow> u32 \<Rightarrow> 'd \<Rightarrow> 'd" where
  "serial_putc P c d = outb P (COM1 + COM_TX) (ucast c) (wait_bit P (COM1 + COM_LSR) COM_LSR_TXRDY 12800 d)"

definition lpt_putc :: "'d ports \<Rightarrow> u32 \<Rightarrow> 'd \<Rightarrow> 'd" where
  "lpt_putc P c d =
     outs P [(0x378 + 0, ucast c), (0x378 + 2, 0x08 OR 0x04 OR 0x01), (0x378 + 2, 0x08)]
       (wait_bit P (0x378 + 1) 0x80 12800 d)"

text \<open>The end of cga_putc: the cursor registers of the display controller.\<close>

definition cga_cursor :: "'d ports \<Rightarrow> u16 \<Rightarrow> u16 \<Rightarrow> 'd \<Rightarrow> 'd" where
  "cga_cursor P addr pos d =
     outs P [(addr, 14), (addr + 1, ucast (drop_bit 8 pos)), (addr, 15), (addr + 1, ucast pos)] d"

text \<open>
  cga_putc and cons_putc with the devices: the display itself is \<open>cga_putc\<close> of Console, which
  calls its argument for the blanks of a tab only; these go to all devices.
\<close>

definition cga_putc_io ::
  "'d ports \<Rightarrow> u16 \<Rightarrow> (u32 \<Rightarrow> crt \<times> 'd \<Rightarrow> crt \<times> 'd) \<Rightarrow> u32 \<Rightarrow> u32 \<Rightarrow> u32 \<Rightarrow> crt \<times> 'd \<Rightarrow> crt \<times> 'd" where
  "cga_putc_io P addr putc color background c s =
     (let (t, d) =
        (if cga_attr color background c AND 0xFF = 9
         then (let (t, d) = (putc 32 ^^ 5) s in (crt_scroll t, d))
         else (cga_putc (\<lambda>_ t. t) color background c (fst s), snd s))
      in (t, cga_cursor P addr (crt_pos t) d))"

fun cons_putc_io_fuel :: "'d ports \<Rightarrow> u16 \<Rightarrow> nat \<Rightarrow> u32 \<Rightarrow> u32 \<Rightarrow> u32 \<Rightarrow> crt \<times> 'd \<Rightarrow> crt \<times> 'd" where
  "cons_putc_io_fuel P addr 0 color background c s = s"
| "cons_putc_io_fuel P addr (Suc n) color background c s =
     cga_putc_io P addr (cons_putc_io_fuel P addr n color background) color background c
       (fst s, lpt_putc P c (serial_putc P c (snd s)))"

definition cons_putc_io :: "'d ports \<Rightarrow> u16 \<Rightarrow> u32 \<Rightarrow> u32 \<Rightarrow> u32 \<Rightarrow> crt \<times> 'd \<Rightarrow> crt \<times> 'd" where
  "cons_putc_io P addr = cons_putc_io_fuel P addr 2"

section \<open>Input\<close>

definition KBSTATP :: u16 where "KBSTATP = 0x64"
definition KBS_DIB :: u8 where "KBS_DIB = 1"
definition KBDATAP :: u16 where "KBDATAP = 0x60"

lemmas kb_consts = KBSTATP_def KBS_DIB_def KBDATAP_def

definition serial_proc_data_io :: "'d ports \<Rightarrow> 'd \<Rightarrow> int \<times> 'd" where
  "serial_proc_data_io P d =
     (let (v, d) = inb P (COM1 + COM_LSR) d in
      if v AND COM_LSR_DATA = 0 then (-1, d)
      else let (x, d) = inb P (COM1 + COM_RX) d in (uint x, d))"

text \<open>After the data byte is read, \<open>kbd_proc_data\<close> of Console; Ctrl-Alt-Del writes a port.\<close>

definition kbd_proc_data_io :: "'d ports \<Rightarrow> kbd \<times> 'd \<Rightarrow> int \<times> kbd \<times> 'd" where
  "kbd_proc_data_io P s =
     (case s of (k, d) \<Rightarrow>
        let (v, d) = inb P KBSTATP d in
        if v AND KBS_DIB = 0 then (-1, k, d)
        else
          let (x, d) = inb P KBDATAP d;
              (c, k1) = kbd_proc_data x (k\<lparr>kbd_reboot := False\<rparr>)
          in (c, k1\<lparr>kbd_reboot := kbd_reboot k \<or> kbd_reboot k1\<rparr>,
              if kbd_reboot k1 then outb P 0x92 0x3 d else d))"

partial_function (option) cons_intr_io :: "('s \<Rightarrow> int \<times> 's) \<Rightarrow> 's \<Rightarrow> consbuf \<Rightarrow> ('s \<times> consbuf) option" where
  "cons_intr_io proc s b =
     (if fst (proc s) = -1 then Some (snd (proc s), b)
      else if fst (proc s) = 0 then cons_intr_io proc (snd (proc s)) b
      else cons_intr_io proc (snd (proc s)) (cons_put (word_of_int (fst (proc s))) b))"

definition serial_intr_io :: "'d ports \<Rightarrow> bool \<Rightarrow> consbuf \<times> 'd \<Rightarrow> (consbuf \<times> 'd) option" where
  "serial_intr_io P serial_exists s =
     (if serial_exists then do {
        (d, b) \<leftarrow> cons_intr_io (serial_proc_data_io P) (snd s) (fst s);
        Some (b, d)
      }
      else Some s)"

definition kbd_intr_io :: "'d ports \<Rightarrow> kbd \<times> consbuf \<times> 'd \<Rightarrow> (kbd \<times> consbuf \<times> 'd) option" where
  "kbd_intr_io P s =
     (case s of (k, b, d) \<Rightarrow> do {
        ((k, d), b) \<leftarrow> cons_intr_io (kbd_proc_data_io P) (k, d) b;
        Some (k, b, d)
      })"

definition cons_getc_io ::
  "'d ports \<Rightarrow> bool \<Rightarrow> kbd \<times> consbuf \<times> 'd \<Rightarrow> (u8 \<times> kbd \<times> consbuf \<times> 'd) option" where
  "cons_getc_io P serial_exists s =
     (case s of (k, b, d) \<Rightarrow> do {
        (b, d) \<leftarrow> serial_intr_io P serial_exists (b, d);
        (k, b, d) \<leftarrow> kbd_intr_io P (k, b, d);
        let (c, b) = cons_get b;
        Some (c, k, b, d)
      })"

partial_function (option) getchar ::
  "'d ports \<Rightarrow> bool \<Rightarrow> kbd \<times> consbuf \<times> 'd \<Rightarrow> (u8 \<times> kbd \<times> consbuf \<times> 'd) option" where
  "getchar P serial_exists s =
     Option.bind (cons_getc_io P serial_exists s)
       (\<lambda>(c, s1). if c = 0 then getchar P serial_exists s1 else Some (c, s1))"

section \<open>Initialisation\<close>

definition serial_init :: "'d ports \<Rightarrow> 'd \<Rightarrow> bool \<times> 'd" where
  "serial_init P d =
     (let d = outs P [(COM1 + COM_FCR, 0), (COM1 + COM_LCR, COM_LCR_DLAB),
                      (COM1 + COM_DLL, of_nat (115200 div 9600)), (COM1 + COM_DLM, 0),
                      (COM1 + COM_LCR, COM_LCR_WLEN8 AND NOT COM_LCR_DLAB), (COM1 + COM_MCR, 0),
                      (COM1 + COM_IER, COM_IER_RDI)] d;
          (v, d) = inb P (COM1 + COM_LSR) d
      in (v \<noteq> 0xFF, snd (inb P (COM1 + COM_RX) (snd (inb P (COM1 + COM_IIR) d)))))"

definition MONO_BASE :: u16 where "MONO_BASE = 0x3B4"
definition MONO_BUF :: u32 where "MONO_BUF = 0xB0000"
definition CGA_BASE :: u16 where "CGA_BASE = 0x3D4"
definition CGA_BUF :: u32 where "CGA_BUF = 0xB8000"

lemmas cga_consts = MONO_BASE_def MONO_BUF_def CGA_BASE_def CGA_BUF_def

text \<open>
  \<open>peek\<close> and \<open>poke\<close> read and write the first word of the colour display. The result is the buffer,
  the port of the controller and the position of the cursor.
\<close>

definition cga_init ::
  "'d ports \<Rightarrow> ('d \<Rightarrow> u16) \<Rightarrow> (u16 \<Rightarrow> 'd \<Rightarrow> 'd) \<Rightarrow> 'd \<Rightarrow> u32 \<times> u16 \<times> u16 \<times> 'd" where
  "cga_init P peek poke d =
     (let was = peek d;
          d = poke 0xA55A d;
          (cp, addr, d) = (if peek d \<noteq> 0xA55A then (KERNBASE + MONO_BUF, MONO_BASE, d)
                           else (KERNBASE + CGA_BUF, CGA_BASE, poke was d));
          (hi, d) = inb P (addr + 1) (outb P addr 14 d);
          (lo, d) = inb P (addr + 1) (outb P addr 15 d)
      in (cp, addr, push_bit 8 (ucast hi) OR ucast lo, d))"

definition kbd_init :: "'d ports \<Rightarrow> pic \<times> kbd \<times> consbuf \<times> 'd \<Rightarrow> (pic \<times> kbd \<times> consbuf \<times> 'd) option" where
  "kbd_init P s =
     (case s of (p, k, b, d) \<Rightarrow> do {
        (k, b, d) \<leftarrow> kbd_intr_io P (k, b, d);
        let (_, p, d) = irq_setmask_8259A P (irq_mask_8259A p AND NOT (push_bit 1 1)) (p, d);
        Some (p, k, b, d)
      })"

text \<open>The result ends with \<open>serial_exists\<close>, which also says whether the message is printed.\<close>

definition cons_init ::
  "'d ports \<Rightarrow> ('d \<Rightarrow> u16) \<Rightarrow> (u16 \<Rightarrow> 'd \<Rightarrow> 'd) \<Rightarrow> pic \<times> kbd \<times> consbuf \<times> 'd
     \<Rightarrow> ((u32 \<times> u16 \<times> u16) \<times> bool \<times> pic \<times> kbd \<times> consbuf \<times> 'd) option" where
  "cons_init P peek poke s =
     (case s of (p, k, b, d) \<Rightarrow> do {
        let (cp, addr, pos, d) = cga_init P peek poke d;
        (p, k, b, d) \<leftarrow> kbd_init P (p, k, b, d);
        let (ex, d) = serial_init P d;
        Some ((cp, addr, pos), ex, p, k, b, d)
      })"

section \<open>The devices, as documented\<close>

text \<open>
  The serial port (whose data register is the divisor when bit 7 of the line control is set), the
  parallel port (which prints its data when bit 0 of the control register rises), and the
  display controller at port \<open>addr\<close>, with an index and its registers. The serial and the parallel
  port are busy for a while after each byte: \<open>dv_wait\<close> and \<open>lp_wait\<close> count down with every read of
  their status registers, whose ready bits (bit 5 of 0x3FD, bit 7 of 0x379) are set when the count is 0, and
  what they are given while they are busy is lost. The times \<open>dv_time n\<close> and \<open>lp_time n\<close> that the
  n-th byte takes are arbitrary.
\<close>

record condev =
  dv_lcr :: u8
  dv_divisor :: u8
  dv_tx :: "u8 list"
  dv_wait :: nat
  dv_time :: "nat \<Rightarrow> nat"
  dv_lptdata :: u8
  dv_lptctl :: u8
  dv_printed :: "u8 list"
  lp_wait :: nat
  lp_time :: "nat \<Rightarrow> nat"
  dv_index :: u8
  dv_crt :: "u8 \<Rightarrow> u8"

definition send_byte :: "u8 \<Rightarrow> condev \<Rightarrow> condev" where
  "send_byte v c =
     (if dv_wait c = 0 then c\<lparr>dv_tx := dv_tx c @ [v], dv_wait := dv_time c (length (dv_tx c))\<rparr> else c)"

definition strobe :: "condev \<Rightarrow> condev" where
  "strobe c =
     (if lp_wait c = 0 then c\<lparr>dv_printed := dv_printed c @ [dv_lptdata c], lp_wait := lp_time c (length (dv_printed c))\<rparr>
      else c)"

definition condev_out :: "u16 \<Rightarrow> u16 \<Rightarrow> u8 \<Rightarrow> condev \<Rightarrow> condev" where
  "condev_out addr port v c =
     (if port = 0x3F8 then if bit (dv_lcr c) 7 then c\<lparr>dv_divisor := v\<rparr> else send_byte v c
      else if port = 0x3FB then c\<lparr>dv_lcr := v\<rparr>
      else if port = 0x378 then c\<lparr>dv_lptdata := v\<rparr>
      else if port = 0x37A then
        (if \<not> bit (dv_lptctl c) 0 \<and> bit v 0 then strobe c else c)\<lparr>dv_lptctl := v\<rparr>
      else if port = addr then c\<lparr>dv_index := v\<rparr>
      else if port = addr + 1 then c\<lparr>dv_crt := (dv_crt c)(dv_index c := v)\<rparr>
      else c)"

definition condev_in :: "u16 \<Rightarrow> condev \<Rightarrow> condev" where
  "condev_in port c =
     (if port = 0x3FD then c\<lparr>dv_wait := dv_wait c - 1\<rparr>
      else if port = 0x379 then c\<lparr>lp_wait := lp_wait c - 1\<rparr>
      else c)"

definition con_port :: "'d ports \<Rightarrow> u16 \<Rightarrow> ('d \<Rightarrow> condev) \<Rightarrow> bool" where
  "con_port P addr st \<longleftrightarrow> (addr = MONO_BASE \<or> addr = CGA_BASE)
   \<and> (\<forall>port v d. st (p_outb P port v d) = condev_out addr port v (st d))
   \<and> (\<forall>port d. st (snd (p_inb P port d)) = condev_in port (st d))
   \<and> (\<forall>d. fst (p_inb P 0x3FD d) AND 0x20 = 0 \<longleftrightarrow> dv_wait (st d) \<noteq> 0)
   \<and> (\<forall>d. fst (p_inb P 0x379 d) AND 0x80 = 0 \<longleftrightarrow> lp_wait (st d) \<noteq> 0)
   \<and> (\<forall>d. fst (p_inb P (addr + 1) d) = dv_crt (st d) (dv_index (st d)))"

lemma con_portD:
  assumes "con_port P addr st"
  shows "addr = MONO_BASE \<or> addr = CGA_BASE" "st (outb P port v d) = condev_out addr port v (st d)"
    "st (snd (inb P port d)) = condev_in port (st d)" "fst (inb P (addr + 1) d) = dv_crt (st d) (dv_index (st d))"
    "fst (inb P 0x3FD d) AND 0x20 = 0 \<longleftrightarrow> dv_wait (st d) \<noteq> 0" "fst (inb P 0x379 d) AND 0x80 = 0 \<longleftrightarrow> lp_wait (st d) \<noteq> 0"
  using assms by (simp_all add: con_port_def outb_def inb_def)

lemma outs_con:
  assumes "con_port P addr st"
  shows "st (outs P xs d) = fold (\<lambda>(port, v). condev_out addr port v) xs (st d)"
  using assms by (induction P xs d rule: outs.induct) (simp_all add: con_portD(2))

section \<open>Output\<close>

lemma delay_con: "con_port P addr st \<Longrightarrow> st (delay P d) = st d"
  by (simp add: delay_def con_portD(3) condev_in_def)

text \<open>A wait of as many rounds as the device is busy at most ends with the device ready.\<close>

lemma wait_serial:
  assumes "con_port P addr st"
  shows "dv_wait (st d) \<le> n \<Longrightarrow> st (wait_bit P 0x3FD 0x20 n d) = (st d)\<lparr>dv_wait := 0\<rparr>"
proof (induction n arbitrary: d)
  case (Suc n)
  then have "dv_wait (st (delay P (snd (inb P 0x3FD d)))) \<le> n"
    by (simp add: delay_con [OF assms] con_portD(3) [OF assms] condev_in_def)
  from Suc.IH [OF this] show ?case
    by (simp add: Let_def split_def con_portD(3,5) [OF assms] delay_con [OF assms] condev_in_def)
qed (simp add: con_portD(3) [OF assms] condev_in_def)

lemma wait_lpt:
  assumes "con_port P addr st"
  shows "lp_wait (st d) \<le> n \<Longrightarrow> st (wait_bit P 0x379 0x80 n d) = (st d)\<lparr>lp_wait := 0\<rparr>"
proof (induction n arbitrary: d)
  case (Suc n)
  then have "lp_wait (st (delay P (snd (inb P 0x379 d)))) \<le> n"
    by (simp add: delay_con [OF assms] con_portD(3) [OF assms] condev_in_def)
  from Suc.IH [OF this] show ?case
    by (simp add: Let_def split_def con_portD(3,6) [OF assms] delay_con [OF assms] condev_in_def)
qed (simp add: con_portD(3) [OF assms] condev_in_def)

text \<open>
  The line is in data mode, the strobe is low, and neither port stays busy for more than the 12800
  rounds of the drivers; every operation keeps that.
\<close>

definition con_ready :: "condev \<Rightarrow> bool" where
  "con_ready c \<longleftrightarrow> \<not> bit (dv_lcr c) 7 \<and> \<not> bit (dv_lptctl c) 0
     \<and> dv_wait c \<le> 12800 \<and> lp_wait c \<le> 12800 \<and> (\<forall>n. dv_time c n \<le> 12800 \<and> lp_time c n \<le> 12800)"

lemma serial_putc_con:
  assumes "con_port P addr st" and "con_ready (st d)"
  shows "st (serial_putc P c d) = (st d)\<lparr>dv_tx := dv_tx (st d) @ [ucast c],
    dv_wait := dv_time (st d) (length (dv_tx (st d)))\<rparr>"
  using assms wait_serial [OF assms(1), of d 12800]
  by (simp add: serial_putc_def con_portD(2) com_consts condev_out_def send_byte_def con_ready_def)

lemma lpt_putc_con:
  assumes "con_port P addr st" and "con_ready (st d)"
  shows "st (lpt_putc P c d) = (st d)\<lparr>dv_lptdata := ucast c, dv_printed := dv_printed (st d) @ [ucast c],
    lp_wait := lp_time (st d) (length (dv_printed (st d))), dv_lptctl := 8\<rparr>"
proof -
  have "lp_wait (st d) \<le> 12800" using assms(2) by (simp add: con_ready_def)
  from wait_lpt [OF assms(1) this] have "st (wait_bit P (0x378 + 1) 0x80 12800 d) = (st d)\<lparr>lp_wait := 0\<rparr>" by simp
  with assms(2) show ?thesis
    unfolding lpt_putc_def outs_con [OF assms(1)] by (simp add: condev_out_def strobe_def con_ready_def)
qed

lemma cga_cursor_con:
  assumes "con_port P addr st"
  shows "st (cga_cursor P addr pos d) = (st d)\<lparr>dv_index := 15,
    dv_crt := (dv_crt (st d))(14 := ucast (drop_bit 8 pos), 15 := ucast pos)\<rparr>"
proof -
  note addr = con_portD(1) [OF assms, unfolded cga_consts]
  from addr have i: "condev_out addr addr v c = c\<lparr>dv_index := v\<rparr>" for v c
    by (elim disjE) (simp_all add: condev_out_def)
  have n: "0x3B4 + 1 = (0x3B5 :: u16)" "0x3D4 + 1 = (0x3D5 :: u16)" by simp_all
  from addr have r: "condev_out addr (addr + 1) v c = c\<lparr>dv_crt := (dv_crt c)(dv_index c := v)\<rparr>" for v c
    by (elim disjE) (simp_all only: condev_out_def n, simp_all)
  show ?thesis unfolding cga_cursor_def outs_con [OF assms] by (simp add: i r)
qed

text \<open>The display of Console, with what the devices have got so far.\<close>

definition con_abs :: "crt \<Rightarrow> condev \<Rightarrow> crt" where
  "con_abs t c = t\<lparr>serial_out := dv_tx c, lpt_out := dv_printed c\<rparr>"

lemma crt_scroll_abs: "crt_scroll (con_abs t c) = con_abs (crt_scroll t) c"
  by (cases t) (simp add: con_abs_def crt_scroll_def Let_def cong: if_cong)

lemma cga_putc_abs:
  "cga_attr color background ch AND 0xFF \<noteq> 9 \<Longrightarrow>
   cga_putc putc color background ch (con_abs t c) = con_abs (cga_putc (\<lambda>_ t. t) color background ch t) c"
  by (cases t) (simp add: cga_putc_def Let_def crt_store_def con_abs_def crt_scroll_def cong: if_cong)

lemma port_out_abs:
  "port_out ch (con_abs t c) = con_abs t
     (c\<lparr>dv_tx := dv_tx c @ [ucast ch], dv_wait := w, dv_lptdata := x, dv_printed := dv_printed c @ [ucast ch],
        lp_wait := w', dv_lptctl := y\<rparr>)"
  by (simp add: port_out_def con_abs_def)

definition con_rel :: "('d \<Rightarrow> condev) \<Rightarrow> crt \<Rightarrow> crt \<times> 'd \<Rightarrow> bool" where
  "con_rel st u s \<longleftrightarrow> u = con_abs (fst s) (st (snd s)) \<and> con_ready (st (snd s))"

lemma cons_putc_io_rel:
  assumes A: "con_port P addr st"
  shows "con_rel st u s \<Longrightarrow>
    con_rel st (cons_putc_fuel n color background ch u) (cons_putc_io_fuel P addr n color background ch s)"
proof (induction n arbitrary: u s ch)
  case 0
  then show ?case by simp
next
  case (Suc n)
  obtain t d where s: "s = (t, d)" by fastforce
  let ?putc = "cons_putc_io_fuel P addr n color background"
  let ?d1 = "lpt_putc P ch (serial_putc P ch d)"
  have r: "con_ready (st d)" "u = con_abs t (st d)" using Suc.prems by (simp_all add: con_rel_def s)
  have "con_ready (st (serial_putc P ch d))"
    using r(1) by (simp add: serial_putc_con [OF A r(1)] con_ready_def)
  from lpt_putc_con [OF A this] have d1: "st ?d1 = (st d)\<lparr>dv_tx := dv_tx (st d) @ [ucast ch],
      dv_wait := dv_time (st d) (length (dv_tx (st d))), dv_lptdata := ucast ch,
      dv_printed := dv_printed (st d) @ [ucast ch], lp_wait := lp_time (st d) (length (dv_printed (st d))),
      dv_lptctl := 8\<rparr>"
    by (simp add: serial_putc_con [OF A r(1)])
  have r1: "con_rel st (port_out ch u) (t, ?d1)"
    using r by (simp add: con_rel_def d1 port_out_abs con_ready_def)
  have cur: "con_rel st u' (t', d') \<Longrightarrow> con_rel st u' (t', cga_cursor P addr pos d')" for u' t' d' pos
    by (simp add: con_rel_def cga_cursor_con [OF A] con_abs_def con_ready_def)
  show ?case
  proof (cases "cga_attr color background ch AND 0xFF = 9")
    case True
    have it: "con_rel st ((cons_putc_fuel n color background 32 ^^ k) u') ((?putc 32 ^^ k) s')"
      if "con_rel st u' s'" for k u' s'
      using that by (induction k) (simp_all add: Suc.IH)
    obtain t5 d5 where 5: "(?putc 32 ^^ 5) (t, ?d1) = (t5, d5)" by fastforce
    with it [OF r1, of 5] have "con_rel st (crt_scroll ((cons_putc_fuel n color background 32 ^^ 5) (port_out ch u)))
        (crt_scroll t5, d5)"
      by (simp add: con_rel_def crt_scroll_abs)
    from cur [OF this] True 5 show ?thesis by (simp add: cga_putc_io_def cga_putc_def Let_def s)
  next
    case False
    from r1 have "con_rel st (cga_putc (cons_putc_fuel n color background) color background ch (port_out ch u))
        (cga_putc (\<lambda>_ t. t) color background ch t, ?d1)"
      by (simp add: con_rel_def cga_putc_abs [OF False])
    from cur [OF this] False show ?thesis by (simp add: cga_putc_io_def Let_def s)
  qed
qed

section \<open>Input\<close>

text \<open>
  A device with bytes to read: bit \<open>b\<close> of the status port \<open>sp\<close> is set exactly when \<open>pend\<close> is not
  empty, and the data port \<open>dp\<close> takes the first of them.
\<close>

definition byte_source :: "'d ports \<Rightarrow> u16 \<Rightarrow> u8 \<Rightarrow> u16 \<Rightarrow> ('d \<Rightarrow> u8 list) \<Rightarrow> bool" where
  "byte_source P sp b dp pend \<longleftrightarrow>
     (\<forall>d. (fst (p_inb P sp d) AND b = 0 \<longleftrightarrow> pend d = []) \<and> pend (snd (p_inb P sp d)) = pend d
        \<and> (pend d \<noteq> [] \<longrightarrow> fst (p_inb P dp d) = hd (pend d) \<and> pend (snd (p_inb P dp d)) = tl (pend d)))"

lemma byte_sourceD:
  assumes "byte_source P sp b dp pend"
  shows "fst (inb P sp d) AND b = 0 \<longleftrightarrow> pend d = []" "pend (snd (inb P sp d)) = pend d"
    "pend d = x # xs \<Longrightarrow> fst (inb P dp d) = x" "pend d = x # xs \<Longrightarrow> pend (snd (inb P dp d)) = xs"
  using assms by (auto simp: byte_source_def inb_def)

text \<open>Two bytes sources that do not disturb each other, and the port that restarts the board.\<close>

definition con_sources :: "'d ports \<Rightarrow> ('d \<Rightarrow> u8 list) \<Rightarrow> ('d \<Rightarrow> u8 list) \<Rightarrow> bool" where
  "con_sources P ser kb \<longleftrightarrow>
     byte_source P (COM1 + COM_LSR) COM_LSR_DATA (COM1 + COM_RX) ser
   \<and> byte_source P KBSTATP KBS_DIB KBDATAP kb
   \<and> (\<forall>d. kb (snd (p_inb P (COM1 + COM_LSR) d)) = kb d \<and> kb (snd (p_inb P (COM1 + COM_RX) d)) = kb d
        \<and> ser (snd (p_inb P KBSTATP d)) = ser d \<and> ser (snd (p_inb P KBDATAP d)) = ser d
        \<and> kb (p_outb P 0x92 0x3 d) = kb d \<and> ser (p_outb P 0x92 0x3 d) = ser d)"

lemma con_sourcesD:
  assumes "con_sources P ser kb"
  shows "byte_source P (COM1 + COM_LSR) COM_LSR_DATA (COM1 + COM_RX) ser"
    "byte_source P KBSTATP KBS_DIB KBDATAP kb"
    "kb (snd (inb P (COM1 + COM_LSR) d)) = kb d" "kb (snd (inb P (COM1 + COM_RX) d)) = kb d"
    "ser (snd (inb P KBSTATP d)) = ser d" "ser (snd (inb P KBDATAP d)) = ser d"
    "kb (outb P 0x92 0x3 d) = kb d" "ser (outb P 0x92 0x3 d) = ser d"
  using assms by (simp_all add: con_sources_def inb_def outb_def)

text \<open>The loop of cons_intr stops when the device is empty, whatever the driver makes of a byte.\<close>

lemma cons_intr_io_ok:
  assumes empty: "\<And>s. pend s = [] \<Longrightarrow> fst (proc s) = -1 \<and> rest (snd (proc s)) = rest s \<and> drv (snd (proc s)) = drv s
      \<and> pend (snd (proc s)) = []"
    and data: "\<And>s x xs. pend s = x # xs \<Longrightarrow> fst (proc s) = fst (f x (drv s)) \<and> fst (f x (drv s)) \<noteq> -1
      \<and> drv (snd (proc s)) = snd (f x (drv s)) \<and> pend (snd (proc s)) = xs \<and> rest (snd (proc s)) = rest s"
  shows "\<exists>s'. cons_intr_io proc s b = Some (s', snd (cons_intr f (pend s) (drv s) b))
    \<and> drv s' = fst (cons_intr f (pend s) (drv s) b) \<and> pend s' = [] \<and> rest s' = rest s"
proof (induction "pend s" arbitrary: s b)
  case Nil
  then show ?case using empty [of s] by (subst cons_intr_io.simps) simp
next
  case (Cons x xs)
  note d = data [OF Cons.hyps(2) [symmetric]]
  have "cons_intr f (pend s) (drv s) b =
      cons_intr f xs (snd (f x (drv s))) (if fst (f x (drv s)) = 0 then b else cons_put (word_of_int (fst (f x (drv s)))) b)"
    using d by (simp add: Cons.hyps(2) [symmetric] split_def)
  moreover have "cons_intr_io proc s b = cons_intr_io proc (snd (proc s))
      (if fst (f x (drv s)) = 0 then b else cons_put (word_of_int (fst (f x (drv s)))) b)"
    using d by (subst cons_intr_io.simps) simp
  ultimately show ?case
    using Cons.hyps(1) [of "snd (proc s)" "if fst (f x (drv s)) = 0 then b else cons_put (word_of_int (fst (f x (drv s)))) b"] d
    by simp
qed

lemma uint_not_m1: "uint (x :: u8) \<noteq> -1"
proof -
  have "0 \<le> uint x" by simp
  then show ?thesis by linarith
qed

lemma serial_intr_io_ok:
  assumes A: "con_sources P ser kb"
  shows "\<exists>d'. serial_intr_io P ex (b, d) = Some (serial_intr ex (ser d) b, d') \<and> kb d' = kb d"
proof (cases ex)
  case True
  note D = con_sourcesD [OF A] and S = byte_sourceD [OF con_sourcesD(1) [OF A]]
  have "\<exists>s'. cons_intr_io (serial_proc_data_io P) d b
      = Some (s', snd (cons_intr serial_proc_data (ser d) ((\<lambda>_. ()) d) b))
    \<and> (\<lambda>_. ()) s' = fst (cons_intr serial_proc_data (ser d) ((\<lambda>_. ()) d) b) \<and> ser s' = [] \<and> kb s' = kb d"
    by (rule cons_intr_io_ok)
      (simp_all add: serial_proc_data_io_def serial_proc_data_def Let_def split_def S D(3,4) uint_not_m1)
  with True show ?thesis by (auto simp: serial_intr_io_def serial_intr_def)
qed (simp add: serial_intr_io_def serial_intr_def)

lemma kbd_reboot_part:
  "fst (kbd_proc_data x (k\<lparr>kbd_reboot := False\<rparr>)) = fst (kbd_proc_data x k)"
  "(snd (kbd_proc_data x (k\<lparr>kbd_reboot := False\<rparr>)))
     \<lparr>kbd_reboot := kbd_reboot k \<or> kbd_reboot (snd (kbd_proc_data x (k\<lparr>kbd_reboot := False\<rparr>)))\<rparr>
   = snd (kbd_proc_data x k)"
  by (cases k; simp add: kbd_proc_data_def Let_def)+

lemma kbd_proc_data_not_m1: "fst (kbd_proc_data x k) \<noteq> -1"
proof -
  have "0 \<le> fst (kbd_proc_data x k)" using kbd_byte by blast
  then show ?thesis by linarith
qed

lemma kbd_intr_io_ok:
  assumes A: "con_sources P ser kb"
    and R: "\<And>d. rest (snd (inb P KBSTATP d)) = rest d" "\<And>d. rest (snd (inb P KBDATAP d)) = rest d"
      "\<And>d. rest (outb P 0x92 0x3 d) = rest d"
  shows "\<exists>d'. kbd_intr_io P (k, b, d) = Some (fst (kbd_intr (kb d) k b), snd (kbd_intr (kb d) k b), d')
    \<and> rest d' = rest d"
proof -
  note D = con_sourcesD [OF A] and S = byte_sourceD [OF con_sourcesD(2) [OF A]]
  have io: "kbd_proc_data_io P (k, d) =
      (if kb d = [] then (-1, k, snd (inb P KBSTATP d))
       else let x = hd (kb d); d1 = snd (inb P KBDATAP (snd (inb P KBSTATP d)))
            in (fst (kbd_proc_data x k), snd (kbd_proc_data x k),
                if kbd_reboot (snd (kbd_proc_data x (k\<lparr>kbd_reboot := False\<rparr>))) then outb P 0x92 0x3 d1 else d1))"
    for k d
  proof (cases "kb d")
    case Nil
    then show ?thesis using S(1) [of d] by (simp add: kbd_proc_data_io_def Let_def split_def)
  next
    case (Cons x xs)
    then have "fst (inb P KBDATAP (snd (inb P KBSTATP d))) = x" using S(2,3) by simp
    with Cons S(1) [of d] show ?thesis
      by (simp add: kbd_proc_data_io_def Let_def split_def kbd_reboot_part)
  qed
  have "\<exists>s'. cons_intr_io (kbd_proc_data_io P) (k, d) b
      = Some (s', snd (cons_intr kbd_proc_data ((kb \<circ> snd) (k, d)) (fst (k, d)) b))
    \<and> fst s' = fst (cons_intr kbd_proc_data ((kb \<circ> snd) (k, d)) (fst (k, d)) b) \<and> (kb \<circ> snd) s' = []
    \<and> (rest \<circ> snd) s' = (rest \<circ> snd) (k, d)"
  proof (rule cons_intr_io_ok)
    fix s :: "kbd \<times> 'a" assume "(kb \<circ> snd) s = []"
    then show "fst (kbd_proc_data_io P s) = -1 \<and> (rest \<circ> snd) (snd (kbd_proc_data_io P s)) = (rest \<circ> snd) s \<and> fst (snd (kbd_proc_data_io P s)) = fst s
        \<and> (kb \<circ> snd) (snd (kbd_proc_data_io P s)) = []"
      by (cases s) (simp add: io S(2) R)
  next
    fix s :: "kbd \<times> 'a" and x xs assume "(kb \<circ> snd) s = x # xs"
    then show "fst (kbd_proc_data_io P s) = fst (kbd_proc_data x (fst s)) \<and> fst (kbd_proc_data x (fst s)) \<noteq> -1
        \<and> fst (snd (kbd_proc_data_io P s)) = snd (kbd_proc_data x (fst s))
        \<and> (kb \<circ> snd) (snd (kbd_proc_data_io P s)) = xs
        \<and> (rest \<circ> snd) (snd (kbd_proc_data_io P s)) = (rest \<circ> snd) s"
      by (cases s) (simp add: io S(2,4) D(7) kbd_proc_data_not_m1 Let_def R)
  qed
  then show ?thesis by (auto simp: kbd_intr_io_def kbd_intr_def)
qed

section \<open>Devices that behave as documented\<close>

definition demo_con :: condev where
  "demo_con = \<lparr>dv_lcr = 3, dv_divisor = 12, dv_tx = [], dv_wait = 7, dv_time = (\<lambda>_. 900), dv_lptdata = 0,
     dv_lptctl = 8, dv_printed = [], lp_wait = 0, lp_time = (\<lambda>_. 100), dv_index = 0, dv_crt = (\<lambda>_. 0)\<rparr>"

definition con_ports :: "condev ports" where
  "con_ports = \<lparr>
     p_inb = (\<lambda>port c. (if port = CGA_BASE + 1 then dv_crt c (dv_index c)
         else if port = 0x3FD then if dv_wait c = 0 then 0x20 else 0
         else if port = 0x379 then if lp_wait c = 0 then 0x80 else 0 else 0, condev_in port c)),
     p_outb = condev_out CGA_BASE, p_inl = (\<lambda>port c. (0, c)), p_outl = (\<lambda>port v c. c), p_outw = (\<lambda>port v c. c)\<rparr>"

lemma con_ports_ok: "con_port con_ports CGA_BASE id"
  by (simp add: con_port_def con_ports_def CGA_BASE_def)

text \<open>The bytes pending on the serial line and in the keyboard controller.\<close>

definition src_ports :: "(u8 list \<times> u8 list) ports" where
  "src_ports = \<lparr>
     p_inb = (\<lambda>port (x, y).
       if port = 0x3FD then (if x = [] then 0 else 1, x, y)
       else if port = 0x3F8 then (hd x, tl x, y)
       else if port = 0x64 then (if y = [] then 0 else 1, x, y)
       else if port = 0x60 then (hd y, x, tl y) else (0, x, y)),
     p_outb = (\<lambda>port v s. s), p_inl = (\<lambda>port s. (0, s)), p_outl = (\<lambda>port v s. s), p_outw = (\<lambda>port v s. s)\<rparr>"

lemma src_ports_ok: "con_sources src_ports fst snd"
  by (auto simp: con_sources_def byte_source_def src_ports_def com_consts kb_consts split_def)

section \<open>Properties\<close>

text \<open>
  C17: cons_putc at the ports. On a serial line, a parallel port and a display controller that behave as
  documented, busy after each byte and losing what they are given meanwhile, but never for more than
  the 12800 polls of the drivers, the bytes sent, the bytes printed and the display are those that cons_putc
  of Console describes, none lost and none twice, tabs and scrolling included, the line stays in data mode and
  the strobe low, and the cursor registers hold the position.
\<close>

theorem cons_putc_refines:
  assumes "con_port P addr st" and "con_ready (st d)"
  shows "\<exists>t' d'. cons_putc_io P addr color background ch (t, d) = (t', d')
    \<and> con_abs t' (st d') = cons_putc color background ch (con_abs t (st d))
    \<and> con_ready (st d')
    \<and> push_bit 8 (ucast (dv_crt (st d') 14)) OR ucast (dv_crt (st d') 15) = crt_pos t'"
proof -
  obtain t' d' where r: "cons_putc_io P addr color background ch (t, d) = (t', d')" by fastforce
  have "con_rel st (con_abs t (st d)) (t, d)" using assms(2) by (simp add: con_rel_def)
  from cons_putc_io_rel [OF assms(1) this, of 2 color background ch] r
  have "con_rel st (cons_putc color background ch (con_abs t (st d))) (t', d')"
    by (simp add: cons_putc_io_def cons_putc_def)
  moreover obtain d1 where "d' = cga_cursor P addr (crt_pos t') d1"
    using r by (auto simp: cons_putc_io_def numeral_2_eq_2 cga_putc_io_def Let_def split_def)
  then have "push_bit 8 (ucast (dv_crt (st d') 14)) OR ucast (dv_crt (st d') 15) = crt_pos t'"
    by (simp add: cga_cursor_con [OF assms(1)]) (rule bit_word_eqI, auto simp: bit_simps)
  ultimately show ?thesis using r by (auto simp: con_rel_def)
qed

theorem cons_putc_refines_witness:
  "\<exists>t' d'. cons_putc_io con_ports CGA_BASE 0 0 10 (\<lparr>crt_buf = (\<lambda>_. 0), crt_pos = 81, serial_out = [], lpt_out = []\<rparr>, demo_con)
      = (t', d') \<and> crt_pos t' = 160 \<and> dv_tx d' = [10] \<and> dv_printed d' = [10]"
proof -
  let ?t = "\<lparr>crt_buf = (\<lambda>_. 0), crt_pos = 81, serial_out = [], lpt_out = []\<rparr>"
  have "con_ready (id demo_con)" by (simp add: con_ready_def demo_con_def)
  from cons_putc_refines [OF con_ports_ok this, of 0 0 10 ?t] obtain t' d' where
    r: "cons_putc_io con_ports CGA_BASE 0 0 10 (?t, demo_con) = (t', d')"
    and a: "con_abs t' d' = cons_putc 0 0 10 (con_abs ?t demo_con)" by auto
  have at: "cga_attr 0 0 10 = 0x070A" by (simp add: cga_attr_def)
  have c: "crt_pos (cons_putc 0 0 10 (con_abs ?t demo_con)) = 160"
    "serial_out (cons_putc 0 0 10 (con_abs ?t demo_con)) = [10]"
    "lpt_out (cons_putc 0 0 10 (con_abs ?t demo_con)) = [10]"
    by (subst cons_putc_unfold, simp only: cga_putc_def at Let_def,
        simp add: con_abs_def demo_con_def port_out_def crt_scroll_def crt_consts)+
  have "crt_pos (con_abs t' d') = 160" "serial_out (con_abs t' d') = [10]" "lpt_out (con_abs t' d') = [10]"
    unfolding a by (fact c)+
  with r show ?thesis by (auto simp: con_abs_def)
qed

text \<open>
  cons_getc at the ports. With bytes pending on the serial line and in the keyboard controller, cons_getc
  ends, returns the character, and leaves the state of the keyboard and the input buffer that
  cons_getc of Console computes from these bytes.
\<close>

theorem cons_getc_refines:
  assumes "con_sources P ser kb"
  shows "\<exists>d'. cons_getc_io P ex (k, b, d) = (case cons_getc ex (ser d) (kb d) (k, b) of
    (c, k', b') \<Rightarrow> Some (c, k', b', d'))"
proof -
  obtain d1 where d1: "serial_intr_io P ex (b, d) = Some (serial_intr ex (ser d) b, d1)" "kb d1 = kb d"
    using serial_intr_io_ok [OF assms] by blast
  obtain d2 where "kbd_intr_io P (k, serial_intr ex (ser d) b, d1) =
      Some (fst (kbd_intr (kb d) k (serial_intr ex (ser d) b)), snd (kbd_intr (kb d) k (serial_intr ex (ser d) b)), d2)"
    using kbd_intr_io_ok [OF assms, of "\<lambda>_. ()" k "serial_intr ex (ser d) b" d1] d1(2) by auto
  with d1(1) show ?thesis by (simp add: cons_getc_io_def cons_getc_def Let_def split_def)
qed

theorem cons_getc_refines_witness:
  "\<exists>k' b' d'. cons_getc_io src_ports True
      (\<lparr>kbd_shift = 0, kbd_reboot = False\<rparr>, \<lparr>cons_buf = (\<lambda>_. 0), cons_rpos = 0, cons_wpos = 0\<rparr>, [65, 66], [0x1E])
    = Some (65, k', b', d')"
proof -
  let ?k = "\<lparr>kbd_shift = 0, kbd_reboot = False\<rparr>" and ?b = "\<lparr>cons_buf = (\<lambda>_. 0), cons_rpos = 0, cons_wpos = 0\<rparr>"
  have "fst (cons_getc True [65, 66] [0x1E] (?k, ?b)) = 65"
    by (simp add: cons_getc_def serial_intr_def kbd_intr_def serial_proc_data_def kbd_proc_data_def Let_def
        cons_put_def CONSBUFSIZE_def cons_get_def shiftcode_def togglecode_def charcode_def normalmap_def lookup8_def
        kbd_flags)
  with cons_getc_refines [OF src_ports_ok, of True ?k ?b "([65, 66], [0x1E])"] show ?thesis
    by (auto simp: split_def)
qed

text \<open>
  Initialisation. serial_init sets the line to 9600 baud and data mode, and cga_init finds the
  colour display when its memory keeps what is written, leaves the word it tried as it was, and
  reads the position of the cursor that cga_putc last wrote.
\<close>

theorem serial_init_ready:
  assumes "con_port P addr st"
  shows "dv_divisor (st (snd (serial_init P d))) = 12"
    and "\<not> bit (dv_lcr (st (snd (serial_init P d)))) 7"
    and "dv_tx (st (snd (serial_init P d))) = dv_tx (st d)"
proof -
  have "st (snd (serial_init P d)) = (st d)\<lparr>dv_lcr := 3, dv_divisor := 12, dv_wait := dv_wait (st d) - 1\<rparr>"
    using con_portD(1) [OF assms]
    by (elim disjE) (simp_all add: serial_init_def Let_def split_def con_portD(2,3) [OF assms] com_consts
        condev_out_def condev_in_def cga_consts)
  then show "dv_divisor (st (snd (serial_init P d))) = 12" "\<not> bit (dv_lcr (st (snd (serial_init P d)))) 7"
    "dv_tx (st (snd (serial_init P d))) = dv_tx (st d)" by simp_all
qed

theorem cga_init_cursor:
  assumes A: "con_port P CGA_BASE st" and mem: "\<And>v d. peek (poke v d) = v" "\<And>v d. st (poke v d) = st d"
    and pos: "push_bit 8 (ucast (dv_crt (st d) 14)) OR ucast (dv_crt (st d) 15) = pos"
  shows "fst (cga_init P peek poke d) = KERNBASE + CGA_BUF"
    and "fst (snd (cga_init P peek poke d)) = CGA_BASE"
    and "fst (snd (snd (cga_init P peek poke d))) = pos"
  using con_portD(2-4) [OF A]
  by (simp_all add: cga_init_def Let_def split_def mem condev_out_def condev_in_def cga_consts flip: pos)

end
