(* ===== verification/Kinit.thy ===== *)
theory Kinit
  imports Icode_Spec Console_Ports
begin

text \<open>
  The start of the kernel (i386_init of kern/init.c): from the registers of the devices to the
  first program that runs. The parts are those of the other theories; the messages that are
  printed on the way are left out.
\<close>

unbundle bit_operations_syntax

section \<open>The machine and the initialisation\<close>












section \<open>Devices that behave as documented\<close>






text \<open>The word of the CMOS memory at register \<open>r\<close>.\<close>

definition cmos :: "board \<Rightarrow> u32 \<Rightarrow> u32" where
  "cmos b r = ucast (rtc_regs b (ucast r AND 0x7F))"

lemma cmos_index [simp]: "cmos (b\<lparr>rtc_index := i\<rparr>) = cmos b"
  by (rule ext) (simp add: cmos_def)





section \<open>The first environments\<close>











section \<open>Properties\<close>









end
