(* ===== verification/Ide.thy ===== *)
theory Ide
  imports Ports
begin

text \<open>
  fs/ide.c: the disk driver of the file server, programmed I/O on the IDE controller. The
  buffer of a transfer is an array of 32-bit words with an index into it; \<open>diskno\<close> is an argument.
  A wait for the controller that never ends is \<open>None\<close>, as is a failed \<open>assert\<close>.
\<close>

unbundle bit_operations_syntax

definition IDE_BSY :: u8 where "IDE_BSY = 0x80"
definition IDE_DRDY :: u8 where "IDE_DRDY = 0x40"
definition IDE_DF :: u8 where "IDE_DF = 0x20"
definition IDE_ERR :: u8 where "IDE_ERR = 0x01"

lemmas ide_flags = IDE_BSY_def IDE_DRDY_def IDE_DF_def IDE_ERR_def

definition SECTSIZE :: nat where "SECTSIZE = 512"

text \<open>The loop of ide_wait_ready, with the status it ends on.\<close>

partial_function (option) ide_wait :: "'d ports \<Rightarrow> 'd \<Rightarrow> (u8 \<times> 'd) option" where
  "ide_wait P d =
     (if fst (inb P 0x1F7 d) AND (IDE_BSY OR IDE_DRDY) \<noteq> IDE_DRDY
      then ide_wait P (snd (inb P 0x1F7 d))
      else Some (inb P 0x1F7 d))"

definition ide_wait_ready :: "'d ports \<Rightarrow> bool \<Rightarrow> 'd \<Rightarrow> (int \<times> 'd) option" where
  "ide_wait_ready P check_error d =
     do {
       (r, d1) \<leftarrow> ide_wait P d;
       Some (if check_error \<and> r AND (IDE_DF OR IDE_ERR) \<noteq> 0 then -1 else 0, d1)
     }"

text \<open>The loop of ide_probe_disk1: at most 1000 reads of the status; the count is the result.\<close>

fun probe_loop :: "'d ports \<Rightarrow> nat \<Rightarrow> 'd \<Rightarrow> nat \<times> 'd" where
  "probe_loop P 0 d = (0, d)"
| "probe_loop P (Suc n) d =
     (let (r, d1) = inb P 0x1F7 d in
      if r AND (IDE_BSY OR IDE_DF OR IDE_ERR) \<noteq> 0
      then let (x, d2) = probe_loop P n d1 in (Suc x, d2)
      else (0, d1))"

definition ide_probe_disk1 :: "'d ports \<Rightarrow> 'd \<Rightarrow> (bool \<times> 'd) option" where
  "ide_probe_disk1 P d =
     do {
       (_, d1) \<leftarrow> ide_wait_ready P False d;
       let d2 = outb P 0x1F6 (0xE0 OR push_bit 4 1) d1;
       let (x, d3) = probe_loop P 1000 d2;
       let d4 = outb P 0x1F6 (0xE0 OR push_bit 4 0) d3;
       Some (x < 1000, d4)
     }"

text \<open>The new value of \<open>diskno\<close>; a bad number is a panic.\<close>

definition ide_set_disk :: "int \<Rightarrow> int option" where
  "ide_set_disk d = (if d \<noteq> 0 \<and> d \<noteq> 1 then None else Some d)"

text \<open>The choice of the disk at the beginning of fs_init (fs/fs.c): the second one when it is there.\<close>

definition choose_disk :: "'d ports \<Rightarrow> 'd \<Rightarrow> (int \<times> 'd) option" where
  "choose_disk P d =
     do {
       (present, d1) \<leftarrow> ide_probe_disk1 P d;
       n \<leftarrow> ide_set_disk (if present then 1 else 0);
       Some (n, d1)
     }"

text \<open>The six stores that start a command.\<close>

definition ide_regs :: "int \<Rightarrow> u32 \<Rightarrow> u32 \<Rightarrow> u8 \<Rightarrow> (u16 \<times> u8) list" where
  "ide_regs diskno secno nsecs cmd =
     [(0x1F2, ucast nsecs), (0x1F3, ucast (secno AND 0xFF)),
      (0x1F4, ucast (drop_bit 8 secno AND 0xFF)), (0x1F5, ucast (drop_bit 16 secno AND 0xFF)),
      (0x1F6, 0xE0 OR push_bit 4 (word_of_int diskno AND 1) OR ucast (drop_bit 24 secno AND 0x0F)),
      (0x1F7, cmd)]"

text \<open>\<open>insl(0x1F0, dst, SECTSIZE/4)\<close> and \<open>outsl\<close> on a buffer.\<close>

definition store_at :: "nat \<Rightarrow> u32 list \<Rightarrow> (nat \<Rightarrow> u32) \<Rightarrow> nat \<Rightarrow> u32" where
  "store_at k ws f = (\<lambda>i. if k \<le> i \<and> i < k + length ws then ws ! (i - k) else f i)"

fun read_sectors ::
  "'d ports \<Rightarrow> nat \<Rightarrow> nat \<Rightarrow> (nat \<Rightarrow> u32) \<Rightarrow> 'd \<Rightarrow> (int \<times> (nat \<Rightarrow> u32) \<times> 'd) option" where
  "read_sectors P 0 dst buf d = Some (0, buf, d)"
| "read_sectors P (Suc n) dst buf d =
     do {
       (r, d1) \<leftarrow> ide_wait_ready P True d;
       if r < 0 then Some (r, buf, d1)
       else
         let (ws, d2) = insl P 0x1F0 (SECTSIZE div 4) d1
         in read_sectors P n (dst + SECTSIZE div 4) (store_at dst ws buf) d2
     }"

fun write_sectors ::
  "'d ports \<Rightarrow> nat \<Rightarrow> nat \<Rightarrow> (nat \<Rightarrow> u32) \<Rightarrow> 'd \<Rightarrow> (int \<times> 'd) option" where
  "write_sectors P 0 src buf d = Some (0, d)"
| "write_sectors P (Suc n) src buf d =
     do {
       (r, d1) \<leftarrow> ide_wait_ready P True d;
       if r < 0 then Some (r, d1)
       else
         write_sectors P n (src + SECTSIZE div 4) buf
           (outsl P 0x1F0 (map (\<lambda>i. buf (src + i)) [0..<SECTSIZE div 4]) d1)
     }"

definition ide_read ::
  "'d ports \<Rightarrow> int \<Rightarrow> u32 \<Rightarrow> nat \<Rightarrow> u32 \<Rightarrow> (nat \<Rightarrow> u32) \<Rightarrow> 'd \<Rightarrow> (int \<times> (nat \<Rightarrow> u32) \<times> 'd) option" where
  "ide_read P diskno secno dst nsecs buf d =
     (if \<not> nsecs \<le> 256 then None
      else do {
        (_, d1) \<leftarrow> ide_wait_ready P False d;
        read_sectors P (unat nsecs) dst buf (outs P (ide_regs diskno secno nsecs 0x20) d1)
      })"

definition ide_write ::
  "'d ports \<Rightarrow> int \<Rightarrow> u32 \<Rightarrow> nat \<Rightarrow> u32 \<Rightarrow> (nat \<Rightarrow> u32) \<Rightarrow> 'd \<Rightarrow> (int \<times> 'd) option" where
  "ide_write P diskno secno src nsecs buf d =
     (if \<not> nsecs \<le> 256 then None
      else do {
        (_, d1) \<leftarrow> ide_wait_ready P False d;
        write_sectors P (unat nsecs) src buf (outs P (ide_regs diskno secno nsecs 0x30) d1)
      })"

end
