(* ===== verification/Boot_Loader.thy ===== *)
theory Boot_Loader
  imports Ide Env_Model
begin

text \<open>
  boot/main.c: the boot loader, which reads the kernel from the first disk with programmed I/O
  and jumps to it. Physical memory is an array of bytes. The call of the entry point
  is the result \<open>Jump\<close>; the endless loop behind the label \<open>bad\<close> is the result \<open>Bad\<close>; a wait for
  the disk that never ends is \<open>None\<close>.
\<close>

unbundle bit_operations_syntax

definition ELFHDR :: u32 where "ELFHDR = 0x10000"

datatype boot_result = Jump u32 | Bad

type_synonym pmem = "u32 \<Rightarrow> u8"

text \<open>The words that \<open>insl\<close> stores from \<open>dst\<close> on, low byte first.\<close>

definition store_words :: "u32 \<Rightarrow> u32 list \<Rightarrow> pmem \<Rightarrow> pmem" where
  "store_words dst ws m =
     (\<lambda>a. if unat (a - dst) < 4 * length ws
          then get_byte (unat (a - dst) mod 4) (ws ! (unat (a - dst) div 4)) else m a)"

partial_function (option) waitdisk :: "'d ports \<Rightarrow> 'd \<Rightarrow> 'd option" where
  "waitdisk P d =
     (if fst (inb P 0x1F7 d) AND 0xC0 \<noteq> 0x40 then waitdisk P (snd (inb P 0x1F7 d))
      else Some (snd (inb P 0x1F7 d)))"

definition sect_regs :: "u32 \<Rightarrow> (u16 \<times> u8) list" where
  "sect_regs offset =
     [(0x1F2, 1), (0x1F3, ucast offset), (0x1F4, ucast (drop_bit 8 offset)),
      (0x1F5, ucast (drop_bit 16 offset)), (0x1F6, ucast (drop_bit 24 offset OR 0xE0)), (0x1F7, 0x20)]"

definition readsect :: "'d ports \<Rightarrow> u32 \<Rightarrow> u32 \<Rightarrow> pmem \<Rightarrow> 'd \<Rightarrow> (pmem \<times> 'd) option" where
  "readsect P dst offset m d =
     do {
       d1 \<leftarrow> waitdisk P d;
       d2 \<leftarrow> waitdisk P (outs P (sect_regs offset) d1);
       let (ws, d3) = insl P 0x1F0 (SECTSIZE div 4) d2;
       Some (store_words dst ws m, d3)
     }"

partial_function (option) readseg_loop ::
  "'d ports \<Rightarrow> u32 \<Rightarrow> u32 \<Rightarrow> u32 \<Rightarrow> pmem \<Rightarrow> 'd \<Rightarrow> (pmem \<times> 'd) option" where
  "readseg_loop P va end_va offset m d =
     (if va < end_va then
        Option.bind (readsect P va offset m d)
          (\<lambda>(m1, d1). readseg_loop P (va + of_nat SECTSIZE) end_va (offset + 1) m1 d1)
      else Some (m, d))"

definition readseg :: "'d ports \<Rightarrow> u32 \<Rightarrow> u32 \<Rightarrow> u32 \<Rightarrow> pmem \<Rightarrow> 'd \<Rightarrow> (pmem \<times> 'd) option" where
  "readseg P va count offset m d =
     (let va = va AND 0xFFFFFF;
          end_va = va + count;
          va = va AND NOT (of_nat SECTSIZE - 1);
          offset = offset div of_nat SECTSIZE + 1
      in readseg_loop P va end_va offset m d)"

partial_function (option) load_loop :: "'d ports \<Rightarrow> u32 \<Rightarrow> u32 \<Rightarrow> pmem \<Rightarrow> 'd \<Rightarrow> (pmem \<times> 'd) option" where
  "load_loop P ph eph m d =
     (if ph < eph then
        Option.bind (readseg P (p_va (read_Proghdr m ph)) (p_memsz (read_Proghdr m ph))
            (p_offset (read_Proghdr m ph)) m d)
          (\<lambda>(m1, d1). load_loop P (ph + 32) eph m1 d1)
      else Some (m, d))"

definition bootmain :: "'d ports \<Rightarrow> pmem \<Rightarrow> 'd \<Rightarrow> (boot_result \<times> pmem \<times> 'd) option" where
  "bootmain P m d =
     do {
       (m1, d1) \<leftarrow> readseg P ELFHDR (of_nat SECTSIZE * 8) 0 m d;
       let elf = read_Elf (\<lambda>a. m1 (ELFHDR + a));
       if e_magic elf \<noteq> ELF_MAGIC
       then Some (Bad, m1, outw P 0x8A00 0x8E00 (outw P 0x8A00 0x8A00 d1))
       else do {
         let ph = ELFHDR + e_phoff elf;
         let eph = ph + 32 * ucast (e_phnum elf);
         (m2, d2) \<leftarrow> load_loop P ph eph m1 d1;
         Some (Jump (e_entry (read_Elf (\<lambda>a. m2 (ELFHDR + a))) AND 0xFFFFFF), m2, d2)
       }
     }"

end
