(* ===== verification/Ide_Spec.thy ===== *)
theory Ide_Spec
  imports Ide Bc
begin

text \<open>
  What fs/ide.c relies on, and its properties. The documented behaviour of an ATA controller in
  programmed I/O: the record \<open>ata\<close> is its task file, the transfer in progress and the contents
  of the two drives; \<open>ata_port P st busy\<close> says that the ports \<open>P\<close> behave like it. \<open>busy d\<close> bounds
  the number of status reads until the controller is ready; while it is not, nothing else is
  promised. The properties hold for every such controller; the last one connects the driver with
  the block cache of fs/bc.c, whose disk is the one the driver reads.
\<close>

unbundle bit_operations_syntax

section \<open>The controller\<close>

datatype xfer = NoXfer | Reading nat nat nat | Writing nat nat nat

record ata =
  a_count :: u8
  a_lba0 :: u8
  a_lba1 :: u8
  a_lba2 :: u8
  a_dev :: u8
  a_xfer :: xfer
  a_data :: "nat \<Rightarrow> nat \<Rightarrow> nat \<Rightarrow> u32"

definition ata_sel :: "ata \<Rightarrow> nat" where
  "ata_sel a = (if bit (a_dev a) 4 then 1 else 0)"

definition ata_lba :: "ata \<Rightarrow> nat" where
  "ata_lba a = unat (a_lba0 a) + 256 * unat (a_lba1 a) + 65536 * unat (a_lba2 a)
     + 16777216 * unat (a_dev a AND 0xF)"

definition ata_sectors :: "ata \<Rightarrow> nat" where
  "ata_sectors a = (if a_count a = 0 then 256 else unat (a_count a))"

definition ata_outb :: "u16 \<Rightarrow> u8 \<Rightarrow> ata \<Rightarrow> ata" where
  "ata_outb port v a =
     (if port = 0x1F2 then a\<lparr>a_count := v\<rparr>
      else if port = 0x1F3 then a\<lparr>a_lba0 := v\<rparr>
      else if port = 0x1F4 then a\<lparr>a_lba1 := v\<rparr>
      else if port = 0x1F5 then a\<lparr>a_lba2 := v\<rparr>
      else if port = 0x1F6 then a\<lparr>a_dev := v\<rparr>
      else if v = 0x20 then a\<lparr>a_xfer := Reading (ata_lba a) (ata_sectors a) 0\<rparr>
      else if v = 0x30 then a\<lparr>a_xfer := Writing (ata_lba a) (ata_sectors a) 0\<rparr>
      else a)"

text \<open>After word \<open>w\<close> of the sector \<open>l\<close>, with \<open>n\<close> sectors left.\<close>

definition next_word :: "(nat \<Rightarrow> nat \<Rightarrow> nat \<Rightarrow> xfer) \<Rightarrow> nat \<Rightarrow> nat \<Rightarrow> nat \<Rightarrow> xfer" where
  "next_word C l n w =
     (if w < 127 then C l n (Suc w) else if 1 < n then C (Suc l) (n - 1) 0 else NoXfer)"

definition ata_inl :: "ata \<Rightarrow> u32 \<times> ata" where
  "ata_inl a = (case a_xfer a of
     Reading l n w \<Rightarrow> (a_data a (ata_sel a) l w, a\<lparr>a_xfer := next_word Reading l n w\<rparr>)
   | _ \<Rightarrow> (0, a))"

definition set_word :: "nat \<Rightarrow> nat \<Rightarrow> nat \<Rightarrow> u32 \<Rightarrow> (nat \<Rightarrow> nat \<Rightarrow> nat \<Rightarrow> u32) \<Rightarrow> nat \<Rightarrow> nat \<Rightarrow> nat \<Rightarrow> u32" where
  "set_word x l w v f = f(x := (f x)(l := (f x l)(w := v)))"

definition ata_outl :: "u32 \<Rightarrow> ata \<Rightarrow> ata" where
  "ata_outl v a = (case a_xfer a of
     Writing l n w \<Rightarrow>
       a\<lparr>a_data := set_word (ata_sel a) l w v (a_data a), a_xfer := next_word Writing l n w\<rparr>
   | _ \<Rightarrow> a)"

definition in_sector :: "ata \<Rightarrow> bool" where
  "in_sector a = (case a_xfer a of NoXfer \<Rightarrow> False | Reading l n w \<Rightarrow> w \<noteq> 0 | Writing l n w \<Rightarrow> w \<noteq> 0)"

definition ata_port :: "'d ports \<Rightarrow> ('d \<Rightarrow> ata) \<Rightarrow> ('d \<Rightarrow> nat) \<Rightarrow> bool" where
  "ata_port P st busy \<longleftrightarrow>
     (\<forall>d. st (snd (p_inb P 0x1F7 d)) = st d
        \<and> (if busy d = 0
           then fst (p_inb P 0x1F7 d) AND (IDE_BSY OR IDE_DRDY) = IDE_DRDY
             \<and> fst (p_inb P 0x1F7 d) AND (IDE_DF OR IDE_ERR) = 0
             \<and> busy (snd (p_inb P 0x1F7 d)) = 0
           else fst (p_inb P 0x1F7 d) AND (IDE_BSY OR IDE_DRDY) \<noteq> IDE_DRDY
             \<and> busy (snd (p_inb P 0x1F7 d)) < busy d))
   \<and> (\<forall>port v d. 0x1F2 \<le> port \<and> port \<le> 0x1F7 \<and> busy d = 0 \<longrightarrow>
        st (p_outb P port v d) = ata_outb port v (st d)
        \<and> (port \<noteq> 0x1F7 \<longrightarrow> busy (p_outb P port v d) = 0))
   \<and> (\<forall>d. busy d = 0 \<longrightarrow>
        fst (p_inl P 0x1F0 d) = fst (ata_inl (st d)) \<and> st (snd (p_inl P 0x1F0 d)) = snd (ata_inl (st d))
        \<and> (in_sector (snd (ata_inl (st d))) \<longrightarrow> busy (snd (p_inl P 0x1F0 d)) = 0))
   \<and> (\<forall>v d. busy d = 0 \<longrightarrow>
        st (p_outl P 0x1F0 v d) = ata_outl v (st d)
        \<and> (in_sector (ata_outl v (st d)) \<longrightarrow> busy (p_outl P 0x1F0 v d) = 0))"

lemma ata_portD:
  assumes "ata_port P st busy"
  shows "st (snd (p_inb P 0x1F7 d)) = st d"
    "busy d = 0 \<Longrightarrow> fst (p_inb P 0x1F7 d) AND (IDE_BSY OR IDE_DRDY) = IDE_DRDY"
    "busy d = 0 \<Longrightarrow> fst (p_inb P 0x1F7 d) AND (IDE_DF OR IDE_ERR) = 0"
    "busy d = 0 \<Longrightarrow> busy (snd (p_inb P 0x1F7 d)) = 0"
    "busy d \<noteq> 0 \<Longrightarrow> fst (p_inb P 0x1F7 d) AND (IDE_BSY OR IDE_DRDY) \<noteq> IDE_DRDY"
    "busy d \<noteq> 0 \<Longrightarrow> busy (snd (p_inb P 0x1F7 d)) < busy d"
    "0x1F2 \<le> port \<Longrightarrow> port \<le> 0x1F7 \<Longrightarrow> busy d = 0 \<Longrightarrow> st (p_outb P port v d) = ata_outb port v (st d)"
    "0x1F2 \<le> port \<Longrightarrow> port \<le> 0x1F7 \<Longrightarrow> busy d = 0 \<Longrightarrow> port \<noteq> 0x1F7 \<Longrightarrow> busy (p_outb P port v d) = 0"
    "busy d = 0 \<Longrightarrow> fst (p_inl P 0x1F0 d) = fst (ata_inl (st d))"
    "busy d = 0 \<Longrightarrow> st (snd (p_inl P 0x1F0 d)) = snd (ata_inl (st d))"
    "busy d = 0 \<Longrightarrow> in_sector (snd (ata_inl (st d))) \<Longrightarrow> busy (snd (p_inl P 0x1F0 d)) = 0"
    "busy d = 0 \<Longrightarrow> st (p_outl P 0x1F0 x d) = ata_outl x (st d)"
    "busy d = 0 \<Longrightarrow> in_sector (ata_outl x (st d)) \<Longrightarrow> busy (p_outl P 0x1F0 x d) = 0"
  using assms unfolding ata_port_def by presburger+

section \<open>Waiting\<close>

lemma ide_wait_ok:
  assumes A: "ata_port P st busy"
  shows "\<exists>r d'. ide_wait P d = Some (r, d') \<and> st d' = st d \<and> busy d' = 0 \<and> r AND (IDE_DF OR IDE_ERR) = 0"
proof (induction "busy d" arbitrary: d rule: less_induct)
  case less
  show ?case
  proof (cases "busy d = 0")
    case True
    obtain r d' where e: "p_inb P 0x1F7 d = (r, d')" by fastforce
    show ?thesis using ata_portD(1-4) [OF A, of d] True
      by (subst ide_wait.simps) (simp add: inb_def e)
  next
    case False
    from less [OF ata_portD(6) [OF A False]] ata_portD(1,5) [OF A, of d] False show ?thesis
      by (subst ide_wait.simps) (auto simp: inb_def)
  qed
qed

lemma ide_wait_ready_ok:
  assumes A: "ata_port P st busy"
  shows "\<exists>d'. ide_wait_ready P c d = Some (0, d') \<and> st d' = st d \<and> busy d' = 0"
  using ide_wait_ok [OF A, of d] by (auto simp: ide_wait_ready_def)

section \<open>Sectors\<close>

text \<open>Reading \<open>m\<close> words of a sector, up to its end.\<close>

lemma insl_ok:
  assumes A: "ata_port P st busy" and "busy d = 0" and "a_xfer (st d) = Reading l n w"
    and "w + Suc m \<le> 128"
  shows "fst (insl P 0x1F0 (Suc m) d) = map (\<lambda>i. a_data (st d) (ata_sel (st d)) l (w + i)) [0..<Suc m]
    \<and> st (snd (insl P 0x1F0 (Suc m) d)) = (st d)\<lparr>a_xfer := next_word Reading l n (w + m)\<rparr>"
  using assms(2-)
proof (induction m arbitrary: d w)
  case 0
  then show ?case using ata_portD(9,10) [OF A, of d]
    by (simp add: ata_inl_def Let_def split_def)
next
  case (Suc m)
  let ?d1 = "snd (p_inl P 0x1F0 d)"
  have nw: "next_word Reading l n w = Reading l n (Suc w)" using Suc.prems by (simp add: next_word_def)
  have f: "fst (p_inl P 0x1F0 d) = a_data (st d) (ata_sel (st d)) l w"
    "st ?d1 = (st d)\<lparr>a_xfer := Reading l n (Suc w)\<rparr>"
    using ata_portD(9,10) [OF A Suc.prems(1)] Suc.prems(2) by (simp_all add: ata_inl_def nw)
  have "busy ?d1 = 0"
    by (rule ata_portD(11) [OF A Suc.prems(1)]) (simp add: Suc.prems(2) ata_inl_def nw in_sector_def)
  from Suc.IH [OF this, of "Suc w"] f Suc.prems(3) have
    ih: "fst (insl P 0x1F0 (Suc m) ?d1) = map (\<lambda>i. a_data (st d) (ata_sel (st d)) l (Suc w + i)) [0..<Suc m]"
      "st (snd (insl P 0x1F0 (Suc m) ?d1)) = (st d)\<lparr>a_xfer := next_word Reading l n (Suc w + m)\<rparr>"
    by (simp_all add: ata_sel_def)
  have "map (\<lambda>i. a_data (st d) (ata_sel (st d)) l (w + i)) [0..<Suc (Suc m)]
      = a_data (st d) (ata_sel (st d)) l w # map (\<lambda>i. a_data (st d) (ata_sel (st d)) l (Suc w + i)) [0..<Suc m]"
    by (simp add: map_upt_Suc del: upt_Suc)
  with f ih show ?case
    unfolding insl.simps(2) [of P "0x1F0" "Suc m" d] Let_def split_def by simp
qed

definition set_words ::
  "nat \<Rightarrow> nat \<Rightarrow> nat \<Rightarrow> u32 list \<Rightarrow> (nat \<Rightarrow> nat \<Rightarrow> nat \<Rightarrow> u32) \<Rightarrow> nat \<Rightarrow> nat \<Rightarrow> nat \<Rightarrow> u32" where
  "set_words x l w ws f = f(x := (f x)(l :=
     (\<lambda>i. if w \<le> i \<and> i < w + length ws then ws ! (i - w) else f x l i)))"

lemma set_words_Nil [simp]: "set_words x l w [] f = f"
  by (auto simp: set_words_def fun_eq_iff)

lemma set_words_Cons: "set_words x l (Suc w) ws (set_word x l w v f) = set_words x l w (v # ws) f"
proof -
  have "(\<lambda>i. if Suc w \<le> i \<and> i < Suc w + length ws then ws ! (i - Suc w) else ((f x l)(w := v)) i)
      = (\<lambda>i. if w \<le> i \<and> i < w + length (v # ws) then (v # ws) ! (i - w) else f x l i)"
    by (rule ext) (auto simp: nth_Cons' not_less_eq_eq le_antisym)
  moreover have "set_word x l w v f x l = (f x l)(w := v)" by (simp add: set_word_def)
  moreover have "(set_word x l w v f)(x := (set_word x l w v f x)(l := g)) = f(x := (f x)(l := g))" for g
    by (simp add: set_word_def)
  ultimately show ?thesis unfolding set_words_def by (simp only:)
qed

lemma outsl_ok:
  assumes A: "ata_port P st busy" and "busy d = 0" and "a_xfer (st d) = Writing l n w"
    and "w + length ws \<le> 128" and "ws \<noteq> []"
  shows "st (outsl P 0x1F0 ws d) = (st d)\<lparr>a_xfer := next_word Writing l n (w + length ws - 1),
    a_data := set_words (ata_sel (st d)) l w ws (a_data (st d))\<rparr>"
  using assms(2-)
proof (induction ws arbitrary: d w)
  case Nil
  then show ?case by simp
next
  case (Cons v ws)
  let ?d1 = "p_outl P 0x1F0 v d" and ?x = "ata_sel (st d)"
  have s1: "st ?d1 = (st d)\<lparr>a_data := set_word ?x l w v (a_data (st d)), a_xfer := next_word Writing l n w\<rparr>"
    using ata_portD(12) [OF A Cons.prems(1)] Cons.prems(2) by (simp add: ata_outl_def)
  show ?case
  proof (cases "ws = []")
    case True
    with s1 show ?thesis using set_words_Cons [of ?x l w "[]" v "a_data (st d)"] by simp
  next
    case False
    then have lt: "w < 127" using Cons.prems(3) by (cases ws) auto
    then have nw: "next_word Writing l n w = Writing l n (Suc w)" by (simp add: next_word_def)
    have b1: "busy ?d1 = 0"
      by (rule ata_portD(13) [OF A Cons.prems(1)])
        (simp add: Cons.prems(2) ata_outl_def nw in_sector_def)
    have sel: "ata_sel (st ?d1) = ?x" by (simp add: s1 ata_sel_def)
    have "st (outsl P 0x1F0 ws ?d1) = (st ?d1)\<lparr>a_xfer := next_word Writing l n (Suc w + length ws - 1),
      a_data := set_words (ata_sel (st ?d1)) l (Suc w) ws (a_data (st ?d1))\<rparr>"
      by (rule Cons.IH [OF b1]) (use Cons.prems(3) False in \<open>simp_all add: s1 nw\<close>)
    then show ?thesis
      unfolding sel using set_words_Cons [of ?x l w ws v "a_data (st d)"] by (simp add: s1)
  qed
qed

section \<open>Transfers\<close>

definition sector :: "ata \<Rightarrow> nat \<Rightarrow> nat \<Rightarrow> u32" where
  "sector a l = a_data a (ata_sel a) l"

definition xfer_from :: "(nat \<Rightarrow> nat \<Rightarrow> nat \<Rightarrow> xfer) \<Rightarrow> nat \<Rightarrow> nat \<Rightarrow> xfer" where
  "xfer_from C l n = (if n = 0 then NoXfer else C l n 0)"

lemma next_word_last: "next_word C l n 127 = xfer_from C (Suc l) (n - 1)"
  by (simp add: next_word_def xfer_from_def)

text \<open>The buffer after \<open>n\<close> sectors from \<open>l\<close> on were stored at \<open>k\<close>.\<close>

definition got :: "(nat \<Rightarrow> nat \<Rightarrow> u32) \<Rightarrow> nat \<Rightarrow> nat \<Rightarrow> nat \<Rightarrow> (nat \<Rightarrow> u32) \<Rightarrow> nat \<Rightarrow> u32" where
  "got f l n k buf = (\<lambda>i. if k \<le> i \<and> i < k + 128 * n then f (l + (i - k) div 128) ((i - k) mod 128) else buf i)"

lemma got_Suc:
  "got f (Suc l) n (k + 128) (store_at k (map (f l) [0..<128]) buf) = got f l (Suc n) k buf"
proof
  fix i
  consider "i < k" | "k \<le> i \<and> i < k + 128" | "k + 128 \<le> i" by linarith
  then show "got f (Suc l) n (k + 128) (store_at k (map (f l) [0..<128]) buf) i = got f l (Suc n) k buf i"
  proof cases
    case 3
    then obtain j where "i = k + 128 + j" using le_Suc_ex by blast
    moreover have "(128 + j) div 128 = Suc (j div 128)" by simp
    ultimately show ?thesis by (auto simp: got_def store_at_def)
  qed (auto simp: got_def store_at_def)
qed

lemma read_sectors_ok:
  assumes A: "ata_port P st busy" and "a_xfer (st d) = xfer_from Reading l n"
  shows "\<exists>d'. read_sectors P n k buf d = Some (0, got (sector (st d)) l n k buf, d')
    \<and> st d' = (st d)\<lparr>a_xfer := NoXfer\<rparr>"
  using assms(2)
proof (induction n arbitrary: d l k buf)
  case 0
  then show ?case by (auto simp: got_def xfer_from_def fun_eq_iff)
next
  case (Suc n)
  obtain d1 where d1: "ide_wait_ready P True d = Some (0, d1)" "st d1 = st d" "busy d1 = 0"
    using ide_wait_ready_ok [OF A] by blast
  have x1: "a_xfer (st d1) = Reading l (Suc n) 0" using Suc.prems d1 by (simp add: xfer_from_def)
  have sz: "SECTSIZE div 4 = 128" by (simp add: SECTSIZE_def)
  obtain ws d2 where i: "insl P 0x1F0 128 d1 = (ws, d2)" by fastforce
  have r: "ws = map (sector (st d) l) [0..<128]" "st d2 = (st d)\<lparr>a_xfer := xfer_from Reading (Suc l) n\<rparr>"
    using insl_ok [OF A d1(3) x1, of 127] i next_word_last [of Reading l "Suc n"]
    by (simp_all add: d1(2) sector_def cong: map_cong)
  have sec: "sector (st d2) = sector (st d)" by (simp add: r(2) sector_def ata_sel_def fun_eq_iff)
  obtain d' where "read_sectors P n (k + 128) (store_at k ws buf) d2
      = Some (0, got (sector (st d2)) (Suc l) n (k + 128) (store_at k ws buf), d')"
    "st d' = (st d2)\<lparr>a_xfer := NoXfer\<rparr>"
    using Suc.IH [of d2 "Suc l" "k + 128" "store_at k ws buf"] by (auto simp: r(2))
  then show ?case
    unfolding sec r(1) got_Suc using d1(1) i r by (simp add: sz)
qed

text \<open>The contents of the selected drive after \<open>n\<close> sectors from \<open>l\<close> on were written.\<close>

definition put :: "nat \<Rightarrow> nat \<Rightarrow> nat \<Rightarrow> nat \<Rightarrow> (nat \<Rightarrow> u32) \<Rightarrow> (nat \<Rightarrow> nat \<Rightarrow> nat \<Rightarrow> u32) \<Rightarrow> nat \<Rightarrow> nat \<Rightarrow> nat \<Rightarrow> u32" where
  "put x l n k buf f = (\<lambda>y s w. if y = x \<and> l \<le> s \<and> s < l + n \<and> w < 128 then buf (k + 128 * (s - l) + w) else f y s w)"

lemma put_0 [simp]: "put x l 0 k buf f = f"
  by (intro ext) (auto simp: put_def)

lemma put_Suc:
  "put x (Suc l) n (k + 128) buf (set_words x l 0 (map (\<lambda>i. buf (k + i)) [0..<128]) f) = put x l (Suc n) k buf f"
proof (intro ext)
  fix y s w
  consider "y \<noteq> x \<or> s < l" | "y = x \<and> s = l" | "y = x \<and> Suc l \<le> s" by linarith
  then show "put x (Suc l) n (k + 128) buf (set_words x l 0 (map (\<lambda>i. buf (k + i)) [0..<128]) f) y s w
      = put x l (Suc n) k buf f y s w"
  proof cases
    case 3
    then obtain j where "s = Suc l + j" using le_Suc_ex by blast
    with 3 show ?thesis by (auto simp: put_def set_words_def add.assoc)
  qed (auto simp: put_def set_words_def)
qed

lemma write_sectors_ok:
  assumes A: "ata_port P st busy" and "a_xfer (st d) = xfer_from Writing l n"
  shows "\<exists>d'. write_sectors P n k buf d = Some (0, d')
    \<and> st d' = (st d)\<lparr>a_xfer := NoXfer, a_data := put (ata_sel (st d)) l n k buf (a_data (st d))\<rparr>"
  using assms(2)
proof (induction n arbitrary: d l k)
  case 0
  then show ?case by (auto simp: xfer_from_def)
next
  case (Suc n)
  obtain d1 where d1: "ide_wait_ready P True d = Some (0, d1)" "st d1 = st d" "busy d1 = 0"
    using ide_wait_ready_ok [OF A] by blast
  have x1: "a_xfer (st d1) = Writing l (Suc n) 0" using Suc.prems d1 by (simp add: xfer_from_def)
  have sz: "SECTSIZE div 4 = 128" by (simp add: SECTSIZE_def)
  let ?ws = "map (\<lambda>i. buf (k + i)) [0..<128]"
  let ?d2 = "outsl P 0x1F0 ?ws d1"
  have r: "st ?d2 = (st d)\<lparr>a_xfer := xfer_from Writing (Suc l) n,
      a_data := set_words (ata_sel (st d)) l 0 ?ws (a_data (st d))\<rparr>"
    using outsl_ok [OF A d1(3) x1, of ?ws] next_word_last [of Writing l "Suc n"] by (simp add: d1(2))
  have sel: "ata_sel (st ?d2) = ata_sel (st d)" by (simp add: r ata_sel_def)
  obtain d' where "write_sectors P n (k + 128) buf ?d2 = Some (0, d')"
    "st d' = (st ?d2)\<lparr>a_xfer := NoXfer, a_data := put (ata_sel (st ?d2)) (Suc l) n (k + 128) buf (a_data (st ?d2))\<rparr>"
    using Suc.IH [of ?d2 "Suc l" "k + 128"] by (auto simp: r)
  moreover have "a_data (st ?d2) = set_words (ata_sel (st d)) l 0 ?ws (a_data (st d))" by (simp add: r)
  ultimately show ?case
    unfolding sel using d1(1) put_Suc [of "ata_sel (st d)" l n k buf "a_data (st d)"] by (simp add: sz r)
qed

section \<open>The task file\<close>

lemma unat_low_byte: "unat (ucast (w AND 0xFF :: u32) :: u8) = unat w mod 256"
proof -
  have "w AND 0xFF = take_bit 8 w" by (simp add: mask8_num take_bit_eq_mask)
  then show ?thesis by (simp add: unsigned_ucast_eq unsigned_take_bit_eq take_bit_eq_mod unat_mod_distrib)
qed

definition dev_byte :: "int \<Rightarrow> u32 \<Rightarrow> u8" where
  "dev_byte dn s = 0xE0 OR push_bit 4 (word_of_int dn AND 1) OR ucast (drop_bit 24 s AND 0x0F)"

lemma mask4: "(0x0F :: u32) = mask 4" "(0xF :: u8) = mask 4"
  by (simp_all add: mask_eq_exp_minus_1)

lemma dev_byte_parts:
  assumes "dn = 0 \<or> dn = 1"
  shows "dev_byte dn s AND 0xF = ucast (drop_bit 24 s AND 0x0F)" "bit (dev_byte dn s) 4 \<longleftrightarrow> dn = 1"
proof -
  let ?x = "ucast (drop_bit 24 s AND 0x0F) :: u8"
  have x: "?x AND 0xF = ?x" unfolding mask4 by (rule bit_word_eqI) (auto simp: bit_simps)
  have b: "\<not> bit ?x 4" unfolding mask4 by (auto simp: bit_simps)
  have d: "dev_byte dn s = (if dn = 1 then 0xF0 else 0xE0) OR ?x"
    using assms by (auto simp: dev_byte_def simp flip: or.assoc)
  have "((if dn = 1 then 0xF0 else 0xE0) :: u8) AND 0xF = 0" by simp
  then show "dev_byte dn s AND 0xF = ?x"
    unfolding d bit.conj_disj_distrib2 x by simp
  have "bit (0xF0 :: u8) 4" "\<not> bit (0xE0 :: u8) 4" by simp_all
  with assms b show "bit (dev_byte dn s) 4 \<longleftrightarrow> dn = 1" unfolding d by (auto simp: bit_or_iff)
qed

lemma nibble_of: "unat (ucast (w AND 0x0F :: u32) :: u8) = unat w mod 16"
proof -
  have "w AND 0x0F = take_bit 4 w" by (simp add: mask4 take_bit_eq_mask)
  moreover have "unat w mod 16 mod 256 = unat w mod 16" by simp
  ultimately show ?thesis
    by (simp add: unsigned_ucast_eq unsigned_take_bit_eq take_bit_eq_mod unat_mod_distrib)
qed

text \<open>The registers hold the sector number in four pieces.\<close>

lemma lba_sum:
  assumes "n < 2 ^ 28"
  shows "n mod 256 + 256 * (n div 256 mod 256) + 65536 * (n div 65536 mod 256)
    + 16777216 * (n div 16777216 mod 16) = (n :: nat)"
proof -
  have "n div 16777216 < 16" using assms by (simp add: less_mult_imp_div_less)
  moreover have "n div 65536 = n div 256 div 256" "n div 16777216 = n div 256 div 256 div 256"
    by (simp_all add: div_mult2_eq [symmetric])
  moreover have "n = 256 * q1 + r1 \<Longrightarrow> q1 = 256 * q2 + r2 \<Longrightarrow> q2 = 256 * q3 + r3 \<Longrightarrow>
      r1 + 256 * r2 + 65536 * r3 + 16777216 * q3 = n" for q1 q2 q3 r1 r2 r3 by simp
  note this [OF mult_div_mod_eq [of 256 n, symmetric] mult_div_mod_eq [of 256 "n div 256", symmetric]
      mult_div_mod_eq [of 256 "n div 256 div 256", symmetric]]
  ultimately show ?thesis by (simp only: mod_less)
qed

lemma regs_ok:
  assumes A: "ata_port P st busy" and b: "busy d = 0" and dn: "dn = 0 \<or> dn = 1"
    and sec: "unat secno < 2 ^ 28" and n: "0 < unat nsecs" "unat nsecs \<le> 256"
  shows "\<exists>a. st (outs P (ide_regs dn secno nsecs cmd) d) = ata_outb 0x1F7 cmd a
    \<and> ata_lba a = unat secno \<and> ata_sectors a = unat nsecs \<and> ata_sel a = nat dn
    \<and> a_data a = a_data (st d) \<and> a_xfer a = a_xfer (st d)"
proof -
  let ?d1 = "outb P 0x1F2 (ucast nsecs) d" let ?d2 = "outb P 0x1F3 (ucast (secno AND 0xFF)) ?d1"
  let ?d3 = "outb P 0x1F4 (ucast (drop_bit 8 secno AND 0xFF)) ?d2"
  let ?d4 = "outb P 0x1F5 (ucast (drop_bit 16 secno AND 0xFF)) ?d3"
  let ?d5 = "outb P 0x1F6 (dev_byte dn secno) ?d4"
  have step: "st (outb P port v e) = ata_outb port v (st e) \<and> (port \<noteq> 0x1F7 \<longrightarrow> busy (outb P port v e) = 0)"
    if "busy e = 0" "0x1F2 \<le> port" "port \<le> 0x1F7" for port v e
    using ata_portD(7,8) [OF A that(2,3,1)] by (simp add: outb_def)
  have s1: "st ?d1 = (st d)\<lparr>a_count := ucast nsecs\<rparr>" "busy ?d1 = 0"
    using step [OF b, of "0x1F2"] by (simp_all add: ata_outb_def)
  have s2: "st ?d2 = (st ?d1)\<lparr>a_lba0 := ucast (secno AND 0xFF)\<rparr>" "busy ?d2 = 0"
    using step [OF s1(2), of "0x1F3"] by (simp_all add: ata_outb_def)
  have s3: "st ?d3 = (st ?d2)\<lparr>a_lba1 := ucast (drop_bit 8 secno AND 0xFF)\<rparr>" "busy ?d3 = 0"
    using step [OF s2(2), of "0x1F4"] by (simp_all add: ata_outb_def)
  have s4: "st ?d4 = (st ?d3)\<lparr>a_lba2 := ucast (drop_bit 16 secno AND 0xFF)\<rparr>" "busy ?d4 = 0"
    using step [OF s3(2), of "0x1F5"] by (simp_all add: ata_outb_def)
  have s5: "st ?d5 = (st ?d4)\<lparr>a_dev := dev_byte dn secno\<rparr>" "busy ?d5 = 0"
    using step [OF s4(2), of "0x1F6"] by (simp_all add: ata_outb_def)
  have run: "st (outs P (ide_regs dn secno nsecs cmd) d) = ata_outb 0x1F7 cmd (st ?d5)"
    using step [OF s5(2), of "0x1F7" cmd] by (simp add: ide_regs_def dev_byte_def)
  let ?n = "unat secno"
  have pieces: "unat (ucast (secno AND 0xFF) :: u8) = ?n mod 256"
    "unat (ucast (drop_bit 8 secno AND 0xFF) :: u8) = ?n div 256 mod 256"
    "unat (ucast (drop_bit 16 secno AND 0xFF) :: u8) = ?n div 65536 mod 256"
    "unat (ucast (drop_bit 24 secno AND 0x0F) :: u8) = ?n div 16777216 mod 16"
    by (simp_all add: unat_low_byte nibble_of unat_drop_bit)
  have m16: "?n div 16777216 mod 16 = ?n div 16777216" using sec by simp
  have "ata_lba (st ?d5) = ?n"
    unfolding ata_lba_def s5 s4 s3 s2 s1 using dev_byte_parts(1) [OF dn, of secno] lba_sum [OF sec]
    by (simp add: pieces m16)
  moreover have "ata_sectors (st ?d5) = unat nsecs"
  proof -
    have "unat (ucast nsecs :: u8) = unat nsecs mod 256"
      by (simp add: unsigned_ucast_eq take_bit_eq_mod)
    then have "(ucast nsecs :: u8) = 0 \<longleftrightarrow> unat nsecs = 256" "unat nsecs \<noteq> 256 \<Longrightarrow> unat (ucast nsecs :: u8) = unat nsecs"
      using n by (auto simp: word_unat_eq_iff)
    then show ?thesis unfolding ata_sectors_def s5 s4 s3 s2 s1 by auto
  qed
  moreover have "ata_sel (st ?d5) = nat dn"
    using dev_byte_parts(2) [OF dn, of secno] dn unfolding ata_sel_def s5 by auto
  moreover have "a_data (st ?d5) = a_data (st d)" "a_xfer (st ?d5) = a_xfer (st d)"
    unfolding s5 s4 s3 s2 s1 by simp_all
  ultimately show ?thesis using run by blast
qed

section \<open>Reading and writing\<close>

lemma ide_read_ok:
  assumes A: "ata_port P st busy" and dn: "dn = 0 \<or> dn = 1"
    and sec: "unat secno < 2 ^ 28" and n: "0 < unat nsecs" "nsecs \<le> 256"
  shows "\<exists>d'. ide_read P dn secno k nsecs buf d =
      Some (0, got (a_data (st d) (nat dn)) (unat secno) (unat nsecs) k buf, d')
    \<and> a_data (st d') = a_data (st d)"
proof -
  obtain d1 where d1: "ide_wait_ready P False d = Some (0, d1)" "st d1 = st d" "busy d1 = 0"
    using ide_wait_ready_ok [OF A] by blast
  have n': "unat nsecs \<le> 256" using n(2) by (simp add: word_le_nat_alt)
  let ?d2 = "outs P (ide_regs dn secno nsecs 0x20) d1"
  obtain a where a: "st ?d2 = ata_outb 0x1F7 0x20 a" "ata_lba a = unat secno" "ata_sectors a = unat nsecs"
      "ata_sel a = nat dn" "a_data a = a_data (st d)"
    using regs_ok [OF A d1(3) dn sec n(1) n', of "0x20"] d1(2) by auto
  have s2: "st ?d2 = a\<lparr>a_xfer := xfer_from Reading (unat secno) (unat nsecs)\<rparr>"
    using a n(1) by (simp add: ata_outb_def xfer_from_def)
  then have "a_xfer (st ?d2) = xfer_from Reading (unat secno) (unat nsecs)" by simp
  from read_sectors_ok [OF A this, of k buf] obtain d' where
    r: "read_sectors P (unat nsecs) k buf ?d2
        = Some (0, got (sector (st ?d2)) (unat secno) (unat nsecs) k buf, d')"
      "st d' = (st ?d2)\<lparr>a_xfer := NoXfer\<rparr>" by blast
  have "sector (st ?d2) = a_data (st d) (nat dn)"
    using a(4,5) by (simp add: s2 sector_def ata_sel_def fun_eq_iff)
  with r d1(1) n(2) a(5) s2 show ?thesis by (simp add: ide_read_def)
qed

lemma ide_write_ok:
  assumes A: "ata_port P st busy" and dn: "dn = 0 \<or> dn = 1"
    and sec: "unat secno < 2 ^ 28" and n: "0 < unat nsecs" "nsecs \<le> 256"
  shows "\<exists>d'. ide_write P dn secno k nsecs buf d = Some (0, d')
    \<and> a_data (st d') = put (nat dn) (unat secno) (unat nsecs) k buf (a_data (st d))"
proof -
  obtain d1 where d1: "ide_wait_ready P False d = Some (0, d1)" "st d1 = st d" "busy d1 = 0"
    using ide_wait_ready_ok [OF A] by blast
  have n': "unat nsecs \<le> 256" using n(2) by (simp add: word_le_nat_alt)
  let ?d2 = "outs P (ide_regs dn secno nsecs 0x30) d1"
  obtain a where a: "st ?d2 = ata_outb 0x1F7 0x30 a" "ata_lba a = unat secno" "ata_sectors a = unat nsecs"
      "ata_sel a = nat dn" "a_data a = a_data (st d)"
    using regs_ok [OF A d1(3) dn sec n(1) n', of "0x30"] d1(2) by auto
  have s2: "st ?d2 = a\<lparr>a_xfer := xfer_from Writing (unat secno) (unat nsecs)\<rparr>"
    using a n(1) by (simp add: ata_outb_def xfer_from_def)
  then have "a_xfer (st ?d2) = xfer_from Writing (unat secno) (unat nsecs)" by simp
  from write_sectors_ok [OF A this, of k buf] obtain d' where
    r: "write_sectors P (unat nsecs) k buf ?d2 = Some (0, d')"
      "st d' = (st ?d2)\<lparr>a_xfer := NoXfer,
         a_data := put (ata_sel (st ?d2)) (unat secno) (unat nsecs) k buf (a_data (st ?d2))\<rparr>" by blast
  have "ata_sel (st ?d2) = nat dn" using a(4) by (simp add: s2 ata_sel_def)
  with r d1(1) n(2) a(5) s2 show ?thesis by (simp add: ide_write_def)
qed

section \<open>A controller that behaves as documented\<close>

text \<open>
  Its state is a task file and a countdown: each command and each sector makes it busy for
  three reads of the status.
\<close>

type_synonym demo_drive = "ata \<times> nat"

definition demo_ports :: "demo_drive ports" where
  "demo_ports = \<lparr>
     p_inb = (\<lambda>port (a, n). if n = 0 then (0x40, (a, 0)) else (0x80, (a, n - 1))),
     p_outb = (\<lambda>port v (a, n). (ata_outb port v a, if port = 0x1F7 then 3 else 0)),
     p_inl = (\<lambda>port (a, n). let (w, a') = ata_inl a in (w, (a', if in_sector a' then 0 else 3))),
     p_outl = (\<lambda>port v (a, n). let a' = ata_outl v a in (a', if in_sector a' then 0 else 3)),
     p_outw = (\<lambda>port v d. d)\<rparr>"

lemma demo_ports_ok: "ata_port demo_ports fst snd"
  by (auto simp: ata_port_def demo_ports_def ide_flags split_def Let_def)

definition demo_ata :: ata where
  "demo_ata = \<lparr>a_count = 0, a_lba0 = 0, a_lba1 = 0, a_lba2 = 0, a_dev = 0, a_xfer = NoXfer,
     a_data = (\<lambda>x l w. of_nat (1000 * x + 10 * l + w))\<rparr>"

section \<open>Properties\<close>

text \<open>
  ide_read. On a drive that becomes ready after any finite time and reports no error,
  ide_read of 1 to 256 sectors returns 0, stores exactly the contents of those sectors of the
  selected drive in the buffer and nothing else, and leaves the drives as they were.
\<close>

theorem ide_read_correct:
  assumes "ata_port P st busy" and "dn = 0 \<or> dn = 1" and "unat secno < 2 ^ 28"
    and "0 < unat nsecs" and "nsecs \<le> 256"
  shows "\<exists>buf' d'. ide_read P dn secno k nsecs buf d = Some (0, buf', d')
    \<and> (\<forall>i < 128 * unat nsecs. buf' (k + i) = a_data (st d) (nat dn) (unat secno + i div 128) (i mod 128))
    \<and> (\<forall>i. i < k \<or> k + 128 * unat nsecs \<le> i \<longrightarrow> buf' i = buf i)
    \<and> a_data (st d') = a_data (st d)"
  using ide_read_ok [OF assms, of k buf d] by (fastforce simp: got_def)

theorem ide_read_correct_witness:
  "\<exists>buf' d'. ide_read demo_ports 1 5 0 2 (\<lambda>_. 7) (demo_ata, 10) = Some (0, buf', d')
    \<and> buf' 0 = 1050 \<and> buf' 130 = 1062 \<and> buf' 256 = 7"
proof -
  have "(2 :: u32) \<le> 256" by simp
  from ide_read_correct [OF demo_ports_ok _ _ _ this, of 1 5 0 "\<lambda>_. 7" "(demo_ata, 10)"]
  obtain buf' d' where r: "ide_read demo_ports 1 5 0 2 (\<lambda>_. 7) (demo_ata, 10) = Some (0, buf', d')"
    and c: "\<forall>i < 256. buf' i = a_data demo_ata 1 (5 + i div 128) (i mod 128)"
    and rest: "\<forall>i \<ge> 256. buf' i = 7" by auto
  have "buf' 0 = 1050" "buf' 130 = 1062" "buf' 256 = 7"
    using c [rule_format, of 0] c [rule_format, of 130] rest by (simp_all add: demo_ata_def)
  with r show ?thesis by blast
qed

text \<open>
  C18: ide_write and ide_read. What ide_write stores, from anywhere in a buffer, ide_read of the
  same sectors returns, and every other sector of both drives is as it was.
\<close>

theorem ide_write_read:
  assumes "ata_port P st busy" and "dn = 0 \<or> dn = 1" and "unat secno < 2 ^ 28"
    and "0 < unat nsecs" and "nsecs \<le> 256"
  shows "\<exists>d1 buf' d2. ide_write P dn secno k nsecs buf d = Some (0, d1)
    \<and> ide_read P dn secno m nsecs buf0 d1 = Some (0, buf', d2)
    \<and> (\<forall>i < 128 * unat nsecs. buf' (m + i) = buf (k + i))
    \<and> (\<forall>x l w. x \<noteq> nat dn \<or> l < unat secno \<or> unat secno + unat nsecs \<le> l \<longrightarrow>
         a_data (st d2) x l w = a_data (st d) x l w)"
proof -
  obtain d1 where d1: "ide_write P dn secno k nsecs buf d = Some (0, d1)"
      "a_data (st d1) = put (nat dn) (unat secno) (unat nsecs) k buf (a_data (st d))"
    using ide_write_ok [OF assms] by blast
  obtain d2 where d2: "ide_read P dn secno m nsecs buf0 d1 =
      Some (0, got (a_data (st d1) (nat dn)) (unat secno) (unat nsecs) m buf0, d2)"
      "a_data (st d2) = a_data (st d1)"
    using ide_read_ok [OF assms] by blast
  have "got (a_data (st d1) (nat dn)) (unat secno) (unat nsecs) m buf0 (m + i) = buf (k + i)"
    if "i < 128 * unat nsecs" for i
  proof -
    have "i div 128 < unat nsecs" using that by (simp add: less_mult_imp_div_less mult.commute)
    then show ?thesis using that by (simp add: got_def d1(2) put_def add.assoc)
  qed
  with d1 d2 show ?thesis by (auto simp: put_def)
qed

theorem ide_write_read_witness:
  "\<exists>d1 buf' d2. ide_write demo_ports 0 9 0 1 (\<lambda>i. of_nat i) (demo_ata, 0) = Some (0, d1)
    \<and> ide_read demo_ports 0 9 64 1 (\<lambda>_. 0) d1 = Some (0, buf', d2) \<and> buf' 100 = 36"
proof -
  have "(1 :: u32) \<le> 256" by simp
  from ide_write_read [OF demo_ports_ok _ _ _ this, of 0 9 0 "\<lambda>i. of_nat i" "(demo_ata, 0)" 64 "\<lambda>_. 0"]
  obtain d1 buf' d2 where r: "ide_write demo_ports 0 9 0 1 (\<lambda>i. of_nat i) (demo_ata, 0) = Some (0, d1)"
      "ide_read demo_ports 0 9 64 1 (\<lambda>_. 0) d1 = Some (0, buf', d2)"
    and c: "\<forall>i < 128. buf' (64 + i) = of_nat i" by auto
  have "buf' 100 = 36" using c [rule_format, of 36] by simp
  with r show ?thesis by blast
qed

text \<open>
  The disk of the block cache. Block \<open>b\<close> of fs/bc.c is the eight sectors from \<open>8 * b\<close> on: the
  transfer of bc_pgfault puts into the page exactly the words that the model of the block cache
  calls \<open>disk s b\<close>, and the transfer of flush_block changes that block of the disk and no other.
\<close>

definition disk_blocks :: "ata \<Rightarrow> nat \<Rightarrow> nat \<Rightarrow> nat \<Rightarrow> u32" where
  "disk_blocks a x b i = a_data a x (8 * b + i div 128) (i mod 128)"

theorem ide_block_transfer:
  assumes "ata_port P st busy" and "dn = 0 \<or> dn = 1" and "b < DISKSIZE div BLKSIZE"
  shows "(\<exists>buf' d'. ide_read P dn (of_nat b * 8) 0 8 buf d = Some (0, buf', d')
      \<and> (\<forall>i < 1024. buf' i = disk_blocks (st d) (nat dn) b i)
      \<and> disk_blocks (st d') = disk_blocks (st d))
    \<and> (\<exists>d'. ide_write P dn (of_nat b * 8) 0 8 buf d = Some (0, d')
      \<and> (\<forall>i < 1024. disk_blocks (st d') (nat dn) b i = buf i)
      \<and> (\<forall>c i. c \<noteq> b \<and> i < 1024 \<longrightarrow> disk_blocks (st d') (nat dn) c i = disk_blocks (st d) (nat dn) c i))"
proof -
  have b: "b < 786432" using assms(3) by (simp add: DISKSIZE_def BLKSIZE_def)
  then have u: "unat (of_nat b * 8 :: u32) = 8 * b" by (simp add: unat_word_ariths unat_of_nat)
  have lt: "unat (of_nat b * 8 :: u32) < 2 ^ 28" "0 < unat (8 :: u32)" "(8 :: u32) \<le> 256"
    using b by (simp_all add: u)
  have e8: "unat (8 :: u32) = 8" by simp
  have j: "i div 128 < 8" if "i < 1024" for i :: nat using that by simp
  obtain d1 where r: "ide_read P dn (of_nat b * 8) 0 8 buf d =
      Some (0, got (a_data (st d) (nat dn)) (8 * b) 8 0 buf, d1)" "a_data (st d1) = a_data (st d)"
    using ide_read_ok [OF assms(1,2) lt, of 0 buf d] unfolding u e8 by blast
  have "got (a_data (st d) (nat dn)) (8 * b) 8 0 buf i = disk_blocks (st d) (nat dn) b i" if "i < 1024" for i
    using that by (simp add: got_def disk_blocks_def)
  moreover have "disk_blocks (st d1) = disk_blocks (st d)" by (intro ext) (simp add: disk_blocks_def r(2))
  moreover obtain d2 where w: "ide_write P dn (of_nat b * 8) 0 8 buf d = Some (0, d2)"
      "a_data (st d2) = put (nat dn) (8 * b) 8 0 buf (a_data (st d))"
    using ide_write_ok [OF assms(1,2) lt, of 0 buf d] unfolding u e8 by blast
  moreover have "disk_blocks (st d2) (nat dn) b i = buf i" if "i < 1024" for i
    using j [OF that] by (simp add: disk_blocks_def w(2) put_def)
  moreover have "disk_blocks (st d2) (nat dn) c i = disk_blocks (st d) (nat dn) c i"
    if "c \<noteq> b" "i < 1024" for c i
  proof -
    have "\<not> (8 * b \<le> 8 * c + i div 128 \<and> 8 * c + i div 128 < 8 * b + 8)"
      using that(1) j [OF that(2)] by linarith
    then show ?thesis by (auto simp: disk_blocks_def w(2) put_def)
  qed
  ultimately show ?thesis using r(1) by blast
qed

theorem ide_block_transfer_witness:
  "\<exists>buf' d'. ide_read demo_ports 1 (of_nat 3 * 8) 0 8 (\<lambda>_. 0) (demo_ata, 0) = Some (0, buf', d')
    \<and> buf' 200 = disk_blocks demo_ata 1 3 200"
proof -
  have "(3 :: nat) < DISKSIZE div BLKSIZE" by (simp add: DISKSIZE_def BLKSIZE_def)
  from ide_block_transfer [OF demo_ports_ok _ this, of 1 "\<lambda>_. 0" "(demo_ata, 0)"]
  obtain buf' d' where "ide_read demo_ports 1 (of_nat 3 * 8) 0 8 (\<lambda>_. 0) (demo_ata, 0) = Some (0, buf', d')"
    and c: "\<forall>i < 1024. buf' i = disk_blocks demo_ata 1 3 i" by auto
  with c [rule_format, of 200] show ?thesis by auto
qed

text \<open>
  A drive with an error. When the drive gets ready with its fault or error bit set before the
  first sector, ide_read returns -1 and leaves the buffer alone.
\<close>

theorem ide_read_error:
  assumes "ide_wait P d = Some (r0, d1)" and "nsecs \<le> 256" and "0 < unat nsecs"
    and "ide_wait P (outs P (ide_regs dn secno nsecs 0x20) d1) = Some (r, d2)"
    and "r AND (IDE_DF OR IDE_ERR) \<noteq> 0"
  shows "ide_read P dn secno k nsecs buf d = Some (-1, buf, d2)"
proof -
  obtain n where n: "unat nsecs = Suc n" using assms(3) by (cases "unat nsecs") auto
  show ?thesis using assms(1,2,4,5) by (simp add: ide_read_def ide_wait_ready_def n)
qed

theorem ide_read_error_witness:
  "ide_read \<lparr>p_inb = (\<lambda>_ d. (0x41 :: u8, d)), p_outb = (\<lambda>_ _ d. d), p_inl = (\<lambda>_ d. (0, d)),
      p_outl = (\<lambda>_ _ d. d), p_outw = (\<lambda>_ _ d. d)\<rparr> 0 1 0 1 (\<lambda>_. 5) (0 :: nat) = Some (-1, \<lambda>_. 5, 0)"
  by (rule ide_read_error [of _ _ "0x41" 0 1 0 1 "0x41"])
    (simp_all add: ide_wait.simps inb_def ide_flags ide_regs_def outb_def)

text \<open>
  ide_probe_disk1. Disk 1 is present exactly when one of 1000 reads of the status has neither
  the busy nor the error bits set, and the loop reads the status at most 1000 times.
\<close>

lemma probe_le: "fst (probe_loop P n d) \<le> n"
  by (induction n arbitrary: d) (auto simp: Let_def split_def)

fun status_after :: "'d ports \<Rightarrow> nat \<Rightarrow> 'd \<Rightarrow> u8" where
  "status_after P 0 d = fst (inb P 0x1F7 d)"
| "status_after P (Suc n) d = status_after P n (snd (inb P 0x1F7 d))"

theorem probe_loop_present:
  "fst (probe_loop P n d) < n \<longleftrightarrow>
     (\<exists>k. k < n \<and> status_after P k d AND (IDE_BSY OR IDE_DF OR IDE_ERR) = 0)"
proof (induction n arbitrary: d)
  case 0
  then show ?case by simp
next
  case (Suc n)
  show ?case
  proof (cases "fst (inb P 0x1F7 d) AND (IDE_BSY OR IDE_DF OR IDE_ERR) = 0")
    case True
    then have "status_after P 0 d AND (IDE_BSY OR IDE_DF OR IDE_ERR) = 0" by simp
    with True show ?thesis by (fastforce simp: Let_def split_def)
  next
    case False
    have "(\<exists>k. k < Suc n \<and> status_after P k d AND (IDE_BSY OR IDE_DF OR IDE_ERR) = 0)
        \<longleftrightarrow> (\<exists>k. k < n \<and> status_after P k (snd (inb P 0x1F7 d)) AND (IDE_BSY OR IDE_DF OR IDE_ERR) = 0)"
      using False by (metis Suc_less_eq less_Suc_eq_0_disj status_after.simps)
    with False Suc show ?thesis by (simp add: Let_def split_def)
  qed
qed

end
