(* ===== verification/Boot_Loader_Spec.thy ===== *)
theory Boot_Loader_Spec
  imports Boot_Loader Ide_Spec Cstring_Spec
begin

text \<open>
  The boot loader of boot/main.c, for every controller that behaves as documented (\<open>ata_port\<close>
  of Ide_Spec): the sector and the segment that waitdisk, readsect and readseg leave in memory, the
  kernel image on the first drive, which images bootmain can load, and what it leaves in memory.
\<close>

unbundle bit_operations_syntax

section \<open>One sector\<close>

lemma waitdisk_ok:
  assumes A: "ata_port P st busy"
  shows "\<exists>d'. waitdisk P d = Some d' \<and> st d' = st d \<and> busy d' = 0"
proof (induction "busy d" arbitrary: d rule: less_induct)
  case less
  have c: "IDE_BSY OR IDE_DRDY = 0xC0" by (simp add: ide_flags)
  show ?case
  proof (cases "busy d = 0")
    case True
    show ?thesis using ata_portD(1,2,4) [OF A, of d] True unfolding c
      by (subst waitdisk.simps) (simp add: inb_def IDE_DRDY_def)
  next
    case False
    from less [OF ata_portD(6) [OF A False]] ata_portD(1,5) [OF A, of d] False show ?thesis
      unfolding c by (subst waitdisk.simps) (auto simp: inb_def IDE_DRDY_def)
  qed
qed

lemma low_byte: "unat (ucast (w :: u32) :: u8) = unat w mod 256"
  by (simp add: unsigned_ucast_eq take_bit_eq_mod)

lemma sect_dev:
  fixes w :: u32
  assumes "unat w < 2 ^ 28"
  shows "unat (ucast (drop_bit 24 w OR 0xE0) AND 0xF :: u8) = unat w div 16777216"
    "\<not> bit (ucast (drop_bit 24 w OR 0xE0) :: u8) 4"
proof -
  note hi = bit_of_small [OF assms]
  show "\<not> bit (ucast (drop_bit 24 w OR 0xE0) :: u8) 4"
    using hi [of 28] by (simp add: bit_simps)
  have "(ucast (drop_bit 24 w OR 0xE0) AND 0xF :: u8) = ucast (drop_bit 24 w)"
    unfolding mask4
  proof (rule bit_word_eqI)
    fix n assume "n < LENGTH(8)"
    moreover have "n < 4 \<Longrightarrow> \<not> bit (0xE0 :: u32) n"
      by (auto simp: less_Suc_eq numeral_eq_Suc)
    ultimately show "bit (ucast (drop_bit 24 w OR 0xE0) AND mask 4 :: u8) n = bit (ucast (drop_bit 24 w) :: u8) n"
      using hi [of "24 + n"] by (cases "n < 4") (auto simp: bit_simps)
  qed
  then show "unat (ucast (drop_bit 24 w OR 0xE0) AND 0xF :: u8) = unat w div 16777216"
    using assms by (simp add: low_byte unat_drop_bit less_mult_imp_div_less)
qed

lemma sect_regs_ok:
  assumes A: "ata_port P st busy" and b: "busy d = 0" and sec: "unat off < 2 ^ 28"
  shows "st (outs P (sect_regs off) d) =
    (st d)\<lparr>a_count := 1, a_lba0 := ucast off, a_lba1 := ucast (drop_bit 8 off),
      a_lba2 := ucast (drop_bit 16 off), a_dev := ucast (drop_bit 24 off OR 0xE0),
      a_xfer := Reading (unat off) 1 0\<rparr>"
proof -
  let ?d1 = "outb P 0x1F2 1 d" let ?d2 = "outb P 0x1F3 (ucast off) ?d1"
  let ?d3 = "outb P 0x1F4 (ucast (drop_bit 8 off)) ?d2"
  let ?d4 = "outb P 0x1F5 (ucast (drop_bit 16 off)) ?d3"
  let ?d5 = "outb P 0x1F6 (ucast (drop_bit 24 off OR 0xE0)) ?d4"
  have step: "st (outb P port v e) = ata_outb port v (st e) \<and> (port \<noteq> 0x1F7 \<longrightarrow> busy (outb P port v e) = 0)"
    if "busy e = 0" "0x1F2 \<le> port" "port \<le> 0x1F7" for port v e
    using ata_portD(7,8) [OF A that(2,3,1)] by (simp add: outb_def)
  have s1: "st ?d1 = (st d)\<lparr>a_count := 1\<rparr>" "busy ?d1 = 0"
    using step [OF b, of "0x1F2"] by (simp_all add: ata_outb_def)
  have s2: "st ?d2 = (st ?d1)\<lparr>a_lba0 := ucast off\<rparr>" "busy ?d2 = 0"
    using step [OF s1(2), of "0x1F3"] by (simp_all add: ata_outb_def)
  have s3: "st ?d3 = (st ?d2)\<lparr>a_lba1 := ucast (drop_bit 8 off)\<rparr>" "busy ?d3 = 0"
    using step [OF s2(2), of "0x1F4"] by (simp_all add: ata_outb_def)
  have s4: "st ?d4 = (st ?d3)\<lparr>a_lba2 := ucast (drop_bit 16 off)\<rparr>" "busy ?d4 = 0"
    using step [OF s3(2), of "0x1F5"] by (simp_all add: ata_outb_def)
  have s5: "st ?d5 = (st ?d4)\<lparr>a_dev := ucast (drop_bit 24 off OR 0xE0)\<rparr>" "busy ?d5 = 0"
    using step [OF s4(2), of "0x1F6"] by (simp_all add: ata_outb_def)
  have run: "st (outs P (sect_regs off) d) = ata_outb 0x1F7 0x20 (st ?d5)"
    using step [OF s5(2), of "0x1F7" "0x20"] by (simp add: sect_regs_def)
  have "unat off mod 256 + 256 * (unat off div 256 mod 256) + 65536 * (unat off div 65536 mod 256)
      + 16777216 * (unat off div 16777216) = unat off"
    using lba_sum [OF sec] sec by simp
  then have "ata_lba (st ?d5) = unat off"
    unfolding ata_lba_def s5 s4 s3 s2 s1 using sect_dev(1) [OF sec]
    by (simp add: low_byte unat_drop_bit)
  moreover have "ata_sectors (st ?d5) = 1" unfolding ata_sectors_def s5 s4 s3 s2 s1 by simp
  ultimately have "st (outs P (sect_regs off) d) = (st ?d5)\<lparr>a_xfer := Reading (unat off) 1 0\<rparr>"
    unfolding run by (simp add: ata_outb_def)
  then show ?thesis unfolding s5 s4 s3 s2 s1 by simp
qed

text \<open>Byte \<open>i\<close> of sector \<open>s\<close>, and memory with the \<open>n\<close> sectors from \<open>s\<close> on loaded at \<open>va\<close>.\<close>

definition sector_byte :: "(nat \<Rightarrow> nat \<Rightarrow> u32) \<Rightarrow> nat \<Rightarrow> nat \<Rightarrow> u8" where
  "sector_byte f s i = get_byte (i mod 4) (f s (i div 4))"

definition loaded :: "(nat \<Rightarrow> nat \<Rightarrow> u32) \<Rightarrow> u32 \<Rightarrow> nat \<Rightarrow> nat \<Rightarrow> pmem \<Rightarrow> pmem" where
  "loaded f va s n m = (\<lambda>a. if unat (a - va) < 512 * n
     then sector_byte f (s + unat (a - va) div 512) (unat (a - va) mod 512) else m a)"

lemma readsect_ok:
  assumes A: "ata_port P st busy" and sec: "unat off < 2 ^ 28"
  shows "\<exists>d'. readsect P dst off m d = Some (loaded (a_data (st d) 0) dst (unat off) 1 m, d')
    \<and> a_data (st d') = a_data (st d)"
proof -
  obtain d1 where d1: "waitdisk P d = Some d1" "st d1 = st d" "busy d1 = 0"
    using waitdisk_ok [OF A] by blast
  note r = sect_regs_ok [OF A d1(3) sec]
  obtain d2 where d2: "waitdisk P (outs P (sect_regs off) d1) = Some d2"
      "st d2 = st (outs P (sect_regs off) d1)" "busy d2 = 0"
    using waitdisk_ok [OF A] by blast
  have x: "a_xfer (st d2) = Reading (unat off) 1 0" "a_data (st d2) = a_data (st d)"
    "ata_sel (st d2) = 0"
    using sect_dev(2) [OF sec] by (simp_all add: d2(2) r d1(2) ata_sel_def)
  have "fst (insl P 0x1F0 (Suc 127) d2) = map (a_data (st d) 0 (unat off)) [0..<Suc 127]"
    "a_data (st (snd (insl P 0x1F0 (Suc 127) d2))) = a_data (st d)"
    using insl_ok [OF A d2(3) x(1), of 127] x by simp_all
  then have i: "fst (insl P 0x1F0 128 d2) = map (a_data (st d) 0 (unat off)) [0..<128]"
    "a_data (st (snd (insl P 0x1F0 128 d2))) = a_data (st d)"
    by (simp_all del: insl.simps)
  have "store_words dst (map (a_data (st d) 0 (unat off)) [0..<128]) m
      = loaded (a_data (st d) 0) dst (unat off) 1 m"
  proof
    fix a
    show "store_words dst (map (a_data (st d) 0 (unat off)) [0..<128]) m a
        = loaded (a_data (st d) 0) dst (unat off) 1 m a"
      by (cases "unat (a - dst) < 512") (simp_all add: store_words_def loaded_def sector_byte_def)
  qed
  with i d1(1) d2(1) show ?thesis by (auto simp: readsect_def SECTSIZE_def split_def Let_def)
qed

section \<open>Segments\<close>

lemma unat_round_sector: "unat ((w :: u32) AND NOT (of_nat SECTSIZE - 1)) = unat w - unat w mod 512"
proof -
  have m: "(of_nat SECTSIZE - 1 :: u32) = mask 9" by (simp add: SECTSIZE_def mask_eq_exp_minus_1)
  have t: "unat (w AND mask 9) = unat w mod 512"
    by (simp add: take_bit_eq_mask [symmetric] unsigned_take_bit_eq take_bit_eq_mod unat_mod_distrib)
  have "unat (w AND mask 9) \<le> unat w" unfolding t by simp
  from unat_sub_ge [OF this] show ?thesis unfolding m and_not_mask t .
qed

text \<open>The first sector, then the rest.\<close>

lemma loaded_step:
  assumes "512 * Suc n < 2 ^ 32"
  shows "loaded f (va + 512) (Suc s) n (loaded f va s 1 m) = loaded f va s (Suc n) m"
proof
  fix a :: u32
  define x where "x = a - va"
  have y: "a - (va + 512) = x - 512" by (simp add: x_def)
  show "loaded f (va + 512) (Suc s) n (loaded f va s 1 m) a = loaded f va s (Suc n) m a"
  proof (cases "512 \<le> unat x")
    case True
    then have u: "unat (x - 512) = unat x - 512" using unat_sub_ge [of 512 x] by simp
    from True obtain q where q: "unat x = 512 + q" using le_Suc_ex by blast
    then have "unat x div 512 = Suc (q div 512)" "unat x mod 512 = q mod 512" by simp_all
    with u q show ?thesis unfolding loaded_def y x_def [symmetric] by simp
  next
    case False
    have "\<not> unat (x - 512) < 512 * n"
    proof
      assume "unat (x - 512) < 512 * n"
      then have "unat (x - 512 + 512) = unat (x - 512) + 512"
        using unat_add_small [of "x - 512" 512] assms by simp
      with False show False by simp
    qed
    with False show ?thesis unfolding loaded_def y x_def [symmetric] by simp
  qed
qed

lemma readseg_loop_ok:
  assumes A: "ata_port P st busy"
  shows "(unat e - unat va + 511) div 512 = n \<Longrightarrow> unat e + 511 < 2 ^ 32 \<Longrightarrow> unat off + n \<le> 2 ^ 28 \<Longrightarrow>
    \<exists>d'. readseg_loop P va e off m d = Some (loaded (a_data (st d) 0) va (unat off) n m, d')
      \<and> a_data (st d') = a_data (st d)"
proof (induction n arbitrary: va off m d)
  case 0
  then have "\<not> va < e" by (simp add: word_less_nat_alt div_eq_0_iff)
  then show ?case by (subst readseg_loop.simps) (simp add: loaded_def)
next
  case (Suc n)
  have lt: "unat va < unat e"
  proof (rule ccontr)
    assume "\<not> unat va < unat e"
    with Suc.prems(1) show False by simp
  qed
  have va: "unat (va + 512) = unat va + 512"
    using unat_add_small [of va 512] lt Suc.prems(2) by simp
  have off: "unat (off + 1) = Suc (unat off)"
    using unat_add_small [of off 1] Suc.prems(3) by simp
  have n: "(unat e - unat (va + 512) + 511) div 512 = n"
  proof (cases "unat va + 512 \<le> unat e")
    case True
    then obtain q where q: "unat e = unat va + 512 + q" using le_Suc_ex by blast
    have "(512 + q + 511) div 512 = Suc ((q + 511) div 512)" by simp
    with Suc.prems(1) show ?thesis by (simp add: va q)
  next
    case False
    then obtain q where q: "unat e - unat va = q" "q < 512" by (cases "unat e - unat va") auto
    then have "(q + 511) div 512 \<le> 1" by simp
    with q False Suc.prems(1) show ?thesis by (simp add: va)
  qed
  obtain d1 where d1: "readsect P va off m d = Some (loaded (a_data (st d) 0) va (unat off) 1 m, d1)"
      "a_data (st d1) = a_data (st d)"
    using readsect_ok [OF A, of off va m d] Suc.prems(3) by auto
  obtain d2 where d2: "readseg_loop P (va + 512) e (off + 1) (loaded (a_data (st d) 0) va (unat off) 1 m) d1
      = Some (loaded (a_data (st d1) 0) (va + 512) (unat (off + 1)) n
          (loaded (a_data (st d) 0) va (unat off) 1 m), d2)"
      "a_data (st d2) = a_data (st d1)"
    using Suc.IH [OF n Suc.prems(2), of "off + 1" "loaded (a_data (st d) 0) va (unat off) 1 m" d1]
      Suc.prems(3) off by auto
  have "512 * Suc n \<le> unat e - unat va + 511" using Suc.prems(1) by (metis times_div_less_eq_dividend mult.commute)
  then have "512 * Suc n < 2 ^ 32" using Suc.prems(2) by linarith
  note st = loaded_step [OF this, of "a_data (st d) 0" va "unat off" m]
  have "va < e" using lt by (simp add: word_less_nat_alt)
  then have "readseg_loop P va e off m d
      = readseg_loop P (va + 512) e (off + 1) (loaded (a_data (st d) 0) va (unat off) 1 m) d1"
    by (subst readseg_loop.simps) (simp add: d1(1) SECTSIZE_def)
  with d2 show ?case by (simp add: off d1(2) st [unfolded One_nat_def])
qed

text \<open>The sectors that readseg loads, and where.\<close>

definition seg_base :: "u32 \<Rightarrow> u32" where
  "seg_base va = (va AND 0xFFFFFF) AND NOT (of_nat SECTSIZE - 1)"

definition seg_count :: "u32 \<Rightarrow> u32 \<Rightarrow> nat" where
  "seg_count va count = (unat ((va AND 0xFFFFFF) + count) - unat (seg_base va) + 511) div 512"

definition load_seg :: "(nat \<Rightarrow> nat \<Rightarrow> u32) \<Rightarrow> u32 \<Rightarrow> u32 \<Rightarrow> u32 \<Rightarrow> pmem \<Rightarrow> pmem" where
  "load_seg f va count off m = loaded f (seg_base va) (unat off div 512 + 1) (seg_count va count) m"

lemma readseg_ok:
  assumes A: "ata_port P st busy" and e: "unat (va AND 0xFFFFFF) + unat count + 511 < 2 ^ 32"
  shows "\<exists>d'. readseg P va count off m d = Some (load_seg (a_data (st d) 0) va count off m, d')
    \<and> a_data (st d') = a_data (st d)"
proof -
  let ?e = "(va AND 0xFFFFFF) + count"
  have e': "unat ?e + 511 < 2 ^ 32" using e unat_add_small [of "va AND 0xFFFFFF" count] by simp
  have "unat off < 2 ^ 32" using unsigned_less [of off] by simp
  then have d: "unat off div 512 < 2 ^ 23" by (simp add: less_mult_imp_div_less)
  have "unat (off div 512) = unat off div 512" by (simp add: unat_div_distrib)
  then have o: "unat (off div of_nat SECTSIZE + 1) = unat off div 512 + 1"
    using unat_add_small [of "off div 512" 1] d by (simp add: SECTSIZE_def)
  have "seg_count va count < 2 ^ 23"
    unfolding seg_count_def
    by (rule less_mult_imp_div_less, rule order.strict_trans1 [of _ "unat ?e + 511"]) (use e' in simp_all)
  with d have "unat (off div of_nat SECTSIZE + 1) + seg_count va count \<le> 2 ^ 28" unfolding o by simp
  from readseg_loop_ok [OF A seg_count_def [symmetric] e' this] show ?thesis
    by (simp add: readseg_def load_seg_def Let_def seg_base_def o)
qed

text \<open>What one segment leaves in memory: the bytes of the image, and the rest as it was.\<close>

definition kbyte :: "(nat \<Rightarrow> nat \<Rightarrow> u32) \<Rightarrow> nat \<Rightarrow> u8" where
  "kbyte f n = sector_byte f (1 + n div 512) (n mod 512)"

definition in_seg :: "u32 \<Rightarrow> u32 \<Rightarrow> u32 \<Rightarrow> bool" where
  "in_seg va count a \<longleftrightarrow> unat (a - seg_base va) < 512 * seg_count va count"

lemma load_seg_outside: "\<not> in_seg va count a \<Longrightarrow> load_seg f va count off m a = m a"
  by (simp add: load_seg_def loaded_def in_seg_def)

lemma unat_seg_base:
  "unat (seg_base va) = unat (va AND 0xFFFFFF) - unat (va AND 0xFFFFFF) mod 512"
  by (simp add: seg_base_def unat_round_sector)

lemma mod_va: "unat (va AND 0xFFFFFF) mod 512 = unat (va :: u32) mod 512"
proof -
  have m: "(0xFFFFFF :: u32) = mask 24" by (simp add: mask_eq_exp_minus_1)
  have "unat (va AND mask 24) = unat va mod 2 ^ 24"
    by (simp add: take_bit_eq_mask [symmetric] unsigned_take_bit_eq take_bit_eq_mod unat_mod_distrib)
  then show ?thesis unfolding m by (simp add: mod_mod_cancel)
qed

lemma seg_addr:
  assumes e: "unat (va AND 0xFFFFFF) + unat count + 511 < 2 ^ 32" and i: "i < unat count"
  shows "unat ((va AND 0xFFFFFF) + of_nat i - seg_base va) = unat va mod 512 + i"
    "in_seg va count ((va AND 0xFFFFFF) + of_nat i)"
proof -
  let ?v = "va AND 0xFFFFFF"
  have i': "unat (of_nat i :: u32) = i" using e i by (simp add: unat_of_nat)
  have v: "unat (?v + of_nat i) = unat ?v + i" using unat_add_small [of ?v "of_nat i"] e i i' by simp
  have le: "unat ?v mod 512 \<le> unat ?v" by simp
  then have "unat (seg_base va) \<le> unat (?v + of_nat i)" unfolding v unat_seg_base by linarith
  from unat_sub_ge [OF this] show u: "unat (?v + of_nat i - seg_base va) = unat va mod 512 + i"
    unfolding v unat_seg_base using le mod_va [of va] by simp
  have "unat (?v + count) = unat ?v + unat count" using unat_add_small [of ?v count] e by simp
  then have "seg_count va count = (unat va mod 512 + unat count + 511) div 512"
    unfolding seg_count_def unat_seg_base using le mod_va [of va] by simp
  moreover have "x \<le> 512 * ((x + 511) div 512)" for x :: nat by linarith
  ultimately have "unat va mod 512 + unat count \<le> 512 * seg_count va count" by simp
  with u i show "in_seg va count (?v + of_nat i)" by (simp add: in_seg_def)
qed

lemma load_seg_inside:
  assumes "unat (va AND 0xFFFFFF) + unat count + 511 < 2 ^ 32" and "i < unat count"
    and "unat va mod 512 = unat off mod 512"
  shows "load_seg f va count off m ((va AND 0xFFFFFF) + of_nat i) = kbyte f (unat off + i)"
proof -
  let ?r = "unat off mod 512 + i"
  have "unat off + i = 512 * (unat off div 512) + ?r" by simp
  moreover have "(512 * q + r) div 512 = q + r div 512" "(512 * q + r) mod 512 = r mod 512" for q r :: nat
    by simp_all
  ultimately have "(unat off + i) div 512 = unat off div 512 + ?r div 512"
    "(unat off + i) mod 512 = ?r mod 512" by (metis, metis)
  with seg_addr [OF assms(1,2)] assms(3) show ?thesis
    by (simp add: load_seg_def loaded_def in_seg_def kbyte_def)
qed

section \<open>The image and its headers\<close>

text \<open>The image starts in sector 1 of the first drive.\<close>

definition kimage :: "(nat \<Rightarrow> nat \<Rightarrow> u32) \<Rightarrow> u32 \<Rightarrow> u8" where
  "kimage f a = kbyte f (unat a)"

definition kernel_elf :: "(nat \<Rightarrow> nat \<Rightarrow> u32) \<Rightarrow> Elf" where
  "kernel_elf f = read_Elf (kimage f)"

definition kernel_headers :: "(nat \<Rightarrow> nat \<Rightarrow> u32) \<Rightarrow> Proghdr list" where
  "kernel_headers f = map (\<lambda>k. read_Proghdr (kimage f) (e_phoff (kernel_elf f) + 32 * of_nat k))
     [0..<unat (e_phnum (kernel_elf f))]"

abbreviation hdr_base :: "Proghdr \<Rightarrow> nat" where
  "hdr_base h \<equiv> unat (seg_base (p_va h))"

abbreviation hdr_end :: "Proghdr \<Rightarrow> nat" where
  "hdr_end h \<equiv> unat (p_va h AND 0xFFFFFF) + unat (p_memsz h)"

abbreviation in_hdr :: "Proghdr \<Rightarrow> u32 \<Rightarrow> bool" where
  "in_hdr h \<equiv> in_seg (p_va h) (p_memsz h)"

definition seg_ok :: "Proghdr \<Rightarrow> bool" where
  "seg_ok h \<longleftrightarrow> 0x11000 \<le> hdr_base h \<and> hdr_end h + 511 < 2 ^ 32
     \<and> unat (p_va h) mod 512 = unat (p_offset h) mod 512"

text \<open>
  An image that the loader can load: the headers are in the first 4096 bytes, the segments
  lie above the page that holds them, and each segment starts, rounded down to a sector, after the
  end of those before it.
\<close>

definition bootable :: "(nat \<Rightarrow> nat \<Rightarrow> u32) \<Rightarrow> bool" where
  "bootable f \<longleftrightarrow> e_magic (kernel_elf f) = ELF_MAGIC
     \<and> unat (e_phoff (kernel_elf f)) + 32 * unat (e_phnum (kernel_elf f)) \<le> 4096
     \<and> list_all seg_ok (kernel_headers f)
     \<and> sorted_wrt (\<lambda>h h'. hdr_end h \<le> hdr_base h') (kernel_headers f)"

section \<open>The loop over the segments\<close>

definition load_segs :: "(nat \<Rightarrow> nat \<Rightarrow> u32) \<Rightarrow> Proghdr list \<Rightarrow> pmem \<Rightarrow> pmem" where
  "load_segs f hs m = foldl (\<lambda>m h. load_seg f (p_va h) (p_memsz h) (p_offset h) m) m hs"

lemma load_segs_simps [simp]:
  "load_segs f [] m = m"
  "load_segs f (h # hs) m = load_segs f hs (load_seg f (p_va h) (p_memsz h) (p_offset h) m)"
  by (simp_all add: load_segs_def)

lemma load_segs_outside: "\<forall>h \<in> set hs. \<not> in_hdr h a \<Longrightarrow> load_segs f hs m a = m a"
  by (induction hs arbitrary: m) (simp_all add: load_seg_outside)

text \<open>Below the base of a segment nothing is written.\<close>

lemma below_seg:
  assumes "seg_ok h" and "unat a < hdr_base h"
  shows "\<not> in_hdr h a"
proof -
  let ?b = "seg_base (p_va h)"
  have "512 * seg_count (p_va h) (p_memsz h) \<le> unat ((p_va h AND 0xFFFFFF) + p_memsz h) - unat ?b + 511"
    unfolding seg_count_def by simp
  also have "unat ((p_va h AND 0xFFFFFF) + p_memsz h) = hdr_end h"
    using unat_add_small [of "p_va h AND 0xFFFFFF" "p_memsz h"] assms(1) by (simp add: seg_ok_def)
  finally have n: "512 * seg_count (p_va h) (p_memsz h) + unat ?b < 2 ^ 32"
    using assms(1) unat_seg_base [of "p_va h"] unfolding seg_ok_def by linarith
  show ?thesis
  proof
    assume "in_hdr h a"
    then have "unat (a - ?b) + unat ?b < 2 ^ 32" using n by (simp add: in_seg_def)
    from unat_add_small [OF this] assms(2) show False by simp
  qed
qed

lemma load_segs_content:
  assumes "list_all seg_ok hs" and "sorted_wrt (\<lambda>h h'. hdr_end h \<le> hdr_base h') hs"
    and "h \<in> set hs" and "i < unat (p_memsz h)"
  shows "load_segs f hs m ((p_va h AND 0xFFFFFF) + of_nat i) = kbyte f (unat (p_offset h) + i)"
  using assms
proof (induction hs arbitrary: m)
  case Nil
  then show ?case by simp
next
  case (Cons g hs)
  show ?case
  proof (cases "h \<in> set hs")
    case True
    then show ?thesis using Cons by simp
  next
    case False
    with Cons.prems(3) have g: "g = h" by simp
    let ?a = "(p_va h AND 0xFFFFFF) + of_nat i"
    have ok: "hdr_end h + 511 < 2 ^ 32" "unat (p_va h) mod 512 = unat (p_offset h) mod 512"
      using Cons.prems(1) g by (simp_all add: seg_ok_def)
    have "unat (of_nat i :: u32) = i" using Cons.prems(4) ok(1) by (simp add: unat_of_nat)
    then have a: "unat ?a < hdr_end h"
      using unat_add_small [of "p_va h AND 0xFFFFFF" "of_nat i"] Cons.prems(4) ok(1) by simp
    have "\<not> in_hdr h' ?a" if "h' \<in> set hs" for h'
    proof (rule below_seg)
      show "seg_ok h'" using Cons.prems(1) that by (simp add: list_all_iff)
      show "unat ?a < hdr_base h'" using a Cons.prems(2) that g by (auto intro: order.strict_trans2)
    qed
    then show ?thesis
      using load_segs_outside [of hs ?a] load_seg_inside [OF ok(1) Cons.prems(4) ok(2)] g by simp
  qed
qed

text \<open>The page at ELFHDR holds the headers while the segments are loaded.\<close>

definition same_page :: "pmem \<Rightarrow> pmem \<Rightarrow> bool" where
  "same_page m m' \<longleftrightarrow> (\<forall>a. 0x10000 \<le> unat a \<and> unat a < 0x11000 \<longrightarrow> m' a = m a)"

lemma same_page_load_seg:
  "seg_ok h \<Longrightarrow> same_page m m' \<Longrightarrow> same_page m (load_seg f (p_va h) (p_memsz h) off m')"
  unfolding same_page_def using below_seg load_seg_outside by (simp add: seg_ok_def)

lemma same_page_load_segs: "list_all seg_ok hs \<Longrightarrow> same_page m m' \<Longrightarrow> same_page m (load_segs f hs m')"
  by (induction hs arbitrary: m') (simp_all add: same_page_load_seg)

lemma le32_cong: "(\<And>k. k < 4 \<Longrightarrow> f (a + of_nat k) = g (b + of_nat k)) \<Longrightarrow> le32 f a = le32 g b"
proof -
  assume e: "\<And>k. k < 4 \<Longrightarrow> f (a + of_nat k) = g (b + of_nat k)"
  show ?thesis using e [of 0] e [of 1] e [of 2] e [of 3] by (simp add: le32_def)
qed

lemma read_Proghdr_cong:
  assumes "\<And>k. k < 32 \<Longrightarrow> f (a + of_nat k) = g (b + of_nat k)"
  shows "read_Proghdr f a = read_Proghdr g b"
proof -
  have "le32 f (a + of_nat c) = le32 g (b + of_nat c)" if "c \<le> 20" for c
  proof (rule le32_cong)
    fix k :: nat assume "k < 4"
    then show "f (a + of_nat c + of_nat k) = g (b + of_nat c + of_nat k)"
      using assms [of "c + k"] that by (simp add: add.assoc)
  qed
  from this [of 0] this [of 4] this [of 8] this [of 16] this [of 20] show ?thesis
    by (simp add: read_Proghdr_def)
qed

lemma read_Proghdr_page:
  assumes "same_page m m'" and "0x10000 \<le> unat ph" and "unat ph + 32 \<le> 0x11000"
  shows "read_Proghdr m' ph = read_Proghdr m ph"
proof (rule read_Proghdr_cong)
  fix k :: nat assume "k < 32"
  moreover from this have "unat (of_nat k :: u32) = k" by (simp add: unat_of_nat)
  ultimately have "unat (ph + of_nat k) = unat ph + k" using unat_add_small [of ph "of_nat k"] assms(3) by simp
  with assms \<open>k < 32\<close> show "m' (ph + of_nat k) = m (ph + of_nat k)" by (simp add: same_page_def)
qed

lemma load_loop_ok:
  assumes A: "ata_port P st busy"
  shows "same_page m0 m \<Longrightarrow> 0x10000 \<le> unat ph \<Longrightarrow> unat ph + 32 * n \<le> 0x11000 \<Longrightarrow>
    list_all seg_ok (map (\<lambda>k. read_Proghdr m0 (ph + 32 * of_nat k)) [0..<n]) \<Longrightarrow>
    \<exists>d'. load_loop P ph (ph + 32 * of_nat n) m d =
        Some (load_segs (a_data (st d) 0) (map (\<lambda>k. read_Proghdr m0 (ph + 32 * of_nat k)) [0..<n]) m, d')
      \<and> a_data (st d') = a_data (st d)"
proof (induction n arbitrary: ph m d)
  case 0
  show ?case by (subst load_loop.simps) simp
next
  case (Suc n)
  let ?h = "read_Proghdr m0 ph"
  let ?m1 = "load_seg (a_data (st d) 0) (p_va ?h) (p_memsz ?h) (p_offset ?h) m"
  have hs: "map (\<lambda>k. read_Proghdr m0 (ph + 32 * of_nat k)) [0..<Suc n]
      = ?h # map (\<lambda>k. read_Proghdr m0 (ph + 32 + 32 * of_nat k)) [0..<n]"
    by (simp add: map_upt_Suc algebra_simps del: upt_Suc)
  note ok = Suc.prems(4) [unfolded hs list.pred_inject(2)]
  have h: "read_Proghdr m ph = ?h" using read_Proghdr_page [OF Suc.prems(1,2)] Suc.prems(3) by simp
  have "hdr_end ?h + 511 < 2 ^ 32" using ok by (simp add: seg_ok_def)
  from readseg_ok [OF A this] obtain d1 where
    d1: "readseg P (p_va ?h) (p_memsz ?h) (p_offset ?h) m d = Some (?m1, d1)" "a_data (st d1) = a_data (st d)"
    by blast
  have ph: "unat (ph + 32) = unat ph + 32" using unat_add_small [of ph 32] Suc.prems(3) by simp
  have m1: "same_page m0 ?m1" using ok same_page_load_seg [OF _ Suc.prems(1)] by simp
  obtain d2 where d2: "load_loop P (ph + 32) (ph + 32 + 32 * of_nat n) ?m1 d1 =
        Some (load_segs (a_data (st d1) 0) (map (\<lambda>k. read_Proghdr m0 (ph + 32 + 32 * of_nat k)) [0..<n]) ?m1, d2)"
      "a_data (st d2) = a_data (st d1)"
    using Suc.IH [OF m1, of "ph + 32" d1] Suc.prems(2,3) ok by (auto simp: ph)
  have eph: "ph + 32 * of_nat (Suc n) = ph + 32 + 32 * of_nat n" by (simp add: algebra_simps)
  have "unat (32 * of_nat (Suc n) :: u32) = 32 * Suc n"
    using Suc.prems(2,3) by (simp add: unat_word_ariths unat_of_nat)
  then have "unat (ph + 32 * of_nat (Suc n)) = unat ph + 32 * Suc n"
    using unat_add_small [of ph "32 * of_nat (Suc n)"] Suc.prems(3) by simp
  then have "ph < ph + 32 * of_nat (Suc n)" by (simp add: word_less_nat_alt)
  then have "load_loop P ph (ph + 32 * of_nat (Suc n)) m d
      = load_loop P (ph + 32) (ph + 32 * of_nat (Suc n)) ?m1 d1"
    by (subst load_loop.simps) (simp add: h d1(1))
  with d2 show ?case unfolding hs eph by (simp add: d1(2))
qed

section \<open>The whole loader\<close>

text \<open>The first page of the image, at ELFHDR.\<close>

definition first_page :: "(nat \<Rightarrow> nat \<Rightarrow> u32) \<Rightarrow> pmem \<Rightarrow> pmem" where
  "first_page f m = load_seg f ELFHDR (of_nat SECTSIZE * 8) 0 m"

lemma first_page_image:
  assumes "i < 4096"
  shows "first_page f m (ELFHDR + of_nat i) = kbyte f i"
  using load_seg_inside [of ELFHDR "of_nat SECTSIZE * 8" i 0 f m] assms
  by (simp add: first_page_def ELFHDR_def SECTSIZE_def)

lemma first_page_word: "unat a < 4096 \<Longrightarrow> first_page f m (ELFHDR + a) = kimage f a"
  using first_page_image [of "unat a" f m] by (simp add: kimage_def)

lemma same_page_image:
  assumes "same_page (first_page f m) m'" and "unat a < 4096"
  shows "m' (ELFHDR + a) = kimage f a"
proof -
  have "unat (ELFHDR + a) = 0x10000 + unat a"
    using unat_add_small [of ELFHDR a] assms(2) by (simp add: ELFHDR_def)
  with assms show ?thesis by (simp add: same_page_def first_page_word)
qed

lemma read_Elf_page:
  assumes "same_page (first_page f m) m'"
  shows "read_Elf (\<lambda>a. m' (ELFHDR + a)) = kernel_elf f"
proof -
  note im = same_page_image [OF assms]
  have "le32 (\<lambda>a. m' (ELFHDR + a)) (of_nat c) = le32 (kimage f) (of_nat c)" if "c \<le> 4092" for c
  proof (rule le32_cong)
    fix k :: nat assume "k < 4"
    with that have "unat (of_nat c + of_nat k :: u32) < 4096"
      using unat_of_nat [of "c + k", where 'a = 32] by simp
    from im [OF this] show "m' (ELFHDR + (of_nat c + of_nat k)) = kimage f (of_nat c + of_nat k)" .
  qed
  from this [of 0] this [of 24] this [of 28] show ?thesis
    by (simp add: read_Elf_def kernel_elf_def le16_def im [of 44, simplified] im [of 45, simplified])
qed

lemma page_header:
  assumes "unat q + 32 \<le> 4096"
  shows "read_Proghdr (first_page f m) (ELFHDR + q) = read_Proghdr (kimage f) q"
proof (rule read_Proghdr_cong)
  fix k :: nat assume k: "k < 32"
  then have "unat (of_nat k :: u32) = k" by (simp add: unat_of_nat)
  then have "unat (q + of_nat k) < 4096" using unat_add_small [of q "of_nat k"] assms k by simp
  from first_page_word [OF this] show
    "first_page f m (ELFHDR + q + of_nat k) = kimage f (q + of_nat k)" by (simp add: add.assoc)
qed

lemma first_page_read:
  assumes A: "ata_port P st busy"
  shows "\<exists>d'. readseg P ELFHDR (of_nat SECTSIZE * 8) 0 m d = Some (first_page (a_data (st d) 0) m, d')
    \<and> a_data (st d') = a_data (st d)"
proof -
  have "unat (ELFHDR AND 0xFFFFFF) + unat (of_nat SECTSIZE * 8 :: u32) + 511 < 2 ^ 32"
    by (simp add: ELFHDR_def SECTSIZE_def)
  from readseg_ok [OF A this] show ?thesis by (simp add: first_page_def)
qed

lemma first_page_outside:
  assumes "4096 \<le> unat (a - ELFHDR)"
  shows "first_page f m a = m a"
  using assms load_seg_outside [of ELFHDR "of_nat SECTSIZE * 8" a]
  by (simp add: first_page_def in_seg_def seg_base_def seg_count_def ELFHDR_def SECTSIZE_def)

lemma bootmain_run:
  assumes A: "ata_port P st busy" and B: "bootable (a_data (st d) 0)"
  shows "\<exists>d'. bootmain P m d = Some (Jump (e_entry (kernel_elf (a_data (st d) 0)) AND 0xFFFFFF),
      load_segs (a_data (st d) 0) (kernel_headers (a_data (st d) 0)) (first_page (a_data (st d) 0) m), d')
    \<and> a_data (st d') = a_data (st d)"
proof -
  let ?f = "a_data (st d) 0" let ?elf = "kernel_elf ?f" let ?m1 = "first_page ?f m"
  let ?ph = "ELFHDR + e_phoff ?elf" let ?n = "unat (e_phnum ?elf)"
  note magic = B [unfolded bootable_def, THEN conjunct1]
    and small = B [unfolded bootable_def, THEN conjunct2, THEN conjunct1]
    and ok = B [unfolded bootable_def, THEN conjunct2, THEN conjunct2, THEN conjunct1]
  obtain d1 where d1: "readseg P ELFHDR (of_nat SECTSIZE * 8) 0 m d = Some (?m1, d1)"
      "a_data (st d1) = a_data (st d)"
    using first_page_read [OF A] by blast
  have ph: "unat ?ph = 0x10000 + unat (e_phoff ?elf)"
    using unat_add_small [of ELFHDR "e_phoff ?elf"] small by (simp add: ELFHDR_def)
  have hs: "map (\<lambda>k. read_Proghdr ?m1 (?ph + 32 * of_nat k)) [0..<?n] = kernel_headers ?f"
    unfolding kernel_headers_def
  proof (rule map_cong [OF refl])
    fix k assume "k \<in> set [0..<?n]"
    then have k: "32 * k + 32 \<le> 32 * ?n" by simp
    then have "unat (32 * of_nat k :: u32) = 32 * k"
      using small by (simp add: unat_word_ariths unat_of_nat)
    then have "unat (e_phoff ?elf + 32 * of_nat k) + 32 \<le> 4096"
      using unat_add_small [of "e_phoff ?elf" "32 * of_nat k"] small k by simp
    from page_header [OF this] show
      "read_Proghdr ?m1 (?ph + 32 * of_nat k) = read_Proghdr (kimage ?f) (e_phoff ?elf + 32 * of_nat k)"
      by (simp add: add.assoc)
  qed
  have sp: "same_page ?m1 ?m1" by (simp add: same_page_def)
  have "?ph + 32 * of_nat ?n = ?ph + 32 * ucast (e_phnum ?elf)" by simp
  moreover obtain d2 where "load_loop P ?ph (?ph + 32 * of_nat ?n) ?m1 d1
      = Some (load_segs (a_data (st d1) 0) (kernel_headers ?f) ?m1, d2)" "a_data (st d2) = a_data (st d1)"
    using load_loop_ok [OF A sp, of ?ph ?n d1] ph small ok unfolding hs by auto
  ultimately have l: "load_loop P ?ph (?ph + 32 * ucast (e_phnum ?elf)) ?m1 d1
      = Some (load_segs ?f (kernel_headers ?f) ?m1, d2)" "a_data (st d2) = a_data (st d)"
    using d1(2) by simp_all
  have "read_Elf (\<lambda>a. load_segs ?f (kernel_headers ?f) ?m1 (ELFHDR + a)) = ?elf"
    by (rule read_Elf_page, rule same_page_load_segs [OF ok sp])
  with l d1(1) magic read_Elf_page [OF sp] show ?thesis
    by (simp add: bootmain_def Let_def del: word_of_nat_eq_0_iff)
qed

section \<open>An image\<close>

text \<open>Fields of the image at aligned offsets are words of the disk.\<close>

lemma le32_kimage:
  assumes "4 * k + 4 < 2 ^ 32"
  shows "le32 (kimage f) (of_nat (4 * k)) = f (1 + k div 128) (k mod 128)"
proof (rule le32_bytes)
  fix j :: nat assume j: "j < 4"
  have "unat (of_nat (4 * k + j) :: u32) = (4 * k + j) mod 2 ^ LENGTH(32)"
    by (rule unat_of_nat)
  then have "unat (of_nat (4 * k + j) :: u32) = 4 * k + j" using assms j by (simp del: of_nat_add)
  moreover have "(4 * k + j) div 512 = k div 128" "(4 * k + j) mod 512 div 4 = k mod 128"
    "(4 * k + j) mod 512 mod 4 = j"
  proof -
    have d: "(4 * k + j) div 4 = k" "(4 * k + j) mod 4 = j" using j by simp_all
    show "(4 * k + j) div 512 = k div 128"
      using div_mult2_eq [of "4 * k + j" 4 128] d by simp
    show "(4 * k + j) mod 512 mod 4 = j" using d(2) by (simp add: mod_mod_cancel)
    show "(4 * k + j) mod 512 div 4 = k mod 128"
      using mod_mult2_eq [of "4 * k + j" 4 128] d j by simp
  qed
  ultimately show "kimage f (of_nat (4 * k) + of_nat j) = get_byte j (f (1 + k div 128) (k mod 128))"
    unfolding kimage_def kbyte_def sector_byte_def of_nat_add [symmetric] by simp
qed

text \<open>Two segments, at 0xF0100000 and 0xF0100400.\<close>

definition demo_image :: "nat \<Rightarrow> nat \<Rightarrow> u32" where
  "demo_image s w =
     (if s = 1 \<and> w = 0 then ELF_MAGIC else if s = 1 \<and> w = 6 then 0xF010000C
      else if s = 1 \<and> w = 7 then 52 else if s = 1 \<and> w = 11 then 2
      else if s = 1 \<and> w = 14 then 0x1000 else if s = 1 \<and> w = 15 then 0xF0100000
      else if s = 1 \<and> w = 18 then 0x234 else if s = 1 \<and> w = 22 then 0x1400
      else if s = 1 \<and> w = 23 then 0xF0100400 else if s = 1 \<and> w = 26 then 0x10
      else of_nat (1000 * s + w))"

lemma demo_elf:
  "kernel_elf demo_image = \<lparr>e_magic = ELF_MAGIC, e_entry = 0xF010000C, e_phoff = 52, e_phnum = 2\<rparr>"
proof -
  have "kimage demo_image 44 = 2" "kimage demo_image 45 = 0"
    by (simp_all add: kimage_def kbyte_def sector_byte_def get_byte_def demo_image_def)
  then show ?thesis
    using le32_kimage [of 0 demo_image] le32_kimage [of 6 demo_image] le32_kimage [of 7 demo_image]
    by (simp add: kernel_elf_def read_Elf_def le16_def demo_image_def)
qed

lemma demo_headers:
  "kernel_headers demo_image =
     [\<lparr>p_type = 1013, p_offset = 0x1000, p_va = 0xF0100000, p_filesz = 1017, p_memsz = 0x234\<rparr>,
      \<lparr>p_type = 1021, p_offset = 0x1400, p_va = 0xF0100400, p_filesz = 1025, p_memsz = 0x10\<rparr>]"
proof -
  have u: "[0..<2] = [0, 1 :: nat]" by (simp add: upt_rec)
  show ?thesis
  using le32_kimage [of 13 demo_image] le32_kimage [of 14 demo_image] le32_kimage [of 15 demo_image]
    le32_kimage [of 17 demo_image] le32_kimage [of 18 demo_image] le32_kimage [of 21 demo_image]
    le32_kimage [of 22 demo_image] le32_kimage [of 23 demo_image] le32_kimage [of 25 demo_image]
    le32_kimage [of 26 demo_image]
  by (simp add: kernel_headers_def demo_elf read_Proghdr_def demo_image_def u)
qed

lemma demo_bootable: "bootable demo_image"
  unfolding bootable_def demo_headers demo_elf
  by (simp add: seg_ok_def seg_base_def SECTSIZE_def)

section \<open>Properties\<close>

text \<open>
  C15: bootmain. From a first drive that becomes ready after any finite time and holds a
  well-formed image from its second sector on, the boot loader ends, jumps to the entry point of the ELF
  header with its high byte masked, and has put every byte of every segment at the segment's
  address, masked to 24 bits; outside the sectors of the segments and the page of the headers,
  memory is as it was, and the drives are not changed.
\<close>

theorem bootmain_loads:
  assumes "ata_port P st busy" and "bootable (a_data (st d) 0)"
  shows "\<exists>m' d'. bootmain P m d = Some (Jump (e_entry (kernel_elf (a_data (st d) 0)) AND 0xFFFFFF), m', d')
    \<and> (\<forall>h \<in> set (kernel_headers (a_data (st d) 0)). \<forall>i < unat (p_memsz h).
         m' ((p_va h AND 0xFFFFFF) + of_nat i) = kbyte (a_data (st d) 0) (unat (p_offset h) + i))
    \<and> (\<forall>a. 4096 \<le> unat (a - ELFHDR) \<and> (\<forall>h \<in> set (kernel_headers (a_data (st d) 0)). \<not> in_hdr h a)
         \<longrightarrow> m' a = m a)
    \<and> a_data (st d') = a_data (st d)"
proof -
  let ?f = "a_data (st d) 0"
  let ?m' = "load_segs ?f (kernel_headers ?f) (first_page ?f m)"
  have ok: "list_all seg_ok (kernel_headers ?f)"
    "sorted_wrt (\<lambda>h h'. hdr_end h \<le> hdr_base h') (kernel_headers ?f)"
    using assms(2) by (simp_all add: bootable_def)
  have "\<forall>h \<in> set (kernel_headers ?f). \<forall>i < unat (p_memsz h).
      ?m' ((p_va h AND 0xFFFFFF) + of_nat i) = kbyte ?f (unat (p_offset h) + i)"
    using load_segs_content [OF ok] by blast
  moreover have "\<forall>a. 4096 \<le> unat (a - ELFHDR) \<and> (\<forall>h \<in> set (kernel_headers ?f). \<not> in_hdr h a) \<longrightarrow> ?m' a = m a"
    using load_segs_outside first_page_outside by metis
  ultimately show ?thesis using bootmain_run [OF assms, of m] by blast
qed

theorem bootmain_loads_witness:
  "\<exists>m' d'. bootmain demo_ports (\<lambda>_. 7) (demo_ata\<lparr>a_data := \<lambda>_. demo_image\<rparr>, 10) = Some (Jump 0x10000C, m', d')
    \<and> m' 0x100003 = kbyte demo_image 0x1003 \<and> m' 0x100408 = kbyte demo_image 0x1408 \<and> m' 0x200000 = 7"
proof -
  let ?d = "(demo_ata\<lparr>a_data := \<lambda>_. demo_image\<rparr>, 10 :: nat)"
  have f: "a_data (fst ?d) 0 = demo_image" by simp
  have "bootable (a_data (fst ?d) 0)" unfolding f by (rule demo_bootable)
  from bootmain_loads [OF demo_ports_ok this, of "\<lambda>_. 7", unfolded f demo_headers demo_elf]
  obtain m' d' where r: "bootmain demo_ports (\<lambda>_. 7) ?d = Some (Jump 0x10000C, m', d')"
    and s1: "\<forall>i < 0x234. m' (0x100000 + of_nat i) = kbyte demo_image (0x1000 + i)"
    and s2: "\<forall>i < 0x10. m' (0x100400 + of_nat i) = kbyte demo_image (0x1400 + i)"
    and rest: "4096 \<le> unat (0x200000 - ELFHDR) \<and> \<not> in_seg 0xF0100000 0x234 0x200000
        \<and> \<not> in_seg 0xF0100400 0x10 0x200000 \<longrightarrow> m' 0x200000 = 7" by auto
  have "m' 0x200000 = 7"
    using rest by (simp add: in_seg_def seg_base_def seg_count_def ELFHDR_def SECTSIZE_def)
  with r s1 [rule_format, of 3] s2 [rule_format, of 8] show ?thesis by auto
qed

text \<open>
  An image without the ELF magic number: nothing but its first page is loaded, and the loader ends
  in its endless loop after it has told the emulator to stop.
\<close>

theorem bootmain_bad:
  assumes A: "ata_port P st busy" and "e_magic (kernel_elf (a_data (st d) 0)) \<noteq> ELF_MAGIC"
  shows "\<exists>d'. bootmain P m d = Some (Bad, first_page (a_data (st d) 0) m,
    outw P 0x8A00 0x8E00 (outw P 0x8A00 0x8A00 d'))"
proof -
  obtain d1 where "readseg P ELFHDR (of_nat SECTSIZE * 8) 0 m d = Some (first_page (a_data (st d) 0) m, d1)"
    using first_page_read [OF A] by blast
  moreover have "same_page (first_page (a_data (st d) 0) m) (first_page (a_data (st d) 0) m)"
    by (simp add: same_page_def)
  ultimately show ?thesis using assms(2) read_Elf_page by (fastforce simp: bootmain_def Let_def)
qed

end
