(* ===== verification/Spec2Isabelle.thy ===== *)
theory Spec2Isabelle
  imports Console_Spec Cstring_Spec Demo_State Env_Spec Pmap_Spec Printf_Spec Printf_Buffers Syscall_Spec Trap_Spec File_Client_Spec Bc_Spec Fork_Spec Kdebug_Spec Monitor_Spec Fsformat_Spec Spawn_Spec Kinit Boot_Loader_Spec Ide_Spec
begin

text \<open>
  A model of the JOS exokernel (kern/), of the C library its kernel and programs share (lib/),
  of the user-level library above the system calls (lib/), of its user-level file server, disk
  driver and disk formatter (fs/), and of the boot loader (boot/main.c), with the theorems that make
  them correct. The configuration is the one
  of inc/challenge.h, with every challenge enabled.

  The parts and how they interact. The boot loader reads the kernel from the disk; i386_init
  (kern/init.c) sets up the console, the memory (kern/pmap.c), the interrupt controllers and the
  timer (kern/picirq.c, kern/kclock.c), loads the first programs and runs one of them. A trap (kern/trap.c) saves the frame of the running
  environment and dispatches: a system call (kern/syscall.c) works on environments (kern/env.c)
  and their address spaces (kern/pmap.c); a fault is delivered to the user-level handler of the
  environment on its exception stack; the timer calls the scheduler (kern/sched.c). The page
  tables, the reference counts of the physical pages and the free list are shared by all of
  them. The console (kern/console.c) is fed by the devices and drained by sys_cgetc.
  Formatted output (lib/printfmt.c) goes through the buffers of each front end. Breakpoints and
  panics enter the kernel monitor (kern/monitor.c), whose backtrace looks addresses up in the
  debugging tables (kern/kdebug.c). In user mode, fork and the fault handlers (lib/fork.c,
  lib/pgfault.c) and spawn (lib/spawn.c) build address spaces by system calls. The file server
  keeps the disk (fs/ide.c) in a block cache (fs/bc.c) and the files on it (fs/fs.c), and answers the
  requests (fs/serv.c) that the descriptors of a program (lib/fd.c, lib/file.c) and its
  memory-mapped files (lib/mmap.c) send; the disk image itself comes from fs/fsformat.c.

  Theories, by part.
  Shared: Prelude (error codes of inc/error.h, bytes and words); Mmu (inc/mmu.h,
  inc/memlayout.h, inc/types.h, kern/pmap.h); Queue (inc/queue.h); Interfaces (a bounded queue
  and an allocator, as locales); Kstate (the structures and globals of the kernel); Ports (the port
  instructions of inc/x86.h). Demo_State is a small kernel state on which the hypotheses of the
  properties hold.
  Boot: Boot_Loader, Boot_Loader_Spec (boot/main.c); Boot, with Boot_Walk, Boot_Map, Page_Check,
  Boot_Init and Boot_Spec (i386_vm_init of kern/pmap.c and its self tests); Boot_Env and Kinit
  (kern/init.c); Pic (kern/picirq.c, kern/kclock.c).
  Kernel: Pmap, with the invariant in Pmap_Refs and Pmap_Inv, and Pmap_Insert, Pmap_Boot,
  User_Mem, Tlb, Vmem, Vmem_Inv, Pmap_Spec (kern/pmap.c); Env_Model, Env_Inv, Env_Alloc, Env_Spec,
  and Icode_Inv, Icode_Spec for the loading of programs (kern/env.c); Sched (kern/sched.c); Syscall,
  Syscall_Inv, Syscall_Spec (kern/syscall.c); Trap, Trap_Spec (kern/trap.c); Console, Console_Spec
  and, at the level of the ports, Console_Ports (kern/console.c); Monitor, Monitor_Spec
  (kern/monitor.c); Kdebug, Kdebug_Spec (kern/kdebug.c).
  Library: Cstring, Cstring_Spec (lib/string.c); Printfmt, Printf, Printf_Spec, Printf_Buffers
  (lib/printfmt.c and the front ends in kern/printf.c, lib/printf.c, lib/fprintf.c,
  lib/readline.c).
  User level: Ulib (lib/syscall.c, lib/fork.c, lib/pgfault.c and its variants, lib/pageref.c,
  lib/ipc.c, lib/priority.c, lib/checkpoint.c), with Ulib_Inv, Fork_Inv, Fork_Loop and Fork_Spec
  for fork; File_Client, File_Client_Spec (lib/fd.c, lib/file.c); Mmap, Mmap_Spec (lib/mmap.c); Spawn,
  Spawn_Inv, Spawn_Seg, Spawn_Spec (lib/spawn.c).
  Files: Ide, Ide_Spec (fs/ide.c); Bc, Bc_Spec (fs/bc.c and the bitmap of fs/fs.c); Fs, Fs_Inv,
  Fs_File, Fs_Spec (fs/fs.c); Serv, Serv_Spec (fs/serv.c); Fsformat, Fsformat_Inv, Fsformat_Spec
  (fs/fsformat.c).

  The correspondence. A C function is a HOL function of the same name that takes the state last
  and returns it; a NULL dereference, a failed assertion and a panic are None, and an error
  code is \<open>Inl\<close> of an \<open>errno\<close>. 32-bit values are words. A \<open>struct Page *\<close> or \<open>struct Env *\<close> is
  the index in its array, a kernel pointer into physical memory the pair of a page number and a
  word index. A function that does not return to its caller ends in \<open>Run\<close> (an environment
  runs) or \<open>Monitor\<close>, the constructors of \<open>flow\<close>. The user-level functions run on the state of
  the kernel: a system call is the dispatcher of the kernel on the registers of the running
  environment (without trap's saving of the frame, which is in Trap), and the words they read through vpd and vpt come from the page tables. The
  descriptors of a program are a state of their own (\<open>client\<close>), the pages it maps and the rounds
  of the file server it has waited for; the program of Mmap and Spawn has both. The disk image
  of fs/fsformat.c is an array of bytes, read by the file server as its disk. The code that programs
  devices takes the port instructions as a parameter (\<open>'d ports\<close>, with the state \<open>'d\<close> of the
  devices); what the devices do with them is a named hypothesis (\<open>machine_ok\<close>, \<open>board_port\<close>,
  \<open>con_port\<close>, \<open>con_sources\<close>, and the automaton of the disk in Ide_Spec), with an automaton for which
  it holds in the witnesses. The serial and the parallel port of \<open>con_port\<close> are busy for a time after
  each byte, and a byte written to a busy port is lost, so that the polling of the ready bits matters. i386_init works on the record \<open>machine\<close> of the kernel's globals and
  the devices.

  What the lemmas show. For the start: the boot loader puts the kernel where its headers say and
  jumps to its entry; i386_vm_init gets through its self tests and builds the documented address
  space, with the reference count of every page (\<open>boot_refs\<close>: one for page 0, the I/O hole, the
  kernel, its boot-time structures, and the 67 page tables \<open>kernel_tables\<close> that come from the free
  list, which then holds exactly the pages without a reference); env_create puts every byte of a program where it belongs; and i386_init as a whole ends in
  the first program, with the timer interrupt on its way to the scheduler. For memory: \<open>mm_inv\<close> (page tables are well formed, every reference
  count is the number of references, and the pages on the free list have none) is kept by
  every operation on address spaces, the effect on the translations is exactly the one asked
  for, and the TLB never holds a stale translation of the running environment. For
  environments: creation, destruction, ids and permissions. For the scheduler: which
  environment runs. For messages: the queue of waiting senders. For traps: they never return,
  and how each kind ends. For fork: the parent and the child share every page, writable on
  neither side; a write on either side faults, and what it writes is not seen on the other. For spawn: the child finds its
  arguments on its stack and the bytes of the file in its segments. For the library: each function
  against a reference definition. For the monitor: the words of the command line, the command
  they select, and what the commands do to the page tables; for the debugging tables: the binary
  search against a linear one. For the file server: the block bitmap is an allocator, reading
  and writing refine operations on the contents of the file, and every request keeps the table
  of open files well formed, also when the clients map, store to and unmap their Fd pages in
  between (the events of Serv_Spec); composed with the client, what a program writes it reads back,
  and composed with the formatter, every file put on the disk is read back byte for byte, whatever
  malloc left in the memory of the directory entries. For the
  devices: the disk driver reads what it has written, and the console at the ports refines the
  console on bytes.

  Bounds and fuel. \<open>cons_putc_fuel\<close> needs two levels, because the blanks of a tab are no tabs
  (\<open>cons_putc_unfold\<close>); \<open>bc_access\<close> needs four, because a fault on a block can fault on the
  superblock and on bitmap blocks only (\<open>access_ok\<close> and its lemmas). The waits of the serial and
  the parallel port end after 12800 rounds, as in the code. Loops that may not end,
  such as those over strings that are not terminated, are \<open>partial_function\<close>s, and the
  properties show that they return.

  Not modelled: assembly (boot/boot.S, the entry points of the kernel and of traps), the messages
  that the kernel prints about itself, the test program fs/test.c, the example programs in user/,
  the start-up glue of programs (lib/libmain.c, lib/exit.c, lib/console.c, lib/panic.c), and
  origin/, which holds earlier stages of the same sources and a third-party network stack.
\<close>

end
